(* ===== verification/Prelude.thy ===== *)
theory Prelude
  imports Main "HOL-Library.Word"
begin

text \<open>
  The vocabulary every component of the development shares: the machine types of the C
  sources, NUL-terminated strings inside byte buffers, the functions of the C library the
  sources call on them (\<open>strncpy\<close>, \<open>snprintf\<close>, \<open>strstr\<close>, \<open>atoi\<close>, the conversions of
  \<open>sscanf\<close> and \<open>printf\<close>), and the lemmas about them.

  A \<open>char\<close> array is a \<^typ>\<open>string\<close> (a \<^typ>\<open>char list\<close>) of its size, a \<open>uint8_t\<close> array a
  list of \<^typ>\<open>8 word\<close>. A function whose C counterpart can have undefined behaviour (a read
  behind a buffer, a write past its end, \<open>NULL\<close> given to \<open>%s\<close>) returns an \<open>option\<close>:
  \<^const>\<open>None\<close> is that undefined behaviour, never an error the code reports. Errors the code
  reports are its return codes.
\<close>

unbundle bit_operations_syntax

type_synonym u8 = "8 word"
type_synonym u16 = "16 word"
type_synonym u32 = "32 word"
type_synonym u64 = "64 word"

named_theorems buf_simps \<open>lengths and contents of buffers after the C library's writes\<close>
named_theorems scan_simps \<open>evaluation of the sscanf conversions on printed text\<close>

abbreviation NUL :: char where "NUL \<equiv> CHR 0x00"

text \<open>A \<open>char\<close> read as a \<open>uint8_t\<close> and back.\<close>

definition byte_of :: "char \<Rightarrow> u8" where
  "byte_of c = word_of_nat (of_char c)"

definition char_of_byte :: "u8 \<Rightarrow> char" where
  "char_of_byte b = char_of (unat b)"

lemma of_char_less_256 [simp]: "(of_char c :: nat) < 256"
  by (metis of_char_mod_256 mod_less_divisor zero_less_numeral)

lemma unat_byte_of [simp]: "unat (byte_of c) = of_char c"
  by (simp add: byte_of_def unat_of_nat take_bit_eq_mod)

lemma char_of_byte_of [simp]: "char_of_byte (byte_of c) = c"
  by (simp add: char_of_byte_def)

lemma byte_of_char_of_byte [simp]: "byte_of (char_of_byte b) = b"
  using unsigned_less[of b, where ?'a = nat] by (simp add: byte_of_def char_of_byte_def)

lemma byte_of_inj [simp]: "byte_of c = byte_of d \<longleftrightarrow> c = d"
  by (metis char_of_byte_of)

section \<open>NUL-terminated strings in buffers\<close>

text \<open>The string a \<open>char *\<close> to the start of \<open>s\<close> denotes, when \<open>s\<close> holds a NUL.\<close>

definition cstr :: "string \<Rightarrow> string" where
  "cstr s = takeWhile (\<lambda>c. c \<noteq> NUL) s"

text \<open>The string at offset \<open>i\<close> of a buffer; \<^const>\<open>None\<close>: no NUL before its end.\<close>

definition cstr_at :: "string \<Rightarrow> nat \<Rightarrow> string option" where
  "cstr_at mem i = (if NUL \<in> set (drop i mem) then Some (cstr (drop i mem)) else None)"

lemma cstr_Nil [simp]: "cstr [] = []"
  by (simp add: cstr_def)

lemma cstr_Cons: "cstr (c # s) = (if c = NUL then [] else c # cstr s)"
  by (simp add: cstr_def)

lemma cstr_append_NUL [simp]: "NUL \<notin> set s \<Longrightarrow> cstr (s @ NUL # t) = s"
  by (induction s) (auto simp: cstr_Cons)

lemma cstr_id [simp]: "NUL \<notin> set s \<Longrightarrow> cstr s = s"
  by (induction s) (auto simp: cstr_Cons)

lemma cstr_no_NUL [simp]: "NUL \<notin> set (cstr s)"
  by (auto simp: cstr_def dest: set_takeWhileD)

lemma cstr_idem [simp]: "cstr (cstr s) = cstr s"
  by simp

lemma length_cstr_le: "length (cstr s) \<le> length s"
  by (simp add: cstr_def length_takeWhile_le)

lemma length_cstr_less: "NUL \<in> set s \<Longrightarrow> length (cstr s) < length s"
  by (induction s) (auto simp: cstr_Cons)

lemma cstr_split: "NUL \<in> set s \<Longrightarrow> s = cstr s @ NUL # drop (Suc (length (cstr s))) s"
  by (induction s) (auto simp: cstr_Cons)

lemma cstr_replicate_NUL [simp]: "cstr (replicate n NUL) = []"
  by (cases n) (simp_all add: cstr_Cons)

lemma cstr_append_zeros [simp]: "NUL \<notin> set s \<Longrightarrow> cstr (s @ replicate n NUL) = s"
  by (induction s) (auto simp: cstr_Cons)

section \<open>Writes into buffers\<close>

text \<open>\<open>memcpy (dst + off, src, length src)\<close> inside the bounds of \<open>dst\<close>.\<close>

definition put_at :: "'a list \<Rightarrow> nat \<Rightarrow> 'a list \<Rightarrow> 'a list" where
  "put_at dst off src = take off dst @ src @ drop (off + length src) dst"

definition get_at :: "'a list \<Rightarrow> nat \<Rightarrow> nat \<Rightarrow> 'a list" where
  "get_at buf off n = take n (drop off buf)"

lemma length_put_at [simp, buf_simps]:
  "off + length src \<le> length dst \<Longrightarrow> length (put_at dst off src) = length dst"
  by (simp add: put_at_def)

lemma get_put_same [simp, buf_simps]:
  "off + length src \<le> length dst \<Longrightarrow> n = length src \<Longrightarrow> get_at (put_at dst off src) off n = src"
  by (simp add: put_at_def get_at_def)

lemma length_get_at [simp, buf_simps]: "off + n \<le> length buf \<Longrightarrow> length (get_at buf off n) = n"
  by (simp add: get_at_def)

lemma get_at_step: "off < length b \<Longrightarrow> get_at b off (Suc n) = b ! off # get_at b (Suc off) n"
  by (simp add: get_at_def Cons_nth_drop_Suc[symmetric])

lemma get_at_join: "off' = off + m \<Longrightarrow> get_at b off m @ get_at b off' n = get_at b off (m + n)"
  by (simp add: get_at_def take_add drop_drop add.commute)

lemma get_at_all: "n = length b \<Longrightarrow> get_at b 0 n = b"
  by (simp add: get_at_def)

lemma put_at_before [buf_simps]:
  "off + length src \<le> length dst \<Longrightarrow> i < off \<Longrightarrow> put_at dst off src ! i = dst ! i"
  by (simp add: put_at_def nth_append)

lemma put_at_after [buf_simps]:
  "off + length src \<le> length dst \<Longrightarrow> off + length src \<le> i \<Longrightarrow> i < length dst
   \<Longrightarrow> put_at dst off src ! i = dst ! i"
  by (auto simp: put_at_def nth_append min_def)

lemma put_at_get_at [simp]: "off + n \<le> length buf \<Longrightarrow> put_at buf off (get_at buf off n) = buf"
  by (simp add: put_at_def get_at_def min_absorb2)
    (metis add.commute append.assoc append_take_drop_id drop_drop)

lemma put_at_join: "off \<le> length d \<Longrightarrow> put_at (put_at d off s) (off + length s) t = put_at d off (s @ t)"
  by (simp add: put_at_def min_absorb2 ac_simps)

lemma put_at_put_at [simp]:
  "length s = length t \<Longrightarrow> off + length t \<le> length buf \<Longrightarrow> put_at (put_at buf off s) off t = put_at buf off t"
  by (simp add: put_at_def min_absorb2)

text \<open>
  \<open>strncpy (dst, src, n)\<close>: the first \<open>n\<close> bytes of \<open>dst\<close> become the string \<open>src\<close>, cut to
  \<open>n\<close> characters or padded with NULs; \<open>memset (dst, 0, n)\<close>.
\<close>

definition strncpy :: "string \<Rightarrow> string \<Rightarrow> nat \<Rightarrow> string" where
  "strncpy dst src n = take n (cstr src @ replicate n NUL) @ drop n dst"

definition zeros :: "nat \<Rightarrow> string" where
  "zeros n = replicate n NUL"

text \<open>What \<open>snprintf (dst, n, "%s", s)\<close> leaves in \<open>dst\<close> as a C string.\<close>

definition snprintf_s :: "nat \<Rightarrow> string \<Rightarrow> string" where
  "snprintf_s n s = take (n - 1) (cstr s)"

lemma length_strncpy [simp, buf_simps]: "n \<le> length dst \<Longrightarrow> length (strncpy dst src n) = length dst"
  by (simp add: strncpy_def)

lemma length_zeros [simp, buf_simps]: "length (zeros n) = n"
  by (simp add: zeros_def)

lemma cstr_zeros [simp, buf_simps]: "cstr (zeros n) = []"
  by (simp add: zeros_def)

lemma cstr_strncpy_short:
  assumes "NUL \<notin> set src" "length src < n" "n \<le> length dst"
  shows "cstr (strncpy dst src n) = src"
proof -
  obtain k where "n - length src = Suc k"
    using assms(2) by (cases "n - length src") auto
  then have "strncpy dst src n = src @ NUL # replicate k NUL @ drop n dst"
    using assms by (simp add: strncpy_def min_def take_Cons' flip: replicate_Suc)
  then show ?thesis using assms(1) by simp
qed

lemma snprintf_s_id: "NUL \<notin> set s \<Longrightarrow> length s < n \<Longrightarrow> snprintf_s n s = s"
  by (simp add: snprintf_s_def)

section \<open>Searching\<close>

text \<open>\<open>strstr\<close>: the suffix of the haystack from the first occurrence, if there is one.\<close>

fun strstr :: "string \<Rightarrow> string \<Rightarrow> string option" where
  "strstr [] pat = (if pat = [] then Some [] else None)"
| "strstr (c # s) pat = (if take (length pat) (c # s) = pat then Some (c # s) else strstr s pat)"

text \<open>\<open>strncmp (a, b, n) == 0\<close> and \<open>strchr\<close> as an index.\<close>

definition strncmp_eq :: "string \<Rightarrow> string \<Rightarrow> nat \<Rightarrow> bool" where
  "strncmp_eq a b n \<longleftrightarrow> take n (cstr a) = take n (cstr b)"

definition strchr :: "string \<Rightarrow> char \<Rightarrow> nat option" where
  "strchr s c = (if c \<in> set s then Some (length (takeWhile (\<lambda>d. d \<noteq> c) s)) else None)"

lemma strchr_append [simp]: "c \<notin> set s \<Longrightarrow> strchr (s @ c # t) c = Some (length s)"
  by (simp add: strchr_def takeWhile_append)

lemma takeWhile_neq_length:
  "c \<in> set s \<Longrightarrow> length (takeWhile (\<lambda>d. d \<noteq> c) s) < length s
     \<and> s ! length (takeWhile (\<lambda>d. d \<noteq> c) s) = c"
  by (induction s) auto

lemma strchr_less: "strchr s c = Some i \<Longrightarrow> i < length s \<and> s ! i = c \<and> c \<notin> set (take i s)"
  by (auto simp: strchr_def takeWhile_neq_length takeWhile_eq_take[symmetric]
      split: if_splits dest: set_takeWhileD)

end
