(* ===== verification/Codec.thy ===== *)
theory Codec
  imports Prelude
begin

text \<open>
  C structures that are copied in and out of byte buffers with \<open>memcpy\<close>. The interface a
  structure's layout provides (its size, and that reading it back gives the same structure)
  is the locale \<open>struct_codec\<close>; \<open>struct_in_buffer\<close> adds the place in a larger buffer, as the
  A/B metadata at offset 2048 of the misc partition has one. The clients' lemmas on load and
  store are proved there once and used through the interpretations of the layouts.
\<close>

section \<open>Little-endian integers in memory\<close>

text \<open>
  The targets of the repository (ARM and x86) keep integers little-endian: the bytes of a
  \<open>uint32_t\<close> in memory, and the integer four bytes of memory are.
\<close>

definition le_bytes32 :: "u32 \<Rightarrow> u8 list" where
  "le_bytes32 w = [ucast w, ucast (drop_bit 8 w), ucast (drop_bit 16 w), ucast (drop_bit 24 w)]"

definition of_le_bytes32 :: "u8 list \<Rightarrow> u32" where
  "of_le_bytes32 bs = ucast (bs ! 0) OR push_bit 8 (ucast (bs ! 1)) OR push_bit 16 (ucast (bs ! 2))
     OR push_bit 24 (ucast (bs ! 3))"

lemma length_le_bytes32 [simp]: "length (le_bytes32 w) = 4"
  by (simp add: le_bytes32_def)

lemma of_le_bytes32_le_bytes32 [simp]: "of_le_bytes32 (le_bytes32 w) = w"
proof (rule bit_word_eqI)
  fix n assume "n < LENGTH(32)"
  then consider "n < 8" | "8 \<le> n" "n < 16" | "16 \<le> n" "n < 24" | "24 \<le> n" "n < 32" by fastforce
  then show "bit (of_le_bytes32 (le_bytes32 w)) n = bit w n"
    by cases (auto simp: of_le_bytes32_def le_bytes32_def bit_simps)
qed

lemma le_bytes32_of_le_bytes32 [simp]: "length bs = 4 \<Longrightarrow> le_bytes32 (of_le_bytes32 bs) = bs"
proof -
  assume "length bs = 4"
  then obtain a b c d where bs: "bs = [a, b, c, d]"
    by (auto simp: numeral_eq_Suc length_Suc_conv)
  have "ucast (of_le_bytes32 bs) = a" "ucast (drop_bit 8 (of_le_bytes32 bs)) = b"
    "ucast (drop_bit 16 (of_le_bytes32 bs)) = c" "ucast (drop_bit 24 (of_le_bytes32 bs)) = d"
    by (rule bit_word_eqI; auto simp: bs of_le_bytes32_def bit_simps dest: bit_imp_le_length)+
  then show ?thesis by (simp add: le_bytes32_def bs)
qed

section \<open>The interface of a structure's layout\<close>

locale struct_codec =
  fixes enc :: "'s \<Rightarrow> 'b list" and dec :: "'b list \<Rightarrow> 's" and sz :: nat and wf :: "'s \<Rightarrow> bool"
  assumes enc_len: "wf x \<Longrightarrow> length (enc x) = sz"
    and dec_enc: "wf x \<Longrightarrow> dec (enc x) = x"
    and dec_wf: "length b = sz \<Longrightarrow> wf (dec b)"
    and enc_dec: "length b = sz \<Longrightarrow> enc (dec b) = b"
begin

lemma enc_inj: "wf x \<Longrightarrow> wf y \<Longrightarrow> enc x = enc y \<Longrightarrow> x = y"
  by (metis dec_enc)

lemma dec_inj: "length a = sz \<Longrightarrow> length b = sz \<Longrightarrow> dec a = dec b \<Longrightarrow> a = b"
  by (metis enc_dec)

end

locale struct_in_buffer = struct_codec +
  fixes off :: nat and total :: nat
  assumes fits: "off + sz \<le> total"
begin

text \<open>\<open>memcpy (&s, buf + off, sizeof s)\<close> and \<open>memcpy (buf + off, &s, sizeof s)\<close>, spelled out
  by the clients as \<open>dec (get_at buf off sz)\<close> and \<open>put_at buf off (enc s)\<close>.\<close>

lemma load_store: "length buf = total \<Longrightarrow> wf x \<Longrightarrow> dec (get_at (put_at buf off (enc x)) off sz) = x"
  using fits by (simp add: enc_len dec_enc)

lemma store_load: "length buf = total \<Longrightarrow> put_at buf off (enc (dec (get_at buf off sz))) = buf"
  using fits by (simp add: enc_dec)

lemma load_wf: "length buf = total \<Longrightarrow> wf (dec (get_at buf off sz))"
  using fits by (simp add: dec_wf)

lemma store_len: "length buf = total \<Longrightarrow> wf x \<Longrightarrow> length (put_at buf off (enc x)) = total"
  using fits by (simp add: enc_len)

lemma store_frame:
  "length buf = total \<Longrightarrow> wf x \<Longrightarrow> i < off \<or> off + sz \<le> i \<Longrightarrow> i < total
   \<Longrightarrow> put_at buf off (enc x) ! i = buf ! i"
  using fits by (auto simp: enc_len put_at_before put_at_after)

lemma store_store:
  "length buf = total \<Longrightarrow> wf x \<Longrightarrow> wf y
   \<Longrightarrow> put_at (put_at buf off (enc x)) off (enc y) = put_at buf off (enc y)"
  using fits by (simp add: enc_len)

end

end
