(* ===== verification/MiscDev.thy ===== *)
theory MiscDev
  imports Prelude
begin

text \<open>
  The block device \<open>/dev/misc\<close> behind the C library's \<open>FILE\<close> calls, as the bootloader
  message code uses it: one \<open>fopen\<close>, one \<open>fread\<close> or \<open>fwrite\<close> from the start of the device,
  one \<open>fclose\<close>. Whether each call succeeds, and how many bytes a transfer moves, is decided
  by the environment, so it is part of the state. Writing a block device from its start
  leaves the bytes behind the written ones alone.
\<close>

text \<open>The slots of an A/B system (\<open>bootloader_message.h\<close>).\<close>

datatype SlotType_e = SLOT_A | SLOT_B

fun slot_no :: "SlotType_e \<Rightarrow> nat" where
  "slot_no SLOT_A = 0"
| "slot_no SLOT_B = 1"

record misc_io =
  dev :: "u8 list"       \<comment> \<open>the bytes of the device\<close>
  rd_open :: bool        \<comment> \<open>\<open>fopen (.., "rb")\<close> succeeds\<close>
  rd_count :: nat        \<comment> \<open>\<open>fread\<close> gets at most so many bytes\<close>
  rd_close :: bool       \<comment> \<open>\<open>fclose\<close> after reading returns 0\<close>
  wr_open :: bool        \<comment> \<open>\<open>fopen (.., "wb")\<close> succeeds\<close>
  wr_count :: nat        \<comment> \<open>\<open>fwrite\<close> moves at most so many bytes\<close>
  wr_close :: bool       \<comment> \<open>\<open>fclose\<close> after writing returns 0\<close>

definition misc_fread :: "misc_io \<Rightarrow> nat \<Rightarrow> u8 list" where
  "misc_fread io n = take (min n (rd_count io)) (dev io)"

definition misc_fwrite :: "misc_io \<Rightarrow> u8 list \<Rightarrow> nat \<times> misc_io" where
  "misc_fwrite io bs =
     (let n = min (length bs) (min (wr_count io) (length (dev io)))
      in (n, io\<lparr>dev := put_at (dev io) 0 (take n bs)\<rparr>))"

text \<open>No call fails and no transfer of \<open>n\<close> bytes is short.\<close>

definition misc_healthy :: "nat \<Rightarrow> misc_io \<Rightarrow> bool" where
  "misc_healthy n io \<longleftrightarrow> n \<le> length (dev io) \<and> rd_open io \<and> n \<le> rd_count io \<and> rd_close io
     \<and> wr_open io \<and> n \<le> wr_count io \<and> wr_close io"

lemma misc_fread_healthy: "misc_healthy n io \<Longrightarrow> misc_fread io n = get_at (dev io) 0 n"
  by (simp add: misc_healthy_def misc_fread_def get_at_def min_absorb1)

lemma length_misc_fread_healthy: "misc_healthy n io \<Longrightarrow> length (misc_fread io n) = n"
  by (simp add: misc_fread_healthy misc_healthy_def)

lemma misc_fwrite_healthy:
  "misc_healthy n io \<Longrightarrow> length bs = n \<Longrightarrow> misc_fwrite io bs = (n, io\<lparr>dev := put_at (dev io) 0 bs\<rparr>)"
  by (simp add: misc_healthy_def misc_fwrite_def Let_def min_absorb1)

lemma misc_healthy_upd:
  "misc_healthy n io \<Longrightarrow> length bs = n \<Longrightarrow> misc_healthy n (io\<lparr>dev := put_at (dev io) 0 bs\<rparr>)"
  by (simp add: misc_healthy_def)

lemma misc_fread_upd:
  "misc_healthy n io \<Longrightarrow> length bs = n \<Longrightarrow> misc_fread (io\<lparr>dev := put_at (dev io) 0 bs\<rparr>) n = bs"
  by (simp add: misc_fread_healthy misc_healthy_upd) (simp add: misc_healthy_def)

lemma misc_fwrite_length: "length (dev (snd (misc_fwrite io bs))) = length (dev io)"
  by (simp add: misc_fwrite_def Let_def)

text \<open>Whatever a write does, bytes behind what was asked for stay.\<close>

lemma misc_fwrite_frame:
  "length bs \<le> i \<Longrightarrow> i < length (dev io) \<Longrightarrow> dev (snd (misc_fwrite io bs)) ! i = dev io ! i"
  by (auto simp: misc_fwrite_def Let_def intro!: put_at_after)

end
