(* ===== verification/Crc.thy ===== *)
theory Crc
  imports Prelude
begin

text \<open>
  The two CRC-32 routines of the repository: the bit-by-bit \<open>crc32\<close> of
  \<open>ubootenv/ubootenv.c\<close>, which guards the U-Boot environment image, and the table-driven
  \<open>avb_crc32\<close> of \<open>bootloader_message/avb_crc32.c\<close>, which guards the A/B slot metadata.
  They are shown to be the same function on the same bytes (for the first one: where
  \<open>char\<close> is unsigned, or no byte exceeds 127), and the first one to detect every change of
  one byte.
\<close>

section \<open>The bitwise routine (ubootenv.c)\<close>

definition CRC32_POLYNOMIAL :: u32 where "CRC32_POLYNOMIAL = 0xEDB88320"

text \<open>One round of the inner loop.\<close>

definition crc_bit :: "u32 \<Rightarrow> u32" where
  "crc_bit crc = (if crc AND 1 \<noteq> 0 then drop_bit 1 crc XOR CRC32_POLYNOMIAL else drop_bit 1 crc)"

text \<open>
  \<open>crc ^= buffer[i]\<close> promotes a \<open>char\<close> to \<open>int\<close>. Whether \<open>char\<close> is signed is up to the
  compiler (it is not on ARM, it is on x86), so it is an argument: the promotion of a
  signed one extends bit 7.
\<close>

definition char_promote :: "bool \<Rightarrow> char \<Rightarrow> u32" where
  "char_promote char_signed c =
     (if char_signed then scast (byte_of c) else ucast (byte_of c))"

definition crc32_byte :: "bool \<Rightarrow> u32 \<Rightarrow> char \<Rightarrow> u32" where
  "crc32_byte char_signed crc c = (crc_bit ^^ 8) (crc XOR char_promote char_signed c)"

definition crc32 :: "bool \<Rightarrow> string \<Rightarrow> u32" where
  "crc32 char_signed buffer = NOT (foldl (crc32_byte char_signed) 0xFFFFFFFF buffer)"

section \<open>The table-driven routine (avb_crc32.c)\<close>

definition iavb_crc32_tab :: "u32 list" where
  "iavb_crc32_tab = [
    0x00000000, 0x77073096, 0xee0e612c, 0x990951ba, 0x076dc419, 0x706af48f, 0xe963a535, 0x9e6495a3,
    0x0edb8832, 0x79dcb8a4, 0xe0d5e91e, 0x97d2d988, 0x09b64c2b, 0x7eb17cbd, 0xe7b82d07, 0x90bf1d91,
    0x1db71064, 0x6ab020f2, 0xf3b97148, 0x84be41de, 0x1adad47d, 0x6ddde4eb, 0xf4d4b551, 0x83d385c7,
    0x136c9856, 0x646ba8c0, 0xfd62f97a, 0x8a65c9ec, 0x14015c4f, 0x63066cd9, 0xfa0f3d63, 0x8d080df5,
    0x3b6e20c8, 0x4c69105e, 0xd56041e4, 0xa2677172, 0x3c03e4d1, 0x4b04d447, 0xd20d85fd, 0xa50ab56b,
    0x35b5a8fa, 0x42b2986c, 0xdbbbc9d6, 0xacbcf940, 0x32d86ce3, 0x45df5c75, 0xdcd60dcf, 0xabd13d59,
    0x26d930ac, 0x51de003a, 0xc8d75180, 0xbfd06116, 0x21b4f4b5, 0x56b3c423, 0xcfba9599, 0xb8bda50f,
    0x2802b89e, 0x5f058808, 0xc60cd9b2, 0xb10be924, 0x2f6f7c87, 0x58684c11, 0xc1611dab, 0xb6662d3d,
    0x76dc4190, 0x01db7106, 0x98d220bc, 0xefd5102a, 0x71b18589, 0x06b6b51f, 0x9fbfe4a5, 0xe8b8d433,
    0x7807c9a2, 0x0f00f934, 0x9609a88e, 0xe10e9818, 0x7f6a0dbb, 0x086d3d2d, 0x91646c97, 0xe6635c01,
    0x6b6b51f4, 0x1c6c6162, 0x856530d8, 0xf262004e, 0x6c0695ed, 0x1b01a57b, 0x8208f4c1, 0xf50fc457,
    0x65b0d9c6, 0x12b7e950, 0x8bbeb8ea, 0xfcb9887c, 0x62dd1ddf, 0x15da2d49, 0x8cd37cf3, 0xfbd44c65,
    0x4db26158, 0x3ab551ce, 0xa3bc0074, 0xd4bb30e2, 0x4adfa541, 0x3dd895d7, 0xa4d1c46d, 0xd3d6f4fb,
    0x4369e96a, 0x346ed9fc, 0xad678846, 0xda60b8d0, 0x44042d73, 0x33031de5, 0xaa0a4c5f, 0xdd0d7cc9,
    0x5005713c, 0x270241aa, 0xbe0b1010, 0xc90c2086, 0x5768b525, 0x206f85b3, 0xb966d409, 0xce61e49f,
    0x5edef90e, 0x29d9c998, 0xb0d09822, 0xc7d7a8b4, 0x59b33d17, 0x2eb40d81, 0xb7bd5c3b, 0xc0ba6cad,
    0xedb88320, 0x9abfb3b6, 0x03b6e20c, 0x74b1d29a, 0xead54739, 0x9dd277af, 0x04db2615, 0x73dc1683,
    0xe3630b12, 0x94643b84, 0x0d6d6a3e, 0x7a6a5aa8, 0xe40ecf0b, 0x9309ff9d, 0x0a00ae27, 0x7d079eb1,
    0xf00f9344, 0x8708a3d2, 0x1e01f268, 0x6906c2fe, 0xf762575d, 0x806567cb, 0x196c3671, 0x6e6b06e7,
    0xfed41b76, 0x89d32be0, 0x10da7a5a, 0x67dd4acc, 0xf9b9df6f, 0x8ebeeff9, 0x17b7be43, 0x60b08ed5,
    0xd6d6a3e8, 0xa1d1937e, 0x38d8c2c4, 0x4fdff252, 0xd1bb67f1, 0xa6bc5767, 0x3fb506dd, 0x48b2364b,
    0xd80d2bda, 0xaf0a1b4c, 0x36034af6, 0x41047a60, 0xdf60efc3, 0xa867df55, 0x316e8eef, 0x4669be79,
    0xcb61b38c, 0xbc66831a, 0x256fd2a0, 0x5268e236, 0xcc0c7795, 0xbb0b4703, 0x220216b9, 0x5505262f,
    0xc5ba3bbe, 0xb2bd0b28, 0x2bb45a92, 0x5cb36a04, 0xc2d7ffa7, 0xb5d0cf31, 0x2cd99e8b, 0x5bdeae1d,
    0x9b64c2b0, 0xec63f226, 0x756aa39c, 0x026d930a, 0x9c0906a9, 0xeb0e363f, 0x72076785, 0x05005713,
    0x95bf4a82, 0xe2b87a14, 0x7bb12bae, 0x0cb61b38, 0x92d28e9b, 0xe5d5be0d, 0x7cdcefb7, 0x0bdbdf21,
    0x86d3d2d4, 0xf1d4e242, 0x68ddb3f8, 0x1fda836e, 0x81be16cd, 0xf6b9265b, 0x6fb077e1, 0x18b74777,
    0x88085ae6, 0xff0f6a70, 0x66063bca, 0x11010b5c, 0x8f659eff, 0xf862ae69, 0x616bffd3, 0x166ccf45,
    0xa00ae278, 0xd70dd2ee, 0x4e048354, 0x3903b3c2, 0xa7672661, 0xd06016f7, 0x4969474d, 0x3e6e77db,
    0xaed16a4a, 0xd9d65adc, 0x40df0b66, 0x37d83bf0, 0xa9bcae53, 0xdebb9ec5, 0x47b2cf7f, 0x30b5ffe9,
    0xbdbdf21c, 0xcabac28a, 0x53b39330, 0x24b4a3a6, 0xbad03605, 0xcdd70693, 0x54de5729, 0x23d967bf,
    0xb3667a2e, 0xc4614ab8, 0x5d681b02, 0x2a6f2b94, 0xb40bbe37, 0xc30c8ea1, 0x5a05df1b, 0x2d02ef8d]"

definition iavb_crc32_step :: "u32 \<Rightarrow> u8 \<Rightarrow> u32" where
  "iavb_crc32_step crc b = iavb_crc32_tab ! unat ((crc XOR ucast b) AND 0xFF) XOR drop_bit 8 crc"

definition iavb_crc32 :: "u32 \<Rightarrow> u8 list \<Rightarrow> u32" where
  "iavb_crc32 crc_in buf = foldl iavb_crc32_step (crc_in XOR NOT 0) buf XOR NOT 0"

definition avb_crc32 :: "u8 list \<Rightarrow> u32" where
  "avb_crc32 buf = iavb_crc32 0 buf"

section \<open>The linear structure of one round\<close>

lemma crc_bit_alt: "crc_bit c = drop_bit 1 c XOR (if bit c 0 then CRC32_POLYNOMIAL else 0)"
  by (simp add: crc_bit_def and_one_eq bit_0 odd_iff_mod_2_eq_one)

lemma crc_bit_xor: "crc_bit (a XOR b) = crc_bit a XOR crc_bit b"
  by (simp add: crc_bit_alt bit_xor_iff drop_bit_xor ac_simps)

lemma crc_bits_xor: "(crc_bit ^^ n) (a XOR b) = (crc_bit ^^ n) a XOR (crc_bit ^^ n) b"
  by (induction n) (simp_all add: crc_bit_xor)

lemma crc_bits_clear: "(\<And>i. i < n \<Longrightarrow> \<not> bit c i) \<Longrightarrow> (crc_bit ^^ n) c = drop_bit n c"
proof (induction n)
  case (Suc n)
  then have "(crc_bit ^^ n) c = drop_bit n c" by simp
  moreover have "\<not> bit (drop_bit n c) 0" using Suc.prems[of n] by (simp add: bit_drop_bit_eq)
  ultimately show ?case by (simp add: crc_bit_alt[of "drop_bit n c"])
qed simp

lemma crc_bits_split:
  "(crc_bit ^^ 8) c = (crc_bit ^^ 8) (c AND 0xFF) XOR drop_bit 8 c"
proof -
  let ?hi = "c XOR (c AND 0xFF)"
  have mask: "(0xFF :: u32) = mask 8" by (simp add: mask_eq_exp_minus_1)
  have lo: "\<not> bit ?hi i" if "i < 8" for i
    using that unfolding mask by (auto simp: bit_simps)
  have "drop_bit 8 ?hi = drop_bit 8 c"
    unfolding mask by (rule bit_word_eqI) (auto simp: bit_simps)
  then have "(crc_bit ^^ 8) ?hi = drop_bit 8 c"
    using crc_bits_clear[of 8 ?hi] lo by simp
  moreover have "c = (c AND 0xFF) XOR ?hi"
    by (rule bit_word_eqI) (auto simp: bit_simps)
  ultimately show ?thesis using crc_bits_xor[of 8 "c AND 0xFF" ?hi] by simp
qed

lemma crc_bit_inj: "crc_bit a = crc_bit b \<Longrightarrow> a = b"
proof -
  assume eq: "crc_bit a = crc_bit b"
  have top: "bit (crc_bit c) 31 = bit c 0" for c
    by (auto simp: crc_bit_alt bit_xor_iff bit_drop_bit_eq CRC32_POLYNOMIAL_def bit_imp_le_length
        dest: bit_imp_le_length)
  have odd: "bit a 0 = bit b 0" using eq top by metis
  then have "drop_bit 1 a = drop_bit 1 b"
    using arg_cong[OF eq, of "\<lambda>c. c XOR (if bit a 0 then CRC32_POLYNOMIAL else 0)"]
    by (simp add: crc_bit_alt xor.assoc)
  then have "bit a (Suc n) = bit b (Suc n)" for n
    by (metis bit_drop_bit_eq comp_apply plus_1_eq_Suc)
  then show "a = b" using odd by (intro bit_word_eqI) (metis not0_implies_Suc)
qed

lemma crc_bits_inj: "(crc_bit ^^ n) a = (crc_bit ^^ n) b \<Longrightarrow> a = b"
  by (induction n) (auto dest: crc_bit_inj)

section \<open>The table\<close>

lemma length_crc_tab [simp]: "length iavb_crc32_tab = 256"
  by (simp add: iavb_crc32_tab_def)

text \<open>
  A linear function on the numbers below \<open>2 ^ n\<close> is fixed by its values at the powers of
  two: every power doubles the table. So eight of the 256 entries have to be computed.
\<close>

definition xor_table :: "u32 list \<Rightarrow> u32 list" where
  "xor_table bs = foldl (\<lambda>t b. t @ map (\<lambda>x. b XOR x) t) [0] bs"

lemma not_bit_small: "i < 2 ^ n \<Longrightarrow> \<not> bit (i :: nat) n"
  by (simp add: bit_iff_odd)

lemma add_eq_xor_small:
  assumes "i < 2 ^ n" "n < 32"
  shows "(of_nat (2 ^ n + i) :: u32) = 2 ^ n XOR of_nat i"
proof -
  have "\<not> bit (of_nat i :: u32) n"
    using assms by (simp add: bit_of_nat_iff not_bit_small)
  then have "(2 :: u32) ^ n AND of_nat i = 0"
    by (simp add: and.commute[of "2 ^ n"] and_exp_eq_0_iff_not_bit)
  then show ?thesis by (simp add: disjunctive_add_eq_xor)
qed

lemma xor_table_linear:
  fixes f :: "u32 \<Rightarrow> u32"
  assumes lin: "\<And>a b. f (a XOR b) = f a XOR f b" and "n \<le> 32"
  shows "xor_table (map (\<lambda>k. f (2 ^ k)) [0..<n]) = map (\<lambda>i. f (of_nat i)) [0..<2 ^ n]"
  using assms(2)
proof (induction n)
  case 0
  have "f 0 = 0" using lin[of 0 0] by simp
  then show ?case by (simp add: xor_table_def)
next
  case (Suc n)
  have "map (\<lambda>i. f (of_nat i)) [2 ^ n..<2 ^ Suc n] = map (\<lambda>i. f (of_nat (2 ^ n + i))) [0..<2 ^ n]"
    by (rule nth_equalityI) auto
  also have "\<dots> = map (\<lambda>i. f (2 ^ n) XOR f (of_nat i)) [0..<2 ^ n]"
    using Suc.prems by (auto simp: add_eq_xor_small lin simp del: of_nat_add of_nat_power)
  finally have "map (\<lambda>i. f (of_nat i)) [0..<2 ^ Suc n] = map (\<lambda>i. f (of_nat i)) [0..<2 ^ n]
      @ map (\<lambda>i. f (2 ^ n) XOR f (of_nat i)) [0..<2 ^ n]"
    by (simp add: upt_add_eq_append[of 0 "2 ^ n" "2 ^ n"] mult_2)
  then show ?case using Suc by (simp add: xor_table_def comp_def)
qed

lemma funpow_step: "(f ^^ numeral k) x = (f ^^ pred_numeral k) (f x)"
  by (simp add: numeral_eq_Suc funpow_swap1)

lemma funpow_last: "(f ^^ Suc n) x = (f ^^ n) (f x)"
  by (simp add: funpow_swap1)

lemma crc_tab_base:
  "map (\<lambda>k. (crc_bit ^^ 8) (2 ^ k)) [0..<8] = [0x77073096, 0xee0e612c, 0x076dc419, 0x0edb8832,
     0x1db71064, 0x3b6e20c8, 0x76dc4190, 0xedb88320]"
proof -
  have "[0..<8] = [0, 1, 2, 3, 4, 5, 6, 7 :: nat]" by code_simp
  then show ?thesis
    by (simp add: funpow_step funpow_last crc_bit_def CRC32_POLYNOMIAL_def del: funpow.simps)
qed

lemma crc_tab_doubling:
  "xor_table [0x77073096, 0xee0e612c, 0x076dc419, 0x0edb8832, 0x1db71064, 0x3b6e20c8, 0x76dc4190,
     0xedb88320] = iavb_crc32_tab"
  by (simp add: xor_table_def iavb_crc32_tab_def)

lemma crc_tab_nth:
  assumes "i < 256"
  shows "iavb_crc32_tab ! i = (crc_bit ^^ 8) (of_nat i)"
proof -
  have "iavb_crc32_tab = map (\<lambda>i. (crc_bit ^^ 8) (of_nat i)) [0..<2 ^ 8]"
    using xor_table_linear[of "crc_bit ^^ 8" 8, OF crc_bits_xor]
    by (simp only: crc_tab_base crc_tab_doubling)
  from arg_cong[OF this, of "\<lambda>l. l ! i"] show ?thesis using assms by simp
qed

lemma iavb_crc32_step_bits: "iavb_crc32_step crc b = (crc_bit ^^ 8) (crc XOR ucast b)"
proof -
  let ?x = "crc XOR ucast b"
  have "unat (?x AND 0xFF) < 256"
    by (rule le_less_trans[OF word_le_nat_alt[THEN iffD1, OF word_and_le1]]) simp
  then have "iavb_crc32_tab ! unat (?x AND 0xFF) = (crc_bit ^^ 8) (?x AND 0xFF)"
    by (simp add: crc_tab_nth)
  moreover have "drop_bit 8 crc = drop_bit 8 ?x"
    by (rule bit_word_eqI) (auto simp: bit_simps dest: bit_imp_le_length)
  ultimately show ?thesis
    using crc_bits_split[of ?x] by (simp add: iavb_crc32_step_def)
qed

section \<open>Equivalence and detection of changes\<close>

lemma char_promote_unsigned: "char_promote False c = ucast (byte_of c)"
  by (simp add: char_promote_def)

lemma char_promote_signed_ascii:
  assumes "(of_char c :: nat) < 128"
  shows "char_promote True c = char_promote False c"
proof -
  let ?b = "byte_of c"
  have 7: "\<not> bit ?b 7"
    unfolding byte_of_def using assms by (simp only: bit_of_nat_iff) (simp add: bit_iff_odd)
  have hi: "\<not> bit ?b n" if "7 \<le> n" for n
    using that 7 bit_imp_le_length[of ?b n] by (cases "n = 7") auto
  show ?thesis
    by (intro bit_word_eqI) (auto simp: char_promote_def bit_simps min_def hi)
qed

lemma char_promote_inj: "char_promote b c = char_promote b d \<Longrightarrow> c = d"
proof -
  assume "char_promote b c = char_promote b d"
  then have "(ucast (char_promote b c) :: u8) = ucast (char_promote b d)" by simp
  moreover have "ucast (char_promote b e) = byte_of e" for e
    by (rule bit_word_eqI) (auto simp: char_promote_def bit_simps)
  ultimately have "byte_of c = byte_of d" by simp
  then show "c = d" by simp
qed

lemma xor_cancel: "a XOR b = a XOR c \<Longrightarrow> b = (c :: u32)"
proof -
  assume "a XOR b = a XOR c"
  then have "a XOR (a XOR b) = a XOR (a XOR c)" by simp
  then show "b = c" by (simp only: xor.assoc[symmetric] xor_self_eq xor.left_neutral)
qed

lemma crc32_byte_inj: "crc32_byte b crc c = crc32_byte b crc d \<Longrightarrow> c = d"
  by (auto simp: crc32_byte_def dest!: crc_bits_inj xor_cancel char_promote_inj)

lemma crc32_byte_inj_state: "crc32_byte b x c = crc32_byte b y c \<Longrightarrow> x = y"
  by (auto simp: crc32_byte_def xor.commute[of _ "char_promote b c"] dest!: crc_bits_inj xor_cancel)

lemma crc32_fold_inj: "foldl (crc32_byte b) x s = foldl (crc32_byte b) y s \<Longrightarrow> x = y"
  by (induction s arbitrary: x y) (auto dest: crc32_byte_inj_state)

lemma crc32_byte_step:
  assumes "\<not> char_signed \<or> (of_char c :: nat) < 128"
  shows "crc32_byte char_signed crc c = iavb_crc32_step crc (byte_of c)"
  using assms char_promote_signed_ascii[of c]
  by (cases char_signed) (auto simp: crc32_byte_def iavb_crc32_step_bits char_promote_unsigned)

lemma crc32_fold_step:
  assumes "\<not> char_signed \<or> (\<forall>c \<in> set s. (of_char c :: nat) < 128)"
  shows "foldl (crc32_byte char_signed) crc s = foldl iavb_crc32_step crc (map byte_of s)"
  using assms by (induction s arbitrary: crc) (auto simp: crc32_byte_step)

text \<open>C32: the table-driven CRC of the A/B metadata and the bit-by-bit CRC of the environment
  image compute the same value on the same bytes, provided \<open>char\<close> is unsigned or no byte is
  above 127.
\<close>

theorem avb_crc32_eq_crc32:
  assumes "\<not> char_signed \<or> (\<forall>c \<in> set s. (of_char c :: nat) < 128)"
  shows "avb_crc32 (map byte_of s) = crc32 char_signed s"
proof -
  have e: "(0xFFFFFFFF :: u32) = - 1" by simp
  then show ?thesis
    using crc32_fold_step[OF assms, of "- 1"]
    by (simp add: avb_crc32_def iavb_crc32_def crc32_def e)
qed

theorem avb_crc32_eq_crc32_witness:
  "avb_crc32 (map byte_of ''bootdelay=1'') = crc32 True ''bootdelay=1''"
  by (rule avb_crc32_eq_crc32) simp

text \<open>The CRC detects the change of any one byte, whatever the signedness of \<open>char\<close>.\<close>

lemma crc32_detects_byte_change:
  assumes "c \<noteq> d"
  shows "crc32 char_signed (xs @ c # ys) \<noteq> crc32 char_signed (xs @ d # ys)"
proof
  assume "crc32 char_signed (xs @ c # ys) = crc32 char_signed (xs @ d # ys)"
  then have "NOT (NOT (foldl (crc32_byte char_signed) 0xFFFFFFFF (xs @ c # ys)))
      = NOT (NOT (foldl (crc32_byte char_signed) 0xFFFFFFFF (xs @ d # ys)))"
    by (simp only: crc32_def)
  then have "foldl (crc32_byte char_signed) 0xFFFFFFFF (xs @ c # ys)
      = foldl (crc32_byte char_signed) 0xFFFFFFFF (xs @ d # ys)"
    by (simp only: bit.double_compl)
  then have "c = d" by (auto dest: crc32_fold_inj crc32_byte_inj)
  with assms show False ..
qed

lemma crc32_update_change:
  assumes "j < length d" and "c \<noteq> d ! j"
  shows "crc32 char_signed (d[j := c]) \<noteq> crc32 char_signed d"
proof -
  have "d[j := c] = take j d @ c # drop (Suc j) d" using assms(1) by (rule upd_conv_take_nth_drop)
  moreover have "d = take j d @ d ! j # drop (Suc j) d" using assms(1) by (rule id_take_nth_drop)
  ultimately show ?thesis using crc32_detects_byte_change[OF assms(2)] by metis
qed

end
