(* ===== verification/BootAvb.thy ===== *)
theory BootAvb
  imports Codec MiscDev Crc
begin

text \<open>
  \<open>bootloader_message/bootloader_avb.c\<close> (built with \<open>BOOTCTOL_AVB\<close>): the A/B slot metadata of
  the misc partition. The record of the structures, their layout as an instance of the codec
  interface, one definition per function, and what the functions promise: which slot is
  active after \<open>set_active_slot\<close>, that the stored metadata carries a valid checksum in
  network byte order, that nothing else of the partition changes.
\<close>

section \<open>Data\<close>

definition AB_METADATA_MISC_PARTITION_OFFSET :: nat where "AB_METADATA_MISC_PARTITION_OFFSET = 2048"
definition AVB_MISCBUF_SIZE :: nat where "AVB_MISCBUF_SIZE = 2080"
definition AVB_AB_MAGIC :: "u8 list" where "AVB_AB_MAGIC = [0, 0x41, 0x42, 0x30]"
definition AVB_AB_MAJOR_VERSION :: u8 where "AVB_AB_MAJOR_VERSION = 1"
definition AVB_AB_MINOR_VERSION :: u8 where "AVB_AB_MINOR_VERSION = 0"
definition AVB_AB_DATA_SIZE :: nat where "AVB_AB_DATA_SIZE = 32"
definition AVB_AB_MAX_PRIORITY :: u8 where "AVB_AB_MAX_PRIORITY = 15"
definition AVB_AB_MAX_TRIES_REMAINING :: u8 where "AVB_AB_MAX_TRIES_REMAINING = 7"

lemmas avb_consts = AB_METADATA_MISC_PARTITION_OFFSET_def AVB_MISCBUF_SIZE_def AVB_AB_MAGIC_def
  AVB_AB_MAJOR_VERSION_def AVB_AB_MINOR_VERSION_def AVB_AB_DATA_SIZE_def AVB_AB_MAX_PRIORITY_def
  AVB_AB_MAX_TRIES_REMAINING_def

record AvbABSlotData =
  priority :: u8
  tries_remaining :: u8
  successful_boot :: u8
  slot_reserved :: u8

record AvbABData =
  magic :: "u8 list"
  version_major :: u8
  version_minor :: u8
  roll_flag :: u8
  reserved1 :: u8
  slots :: "AvbABSlotData list"
  reserved2 :: "u8 list"
  ab_crc32 :: u32

text \<open>The array members have the lengths of their declarations.\<close>

definition avb_wf :: "AvbABData \<Rightarrow> bool" where
  "avb_wf info \<longleftrightarrow> length (magic info) = 4 \<and> length (slots info) = 2 \<and> length (reserved2 info) = 12"

definition slot_bytes :: "AvbABSlotData \<Rightarrow> u8 list" where
  "slot_bytes s = [priority s, tries_remaining s, successful_boot s, slot_reserved s]"

definition slot_of_bytes :: "u8 list \<Rightarrow> AvbABSlotData" where
  "slot_of_bytes b = \<lparr>priority = b ! 0, tries_remaining = b ! 1, successful_boot = b ! 2, slot_reserved = b ! 3\<rparr>"

text \<open>The structure in memory; the first 28 bytes are what the checksum covers.\<close>

definition avb_head_bytes :: "AvbABData \<Rightarrow> u8 list" where
  "avb_head_bytes info = magic info @ [version_major info, version_minor info, roll_flag info, reserved1 info]
     @ slot_bytes (slots info ! 0) @ slot_bytes (slots info ! 1) @ reserved2 info"

definition avb_bytes :: "AvbABData \<Rightarrow> u8 list" where
  "avb_bytes info = avb_head_bytes info @ le_bytes32 (ab_crc32 info)"

definition avb_of_bytes :: "u8 list \<Rightarrow> AvbABData" where
  "avb_of_bytes b = \<lparr>magic = take 4 b, version_major = b ! 4, version_minor = b ! 5, roll_flag = b ! 6,
     reserved1 = b ! 7, slots = [slot_of_bytes (get_at b 8 4), slot_of_bytes (get_at b 12 4)],
     reserved2 = get_at b 16 12, ab_crc32 = of_le_bytes32 (get_at b 28 4)\<rparr>"

section \<open>Operations\<close>

definition avb_get_bootloader_message_block :: "misc_io \<Rightarrow> nat \<Rightarrow> int + (u8 list \<times> AvbABData)" where
  "avb_get_bootloader_message_block io sz =
     (if \<not> rd_open io then Inl (-1)
      else let miscbuf = misc_fread io sz in
        if length miscbuf \<noteq> sz then Inl (-1)
        else if \<not> rd_close io then Inl (-1)
        else Inr (miscbuf, avb_of_bytes (get_at miscbuf AB_METADATA_MISC_PARTITION_OFFSET AVB_AB_DATA_SIZE)))"

text \<open>The union of a word and its four bytes: the word whose memory image they are.\<close>

definition avb_htobe32 :: "u32 \<Rightarrow> u32" where
  "avb_htobe32 w = of_le_bytes32 [ucast (drop_bit 24 w AND 0xff), ucast (drop_bit 16 w AND 0xff),
     ucast (drop_bit 8 w AND 0xff), ucast (w AND 0xff)]"

definition avb_set_bootloader_message_block :: "misc_io \<Rightarrow> u8 list \<Rightarrow> AvbABData \<Rightarrow> int \<times> misc_io" where
  "avb_set_bootloader_message_block io miscbuf info =
     (let info = info\<lparr>ab_crc32 := avb_htobe32 (avb_crc32 (avb_head_bytes info))\<rparr>;
          miscbuf = put_at miscbuf AB_METADATA_MISC_PARTITION_OFFSET (avb_bytes info)
      in if \<not> wr_open io then (-1, io)
         else let (count, io') = misc_fwrite io (take AVB_MISCBUF_SIZE miscbuf)
           in if count \<noteq> AVB_MISCBUF_SIZE then (-1, io')
              else if \<not> wr_close io then (-1, io')
              else (0, io'))"

definition avb_get_active_slot_from_misc :: "misc_io \<Rightarrow> int + nat" where
  "avb_get_active_slot_from_misc io =
     (case avb_get_bootloader_message_block io AVB_MISCBUF_SIZE of
        Inl _ \<Rightarrow> Inl (-1)
      | Inr (_, info) \<Rightarrow> Inr (if priority (slots info ! 0) > priority (slots info ! 1) then 0 else 1))"

definition boot_info_validate :: "AvbABData \<Rightarrow> bool" where
  "boot_info_validate info \<longleftrightarrow>
     (if magic info \<noteq> AVB_AB_MAGIC then False
      else if version_major info > AVB_AB_MAJOR_VERSION then False
      else True)"

definition boot_info_set_active_slot :: "AvbABData \<Rightarrow> SlotType_e \<Rightarrow> AvbABData" where
  "boot_info_set_active_slot info slot =
     (let s = slot_no slot;
          ss = (slots info)[s := (slots info ! s)\<lparr>priority := AVB_AB_MAX_PRIORITY,
                 tries_remaining := AVB_AB_MAX_TRIES_REMAINING, successful_boot := 0\<rparr>];
          other = 1 - s;
          ss' = (if priority (ss ! other) = AVB_AB_MAX_PRIORITY
                 then ss[other := (ss ! other)\<lparr>priority := AVB_AB_MAX_PRIORITY - 1\<rparr>] else ss)
      in info\<lparr>slots := ss'\<rparr>)"

definition boot_info_reset :: AvbABData where
  "boot_info_reset = \<lparr>magic = AVB_AB_MAGIC, version_major = AVB_AB_MAJOR_VERSION,
     version_minor = AVB_AB_MINOR_VERSION, roll_flag = 0, reserved1 = 0,
     slots = [\<lparr>priority = AVB_AB_MAX_PRIORITY, tries_remaining = AVB_AB_MAX_TRIES_REMAINING,
                successful_boot = 0, slot_reserved = 0\<rparr>,
              \<lparr>priority = AVB_AB_MAX_PRIORITY - 1, tries_remaining = AVB_AB_MAX_TRIES_REMAINING,
                successful_boot = 0, slot_reserved = 0\<rparr>],
     reserved2 = replicate 12 0, ab_crc32 = 0\<rparr>"

definition avb_set_active_slot :: "misc_io \<Rightarrow> SlotType_e \<Rightarrow> int \<times> misc_io" where
  "avb_set_active_slot io slot =
     (case avb_get_bootloader_message_block io AVB_MISCBUF_SIZE of
        Inl _ \<Rightarrow> (-1, io)
      | Inr (miscbuf, info0) \<Rightarrow>
          let info = (if boot_info_validate info0 then info0 else boot_info_reset);
              info = info\<lparr>roll_flag := 0\<rparr>;
              info = boot_info_set_active_slot info slot;
              (ret, io') = avb_set_bootloader_message_block io miscbuf info
          in if ret \<noteq> 0 then (-1, io') else (0, io'))"

text \<open>The slot \<open>set_successful_boot\<close> takes for the current one: B if its priority is higher.\<close>

definition avb_boot_slot :: "AvbABData \<Rightarrow> nat" where
  "avb_boot_slot info = (if priority (slots info ! 1) > priority (slots info ! 0) then 1 else 0)"

definition avb_set_successful_boot :: "misc_io \<Rightarrow> int \<times> misc_io" where
  "avb_set_successful_boot io =
     (case avb_get_bootloader_message_block io AVB_MISCBUF_SIZE of
        Inl _ \<Rightarrow> (-1, io)
      | Inr (miscbuf, info) \<Rightarrow>
          let slot = avb_boot_slot info
          in if successful_boot (slots info ! slot) \<noteq> 0 then (0, io)
             else let info' = info\<lparr>slots := (slots info)[slot := (slots info ! slot)\<lparr>successful_boot := 1\<rparr>]\<rparr>;
                      (ret, io') = avb_set_bootloader_message_block io miscbuf info'
                  in if ret \<noteq> 0 then (-1, io') else (0, io'))"

section \<open>Layout\<close>

lemma length_slot_bytes [simp]: "length (slot_bytes s) = 4"
  by (simp add: slot_bytes_def)

lemma slot_codec: "slot_of_bytes (slot_bytes s) = s"
  by (simp add: slot_of_bytes_def slot_bytes_def)

lemma slot_codec_inv: "length b = 4 \<Longrightarrow> slot_bytes (slot_of_bytes b) = b"
  by (auto simp: slot_of_bytes_def slot_bytes_def numeral_eq_Suc length_Suc_conv)

lemma length_avb_head [simp]: "avb_wf info \<Longrightarrow> length (avb_head_bytes info) = 28"
  by (simp add: avb_wf_def avb_head_bytes_def)

lemma length_avb_bytes: "avb_wf info \<Longrightarrow> length (avb_bytes info) = 32"
  by (simp add: avb_bytes_def)

lemma avb_wf_of_bytes: "length b = 32 \<Longrightarrow> avb_wf (avb_of_bytes b)"
  by (simp add: avb_wf_def avb_of_bytes_def)

lemma avb_bytes_of_bytes:
  assumes "length b = 32"
  shows "avb_bytes (avb_of_bytes b) = b"
proof -
  have "[b ! 4, b ! 5, b ! 6, b ! 7] = get_at b 4 4"
    using assms by (simp add: numeral_eq_Suc get_at_step) (simp add: get_at_def)
  moreover have "take 4 b = get_at b 0 4" by (simp add: get_at_def)
  ultimately have "avb_bytes (avb_of_bytes b) =
      get_at b 0 4 @ get_at b 4 4 @ get_at b 8 4 @ get_at b 12 4 @ get_at b 16 12 @ get_at b 28 4"
    using assms by (simp add: avb_bytes_def avb_head_bytes_def avb_of_bytes_def slot_codec_inv)
  also have "\<dots> = get_at b 0 32"
    by (simp add: get_at_join del: append_assoc flip: append_assoc)
  finally show ?thesis using assms by (simp add: get_at_def)
qed

lemma avb_of_bytes_bytes:
  assumes "avb_wf info"
  shows "avb_of_bytes (avb_bytes info) = info"
proof -
  obtain s0 s1 where ss: "slots info = [s0, s1]"
    using assms by (auto simp: avb_wf_def numeral_eq_Suc length_Suc_conv)
  obtain m0 m1 m2 m3 where m: "magic info = [m0, m1, m2, m3]"
    using assms by (auto simp: avb_wf_def numeral_eq_Suc length_Suc_conv)
  have r: "length (reserved2 info) = 12" using assms by (simp add: avb_wf_def)
  have "avb_bytes info = [m0, m1, m2, m3, version_major info, version_minor info, roll_flag info, reserved1 info]
      @ slot_bytes s0 @ slot_bytes s1 @ reserved2 info @ le_bytes32 (ab_crc32 info)"
    by (simp add: avb_bytes_def avb_head_bytes_def ss m)
  moreover have "get_at (reserved2 info @ le_bytes32 (ab_crc32 info)) 0 12 = reserved2 info"
    using r by (simp add: get_at_def)
  ultimately show ?thesis
    using r by (simp add: avb_of_bytes_def get_at_def slot_codec ss m)
qed

interpretation avb: struct_in_buffer avb_bytes avb_of_bytes AVB_AB_DATA_SIZE avb_wf
    AB_METADATA_MISC_PARTITION_OFFSET AVB_MISCBUF_SIZE
  by unfold_locales
    (simp_all add: avb_consts avb_wf_of_bytes avb_bytes_of_bytes avb_of_bytes_bytes length_avb_bytes)

section \<open>The functions on a healthy device\<close>

text \<open>The metadata a device holds, and the metadata with its checksum filled in.\<close>

definition avb_load :: "u8 list \<Rightarrow> AvbABData" where
  "avb_load d = avb_of_bytes (get_at d AB_METADATA_MISC_PARTITION_OFFSET AVB_AB_DATA_SIZE)"

definition avb_sealed :: "AvbABData \<Rightarrow> AvbABData" where
  "avb_sealed info = info\<lparr>ab_crc32 := avb_htobe32 (avb_crc32 (avb_head_bytes info))\<rparr>"

abbreviation avb_healthy :: "misc_io \<Rightarrow> bool" where
  "avb_healthy \<equiv> misc_healthy AVB_MISCBUF_SIZE"

lemma avb_head_bytes_crc [simp]: "avb_head_bytes (info\<lparr>ab_crc32 := c\<rparr>) = avb_head_bytes info"
  by (simp add: avb_head_bytes_def)

lemma avb_sealed_simps [simp]:
  "slots (avb_sealed info) = slots info" "magic (avb_sealed info) = magic info"
  "version_major (avb_sealed info) = version_major info" "roll_flag (avb_sealed info) = roll_flag info"
  "avb_wf (avb_sealed info) = avb_wf info" "avb_head_bytes (avb_sealed info) = avb_head_bytes info"
  by (simp_all add: avb_sealed_def avb_wf_def)

lemma avb_get_healthy:
  "avb_healthy io \<Longrightarrow> avb_get_bootloader_message_block io AVB_MISCBUF_SIZE
     = Inr (get_at (dev io) 0 AVB_MISCBUF_SIZE, avb_load (dev io))"
  by (simp add: avb_get_bootloader_message_block_def misc_fread_healthy Let_def avb_load_def)
    (simp add: misc_healthy_def get_at_def drop_take avb_consts)

lemma avb_load_wf: "avb_healthy io \<Longrightarrow> avb_wf (avb_load (dev io))"
  by (simp add: avb_load_def avb_wf_of_bytes misc_healthy_def avb_consts)

lemma avb_set_healthy:
  assumes "avb_healthy io" "avb_wf info" "miscbuf = get_at (dev io) 0 AVB_MISCBUF_SIZE"
  shows "avb_set_bootloader_message_block io miscbuf info
    = (0, io\<lparr>dev := put_at (dev io) AB_METADATA_MISC_PARTITION_OFFSET (avb_bytes (avb_sealed info))\<rparr>)"
proof -
  have len: "2080 \<le> length (dev io)" using assms(1) by (simp add: misc_healthy_def avb_consts)
  let ?x = "avb_bytes (avb_sealed info)"
  have x: "length ?x = 32" using assms(2) by (simp add: length_avb_bytes)
  let ?m = "put_at miscbuf AB_METADATA_MISC_PARTITION_OFFSET ?x"
  have m: "length ?m = 2080" using assms(3) len x by (simp add: avb_consts)
  have "put_at (dev io) 0 ?m = put_at (dev io) AB_METADATA_MISC_PARTITION_OFFSET ?x"
    using len x m by (simp add: put_at_def get_at_def assms(3) avb_consts)
  then show ?thesis
    using assms(1) m misc_fwrite_healthy[of 2080 io ?m]
    by (simp add: avb_set_bootloader_message_block_def avb_sealed_def[symmetric] Let_def avb_consts)
      (simp add: misc_healthy_def)
qed

lemma avb_load_put [simp]:
  "avb_healthy io \<Longrightarrow> avb_wf info
   \<Longrightarrow> avb_load (put_at (dev io) AB_METADATA_MISC_PARTITION_OFFSET (avb_bytes info)) = info"
  by (simp add: avb_load_def misc_healthy_def avb_consts length_avb_bytes avb_of_bytes_bytes)

lemma avb_healthy_put [simp]:
  "avb_healthy io \<Longrightarrow> avb_wf info
   \<Longrightarrow> avb_healthy (io\<lparr>dev := put_at (dev io) AB_METADATA_MISC_PARTITION_OFFSET (avb_bytes info)\<rparr>)"
  by (simp add: misc_healthy_def avb_consts length_avb_bytes)

lemma avb_get_active_healthy:
  "avb_healthy io \<Longrightarrow> avb_get_active_slot_from_misc io
     = Inr (if priority (slots (avb_load (dev io)) ! 0) > priority (slots (avb_load (dev io)) ! 1) then 0 else 1)"
  by (simp add: avb_get_active_slot_from_misc_def avb_get_healthy)

text \<open>The metadata that \<open>set_active_slot\<close> stores, before the checksum.\<close>

definition avb_activated :: "AvbABData \<Rightarrow> SlotType_e \<Rightarrow> AvbABData" where
  "avb_activated info0 slot = boot_info_set_active_slot
     ((if boot_info_validate info0 then info0 else boot_info_reset)\<lparr>roll_flag := 0\<rparr>) slot"

lemma avb_wf_reset: "avb_wf boot_info_reset"
  by (simp add: avb_wf_def boot_info_reset_def avb_consts)

lemma avb_wf_activated: "avb_wf info \<Longrightarrow> avb_wf (avb_activated info slot)"
  using avb_wf_reset by (simp add: avb_activated_def boot_info_set_active_slot_def Let_def avb_wf_def)

lemma avb_set_active_healthy:
  assumes "avb_healthy io"
  shows "avb_set_active_slot io slot = (0, io\<lparr>dev := put_at (dev io) AB_METADATA_MISC_PARTITION_OFFSET
      (avb_bytes (avb_sealed (avb_activated (avb_load (dev io)) slot)))\<rparr>)"
  using avb_set_healthy[OF assms avb_wf_activated[OF avb_load_wf[OF assms]] refl]
  by (simp add: avb_set_active_slot_def avb_get_healthy[OF assms] avb_activated_def Let_def)

lemma slot_pair: "avb_wf info \<Longrightarrow> \<exists>a b. slots info = [a, b]"
  by (auto simp: avb_wf_def numeral_eq_Suc length_Suc_conv)

lemma avb_activated_slots:
  assumes "avb_wf info"
  shows "priority (slots (avb_activated info slot) ! slot_no slot) = 15"
    and "tries_remaining (slots (avb_activated info slot) ! slot_no slot) = 7"
    and "successful_boot (slots (avb_activated info slot) ! slot_no slot) = 0"
  using slot_pair[OF assms] by (cases slot;
    auto simp: avb_activated_def boot_info_set_active_slot_def boot_info_reset_def Let_def avb_consts)+

lemma avb_activated_other:
  assumes "avb_wf info" "boot_info_validate info \<Longrightarrow> priority (slots info ! (1 - slot_no slot)) \<le> 15"
  shows "priority (slots (avb_activated info slot) ! (1 - slot_no slot)) < 15"
proof -
  have lt: "x \<le> 15 \<Longrightarrow> x \<noteq> 15 \<Longrightarrow> x < 15" for x :: u8 by (rule order.not_eq_order_implies_strict)
  obtain a b where ab: "slots info = [a, b]" using slot_pair[OF assms(1)] by blast
  show ?thesis
    using assms(2) ab by (cases slot; cases "boot_info_validate info")
      (auto simp: avb_activated_def boot_info_set_active_slot_def boot_info_reset_def Let_def avb_consts
        intro!: lt)
qed

text \<open>The metadata with one slot marked, and \<open>set_successful_boot\<close> in its terms.\<close>

definition avb_marked :: "AvbABData \<Rightarrow> AvbABData" where
  "avb_marked info = info\<lparr>slots := (slots info)[avb_boot_slot info :=
     (slots info ! avb_boot_slot info)\<lparr>successful_boot := 1\<rparr>]\<rparr>"

lemma avb_boot_slot_less [simp]: "avb_boot_slot info < 2"
  by (simp add: avb_boot_slot_def)

lemma avb_wf_marked [simp]: "avb_wf (avb_marked info) = avb_wf info"
  by (simp add: avb_wf_def avb_marked_def)

lemma avb_marked_slots:
  assumes "avb_wf info" "i < 2"
  shows "slots (avb_marked info) ! i = (if i = avb_boot_slot info
    then (slots info ! i)\<lparr>successful_boot := 1\<rparr> else slots info ! i)"
  using assms by (auto simp: avb_marked_def avb_wf_def)

lemma avb_set_successful_healthy:
  assumes "avb_healthy io"
  defines "info \<equiv> avb_load (dev io)"
  shows "avb_set_successful_boot io =
    (if successful_boot (slots info ! avb_boot_slot info) \<noteq> 0 then (0, io)
     else (0, io\<lparr>dev := put_at (dev io) AB_METADATA_MISC_PARTITION_OFFSET (avb_bytes (avb_sealed (avb_marked info)))\<rparr>))"
proof -
  have wf: "avb_wf (avb_marked info)" using avb_load_wf[OF assms(1)] by (simp add: info_def)
  show ?thesis
    using avb_set_healthy[OF assms(1) wf refl]
    by (simp add: avb_set_successful_boot_def avb_get_healthy[OF assms(1)] info_def avb_marked_def Let_def)
qed

lemma le_bytes32_htobe32: "le_bytes32 (avb_htobe32 w) = rev (le_bytes32 w)"
proof -
  have m: "(0xff :: u32) = mask 8" by (simp add: mask_eq_exp_minus_1)
  have u: "ucast (x AND 0xff) = (ucast x :: u8)" for x :: u32
    unfolding m by (rule bit_word_eqI) (auto simp: bit_simps)
  show ?thesis by (simp add: avb_htobe32_def le_bytes32_of_le_bytes32 u) (simp add: le_bytes32_def)
qed

text \<open>The device of the witnesses: an empty (all zero) misc partition of one page more.\<close>

definition blank_misc :: misc_io where
  "blank_misc = \<lparr>dev = replicate 4096 0, rd_open = True, rd_count = 4096, rd_close = True,
     wr_open = True, wr_count = 4096, wr_close = True\<rparr>"

lemma blank_misc_healthy: "avb_healthy blank_misc"
  by (simp add: blank_misc_def misc_healthy_def avb_consts)

lemma blank_misc_invalid: "\<not> boot_info_validate (avb_load (dev blank_misc))"
proof -
  have "magic (avb_load (dev blank_misc)) ! 1 \<noteq> AVB_AB_MAGIC ! 1"
    by (simp add: avb_load_def avb_of_bytes_def get_at_def blank_misc_def avb_consts)
  then show ?thesis by (auto simp: boot_info_validate_def)
qed

section \<open>Properties\<close>

text \<open>C30: after \<open>set_active_slot (slot)\<close> on a working device, \<open>get_active_slot_from_misc\<close> returns
  that slot, whichever slot was active and even when the stored metadata was invalid; it has
  the highest priority, all its tries and is not marked successful. The hypothesis on the
  other slot's priority is what the metadata's comment promises (at most
  \<open>AVB_AB_MAX_PRIORITY\<close>) and the code does not check.
\<close>

theorem avb_set_active_slot_selects:
  assumes "avb_healthy io"
    and "boot_info_validate (avb_load (dev io))
      \<Longrightarrow> priority (slots (avb_load (dev io)) ! (1 - slot_no slot)) \<le> AVB_AB_MAX_PRIORITY"
  shows "fst (avb_set_active_slot io slot) = 0
    \<and> avb_get_active_slot_from_misc (snd (avb_set_active_slot io slot)) = Inr (slot_no slot)
    \<and> slots (avb_load (dev (snd (avb_set_active_slot io slot)))) ! slot_no slot
      = \<lparr>priority = 15, tries_remaining = 7, successful_boot = 0,
         slot_reserved = slot_reserved (slots (avb_load (dev (snd (avb_set_active_slot io slot)))) ! slot_no slot)\<rparr>"
proof (intro conjI)
  let ?info = "avb_load (dev io)"
  let ?new = "avb_sealed (avb_activated ?info slot)"
  note wf = avb_load_wf[OF assms(1)]
  note wf' = avb_wf_activated[OF wf, of slot]
  show "fst (avb_set_active_slot io slot) = 0"
    by (simp add: avb_set_active_healthy[OF assms(1)])
  have "priority (slots ?new ! (1 - slot_no slot)) < 15" "priority (slots ?new ! slot_no slot) = 15"
    using avb_activated_other[OF wf] avb_activated_slots[OF wf] assms(2) by (simp_all add: avb_consts)
  then show "avb_get_active_slot_from_misc (snd (avb_set_active_slot io slot)) = Inr (slot_no slot)"
    using assms(1) wf' by (cases slot) (simp_all add: avb_set_active_healthy avb_get_active_healthy)
  show "slots (avb_load (dev (snd (avb_set_active_slot io slot)))) ! slot_no slot
      = \<lparr>priority = 15, tries_remaining = 7, successful_boot = 0,
         slot_reserved = slot_reserved (slots (avb_load (dev (snd (avb_set_active_slot io slot)))) ! slot_no slot)\<rparr>"
    using assms(1) wf' avb_activated_slots[OF wf, of slot] by (simp add: avb_set_active_healthy)
qed

theorem avb_set_active_slot_selects_witness:
  "avb_get_active_slot_from_misc (snd (avb_set_active_slot blank_misc SLOT_B)) = Inr 1"
  using avb_set_active_slot_selects[OF blank_misc_healthy, of SLOT_B] blank_misc_invalid by simp

text \<open>whatever \<open>set_active_slot\<close> found on a working device, what it leaves there is valid A/B
  metadata: accepted by \<open>boot_info_validate\<close>, no rollback pending, with the checksum of the
  28 bytes before it stored most significant byte first; and no byte outside the 32 bytes of
  the metadata has changed.
\<close>

theorem avb_set_active_slot_stores_valid:
  fixes slot :: SlotType_e
  assumes "avb_healthy io"
  defines "d' \<equiv> dev (snd (avb_set_active_slot io slot))"
  shows "boot_info_validate (avb_load d')
    \<and> roll_flag (avb_load d') = 0
    \<and> get_at d' 2076 4 = rev (le_bytes32 (avb_crc32 (get_at d' 2048 28)))
    \<and> take 2048 d' = take 2048 (dev io) \<and> drop 2080 d' = drop 2080 (dev io) \<and> length d' = length (dev io)"
proof (intro conjI)
  let ?new = "avb_sealed (avb_activated (avb_load (dev io)) slot)"
  note wf = avb_load_wf[OF assms(1)]
  have wf': "avb_wf ?new" using avb_wf_activated[OF wf, of slot] by simp
  have len: "2080 \<le> length (dev io)" using assms(1) by (simp add: misc_healthy_def avb_consts)
  have x: "length (avb_bytes ?new) = 32" using wf' by (simp add: length_avb_bytes)
  have d': "d' = put_at (dev io) 2048 (avb_bytes ?new)"
    by (simp add: d'_def avb_set_active_healthy[OF assms(1)] avb_consts)
  have load: "avb_load d' = ?new"
    using avb_load_put[OF assms(1) wf'] by (simp add: d' avb_consts)
  show "boot_info_validate (avb_load d')" "roll_flag (avb_load d') = 0"
    unfolding load by (simp_all add: avb_activated_def boot_info_set_active_slot_def Let_def
        boot_info_validate_def boot_info_reset_def avb_consts)
  have "get_at d' 2048 28 = avb_head_bytes ?new" "get_at d' 2076 4 = le_bytes32 (ab_crc32 ?new)"
    using len x wf' unfolding d'
    by (simp_all add: get_at_def put_at_def avb_bytes_def del: avb_sealed_simps(6))
  then show "get_at d' 2076 4 = rev (le_bytes32 (avb_crc32 (get_at d' 2048 28)))"
    by (simp add: le_bytes32_htobe32) (simp add: avb_sealed_def le_bytes32_htobe32)
  show "take 2048 d' = take 2048 (dev io)" "drop 2080 d' = drop 2080 (dev io)" "length d' = length (dev io)"
    using len x by (simp_all add: d') (simp_all add: put_at_def)
qed

theorem avb_set_active_slot_stores_valid_witness:
  "boot_info_validate (avb_load (dev (snd (avb_set_active_slot blank_misc SLOT_A))))"
  using avb_set_active_slot_stores_valid[OF blank_misc_healthy, of SLOT_A] by simp

text \<open>\<open>set_successful_boot\<close> on a working device marks one slot, the one of the strictly
  higher priority or slot A, as booted successfully, changes nothing else of either slot, so
  the active slot stays what it was; a second call changes nothing at all.
\<close>

theorem avb_set_successful_boot_marks:
  assumes "avb_healthy io"
  defines "info \<equiv> avb_load (dev io)" and "io' \<equiv> snd (avb_set_successful_boot io)"
  defines "s \<equiv> (if priority (slots info ! 1) > priority (slots info ! 0) then 1 else 0 :: nat)"
  shows "fst (avb_set_successful_boot io) = 0
    \<and> avb_healthy io'
    \<and> successful_boot (slots (avb_load (dev io')) ! s) \<noteq> 0
    \<and> slots (avb_load (dev io')) ! (1 - s) = slots info ! (1 - s)
    \<and> slots (avb_load (dev io')) ! s = (slots info ! s)\<lparr>successful_boot :=
        successful_boot (slots (avb_load (dev io')) ! s)\<rparr>
    \<and> avb_get_active_slot_from_misc io' = avb_get_active_slot_from_misc io
    \<and> avb_set_successful_boot io' = (0, io')"
proof (intro conjI)
  have wf: "avb_wf info" using avb_load_wf[OF assms(1)] by (simp add: info_def)
  have s: "s = avb_boot_slot info" "s < 2" by (simp_all add: s_def avb_boot_slot_def)
  note eq = avb_set_successful_healthy[OF assms(1), folded info_def s(1)]
  show "fst (avb_set_successful_boot io) = 0" by (simp add: eq)
  show h: "avb_healthy io'" using assms(1) wf by (simp add: io'_def eq)
  have load: "avb_load (dev io') = (if successful_boot (slots info ! s) \<noteq> 0 then info else avb_sealed (avb_marked info))"
    using assms(1) wf by (simp add: io'_def eq info_def)
  have sl: "slots (avb_load (dev io')) ! i = (if i = s \<and> successful_boot (slots info ! s) = 0
      then (slots info ! i)\<lparr>successful_boot := 1\<rparr> else slots info ! i)" if "i < 2" for i
    using that by (simp add: load s(1) avb_marked_slots[OF wf])
  show marked: "successful_boot (slots (avb_load (dev io')) ! s) \<noteq> 0"
    and "slots (avb_load (dev io')) ! (1 - s) = slots info ! (1 - s)"
    and "slots (avb_load (dev io')) ! s = (slots info ! s)\<lparr>successful_boot :=
        successful_boot (slots (avb_load (dev io')) ! s)\<rparr>"
    using sl s(2) by (auto simp: less_2_cases_iff)
  have prio: "priority (slots (avb_load (dev io')) ! 0) = priority (slots info ! 0)"
    "priority (slots (avb_load (dev io')) ! 1) = priority (slots info ! 1)"
    using sl by simp_all
  then show "avb_get_active_slot_from_misc io' = avb_get_active_slot_from_misc io"
    by (simp add: avb_get_active_healthy[OF h] avb_get_active_healthy[OF assms(1)] info_def)
  have "avb_boot_slot (avb_load (dev io')) = s"
    using prio by (simp add: avb_boot_slot_def s_def)
  then show "avb_set_successful_boot io' = (0, io')"
    using marked by (simp add: avb_set_successful_healthy[OF h])
qed

theorem avb_set_successful_boot_marks_witness:
  "avb_set_successful_boot (snd (avb_set_successful_boot blank_misc)) = (0, snd (avb_set_successful_boot blank_misc))"
  using avb_set_successful_boot_marks[OF blank_misc_healthy] by simp

text \<open>when both slots have the same priority, the two functions that ask for the current slot
  disagree: \<open>get_active_slot_from_misc\<close> reports slot B, and \<open>set_successful_boot\<close> marks slot A.
\<close>

theorem avb_equal_priorities_disagree:
  assumes "avb_healthy io"
    and "priority (slots (avb_load (dev io)) ! 0) = priority (slots (avb_load (dev io)) ! 1)"
    and "successful_boot (slots (avb_load (dev io)) ! 0) = 0"
  shows "avb_get_active_slot_from_misc io = Inr 1
    \<and> successful_boot (slots (avb_load (dev (snd (avb_set_successful_boot io)))) ! 0) \<noteq> 0
    \<and> slots (avb_load (dev (snd (avb_set_successful_boot io)))) ! 1 = slots (avb_load (dev io)) ! 1"
proof (intro conjI)
  note wf = avb_load_wf[OF assms(1)]
  have b: "avb_boot_slot (avb_load (dev io)) = 0" using assms(2) by (simp add: avb_boot_slot_def)
  have "avb_load (dev (snd (avb_set_successful_boot io))) = avb_sealed (avb_marked (avb_load (dev io)))"
    using assms(1,3) wf by (simp add: avb_set_successful_healthy b)
  then show "successful_boot (slots (avb_load (dev (snd (avb_set_successful_boot io)))) ! 0) \<noteq> 0"
    and "slots (avb_load (dev (snd (avb_set_successful_boot io)))) ! 1 = slots (avb_load (dev io)) ! 1"
    by (simp_all add: avb_marked_slots[OF wf] b)
  show "avb_get_active_slot_from_misc io = Inr 1"
    using assms(2) by (simp add: avb_get_active_healthy[OF assms(1)])
qed

theorem avb_equal_priorities_disagree_witness:
  "avb_get_active_slot_from_misc blank_misc = Inr 1
   \<and> successful_boot (slots (avb_load (dev (snd (avb_set_successful_boot blank_misc)))) ! 0) \<noteq> 0"
proof -
  have s: "slots (avb_load (dev blank_misc)) ! 0 = slots (avb_load (dev blank_misc)) ! 1"
    "successful_boot (slots (avb_load (dev blank_misc)) ! 0) = 0"
    by (simp_all add: avb_load_def avb_of_bytes_def slot_of_bytes_def get_at_def blank_misc_def avb_consts)
  show ?thesis
    using avb_equal_priorities_disagree[OF blank_misc_healthy] s by simp
qed

text \<open>
  C24: \<open>set_active_slot\<close> reports success exactly when every call on the device succeeded and
  every transfer was complete, and -1 otherwise; when a call before the write failed the
  device is untouched.
\<close>

theorem avb_set_active_slot_result:
  "fst (avb_set_active_slot io slot) = (if avb_healthy io then 0 else -1)
   \<and> (if rd_open io \<and> 2080 \<le> rd_count io \<and> 2080 \<le> length (dev io) \<and> rd_close io \<and> wr_open io
      then length (dev (snd (avb_set_active_slot io slot))) = length (dev io)
      else snd (avb_set_active_slot io slot) = io)"
proof (cases "rd_open io \<and> 2080 \<le> rd_count io \<and> 2080 \<le> length (dev io) \<and> rd_close io")
  case False
  then have "avb_set_active_slot io slot = (-1, io)" and "\<not> avb_healthy io"
    by (auto simp: avb_set_active_slot_def avb_get_bootloader_message_block_def Let_def misc_fread_def
        misc_healthy_def avb_consts min_def)
  then show ?thesis using False by auto
next
  case True
  then have get: "avb_get_bootloader_message_block io AVB_MISCBUF_SIZE
      = Inr (take 2080 (dev io), avb_load (take 2080 (dev io)))"
    by (simp add: avb_get_bootloader_message_block_def misc_fread_def Let_def avb_load_def avb_consts min_absorb1)
  have wf: "avb_wf (avb_sealed (avb_activated (avb_load (take 2080 (dev io))) slot))"
    using True by (simp add: avb_wf_activated avb_load_def avb_wf_of_bytes avb_consts)
  have "avb_set_active_slot io slot = (case avb_set_bootloader_message_block io (take 2080 (dev io))
      (avb_activated (avb_load (take 2080 (dev io))) slot) of (r, io') \<Rightarrow> if r \<noteq> 0 then (-1, io') else (0, io'))"
    by (simp add: avb_set_active_slot_def get avb_activated_def Let_def)
  then show ?thesis
    using True length_avb_bytes[OF wf]
    by (auto simp: avb_set_bootloader_message_block_def misc_fwrite_def avb_sealed_def[symmetric]
        Let_def avb_consts misc_healthy_def)
qed

end
