(* ===== verification/Nand.thy ===== *)
theory Nand
  imports Prelude
begin

text \<open>
  Raw NAND access of \<open>bootloader_message/bootloader_message.c\<close>: \<open>get_mtd_size\<close>, \<open>nand_erase\<close>,
  \<open>next_good_eraseblock\<close>, \<open>nand_read\<close>, \<open>nand_write\<close>. The kernel's MTD driver is no part of
  the repository: what it does on the calls made here is the argument \<open>ops\<close>, a record of
  functions on an abstract device state \<open>'d\<close>; what the code relies on is the predicate
  \<open>mtd_laws\<close>, used as a hypothesis. Here \<^const>\<open>None\<close> is also a loop that does not end.
\<close>

record mtd_info =
  mi_size :: u32
  mi_erasesize :: u32
  mi_writesize :: u32

record 'd mtd_ops =
  op_open :: "'d \<Rightarrow> string \<Rightarrow> bool"                           \<comment> \<open>\<open>open\<close> succeeds\<close>
  op_chr :: "'d \<Rightarrow> string \<Rightarrow> bool option"                     \<comment> \<open>\<open>fstat\<close>, \<open>S_ISCHR\<close>\<close>
  op_info :: "'d \<Rightarrow> string \<Rightarrow> mtd_info option"                 \<comment> \<open>\<open>MEMGETINFO\<close>\<close>
  op_bad :: "'d \<Rightarrow> string \<Rightarrow> nat \<Rightarrow> int"                       \<comment> \<open>\<open>MEMGETBADBLOCK\<close>\<close>
  op_erase :: "'d \<Rightarrow> string \<Rightarrow> u32 \<Rightarrow> u32 \<Rightarrow> 'd option"         \<comment> \<open>\<open>MEMERASE\<close> start, length\<close>
  op_seek :: "'d \<Rightarrow> string \<Rightarrow> int \<Rightarrow> bool"                     \<comment> \<open>\<open>lseek\<close> succeeds\<close>
  op_read :: "'d \<Rightarrow> string \<Rightarrow> int \<Rightarrow> nat \<Rightarrow> u8 list"           \<comment> \<open>what \<open>read\<close> gets there\<close>
  op_write :: "'d \<Rightarrow> string \<Rightarrow> int \<Rightarrow> u8 list \<Rightarrow> int \<times> 'd"     \<comment> \<open>\<open>write\<close>: result, new state\<close>
  op_malloc :: "'d \<Rightarrow> nat \<Rightarrow> bool"                            \<comment> \<open>\<open>malloc\<close> of that size succeeds\<close>

section \<open>Operations\<close>

definition get_mtd_size :: "'d mtd_ops \<Rightarrow> 'd \<Rightarrow> string \<Rightarrow> int" where
  "get_mtd_size ops d mtdname =
     (if \<not> op_open ops d mtdname then -1
      else case op_info ops d mtdname of None \<Rightarrow> -1 | Some mi \<Rightarrow> sint (mi_size mi))"

partial_function (option) nand_erase_loop ::
  "'d mtd_ops \<Rightarrow> string \<Rightarrow> mtd_info \<Rightarrow> u32 \<Rightarrow> 'd \<Rightarrow> u32 \<Rightarrow> (int \<times> 'd) option" where
  "nand_erase_loop ops name mi limit d start =
     (if start < limit then
        (if op_bad ops d name (unat start) > 0
         then nand_erase_loop ops name mi limit d (start + mi_erasesize mi)
         else if op_bad ops d name (unat start) < 0 then Some (-1, d)
         else case op_erase ops d name start (mi_erasesize mi) of
                None \<Rightarrow> Some (-1, d)
              | Some d' \<Rightarrow> nand_erase_loop ops name mi limit d' (start + mi_erasesize mi))
      else Some (0, d))"

definition nand_erase :: "'d mtd_ops \<Rightarrow> 'd \<Rightarrow> string \<Rightarrow> u32 \<Rightarrow> u32 \<Rightarrow> (int \<times> 'd) option" where
  "nand_erase ops d devicename offset len =
     (if \<not> op_open ops d devicename then Some (-1, d)
      else case op_chr ops d devicename of
        None \<Rightarrow> Some (-1, d)
      | Some False \<Rightarrow> Some (-1, d)
      | Some True \<Rightarrow>
          (case op_info ops d devicename of
             None \<Rightarrow> Some (-1, d)
           | Some mi \<Rightarrow> nand_erase_loop ops devicename mi (offset + len) d offset))"

partial_function (option) next_good_eraseblock ::
  "(nat \<Rightarrow> int) \<Rightarrow> mtd_info \<Rightarrow> u32 \<Rightarrow> u32 option" where
  "next_good_eraseblock bad mi block_offset =
     (if block_offset \<ge> mi_size mi then Some block_offset
      else if bad (unat block_offset) = 0 then Some block_offset
      else next_good_eraseblock bad mi (block_offset + mi_erasesize mi))"

text \<open>
  The common start of \<open>nand_read\<close> and \<open>nand_write\<close> up to the \<open>lseek\<close>: the device's geometry
  and the offset of the good block, or the error return. An \<open>int\<close> offset above \<open>INT_MAX\<close>
  reaches \<open>lseek\<close> as a negative number.
\<close>

definition nand_locate :: "'d mtd_ops \<Rightarrow> 'd \<Rightarrow> string \<Rightarrow> u32 \<Rightarrow> (int + mtd_info \<times> u32) option" where
  "nand_locate ops d name mtd_offset =
     (if \<not> op_open ops d name then Some (Inl (-1))
      else case op_info ops d name of
        None \<Rightarrow> Some (Inl (-1))
      | Some mi \<Rightarrow>
          if mtd_offset AND (mi_writesize mi - 1) \<noteq> 0 then Some (Inl (-1))
          else if \<not> op_malloc ops d (unat (mi_writesize mi)) then Some (Inl (-1))
          else (case next_good_eraseblock (op_bad ops d name) mi (mtd_offset AND NOT (mi_erasesize mi - 1)) of
              None \<Rightarrow> None
            | Some off \<Rightarrow> if off \<ge> mi_size mi then Some (Inl (-1)) else Some (Inr (mi, off))))"

definition nand_read :: "'d mtd_ops \<Rightarrow> 'd \<Rightarrow> string \<Rightarrow> u32 \<Rightarrow> nat \<Rightarrow> (int + u8 list) option" where
  "nand_read ops d device_name mtd_offset len =
     (case nand_locate ops d device_name mtd_offset of
        None \<Rightarrow> None
      | Some (Inl e) \<Rightarrow> Some (Inl e)
      | Some (Inr (mi, off)) \<Rightarrow>
          if \<not> op_seek ops d device_name (sint off) then Some (Inl (-1))
          else let tmp = op_read ops d device_name (sint off) (unat (mi_writesize mi))
            in if length tmp \<noteq> unat (mi_writesize mi) then Some (Inl (-1))
               else if len > unat (mi_writesize mi) then None
               else Some (Inr (take len tmp)))"

definition nand_write :: "'d mtd_ops \<Rightarrow> 'd \<Rightarrow> string \<Rightarrow> u32 \<Rightarrow> u8 list \<Rightarrow> (int \<times> 'd) option" where
  "nand_write ops d device_name mtd_offset data =
     (case nand_locate ops d device_name mtd_offset of
        None \<Rightarrow> None
      | Some (Inl e) \<Rightarrow> Some (e, d)
      | Some (Inr (mi, off)) \<Rightarrow>
          if length data > unat (mi_writesize mi) then None
          else if \<not> op_seek ops d device_name (sint off) then Some (-1, d)
          else let tmp = data @ replicate (unat (mi_writesize mi) - length data) 0;
                   (sz, d') = op_write ops d device_name (sint off) tmp
            in if sz \<noteq> int (unat (mi_writesize mi)) then Some (-1, d') else Some (0, d'))"

section \<open>The loops end\<close>

text \<open>
  A partition whose size is a whole number of erase blocks is at most \<open>2 ^ 31\<close> bytes here, so
  the offsets do not wrap around.
\<close>

definition mtd_geometry :: "mtd_info \<Rightarrow> bool" where
  "mtd_geometry mi \<longleftrightarrow> 0 < unat (mi_erasesize mi) \<and> unat (mi_size mi) + unat (mi_erasesize mi) \<le> 2 ^ 31
     \<and> 0 < unat (mi_writesize mi)"

lemma offset_step:
  assumes "mtd_geometry mi" "b < mi_size mi"
  shows "unat (b + mi_erasesize mi) = unat b + unat (mi_erasesize mi)"
  using assms by (auto simp: mtd_geometry_def word_less_nat_alt unat_word_ariths)

lemma offset_decreases:
  assumes "mtd_geometry mi" "b < mi_size mi"
  shows "unat (mi_size mi) - unat (b + mi_erasesize mi) < unat (mi_size mi) - unat b"
  using assms(2) assms(1)[unfolded mtd_geometry_def] unfolding offset_step[OF assms] word_less_nat_alt
  by arith

text \<open>The block a search from \<open>b\<close> finds is the first good one in steps of the erase size.\<close>

lemma next_good_eraseblock_finds:
  assumes "mtd_geometry mi"
  shows "\<exists>r k. next_good_eraseblock bad mi b = Some r \<and> unat r = unat b + k * unat (mi_erasesize mi)
     \<and> (\<forall>j < k. bad (unat b + j * unat (mi_erasesize mi)) \<noteq> 0)
     \<and> (r \<ge> mi_size mi \<or> bad (unat r) = 0)"
proof (induction "unat (mi_size mi) - unat b" arbitrary: b rule: less_induct)
  case less
  show ?case
  proof (cases "b \<ge> mi_size mi \<or> bad (unat b) = 0")
    case True
    then show ?thesis by (intro exI[of _ b] exI[of _ 0]) (auto simp: next_good_eraseblock.simps[of bad mi b])
  next
    case False
    then have lt: "b < mi_size mi" by (simp add: not_le)
    note st = offset_step[OF assms lt]
    obtain r k where r: "next_good_eraseblock bad mi (b + mi_erasesize mi) = Some r"
      "unat r = unat (b + mi_erasesize mi) + k * unat (mi_erasesize mi)"
      "\<forall>j < k. bad (unat (b + mi_erasesize mi) + j * unat (mi_erasesize mi)) \<noteq> 0"
      "r \<ge> mi_size mi \<or> bad (unat r) = 0"
      using less.hyps[OF offset_decreases[OF assms lt]] by (elim exE conjE)
    have "unat r = unat b + Suc k * unat (mi_erasesize mi)" using r(2) st by simp
    moreover have "\<forall>j < Suc k. bad (unat b + j * unat (mi_erasesize mi)) \<noteq> 0"
    proof (intro allI impI)
      fix j assume "j < Suc k"
      then show "bad (unat b + j * unat (mi_erasesize mi)) \<noteq> 0"
        using r(3) False by (cases j) (auto simp: st add.assoc)
    qed
    moreover have "next_good_eraseblock bad mi b = Some r"
      using False r(1) by (simp add: next_good_eraseblock.simps[of bad mi b])
    ultimately show ?thesis using r(4) by blast
  qed
qed

section \<open>What the code relies on of the driver\<close>

text \<open>
  The documented behaviour of the MTD driver for the device node \<open>name\<close>: a character device
  of fixed geometry; which blocks are bad does not change; erasing a good block works, leaves
  it erased and other erased blocks alone; a page written to an erased good block is read
  back as written. Where \<open>erased d off\<close> speaks of the block at an offset.
\<close>

definition mtd_laws ::
  "'d mtd_ops \<Rightarrow> string \<Rightarrow> mtd_info \<Rightarrow> (nat \<Rightarrow> bool) \<Rightarrow> ('d \<Rightarrow> nat \<Rightarrow> bool) \<Rightarrow> bool" where
  "mtd_laws ops name mi bad erased \<longleftrightarrow> mtd_geometry mi
   \<and> (\<forall>d. op_open ops d name \<and> op_chr ops d name = Some True \<and> op_info ops d name = Some mi
        \<and> op_malloc ops d (unat (mi_writesize mi)))
   \<and> (\<forall>d off. op_bad ops d name off = (if bad off then 1 else 0))
   \<and> (\<forall>d start. start < mi_size mi \<and> \<not> bad (unat start) \<longrightarrow>
        (\<exists>d'. op_erase ops d name start (mi_erasesize mi) = Some d' \<and> erased d' (unat start)
          \<and> (\<forall>off. erased d off \<longrightarrow> erased d' off)))
   \<and> (\<forall>d off. 0 \<le> off \<longrightarrow> op_seek ops d name off)
   \<and> (\<forall>d off bs. off < unat (mi_size mi) \<and> erased d off \<and> \<not> bad off \<and> length bs = unat (mi_writesize mi) \<longrightarrow>
        (\<exists>d'. op_write ops d name (int off) bs = (int (length bs), d')
          \<and> op_read ops d' name (int off) (unat (mi_writesize mi)) = bs))"

definition has_good_block :: "mtd_info \<Rightarrow> (nat \<Rightarrow> bool) \<Rightarrow> bool" where
  "has_good_block mi bad \<longleftrightarrow> (\<exists>k. k * unat (mi_erasesize mi) < unat (mi_size mi) \<and> \<not> bad (k * unat (mi_erasesize mi)))"

lemma sint_small: "unat (x :: u32) < 2 ^ 31 \<Longrightarrow> sint x = int (unat x)"
proof -
  assume "unat x < 2 ^ 31"
  then have "int (unat x) < int (2 ^ 31)" by (simp only: of_nat_less_iff)
  then have "uint x < 2 ^ 31" by (simp only: uint_nat of_nat_power of_nat_numeral)
  moreover have "- (2 ^ 31) \<le> uint x" by (rule order_trans[of _ 0]) simp_all
  ultimately have "sint x = uint x" by (simp only: sint_uint) (rule signed_take_bit_int_eq_self; simp)
  then show ?thesis by (simp only: uint_nat)
qed

text \<open>The erase loop visits every block from \<open>start\<close> on and erases the good ones.\<close>

lemma nand_erase_loop_step:
  assumes laws: "mtd_laws ops name mi bad erased" and lt: "start < mi_size mi"
  obtains d1 where "nand_erase_loop ops name mi (mi_size mi) d start
         = nand_erase_loop ops name mi (mi_size mi) d1 (start + mi_erasesize mi)"
    and "\<not> bad (unat start) \<Longrightarrow> erased d1 (unat start)" and "\<And>off. erased d off \<Longrightarrow> erased d1 off"
proof (cases "bad (unat start)")
  case True
  then have "op_bad ops d name (unat start) = 1" using laws by (simp add: mtd_laws_def)
  with lt True show thesis
    by (intro that[of d]) (simp_all add: nand_erase_loop.simps[of ops name mi _ d start])
next
  case False
  have "op_bad ops d name (unat start) = 0" using laws False by (simp add: mtd_laws_def)
  moreover obtain d1 where d1: "op_erase ops d name start (mi_erasesize mi) = Some d1"
    "erased d1 (unat start)" "\<forall>off. erased d off \<longrightarrow> erased d1 off"
    using laws lt False unfolding mtd_laws_def by blast
  ultimately have "nand_erase_loop ops name mi (mi_size mi) d start
         = nand_erase_loop ops name mi (mi_size mi) d1 (start + mi_erasesize mi)"
    using lt by (simp add: nand_erase_loop.simps[of ops name mi _ d start])
  then show thesis using that[of d1] d1(2,3) by blast
qed

lemma nand_erase_loop_all:
  assumes laws: "mtd_laws ops name mi bad erased"
  shows "\<exists>d'. nand_erase_loop ops name mi (mi_size mi) d start = Some (0, d')
    \<and> (\<forall>k. unat start + k * unat (mi_erasesize mi) < unat (mi_size mi)
         \<longrightarrow> \<not> bad (unat start + k * unat (mi_erasesize mi))
         \<longrightarrow> erased d' (unat start + k * unat (mi_erasesize mi)))
    \<and> (\<forall>off. erased d off \<longrightarrow> erased d' off)"
proof (induction "unat (mi_size mi) - unat start" arbitrary: start d rule: less_induct)
  case less
  let ?e = "unat (mi_erasesize mi)"
  show ?case
  proof (cases "start < mi_size mi")
    case False
    then have "nand_erase_loop ops name mi (mi_size mi) d start = Some (0, d)"
      by (simp add: nand_erase_loop.simps[of ops name mi _ d start])
    moreover have "\<not> unat start + k * ?e < unat (mi_size mi)" for k
      using False by (simp add: word_less_nat_alt)
    ultimately show ?thesis by blast
  next
    case True
    have geo: "mtd_geometry mi" using laws by (simp add: mtd_laws_def)
    obtain d1 where d1: "nand_erase_loop ops name mi (mi_size mi) d start
         = nand_erase_loop ops name mi (mi_size mi) d1 (start + mi_erasesize mi)"
      "\<not> bad (unat start) \<Longrightarrow> erased d1 (unat start)" "\<And>off. erased d off \<Longrightarrow> erased d1 off"
      using nand_erase_loop_step[OF laws True, where d = d] by blast
    obtain d' where d': "nand_erase_loop ops name mi (mi_size mi) d start = Some (0, d')"
      "\<forall>k. unat start + Suc k * ?e < unat (mi_size mi) \<longrightarrow> \<not> bad (unat start + Suc k * ?e)
         \<longrightarrow> erased d' (unat start + Suc k * ?e)"
      "\<forall>off. erased d1 off \<longrightarrow> erased d' off"
      using less.hyps[OF offset_decreases[OF geo True], of d1] unfolding d1(1)
      by (simp only: offset_step[OF geo True] add.assoc mult_Suc) blast
    have "erased d' (unat start + k * ?e)"
      if "unat start + k * ?e < unat (mi_size mi)" "\<not> bad (unat start + k * ?e)" for k
      using that d'(2,3) d1(2) by (cases k) auto
    then show ?thesis using d'(1,3) d1(3) by blast
  qed
qed

lemma nand_erase_all:
  assumes laws: "mtd_laws ops name mi bad erased"
  obtains d' where "nand_erase ops d name 0 (mi_size mi) = Some (0, d')"
    and "\<And>k. k * unat (mi_erasesize mi) < unat (mi_size mi) \<Longrightarrow> \<not> bad (k * unat (mi_erasesize mi))
        \<Longrightarrow> erased d' (k * unat (mi_erasesize mi))"
proof -
  have "nand_erase ops d name 0 (mi_size mi) = nand_erase_loop ops name mi (mi_size mi) d 0"
    using laws by (simp add: nand_erase_def mtd_laws_def)
  then show thesis using nand_erase_loop_all[OF laws, of d 0] that by auto
qed

text \<open>Reading and writing from offset 0 use the first good block.\<close>

lemma nand_locate_zero:
  assumes laws: "mtd_laws ops name mi bad erased" and good: "has_good_block mi bad"
  obtains off k where "\<And>d. nand_locate ops d name 0 = Some (Inr (mi, off))"
    and "unat off = k * unat (mi_erasesize mi)" and "unat off < unat (mi_size mi)" and "\<not> bad (unat off)"
proof -
  let ?bad = "\<lambda>off. if bad off then 1 else 0 :: int"
  have geo: "mtd_geometry mi" using laws by (simp add: mtd_laws_def)
  obtain r k where r: "next_good_eraseblock ?bad mi 0 = Some r" "unat r = k * unat (mi_erasesize mi)"
    "\<forall>j < k. ?bad (j * unat (mi_erasesize mi)) \<noteq> 0" "r \<ge> mi_size mi \<or> ?bad (unat r) = 0"
    using next_good_eraseblock_finds[OF geo, of ?bad 0] unfolding unsigned_0 add_0
    by (elim exE conjE)
  obtain g where g: "g * unat (mi_erasesize mi) < unat (mi_size mi)" "\<not> bad (g * unat (mi_erasesize mi))"
    using good by (auto simp: has_good_block_def)
  have "k \<le> g" using r(3) g(2) by (metis not_less)
  then have lt: "unat r < unat (mi_size mi)"
    using g(1) r(2) by (metis le_less_trans mult_le_mono1)
  then have nb: "\<not> bad (unat r)" using r(4) by (auto simp: word_le_nat_alt split: if_splits)
  have "nand_locate ops d name 0 = Some (Inr (mi, r))" for d
  proof -
    have "op_bad ops d name = ?bad" using laws by (auto simp: mtd_laws_def)
    then show ?thesis
      using laws lt r(1) by (simp add: nand_locate_def mtd_laws_def word_le_nat_alt)
  qed
  then show thesis using that r(2) lt nb by blast
qed

lemma nand_erase_write_read_lemma:
  assumes laws: "mtd_laws ops name mi bad erased" and good: "has_good_block mi bad"
    and len: "length data \<le> unat (mi_writesize mi)"
  shows "\<exists>d1 d2. nand_erase ops d name 0 (mi_size mi) = Some (0, d1)
    \<and> nand_write ops d1 name 0 data = Some (0, d2)
    \<and> nand_read ops d2 name 0 (length data) = Some (Inr data)"
proof -
  obtain d1 where d1: "nand_erase ops d name 0 (mi_size mi) = Some (0, d1)"
    and er: "\<And>k. k * unat (mi_erasesize mi) < unat (mi_size mi) \<Longrightarrow> \<not> bad (k * unat (mi_erasesize mi))
        \<Longrightarrow> erased d1 (k * unat (mi_erasesize mi))"
    using nand_erase_all[OF laws, where d = d] by blast
  obtain off k where loc: "\<And>d. nand_locate ops d name 0 = Some (Inr (mi, off))"
    and off: "unat off = k * unat (mi_erasesize mi)" "unat off < unat (mi_size mi)" "\<not> bad (unat off)"
    using nand_locate_zero[OF laws good] by blast
  let ?tmp = "data @ replicate (unat (mi_writesize mi) - length data) 0"
  have tmp: "length ?tmp = unat (mi_writesize mi)" using len by simp
  have "mtd_geometry mi" using laws by (simp add: mtd_laws_def)
  then have s: "sint off = int (unat off)"
    using off(2) by (intro sint_small) (simp add: mtd_geometry_def)
  have "erased d1 (unat off)" using er off by simp
  then obtain d2 where d2: "op_write ops d1 name (int (unat off)) ?tmp = (int (length ?tmp), d2)"
    "op_read ops d2 name (int (unat off)) (unat (mi_writesize mi)) = ?tmp"
    using laws off tmp unfolding mtd_laws_def by blast
  have seek: "op_seek ops d name (int (unat off))" for d
    using laws by (simp add: mtd_laws_def)
  have "nand_write ops d1 name 0 data = Some (0, d2)"
    using d2(1) len seek by (simp add: nand_write_def loc s tmp)
  moreover have "nand_read ops d2 name 0 (length data) = Some (Inr data)"
    using d2(2) len seek by (simp add: nand_read_def loc s Let_def)
  ultimately show ?thesis using d1 by blast
qed

text \<open>C31: erasing a whole NAND partition, writing up to a page at offset 0 and reading it back
  gives what was written, whichever blocks are bad, as long as one is good; all three loops
  end and all three calls succeed.
\<close>

theorem nand_erase_write_read:
  assumes laws: "mtd_laws ops name mi bad erased" and good: "has_good_block mi bad"
    and len: "length data \<le> unat (mi_writesize mi)"
  shows "\<exists>d1 d2. nand_erase ops d name 0 (mi_size mi) = Some (0, d1)
    \<and> nand_write ops d1 name 0 data = Some (0, d2)
    \<and> nand_read ops d2 name 0 (length data) = Some (Inr data)"
  using nand_erase_write_read_lemma[OF assms] .

text \<open>
  A device in memory that satisfies the laws, for the witnesses: two erase blocks of 128 KiB,
  the first one bad; its state says which blocks are erased and what each page holds.
\<close>

type_synonym ram_dev = "(nat \<Rightarrow> bool) \<times> (int \<Rightarrow> u8 list)"

definition ram_info :: mtd_info where
  "ram_info = \<lparr>mi_size = 0x40000, mi_erasesize = 0x20000, mi_writesize = 0x800\<rparr>"

definition ram_bad :: "nat \<Rightarrow> bool" where "ram_bad off \<longleftrightarrow> off = 0"

definition ram_mtd :: "ram_dev mtd_ops" where
  "ram_mtd = \<lparr>op_open = (\<lambda>_ _. True), op_chr = (\<lambda>_ _. Some True), op_info = (\<lambda>_ _. Some ram_info),
     op_bad = (\<lambda>_ _ off. if ram_bad off then 1 else 0),
     op_erase = (\<lambda>d _ start len. Some ((fst d)(unat start := True), snd d)),
     op_seek = (\<lambda>_ _ off. 0 \<le> off),
     op_read = (\<lambda>d _ off n. snd d off),
     op_write = (\<lambda>d _ off bs. (int (length bs), ((fst d)(nat off := False), (snd d)(off := bs)))),
     op_malloc = (\<lambda>_ _. True)\<rparr>"

lemma ram_mtd_laws: "mtd_laws ram_mtd name ram_info ram_bad fst"
  by (simp add: mtd_laws_def ram_mtd_def mtd_geometry_def ram_info_def)

lemma ram_good_block: "has_good_block ram_info ram_bad"
  unfolding has_good_block_def by (intro exI[of _ 1]) (simp add: ram_info_def ram_bad_def)

theorem nand_erase_write_read_witness:
  "\<exists>d1 d2. nand_erase ram_mtd (\<lambda>_. False, \<lambda>_. []) ''/dev/mtd1'' 0 (mi_size ram_info) = Some (0, d1)
    \<and> nand_write ram_mtd d1 ''/dev/mtd1'' 0 [1, 2, 3] = Some (0, d2)
    \<and> nand_read ram_mtd d2 ''/dev/mtd1'' 0 3 = Some (Inr [1, 2, 3])"
  using nand_erase_write_read[OF ram_mtd_laws ram_good_block, of "[1, 2, 3]" "(\<lambda>_. False, \<lambda>_. [])" "''/dev/mtd1''"]
  by (simp add: ram_info_def numeral_3_eq_3)

end
