(* ===== verification/CText.thy ===== *)
theory CText
  imports Prelude
begin

text \<open>
  Numbers as text, as \<open>printf\<close> and \<open>sscanf\<close> of the C library treat them: the conversions
  \<open>%d\<close>, \<open>%x\<close>, \<open>%s\<close> and \<open>%[^c]\<close> the sources use, and \<open>atoi\<close>. The lemmas of this theory
  say that what a printing conversion writes, the reading one reads back.
\<close>

section \<open>Characters\<close>

definition cval :: "char \<Rightarrow> nat" where "cval c = of_char c"

definition isspace :: "char \<Rightarrow> bool" where
  "isspace c \<longleftrightarrow> (9 \<le> cval c \<and> cval c \<le> 13) \<or> cval c = 32"

definition isdigit :: "char \<Rightarrow> bool" where
  "isdigit c \<longleftrightarrow> 48 \<le> cval c \<and> cval c \<le> 57"

definition isxdigit :: "char \<Rightarrow> bool" where
  "isxdigit c \<longleftrightarrow> isdigit c \<or> (65 \<le> cval c \<and> cval c \<le> 70) \<or> (97 \<le> cval c \<and> cval c \<le> 102)"

definition xdigit_val :: "char \<Rightarrow> nat" where
  "xdigit_val c = (if cval c \<le> 57 then cval c - 48 else if cval c \<le> 70 then cval c - 55 else cval c - 87)"

definition tolower :: "char \<Rightarrow> char" where
  "tolower c = (if 65 \<le> cval c \<and> cval c \<le> 90 then char_of (cval c + 32) else c)"

text \<open>The digit of a value below 16, in lower case.\<close>

definition digit_char :: "nat \<Rightarrow> char" where
  "digit_char n = char_of (if n < 10 then 48 + n else 87 + n)"

lemma cval_char_of [simp]: "n < 256 \<Longrightarrow> cval (char_of n) = n"
  by (simp add: cval_def)

lemma cval_inj: "cval c = cval d \<Longrightarrow> c = d"
  by (simp add: cval_def)

lemma cval_digit_char: "n < 16 \<Longrightarrow> cval (digit_char n) = (if n < 10 then 48 + n else 87 + n)"
  by (simp add: digit_char_def)

lemma xdigit_val_digit_char [simp]: "n < 16 \<Longrightarrow> xdigit_val (digit_char n) = n"
  by (simp add: xdigit_val_def cval_digit_char)

lemma isxdigit_digit_char [simp]: "n < 16 \<Longrightarrow> isxdigit (digit_char n)"
  by (auto simp: isxdigit_def isdigit_def cval_digit_char)

lemma isdigit_digit_char [simp]: "n < 10 \<Longrightarrow> isdigit (digit_char n)"
  by (simp add: isdigit_def cval_digit_char)

lemma isdigit_imp_isxdigit: "isdigit c \<Longrightarrow> isxdigit c"
  by (simp add: isxdigit_def)

lemma isxdigit_not_space [simp]: "isxdigit c \<Longrightarrow> \<not> isspace c"
  by (auto simp: isxdigit_def isdigit_def isspace_def)

lemma isdigit_not_space [simp]: "isdigit c \<Longrightarrow> \<not> isspace c"
  by (simp add: isdigit_imp_isxdigit)

lemma isxdigit_not_sign: "isxdigit c \<Longrightarrow> c \<noteq> CHR ''-'' \<and> c \<noteq> CHR ''+'' \<and> c \<noteq> CHR ''x'' \<and> c \<noteq> CHR ''X''"
  by (auto simp: isxdigit_def isdigit_def cval_def)

section \<open>Printing\<close>

fun pr_nat :: "nat \<Rightarrow> nat \<Rightarrow> string" where
  "pr_nat b n = (if b < 2 \<or> n < b then [digit_char n]
     else pr_nat b (n div b) @ [digit_char (n mod b)])"

declare pr_nat.simps [simp del]

text \<open>\<open>%d\<close> (and \<open>%u\<close>) of an integer, \<open>%8.8x\<close> of a natural number.\<close>

definition pr_int :: "int \<Rightarrow> string" where
  "pr_int i = (if i < 0 then CHR ''-'' # pr_nat 10 (nat (- i)) else pr_nat 10 (nat i))"

definition pr_hex8 :: "nat \<Rightarrow> string" where
  "pr_hex8 n = replicate (8 - length (pr_nat 16 n)) (CHR ''0'') @ pr_nat 16 n"

section \<open>Reading\<close>

definition digits_val :: "nat \<Rightarrow> string \<Rightarrow> nat" where
  "digits_val b s = foldl (\<lambda>a c. b * a + xdigit_val c) 0 s"

definition skip_ws :: "string \<Rightarrow> string" where
  "skip_ws s = dropWhile isspace s"

text \<open>A literal character sequence of the format; white space in the format is \<open>skip_ws\<close>.\<close>

definition scan_lit :: "string \<Rightarrow> string \<Rightarrow> string option" where
  "scan_lit l s = (if take (length l) s = l then Some (drop (length l) s) else None)"

text \<open>An optional sign, as \<open>%d\<close> and \<open>%x\<close> accept it: is it negative, and the rest.\<close>

fun scan_sign :: "string \<Rightarrow> bool \<times> string" where
  "scan_sign (c # s) = (if c = CHR ''-'' then (True, s) else if c = CHR ''+'' then (False, s)
     else (False, c # s))"
| "scan_sign [] = (False, [])"

text \<open>\<open>%d\<close>: the value and the unread rest; \<^const>\<open>None\<close> is a matching failure.\<close>

definition scan_dec :: "string \<Rightarrow> (int \<times> string) option" where
  "scan_dec s =
     (let (neg, t) = scan_sign (skip_ws s); ds = takeWhile isdigit t
      in if ds = [] then None
         else Some (if neg then - int (digits_val 10 ds) else int (digits_val 10 ds), dropWhile isdigit t))"

text \<open>\<open>%x\<close>: an optional \<open>0x\<close> before the digits.\<close>

definition scan_hex :: "string \<Rightarrow> (int \<times> string) option" where
  "scan_hex s =
     (let (neg, t0) = scan_sign (skip_ws s);
          t = (if take 2 t0 = ''0x'' \<or> take 2 t0 = ''0X'' then drop 2 t0 else t0);
          ds = takeWhile isxdigit t
      in if ds = [] then None
         else Some (if neg then - int (digits_val 16 ds) else int (digits_val 16 ds), dropWhile isxdigit t))"

text \<open>\<open>%<n>[^q]\<close> and \<open>%<n>s\<close>: at least one, at most \<open>n\<close> characters.\<close>

definition scan_until :: "nat \<Rightarrow> char \<Rightarrow> string \<Rightarrow> (string \<times> string) option" where
  "scan_until n q s =
     (let w = take n (takeWhile (\<lambda>c. c \<noteq> q) s)
      in if w = [] then None else Some (w, drop (length w) s))"

definition scan_word :: "nat \<Rightarrow> string \<Rightarrow> (string \<times> string) option" where
  "scan_word n s =
     (let t = skip_ws s; w = take n (takeWhile (\<lambda>c. \<not> isspace c) t)
      in if w = [] then None else Some (w, drop (length w) t))"

text \<open>
  \<open>atoi\<close>: 0 for text that starts with no number. A number outside \<open>int\<close> has no defined
  value in C: \<^const>\<open>None\<close>.
\<close>

definition atoi :: "string \<Rightarrow> int option" where
  "atoi s = (case scan_dec s of None \<Rightarrow> Some 0
     | Some (i, _) \<Rightarrow> if - (2 ^ 31) \<le> i \<and> i < 2 ^ 31 then Some i else None)"

section \<open>Reading what was printed\<close>

lemma pr_nat_nonempty [simp]: "pr_nat b n \<noteq> []"
  by (subst pr_nat.simps) simp

lemma pr_nat_digits: "b \<le> 16 \<Longrightarrow> 2 \<le> b \<Longrightarrow> c \<in> set (pr_nat b n) \<Longrightarrow> \<exists>d < b. c = digit_char d"
proof (induction b n rule: pr_nat.induct)
  case (1 b n)
  show ?case
  proof (cases "n < b")
    case True
    then have "c = digit_char n" using "1.prems" by (simp add: pr_nat.simps[of b n])
    then show ?thesis using True by blast
  next
    case False
    then have "c \<in> set (pr_nat b (n div b)) \<or> c = digit_char (n mod b)"
      using "1.prems" by (auto simp: pr_nat.simps[of b n])
    moreover have "n mod b < b" using "1.prems" by simp
    ultimately show ?thesis using "1.IH" "1.prems" False by (metis not_less)
  qed
qed

lemma digits_val_append: "digits_val b (s @ [c]) = b * digits_val b s + xdigit_val c"
  by (simp add: digits_val_def)

lemma digits_val_pr_nat [simp]: "2 \<le> b \<Longrightarrow> b \<le> 16 \<Longrightarrow> digits_val b (pr_nat b n) = n"
proof (induction b n rule: pr_nat.induct)
  case (1 b n)
  show ?case
  proof (cases "n < b")
    case True
    then show ?thesis using "1.prems" by (simp add: pr_nat.simps[of b n] digits_val_def)
  next
    case False
    moreover have "n mod b < 16"
      using "1.prems" by (meson mod_less_divisor less_le_trans zero_less_numeral less_le_trans)
    ultimately show ?thesis
      using 1 by (simp add: pr_nat.simps[of b n] digits_val_append)
  qed
qed

lemma length_pr_nat_le: "2 \<le> b \<Longrightarrow> n < b ^ Suc d \<Longrightarrow> length (pr_nat b n) \<le> Suc d"
proof (induction d arbitrary: n)
  case 0
  then show ?case by (simp add: pr_nat.simps[of b n])
next
  case (Suc d)
  have "n div b < b ^ Suc d"
    using Suc.prems by (simp add: less_mult_imp_div_less mult.commute)
  then show ?case using Suc by (simp add: pr_nat.simps[of b n])
qed

lemma length_pr_nat: "n < 10 ^ k \<Longrightarrow> 0 < k \<Longrightarrow> length (pr_nat 10 n) \<le> k"
  using length_pr_nat_le[of 10 n "k - 1"] by simp

lemma length_pr_int: "\<bar>i\<bar> < 10 ^ k \<Longrightarrow> 0 < k \<Longrightarrow> length (pr_int i) \<le> k + 1"
  using length_pr_nat[of "nat \<bar>i\<bar>" k] by (auto simp: pr_int_def abs_if nat_less_iff split: if_splits)

lemma pr_nat_isdigit: "c \<in> set (pr_nat 10 n) \<Longrightarrow> isdigit c"
  using pr_nat_digits[of 10 c n] by auto

lemma pr_nat_isxdigit: "c \<in> set (pr_nat 16 n) \<Longrightarrow> isxdigit c"
  using pr_nat_digits[of 16 c n] by auto

lemma digits_val_zeros: "digits_val b (replicate k (CHR ''0'') @ s) = digits_val b s"
  by (induction k) (simp_all add: digits_val_def xdigit_val_def cval_def)

lemma scan_sign_digit: "s \<noteq> [] \<Longrightarrow> isxdigit (hd s) \<Longrightarrow> scan_sign (s @ t) = (False, s @ t)"
  by (cases s) (auto dest: isxdigit_not_sign)

lemma skip_ws_digit: "s \<noteq> [] \<Longrightarrow> isxdigit (hd s) \<Longrightarrow> skip_ws (s @ t) = s @ t"
  by (cases s) (auto simp: skip_ws_def)

lemma takeWhile_all_append: "(\<And>c. c \<in> set s \<Longrightarrow> P c) \<Longrightarrow> \<not> (t \<noteq> [] \<and> P (hd t))
  \<Longrightarrow> takeWhile P (s @ t) = s \<and> dropWhile P (s @ t) = t"
  by (cases t) (auto simp: takeWhile_append dropWhile_append)

lemma scan_dec_nat [scan_simps]:
  assumes "\<not> (t \<noteq> [] \<and> isdigit (hd t))"
  shows "scan_dec (pr_nat 10 n @ t) = Some (int n, t)"
proof -
  have hd: "isxdigit (hd (pr_nat 10 n))"
    using pr_nat_isdigit[of "hd (pr_nat 10 n)" n] by (simp add: isdigit_imp_isxdigit)
  show ?thesis
    using takeWhile_all_append[of "pr_nat 10 n" isdigit t] assms pr_nat_isdigit
    by (simp add: scan_dec_def skip_ws_digit scan_sign_digit hd)
qed

lemma scan_dec_int [scan_simps]:
  assumes "\<not> (t \<noteq> [] \<and> isdigit (hd t))"
  shows "scan_dec (pr_int i @ t) = Some (i, t)"
proof (cases "i < 0")
  case False
  then show ?thesis using scan_dec_nat[OF assms, of "nat i"] by (simp add: pr_int_def)
next
  case True
  then have "skip_ws (pr_int i @ t) = CHR ''-'' # pr_nat 10 (nat (- i)) @ t"
    by (simp add: pr_int_def skip_ws_def isspace_def cval_def)
  then show ?thesis
    using True takeWhile_all_append[of "pr_nat 10 (nat (- i))" isdigit t] assms pr_nat_isdigit
    by (simp add: scan_dec_def)
qed

lemma atoi_pr_int: "- (2 ^ 31) \<le> i \<Longrightarrow> i < 2 ^ 31 \<Longrightarrow> atoi (pr_int i) = Some i"
  using scan_dec_int[of "[]" i] by (simp add: atoi_def)

lemma scan_hex_hex8 [scan_simps]:
  assumes "\<not> (t \<noteq> [] \<and> isxdigit (hd t))"
  shows "scan_hex (pr_hex8 n @ t) = Some (int n, t)"
proof -
  let ?s = "pr_hex8 n"
  have z: "isxdigit (CHR ''0'')" by (simp add: isxdigit_def isdigit_def cval_def)
  have ds: "c \<in> set ?s \<Longrightarrow> isxdigit c" for c
    using pr_nat_isxdigit[of c n] z by (auto simp: pr_hex8_def split: if_splits)
  have ne: "?s \<noteq> []" and len: "8 \<le> length ?s" by (auto simp: pr_hex8_def)
  have hd: "isxdigit (hd ?s)" using ds ne by simp
  have "?s ! 1 \<in> set ?s" using len by simp
  then have "isxdigit (?s ! 1)" by (rule ds)
  then have "take 2 (?s @ t) \<noteq> ''0x'' \<and> take 2 (?s @ t) \<noteq> ''0X''"
    using len isxdigit_not_sign[of "?s ! 1"]
    by (cases ?s; cases "tl ?s") (auto simp: numeral_2_eq_2)
  then show ?thesis
    using takeWhile_all_append[of ?s isxdigit t] assms ds ne
    by (simp add: scan_hex_def skip_ws_digit[OF ne hd] scan_sign_digit[OF ne hd])
      (simp add: pr_hex8_def digits_val_zeros)
qed

lemma scan_lit_append [scan_simps]: "scan_lit l (l @ t) = Some t"
  by (simp add: scan_lit_def)

lemma scan_until_append [scan_simps]:
  assumes "s \<noteq> []" "q \<notin> set s" "length s \<le> n"
  shows "scan_until n q (s @ q # t) = Some (s, q # t)"
proof -
  have "takeWhile (\<lambda>c. c \<noteq> q) (s @ q # t) = s"
    using assms(2) by (simp add: takeWhile_append)
  then show ?thesis using assms by (simp add: scan_until_def)
qed

lemma pr_int_chars: "c \<in> set (pr_int i) \<Longrightarrow> isdigit c \<or> c = CHR ''-''"
  by (auto simp: pr_int_def pr_nat_isdigit split: if_splits)

lemma NUL_notin_pr_int [simp]: "NUL \<notin> set (pr_int i)"
  using pr_int_chars[of NUL i] by (auto simp: isdigit_def cval_def)

section \<open>Lines of a file\<close>

text \<open>What \<open>fgets\<close> returns for a buffer of \<open>n + 1\<close> bytes, call by call.\<close>

lemma takeWhile_whole: "\<not> length (takeWhile P s) < length s \<Longrightarrow> length (takeWhile P s) = length s"
  using length_takeWhile_le[of P s] by simp

function fgets_lines :: "nat \<Rightarrow> string \<Rightarrow> string list" where
  "fgets_lines n s =
     (if s = [] \<or> n = 0 then []
      else let l = takeWhile (\<lambda>c. c \<noteq> CHR 0x0A) s; m = min n (if length l < length s then length l + 1 else length l)
        in take m s # fgets_lines n (drop m s))"
  by pat_completeness auto
termination by (relation "measure (\<lambda>(n, s). length s)") (auto simp: takeWhile_whole split: if_splits)

declare fgets_lines.simps [simp del]

end
