(* ===== verification/BootMessage.thy ===== *)
theory BootMessage
  imports Codec MiscDev Nand CText "HOL-Library.Monad_Syntax"
begin

text \<open>
  \<open>bootloader_message/bootloader_message.c\<close>: the bootloader message in the misc partition
  (of an eMMC device, or of a NAND device found in \<open>/proc/mtd\<close>), the recovery commands
  written into it, the A/B slot record inside it, and the tool \<open>urlmisc\<close>.

  The state of a process using the library is \<open>boot_env\<close>: what the system shows it
  (\<open>access\<close>, the two \<open>/proc\<close> files, the device) and the globals of the file. A function
  returns \<^const>\<open>None\<close> for undefined behaviour or a loop that does not end.
\<close>

section \<open>Data\<close>

record bootloader_message =
  command :: string
  status :: string
  recovery :: string
  stage :: string
  slot_suffix :: string
  msg_reserved :: string

definition msg_wf :: "bootloader_message \<Rightarrow> bool" where
  "msg_wf m \<longleftrightarrow> length (command m) = 32 \<and> length (status m) = 32 \<and> length (recovery m) = 768
     \<and> length (stage m) = 32 \<and> length (slot_suffix m) = 32 \<and> length (msg_reserved m) = 192"

definition SIZEOF_BOOTLOADER_MESSAGE :: nat where "SIZEOF_BOOTLOADER_MESSAGE = 1088"

definition msg_bytes :: "bootloader_message \<Rightarrow> u8 list" where
  "msg_bytes m = map byte_of (command m @ status m @ recovery m @ stage m @ slot_suffix m @ msg_reserved m)"

definition msg_of_bytes :: "u8 list \<Rightarrow> bootloader_message" where
  "msg_of_bytes b = (let s = map char_of_byte b in
     \<lparr>command = get_at s 0 32, status = get_at s 32 32, recovery = get_at s 64 768,
      stage = get_at s 832 32, slot_suffix = get_at s 864 32, msg_reserved = get_at s 896 192\<rparr>)"

record BrilloSlotInfo =
  bootable :: char
  online :: char
  si_reserved :: string

record BrilloBootInfo =
  bootctrl_suffix :: string
  bi_magic :: string
  bi_version :: char
  active_slot :: char
  slot_info0 :: BrilloSlotInfo
  slot_info1 :: BrilloSlotInfo
  attemp_times :: char
  bi_reserved :: string

definition brillo_wf :: "BrilloBootInfo \<Rightarrow> bool" where
  "brillo_wf b \<longleftrightarrow> length (bootctrl_suffix b) = 4 \<and> length (bi_magic b) = 3
     \<and> length (si_reserved (slot_info0 b)) = 2 \<and> length (si_reserved (slot_info1 b)) = 2
     \<and> length (bi_reserved b) = 14"

definition slot_info_chars :: "BrilloSlotInfo \<Rightarrow> string" where
  "slot_info_chars s = [bootable s, online s] @ si_reserved s"

definition slot_info_of_chars :: "string \<Rightarrow> BrilloSlotInfo" where
  "slot_info_of_chars c = \<lparr>bootable = c ! 0, online = c ! 1, si_reserved = get_at c 2 2\<rparr>"

definition brillo_chars :: "BrilloBootInfo \<Rightarrow> string" where
  "brillo_chars b = bootctrl_suffix b @ bi_magic b @ [bi_version b, active_slot b]
     @ slot_info_chars (slot_info0 b) @ slot_info_chars (slot_info1 b) @ [attemp_times b] @ bi_reserved b"

definition brillo_of_chars :: "string \<Rightarrow> BrilloBootInfo" where
  "brillo_of_chars c = \<lparr>bootctrl_suffix = get_at c 0 4, bi_magic = get_at c 4 3, bi_version = c ! 7,
     active_slot = c ! 8, slot_info0 = slot_info_of_chars (get_at c 9 4),
     slot_info1 = slot_info_of_chars (get_at c 13 4), attemp_times = c ! 17, bi_reserved = get_at c 18 14\<rparr>"

record MtdPartition =
  device_index :: int
  part_size :: int
  part_erase_size :: int
  part_name :: string

text \<open>What reading a file under \<open>/proc\<close> gives.\<close>

datatype proc_file = OpenFails | ReadFails | Content string

text \<open>
  The environment: the answers of \<open>access\<close>, the files, the eMMC device, the NAND device and
  its driver, whether \<open>malloc\<close> has memory; then the globals \<open>g_init\<close> and \<open>mtdpartition\<close>
  (its first \<open>g_mtd_number\<close> entries).
\<close>

record 'd boot_env =
  has_mmcblk0 :: bool
  has_system_a :: bool
  proc_mtd :: proc_file
  proc_cmdline :: proc_file
  misc :: misc_io
  nand_ops :: "'d mtd_ops"
  nand_dev :: 'd
  heap_ok :: bool
  g_init :: bool
  mtdpartition :: "MtdPartition list"

section \<open>The MTD partition table\<close>

text \<open>\<open>sscanf (bufp, "mtd%d: %llx %llx \"%63[^\"]", ..)\<close> with all four conversions done.\<close>

definition mtd_sscanf :: "string \<Rightarrow> (int \<times> int \<times> int \<times> string) option" where
  "mtd_sscanf s = do {
     s \<leftarrow> scan_lit ''mtd'' s;
     (mtdnum, s) \<leftarrow> scan_dec s;
     s \<leftarrow> scan_lit '':'' s;
     (mtdsize, s) \<leftarrow> scan_hex (skip_ws s);
     (mtderasesize, s) \<leftarrow> scan_hex (skip_ws s);
     s \<leftarrow> scan_lit [CHR 0x22] (skip_ws s);
     (mtdname, s) \<leftarrow> scan_until 63 (CHR 0x22) s;
     Some (mtdnum, mtdsize, mtderasesize, mtdname) }"

text \<open>Eat the line.\<close>

definition eat_line :: "string \<Rightarrow> string" where
  "eat_line s = drop 1 (dropWhile (\<lambda>c. c \<noteq> CHR 0x0A) s)"

lemma length_eat_line: "s \<noteq> [] \<Longrightarrow> length (eat_line s) < length s"
proof -
  assume "s \<noteq> []"
  then have "0 < length s" by (simp only: length_greater_0_conv not_False_eq_True)
  moreover have "length (dropWhile (\<lambda>c. c \<noteq> CHR 0x0A) s) \<le> length s" by (rule length_dropWhile_le)
  ultimately show ?thesis unfolding eat_line_def length_drop by linarith
qed

text \<open>\<open>mtdpartition\<close> has room for 32 entries, which the loop does not check.\<close>

function mtd_scan_loop :: "bool \<Rightarrow> MtdPartition list \<Rightarrow> string \<Rightarrow> (int \<times> MtdPartition list) option" where
  "mtd_scan_loop heap parts bufp =
     (if bufp = [] then Some (0, parts)
      else case mtd_sscanf (cstr bufp) of
        Some (mtdnum, mtdsize, mtderasesize, mtdname) \<Rightarrow>
          if length parts \<ge> 32 then None
          else if \<not> heap then Some (-1, parts)
          else mtd_scan_loop heap (parts @ [\<lparr>device_index = mtdnum, part_size = mtdnum,
                 part_erase_size = mtderasesize, part_name = mtdname\<rparr>]) (eat_line bufp)
      | None \<Rightarrow> mtd_scan_loop heap parts (eat_line bufp))"
  by pat_completeness auto
termination
  by (relation "measure (\<lambda>(heap, parts, bufp). length bufp)") (auto simp: length_eat_line)

declare mtd_scan_loop.simps [simp del]

definition mtd_scan_partitions :: "'d boot_env \<Rightarrow> (int \<times> 'd boot_env) option" where
  "mtd_scan_partitions e =
     (if g_init e then Some (0, e)
      else case proc_mtd e of
        OpenFails \<Rightarrow> Some (-1, e)
      | ReadFails \<Rightarrow> Some (-1, e)
      | Content txt \<Rightarrow>
          (case mtd_scan_loop (heap_ok e) (mtdpartition e) (take 2047 txt) of
             None \<Rightarrow> None
           | Some (r, parts) \<Rightarrow>
               if r < 0 then Some (-1, e\<lparr>mtdpartition := parts\<rparr>)
               else Some (0, e\<lparr>mtdpartition := parts, g_init := True\<rparr>)))"

definition get_mtd_by_name :: "'d boot_env \<Rightarrow> string \<Rightarrow> int" where
  "get_mtd_by_name e name =
     (case find (\<lambda>p. part_name p = name) (mtdpartition e) of None \<Rightarrow> -1 | Some p \<Rightarrow> device_index p)"

section \<open>Reading and writing the message\<close>

text \<open>The device node \<open>sprintf (buff, "%s%d", "/dev/mtd", mtd)\<close>.\<close>

definition mtd_node :: "int \<Rightarrow> string" where
  "mtd_node mtd = ''/dev/mtd'' @ pr_int mtd"

definition get_bootloader_message_mtd :: "'d boot_env \<Rightarrow> (int + bootloader_message) option" where
  "get_bootloader_message_mtd e =
     (let mtd = get_mtd_by_name e ''misc'' in
      if mtd < 0 then Some (Inl (-1))
      else let buff = mtd_node mtd in
        case nand_read (nand_ops e) (nand_dev e) buff 0 SIZEOF_BOOTLOADER_MESSAGE of
          None \<Rightarrow> None
        | Some (Inl _) \<Rightarrow> Some (Inl (-1))
        | Some (Inr b) \<Rightarrow> Some (Inr (msg_of_bytes b)))"

definition set_bootloader_message_mtd :: "'d boot_env \<Rightarrow> bootloader_message \<Rightarrow> (int \<times> 'd boot_env) option" where
  "set_bootloader_message_mtd e msg =
     (let mtd = get_mtd_by_name e ''misc'' in
      if mtd < 0 then Some (-1, e)
      else let buff = mtd_node mtd;
               misc_size = get_mtd_size (nand_ops e) (nand_dev e) buff in
        if misc_size < 0 then Some (-1, e)
        else case nand_erase (nand_ops e) (nand_dev e) buff 0 (word_of_int misc_size) of
          None \<Rightarrow> None
        | Some (ret, d) \<Rightarrow>
            if ret < 0 then Some (-1, e\<lparr>nand_dev := d\<rparr>)
            else (case nand_write (nand_ops e) d buff 0 (msg_bytes msg) of
                None \<Rightarrow> None
              | Some (ret, d) \<Rightarrow> if ret < 0 then Some (-1, e\<lparr>nand_dev := d\<rparr>) else Some (0, e\<lparr>nand_dev := d\<rparr>)))"

definition get_bootloader_message_block :: "'d boot_env \<Rightarrow> int + bootloader_message" where
  "get_bootloader_message_block e =
     (let io = misc e in
      if \<not> rd_open io then Inl (-1)
      else let temp = misc_fread io SIZEOF_BOOTLOADER_MESSAGE in
        if length temp \<noteq> SIZEOF_BOOTLOADER_MESSAGE then Inl (-1)
        else if \<not> rd_close io then Inl (-1)
        else Inr (msg_of_bytes temp))"

definition set_bootloader_message_block :: "'d boot_env \<Rightarrow> bootloader_message \<Rightarrow> int \<times> 'd boot_env" where
  "set_bootloader_message_block e msg =
     (let io = misc e in
      if \<not> wr_open io then (-1, e)
      else let (count, io') = misc_fwrite io (msg_bytes msg); e' = e\<lparr>misc := io'\<rparr> in
        if count \<noteq> SIZEOF_BOOTLOADER_MESSAGE then (-1, e')
        else if \<not> wr_close io then (-1, e')
        else (0, e'))"

definition get_store_device :: "'d boot_env \<Rightarrow> int" where
  "get_store_device e = (if has_mmcblk0 e then 0 else -1)"

definition get_system_type :: "'d boot_env \<Rightarrow> int" where
  "get_system_type e =
     (if get_store_device e = 0 then (if has_system_a e then 0 else -1)
      else if get_mtd_by_name e ''system_a'' < 0 then -1 else 0)"

definition get_bootloader_message :: "'d boot_env \<Rightarrow> (int + bootloader_message) option" where
  "get_bootloader_message e =
     (if get_store_device e = 0 then Some (get_bootloader_message_block e) else get_bootloader_message_mtd e)"

definition set_bootloader_message :: "'d boot_env \<Rightarrow> bootloader_message \<Rightarrow> (int \<times> 'd boot_env) option" where
  "set_bootloader_message e msg =
     (if get_store_device e = 0 then Some (set_bootloader_message_block e msg) else set_bootloader_message_mtd e msg)"

section \<open>The recovery commands\<close>

text \<open>
  The functions of this section read the message, edit it and write it back; the access to
  the message is an argument, so that the pattern is stated once.
\<close>

definition update_message ::
  "('e \<Rightarrow> (int + 'm) option) \<Rightarrow> ('e \<Rightarrow> 'm \<Rightarrow> (int \<times> 'e) option) \<Rightarrow> ('m \<Rightarrow> 'm) \<Rightarrow> 'e \<Rightarrow> (int \<times> 'e) option" where
  "update_message getm setm f e =
     (case getm e of
        None \<Rightarrow> None
      | Some (Inl _) \<Rightarrow> Some (-1, e)
      | Some (Inr info) \<Rightarrow>
          (case setm e (f info) of
             None \<Rightarrow> None
           | Some (ret, e') \<Rightarrow> if ret \<noteq> 0 then Some (-1, e') else Some (0, e')))"

definition CMD_RUN_RECOVERY :: string where "CMD_RUN_RECOVERY = ''boot-recovery''"

text \<open>
  \<open>get_recovery_otapath (path)\<close>: the new contents of the caller's buffer, or the error. No
  NUL inside \<open>recovery\<close> makes \<open>strlen\<close> run out of it; a buffer too small is overrun.
\<close>

definition get_recovery_otapath :: "'d boot_env \<Rightarrow> string \<Rightarrow> (int + string) option" where
  "get_recovery_otapath e path =
     (case get_bootloader_message e of
        None \<Rightarrow> None
      | Some (Inl _) \<Rightarrow> Some (Inl (-1))
      | Some (Inr info) \<Rightarrow>
          (case cstr_at (recovery info) 0 of
             None \<Rightarrow> None
           | Some url \<Rightarrow>
               if length url = 0 \<or> length url \<ge> 256 then Some (Inl (-1))
               else if \<not> strncmp_eq url ''http'' 4 then Some (Inl (-1))
               else if length url > length path then None
               else Some (Inr (put_at path 0 url))))"

definition otapath_edit :: "string \<Rightarrow> bootloader_message \<Rightarrow> bootloader_message" where
  "otapath_edit path info = info\<lparr>
     command := (strncpy (command info) CMD_RUN_RECOVERY 31)[31 := NUL],
     recovery := (strncpy (zeros 768) path 767)[767 := NUL]\<rparr>"

text \<open>The path is \<^const>\<open>None\<close> for \<open>NULL\<close>, which is checked after the message was read.\<close>

definition set_recovery_otapath :: "'d boot_env \<Rightarrow> string option \<Rightarrow> (int \<times> 'd boot_env) option" where
  "set_recovery_otapath e path =
     (case path of
        Some p \<Rightarrow> update_message get_bootloader_message set_bootloader_message (otapath_edit p) e
      | None \<Rightarrow> (case get_bootloader_message e of None \<Rightarrow> None | Some _ \<Rightarrow> Some (-1, e)))"

definition clean_otapath_edit :: "bootloader_message \<Rightarrow> bootloader_message" where
  "clean_otapath_edit info = info\<lparr>command := put_at (command info) 0 (zeros 32),
     recovery := put_at (recovery info) 0 (zeros 768)\<rparr>"

definition clean_recovery_otapath :: "'d boot_env \<Rightarrow> (int \<times> 'd boot_env) option" where
  "clean_recovery_otapath e = update_message get_bootloader_message set_bootloader_message clean_otapath_edit e"

definition set_recovery_edit :: "bootloader_message \<Rightarrow> bootloader_message" where
  "set_recovery_edit info = info\<lparr>command := put_at (command info) 0 (CMD_RUN_RECOVERY @ [NUL])\<rparr>"

definition set_recovery :: "'d boot_env \<Rightarrow> (int \<times> 'd boot_env) option" where
  "set_recovery e = update_message get_bootloader_message set_bootloader_message set_recovery_edit e"

definition clear_recovery_edit :: "bootloader_message \<Rightarrow> bootloader_message" where
  "clear_recovery_edit info = info\<lparr>command := put_at (command info) 0 (zeros 32)\<rparr>"

definition clear_recovery :: "'d boot_env \<Rightarrow> (int \<times> 'd boot_env) option" where
  "clear_recovery e = update_message get_bootloader_message set_bootloader_message clear_recovery_edit e"

section \<open>The slots\<close>

text \<open>
  The kernel command line is read into a zeroed buffer of 2048 bytes. \<open>p + strlen ("slot_suffix=")\<close>
  can be one past its end.
\<close>

definition get_active_slot_from_cmdline :: "'d boot_env \<Rightarrow> (int + nat) option" where
  "get_active_slot_from_cmdline e =
     (case proc_cmdline e of
        OpenFails \<Rightarrow> Some (Inl (-1))
      | ReadFails \<Rightarrow> Some (Inl (-1))
      | Content txt \<Rightarrow>
          let buffer = take 2047 txt @ zeros (2048 - length (take 2047 txt)) in
          (case strstr (cstr buffer) ''slot_suffix'' of
             None \<Rightarrow> Some (Inl (-1))
           | Some p \<Rightarrow>
               (case cstr_at buffer (length (cstr buffer) - length p + 12) of
                  None \<Rightarrow> None
                | Some q \<Rightarrow> Some (Inr (if take 2 q = ''_a'' then 0 else 1)))))"

definition get_active_slot_from_misc :: "'d boot_env \<Rightarrow> (int + nat) option" where
  "get_active_slot_from_misc e =
     (case get_bootloader_message e of
        None \<Rightarrow> None
      | Some (Inl _) \<Rightarrow> Some (Inl (-1))
      | Some (Inr info) \<Rightarrow> Some (Inr (cval (active_slot (brillo_of_chars (slot_suffix info))))))"

definition set_successful_boot :: int where "set_successful_boot = 0"

definition get_active_slot :: "'d boot_env \<Rightarrow> (int + nat) option" where
  "get_active_slot e = get_active_slot_from_cmdline e"

definition get_active_slot_misc :: "'d boot_env \<Rightarrow> (int + nat) option" where
  "get_active_slot_misc e = get_active_slot_from_misc e"

definition active_slot_edit :: "SlotType_e \<Rightarrow> bootloader_message \<Rightarrow> bootloader_message" where
  "active_slot_edit slot info =
     (let bootinfo = brillo_of_chars (slot_suffix info);
          bootinfo = bootinfo\<lparr>bootctrl_suffix :=
            put_at (bootctrl_suffix bootinfo) 0 (if slot_no slot = 0 then ''_a'' else ''_b'')\<rparr>;
          bootinfo = bootinfo\<lparr>active_slot := char_of (slot_no slot)\<rparr>
      in info\<lparr>slot_suffix := brillo_chars bootinfo\<rparr>)"

definition set_active_slot :: "'d boot_env \<Rightarrow> SlotType_e \<Rightarrow> (int \<times> 'd boot_env) option" where
  "set_active_slot e slot = update_message get_bootloader_message set_bootloader_message (active_slot_edit slot) e"

text \<open>The partition of the other slot; \<open>tmp\<close> and \<open>slot\<close> as in the source.\<close>

definition other_partition :: "string \<Rightarrow> nat \<Rightarrow> string" where
  "other_partition partitionname slot = partitionname @ (if slot = 0 then ''_b'' else ''_a'')"

definition get_inactive_devicename :: "'d boot_env \<Rightarrow> string \<Rightarrow> nat \<Rightarrow> (int + string) option" where
  "get_inactive_devicename e partitionname slot =
     (if get_store_device e = 0 then Some (Inr (''/dev/'' @ other_partition partitionname slot))
      else let tmp = other_partition partitionname slot in
        if length tmp \<ge> 128 then None
        else let mtd = get_mtd_by_name e tmp in
          if mtd < 0 then Some (Inl (-1))
          else Some (Inr (mtd_node mtd)))"

definition get_inactive_mtd :: "'d boot_env \<Rightarrow> string \<Rightarrow> int option" where
  "get_inactive_mtd e partitionname =
     (case get_active_slot e of
        None \<Rightarrow> None
      | Some (Inl _) \<Rightarrow> Some (-1)
      | Some (Inr slot) \<Rightarrow>
          let tmp = other_partition partitionname slot in
          if length tmp \<ge> 128 then None
          else let mtd = get_mtd_by_name e tmp in Some (if mtd < 0 then -1 else mtd))"

definition get_ubi_skip :: "'d boot_env \<Rightarrow> int option" where
  "get_ubi_skip e =
     (if get_system_type e = 0
      then (case get_active_slot e of
              None \<Rightarrow> None
            | Some (Inl _) \<Rightarrow> Some 0
            | Some (Inr slot) \<Rightarrow> Some (if slot = 0 then 1 else 0))
      else Some 0)"

section \<open>urlmisc\<close>

text \<open>\<open>main\<close> of \<open>urlmisc.c\<close>; \<open>argv\<close> without the program's name. The result is its exit code.\<close>

definition urlmisc_main :: "'d boot_env \<Rightarrow> string list \<Rightarrow> (int \<times> 'd boot_env) option" where
  "urlmisc_main e0 argv =
     (if length argv \<noteq> 1 \<and> length argv \<noteq> 2 then Some (-1, e0)
      else case mtd_scan_partitions e0 of
        None \<Rightarrow> None
      | Some (_, e) \<Rightarrow>
          let exit = (\<lambda>r. case r of None \<Rightarrow> None | Some (ret, e') \<Rightarrow> Some (if ret \<noteq> 0 then -1 else 0, e')) in
          if length argv = 2
          then if argv ! 0 = ''write'' then exit (set_recovery_otapath e (Some (argv ! 1))) else Some (-1, e)
          else if argv ! 0 = ''read''
            then (case get_recovery_otapath e (zeros 256) of
                    None \<Rightarrow> None | Some (Inl _) \<Rightarrow> Some (-1, e) | Some (Inr _) \<Rightarrow> Some (0, e))
          else if argv ! 0 = ''clean'' then exit (clean_recovery_otapath e)
          else if argv ! 0 = ''local'' then exit (set_recovery e)
          else Some (-1, e))"

section \<open>Layout\<close>

lemma map_char_of_byte_of [simp]: "map char_of_byte (map byte_of s) = s"
  by (simp add: comp_def)

lemma map_byte_of_char_of [simp]: "map byte_of (map char_of_byte b) = b"
  by (simp add: comp_def)

lemma length_msg_bytes: "msg_wf m \<Longrightarrow> length (msg_bytes m) = SIZEOF_BOOTLOADER_MESSAGE"
  by (simp add: msg_wf_def msg_bytes_def SIZEOF_BOOTLOADER_MESSAGE_def)

lemma msg_wf_of_bytes: "length b = SIZEOF_BOOTLOADER_MESSAGE \<Longrightarrow> msg_wf (msg_of_bytes b)"
  by (simp add: msg_wf_def msg_of_bytes_def Let_def SIZEOF_BOOTLOADER_MESSAGE_def)

lemma msg_of_bytes_bytes: "msg_wf m \<Longrightarrow> msg_of_bytes (msg_bytes m) = m"
  by (simp add: msg_wf_def msg_of_bytes_def msg_bytes_def Let_def get_at_def del: map_append map_map)

lemma msg_bytes_of_bytes: "length b = SIZEOF_BOOTLOADER_MESSAGE \<Longrightarrow> msg_bytes (msg_of_bytes b) = b"
  by (simp add: msg_of_bytes_def msg_bytes_def Let_def get_at_join SIZEOF_BOOTLOADER_MESSAGE_def get_at_all
      del: append_assoc map_append map_map flip: append_assoc)

interpretation msg: struct_codec msg_bytes msg_of_bytes SIZEOF_BOOTLOADER_MESSAGE msg_wf
  by unfold_locales (simp_all add: length_msg_bytes msg_of_bytes_bytes msg_wf_of_bytes msg_bytes_of_bytes)

lemma slot_info_codec: "length (si_reserved s) = 2 \<Longrightarrow> slot_info_of_chars (slot_info_chars s) = s"
  by (simp add: slot_info_of_chars_def slot_info_chars_def get_at_def)

lemma slot_info_codec_inv: "length c = 4 \<Longrightarrow> slot_info_chars (slot_info_of_chars c) = c"
  by (auto simp: slot_info_of_chars_def slot_info_chars_def get_at_def numeral_eq_Suc length_Suc_conv)

lemma length_slot_info_chars: "length (slot_info_chars s) = 2 + length (si_reserved s)"
  by (simp add: slot_info_chars_def)

lemma brillo_wf_of_chars: "length c = 32 \<Longrightarrow> brillo_wf (brillo_of_chars c)"
  by (simp add: brillo_wf_def brillo_of_chars_def slot_info_of_chars_def)

lemma length_brillo_chars: "brillo_wf b \<Longrightarrow> length (brillo_chars b) = 32"
  by (simp add: brillo_wf_def brillo_chars_def length_slot_info_chars)

lemma get_at_1: "off < length b \<Longrightarrow> get_at b off 1 = [b ! off]"
  by (simp add: get_at_def take_Suc_conv_app_nth hd_drop_conv_nth take_Suc)

lemma brillo_chars_of_chars:
  assumes "length c = 32"
  shows "brillo_chars (brillo_of_chars c) = c"
proof -
  have "[c ! 7, c ! 8] = get_at c 7 1 @ get_at c 8 1" and "[c ! 17] = get_at c 17 1"
    using assms get_at_1[of 7 c] get_at_1[of 8 c] get_at_1[of 17 c] by simp_all
  then have "brillo_chars (brillo_of_chars c) = get_at c 0 4 @ get_at c 4 3 @ get_at c 7 1 @ get_at c 8 1
      @ get_at c 9 4 @ get_at c 13 4 @ get_at c 17 1 @ get_at c 18 14"
    using assms by (simp add: brillo_chars_def brillo_of_chars_def slot_info_codec_inv)
  also have "\<dots> = get_at c 0 32"
    by (simp add: get_at_join del: append_assoc flip: append_assoc)
  finally show ?thesis using assms by (simp add: get_at_all)
qed

lemma brillo_of_chars_chars:
  assumes "brillo_wf b"
  shows "brillo_of_chars (brillo_chars b) = b"
  using assms
  by (simp add: brillo_of_chars_def brillo_chars_def brillo_wf_def get_at_def length_slot_info_chars
      slot_info_codec nth_append)

interpretation brillo: struct_in_buffer brillo_chars brillo_of_chars 32 brillo_wf 0 32
  by unfold_locales
    (simp_all add: length_brillo_chars brillo_of_chars_chars brillo_wf_of_chars brillo_chars_of_chars)

section \<open>The interface of the message store\<close>

text \<open>
  What the recovery and slot functions rely on: in an environment where the store works, the
  message can be read, and after writing a message it is the one read. The store is the block
  device or the NAND device, and both provide it.
\<close>

locale message_store =
  fixes getm :: "'e \<Rightarrow> (int + 'm) option" and setm :: "'e \<Rightarrow> 'm \<Rightarrow> (int \<times> 'e) option"
    and ok :: "'e \<Rightarrow> bool" and cur :: "'e \<Rightarrow> 'm" and wf :: "'m \<Rightarrow> bool"
  assumes get_ok: "ok e \<Longrightarrow> getm e = Some (Inr (cur e))"
    and cur_wf: "ok e \<Longrightarrow> wf (cur e)"
    and set_ok: "ok e \<Longrightarrow> wf m \<Longrightarrow> \<exists>e'. setm e m = Some (0, e') \<and> ok e' \<and> cur e' = m"
begin

lemma update_ok:
  assumes "ok e" and "wf (f (cur e))"
  obtains e' where "update_message getm setm f e = Some (0, e')" and "ok e'" and "cur e' = f (cur e)"
  using set_ok[OF assms] assms(1) by (auto simp: update_message_def get_ok)

lemma edit_ok:
  assumes "ok e" and "\<And>m. wf m \<Longrightarrow> wf (f m)"
  shows "\<exists>e'. update_message getm setm f e = Some (0, e') \<and> ok e' \<and> cur e' = f (cur e)"
  using update_ok[of e f] assms cur_wf by metis

lemma update_then_get:
  assumes "ok e" and "wf (f (cur e))"
  obtains e' where "update_message getm setm f e = Some (0, e')" and "getm e' = Some (Inr (f (cur e)))"
  using update_ok[of e f, OF assms] get_ok by metis

lemma update_update:
  assumes "ok e" and "wf (f (cur e))" and "wf (g (f (cur e)))"
  obtains e1 e2 where "update_message getm setm f e = Some (0, e1)"
    and "update_message getm setm g e1 = Some (0, e2)" and "ok e2" and "cur e2 = g (f (cur e))"
  using update_ok[of e f, OF assms(1,2)] update_ok[of _ g] assms(3) by metis

end

text \<open>The store works: the device is healthy, or the NAND driver keeps its promises.\<close>

abbreviation misc_node :: "'d boot_env \<Rightarrow> string" where
  "misc_node e \<equiv> mtd_node (get_mtd_by_name e ''misc'')"

definition nand_store_ok :: "'d boot_env \<Rightarrow> bool" where
  "nand_store_ok e \<longleftrightarrow> 0 \<le> get_mtd_by_name e ''misc''
     \<and> (\<exists>mi bad erased. mtd_laws (nand_ops e) (misc_node e) mi bad erased \<and> has_good_block mi bad
          \<and> SIZEOF_BOOTLOADER_MESSAGE \<le> unat (mi_writesize mi))
     \<and> (\<exists>b. length b = SIZEOF_BOOTLOADER_MESSAGE
          \<and> nand_read (nand_ops e) (nand_dev e) (misc_node e) 0 SIZEOF_BOOTLOADER_MESSAGE = Some (Inr b))"

definition store_ok :: "'d boot_env \<Rightarrow> bool" where
  "store_ok e \<longleftrightarrow> (if has_mmcblk0 e then misc_healthy SIZEOF_BOOTLOADER_MESSAGE (misc e) else nand_store_ok e)"

definition cur_message :: "'d boot_env \<Rightarrow> bootloader_message" where
  "cur_message e = (case get_bootloader_message e of Some (Inr m) \<Rightarrow> m | _ \<Rightarrow> undefined)"

lemma block_get_ok:
  "misc_healthy SIZEOF_BOOTLOADER_MESSAGE (misc e) \<Longrightarrow> get_bootloader_message_block e
     = Inr (msg_of_bytes (get_at (dev (misc e)) 0 SIZEOF_BOOTLOADER_MESSAGE))"
  by (simp add: get_bootloader_message_block_def misc_fread_healthy Let_def)
    (simp add: misc_healthy_def)

lemma block_set_ok:
  "misc_healthy SIZEOF_BOOTLOADER_MESSAGE (misc e) \<Longrightarrow> msg_wf m \<Longrightarrow> set_bootloader_message_block e m
     = (0, e\<lparr>misc := (misc e)\<lparr>dev := put_at (dev (misc e)) 0 (msg_bytes m)\<rparr>\<rparr>)"
  by (simp add: set_bootloader_message_block_def misc_fwrite_healthy length_msg_bytes Let_def)
    (simp add: misc_healthy_def)

lemma nand_get_ok:
  assumes "nand_store_ok e"
  obtains b where "length b = SIZEOF_BOOTLOADER_MESSAGE"
    and "get_bootloader_message_mtd e = Some (Inr (msg_of_bytes b))"
  using assms by (auto simp: nand_store_ok_def get_bootloader_message_mtd_def Let_def)

lemma mtd_size_ok:
  "mtd_laws ops name mi bad erased \<Longrightarrow> get_mtd_size ops d name = uint (mi_size mi)"
  using sint_small[of "mi_size mi"] by (simp add: get_mtd_size_def mtd_laws_def mtd_geometry_def)

lemma nand_set_ok:
  assumes ok: "nand_store_ok e" and wf: "msg_wf m"
  obtains e' where "set_bootloader_message_mtd e m = Some (0, e')" and "nand_store_ok e'"
    and "get_bootloader_message_mtd e' = Some (Inr m)" and "has_mmcblk0 e' = has_mmcblk0 e"
proof -
  obtain mi bad erased where laws: "mtd_laws (nand_ops e) (misc_node e) mi bad erased"
    and good: "has_good_block mi bad" and ws: "SIZEOF_BOOTLOADER_MESSAGE \<le> unat (mi_writesize mi)"
    and nn: "0 \<le> get_mtd_by_name e ''misc''"
    using ok by (auto simp: nand_store_ok_def)
  note len = length_msg_bytes[OF wf]
  obtain d1 d2 where d: "nand_erase (nand_ops e) (nand_dev e) (misc_node e) 0 (mi_size mi) = Some (0, d1)"
    "nand_write (nand_ops e) d1 (misc_node e) 0 (msg_bytes m) = Some (0, d2)"
    "nand_read (nand_ops e) d2 (misc_node e) 0 (length (msg_bytes m)) = Some (Inr (msg_bytes m))"
    using nand_erase_write_read_lemma[OF laws good, of "msg_bytes m" "nand_dev e"] len ws by auto
  let ?e' = "e\<lparr>nand_dev := d2\<rparr>"
  have by_name: "get_mtd_by_name ?e' n = get_mtd_by_name e n" for n by (simp add: get_mtd_by_name_def)
  have "set_bootloader_message_mtd e m = Some (0, ?e')"
    using nn d mtd_size_ok[OF laws, of "nand_dev e"]
    by (simp add: set_bootloader_message_mtd_def Let_def)
  moreover have "get_bootloader_message_mtd ?e' = Some (Inr m)"
    using nn d(3) len wf
    by (simp add: get_bootloader_message_mtd_def Let_def by_name msg_of_bytes_bytes)
  moreover have "nand_store_ok ?e'"
    using nn laws good ws d(3) len by (auto simp: nand_store_ok_def by_name)
  ultimately show thesis using that by simp
qed

lemma store_get_ok:
  assumes "store_ok e"
  obtains m where "get_bootloader_message e = Some (Inr m)" and "msg_wf m"
proof (cases "has_mmcblk0 e")
  case True
  then have h: "misc_healthy SIZEOF_BOOTLOADER_MESSAGE (misc e)" using assms by (simp add: store_ok_def)
  then have "msg_wf (msg_of_bytes (get_at (dev (misc e)) 0 SIZEOF_BOOTLOADER_MESSAGE))"
    by (intro msg_wf_of_bytes) (simp add: misc_healthy_def)
  with True h show thesis
    by (intro that) (simp_all add: get_bootloader_message_def get_store_device_def block_get_ok)
next
  case False
  then have "nand_store_ok e" using assms by (simp add: store_ok_def)
  then obtain b where b: "length b = SIZEOF_BOOTLOADER_MESSAGE"
    "get_bootloader_message_mtd e = Some (Inr (msg_of_bytes b))" by (rule nand_get_ok)
  have "msg_wf (msg_of_bytes b)" using b(1) by (rule msg_wf_of_bytes)
  with False b(2) show thesis
    by (intro that) (simp_all add: get_bootloader_message_def get_store_device_def)
qed

lemma store_set_ok:
  assumes ok: "store_ok e" and wf: "msg_wf m"
  obtains e' where "set_bootloader_message e m = Some (0, e')" and "store_ok e'"
    and "get_bootloader_message e' = Some (Inr m)"
proof (cases "has_mmcblk0 e")
  case True
  then have h: "misc_healthy SIZEOF_BOOTLOADER_MESSAGE (misc e)" using ok by (simp add: store_ok_def)
  let ?io = "(misc e)\<lparr>dev := put_at (dev (misc e)) 0 (msg_bytes m)\<rparr>"
  have h': "misc_healthy SIZEOF_BOOTLOADER_MESSAGE ?io"
    by (rule misc_healthy_upd[OF h length_msg_bytes[OF wf]])
  have "get_at (dev ?io) 0 SIZEOF_BOOTLOADER_MESSAGE = msg_bytes m"
    using h length_msg_bytes[OF wf] by (simp add: misc_healthy_def)
  then show thesis
    using True h h' wf
    by (intro that[of "e\<lparr>misc := ?io\<rparr>"])
      (simp_all add: set_bootloader_message_def get_bootloader_message_def get_store_device_def
        block_set_ok block_get_ok store_ok_def msg_of_bytes_bytes)
next
  case False
  then have "nand_store_ok e" using ok by (simp add: store_ok_def)
  then obtain e' where "set_bootloader_message_mtd e m = Some (0, e')" "nand_store_ok e'"
    "get_bootloader_message_mtd e' = Some (Inr m)" "has_mmcblk0 e' = has_mmcblk0 e"
    using nand_set_ok[OF _ wf] by blast
  with False show thesis
    by (intro that[of e']) (simp_all add: set_bootloader_message_def get_bootloader_message_def
        get_store_device_def store_ok_def)
qed

interpretation store: message_store get_bootloader_message set_bootloader_message store_ok cur_message msg_wf
proof
  fix e :: "'d boot_env"
  assume ok: "store_ok e"
  from store_get_ok[OF ok] show "get_bootloader_message e = Some (Inr (cur_message e))"
    by (simp add: cur_message_def) (metis option.simps(5) sum.simps(6))
  from store_get_ok[OF ok] show "msg_wf (cur_message e)"
    by (simp add: cur_message_def) (metis option.simps(5) sum.simps(6))
  fix m assume "msg_wf m"
  from store_set_ok[OF ok this]
  show "\<exists>e'. set_bootloader_message e m = Some (0, e') \<and> store_ok e' \<and> cur_message e' = m"
    by (simp add: cur_message_def) (metis option.simps(5) sum.simps(6))
qed

end
