(* ===== verification/BootRecovery.thy ===== *)
theory BootRecovery
  imports BootMessage
begin

text \<open>
  What the functions of \<^theory_text>\<open>BootMessage\<close> achieve together: an update URL written for
  the recovery system is the one it reads, the active slot written is the one read, the
  partition table read from \<open>/proc/mtd\<close> is the kernel's, and the partition an update goes to
  is never the running one. The lemmas on reading and writing the message come from the
  interpretation \<open>store\<close>, so they hold for the eMMC and for the NAND device.
\<close>

section \<open>The edits\<close>

lemma otapath_edit_wf: "msg_wf m \<Longrightarrow> msg_wf (otapath_edit p m)"
  by (simp add: msg_wf_def otapath_edit_def)

lemma clean_otapath_edit_wf: "msg_wf m \<Longrightarrow> msg_wf (clean_otapath_edit m)"
  by (simp add: msg_wf_def clean_otapath_edit_def)

lemma set_recovery_edit_wf: "msg_wf m \<Longrightarrow> msg_wf (set_recovery_edit m)"
  by (simp add: msg_wf_def set_recovery_edit_def CMD_RUN_RECOVERY_def)

lemma clear_recovery_edit_wf: "msg_wf m \<Longrightarrow> msg_wf (clear_recovery_edit m)"
  by (simp add: msg_wf_def clear_recovery_edit_def)

lemma active_slot_brillo_wf:
  "brillo_wf b \<Longrightarrow> brillo_wf (b\<lparr>bootctrl_suffix := put_at (bootctrl_suffix b) 0 (if slot_no s = 0 then ''_a'' else ''_b''),
     active_slot := char_of (slot_no s)\<rparr>)"
  by (simp add: brillo_wf_def)

lemma slot_suffix_wf: "msg_wf m \<Longrightarrow> brillo_wf (brillo_of_chars (slot_suffix m))"
  by (simp add: msg_wf_def brillo.dec_wf)

lemma active_slot_edit_wf: "msg_wf m \<Longrightarrow> msg_wf (active_slot_edit s m)"
  using brillo.enc_len[OF active_slot_brillo_wf[OF slot_suffix_wf, of m s]]
  by (simp add: msg_wf_def active_slot_edit_def Let_def)

lemma active_slot_edit_brillo:
  "msg_wf m \<Longrightarrow> brillo_of_chars (slot_suffix (active_slot_edit s m)) =
     (brillo_of_chars (slot_suffix m))\<lparr>
        bootctrl_suffix := put_at (bootctrl_suffix (brillo_of_chars (slot_suffix m))) 0
           (if slot_no s = 0 then ''_a'' else ''_b''),
        active_slot := char_of (slot_no s)\<rparr>"
  using brillo.dec_enc[OF active_slot_brillo_wf[OF slot_suffix_wf, of m s]]
  by (simp add: active_slot_edit_def Let_def)

lemma take_Suc_Cons_strncpy: "NUL \<notin> set s \<Longrightarrow> length s < n \<Longrightarrow> n \<le> length dst \<Longrightarrow> n < length dst
   \<Longrightarrow> cstr ((strncpy dst s n)[n := NUL]) = s \<and> NUL \<in> set ((strncpy dst s n)[n := NUL])"
proof -
  assume a: "NUL \<notin> set s" "length s < n" "n \<le> length dst" "n < length dst"
  obtain k where "n - length s = Suc k" using a(2) by (cases "n - length s") auto
  then have "strncpy dst s n = s @ NUL # replicate k NUL @ drop n dst"
    using a by (simp add: strncpy_def min_def take_Cons' flip: replicate_Suc)
  then show ?thesis using a by (simp add: list_update_append split: nat.split)
qed

lemma otapath_edit_recovery:
  "NUL \<notin> set p \<Longrightarrow> length p < 767 \<Longrightarrow> cstr_at (recovery (otapath_edit p m)) 0 = Some p"
  using take_Suc_Cons_strncpy[of p 767 "zeros 768"] by (simp add: otapath_edit_def cstr_at_def)

lemma otapath_edit_command:
  "msg_wf m \<Longrightarrow> cstr (command (otapath_edit p m)) = CMD_RUN_RECOVERY"
  using take_Suc_Cons_strncpy[of CMD_RUN_RECOVERY 31 "command m"]
  by (simp add: otapath_edit_def msg_wf_def CMD_RUN_RECOVERY_def)

lemma get_otapath_cur:
  "store_ok e \<Longrightarrow> get_recovery_otapath e path =
     (case cstr_at (recovery (cur_message e)) 0 of None \<Rightarrow> None
      | Some url \<Rightarrow> if length url = 0 \<or> length url \<ge> 256 \<or> \<not> strncmp_eq url ''http'' 4 then Some (Inl (-1))
          else if length url > length path then None else Some (Inr (put_at path 0 url)))"
  by (auto simp: get_recovery_otapath_def store.get_ok split: option.splits)

lemma get_active_slot_cur:
  "store_ok e \<Longrightarrow> get_active_slot_from_misc e
     = Some (Inr (cval (active_slot (brillo_of_chars (slot_suffix (cur_message e))))))"
  by (simp add: get_active_slot_from_misc_def store.get_ok)

lemma http_url: "take 4 url = ''http'' \<Longrightarrow> NUL \<notin> set url \<Longrightarrow> strncmp_eq url ''http'' 4 \<and> 4 \<le> length url"
proof -
  assume a: "take 4 url = ''http''" "NUL \<notin> set url"
  have "length (take 4 url) = 4" by (simp add: a(1))
  then have "4 \<le> length url" unfolding length_take by simp
  then show ?thesis using a by (simp add: strncmp_eq_def)
qed

section \<open>The URL of an update\<close>

text \<open>An eMMC device with an all-zero misc partition and two A/B entries, for the witnesses.\<close>

definition emmc_env :: "ram_dev boot_env" where
  "emmc_env = \<lparr>has_mmcblk0 = True, has_system_a = True, proc_mtd = OpenFails,
     proc_cmdline = Content ''rw slot_suffix=_a quiet'',
     misc = \<lparr>dev = replicate 4096 0, rd_open = True, rd_count = 4096, rd_close = True,
       wr_open = True, wr_count = 4096, wr_close = True\<rparr>,
     nand_ops = ram_mtd, nand_dev = (\<lambda>_. False, \<lambda>_. []), heap_ok = True, g_init = True,
     mtdpartition = [\<lparr>device_index = 4, part_size = 4, part_erase_size = 0x20000, part_name = ''boot_a''\<rparr>,
       \<lparr>device_index = 5, part_size = 5, part_erase_size = 0x20000, part_name = ''boot_b''\<rparr>]\<rparr>"

lemma emmc_store_ok: "store_ok emmc_env"
  by (simp add: store_ok_def emmc_env_def misc_healthy_def SIZEOF_BOOTLOADER_MESSAGE_def)

text \<open>C29: an update URL that starts with \<open>http\<close> and has at most 255 characters, written with
  \<open>set_recovery_otapath\<close>, is what \<open>get_recovery_otapath\<close> copies to the start of the caller's
  buffer (the rest of the buffer keeps its bytes, no NUL is added); the command is
  \<open>boot-recovery\<close> and the other four fields of the message are kept.
\<close>

theorem set_recovery_otapath_get:
  assumes "store_ok e" and "take 4 url = ''http''" and "NUL \<notin> set url" and "length url \<le> 255"
    and "length url \<le> length path"
  shows "\<exists>e'. set_recovery_otapath e (Some url) = Some (0, e') \<and> store_ok e'
    \<and> get_recovery_otapath e' path = Some (Inr (put_at path 0 url))
    \<and> cstr (command (cur_message e')) = ''boot-recovery''
    \<and> cur_message e' = (cur_message e)\<lparr>command := command (cur_message e'), recovery := recovery (cur_message e')\<rparr>"
proof -
  obtain e' where e': "set_recovery_otapath e (Some url) = Some (0, e')" "store_ok e'"
    "cur_message e' = otapath_edit url (cur_message e)"
    using store.edit_ok[OF assms(1), of "otapath_edit url"] otapath_edit_wf
    by (auto simp: set_recovery_otapath_def)
  have "cur_message e' = (cur_message e)\<lparr>command := command (cur_message e'), recovery := recovery (cur_message e')\<rparr>"
    by (simp add: e'(3) otapath_edit_def)
  moreover have "get_recovery_otapath e' path = Some (Inr (put_at path 0 url))"
    using assms http_url[OF assms(2,3)]
    by (auto simp: get_otapath_cur[OF e'(2)] e'(3) otapath_edit_recovery)
  ultimately show ?thesis
    using e' otapath_edit_command[OF store.cur_wf[OF assms(1)]] by (auto simp: CMD_RUN_RECOVERY_def)
qed

theorem set_recovery_otapath_get_witness:
  "\<exists>e'. set_recovery_otapath emmc_env (Some ''http://a/u.zip'') = Some (0, e')
    \<and> get_recovery_otapath e' (zeros 256) = Some (Inr (put_at (zeros 256) 0 ''http://a/u.zip''))"
  using set_recovery_otapath_get[OF emmc_store_ok, of "''http://a/u.zip''" "zeros 256"] by auto

lemma put_at_zeros: "length s = n \<Longrightarrow> put_at s 0 (zeros n) = zeros n"
  by (simp add: put_at_def zeros_def)

lemma get_otapath_zeros:
  "store_ok e \<Longrightarrow> recovery (cur_message e) = zeros 768 \<Longrightarrow> get_recovery_otapath e path = Some (Inl (-1))"
proof -
  have "cstr_at (zeros 768) 0 = Some ''''" by (simp add: cstr_at_def) (simp add: zeros_def)
  then show "store_ok e \<Longrightarrow> recovery (cur_message e) = zeros 768 \<Longrightarrow> ?thesis" by (simp add: get_otapath_cur)
qed

lemma clean_recovery_ok:
  assumes "store_ok e"
  obtains e' where "clean_recovery_otapath e = Some (0, e')" and "store_ok e'"
    and "cur_message e' = (cur_message e)\<lparr>command := zeros 32, recovery := zeros 768\<rparr>"
    and "get_recovery_otapath e' (zeros 256) = Some (Inl (-1))"
proof -
  obtain e' where e': "clean_recovery_otapath e = Some (0, e')" "store_ok e'"
    "cur_message e' = clean_otapath_edit (cur_message e)"
    using store.edit_ok[OF assms, of clean_otapath_edit] clean_otapath_edit_wf
    by (auto simp: clean_recovery_otapath_def)
  then have m: "cur_message e' = (cur_message e)\<lparr>command := zeros 32, recovery := zeros 768\<rparr>"
    using store.cur_wf[OF assms] by (simp add: clean_otapath_edit_def msg_wf_def put_at_zeros)
  show thesis by (rule that[OF e'(1,2) m get_otapath_zeros[OF e'(2)]]) (simp add: m)
qed

text \<open>the three commands without a URL: after \<open>set_recovery\<close> the message commands
  \<open>boot-recovery\<close> and keeps its URL; \<open>clear_recovery\<close> takes the command back and still keeps
  the URL; after \<open>clean_recovery_otapath\<close> there is neither a command nor a URL, and
  \<open>get_recovery_otapath\<close> reports an error. No other field changes.
\<close>

theorem recovery_commands:
  assumes "store_ok e"
  shows "(\<exists>e1. set_recovery e = Some (0, e1) \<and> store_ok e1 \<and> cstr (command (cur_message e1)) = ''boot-recovery''
        \<and> cur_message e1 = (cur_message e)\<lparr>command := command (cur_message e1)\<rparr>)
    \<and> (\<exists>e2. clear_recovery e = Some (0, e2) \<and> store_ok e2
        \<and> cur_message e2 = (cur_message e)\<lparr>command := zeros 32\<rparr>)
    \<and> (\<exists>e3. clean_recovery_otapath e = Some (0, e3) \<and> store_ok e3
        \<and> cur_message e3 = (cur_message e)\<lparr>command := zeros 32, recovery := zeros 768\<rparr>
        \<and> get_recovery_otapath e3 (zeros 256) = Some (Inl (-1)))"
proof (intro conjI)
  note wf = store.cur_wf[OF assms]
  obtain e1 where e1: "set_recovery e = Some (0, e1)" "store_ok e1" "cur_message e1 = set_recovery_edit (cur_message e)"
    using store.edit_ok[OF assms, of set_recovery_edit] set_recovery_edit_wf by (auto simp: set_recovery_def)
  have "cstr (command (cur_message e1)) = ''boot-recovery''"
    by (simp add: e1(3) set_recovery_edit_def put_at_def CMD_RUN_RECOVERY_def cstr_Cons)
  then show "\<exists>e1. set_recovery e = Some (0, e1) \<and> store_ok e1 \<and> cstr (command (cur_message e1)) = ''boot-recovery''
        \<and> cur_message e1 = (cur_message e)\<lparr>command := command (cur_message e1)\<rparr>"
    using e1 by (auto simp: set_recovery_edit_def)
  obtain e2 where "clear_recovery e = Some (0, e2)" "store_ok e2" "cur_message e2 = clear_recovery_edit (cur_message e)"
    using store.edit_ok[OF assms, of clear_recovery_edit] clear_recovery_edit_wf by (auto simp: clear_recovery_def)
  then show "\<exists>e2. clear_recovery e = Some (0, e2) \<and> store_ok e2 \<and> cur_message e2 = (cur_message e)\<lparr>command := zeros 32\<rparr>"
    using wf by (auto simp: clear_recovery_edit_def msg_wf_def put_at_zeros)
  show "\<exists>e3. clean_recovery_otapath e = Some (0, e3) \<and> store_ok e3
        \<and> cur_message e3 = (cur_message e)\<lparr>command := zeros 32, recovery := zeros 768\<rparr>
        \<and> get_recovery_otapath e3 (zeros 256) = Some (Inl (-1))"
    using clean_recovery_ok[OF assms] by blast
qed

theorem recovery_commands_witness:
  "\<exists>e3. clean_recovery_otapath emmc_env = Some (0, e3)
    \<and> get_recovery_otapath e3 (zeros 256) = Some (Inl (-1))"
  using recovery_commands[OF emmc_store_ok] by blast

section \<open>The active slot\<close>

text \<open>\<open>set_active_slot (slot)\<close> on a working store makes \<open>get_active_slot_misc\<close> return that
  slot, writes the matching suffix, and keeps everything else: the other fields of the slot
  record and the other fields of the message.
\<close>

theorem set_active_slot_get:
  assumes "store_ok e"
  shows "\<exists>e'. set_active_slot e slot = Some (0, e') \<and> store_ok e'
    \<and> get_active_slot_misc e' = Some (Inr (slot_no slot))
    \<and> take 2 (bootctrl_suffix (brillo_of_chars (slot_suffix (cur_message e')))) = (case slot of SLOT_A \<Rightarrow> ''_a'' | SLOT_B \<Rightarrow> ''_b'')
    \<and> slot_info0 (brillo_of_chars (slot_suffix (cur_message e'))) = slot_info0 (brillo_of_chars (slot_suffix (cur_message e)))
    \<and> slot_info1 (brillo_of_chars (slot_suffix (cur_message e'))) = slot_info1 (brillo_of_chars (slot_suffix (cur_message e)))
    \<and> attemp_times (brillo_of_chars (slot_suffix (cur_message e'))) = attemp_times (brillo_of_chars (slot_suffix (cur_message e)))
    \<and> cur_message e' = (cur_message e)\<lparr>slot_suffix := slot_suffix (cur_message e')\<rparr>"
proof -
  note wf = store.cur_wf[OF assms]
  obtain e' where e': "set_active_slot e slot = Some (0, e')" "store_ok e'"
    "cur_message e' = active_slot_edit slot (cur_message e)"
    using store.edit_ok[OF assms, of "active_slot_edit slot"] active_slot_edit_wf by (auto simp: set_active_slot_def)
  have "cur_message e' = (cur_message e)\<lparr>slot_suffix := slot_suffix (cur_message e')\<rparr>"
    by (simp add: e'(3) active_slot_edit_def Let_def)
  moreover have "get_active_slot_misc e' = Some (Inr (slot_no slot))"
    by (cases slot) (simp_all add: get_active_slot_misc_def get_active_slot_cur[OF e'(2)] e'(3)
        active_slot_edit_brillo[OF wf])
  ultimately show ?thesis
    using e' by (cases slot) (auto simp: active_slot_edit_brillo[OF wf] put_at_def)
qed

theorem set_active_slot_get_witness:
  "\<exists>e'. set_active_slot emmc_env SLOT_B = Some (0, e') \<and> get_active_slot_misc e' = Some (Inr 1)"
  using set_active_slot_get[OF emmc_store_ok, of SLOT_B] by auto


section \<open>The partition table\<close>

text \<open>A line of \<open>/proc/mtd\<close> and the whole file as the kernel prints them: index, size, erase
  size and name of each partition.\<close>

type_synonym mtd_entry = "nat \<times> nat \<times> nat \<times> string"

definition proc_mtd_line :: "mtd_entry \<Rightarrow> string" where
  "proc_mtd_line p = (case p of (i, sz, er, name) \<Rightarrow>
     ''mtd'' @ pr_nat 10 i @ '': '' @ pr_hex8 sz @ '' '' @ pr_hex8 er @ '' '' @ [CHR 0x22] @ name @ [CHR 0x22, CHR 0x0A])"

definition proc_mtd_text :: "mtd_entry list \<Rightarrow> string" where
  "proc_mtd_text ps = ''dev:    size   erasesize  name'' @ [CHR 0x0A] @ concat (map proc_mtd_line ps)"

definition mtd_name_ok :: "string \<Rightarrow> bool" where
  "mtd_name_ok name \<longleftrightarrow> name \<noteq> [] \<and> length name \<le> 63
     \<and> CHR 0x22 \<notin> set name \<and> CHR 0x0A \<notin> set name \<and> NUL \<notin> set name"

lemma skip_ws_blank: "skip_ws (CHR '' '' # s) = skip_ws s"
  by (simp add: skip_ws_def isspace_def cval_def)

lemma skip_ws_idem: "skip_ws (skip_ws s) = skip_ws s"
  by (simp add: skip_ws_def)

lemma scan_hex_skip_ws: "scan_hex (skip_ws s) = scan_hex s"
  by (simp add: scan_hex_def skip_ws_idem)

lemma scan_hex_blank: "scan_hex (CHR '' '' # s) = scan_hex s"
  by (metis scan_hex_skip_ws skip_ws_blank)

lemma not_digit_colon: "\<not> isdigit (CHR '':'')" "\<not> isxdigit (CHR '' '')" "\<not> isspace (CHR 0x22)"
  by (simp_all add: isdigit_def isxdigit_def isspace_def cval_def)

lemma mtd_sscanf_line:
  assumes "mtd_name_ok name"
  shows "mtd_sscanf (proc_mtd_line (i, sz, er, name) @ rest) = Some (int i, int sz, int er, name)"
proof -
  have lit: "scan_lit ''mtd'' (''mtd'' @ s) = Some s" for s by (rule scan_lit_append)
  have colon: "scan_lit '':'' (CHR '':'' # s) = Some s" and quote: "scan_lit [CHR 0x22] (CHR 0x22 # s) = Some s" for s
    by (simp_all add: scan_lit_def)
  have skip_quote: "skip_ws (CHR 0x22 # s) = CHR 0x22 # s" for s
    by (simp add: skip_ws_def not_digit_colon)
  have until: "scan_until 63 (CHR 0x22) (name @ CHR 0x22 # s) = Some (name, CHR 0x22 # s)" for s
    using assms by (intro scan_until_append) (auto simp: mtd_name_ok_def)
  have dec: "scan_dec (pr_nat 10 i @ CHR '':'' # s) = Some (int i, CHR '':'' # s)" for s
    by (rule scan_dec_nat) (simp add: not_digit_colon)
  have hex: "scan_hex (pr_hex8 n @ CHR '' '' # s) = Some (int n, CHR '' '' # s)" for n s
    by (rule scan_hex_hex8) (simp add: not_digit_colon)
  have "proc_mtd_line (i, sz, er, name) @ rest = ''mtd'' @ pr_nat 10 i @ CHR '':'' # CHR '' '' #
      pr_hex8 sz @ CHR '' '' # pr_hex8 er @ CHR '' '' # CHR 0x22 # name @ CHR 0x22 # CHR 0x0A # rest"
    by (simp add: proc_mtd_line_def)
  then show ?thesis
    by (simp only: mtd_sscanf_def lit colon quote dec hex until skip_ws_blank skip_quote scan_hex_skip_ws
        scan_hex_blank Option.bind.bind_lunit prod.case)
qed

lemma eat_line_append: "CHR 0x0A \<notin> set s \<Longrightarrow> eat_line (s @ CHR 0x0A # t) = t"
  by (induction s) (auto simp: eat_line_def)

lemma hex8_chars: "c \<in> set (pr_hex8 n) \<Longrightarrow> isxdigit c"
  by (auto simp: pr_hex8_def isxdigit_def isdigit_def cval_def split: if_splits dest!: pr_nat_isxdigit)

lemma length_pr_hex8: "n < 16 ^ 8 \<Longrightarrow> length (pr_hex8 n) = 8"
  using length_pr_nat_le[of 16 n 7] by (simp add: pr_hex8_def)

lemma proc_mtd_line_chars:
  assumes "mtd_name_ok name"
  obtains s where "proc_mtd_line (i, sz, er, name) = s @ [CHR 0x0A]" and "CHR 0x0A \<notin> set s" and "NUL \<notin> set s"
proof
  let ?s = "''mtd'' @ pr_nat 10 i @ '': '' @ pr_hex8 sz @ '' '' @ pr_hex8 er @ '' '' @ [CHR 0x22] @ name @ [CHR 0x22]"
  show "proc_mtd_line (i, sz, er, name) = ?s @ [CHR 0x0A]" by (simp add: proc_mtd_line_def)
  have x: "\<not> isxdigit (CHR 0x0A)" "\<not> isxdigit NUL" "\<not> isdigit (CHR 0x0A)" "\<not> isdigit NUL"
    by (simp_all add: isxdigit_def isdigit_def cval_def)
  show "CHR 0x0A \<notin> set ?s" "NUL \<notin> set ?s"
    using x assms by (auto simp: mtd_name_ok_def dest: pr_nat_isdigit hex8_chars)
qed

lemma NUL_notin_proc_mtd: "\<forall>(i, sz, er, name) \<in> set ps. mtd_name_ok name \<Longrightarrow> NUL \<notin> set (concat (map proc_mtd_line ps))"
proof (induction ps)
  case (Cons p ps)
  obtain i sz er name where p: "p = (i, sz, er, name)" by (cases p)
  obtain s where "proc_mtd_line p = s @ [CHR 0x0A]" "NUL \<notin> set s"
    using proc_mtd_line_chars[of name i sz er] Cons.prems p by auto
  then show ?case using Cons by auto
qed simp

text \<open>The entry the scan makes of a line: its size field is the index.\<close>

definition scanned_entry :: "mtd_entry \<Rightarrow> MtdPartition" where
  "scanned_entry p = (case p of (i, sz, er, name) \<Rightarrow>
     \<lparr>device_index = int i, part_size = int i, part_erase_size = int er, part_name = name\<rparr>)"

lemma mtd_scan_lines:
  "\<forall>(i, sz, er, name) \<in> set ps. mtd_name_ok name \<Longrightarrow> length parts + length ps \<le> 32
   \<Longrightarrow> mtd_scan_loop True parts (concat (map proc_mtd_line ps)) = Some (0, parts @ map scanned_entry ps)"
proof (induction ps arbitrary: parts)
  case Nil
  then show ?case by (simp add: mtd_scan_loop.simps)
next
  case (Cons p ps)
  obtain i sz er name where p: "p = (i, sz, er, name)" by (cases p)
  have nm: "mtd_name_ok name" using Cons.prems p by simp
  let ?rest = "concat (map proc_mtd_line ps)"
  obtain s where s: "proc_mtd_line p = s @ [CHR 0x0A]" "CHR 0x0A \<notin> set s"
    using proc_mtd_line_chars[OF nm, of i sz er] unfolding p by metis
  have NULs: "NUL \<notin> set (proc_mtd_line p @ ?rest)"
    using NUL_notin_proc_mtd[OF Cons.prems(1)] by simp
  have "mtd_sscanf (cstr (proc_mtd_line p @ ?rest)) = Some (int i, int sz, int er, name)"
    unfolding cstr_id[OF NULs] unfolding p by (rule mtd_sscanf_line[OF nm])
  moreover have "eat_line (proc_mtd_line p @ ?rest) = ?rest"
    using eat_line_append[OF s(2), of ?rest] by (simp add: s(1))
  moreover have "proc_mtd_line p @ ?rest \<noteq> []" by (simp add: s(1))
  moreover have "mtd_scan_loop True (parts @ [scanned_entry p]) ?rest = Some (0, (parts @ [scanned_entry p]) @ map scanned_entry ps)"
    using Cons.prems by (intro Cons.IH) auto
  moreover have "scanned_entry p = \<lparr>device_index = int i, part_size = int i, part_erase_size = int er, part_name = name\<rparr>"
    by (simp add: p scanned_entry_def)
  moreover have "\<not> 32 \<le> length parts" using Cons.prems(2) by simp
  ultimately show ?case
    by (simp only: mtd_scan_loop.simps[of True parts "proc_mtd_line p @ ?rest"] list.map concat.simps
        option.case prod.case if_True if_False not_True_eq_False append_assoc append_Cons append_Nil)
qed

lemma mtd_scan_text:
  assumes "\<forall>(i, sz, er, name) \<in> set ps. mtd_name_ok name" and "length ps \<le> 32"
  shows "mtd_scan_loop True [] (proc_mtd_text ps) = Some (0, map scanned_entry ps)"
proof -
  let ?h = "''dev:    size   erasesize  name''" and ?b = "concat (map proc_mtd_line ps)"
  have "NUL \<notin> set (proc_mtd_text ps)" using NUL_notin_proc_mtd[OF assms(1)] by (simp add: proc_mtd_text_def)
  then have "mtd_sscanf (cstr (proc_mtd_text ps)) = None"
    by (simp add: mtd_sscanf_def) (simp add: proc_mtd_text_def scan_lit_def)
  moreover have "eat_line (proc_mtd_text ps) = ?b"
    using eat_line_append[of ?h ?b] by (simp add: proc_mtd_text_def)
  moreover have "proc_mtd_text ps \<noteq> []" by (simp add: proc_mtd_text_def)
  ultimately show ?thesis
    using mtd_scan_lines[OF assms(1), of "[]"] assms(2) by (simp add: mtd_scan_loop.simps[of _ _ "proc_mtd_text ps"])
qed

text \<open>scanning \<open>/proc/mtd\<close> as the kernel prints it (at most 32 partitions, at most 2047
  bytes) fills the table with one entry per partition in order, after which
  \<open>get_mtd_by_name\<close> finds the index of each partition; but the size of every entry is the
  index of the partition, not its size.
\<close>

theorem mtd_scan_partitions_table:
  fixes e :: "'d boot_env"
  assumes "\<not> g_init e" and "mtdpartition e = []" and "heap_ok e" and "proc_mtd e = Content (proc_mtd_text ps)"
    and "\<forall>(i, sz, er, name) \<in> set ps. mtd_name_ok name" and "length ps \<le> 32"
    and "length (proc_mtd_text ps) \<le> 2047" and "distinct (map (\<lambda>(i, sz, er, name). name) ps)"
  shows "\<exists>e'. mtd_scan_partitions e = Some (0, e') \<and> g_init e'
    \<and> map (\<lambda>p. (device_index p, part_erase_size p, part_name p)) (mtdpartition e')
        = map (\<lambda>(i, sz, er, name). (int i, int er, name)) ps
    \<and> (\<forall>(i, sz, er, name) \<in> set ps. get_mtd_by_name e' name = int i)
    \<and> (\<forall>p \<in> set (mtdpartition e'). part_size p = device_index p)"
proof -
  let ?e = "e\<lparr>mtdpartition := map scanned_entry ps, g_init := True\<rparr>"
  have run: "mtd_scan_partitions e = Some (0, ?e)"
    using assms mtd_scan_text[OF assms(5,6)] by (simp add: mtd_scan_partitions_def)
  have "get_mtd_by_name ?e name = int i" if "(i, sz, er, name) \<in> set ps" for i sz er name
    using that assms(8)
    by (induction ps) (auto simp: get_mtd_by_name_def scanned_entry_def rev_image_eqI)
  then show ?thesis
    by (intro exI[of _ ?e]) (auto simp: run scanned_entry_def)
qed

definition fresh_env :: "ram_dev boot_env" where
  "fresh_env = emmc_env\<lparr>g_init := False, mtdpartition := [],
     proc_mtd := Content (proc_mtd_text [(0, 0x80000, 0x20000, ''bootloader''), (1, 0x400000, 0x20000, ''misc'')])\<rparr>"

theorem mtd_scan_partitions_table_witness:
  "\<exists>e'. mtd_scan_partitions fresh_env = Some (0, e') \<and> get_mtd_by_name e' ''misc'' = 1
    \<and> (\<forall>p \<in> set (mtdpartition e'). part_size p = device_index p)"
proof -
  let ?ps = "[(0, 0x80000, 0x20000, ''bootloader''), (1, 0x400000, 0x20000, ''misc'')] :: mtd_entry list"
  have "length (pr_hex8 0x80000) = 8" "length (pr_hex8 0x400000) = 8" "length (pr_hex8 0x20000) = 8"
    by (simp_all add: length_pr_hex8)
  moreover have "length (pr_nat 10 0) \<le> 1" "length (pr_nat 10 1) \<le> 1"
    by (simp_all add: pr_nat.simps)
  ultimately have "length (proc_mtd_text ?ps) \<le> 2047"
    by (simp add: proc_mtd_text_def proc_mtd_line_def del: One_nat_def)
  then have "\<exists>e'. mtd_scan_partitions fresh_env = Some (0, e') \<and> g_init e'
    \<and> map (\<lambda>p. (device_index p, part_erase_size p, part_name p)) (mtdpartition e')
        = map (\<lambda>(i, sz, er, name). (int i, int er, name)) ?ps
    \<and> (\<forall>(i, sz, er, name) \<in> set ?ps. get_mtd_by_name e' name = int i)
    \<and> (\<forall>p \<in> set (mtdpartition e'). part_size p = device_index p)"
    by (intro mtd_scan_partitions_table) (simp_all add: fresh_env_def emmc_env_def mtd_name_ok_def)
  then show ?thesis by auto
qed


section \<open>The running slot and the partition of the other\<close>

lemma strstr_first:
  "\<forall>k < length pre. take (length pat) (drop k (pre @ pat @ post)) \<noteq> pat
   \<Longrightarrow> strstr (pre @ pat @ post) pat = Some (pat @ post)"
proof (induction pre)
  case Nil
  then show ?case
    by (cases "pat @ post") (auto simp: append_eq_Cons_conv)
next
  case (Cons c pre)
  have "strstr (pre @ pat @ post) pat = Some (pat @ post)"
    using Cons.prems by (intro Cons.IH) (metis Suc_less_eq append_Cons drop_Suc_Cons length_Cons)
  then show ?case using Cons.prems[rule_format, of 0] by simp
qed

text \<open>A kernel command line with one setting of the slot suffix, and nothing like it before.\<close>

definition cmdline_with_slot :: "string \<Rightarrow> string \<Rightarrow> string \<Rightarrow> bool" where
  "cmdline_with_slot pre v post \<longleftrightarrow> NUL \<notin> set (pre @ v @ post) \<and> length (pre @ v @ post) + 12 \<le> 2047
     \<and> length v = 2
     \<and> (\<forall>k < length pre. take 11 (drop k (pre @ ''slot_suffix='' @ v @ post)) \<noteq> ''slot_suffix'')"

lemma cmdline_slot:
  assumes "cmdline_with_slot pre v post" and "proc_cmdline e = Content (pre @ ''slot_suffix='' @ v @ post)"
  shows "get_active_slot e = Some (Inr (if v = ''_a'' then 0 else 1))"
proof -
  let ?txt = "pre @ ''slot_suffix='' @ v @ post"
  let ?rest = "CHR ''='' # v @ post"
  let ?buf = "?txt @ zeros (2048 - length ?txt)"
  have len: "length ?txt \<le> 2047" and nul: "NUL \<notin> set ?txt" and v: "length v = 2" "NUL \<notin> set (v @ post)"
    using assms(1) by (auto simp: cmdline_with_slot_def)
  obtain k where k: "2048 - length ?txt = Suc k" using len by (cases "2048 - length ?txt") auto
  have slot11: "length ''slot_suffix'' = 11" by simp
  have "cstr ?buf = ?txt" unfolding zeros_def by (rule cstr_append_zeros[OF nul])
  moreover have "strstr (pre @ ''slot_suffix'' @ ?rest) ''slot_suffix'' = Some (''slot_suffix'' @ ?rest)"
    using assms(1) strstr_first[of pre "''slot_suffix''" ?rest, unfolded slot11]
    by (simp add: cmdline_with_slot_def)
  moreover have "drop (length pre + 12) ?buf = (v @ post) @ NUL # zeros k"
    unfolding k by (simp add: zeros_def)
  then have "cstr_at ?buf (length pre + 12) = Some (v @ post)"
    using v(2) cstr_append_NUL[OF v(2)] by (simp add: cstr_at_def del: cstr_append_NUL append_assoc)
  ultimately show ?thesis
    using len v(1) by (simp add: get_active_slot_def get_active_slot_from_cmdline_def assms(2) Let_def)
qed

text \<open>the partition \<open>get_inactive_mtd\<close> gives an update is never the running slot's. With
  \<open>slot_suffix=_a\<close> (or \<open>_b\<close>) on the kernel command line and a table that names both
  partitions, with different indices, the result is the index of the other slot's partition,
  and \<open>get_inactive_devicename\<close> for the running slot names the same device.
\<close>

theorem get_inactive_mtd_other_slot:
  assumes "cmdline_with_slot pre v post" and "proc_cmdline e = Content (pre @ ''slot_suffix='' @ v @ post)"
    and "v = ''_a'' \<or> v = ''_b''" and "length name \<le> 125" and "\<not> has_mmcblk0 e"
    and "get_mtd_by_name e (name @ ''_a'') = int a" and "get_mtd_by_name e (name @ ''_b'') = int b" and "a \<noteq> b"
  shows "get_inactive_mtd e name = Some (int (if v = ''_a'' then b else a))
    \<and> get_inactive_mtd e name \<noteq> Some (get_mtd_by_name e (name @ v))
    \<and> get_inactive_devicename e name (if v = ''_a'' then 0 else 1)
        = Some (Inr (''/dev/mtd'' @ pr_int (int (if v = ''_a'' then b else a))))"
  using assms cmdline_slot[OF assms(1,2)]
  by (auto simp: get_inactive_mtd_def get_inactive_devicename_def get_store_device_def other_partition_def
      mtd_node_def Let_def)

theorem get_inactive_mtd_other_slot_witness:
  "get_inactive_mtd (emmc_env\<lparr>has_mmcblk0 := False\<rparr>) ''boot'' = Some 5"
proof -
  have "cmdline_with_slot ''rw '' ''_a'' '' quiet''"
    by (simp add: cmdline_with_slot_def) (simp add: numeral_eq_Suc less_Suc_eq)
  moreover have "proc_cmdline (emmc_env\<lparr>has_mmcblk0 := False\<rparr>) = Content (''rw '' @ ''slot_suffix='' @ ''_a'' @ '' quiet'')"
    by (simp add: emmc_env_def)
  ultimately show ?thesis
    using get_inactive_mtd_other_slot[of "''rw ''" "''_a''" "'' quiet''" "emmc_env\<lparr>has_mmcblk0 := False\<rparr>" "''boot''" 4 5]
    by (simp add: get_mtd_by_name_def emmc_env_def)
qed

section \<open>urlmisc\<close>

lemma set_message_keeps:
  "set_bootloader_message e m = Some (r, e') \<Longrightarrow> has_mmcblk0 e' = has_mmcblk0 e \<and> proc_mtd e' = proc_mtd e"
  by (auto simp: set_bootloader_message_def set_bootloader_message_block_def set_bootloader_message_mtd_def
      Let_def split: if_splits option.splits prod.splits)

lemma update_message_keeps:
  "update_message get_bootloader_message set_bootloader_message f e = Some (r, e')
   \<Longrightarrow> has_mmcblk0 e' = has_mmcblk0 e \<and> proc_mtd e' = proc_mtd e"
  by (auto simp: update_message_def dest: set_message_keeps split: if_splits option.splits sum.splits prod.splits)

text \<open>
  C22: the tool \<open>urlmisc\<close> on an eMMC device (no \<open>/proc/mtd\<close>) whose store works: \<open>write URL\<close>
  exits with 0, and so does a \<open>read\<close> after it; \<open>clean\<close> then exits with 0 and makes the next
  \<open>read\<close> fail. An unknown command exits with -1 and leaves the device alone.
\<close>

theorem urlmisc_write_read_clean:
  assumes "store_ok e" and "has_mmcblk0 e" and "proc_mtd e = OpenFails" and "\<not> g_init e"
    and "take 4 url = ''http''" and "NUL \<notin> set url" and "length url \<le> 255"
    and "cmd \<notin> {''read'', ''clean'', ''local''}"
  shows "\<exists>e1 e2. urlmisc_main e [''write'', url] = Some (0, e1)
    \<and> urlmisc_main (e1\<lparr>g_init := False\<rparr>) [''read''] = Some (0, e1\<lparr>g_init := False\<rparr>)
    \<and> urlmisc_main (e1\<lparr>g_init := False\<rparr>) [''clean''] = Some (0, e2)
    \<and> urlmisc_main (e2\<lparr>g_init := False\<rparr>) [''read''] = Some (-1, e2\<lparr>g_init := False\<rparr>)
    \<and> urlmisc_main e [cmd] = Some (-1, e)"
proof -
  have scan: "mtd_scan_partitions e' = Some (-1, e')" if "proc_mtd e' = OpenFails" "\<not> g_init e'" for e' :: "'a boot_env"
    using that by (simp add: mtd_scan_partitions_def)
  have init: "store_ok (e'\<lparr>g_init := b\<rparr>)" if "store_ok e'" "has_mmcblk0 e'" for e' :: "'a boot_env" and b
    using that by (simp add: store_ok_def)
  obtain e1 where e1: "set_recovery_otapath e (Some url) = Some (0, e1)" "store_ok e1"
    "cur_message e1 = otapath_edit url (cur_message e)"
    using store.edit_ok[OF assms(1), of "otapath_edit url"] otapath_edit_wf by (auto simp: set_recovery_otapath_def)
  then have k1: "has_mmcblk0 e1" "proc_mtd e1 = OpenFails"
    using assms(2,3) update_message_keeps by (fastforce simp: set_recovery_otapath_def)+
  have cur: "cur_message (e'\<lparr>g_init := b\<rparr>) = cur_message e'" if "has_mmcblk0 e'" for e' :: "'a boot_env" and b
    using that by (simp add: cur_message_def get_bootloader_message_def get_store_device_def
        get_bootloader_message_block_def)
  let ?e1 = "e1\<lparr>g_init := False\<rparr>"
  have read1: "\<exists>x. get_recovery_otapath ?e1 (zeros 256) = Some (Inr x)"
    using assms(5-7) http_url[OF assms(5,6)]
    by (auto simp: get_otapath_cur[OF init[OF e1(2) k1(1)]] cur k1(1) e1(3) otapath_edit_recovery)
  obtain e2 where e2: "clean_recovery_otapath ?e1 = Some (0, e2)" "store_ok e2"
    "cur_message e2 = (cur_message ?e1)\<lparr>command := zeros 32, recovery := zeros 768\<rparr>"
    using clean_recovery_ok[OF init[OF e1(2) k1(1)]] by metis
  have k2: "has_mmcblk0 e2" "proc_mtd e2 = OpenFails"
    using k1 update_message_keeps[OF e2(1)[unfolded clean_recovery_otapath_def]] by simp_all
  have read2: "get_recovery_otapath (e2\<lparr>g_init := False\<rparr>) (zeros 256) = Some (Inl (-1))"
    by (intro get_otapath_zeros init[OF e2(2) k2(1)]) (simp add: cur k2(1) e2(3))
  obtain x where x: "get_recovery_otapath ?e1 (zeros 256) = Some (Inr x)" using read1 by blast
  have "urlmisc_main e [''write'', url] = Some (0, e1)"
    using e1(1) scan[OF assms(3,4)] by (simp add: urlmisc_main_def)
  moreover have "urlmisc_main ?e1 [''read''] = Some (0, ?e1)"
    using x k1(2) scan[of ?e1] by (simp add: urlmisc_main_def)
  moreover have "urlmisc_main ?e1 [''clean''] = Some (0, e2)"
    using e2(1) k1(2) scan[of ?e1] by (simp add: urlmisc_main_def)
  moreover have "urlmisc_main (e2\<lparr>g_init := False\<rparr>) [''read''] = Some (-1, e2\<lparr>g_init := False\<rparr>)"
    using read2 k2(2) scan[of "e2\<lparr>g_init := False\<rparr>"] by (simp add: urlmisc_main_def)
  moreover have "urlmisc_main e [cmd] = Some (-1, e)"
    using assms(8) scan[OF assms(3,4)] by (simp add: urlmisc_main_def)
  ultimately show ?thesis by blast
qed

theorem urlmisc_write_read_clean_witness:
  "\<exists>e1. urlmisc_main (emmc_env\<lparr>g_init := False\<rparr>) [''write'', ''http://a/u''] = Some (0, e1)
    \<and> urlmisc_main (e1\<lparr>g_init := False\<rparr>) [''read''] = Some (0, e1\<lparr>g_init := False\<rparr>)"
proof -
  have "store_ok (emmc_env\<lparr>g_init := False\<rparr>)" using emmc_store_ok by (simp add: store_ok_def emmc_env_def)
  then show ?thesis
    using urlmisc_write_read_clean[of "emmc_env\<lparr>g_init := False\<rparr>" "''http://a/u''" "''x''"]
    by (auto simp: emmc_env_def)
qed

end
