(* ===== verification/EnvKv.thy ===== *)
theory EnvKv
  imports CText
begin

text \<open>
  The key/value list of \<open>ubootenv/ubootenv.c\<close>: parsing the raw environment into it,
  serializing it back, looking up and setting a value. The linked list that starts with the
  static \<open>gs_kv_header\<close> is a non-empty list, its head the header.

  The lemmas: what serializing writes, parsing reads back; the list is a key/value store
  (locale \<open>kv_store\<close>); keys and values stay below their buffers' sizes.
\<close>

section \<open>The list\<close>

record env_kv =
  kv_key :: string
  kv_value :: "string option"   \<comment> \<open>\<^const>\<open>None\<close>: the pointer is \<open>NULL\<close>\<close>

definition empty_kv :: env_kv where "empty_kv = \<lparr>kv_key = [], kv_value = None\<rparr>"

definition upd_last :: "('a \<Rightarrow> 'a) \<Rightarrow> 'a list \<Rightarrow> 'a list" where
  "upd_last f xs = butlast xs @ [f (last xs)]"

lemma upd_last_snoc [simp]: "upd_last f (xs @ [x]) = xs @ [f x]"
  by (simp add: upd_last_def)

lemma length_upd_last [simp]: "xs \<noteq> [] \<Longrightarrow> length (upd_last f xs) = length xs"
  by (cases xs rule: rev_cases) simp_all

lemma upd_last_not_Nil [simp]: "upd_last f xs \<noteq> []"
  by (simp add: upd_last_def)

section \<open>Parsing and serializing\<close>

text \<open>
  The loop of \<open>env_parse_kv\<close>: \<open>mem\<close> is the memory from \<open>ptr\<close> on, \<open>left\<close> how far \<open>ptr\<close> is from
  the end of the data, \<open>acc\<close> the nodes up to \<open>attr\<close> and \<open>behind\<close> the nodes behind it. So many
  nodes can be allocated as \<open>nodes\<close> says. No NUL behind \<open>ptr\<close> is undefined behaviour.
\<close>

function env_parse_loop ::
  "nat \<Rightarrow> string \<Rightarrow> nat \<Rightarrow> bool \<Rightarrow> bool \<Rightarrow> env_kv list \<Rightarrow> env_kv list \<Rightarrow> env_kv list option" where
  "env_parse_loop nodes mem left bproc_key bproc_next acc behind =
     (if left = 0 then Some (acc @ behind)
      else if mem = [] then None
      else if hd mem = NUL then Some (acc @ behind)
      else if bproc_next \<and> nodes = 0 then Some acc
      else let (nodes, acc, behind) =
             (if bproc_next then (nodes - 1, acc @ [empty_kv], []) else (nodes, acc, behind)) in
        if NUL \<notin> set mem then None
        else if bproc_key then
          (case strchr (cstr mem) (CHR ''='') of
             None \<Rightarrow> Some (acc @ behind)
           | Some i \<Rightarrow>
               let plen = min (i + 1) 256
               in env_parse_loop nodes (drop (i + 1) mem) (left - (i + 1)) False False
                    (upd_last (\<lambda>a. a\<lparr>kv_key := take (plen - 1) (cstr mem)\<rparr>) acc) behind)
        else
          let i = length (cstr mem); plen = min (i + 1) 4096
          in env_parse_loop nodes (drop (i + 1) mem) (left - (i + 1)) True True
               (upd_last (\<lambda>a. a\<lparr>kv_value := Some (take (plen - 1) (cstr mem))\<rparr>) acc) behind)"
  by pat_completeness auto
termination
  by (relation "measure (\<lambda>(n, mem, _). length mem)") (auto simp: length_greater_0_conv[symmetric] simp del: length_greater_0_conv)

declare env_parse_loop.simps [simp del]

definition env_parse_kv :: "nat \<Rightarrow> string \<Rightarrow> nat \<Rightarrow> env_kv list \<Rightarrow> env_kv list option" where
  "env_parse_kv nodes data sz kvs = env_parse_loop nodes data sz True False [hd kvs] (tl kvs)"

text \<open>
  The loop of \<open>env_serialize_data\<close>: \<open>data\<close> is the memory from the start of the environment's
  data to the end of the image, \<open>off\<close> the offset of the next write. Printing \<open>NULL\<close> with
  \<open>%s\<close> and writing behind the image are undefined.
\<close>

fun env_serialize_loop :: "string \<Rightarrow> nat \<Rightarrow> env_kv list \<Rightarrow> string option" where
  "env_serialize_loop data off [] = Some data"
| "env_serialize_loop data off (attr # rest) =
     (case kv_value attr of
        None \<Rightarrow> None
      | Some v \<Rightarrow>
          let s = kv_key attr @ ''='' @ v; len = length s in
          if off + len + 1 > length data then None
          else env_serialize_loop (put_at data off (s @ [NUL])) (if len < 3 then off else off + (len + 1)) rest)"

text \<open>\<open>env_release_kv\<close>: the header stays, with its key and without its value.\<close>

definition env_release_kv :: "env_kv list \<Rightarrow> env_kv list" where
  "env_release_kv kvs = [(hd kvs)\<lparr>kv_value := None\<rparr>]"

section \<open>Looking up and setting\<close>

fun kv_lookup :: "env_kv list \<Rightarrow> string \<Rightarrow> string option" where
  "kv_lookup [] key = None"
| "kv_lookup (attr # rest) key = (if key = kv_key attr then kv_value attr else kv_lookup rest key)"

text \<open>\<open>bootenv_set_value\<close>: the return code and the new list.\<close>

fun kv_set :: "env_kv list \<Rightarrow> string \<Rightarrow> string \<Rightarrow> bool \<Rightarrow> int \<times> env_kv list" where
  "kv_set [] key v creat_args_flag =
     (if creat_args_flag then (1, [\<lparr>kv_key = snprintf_s 256 key, kv_value = Some v\<rparr>]) else (0, []))"
| "kv_set (attr # rest) key v creat_args_flag =
     (if key = kv_key attr then (2, attr\<lparr>kv_value := Some v\<rparr> # rest)
      else let (ret, rest') = kv_set rest key v creat_args_flag in (ret, attr # rest'))"

section \<open>The round trip\<close>

text \<open>Entries the raw format can hold, and the text of a list of them.\<close>

definition key_ok :: "string \<Rightarrow> bool" where
  "key_ok k \<longleftrightarrow> k \<noteq> [] \<and> NUL \<notin> set k \<and> CHR ''='' \<notin> set k \<and> length k \<le> 255"

definition val_ok :: "string \<Rightarrow> bool" where
  "val_ok v \<longleftrightarrow> v \<noteq> [] \<and> NUL \<notin> set v \<and> length v \<le> 4095"

definition kv_ok :: "env_kv \<Rightarrow> bool" where
  "kv_ok a \<longleftrightarrow> key_ok (kv_key a) \<and> (case kv_value a of None \<Rightarrow> False | Some v \<Rightarrow> val_ok v)"

definition kvs_ok :: "env_kv list \<Rightarrow> bool" where
  "kvs_ok kvs \<longleftrightarrow> kvs \<noteq> [] \<and> (\<forall>a \<in> set kvs. kv_ok a)"

definition kv_text :: "env_kv \<Rightarrow> string" where
  "kv_text a = kv_key a @ ''='' @ the (kv_value a) @ [NUL]"

definition env_text :: "env_kv list \<Rightarrow> string" where
  "env_text kvs = concat (map kv_text kvs)"

lemma env_text_simps [simp]: "env_text [] = []" "env_text (a # kvs) = kv_text a @ env_text kvs"
  by (simp_all add: env_text_def)

lemma kv_okE:
  assumes "kv_ok a"
  obtains k v where "a = \<lparr>kv_key = k, kv_value = Some v\<rparr>" and "key_ok k" and "val_ok v"
proof (cases a)
  case (fields k w)
  with assms show thesis by (cases w) (auto simp: kv_ok_def intro: that)
qed

lemma put_at_Nil [simp]: "put_at d off [] = d"
  by (simp add: put_at_def)

lemma env_serialize_loop_text:
  "\<forall>a \<in> set kvs. kv_ok a \<Longrightarrow> off + length (env_text kvs) \<le> length data
   \<Longrightarrow> env_serialize_loop data off kvs = Some (put_at data off (env_text kvs))"
proof (induction kvs arbitrary: off data)
  case (Cons a kvs)
  obtain k v where a: "a = \<lparr>kv_key = k, kv_value = Some v\<rparr>" and ok: "key_ok k" "val_ok v"
    using Cons.prems(1) kv_okE by (metis list.set_intros(1))
  let ?s = "k @ ''='' @ v"
  have t: "kv_text a = ?s @ [NUL]" by (simp add: kv_text_def a)
  have "\<not> length ?s < 3" using ok by (cases k; cases v) (auto simp: key_ok_def val_ok_def)
  moreover have "env_serialize_loop (put_at data off (?s @ [NUL])) (off + (length ?s + 1)) kvs
      = Some (put_at (put_at data off (?s @ [NUL])) (off + (length ?s + 1)) (env_text kvs))"
    using Cons.prems by (intro Cons.IH) (auto simp: t)
  moreover have "put_at (put_at data off (?s @ [NUL])) (off + (length ?s + 1)) (env_text kvs)
      = put_at data off (env_text (a # kvs))"
    using put_at_join[of off data "?s @ [NUL]" "env_text kvs"] Cons.prems(2) by (simp add: t)
  ultimately show ?case using Cons.prems(2) by (simp add: a t Let_def) (simp add: kv_text_def)
qed simp

lemma cstr_append: "NUL \<notin> set s \<Longrightarrow> cstr (s @ t) = s @ cstr t"
  by (induction s) (auto simp: cstr_Cons)

lemma parse_key_step:
  assumes "key_ok k" and "0 < left" and "NUL \<notin> set v"
  shows "env_parse_loop nodes (k @ CHR ''='' # v @ NUL # r) left True False (xs @ [x]) behind
    = env_parse_loop nodes (v @ NUL # r) (left - Suc (length k)) False False (xs @ [x\<lparr>kv_key := k\<rparr>]) behind"
proof -
  let ?m = "k @ CHR ''='' # v @ NUL # r"
  have c: "cstr ?m = k @ CHR ''='' # v"
    using assms cstr_append_NUL[of "k @ CHR ''='' # v" r] by (simp add: key_ok_def)
  have "k \<noteq> []" "hd k \<noteq> NUL" using assms(1) by (auto simp: key_ok_def) (metis hd_in_set)
  then have h: "hd ?m \<noteq> NUL" by simp
  have i: "strchr (k @ CHR ''='' # v) (CHR ''='') = Some (length k)"
    using assms(1) by (simp add: key_ok_def)
  have "take (min (length k + 1) 256 - 1) (k @ CHR ''='' # v) = k"
    using assms(1) by (simp add: key_ok_def min_def)
  then show ?thesis
    using h assms(2) by (subst env_parse_loop.simps) (simp add: c i Let_def)
qed

lemma parse_val_step:
  assumes "val_ok v" and "0 < left"
  shows "env_parse_loop nodes (v @ NUL # r) left False False (xs @ [x]) behind
    = env_parse_loop nodes r (left - Suc (length v)) True True (xs @ [x\<lparr>kv_value := Some v\<rparr>]) behind"
proof -
  have "v \<noteq> []" "hd v \<noteq> NUL" using assms(1) by (auto simp: val_ok_def) (metis hd_in_set)
  moreover have "take (min (length v + 1) 4096 - 1) v = v" using assms(1) by (simp add: val_ok_def min_def)
  ultimately show ?thesis
    using assms by (subst env_parse_loop.simps) (simp add: val_ok_def Let_def)
qed

lemma parse_next_step:
  assumes "mem \<noteq> []" and "hd mem \<noteq> NUL" and "0 < left"
  shows "env_parse_loop (Suc nodes) mem left True True acc behind
    = env_parse_loop nodes mem left True False (acc @ [empty_kv]) []"
  using assms by (subst (1 2) env_parse_loop.simps) (simp add: Let_def)

text \<open>What parsing is about to read: the end of the data, or a NUL.\<close>

definition env_end :: "nat \<Rightarrow> string \<Rightarrow> bool" where
  "env_end left r \<longleftrightarrow> left = 0 \<or> (r \<noteq> [] \<and> hd r = NUL)"

lemma parse_end: "env_end left r \<Longrightarrow> env_parse_loop nodes r left bk bn acc behind = Some (acc @ behind)"
  by (subst env_parse_loop.simps) (auto simp: env_end_def)

lemma parse_entry:
  assumes "kv_ok a" and "length (kv_text a) \<le> left"
  shows "env_parse_loop nodes (kv_text a @ r) left True False (xs @ [x]) behind
    = env_parse_loop nodes r (left - length (kv_text a)) True True (xs @ [a]) behind"
proof -
  obtain k v where a: "a = \<lparr>kv_key = k, kv_value = Some v\<rparr>" and ok: "key_ok k" "val_ok v"
    using assms(1) by (rule kv_okE)
  have t: "kv_text a @ r = k @ CHR ''='' # v @ NUL # r" by (simp add: kv_text_def a)
  have "env_parse_loop nodes (kv_text a @ r) left True False (xs @ [x]) behind
    = env_parse_loop nodes (v @ NUL # r) (left - Suc (length k)) False False (xs @ [x\<lparr>kv_key := k\<rparr>]) behind"
    unfolding t using assms(2) ok by (intro parse_key_step) (auto simp: kv_text_def a val_ok_def)
  also have "\<dots> = env_parse_loop nodes r (left - Suc (length k) - Suc (length v)) True True
      (xs @ [x\<lparr>kv_key := k, kv_value := Some v\<rparr>]) behind"
    using assms(2) ok by (intro parse_val_step) (auto simp: kv_text_def a)
  moreover have "x\<lparr>kv_key := k, kv_value := Some v\<rparr> = a" by (simp add: a)
  ultimately show ?thesis by (simp add: kv_text_def a)
qed

lemma kv_text_hd: "kv_ok a \<Longrightarrow> kv_text a @ r \<noteq> [] \<and> hd (kv_text a @ r) \<noteq> NUL"
  by (erule kv_okE) (auto simp: kv_text_def key_ok_def hd_append dest: hd_in_set)

lemma parse_prefix:
  "\<forall>a \<in> set kvs. kv_ok a \<Longrightarrow> length kvs \<le> nodes \<Longrightarrow> length (env_text kvs) \<le> left
   \<Longrightarrow> env_parse_loop nodes (env_text kvs @ r) left True True acc []
     = env_parse_loop (nodes - length kvs) r (left - length (env_text kvs)) True True (acc @ kvs) []"
proof (induction kvs arbitrary: nodes left acc)
  case (Cons a kvs)
  obtain n where n: "nodes = Suc n" using Cons.prems(2) by (cases nodes) auto
  have a: "kv_ok a" using Cons.prems(1) by simp
  have "kv_text a \<noteq> []" by (simp add: kv_text_def)
  then have l: "0 < left" using Cons.prems(3) by (cases left) auto
  have "env_parse_loop nodes (env_text (a # kvs) @ r) left True True acc []
      = env_parse_loop n (kv_text a @ env_text kvs @ r) left True False (acc @ [empty_kv]) []"
    using kv_text_hd[OF a] l by (simp add: n parse_next_step)
  also have "\<dots> = env_parse_loop n (env_text kvs @ r) (left - length (kv_text a)) True True (acc @ [a]) []"
    using a Cons.prems(3) by (intro parse_entry) auto
  also have "\<dots> = env_parse_loop (n - length kvs) r (left - length (kv_text a) - length (env_text kvs)) True True
      ((acc @ [a]) @ kvs) []"
    using Cons.prems n by (intro Cons.IH) auto
  finally show ?case by (simp add: n)
qed simp

text \<open>Parsing the text of a non-empty list of proper entries, whatever the header was.\<close>

lemma env_parse_prefix:
  assumes "kvs_ok kvs" and "length kvs \<le> Suc nodes" and "length (env_text kvs) \<le> sz"
  shows "env_parse_kv nodes (env_text kvs @ r) sz [h]
    = env_parse_loop (Suc nodes - length kvs) r (sz - length (env_text kvs)) True True kvs []"
proof -
  obtain a as where k: "kvs = a # as" using assms(1) by (cases kvs) (auto simp: kvs_ok_def)
  have "env_parse_kv nodes (env_text kvs @ r) sz [h]
      = env_parse_loop nodes (kv_text a @ env_text as @ r) sz True False ([] @ [h]) []"
    by (simp add: env_parse_kv_def k)
  also have "\<dots> = env_parse_loop nodes (env_text as @ r) (sz - length (kv_text a)) True True ([] @ [a]) []"
    using assms by (intro parse_entry) (auto simp: k kvs_ok_def)
  also have "\<dots> = env_parse_loop (nodes - length as) r (sz - length (kv_text a) - length (env_text as)) True True
      (([] @ [a]) @ as) []"
    using assms by (intro parse_prefix) (auto simp: k kvs_ok_def)
  finally show ?thesis by (simp add: k)
qed

lemma env_parse_text:
  assumes "kvs_ok kvs" and "length kvs \<le> Suc nodes"
    and "length (env_text kvs) \<le> sz" and "env_end (sz - length (env_text kvs)) r"
  shows "env_parse_kv nodes (env_text kvs @ r) sz [h] = Some kvs"
  using env_parse_prefix[OF assms(1-3)] parse_end[OF assms(4)] by simp

lemma env_serialize_zeros:
  assumes "\<forall>a \<in> set kvs. kv_ok a" and "length (env_text kvs) \<le> sz" and "sz \<le> length mem"
  shows "env_serialize_loop (zeros sz @ drop sz mem) 0 kvs
    = Some (env_text kvs @ zeros (sz - length (env_text kvs)) @ drop sz mem)"
proof -
  have "put_at (zeros sz @ drop sz mem) 0 (env_text kvs)
      = env_text kvs @ zeros (sz - length (env_text kvs)) @ drop sz mem"
    using assms(2) by (simp add: put_at_def zeros_def)
  then show ?thesis
    using env_serialize_loop_text[OF assms(1), of 0 "zeros sz @ drop sz mem"] assms(2,3) by simp
qed

section \<open>The bounds of what parsing accepts\<close>

definition kv_bounded :: "env_kv \<Rightarrow> bool" where
  "kv_bounded a \<longleftrightarrow> NUL \<notin> set (kv_key a) \<and> length (kv_key a) \<le> 255
     \<and> (case kv_value a of None \<Rightarrow> True | Some v \<Rightarrow> NUL \<notin> set v \<and> length v \<le> 4095)"

lemma NUL_notin_take_cstr [simp]: "NUL \<notin> set (take n (cstr s))"
  by (meson cstr_no_NUL in_set_takeD)

lemma upd_last_bounded:
  "xs \<noteq> [] \<Longrightarrow> \<forall>a \<in> set xs. P a \<Longrightarrow> P (f (last xs)) \<Longrightarrow> \<forall>a \<in> set (upd_last f xs). P a"
  by (cases xs rule: rev_cases) auto

lemma env_parse_loop_bounded:
  "left \<le> length mem \<Longrightarrow> mem = [] \<or> last mem = NUL \<Longrightarrow> acc \<noteq> [] \<Longrightarrow> \<forall>a \<in> set (acc @ behind). kv_bounded a
   \<Longrightarrow> \<exists>kvs. env_parse_loop nodes mem left bk bn acc behind = Some kvs \<and> kvs \<noteq> [] \<and> (\<forall>a \<in> set kvs. kv_bounded a)"
proof (induction nodes mem left bk bn acc behind rule: env_parse_loop.induct)
  case (1 nodes mem left bk bn acc behind)
  show ?case
  proof (cases "left = 0 \<or> mem = [] \<or> hd mem = NUL \<or> bn \<and> nodes = 0")
    case True
    then show ?thesis using "1.prems" by (subst env_parse_loop.simps) auto
  next
    case False
    define st where "st = (if bn then (nodes - 1, acc @ [empty_kv], []) else (nodes, acc, behind))"
    obtain nodes' acc' behind' where st': "st = (nodes', acc', behind')" by (cases st)
    have ne: "mem \<noteq> []" and ln: "last mem = NUL" and nul: "NUL \<in> set mem"
      using False "1.prems"(2) last_in_set[of mem] by auto
    have acc': "acc' \<noteq> []" "\<forall>a \<in> set (acc' @ behind'). kv_bounded a"
      using "1.prems"(3,4) st' by (auto simp: st_def empty_kv_def kv_bounded_def split: if_splits)
    have last_acc: "kv_bounded (last acc')" using acc' by simp
    have rest: "drop i mem = [] \<or> last (drop i mem) = NUL" "left - i \<le> length (drop i mem)" for i
      using ln "1.prems"(1) by (cases "i < length mem"; auto simp: last_drop)+
    have key: "kv_bounded (last acc'\<lparr>kv_key := take (min (i + 1) 256 - 1) (cstr mem)\<rparr>)" for i
      using last_acc by (auto simp: kv_bounded_def)
    have val: "kv_bounded (last acc'\<lparr>kv_value := Some (take (min (i + 1) 4096 - 1) (cstr mem))\<rparr>)" for i
      using last_acc by (auto simp: kv_bounded_def)
    have upd: "\<forall>a \<in> set (upd_last f acc' @ behind'). kv_bounded a" if "kv_bounded (f (last acc'))" for f
      using acc' that upd_last_bounded[of acc' kv_bounded f] by auto
    note unf = env_parse_loop.simps[of nodes mem left bk bn acc behind]
    show ?thesis
    proof (cases bk)
      case True
      show ?thesis
      proof (cases "strchr (cstr mem) (CHR ''='')")
        case None
        then show ?thesis
          unfolding unf using False True nul acc' by (auto simp: st_def[symmetric] st')
      next
        case (Some i)
        have "\<exists>kvs. env_parse_loop nodes' (drop (i + 1) mem) (left - (i + 1)) False False
            (upd_last (\<lambda>a. a\<lparr>kv_key := take (min (i + 1) 256 - 1) (cstr mem)\<rparr>) acc') behind' = Some kvs
            \<and> kvs \<noteq> [] \<and> (\<forall>a \<in> set kvs. kv_bounded a)"
          using False True Some nul st' rest[of "i + 1"] upd[of "\<lambda>a. a\<lparr>kv_key := take (min (i + 1) 256 - 1) (cstr mem)\<rparr>", OF key[of i]]
          by (intro "1.IH"(1)[of st nodes' "(acc', behind')" acc' behind' i "min (i + 1) 256"]) (simp_all add: st_def)
        then show ?thesis
          unfolding unf using False True Some nul by (auto simp: st_def[symmetric] st' Let_def)
      qed
    next
      case bk: False
      let ?i = "length (cstr mem)"
      have "\<exists>kvs. env_parse_loop nodes' (drop (?i + 1) mem) (left - (?i + 1)) True True
          (upd_last (\<lambda>a. a\<lparr>kv_value := Some (take (min (?i + 1) 4096 - 1) (cstr mem))\<rparr>) acc') behind' = Some kvs
          \<and> kvs \<noteq> [] \<and> (\<forall>a \<in> set kvs. kv_bounded a)"
        using False bk nul st' rest[of "?i + 1"] upd[of "\<lambda>a. a\<lparr>kv_value := Some (take (min (?i + 1) 4096 - 1) (cstr mem))\<rparr>", OF val[of ?i]]
        by (intro "1.IH"(2)[of st nodes' "(acc', behind')" acc' behind' ?i "min (?i + 1) 4096"]) (simp_all add: st_def)
      then show ?thesis
        unfolding unf using False bk nul by (auto simp: st_def[symmetric] st' Let_def)
    qed
  qed
qed

section \<open>The list as a key/value store\<close>

text \<open>
  The interface the environment's users rely on: after setting a key its lookup gives the
  value, and other keys keep theirs. Its lemmas are about sequences of updates.
\<close>

locale kv_store =
  fixes lookup :: "'s \<Rightarrow> 'k \<Rightarrow> 'v option" and upd :: "'s \<Rightarrow> 'k \<Rightarrow> 'v \<Rightarrow> 's"
    and ok :: "'s \<Rightarrow> bool" and kok :: "'k \<Rightarrow> bool" and vok :: "'v \<Rightarrow> bool"
  assumes lookup_same: "ok s \<Longrightarrow> kok k \<Longrightarrow> vok v \<Longrightarrow> lookup (upd s k v) k = Some v"
    and lookup_other: "ok s \<Longrightarrow> kok k \<Longrightarrow> vok v \<Longrightarrow> k' \<noteq> k \<Longrightarrow> lookup (upd s k v) k' = lookup s k'"
    and upd_ok: "ok s \<Longrightarrow> kok k \<Longrightarrow> vok v \<Longrightarrow> ok (upd s k v)"
begin

lemma lookup_upd:
  "ok s \<Longrightarrow> kok k \<Longrightarrow> vok v \<Longrightarrow> lookup (upd s k v) = (lookup s)(k \<mapsto> v)"
  by (auto simp: fun_eq_iff lookup_same lookup_other)

lemma upds_ok:
  "ok s \<Longrightarrow> \<forall>(k, v) \<in> set us. kok k \<and> vok v \<Longrightarrow> ok (foldl (\<lambda>s (k, v). upd s k v) s us)"
  by (induction us arbitrary: s) (auto simp: upd_ok)

lemma lookup_upds:
  "ok s \<Longrightarrow> \<forall>(k, v) \<in> set us. kok k \<and> vok v
   \<Longrightarrow> lookup (foldl (\<lambda>s (k, v). upd s k v) s us) = lookup s ++ map_of (rev us)"
proof (induction us arbitrary: s)
  case (Cons u us)
  obtain k v where u: "u = (k, v)" by (cases u)
  have "lookup (foldl (\<lambda>s (k, v). upd s k v) (upd s k v) us) = lookup (upd s k v) ++ map_of (rev us)"
    using Cons.prems u by (intro Cons.IH) (auto simp: upd_ok)
  moreover have "lookup (upd s k v) = (lookup s)(k \<mapsto> v)"
    using Cons.prems u by (simp add: lookup_upd)
  ultimately show ?case by (simp add: u)
qed simp

end

abbreviation kv_put :: "env_kv list \<Rightarrow> string \<Rightarrow> string \<Rightarrow> env_kv list" where
  "kv_put kvs k v \<equiv> snd (kv_set kvs k v True)"

lemma snprintf_key: "key_ok k \<Longrightarrow> snprintf_s 256 k = k"
  by (simp add: key_ok_def snprintf_s_id)

lemma kv_put_same: "key_ok k \<Longrightarrow> kv_lookup (kv_put kvs k v) k = Some v"
  by (induction kvs) (auto simp: snprintf_key split: prod.split)

lemma kv_put_other: "key_ok k \<Longrightarrow> k' \<noteq> k \<Longrightarrow> kv_lookup (kv_put kvs k v) k' = kv_lookup kvs k'"
  by (induction kvs) (auto simp: snprintf_key split: prod.split)

lemma kv_put_Nil [simp]: "kv_put kvs k v \<noteq> []"
  by (cases kvs) (auto split: prod.split)

lemma kv_put_simps [simp]:
  "kv_put [] k v = [\<lparr>kv_key = snprintf_s 256 k, kv_value = Some v\<rparr>]"
  "kv_put (a # kvs) k v = (if k = kv_key a then a\<lparr>kv_value := Some v\<rparr> # kvs else a # kv_put kvs k v)"
  by (simp_all split: prod.split)

lemma kv_ok_upd: "kv_ok a \<Longrightarrow> val_ok v \<Longrightarrow> kv_ok (a\<lparr>kv_value := Some v\<rparr>)"
  by (simp add: kv_ok_def)

lemma kv_ok_new: "key_ok k \<Longrightarrow> val_ok v \<Longrightarrow> kv_ok \<lparr>kv_key = snprintf_s 256 k, kv_value = Some v\<rparr>"
  by (simp add: kv_ok_def snprintf_key)

lemma kv_put_elem:
  "b \<in> set (kv_put kvs k v) \<Longrightarrow> b \<in> set kvs \<or> b = \<lparr>kv_key = snprintf_s 256 k, kv_value = Some v\<rparr>
     \<or> (\<exists>a \<in> set kvs. b = a\<lparr>kv_value := Some v\<rparr>)"
  by (induction kvs) (auto split: if_splits simp del: kv_set.simps)

lemma kv_put_all_ok: "\<forall>a \<in> set kvs. kv_ok a \<Longrightarrow> key_ok k \<Longrightarrow> val_ok v \<Longrightarrow> b \<in> set (kv_put kvs k v) \<Longrightarrow> kv_ok b"
  using kv_put_elem kv_ok_upd kv_ok_new by metis

lemma kv_put_ok: "kvs_ok kvs \<Longrightarrow> key_ok k \<Longrightarrow> val_ok v \<Longrightarrow> kvs_ok (kv_put kvs k v)"
  using kv_put_all_ok[of kvs k v] by (auto simp: kvs_ok_def simp del: kv_put_simps kv_set.simps)

interpretation kv: kv_store kv_lookup kv_put kvs_ok key_ok val_ok
  by unfold_locales (auto simp: kv_put_same kv_put_other kv_put_ok)

text \<open>A value that is found is proper, and the list grows by at most one entry.\<close>

lemma kv_lookup_val_ok: "\<forall>a \<in> set kvs. kv_ok a \<Longrightarrow> kv_lookup kvs k = Some v \<Longrightarrow> val_ok v"
  by (induction kvs) (auto simp: kv_ok_def split: if_splits)

lemma kv_put_length: "length (kv_put kvs k v) \<le> Suc (length kvs)"
  by (induction kvs) (auto split: prod.split)

lemma env_text_put:
  "key_ok k \<Longrightarrow> length (env_text (kv_put kvs k v)) \<le> length (env_text kvs) + length k + length v + 2"
  by (induction kvs) (auto simp: kv_text_def snprintf_key split: prod.split)

section \<open>Properties\<close>

text \<open>what \<open>env_serialize_data\<close> writes, \<open>env_parse_kv\<close> reads back: for a non-empty list of
  entries with proper keys and values (no NUL, no \<open>=\<close> in a key, neither empty, at most 255
  and 4095 characters) whose text fits into the data, serializing succeeds, the text is at
  the start of the zeroed data and the bytes behind the data are kept, and parsing gives
  exactly the list, in order.
\<close>

theorem env_serialize_parse:
  assumes "kvs_ok kvs" and "length (env_text kvs) \<le> sz" and "sz \<le> length mem"
    and "length kvs \<le> Suc nodes"
  shows "\<exists>mem'. env_serialize_loop (zeros sz @ drop sz mem) 0 kvs = Some mem'
    \<and> take sz mem' = env_text kvs @ zeros (sz - length (env_text kvs)) \<and> drop sz mem' = drop sz mem
    \<and> env_parse_kv nodes mem' sz [h] = Some kvs"
proof -
  let ?t = "env_text kvs" and ?m = "env_text kvs @ zeros (sz - length (env_text kvs)) @ drop sz mem"
  have "env_serialize_loop (zeros sz @ drop sz mem) 0 kvs = Some ?m"
    using assms by (intro env_serialize_zeros) (auto simp: kvs_ok_def)
  moreover have "env_end (sz - length ?t) (zeros (sz - length ?t) @ drop sz mem)"
    by (cases "sz - length ?t") (auto simp: env_end_def zeros_def)
  then have "env_parse_kv nodes ?m sz [h] = Some kvs"
    using assms by (intro env_parse_text) auto
  moreover have "take sz ?m = ?t @ zeros (sz - length ?t) \<and> drop sz ?m = drop sz mem"
    using assms(2) by simp
  ultimately show ?thesis by blast
qed

theorem env_serialize_parse_witness:
  "\<exists>mem'. env_serialize_loop (zeros 60 @ drop 60 (zeros 64)) 0 [\<lparr>kv_key = ''a'', kv_value = Some ''1''\<rparr>] = Some mem'
    \<and> env_parse_kv 9 mem' 60 [empty_kv] = Some [\<lparr>kv_key = ''a'', kv_value = Some ''1''\<rparr>]"
  using env_serialize_parse[of "[\<lparr>kv_key = ''a'', kv_value = Some ''1''\<rparr>]" 60 "zeros 64" 9 empty_kv]
  by (auto simp: kvs_ok_def kv_ok_def key_ok_def val_ok_def kv_text_def)

text \<open>an entry with an empty value ends the parsing: the variables behind it are lost, and it
  gets no value itself, so that the next serialization prints a \<open>NULL\<close> value.
\<close>

theorem env_empty_value_truncates:
  assumes "kvs_ok kvs" and "key_ok k" and "length kvs \<le> nodes"
    and "length (env_text kvs @ k @ ''='' @ [NUL]) \<le> sz"
  shows "env_parse_kv nodes (env_text kvs @ k @ ''='' @ [NUL] @ r) sz [h] = Some (kvs @ [\<lparr>kv_key = k, kv_value = None\<rparr>])
    \<and> env_serialize_loop data 0 (kvs @ [\<lparr>kv_key = k, kv_value = None\<rparr>]) = None"
proof (intro conjI)
  let ?a = "\<lparr>kv_key = k, kv_value = None\<rparr>" and ?r = "k @ CHR ''='' # [] @ NUL # r"
  let ?left = "sz - length (env_text kvs)"
  have k: "k \<noteq> []" "hd k \<noteq> NUL" using assms(2) by (auto simp: key_ok_def dest: hd_in_set)
  obtain n where n: "Suc nodes - length kvs = Suc n" using assms(3) by (cases "Suc nodes - length kvs") auto
  have left: "0 < ?left" using assms(4) by simp
  have "env_parse_kv nodes (env_text kvs @ ?r) sz [h] = env_parse_loop (Suc n) ?r ?left True True kvs []"
    using assms unfolding n[symmetric] by (intro env_parse_prefix) auto
  also have "\<dots> = env_parse_loop n ?r ?left True False (kvs @ [empty_kv]) []"
    using k left by (intro parse_next_step) auto
  also have "\<dots> = env_parse_loop n ([] @ NUL # r) (?left - Suc (length k)) False False (kvs @ [empty_kv\<lparr>kv_key := k\<rparr>]) []"
    using assms(2) left by (intro parse_key_step) auto
  also have "\<dots> = Some (kvs @ [?a])" by (simp add: parse_end env_end_def empty_kv_def)
  finally show "env_parse_kv nodes (env_text kvs @ k @ ''='' @ [NUL] @ r) sz [h] = Some (kvs @ [?a])" by simp
  have "env_serialize_loop d off (as @ [?a]) = None" for d off as
    by (induction as arbitrary: d off) (auto split: option.split simp: Let_def)
  then show "env_serialize_loop data 0 (kvs @ [?a]) = None" .
qed

theorem env_empty_value_truncates_witness:
  "env_parse_kv 9 (''a=1'' @ [NUL] @ ''b='' @ [NUL] @ ''c=2'' @ [NUL, NUL]) 60 [empty_kv]
    = Some [\<lparr>kv_key = ''a'', kv_value = Some ''1''\<rparr>, \<lparr>kv_key = ''b'', kv_value = None\<rparr>]"
  using env_empty_value_truncates[of "[\<lparr>kv_key = ''a'', kv_value = Some ''1''\<rparr>]" "''b''" 9 60 "''c=2'' @ [NUL, NUL]" empty_kv]
  by (simp add: kvs_ok_def kv_ok_def key_ok_def val_ok_def kv_text_def)

text \<open>parsing never leaves the image and always ends when the image's last byte is NUL,
  whatever else is in it, and then no key it makes is longer than 255 characters and no
  value longer than 4095.
\<close>

theorem env_parse_total_bounded:
  assumes "sz \<le> length mem" and "mem \<noteq> [] \<Longrightarrow> last mem = NUL" and "kv_bounded h"
  shows "\<exists>kvs. env_parse_kv nodes mem sz [h] = Some kvs \<and> kvs \<noteq> [] \<and> (\<forall>a \<in> set kvs. kv_bounded a)"
  using env_parse_loop_bounded[of sz mem "[h]" "[]" nodes True False] assms
  by (auto simp: env_parse_kv_def)

theorem env_parse_total_bounded_witness:
  "\<exists>kvs. env_parse_kv 0 (''junk'' @ [NUL]) 5 [empty_kv] = Some kvs \<and> kvs \<noteq> []"
  using env_parse_total_bounded[of 5 "''junk'' @ [NUL]" empty_kv 0] by (auto simp: kv_bounded_def empty_kv_def)

end
