(* ===== verification/Ubootenv.thy ===== *)
theory Ubootenv
  imports EnvKv Crc Codec Nand BootMessage "HOL-Library.Monad_Syntax"
begin

text \<open>
  \<open>ubootenv/ubootenv.c\<close>: the U-Boot environment, kept in a partition and shared by the
  processes that use the library through the object \<open>/dev/shm/uenvShm\<close>.

  The state has two parts: what the processes share (\<open>usys\<close>: the device, the memory objects,
  the name in \<open>/dev/shm\<close>) and the static variables of one process (\<open>uproc\<close>). The answers of
  the system calls are operations on the state of the environment \<open>dv\<close>, so a call can
  succeed at one time and fail at another. \<^const>\<open>None\<close> is undefined behaviour, or the
  abort of an \<open>assert\<close>.

  \<open>gs_env_data\<close> points into the object \<open>gs_env_shm_info\<close> points to, so it is not a variable
  of the model. The mutex \<open>gs_kv_lock\<close> orders the threads of one process; each operation
  below is one thread's, and the list is changed by nothing else while it runs.
\<close>

section \<open>The state\<close>

record uenv_img_shm_info =
  sh_lock :: bool
  sh_refcnt :: int
  sh_revision :: u32
  sh_img :: string          \<comment> \<open>\<open>imgdata\<close>: the CRC and the data, one partition's size\<close>

text \<open>A pointer to the object: \<open>NULL\<close>, an object, or one that must not be dereferenced
  (\<open>MAP_FAILED\<close>, or a mapping that is gone).\<close>

datatype shm_ptr = ShmNull | ShmBad | ShmObj nat

text \<open>The system calls. Those on \<open>/dev/shm\<close> say whether they succeed.\<close>

record 'd uenv_ops =
  uo_open :: "'d \<Rightarrow> string \<Rightarrow> bool \<times> 'd"
  uo_read :: "'d \<Rightarrow> string \<Rightarrow> nat \<Rightarrow> string option \<times> 'd"   \<comment> \<open>the bytes read, or -1\<close>
  uo_write :: "'d \<Rightarrow> string \<Rightarrow> string \<Rightarrow> int \<times> 'd"
  uo_info :: "'d \<Rightarrow> string \<Rightarrow> mtd_info option \<times> 'd"
  uo_erase :: "'d \<Rightarrow> string \<Rightarrow> u32 \<Rightarrow> int \<times> 'd"
  uo_fdopen :: "'d \<Rightarrow> bool \<times> 'd"
  uo_malloc :: "'d \<Rightarrow> bool \<times> 'd"
  uo_nodes :: "'d \<Rightarrow> nat"                  \<comment> \<open>list nodes \<open>malloc\<close> has memory for\<close>
  uo_stat :: "'d \<Rightarrow> string \<Rightarrow> bool"
  uo_proc_mtd :: "'d \<Rightarrow> proc_file"
  uo_shm_access :: "'d \<Rightarrow> bool"
  uo_shm_create :: "'d \<Rightarrow> bool \<times> 'd"
  uo_shm_open :: "'d \<Rightarrow> bool \<times> 'd"
  uo_truncate :: "'d \<Rightarrow> bool \<times> 'd"
  uo_mmap :: "'d \<Rightarrow> bool \<times> 'd"
  uo_munmap :: "'d \<Rightarrow> bool \<times> 'd"
  uo_unlink :: "'d \<Rightarrow> bool \<times> 'd"

record 'd usys =
  dv :: 'd
  objs :: "uenv_img_shm_info list"         \<comment> \<open>the memory objects, by their address\<close>
  shm_name :: "nat option"                 \<comment> \<open>the object \<open>/dev/shm/uenvShm\<close> names\<close>

record uproc =
  gs_partition_name :: string
  gs_env_partition_size :: u32
  gs_env_erase_size :: u32
  gs_env_data_size :: u32
  gs_init_done :: bool
  gs_kv :: "env_kv list"
  gs_env_shm_info :: shm_ptr
  gs_current_revision :: u32
  gs_shm_available :: bool
  mtd_part_map :: "(string \<times> int) list"
  mtd_part_count :: int

type_synonym 'd ust = "'d usys \<times> uproc"

text \<open>How the library was built: is \<open>char\<close> signed, what is \<open>sizeof (long)\<close>, is
  \<open>A1_ENVSIZE\<close> defined (and none of the other boards).\<close>

record ucfg =
  cf_char_signed :: bool
  cf_sizeof_long :: u32
  cf_a1 :: bool

text \<open>The static variables of a process that starts.\<close>

definition fresh_proc :: uproc where
  "fresh_proc = \<lparr>gs_partition_name = [], gs_env_partition_size = 0, gs_env_erase_size = 0,
     gs_env_data_size = 0, gs_init_done = False, gs_kv = [empty_kv], gs_env_shm_info = ShmNull,
     gs_current_revision = 0, gs_shm_available = True, mtd_part_map = [], mtd_part_count = -1\<rparr>"

definition MAX_UBOOT_RWRETRY :: nat where "MAX_UBOOT_RWRETRY = 5"

definition get_obj :: "'d ust \<Rightarrow> uenv_img_shm_info option" where
  "get_obj st = (case gs_env_shm_info (snd st) of
     ShmObj i \<Rightarrow> if i < length (objs (fst st)) then Some (objs (fst st) ! i) else None | _ \<Rightarrow> None)"

definition put_obj :: "uenv_img_shm_info \<Rightarrow> 'd ust \<Rightarrow> 'd ust" where
  "put_obj ob st = (case gs_env_shm_info (snd st) of
     ShmObj i \<Rightarrow> ((fst st)\<lparr>objs := (objs (fst st))[i := ob]\<rparr>, snd st) | _ \<Rightarrow> st)"

definition with_dv :: "'d \<Rightarrow> 'd ust \<Rightarrow> 'd ust" where
  "with_dv d st = ((fst st)\<lparr>dv := d\<rparr>, snd st)"

section \<open>The lock\<close>

text \<open>
  The loop of \<open>envimg_buffer_lock\<close>; \<open>seen i\<close> is what the \<open>i\<close>-th compare-and-swap returns,
  that is whether another process holds the lock then. The result is the number of the last
  one, which took the lock exactly if it returned 0.
\<close>

function lock_loop :: "(nat \<Rightarrow> bool) \<Rightarrow> nat \<Rightarrow> int \<Rightarrow> nat" where
  "lock_loop seen i max_retry_cnt =
     (if seen i \<and> max_retry_cnt > 0 then lock_loop seen (i + 1) (max_retry_cnt - 1) else i)"
  by pat_completeness auto
termination by (relation "measure (\<lambda>(s, i, n). nat n)") auto

declare lock_loop.simps [simp del]

text \<open>While one operation runs no other process changes the object, so the loop always sees
  the same lock; what happens when others run in between is the subject of
  \<open>lock_loop\<close>'s property.\<close>

definition envimg_buffer_lock :: "'d ust \<Rightarrow> 'd ust option" where
  "envimg_buffer_lock st = do {
     ob \<leftarrow> get_obj st;
     let seen = (\<lambda>_. sh_lock ob);
     let i = lock_loop seen 0 1000;
     Some (if seen i then st else put_obj (ob\<lparr>sh_lock := True\<rparr>) st) }"

definition envimg_buffer_unlock :: "'d ust \<Rightarrow> 'd ust option" where
  "envimg_buffer_unlock st = do {
     ob \<leftarrow> get_obj st;
     if sh_lock ob then Some (put_obj (ob\<lparr>sh_lock := False\<rparr>) st) else None }"

section \<open>The shared object\<close>

definition resize_img :: "nat \<Rightarrow> string \<Rightarrow> string" where
  "resize_img n img = take n img @ zeros (n - length img)"

definition zero_obj :: "nat \<Rightarrow> uenv_img_shm_info" where
  "zero_obj n = \<lparr>sh_lock = False, sh_refcnt = 0, sh_revision = 0, sh_img = zeros n\<rparr>"

text \<open>The \<open>open\<close> calls: with \<open>O_CREAT\<close>, then without; a new file is empty.\<close>

definition shm_open :: "'d uenv_ops \<Rightarrow> 'd usys \<Rightarrow> nat option \<times> 'd usys" where
  "shm_open ops s =
     (let (ok, d) = uo_shm_create ops (dv s); s = s\<lparr>dv := d\<rparr> in
      if ok then
        (case shm_name s of
           Some i \<Rightarrow> (Some i, s)
         | None \<Rightarrow> (Some (length (objs s)), s\<lparr>objs := objs s @ [zero_obj 0], shm_name := Some (length (objs s))\<rparr>))
      else
        let (ok, d) = uo_shm_open ops (dv s); s = s\<lparr>dv := d\<rparr> in
        if ok then (shm_name s, s) else (None, s))"

text \<open>The result says whether the pointer returned is not \<open>NULL\<close>.\<close>

definition acquire_envimg_buffer :: "'d uenv_ops \<Rightarrow> 'd ust \<Rightarrow> bool \<times> 'd ust" where
  "acquire_envimg_buffer ops st =
     (let (s, p) = st; n = unat (gs_env_partition_size p) in
      if gs_env_shm_info p \<noteq> ShmNull then (True, st)
      else
        let p = p\<lparr>gs_shm_available := uo_shm_access ops (dv s)\<rparr> in
        if \<not> gs_shm_available p then
          (True, s\<lparr>objs := objs s @ [zero_obj n]\<rparr>, p\<lparr>gs_env_shm_info := ShmObj (length (objs s))\<rparr>)
        else case shm_open ops s of
          (None, s) \<Rightarrow> (False, s, p)
        | (Some fd, s) \<Rightarrow>
            let (ok, d) = uo_truncate ops (dv s); s = s\<lparr>dv := d\<rparr> in
            if \<not> ok then (False, s, p)
            else
              let s = s\<lparr>objs := (objs s)[fd := (objs s ! fd)\<lparr>sh_img := resize_img n (sh_img (objs s ! fd))\<rparr>]\<rparr>;
                  (ok, d) = uo_mmap ops (dv s); s = s\<lparr>dv := d\<rparr> in
              if \<not> ok then (False, s, p\<lparr>gs_env_shm_info := ShmBad\<rparr>)
              else (True, s, p\<lparr>gs_env_shm_info := ShmObj fd\<rparr>))"

definition release_envimg_buffer :: "'d uenv_ops \<Rightarrow> 'd ust \<Rightarrow> 'd ust option" where
  "release_envimg_buffer ops st =
     (if gs_env_shm_info (snd st) = ShmNull then Some st
      else if \<not> gs_shm_available (snd st) then
        (case gs_env_shm_info (snd st) of
           ShmObj _ \<Rightarrow> Some (fst st, (snd st)\<lparr>gs_env_shm_info := ShmNull\<rparr>) | _ \<Rightarrow> None)
      else do {
        st \<leftarrow> envimg_buffer_lock st;
        ob \<leftarrow> get_obj st;
        let st = put_obj (ob\<lparr>sh_refcnt := sh_refcnt ob - 1\<rparr>) st;
        let unlink_finally = (sh_refcnt ob - 1 \<le> 0);
        st \<leftarrow> envimg_buffer_unlock st;
        let (ok, d) = uo_munmap ops (dv (fst st));
        let (s, p) = with_dv d st;
        if \<not> ok then Some (s, p)
        else if unlink_finally then
          let (ok, d) = uo_unlink ops (dv s); s = s\<lparr>dv := d\<rparr> in
          if ok \<and> shm_name s \<noteq> None then Some (s\<lparr>shm_name := None\<rparr>, p\<lparr>gs_env_shm_info := ShmNull\<rparr>)
          else Some (s, p\<lparr>gs_env_shm_info := ShmBad\<rparr>)
        else Some (s, p\<lparr>gs_env_shm_info := ShmNull\<rparr>) })"

section \<open>The image\<close>

text \<open>The memory from \<open>gs_env_data.data\<close> to the end of the image, and the CRC before it.\<close>

definition img_data :: "string \<Rightarrow> string" where "img_data img = drop 4 img"

definition img_crc :: "string \<Rightarrow> u32" where "img_crc img = of_le_bytes32 (map byte_of (take 4 img))"

definition img_make :: "u32 \<Rightarrow> string \<Rightarrow> string" where
  "img_make crc data = map char_of_byte (le_bytes32 crc) @ data"

text \<open>\<open>crc32 (gs_env_data.data, gs_env_data_size)\<close>.\<close>

definition data_crc :: "ucfg \<Rightarrow> uproc \<Rightarrow> string \<Rightarrow> u32 option" where
  "data_crc cfg p img =
     (if unat (gs_env_data_size p) \<le> length (img_data img)
      then Some (crc32 (cf_char_signed cfg) (take (unat (gs_env_data_size p)) (img_data img))) else None)"

definition parse_img :: "'d uenv_ops \<Rightarrow> 'd ust \<Rightarrow> 'd ust option" where
  "parse_img ops st = do {
     ob \<leftarrow> get_obj st;
     kvs \<leftarrow> env_parse_kv (uo_nodes ops (dv (fst st))) (img_data (sh_img ob))
             (unat (gs_env_data_size (snd st))) (gs_kv (snd st));
     Some (fst st, (snd st)\<lparr>gs_kv := kvs\<rparr>) }"

definition env_serialize_data :: "'d ust \<Rightarrow> 'd ust option" where
  "env_serialize_data st = do {
     ob \<leftarrow> get_obj st;
     let sz = unat (gs_env_data_size (snd st));
     let mem = img_data (sh_img ob);
     mem' \<leftarrow> (if sz \<le> length mem then env_serialize_loop (zeros sz @ drop sz mem) 0 (gs_kv (snd st)) else None);
     let rev = gs_current_revision (snd st) + 1;
     let (s, p) = put_obj (ob\<lparr>sh_img := take 4 (sh_img ob) @ mem', sh_revision := rev\<rparr>) st;
     Some (s, p\<lparr>gs_current_revision := rev\<rparr>) }"

definition check_load_kv :: "'d uenv_ops \<Rightarrow> 'd ust \<Rightarrow> 'd ust option" where
  "check_load_kv ops st = do {
     ob \<leftarrow> get_obj st;
     if gs_current_revision (snd st) \<noteq> sh_revision ob then do {
       let st = (fst st, (snd st)\<lparr>gs_kv := env_release_kv (gs_kv (snd st))\<rparr>);
       st \<leftarrow> parse_img ops st;
       Some (fst st, (snd st)\<lparr>gs_current_revision := sh_revision ob\<rparr>) }
     else Some st }"

section \<open>Loading\<close>

text \<open>The part of \<open>load_bootenv\<close> between locking and \<open>failure\<close>: the return code.\<close>

definition load_locked :: "ucfg \<Rightarrow> 'd uenv_ops \<Rightarrow> 'd ust \<Rightarrow> (int \<times> 'd ust) option" where
  "load_locked cfg ops st = do {
     ob \<leftarrow> get_obj st;
     let p = snd st;
     (ret, st) \<leftarrow>
       (if sh_refcnt ob = 0 then
          let (ok, d) = uo_open ops (dv (fst st)) (gs_partition_name p); st = with_dv d st in
          if \<not> ok then Some (-1, st)
          else
            let n = unat (gs_env_partition_size p);
                (bytes, d) = uo_read ops (dv (fst st)) (gs_partition_name p) n;
                st = with_dv d st in
            (case bytes of
               None \<Rightarrow> Some (-2, st)
             | Some bs \<Rightarrow>
                 if length bs > length (sh_img ob) then None
                 else let st = put_obj (ob\<lparr>sh_img := put_at (sh_img ob) 0 bs\<rparr>) st in
                   Some (if int (length bs) \<noteq> sint (gs_env_partition_size p) then -2 else 0, st))
        else Some (0, st));
     if ret \<noteq> 0 then Some (ret, st)
     else do {
       ob \<leftarrow> get_obj st;
       let st = (fst st, (snd st)\<lparr>gs_current_revision := sh_revision ob\<rparr>);
       crc_calc \<leftarrow> data_crc cfg p (sh_img ob);
       if crc_calc \<noteq> img_crc (sh_img ob) then Some (-3, st)
       else do { st \<leftarrow> parse_img ops st; Some (0, st) } } }"

definition load_bootenv :: "ucfg \<Rightarrow> 'd uenv_ops \<Rightarrow> 'd ust \<Rightarrow> (int \<times> 'd ust) option" where
  "load_bootenv cfg ops st =
     (let (addr, st) = acquire_envimg_buffer ops st in
      if \<not> addr then Some (-1, st)
      else do {
        st \<leftarrow> envimg_buffer_lock st;
        (ret, st) \<leftarrow> load_locked cfg ops st;
        ob \<leftarrow> get_obj st;
        let st = put_obj (ob\<lparr>sh_refcnt := (if ret = 0 then sh_refcnt ob + 1 else 0)\<rparr>) st;
        st \<leftarrow> envimg_buffer_unlock st;
        Some (ret, st) })"

section \<open>Values\<close>

definition bootenv_get_value :: "uproc \<Rightarrow> string \<Rightarrow> string option" where
  "bootenv_get_value p key = (if \<not> gs_init_done p then None else kv_lookup (gs_kv p) key)"

definition bootenv_set_value :: "uproc \<Rightarrow> string \<Rightarrow> string \<Rightarrow> bool \<Rightarrow> int \<times> uproc" where
  "bootenv_set_value p key v creat_args_flag =
     (let (ret, kvs) = kv_set (gs_kv p) key v creat_args_flag in (ret, p\<lparr>gs_kv := kvs\<rparr>))"

section \<open>Saving\<close>

text \<open>
  The write of \<open>save_bootenv\<close> on the open device: an error code that ends the function, or
  the result of \<open>write\<close>. The erase block of a NAND device can be larger than the partition.
\<close>

definition save_write :: "'d uenv_ops \<Rightarrow> string \<Rightarrow> u32 \<Rightarrow> string \<Rightarrow> 'd \<Rightarrow> (int + int) \<times> 'd" where
  "save_write ops name psize img d =
     (if strstr name ''mtd'' \<noteq> None then
        case uo_info ops d name of
          (None, d) \<Rightarrow> (Inl (-4), d)
        | (Some info, d) \<Rightarrow>
            if mi_erasesize info > psize then
              let (ok, d) = uo_malloc ops d in
              if \<not> ok then (Inl (-5), d)
              else case uo_read ops d name (unat (mi_erasesize info)) of
                (None, d) \<Rightarrow> (Inl (-6), d)
              | (Some bs, d) \<Rightarrow>
                  if int (length bs) \<noteq> sint (mi_erasesize info) then (Inl (-6), d)
                  else
                    let data = put_at bs 0 img; (err, d) = uo_erase ops d name (mi_erasesize info) in
                    if err < 0 then (Inl (-2), d)
                    else let (err, d) = uo_write ops d name data in (Inr err, d)
            else
              let (err, d) = uo_erase ops d name psize in
              if err < 0 then (Inl (-2), d)
              else let (err, d) = uo_write ops d name img in (Inr err, d)
      else let (err, d) = uo_write ops d name img in (Inr err, d))"

definition save_bootenv :: "ucfg \<Rightarrow> 'd uenv_ops \<Rightarrow> 'd ust \<Rightarrow> (int \<times> 'd ust) option" where
  "save_bootenv cfg ops st = do {
     st \<leftarrow> env_serialize_data st;
     ob \<leftarrow> get_obj st;
     crc \<leftarrow> data_crc cfg (snd st) (sh_img ob);
     let img = img_make crc (img_data (sh_img ob));
     let st = put_obj (ob\<lparr>sh_img := img\<rparr>) st;
     let p = snd st;
     let (ok, d) = uo_open ops (dv (fst st)) (gs_partition_name p);
     let st = with_dv d st;
     if \<not> ok then Some (-1, st)
     else
       let (r, d) = save_write ops (gs_partition_name p) (gs_env_partition_size p) img (dv (fst st));
           st = with_dv d st in
       case r of
         Inl e \<Rightarrow> Some (e, st)
       | Inr err \<Rightarrow>
           let (ok, d) = uo_fdopen ops (dv (fst st)); st = with_dv d st in
           if \<not> ok then Some (-3, st) else Some (if err < 0 then -3 else 0, st) }"

section \<open>The MTD table\<close>

text \<open>\<open>sscanf (pmtdbufp, "mtd%d: %x %x %15s", ..)\<close> with all four conversions done.\<close>

definition mtd_sscanf15 :: "string \<Rightarrow> (int \<times> string) option" where
  "mtd_sscanf15 s = do {
     s \<leftarrow> scan_lit ''mtd'' s;
     (mtdnum, s) \<leftarrow> scan_dec s;
     s \<leftarrow> scan_lit '':'' s;
     (_, s) \<leftarrow> scan_hex (skip_ws s);
     (_, s) \<leftarrow> scan_hex (skip_ws s);
     (mtdname, s) \<leftarrow> scan_word 15 s;
     Some (mtdnum, mtdname) }"

definition MAX_MTD_PARTITIONS :: int where "MAX_MTD_PARTITIONS = 20"

function find_mtd_loop :: "(string \<times> int) list \<Rightarrow> int \<Rightarrow> string \<Rightarrow> (string \<times> int) list \<times> int" where
  "find_mtd_loop parts count buf =
     (if buf = [] then (parts, count)
      else case mtd_sscanf15 (cstr buf) of
        Some (mtdnum, mtdname) \<Rightarrow>
          if mtdname ! 0 = CHR 0x22 \<and> count < MAX_MTD_PARTITIONS
          then find_mtd_loop (parts @ [(takeWhile (\<lambda>c. c \<noteq> CHR 0x22) (tl mtdname), mtdnum)]) (count + 1) (eat_line buf)
          else find_mtd_loop parts count (eat_line buf)
      | None \<Rightarrow> find_mtd_loop parts count (eat_line buf))"
  by pat_completeness auto
termination
  by (relation "measure (\<lambda>(parts, count, buf). length buf)") (auto simp: length_eat_line)

declare find_mtd_loop.simps [simp del]

definition find_mtd_partitions :: "proc_file \<Rightarrow> (string \<times> int) list \<Rightarrow> int \<Rightarrow> (string \<times> int) list \<times> int" where
  "find_mtd_partitions f parts count =
     (case f of Content txt \<Rightarrow> find_mtd_loop parts count (take 1023 txt) | _ \<Rightarrow> (parts, count))"

definition mtd_name_to_number :: "'d uenv_ops \<Rightarrow> string \<Rightarrow> 'd ust \<Rightarrow> int \<times> 'd ust" where
  "mtd_name_to_number ops name st =
     (let (s, p) = st;
          p = (if mtd_part_count p < 0
               then let (parts, count) = find_mtd_partitions (uo_proc_mtd ops (dv s)) (mtd_part_map p) 0
                    in p\<lparr>mtd_part_map := parts, mtd_part_count := count\<rparr>
               else p)
      in (case find (\<lambda>e. fst e = name) (mtd_part_map p) of None \<Rightarrow> -1 | Some e \<Rightarrow> snd e, (s, p)))"

section \<open>The interface\<close>

text \<open>The device is an MTD partition: its sizes come from the driver.\<close>

definition init_mtd :: "ucfg \<Rightarrow> 'd uenv_ops \<Rightarrow> string \<Rightarrow> 'd ust \<Rightarrow> int \<times> 'd ust" where
  "init_mtd cfg ops name st =
     (let (s, p) = st; p = p\<lparr>gs_partition_name := name\<rparr>;
          (ok, d) = uo_open ops (dv s) name; s = s\<lparr>dv := d\<rparr> in
      if \<not> ok then (-2, s, p)
      else case uo_info ops (dv s) name of
        (None, d) \<Rightarrow> (-3, s\<lparr>dv := d\<rparr>, p)
      | (Some info, d) \<Rightarrow>
          (0, s\<lparr>dv := d\<rparr>, p\<lparr>gs_env_erase_size := mi_erasesize info, gs_env_partition_size := mi_size info,
             gs_env_data_size := mi_size info - cf_sizeof_long cfg\<rparr>))"

text \<open>The device is a block device of a fixed size.\<close>

definition init_fixed :: "string \<Rightarrow> u32 \<Rightarrow> 'd ust \<Rightarrow> int \<times> 'd ust" where
  "init_fixed name psize st =
     (0, fst st, (snd st)\<lparr>gs_partition_name := name, gs_env_partition_size := psize, gs_env_data_size := psize - 4\<rparr>)"

definition init_device :: "ucfg \<Rightarrow> 'd uenv_ops \<Rightarrow> 'd ust \<Rightarrow> int \<times> 'd ust" where
  "init_device cfg ops st =
     (let (mtd_id, st) = mtd_name_to_number ops ''ubootenv'' st; stat = uo_stat ops (dv (fst st)) in
      if mtd_id \<ge> 0 then init_mtd cfg ops (''/dev/mtd'' @ pr_int mtd_id) st
      else if stat ''/dev/nand_env'' then init_fixed ''/dev/nand_env'' (if cf_a1 cfg then 0x2000 else 0x10000) st
      else if stat ''/dev/env'' then init_fixed ''/dev/env'' 0x10000 st
      else if stat ''/dev/block/env'' then init_fixed ''/dev/block/env'' 0x10000 st
      else if stat ''/dev/block/ubootenv'' then init_mtd cfg ops ''/dev/block/ubootenv'' st
      else (0, st))"

text \<open>The retries of \<open>bootenv_init\<close>: \<open>n\<close> attempts are left; the result has the number of
  attempts not used.\<close>

fun init_retry :: "ucfg \<Rightarrow> 'd uenv_ops \<Rightarrow> nat \<Rightarrow> int \<Rightarrow> 'd ust \<Rightarrow> (nat \<times> 'd ust) option" where
  "init_retry cfg ops 0 ret st = Some (0, st)"
| "init_retry cfg ops (Suc n) ret st =
     (if ret \<ge> 0 then Some (Suc n, st)
      else do {
        (ret, st) \<leftarrow> load_bootenv cfg ops st;
        st \<leftarrow> (if ret < -2 then release_envimg_buffer ops st else Some st);
        init_retry cfg ops n ret st })"

definition bootenv_init :: "ucfg \<Rightarrow> 'd uenv_ops \<Rightarrow> 'd ust \<Rightarrow> (int \<times> 'd ust) option" where
  "bootenv_init cfg ops st =
     (if gs_init_done (snd st) then Some (0, st)
      else let (ret, st) = init_device cfg ops st in
        if ret < 0 then Some (ret, st)
        else do {
          (unused, st) \<leftarrow> init_retry cfg ops MAX_UBOOT_RWRETRY (-1) st;
          if unused = 0 then Some (-2, st)
          else Some (0, fst st, (snd st)\<lparr>gs_init_done := True\<rparr>) })"

fun save_retry :: "ucfg \<Rightarrow> 'd uenv_ops \<Rightarrow> nat \<Rightarrow> int \<Rightarrow> 'd ust \<Rightarrow> (int \<times> 'd ust) option" where
  "save_retry cfg ops 0 ret st = Some (ret, st)"
| "save_retry cfg ops (Suc n) ret st =
     (if ret \<ge> 0 then Some (ret, st)
      else do { (ret, st) \<leftarrow> save_bootenv cfg ops st; save_retry cfg ops n ret st })"

definition bootenv_update :: "ucfg \<Rightarrow> 'd uenv_ops \<Rightarrow> string \<Rightarrow> string \<Rightarrow> 'd ust \<Rightarrow> (int \<times> 'd ust) option" where
  "bootenv_update cfg ops name v st =
     (if \<not> gs_init_done (snd st) then Some (-1, st)
      else do {
        st \<leftarrow> envimg_buffer_lock st;
        st \<leftarrow> check_load_kv ops st;
        let variable_value = (case bootenv_get_value (snd st) name of None \<Rightarrow> [] | Some x \<Rightarrow> x);
        if v = variable_value then do { st \<leftarrow> envimg_buffer_unlock st; Some (0, st) }
        else do {
          let st = (fst st, snd (bootenv_set_value (snd st) name v True));
          (ret, st) \<leftarrow> save_retry cfg ops MAX_UBOOT_RWRETRY (-1) st;
          st \<leftarrow> envimg_buffer_unlock st;
          Some (ret, st) } })"

definition bootenv_get :: "'d uenv_ops \<Rightarrow> string \<Rightarrow> 'd ust \<Rightarrow> (string option \<times> 'd ust) option" where
  "bootenv_get ops key st =
     (if \<not> gs_init_done (snd st) then Some (None, st)
      else do {
        st \<leftarrow> envimg_buffer_lock st;
        st \<leftarrow> check_load_kv ops st;
        let v = bootenv_get_value (snd st) key;
        st \<leftarrow> envimg_buffer_unlock st;
        Some (v, st) })"

text \<open>The destructor of the library. \<open>gs_init_done\<close> stays.\<close>

definition uenv_deinit :: "'d uenv_ops \<Rightarrow> 'd ust \<Rightarrow> 'd ust option" where
  "uenv_deinit ops st =
     (if \<not> gs_init_done (snd st) then Some st
      else do {
        st \<leftarrow> release_envimg_buffer ops st;
        Some (fst st, (snd st)\<lparr>gs_kv := env_release_kv (gs_kv (snd st))\<rparr>) })"

section \<open>uenv_test\<close>

text \<open>What \<open>uenv_test\<close> prints: its usage, the list (\<open>bootenv_print\<close>), one variable, nothing.\<close>

datatype uenv_out = UsageOut | DumpOut "(string \<times> string) list" | GetOut string string | NoOut

definition bootenv_print :: "uproc \<Rightarrow> (string \<times> string) list option" where
  "bootenv_print p = (if \<exists>a \<in> set (gs_kv p). kv_value a = None then None
     else Some (map (\<lambda>a. (kv_key a, the (kv_value a))) (gs_kv p)))"

text \<open>\<open>main\<close>; \<open>argv\<close> without the program's name. The exit code and the output.\<close>

definition uenv_main :: "ucfg \<Rightarrow> 'd uenv_ops \<Rightarrow> string list \<Rightarrow> 'd ust \<Rightarrow> (int \<times> uenv_out \<times> 'd ust) option" where
  "uenv_main cfg ops argv st =
     (if length argv > 3 \<or> argv = [] then Some (1, UsageOut, st)
      else do {
        (_, st) \<leftarrow> bootenv_init cfg ops st;
        if argv ! 0 = ''dump'' then do { l \<leftarrow> bootenv_print (snd st); Some (0, DumpOut l, st) }
        else if argv ! 0 = ''get'' \<and> length argv > 1 then do {
          (v, st) \<leftarrow> bootenv_get ops (argv ! 1) st;
          v \<leftarrow> v;
          Some (0, GetOut (argv ! 1) v, st) }
        else if argv ! 0 = ''set'' \<and> length argv > 2 then do {
          (_, st) \<leftarrow> bootenv_update cfg ops (argv ! 1) (argv ! 2) st;
          Some (0, NoOut, st) }
        else Some (1, UsageOut, st) })"

end
