(* ===== verification/EnvShare.thy ===== *)
theory EnvShare
  imports Ubootenv
begin

text \<open>
  What the processes that share the U-Boot environment see. The invariant \<open>shared_ok\<close> says
  that the object in \<open>/dev/shm\<close> holds the text of one list of variables, that the device
  holds the same image, and that a process whose revision is the object's has the list in
  its memory. Every operation keeps it, and a run of operations by any of the processes, in
  any order, behaves like one map from names to values.
\<close>

section \<open>Geometry and the laws of a working system\<close>

text \<open>The device's name, the size of the partition and of the environment's data.\<close>

record uenv_geo =
  ge_name :: string
  ge_size :: u32
  ge_data :: u32

definition geo_ok :: "uenv_geo \<Rightarrow> bool" where
  "geo_ok g \<longleftrightarrow> 4 + unat (ge_data g) \<le> unat (ge_size g) \<and> unat (ge_size g) < 2 ^ 31"

text \<open>A block device that works; \<open>content\<close> is what it holds. A list with one entry per four
  bytes fits into memory.\<close>

definition blk_laws :: "'d uenv_ops \<Rightarrow> uenv_geo \<Rightarrow> ('d \<Rightarrow> string) \<Rightarrow> bool" where
  "blk_laws ops g content \<longleftrightarrow> strstr (ge_name g) ''mtd'' = None
     \<and> (\<forall>d. length (content d) = unat (ge_size g) \<and> unat (ge_size g) \<le> uo_nodes ops d
          \<and> uo_open ops d (ge_name g) = (True, d) \<and> uo_fdopen ops d = (True, d)
          \<and> uo_read ops d (ge_name g) (unat (ge_size g)) = (Some (content d), d))
     \<and> (\<forall>d bs. length bs = unat (ge_size g)
          \<longrightarrow> (\<exists>d'. uo_write ops d (ge_name g) bs = (int (length bs), d') \<and> content d' = bs))"

text \<open>The calls on \<open>/dev/shm\<close> succeed.\<close>

definition shm_laws :: "'d uenv_ops \<Rightarrow> bool" where
  "shm_laws ops \<longleftrightarrow> (\<forall>d. uo_shm_access ops d \<and> uo_shm_create ops d = (True, d)
     \<and> uo_truncate ops d = (True, d) \<and> uo_mmap ops d = (True, d))"

section \<open>The invariant\<close>

definition img_holds :: "ucfg \<Rightarrow> uenv_geo \<Rightarrow> string \<Rightarrow> env_kv list \<Rightarrow> bool" where
  "img_holds cfg g img kvs \<longleftrightarrow> kvs_ok kvs \<and> length img = unat (ge_size g)
     \<and> length (env_text kvs) \<le> unat (ge_data g)
     \<and> take (unat (ge_data g)) (img_data img) = env_text kvs @ zeros (unat (ge_data g) - length (env_text kvs))
     \<and> img_crc img = crc32 (cf_char_signed cfg) (take (unat (ge_data g)) (img_data img))"

text \<open>A process that has the environment open at the memory object \<open>a\<close>.\<close>

definition attached :: "uenv_geo \<Rightarrow> nat \<Rightarrow> uproc \<Rightarrow> bool" where
  "attached g a p \<longleftrightarrow> gs_init_done p \<and> gs_partition_name p = ge_name g \<and> gs_env_partition_size p = ge_size g
     \<and> gs_env_data_size p = ge_data g \<and> gs_env_shm_info p = ShmObj a \<and> gs_kv p \<noteq> []"

definition in_sync :: "uproc \<Rightarrow> u32 \<Rightarrow> env_kv list \<Rightarrow> bool" where
  "in_sync p r kvs \<longleftrightarrow> gs_current_revision p \<le> r \<and> (gs_current_revision p = r \<longrightarrow> gs_kv p = kvs)"

definition shared_ok ::
  "ucfg \<Rightarrow> uenv_geo \<Rightarrow> ('d \<Rightarrow> string) \<Rightarrow> nat \<Rightarrow> nat set \<Rightarrow> 'd usys \<times> (nat \<Rightarrow> uproc) \<Rightarrow> env_kv list \<Rightarrow> bool" where
  "shared_ok cfg g content a I S kvs \<longleftrightarrow> a < length (objs (fst S)) \<and> \<not> sh_lock (objs (fst S) ! a)
     \<and> img_holds cfg g (sh_img (objs (fst S) ! a)) kvs \<and> content (dv (fst S)) = sh_img (objs (fst S) ! a)
     \<and> (\<forall>i \<in> I. attached g a (snd S i) \<and> in_sync (snd S i) (sh_revision (objs (fst S) ! a)) kvs)"

section \<open>Lemmas about the operations\<close>

lemma get_obj_simp [simp]:
  "gs_env_shm_info p = ShmObj a \<Longrightarrow> a < length (objs s) \<Longrightarrow> get_obj (s, p) = Some (objs s ! a)"
  by (simp add: get_obj_def)

lemma put_obj_simp [simp]:
  "gs_env_shm_info p = ShmObj a \<Longrightarrow> put_obj ob (s, p) = (s\<lparr>objs := (objs s)[a := ob]\<rparr>, p)"
  by (simp add: put_obj_def)

lemma with_dv_simp [simp]: "with_dv d (s, p) = (s\<lparr>dv := d\<rparr>, p)"
  by (simp add: with_dv_def)

lemma lock_free: "\<not> seen i \<Longrightarrow> lock_loop seen i n = i"
  by (simp add: lock_loop.simps)

lemma envimg_lock_free:
  "gs_env_shm_info p = ShmObj a \<Longrightarrow> a < length (objs s) \<Longrightarrow> \<not> sh_lock (objs s ! a)
   \<Longrightarrow> envimg_buffer_lock (s, p) = Some (s\<lparr>objs := (objs s)[a := (objs s ! a)\<lparr>sh_lock := True\<rparr>]\<rparr>, p)"
  by (simp add: envimg_buffer_lock_def lock_free Let_def)

lemma envimg_unlock_held:
  "gs_env_shm_info p = ShmObj a \<Longrightarrow> a < length (objs s) \<Longrightarrow> sh_lock (objs s ! a)
   \<Longrightarrow> envimg_buffer_unlock (s, p) = Some (s\<lparr>objs := (objs s)[a := (objs s ! a)\<lparr>sh_lock := False\<rparr>]\<rparr>, p)"
  by (simp add: envimg_buffer_unlock_def)

lemma img_make_crc [simp]: "img_crc (img_make c data) = c"
  by (simp add: img_crc_def img_make_def map_idI)

lemma img_make_data [simp]: "img_data (img_make c data) = data"
  by (simp add: img_data_def img_make_def)

lemma length_img_make [simp]: "length (img_make c data) = 4 + length data"
  by (simp add: img_make_def)

lemma kv_text_length: "kv_ok a \<Longrightarrow> 4 \<le> length (kv_text a)"
  by (erule kv_okE) (auto simp: kv_text_def key_ok_def val_ok_def neq_Nil_conv)

lemma length_kvs_le: "\<forall>a \<in> set kvs. kv_ok a \<Longrightarrow> length kvs \<le> length (env_text kvs)"
  by (induction kvs) (auto dest: kv_text_length)

lemma parse_img_holds:
  assumes "img_holds cfg g img kvs" and "unat (ge_size g) \<le> nodes" and "geo_ok g"
  shows "env_parse_kv nodes (img_data img) (unat (ge_data g)) [h] = Some kvs"
proof -
  let ?n = "unat (ge_data g)" and ?t = "env_text kvs"
  have ok: "kvs_ok kvs" "length ?t \<le> ?n" "take ?n (img_data img) = ?t @ zeros (?n - length ?t)"
    using assms(1) by (auto simp: img_holds_def)
  have "img_data img = ?t @ zeros (?n - length ?t) @ drop ?n (img_data img)"
    using ok(3) by (metis append.assoc append_take_drop_id)
  moreover have "env_end (?n - length ?t) (zeros (?n - length ?t) @ drop ?n (img_data img))"
    by (cases "?n - length ?t") (auto simp: env_end_def zeros_def)
  moreover have "length kvs \<le> Suc nodes"
    using length_kvs_le[of kvs] ok(1,2) assms(2,3) by (simp add: kvs_ok_def geo_ok_def)
  ultimately show ?thesis using env_parse_text[OF ok(1) _ ok(2)] by metis
qed

lemma check_load_holds:
  assumes "attached g a p" and "a < length (objs s)" and "img_holds cfg g (sh_img (objs s ! a)) kvs"
    and "in_sync p (sh_revision (objs s ! a)) kvs" and "unat (ge_size g) \<le> uo_nodes ops (dv s)" and "geo_ok g"
  shows "check_load_kv ops (s, p) = Some (s, p\<lparr>gs_kv := kvs, gs_current_revision := sh_revision (objs s ! a)\<rparr>)"
proof (cases "gs_current_revision p = sh_revision (objs s ! a)")
  case True
  then have "p = p\<lparr>gs_kv := kvs, gs_current_revision := sh_revision (objs s ! a)\<rparr>"
    using assms(4) by (simp add: in_sync_def)
  then show ?thesis using True assms(1,2) by (simp add: check_load_kv_def attached_def)
next
  case False
  then show ?thesis
    using assms(1,2) parse_img_holds[OF assms(3,5,6)]
    by (simp add: check_load_kv_def attached_def parse_img_def env_release_kv_def Let_def)
qed

text \<open>A save on a working device: the new image is in the object and on the device.\<close>

lemma save_bootenv_holds:
  assumes "attached g a p" and "a < length (objs s)" and "length (sh_img (objs s ! a)) = unat (ge_size g)"
    and "kvs_ok (gs_kv p)" and "length (env_text (gs_kv p)) \<le> unat (ge_data g)"
    and "blk_laws ops g content" and "geo_ok g"
  shows "\<exists>d img. save_bootenv cfg ops (s, p) = Some (0,
      s\<lparr>objs := (objs s)[a := (objs s ! a)\<lparr>sh_revision := gs_current_revision p + 1, sh_img := img\<rparr>], dv := d\<rparr>,
      p\<lparr>gs_current_revision := gs_current_revision p + 1\<rparr>)
    \<and> img_holds cfg g img (gs_kv p) \<and> content d = img"
proof -
  let ?ob = "objs s ! a" and ?n = "unat (ge_data g)" and ?kvs = "gs_kv p"
  let ?mem = "img_data (sh_img ?ob)"
  have lm: "?n \<le> length ?mem" "4 + length ?mem = unat (ge_size g)"
    using assms(3,7) by (auto simp: img_data_def geo_ok_def)
  define mem' where "mem' = env_text ?kvs @ zeros (?n - length (env_text ?kvs)) @ drop ?n ?mem"
  have mem': "env_serialize_loop (zeros ?n @ drop ?n ?mem) 0 ?kvs = Some mem'"
    "take ?n mem' = env_text ?kvs @ zeros (?n - length (env_text ?kvs))"
    using assms(4,5) lm(1) by (simp_all add: mem'_def env_serialize_zeros kvs_ok_def)
  have l': "?n \<le> length mem'" "4 + length mem' = unat (ge_size g)"
    using assms(5) lm by (simp_all add: mem'_def)
  let ?img = "img_make (crc32 (cf_char_signed cfg) (take ?n mem')) mem'"
  obtain d where d: "uo_write ops (dv s) (ge_name g) ?img = (int (unat (ge_size g)), d)" "content d = ?img"
    using assms(6) l'(2) unfolding blk_laws_def by (metis length_img_make)
  have "img_holds cfg g ?img ?kvs"
    using assms(4,5) l' mem'(2) by (simp add: img_holds_def)
  moreover have "img_data (take 4 (sh_img ?ob) @ mem') = mem'"
    using lm(2) assms(3) by (simp add: img_data_def min_def)
  ultimately show ?thesis
    using assms(1,2,6) lm mem'(1) d l'
    by (intro exI[of _ d] exI[of _ ?img])
      (simp add: save_bootenv_def env_serialize_data_def attached_def data_crc_def save_write_def blk_laws_def Let_def)
qed

text \<open>What one operation of one process does to the shared part and to the process.\<close>

definition stepped ::
  "ucfg \<Rightarrow> uenv_geo \<Rightarrow> ('d \<Rightarrow> string) \<Rightarrow> nat \<Rightarrow> 'd usys \<Rightarrow> env_kv list \<Rightarrow> 'd usys \<Rightarrow> uproc \<Rightarrow> env_kv list \<Rightarrow> bool" where
  "stepped cfg g content a s kvs s' p' kvs' \<longleftrightarrow>
     objs s' = (objs s)[a := objs s' ! a] \<and> \<not> sh_lock (objs s' ! a)
     \<and> img_holds cfg g (sh_img (objs s' ! a)) kvs' \<and> content (dv s') = sh_img (objs s' ! a)
     \<and> attached g a p' \<and> gs_kv p' = kvs' \<and> gs_current_revision p' = sh_revision (objs s' ! a)
     \<and> (sh_revision (objs s' ! a) = sh_revision (objs s ! a) \<and> kvs' = kvs
        \<or> sh_revision (objs s' ! a) = sh_revision (objs s ! a) + 1)"

lemma locked_list [simp]: "a < length xs \<Longrightarrow> xs[a := (xs ! a)\<lparr>sh_lock := b\<rparr>] ! a = (xs ! a)\<lparr>sh_lock := b\<rparr>"
  by simp

lemma unlocked_same: "\<not> sh_lock ob \<Longrightarrow> ob\<lparr>sh_lock := False\<rparr> = ob"
  by (cases ob) simp

lemma bootenv_get_shared:
  assumes "attached g a p" and "a < length (objs s)" and "\<not> sh_lock (objs s ! a)"
    and "img_holds cfg g (sh_img (objs s ! a)) kvs" and "in_sync p (sh_revision (objs s ! a)) kvs"
    and "blk_laws ops g content" and "geo_ok g" and "content (dv s) = sh_img (objs s ! a)"
  shows "\<exists>s' p'. bootenv_get ops k (s, p) = Some (kv_lookup kvs k, s', p')
    \<and> stepped cfg g content a s kvs s' p' kvs \<and> dv s' = dv s"
proof -
  let ?s = "s\<lparr>objs := (objs s)[a := (objs s ! a)\<lparr>sh_lock := True\<rparr>]\<rparr>"
  let ?p = "p\<lparr>gs_kv := kvs, gs_current_revision := sh_revision (objs s ! a)\<rparr>"
  have nodes: "unat (ge_size g) \<le> uo_nodes ops (dv ?s)" using assms(6) by (simp add: blk_laws_def)
  have ptr: "gs_env_shm_info p = ShmObj a" "gs_init_done p" using assms(1) by (simp_all add: attached_def)
  have "check_load_kv ops (?s, p) = Some (?s, ?p)"
    using check_load_holds[OF assms(1) _ _ _ nodes assms(7), of cfg kvs] assms(2,4,5) by simp
  moreover have "envimg_buffer_unlock (?s, ?p) = Some (s, ?p)"
    using ptr assms(2) envimg_unlock_held[of ?p a ?s] unlocked_same[OF assms(3)] by simp
  ultimately have "bootenv_get ops k (s, p) = Some (kv_lookup kvs k, s, ?p)"
    using ptr assms(2,3) by (simp add: bootenv_get_def envimg_lock_free bootenv_get_value_def)
  moreover have "attached g a ?p" using assms(1,4) by (simp add: attached_def img_holds_def kvs_ok_def)
  ultimately show ?thesis
    using assms by (intro exI[of _ s] exI[of _ ?p]) (simp add: stepped_def)
qed

lemma bootenv_update_shared:
  assumes "attached g a p" and "a < length (objs s)" and "\<not> sh_lock (objs s ! a)"
    and "img_holds cfg g (sh_img (objs s ! a)) kvs" and "in_sync p (sh_revision (objs s ! a)) kvs"
    and "blk_laws ops g content" and "geo_ok g" and "content (dv s) = sh_img (objs s ! a)"
    and "key_ok k" and "val_ok v" and "length (env_text kvs) + length k + length v + 2 \<le> unat (ge_data g)"
  shows "\<exists>s' p' kvs'. bootenv_update cfg ops k v (s, p) = Some (0, s', p')
    \<and> stepped cfg g content a s kvs s' p' kvs' \<and> kv_lookup kvs' = (kv_lookup kvs)(k \<mapsto> v)
    \<and> length (env_text kvs') \<le> length (env_text kvs) + length k + length v + 2"
proof -
  let ?s = "s\<lparr>objs := (objs s)[a := (objs s ! a)\<lparr>sh_lock := True\<rparr>]\<rparr>"
  let ?p = "p\<lparr>gs_kv := kvs, gs_current_revision := sh_revision (objs s ! a)\<rparr>"
  have nodes: "unat (ge_size g) \<le> uo_nodes ops (dv ?s)" using assms(6) by (simp add: blk_laws_def)
  have ptr: "gs_env_shm_info p = ShmObj a" "gs_init_done p" using assms(1) by (simp_all add: attached_def)
  have load: "check_load_kv ops (?s, p) = Some (?s, ?p)"
    using check_load_holds[OF assms(1) _ _ _ nodes assms(7), of cfg kvs] assms(2,4,5) by simp
  have kvs: "kvs_ok kvs" using assms(4) by (simp add: img_holds_def)
  then have att: "attached g a ?p" using assms(1) by (simp add: attached_def kvs_ok_def)
  show ?thesis
  proof (cases "kv_lookup kvs k = Some v")
    case True
    have "envimg_buffer_unlock (?s, ?p) = Some (s, ?p)"
      using ptr assms(2) envimg_unlock_held[of ?p a ?s] unlocked_same[OF assms(3)] by simp
    then have "bootenv_update cfg ops k v (s, p) = Some (0, s, ?p)"
      using True ptr assms(2,3) load by (simp add: bootenv_update_def envimg_lock_free bootenv_get_value_def)
    moreover have "kv_lookup kvs = (kv_lookup kvs)(k \<mapsto> v)" using True by (simp add: fun_upd_idem)
    ultimately show ?thesis
      using assms att by (intro exI[of _ s] exI[of _ ?p] exI[of _ kvs]) (simp add: stepped_def)
  next
    case False
    let ?kvs = "kv_put kvs k v"
    let ?p2 = "?p\<lparr>gs_kv := ?kvs\<rparr>"
    have put: "snd (bootenv_set_value ?p k v True) = ?p2"
      by (simp add: bootenv_set_value_def split: prod.split)
    have kvs': "kvs_ok ?kvs" by (rule kv_put_ok[OF kvs assms(9,10)])
    have len: "length (env_text ?kvs) \<le> length (env_text kvs) + length k + length v + 2"
      by (rule env_text_put[OF assms(9)])
    have "v \<noteq> (case bootenv_get_value ?p k of None \<Rightarrow> [] | Some x \<Rightarrow> x)"
      using False ptr assms(10) by (auto simp: bootenv_get_value_def val_ok_def split: option.split)
    moreover obtain d img where sv: "save_bootenv cfg ops (?s, ?p2) = Some (0,
        ?s\<lparr>objs := (objs ?s)[a := (objs ?s ! a)\<lparr>sh_revision := gs_current_revision ?p2 + 1, sh_img := img\<rparr>], dv := d\<rparr>,
        ?p2\<lparr>gs_current_revision := gs_current_revision ?p2 + 1\<rparr>)"
      and img: "img_holds cfg g img ?kvs" "content d = img"
      using save_bootenv_holds[of g a ?p2 ?s ops content cfg] assms(1,2,4,6,7,11) kvs' len
      by (auto simp: attached_def img_holds_def kvs_ok_def)
    let ?held = "(objs s ! a)\<lparr>sh_lock := True, sh_revision := sh_revision (objs s ! a) + 1, sh_img := img\<rparr>"
    let ?ob = "(objs s ! a)\<lparr>sh_lock := False, sh_revision := sh_revision (objs s ! a) + 1, sh_img := img\<rparr>"
    let ?s' = "s\<lparr>objs := (objs s)[a := ?ob], dv := d\<rparr>"
    let ?p' = "?p2\<lparr>gs_current_revision := sh_revision (objs s ! a) + 1\<rparr>"
    have "save_retry cfg ops MAX_UBOOT_RWRETRY (-1) (?s, ?p2) = Some (0,
        s\<lparr>objs := (objs s)[a := ?held], dv := d\<rparr>, ?p')"
      using sv assms(2) by (simp add: MAX_UBOOT_RWRETRY_def numeral_eq_Suc)
    moreover have "envimg_buffer_unlock (s\<lparr>objs := (objs s)[a := ?held], dv := d\<rparr>, ?p') = Some (?s', ?p')"
      using ptr assms(2) by (cases "objs s ! a"; cases s) (simp add: envimg_unlock_held)
    ultimately have "bootenv_update cfg ops k v (s, p) = Some (0, ?s', ?p')"
      using ptr assms(2,3) load put by (simp add: bootenv_update_def envimg_lock_free Let_def del: kv_set.simps)
    moreover have "stepped cfg g content a s kvs ?s' ?p' ?kvs"
      using assms(1,2) img kvs' by (simp add: stepped_def attached_def kvs_ok_def)
    ultimately show ?thesis
      using len kv.lookup_upd[OF kvs assms(9,10)] by blast
  qed
qed

section \<open>Many processes\<close>

text \<open>
  Operations of the processes, by their numbers, and a run of them; each holds the object's
  lock while it runs. The specification is one map.
\<close>

datatype uenv_op = OpUpdate nat string string | OpGet nat string

datatype uenv_res = ResCode int | ResValue "string option"

fun uenv_exec ::
  "ucfg \<Rightarrow> 'd uenv_ops \<Rightarrow> uenv_op \<Rightarrow> 'd usys \<times> (nat \<Rightarrow> uproc) \<Rightarrow> (uenv_res \<times> 'd usys \<times> (nat \<Rightarrow> uproc)) option" where
  "uenv_exec cfg ops (OpUpdate i k v) (s, P) =
     (case bootenv_update cfg ops k v (s, P i) of
        None \<Rightarrow> None | Some (ret, s', p') \<Rightarrow> Some (ResCode ret, s', P(i := p')))"
| "uenv_exec cfg ops (OpGet i k) (s, P) =
     (case bootenv_get ops k (s, P i) of
        None \<Rightarrow> None | Some (v, s', p') \<Rightarrow> Some (ResValue v, s', P(i := p')))"

fun uenv_run ::
  "ucfg \<Rightarrow> 'd uenv_ops \<Rightarrow> uenv_op list \<Rightarrow> 'd usys \<times> (nat \<Rightarrow> uproc)
   \<Rightarrow> (uenv_res list \<times> 'd usys \<times> (nat \<Rightarrow> uproc)) option" where
  "uenv_run cfg ops [] S = Some ([], S)"
| "uenv_run cfg ops (x # xs) S =
     (case uenv_exec cfg ops x S of
        None \<Rightarrow> None
      | Some (r, S') \<Rightarrow> (case uenv_run cfg ops xs S' of None \<Rightarrow> None | Some (rs, S'') \<Rightarrow> Some (r # rs, S'')))"

fun spec_exec :: "uenv_op \<Rightarrow> (string \<rightharpoonup> string) \<Rightarrow> uenv_res \<times> (string \<rightharpoonup> string)" where
  "spec_exec (OpUpdate i k v) m = (ResCode 0, m(k \<mapsto> v))"
| "spec_exec (OpGet i k) m = (ResValue (m k), m)"

fun spec_run :: "uenv_op list \<Rightarrow> (string \<rightharpoonup> string) \<Rightarrow> uenv_res list \<times> (string \<rightharpoonup> string)" where
  "spec_run [] m = ([], m)"
| "spec_run (x # xs) m = (let (r, m') = spec_exec x m; (rs, m'') = spec_run xs m' in (r # rs, m''))"

fun op_ok :: "nat set \<Rightarrow> uenv_op \<Rightarrow> bool" where
  "op_ok I (OpUpdate i k v) \<longleftrightarrow> i \<in> I \<and> key_ok k \<and> val_ok v"
| "op_ok I (OpGet i k) \<longleftrightarrow> i \<in> I"

text \<open>The room an update needs at most.\<close>

fun op_room :: "uenv_op \<Rightarrow> nat" where
  "op_room (OpUpdate i k v) = length k + length v + 2"
| "op_room (OpGet i k) = 0"

lemma stepped_shared:
  assumes "shared_ok cfg g content a I (s, P) kvs" and "stepped cfg g content a s kvs s' p' kvs'" and "i \<in> I"
    and "unat (sh_revision (objs s ! a)) + 1 < 2 ^ 32"
  shows "shared_ok cfg g content a I (s', P(i := p')) kvs'
    \<and> unat (sh_revision (objs s' ! a)) \<le> unat (sh_revision (objs s ! a)) + 1"
proof -
  let ?r = "sh_revision (objs s ! a)" and ?r' = "sh_revision (objs s' ! a)"
  have inc: "unat (?r + 1) = unat ?r + 1" using assms(4) by (simp add: unat_word_ariths(1))
  have lt: "?r < ?r + 1" using inc by (simp add: word_less_nat_alt)
  have len: "length (objs s') = length (objs s)"
    using assms(2) by (metis stepped_def length_list_update)
  have others: "in_sync (P j) ?r' kvs'" if "j \<in> I" for j
  proof -
    have j: "in_sync (P j) ?r kvs" using assms(1) that by (simp add: shared_ok_def)
    from assms(2) consider "?r' = ?r \<and> kvs' = kvs" | "?r' = ?r + 1" by (auto simp: stepped_def)
    then show ?thesis
    proof cases
      case 1
      then show ?thesis using j by simp
    next
      case 2
      then show ?thesis using j lt by (auto simp: in_sync_def)
    qed
  qed
  have "in_sync p' ?r' kvs'" using assms(2) by (simp add: stepped_def in_sync_def)
  then have "shared_ok cfg g content a I (s', P(i := p')) kvs'"
    using assms(1,2) others len by (simp add: shared_ok_def stepped_def)
  moreover have "unat ?r' \<le> unat ?r + 1" using assms(2) inc by (auto simp: stepped_def)
  ultimately show ?thesis by blast
qed

lemma uenv_exec_refines:
  assumes "shared_ok cfg g content a I (s, P) kvs" and "op_ok I x"
    and "unat (sh_revision (objs s ! a)) + 1 < 2 ^ 32" and "length (env_text kvs) + op_room x \<le> unat (ge_data g)"
    and "blk_laws ops g content" and "geo_ok g"
  shows "\<exists>s' P' kvs'. uenv_exec cfg ops x (s, P) = Some (fst (spec_exec x (kv_lookup kvs)), s', P')
    \<and> shared_ok cfg g content a I (s', P') kvs' \<and> kv_lookup kvs' = snd (spec_exec x (kv_lookup kvs))
    \<and> unat (sh_revision (objs s' ! a)) \<le> unat (sh_revision (objs s ! a)) + 1
    \<and> length (env_text kvs') \<le> length (env_text kvs) + op_room x"
proof (cases x)
  case (OpUpdate i k v)
  then have i: "attached g a (P i)" "in_sync (P i) (sh_revision (objs s ! a)) kvs" "key_ok k" "val_ok v" "i \<in> I"
    and room: "length (env_text kvs) + length k + length v + 2 \<le> unat (ge_data g)"
    using assms(1,2,4) by (auto simp: shared_ok_def)
  obtain s' p' kvs' where "bootenv_update cfg ops k v (s, P i) = Some (0, s', p')"
    and st: "stepped cfg g content a s kvs s' p' kvs'" and "kv_lookup kvs' = (kv_lookup kvs)(k \<mapsto> v)"
    and "length (env_text kvs') \<le> length (env_text kvs) + length k + length v + 2"
    using bootenv_update_shared[where cfg = cfg, OF i(1) _ _ _ i(2) assms(5,6) _ i(3,4) room] assms(1)
    by (auto simp: shared_ok_def)
  then show ?thesis
    using stepped_shared[OF assms(1) st i(5) assms(3)] OpUpdate
    by (intro exI[of _ s'] exI[of _ "P(i := p')"] exI[of _ kvs']) auto
next
  case (OpGet i k)
  then have i: "attached g a (P i)" "in_sync (P i) (sh_revision (objs s ! a)) kvs" "i \<in> I"
    using assms(1,2) by (auto simp: shared_ok_def)
  obtain s' p' where "bootenv_get ops k (s, P i) = Some (kv_lookup kvs k, s', p')"
    and st: "stepped cfg g content a s kvs s' p' kvs"
    using bootenv_get_shared[where cfg = cfg, OF i(1) _ _ _ i(2) assms(5,6)] assms(1) by (force simp: shared_ok_def)
  then show ?thesis
    using stepped_shared[OF assms(1) st i(3) assms(3)] OpGet
    by (intro exI[of _ s'] exI[of _ "P(i := p')"] exI[of _ kvs]) auto
qed

lemma uenv_run_refines:
  "shared_ok cfg g content a I S kvs \<Longrightarrow> \<forall>x \<in> set xs. op_ok I x
   \<Longrightarrow> unat (sh_revision (objs (fst S) ! a)) + length xs < 2 ^ 32
   \<Longrightarrow> length (env_text kvs) + sum_list (map op_room xs) \<le> unat (ge_data g)
   \<Longrightarrow> blk_laws ops g content \<Longrightarrow> geo_ok g
   \<Longrightarrow> \<exists>S' kvs'. uenv_run cfg ops xs S = Some (fst (spec_run xs (kv_lookup kvs)), S')
        \<and> shared_ok cfg g content a I S' kvs' \<and> kv_lookup kvs' = snd (spec_run xs (kv_lookup kvs))"
proof (induction xs arbitrary: S kvs)
  case Nil
  then show ?case by auto
next
  case (Cons x xs)
  obtain s P where S: "S = (s, P)" by (cases S)
  obtain s' P' kvs' where st: "uenv_exec cfg ops x (s, P) = Some (fst (spec_exec x (kv_lookup kvs)), s', P')"
    "shared_ok cfg g content a I (s', P') kvs'" "kv_lookup kvs' = snd (spec_exec x (kv_lookup kvs))"
    "unat (sh_revision (objs s' ! a)) \<le> unat (sh_revision (objs s ! a)) + 1"
    "length (env_text kvs') \<le> length (env_text kvs) + op_room x"
    using uenv_exec_refines[of cfg g content a I s P kvs x ops] Cons.prems S by fastforce
  obtain S'' kvs'' where "uenv_run cfg ops xs (s', P') = Some (fst (spec_run xs (kv_lookup kvs')), S'')"
    "shared_ok cfg g content a I S'' kvs''" "kv_lookup kvs'' = snd (spec_run xs (kv_lookup kvs'))"
    using Cons.IH[of "(s', P')" kvs'] Cons.prems S st(2,4,5) by fastforce
  then show ?case
    using st(1,3) S by (auto simp: split_beta Let_def intro!: exI[of _ S''] exI[of _ kvs''])
qed

section \<open>Opening the environment\<close>

lemma resize_zero [simp]: "resize_img n (zeros 0) = zeros n"
  by (simp add: resize_img_def zeros_def)

text \<open>The first process: the object is made and filled from the device.\<close>

lemma load_first:
  assumes "shm_laws ops" and "blk_laws ops g content" and "geo_ok g" and "img_holds cfg g (content (dv s)) kvs"
    and "shm_name s = None" and "gs_env_shm_info p = ShmNull" and "gs_partition_name p = ge_name g"
    and "gs_env_partition_size p = ge_size g" and "gs_env_data_size p = ge_data g" and "gs_kv p = [h]"
  shows "load_bootenv cfg ops (s, p) = Some (0,
    s\<lparr>shm_name := Some (length (objs s)),
      objs := objs s @ [\<lparr>sh_lock = False, sh_refcnt = 1, sh_revision = 0, sh_img = content (dv s)\<rparr>]\<rparr>,
    p\<lparr>gs_shm_available := True, gs_env_shm_info := ShmObj (length (objs s)), gs_current_revision := 0, gs_kv := kvs\<rparr>)"
proof -
  let ?n = "unat (ge_size g)" and ?a = "length (objs s)"
  let ?o = "\<lambda>l r img. \<lparr>sh_lock = l, sh_refcnt = r, sh_revision = 0, sh_img = img\<rparr>"
  let ?s = "\<lambda>l r img. s\<lparr>shm_name := Some ?a, objs := objs s @ [?o l r img]\<rparr>"
  let ?p = "p\<lparr>gs_shm_available := True, gs_env_shm_info := ShmObj ?a\<rparr>"
  let ?img = "content (dv s)"
  have li: "length ?img = ?n" using assms(2) by (simp add: blk_laws_def)
  have sm: "sint (ge_size g) = int ?n" using assms(3) by (intro sint_small) (simp add: geo_ok_def)
  have acq: "acquire_envimg_buffer ops (s, p) = (True, ?s False 0 (zeros ?n), ?p)"
    using assms(1,5,6,8) by (simp add: acquire_envimg_buffer_def shm_laws_def shm_open_def zero_obj_def Let_def)
  have lock: "envimg_buffer_lock (?s False 0 (zeros ?n), ?p) = Some (?s True 0 (zeros ?n), ?p)"
    by (subst envimg_lock_free[of _ ?a]) simp_all
  have "unat (ge_data g) \<le> length (img_data ?img)" using assms(3) li by (simp add: img_data_def geo_ok_def) linarith
  then have crc: "data_crc cfg q ?img = Some (img_crc ?img)" if "gs_env_data_size q = ge_data g" for q
    using assms(4) that by (simp add: data_crc_def img_holds_def)
  have nodes: "?n \<le> uo_nodes ops (dv s)" using assms(2) by (simp add: blk_laws_def)
  have "load_locked cfg ops (?s True 0 (zeros ?n), ?p)
      = Some (0, ?s True 0 ?img, ?p\<lparr>gs_current_revision := 0, gs_kv := kvs\<rparr>)"
    using assms(2,7-10) li sm crc parse_img_holds[OF assms(4) nodes assms(3)]
    by (simp add: load_locked_def blk_laws_def parse_img_def put_at_def zeros_def Let_def)
  moreover have "envimg_buffer_unlock (?s True 1 ?img, ?p\<lparr>gs_current_revision := 0, gs_kv := kvs\<rparr>)
      = Some (?s False 1 ?img, ?p\<lparr>gs_current_revision := 0, gs_kv := kvs\<rparr>)"
    by (subst envimg_unlock_held[of _ ?a]) simp_all
  ultimately show ?thesis
    by (simp add: load_bootenv_def acq lock)
qed

text \<open>A further process: the object's image is used as it is, whatever the device holds.\<close>

lemma resize_same: "length img = n \<Longrightarrow> resize_img n img = img"
  by (simp add: resize_img_def zeros_def)

lemma load_join:
  assumes "shm_laws ops" and "unat (ge_size g) \<le> uo_nodes ops (dv s)" and "geo_ok g" and "shm_name s = Some a"
    and "a < length (objs s)" and "objs s ! a = \<lparr>sh_lock = False, sh_refcnt = r, sh_revision = rv, sh_img = img\<rparr>"
    and "r \<noteq> 0" and "img_holds cfg g img kvs"
    and "gs_env_shm_info p = ShmNull" and "gs_partition_name p = ge_name g"
    and "gs_env_partition_size p = ge_size g" and "gs_env_data_size p = ge_data g" and "gs_kv p = [h]"
  shows "load_bootenv cfg ops (s, p) = Some (0,
    s\<lparr>objs := (objs s)[a := \<lparr>sh_lock = False, sh_refcnt = r + 1, sh_revision = rv, sh_img = img\<rparr>]\<rparr>,
    p\<lparr>gs_shm_available := True, gs_env_shm_info := ShmObj a, gs_current_revision := rv, gs_kv := kvs\<rparr>)"
proof -
  let ?n = "unat (ge_size g)"
  let ?s = "\<lambda>l r. s\<lparr>objs := (objs s)[a := \<lparr>sh_lock = l, sh_refcnt = r, sh_revision = rv, sh_img = img\<rparr>]\<rparr>"
  let ?p = "p\<lparr>gs_shm_available := True, gs_env_shm_info := ShmObj a\<rparr>"
  have li: "length img = ?n" using assms(8) by (simp add: img_holds_def)
  have same: "(objs s)[a := \<lparr>sh_lock = False, sh_refcnt = r, sh_revision = rv, sh_img = img\<rparr>] = objs s"
    using assms(5,6) by (metis list_update_id)
  have acq: "acquire_envimg_buffer ops (s, p) = (True, s, ?p)"
    using assms(1,4,9,11) same assms(6)
    by (simp add: acquire_envimg_buffer_def shm_laws_def shm_open_def resize_same[OF li] Let_def)
  have lock: "envimg_buffer_lock (s, ?p) = Some (?s True r, ?p)"
    using assms(5,6) by (subst envimg_lock_free[of _ a]) simp_all
  have "unat (ge_data g) \<le> length (img_data img)" using assms(3) li by (simp add: img_data_def geo_ok_def) linarith
  then have crc: "data_crc cfg q img = Some (img_crc img)" if "gs_env_data_size q = ge_data g" for q
    using assms(8) that by (simp add: data_crc_def img_holds_def)
  have "load_locked cfg ops (?s True r, ?p) = Some (0, ?s True r, ?p\<lparr>gs_current_revision := rv, gs_kv := kvs\<rparr>)"
    using assms(5,7,12,13) crc parse_img_holds[OF assms(8,2,3)]
    by (simp add: load_locked_def parse_img_def Let_def)
  moreover have "envimg_buffer_unlock (?s True (r + 1), ?p\<lparr>gs_current_revision := rv, gs_kv := kvs\<rparr>)
      = Some (?s False (r + 1), ?p\<lparr>gs_current_revision := rv, gs_kv := kvs\<rparr>)"
    using assms(5) by (subst envimg_unlock_held[of _ a]) simp_all
  ultimately show ?thesis
    using assms(5) by (simp add: load_bootenv_def acq lock)
qed

text \<open>The eMMC layout: no MTD partitions, and the environment in \<open>/dev/env\<close>.\<close>

definition env_geo :: uenv_geo where
  "env_geo = \<lparr>ge_name = ''/dev/env'', ge_size = 0x10000, ge_data = 0xFFFC\<rparr>"

definition env_nodes :: "'d uenv_ops \<Rightarrow> bool" where
  "env_nodes ops \<longleftrightarrow> (\<forall>d. uo_proc_mtd ops d = OpenFails \<and> \<not> uo_stat ops d ''/dev/nand_env'' \<and> uo_stat ops d ''/dev/env'')"

lemma env_geo_ok: "geo_ok env_geo"
  by (simp add: geo_ok_def env_geo_def)

definition env_proc :: uproc where
  "env_proc = fresh_proc\<lparr>mtd_part_count := 0, gs_partition_name := ''/dev/env'',
     gs_env_partition_size := 0x10000, gs_env_data_size := 0xFFFC\<rparr>"

lemma init_device_env: "env_nodes ops \<Longrightarrow> init_device cfg ops (s, fresh_proc) = (0, s, env_proc)"
  by (simp add: init_device_def env_nodes_def mtd_name_to_number_def find_mtd_partitions_def init_fixed_def
      fresh_proc_def env_proc_def Let_def)

lemma env_proc_simps [simp]:
  "gs_env_shm_info env_proc = ShmNull" "gs_partition_name env_proc = ge_name env_geo"
  "gs_env_partition_size env_proc = ge_size env_geo" "gs_env_data_size env_proc = ge_data env_geo"
  "gs_kv env_proc = [empty_kv]"
  by (simp_all add: env_proc_def fresh_proc_def env_geo_def)

lemma init_load:
  assumes "env_nodes ops" and "load_bootenv cfg ops (s, env_proc) = Some (0, s', p')"
  shows "bootenv_init cfg ops (s, fresh_proc) = Some (0, s', p'\<lparr>gs_init_done := True\<rparr>)"
proof -
  have "init_retry cfg ops MAX_UBOOT_RWRETRY (-1) (s, env_proc) = Some (4, s', p')"
    using assms(2) by (simp add: MAX_UBOOT_RWRETRY_def numeral_eq_Suc)
  moreover have "\<not> gs_init_done fresh_proc" by (simp add: fresh_proc_def)
  ultimately show ?thesis using assms(1) by (simp add: bootenv_init_def init_device_env)
qed

lemma bootenv_init_first:
  assumes "env_nodes ops" and "shm_laws ops" and "blk_laws ops env_geo content"
    and "img_holds cfg env_geo (content (dv s)) kvs" and "shm_name s = None"
  shows "\<exists>s' p'. bootenv_init cfg ops (s, fresh_proc) = Some (0, s', p')
    \<and> shared_ok cfg env_geo content (length (objs s)) I (s', \<lambda>_. p') kvs \<and> shm_name s' = Some (length (objs s))
    \<and> sh_refcnt (objs s' ! length (objs s)) = 1 \<and> sh_revision (objs s' ! length (objs s)) = 0"
proof -
  note ld = load_first[OF assms(2,3) env_geo_ok assms(4,5), of env_proc empty_kv, simplified]
  have "kvs \<noteq> []" using assms(4) by (simp add: img_holds_def kvs_ok_def)
  then show ?thesis
    using init_load[OF assms(1) ld] assms(4)
    by (simp add: shared_ok_def attached_def in_sync_def)
qed

end
