(* ===== verification/EnvProps.thy ===== *)
theory EnvProps
  imports EnvShare
begin

text \<open>
  The properties of the U-Boot environment as its users see it: the processes that share it
  read what was last written, in any interleaving of their operations; what was written
  survives a reboot; a damaged environment is not loaded; and what the code does when a
  save fails, when only the last attempt to load succeeds, and when the lock stays taken.
\<close>

section \<open>A device for the witnesses\<close>

text \<open>A device in memory: its state is its content.\<close>

definition ram_content :: "string \<Rightarrow> string" where
  "ram_content d = resize_img 0x10000 d"

definition ram_uenv :: "string uenv_ops" where
  "ram_uenv = \<lparr>uo_open = (\<lambda>d _. (True, d)), uo_read = (\<lambda>d _ n. (Some (take n (ram_content d)), d)),
     uo_write = (\<lambda>d _ bs. (int (length bs), bs)), uo_info = (\<lambda>d _. (None, d)), uo_erase = (\<lambda>d _ _. (-1, d)),
     uo_fdopen = (\<lambda>d. (True, d)), uo_malloc = (\<lambda>d. (True, d)), uo_nodes = (\<lambda>_. 0x10000),
     uo_stat = (\<lambda>_ n. n = ''/dev/env''), uo_proc_mtd = (\<lambda>_. OpenFails), uo_shm_access = (\<lambda>_. True),
     uo_shm_create = (\<lambda>d. (True, d)), uo_shm_open = (\<lambda>d. (True, d)), uo_truncate = (\<lambda>d. (True, d)),
     uo_mmap = (\<lambda>d. (True, d)), uo_munmap = (\<lambda>d. (True, d)), uo_unlink = (\<lambda>d. (True, d))\<rparr>"

definition arm_cfg :: ucfg where
  "arm_cfg = \<lparr>cf_char_signed = False, cf_sizeof_long = 8, cf_a1 = False\<rparr>"

definition env_image :: "ucfg \<Rightarrow> env_kv list \<Rightarrow> string" where
  "env_image cfg kvs = (let data = env_text kvs @ zeros (0xFFFC - length (env_text kvs))
     in img_make (crc32 (cf_char_signed cfg) data) data)"

lemma length_ram_content [simp]: "length (ram_content d) = 0x10000"
  by (simp add: ram_content_def resize_img_def)

lemma ram_content_id: "length d = 0x10000 \<Longrightarrow> ram_content d = d"
  by (simp add: ram_content_def resize_same)

lemma ram_blk_laws: "blk_laws ram_uenv env_geo ram_content"
  by (simp add: blk_laws_def ram_uenv_def env_geo_def ram_content_id)

lemma ram_shm_laws: "shm_laws ram_uenv"
  by (simp add: shm_laws_def ram_uenv_def)

lemma ram_env_nodes: "env_nodes ram_uenv"
  by (simp add: env_nodes_def ram_uenv_def)

lemma env_image_holds:
  assumes "kvs_ok kvs" and "length (env_text kvs) \<le> 0xFFFC"
  shows "img_holds cfg env_geo (env_image cfg kvs) kvs"
  using assms by (simp add: img_holds_def env_image_def env_geo_def Let_def)

abbreviation demo_kvs :: "env_kv list" where
  "demo_kvs \<equiv> [\<lparr>kv_key = ''a'', kv_value = Some ''1''\<rparr>]"

lemma demo_kvs_ok: "kvs_ok demo_kvs" "length (env_text demo_kvs) = 4"
  by (simp_all add: kvs_ok_def kv_ok_def key_ok_def val_ok_def kv_text_def)

definition demo_boot :: "string usys" where
  "demo_boot = \<lparr>dv = env_image arm_cfg demo_kvs, objs = [], shm_name = None\<rparr>"

lemma demo_holds: "img_holds arm_cfg env_geo (ram_content (dv demo_boot)) demo_kvs"
proof -
  note h = env_image_holds[OF demo_kvs_ok(1), of arm_cfg] demo_kvs_ok(2)
  then have "img_holds arm_cfg env_geo (env_image arm_cfg demo_kvs) demo_kvs" by simp
  moreover from this have "length (env_image arm_cfg demo_kvs) = 0x10000"
    by (simp add: img_holds_def env_geo_def)
  ultimately show ?thesis by (simp add: demo_boot_def ram_content_id)
qed

text \<open>Every process of the demonstration has the environment open.\<close>

definition demo_sys :: "string usys \<times> (nat \<Rightarrow> uproc)" where
  "demo_sys = (case bootenv_init arm_cfg ram_uenv (demo_boot, fresh_proc) of
     Some (_, s, p) \<Rightarrow> (s, \<lambda>_. p) | None \<Rightarrow> (demo_boot, \<lambda>_. fresh_proc))"

lemma demo_shared:
  "shared_ok arm_cfg env_geo ram_content 0 UNIV demo_sys demo_kvs
   \<and> unat (sh_revision (objs (fst demo_sys) ! 0)) = 0
   \<and> shm_name (fst demo_sys) = Some 0 \<and> sh_refcnt (objs (fst demo_sys) ! 0) = 1"
proof -
  obtain s p where "bootenv_init arm_cfg ram_uenv (demo_boot, fresh_proc) = Some (0, s, p)"
    "shared_ok arm_cfg env_geo ram_content (length (objs demo_boot)) UNIV (s, \<lambda>_. p) demo_kvs"
    "sh_revision (objs s ! length (objs demo_boot)) = 0"
    "shm_name s = Some (length (objs demo_boot))" "sh_refcnt (objs s ! length (objs demo_boot)) = 1"
    using bootenv_init_first[OF ram_env_nodes ram_shm_laws ram_blk_laws demo_holds, of UNIV]
    by (auto simp: demo_boot_def)
  then show ?thesis by (simp add: demo_sys_def) (simp add: demo_boot_def)
qed

section \<open>Properties\<close>

text \<open>C1: the environment shared by any number of processes is one map. Any sequence of updates
  and reads by any of the processes, in any order, runs without error; every read returns
  the last value any process wrote to that name (or the value the environment had), every
  update returns 0, and the invariant holds at the end. The hypotheses: the device works,
  the names and values are proper, the text fits into the partition, and the revision
  counter does not wrap around.
\<close>

theorem uenv_refines_map:
  assumes "blk_laws ops g content" and "geo_ok g" and "shared_ok cfg g content a I S kvs"
    and "\<forall>x \<in> set xs. op_ok I x" and "unat (sh_revision (objs (fst S) ! a)) + length xs < 2 ^ 32"
    and "length (env_text kvs) + sum_list (map op_room xs) \<le> unat (ge_data g)"
  shows "\<exists>S' kvs'. uenv_run cfg ops xs S = Some (fst (spec_run xs (kv_lookup kvs)), S')
    \<and> shared_ok cfg g content a I S' kvs' \<and> kv_lookup kvs' = snd (spec_run xs (kv_lookup kvs))"
  using uenv_run_refines[OF assms(3-6,1,2)] .

theorem uenv_refines_map_witness:
  "\<exists>S'. uenv_run arm_cfg ram_uenv [OpUpdate 0 ''b'' ''2'', OpUpdate 1 ''a'' ''3'', OpGet 2 ''b'', OpGet 0 ''a''] demo_sys
    = Some ([ResCode 0, ResCode 0, ResValue (Some ''2''), ResValue (Some ''3'')], S')"
proof -
  have "length (env_text demo_kvs) + sum_list (map op_room
      [OpUpdate 0 ''b'' ''2'', OpUpdate 1 ''a'' ''3'', OpGet 2 ''b'', OpGet 0 ''a'']) \<le> unat (ge_data env_geo)"
    by (simp add: env_geo_def kv_text_def)
  then show ?thesis
    using uenv_refines_map[OF ram_blk_laws env_geo_ok conjunct1[OF demo_shared],
        of "[OpUpdate 0 ''b'' ''2'', OpUpdate 1 ''a'' ''3'', OpGet 2 ''b'', OpGet 0 ''a'']"] demo_shared
    by (auto simp: key_ok_def val_ok_def)
qed

text \<open>C2: an update survives a reboot. On a system whose environment is \<open>/dev/env\<close>, with a device and
  shared memory whose operations succeed, and while memory and device hold the same variables, a process that has the
  environment open updates a name (of 1 to 255 characters, without an equals sign) to a value (of 1 to 4095 characters)
  for which there is room in its 64 KB: \<open>bootenv_update\<close> returns 0, and a process
  of the next boot (no shared object, fresh static variables, the device as it was left) opens the environment
  without error and reads the new value for this name and the old values for all others.
\<close>

theorem bootenv_update_survives_reboot:
  assumes "env_nodes ops" and "shm_laws ops" and "blk_laws ops env_geo content"
    and "shared_ok cfg env_geo content a I (s, P) kvs" and "i \<in> I"
    and "key_ok k" and "val_ok v" and "length (env_text kvs) + length k + length v + 2 \<le> 0xFFFC"
  shows "\<exists>s1 p1 s2 p2. bootenv_update cfg ops k v (s, P i) = Some (0, s1, p1)
    \<and> bootenv_init cfg ops (\<lparr>dv = dv s1, objs = [], shm_name = None\<rparr>, fresh_proc) = Some (0, s2, p2)
    \<and> (\<forall>k'. \<exists>st. bootenv_get ops k' (s2, p2) = Some (((kv_lookup kvs)(k \<mapsto> v)) k', st))"
proof -
  have i: "attached env_geo a (P i)" "in_sync (P i) (sh_revision (objs s ! a)) kvs"
    and sh: "a < length (objs s)" "\<not> sh_lock (objs s ! a)" "img_holds cfg env_geo (sh_img (objs s ! a)) kvs"
      "content (dv s) = sh_img (objs s ! a)"
    using assms(4,5) by (auto simp: shared_ok_def)
  have room: "length (env_text kvs) + length k + length v + 2 \<le> unat (ge_data env_geo)"
    using assms(8) by (simp add: env_geo_def)
  obtain s1 p1 kvs1 where up: "bootenv_update cfg ops k v (s, P i) = Some (0, s1, p1)"
    and st: "stepped cfg env_geo content a s kvs s1 p1 kvs1" and lk: "kv_lookup kvs1 = (kv_lookup kvs)(k \<mapsto> v)"
    using bootenv_update_shared[OF i(1) sh(1-3) i(2) assms(3) env_geo_ok sh(4) assms(6,7) room] by blast
  let ?boot = "\<lparr>dv = dv s1, objs = [], shm_name = None\<rparr>"
  have "img_holds cfg env_geo (content (dv ?boot)) kvs1" using st by (simp add: stepped_def)
  then obtain s2 p2 where init: "bootenv_init cfg ops (?boot, fresh_proc) = Some (0, s2, p2)"
    and ok: "shared_ok cfg env_geo content 0 {0} (s2, \<lambda>_. p2) kvs1"
    using bootenv_init_first[OF assms(1-3), of cfg ?boot kvs1 "{0}"] by auto
  have "\<exists>st. bootenv_get ops k' (s2, p2) = Some (kv_lookup kvs1 k', st)" for k'
    using bootenv_get_shared[where cfg = cfg, OF _ _ _ _ _ assms(3) env_geo_ok, of 0 p2 s2 kvs1 k'] ok
    by (auto simp: shared_ok_def)
  then show ?thesis using up init lk by metis
qed

theorem bootenv_update_survives_reboot_witness:
  "\<exists>s1 p1 s2 p2 st. bootenv_update arm_cfg ram_uenv ''b'' ''2'' (fst demo_sys, snd demo_sys 7) = Some (0, s1, p1)
    \<and> bootenv_init arm_cfg ram_uenv (\<lparr>dv = dv s1, objs = [], shm_name = None\<rparr>, fresh_proc) = Some (0, s2, p2)
    \<and> bootenv_get ram_uenv ''b'' (s2, p2) = Some (Some ''2'', st)"
proof -
  have "shared_ok arm_cfg env_geo ram_content 0 UNIV (fst demo_sys, snd demo_sys) demo_kvs"
    using demo_shared by simp
  then have "\<exists>s1 p1 s2 p2. bootenv_update arm_cfg ram_uenv ''b'' ''2'' (fst demo_sys, snd demo_sys 7) = Some (0, s1, p1)
    \<and> bootenv_init arm_cfg ram_uenv (\<lparr>dv = dv s1, objs = [], shm_name = None\<rparr>, fresh_proc) = Some (0, s2, p2)
    \<and> (\<forall>k'. \<exists>st. bootenv_get ram_uenv k' (s2, p2) = Some (((kv_lookup demo_kvs)(''b'' \<mapsto> ''2'')) k', st))"
    using demo_kvs_ok(2)
    by (intro bootenv_update_survives_reboot[OF ram_env_nodes ram_shm_laws ram_blk_laws]) (auto simp: key_ok_def val_ok_def)
  then show ?thesis by (metis fun_upd_same)
qed

text \<open>a process that opens the environment while others have it open joins them: it returns
  0 without using the device, counts itself in the object, and from then on it is one of
  the processes the invariant speaks of, so that it reads what the others wrote.
\<close>

theorem bootenv_init_joins:
  assumes "env_nodes ops" and "shm_laws ops" and "unat (ge_size env_geo) \<le> uo_nodes ops (dv s)"
    and "shared_ok cfg env_geo content a I (s, P) kvs" and "shm_name s = Some a" and "0 < sh_refcnt (objs s ! a)"
  shows "\<exists>s' p'. bootenv_init cfg ops (s, fresh_proc) = Some (0, s', p')
    \<and> shared_ok cfg env_geo content a (insert i I) (s', P(i := p')) kvs
    \<and> sh_refcnt (objs s' ! a) = sh_refcnt (objs s ! a) + 1 \<and> dv s' = dv s"
proof -
  obtain r rv img where ob: "objs s ! a = \<lparr>sh_lock = False, sh_refcnt = r, sh_revision = rv, sh_img = img\<rparr>"
    using assms(4) by (cases "objs s ! a") (auto simp: shared_ok_def)
  have h: "a < length (objs s)" "img_holds cfg env_geo img kvs" "r \<noteq> 0"
    using assms(4,6) ob by (auto simp: shared_ok_def)
  note ld = load_join[OF assms(2,3) env_geo_ok assms(5) h(1) ob h(3,2), of env_proc empty_kv, simplified]
  show ?thesis
    using init_load[OF assms(1) ld] assms(4) ob h
    by (auto simp: shared_ok_def attached_def in_sync_def img_holds_def kvs_ok_def)
qed

theorem bootenv_init_joins_witness:
  "\<exists>s' p'. bootenv_init arm_cfg ram_uenv (fst demo_sys, fresh_proc) = Some (0, s', p') \<and> sh_refcnt (objs s' ! 0) = 2"
proof -
  have "unat (ge_size env_geo) \<le> uo_nodes ram_uenv (dv (fst demo_sys))"
    by (simp add: env_geo_def ram_uenv_def)
  moreover have "shared_ok arm_cfg env_geo ram_content 0 UNIV (fst demo_sys, snd demo_sys) demo_kvs"
    using demo_shared by simp
  ultimately show ?thesis
    using bootenv_init_joins[OF ram_env_nodes ram_shm_laws, of "fst demo_sys" arm_cfg ram_content 0 UNIV "snd demo_sys" demo_kvs 1]
      demo_shared by fastforce
qed

text \<open>An environment with one byte of its data changed: what the first process to load it leaves.\<close>

definition not_loaded :: "uenv_geo \<Rightarrow> 'd usys \<Rightarrow> string \<Rightarrow> 'd usys" where
  "not_loaded g s img = s\<lparr>shm_name := Some (length (objs s)),
     objs := objs s @ [\<lparr>sh_lock = False, sh_refcnt = 0, sh_revision = 0, sh_img = img\<rparr>]\<rparr>"

lemma load_bootenv_damaged:
  assumes "shm_laws ops" and "blk_laws ops g content" and "geo_ok g" and "img_holds cfg g img kvs"
    and "j < unat (ge_data g)" and "c \<noteq> img ! (4 + j)" and "content (dv s) = img[4 + j := c]"
    and "shm_name s = None" and "gs_env_shm_info p = ShmNull" and "gs_partition_name p = ge_name g"
    and "gs_env_partition_size p = ge_size g" and "gs_env_data_size p = ge_data g"
  shows "load_bootenv cfg ops (s, p) = Some (-3, not_loaded g s (img[4 + j := c]),
    p\<lparr>gs_shm_available := True, gs_env_shm_info := ShmObj (length (objs s)), gs_current_revision := 0\<rparr>)"
proof -
  let ?n = "unat (ge_size g)" and ?m = "unat (ge_data g)" and ?a = "length (objs s)"
  let ?o = "\<lambda>l r img. \<lparr>sh_lock = l, sh_refcnt = r, sh_revision = 0, sh_img = img\<rparr>"
  let ?s = "\<lambda>l r img. s\<lparr>shm_name := Some ?a, objs := objs s @ [?o l r img]\<rparr>"
  let ?p = "p\<lparr>gs_shm_available := True, gs_env_shm_info := ShmObj ?a\<rparr>"
  let ?img = "img[4 + j := c]"
  have li: "length img = ?n" "4 + ?m \<le> ?n" using assms(3,4) by (simp_all add: img_holds_def geo_ok_def)
  have sm: "sint (ge_size g) = int ?n" using assms(3) by (intro sint_small) (simp add: geo_ok_def)
  have acq: "acquire_envimg_buffer ops (s, p) = (True, ?s False 0 (zeros ?n), ?p)"
    using assms(1,8,9,11) by (simp add: acquire_envimg_buffer_def shm_laws_def shm_open_def zero_obj_def Let_def)
  have lock: "envimg_buffer_lock (?s False 0 (zeros ?n), ?p) = Some (?s True 0 (zeros ?n), ?p)"
    by (subst envimg_lock_free[of _ ?a]) simp_all
  let ?d = "take ?m (img_data img)"
  have d: "j < length ?d" "?d ! j = img ! (4 + j)" using li assms(5) by (simp_all add: img_data_def)
  have "take ?m (img_data ?img) = ?d[j := c]"
    using li assms(5) by (simp add: img_data_def drop_update_swap take_update_swap)
  moreover have "crc32 (cf_char_signed cfg) (?d[j := c]) \<noteq> crc32 (cf_char_signed cfg) ?d"
    using d assms(6) by (intro crc32_update_change) simp_all
  moreover have "img_crc ?img = img_crc img" by (simp add: img_crc_def)
  ultimately have crc: "crc32 (cf_char_signed cfg) (take ?m (img_data ?img)) \<noteq> img_crc ?img"
    using assms(4) by (simp add: img_holds_def)
  have "?m \<le> length (img_data ?img)" using li by (simp add: img_data_def)
  then have "load_locked cfg ops (?s True 0 (zeros ?n), ?p) = Some (-3, ?s True 0 ?img, ?p\<lparr>gs_current_revision := 0\<rparr>)"
    using assms(2,7,10-12) li sm crc
    by (simp add: load_locked_def blk_laws_def data_crc_def put_at_def zeros_def Let_def)
  moreover have "envimg_buffer_unlock (?s True 0 ?img, ?p\<lparr>gs_current_revision := 0\<rparr>)
      = Some (?s False 0 ?img, ?p\<lparr>gs_current_revision := 0\<rparr>)"
    by (subst envimg_unlock_held[of _ ?a]) simp_all
  ultimately show ?thesis
    by (simp add: load_bootenv_def not_loaded_def acq lock)
qed

text \<open>Each further attempt ends in the same way: the object is released and made again.\<close>

definition shm_release_laws :: "'d uenv_ops \<Rightarrow> bool" where
  "shm_release_laws ops \<longleftrightarrow> (\<forall>d. uo_munmap ops d = (True, d) \<and> uo_unlink ops d = (True, d))"

lemma release_not_loaded:
  assumes "shm_release_laws ops" and "gs_env_shm_info p = ShmObj (length (objs s))" and "gs_shm_available p"
  shows "\<exists>s'. release_envimg_buffer ops (not_loaded g s img, p) = Some (s', p\<lparr>gs_env_shm_info := ShmNull\<rparr>)
    \<and> shm_name s' = None \<and> dv s' = dv s"
proof -
  let ?a = "length (objs s)"
  let ?o = "\<lambda>l r. not_loaded g s img\<lparr>objs := objs s @ [\<lparr>sh_lock = l, sh_refcnt = r, sh_revision = 0, sh_img = img\<rparr>]\<rparr>"
  have "envimg_buffer_lock (not_loaded g s img, p) = Some (?o True 0, p)"
    using assms(2) by (subst envimg_lock_free[of _ ?a]) (simp_all add: not_loaded_def)
  moreover have "envimg_buffer_unlock (?o True (-1), p) = Some (?o False (-1), p)"
    using assms(2) by (subst envimg_unlock_held[of _ ?a]) (simp_all add: not_loaded_def)
  ultimately show ?thesis
    using assms by (simp add: release_envimg_buffer_def shm_release_laws_def not_loaded_def Let_def)
qed

lemma init_retry_damaged:
  assumes "shm_laws ops" and "shm_release_laws ops" and "blk_laws ops g content" and "geo_ok g"
    and "img_holds cfg g img kvs" and "j < unat (ge_data g)" and "c \<noteq> img ! (4 + j)"
  shows "content (dv s) = img[4 + j := c] \<Longrightarrow> shm_name s = None \<Longrightarrow> gs_env_shm_info p = ShmNull
    \<Longrightarrow> gs_partition_name p = ge_name g \<Longrightarrow> gs_env_partition_size p = ge_size g \<Longrightarrow> gs_env_data_size p = ge_data g
    \<Longrightarrow> ret < 0 \<Longrightarrow> \<exists>s' p'. init_retry cfg ops n ret (s, p) = Some (0, s', p') \<and> dv s' = dv s \<and> gs_init_done p' = gs_init_done p"
proof (induction n arbitrary: s p ret)
  case (Suc n)
  let ?p = "p\<lparr>gs_shm_available := True, gs_env_shm_info := ShmObj (length (objs s)), gs_current_revision := 0\<rparr>"
  note ld = load_bootenv_damaged[OF assms(1,3-7) Suc.prems(1-6)]
  obtain s1 where rel: "release_envimg_buffer ops (not_loaded g s (img[4 + j := c]), ?p) = Some (s1, ?p\<lparr>gs_env_shm_info := ShmNull\<rparr>)"
    and s1: "shm_name s1 = None" "dv s1 = dv s"
    using release_not_loaded[OF assms(2), of ?p s g "img[4 + j := c]"] by auto
  obtain s' p' where "init_retry cfg ops n (-3) (s1, ?p\<lparr>gs_env_shm_info := ShmNull\<rparr>) = Some (0, s', p')" "dv s' = dv s1"
    "gs_init_done p' = gs_init_done p"
    using Suc.IH[of s1 "?p\<lparr>gs_env_shm_info := ShmNull\<rparr>" "-3"] Suc.prems s1 by auto
  then show ?case using Suc.prems(7) ld rel s1(2) by simp
qed simp

text \<open>C3: an environment with one byte of its data changed is not used. On a system whose environment is
  \<open>/dev/env\<close>, with working device and shared memory and no process that has it open, \<open>load_bootenv\<close> returns -3 and
  leaves the object unlocked with the count 0. \<open>bootenv_init\<close> fails with -2 after its attempts, and the process
  has no variables afterwards: \<open>bootenv_get\<close> finds none, \<open>bootenv_update\<close> fails with -1, and the device is as it was.
\<close>

theorem load_bootenv_rejects_damage:
  assumes "env_nodes ops" and "shm_laws ops" and "shm_release_laws ops" and "blk_laws ops env_geo content"
    and "img_holds cfg env_geo img kvs" and "j < 0xFFFC" and "c \<noteq> img ! (4 + j)" and "content (dv s) = img[4 + j := c]"
    and "shm_name s = None"
  shows "(\<exists>s' p'. load_bootenv cfg ops (s, env_proc) = Some (-3, s', p')
      \<and> sh_refcnt (objs s' ! length (objs s)) = 0 \<and> \<not> sh_lock (objs s' ! length (objs s)))
    \<and> (\<exists>s' p'. bootenv_init cfg ops (s, fresh_proc) = Some (-2, s', p') \<and> dv s' = dv s
      \<and> (\<forall>k. bootenv_get ops k (s', p') = Some (None, s', p'))
      \<and> (\<forall>k v. bootenv_update cfg ops k v (s', p') = Some (-1, s', p')))"
proof -
  have j: "j < unat (ge_data env_geo)" using assms(6) by (simp add: env_geo_def)
  note ld = load_bootenv_damaged[OF assms(2,4) env_geo_ok assms(5) j assms(7-9), of env_proc, simplified]
  obtain s' p' where r: "init_retry cfg ops MAX_UBOOT_RWRETRY (-1) (s, env_proc) = Some (0, s', p')" "dv s' = dv s"
    "gs_init_done p' = gs_init_done env_proc"
    using init_retry_damaged[OF assms(2,3,4) env_geo_ok assms(5) j assms(7,8,9), where p = env_proc and ret = "-1" and n = MAX_UBOOT_RWRETRY] by auto
  have d: "\<not> gs_init_done fresh_proc" "\<not> gs_init_done p'" using r(3) by (simp_all add: fresh_proc_def env_proc_def)
  have "bootenv_init cfg ops (s, fresh_proc) = Some (-2, s', p')"
    using r(1) d(1) assms(1) by (simp add: bootenv_init_def init_device_env)
  then show ?thesis using ld r(2) d(2) by (simp add: not_loaded_def bootenv_get_def bootenv_update_def)
qed

text \<open>One byte of the demonstration's image is damaged.\<close>

theorem load_bootenv_rejects_damage_witness:
  "\<exists>s' p'. bootenv_init arm_cfg ram_uenv (demo_boot\<lparr>dv := (dv demo_boot)[4 := CHR ''b'']\<rparr>, fresh_proc) = Some (-2, s', p')
    \<and> bootenv_get ram_uenv ''a'' (s', p') = Some (None, s', p')"
proof -
  let ?img = "env_image arm_cfg demo_kvs"
  have h: "img_holds arm_cfg env_geo ?img demo_kvs"
    using env_image_holds[OF demo_kvs_ok(1), of arm_cfg] demo_kvs_ok(2) by simp
  have len: "length ?img = 0x10000" using h by (simp add: img_holds_def env_geo_def)
  have "?img ! 4 = CHR ''a''"
    by (simp add: env_image_def img_make_def nth_append le_bytes32_def kv_text_def Let_def)
  moreover have "shm_release_laws ram_uenv" by (simp add: shm_release_laws_def ram_uenv_def)
  ultimately show ?thesis
    using load_bootenv_rejects_damage[OF ram_env_nodes ram_shm_laws _ ram_blk_laws h, of 0 "CHR ''b''"
        "demo_boot\<lparr>dv := (dv demo_boot)[4 := CHR ''b'']\<rparr>"] len
    by (auto simp: demo_boot_def ram_content_id)
qed

text \<open>A save whose \<open>open\<close> fails: the object has the new text, the device is not touched.\<close>

lemma save_open_fails:
  assumes "attached g a p" and "a < length (objs s)" and "length (sh_img (objs s ! a)) = unat (ge_size g)"
    and "kvs_ok (gs_kv p)" and "length (env_text (gs_kv p)) \<le> unat (ge_data g)" and "geo_ok g"
    and "\<forall>d. uo_open ops d (ge_name g) = (False, d)"
  shows "\<exists>img. save_bootenv cfg ops (s, p) = Some (-1,
      s\<lparr>objs := (objs s)[a := (objs s ! a)\<lparr>sh_revision := gs_current_revision p + 1, sh_img := img\<rparr>]\<rparr>,
      p\<lparr>gs_current_revision := gs_current_revision p + 1\<rparr>) \<and> length img = unat (ge_size g)"
proof -
  let ?ob = "objs s ! a" and ?n = "unat (ge_data g)" and ?kvs = "gs_kv p"
  let ?mem = "img_data (sh_img ?ob)"
  have lm: "?n \<le> length ?mem" "4 + length ?mem = unat (ge_size g)"
    using assms(3,6) by (auto simp: img_data_def geo_ok_def)
  define mem' where "mem' = env_text ?kvs @ zeros (?n - length (env_text ?kvs)) @ drop ?n ?mem"
  have mem': "env_serialize_loop (zeros ?n @ drop ?n ?mem) 0 ?kvs = Some mem'"
    using assms(4,5) lm(1) by (simp add: mem'_def env_serialize_zeros kvs_ok_def)
  have l': "?n \<le> length mem'" "4 + length mem' = unat (ge_size g)"
    using assms(5) lm by (simp_all add: mem'_def)
  have "img_data (take 4 (sh_img ?ob) @ mem') = mem'"
    using lm(2) assms(3) by (simp add: img_data_def min_def)
  then show ?thesis
    using assms(1,2,7) lm mem' l'
    by (intro exI[of _ "img_make (crc32 (cf_char_signed cfg) (take ?n mem')) mem'"])
      (simp add: save_bootenv_def env_serialize_data_def attached_def data_crc_def Let_def)
qed

lemma save_retry_open_fails:
  assumes "geo_ok g" and "\<forall>d. uo_open ops d (ge_name g) = (False, d)"
  shows "attached g a p \<Longrightarrow> a < length (objs s) \<Longrightarrow> length (sh_img (objs s ! a)) = unat (ge_size g)
    \<Longrightarrow> kvs_ok (gs_kv p) \<Longrightarrow> length (env_text (gs_kv p)) \<le> unat (ge_data g)
    \<Longrightarrow> gs_current_revision p = sh_revision (objs s ! a)
    \<Longrightarrow> \<exists>ob. save_retry cfg ops n (-1) (s, p) = Some (-1, s\<lparr>objs := (objs s)[a := ob]\<rparr>,
          p\<lparr>gs_current_revision := sh_revision ob\<rparr>) \<and> sh_lock ob = sh_lock (objs s ! a)"
proof (induction n arbitrary: s p)
  case 0
  then show ?case by (intro exI[of _ "objs s ! a"]) simp
next
  case (Suc n)
  let ?ob = "\<lambda>img. (objs s ! a)\<lparr>sh_revision := gs_current_revision p + 1, sh_img := img\<rparr>"
  let ?p = "p\<lparr>gs_current_revision := gs_current_revision p + 1\<rparr>"
  obtain img where sv: "save_bootenv cfg ops (s, p) = Some (-1, s\<lparr>objs := (objs s)[a := ?ob img]\<rparr>, ?p)"
    and img: "length img = unat (ge_size g)"
    using save_open_fails[OF Suc.prems(1-5) assms] by blast
  obtain ob where "save_retry cfg ops n (-1) (s\<lparr>objs := (objs s)[a := ?ob img]\<rparr>, ?p)
      = Some (-1, s\<lparr>objs := (objs s)[a := ob]\<rparr>, p\<lparr>gs_current_revision := sh_revision ob\<rparr>)"
    "sh_lock ob = sh_lock (objs s ! a)"
    using Suc.IH[of ?p "s\<lparr>objs := (objs s)[a := ?ob img]\<rparr>"] Suc.prems img by (auto simp: attached_def)
  then show ?case using sv by (intro exI[of _ ob]) simp
qed

text \<open>a failed update is forgotten. When the device cannot be opened, \<open>bootenv_update\<close> fails
  with -1; calling it again with the same name and value then returns 0, as if the variable
  had been saved, and the device is untouched by both calls.
\<close>

theorem bootenv_update_failure_forgotten:
  assumes "geo_ok g" and "\<forall>d. uo_open ops d (ge_name g) = (False, d)"
    and "shared_ok cfg g content a I (s, P) kvs" and "i \<in> I" and "unat (ge_size g) \<le> uo_nodes ops (dv s)"
    and "key_ok k" and "val_ok v" and "kv_lookup kvs k \<noteq> Some v"
    and "length (env_text kvs) + length k + length v + 2 \<le> unat (ge_data g)"
  shows "\<exists>s1 p1 s2 p2. bootenv_update cfg ops k v (s, P i) = Some (-1, s1, p1) \<and> dv s1 = dv s
    \<and> bootenv_update cfg ops k v (s1, p1) = Some (0, s2, p2) \<and> dv s2 = dv s"
proof -
  let ?q = "P i"
  have p: "attached g a ?q" "in_sync ?q (sh_revision (objs s ! a)) kvs"
    and sh: "a < length (objs s)" "\<not> sh_lock (objs s ! a)" "img_holds cfg g (sh_img (objs s ! a)) kvs"
    using assms(3,4) by (auto simp: shared_ok_def)
  let ?s = "s\<lparr>objs := (objs s)[a := (objs s ! a)\<lparr>sh_lock := True\<rparr>]\<rparr>"
  let ?p = "?q\<lparr>gs_kv := kvs, gs_current_revision := sh_revision (objs s ! a)\<rparr>"
  let ?kvs = "kv_put kvs k v" let ?p2 = "?p\<lparr>gs_kv := ?kvs\<rparr>"
  have ptr: "gs_env_shm_info ?q = ShmObj a" "gs_init_done ?q" using p(1) by (simp_all add: attached_def)
  have kvs: "kvs_ok kvs" using sh(3) by (simp add: img_holds_def)
  have load: "check_load_kv ops (?s, ?q) = Some (?s, ?p)"
    using check_load_holds[OF p(1) _ _ _ _ assms(1), of ?s cfg kvs ops] sh p(2) assms(5) by simp
  have put: "snd (bootenv_set_value ?p k v True) = ?p2"
    by (simp add: bootenv_set_value_def split: prod.split)
  have kvs': "kvs_ok ?kvs" by (rule kv_put_ok[OF kvs assms(6,7)])
  have len: "length (env_text ?kvs) \<le> unat (ge_data g)" using env_text_put[OF assms(6), of kvs v] assms(9) by linarith
  have "attached g a ?p2" using p(1) kvs' by (simp add: attached_def kvs_ok_def)
  then obtain ob where ob: "save_retry cfg ops MAX_UBOOT_RWRETRY (-1) (?s, ?p2)
      = Some (-1, s\<lparr>objs := (objs s)[a := ob]\<rparr>, ?p2\<lparr>gs_current_revision := sh_revision ob\<rparr>)" "sh_lock ob"
    using save_retry_open_fails[OF assms(1,2), of a ?p2 ?s cfg MAX_UBOOT_RWRETRY] sh kvs' len
    by (auto simp: img_holds_def)
  let ?s1 = "s\<lparr>objs := (objs s)[a := ob\<lparr>sh_lock := False\<rparr>]\<rparr>" let ?p1 = "?p2\<lparr>gs_current_revision := sh_revision ob\<rparr>"
  have "v \<noteq> (case bootenv_get_value ?p k of None \<Rightarrow> [] | Some x \<Rightarrow> x)"
    using assms(7,8) ptr by (auto simp: bootenv_get_value_def val_ok_def split: option.split)
  moreover have "envimg_buffer_unlock (s\<lparr>objs := (objs s)[a := ob]\<rparr>, ?p1) = Some (?s1, ?p1)"
    using ptr sh(1) ob(2) by (simp add: envimg_unlock_held)
  ultimately have up: "bootenv_update cfg ops k v (s, ?q) = Some (-1, ?s1, ?p1)"
    using ptr sh(1,2) load put ob(1) by (simp add: bootenv_update_def envimg_lock_free Let_def del: kv_put_simps kv_set.simps)
  have lk: "kv_lookup ?kvs k = Some v" by (rule kv.lookup_same[OF kvs assms(6,7)])
  have "envimg_buffer_lock (?s1, ?p1) = Some (s\<lparr>objs := (objs s)[a := ob\<lparr>sh_lock := True\<rparr>]\<rparr>, ?p1)"
    using ptr sh(1) by (subst envimg_lock_free[of _ a]) simp_all
  moreover have "check_load_kv ops (s\<lparr>objs := (objs s)[a := ob\<lparr>sh_lock := True\<rparr>]\<rparr>, ?p1)
      = Some (s\<lparr>objs := (objs s)[a := ob\<lparr>sh_lock := True\<rparr>]\<rparr>, ?p1)"
    using ptr sh(1) by (simp add: check_load_kv_def)
  moreover have "envimg_buffer_unlock (s\<lparr>objs := (objs s)[a := ob\<lparr>sh_lock := True\<rparr>]\<rparr>, ?p1) = Some (?s1, ?p1)"
    using ptr sh(1) by (simp add: envimg_unlock_held)
  ultimately have "bootenv_update cfg ops k v (?s1, ?p1) = Some (0, ?s1, ?p1)"
    using ptr lk by (simp add: bootenv_update_def bootenv_get_value_def del: kv_put_simps kv_set.simps)
  then show ?thesis using up by (intro exI[of _ ?s1] exI[of _ ?p1]) simp
qed

theorem bootenv_update_failure_forgotten_witness:
  "\<exists>s1 p1 s2 p2. bootenv_update arm_cfg (ram_uenv\<lparr>uo_open := (\<lambda>d _. (False, d))\<rparr>) ''b'' ''2'' (fst demo_sys, snd demo_sys 0)
      = Some (-1, s1, p1)
    \<and> bootenv_update arm_cfg (ram_uenv\<lparr>uo_open := (\<lambda>d _. (False, d))\<rparr>) ''b'' ''2'' (s1, p1) = Some (0, s2, p2)
    \<and> dv s2 = dv (fst demo_sys)"
proof -
  have "shared_ok arm_cfg env_geo ram_content 0 UNIV (fst demo_sys, snd demo_sys) demo_kvs"
    using demo_shared by simp
  then have "\<exists>s1 p1 s2 p2. bootenv_update arm_cfg (ram_uenv\<lparr>uo_open := (\<lambda>d _. (False, d))\<rparr>) ''b'' ''2''
      (fst demo_sys, snd demo_sys 0) = Some (-1, s1, p1) \<and> dv s1 = dv (fst demo_sys)
    \<and> bootenv_update arm_cfg (ram_uenv\<lparr>uo_open := (\<lambda>d _. (False, d))\<rparr>) ''b'' ''2'' (s1, p1) = Some (0, s2, p2)
    \<and> dv s2 = dv (fst demo_sys)"
    using demo_kvs_ok(2)
    by (intro bootenv_update_failure_forgotten[OF env_geo_ok])
      (auto simp: key_ok_def val_ok_def env_geo_def ram_uenv_def)
  then show ?thesis by blast
qed

end
