(* ===== verification/EnvInit.thy ===== *)
theory EnvInit
  imports EnvProps
begin

text \<open>
  Opening the U-Boot environment when the device fails for a while, the lock of the shared
  object under contention, the table of MTD partitions, and the tool \<open>uenv_test\<close>.
\<close>

section \<open>Retries\<close>

text \<open>A device whose \<open>open\<close> fails \<open>fails d\<close> more times and that works otherwise.\<close>

definition flaky_laws :: "'d uenv_ops \<Rightarrow> uenv_geo \<Rightarrow> ('d \<Rightarrow> string) \<Rightarrow> ('d \<Rightarrow> nat) \<Rightarrow> bool" where
  "flaky_laws ops g content fails \<longleftrightarrow>
     (\<forall>d. length (content d) = unat (ge_size g) \<and> unat (ge_size g) \<le> uo_nodes ops d
        \<and> uo_read ops d (ge_name g) (unat (ge_size g)) = (Some (content d), d)
        \<and> (if fails d = 0 then uo_open ops d (ge_name g) = (True, d)
           else \<exists>d'. uo_open ops d (ge_name g) = (False, d') \<and> fails d' = fails d - 1 \<and> content d' = content d))"

text \<open>A process that has the object, nothing loaded yet.\<close>

definition is_opening :: "uenv_geo \<Rightarrow> nat \<Rightarrow> 'd usys \<Rightarrow> uproc \<Rightarrow> bool" where
  "is_opening g a s p \<longleftrightarrow> a < length (objs s) \<and> \<not> sh_lock (objs s ! a) \<and> sh_refcnt (objs s ! a) = 0
     \<and> length (sh_img (objs s ! a)) = unat (ge_size g) \<and> gs_env_shm_info p = ShmObj a
     \<and> gs_partition_name p = ge_name g \<and> gs_env_partition_size p = ge_size g
     \<and> gs_env_data_size p = ge_data g \<and> gs_kv p = [empty_kv] \<and> \<not> gs_init_done p"

lemma acquire_opening: "is_opening g a s p \<Longrightarrow> acquire_envimg_buffer ops (s, p) = (True, s, p)"
  by (simp add: is_opening_def acquire_envimg_buffer_def Let_def)

lemma locked_back: "a < length xs \<Longrightarrow> \<not> sh_lock (xs ! a) \<Longrightarrow> xs[a := (xs ! a)\<lparr>sh_lock := False\<rparr>] = xs"
  by (metis list_update_id unlocked_same)

lemma load_opening_fails:
  assumes "is_opening g a s p" and "uo_open ops (dv s) (ge_name g) = (False, d')"
  shows "load_bootenv cfg ops (s, p) = Some (-1, s\<lparr>dv := d'\<rparr>, p)"
proof -
  have o: "gs_env_shm_info p = ShmObj a" "a < length (objs s)" "\<not> sh_lock (objs s ! a)" "sh_refcnt (objs s ! a) = 0"
    "gs_partition_name p = ge_name g"
    using assms(1) by (simp_all add: is_opening_def)
  let ?ob = "(objs s ! a)\<lparr>sh_lock := True\<rparr>"
  have "load_locked cfg ops (s\<lparr>objs := (objs s)[a := ?ob]\<rparr>, p) = Some (-1, s\<lparr>objs := (objs s)[a := ?ob], dv := d'\<rparr>, p)"
    using o assms(2) by (simp add: load_locked_def Let_def)
  moreover have "?ob\<lparr>sh_refcnt := 0, sh_lock := False\<rparr> = objs s ! a"
    using o(3,4) by (cases "objs s ! a") simp
  ultimately show ?thesis
    using o(1,2) by (simp add: load_bootenv_def acquire_opening[OF assms(1)] envimg_lock_free o(3) envimg_unlock_held)
qed

lemma load_opening_ok:
  assumes "is_opening g a s p" and "flaky_laws ops g content fails" and "fails (dv s) = 0" and "geo_ok g"
    and "img_holds cfg g (content (dv s)) kvs"
  shows "\<exists>s' p'. load_bootenv cfg ops (s, p) = Some (0, s', p') \<and> gs_kv p' = kvs \<and> gs_init_done p' = gs_init_done p
    \<and> sh_refcnt (objs s' ! a) = 1"
proof -
  have o: "gs_env_shm_info p = ShmObj a" "a < length (objs s)" "\<not> sh_lock (objs s ! a)" "sh_refcnt (objs s ! a) = 0"
    "gs_partition_name p = ge_name g" "gs_env_partition_size p = ge_size g" "gs_env_data_size p = ge_data g"
    "gs_kv p = [empty_kv]" "length (sh_img (objs s ! a)) = unat (ge_size g)"
    using assms(1) by (simp_all add: is_opening_def)
  let ?img = "content (dv s)"
  have dev: "length ?img = unat (ge_size g)" "unat (ge_size g) \<le> uo_nodes ops (dv s)"
    "uo_open ops (dv s) (ge_name g) = (True, dv s)"
    "uo_read ops (dv s) (ge_name g) (unat (ge_size g)) = (Some ?img, dv s)"
    using assms(2,3) by (simp_all add: flaky_laws_def)
  have sm: "sint (ge_size g) = int (unat (ge_size g))" using assms(4) by (intro sint_small) (simp add: geo_ok_def)
  have "unat (ge_data g) \<le> length (img_data ?img)" using assms(4) dev(1) by (simp add: img_data_def geo_ok_def) linarith
  then have crc: "data_crc cfg p ?img = Some (img_crc ?img)"
    using assms(5) o(7) by (simp add: data_crc_def img_holds_def)
  let ?ob = "(objs s ! a)\<lparr>sh_lock := True\<rparr>"
  let ?ob2 = "?ob\<lparr>sh_img := ?img\<rparr>"
  let ?p = "p\<lparr>gs_current_revision := sh_revision (objs s ! a), gs_kv := kvs\<rparr>"
  have "put_at (sh_img (objs s ! a)) 0 ?img = ?img" using o(9) dev(1) by (simp add: put_at_def)
  then have "load_locked cfg ops (s\<lparr>objs := (objs s)[a := ?ob]\<rparr>, p) = Some (0, s\<lparr>objs := (objs s)[a := ?ob2]\<rparr>, ?p)"
    using o dev sm crc parse_img_holds[OF assms(5) dev(2) assms(4)]
    by (simp add: load_locked_def parse_img_def Let_def)
  then have "load_bootenv cfg ops (s, p) = Some (0, s\<lparr>objs := (objs s)[a := ?ob2\<lparr>sh_refcnt := 1, sh_lock := False\<rparr>]\<rparr>, ?p)"
    using o(1-4) by (simp add: load_bootenv_def acquire_opening[OF assms(1)] envimg_lock_free envimg_unlock_held)
  then show ?thesis using o(2) by simp
qed

lemma init_retry_flaky:
  assumes "flaky_laws ops g content fails" and "geo_ok g"
  shows "is_opening g a s p \<Longrightarrow> img_holds cfg g (content (dv s)) kvs \<Longrightarrow> fails (dv s) < n
    \<Longrightarrow> \<exists>s' p'. init_retry cfg ops n (-1) (s, p) = Some (n - Suc (fails (dv s)), s', p')
      \<and> gs_kv p' = kvs \<and> \<not> gs_init_done p' \<and> sh_refcnt (objs s' ! a) = 1"
proof (induction n arbitrary: s)
  case (Suc n)
  show ?case
  proof (cases "fails (dv s) = 0")
    case True
    obtain s' p' where ld: "load_bootenv cfg ops (s, p) = Some (0, s', p')"
      and "gs_kv p' = kvs" "gs_init_done p' = gs_init_done p" "sh_refcnt (objs s' ! a) = 1"
      using load_opening_ok[OF Suc.prems(1) assms(1) True assms(2) Suc.prems(2)] by blast
    moreover have "init_retry cfg ops n 0 (s', p') = Some (n, s', p')" by (cases n) simp_all
    ultimately show ?thesis using True Suc.prems(1) by (simp add: is_opening_def)
  next
    case False
    obtain d' where d': "uo_open ops (dv s) (ge_name g) = (False, d')" "fails d' = fails (dv s) - 1" "content d' = content (dv s)"
      using assms(1) False unfolding flaky_laws_def by meson
    have "load_bootenv cfg ops (s, p) = Some (-1, s\<lparr>dv := d'\<rparr>, p)" by (rule load_opening_fails[OF Suc.prems(1) d'(1)])
    moreover have "is_opening g a (s\<lparr>dv := d'\<rparr>) p" using Suc.prems(1) by (simp add: is_opening_def)
    then obtain s' p' where "init_retry cfg ops n (-1) (s\<lparr>dv := d'\<rparr>, p) = Some (n - Suc (fails d'), s', p')"
      "gs_kv p' = kvs" "\<not> gs_init_done p'" "sh_refcnt (objs s' ! a) = 1"
      using Suc.IH[of "s\<lparr>dv := d'\<rparr>"] Suc.prems(2,3) d'(2,3) False by fastforce
    ultimately show ?thesis using d'(2) False by (auto simp: Suc_diff_Suc)
  qed
qed simp

lemma load_acquired:
  "acquire_envimg_buffer ops st = (True, st') \<Longrightarrow> acquire_envimg_buffer ops st' = (True, st')
   \<Longrightarrow> load_bootenv cfg ops st = load_bootenv cfg ops st'"
  by (simp add: load_bootenv_def)

lemma init_retry_acquired:
  "load_bootenv cfg ops st = load_bootenv cfg ops st' \<Longrightarrow> init_retry cfg ops (Suc n) (-1) st = init_retry cfg ops (Suc n) (-1) st'"
  by simp

section \<open>Properties\<close>

text \<open>\<open>bootenv_init\<close> tries to load the environment five times, but only the first four
  attempts count: when opening the device fails up to three times it returns 0; when it
  fails exactly four times, the fifth attempt loads the environment and counts the process
  in the shared object, and still -2 is returned and the process stays uninitialised.
\<close>

theorem bootenv_init_fifth_attempt:
  assumes "env_nodes ops" and "shm_laws ops" and "flaky_laws ops env_geo content fails"
    and "img_holds cfg env_geo (content (dv s)) kvs" and "shm_name s = None" and "fails (dv s) \<le> 4"
  shows "\<exists>s' p'. bootenv_init cfg ops (s, fresh_proc) = Some (if fails (dv s) = 4 then -2 else 0, s', p')
    \<and> gs_kv p' = kvs \<and> sh_refcnt (objs s' ! length (objs s)) = 1 \<and> gs_init_done p' = (fails (dv s) \<noteq> 4)"
proof -
  let ?a = "length (objs s)" and ?n = "unat (ge_size env_geo)"
  let ?s = "s\<lparr>shm_name := Some ?a, objs := objs s @ [zero_obj ?n]\<rparr>"
  let ?p = "env_proc\<lparr>gs_shm_available := True, gs_env_shm_info := ShmObj ?a\<rparr>"
  have acq: "acquire_envimg_buffer ops (s, env_proc) = (True, ?s, ?p)"
    using assms(2,5) by (simp add: acquire_envimg_buffer_def shm_laws_def shm_open_def zero_obj_def Let_def)
  have op: "is_opening env_geo ?a ?s ?p" by (simp add: is_opening_def zero_obj_def) (simp add: env_proc_def fresh_proc_def)
  have eq: "init_retry cfg ops (Suc 4) (-1) (s, env_proc) = init_retry cfg ops (Suc 4) (-1) (?s, ?p)"
    by (rule init_retry_acquired[OF load_acquired[OF acq acquire_opening[OF op]]])
  obtain s' p' where "init_retry cfg ops 5 (-1) (?s, ?p) = Some (5 - Suc (fails (dv ?s)), s', p')"
    and r: "gs_kv p' = kvs" "\<not> gs_init_done p'" "sh_refcnt (objs s' ! ?a) = 1"
    using init_retry_flaky[OF assms(3) env_geo_ok op, of cfg kvs 5] assms(4,6) by auto
  then have run: "init_retry cfg ops MAX_UBOOT_RWRETRY (-1) (s, env_proc) = Some (4 - fails (dv s), s', p')"
    using eq by (simp add: MAX_UBOOT_RWRETRY_def)
  have "\<not> gs_init_done fresh_proc" by (simp add: fresh_proc_def)
  then have init: "bootenv_init cfg ops (s, fresh_proc) = (if 4 - fails (dv s) = 0 then Some (-2, s', p')
      else Some (0, s', p'\<lparr>gs_init_done := True\<rparr>))"
    using run assms(1) by (simp add: bootenv_init_def init_device_env)
  show ?thesis
    using init r assms(6)
    by (cases "fails (dv s) = 4") (auto intro!: exI[of _ s'])
qed

text \<open>A device in memory whose \<open>open\<close> fails as often as the first component of its state says.\<close>

definition flaky_uenv :: "(nat \<times> string) uenv_ops" where
  "flaky_uenv = \<lparr>uo_open = (\<lambda>(n, c) _. (n = 0, (n - 1, c))),
     uo_read = (\<lambda>d _ n. (Some (take n (ram_content (snd d))), d)),
     uo_write = (\<lambda>d _ bs. (int (length bs), (fst d, bs))), uo_info = (\<lambda>d _. (None, d)), uo_erase = (\<lambda>d _ _. (-1, d)),
     uo_fdopen = (\<lambda>d. (True, d)), uo_malloc = (\<lambda>d. (True, d)), uo_nodes = (\<lambda>_. 0x10000),
     uo_stat = (\<lambda>_ n. n = ''/dev/env''), uo_proc_mtd = (\<lambda>_. OpenFails), uo_shm_access = (\<lambda>_. True),
     uo_shm_create = (\<lambda>d. (True, d)), uo_shm_open = (\<lambda>d. (True, d)), uo_truncate = (\<lambda>d. (True, d)),
     uo_mmap = (\<lambda>d. (True, d)), uo_munmap = (\<lambda>d. (True, d)), uo_unlink = (\<lambda>d. (True, d))\<rparr>"

theorem bootenv_init_fifth_attempt_witness:
  "\<exists>s' p'. bootenv_init arm_cfg flaky_uenv
      (\<lparr>dv = (4, env_image arm_cfg demo_kvs), objs = [], shm_name = None\<rparr>, fresh_proc) = Some (-2, s', p')
    \<and> gs_kv p' = demo_kvs \<and> \<not> gs_init_done p'"
proof -
  have laws: "env_nodes flaky_uenv" "shm_laws flaky_uenv" "flaky_laws flaky_uenv env_geo (ram_content \<circ> snd) fst"
    by (auto simp: env_nodes_def shm_laws_def flaky_laws_def flaky_uenv_def env_geo_def split: prod.splits)
  have "img_holds arm_cfg env_geo (ram_content (env_image arm_cfg demo_kvs)) demo_kvs"
    using demo_holds by (simp add: demo_boot_def)
  then show ?thesis
    using bootenv_init_fifth_attempt[OF laws, of arm_cfg "\<lparr>dv = (4, env_image arm_cfg demo_kvs), objs = [], shm_name = None\<rparr>" demo_kvs]
    by auto
qed

section \<open>The lock under contention\<close>

lemma lock_loop_result:
  "i \<le> lock_loop seen i (int n) \<and> lock_loop seen i (int n) \<le> i + n
   \<and> (\<forall>j. i \<le> j \<and> j < lock_loop seen i (int n) \<longrightarrow> seen j)
   \<and> (seen (lock_loop seen i (int n)) \<longrightarrow> lock_loop seen i (int n) = i + n)"
proof (induction n arbitrary: i)
  case 0
  have "lock_loop seen i (int 0) = i" by (simp add: lock_loop.simps)
  then show ?case by auto
next
  case (Suc n)
  show ?case
  proof (cases "seen i")
    case True
    then have "lock_loop seen i (int (Suc n)) = lock_loop seen (Suc i) (int n)"
      by (subst lock_loop.simps) simp
    moreover have "seen j" if "i \<le> j" "j < lock_loop seen (Suc i) (int n)" for j
      using that Suc.IH[of "Suc i"] True by (cases "j = i") auto
    ultimately show ?thesis using Suc.IH[of "Suc i"] by simp
  next
    case False
    then show ?thesis by (auto simp: lock_free)
  qed
qed

text \<open>
  C10: \<open>envimg_buffer_lock\<close> makes at most 1001 attempts to take the lock. It stops at the first
  attempt that finds the lock free; when the lock was taken at all of them, it returns all
  the same, and the caller goes on without holding the lock.
\<close>

theorem envimg_lock_gives_up:
  "lock_loop seen 0 1000 \<le> 1000
   \<and> (\<forall>j. j < lock_loop seen 0 1000 \<longrightarrow> seen j)
   \<and> (seen (lock_loop seen 0 1000) \<longleftrightarrow> (\<forall>j \<le> 1000. seen j))"
proof -
  have r: "lock_loop seen 0 1000 \<le> 1000" "\<forall>j < lock_loop seen 0 1000. seen j"
    "seen (lock_loop seen 0 1000) \<Longrightarrow> lock_loop seen 0 1000 = 1000"
    using lock_loop_result[of 0 seen 1000] by auto
  then show ?thesis by (metis le_neq_implies_less)
qed

theorem envimg_lock_gives_up_witness:
  "lock_loop (\<lambda>j. j < 3) 0 1000 = 3 \<and> lock_loop (\<lambda>_. True) 0 1000 = 1000"
proof -
  have "\<not> lock_loop (\<lambda>j. j < 3) 0 1000 < 3"
    using envimg_lock_gives_up[of "\<lambda>j. j < 3"] by auto
  moreover have "\<not> 3 < lock_loop (\<lambda>j. j < 3) 0 1000"
    using envimg_lock_gives_up[of "\<lambda>j. j < 3"] by (metis less_irrefl)
  moreover have "lock_loop (\<lambda>_. True) 0 1000 = 1000"
    using lock_loop_result[of 0 "\<lambda>_. True" 1000] by simp
  ultimately show ?thesis by simp
qed

section \<open>The table of MTD partitions\<close>

lemma scan_word_length: "scan_word n s = Some (w, r) \<Longrightarrow> length w \<le> n \<and> w \<noteq> []"
  by (auto simp: scan_word_def Let_def split: if_splits)

lemma mtd_sscanf15_length: "mtd_sscanf15 s = Some (i, w) \<Longrightarrow> length w \<le> 15"
  by (auto simp: mtd_sscanf15_def bind_eq_Some_conv dest: scan_word_length split: prod.splits)

lemma find_mtd_loop_bounded:
  "length parts = nat count \<Longrightarrow> 0 \<le> count \<Longrightarrow> count \<le> 20 \<Longrightarrow> list_all (\<lambda>e. length (fst e) \<le> 14) parts
   \<Longrightarrow> find_mtd_loop parts count buf = (parts', count')
   \<Longrightarrow> length parts' = nat count' \<and> 0 \<le> count' \<and> count' \<le> 20 \<and> list_all (\<lambda>e. length (fst e) \<le> 14) parts'"
proof (induction parts count buf arbitrary: parts' count' rule: find_mtd_loop.induct)
  case (1 parts count buf)
  have short: "length (takeWhile P (tl w)) \<le> 14" if "mtd_sscanf15 s = Some (i, w)" for P s i w
  proof -
    have "length (takeWhile P (tl w)) \<le> length (tl w)" by (rule length_takeWhile_le)
    also have "\<dots> \<le> 14" using mtd_sscanf15_length[OF that] by simp
    finally show ?thesis .
  qed
  note run = "1.prems"(5)[unfolded find_mtd_loop.simps[of parts count buf]]
  show ?case
  proof (cases "buf = []")
    case True
    then show ?thesis using "1.prems"(1-4) run by simp
  next
    case False
    show ?thesis
    proof (cases "mtd_sscanf15 (cstr buf)")
      case None
      then show ?thesis using "1.IH"(1)[OF False None "1.prems"(1-4)] run False by simp
    next
      case (Some r)
      obtain i w where r: "r = (i, w)" by (cases r)
      show ?thesis
      proof (cases "w ! 0 = CHR 0x22 \<and> count < MAX_MTD_PARTITIONS")
        case True
        then show ?thesis
          using "1.IH"(2)[OF False Some r[symmetric] True, of parts' count'] "1.prems"(1-4) run False Some r short
          by (simp add: MAX_MTD_PARTITIONS_def nat_add_distrib)
      next
        case no: False
        then have "find_mtd_loop parts count (eat_line buf) = (parts', count')"
          using run False Some r by (auto split: if_splits)
        then show ?thesis using "1.IH"(3)[OF False Some r[symmetric] no "1.prems"(1-4)] by simp
      qed
    qed
  qed
qed

text \<open>
  C11: whatever \<open>/proc/mtd\<close> contains, looking up a partition from a fresh process leaves a
  table of at most 20 entries, as many as \<open>mtd_part_count\<close> says, each with a name that fits
  into its 16 bytes with the terminating NUL.
\<close>

theorem mtd_table_bounded:
  "mtd_part_count (snd (snd (mtd_name_to_number ops name (s, fresh_proc))))
     = int (length (mtd_part_map (snd (snd (mtd_name_to_number ops name (s, fresh_proc))))))
   \<and> length (mtd_part_map (snd (snd (mtd_name_to_number ops name (s, fresh_proc))))) \<le> 20
   \<and> list_all (\<lambda>e. length (fst e) + 1 \<le> 16) (mtd_part_map (snd (snd (mtd_name_to_number ops name (s, fresh_proc)))))"
proof -
  obtain parts count where f: "find_mtd_partitions (uo_proc_mtd ops (dv s)) [] 0 = (parts, count)"
    by (cases "find_mtd_partitions (uo_proc_mtd ops (dv s)) [] 0")
  have "length parts = nat count \<and> 0 \<le> count \<and> count \<le> 20 \<and> list_all (\<lambda>e. length (fst e) \<le> 14) parts"
    using f find_mtd_loop_bounded[of "[]" 0 _ parts count]
    by (auto simp: find_mtd_partitions_def split: proc_file.splits)
  moreover have "snd (snd (mtd_name_to_number ops name (s, fresh_proc))) = fresh_proc\<lparr>mtd_part_map := parts, mtd_part_count := count\<rparr>"
    using f by (simp add: mtd_name_to_number_def fresh_proc_def)
  ultimately show ?thesis by (auto simp: list_all_iff)
qed

end
