(* ===== verification/AutoShutdown.thy ===== *)
theory AutoShutdown
  imports CText
begin

text \<open>
  \<open>utils/auto_shutdown.c\<close>: the daemon that powers the device off when USB and Bluetooth have
  been disconnected and no key has been pressed for a while. Its globals and the interval
  timer of the kernel are the record \<open>ad_state\<close>; each handler (of a uevent, of a message of the
  Bluetooth server, of key events, of the alarm signal) is a function, and the daemon is a
  state machine whose events are the inputs of the handlers and the ticks of the clock. The
  handlers run in two threads; each is short and is taken as one step.
\<close>

section \<open>State\<close>

definition POWER_OFF_TIME_DEFAULT :: int where "POWER_OFF_TIME_DEFAULT = 45"
definition POWER_OFF_TIME_MIN :: int where "POWER_OFF_TIME_MIN = 5"
definition POWER_OFF_TIME_MAX :: int where "POWER_OFF_TIME_MAX = 90"
definition MIN_TO_SEC :: int where "MIN_TO_SEC = 60"

datatype usb_conn = USB_DISCONNECT | USB_CONNECT

datatype hfp_state = HFP_STATE_DISCONNECT | HFP_STATE_CONNECT | HFP_STATE_CALL_IN | HFP_STATE_CALL_OUT
  | HFP_STATE_CALL_OUT_RINGING | HFP_STATE_CALL_IN_OUT_OVER | HFP_STATE_CALL_START | HFP_STATE_CALL_ENDED

text \<open>\<open>timer\<close>: the seconds until the alarm, if it is set. \<open>shutdowns\<close> counts the runs of the
  shutdown script.\<close>

record ad_state =
  usb_state :: usb_conn
  bt_state :: hfp_state
  timing_time_sec :: nat
  timer :: "nat option"
  shutdowns :: nat

section \<open>The timer\<close>

definition stop_timer :: "ad_state \<Rightarrow> ad_state" where
  "stop_timer s = s\<lparr>timer := None\<rparr>"

text \<open>\<open>setitimer\<close> with 0 seconds disarms.\<close>

definition start_timer :: "nat \<Rightarrow> ad_state \<Rightarrow> ad_state" where
  "start_timer nsec s = s\<lparr>timer := (if nsec = 0 then None else Some nsec)\<rparr>"

definition check_to_start_timer :: "ad_state \<Rightarrow> ad_state" where
  "check_to_start_timer s =
     (if usb_state s = USB_DISCONNECT \<and> bt_state s = HFP_STATE_DISCONNECT
      then start_timer (timing_time_sec s) s else s)"

definition timer_handle :: "ad_state \<Rightarrow> ad_state" where
  "timer_handle s = s\<lparr>shutdowns := shutdowns s + 1\<rparr>"

text \<open>One second passes; the alarm is not repeated (\<open>it_interval\<close> is 0).\<close>

definition clock_tick :: "ad_state \<Rightarrow> ad_state" where
  "clock_tick s = (case timer s of
     None \<Rightarrow> s
   | Some n \<Rightarrow> if n \<le> 1 then timer_handle (s\<lparr>timer := None\<rparr>) else s\<lparr>timer := Some (n - 1)\<rparr>)"

section \<open>USB\<close>

text \<open>\<open>fgets (buffer, MIN_SIZE, fp)\<close>: at most 29 characters of the first line; the file is
  \<^const>\<open>None\<close> when it cannot be opened.\<close>

definition fgets30 :: "string \<Rightarrow> string option" where
  "fgets30 content = (if content = [] then None
     else let line = takeWhile (\<lambda>c. c \<noteq> CHR 0x0A) content; l = line @ take 1 (drop (length line) content)
       in Some (take 29 l))"

definition usb_state_change :: "string option \<Rightarrow> ad_state \<Rightarrow> ad_state" where
  "usb_state_change file s = (case file of
     None \<Rightarrow> s
   | Some content \<Rightarrow>
       (case fgets30 content of
          None \<Rightarrow> s
        | Some buf \<Rightarrow>
            if strncmp_eq ''DISCONNECTED'' buf 12 then check_to_start_timer (s\<lparr>usb_state := USB_DISCONNECT\<rparr>)
            else if strncmp_eq ''CONFIGURED'' buf 10 then stop_timer (s\<lparr>usb_state := USB_CONNECT\<rparr>)
            else s))"

text \<open>\<open>msg\<close>: what \<open>recv\<close> put into the buffer of 2048 zeroed bytes (empty: nothing or an error).\<close>

definition usb_state_read :: "string \<Rightarrow> string option \<Rightarrow> ad_state \<Rightarrow> ad_state" where
  "usb_state_read msg file s = (if msg \<noteq> [] \<and> strstr (cstr msg) ''usb'' \<noteq> None then usb_state_change file s else s)"

section \<open>Bluetooth\<close>

definition HFP_EVENT_CONNECTION :: nat where "HFP_EVENT_CONNECTION = 1"
definition HFP_EVENT_CALL :: nat where "HFP_EVENT_CALL = 2"
definition HFP_EVENT_CALLSETUP :: nat where "HFP_EVENT_CALLSETUP = 3"

lemmas hfp_consts = HFP_EVENT_CONNECTION_def HFP_EVENT_CALL_def HFP_EVENT_CALLSETUP_def

definition msg_handler :: "nat \<Rightarrow> nat \<Rightarrow> ad_state \<Rightarrow> ad_state" where
  "msg_handler event v s =
     (if event = HFP_EVENT_CONNECTION then
        (if v = 0 then check_to_start_timer (s\<lparr>bt_state := HFP_STATE_DISCONNECT\<rparr>)
         else if v = 1 then stop_timer (s\<lparr>bt_state := HFP_STATE_CONNECT\<rparr>)
         else s)
      else if event = HFP_EVENT_CALL then
        (if v = 0 then s\<lparr>bt_state := HFP_STATE_CALL_START\<rparr>
         else if v = 1 then s\<lparr>bt_state := HFP_STATE_CALL_ENDED\<rparr>
         else s)
      else if event = HFP_EVENT_CALLSETUP then
        (if v = 0 then (if bt_state s \<noteq> HFP_STATE_CALL_START then s\<lparr>bt_state := HFP_STATE_CALL_IN_OUT_OVER\<rparr> else s)
         else if v = 1 then s\<lparr>bt_state := HFP_STATE_CALL_IN\<rparr>
         else if v = 2 then s\<lparr>bt_state := HFP_STATE_CALL_OUT\<rparr>
         else if v = 3 then s\<lparr>bt_state := HFP_STATE_CALL_OUT_RINGING\<rparr>
         else s)
      else s)"

text \<open>The pairs of bytes of a message; a last odd byte is left out.\<close>

fun msg_loop :: "string \<Rightarrow> ad_state \<Rightarrow> ad_state" where
  "msg_loop (e # v # rest) s = msg_loop rest (msg_handler (cval e) (cval v) s)"
| "msg_loop _ s = s"

text \<open>\<open>recv\<close>: an error, or the bytes received, at most 64; none at all: the server is gone.\<close>

definition bt_state_read :: "string option \<Rightarrow> ad_state \<Rightarrow> int \<times> ad_state" where
  "bt_state_read msg s = (case msg of
     None \<Rightarrow> (0, s)
   | Some bytes \<Rightarrow>
       if bytes = [] then (-1, check_to_start_timer (s\<lparr>bt_state := HFP_STATE_DISCONNECT\<rparr>))
       else (0, msg_loop bytes s))"

section \<open>Keys\<close>

text \<open>The complete \<open>input_event\<close>s read (type and value), at most five; none: the read failed.\<close>

fun key_loop :: "(nat \<times> int) list \<Rightarrow> ad_state \<Rightarrow> ad_state" where
  "key_loop [] s = s"
| "key_loop ((typ, v) # evs) s =
     key_loop evs (if typ \<noteq> 0 then (if v = 1 then stop_timer s else if v = 0 then check_to_start_timer s else s) else s)"

definition key_state_read :: "(nat \<times> int) list \<Rightarrow> ad_state \<Rightarrow> int \<times> ad_state" where
  "key_state_read evs s = (if evs = [] then (1, s) else (0, key_loop evs s))"

section \<open>The daemon\<close>

text \<open>\<open>timing_time_sec\<close> from the argument; \<^const>\<open>None\<close>: \<open>atoi\<close> of a number no \<open>int\<close> holds.\<close>

definition timing_of_arg :: "string \<Rightarrow> nat option" where
  "timing_of_arg arg = (case atoi arg of
     None \<Rightarrow> None
   | Some m \<Rightarrow>
       let timing_time_min =
         (if m \<noteq> 0 then (if m < POWER_OFF_TIME_MIN \<or> m > POWER_OFF_TIME_MAX then POWER_OFF_TIME_DEFAULT else m)
          else POWER_OFF_TIME_DEFAULT)
       in Some (nat (timing_time_min * MIN_TO_SEC)))"

text \<open>What \<open>main\<close> does before its loop; \<open>usb_ok\<close>: the uevent socket could be opened. The
  program ends with -1 when it has not exactly one argument.\<close>

definition auto_init :: "string list \<Rightarrow> bool \<Rightarrow> string option \<Rightarrow> (int + ad_state) option" where
  "auto_init args usb_ok file =
     (case args of
        [arg] \<Rightarrow> (case timing_of_arg arg of
          None \<Rightarrow> None
        | Some t \<Rightarrow>
            let s = \<lparr>usb_state = USB_CONNECT, bt_state = HFP_STATE_DISCONNECT, timing_time_sec = t,
                     timer = None, shutdowns = 0\<rparr>
            in Some (Inr (if usb_ok then check_to_start_timer (usb_state_change file s) else s)))
      | _ \<Rightarrow> Some (Inl (-1)))"

datatype ad_event = UsbEvent string "string option" | BtEvent "string option" | KeyEvent "(nat \<times> int) list" | Tick

fun ad_step :: "ad_event \<Rightarrow> ad_state \<Rightarrow> ad_state" where
  "ad_step (UsbEvent msg file) s = usb_state_read msg file s"
| "ad_step (BtEvent msg) s = snd (bt_state_read msg s)"
| "ad_step (KeyEvent evs) s = snd (key_state_read evs s)"
| "ad_step Tick s = clock_tick s"

definition ad_run :: "ad_event list \<Rightarrow> ad_state \<Rightarrow> ad_state" where
  "ad_run evs s = foldl (\<lambda>s e. ad_step e s) s evs"

section \<open>The protocol of the Bluetooth server\<close>

text \<open>Call events are about a connected device: the server sends them between a connection
  and a disconnection. \<open>calls_connected c bytes\<close> says so of a message, \<open>c\<close> telling whether a
  device is connected before it.\<close>

fun calls_connected :: "bool \<Rightarrow> string \<Rightarrow> bool" where
  "calls_connected c (e # v # rest) =
     (if cval e = HFP_EVENT_CONNECTION then calls_connected (if cval v = 0 then False else if cval v = 1 then True else c) rest
      else if cval e = HFP_EVENT_CALL \<or> cval e = HFP_EVENT_CALLSETUP then c \<and> calls_connected c rest
      else calls_connected c rest)"
| "calls_connected c _ = True"

inductive ad_reach :: "ad_state \<Rightarrow> ad_state \<Rightarrow> bool" for s0 where
  init: "ad_reach s0 s0"
| usb: "ad_reach s0 s \<Longrightarrow> ad_reach s0 (ad_step (UsbEvent msg file) s)"
| bt_error: "ad_reach s0 s \<Longrightarrow> ad_reach s0 (ad_step (BtEvent None) s)"
| bt: "ad_reach s0 s \<Longrightarrow> calls_connected (bt_state s \<noteq> HFP_STATE_DISCONNECT) bytes
    \<Longrightarrow> ad_reach s0 (ad_step (BtEvent (Some bytes)) s)"
| key: "ad_reach s0 s \<Longrightarrow> ad_reach s0 (ad_step (KeyEvent evs) s)"
| tick: "ad_reach s0 s \<Longrightarrow> ad_reach s0 (ad_step Tick s)"

inductive_cases ad_reachE: "ad_reach s0 s"

section \<open>Invariant\<close>

definition idle :: "ad_state \<Rightarrow> bool" where
  "idle s \<longleftrightarrow> usb_state s = USB_DISCONNECT \<and> bt_state s = HFP_STATE_DISCONNECT"

text \<open>The alarm is set only in an idle device, and never to more than the configured time.\<close>

definition ad_inv :: "ad_state \<Rightarrow> bool" where
  "ad_inv s \<longleftrightarrow> (case timer s of None \<Rightarrow> True | Some n \<Rightarrow> idle s \<and> 0 < n \<and> n \<le> timing_time_sec s)"

lemma inv_check [intro]: "ad_inv s \<Longrightarrow> ad_inv (check_to_start_timer s)"
  by (simp add: ad_inv_def check_to_start_timer_def start_timer_def idle_def)

lemma inv_stop [intro]: "ad_inv (stop_timer s)"
  by (simp add: ad_inv_def stop_timer_def)

text \<open>Disconnecting: the state becomes idle or the alarm was not set.\<close>

lemma inv_usb_off: "ad_inv s \<Longrightarrow> ad_inv (check_to_start_timer (s\<lparr>usb_state := USB_DISCONNECT\<rparr>))"
  by (auto simp: ad_inv_def check_to_start_timer_def start_timer_def idle_def split: option.splits)

lemma inv_bt_off: "ad_inv s \<Longrightarrow> ad_inv (check_to_start_timer (s\<lparr>bt_state := HFP_STATE_DISCONNECT\<rparr>))"
  by (auto simp: ad_inv_def check_to_start_timer_def start_timer_def idle_def split: option.splits)

lemma inv_usb: "ad_inv s \<Longrightarrow> ad_inv (usb_state_change file s)"
  by (auto simp: usb_state_change_def inv_usb_off split: option.split)

lemma inv_connected: "ad_inv s \<Longrightarrow> bt_state s \<noteq> HFP_STATE_DISCONNECT \<Longrightarrow> ad_inv (s\<lparr>bt_state := b\<rparr>)"
  by (auto simp: ad_inv_def idle_def split: option.splits)

lemma timer_bt_state [simp]: "bt_state (check_to_start_timer s) = bt_state s" "bt_state (stop_timer s) = bt_state s"
  by (simp_all add: check_to_start_timer_def start_timer_def stop_timer_def)

lemma inv_msg_handler:
  assumes "ad_inv s" and "calls_connected (bt_state s \<noteq> HFP_STATE_DISCONNECT) (e # v # rest)"
  shows "ad_inv (msg_handler (cval e) (cval v) s)"
    and "calls_connected (bt_state (msg_handler (cval e) (cval v) s) \<noteq> HFP_STATE_DISCONNECT) rest"
proof -
  show "ad_inv (msg_handler (cval e) (cval v) s)"
    using assms by (simp add: msg_handler_def inv_bt_off inv_connected inv_stop hfp_consts split: if_splits)
  show "calls_connected (bt_state (msg_handler (cval e) (cval v) s) \<noteq> HFP_STATE_DISCONNECT) rest"
    using assms(2) by (auto simp: msg_handler_def hfp_consts split: if_splits)
qed

lemma inv_msg_loop:
  "ad_inv s \<Longrightarrow> calls_connected (bt_state s \<noteq> HFP_STATE_DISCONNECT) bytes \<Longrightarrow> ad_inv (msg_loop bytes s)"
proof (induction bytes s rule: msg_loop.induct)
  case (1 e v rest s)
  then show ?case using inv_msg_handler[of s e v rest] by (simp del: calls_connected.simps(1))
qed simp_all

lemma inv_key_loop: "ad_inv s \<Longrightarrow> ad_inv (key_loop evs s)"
  by (induction evs s rule: key_loop.induct) (simp_all add: inv_check inv_stop)

lemma inv_tick: "ad_inv s \<Longrightarrow> ad_inv (clock_tick s)"
  by (auto simp: ad_inv_def clock_tick_def timer_handle_def idle_def split: option.splits)

lemma ad_reach_inv: "ad_reach s0 s \<Longrightarrow> ad_inv s0 \<Longrightarrow> ad_inv s"
proof (induction rule: ad_reach.induct)
  case (bt s bytes)
  then show ?case by (auto simp: bt_state_read_def inv_bt_off inv_msg_loop)
qed (auto simp: usb_state_read_def inv_usb bt_state_read_def key_state_read_def inv_key_loop inv_tick)

lemma auto_init_inv: "auto_init args usb_ok file = Some (Inr s) \<Longrightarrow> ad_inv s \<and> shutdowns s = 0"
proof -
  assume a: "auto_init args usb_ok file = Some (Inr s)"
  then obtain arg t where t: "args = [arg]" "timing_of_arg arg = Some t"
    by (auto simp: auto_init_def split: list.splits option.splits)
  let ?s = "\<lparr>usb_state = USB_CONNECT, bt_state = HFP_STATE_DISCONNECT, timing_time_sec = t, timer = None, shutdowns = 0\<rparr>"
  have s: "s = (if usb_ok then check_to_start_timer (usb_state_change file ?s) else ?s)"
    using a t by (simp add: auto_init_def Let_def)
  have "ad_inv ?s" by (simp add: ad_inv_def)
  moreover have "shutdowns (check_to_start_timer (usb_state_change file ?s)) = 0"
    by (simp add: check_to_start_timer_def start_timer_def usb_state_change_def stop_timer_def split: option.split)
  ultimately show ?thesis by (simp add: s inv_check inv_usb)
qed

section \<open>Properties\<close>

lemma shutdowns_only_tick [simp]:
  "shutdowns (check_to_start_timer s) = shutdowns s" "shutdowns (stop_timer s) = shutdowns s"
  "shutdowns (usb_state_change file s) = shutdowns s" "shutdowns (msg_handler e v s) = shutdowns s"
  by (simp_all add: check_to_start_timer_def start_timer_def stop_timer_def usb_state_change_def msg_handler_def
      split: option.split)

lemma shutdowns_msg_loop [simp]: "shutdowns (msg_loop bytes s) = shutdowns s"
  by (induction bytes s rule: msg_loop.induct) simp_all

lemma shutdowns_key_loop [simp]: "shutdowns (key_loop evs s) = shutdowns s"
  by (induction evs s rule: key_loop.induct) simp_all

text \<open>C26: the device is powered off only when it is idle. In every state the daemon reaches from
  its start, as long as the Bluetooth server sends call events only about a connected
  device, the step that runs the shutdown script is a tick of the clock, and then USB is
  disconnected, no hands-free device is connected and the alarm was due.
\<close>

theorem shutdown_only_when_idle:
  assumes "auto_init args usb_ok file = Some (Inr s0)" and "ad_reach s0 s"
    and "shutdowns (ad_step e s) \<noteq> shutdowns s"
  shows "e = Tick \<and> usb_state s = USB_DISCONNECT \<and> bt_state s = HFP_STATE_DISCONNECT \<and> timer s = Some 1"
proof -
  have inv: "ad_inv s" using ad_reach_inv[OF assms(2)] auto_init_inv[OF assms(1)] by blast
  have "e = Tick"
    using assms(3) by (cases e) (auto simp: usb_state_read_def bt_state_read_def key_state_read_def split: option.splits if_splits)
  moreover obtain n where n: "timer s = Some n" "n \<le> 1"
    using assms(3) \<open>e = Tick\<close> by (auto simp: clock_tick_def split: option.splits if_splits)
  moreover have "n = 1" using inv n by (simp add: ad_inv_def)
  ultimately show ?thesis using inv by (simp add: ad_inv_def idle_def)
qed

definition ad_demo :: ad_state where
  "ad_demo = \<lparr>usb_state = USB_DISCONNECT, bt_state = HFP_STATE_DISCONNECT, timing_time_sec = 300,
     timer = Some 300, shutdowns = 0\<rparr>"

lemma ad_demo_init: "auto_init [''5''] True (Some ''DISCONNECTED'') = Some (Inr ad_demo)"
proof -
  have "atoi ''5'' = Some 5"
    by (simp add: atoi_def scan_dec_def skip_ws_def isspace_def cval_def isdigit_def digits_val_def xdigit_val_def)
  then have t: "timing_of_arg ''5'' = Some 300"
    by (simp add: timing_of_arg_def POWER_OFF_TIME_MIN_def POWER_OFF_TIME_MAX_def MIN_TO_SEC_def)
  have "fgets30 ''DISCONNECTED'' = Some ''DISCONNECTED''" by (simp add: fgets30_def Let_def)
  then show ?thesis
    by (simp add: auto_init_def t usb_state_change_def strncmp_eq_def check_to_start_timer_def start_timer_def ad_demo_def)
qed

lemma ad_reach_ticks: "ad_reach s0 ((clock_tick ^^ n) s0)"
  by (induction n) (use ad_reach.tick ad_reach.init in auto)

lemma ticks_countdown:
  "timer s = Some n \<Longrightarrow> k < n \<Longrightarrow> (clock_tick ^^ k) s = s\<lparr>timer := Some (n - k)\<rparr>"
  by (induction k) (simp_all add: clock_tick_def)

lemma ticks_unarmed: "timer s = None \<Longrightarrow> (clock_tick ^^ k) s = s"
  by (induction k) (simp_all add: clock_tick_def)

lemma foldl_ticks: "foldl (\<lambda>s e. ad_step e s) s (replicate k Tick) = (clock_tick ^^ k) s"
  by (induction k arbitrary: s) (simp_all add: funpow_swap1)

theorem shutdown_only_when_idle_witness:
  "timer ((clock_tick ^^ 299) ad_demo) = Some 1 \<and> shutdowns (ad_step Tick ((clock_tick ^^ 299) ad_demo)) = 1"
proof -
  have s: "(clock_tick ^^ 299) ad_demo = ad_demo\<lparr>timer := Some 1\<rparr>"
    using ticks_countdown[of ad_demo 300 299] by (simp add: ad_demo_def)
  have "shutdowns (ad_step Tick ((clock_tick ^^ 299) ad_demo)) = 1"
    unfolding s by (simp add: clock_tick_def timer_handle_def ad_demo_def)
  then show ?thesis
    using shutdown_only_when_idle[OF ad_demo_init ad_reach_ticks, of Tick 299] by (simp add: s)
qed

text \<open>C27: the alarm is exact. After a key is released in an idle device the script has not run
  for fewer seconds than configured without further events, runs once in the last of them,
  and does not run again however long nothing happens.
\<close>

theorem shutdown_after_exact_time:
  assumes "usb_state s = USB_DISCONNECT" and "bt_state s = HFP_STATE_DISCONNECT" and "0 < timing_time_sec s"
    and "typ \<noteq> 0"
  shows "shutdowns (ad_run (KeyEvent [(typ, 0)] # replicate k Tick) s)
    = (if k < timing_time_sec s then shutdowns s else shutdowns s + 1)"
proof -
  let ?t = "timing_time_sec s" and ?s = "s\<lparr>timer := Some (timing_time_sec s)\<rparr>"
  have "ad_run (KeyEvent [(typ, 0)] # replicate k Tick) s = (clock_tick ^^ k) ?s"
    using assms by (simp add: ad_run_def key_state_read_def check_to_start_timer_def start_timer_def foldl_ticks)
  moreover have "shutdowns ((clock_tick ^^ k) ?s) = shutdowns s" if "k < ?t"
    using ticks_countdown[of ?s ?t k] that by simp
  moreover have "shutdowns ((clock_tick ^^ k) ?s) = shutdowns s + 1" if ge: "\<not> k < ?t"
  proof -
    obtain m where m: "?t = Suc m" using assms(3) by (cases ?t) auto
    have "(clock_tick ^^ m) ?s = ?s\<lparr>timer := Some 1\<rparr>"
      using ticks_countdown[of ?s ?t m] m by simp
    then have "(clock_tick ^^ ?t) ?s = timer_handle (?s\<lparr>timer := None\<rparr>)"
      by (simp add: m clock_tick_def)
    then have "(clock_tick ^^ (k - ?t + ?t)) ?s = timer_handle (?s\<lparr>timer := None\<rparr>)"
      by (simp only: funpow_add o_apply) (simp add: ticks_unarmed timer_handle_def)
    then show ?thesis using ge by (simp add: timer_handle_def)
  qed
  ultimately show ?thesis by simp
qed

theorem shutdown_after_exact_time_witness:
  "shutdowns (ad_run (KeyEvent [(1, 0)] # replicate 299 Tick) ad_demo) = 0
   \<and> shutdowns (ad_run (KeyEvent [(1, 0)] # replicate 1000 Tick) ad_demo) = 1"
  using shutdown_after_exact_time[of ad_demo 1 299] shutdown_after_exact_time[of ad_demo 1 1000]
  by (simp add: ad_demo_def)

text \<open>
  Cx: a key press, USB becoming configured and a hands-free device connecting each cancel the
  alarm, whatever the state.
\<close>

theorem activity_cancels_alarm:
  "timer (ad_step (KeyEvent [(Suc typ, 1)]) s) = None
   \<and> timer (ad_step (UsbEvent ''change@/devices/usb'' (Some ''CONFIGURED'')) s) = None
   \<and> timer (ad_step (BtEvent (Some [CHR 0x01, CHR 0x01])) s) = None"
proof -
  have "fgets30 ''CONFIGURED'' = Some ''CONFIGURED''" by (simp add: fgets30_def Let_def)
  moreover have "strstr (cstr ''change@/devices/usb'') ''usb'' \<noteq> None" by (simp add: cstr_Cons)
  ultimately have "timer (ad_step (UsbEvent ''change@/devices/usb'' (Some ''CONFIGURED'')) s) = None"
    by (simp add: usb_state_read_def usb_state_change_def strncmp_eq_def stop_timer_def)
  then show ?thesis
    by (simp add: key_state_read_def bt_state_read_def msg_handler_def hfp_consts cval_def stop_timer_def)
qed

text \<open>
  Cx: whatever the argument is, the configured time is between 5 and 90 minutes; a number of
  minutes in that range is used as it is, and anything else (other numbers, text) means the
  default of 45 minutes.
\<close>

theorem timing_clamped:
  "timing_of_arg arg = (case atoi arg of None \<Rightarrow> None
     | Some m \<Rightarrow> Some (if 5 \<le> m \<and> m \<le> 90 then nat (60 * m) else 2700))"
  by (auto simp: timing_of_arg_def POWER_OFF_TIME_MIN_def POWER_OFF_TIME_MAX_def POWER_OFF_TIME_DEFAULT_def
      MIN_TO_SEC_def Let_def mult.commute split: option.split)

end
