(* ===== verification/SocketIpc.thy ===== *)
theory SocketIpc
  imports CText Codec
begin

text \<open>
  \<open>aml_socketipc/aml_socketipc.c\<close>: remote calls over datagram sockets. The first part is the
  wire format: the packing and unpacking of the arguments a format lists, one pair of
  functions per data type (\<open>struct SIPC_DataType\<close>), which is the interface the locale
  \<open>sipc_datatype\<close> states. The second part is the channels: registering functions, dispatching
  a received call, making a call and answering it, and the lists of peers and servers.

  Messages are lists of bytes. \<^const>\<open>None\<close> is undefined behaviour: an argument of another
  type than the format says, a read outside a buffer, an overflow of an \<open>int\<close>.
\<close>

section \<open>Types and values\<close>

definition SIPC_NO_ERR :: int where "SIPC_NO_ERR = 0"
definition SIPC_ERR_PARAM :: int where "SIPC_ERR_PARAM = -1"
definition SIPC_ERR_IO :: int where "SIPC_ERR_IO = -2"
definition SIPC_ERR_DATA :: int where "SIPC_ERR_DATA = -3"
definition SIPC_ERR_NO_FUNC :: int where "SIPC_ERR_NO_FUNC = -4"
definition SIPC_ERR_DUP_FUNC :: int where "SIPC_ERR_DUP_FUNC = -5"
definition SIPC_ERR_NO_IMPL :: int where "SIPC_ERR_NO_IMPL = -6"
definition SIPC_ERR_TIMEOUT :: int where "SIPC_ERR_TIMEOUT = -7"
definition SIPC_ERR_UNKNOWN :: int where "SIPC_ERR_UNKNOWN = -8"

lemmas sipc_codes = SIPC_NO_ERR_def SIPC_ERR_PARAM_def SIPC_ERR_IO_def SIPC_ERR_DATA_def SIPC_ERR_NO_FUNC_def
  SIPC_ERR_DUP_FUNC_def SIPC_ERR_NO_IMPL_def SIPC_ERR_TIMEOUT_def SIPC_ERR_UNKNOWN_def

definition SIPC_MAX_MESSAGE_SIZE :: nat where "SIPC_MAX_MESSAGE_SIZE = 8192"

text \<open>The type ids: the integers 1 to 8 with 1, 1, 2, 2, 4, 4, 8 and 8 bytes, \<open>str\<close> and \<open>ptr\<close>.\<close>

definition ID_i32 :: int where "ID_i32 = 5"
definition ID_str :: int where "ID_str = 9"
definition ID_ptr :: int where "ID_ptr = 10"

text \<open>\<open>g_ipc_buildin_types\<close>: the size of a number's type; 0 for the pointer types.\<close>

definition number_len :: "int \<Rightarrow> nat" where
  "number_len ty = (if ty = 1 \<or> ty = 2 then 1 else if ty = 3 \<or> ty = 4 then 2 else if ty = 5 \<or> ty = 6 then 4
     else if ty = 7 \<or> ty = 8 then 8 else 0)"

text \<open>The arguments of a call: an integer, a C string or \<open>NULL\<close>, a pointer to some bytes (or
  \<open>NULL\<close>) with a length.\<close>

datatype ipc_arg = ArgNum u64 | ArgStr "string option" | ArgPtr "u8 list option" int

text \<open>What unpacking stores: the bytes of an integer, least significant first; the offset of a
  string in the message, or \<open>NULL\<close>; the same with a length.\<close>

datatype ipc_val = ValNum "u8 list" | ValStr "nat option" | ValPtr "nat option" int

section \<open>One argument\<close>

definition le_bytes64 :: "u64 \<Rightarrow> u8 list" where
  "le_bytes64 w = map (\<lambda>i. ucast (drop_bit (8 * i) w)) [0..<8]"

text \<open>An \<open>int32_t\<close> as four bytes, most significant first, and back.\<close>

definition be_bytes32 :: "int \<Rightarrow> u8 list" where
  "be_bytes32 i = rev (le_bytes32 (word_of_int i))"

definition of_be_bytes32 :: "u8 list \<Rightarrow> int" where
  "of_be_bytes32 bs = sint (of_le_bytes32 (rev bs))"

text \<open>
  Packing: the error, or the bytes written; and the arguments left. \<open>len\<close> is the room.
\<close>

definition ipc_pack_number :: "nat \<Rightarrow> int \<Rightarrow> ipc_arg list \<Rightarrow> ((int + u8 list) \<times> ipc_arg list) option" where
  "ipc_pack_number w len va =
     (if len < int w then Some (Inl SIPC_ERR_PARAM, va)
      else case va of
        ArgNum v # va' \<Rightarrow>
          let val64 = (if w = 8 then v else v AND 0xFFFFFFFF)
          in Some (Inr (rev (take w (le_bytes64 val64))), va')
      | _ \<Rightarrow> None)"

definition ipc_pack_pointer :: "int \<Rightarrow> int \<Rightarrow> ipc_arg list \<Rightarrow> ((int + u8 list) \<times> ipc_arg list) option" where
  "ipc_pack_pointer type_id len va =
     (case va of
        ArgStr s # va' \<Rightarrow>
          if type_id \<noteq> ID_str then None
          else
            let tlen = (case s of None \<Rightarrow> 0 | Some t \<Rightarrow> int (length (cstr t)) + 1);
                mem = (case s of None \<Rightarrow> [] | Some t \<Rightarrow> map byte_of (cstr t) @ [0])
            in if tlen + 4 \<ge> 2 ^ 31 then None
               else if len < tlen + 4 then Some (Inl SIPC_ERR_PARAM, va')
               else Some (Inr (be_bytes32 tlen @ mem), va')
      | ArgPtr p tlen # va' \<Rightarrow>
          if type_id \<noteq> ID_ptr then None
          else if tlen < 0 then Some (Inl SIPC_ERR_PARAM, va')
          else if tlen + 4 \<ge> 2 ^ 31 then None
          else if len < tlen + 4 then Some (Inl SIPC_ERR_PARAM, va')
          else if tlen = 0 then Some (Inr (be_bytes32 0), va')
          else (case p of
                  None \<Rightarrow> None
                | Some bs \<Rightarrow> if int (length bs) < tlen then None
                            else Some (Inr (be_bytes32 tlen @ take (nat tlen) bs), va'))
      | _ \<Rightarrow> None)"

text \<open>
  Unpacking at offset \<open>off\<close> of the buffer \<open>mem\<close>, with \<open>len\<close> bytes of the message left (which
  can be negative): the return code, and what was stored.
\<close>

definition ipc_upack_number :: "nat \<Rightarrow> u8 list \<Rightarrow> nat \<Rightarrow> int \<Rightarrow> (int \<times> ipc_val option) option" where
  "ipc_upack_number w mem off len =
     (if len < int w then Some (SIPC_ERR_PARAM, None)
      else if off + w > length mem then None
      else Some (int w, Some (ValNum (rev (get_at mem off w)))))"

definition ipc_upack_pointer :: "int \<Rightarrow> u8 list \<Rightarrow> nat \<Rightarrow> int \<Rightarrow> (int \<times> ipc_val option) option" where
  "ipc_upack_pointer type_id mem off len =
     (if off + 4 > length mem then None
      else
        let tlen = of_be_bytes32 (get_at mem off 4) in
        if tlen < 0 \<and> len < tlen + 4 then Some (SIPC_ERR_PARAM, None)
        else if tlen + 4 \<ge> 2 ^ 31 then None
        else let p = (if tlen \<noteq> 0 then Some (off + 4) else None) in
          Some (tlen + 4, Some (if type_id = ID_ptr then ValPtr p tlen else ValStr p)))"

text \<open>The table's functions for a type id; \<^const>\<open>SIPC_ERR_NO_IMPL\<close> for others.\<close>

definition ipc_pack1 :: "int \<Rightarrow> int \<Rightarrow> ipc_arg list \<Rightarrow> ((int + u8 list) \<times> ipc_arg list) option" where
  "ipc_pack1 ty len va =
     (if 1 \<le> ty \<and> ty \<le> ID_ptr then
        (if ty < ID_str then ipc_pack_number (number_len ty) len va else ipc_pack_pointer ty len va)
      else Some (Inl SIPC_ERR_NO_IMPL, va))"

definition ipc_upack1 :: "int \<Rightarrow> u8 list \<Rightarrow> nat \<Rightarrow> int \<Rightarrow> (int \<times> ipc_val option) option" where
  "ipc_upack1 ty mem off len =
     (if 1 \<le> ty \<and> ty \<le> ID_ptr then
        (if ty < ID_str then ipc_upack_number (number_len ty) mem off len else ipc_upack_pointer ty mem off len)
      else Some (SIPC_ERR_NO_IMPL, None))"

section \<open>Lists of arguments\<close>

text \<open>
  \<open>ipc_pack_va\<close>: the bytes written, whose number is the return code, and the arguments left.
  An argument that cannot be packed ends the loop.
\<close>

fun ipc_pack_va :: "int \<Rightarrow> int list \<Rightarrow> ipc_arg list \<Rightarrow> (u8 list \<times> ipc_arg list) option" where
  "ipc_pack_va len [] va = Some ([], va)"
| "ipc_pack_va len (ch # fmt) va =
     (case ipc_pack1 ch len va of
        None \<Rightarrow> None
      | Some (Inl _, va') \<Rightarrow> Some ([], va')
      | Some (Inr bs, va') \<Rightarrow>
          if bs = [] then Some ([], va')
          else (case ipc_pack_va (len - int (length bs)) fmt va' of
                  None \<Rightarrow> None | Some (rest, va'') \<Rightarrow> Some (bs @ rest, va'')))"

text \<open>\<open>ipc_upack_va\<close>: the return code and what was stored, in order.\<close>

fun ipc_upack_va :: "u8 list \<Rightarrow> nat \<Rightarrow> int \<Rightarrow> int list \<Rightarrow> int \<Rightarrow> (int \<times> ipc_val list) option" where
  "ipc_upack_va mem off len [] ret = Some (ret, [])"
| "ipc_upack_va mem off len (ch # fmt) ret =
     (case ipc_upack1 ch mem off len of
        None \<Rightarrow> None
      | Some (tlen, v) \<Rightarrow>
          let vs = (case v of None \<Rightarrow> [] | Some x \<Rightarrow> [x]) in
          if tlen \<le> 0 then Some (ret, vs)
          else if ret + tlen \<ge> 2 ^ 31 then None
          else (case ipc_upack_va mem (off + nat tlen) (len - tlen) fmt (ret + tlen) of
                  None \<Rightarrow> None | Some (r, vs') \<Rightarrow> Some (r, vs @ vs')))"

section \<open>The interface of a data type\<close>

text \<open>What a stored value denotes, read from the message it points into.\<close>

datatype ipc_read = ReadNum "u8 list" | ReadStr "u8 list option" | ReadPtr "u8 list option" int

definition read_val :: "u8 list \<Rightarrow> ipc_val \<Rightarrow> ipc_read" where
  "read_val mem v = (case v of
     ValNum bs \<Rightarrow> ReadNum bs
   | ValStr p \<Rightarrow> ReadStr (map_option (\<lambda>off. takeWhile (\<lambda>b. b \<noteq> 0) (drop off mem)) p)
   | ValPtr p n \<Rightarrow> ReadPtr (map_option (\<lambda>off. get_at mem off (nat n)) p) n)"

text \<open>
  A data type: its arguments that \<open>fits\<close>, the number of bytes they take, and what the
  receiver reads (\<open>shown\<close>). Packing an argument into enough room gives bytes that unpack,
  wherever they are in a buffer, to what the argument shows.
\<close>

locale sipc_datatype =
  fixes pack :: "int \<Rightarrow> ipc_arg list \<Rightarrow> ((int + u8 list) \<times> ipc_arg list) option"
    and upack :: "u8 list \<Rightarrow> nat \<Rightarrow> int \<Rightarrow> (int \<times> ipc_val option) option"
    and fits :: "ipc_arg \<Rightarrow> bool" and psize :: "ipc_arg \<Rightarrow> nat" and shown :: "ipc_arg \<Rightarrow> ipc_read"
  assumes size_pos: "fits a \<Longrightarrow> 0 < psize a"
    and pack_ok: "fits a \<Longrightarrow> int (psize a) \<le> len \<Longrightarrow> \<exists>bs. pack len (a # va) = Some (Inr bs, va) \<and> length bs = psize a"
    and upack_ok: "fits a \<Longrightarrow> pack len (a # va) = Some (Inr bs, va) \<Longrightarrow> off + length bs \<le> length mem
      \<Longrightarrow> get_at mem off (length bs) = bs \<Longrightarrow> int (length bs) \<le> l
      \<Longrightarrow> \<exists>v. upack mem off l = Some (int (length bs), Some v) \<and> read_val mem v = shown a"
begin

lemma roundtrip:
  assumes "fits a" and "int (psize a) \<le> len"
  obtains bs where "pack len (a # va) = Some (Inr bs, va)" and "length bs = psize a" and "bs \<noteq> []"
    and "\<And>mem off l. off + length bs \<le> length mem \<Longrightarrow> get_at mem off (length bs) = bs \<Longrightarrow> int (length bs) \<le> l
      \<Longrightarrow> \<exists>v. upack mem off l = Some (int (length bs), Some v) \<and> read_val mem v = shown a"
proof -
  obtain bs where bs: "pack len (a # va) = Some (Inr bs, va)" "length bs = psize a"
    using pack_ok[OF assms] by blast
  moreover have "bs \<noteq> []" using bs(2) size_pos[OF assms(1)] by auto
  ultimately show thesis using that upack_ok[OF assms(1) bs(1)] by blast
qed

end

text \<open>Integers of \<open>w\<close> bytes.\<close>

definition num_fits :: "nat \<Rightarrow> ipc_arg \<Rightarrow> bool" where
  "num_fits w a \<longleftrightarrow> (case a of ArgNum v \<Rightarrow> True | _ \<Rightarrow> False)"

definition num_shown :: "nat \<Rightarrow> ipc_arg \<Rightarrow> ipc_read" where
  "num_shown w a = (case a of ArgNum v \<Rightarrow> ReadNum (take w (le_bytes64 v)) | _ \<Rightarrow> ReadNum [])"

lemma length_le_bytes64 [simp]: "length (le_bytes64 w) = 8"
  by (simp add: le_bytes64_def)

lemma le_bytes64_mask: "w \<le> 4 \<Longrightarrow> take w (le_bytes64 (v AND 0xFFFFFFFF)) = take w (le_bytes64 v)"
proof (rule nth_equalityI)
  fix i assume "w \<le> 4" and "i < length (take w (le_bytes64 (v AND 0xFFFFFFFF)))"
  then have i: "i < 4" "i < w" by simp_all
  have m: "(0xFFFFFFFF :: u64) = mask 32" by (simp add: mask_eq_exp_minus_1)
  have "(ucast (drop_bit (8 * i) (v AND 0xFFFFFFFF)) :: u8) = ucast (drop_bit (8 * i) v)"
    unfolding m by (rule bit_word_eqI) (use i in \<open>auto simp: bit_simps\<close>)
  then show "take w (le_bytes64 (v AND 0xFFFFFFFF)) ! i = take w (le_bytes64 v) ! i"
    using i by (simp add: le_bytes64_def)
qed simp

lemma sipc_number: "w \<in> {1, 2, 4, 8} \<Longrightarrow>
  sipc_datatype (ipc_pack_number w) (ipc_upack_number w) (num_fits w) (\<lambda>_. w) (num_shown w)"
proof
  fix a va len bs mem off l
  assume w: "w \<in> {1, 2, 4, 8}" and "num_fits w a"
  then obtain v where a: "a = ArgNum v" by (auto simp: num_fits_def split: ipc_arg.splits)
  have le: "take w (le_bytes64 (if w = 8 then v else v AND 0xFFFFFFFF)) = take w (le_bytes64 v)"
    using w le_bytes64_mask[of w v] by auto
  show "0 < w" using w by auto
  show "\<exists>bs. ipc_pack_number w len (a # va) = Some (Inr bs, va) \<and> length bs = w" if "int w \<le> len"
    using that w by (auto simp: ipc_pack_number_def a Let_def)
  assume "ipc_pack_number w len (a # va) = Some (Inr bs, va)"
  then have "bs = rev (take w (le_bytes64 v))"
    using le by (auto simp: ipc_pack_number_def a Let_def split: if_splits)
  moreover from this have "length bs = w" using w by auto
  moreover assume "off + length bs \<le> length mem" "get_at mem off (length bs) = bs" "int (length bs) \<le> l"
  ultimately show "\<exists>v. ipc_upack_number w mem off l = Some (int (length bs), Some v) \<and> read_val mem v = num_shown w a"
    by (simp add: ipc_upack_number_def read_val_def num_shown_def a)
qed

interpretation num1: sipc_datatype "ipc_pack_number 1" "ipc_upack_number 1" "num_fits 1" "\<lambda>_. 1" "num_shown 1"
  by (rule sipc_number) simp
interpretation num2: sipc_datatype "ipc_pack_number 2" "ipc_upack_number 2" "num_fits 2" "\<lambda>_. 2" "num_shown 2"
  by (rule sipc_number) simp
interpretation num4: sipc_datatype "ipc_pack_number 4" "ipc_upack_number 4" "num_fits 4" "\<lambda>_. 4" "num_shown 4"
  by (rule sipc_number) simp
interpretation num8: sipc_datatype "ipc_pack_number 8" "ipc_upack_number 8" "num_fits 8" "\<lambda>_. 8" "num_shown 8"
  by (rule sipc_number) simp

text \<open>Strings and pointers: four bytes of length, then the bytes; a string with its NUL.\<close>

definition str_mem :: "string option \<Rightarrow> u8 list" where
  "str_mem s = (case s of None \<Rightarrow> [] | Some t \<Rightarrow> map byte_of (cstr t) @ [0])"

definition ptr_fits :: "int \<Rightarrow> ipc_arg \<Rightarrow> bool" where
  "ptr_fits ty a \<longleftrightarrow> (case a of
     ArgNum v \<Rightarrow> False
   | ArgStr s \<Rightarrow> ty = ID_str \<and> length (str_mem s) + 4 < 2 ^ 31
   | ArgPtr p n \<Rightarrow> ty = ID_ptr \<and> 0 \<le> n \<and> n + 4 < 2 ^ 31
       \<and> (n = 0 \<or> (case p of None \<Rightarrow> False | Some bs \<Rightarrow> n \<le> int (length bs))))"

definition ptr_size :: "ipc_arg \<Rightarrow> nat" where
  "ptr_size a = 4 + (case a of ArgNum v \<Rightarrow> 0 | ArgStr s \<Rightarrow> length (str_mem s) | ArgPtr p n \<Rightarrow> nat n)"

definition ptr_shown :: "ipc_arg \<Rightarrow> ipc_read" where
  "ptr_shown a = (case a of
     ArgNum v \<Rightarrow> ReadNum []
   | ArgStr s \<Rightarrow> ReadStr (map_option (\<lambda>t. map byte_of (cstr t)) s)
   | ArgPtr p n \<Rightarrow> ReadPtr (if n = 0 then None else map_option (take (nat n)) p) n)"

lemma length_be_bytes32 [simp]: "length (be_bytes32 i) = 4"
  by (simp add: be_bytes32_def)

lemma of_be_bytes32_be_bytes32 [simp]:
  assumes "- (2 ^ 31) \<le> i" "i < 2 ^ 31"
  shows "of_be_bytes32 (be_bytes32 i) = i"
  using assms signed_take_bit_int_eq_self[of 31 i]
  by (simp add: of_be_bytes32_def be_bytes32_def signed_of_int)

lemma get_at_take: "m \<le> n \<Longrightarrow> get_at mem off m = take m (get_at mem off n)"
  by (simp add: get_at_def min_absorb1)

lemma get_at_drop: "get_at mem (off + m) n = drop m (get_at mem off (m + n))"
  by (simp add: get_at_def drop_take add.commute)

lemma takeWhile_str_mem: "takeWhile (\<lambda>b. b \<noteq> 0) (map byte_of (cstr t) @ 0 # r) = map byte_of (cstr t)"
proof -
  have "byte_of NUL = 0" by (simp add: byte_of_def)
  then have "byte_of c \<noteq> 0" if "c \<in> set (cstr t)" for c using that by (metis byte_of_inj cstr_no_NUL)
  then show ?thesis by (subst takeWhile_append2) auto
qed

lemma read_str:
  assumes "get_at mem off (length (str_mem s)) = str_mem s"
  shows "read_val mem (ValStr (if str_mem s = [] then None else Some off)) = ptr_shown (ArgStr s)"
proof (cases s)
  case None then show ?thesis by (simp add: str_mem_def read_val_def ptr_shown_def)
next
  case (Some t)
  have "drop off mem = get_at mem off (length (str_mem s)) @ drop (length (str_mem s)) (drop off mem)"
    by (simp add: get_at_def del: drop_drop)
  also have "\<dots> = map byte_of (cstr t) @ 0 # drop (length (str_mem s)) (drop off mem)"
    unfolding assms by (simp add: str_mem_def Some)
  finally show ?thesis by (simp add: str_mem_def Some read_val_def ptr_shown_def takeWhile_str_mem)
qed

lemma sipc_pointer: "sipc_datatype (ipc_pack_pointer ty) (ipc_upack_pointer ty) (ptr_fits ty) ptr_size ptr_shown"
proof
  fix a va len bs mem off l
  assume fits: "ptr_fits ty a"
  then have ty: "ty = ID_str \<and> (\<exists>s. a = ArgStr s) \<or> ty = ID_ptr \<and> (\<exists>p n. a = ArgPtr p n)"
    by (auto simp: ptr_fits_def split: ipc_arg.splits)
  show "0 < ptr_size a" by (simp add: ptr_size_def)
  obtain n body where body: "int (length body) = n" "0 \<le> n" "n + 4 < 2 ^ 31" "ptr_size a = 4 + length body"
    and pack: "\<And>len. ipc_pack_pointer ty len (a # va) =
      (if len < n + 4 then Some (Inl SIPC_ERR_PARAM, va) else Some (Inr (be_bytes32 n @ body), va))"
    and shown: "\<And>mem off. get_at mem off (length body) = body \<Longrightarrow>
      read_val mem (if ty = ID_ptr then ValPtr (if n \<noteq> 0 then Some off else None) n
        else ValStr (if n \<noteq> 0 then Some off else None)) = ptr_shown a"
  proof (cases a)
    case (ArgStr s)
    have *: "\<And>len. ipc_pack_pointer ty len (a # va) =
      (if len < int (length (str_mem s)) + 4 then Some (Inl SIPC_ERR_PARAM, va)
       else Some (Inr (be_bytes32 (int (length (str_mem s))) @ str_mem s), va))"
      using fits by (auto simp: ipc_pack_pointer_def ArgStr ptr_fits_def str_mem_def add.commute split: option.splits)
    show ?thesis
      by (rule that[OF refl _ _ _ *]) (use fits read_str[of _ _ s] ty in
          \<open>auto simp: ptr_fits_def ArgStr ptr_size_def ID_str_def ID_ptr_def\<close>)
  next
    case (ArgPtr p n)
    let ?body = "if n = 0 then [] else take (nat n) (the p)"
    have "n = 0 \<or> (\<exists>bs. p = Some bs \<and> n \<le> int (length bs))" "0 \<le> n" "n + 4 < 2 ^ 31"
      using fits by (auto simp: ptr_fits_def ArgPtr split: option.splits)
    then show ?thesis using ty
      by (intro that[of ?body n])
        (auto simp: ArgPtr ptr_size_def ipc_pack_pointer_def ID_str_def ID_ptr_def ptr_shown_def read_val_def
          min_absorb2)
  qed (use ty in auto)
  show "\<exists>bs. ipc_pack_pointer ty len (a # va) = Some (Inr bs, va) \<and> length bs = ptr_size a" if "int (ptr_size a) \<le> len"
    using that body pack by simp
  assume "ipc_pack_pointer ty len (a # va) = Some (Inr bs, va)"
  then have bs: "bs = be_bytes32 n @ body" by (simp add: pack split: if_splits)
  assume mem: "off + length bs \<le> length mem" "get_at mem off (length bs) = bs" "int (length bs) \<le> l"
  have "get_at mem off 4 = be_bytes32 n"
    using mem(2) get_at_take[of 4 "length bs" mem off] by (simp add: bs)
  moreover have "get_at mem (off + 4) (length body) = body"
    using mem(2) by (simp add: bs get_at_drop)
  ultimately show "\<exists>v. ipc_upack_pointer ty mem off l = Some (int (length bs), Some v) \<and> read_val mem v = ptr_shown a"
    using mem(1) shown[of mem "off + 4"] body(1-3) ty
    by (auto simp: ipc_upack_pointer_def bs Let_def)
qed

interpretation str: sipc_datatype "ipc_pack_pointer ID_str" "ipc_upack_pointer ID_str" "ptr_fits ID_str" ptr_size ptr_shown
  by (rule sipc_pointer)
interpretation ptr: sipc_datatype "ipc_pack_pointer ID_ptr" "ipc_upack_pointer ID_ptr" "ptr_fits ID_ptr" ptr_size ptr_shown
  by (rule sipc_pointer)

section \<open>All types together\<close>

definition arg_fits :: "int \<Rightarrow> ipc_arg \<Rightarrow> bool" where
  "arg_fits ty a \<longleftrightarrow> 1 \<le> ty \<and> ty \<le> ID_ptr \<and> (if ty < ID_str then num_fits (number_len ty) a else ptr_fits ty a)"

definition arg_size :: "int \<Rightarrow> ipc_arg \<Rightarrow> nat" where
  "arg_size ty a = (if ty < ID_str then number_len ty else ptr_size a)"

definition arg_shown :: "int \<Rightarrow> ipc_arg \<Rightarrow> ipc_read" where
  "arg_shown ty a = (if ty < ID_str then num_shown (number_len ty) a else ptr_shown a)"

lemma sipc_type: "sipc_datatype (ipc_pack1 ty) (ipc_upack1 ty) (arg_fits ty) (arg_size ty) (arg_shown ty)"
proof -
  consider "ty < 1 \<or> ID_ptr < ty" | "1 \<le> ty" "ty < ID_str" | "ID_str \<le> ty" "ty \<le> ID_ptr" by linarith
  then show ?thesis
  proof cases
    case 1 then show ?thesis by unfold_locales (auto simp: arg_fits_def)
  next
    case 2
    then have "number_len ty \<in> {1, 2, 4, 8}" by (auto simp: number_len_def ID_str_def)
    then have number: "sipc_datatype (ipc_pack_number (number_len ty)) (ipc_upack_number (number_len ty))
        (num_fits (number_len ty)) (\<lambda>_. number_len ty) (num_shown (number_len ty))"
      by (rule sipc_number)
    from 2 show ?thesis
      using number by (simp add: sipc_datatype_def arg_fits_def arg_size_def arg_shown_def
          ipc_pack1_def ipc_upack1_def ID_str_def ID_ptr_def)
  next
    case 3
    then show ?thesis
      using sipc_pointer[of ty] by (simp add: sipc_datatype_def arg_fits_def arg_size_def arg_shown_def
          ipc_pack1_def ipc_upack1_def ID_str_def ID_ptr_def)
  qed
qed

interpretation ty: sipc_datatype "ipc_pack1 ty" "ipc_upack1 ty" "arg_fits ty" "arg_size ty" "arg_shown ty" for ty
  by (rule sipc_type)

definition args_size :: "int list \<Rightarrow> ipc_arg list \<Rightarrow> nat" where
  "args_size fmt args = sum_list (map2 arg_size fmt args)"

text \<open>Packing a list of arguments that fit, and unpacking the bytes wherever they are.\<close>

lemma pack_va_fits:
  "list_all2 arg_fits fmt args \<Longrightarrow> int (args_size fmt args) \<le> len
   \<Longrightarrow> \<exists>bs. ipc_pack_va len fmt (args @ va) = Some (bs, va) \<and> length bs = args_size fmt args
     \<and> (\<forall>mem off l r. off + length bs \<le> length mem \<longrightarrow> get_at mem off (length bs) = bs \<longrightarrow> int (length bs) \<le> l
          \<longrightarrow> 0 \<le> r \<longrightarrow> r + int (length bs) < 2 ^ 31
          \<longrightarrow> (\<exists>vs. ipc_upack_va mem off l fmt r = Some (r + int (length bs), vs)
                \<and> map (read_val mem) vs = map2 arg_shown fmt args))"
proof (induction fmt args arbitrary: len rule: list_all2_induct)
  case Nil
  then show ?case by (simp add: args_size_def)
next
  case (Cons ty fmt a args)
  have sz: "args_size (ty # fmt) (a # args) = arg_size ty a + args_size fmt args" by (simp add: args_size_def)
  obtain b where b: "ipc_pack1 ty len (a # args @ va) = Some (Inr b, args @ va)" "length b = arg_size ty a" "b \<noteq> []"
    and up: "\<And>mem off l. off + length b \<le> length mem \<Longrightarrow> get_at mem off (length b) = b \<Longrightarrow> int (length b) \<le> l
      \<Longrightarrow> \<exists>v. ipc_upack1 ty mem off l = Some (int (length b), Some v) \<and> read_val mem v = arg_shown ty a"
    using ty.roundtrip[OF \<open>arg_fits ty a\<close>, of len "args @ va"] Cons.prems sz by auto
  obtain bs where bs: "ipc_pack_va (len - int (length b)) fmt (args @ va) = Some (bs, va)" "length bs = args_size fmt args"
    and ups: "\<And>mem off l r. off + length bs \<le> length mem \<Longrightarrow> get_at mem off (length bs) = bs \<Longrightarrow> int (length bs) \<le> l
      \<Longrightarrow> 0 \<le> r \<Longrightarrow> r + int (length bs) < 2 ^ 31
      \<Longrightarrow> \<exists>vs. ipc_upack_va mem off l fmt r = Some (r + int (length bs), vs) \<and> map (read_val mem) vs = map2 arg_shown fmt args"
    using Cons.IH[of "len - int (length b)"] Cons.prems sz b(2) by auto
  show ?case
  proof (intro exI[of _ "b @ bs"] conjI allI impI)
    show "ipc_pack_va len (ty # fmt) ((a # args) @ va) = Some (b @ bs, va)" using b bs by simp
    show "length (b @ bs) = args_size (ty # fmt) (a # args)" using b bs sz by simp
    fix mem off l and r :: int
    assume as: "off + length (b @ bs) \<le> length mem" "get_at mem off (length (b @ bs)) = b @ bs"
      "int (length (b @ bs)) \<le> l" "0 \<le> r" "r + int (length (b @ bs)) < 2 ^ 31"
    have "get_at mem off (length b) = b" using as(2) get_at_take[of "length b" "length (b @ bs)" mem off] by simp
    then obtain v where v: "ipc_upack1 ty mem off l = Some (int (length b), Some v)" "read_val mem v = arg_shown ty a"
      using up[of off mem l] as by auto
    have "get_at mem (off + length b) (length bs) = bs" using as(2) by (simp add: get_at_drop)
    then obtain vs where "ipc_upack_va mem (off + length b) (l - int (length b)) fmt (r + int (length b))
        = Some (r + int (length b) + int (length bs), vs)" "map (read_val mem) vs = map2 arg_shown fmt args"
      using ups[of "off + length b" mem "l - int (length b)" "r + int (length b)"] as by auto
    then show "\<exists>vs. ipc_upack_va mem off l (ty # fmt) r = Some (r + int (length (b @ bs)), vs)
        \<and> map (read_val mem) vs = map2 arg_shown (ty # fmt) (a # args)"
      using v b(3) as by (intro exI[of _ "v # vs"]) (simp add: Let_def ac_simps)
  qed
qed

lemma upack_va_ret: "ipc_upack_va mem off len fmt r = Some (r', vs) \<Longrightarrow> r \<le> r'"
  by (induction mem off len fmt r arbitrary: vs rule: ipc_upack_va.induct)
    (auto simp: Let_def split: option.splits if_splits prod.splits, fastforce+)

text \<open>Arguments that have the types of a format and fit a message are packed into exactly
  their sizes, and unpacking the message with the same format consumes all of it and gives
  the receiver the arguments: the bytes of the integers, the strings, the pointed-to bytes
  with their lengths, \<open>NULL\<close> for \<open>NULL\<close> and for an empty pointer.\<close>

theorem ipc_args_roundtrip:
  assumes "list_all2 arg_fits fmt args" and "args_size fmt args \<le> SIPC_MAX_MESSAGE_SIZE"
  shows "\<exists>msg vs. ipc_pack_va (int SIPC_MAX_MESSAGE_SIZE) fmt args = Some (msg, [])
    \<and> length msg = args_size fmt args
    \<and> ipc_upack_va msg 0 (int (length msg)) fmt 0 = Some (int (length msg), vs)
    \<and> map (read_val msg) vs = map2 arg_shown fmt args"
proof -
  obtain msg where msg: "ipc_pack_va (int SIPC_MAX_MESSAGE_SIZE) fmt args = Some (msg, [])"
    "length msg = args_size fmt args"
    and up: "\<And>off l r. off + length msg \<le> length msg \<Longrightarrow> get_at msg off (length msg) = msg \<Longrightarrow> int (length msg) \<le> l
      \<Longrightarrow> 0 \<le> r \<Longrightarrow> r + int (length msg) < 2 ^ 31
      \<Longrightarrow> \<exists>vs. ipc_upack_va msg off l fmt r = Some (r + int (length msg), vs)
            \<and> map (read_val msg) vs = map2 arg_shown fmt args"
    using pack_va_fits[OF assms(1), of "int SIPC_MAX_MESSAGE_SIZE" "[]"] assms(2) by auto
  have "int (length msg) < 2 ^ 31" using msg(2) assms(2) by (simp add: SIPC_MAX_MESSAGE_SIZE_def)
  then show ?thesis using msg up[of 0 "int (length msg)" 0] by (simp add: get_at_all)
qed

lemma ipc_args_roundtrip_witness:
  "\<exists>msg vs. ipc_pack_va (int SIPC_MAX_MESSAGE_SIZE) [5, 9, 10, 1, 9] [ArgNum 300, ArgStr (Some ''abc''),
      ArgPtr (Some [1, 2, 3]) 2, ArgNum 511, ArgStr None] = Some (msg, [])
    \<and> length msg = 23
    \<and> ipc_upack_va msg 0 (int (length msg)) [5, 9, 10, 1, 9] 0 = Some (int (length msg), vs)
    \<and> map (read_val msg) vs = [ReadNum [44, 1, 0, 0], ReadStr (Some [97, 98, 99]), ReadPtr (Some [1, 2]) 2,
        ReadNum [255], ReadStr None]"
proof -
  let ?args = "[ArgNum 300, ArgStr (Some ''abc''), ArgPtr (Some [1, 2, 3]) 2, ArgNum 511, ArgStr None]"
  have fits: "list_all2 arg_fits [5, 9, 10, 1, 9] ?args"
    by (simp add: arg_fits_def num_fits_def ptr_fits_def ID_str_def ID_ptr_def str_mem_def cstr_def)
  have sz: "args_size [5, 9, 10, 1, 9] ?args = 23"
    by (simp add: args_size_def arg_size_def ptr_size_def ID_str_def number_len_def str_mem_def cstr_def)
  have shown: "map2 arg_shown [5, 9, 10, 1, 9] ?args = [ReadNum [44, 1, 0, 0], ReadStr (Some [97, 98, 99]),
      ReadPtr (Some [1, 2]) 2, ReadNum [255], ReadStr None]"
    by (simp add: arg_shown_def num_shown_def ptr_shown_def ID_str_def number_len_def cstr_def le_bytes64_def
        byte_of_def upt_rec drop_bit_eq_div unsigned_ucast_eq)
  show ?thesis
    using ipc_args_roundtrip[OF fits] unfolding sz shown by (simp add: SIPC_MAX_MESSAGE_SIZE_def)
qed

end
