(* ===== verification/Links.thy ===== *)
theory Links
  imports Main
begin

text \<open>
  Structures linked by pointers in an explicit store: \<open>chain nx h p xs\<close> says that following
  the link \<open>nx\<close> from the pointer \<open>p\<close> goes through the addresses \<open>xs\<close>, all of them allocated,
  and ends in \<open>NULL\<close>. The components whose code walks linked lists state their invariants
  with it.
\<close>

fun chain :: "('c \<Rightarrow> 'a option) \<Rightarrow> ('a \<Rightarrow> 'c option) \<Rightarrow> 'a option \<Rightarrow> 'a list \<Rightarrow> bool" where
  "chain nx h p [] \<longleftrightarrow> p = None"
| "chain nx h p (a # as) \<longleftrightarrow> p = Some a \<and> (case h a of None \<Rightarrow> False | Some c \<Rightarrow> chain nx h (nx c) as)"

named_theorems chain_simps \<open>chains in an updated store\<close>

lemma chain_None [simp]: "chain nx h None xs \<longleftrightarrow> xs = []"
  by (cases xs) auto

lemma chain_Cons [simp]: "chain nx h p (a # as) \<longleftrightarrow> p = Some a \<and> (\<exists>c. h a = Some c \<and> chain nx h (nx c) as)"
  by (auto split: option.splits)

declare chain.simps(2) [simp del]

lemma chain_Some: "chain nx h (Some a) xs \<longleftrightarrow> (\<exists>c as. xs = a # as \<and> h a = Some c \<and> chain nx h (nx c) as)"
  by (cases xs) auto

lemma chain_alloc: "chain nx h p xs \<Longrightarrow> a \<in> set xs \<Longrightarrow> \<exists>c. h a = Some c"
  by (induction xs arbitrary: p) auto

lemma chain_cong:
  assumes "\<And>a. a \<in> set xs \<Longrightarrow> map_option nx (h a) = map_option nx (g a)"
  shows "chain nx h p xs = chain nx g p xs"
  using assms
proof (induction xs arbitrary: p)
  case (Cons a xs)
  then have "map_option nx (h a) = map_option nx (g a)" "\<And>p. chain nx h p xs = chain nx g p xs" by simp_all
  then show ?case by (cases "h a"; cases "g a") auto
qed simp

lemma chain_upd [simp, chain_simps]: "a \<notin> set xs \<Longrightarrow> chain nx (h(a := v)) p xs = chain nx h p xs"
  by (rule chain_cong) auto

lemma chain_unique: "chain nx h p xs \<Longrightarrow> chain nx h p ys \<Longrightarrow> xs = ys"
proof (induction xs arbitrary: p ys)
  case Nil
  then show ?case by simp
next
  case (Cons a xs)
  then show ?case by (cases ys) auto
qed

lemma chain_suffix: "chain nx h p (xs @ a # ys) \<Longrightarrow> chain nx h (Some a) (a # ys)"
  by (induction xs arbitrary: p) auto

lemma chain_distinct: "chain nx h p xs \<Longrightarrow> distinct xs"
proof (rule ccontr)
  assume c: "chain nx h p xs" and "\<not> distinct xs"
  then obtain us a vs ws where xs: "xs = us @ [a] @ vs @ [a] @ ws" using not_distinct_decomp by blast
  have "chain nx h (Some a) (a # vs @ a # ws)" using c chain_suffix[of nx h p us a] by (simp add: xs)
  moreover have "chain nx h (Some a) (a # ws)" using c chain_suffix[of nx h p "us @ a # vs" a] by (simp add: xs)
  ultimately show False using chain_unique by fastforce
qed

text \<open>Setting the link of the element before \<open>i\<close> to \<open>i\<close>'s own link takes \<open>i\<close> out.\<close>

lemma chain_skip:
  assumes "chain nx h p (us @ a # i # vs)" "h i = Some ci" "nx c = nx ci"
  shows "chain nx (h(a := Some c)) p (us @ a # vs)"
  using assms(1) chain_distinct[OF assms(1)] assms(2,3) by (induction us arbitrary: p) auto

text \<open>Following a dangling link.\<close>

lemma no_chain_through_freed:
  assumes "chain nx h p xs" "a \<in> set xs" "g a = None"
    and "\<And>b. b \<in> set xs \<Longrightarrow> b \<noteq> a \<Longrightarrow> map_option nx (g b) = map_option nx (h b)"
  shows "\<not> chain nx g p ys"
  using assms(1,2,4)
proof (induction xs arbitrary: p ys)
  case (Cons b xs)
  show ?case
  proof (cases "b = a")
    case True
    then show ?thesis using Cons.prems(1) assms(3) by (auto simp: chain_Some)
  next
    case False
    obtain c where c: "p = Some b" "h b = Some c" "chain nx h (nx c) xs" using Cons.prems(1) by auto
    moreover have "map_option nx (g b) = map_option nx (h b)" using Cons.prems(3) False by simp
    ultimately obtain c' where "g b = Some c'" "nx c' = nx c" by (cases "g b") auto
    then show ?thesis using c Cons.IH[of "nx c"] Cons.prems False by (cases ys) auto
  qed
qed simp

end
