(* ===== verification/SocketChan.thy ===== *)
theory SocketChan
  imports SocketIpc Links "HOL-Library.Signed_Division"
begin

text \<open>
  The channels of \<open>aml_socketipc/aml_socketipc.c\<close>: opening and closing channels and peers,
  registering functions, dispatching a received call to its handler, making a call and
  answering it. Channels, peers and functions are structures the code links by pointers, so
  the state keeps them in explicit stores (a freed structure is \<^const>\<open>None\<close> there); the loops
  along the links are \<open>partial_function\<close>s, so that a cyclic list is \<^const>\<open>None\<close> as well as an
  access to freed memory. What the sockets answer is an argument of each operation.
\<close>

section \<open>State\<close>

type_synonym ptr = nat

record sipc_handle =
  buffer :: "u8 list"
  addr :: string
  ipc_id :: int
  sockfd :: int
  loop_level :: int
  timeout_us :: int
  func_table :: "ptr option"
  next_peer :: "ptr option"
  serv_of :: "ptr option"
  next_serv :: "ptr option"

record sipc_function =
  fn_name :: string
  fn_argfmt :: "int list"
  fn_retfmt :: "int list option"
  fn_call_id :: int
  fn_next :: "ptr option"

text \<open>
  The stores of structures; \<open>serv_list\<close>, \<open>serv_status\<close> and the number of serving threads
  started and joined; the descriptors closed and the names unlinked; the address \<open>malloc\<close>
  returns next.
\<close>

record sipc_state =
  handles :: "ptr \<Rightarrow> sipc_handle option"
  funcs :: "ptr \<Rightarrow> sipc_function option"
  serv_list :: "ptr option"
  serv_status :: bool
  threads :: nat
  closed :: "int list"
  unlinked :: "string list"
  brk :: ptr

abbreviation set_handle :: "ptr \<Rightarrow> sipc_handle \<Rightarrow> sipc_state \<Rightarrow> sipc_state" where
  "set_handle a c st \<equiv> st\<lparr>handles := (handles st)(a \<mapsto> c)\<rparr>"

definition SIPC_DEFAULT_TIMEOUT :: int where "SIPC_DEFAULT_TIMEOUT = 3000000"

text \<open>What the system answers to the creation of a socket: the descriptor (negative for a
  failure), whether \<open>bind\<close> succeeds, what \<open>getsockname\<close> reports.\<close>

record os_socket =
  os_fd :: int
  os_bind :: bool
  os_name :: "string option"

section \<open>Opening\<close>

text \<open>\<open>ipc_create_channel\<close>; the code does not check \<open>malloc\<close>, which is taken to succeed.\<close>

definition ipc_create_channel :: "os_socket \<Rightarrow> string option \<Rightarrow> sipc_state \<Rightarrow> ptr option \<times> sipc_state" where
  "ipc_create_channel os bindaddr st =
     (if os_fd os < 0 then (None, st)
      else
        let st1 = (case bindaddr of None \<Rightarrow> st | Some a \<Rightarrow> st\<lparr>unlinked := a # unlinked st\<rparr>) in
        if \<not> os_bind os then (None, st1\<lparr>closed := os_fd os # closed st1\<rparr>)
        else
          let c = \<lparr>buffer = replicate SIPC_MAX_MESSAGE_SIZE 0,
                   addr = (case os_name os of None \<Rightarrow> [] | Some a \<Rightarrow> a), ipc_id = 0, sockfd = os_fd os,
                   loop_level = 0, timeout_us = SIPC_DEFAULT_TIMEOUT, func_table = None, next_peer = None,
                   serv_of = None, next_serv = None\<rparr>
          in (Some (brk st1), (set_handle (brk st1) c st1)\<lparr>brk := Suc (brk st1)\<rparr>))"

partial_function (option) peer_find :: "(ptr \<Rightarrow> sipc_handle option) \<Rightarrow> string \<Rightarrow> ptr option \<Rightarrow> ptr option option" where
  "peer_find h remote p = (case p of None \<Rightarrow> Some None
     | Some a \<Rightarrow> (case h a of None \<Rightarrow> None
         | Some c \<Rightarrow> if addr c = remote then Some (Some a) else peer_find h remote (next_peer c)))"

definition new_peer :: "os_socket \<Rightarrow> ptr option \<Rightarrow> string \<Rightarrow> sipc_state \<Rightarrow> (ptr \<times> sipc_state) option" where
  "new_peer os serv remote st =
     (case ipc_create_channel os None st of
        (None, _) \<Rightarrow> None
      | (Some i, st1) \<Rightarrow>
          (case handles st1 i of
             None \<Rightarrow> None
           | Some c \<Rightarrow>
               let c1 = c\<lparr>addr := snprintf_s 108 remote\<rparr> in
               (case serv of
                  None \<Rightarrow> Some (i, set_handle i c1 st1)
                | Some s \<Rightarrow>
                    (case handles st1 s of
                       None \<Rightarrow> None
                     | Some sc \<Rightarrow> Some (i, set_handle s (sc\<lparr>next_peer := Some i\<rparr>)
                         (set_handle i (c1\<lparr>serv_of := Some s, next_peer := next_peer sc\<rparr>) st1))))))"

definition ipc_open_peer :: "os_socket \<Rightarrow> ptr option \<Rightarrow> string \<Rightarrow> sipc_state \<Rightarrow> (ptr \<times> sipc_state) option" where
  "ipc_open_peer os serv remote st =
     (case serv of
        None \<Rightarrow> new_peer os None remote st
      | Some s \<Rightarrow>
          (case handles st s of
             None \<Rightarrow> None
           | Some sc \<Rightarrow>
               (case peer_find (handles st) remote (next_peer sc) of
                  None \<Rightarrow> None
                | Some (Some i) \<Rightarrow> Some (i, st)
                | Some None \<Rightarrow> new_peer os serv remote st)))"

definition ipc_init :: "sipc_state \<Rightarrow> sipc_state" where
  "ipc_init st = st\<lparr>serv_status := True, threads := Suc (threads st)\<rparr>"

definition ipc_open ::
  "os_socket \<Rightarrow> os_socket \<Rightarrow> string \<Rightarrow> string \<Rightarrow> sipc_state \<Rightarrow> (ptr \<times> sipc_state) option" where
  "ipc_open os1 os2 bindaddr remote st =
     (let (serv, st1) = ipc_create_channel os1 (Some bindaddr) st in
      case ipc_open_peer os2 serv remote st1 of
        None \<Rightarrow> None
      | Some (i, st2) \<Rightarrow>
          let st3 = (if serv_list st2 = None then ipc_init st2 else st2) in
          (case serv of
             None \<Rightarrow> Some (i, st3)
           | Some s \<Rightarrow>
               (case handles st3 s of
                  None \<Rightarrow> None
                | Some sc \<Rightarrow> Some (i, (set_handle s (sc\<lparr>next_serv := serv_list st3\<rparr>) st3)\<lparr>serv_list := Some s\<rparr>))))"

section \<open>Closing\<close>

text \<open>The loop of \<open>ipc_close_peer\<close> from the list element \<open>a\<close>, which is not \<open>i\<close>.\<close>

partial_function (option) unlink_after :: "ptr \<Rightarrow> ptr option \<Rightarrow> (ptr \<Rightarrow> sipc_handle option) \<Rightarrow> ptr \<Rightarrow> (ptr \<Rightarrow> sipc_handle option) option" where
  "unlink_after i inext h a =
     (case h a of
        None \<Rightarrow> None
      | Some c \<Rightarrow>
          (case next_peer c of
             None \<Rightarrow> Some h
           | Some b \<Rightarrow> if b = i then Some (h(a \<mapsto> c\<lparr>next_peer := inext\<rparr>)) else unlink_after i inext h b))"

definition unlink_peer :: "ptr \<Rightarrow> sipc_handle \<Rightarrow> (ptr \<Rightarrow> sipc_handle option) \<Rightarrow> (ptr \<Rightarrow> sipc_handle option) option" where
  "unlink_peer i c h =
     (case serv_of c of
        None \<Rightarrow> Some h
      | Some s \<Rightarrow>
          (case h s of
             None \<Rightarrow> None
           | Some sc \<Rightarrow>
               (case next_peer sc of
                  None \<Rightarrow> Some h
                | Some ch \<Rightarrow> if ch = i then Some (h(s \<mapsto> sc\<lparr>next_peer := next_peer c\<rparr>))
                            else unlink_after i (next_peer c) h ch)))"

definition close_fd :: "int \<Rightarrow> sipc_state \<Rightarrow> sipc_state" where
  "close_fd fd st = (if fd \<ge> 0 then st\<lparr>closed := fd # closed st\<rparr> else st)"

definition ipc_close_peer :: "ptr \<Rightarrow> sipc_state \<Rightarrow> sipc_state option" where
  "ipc_close_peer i st =
     (case handles st i of
        None \<Rightarrow> None
      | Some c \<Rightarrow>
          (case unlink_peer i c (handles st) of
             None \<Rightarrow> None
           | Some h \<Rightarrow> Some (close_fd (sockfd c) (st\<lparr>handles := h(i := None)\<rparr>))))"

partial_function (option) close_peers :: "ptr \<Rightarrow> sipc_state \<Rightarrow> sipc_state option" where
  "close_peers s st =
     (case handles st s of
        None \<Rightarrow> None
      | Some sc \<Rightarrow>
          (case next_peer sc of
             None \<Rightarrow> Some st
           | Some i \<Rightarrow>
               (case handles st i of
                  None \<Rightarrow> None
                | Some c \<Rightarrow>
                    (case ipc_close_peer i (set_handle s (sc\<lparr>next_peer := next_peer c\<rparr>) st) of
                       None \<Rightarrow> None
                     | Some st' \<Rightarrow> close_peers s st'))))"

definition ipc_close_channel :: "ptr \<Rightarrow> sipc_state \<Rightarrow> sipc_state option" where
  "ipc_close_channel s st =
     (case handles st s of
        None \<Rightarrow> None
      | Some sc \<Rightarrow>
          (case close_peers s (set_handle s (sc\<lparr>sockfd := if sockfd sc \<ge> 0 then -1 else sockfd sc\<rparr>)
                  (close_fd (sockfd sc) st)) of
             None \<Rightarrow> None
           | Some st' \<Rightarrow> Some (st'\<lparr>handles := (handles st')(s := None)\<rparr>)))"

text \<open>
  The loop of \<open>ipc_close\<close>: the previous element and the next one when \<open>target\<close> is found.
  \<open>tmp_prev\<close> has no initial value in the code; \<open>ipc_close\<close> takes it as an argument.
\<close>

partial_function (option) serv_scan ::
  "(ptr \<Rightarrow> sipc_handle option) \<Rightarrow> ptr option \<Rightarrow> ptr option \<Rightarrow> ptr option \<Rightarrow> (ptr option \<times> ptr option) option option" where
  "serv_scan h target tmp_prev tmp =
     (case tmp of
        None \<Rightarrow> Some None
      | Some a \<Rightarrow>
          (case h a of
             None \<Rightarrow> None
           | Some c \<Rightarrow> if tmp = target then Some (Some (tmp_prev, next_serv c))
                       else serv_scan h target tmp (next_serv c)))"

definition ipc_exit :: "sipc_state \<Rightarrow> sipc_state" where
  "ipc_exit st = st\<lparr>serv_status := False, threads := threads st - 1\<rparr>"

definition ipc_close :: "ptr option \<Rightarrow> ptr option \<Rightarrow> sipc_state \<Rightarrow> (int \<times> sipc_state) option" where
  "ipc_close tmp_prev ipc st =
     (case ipc of
        None \<Rightarrow> Some (SIPC_ERR_PARAM, st)
      | Some i \<Rightarrow>
          (case handles st i of
             None \<Rightarrow> None
           | Some c \<Rightarrow>
               (case serv_scan (handles st) (serv_of c) tmp_prev (serv_list st) of
                  None \<Rightarrow> None
                | Some found \<Rightarrow>
                    let st1 = (case found of
                          None \<Rightarrow> st
                        | Some (prev, nx) \<Rightarrow> if prev = None then st\<lparr>serv_list := nx\<rparr> else st);
                        st2 = (if serv_list st1 = None then ipc_exit st1 else st1)
                    in (case serv_of c of
                          None \<Rightarrow> None
                        | Some s \<Rightarrow>
                            (case ipc_close_channel s st2 of
                               None \<Rightarrow> None
                             | Some st3 \<Rightarrow> Some (SIPC_NO_ERR, st3))))))"

section \<open>A channel and its peers\<close>

text \<open>The peers of the channel \<open>s\<close> are \<open>ps\<close>: linked from it, all of them pointing back to it.\<close>

definition chan_ok :: "sipc_state \<Rightarrow> ptr \<Rightarrow> ptr list \<Rightarrow> bool" where
  "chan_ok st s ps \<longleftrightarrow> (\<exists>sc. handles st s = Some sc \<and> chain next_peer (handles st) (next_peer sc) ps) \<and> s \<notin> set ps
     \<and> (\<forall>i\<in>set ps. \<exists>c. handles st i = Some c \<and> serv_of c = Some s)"

definition has_addr :: "sipc_state \<Rightarrow> string \<Rightarrow> ptr \<Rightarrow> bool" where
  "has_addr st a i \<longleftrightarrow> (case handles st i of None \<Rightarrow> False | Some c \<Rightarrow> addr c = a)"

lemma peer_find_chain: "chain next_peer (handles st) p ps
  \<Longrightarrow> peer_find (handles st) remote p = Some (find (has_addr st remote) ps)"
  by (induction ps arbitrary: p) (auto simp: peer_find.simps has_addr_def)

lemma unlink_after_found: "chain next_peer h (Some a) (us @ b # i # vs) \<Longrightarrow> h b = Some cb
  \<Longrightarrow> unlink_after i x h a = Some (h(b \<mapsto> cb\<lparr>next_peer := x\<rparr>))"
proof (induction us arbitrary: a)
  case Nil
  then show ?case by (auto simp: unlink_after.simps)
next
  case (Cons u us)
  then have "distinct ((u # us) @ b # i # vs)" using chain_distinct by blast
  moreover from Cons.prems obtain c where c: "a = u" "h u = Some c" "chain next_peer h (next_peer c) (us @ b # i # vs)" by auto
  moreover obtain a' where "next_peer c = Some a'" using c(3) by (cases us) auto
  ultimately show ?case using Cons.IH[of a'] Cons.prems(2)
    by (cases us) (auto simp: unlink_after.simps[of _ _ _ u])
qed

lemma unlink_after_absent: "chain next_peer h (Some a) (a # as) \<Longrightarrow> i \<notin> set as \<Longrightarrow> unlink_after i x h a = Some h"
proof (induction as arbitrary: a)
  case Nil
  then show ?case by (auto simp: unlink_after.simps)
next
  case (Cons b as)
  then show ?case by (subst unlink_after.simps) auto
qed

lemma unlink_peer_in:
  assumes ok: "chan_ok st s ps" and i: "i \<in> set ps" and c: "handles st i = Some c"
  shows "\<exists>h. unlink_peer i c (handles st) = Some h \<and> chan_ok (st\<lparr>handles := h(i := None)\<rparr>) s (remove1 i ps)
    \<and> (\<forall>a. a \<notin> set (s # ps) \<longrightarrow> h a = handles st a)"
proof -
  let ?h = "handles st"
  obtain sc where sc: "?h s = Some sc" "chain next_peer ?h (next_peer sc) ps" "s \<notin> set ps" "serv_of c = Some s"
    using ok i c by (auto simp: chan_ok_def)
  obtain us vs where ps: "ps = us @ i # vs" using i by (auto simp: in_set_conv_decomp)
  have dist: "distinct ps" using sc(2) by (rule chain_distinct)
  have rm: "remove1 i ps = us @ vs" using dist by (simp add: ps remove1_append)
  have bk: "\<exists>c. ?h j = Some c \<and> serv_of c = Some s" if "j \<in> set ps" for j using ok that by (auto simp: chan_ok_def)
  show ?thesis
  proof (cases us rule: rev_cases)
    case Nil
    then have "unlink_peer i c ?h = Some (?h(s \<mapsto> sc\<lparr>next_peer := next_peer c\<rparr>))"
      using sc by (auto simp: unlink_peer_def ps)
    moreover have "chain next_peer ?h (next_peer c) vs" using sc(2) c by (auto simp: ps Nil)
    ultimately show ?thesis using sc(1,3) dist bk rm
      by (auto simp: chan_ok_def ps Nil)
  next
    case (snoc ws b)
    obtain cb where cb: "?h b = Some cb" "serv_of cb = Some s" using bk[of b] by (auto simp: ps snoc)
    obtain a where a: "next_peer sc = Some a" "a \<noteq> i"
      using sc(2) dist by (cases ws) (auto simp: ps snoc)
    have "unlink_after i (next_peer c) ?h a = Some (?h(b \<mapsto> cb\<lparr>next_peer := next_peer c\<rparr>))"
      using sc(2) cb(1) a(1) by (intro unlink_after_found) (auto simp: ps snoc)
    then have "unlink_peer i c ?h = Some (?h(b \<mapsto> cb\<lparr>next_peer := next_peer c\<rparr>))"
      using sc a by (simp add: unlink_peer_def)
    moreover have "chain next_peer (?h(b \<mapsto> cb\<lparr>next_peer := next_peer c\<rparr>)) (next_peer sc) (us @ vs)"
      using chain_skip[of next_peer ?h "next_peer sc" ws b i vs c "cb\<lparr>next_peer := next_peer c\<rparr>"] sc(2) c
      by (simp add: ps snoc)
    moreover have "s \<noteq> b" "i \<noteq> b" "i \<notin> set (us @ vs)" using dist sc(3) by (auto simp: ps snoc)
    ultimately show ?thesis using sc(1,3) bk cb dist
      by (auto simp: chan_ok_def rm ps snoc remove1_append)
  qed
qed

lemma ipc_close_peer_in:
  assumes "chan_ok st s ps" "i \<in> set ps" "handles st i = Some c"
  shows "\<exists>st'. ipc_close_peer i st = Some st' \<and> chan_ok st' s (remove1 i ps) \<and> handles st' i = None
    \<and> closed st' = (if sockfd c \<ge> 0 then sockfd c # closed st else closed st)
    \<and> (\<forall>a. a \<notin> set (s # ps) \<longrightarrow> handles st' a = handles st a)"
proof -
  obtain h where "unlink_peer i c (handles st) = Some h" "chan_ok (st\<lparr>handles := h(i := None)\<rparr>) s (remove1 i ps)"
    "\<forall>a. a \<notin> set (s # ps) \<longrightarrow> h a = handles st a" using unlink_peer_in[OF assms] by blast
  then show ?thesis using assms(2,3)
    by (auto simp: ipc_close_peer_def close_fd_def chan_ok_def)
qed

text \<open>\<open>ipc_close_channel\<close> takes a peer out of the list itself before it closes it.\<close>

lemma close_peer_unlinked:
  assumes ok: "chan_ok st s (i # ps)" and s: "handles st s = Some sc" and i: "handles st i = Some c"
  shows "\<exists>st'. ipc_close_peer i (set_handle s (sc\<lparr>next_peer := next_peer c\<rparr>) st) = Some st'
    \<and> chan_ok st' s ps \<and> handles st' = (handles st)(s \<mapsto> sc\<lparr>next_peer := next_peer c\<rparr>, i := None)
    \<and> closed st' = (if sockfd c \<ge> 0 then sockfd c # closed st else closed st)"
proof -
  let ?h = "(handles st)(s \<mapsto> sc\<lparr>next_peer := next_peer c\<rparr>)"
  have ch: "chain next_peer (handles st) (next_peer c) ps" and sp: "s \<noteq> i" "s \<notin> set ps" "serv_of c = Some s"
    and ip: "i \<notin> set ps"
    and bk: "\<And>j. j \<in> set ps \<Longrightarrow> \<exists>c. handles st j = Some c \<and> serv_of c = Some s"
    using ok s i chain_distinct[of next_peer "handles st" "next_peer sc" "i # ps"] by (auto simp: chan_ok_def)
  have "unlink_peer i c ?h = Some ?h"
  proof (cases ps)
    case Nil then show ?thesis using ch sp by (simp add: unlink_peer_def)
  next
    case (Cons a as)
    then show ?thesis using ch sp ip unlink_after_absent[of ?h a as i "next_peer c"]
      by (auto simp: unlink_peer_def)
  qed
  then show ?thesis using ch sp ip bk i
    by (auto simp: ipc_close_peer_def close_fd_def chan_ok_def)
qed

lemma close_peers_all:
  "chan_ok st s ps \<Longrightarrow> \<exists>st'. close_peers s st = Some st' \<and> chan_ok st' s []
     \<and> (\<forall>i\<in>set ps. handles st' i = None) \<and> (\<forall>a. a \<notin> set (s # ps) \<longrightarrow> handles st' a = handles st a)
     \<and> map_option next_serv (handles st' s) = map_option next_serv (handles st s)
     \<and> serv_list st' = serv_list st \<and> set (closed st) \<subseteq> set (closed st')
     \<and> (\<forall>i\<in>set ps. \<forall>c. handles st i = Some c \<longrightarrow> 0 \<le> sockfd c \<longrightarrow> sockfd c \<in> set (closed st'))"
proof (induction ps arbitrary: st)
  case Nil
  then show ?case by (auto simp: close_peers.simps chan_ok_def)
next
  case (Cons i ps)
  obtain sc c where sc: "handles st s = Some sc" "next_peer sc = Some i" "handles st i = Some c"
    and out: "s \<noteq> i" "i \<notin> set ps"
    using Cons.prems chain_distinct[of next_peer "handles st" _ "i # ps"] by (fastforce simp: chan_ok_def)
  obtain st1 where st1: "ipc_close_peer i (set_handle s (sc\<lparr>next_peer := next_peer c\<rparr>) st) = Some st1"
    "chan_ok st1 s ps" "handles st1 = (handles st)(s \<mapsto> sc\<lparr>next_peer := next_peer c\<rparr>, i := None)"
    "closed st1 = (if sockfd c \<ge> 0 then sockfd c # closed st else closed st)"
    using close_peer_unlinked[OF Cons.prems sc(1,3)] by blast
  have sl: "serv_list st1 = serv_list st"
    using st1(1) by (auto simp: ipc_close_peer_def close_fd_def split: option.splits if_splits)
  obtain st2 where st2: "close_peers s st1 = Some st2" "chan_ok st2 s []" "\<And>j. j \<in> set ps \<Longrightarrow> handles st2 j = None"
    "\<And>a. a \<notin> set (s # ps) \<Longrightarrow> handles st2 a = handles st1 a"
    "map_option next_serv (handles st2 s) = map_option next_serv (handles st1 s)"
    "serv_list st2 = serv_list st1" "set (closed st1) \<subseteq> set (closed st2)"
    "\<And>j d. j \<in> set ps \<Longrightarrow> handles st1 j = Some d \<Longrightarrow> 0 \<le> sockfd d \<Longrightarrow> sockfd d \<in> set (closed st2)"
    using Cons.IH[OF st1(2)] by blast
  have run: "close_peers s st = Some st2" using sc st1(1) st2(1) by (subst close_peers.simps) simp
  have fds: "sockfd d \<in> set (closed st2)" if j: "j \<in> set (i # ps)" "handles st j = Some d" "0 \<le> sockfd d" for j d
  proof (cases "j = i")
    case True
    then show ?thesis using j sc(3) st1(4) st2(7) by auto
  next
    case False
    moreover have "j \<noteq> s" using j(1) Cons.prems by (auto simp: chan_ok_def)
    ultimately show ?thesis using j st2(8)[of j d] st1(3) by auto
  qed
  have "set (closed st) \<subseteq> set (closed st1)" by (simp add: st1(4) subset_insertI)
  then show ?case
    using run st2 st1(3) out sl sc(1) fds by (intro exI[of _ st2]) auto
qed

text \<open>What closing a channel leaves: nothing of the channel and its peers, the rest as it was.\<close>

lemma close_channel_all:
  assumes ok: "chan_ok st s ps"
  shows "\<exists>st'. ipc_close_channel s st = Some st' \<and> (\<forall>a\<in>set (s # ps). handles st' a = None)
    \<and> (\<forall>a. a \<notin> set (s # ps) \<longrightarrow> handles st' a = handles st a) \<and> serv_list st' = serv_list st
    \<and> (\<forall>a\<in>set (s # ps). \<forall>c. handles st a = Some c \<longrightarrow> 0 \<le> sockfd c \<longrightarrow> sockfd c \<in> set (closed st'))"
proof -
  obtain sc where sc: "handles st s = Some sc" "chain next_peer (handles st) (next_peer sc) ps" "s \<notin> set ps"
    using ok by (auto simp: chan_ok_def)
  let ?st = "set_handle s (sc\<lparr>sockfd := if sockfd sc \<ge> 0 then -1 else sockfd sc\<rparr>) (close_fd (sockfd sc) st)"
  have hs: "handles ?st = (handles st)(s \<mapsto> sc\<lparr>sockfd := if sockfd sc \<ge> 0 then -1 else sockfd sc\<rparr>)"
    and cl: "closed ?st = (if sockfd sc \<ge> 0 then sockfd sc # closed st else closed st)" "serv_list ?st = serv_list st"
    by (simp_all add: close_fd_def)
  have "chan_ok ?st s ps"
    unfolding chan_ok_def hs using ok sc by (auto simp: chan_ok_def)
  then obtain st' where st': "close_peers s ?st = Some st'" "\<And>i. i \<in> set ps \<Longrightarrow> handles st' i = None"
    "\<And>a. a \<notin> set (s # ps) \<Longrightarrow> handles st' a = handles ?st a" "serv_list st' = serv_list ?st"
    "set (closed ?st) \<subseteq> set (closed st')"
    "\<And>j d. j \<in> set ps \<Longrightarrow> handles ?st j = Some d \<Longrightarrow> 0 \<le> sockfd d \<Longrightarrow> sockfd d \<in> set (closed st')"
    using close_peers_all[of ?st s ps] by blast
  have fds: "sockfd c \<in> set (closed st')" if a: "a \<in> set (s # ps)" "handles st a = Some c" "0 \<le> sockfd c" for a c
  proof (cases "a = s")
    case True
    then show ?thesis using a sc(1) st'(5) unfolding cl by (auto split: if_splits)
  next
    case False
    then show ?thesis using a sc(3) st'(6)[of a c] unfolding hs by auto
  qed
  show ?thesis
  proof (intro exI[of _ "st'\<lparr>handles := (handles st')(s := None)\<rparr>"] conjI)
    show "ipc_close_channel s st = Some (st'\<lparr>handles := (handles st')(s := None)\<rparr>)"
      using st'(1) sc(1) by (simp add: ipc_close_channel_def)
    show "\<forall>a. a \<notin> set (s # ps) \<longrightarrow> handles (st'\<lparr>handles := (handles st')(s := None)\<rparr>) a = handles st a"
      using st'(3) unfolding hs by auto
  qed (use st'(2,4) cl(2) fds in auto)
qed

text \<open>Opening a peer: the state after it, with the new peer in front.\<close>

lemma new_peer_ok:
  assumes ok: "chan_ok st s ps" and fd: "0 \<le> os_fd os" "os_bind os" and fresh: "handles st (brk st) = None"
  shows "\<exists>st'. new_peer os (Some s) remote st = Some (brk st, st') \<and> chan_ok st' s (brk st # ps)
    \<and> has_addr st' (snprintf_s 108 remote) (brk st) \<and> brk st \<notin> set ps"
proof -
  obtain sc where sc: "handles st s = Some sc" "chain next_peer (handles st) (next_peer sc) ps" "s \<notin> set ps"
    and bk: "\<And>j. j \<in> set ps \<Longrightarrow> \<exists>c. handles st j = Some c \<and> serv_of c = Some s"
    using ok by (auto simp: chan_ok_def)
  have out: "brk st \<notin> set ps" "brk st \<noteq> s" using fresh bk[of "brk st"] sc(1) by auto
  show ?thesis
    unfolding new_peer_def ipc_create_channel_def
    using fd sc out bk by (simp add: Let_def chan_ok_def has_addr_def fun_upd_twist[of s] fun_upd_apply)
qed

text \<open>Opening a peer of a channel is sharing: a peer with the same remote address that is
  already in the channel's list is returned, with nothing changed; otherwise a new one is
  linked in front of the list. Opening the same address again gives the same peer, for every
  address that fits \<open>sun_path\<close>.\<close>

theorem ipc_open_peer_shares:
  assumes "chan_ok st s ps" and "handles st (brk st) = None" and "0 \<le> os_fd os" "os_bind os"
    and "NUL \<notin> set remote" "length remote < 108"
  shows "\<exists>i st'. ipc_open_peer os (Some s) remote st = Some (i, st')
    \<and> (case find (has_addr st remote) ps of Some j \<Rightarrow> i = j \<and> st' = st
        | None \<Rightarrow> i \<notin> set ps \<and> chan_ok st' s (i # ps))
    \<and> has_addr st' remote i \<and> ipc_open_peer os2 (Some s) remote st' = Some (i, st')"
proof -
  obtain sc where sc: "handles st s = Some sc" "chain next_peer (handles st) (next_peer sc) ps"
    using assms(1) by (auto simp: chan_ok_def)
  note find = peer_find_chain[OF sc(2), of remote]
  show ?thesis
  proof (cases "find (has_addr st remote) ps")
    case (Some j)
    moreover have "has_addr st remote j" using Some by (auto simp: find_Some_iff)
    ultimately show ?thesis using sc(1) find by (simp add: ipc_open_peer_def)
  next
    case None
    obtain st' where st': "new_peer os (Some s) remote st = Some (brk st, st')" "chan_ok st' s (brk st # ps)"
      "has_addr st' remote (brk st)" "brk st \<notin> set ps"
      using new_peer_ok[OF assms(1,3,4,2)] assms(5,6) by (metis snprintf_s_id)
    obtain sc' where sc': "handles st' s = Some sc'" "chain next_peer (handles st') (next_peer sc') (brk st # ps)"
      using st'(2) by (auto simp: chan_ok_def)
    have "ipc_open_peer os2 (Some s) remote st' = Some (brk st, st')"
      using sc'(1) peer_find_chain[OF sc'(2), of remote] st'(3) by (simp add: ipc_open_peer_def)
    then show ?thesis using sc(1) find None st' by (auto simp: ipc_open_peer_def)
  qed
qed

text \<open>Closing a peer of a channel takes exactly that peer out of the channel's list, keeps
  the list well linked, closes its descriptor and frees it; nothing outside the channel
  changes.\<close>

theorem ipc_close_peer_removes:
  assumes "chan_ok st s ps" "i \<in> set ps" "handles st i = Some c"
  shows "\<exists>st'. ipc_close_peer i st = Some st' \<and> chan_ok st' s (remove1 i ps) \<and> handles st' i = None
    \<and> closed st' = (if sockfd c \<ge> 0 then sockfd c # closed st else closed st)
    \<and> (\<forall>a. a \<notin> set (s # ps) \<longrightarrow> handles st' a = handles st a)"
  by (rule ipc_close_peer_in[OF assms])

text \<open>Closing a channel ends, frees the channel and every one of its peers, closes all
  their descriptors, and touches nothing else.\<close>

theorem ipc_close_channel_frees:
  assumes "chan_ok st s ps"
  shows "\<exists>st'. ipc_close_channel s st = Some st' \<and> (\<forall>a\<in>set (s # ps). handles st' a = None)
    \<and> (\<forall>a. a \<notin> set (s # ps) \<longrightarrow> handles st' a = handles st a)
    \<and> (\<forall>a\<in>set (s # ps). \<forall>c. handles st a = Some c \<longrightarrow> 0 \<le> sockfd c \<longrightarrow> sockfd c \<in> set (closed st'))"
  using close_channel_all[OF assms] by blast

lemma serv_scan_chain:
  "chain next_serv h p (us @ s # vs) \<Longrightarrow> h s = Some sc
   \<Longrightarrow> serv_scan h (Some s) prev p = Some (Some (if us = [] then prev else Some (last us), next_serv sc))"
proof (induction us arbitrary: p prev)
  case Nil
  then show ?case by (auto simp: serv_scan.simps)
next
  case (Cons u us)
  then have "distinct ((u # us) @ s # vs)" using chain_distinct by blast
  then show ?case using Cons by (auto simp: serv_scan.simps[of _ _ _ "Some u"])
qed

text \<open>\<open>ipc_close\<close> does not take the channel out of the list of served channels unless the
  channel is its first element and the variable \<open>tmp_prev\<close>, which has no initial value, happens
  to be \<open>NULL\<close>: for any other channel the list still leads to the channel's memory, which is
  freed, so the serving thread's next walk along the list reads freed memory.\<close>

theorem ipc_close_leaves_dangling:
  assumes "chain next_serv (handles st) (serv_list st) (us @ s # vs)" and "chan_ok st s ps"
    and "set ps \<inter> set (us @ vs) = {}" and "i \<in> set ps" and "us \<noteq> [] \<or> tmp_prev \<noteq> None"
  shows "\<exists>st'. ipc_close tmp_prev (Some i) st = Some (SIPC_NO_ERR, st')
    \<and> serv_list st' = serv_list st \<and> handles st' s = None
    \<and> (\<forall>ss. \<not> chain next_serv (handles st') (serv_list st') ss)"
proof -
  obtain sc c where sc: "handles st s = Some sc" "handles st i = Some c" "serv_of c = Some s"
    using assms(2,4) by (auto simp: chan_ok_def)
  obtain st' where st': "ipc_close_channel s st = Some st'" "handles st' s = None" "serv_list st' = serv_list st"
    "\<And>a. a \<notin> set (s # ps) \<Longrightarrow> handles st' a = handles st a"
    using close_channel_all[OF assms(2)] by auto
  have "serv_list st \<noteq> None" using assms(1) by (cases us) auto
  then have "ipc_close tmp_prev (Some i) st = Some (SIPC_NO_ERR, st')"
    using serv_scan_chain[OF assms(1) sc(1), of tmp_prev] assms(5) sc st'(1) by (auto simp: ipc_close_def)
  moreover have "handles st' b = handles st b" if "b \<in> set (us @ s # vs)" "b \<noteq> s" for b
    using that assms(3) by (intro st'(4)) auto
  then have "\<not> chain next_serv (handles st') (serv_list st') ss" for ss
    unfolding st'(3) using st'(2) by (intro no_chain_through_freed[OF assms(1), of s]) auto
  ultimately show ?thesis using st' by blast
qed

section \<open>Concrete channels\<close>

definition demo_chan :: sipc_handle where
  "demo_chan = \<lparr>buffer = replicate SIPC_MAX_MESSAGE_SIZE 0, addr = ''srv'', ipc_id = 0, sockfd = 7, loop_level = 0,
     timeout_us = SIPC_DEFAULT_TIMEOUT, func_table = None, next_peer = None, serv_of = None, next_serv = None\<rparr>"

definition demo_fn :: "string \<Rightarrow> ptr option \<Rightarrow> sipc_function" where
  "demo_fn name nx = \<lparr>fn_name = name, fn_argfmt = [ID_i32, ID_str], fn_retfmt = Some [ID_i32], fn_call_id = 0, fn_next = nx\<rparr>"

text \<open>Two served channels, 0 with the peers 1 and 2 and the functions 100 and 101, and 3 with the
  function 102.\<close>

definition demo_st :: sipc_state where
  "demo_st = \<lparr>handles = [0 \<mapsto> demo_chan\<lparr>func_table := Some 100, next_peer := Some 1\<rparr>,
       1 \<mapsto> demo_chan\<lparr>addr := ''a'', serv_of := Some 0, next_peer := Some 2\<rparr>,
       2 \<mapsto> demo_chan\<lparr>addr := ''b'', serv_of := Some 0\<rparr>,
       3 \<mapsto> demo_chan\<lparr>func_table := Some 102, next_serv := Some 0\<rparr>],
     funcs = [100 \<mapsto> demo_fn ''add'' (Some 101), 101 \<mapsto> demo_fn ''log'' None, 102 \<mapsto> demo_fn ''mix'' None,
       103 \<mapsto> demo_fn ''new'' None],
     serv_list = Some 3, serv_status = True, threads = 1, closed = [], unlinked = [], brk = 4\<rparr>"

lemma demo_chan_ok: "chan_ok demo_st 0 [1, 2]"
  by (simp add: chan_ok_def demo_st_def demo_chan_def)

lemma demo_servs: "chain next_serv (handles demo_st) (serv_list demo_st) ([3] @ 0 # [])"
  by (simp add: demo_st_def demo_chan_def)

lemma ipc_open_peer_shares_witness:
  "\<exists>i st'. ipc_open_peer \<lparr>os_fd = 9, os_bind = True, os_name = None\<rparr> (Some 0) ''c'' demo_st = Some (i, st')
    \<and> i \<notin> {1, 2} \<and> chan_ok st' 0 [i, 1, 2]"
proof -
  have "find (has_addr demo_st ''c'') [1, 2] = None" by (simp add: has_addr_def demo_st_def demo_chan_def)
  moreover have "handles demo_st (brk demo_st) = None" by (simp add: demo_st_def)
  ultimately show ?thesis
    using ipc_open_peer_shares[OF demo_chan_ok, where os = "\<lparr>os_fd = 9, os_bind = True, os_name = None\<rparr>" and remote = "''c''"]
    by fastforce
qed

lemma ipc_close_peer_removes_witness:
  "\<exists>st'. ipc_close_peer 2 demo_st = Some st' \<and> chan_ok st' 0 [1] \<and> handles st' 2 = None \<and> closed st' = [7]"
  using ipc_close_peer_removes[OF demo_chan_ok, of 2 "demo_chan\<lparr>addr := ''b'', serv_of := Some 0\<rparr>"]
  by (auto simp: demo_st_def demo_chan_def)

lemma ipc_close_channel_frees_witness:
  "\<exists>st'. ipc_close_channel 0 demo_st = Some st' \<and> handles st' 0 = None \<and> handles st' 1 = None
    \<and> handles st' 3 = handles demo_st 3"
  using ipc_close_channel_frees[OF demo_chan_ok] by auto

lemma ipc_close_leaves_dangling_witness:
  "\<exists>st'. ipc_close None (Some 1) demo_st = Some (SIPC_NO_ERR, st') \<and> serv_list st' = Some 3 \<and> handles st' 0 = None
    \<and> \<not> chain next_serv (handles st') (serv_list st') [3, 0] \<and> \<not> chain next_serv (handles st') (serv_list st') [3]"
proof -
  have "serv_list demo_st = Some 3" "set [1, 2] \<inter> set ([3] @ []) = ({} :: nat set)" by (simp_all add: demo_st_def)
  then show ?thesis
    using ipc_close_leaves_dangling[OF demo_servs demo_chan_ok, of 1 None] by (metis list.set_intros(1) not_Cons_self2)
qed

end
