(* ===== verification/SocketCall.thy ===== *)
theory SocketCall
  imports SocketChan
begin

text \<open>
  Calls over the channels of \<open>aml_socketipc/aml_socketipc.c\<close>: registering functions, making
  a call and reading its answer, answering, dispatching a received call to its handler, and
  the stub handlers the header generates for exported functions. What \<open>sendto\<close>, \<open>select\<close> and
  \<open>recvfrom\<close> answer are arguments; the handlers the application registers are identified by
  the function structure they belong to.
\<close>

section \<open>Registering functions\<close>

partial_function (option) reg_find ::
  "(ptr \<Rightarrow> sipc_function option) \<Rightarrow> (ptr \<Rightarrow> sipc_function \<Rightarrow> bool) \<Rightarrow> ptr option \<Rightarrow> ptr option option" where
  "reg_find fs P p = (case p of None \<Rightarrow> Some None
     | Some f \<Rightarrow> (case fs f of None \<Rightarrow> None
         | Some fn \<Rightarrow> if P f fn then Some (Some f) else reg_find fs P (fn_next fn)))"

definition ipc_register_call :: "ptr \<Rightarrow> ptr \<Rightarrow> sipc_state \<Rightarrow> (int \<times> sipc_state) option" where
  "ipc_register_call s func st =
     (case (handles st s, funcs st func) of
        (Some sc, Some fn) \<Rightarrow>
          (case reg_find (funcs st) (\<lambda>f g. f = func \<or> fn_name g = fn_name fn) (func_table sc) of
             None \<Rightarrow> None
           | Some (Some _) \<Rightarrow> Some (SIPC_ERR_DUP_FUNC, st)
           | Some None \<Rightarrow>
               Some (0, set_handle s (sc\<lparr>func_table := Some func\<rparr>)
                      (st\<lparr>funcs := (funcs st)(func \<mapsto> fn\<lparr>fn_next := func_table sc\<rparr>)\<rparr>)))
      | _ \<Rightarrow> None)"

section \<open>Calling and answering\<close>

text \<open>\<open>SIPC_FUNCTION (_call)\<close>'s formats: \<open>i32, i32, str\<close> and \<open>i32\<close>.\<close>

definition call_argfmt :: "int list" where "call_argfmt = [ID_i32, ID_i32, ID_str]"
definition call_retfmt :: "int list" where "call_retfmt = [ID_i32]"

definition arg_i32 :: "int \<Rightarrow> ipc_arg" where "arg_i32 i = ArgNum (word_of_int i)"

definition call_header :: "int \<Rightarrow> int \<Rightarrow> string \<Rightarrow> ipc_arg list" where
  "call_header cl ca name = [arg_i32 cl, arg_i32 ca, ArgStr (Some name)]"

text \<open>The \<open>int32_t\<close> a stored number is (bytes least significant first).\<close>

definition val_i32 :: "ipc_val \<Rightarrow> int option" where
  "val_i32 v = (case v of ValNum bs \<Rightarrow> if length bs = 4 then Some (sint (of_le_bytes32 bs)) else None | _ \<Rightarrow> None)"

text \<open>
  \<open>socket_have_data_to_read\<close>: \<open>sel\<close> gives, for the timeout passed, the results of the
  successive \<open>select\<close> calls, each with whether \<open>errno\<close> is \<open>EINTR\<close>; \<^const>\<open>None\<close> when they are
  used up: the call is still waiting.
\<close>

fun select_loop :: "(int \<times> bool) list \<Rightarrow> int option" where
  "select_loop [] = None"
| "select_loop ((r, eintr) # rs) = (if r = -1 \<and> eintr then select_loop rs else Some r)"

definition socket_have_data_to_read :: "int \<Rightarrow> ((int \<times> int) option \<Rightarrow> (int \<times> bool) list) \<Rightarrow> int option" where
  "socket_have_data_to_read us sel =
     select_loop (sel (if us = -1 then None else Some (us sdiv 1000000, us smod 1000000)))"

text \<open>
  The answers of the socket during a call: what \<open>sendto\<close> returns for a message, \<open>select\<close>,
  \<open>recvfrom\<close> with the bytes it wrote.
\<close>

record ipc_env =
  e_send :: "u8 list \<Rightarrow> int"
  e_select :: "(int \<times> int) option \<Rightarrow> (int \<times> bool) list"
  e_recv :: "int \<times> u8 list"

text \<open>The result of a call: its return code, the message sent, the buffer after it, and what
  the return arguments were set to.\<close>

record ipc_result =
  r_code :: int
  r_sent :: "u8 list option"
  r_buffer :: "u8 list"
  r_vals :: "ipc_val list"

definition read_answer :: "u8 list \<Rightarrow> u8 list \<Rightarrow> int \<Rightarrow> ipc_env \<Rightarrow> int list \<Rightarrow> ipc_result option" where
  "read_answer buf msg r e retfmt =
     (let (rlen, bs) = e_recv e in
      if rlen \<le> 0 then Some \<lparr>r_code = SIPC_ERR_IO, r_sent = Some msg, r_buffer = buf, r_vals = []\<rparr>
      else
        let buf1 = put_at buf 0 bs in
        (case ipc_upack_va buf1 0 rlen call_retfmt 0 of
           None \<Rightarrow> None
         | Some (len1, vs) \<Rightarrow>
             let r1 = (case vs of [v] \<Rightarrow> (case val_i32 v of Some i \<Rightarrow> i | None \<Rightarrow> r) | _ \<Rightarrow> r) in
             if r1 = SIPC_NO_ERR then
               (case ipc_upack_va buf1 (nat len1) (rlen - len1) retfmt 0 of
                  None \<Rightarrow> None
                | Some (_, rvs) \<Rightarrow> Some \<lparr>r_code = r1, r_sent = Some msg, r_buffer = buf1, r_vals = rvs\<rparr>)
             else Some \<lparr>r_code = r1, r_sent = Some msg, r_buffer = buf1, r_vals = []\<rparr>))"

definition call_answer :: "u8 list \<Rightarrow> u8 list \<Rightarrow> sipc_handle \<Rightarrow> ipc_env \<Rightarrow> int list \<Rightarrow> ipc_result option" where
  "call_answer buf msg c e retfmt =
     (case socket_have_data_to_read (timeout_us c) (e_select e) of
        None \<Rightarrow> None
      | Some r \<Rightarrow>
          if r > 0 then read_answer buf msg r e retfmt
          else Some \<lparr>r_code = (if r = 0 then SIPC_ERR_TIMEOUT else SIPC_ERR_UNKNOWN), r_sent = Some msg,
                     r_buffer = buf, r_vals = []\<rparr>)"

definition ipc_call_va :: "sipc_handle option \<Rightarrow> sipc_function \<Rightarrow> ipc_arg list \<Rightarrow> ipc_env \<Rightarrow> ipc_result option" where
  "ipc_call_va ipc f va e =
     (case ipc of
        None \<Rightarrow> Some \<lparr>r_code = SIPC_ERR_PARAM, r_sent = None, r_buffer = [], r_vals = []\<rparr>
      | Some c \<Rightarrow>
          (case ipc_pack_va (int SIPC_MAX_MESSAGE_SIZE) call_argfmt (call_header (ipc_id c) (fn_call_id f) (fn_name f)) of
             None \<Rightarrow> None
           | Some (hd1, _) \<Rightarrow>
               if hd1 = [] then Some \<lparr>r_code = 0, r_sent = None, r_buffer = buffer c, r_vals = []\<rparr>
               else (case ipc_pack_va (int SIPC_MAX_MESSAGE_SIZE - int (length hd1)) (fn_argfmt f) va of
                  None \<Rightarrow> None
                | Some (body, _) \<Rightarrow>
                    let msg = hd1 @ body; buf = put_at (buffer c) 0 msg in
                    if e_send e msg \<noteq> int (length msg) then
                      Some \<lparr>r_code = SIPC_ERR_IO, r_sent = Some msg, r_buffer = buf, r_vals = []\<rparr>
                    else (case fn_retfmt f of
                        None \<Rightarrow> Some \<lparr>r_code = SIPC_NO_ERR, r_sent = Some msg, r_buffer = buf, r_vals = []\<rparr>
                      | Some retfmt \<Rightarrow> call_answer buf msg c e retfmt))))"

text \<open>\<open>ipc_resp_va\<close>: the arguments begin with the status of the call.\<close>

definition ipc_resp_va :: "sipc_handle \<Rightarrow> int list option \<Rightarrow> ipc_arg list \<Rightarrow> ipc_env \<Rightarrow> ipc_result option" where
  "ipc_resp_va c fmt va e =
     (case ipc_pack_va (int SIPC_MAX_MESSAGE_SIZE) call_retfmt va of
        None \<Rightarrow> None
      | Some (hd1, va1) \<Rightarrow>
          if hd1 = [] then Some \<lparr>r_code = 0, r_sent = None, r_buffer = buffer c, r_vals = []\<rparr>
          else (case (case fmt of None \<Rightarrow> Some ([], va1)
                      | Some f \<Rightarrow> ipc_pack_va (int SIPC_MAX_MESSAGE_SIZE - int (length hd1)) f va1) of
             None \<Rightarrow> None
           | Some (body, _) \<Rightarrow>
               let msg = hd1 @ body in
               Some \<lparr>r_code = (if e_send e msg \<noteq> int (length msg) then SIPC_ERR_IO else SIPC_NO_ERR),
                     r_sent = Some msg, r_buffer = put_at (buffer c) 0 msg, r_vals = []\<rparr>))"

section \<open>Receiving a call\<close>

text \<open>
  \<open>strcmp (name, p) == 0\<close> for a C string \<open>name\<close> and bytes \<open>p\<close> of the buffer; \<^const>\<open>None\<close> when
  the comparison reads past the buffer.
\<close>

fun strcmp_eq :: "string \<Rightarrow> u8 list \<Rightarrow> bool option" where
  "strcmp_eq _ [] = None"
| "strcmp_eq [] (b # bs) = Some (b = 0)"
| "strcmp_eq (c # cs) (b # bs) = (if byte_of c = b then strcmp_eq cs bs else Some False)"

text \<open>The name in the message: not stored, \<open>NULL\<close>, or at an offset of the buffer.\<close>

definition name_is :: "u8 list \<Rightarrow> ipc_val option \<Rightarrow> string \<Rightarrow> bool option" where
  "name_is buf nv name = (case nv of Some (ValStr (Some off)) \<Rightarrow> strcmp_eq name (drop off buf) | _ \<Rightarrow> None)"

fun find_export :: "(ptr \<Rightarrow> sipc_function option) \<Rightarrow> (string \<Rightarrow> bool option) \<Rightarrow> ptr list \<Rightarrow> ptr option option" where
  "find_export fs test [] = Some None"
| "find_export fs test (f # rest) =
     (case fs f of None \<Rightarrow> None
      | Some fn \<Rightarrow> (case test (fn_name fn) of None \<Rightarrow> None
          | Some b \<Rightarrow> if b then Some (Some f) else find_export fs test rest))"

partial_function (option) find_registered ::
  "(ptr \<Rightarrow> sipc_function option) \<Rightarrow> (string \<Rightarrow> bool option) \<Rightarrow> ptr option \<Rightarrow> ptr option option" where
  "find_registered fs test p = (case p of None \<Rightarrow> Some None
     | Some f \<Rightarrow> (case fs f of None \<Rightarrow> None
         | Some fn \<Rightarrow> (case test (fn_name fn) of None \<Rightarrow> None
             | Some b \<Rightarrow> if b then Some (Some f) else find_registered fs test (fn_next fn))))"

partial_function (option) client_find :: "(ptr \<Rightarrow> sipc_handle option) \<Rightarrow> int \<Rightarrow> ptr option \<Rightarrow> ptr option option" where
  "client_find h client_id p = (case p of None \<Rightarrow> Some None
     | Some a \<Rightarrow> (case h a of None \<Rightarrow> None
         | Some c \<Rightarrow> if ipc_id c = client_id then Some (Some a) else client_find h client_id (next_peer c)))"

text \<open>
  What \<open>ipc_socket_handle\<close> ends in: a return code, or the call of a function's handler with
  the peer (the temporary channel of the sender, a peer of the list, or \<open>NULL\<close>), the offset
  of the arguments in the buffer and their length.
\<close>

datatype ipc_peer = TempChannel | PeerAt ptr | NullPeer
datatype ipc_outcome = Returned int | Handler ptr ipc_peer int int

text \<open>\<open>client_id\<close> in \<open>ipc_socket_handle\<close> is read only after unpacking has stored it.\<close>

definition ipc_socket_handle :: "ptr \<Rightarrow> ptr list \<Rightarrow> int \<times> u8 list \<Rightarrow> sipc_state \<Rightarrow> (ipc_outcome \<times> sipc_state) option" where
  "ipc_socket_handle s exports recvd st =
     (case handles st s of
        None \<Rightarrow> None
      | Some sc \<Rightarrow>
          let (len, bs) = recvd; buf = put_at (buffer sc) 0 bs;
              st1 = set_handle s (sc\<lparr>buffer := buf\<rparr>) st in
          (case ipc_upack_va buf 0 len call_argfmt 0 of
             None \<Rightarrow> None
           | Some (len1, vs) \<Rightarrow>
               if len1 \<le> 0 then Some (Returned SIPC_ERR_DATA, st1)
               else (case val_i32 (vs ! 0) of
                  None \<Rightarrow> None
                | Some client_id \<Rightarrow>
                    (case (if client_id = 0 then Some TempChannel
                           else map_option (\<lambda>p. case p of None \<Rightarrow> NullPeer | Some a \<Rightarrow> PeerAt a)
                             (client_find (handles st1) client_id (next_peer sc))) of
                       None \<Rightarrow> None
                     | Some ipc \<Rightarrow>
                         let nv = (if length vs > 2 then Some (vs ! 2) else None) in
                         (case (case find_export (funcs st1) (name_is buf nv) exports of
                                  Some None \<Rightarrow> find_registered (funcs st1) (name_is buf nv) (func_table sc)
                                | r \<Rightarrow> r) of
                            None \<Rightarrow> None
                          | Some None \<Rightarrow> Some (Returned SIPC_ERR_NO_FUNC, st1)
                          | Some (Some f) \<Rightarrow> Some (Handler f ipc len1 (len - len1), st1))))))"

text \<open>
  The stub handler the header generates for an exported function: unpack the arguments, and
  call \<open>on_<name>\<close> with them when the result is not negative. \<^const>\<open>None\<close> as an argument is
  one that unpacking left uninitialised. A synchronous function whose result is not
  \<open>SIPC_NO_ERR\<close> is answered with that result.
\<close>

definition ipc_handle_stub ::
  "int list \<Rightarrow> bool \<Rightarrow> (ipc_val option list \<Rightarrow> int) \<Rightarrow> u8 list \<Rightarrow> nat \<Rightarrow> int
   \<Rightarrow> (int \<Rightarrow> ipc_result option) \<Rightarrow> (int \<times> ipc_val option list option) option" where
  "ipc_handle_stub fmt sync on_f buf off len resp =
     (case ipc_upack_va buf off len fmt 0 of
        None \<Rightarrow> None
      | Some (r, vs) \<Rightarrow>
          let args = map Some vs @ replicate (length fmt - length vs) None;
              called = (if r \<ge> 0 then Some args else None);
              r1 = (if r \<ge> 0 then on_f args else r)
          in if sync \<and> r1 \<noteq> SIPC_NO_ERR then
               (case resp r1 of None \<Rightarrow> None | Some res \<Rightarrow> Some (r_code res, called))
             else Some (r1, called))"

section \<open>Registered functions\<close>

text \<open>The functions registered with the channel \<open>s\<close> are \<open>fs\<close>, no two with the same name.\<close>

definition fn_is :: "sipc_state \<Rightarrow> string \<Rightarrow> ptr \<Rightarrow> bool" where
  "fn_is st name f \<longleftrightarrow> (case funcs st f of None \<Rightarrow> False | Some fn \<Rightarrow> fn_name fn = name)"

definition fn_names :: "sipc_state \<Rightarrow> ptr list \<Rightarrow> string option list" where
  "fn_names st fs = map (\<lambda>f. map_option fn_name (funcs st f)) fs"

definition funcs_ok :: "sipc_state \<Rightarrow> ptr \<Rightarrow> ptr list \<Rightarrow> bool" where
  "funcs_ok st s fs \<longleftrightarrow> (\<exists>sc. handles st s = Some sc \<and> chain fn_next (funcs st) (func_table sc) fs)
     \<and> distinct (fn_names st fs)"

lemma reg_find_chain: "chain fn_next fs p xs
  \<Longrightarrow> reg_find fs P p = Some (find (\<lambda>f. case fs f of None \<Rightarrow> False | Some fn \<Rightarrow> P f fn) xs)"
  by (induction xs arbitrary: p) (auto simp: reg_find.simps)

lemma find_registered_chain: "chain fn_next fs p xs \<Longrightarrow> (\<And>n. test n = Some (n = name))
  \<Longrightarrow> find_registered fs test p = Some (find (\<lambda>f. case fs f of None \<Rightarrow> False | Some fn \<Rightarrow> fn_name fn = name) xs)"
  by (induction xs arbitrary: p) (auto simp: find_registered.simps)

lemma in_fn_names: "Some n \<in> set (fn_names st fs) \<longleftrightarrow> (\<exists>f\<in>set fs. \<exists>g. funcs st f = Some g \<and> fn_name g = n)"
  unfolding fn_names_def set_map image_iff by (auto simp: eq_commute[of "Some n"])

lemma reg_find_dup:
  assumes "chain fn_next (funcs st) p fs"
  shows "(\<exists>f\<in>set fs. case funcs st f of None \<Rightarrow> False | Some g \<Rightarrow> f = func \<or> fn_name g = n)
    \<longleftrightarrow> func \<in> set fs \<or> Some n \<in> set (fn_names st fs)"
proof -
  have "funcs st f \<noteq> None" if "f \<in> set fs" for f using chain_alloc[OF assms that] by auto
  then have "(\<exists>f\<in>set fs. case funcs st f of None \<Rightarrow> False | Some g \<Rightarrow> f = func \<or> fn_name g = n)
      \<longleftrightarrow> (\<exists>f\<in>set fs. f = func \<or> (\<exists>g. funcs st f = Some g \<and> fn_name g = n))"
    by (intro bex_cong refl) (fastforce split: option.splits)
  then show ?thesis by (auto simp: in_fn_names)
qed

lemma find_None_names: "find P xs = None \<longleftrightarrow> (\<forall>x\<in>set xs. \<not> P x)"
  by (auto simp: find_None_iff)

text \<open>\<open>ipc_register_call\<close> refuses a function whose name (or structure) the channel already
  has and then changes nothing; otherwise the function is in front of the channel's list, the
  other functions stay, and no two of the channel's functions have the same name.\<close>

theorem ipc_register_call_keeps_names:
  assumes "funcs_ok st s fs" and "funcs st func = Some fn"
  shows "\<exists>r st'. ipc_register_call s func st = Some (r, st')
    \<and> (if func \<in> set fs \<or> Some (fn_name fn) \<in> set (fn_names st fs) then r = SIPC_ERR_DUP_FUNC \<and> st' = st
       else r = 0 \<and> funcs_ok st' s (func # fs) \<and> fn_names st' (func # fs) = Some (fn_name fn) # fn_names st fs)"
proof -
  obtain sc where sc: "handles st s = Some sc" "chain fn_next (funcs st) (func_table sc) fs"
    and dist: "distinct (fn_names st fs)" using assms(1) by (auto simp: funcs_ok_def)
  let ?P = "\<lambda>f. case funcs st f of None \<Rightarrow> False | Some g \<Rightarrow> f = func \<or> fn_name g = fn_name fn"
  note find = reg_find_chain[OF sc(2), of "\<lambda>f g. f = func \<or> fn_name g = fn_name fn"]
  have dup: "(\<exists>f\<in>set fs. ?P f) \<longleftrightarrow> func \<in> set fs \<or> Some (fn_name fn) \<in> set (fn_names st fs)"
    by (rule reg_find_dup[OF sc(2)])
  show ?thesis
  proof (cases "find ?P fs")
    case None
    then have nd: "func \<notin> set fs" "Some (fn_name fn) \<notin> set (fn_names st fs)" using dup by (auto simp: find_None_names)
    let ?st = "set_handle s (sc\<lparr>func_table := Some func\<rparr>) (st\<lparr>funcs := (funcs st)(func \<mapsto> fn\<lparr>fn_next := func_table sc\<rparr>)\<rparr>)"
    have names: "fn_names ?st (func # fs) = Some (fn_name fn) # fn_names st fs"
      using nd by (auto simp: fn_names_def)
    have "ipc_register_call s func st = Some (0, ?st)"
      using sc(1) assms(2) find None by (simp add: ipc_register_call_def)
    moreover have "funcs_ok ?st s (func # fs)"
      using sc nd dist names by (simp add: funcs_ok_def)
    ultimately show ?thesis using nd names by auto
  next
    case (Some f)
    then have "func \<in> set fs \<or> Some (fn_name fn) \<in> set (fn_names st fs)"
      using dup find_None_names[of ?P fs] by auto
    then show ?thesis using sc(1) assms(2) find Some by (simp add: ipc_register_call_def)
  qed
qed

text \<open>Registering a function of one channel with a second one relinks it: the first channel's
  list continues after it with the second channel's functions.\<close>

lemma chain_relink:
  assumes "chain nx h p (us @ f # vs)" "chain nx h q ws" "f \<notin> set ws" "nx c = q"
  shows "chain nx (h(f \<mapsto> c)) p (us @ f # ws)"
  using assms(1) chain_distinct[OF assms(1)] by (induction us arbitrary: p) (auto simp: assms(2-4))

text \<open>A function structure registered with a second channel takes the functions that
  follow it in the first channel's list with it out of that list: they are replaced by the
  functions of the second channel.\<close>

theorem ipc_register_call_relinks:
  assumes "funcs_ok st s1 (us @ func # vs)" and "funcs_ok st s2 ws" and "funcs st func = Some fn" and "s1 \<noteq> s2"
    and "func \<notin> set ws" and "Some (fn_name fn) \<notin> set (fn_names st ws)"
  shows "\<exists>st' sc. ipc_register_call s2 func st = Some (0, st') \<and> handles st' s1 = Some sc
    \<and> handles st s1 = Some sc \<and> chain fn_next (funcs st') (func_table sc) (us @ func # ws)"
proof -
  obtain sc1 sc2 where s1: "handles st s1 = Some sc1" "chain fn_next (funcs st) (func_table sc1) (us @ func # vs)"
    and s2: "handles st s2 = Some sc2" "chain fn_next (funcs st) (func_table sc2) ws"
    using assms(1,2) by (auto simp: funcs_ok_def)
  have "find (\<lambda>f. case funcs st f of None \<Rightarrow> False | Some g \<Rightarrow> f = func \<or> fn_name g = fn_name fn) ws = None"
    using reg_find_dup[OF s2(2), of func "fn_name fn"] assms(5,6) unfolding find_None_names by blast
  then have "ipc_register_call s2 func st = Some (0, set_handle s2 (sc2\<lparr>func_table := Some func\<rparr>)
      (st\<lparr>funcs := (funcs st)(func \<mapsto> fn\<lparr>fn_next := func_table sc2\<rparr>)\<rparr>))"
    using s2(1) assms(3) reg_find_chain[OF s2(2), of "\<lambda>f g. f = func \<or> fn_name g = fn_name fn"]
    by (simp add: ipc_register_call_def)
  moreover have "chain fn_next ((funcs st)(func \<mapsto> fn\<lparr>fn_next := func_table sc2\<rparr>)) (func_table sc1) (us @ func # ws)"
    using s1(2) s2(2) assms(5) by (intro chain_relink) simp_all
  ultimately show ?thesis using s1(1) assms(4) by auto
qed

section \<open>A call and its answer\<close>

lemma strcmp_eq_cstr: "NUL \<notin> set n \<Longrightarrow> NUL \<notin> set m \<Longrightarrow> strcmp_eq n (map byte_of m @ 0 # r) = Some (n = m)"
proof (induction n arbitrary: m)
  case Nil
  then show ?case by (cases m) (auto simp: byte_of_def simp flip: byte_of_inj)
next
  case (Cons c n)
  have z: "byte_of NUL = 0" by (simp add: byte_of_def)
  then have "byte_of c \<noteq> 0" using Cons.prems(1) by (metis byte_of_inj list.set_intros(1))
  then show ?case using Cons by (cases m) auto
qed

lemma header_fits: "length (cstr name) + 5 < 2 ^ 31 \<Longrightarrow> list_all2 arg_fits call_argfmt (call_header cl ca name)"
  by (simp add: call_argfmt_def call_header_def arg_fits_def num_fits_def ptr_fits_def arg_i32_def
      ID_i32_def ID_str_def ID_ptr_def str_mem_def)

lemma header_size: "args_size call_argfmt (call_header cl ca name) = 13 + length (cstr name)"
  by (simp add: call_argfmt_def call_header_def args_size_def arg_size_def ptr_size_def arg_i32_def
      ID_i32_def ID_str_def ID_ptr_def str_mem_def number_len_def)

lemma be_bytes32_ne [simp]: "be_bytes32 i \<noteq> []"
  using length_be_bytes32[of i] by (metis length_0_conv zero_neq_numeral)

text \<open>The bytes of a header: client and call id, the length of the name, the name.\<close>

lemma call_header_bytes:
  assumes "NUL \<notin> set name" "int (length name) + 13 \<le> len"  "length name + 5 < 2 ^ 31"
  shows "ipc_pack_va len call_argfmt (call_header cl ca name) =
    Some (be_bytes32 cl @ be_bytes32 ca @ be_bytes32 (int (length name) + 1) @ map byte_of name @ [0], [])"
proof -
  have m: "(0xFFFFFFFF :: u64) = mask 32" by (simp add: mask_eq_exp_minus_1)
  have four: "rev (take 4 (le_bytes64 (word_of_int i AND 0xFFFFFFFF))) = be_bytes32 i" for i
  proof -
    have "ucast (drop_bit k (word_of_int i AND 0xFFFFFFFF :: u64)) = (ucast (drop_bit k (word_of_int i :: u32)) :: u8)"
      if "k \<le> 24" for k
      unfolding m by (rule bit_word_eqI) (use that in \<open>auto simp: bit_simps\<close>)
    from this[of 0] this[of 8] this[of 16] this[of 24] show ?thesis
      by (simp add: le_bytes64_def be_bytes32_def le_bytes32_def upt_rec)
  qed
  show ?thesis using assms
    by (simp add: call_argfmt_def call_header_def ipc_pack1_def ID_i32_def ID_str_def ID_ptr_def number_len_def
        ipc_pack_number_def ipc_pack_pointer_def arg_i32_def four)
qed

lemma upack_i32: "4 \<le> len \<Longrightarrow> off + 4 \<le> length mem
  \<Longrightarrow> ipc_upack1 ID_i32 mem off len = Some (4, Some (ValNum (rev (get_at mem off 4))))"
  by (simp add: ipc_upack1_def ID_i32_def ID_str_def ID_ptr_def number_len_def ipc_upack_number_def)

lemma val_i32_be: "- (2 ^ 31) \<le> i \<Longrightarrow> i < 2 ^ 31 \<Longrightarrow> val_i32 (ValNum (rev (be_bytes32 i))) = Some i"
  using of_be_bytes32_be_bytes32[of i] by (simp add: val_i32_def of_be_bytes32_def)

text \<open>Unpacking the header of a message in the buffer, whatever the length field says.\<close>

lemma upack_header:
  assumes "get_at buf 0 12 = be_bytes32 cl @ be_bytes32 ca @ be_bytes32 n" "12 \<le> length buf"
    and "0 < n" "n + 12 < 2 ^ 31" "8 \<le> len"
  shows "ipc_upack_va buf 0 len call_argfmt 0
    = Some (n + 12, [ValNum (rev (be_bytes32 cl)), ValNum (rev (be_bytes32 ca)), ValStr (Some 12)])"
proof -
  have g: "get_at buf 0 4 = be_bytes32 cl" "get_at buf 4 4 = be_bytes32 ca" "get_at buf 8 4 = be_bytes32 n"
    using assms(1) get_at_take[of 4 12 buf 0] get_at_drop[of buf 0 4 8] get_at_take[of 4 8 buf 4]
      get_at_drop[of buf 0 8 4] by simp_all
  have p: "ipc_upack1 ID_str buf 8 l = Some (n + 4, Some (ValStr (Some 12)))" for l
    using assms(2-4) by (simp add: ipc_upack1_def ID_str_def ID_ptr_def ipc_upack_pointer_def g Let_def)
  show ?thesis using assms(2-) by (simp add: call_argfmt_def upack_i32 g p Let_def)
qed

definition names_ok :: "sipc_state \<Rightarrow> bool" where
  "names_ok st \<longleftrightarrow> (\<forall>f fn. funcs st f = Some fn \<longrightarrow> NUL \<notin> set (fn_name fn))"

lemma name_is_named:
  assumes "names_ok st" "NUL \<notin> set m" "drop off buf = map byte_of m @ 0 # r" "funcs st f = Some fn"
  shows "name_is buf (Some (ValStr (Some off))) (fn_name fn) = Some (fn_is st m f)"
proof -
  have "NUL \<notin> set (fn_name fn)" using assms(1,4) by (auto simp: names_ok_def)
  then show ?thesis using assms(2-4) by (simp add: name_is_def strcmp_eq_cstr fn_is_def)
qed

lemma find_named:
  assumes "names_ok st" "NUL \<notin> set m" "drop off buf = map byte_of m @ 0 # r"
  shows "chain fn_next (funcs st) p xs
      \<Longrightarrow> find_registered (funcs st) (name_is buf (Some (ValStr (Some off)))) p = Some (find (fn_is st m) xs)"
    and "list_all (\<lambda>f. funcs st f \<noteq> None) ys
      \<Longrightarrow> find_export (funcs st) (name_is buf (Some (ValStr (Some off)))) ys = Some (find (fn_is st m) ys)"
proof (induction xs arbitrary: p)
  case Nil
  {
    case 1 then show ?case by (simp add: find_registered.simps)
  next
    case 2 then show ?case by (induction ys) (auto simp: name_is_named[OF assms])
  }
next
  case (Cons f xs)
  {
    case 1
    then show ?case using Cons.IH(1) by (auto simp: find_registered.simps[of _ _ "Some f"] name_is_named[OF assms])
  next
    case 2 then show ?case using Cons.IH(2) by simp
  }
qed

lemma find_append: "find P (xs @ ys) = (case find P xs of None \<Rightarrow> find P ys | Some x \<Rightarrow> Some x)"
  by (induction xs) auto

text \<open>Dispatch of a message with a given header.\<close>

lemma handle_header:
  assumes "handles st s = Some sc" "length (buffer sc) = SIPC_MAX_MESSAGE_SIZE" "length bs \<le> SIPC_MAX_MESSAGE_SIZE"
    and "take 12 bs = be_bytes32 0 @ be_bytes32 ca @ be_bytes32 n" "drop 12 bs = map byte_of name @ 0 # rest"
    and "0 < n" "n + 12 < 2 ^ 31" "NUL \<notin> set name" "names_ok st"
    and "chain fn_next (funcs st) (func_table sc) fs"
    and "list_all (\<lambda>f. funcs st f \<noteq> None) exports" "find (fn_is st name) (exports @ fs) = Some g"
  shows "ipc_socket_handle s exports (int (length bs), bs) st = Some
    (Handler g TempChannel (n + 12) (int (length bs) - (n + 12)), set_handle s (sc\<lparr>buffer := put_at (buffer sc) 0 bs\<rparr>) st)"
proof -
  let ?buf = "put_at (buffer sc) 0 bs"
  have len: "12 \<le> length bs" using arg_cong[OF assms(4), of length] by simp
  have "get_at ?buf 0 12 = be_bytes32 0 @ be_bytes32 ca @ be_bytes32 n" "12 \<le> length ?buf"
    using assms(2-4) len by (simp_all add: get_at_def put_at_def)
  then have up: "ipc_upack_va ?buf 0 (int (length bs)) call_argfmt 0
      = Some (n + 12, [ValNum (rev (be_bytes32 0)), ValNum (rev (be_bytes32 ca)), ValStr (Some 12)])"
    using assms(6,7) len by (intro upack_header) simp_all
  have d: "drop 12 ?buf = map byte_of name @ 0 # (rest @ drop (length bs) (buffer sc))"
    using assms(5) len by (simp add: put_at_def)
  show ?thesis using assms(1,6,12) up val_i32_be[of 0] find_named(1)[OF assms(9,8) d assms(10)]
      find_named(2)[OF assms(9,8) d assms(11)]
    by (auto simp: ipc_socket_handle_def Let_def find_append split: option.splits)
qed

text \<open>
  A client's channel, a function and arguments whose message fits the buffer; the channel of a
  server whose functions are \<open>fs\<close>, \<open>exports\<close> being the program's export table.
\<close>

definition call_ok :: "sipc_handle \<Rightarrow> sipc_function \<Rightarrow> ipc_arg list \<Rightarrow> bool" where
  "call_ok c f args \<longleftrightarrow> ipc_id c = 0 \<and> NUL \<notin> set (fn_name f) \<and> list_all2 arg_fits (fn_argfmt f) args
     \<and> 13 + length (fn_name f) + args_size (fn_argfmt f) args \<le> SIPC_MAX_MESSAGE_SIZE"

definition server_ok :: "sipc_state \<Rightarrow> ptr \<Rightarrow> ptr list \<Rightarrow> ptr list \<Rightarrow> bool" where
  "server_ok st s exports fs \<longleftrightarrow> names_ok st \<and> list_all (\<lambda>f. funcs st f \<noteq> None) exports
     \<and> (case handles st s of None \<Rightarrow> False | Some sc \<Rightarrow> length (buffer sc) = SIPC_MAX_MESSAGE_SIZE
          \<and> chain fn_next (funcs st) (func_table sc) fs)"

lemma call_dispatched:
  assumes "call_ok c f args" and "server_ok st s exports fs"
    and "find (fn_is st (fn_name f)) (exports @ fs) = Some g" and "e_send e = (\<lambda>m. int (length m))"
  shows "\<exists>msg sc vs. (case ipc_call_va (Some c) f args e of None \<Rightarrow> fn_retfmt f \<noteq> None
        | Some res \<Rightarrow> r_sent res = Some msg \<and> (fn_retfmt f = None \<longrightarrow> r_code res = SIPC_NO_ERR))
    \<and> ipc_socket_handle s exports (int (length msg), msg) st
        = Some (Handler g TempChannel (13 + int (length (fn_name f))) (int (args_size (fn_argfmt f) args)), set_handle s sc st)
    \<and> ipc_upack_va (buffer sc) (13 + length (fn_name f)) (int (args_size (fn_argfmt f) args)) (fn_argfmt f) 0
        = Some (int (args_size (fn_argfmt f) args), vs)
    \<and> map (read_val (buffer sc)) vs = map2 arg_shown (fn_argfmt f) args"
proof -
  let ?n = "length (fn_name f)" and ?a = "args_size (fn_argfmt f) args"
  let ?hd = "be_bytes32 0 @ be_bytes32 (fn_call_id f) @ be_bytes32 (int ?n + 1) @ map byte_of (fn_name f) @ [0]"
  have nm: "NUL \<notin> set (fn_name f)" "ipc_id c = 0" and fits: "list_all2 arg_fits (fn_argfmt f) args"
    and max: "13 + ?n + ?a \<le> 8192"
    using assms(1) by (auto simp: call_ok_def SIPC_MAX_MESSAGE_SIZE_def)
  obtain sc0 where sc0: "handles st s = Some sc0" "length (buffer sc0) = 8192"
    "chain fn_next (funcs st) (func_table sc0) fs" "names_ok st" "list_all (\<lambda>f. funcs st f \<noteq> None) exports"
    using assms(2) by (auto simp: server_ok_def SIPC_MAX_MESSAGE_SIZE_def split: option.splits)
  have hd: "ipc_pack_va 8192 call_argfmt (call_header 0 (fn_call_id f) (fn_name f)) = Some (?hd, [])"
    using nm max by (intro call_header_bytes) auto
  have lenhd: "length ?hd = 13 + ?n" by simp
  obtain body where body: "ipc_pack_va (8192 - int (13 + ?n)) (fn_argfmt f) args = Some (body, [])" "length body = ?a"
    and up: "\<And>mem off l r. off + length body \<le> length mem \<Longrightarrow> get_at mem off (length body) = body
      \<Longrightarrow> int (length body) \<le> l \<Longrightarrow> 0 \<le> r \<Longrightarrow> r + int (length body) < 2 ^ 31
      \<Longrightarrow> \<exists>vs. ipc_upack_va mem off l (fn_argfmt f) r = Some (r + int (length body), vs)
            \<and> map (read_val mem) vs = map2 arg_shown (fn_argfmt f) args"
    using pack_va_fits[OF fits, of "8192 - int (13 + ?n)" "[]"] max by auto
  let ?msg = "?hd @ body" and ?buf = "put_at (buffer sc0) 0 (?hd @ body)"
  have lenm: "length ?msg = 13 + ?n + ?a" using body(2) by simp
  have call: "case ipc_call_va (Some c) f args e of None \<Rightarrow> fn_retfmt f \<noteq> None
      | Some res \<Rightarrow> r_sent res = Some ?msg \<and> (fn_retfmt f = None \<longrightarrow> r_code res = SIPC_NO_ERR)"
    using hd body(1) lenhd assms(4) nm(2)
    by (auto simp: ipc_call_va_def SIPC_MAX_MESSAGE_SIZE_def Let_def call_answer_def read_answer_def
        split: option.splits prod.splits if_splits)
  have handle: "ipc_socket_handle s exports (int (length ?msg), ?msg) st
      = Some (Handler g TempChannel (13 + int ?n) (int ?a), set_handle s (sc0\<lparr>buffer := ?buf\<rparr>) st)"
    using handle_header[OF sc0(1), of ?msg "fn_call_id f" "int ?n + 1" "fn_name f" body fs exports g]
      sc0 lenm max nm(1) assms(3) by (simp add: SIPC_MAX_MESSAGE_SIZE_def add.commute)
  have "?buf = ?msg @ drop (length ?msg) (buffer sc0)" by (simp add: put_at_def)
  then have "get_at ?buf (13 + ?n) (length body) = body" "13 + ?n + length body \<le> length ?buf"
    using lenm max sc0(2) by (simp_all add: get_at_def)
  then obtain vs where "ipc_upack_va ?buf (13 + ?n) (int ?a) (fn_argfmt f) 0 = Some (int ?a, vs)"
    "map (read_val ?buf) vs = map2 arg_shown (fn_argfmt f) args"
    using up[of "13 + ?n" ?buf "int ?a" 0] body(2) max by auto
  then show ?thesis using call handle by (intro exI[of _ ?msg] exI[of _ "sc0\<lparr>buffer := ?buf\<rparr>"] exI[of _ vs]) simp
qed

text \<open>C4: A call of a function arrives: the one message \<open>ipc_call_va\<close> sends, received by a
  server that exports or has registered a function of that name, is dispatched to the first
  such function with exactly the part of the message behind the header, and unpacking that
  part with the call's format gives the arguments of the call.\<close>

theorem ipc_call_reaches_handler:
  assumes "call_ok c f args" and "server_ok st s exports fs"
    and "find (fn_is st (fn_name f)) (exports @ fs) = Some g" and "e_send e = (\<lambda>m. int (length m))"
  shows "\<exists>msg sc vs. (case ipc_call_va (Some c) f args e of None \<Rightarrow> fn_retfmt f \<noteq> None
        | Some res \<Rightarrow> r_sent res = Some msg \<and> (fn_retfmt f = None \<longrightarrow> r_code res = SIPC_NO_ERR))
    \<and> ipc_socket_handle s exports (int (length msg), msg) st
        = Some (Handler g TempChannel (13 + int (length (fn_name f))) (int (args_size (fn_argfmt f) args)), set_handle s sc st)
    \<and> ipc_upack_va (buffer sc) (13 + length (fn_name f)) (int (args_size (fn_argfmt f) args)) (fn_argfmt f) 0
        = Some (int (args_size (fn_argfmt f) args), vs)
    \<and> map (read_val (buffer sc)) vs = map2 arg_shown (fn_argfmt f) args"
  by (rule call_dispatched[OF assms])

text \<open>What \<open>ipc_resp_va\<close> sends, and how the caller unpacks its status.\<close>

lemma pack_i32:
  assumes "4 \<le> len"
  shows "ipc_pack1 ID_i32 len (arg_i32 i # va) = Some (Inr (be_bytes32 i), va)"
proof -
  have "ipc_pack_va 100 call_argfmt (call_header i 0 []) = Some (be_bytes32 i @ be_bytes32 0 @ be_bytes32 1 @ [0], [])"
    by (subst call_header_bytes) simp_all
  then show ?thesis using assms
    by (auto simp: call_argfmt_def call_header_def ipc_pack1_def ID_i32_def ID_str_def ID_ptr_def number_len_def
        ipc_pack_number_def arg_i32_def split: option.splits if_splits sum.splits)
qed

text \<open>The message of a call, in its two parts.\<close>

lemma call_message:
  assumes "call_ok c f args"
  shows "\<exists>hd1 body. ipc_pack_va (int SIPC_MAX_MESSAGE_SIZE) call_argfmt (call_header (ipc_id c) (fn_call_id f) (fn_name f))
      = Some (hd1, []) \<and> hd1 \<noteq> []
    \<and> ipc_pack_va (int SIPC_MAX_MESSAGE_SIZE - int (length hd1)) (fn_argfmt f) args = Some (body, [])
    \<and> length (hd1 @ body) \<le> SIPC_MAX_MESSAGE_SIZE"
proof -
  let ?hd = "be_bytes32 0 @ be_bytes32 (fn_call_id f) @ be_bytes32 (int (length (fn_name f)) + 1) @ map byte_of (fn_name f) @ [0]"
  have a: "NUL \<notin> set (fn_name f)" "ipc_id c = 0" "list_all2 arg_fits (fn_argfmt f) args"
    and max: "13 + length (fn_name f) + args_size (fn_argfmt f) args \<le> 8192"
    using assms by (auto simp: call_ok_def SIPC_MAX_MESSAGE_SIZE_def)
  have "ipc_pack_va 8192 call_argfmt (call_header 0 (fn_call_id f) (fn_name f)) = Some (?hd, [])"
    using a max by (intro call_header_bytes) auto
  moreover obtain body where "ipc_pack_va (8192 - int (length ?hd)) (fn_argfmt f) args = Some (body, [])"
    "length body = args_size (fn_argfmt f) args"
    using pack_va_fits[OF a(3), of "8192 - int (length ?hd)" "[]"] max by auto
  ultimately show ?thesis using a(2) max by (intro exI[of _ ?hd] exI[of _ body]) (simp add: SIPC_MAX_MESSAGE_SIZE_def)
qed

text \<open>C5: An answer arrives: the message \<open>ipc_resp_va\<close> sends for a status and return values,
  received by a caller whose call was sent and whose socket is ready, makes the call return
  that status, and with status \<open>SIPC_NO_ERR\<close> it stores the return values in the caller's
  variables.\<close>

theorem ipc_answer_reaches_caller:
  assumes "call_ok c f args" and "fn_retfmt f = Some fmt" and "length (buffer c) = SIPC_MAX_MESSAGE_SIZE"
    and "list_all2 arg_fits fmt rets" "4 + args_size fmt rets \<le> SIPC_MAX_MESSAGE_SIZE"
    and "- (2 ^ 31) \<le> status" "status < 2 ^ 31"
    and "ipc_resp_va c2 (Some fmt) (arg_i32 status # rets) e2 = Some res2" and "r_sent res2 = Some msg"
    and "e_send e = (\<lambda>m. int (length m))" "e_recv e = (int (length msg), msg)"
    and "socket_have_data_to_read (timeout_us c) (e_select e) = Some 1"
  shows "\<exists>res. ipc_call_va (Some c) f args e = Some res \<and> r_code res = status
    \<and> (status = SIPC_NO_ERR \<longrightarrow> map (read_val (r_buffer res)) (r_vals res) = map2 arg_shown fmt rets)"
proof -
  obtain hd1 body1 where call: "ipc_pack_va (int SIPC_MAX_MESSAGE_SIZE) call_argfmt
      (call_header (ipc_id c) (fn_call_id f) (fn_name f)) = Some (hd1, [])" "hd1 \<noteq> []"
    "ipc_pack_va (int SIPC_MAX_MESSAGE_SIZE - int (length hd1)) (fn_argfmt f) args = Some (body1, [])"
    "length (hd1 @ body1) \<le> SIPC_MAX_MESSAGE_SIZE"
    using call_message[OF assms(1)] by blast
  let ?buf = "put_at (buffer c) 0 (hd1 @ body1)"
  obtain body where body: "ipc_pack_va (8192 - 4) fmt rets = Some (body, [])" "length body = args_size fmt rets"
    and up: "\<And>mem off l r. off + length body \<le> length mem \<Longrightarrow> get_at mem off (length body) = body
      \<Longrightarrow> int (length body) \<le> l \<Longrightarrow> 0 \<le> r \<Longrightarrow> r + int (length body) < 2 ^ 31
      \<Longrightarrow> \<exists>vs. ipc_upack_va mem off l fmt r = Some (r + int (length body), vs)
            \<and> map (read_val mem) vs = map2 arg_shown fmt rets"
    using pack_va_fits[OF assms(4), of "8192 - 4" "[]"] assms(5) by (auto simp: SIPC_MAX_MESSAGE_SIZE_def)
  have msg: "msg = be_bytes32 status @ body"
    using assms(8,9) body(1) pack_i32[of 8192 status rets]
    by (auto simp: ipc_resp_va_def call_retfmt_def SIPC_MAX_MESSAGE_SIZE_def Let_def split: option.splits)
  let ?buf1 = "put_at ?buf 0 msg"
  have len: "length ?buf = 8192" "length msg = 4 + length body" "length ?buf1 = 8192" "length msg \<le> 8192"
    using call(4) assms(3,5) body(2) by (simp_all add: SIPC_MAX_MESSAGE_SIZE_def msg)
  have buf1: "?buf1 = be_bytes32 status @ body @ drop (length msg) ?buf" by (simp add: put_at_def msg)
  then have at: "get_at ?buf1 0 4 = be_bytes32 status" "get_at ?buf1 4 (length body) = body"
    by (simp_all add: get_at_def)
  have up1: "ipc_upack_va ?buf1 0 (int (length msg)) call_retfmt 0 = Some (4, [ValNum (rev (be_bytes32 status))])"
    using len by (simp add: call_retfmt_def upack_i32 at Let_def)
  obtain vs where up2: "ipc_upack_va ?buf1 4 (int (length body)) fmt 0 = Some (int (length body), vs)"
    "map (read_val ?buf1) vs = map2 arg_shown fmt rets"
    using up[of 4 ?buf1 "int (length body)" 0] at len by auto
  have "ipc_call_va (Some c) f args e = read_answer ?buf (hd1 @ body1) 1 e fmt"
    using call assms(2,10,12) by (simp add: ipc_call_va_def call_answer_def Let_def)
  also have "\<dots> = Some \<lparr>r_code = status, r_sent = Some (hd1 @ body1), r_buffer = ?buf1,
      r_vals = (if status = SIPC_NO_ERR then vs else [])\<rparr>"
    using up1 up2 val_i32_be[OF assms(6,7)] len assms(11)
    by (cases "status = SIPC_NO_ERR") (simp_all add: read_answer_def Let_def)
  finally show ?thesis using up2 by simp
qed

text \<open>\<open>ipc_socket_handle\<close> takes the length of the name from the message without comparing
  it with the message: for any length field \<open>n\<close> with the name of a known function, the handler is
  called with its arguments at offset \<open>n + 12\<close> of the 8192-byte buffer, and with a negative
  length when \<open>n + 12\<close> exceeds the message.\<close>

theorem ipc_handle_trusts_name_length:
  assumes "server_ok st s exports fs" "NUL \<notin> set name" "find (fn_is st name) (exports @ fs) = Some g"
    and "msg = be_bytes32 0 @ be_bytes32 ca @ be_bytes32 n @ map byte_of name @ [0]"
    and "length msg \<le> SIPC_MAX_MESSAGE_SIZE" "0 < n" "n + 12 < 2 ^ 31"
  shows "\<exists>st'. ipc_socket_handle s exports (int (length msg), msg) st
    = Some (Handler g TempChannel (n + 12) (int (length msg) - (n + 12)), st')"
proof -
  obtain sc where sc: "handles st s = Some sc" "length (buffer sc) = SIPC_MAX_MESSAGE_SIZE"
    "chain fn_next (funcs st) (func_table sc) fs" "names_ok st" "list_all (\<lambda>f. funcs st f \<noteq> None) exports"
    using assms(1) by (auto simp: server_ok_def split: option.splits)
  show ?thesis
    using handle_header[OF sc(1,2) assms(5), of ca n name "[]" fs exports g] assms(2,3,6,7) sc(3-5)
    by (simp add: assms(4))
qed

text \<open>The handlers generated for exported functions never reject a message: unpacking cannot
  give a negative result, so \<open>on_<name>\<close> is called for every message, and with none of its
  arguments set when the message ends before its first argument, an integer.\<close>

theorem ipc_handle_stub_never_rejects:
  assumes "ipc_handle_stub fmt sync on_f buf off len resp = Some (r, called)"
  shows "called \<noteq> None
    \<and> (fmt \<noteq> [] \<and> 1 \<le> hd fmt \<and> hd fmt < ID_str \<and> len < int (number_len (hd fmt))
        \<longrightarrow> called = Some (replicate (length fmt) None))"
proof (intro conjI impI)
  obtain n vs where up: "ipc_upack_va buf off len fmt 0 = Some (n, vs)"
    using assms by (auto simp: ipc_handle_stub_def split: option.splits)
  then have "0 \<le> n" by (rule upack_va_ret)
  then have called: "called = Some (map Some vs @ replicate (length fmt - length vs) None)"
    using assms up by (auto simp: ipc_handle_stub_def Let_def split: option.splits if_splits)
  then show "called \<noteq> None" by simp
  assume "fmt \<noteq> [] \<and> 1 \<le> hd fmt \<and> hd fmt < ID_str \<and> len < int (number_len (hd fmt))"
  then have "vs = []" using up
    by (cases fmt) (auto simp: ipc_upack1_def ipc_upack_number_def ID_str_def ID_ptr_def SIPC_ERR_PARAM_def Let_def)
  then show "called = Some (replicate (length fmt) None)" using called by simp
qed

section \<open>Calls over concrete channels\<close>

lemma demo_funcs_ok: "funcs_ok demo_st 0 [100, 101]" "funcs_ok demo_st 3 [102]"
  by (simp_all add: funcs_ok_def fn_names_def demo_st_def demo_chan_def demo_fn_def)

lemma demo_server_ok: "server_ok demo_st 0 [102] [100, 101]"
  by (simp add: server_ok_def names_ok_def demo_st_def demo_chan_def demo_fn_def)

lemma demo_call_ok: "call_ok demo_chan (demo_fn ''log'' None) [ArgNum 5, ArgStr (Some ''hi'')]"
  by (simp add: call_ok_def demo_chan_def demo_fn_def arg_fits_def num_fits_def ptr_fits_def args_size_def arg_size_def
      ptr_size_def number_len_def str_mem_def cstr_def ID_i32_def ID_str_def ID_ptr_def SIPC_MAX_MESSAGE_SIZE_def)

lemma demo_find: "find (fn_is demo_st ''log'') ([102] @ [100, 101]) = Some 101"
  by (simp add: fn_is_def demo_st_def demo_fn_def)

lemma ipc_register_call_keeps_names_witness:
  "\<exists>st'. ipc_register_call 0 103 demo_st = Some (0, st') \<and> funcs_ok st' 0 [103, 100, 101]"
  using ipc_register_call_keeps_names[OF demo_funcs_ok(1), of 103 "demo_fn ''new'' None"]
  by (auto simp: demo_st_def fn_names_def demo_fn_def)

lemma ipc_register_call_relinks_witness:
  "\<exists>st' sc. ipc_register_call 3 100 demo_st = Some (0, st') \<and> handles st' 0 = Some sc
    \<and> chain fn_next (funcs st') (func_table sc) [100, 102]"
proof -
  have "funcs_ok demo_st 0 ([] @ 100 # [101])" using demo_funcs_ok(1) by simp
  moreover have "funcs demo_st 100 = Some (demo_fn ''add'' (Some 101))"
    "Some (fn_name (demo_fn ''add'' (Some 101))) \<notin> set (fn_names demo_st [102])"
    by (simp_all add: demo_st_def fn_names_def demo_fn_def)
  ultimately show ?thesis using ipc_register_call_relinks[OF _ demo_funcs_ok(2), of 0 "[]" 100 "[101]"] by auto
qed

lemma ipc_call_reaches_handler_witness:
  "\<exists>msg sc. ipc_socket_handle 0 [102] (int (length msg), msg) demo_st
      = Some (Handler 101 TempChannel 16 11, set_handle 0 sc demo_st)"
proof -
  have "args_size (fn_argfmt (demo_fn ''log'' None)) [ArgNum 5, ArgStr (Some ''hi'')] = 11" "fn_name (demo_fn ''log'' None) = ''log''"
    by (simp_all add: demo_fn_def args_size_def arg_size_def ptr_size_def number_len_def str_mem_def cstr_def ID_i32_def ID_str_def)
  then show ?thesis
    using ipc_call_reaches_handler[OF demo_call_ok demo_server_ok, of 101
        "\<lparr>e_send = (\<lambda>m. int (length m)), e_select = (\<lambda>_. []), e_recv = (0, [])\<rparr>"] demo_find by fastforce
qed

lemma ipc_answer_reaches_caller_witness:
  "\<exists>msg res. ipc_call_va (Some demo_chan) (demo_fn ''log'' None) [ArgNum 5, ArgStr (Some ''hi'')]
      \<lparr>e_send = (\<lambda>m. int (length m)), e_select = (\<lambda>_. [(-1, True), (1, False)]), e_recv = (int (length msg), msg)\<rparr> = Some res
    \<and> r_code res = 0 \<and> map (read_val (r_buffer res)) (r_vals res) = [ReadNum [6, 0, 0, 0]]"
proof -
  let ?res2 = "ipc_resp_va demo_chan (Some [ID_i32]) (arg_i32 0 # [ArgNum 6]) \<lparr>e_send = (\<lambda>m. 8), e_select = (\<lambda>_. []), e_recv = (0, [])\<rparr>"
  have "list_all2 arg_fits [ID_i32] [ArgNum 6]" "4 + args_size [ID_i32] [ArgNum 6] \<le> SIPC_MAX_MESSAGE_SIZE"
    "map2 arg_shown [ID_i32] [ArgNum 6] = [ReadNum [6, 0, 0, 0]]"
    by (simp_all add: arg_fits_def num_fits_def args_size_def arg_size_def arg_shown_def num_shown_def number_len_def
        le_bytes64_def upt_rec ID_i32_def ID_str_def ID_ptr_def SIPC_MAX_MESSAGE_SIZE_def)
  moreover have "\<exists>r msg. ?res2 = Some r \<and> r_sent r = Some msg"
    by (simp add: ipc_resp_va_def call_retfmt_def pack_i32 SIPC_MAX_MESSAGE_SIZE_def ipc_pack1_def ipc_pack_number_def
        number_len_def ID_i32_def ID_str_def ID_ptr_def arg_i32_def Let_def
        flip: length_0_conv)
  then obtain r msg where "?res2 = Some r" "r_sent r = Some msg" by blast
  moreover have "fn_retfmt (demo_fn ''log'' None) = Some [ID_i32]" "length (buffer demo_chan) = SIPC_MAX_MESSAGE_SIZE"
    "socket_have_data_to_read (timeout_us demo_chan) (\<lambda>_. [(-1, True), (1, False)]) = Some 1"
    by (simp_all add: demo_fn_def demo_chan_def socket_have_data_to_read_def)
  ultimately have res: "\<exists>res. ipc_call_va (Some demo_chan) (demo_fn ''log'' None) [ArgNum 5, ArgStr (Some ''hi'')]
      \<lparr>e_send = (\<lambda>m. int (length m)), e_select = (\<lambda>_. [(-1, True), (1, False)]), e_recv = (int (length msg), msg)\<rparr> = Some res
    \<and> r_code res = 0 \<and> map (read_val (r_buffer res)) (r_vals res) = [ReadNum [6, 0, 0, 0]]"
    using ipc_answer_reaches_caller[OF demo_call_ok, of "[ID_i32]" "[ArgNum 6]" 0 demo_chan _ r msg
        "\<lparr>e_send = (\<lambda>m. int (length m)), e_select = (\<lambda>_. [(-1, True), (1, False)]), e_recv = (int (length msg), msg)\<rparr>"]
    by (simp add: SIPC_NO_ERR_def)
  show ?thesis by (rule exI[of _ msg], rule res)
qed

lemma ipc_handle_trusts_name_length_witness:
  "\<exists>st'. ipc_socket_handle 0 [102] (16, be_bytes32 0 @ be_bytes32 0 @ be_bytes32 100000 @ map byte_of ''log'' @ [0]) demo_st
    = Some (Handler 101 TempChannel 100012 (- 99996), st')"
  using ipc_handle_trusts_name_length[OF demo_server_ok, of "''log''" 101 _ 0 100000] demo_find
  by (simp add: SIPC_MAX_MESSAGE_SIZE_def)

lemma ipc_handle_stub_never_rejects_witness:
  "ipc_handle_stub [ID_i32, ID_str] False (\<lambda>a. int (length a)) [0, 0] 0 2 (\<lambda>_. None) = Some (2, Some [None, None])"
proof -
  have *: "ipc_handle_stub [ID_i32, ID_str] False (\<lambda>a. int (length a)) [0, 0] 0 2 (\<lambda>_. None)
      = Some (2, Some (replicate 2 None))"
    by (simp add: eval_nat_numeral ipc_handle_stub_def ipc_upack1_def ipc_upack_number_def number_len_def ID_i32_def ID_str_def ID_ptr_def
        SIPC_ERR_PARAM_def)
  show ?thesis
    using ipc_handle_stub_never_rejects[OF *] * by (simp add: eval_nat_numeral ID_i32_def ID_str_def number_len_def)
qed

end
