(* ===== verification/SocketRun.thy ===== *)
theory SocketRun
  imports SocketCall
begin

text \<open>
  The main loop of \<open>aml_socketipc/aml_socketipc.c\<close>: \<open>ipc_run_loop\<close> with its loop levels,
  \<open>ipc_exit_inner_loop\<close>, which ends the innermost loop and wakes it with a call to itself, and
  \<open>ipc_set_timeout\<close>. The messages that arrive are a list; what the handlers do is an argument
  that may take messages of its own (a handler may run a loop).
\<close>

definition ipc_set_timeout :: "ptr \<Rightarrow> int \<Rightarrow> sipc_state \<Rightarrow> (int \<times> sipc_state) option" where
  "ipc_set_timeout c us st = (case handles st c of
      None \<Rightarrow> None
    | Some h \<Rightarrow> Some (timeout_us h, set_handle c (h\<lparr>timeout_us := us\<rparr>) st))"

definition ipc_socket_getfd :: "ptr \<Rightarrow> sipc_state \<Rightarrow> int option" where
  "ipc_socket_getfd s st = map_option sockfd (handles st s)"

type_synonym inbox = "(int \<times> u8 list) list"

text \<open>The rounds of the loop: the return value, the messages left and the state; \<^const>\<open>None\<close>
  is undefined behaviour or a loop that still waits for a message.\<close>

partial_function (option) loop_rounds :: "ptr \<Rightarrow> int \<Rightarrow> ptr list
    \<Rightarrow> (ipc_outcome \<Rightarrow> inbox \<Rightarrow> sipc_state \<Rightarrow> (inbox \<times> sipc_state) option)
    \<Rightarrow> inbox \<Rightarrow> sipc_state \<Rightarrow> (int \<times> inbox \<times> sipc_state) option" where
  "loop_rounds s cur_loop exports app ms st =
     (case handles st s of
        None \<Rightarrow> None
      | Some sc \<Rightarrow>
          if \<not> cur_loop < loop_level sc then Some (0, ms, st)
          else (case ms of
              [] \<Rightarrow> None
            | m # ms1 \<Rightarrow>
                (case ipc_socket_handle s exports m st of
                   None \<Rightarrow> None
                 | Some (res, st1) \<Rightarrow>
                     (case app res ms1 st1 of
                        None \<Rightarrow> None
                      | Some (ms2, st2) \<Rightarrow> loop_rounds s cur_loop exports app ms2 st2))))"

definition ipc_run_loop :: "ptr \<Rightarrow> ptr list \<Rightarrow> (ipc_outcome \<Rightarrow> inbox \<Rightarrow> sipc_state \<Rightarrow> (inbox \<times> sipc_state) option)
    \<Rightarrow> inbox \<Rightarrow> sipc_state \<Rightarrow> (int \<times> inbox \<times> sipc_state) option" where
  "ipc_run_loop s exports app ms st =
     (case handles st s of
        None \<Rightarrow> None
      | Some sc \<Rightarrow> loop_rounds s (loop_level sc) exports app ms
                   (set_handle s (sc\<lparr>loop_level := loop_level sc + 1\<rparr>) st))"

text \<open>\<open>EXPORT_IPC_FUNCTION (_local, i32, ptr)\<close>, whose handler \<open>on__local\<close> only logs.\<close>

definition fn_local :: sipc_function where
  "fn_local = \<lparr>fn_name = ''_local'', fn_argfmt = [ID_i32, ID_ptr], fn_retfmt = None, fn_call_id = 0, fn_next = None\<rparr>"

definition on_local :: int where "on_local = 0"

definition ipc_exit_inner_loop :: "ptr \<Rightarrow> ipc_env \<Rightarrow> sipc_state \<Rightarrow> (int \<times> u8 list option \<times> sipc_state) option" where
  "ipc_exit_inner_loop s e st =
     (case handles st s of
        None \<Rightarrow> None
      | Some sc \<Rightarrow>
          let sc1 = sc\<lparr>loop_level := loop_level sc - 1\<rparr> in
          (case ipc_call_va (Some sc1) fn_local [arg_i32 0, ArgPtr None 0] e of
             None \<Rightarrow> None
           | Some res \<Rightarrow> Some (0, r_sent res, set_handle s (sc1\<lparr>buffer := r_buffer res\<rparr>) st)))"

section \<open>Loop levels\<close>

definition level :: "sipc_state \<Rightarrow> ptr \<Rightarrow> int option" where
  "level st s = map_option loop_level (handles st s)"

lemma handle_keeps_level: "ipc_socket_handle s exports m st = Some (res, st') \<Longrightarrow> level st' s = level st s"
  by (auto simp: ipc_socket_handle_def level_def Let_def split: option.splits prod.splits if_splits)

text \<open>Handlers that lower the level of the channel by at most one, as a call of
  \<open>ipc_exit_inner_loop\<close> does, and one that runs a loop of its own and then does the same.\<close>

definition exits_at_most_once :: "ptr \<Rightarrow> (ipc_outcome \<Rightarrow> inbox \<Rightarrow> sipc_state \<Rightarrow> (inbox \<times> sipc_state) option) \<Rightarrow> bool" where
  "exits_at_most_once s app \<longleftrightarrow> (\<forall>res ms st ms' st' l. app res ms st = Some (ms', st') \<longrightarrow> level st s = Some l
     \<longrightarrow> (\<exists>l'. level st' s = Some l' \<and> l - 1 \<le> l'))"

lemma loop_rounds_level:
  assumes "loop_rounds s cur exports app ms st = Some y" "exits_at_most_once s app" "level st s = Some l" "cur \<le> l"
  shows "fst y = 0 \<and> level (snd (snd y)) s = Some cur"
proof -
  define P where "P s cur exports app ms st y \<longleftrightarrow> (exits_at_most_once s app \<longrightarrow> (\<forall>l. level st s = Some l \<longrightarrow> cur \<le> l
    \<longrightarrow> fst y = 0 \<and> level (snd (snd y)) s = Some cur))"
    for s cur and exports :: "ptr list" and app and ms :: inbox and st and y :: "int \<times> inbox \<times> sipc_state"
  have "P s cur exports app ms st y"
  proof (rule loop_rounds.raw_induct[where P = P, OF _ assms(1)])
    fix loop :: "ptr \<Rightarrow> int \<Rightarrow> ptr list \<Rightarrow> (ipc_outcome \<Rightarrow> inbox \<Rightarrow> sipc_state \<Rightarrow> (inbox \<times> sipc_state) option)
      \<Rightarrow> inbox \<Rightarrow> sipc_state \<Rightarrow> (int \<times> inbox \<times> sipc_state) option" and s cur exports app ms st y
    assume IH: "\<And>s cur exports app ms st y. loop s cur exports app ms st = Some y \<Longrightarrow> P s cur exports app ms st y"
      and y: "(case handles st s of None \<Rightarrow> None
         | Some sc \<Rightarrow> if \<not> cur < loop_level sc then Some (0, ms, st)
             else (case ms of [] \<Rightarrow> None
               | m # ms1 \<Rightarrow> (case ipc_socket_handle s exports m st of None \<Rightarrow> None
                   | Some (res, st1) \<Rightarrow> (case app res ms1 st1 of None \<Rightarrow> None
                       | Some (ms2, st2) \<Rightarrow> loop s cur exports app ms2 st2)))) = Some y"
    show "P s cur exports app ms st y" unfolding P_def
    proof (intro impI allI)
      fix l assume a: "exits_at_most_once s app" "level st s = Some l" "cur \<le> l"
      show "fst y = 0 \<and> level (snd (snd y)) s = Some cur"
      proof (cases "cur < l")
        case True
        then obtain m ms1 res st1 ms2 st2 where r: "ms = m # ms1" "ipc_socket_handle s exports m st = Some (res, st1)"
          "app res ms1 st1 = Some (ms2, st2)" "loop s cur exports app ms2 st2 = Some y"
          using y a(2) by (auto simp: level_def split: option.splits list.splits if_splits)
        have "level st1 s = Some l" using handle_keeps_level[OF r(2)] a(2) by simp
        then obtain l' where "level st2 s = Some l'" "l - 1 \<le> l'"
          using a(1) r(3) unfolding exits_at_most_once_def by blast
        then show ?thesis using IH[OF r(4)] a(1) True by (auto simp: P_def)
      qed (use y a in \<open>auto simp: level_def\<close>)
    qed
  qed
  then show ?thesis using assms(2-4) by (auto simp: P_def)
qed

text \<open>The loop ends with return code 0 and the channel at the level it had before: a handler's
  \<open>ipc_exit_inner_loop\<close> ends the innermost loop and no other.\<close>

theorem ipc_run_loop_restores_level:
  assumes "ipc_run_loop s exports app ms st = Some (r, ms', st')" "exits_at_most_once s app"
  shows "r = 0 \<and> level st' s = level st s"
proof -
  obtain sc where sc: "handles st s = Some sc" using assms(1) by (auto simp: ipc_run_loop_def split: option.splits)
  then show ?thesis
    using assms loop_rounds_level[of s "loop_level sc" exports app ms _ "(r, ms', st')" "loop_level sc + 1"]
    by (simp add: ipc_run_loop_def level_def)
qed

text \<open>A handler that runs a loop and then leaves is one that lowers the level at most once.\<close>

theorem nested_loop_exits_at_most_once:
  assumes "exits_at_most_once s inner"
  shows "exits_at_most_once s (\<lambda>res ms st. map_option snd (ipc_run_loop s exports inner ms st))"
  unfolding exits_at_most_once_def
proof (intro allI impI)
  fix res :: ipc_outcome and ms st ms' st' l
  assume a: "map_option snd (ipc_run_loop s exports inner ms st) = Some (ms', st')" "level st s = Some l"
  then obtain r where "ipc_run_loop s exports inner ms st = Some (r, ms', st')" by auto
  from ipc_run_loop_restores_level[OF this assms] a(2) show "\<exists>l'. level st' s = Some l' \<and> l - 1 \<le> l'" by simp
qed

text \<open>
  Another thread ends a loop that waits for a message: \<open>ipc_exit_inner_loop\<close> lowers the level
  and sends the channel a message which it dispatches to its exported \<open>_local\<close>, after which the
  loop returns.
\<close>

theorem ipc_exit_inner_loop_wakes:
  assumes "server_ok st s exports fs" "handles st s = Some sc" "ipc_id sc = 0" "loop_level sc = cur + 1"
    and "find (fn_is st ''_local'') (exports @ fs) = Some g"
    and "e_send e = (\<lambda>m. int (length m))" "ipc_exit_inner_loop s e st = Some (r, Some msg, st1)"
    and "length (buffer sc) = SIPC_MAX_MESSAGE_SIZE"
    and "\<And>res ms st ms' st'. app res ms st = Some (ms', st') \<Longrightarrow> level st' s = level st s"
  shows "r = 0 \<and> (\<exists>st2. ipc_socket_handle s exports (int (length msg), msg) st1 = Some (Handler g TempChannel 19 8, st2)
    \<and> (\<forall>ms st3. app (Handler g TempChannel 19 8) ms st2 = Some (ms, st3) \<longrightarrow> loop_rounds s cur exports app ms st3 = Some (0, ms, st3)))"
proof -
  let ?sc1 = "sc\<lparr>loop_level := loop_level sc - 1\<rparr>"
  obtain res where call: "ipc_call_va (Some ?sc1) fn_local [arg_i32 0, ArgPtr None 0] e = Some res"
    and st1: "r = 0" "r_sent res = Some msg" "st1 = set_handle s (?sc1\<lparr>buffer := r_buffer res\<rparr>) st"
    using assms(2,7) by (auto simp: ipc_exit_inner_loop_def Let_def split: option.splits)
  have size: "args_size (fn_argfmt fn_local) [arg_i32 0, ArgPtr None 0] = 8"
    by (simp add: fn_local_def args_size_def arg_size_def ptr_size_def number_len_def ID_i32_def ID_str_def ID_ptr_def arg_i32_def)
  have ok: "call_ok ?sc1 fn_local [arg_i32 0, ArgPtr None 0]"
    using assms(3) size by (simp add: call_ok_def) (simp add: fn_local_def arg_fits_def num_fits_def ptr_fits_def ptr_size_def ID_i32_def ID_str_def
       ID_ptr_def number_len_def arg_i32_def SIPC_MAX_MESSAGE_SIZE_def)
  have len: "length (r_buffer res) = 8192"
    using call assms(8) ok call_message[OF ok] by (auto simp: ipc_call_va_def fn_local_def Let_def SIPC_MAX_MESSAGE_SIZE_def split: option.splits prod.splits if_splits)
  have srv: "server_ok st1 s exports fs"
    using assms(1,2) len by (auto simp: st1(3) server_ok_def names_ok_def SIPC_MAX_MESSAGE_SIZE_def)
  have found: "find (fn_is st1 (fn_name fn_local)) (exports @ fs) = Some g"
    using assms(5) by (simp add: st1(3) fn_is_def[abs_def] fn_local_def)
  obtain sc2 where handled: "ipc_socket_handle s exports (int (length msg), msg) st1 = Some (Handler g TempChannel 19 8, set_handle s sc2 st1)"
    using call_dispatched[OF ok srv found assms(6)] call st1(2) size by (auto simp: fn_local_def)
  then have "level (set_handle s sc2 st1) s = Some cur"
    using handle_keeps_level[OF handled] assms(4) by (simp add: level_def st1(3))
  then have "loop_rounds s cur exports app ms st3 = Some (0, ms, st3)"
    if "app (Handler g TempChannel 19 8) ms (set_handle s sc2 st1) = Some (ms, st3)" for ms st3
    using assms(9)[OF that] by (subst loop_rounds.simps) (auto simp: level_def)
  then show ?thesis using handled st1(1) by blast
qed

end
