(* ===== verification/ServThread.thy ===== *)
theory ServThread
  imports Main
begin

text \<open>
  The serving thread of \<open>aml_socketipc/aml_socketipc.c\<close> (\<open>serv_pthread_func\<close>) beside a thread
  in \<open>ipc_close\<close>: the two program counters, the mutex \<open>serv_mutex\<close> and \<open>serv_status\<close>, as a step
  relation. What the threads do to the lists is in \<open>SocketChan\<close>; here it only matters whether
  the close leaves the list of served channels empty.
\<close>

datatype thread = Serving | Closing

datatype serv_pc = S_While | S_Lock | S_Select | S_Handle | S_Unlock | S_Exit
datatype close_pc = C_Lock | C_Scan | C_Join | C_Unlock | C_Free | C_Return

record serv_sys =
  s_status :: bool
  s_mutex :: "thread option"
  s_pc :: serv_pc
  c_pc :: close_pc
  c_empties :: bool

text \<open>A serving thread in its loop, another thread entering \<open>ipc_close\<close>.\<close>

definition serv_start :: "bool \<Rightarrow> serv_sys" where
  "serv_start e = \<lparr>s_status = True, s_mutex = None, s_pc = S_While, c_pc = C_Lock, c_empties = e\<rparr>"

text \<open>
  \<open>select\<close> returns with or without a ready socket (\<open>S_Handle\<close> is the loop over the ready ones).
  \<open>ipc_exit\<close> is called between the scan of the list and the unlocking, when the list is empty:
  it clears \<open>serv_status\<close> and joins the thread.
\<close>

inductive serv_step :: "serv_sys \<Rightarrow> serv_sys \<Rightarrow> bool" where
  s_loop: "s_pc s = S_While \<Longrightarrow> s_status s \<Longrightarrow> serv_step s (s\<lparr>s_pc := S_Lock\<rparr>)"
| s_exit: "s_pc s = S_While \<Longrightarrow> \<not> s_status s \<Longrightarrow> serv_step s (s\<lparr>s_pc := S_Exit\<rparr>)"
| s_lock: "s_pc s = S_Lock \<Longrightarrow> s_mutex s = None \<Longrightarrow> serv_step s (s\<lparr>s_pc := S_Select, s_mutex := Some Serving\<rparr>)"
| s_ready: "s_pc s = S_Select \<Longrightarrow> serv_step s (s\<lparr>s_pc := S_Handle\<rparr>)"
| s_timeout: "s_pc s = S_Select \<Longrightarrow> serv_step s (s\<lparr>s_pc := S_Unlock\<rparr>)"
| s_handled: "s_pc s = S_Handle \<Longrightarrow> serv_step s (s\<lparr>s_pc := S_Unlock\<rparr>)"
| s_unlock: "s_pc s = S_Unlock \<Longrightarrow> serv_step s (s\<lparr>s_pc := S_While, s_mutex := None\<rparr>)"
| c_lock: "c_pc s = C_Lock \<Longrightarrow> s_mutex s = None \<Longrightarrow> serv_step s (s\<lparr>c_pc := C_Scan, s_mutex := Some Closing\<rparr>)"
| c_scan_empty: "c_pc s = C_Scan \<Longrightarrow> c_empties s \<Longrightarrow> serv_step s (s\<lparr>c_pc := C_Join, s_status := False\<rparr>)"
| c_scan: "c_pc s = C_Scan \<Longrightarrow> \<not> c_empties s \<Longrightarrow> serv_step s (s\<lparr>c_pc := C_Unlock\<rparr>)"
| c_join: "c_pc s = C_Join \<Longrightarrow> s_pc s = S_Exit \<Longrightarrow> serv_step s (s\<lparr>c_pc := C_Unlock\<rparr>)"
| c_unlock: "c_pc s = C_Unlock \<Longrightarrow> serv_step s (s\<lparr>c_pc := C_Free, s_mutex := None\<rparr>)"
| c_free: "c_pc s = C_Free \<Longrightarrow> serv_step s (s\<lparr>c_pc := C_Return\<rparr>)"

inductive_cases serv_stepE: "serv_step s t"

abbreviation serv_reach :: "serv_sys \<Rightarrow> serv_sys \<Rightarrow> bool" where
  "serv_reach \<equiv> serv_step\<^sup>*\<^sup>*"

text \<open>The mutex is held by the thread that is between its lock and its unlock.\<close>

definition serv_inv :: "serv_sys \<Rightarrow> bool" where
  "serv_inv s \<longleftrightarrow> (s_pc s \<in> {S_Select, S_Handle, S_Unlock} \<longleftrightarrow> s_mutex s = Some Serving)
     \<and> (c_pc s \<in> {C_Scan, C_Join, C_Unlock} \<longleftrightarrow> s_mutex s = Some Closing)
     \<and> (\<not> c_empties s \<longrightarrow> c_pc s \<noteq> C_Join \<and> s_status s \<and> s_pc s \<noteq> S_Exit)"

lemma serv_step_inv: "serv_step s t \<Longrightarrow> serv_inv s \<Longrightarrow> serv_inv t"
  by (induction rule: serv_step.induct) (auto simp: serv_inv_def)

lemma serv_reach_inv: "serv_reach (serv_start e) s \<Longrightarrow> serv_inv s"
  by (induction rule: rtranclp_induct) (auto simp: serv_start_def serv_inv_def dest: serv_step_inv[unfolded serv_inv_def])

text \<open>While the serving thread selects on the served channels or handles their messages,
  no thread in \<open>ipc_close\<close> is unlinking a channel from the list, in every reachable state.\<close>

theorem serv_list_exclusion:
  assumes "serv_reach (serv_start e) s" and "s_pc s \<in> {S_Select, S_Handle}"
  shows "c_pc s \<notin> {C_Scan, C_Join, C_Unlock}"
  using serv_reach_inv[OF assms(1)] assms(2) by (auto simp: serv_inv_def)

text \<open>Once the closing thread holds the mutex while the serving thread waits for it, and the list
  becomes empty, neither moves on.\<close>

definition serv_stuck :: "serv_sys \<Rightarrow> bool" where
  "serv_stuck s \<longleftrightarrow> s_pc s = S_Lock \<and> s_mutex s = Some Closing \<and> c_empties s \<and> c_pc s \<in> {C_Scan, C_Join}"

lemma serv_stuck_step: "serv_step s t \<Longrightarrow> serv_stuck s \<Longrightarrow> serv_stuck t"
  by (induction rule: serv_step.induct) (auto simp: serv_stuck_def)

lemma serv_stuck_reach: "serv_reach s t \<Longrightarrow> serv_stuck s \<Longrightarrow> serv_stuck t"
  by (induction rule: rtranclp_induct) (auto dest: serv_stuck_step)

lemma s_loop_start: "serv_step (serv_start e) ((serv_start e)\<lparr>s_pc := S_Lock\<rparr>)"
  by (rule s_loop) (simp_all add: serv_start_def)

lemma serv_reach_2: "serv_step s t \<Longrightarrow> serv_step t u \<Longrightarrow> serv_reach s u"
  by (meson converse_rtranclp_into_rtranclp r_into_rtranclp)

text \<open>C28: Closing the last channel can deadlock: \<open>ipc_close\<close> calls \<open>ipc_exit\<close>, which joins the
  serving thread, while it holds the mutex the serving thread takes in every round. There is a
  reachable state from which neither \<open>ipc_close\<close> nor the thread ever finishes.\<close>

theorem ipc_close_last_deadlocks:
  "\<exists>s. serv_reach (serv_start True) s \<and> \<not> (\<exists>t. serv_reach s t \<and> (c_pc t = C_Return \<or> s_pc t = S_Exit))
    \<and> \<not> (\<exists>t. serv_reach s t \<and> s_mutex t \<noteq> Some Closing)"
proof -
  let ?s1 = "(serv_start True)\<lparr>s_pc := S_Lock\<rparr>"
  let ?s2 = "?s1\<lparr>c_pc := C_Scan, s_mutex := Some Closing\<rparr>"
  have "serv_step ?s1 ?s2" by (rule c_lock) (simp_all add: serv_start_def)
  then have reach: "serv_reach (serv_start True) ?s2" by (rule serv_reach_2[OF s_loop_start])
  have "serv_stuck ?s2" by (simp add: serv_stuck_def serv_start_def)
  then have "s_pc t = S_Lock \<and> s_mutex t = Some Closing \<and> c_pc t \<noteq> C_Return" if "serv_reach ?s2 t" for t
    using serv_stuck_reach[OF that] by (auto simp: serv_stuck_def)
  then show ?thesis using reach by (intro exI[of _ ?s2]) fastforce
qed

definition may_return :: "serv_sys \<Rightarrow> bool" where
  "may_return s \<longleftrightarrow> (\<exists>t. serv_reach s t \<and> c_pc t = C_Return)"

lemma may_returnI: "serv_step s t \<Longrightarrow> may_return t \<Longrightarrow> may_return s"
  unfolding may_return_def by (meson converse_rtranclp_into_rtranclp)

lemma may_return_holding:
  "c_pc s = C_Return \<Longrightarrow> may_return s"
  "c_pc s = C_Free \<Longrightarrow> may_return s"
  "c_pc s = C_Unlock \<Longrightarrow> may_return s"
  "c_pc s = C_Scan \<Longrightarrow> \<not> c_empties s \<Longrightarrow> may_return s"
  "c_pc s = C_Lock \<Longrightarrow> s_mutex s = None \<Longrightarrow> \<not> c_empties s \<Longrightarrow> may_return s"
proof -
  show 1: "c_pc s = C_Return \<Longrightarrow> may_return s" for s by (auto simp: may_return_def)
  show 2: "c_pc s = C_Free \<Longrightarrow> may_return s" for s by (rule may_returnI[OF c_free 1]) simp_all
  show 3: "c_pc s = C_Unlock \<Longrightarrow> may_return s" for s by (rule may_returnI[OF c_unlock 2]) simp_all
  show 4: "c_pc s = C_Scan \<Longrightarrow> \<not> c_empties s \<Longrightarrow> may_return s" for s by (rule may_returnI[OF c_scan 3]) simp_all
  show "c_pc s = C_Lock \<Longrightarrow> s_mutex s = None \<Longrightarrow> \<not> c_empties s \<Longrightarrow> may_return s"
    by (rule may_returnI[OF c_lock 4]) simp_all
qed

lemma may_return_waiting:
  assumes "c_pc s = C_Lock" "\<not> c_empties s" "s_pc s \<in> {S_Select, S_Handle, S_Unlock}"
  shows "may_return s"
proof -
  have u: "s_pc s = S_Unlock \<Longrightarrow> c_pc s = C_Lock \<Longrightarrow> \<not> c_empties s \<Longrightarrow> may_return s" for s
    by (rule may_returnI[OF s_unlock may_return_holding(5)]) simp_all
  have "s_pc s = S_Select \<Longrightarrow> may_return s" by (rule may_returnI[OF s_timeout u]) (simp_all add: assms)
  moreover have "s_pc s = S_Handle \<Longrightarrow> may_return s" by (rule may_returnI[OF s_handled u]) (simp_all add: assms)
  ultimately show ?thesis using u assms by auto
qed

lemma serv_reach_empties: "serv_reach s t \<Longrightarrow> c_empties t = c_empties s"
  by (induction rule: rtranclp_induct) (auto elim: serv_stepE)

text \<open>A close that leaves other channels in the list can always return: from every state
  the two threads reach, some continuation lets \<open>ipc_close\<close> return.\<close>

theorem ipc_close_not_last_returns:
  assumes "serv_reach (serv_start False) s"
  shows "\<exists>t. serv_reach s t \<and> c_pc t = C_Return"
proof -
  have ne: "\<not> c_empties s" using serv_reach_empties[OF assms] by (simp add: serv_start_def)
  have inv: "serv_inv s" by (rule serv_reach_inv[OF assms])
  have "may_return s"
  proof (cases "c_pc s")
    case C_Lock
    then show ?thesis using ne inv may_return_holding(5)[of s] may_return_waiting[of s]
      by (cases "s_mutex s") (auto simp: serv_inv_def split: thread.splits intro: thread.exhaust)
  qed (use ne inv may_return_holding in \<open>auto simp: serv_inv_def\<close>)
  then show ?thesis by (simp add: may_return_def)
qed

lemma serv_list_exclusion_witness:
  "c_pc ((serv_start True)\<lparr>s_pc := S_Select, s_mutex := Some Serving\<rparr>) \<notin> {C_Scan, C_Join, C_Unlock}"
proof -
  have "serv_step ((serv_start True)\<lparr>s_pc := S_Lock\<rparr>) ((serv_start True)\<lparr>s_pc := S_Lock, s_pc := S_Select, s_mutex := Some Serving\<rparr>)"
    by (rule s_lock) (simp_all add: serv_start_def)
  then have "serv_reach (serv_start True) ((serv_start True)\<lparr>s_pc := S_Select, s_mutex := Some Serving\<rparr>)"
    using serv_reach_2[OF s_loop_start] by fastforce
  then show ?thesis by (rule serv_list_exclusion) simp
qed

lemma ipc_close_not_last_returns_witness:
  "\<exists>t. serv_reach ((serv_start False)\<lparr>s_pc := S_Lock\<rparr>) t \<and> c_pc t = C_Return"
  by (rule ipc_close_not_last_returns) (rule r_into_rtranclp, rule s_loop_start)

end
