(* ===== verification/UtilList.thy ===== *)
theory UtilList
  imports Links Main
begin

text \<open>
  \<open>aml_socketipc_v2/common/util_list.c\<close>: the doubly linked list the socket server keeps its
  clients and its pending messages in. A list has its nodes and the data they point to in
  explicit stores (freed memory is \<^const>\<open>None\<close> there); \<open>ulist_ok\<close> says that a list is well
  linked, \<open>items\<close> is its abstract content, and the lemmas say that the operations are those of
  a queue of items. The interface of the queue is the locale \<open>fifo\<close>.
\<close>

section \<open>Nodes and lists\<close>

record node =
  nodeTypeData :: int
  ndata :: nat
  nextp :: "nat option"
  prevp :: "nat option"

text \<open>\<open>cells\<close>: what the data pointers point to; \<open>fresh\<close>: the address \<open>malloc\<close> returns next.\<close>

record 'd ulist =
  head :: "nat option"
  tail :: "nat option"
  nodes :: "nat \<Rightarrow> node option"
  cells :: "nat \<Rightarrow> 'd option"
  fresh :: nat

definition createList :: "'d ulist" where
  "createList = \<lparr>head = None, tail = None, nodes = (\<lambda>_. None), cells = (\<lambda>_. None), fresh = 0\<rparr>"

definition push_back :: "'d ulist \<Rightarrow> nat \<Rightarrow> int \<Rightarrow> 'd ulist option" where
  "push_back l d ty =
     (let a = fresh l; l1 = l\<lparr>fresh := Suc a\<rparr> in
      case head l of
        None \<Rightarrow> Some (l1\<lparr>nodes := (nodes l)(a \<mapsto> \<lparr>nodeTypeData = ty, ndata = d, nextp = None, prevp = None\<rparr>),
                       head := Some a, tail := Some a\<rparr>)
      | Some _ \<Rightarrow>
          (case tail l of
             None \<Rightarrow> None
           | Some t \<Rightarrow>
               (case nodes l t of
                  None \<Rightarrow> None
                | Some nt \<Rightarrow> Some (l1\<lparr>nodes := (nodes l)(a \<mapsto> \<lparr>nodeTypeData = ty, ndata = d, nextp = None, prevp = Some t\<rparr>,
                      t \<mapsto> nt\<lparr>nextp := Some a\<rparr>), tail := Some a\<rparr>))))"

text \<open>\<open>front\<close>: the data pointer and the type of the first node; \<open>NULL\<close> for an empty list.\<close>

definition front :: "'d ulist \<Rightarrow> (nat \<times> int) option option" where
  "front l = (case head l of None \<Rightarrow> Some None
     | Some a \<Rightarrow> (case nodes l a of None \<Rightarrow> None | Some n \<Rightarrow> Some (Some (ndata n, nodeTypeData n))))"

definition pop_front :: "'d ulist \<Rightarrow> 'd ulist option" where
  "pop_front l =
     (case head l of
        None \<Rightarrow> Some l
      | Some a \<Rightarrow>
          (case nodes l a of
             None \<Rightarrow> None
           | Some n \<Rightarrow>
               (case nextp n of
                  None \<Rightarrow> Some (l\<lparr>head := None, tail := None, nodes := (nodes l)(a := None)\<rparr>)
                | Some b \<Rightarrow>
                    (case nodes l b of
                       None \<Rightarrow> None
                     | Some m \<Rightarrow> Some (l\<lparr>head := Some b,
                           nodes := (nodes l)(b \<mapsto> m\<lparr>prevp := None\<rparr>, a := None)\<rparr>)))))"

definition empty :: "'d ulist \<Rightarrow> bool" where
  "empty l \<longleftrightarrow> head l = None"

text \<open>\<open>freeList\<close> frees the nodes, not the data.\<close>

partial_function (option) free_nodes :: "'d ulist \<Rightarrow> nat option \<Rightarrow> 'd ulist option" where
  "free_nodes l cur = (case cur of None \<Rightarrow> Some l
     | Some a \<Rightarrow> (case nodes l a of None \<Rightarrow> None
         | Some n \<Rightarrow> free_nodes (l\<lparr>nodes := (nodes l)(a := None)\<rparr>) (nextp n)))"

definition freeList :: "'d ulist \<Rightarrow> 'd ulist option" where
  "freeList l = free_nodes l (head l)"

text \<open>The body of the loop of \<open>deleteIntNodeWithValue\<close> that unlinks and frees the node \<open>a\<close>.\<close>

definition unlink_node :: "'d ulist \<Rightarrow> nat \<Rightarrow> node \<Rightarrow> 'd ulist option" where
  "unlink_node l a n =
     (case (case prevp n of
              None \<Rightarrow> Some (l\<lparr>head := nextp n\<rparr>)
            | Some p \<Rightarrow> (case nodes l p of None \<Rightarrow> None
                | Some m \<Rightarrow> Some (l\<lparr>nodes := (nodes l)(p \<mapsto> m\<lparr>nextp := nextp n\<rparr>)\<rparr>))) of
        None \<Rightarrow> None
      | Some l1 \<Rightarrow>
          (case (case nextp n of
                   None \<Rightarrow> Some (l1\<lparr>tail := prevp n\<rparr>)
                 | Some b \<Rightarrow> (case nodes l1 b of None \<Rightarrow> None
                     | Some m \<Rightarrow> Some (l1\<lparr>nodes := (nodes l1)(b \<mapsto> m\<lparr>prevp := prevp n\<rparr>)\<rparr>))) of
             None \<Rightarrow> None
           | Some l2 \<Rightarrow> Some (l2\<lparr>nodes := (nodes l2)(a := None), cells := (cells l2)(ndata n := None)\<rparr>)))"

partial_function (option) delete_loop :: "int \<Rightarrow> int ulist \<Rightarrow> nat option \<Rightarrow> int ulist option" where
  "delete_loop v l cur = (case cur of None \<Rightarrow> Some l
     | Some a \<Rightarrow> (case nodes l a of None \<Rightarrow> None
         | Some n \<Rightarrow> (case cells l (ndata n) of None \<Rightarrow> None
             | Some c \<Rightarrow> if c = v then (case unlink_node l a n of None \<Rightarrow> None | Some l' \<Rightarrow> delete_loop v l' (nextp n))
                        else delete_loop v l (nextp n))))"

definition deleteIntNodeWithValue :: "int ulist \<Rightarrow> int \<Rightarrow> int ulist option" where
  "deleteIntNodeWithValue l v = delete_loop v l (head l)"

section \<open>Well linked lists and their content\<close>

fun prevs :: "(nat \<Rightarrow> node option) \<Rightarrow> nat option \<Rightarrow> nat list \<Rightarrow> bool" where
  "prevs h p [] \<longleftrightarrow> True"
| "prevs h p (a # as) \<longleftrightarrow> (case h a of None \<Rightarrow> False | Some n \<Rightarrow> prevp n = p) \<and> prevs h (Some a) as"

definition last_opt :: "'a option \<Rightarrow> 'a list \<Rightarrow> 'a option" where
  "last_opt p xs = (if xs = [] then p else Some (last xs))"

definition ulist_ok :: "'d ulist \<Rightarrow> nat list \<Rightarrow> bool" where
  "ulist_ok l xs \<longleftrightarrow> chain nextp (nodes l) (head l) xs \<and> prevs (nodes l) None xs \<and> tail l = last_opt None xs
     \<and> (\<forall>a\<in>set xs. a < fresh l)"

definition item :: "'d ulist \<Rightarrow> nat \<Rightarrow> int \<times> 'd" where
  "item l a = (nodeTypeData (the (nodes l a)), the (cells l (ndata (the (nodes l a)))))"

text \<open>The data pointers of the nodes, which the list owns: allocated, no two the same.\<close>

definition data_ok :: "'d ulist \<Rightarrow> nat list \<Rightarrow> bool" where
  "data_ok l xs \<longleftrightarrow> (\<forall>a\<in>set xs. ndata (the (nodes l a)) < fresh l \<and> cells l (ndata (the (nodes l a))) \<noteq> None)
     \<and> distinct (map (\<lambda>a. ndata (the (nodes l a))) xs)"

definition holds :: "'d ulist \<Rightarrow> (int \<times> 'd) list \<Rightarrow> bool" where
  "holds l is \<longleftrightarrow> (\<exists>xs. ulist_ok l xs \<and> data_ok l xs \<and> is = map (item l) xs)"

text \<open>A push with the allocation of its data, as the callers do it.\<close>

definition push_new :: "'d ulist \<Rightarrow> 'd \<Rightarrow> int \<Rightarrow> 'd ulist option" where
  "push_new l d ty = push_back (l\<lparr>cells := (cells l)(fresh l \<mapsto> d), fresh := Suc (fresh l)\<rparr>) (fresh l) ty"

section \<open>Linking and unlinking\<close>

lemma last_opt_simps [simp]: "last_opt p [] = p" "last_opt p (a # as) = last_opt (Some a) as"
    "last_opt p (as @ b # bs) = last_opt (Some b) bs"
  by (simp_all add: last_opt_def)

lemma prevs_append [simp]: "prevs h p (xs @ ys) \<longleftrightarrow> prevs h p xs \<and> prevs h (last_opt p xs) ys"
  by (induction xs arbitrary: p) auto

lemma prevs_upd [simp]: "a \<notin> set xs \<Longrightarrow> prevs (h(a := v)) p xs = prevs h p xs"
  by (induction xs arbitrary: p) (auto split: option.splits)

lemma chain_append_Cons: "chain nx h p (us @ a # vs) \<Longrightarrow> \<exists>c. h a = Some c \<and> chain nx h (nx c) vs
  \<and> (case us of [] \<Rightarrow> p = Some a | u # _ \<Rightarrow> p = Some u)"
  by (induction us arbitrary: p) (auto split: list.splits)

text \<open>The node \<open>b\<close> gets another link; the nodes before it stay linked.\<close>

lemma chain_set_last: "chain nx h p (us @ [b]) \<or> chain nx h p (us @ b # vs) \<Longrightarrow> distinct (us @ b # ws)
  \<Longrightarrow> chain nx (h(b \<mapsto> c)) (nx c) ws \<Longrightarrow> chain nx (h(b \<mapsto> c)) p (us @ b # ws)"
  by (induction us arbitrary: p) auto

lemma chain_same_links:
  assumes "chain nx h p xs" "h b = Some m" "nx c = nx m"
  shows "chain nx (h(b \<mapsto> c)) p xs"
proof -
  have "map_option nx (h a) = map_option nx ((h(b \<mapsto> c)) a)" for a using assms(2,3) by auto
  then show ?thesis using chain_cong[of xs nx h "h(b \<mapsto> c)"] assms(1) by blast
qed

lemma prevs_same_links: "prevs h p xs \<Longrightarrow> h b = Some m \<Longrightarrow> prevp c = prevp m \<Longrightarrow> prevs (h(b \<mapsto> c)) p xs"
  by (induction xs arbitrary: p) (auto split: option.splits)

lemma push_back_ok:
  assumes "ulist_ok l xs"
  shows "\<exists>l'. push_back l d ty = Some l' \<and> ulist_ok l' (xs @ [fresh l]) \<and> fresh l' = Suc (fresh l) \<and> cells l' = cells l
    \<and> (\<exists>n. nodes l' (fresh l) = Some n \<and> ndata n = d \<and> nodeTypeData n = ty)
    \<and> (\<forall>a\<in>set xs. ndata (the (nodes l' a)) = ndata (the (nodes l a)) \<and> nodeTypeData (the (nodes l' a)) = nodeTypeData (the (nodes l a)))"
proof (cases xs rule: rev_cases)
  case Nil
  then show ?thesis using assms by (auto simp: ulist_ok_def push_back_def Let_def)
next
  case (snoc us t)
  let ?a = "fresh l"
  have ch: "chain nextp (nodes l) (head l) (us @ [t])" and pr: "prevs (nodes l) None (us @ [t])" and tl: "tail l = Some t"
    and lt: "\<And>b. b \<in> set (us @ [t]) \<Longrightarrow> b < ?a" using assms by (auto simp: ulist_ok_def snoc)
  obtain nt where nt: "nodes l t = Some nt" "prevp nt = last_opt None us"
    using pr by (auto split: option.splits)
  obtain h where h: "head l = Some h" using ch by (cases us) auto
  have new: "?a \<notin> set us" "?a \<noteq> t" using lt by fastforce+
  have dist: "distinct (us @ [t])" using ch by (rule chain_distinct)
  let ?n = "\<lparr>nodeTypeData = ty, ndata = d, nextp = None, prevp = Some t\<rparr>"
  let ?h = "(nodes l)(?a \<mapsto> ?n, t \<mapsto> nt\<lparr>nextp := Some ?a\<rparr>)"
  have "chain nextp ?h (head l) (us @ t # [?a])"
    by (rule chain_set_last[where vs = "[]"]) (use ch new dist in auto)
  moreover have "prevs ?h None (us @ t # [?a])"
    using pr new dist nt by auto
  ultimately show ?thesis
    using h tl nt new lt less_SucI[OF lt] by (auto simp: push_back_def Let_def ulist_ok_def snoc)
qed

lemma pop_front_ok:
  assumes "ulist_ok l (a # xs)"
  shows "\<exists>l'. pop_front l = Some l' \<and> ulist_ok l' xs \<and> fresh l' = fresh l \<and> cells l' = cells l
    \<and> (\<forall>b\<in>set xs. ndata (the (nodes l' b)) = ndata (the (nodes l b)) \<and> nodeTypeData (the (nodes l' b)) = nodeTypeData (the (nodes l b)))"
proof -
  obtain n where n: "head l = Some a" "nodes l a = Some n" "chain nextp (nodes l) (nextp n) xs"
    using assms by (auto simp: ulist_ok_def)
  have dist: "distinct (a # xs)" using assms chain_distinct unfolding ulist_ok_def by blast
  show ?thesis
  proof (cases xs)
    case Nil
    then show ?thesis using n assms by (auto simp: pop_front_def ulist_ok_def)
  next
    case (Cons b ys)
    obtain m where m: "nextp n = Some b" "nodes l b = Some m" using n(3) Cons by auto
    have "chain nextp ((nodes l)(b \<mapsto> m\<lparr>prevp := None\<rparr>)) (Some b) xs"
      using chain_same_links[OF n(3) m(2)] m(1) by simp
    then show ?thesis using n m dist assms Cons by (auto simp: pop_front_def ulist_ok_def)
  qed
qed

lemma unlink_node_ok:
  assumes ok: "ulist_ok l (us @ a # vs)" and n: "nodes l a = Some n"
  shows "\<exists>l'. unlink_node l a n = Some l' \<and> ulist_ok l' (us @ vs) \<and> fresh l' = fresh l \<and> cells l' = (cells l)(ndata n := None)
    \<and> (\<forall>b\<in>set (us @ vs). ndata (the (nodes l' b)) = ndata (the (nodes l b)) \<and> nodeTypeData (the (nodes l' b)) = nodeTypeData (the (nodes l b)))"
proof -
  have ch: "chain nextp (nodes l) (head l) (us @ a # vs)" and pr: "prevs (nodes l) None (us @ a # vs)"
    and tl: "tail l = last_opt (Some a) vs" and lt: "\<forall>b\<in>set (us @ a # vs). b < fresh l"
    using ok by (auto simp: ulist_ok_def)
  have dist: "distinct (us @ a # vs)" using ch by (rule chain_distinct)
  have pn: "prevp n = last_opt None us" using pr n by auto
  have nvs: "chain nextp (nodes l) (nextp n) vs" using chain_append_Cons[OF ch] n by auto
  \<comment> \<open>the node before: its link, or the head of the list\<close>
  obtain l1 where l1: "(case prevp n of None \<Rightarrow> Some (l\<lparr>head := nextp n\<rparr>)
        | Some p \<Rightarrow> (case nodes l p of None \<Rightarrow> None
            | Some m \<Rightarrow> Some (l\<lparr>nodes := (nodes l)(p \<mapsto> m\<lparr>nextp := nextp n\<rparr>)\<rparr>))) = Some l1"
    and c1: "chain nextp (nodes l1) (head l1) (us @ vs)" "prevs (nodes l1) None us" "prevs (nodes l1) (Some a) vs"
    and e1: "fresh l1 = fresh l" "cells l1 = cells l" "tail l1 = tail l"
    and d1: "\<And>b. ndata (the (nodes l1 b)) = ndata (the (nodes l b)) \<and> nodeTypeData (the (nodes l1 b)) = nodeTypeData (the (nodes l b))"
  proof (cases us rule: rev_cases)
    case Nil
    then show ?thesis using pn nvs pr by (intro that[of "l\<lparr>head := nextp n\<rparr>"]) auto
  next
    case (snoc ws b)
    obtain m where m: "nodes l b = Some m" using pr snoc by (auto split: option.splits)
    have "chain nextp ((nodes l)(b \<mapsto> m\<lparr>nextp := nextp n\<rparr>)) (head l) (ws @ b # vs)"
      using ch n by (intro chain_skip[where i = a]) (auto simp: snoc)
    then show ?thesis using pn pr dist m
      by (intro that[of "l\<lparr>nodes := (nodes l)(b \<mapsto> m\<lparr>nextp := nextp n\<rparr>)\<rparr>"])
        (auto simp: snoc intro!: prevs_same_links[of _ _ _ b m])
  qed
  \<comment> \<open>the node after: its back link, or the tail of the list\<close>
  obtain l2 where l2: "(case nextp n of None \<Rightarrow> Some (l1\<lparr>tail := prevp n\<rparr>)
        | Some b \<Rightarrow> (case nodes l1 b of None \<Rightarrow> None
            | Some m \<Rightarrow> Some (l1\<lparr>nodes := (nodes l1)(b \<mapsto> m\<lparr>prevp := prevp n\<rparr>)\<rparr>))) = Some l2"
    and c2: "chain nextp (nodes l2) (head l2) (us @ vs)" "prevs (nodes l2) None (us @ vs)" "tail l2 = last_opt None (us @ vs)"
    and e2: "fresh l2 = fresh l" "cells l2 = cells l"
    and d2: "\<And>b. ndata (the (nodes l2 b)) = ndata (the (nodes l b)) \<and> nodeTypeData (the (nodes l2 b)) = nodeTypeData (the (nodes l b))"
  proof (cases vs)
    case Nil
    then show ?thesis using nvs c1 e1 d1 pn by (intro that[of "l1\<lparr>tail := prevp n\<rparr>"]) auto
  next
    case (Cons b ws)
    obtain m where m: "nodes l1 b = Some m" using c1(3) Cons by (auto split: option.splits)
    have nb: "nextp n = Some b" using nvs Cons by auto
    have bu: "b \<notin> set us" "b \<notin> set ws" using dist Cons by auto
    have "chain nextp ((nodes l1)(b \<mapsto> m\<lparr>prevp := prevp n\<rparr>)) (head l1) (us @ vs)"
      using c1(1) m by (rule chain_same_links) simp
    moreover have "prevs ((nodes l1)(b \<mapsto> m\<lparr>prevp := prevp n\<rparr>)) None (us @ vs)"
      using c1(2,3) bu pn by (simp add: Cons)
    moreover have "tail l1 = last_opt None (us @ vs)" using tl e1(3) by (simp add: Cons)
    moreover have "ndata m = ndata (the (nodes l b)) \<and> nodeTypeData m = nodeTypeData (the (nodes l b))"
      using d1[of b] m by simp
    ultimately show ?thesis using nb m e1 d1
      by (intro that[of "l1\<lparr>nodes := (nodes l1)(b \<mapsto> m\<lparr>prevp := prevp n\<rparr>)\<rparr>"]) auto
  qed
  let ?l = "l2\<lparr>nodes := (nodes l2)(a := None), cells := (cells l2)(ndata n := None)\<rparr>"
  have "unlink_node l a n = Some ?l" using l1 l2 by (simp add: unlink_node_def)
  moreover have "ulist_ok ?l (us @ vs)" using c2 e2 lt dist by (simp add: ulist_ok_def)
  ultimately show ?thesis using e2 d2 dist by auto
qed

section \<open>The operations on the items\<close>

lemma item_cong: "(\<And>b. b \<in> set xs \<Longrightarrow> ndata (the (nodes l' b)) = ndata (the (nodes l b))
      \<and> nodeTypeData (the (nodes l' b)) = nodeTypeData (the (nodes l b))
      \<and> cells l' (ndata (the (nodes l b))) = cells l (ndata (the (nodes l b))))
  \<Longrightarrow> map (item l') xs = map (item l) xs"
  by (auto simp: item_def)

lemma data_ok_other: "data_ok l (us @ a # vs) \<Longrightarrow> b \<in> set (us @ vs) \<Longrightarrow> ndata (the (nodes l b)) \<noteq> ndata (the (nodes l a))"
  by (auto simp: data_ok_def image_iff)

lemma createList_holds: "holds createList []"
  by (auto simp: holds_def ulist_ok_def data_ok_def createList_def)

lemma push_new_holds:
  assumes "holds l is"
  shows "\<exists>l'. push_new l d ty = Some l' \<and> holds l' (is @ [(ty, d)])"
proof -
  obtain xs where xs: "ulist_ok l xs" "data_ok l xs" "is = map (item l) xs" using assms by (auto simp: holds_def)
  let ?c = "fresh l" and ?l0 = "l\<lparr>cells := (cells l)(fresh l \<mapsto> d), fresh := Suc (fresh l)\<rparr>"
  have "ulist_ok ?l0 xs" using xs(1) by (auto simp: ulist_ok_def)
  then obtain l' n where l': "push_back ?l0 ?c ty = Some l'" "ulist_ok l' (xs @ [Suc ?c])"
    "fresh l' = Suc (Suc ?c)" "cells l' = (cells l)(?c \<mapsto> d)"
    "nodes l' (Suc ?c) = Some n" "ndata n = ?c" "nodeTypeData n = ty"
    and same: "\<And>a. a \<in> set xs \<Longrightarrow> ndata (the (nodes l' a)) = ndata (the (nodes l a)) \<and> nodeTypeData (the (nodes l' a)) = nodeTypeData (the (nodes l a))"
    using push_back_ok[of ?l0 xs ?c ty] by auto
  have lt: "ndata (the (nodes l a)) < ?c" if "a \<in> set xs" for a using xs(2) that by (auto simp: data_ok_def)
  have m: "map (\<lambda>a. ndata (the (nodes l' a))) xs = map (\<lambda>a. ndata (the (nodes l a))) xs" using same by auto
  have "data_ok l' (xs @ [Suc ?c])"
    using xs(2) l' same lt unfolding data_ok_def by (auto simp: m) (fastforce dest: lt)+
  moreover have "map (item l') xs = map (item l) xs"
    by (rule item_cong) (use same lt l'(4) in fastforce)
  ultimately show ?thesis using l' xs(3) by (auto simp: push_new_def holds_def item_def intro!: exI[of _ "xs @ [Suc ?c]"])
qed

lemma front_holds:
  "holds l [] \<Longrightarrow> front l = Some None \<and> empty l"
  "holds l ((ty, d) # is) \<Longrightarrow> \<exists>p. front l = Some (Some (p, ty)) \<and> cells l p = Some d \<and> \<not> empty l"
  by (auto simp: holds_def ulist_ok_def front_def empty_def item_def data_ok_def)

text \<open>The callers free the data of the first node, then take the node off.\<close>

definition pop_freed :: "'d ulist \<Rightarrow> nat \<Rightarrow> 'd ulist option" where
  "pop_freed l p = pop_front (l\<lparr>cells := (cells l)(p := None)\<rparr>)"

lemma pop_freed_holds:
  assumes "holds l (i # is)" "front l = Some (Some (p, ty))"
  shows "\<exists>l'. pop_freed l p = Some l' \<and> holds l' is"
proof -
  obtain a xs where xs: "ulist_ok l (a # xs)" "data_ok l (a # xs)" "is = map (item l) xs"
    using assms(1) by (auto simp: holds_def)
  have p: "p = ndata (the (nodes l a))" using assms(2) xs(1) by (auto simp: ulist_ok_def front_def)
  let ?l0 = "l\<lparr>cells := (cells l)(p := None)\<rparr>"
  have "ulist_ok ?l0 (a # xs)" using xs(1) by (simp add: ulist_ok_def)
  then obtain l' where l': "pop_front ?l0 = Some l'" "ulist_ok l' xs" "fresh l' = fresh l" "cells l' = (cells l)(p := None)"
    and same: "\<And>b. b \<in> set xs \<Longrightarrow> ndata (the (nodes l' b)) = ndata (the (nodes l b)) \<and> nodeTypeData (the (nodes l' b)) = nodeTypeData (the (nodes l b))"
    using pop_front_ok[of ?l0 a xs] by auto
  have ne: "ndata (the (nodes l b)) \<noteq> p" if "b \<in> set xs" for b
    using data_ok_other[of l "[]" a xs b] xs(2) that by (simp add: p)
  have m: "map (\<lambda>a. ndata (the (nodes l' a))) xs = map (\<lambda>a. ndata (the (nodes l a))) xs" using same by auto
  have "data_ok l' xs" using xs(2) l'(3,4) same ne unfolding data_ok_def m by auto
  moreover have "map (item l') xs = map (item l) xs" by (rule item_cong) (use same ne l'(4) in fastforce)
  ultimately show ?thesis using l' xs(3) by (auto simp: pop_freed_def holds_def)
qed

lemma free_nodes_all: "chain nextp (nodes l) p xs \<Longrightarrow> \<exists>l'. free_nodes l p = Some l' \<and> (\<forall>a\<in>set xs. nodes l' a = None)
  \<and> (\<forall>a. a \<notin> set xs \<longrightarrow> nodes l' a = nodes l a) \<and> cells l' = cells l"
proof (induction xs arbitrary: l p)
  case Nil
  then show ?case by (simp add: free_nodes.simps)
next
  case (Cons a xs)
  have "a \<notin> set xs" using chain_distinct[OF Cons.prems] by simp
  moreover obtain n where n: "p = Some a" "nodes l a = Some n" "chain nextp (nodes l) (nextp n) xs" using Cons.prems by auto
  ultimately have "chain nextp (nodes (l\<lparr>nodes := (nodes l)(a := None)\<rparr>)) (nextp n) xs" by simp
  then obtain l' where "free_nodes (l\<lparr>nodes := (nodes l)(a := None)\<rparr>) (nextp n) = Some l'" "\<forall>a\<in>set xs. nodes l' a = None"
    "\<forall>b. b \<notin> set xs \<longrightarrow> nodes l' b = ((nodes l)(a := None)) b" "cells l' = cells l"
    using Cons.IH by fastforce
  then show ?case using n \<open>a \<notin> set xs\<close> by (subst free_nodes.simps) auto
qed

lemma delete_loop_ok:
  "ulist_ok l (us @ vs) \<Longrightarrow> data_ok l (us @ vs) \<Longrightarrow> cur = (case vs of [] \<Rightarrow> None | a # _ \<Rightarrow> Some a)
   \<Longrightarrow> \<exists>l' ws. delete_loop v l cur = Some l' \<and> ws = filter (\<lambda>a. cells l (ndata (the (nodes l a))) \<noteq> Some v) vs
     \<and> ulist_ok l' (us @ ws) \<and> data_ok l' (us @ ws) \<and> map (item l') (us @ ws) = map (item l) (us @ ws)"
proof (induction vs arbitrary: us l cur)
  case Nil
  then show ?case by (auto simp: delete_loop.simps)
next
  case (Cons a vs)
  obtain n where n: "nodes l a = Some n" "nextp n = (case vs of [] \<Rightarrow> None | b # _ \<Rightarrow> Some b)"
    using Cons.prems(1) chain_append_Cons[of nextp "nodes l" "head l" us a vs]
    by (cases vs) (auto simp: ulist_ok_def)
  obtain c where c: "cells l (ndata n) = Some c" using Cons.prems(2) n(1) by (auto simp: data_ok_def)
  show ?case
  proof (cases "c = v")
    case False
    have "\<exists>l' ws. delete_loop v l (nextp n) = Some l' \<and> ws = filter (\<lambda>a. cells l (ndata (the (nodes l a))) \<noteq> Some v) vs
      \<and> ulist_ok l' ((us @ [a]) @ ws) \<and> data_ok l' ((us @ [a]) @ ws) \<and> map (item l') ((us @ [a]) @ ws) = map (item l) ((us @ [a]) @ ws)"
      by (rule Cons.IH) (use Cons.prems n(2) in auto)
    then show ?thesis using n c False Cons.prems(3) by (subst delete_loop.simps) auto
  next
    case True
    obtain l1 where l1: "unlink_node l a n = Some l1" "ulist_ok l1 (us @ vs)" "fresh l1 = fresh l"
      "cells l1 = (cells l)(ndata n := None)"
      and same: "\<And>b. b \<in> set (us @ vs) \<Longrightarrow> ndata (the (nodes l1 b)) = ndata (the (nodes l b)) \<and> nodeTypeData (the (nodes l1 b)) = nodeTypeData (the (nodes l b))"
      using unlink_node_ok[OF Cons.prems(1) n(1)] by blast
    have ne: "ndata (the (nodes l b)) \<noteq> ndata n" if "b \<in> set (us @ vs)" for b
      using data_ok_other[OF Cons.prems(2) that] n(1) by simp
    have m: "map (\<lambda>a. ndata (the (nodes l1 a))) (us @ vs) = map (\<lambda>a. ndata (the (nodes l a))) (us @ vs)"
      using same by (intro map_cong) auto
    have "data_ok l1 (us @ vs)"
      unfolding data_ok_def m using Cons.prems(2) l1(3,4) same ne by (auto simp: data_ok_def)
    then have "\<exists>l' ws. delete_loop v l1 (nextp n) = Some l' \<and> ws = filter (\<lambda>a. cells l1 (ndata (the (nodes l1 a))) \<noteq> Some v) vs
      \<and> ulist_ok l' (us @ ws) \<and> data_ok l' (us @ ws) \<and> map (item l') (us @ ws) = map (item l1) (us @ ws)"
      by (intro Cons.IH l1(2)) (use n(2) in auto)
    moreover have "filter (\<lambda>a. cells l1 (ndata (the (nodes l1 a))) \<noteq> Some v) vs = filter (\<lambda>a. cells l (ndata (the (nodes l a))) \<noteq> Some v) vs"
      by (rule filter_cong) (use same ne l1(4) in auto)
    moreover have "map (item l1) xs = map (item l) xs" if "set xs \<subseteq> set (us @ vs)" for xs
      by (rule item_cong) (use same ne l1(4) that in fastforce)
    ultimately show ?thesis using n c True l1(1) Cons.prems(3) by (subst delete_loop.simps) fastforce
  qed
qed

lemma deleteInt_holds:
  assumes "holds l is"
  shows "\<exists>l'. deleteIntNodeWithValue l v = Some l' \<and> holds l' (filter (\<lambda>i. snd i \<noteq> v) is)"
proof -
  obtain xs where xs: "ulist_ok l xs" "data_ok l xs" "is = map (item l) xs" using assms by (auto simp: holds_def)
  have "head l = (case xs of [] \<Rightarrow> None | a # _ \<Rightarrow> Some a)" using xs(1) by (cases xs) (auto simp: ulist_ok_def)
  then obtain l' where l': "deleteIntNodeWithValue l v = Some l'"
    "ulist_ok l' (filter (\<lambda>a. cells l (ndata (the (nodes l a))) \<noteq> Some v) xs)"
    "data_ok l' (filter (\<lambda>a. cells l (ndata (the (nodes l a))) \<noteq> Some v) xs)"
    "map (item l') (filter (\<lambda>a. cells l (ndata (the (nodes l a))) \<noteq> Some v) xs) = map (item l) (filter (\<lambda>a. cells l (ndata (the (nodes l a))) \<noteq> Some v) xs)"
    using delete_loop_ok[of l "[]" xs "head l" v] xs by (auto simp: deleteIntNodeWithValue_def)
  have "filter (\<lambda>i. snd i \<noteq> v) is = map (item l) (filter (\<lambda>a. cells l (ndata (the (nodes l a))) \<noteq> Some v) xs)"
    unfolding xs(3) filter_map comp_def using xs(2)
    by (intro arg_cong[where f = "map (item l)"] filter_cong) (auto simp: item_def data_ok_def)
  then show ?thesis using l' by (auto simp: holds_def)
qed

section \<open>The interface of a queue\<close>

text \<open>
  What a user of the list relies on: items are pushed at the end, the first one is read and
  taken off, in the order in which they were pushed.
\<close>

locale fifo =
  fixes repr :: "'l \<Rightarrow> (int \<times> 'd) list \<Rightarrow> bool" and new :: 'l and push :: "'l \<Rightarrow> 'd \<Rightarrow> int \<Rightarrow> 'l option"
    and first :: "'l \<Rightarrow> (nat \<times> int) option option" and cell :: "'l \<Rightarrow> nat \<Rightarrow> 'd option" and off :: "'l \<Rightarrow> nat \<Rightarrow> 'l option"
  assumes new_repr: "repr new []"
    and push_repr: "repr l is \<Longrightarrow> \<exists>l'. push l d ty = Some l' \<and> repr l' (is @ [(ty, d)])"
    and first_Nil: "repr l [] \<Longrightarrow> first l = Some None"
    and first_Cons: "repr l ((ty, d) # is) \<Longrightarrow> \<exists>p. first l = Some (Some (p, ty)) \<and> cell l p = Some d"
    and off_repr: "repr l (i # is) \<Longrightarrow> first l = Some (Some (p, ty)) \<Longrightarrow> \<exists>l'. off l p = Some l' \<and> repr l' is"
begin

lemma take_first:
  assumes "repr l ((ty, d) # is)"
  obtains p l' where "first l = Some (Some (p, ty))" "cell l p = Some d" "off l p = Some l'" "repr l' is"
  using first_Cons[OF assms] off_repr[OF assms] by metis

lemma first_None: "repr l is \<Longrightarrow> first l = Some None \<longleftrightarrow> is = []"
proof (cases "is")
  case (Cons i is')
  assume "repr l is"
  then show ?thesis using first_Cons[of l "fst i" "snd i" is'] Cons by auto
qed (simp add: first_Nil)

lemma repr_unique_empty: "repr l [] \<Longrightarrow> repr l is \<Longrightarrow> is = []"
  using first_None[of l "[]"] first_None[of l "is"] by simp

end

interpretation uq: fifo holds createList push_new front cells pop_freed
proof
  show "holds createList []" by (rule createList_holds)
  show "\<exists>l'. push_new l d ty = Some l' \<and> holds l' (is @ [(ty, d)])" if "holds l is" for l :: "'d ulist" and "is" d ty
    using that by (rule push_new_holds)
  show "front l = Some None" if "holds l []" for l :: "'d ulist" using front_holds(1)[OF that] by simp
  show "\<exists>p. front l = Some (Some (p, ty)) \<and> cells l p = Some d" if "holds l ((ty, d) # is)" for l :: "'d ulist" and ty d "is"
    using front_holds(2)[OF that] by blast
  show "\<exists>l'. pop_freed l p = Some l' \<and> holds l' is" if "holds l (i # is)" "front l = Some (Some (p, ty))"
    for l :: "'d ulist" and i "is" p ty using that by (rule pop_freed_holds)
qed

text \<open>C7: On a well linked list the operations of \<open>util_list.c\<close> are those of a queue of items:
  \<open>push_back\<close> appends, \<open>front\<close> reads the first item and \<open>pop_front\<close> takes it off, and
  \<open>deleteIntNodeWithValue\<close> removes exactly the items with the value, wherever they are; each
  leaves a well linked list, and none touches freed memory.\<close>

theorem util_list_refines_queue:
  assumes "holds l is"
  shows "(\<exists>l'. push_new l d ty = Some l' \<and> holds l' (is @ [(ty, d)]))
    \<and> (case is of [] \<Rightarrow> front l = Some None \<and> empty l
       | (t, x) # is' \<Rightarrow> \<exists>p l'. front l = Some (Some (p, t)) \<and> cells l p = Some x \<and> \<not> empty l
           \<and> pop_freed l p = Some l' \<and> holds l' is')
    \<and> (\<exists>l'. deleteIntNodeWithValue l v = Some l' \<and> holds l' (filter (\<lambda>i. snd i \<noteq> v) is))"
proof (intro conjI)
  show "\<exists>l'. push_new l d ty = Some l' \<and> holds l' (is @ [(ty, d)])" by (rule uq.push_repr[OF assms])
  show "\<exists>l'. deleteIntNodeWithValue l v = Some l' \<and> holds l' (filter (\<lambda>i. snd i \<noteq> v) is)"
    by (rule deleteInt_holds[OF assms])
  show "case is of [] \<Rightarrow> front l = Some None \<and> empty l
       | (t, x) # is' \<Rightarrow> \<exists>p l'. front l = Some (Some (p, t)) \<and> cells l p = Some x \<and> \<not> empty l
           \<and> pop_freed l p = Some l' \<and> holds l' is'"
  proof (cases "is")
    case Nil
    then show ?thesis using front_holds(1) assms by simp
  next
    case (Cons i is')
    obtain t x where i: "i = (t, x)" by (cases i)
    obtain p l' where "front l = Some (Some (p, t))" "cells l p = Some x" "pop_freed l p = Some l'" "holds l' is'"
      using uq.take_first[of l t x is'] assms Cons i by metis
    moreover have "\<not> empty l" using front_holds(2)[of l t x is'] assms Cons i by blast
    ultimately show ?thesis using Cons i by auto
  qed
qed

lemma util_list_refines_queue_witness:
  "\<exists>l l' :: int ulist. push_new createList 4 7 = Some l \<and> deleteIntNodeWithValue l 4 = Some l' \<and> holds l' []"
proof -
  obtain l :: "int ulist" where l: "push_new createList 4 7 = Some l" "holds l ([] @ [(7, 4)])"
    using util_list_refines_queue[OF createList_holds, of 4 7] by blast
  moreover have "holds l [(7, 4)]" using l by simp
  ultimately show ?thesis using util_list_refines_queue[of l "[(7, 4)]" 0 0 4] by auto
qed

end
