(* ===== verification/SocketV2.thy ===== *)
theory SocketV2
  imports UtilList Codec CText
begin

text \<open>
  The stream sockets of \<open>aml_socketipc_v2/common\<close>: \<open>readn\<close> and \<open>writen\<close> of \<open>socket_util.c\<close>, the
  server of \<open>socket_server.c\<close> (queue of messages, sending, registrations, events) and the client
  of \<open>socket_client.c\<close>. What \<open>read\<close> and \<open>write\<close> return is a list of answers, an argument of the
  operations. The threads' loops are one operation per round; they share the record of the
  server (\<open>serverSocketData\<close>) or of the client (\<open>clientSocketData\<close>). \<^const>\<open>None\<close> is undefined
  behaviour, or a call still waiting for an answer.
\<close>

section \<open>Reading and writing all of a message\<close>

text \<open>What one \<open>read\<close> answers: some bytes, the end of the stream, an error (is it \<open>EINTR\<close>?).\<close>

datatype rd = RdData "u8 list" | RdEof | RdErr bool

text \<open>\<open>readn\<close>: the return value, the bytes stored (also before an error), the answers left.\<close>

fun readn_loop :: "nat \<Rightarrow> u8 list \<Rightarrow> rd list \<Rightarrow> (int \<times> u8 list \<times> rd list) option" where
  "readn_loop nleft got as =
     (if nleft = 0 then Some (int (length got), got, as)
      else case as of
        [] \<Rightarrow> None
      | RdErr eintr # as' \<Rightarrow> if eintr then readn_loop nleft got as' else Some (-1, got, as')
      | RdEof # as' \<Rightarrow> Some (int (length got), got, as')
      | RdData bs # as' \<Rightarrow> if bs = [] \<or> length bs > nleft then None
                          else readn_loop (nleft - length bs) (got @ bs) as')"

declare readn_loop.simps [simp del]

definition readn :: "nat \<Rightarrow> rd list \<Rightarrow> (int \<times> u8 list \<times> rd list) option" where
  "readn n as = readn_loop n [] as"

text \<open>\<open>writen\<close>: each \<open>write\<close> answers a count and whether \<open>errno\<close> is \<open>EINTR\<close>.\<close>

fun writen_loop :: "nat \<Rightarrow> nat \<Rightarrow> (int \<times> bool) list \<Rightarrow> int option" where
  "writen_loop n nleft as =
     (if nleft = 0 then Some (int n)
      else case as of
        [] \<Rightarrow> None
      | (w, eintr) # as' \<Rightarrow>
          if w \<le> 0 then (if w < 0 \<and> eintr then writen_loop n nleft as' else Some (-1))
          else if w > int nleft then None
          else writen_loop n (nleft - nat w) as')"

declare writen_loop.simps [simp del]

definition writen :: "nat \<Rightarrow> (int \<times> bool) list \<Rightarrow> int option" where
  "writen n as = writen_loop n n as"

text \<open>
  \<open>createListener\<close>: the answers are the descriptor and whether \<open>setsockopt\<close>, \<open>bind\<close> and \<open>listen\<close>
  succeed; the result is the return code, the descriptor stored for the caller and whether the
  descriptor was closed.
\<close>

definition createListener :: "int \<Rightarrow> bool \<Rightarrow> bool \<Rightarrow> bool \<Rightarrow> int \<times> int \<times> bool" where
  "createListener fd setsockopt_ok bind_ok listen_ok =
     (if fd < 0 then (-1, fd, False)
      else if \<not> setsockopt_ok \<or> \<not> bind_ok \<or> \<not> listen_ok then (-1, fd, fd > 0)
      else (0, fd, False))"

section \<open>Messages\<close>

definition UNDEFINED :: int where "UNDEFINED = 0"
definition BUSINESS_DATA :: int where "BUSINESS_DATA = 1"
definition REGISTER :: int where "REGISTER = 2"
definition HEARTBEAT :: int where "HEARTBEAT = 3"

lemmas msg_types = UNDEFINED_def BUSINESS_DATA_def REGISTER_def HEARTBEAT_def

definition le_i32 :: "int \<Rightarrow> u8 list" where "le_i32 i = le_bytes32 (word_of_int i)"
definition of_le_i32 :: "u8 list \<Rightarrow> int" where "of_le_i32 bs = sint (of_le_bytes32 bs)"

text \<open>\<open>MsgHeader\<close>: two \<open>int\<close>s in memory order; its type and data length in the first 8 bytes.\<close>

definition header_bytes :: "int \<Rightarrow> int \<Rightarrow> u8 list" where
  "header_bytes ty len = le_i32 ty @ le_i32 len"

definition header_type :: "u8 list \<Rightarrow> int" where "header_type bs = of_le_i32 (take 4 bs)"
definition header_len :: "u8 list \<Rightarrow> int" where "header_len bs = of_le_i32 (take 4 (drop 4 bs))"

section \<open>The server\<close>

text \<open>
  The connected clients with their bitmaps, the messages to be sent with their types, the calls
  of \<open>writen\<close> made so far, the messages given to \<open>serverHandler\<close>, the descriptors closed.
\<close>

record server =
  clientFdList :: "int ulist"
  serverMsgsList :: "u8 list ulist"
  written :: "(int \<times> u8 list) list"
  handled :: "(u8 list \<times> int) list"
  s_closed :: "int list"

definition initServerData :: server where
  "initServerData = \<lparr>clientFdList = createList, serverMsgsList = createList, written = [], handled = [], s_closed = []\<rparr>"

text \<open>\<open>EnqueueServerMsg\<close>; \<open>msg\<close> is the memory the message pointer points to.\<close>

definition EnqueueServerMsg :: "u8 list \<Rightarrow> int \<Rightarrow> int \<Rightarrow> int \<Rightarrow> server \<Rightarrow> server option" where
  "EnqueueServerMsg msg msgType msglength serverMsgType s =
     (if head (clientFdList s) = None then Some s
      else if msgType = UNDEFINED then Some s
      else if msgType = BUSINESS_DATA then
        if msglength < 0 \<or> msglength > int (length msg) \<or> msglength + 8 \<ge> 2 ^ 31 then None
        else map_option (\<lambda>q. s\<lparr>serverMsgsList := q\<rparr>)
          (push_new (serverMsgsList s) (header_bytes BUSINESS_DATA msglength @ take (nat msglength) msg) serverMsgType)
      else if msgType = HEARTBEAT then
        map_option (\<lambda>q. s\<lparr>serverMsgsList := q\<rparr>)
          (push_new (serverMsgsList s) (header_bytes HEARTBEAT 0) serverMsgType)
      else None)"

text \<open>The loop over the clients: the \<open>writen\<close> calls for those whose node satisfies \<open>P\<close>.\<close>

partial_function (option) send_loop :: "(int \<Rightarrow> bool) \<Rightarrow> u8 list \<Rightarrow> int ulist \<Rightarrow> (int \<times> u8 list) list \<Rightarrow> nat option
    \<Rightarrow> (int \<times> u8 list) list option" where
  "send_loop P msg l out it = (case it of None \<Rightarrow> Some out
     | Some a \<Rightarrow> (case nodes l a of None \<Rightarrow> None
         | Some n \<Rightarrow> (case cells l (ndata n) of None \<Rightarrow> None
             | Some fd \<Rightarrow> send_loop P msg l (if P (nodeTypeData n) then out @ [(fd, msg)] else out) (nextp n))))"

text \<open>
  A round of \<open>messageSenderWorker\<close> with a message in the queue (it waits while there is none).
  Shifting 1 by a type outside 0 to 30 is undefined, when there is a client to compare with.
\<close>

definition sender_round :: "server \<Rightarrow> server option" where
  "sender_round s =
     (if empty (serverMsgsList s) then Some s
      else case front (serverMsgsList s) of
        Some (Some (p, serverMsgType)) \<Rightarrow>
          (case cells (serverMsgsList s) p of
             None \<Rightarrow> None
           | Some msg \<Rightarrow>
               (case (if header_type msg = BUSINESS_DATA then
                        if head (clientFdList s) \<noteq> None \<and> (serverMsgType < 0 \<or> serverMsgType > 30) then None
                        else send_loop (\<lambda>bitmap. bitmap AND push_bit (nat serverMsgType) 1 \<noteq> 0)
                               (take (nat (8 + header_len msg)) msg) (clientFdList s) [] (head (clientFdList s))
                      else if header_type msg = HEARTBEAT then
                        send_loop (\<lambda>_. True) (take 8 msg) (clientFdList s) [] (head (clientFdList s))
                      else Some []) of
                  None \<Rightarrow> None
                | Some out \<Rightarrow> map_option (\<lambda>q. s\<lparr>serverMsgsList := q, written := written s @ out\<rparr>)
                    (pop_freed (serverMsgsList s) p)))
      | _ \<Rightarrow> None)"

definition heartbeat_round :: "server \<Rightarrow> server option" where
  "heartbeat_round s = (if head (clientFdList s) \<noteq> None then EnqueueServerMsg [] HEARTBEAT 0 (-1) s else Some s)"

text \<open>
  \<open>atoi\<close> of an array of bytes: \<^const>\<open>None\<close> when it reads behind the array, which it does
  unless a NUL or another character that is no digit ends the number.
\<close>

definition atoi_bytes :: "u8 list \<Rightarrow> int option" where
  "atoi_bytes bs =
     (let s = map char_of_byte bs in
      if NUL \<in> set s then atoi (cstr s)
      else case scan_sign (skip_ws s) of (_, t) \<Rightarrow> if dropWhile isdigit t = [] then None else atoi s)"

definition handleRegisterMessage :: "u8 list \<Rightarrow> int \<Rightarrow> server \<Rightarrow> server option" where
  "handleRegisterMessage data fd s =
     (case atoi_bytes data of
        None \<Rightarrow> None
      | Some bitmap \<Rightarrow> map_option (\<lambda>q. s\<lparr>clientFdList := q\<rparr>) (push_new (clientFdList s) fd bitmap))"

definition drop_client :: "int \<Rightarrow> server \<Rightarrow> server option" where
  "drop_client fd s = map_option (\<lambda>q. s\<lparr>clientFdList := q, s_closed := s_closed s @ [fd]\<rparr>)
     (deleteIntNodeWithValue (clientFdList s) fd)"

text \<open>
  The event of a readable client in \<open>epollEventHandlerWorker\<close>. Only 0 bytes are treated as a
  failure; a header or data that was not read completely is used uninitialised.
\<close>

definition client_readable :: "int \<Rightarrow> rd list \<Rightarrow> server \<Rightarrow> server option" where
  "client_readable fd as s =
     (case readn 8 as of
        None \<Rightarrow> None
      | Some (n, hd1, as1) \<Rightarrow>
          if n = 0 then drop_client fd s
          else if length hd1 < 8 then None
          else
            let ty = header_type hd1; dataLength = header_len hd1 in
            if dataLength < 0 then None
            else (case readn (nat dataLength) as1 of
                    None \<Rightarrow> None
                  | Some (m, data, _) \<Rightarrow>
                      if m = 0 then drop_client fd s
                      else if ty = REGISTER then handleRegisterMessage data fd s
                      else if ty = BUSINESS_DATA then
                        (if length data < nat dataLength then None else Some (s\<lparr>handled := handled s @ [(data, fd)]\<rparr>))
                      else Some s))"

text \<open>The event of a new connection: \<open>accept\<close>'s answer; \<open>Inl\<close> is \<open>exit\<close>.\<close>

definition server_accept :: "int \<Rightarrow> bool \<Rightarrow> bool \<Rightarrow> server \<Rightarrow> int + server" where
  "server_accept connfd eintr epoll_ok s =
     (if connfd = -1 \<and> \<not> eintr then Inl (-1)
      else if connfd \<ge> 0 \<and> \<not> epoll_ok then Inl (-1)
      else Inr s)"

text \<open>
  The events of one \<open>epoll_wait\<close>, in order: a connection to accept, a client with data to read.
  \<open>epoll_wait\<close> answers with such a batch or fails.
\<close>

datatype server_event = NewConnection int bool bool | Readable int "rd list"

fun epoll_batch :: "server_event list \<Rightarrow> server \<Rightarrow> (int + server) option" where
  "epoll_batch [] s = Some (Inr s)"
| "epoll_batch (NewConnection connfd eintr ctl_ok # evs) s =
     (case server_accept connfd eintr ctl_ok s of
        Inl x \<Rightarrow> Some (Inl x)
      | Inr s1 \<Rightarrow> epoll_batch evs s1)"
| "epoll_batch (Readable fd as # evs) s =
     (case client_readable fd as s of
        None \<Rightarrow> None
      | Some s1 \<Rightarrow> epoll_batch evs s1)"

definition MAX_EVENT :: nat where "MAX_EVENT = 8"

text \<open>The loop, for the answers \<open>waits\<close>; when they are used up it waits, in the state reached.\<close>

fun epoll_loop :: "server_event list option list \<Rightarrow> server \<Rightarrow> (int + server) option" where
  "epoll_loop [] s = Some (Inr s)"
| "epoll_loop (None # waits) s = epoll_loop waits s"
| "epoll_loop (Some evs # waits) s =
     (if length evs > MAX_EVENT then None
      else case epoll_batch evs s of
        Some (Inr s1) \<Rightarrow> epoll_loop waits s1
      | r \<Rightarrow> r)"

definition epollEventHandlerWorker :: "bool \<Rightarrow> bool \<Rightarrow> server_event list option list \<Rightarrow> server \<Rightarrow> (int + server) option" where
  "epollEventHandlerWorker create_ok ctl_ok waits s =
     (if \<not> create_ok \<or> \<not> ctl_ok then Some (Inl (-1)) else epoll_loop waits s)"

text \<open>
  \<open>ServerInit\<close>: the result of \<open>createListener\<close>, which is not looked at, and whether the three
  threads are created; the descriptor stored as \<open>listen_fd\<close>, and the number of threads started.
\<close>

definition ServerInit :: "int \<times> int \<times> bool \<Rightarrow> bool \<Rightarrow> bool \<Rightarrow> bool \<Rightarrow> int + (server \<times> int \<times> nat)" where
  "ServerInit listener epoll_thread sender_thread beat_thread =
     (let (_, listen_fd, _) = listener; s = initServerData in
      if \<not> epoll_thread then Inl (-1)
      else if \<not> sender_thread then Inl (-1)
      else if \<not> beat_thread then Inl (-1)
      else Inr (s, listen_fd, 3))"

definition ServerExit :: "int \<Rightarrow> server \<Rightarrow> server option" where
  "ServerExit listen_fd s =
     (case (freeList (clientFdList s), freeList (serverMsgsList s)) of
        (Some c, Some m) \<Rightarrow> Some (s\<lparr>clientFdList := c, serverMsgsList := m, s_closed := s_closed s @ [listen_fd]\<rparr>)
      | _ \<Rightarrow> None)"

section \<open>The client\<close>

text \<open>
  \<open>clientSocketData\<close>: the callbacks are whether they are not \<open>NULL\<close>; \<open>called\<close> lists the calls of
  the two connection callbacks, \<open>c_received\<close> the data given to \<open>clientHandler\<close>.
\<close>

datatype callback = ConnectedHandler | DisconnectedHandler

record client =
  sockfd :: int
  beats :: int
  registerBitmap :: int
  isConnected :: bool
  clientConnectedHandler :: bool
  clientDisconnectedHandler :: bool
  called :: "callback list"
  c_received :: "u8 list list"
  c_closed :: "int list"

text \<open>What \<open>ClientInputData\<close> gives, and the global before \<open>ClientInit\<close> (zero).\<close>

record client_input =
  in_bitmap :: int
  in_connected :: bool
  in_disconnected :: bool

definition client_zero :: client where
  "client_zero = \<lparr>sockfd = 0, beats = 0, registerBitmap = 0, isConnected = False, clientConnectedHandler = False,
     clientDisconnectedHandler = False, called = [], c_received = [], c_closed = []\<rparr>"

definition initClientData :: "client_input \<Rightarrow> client \<Rightarrow> client" where
  "initClientData inp c = c\<lparr>sockfd := -1, beats := 0, registerBitmap := in_bitmap inp,
     clientConnectedHandler := in_connected inp\<rparr>"

text \<open>What \<open>connect\<close> answers: success, \<open>EISCONN\<close> with the new socket then created, another error.\<close>

datatype conn = ConnOk | ConnIsConn int | ConnErr

text \<open>The world of a connection: the first socket, whether \<open>inet_pton\<close> accepts the address, the
  answers of \<open>connect\<close>, those of \<open>write\<close>, and what the stack holds where \<open>msg\<close> is.\<close>

record conn_env =
  e_sock :: int
  e_pton :: bool
  e_conns :: "conn list"
  e_writes :: "(int \<times> bool) list"
  e_junk :: "u8 list"

text \<open>The loop of \<open>clientInitConnection\<close>; \<open>Inl\<close> is \<open>exit\<close>. It retries for ever.\<close>

fun connect_loop :: "conn list \<Rightarrow> client \<Rightarrow> (int + client) option" where
  "connect_loop [] c = None"
| "connect_loop (ConnOk # rs) c = Some (Inr c)"
| "connect_loop (ConnIsConn fd # rs) c =
     (let c1 = c\<lparr>c_closed := c_closed c @ [sockfd c], sockfd := fd\<rparr> in
      if fd = -1 then Some (Inl 1) else connect_loop rs c1)"
| "connect_loop (ConnErr # rs) c = connect_loop rs c"

definition clientInitConnection :: "conn_env \<Rightarrow> client \<Rightarrow> (int + client) option" where
  "clientInitConnection e c =
     (if e_sock e < 0 then Some (Inl (-1))
      else if \<not> e_pton e then Some (Inl (-1))
      else connect_loop (e_conns e) (c\<lparr>sockfd := e_sock e\<rparr>))"

text \<open>\<open>ClientWriteMsg2Server\<close>: the return value and the bytes given to \<open>writen\<close>.\<close>

definition ClientWriteMsg2Server :: "int \<Rightarrow> u8 list \<Rightarrow> nat \<Rightarrow> (int \<times> bool) list \<Rightarrow> (int \<times> u8 list option) option" where
  "ClientWriteMsg2Server msgType msg msgLength as =
     (if msgType \<noteq> BUSINESS_DATA \<and> msgType \<noteq> REGISTER then Some (-1, None)
      else if msgLength > length msg \<or> msgLength + 8 \<ge> 2 ^ 31 then None
      else let buffer = header_bytes msgType (int msgLength) @ take msgLength msg in
        map_option (\<lambda>r. (r, Some buffer)) (writen (length buffer) as))"

text \<open>\<open>clientRegister2Server\<close>: the bitmap as text in a buffer of 10 bytes, of which 4 are sent.\<close>

definition clientRegister2Server :: "int \<Rightarrow> u8 list \<Rightarrow> (int \<times> bool) list \<Rightarrow> (int + u8 list) option" where
  "clientRegister2Server bitmap junk as =
     (let txt = pr_int bitmap in
      if length txt + 1 > 10 then None
      else
        let msg = map byte_of txt @ 0 # drop (length txt + 1) (take 10 junk) in
        (case ClientWriteMsg2Server REGISTER msg 4 as of
           None \<Rightarrow> None
         | Some (len, sent) \<Rightarrow> if len = 4 + 8 then Some (Inr (the sent)) else Some (Inl (-1))))"

definition handleClientConnection :: "conn_env \<Rightarrow> client \<Rightarrow> (int + client) option" where
  "handleClientConnection e c =
     (case clientInitConnection e c of
        None \<Rightarrow> None
      | Some (Inl x) \<Rightarrow> Some (Inl x)
      | Some (Inr c1) \<Rightarrow>
          let c2 = c1\<lparr>isConnected := True\<rparr>;
              c3 = (if clientConnectedHandler c2 then c2\<lparr>called := called c2 @ [ConnectedHandler]\<rparr> else c2)
          in (case clientRegister2Server (registerBitmap c3) (e_junk e) (e_writes e) of
                None \<Rightarrow> None | Some (Inl x) \<Rightarrow> Some (Inl x) | Some (Inr _) \<Rightarrow> Some (Inr c3)))"

definition handleClientDisconnection :: "client \<Rightarrow> client" where
  "handleClientDisconnection c =
     (let c1 = c\<lparr>isConnected := False\<rparr>;
          c2 = (if clientDisconnectedHandler c1 then c1\<lparr>called := called c1 @ [DisconnectedHandler]\<rparr> else c1)
      in if sockfd c2 \<ge> 0 then c2\<lparr>c_closed := c_closed c2 @ [sockfd c2]\<rparr> else c2)"

definition handleClientReconnection :: "conn_env \<Rightarrow> client \<Rightarrow> (int + client) option" where
  "handleClientReconnection e c = handleClientConnection e (handleClientDisconnection c)"

text \<open>A round of \<open>serverMessageDispatchWorker\<close>.\<close>

definition dispatch_round :: "rd list \<Rightarrow> conn_env \<Rightarrow> client \<Rightarrow> (int + client) option" where
  "dispatch_round as e c =
     (case readn 8 as of
        None \<Rightarrow> None
      | Some (n, hd1, as1) \<Rightarrow>
          if n \<noteq> 8 then (if n = 0 then handleClientReconnection e c else Some (Inr c))
          else if header_type hd1 = BUSINESS_DATA then
            (if header_len hd1 < 0 then None
             else case readn (nat (header_len hd1)) as1 of
               None \<Rightarrow> None
             | Some (m, data, _) \<Rightarrow>
                 if m \<noteq> header_len hd1 then (if m = 0 then handleClientReconnection e c else Some (Inr c))
                 else Some (Inr (c\<lparr>c_received := c_received c @ [data]\<rparr>)))
          else if header_type hd1 = HEARTBEAT then Some (Inr (c\<lparr>beats := 0\<rparr>))
          else Some (Inr c))"

text \<open>A round of \<open>heartBeatDetector\<close>, every ten seconds.\<close>

definition beat_round :: "conn_env \<Rightarrow> client \<Rightarrow> (int + client) option" where
  "beat_round e c = (if beats c > 30 then handleClientReconnection e c else Some (Inr (c\<lparr>beats := beats c + 10\<rparr>)))"

definition ClientInit :: "client_input \<Rightarrow> conn_env \<Rightarrow> client \<Rightarrow> (int + client) option" where
  "ClientInit inp e c =
     (case clientInitConnection e (initClientData inp c) of
        None \<Rightarrow> None
      | Some (Inl x) \<Rightarrow> Some (Inl x)
      | Some (Inr c1) \<Rightarrow>
          let c2 = (if clientConnectedHandler c1 then c1\<lparr>called := called c1 @ [ConnectedHandler]\<rparr> else c1)
          in (case clientRegister2Server (registerBitmap c2) (e_junk e) (e_writes e) of
                None \<Rightarrow> None | Some (Inl x) \<Rightarrow> Some (Inl x) | Some (Inr _) \<Rightarrow> Some (Inr c2)))"

definition ClientGetConnectionStatus :: "client \<Rightarrow> int" where
  "ClientGetConnectionStatus c = (if isConnected c then 1 else 0)"

definition ClientExit :: "client \<Rightarrow> client" where
  "ClientExit c = handleClientDisconnection c"

section \<open>Reading and sending\<close>

text \<open>Answers of \<open>read\<close> that bring the bytes \<open>bs\<close> in pieces, with interruptions between them.\<close>

definition rd_data :: "rd \<Rightarrow> u8 list" where
  "rd_data a = (case a of RdData bs \<Rightarrow> bs | _ \<Rightarrow> [])"

definition rd_chunks :: "rd list \<Rightarrow> u8 list \<Rightarrow> bool" where
  "rd_chunks as bs \<longleftrightarrow> list_all (\<lambda>a. case a of RdData b \<Rightarrow> b \<noteq> [] | RdErr e \<Rightarrow> e | RdEof \<Rightarrow> False) as
     \<and> concat (map rd_data as) = bs"

lemma rd_chunks_append: "rd_chunks as bs \<Longrightarrow> rd_chunks as' bs' \<Longrightarrow> rd_chunks (as @ as') (bs @ bs')"
  by (simp add: rd_chunks_def)

lemma readn_loop_chunks: "rd_chunks as bs
  \<Longrightarrow> \<exists>as'. readn_loop (length bs) got (as @ rest) = Some (int (length (got @ bs)), got @ bs, as' @ rest) \<and> rd_chunks as' []"
proof (induction as arbitrary: bs got)
  case Nil
  then show ?case by (intro exI[of _ "[]"]) (simp add: rd_chunks_def readn_loop.simps)
next
  case (Cons a as)
  show ?case
  proof (cases a)
    case (RdData b)
    then obtain bs' where bs: "bs = b @ bs'" "b \<noteq> []" "rd_chunks as bs'" using Cons.prems by (auto simp: rd_chunks_def rd_data_def)
    then show ?thesis using Cons.IH[OF bs(3), of "got @ b"] RdData by (subst readn_loop.simps) simp
  next
    case (RdErr e)
    then have e: "e" "rd_chunks as bs" using Cons.prems by (auto simp: rd_chunks_def rd_data_def)
    show ?thesis
    proof (cases "bs = []")
      case True
      then show ?thesis using Cons.prems by (intro exI[of _ "a # as"]) (simp add: readn_loop.simps)
    next
      case False
      then show ?thesis using Cons.IH[OF e(2), of got] RdErr e(1) by (subst readn_loop.simps) simp
    qed
  qed (use Cons.prems in \<open>simp add: rd_chunks_def\<close>)
qed

lemma readn_chunks: "rd_chunks as bs
  \<Longrightarrow> \<exists>as'. readn (length bs) (as @ rest) = Some (int (length bs), bs, as' @ rest) \<and> rd_chunks as' []"
  using readn_loop_chunks[of as bs "[]" rest] by (simp add: readn_def)

lemma length_le_i32 [simp]: "length (le_i32 i) = 4"
  by (simp add: le_i32_def)

lemma of_le_i32_le_i32 [simp]: "- (2 ^ 31) \<le> i \<Longrightarrow> i < 2 ^ 31 \<Longrightarrow> of_le_i32 (le_i32 i) = i"
  using signed_take_bit_int_eq_self[of 31 i] by (simp add: of_le_i32_def le_i32_def signed_of_int)

lemma header_fields [simp]:
  "length (header_bytes ty len) = 8"
  "- (2 ^ 31) \<le> ty \<Longrightarrow> ty < 2 ^ 31 \<Longrightarrow> header_type (header_bytes ty len @ b) = ty"
  "- (2 ^ 31) \<le> len \<Longrightarrow> len < 2 ^ 31 \<Longrightarrow> header_len (header_bytes ty len @ b) = len"
  by (simp_all add: header_bytes_def header_type_def header_len_def del: One_nat_def)

lemma send_loop_chain:
  "chain nextp (nodes l) p xs \<Longrightarrow> \<forall>a\<in>set xs. cells l (ndata (the (nodes l a))) \<noteq> None
   \<Longrightarrow> send_loop P msg l out p = Some (out @ map (\<lambda>i. (snd i, msg)) (filter (\<lambda>i. P (fst i)) (map (item l) xs)))"
  by (induction xs arbitrary: p out) (auto simp: send_loop.simps item_def)

lemma send_loop_holds: "holds l cs
  \<Longrightarrow> send_loop P msg l [] (head l) = Some (map (\<lambda>i. (snd i, msg)) (filter (\<lambda>i. P (fst i)) cs))"
  using send_loop_chain[of l "head l"] by (auto simp: holds_def ulist_ok_def data_ok_def)

lemma holds_head: "holds l is \<Longrightarrow> head l = None \<longleftrightarrow> is = []"
  by (cases "is") (auto simp: holds_def ulist_ok_def)

end
