(* ===== verification/SocketV2Props.thy ===== *)
theory SocketV2Props
  imports SocketV2
begin

text \<open>
  What the server and the client of \<open>aml_socketipc_v2\<close> guarantee together: messages reach the
  registered clients in the order in which they were queued, a registration message registers
  its bitmap when that is short enough; and where they do not: long bitmaps, empty messages,
  the connection status before the first reconnection, the heartbeat after one.
\<close>

section \<open>Queueing and sending\<close>

lemma enqueue_business:
  assumes "holds (clientFdList s) cs" "cs \<noteq> []" "holds (serverMsgsList s) ms" "int (length body) + 8 < 2 ^ 31"
  shows "\<exists>s'. EnqueueServerMsg body BUSINESS_DATA (int (length body)) t s = Some s'
    \<and> holds (serverMsgsList s') (ms @ [(t, header_bytes BUSINESS_DATA (int (length body)) @ body)])
    \<and> clientFdList s' = clientFdList s \<and> written s' = written s"
proof -
  obtain q where "push_new (serverMsgsList s) (header_bytes BUSINESS_DATA (int (length body)) @ body) t = Some q"
    "holds q (ms @ [(t, header_bytes BUSINESS_DATA (int (length body)) @ body)])"
    using uq.push_repr[OF assms(3)] by blast
  moreover obtain y where "head (clientFdList s) = Some y" using holds_head[OF assms(1)] assms(2) by blast
  ultimately show ?thesis using assms(4) by (simp add: EnqueueServerMsg_def msg_types)
qed

lemma sender_round_business:
  assumes "holds (clientFdList s) cs" "0 \<le> t" "t \<le> 30" "int (length body) + 8 < 2 ^ 31"
    and "holds (serverMsgsList s) ((t, header_bytes BUSINESS_DATA (int (length body)) @ body) # ms)"
  shows "\<exists>s'. sender_round s = Some s' \<and> holds (serverMsgsList s') ms \<and> clientFdList s' = clientFdList s
    \<and> written s' = written s @ map (\<lambda>i. (snd i, header_bytes BUSINESS_DATA (int (length body)) @ body))
        (filter (\<lambda>i. bit (fst i) (nat t)) cs)"
proof -
  let ?m = "header_bytes BUSINESS_DATA (int (length body)) @ body"
  obtain p l' where p: "front (serverMsgsList s) = Some (Some (p, t))" "cells (serverMsgsList s) p = Some ?m"
    "pop_freed (serverMsgsList s) p = Some l'" "holds l' ms"
    using uq.take_first[OF assms(5)] by blast
  have hd: "header_type ?m = BUSINESS_DATA" "header_len ?m = int (length body)"
    using assms(4) by (simp_all add: msg_types)
  have "take (nat (8 + header_len ?m)) ?m = ?m" by (simp add: hd)
  then show ?thesis using p assms(2,3) hd front_holds(2)[OF assms(5)]
    by (auto simp: sender_round_def send_loop_holds[OF assms(1)] bit_iff_and_push_bit_not_eq_0)
qed

text \<open>Queueing a list of requests, and a number of rounds of the sender.\<close>

fun enqueue_all :: "(int \<times> u8 list) list \<Rightarrow> server \<Rightarrow> server option" where
  "enqueue_all [] s = Some s"
| "enqueue_all ((t, body) # rs) s =
     (case EnqueueServerMsg body BUSINESS_DATA (int (length body)) t s of None \<Rightarrow> None | Some s' \<Rightarrow> enqueue_all rs s')"

fun sender_rounds :: "nat \<Rightarrow> server \<Rightarrow> server option" where
  "sender_rounds 0 s = Some s"
| "sender_rounds (Suc n) s = (case sender_round s of None \<Rightarrow> None | Some s' \<Rightarrow> sender_rounds n s')"

definition delivered :: "(int \<times> int) list \<Rightarrow> int \<times> u8 list \<Rightarrow> (int \<times> u8 list) list" where
  "delivered cs r = map (\<lambda>i. (snd i, header_bytes BUSINESS_DATA (int (length (snd r))) @ snd r))
     (filter (\<lambda>i. bit (fst i) (nat (fst r))) cs)"

definition requests_ok :: "(int \<times> u8 list) list \<Rightarrow> bool" where
  "requests_ok rs \<longleftrightarrow> list_all (\<lambda>(t, body). 0 \<le> t \<and> t \<le> 30 \<and> int (length body) + 8 < 2 ^ 31) rs"

abbreviation framed :: "int \<times> u8 list \<Rightarrow> int \<times> u8 list" where
  "framed r \<equiv> (fst r, header_bytes BUSINESS_DATA (int (length (snd r))) @ snd r)"

lemma enqueue_all_ok:
  "holds (clientFdList s) cs \<Longrightarrow> cs \<noteq> [] \<Longrightarrow> holds (serverMsgsList s) ms \<Longrightarrow> requests_ok rs
   \<Longrightarrow> \<exists>s'. enqueue_all rs s = Some s' \<and> holds (serverMsgsList s') (ms @ map framed rs)
     \<and> clientFdList s' = clientFdList s \<and> written s' = written s"
proof (induction rs arbitrary: s ms)
  case Nil
  then show ?case by simp
next
  case (Cons r rs)
  obtain t body where r: "r = (t, body)" by (cases r)
  obtain s1 where s1: "EnqueueServerMsg body BUSINESS_DATA (int (length body)) t s = Some s1"
    "holds (serverMsgsList s1) (ms @ [framed r])" "clientFdList s1 = clientFdList s" "written s1 = written s"
    using enqueue_business[OF Cons.prems(1-3)] Cons.prems(4) r by (auto simp: requests_ok_def)
  then show ?case using Cons.IH[of s1 "ms @ [framed r]"] Cons.prems r by (simp add: requests_ok_def)
qed

lemma sender_rounds_ok:
  "holds (clientFdList s) cs \<Longrightarrow> holds (serverMsgsList s) (map framed rs @ ms) \<Longrightarrow> requests_ok rs
   \<Longrightarrow> \<exists>s'. sender_rounds (length rs) s = Some s' \<and> holds (serverMsgsList s') ms
     \<and> clientFdList s' = clientFdList s \<and> written s' = written s @ concat (map (delivered cs) rs)"
proof (induction rs arbitrary: s)
  case Nil
  then show ?case by simp
next
  case (Cons r rs)
  obtain t body where r: "r = (t, body)" by (cases r)
  obtain s1 where s1: "sender_round s = Some s1" "holds (serverMsgsList s1) (map framed rs @ ms)"
    "clientFdList s1 = clientFdList s" "written s1 = written s @ delivered cs r"
    using sender_round_business[OF Cons.prems(1), of t body "map framed rs @ ms"] Cons.prems(2,3) r
    by (auto simp: requests_ok_def delivered_def)
  then show ?case using Cons.IH[of s1] Cons.prems by (auto simp: requests_ok_def)
qed

text \<open>C6: Messages queued for the clients are sent in the order of their queueing, each with its
  header to exactly the clients whose registered bitmap has the bit of the message's type, in
  the order of their registration; after as many rounds as messages the queue is empty.\<close>

theorem server_messages_in_order:
  assumes "holds (clientFdList s) cs" "cs \<noteq> []" "holds (serverMsgsList s) []" "requests_ok rs"
  shows "\<exists>s1 s2. enqueue_all rs s = Some s1 \<and> sender_rounds (length rs) s1 = Some s2
    \<and> written s2 = written s @ concat (map (delivered cs) rs) \<and> holds (serverMsgsList s2) []
    \<and> holds (clientFdList s2) cs"
proof -
  obtain s1 where s1: "enqueue_all rs s = Some s1" "holds (serverMsgsList s1) (map framed rs @ [])"
    "clientFdList s1 = clientFdList s" "written s1 = written s"
    using enqueue_all_ok[OF assms] by auto
  then show ?thesis using sender_rounds_ok[of s1 cs rs "[]"] assms(1,4) by auto
qed

section \<open>Registering\<close>

lemma length_pr_nat_upper: "n < 10 ^ Suc k \<Longrightarrow> length (pr_nat 10 n) \<le> Suc k"
  by (rule length_pr_nat_le) simp_all

lemma length_pr_nat_lower: "10 ^ k \<le> n \<Longrightarrow> Suc k \<le> length (pr_nat 10 n)"
proof (induction k arbitrary: n)
  case 0
  then show ?case by (simp add: Suc_le_eq)
next
  case (Suc k)
  have "10 ^ k \<le> n div 10" using Suc.prems by (simp add: less_eq_div_iff_mult_less_eq)
  moreover have "\<not> n < 10" using Suc.prems by (metis one_le_numeral one_le_power power_Suc mult_le_mono2 nat_mult_1_right leD le_trans)
  ultimately show ?case using Suc.IH[of "n div 10"] by (subst pr_nat.simps) simp
qed

lemma byte_of_NUL [simp]: "byte_of NUL = 0"
  by (simp add: byte_of_def)

lemma char_of_byte_0 [simp]: "char_of_byte 0 = NUL"
  by (metis byte_of_NUL char_of_byte_of)

lemma register_sends:
  assumes "length (pr_int b) < 10" "length junk = 10" "clientRegister2Server b junk as = Some (Inr msg)"
  shows "msg = header_bytes REGISTER 4 @ take 4 (map byte_of (pr_int b) @ 0 # drop (length (pr_int b) + 1) junk)"
  using assms by (auto simp: clientRegister2Server_def ClientWriteMsg2Server_def Let_def msg_types split: if_splits option.splits)

lemma client_readable_register:
  assumes "rd_chunks a1 (header_bytes REGISTER 4)" "rd_chunks a2 data" "length data = 4"
  shows "client_readable fd (a1 @ a2 @ rest) s = handleRegisterMessage data fd s"
proof -
  obtain a1' where a1': "readn 8 (a1 @ a2 @ rest) = Some (8, header_bytes REGISTER 4, a1' @ a2 @ rest)" "rd_chunks a1' []"
    using readn_chunks[OF assms(1), of "a2 @ rest"] by auto
  moreover have "rd_chunks (a1' @ a2) data" using rd_chunks_append[OF a1'(2) assms(2)] by simp
  then obtain a2' where "readn 4 (a1' @ a2 @ rest) = Some (4, data, a2' @ rest)"
    using readn_chunks[of "a1' @ a2" data rest] assms(3) by auto
  ultimately show ?thesis
    using header_fields(2)[of REGISTER 4 "[]"] header_fields(3)[of 4 REGISTER "[]"]
    by (simp add: client_readable_def msg_types Let_def)
qed

text \<open>A registration works for bitmaps below 1000: the message \<open>clientRegister2Server\<close> sends,
  received by the server in pieces of any sizes, adds the client with exactly this bitmap at the
  end of the server's list of clients.\<close>

theorem register_small_bitmap:
  assumes "0 \<le> b" "b < 1000" "length junk = 10" "clientRegister2Server b junk as = Some (Inr msg)"
    and "rd_chunks a1 (take 8 msg)" "rd_chunks a2 (drop 8 msg)" "holds (clientFdList s) cs"
  shows "\<exists>s'. client_readable fd (a1 @ a2 @ rest) s = Some s' \<and> holds (clientFdList s') (cs @ [(b, fd)])"
proof -
  have pr: "pr_int b = pr_nat 10 (nat b)" using assms(1) by (simp add: pr_int_def)
  have len: "length (pr_int b) \<le> 3" using length_pr_nat_upper[of "nat b" 2] assms(2) by (simp add: pr)
  let ?data = "take 4 (map byte_of (pr_int b) @ 0 # drop (length (pr_int b) + 1) junk)"
  have msg: "msg = header_bytes REGISTER 4 @ ?data" by (rule register_sends) (use len assms in auto)
  obtain k where "4 - length (pr_int b) = Suc k" using len 
    by (cases "4 - length (pr_int b)") auto
  then obtain x where x: "?data = map byte_of (pr_int b) @ 0 # x" using len by simp
  have "atoi_bytes (map byte_of (pr_int b) @ 0 # x) = Some b"
    using assms(1,2) atoi_pr_int[of b] by (simp add: atoi_bytes_def Let_def comp_def)
  then have "atoi_bytes ?data = Some b" unfolding x .
  moreover have "client_readable fd (a1 @ a2 @ rest) s = handleRegisterMessage ?data fd s"
    using assms(5,6) len assms(3) by (intro client_readable_register) (simp_all add: msg)
  ultimately show ?thesis
    using uq.push_repr[OF assms(7), of fd b] by (auto simp: handleRegisterMessage_def)
qed

text \<open>A registration with a bitmap of four to nine digits is undefined: the client sends the
  first four bytes of the decimal text, without the NUL that ends it (the length it sends is
  the size of an \<open>int\<close>), and the server's \<open>atoi\<close> reads behind the four bytes it received.\<close>

theorem register_large_bitmap:
  assumes "1000 \<le> b" "b < 1000000000" "length junk = 10" "clientRegister2Server b junk as = Some (Inr msg)"
    and "rd_chunks a1 (take 8 msg)" "rd_chunks a2 (drop 8 msg)"
  shows "drop 8 msg = map byte_of (take 4 (pr_int b)) \<and> client_readable fd (a1 @ a2 @ rest) s = None"
proof -
  have pr: "pr_int b = pr_nat 10 (nat b)" using assms(1) by (simp add: pr_int_def)
  have "(10 :: nat) ^ 3 \<le> nat b" using assms(1) by simp
  then have len: "4 \<le> length (pr_int b)" "length (pr_int b) \<le> 9"
    using length_pr_nat_upper[of "nat b" 8] length_pr_nat_lower[of 3 "nat b"] assms(2) by (simp_all add: pr)
  let ?t = "take 4 (pr_int b)"
  have msg: "msg = header_bytes REGISTER 4 @ map byte_of ?t"
    using register_sends[OF _ assms(3,4)] len by (simp add: take_map)
  have dig: "isdigit c" if "c \<in> set ?t" for c using that pr_nat_isdigit[of c "nat b"] by (auto simp: pr dest: in_set_takeD)
  have ne: "?t \<noteq> []" using len by auto
  have "scan_sign (skip_ws (?t @ [])) = (False, ?t @ [])"
    using skip_ws_digit[OF ne, of "[]"] scan_sign_digit[OF ne, of "[]"] dig[OF hd_in_set[OF ne]]
    by (simp only: isdigit_imp_isxdigit)
  moreover have "dropWhile isdigit ?t = []" using dig by (simp add: dropWhile_eq_Nil_conv)
  moreover have "NUL \<notin> set ?t" using dig[of NUL] by (auto simp: isdigit_def cval_def)
  ultimately have "atoi_bytes (map byte_of ?t) = None" by (simp add: atoi_bytes_def Let_def comp_def)
  moreover have "client_readable fd (a1 @ a2 @ rest) s = handleRegisterMessage (map byte_of ?t) fd s"
    using assms(5,6) len by (intro client_readable_register) (simp_all add: msg)
  ultimately show ?thesis by (simp add: handleRegisterMessage_def msg)
qed

section \<open>Connections\<close>

text \<open>The server treats a message without data as the end of the connection: a client whose
  message has a data length of 0 is removed from the list of clients, with all its
  registrations, and its descriptor is closed.\<close>

theorem server_drops_empty_message:
  assumes "rd_chunks as (header_bytes ty 0)" "- (2 ^ 31) \<le> ty" "ty < 2 ^ 31" "holds (clientFdList s) cs"
  shows "\<exists>s'. client_readable fd (as @ rest) s = Some s' \<and> holds (clientFdList s') (filter (\<lambda>i. snd i \<noteq> fd) cs)
    \<and> s_closed s' = s_closed s @ [fd] \<and> handled s' = handled s"
proof -
  obtain as' where "readn 8 (as @ rest) = Some (8, header_bytes ty 0, as' @ rest)"
    using readn_chunks[OF assms(1), of rest] by auto
  moreover have "header_len (header_bytes ty 0) = 0" using header_fields(3)[of 0 ty "[]"] by simp
  moreover have "readn 0 (as' @ rest) = Some (0, [], as' @ rest)" by (simp add: readn_def readn_loop.simps)
  ultimately have "client_readable fd (as @ rest) s = drop_client fd s" by (simp add: client_readable_def Let_def)
  then show ?thesis using deleteInt_holds[OF assms(4), of fd] by (auto simp: drop_client_def)
qed

text \<open>A client that sends part of a header and then nothing that can be read without
  blocking makes the server use an uninitialised header: the sockets are non-blocking and the
  failure of \<open>readn\<close> is not checked.\<close>

theorem server_partial_header_undefined:
  assumes "rd_chunks as bs" "length bs < 8"
  shows "client_readable fd (as @ RdErr False # rest) s = None"
proof -
  have "\<exists>as'. readn_loop k got (as @ RdErr False # rest) = Some (-1, got @ bs, as')"
    if "rd_chunks as bs" "length bs < k" for as bs k got
    using that
  proof (induction as arbitrary: bs k got)
    case Nil
    then show ?case by (subst readn_loop.simps) (auto simp: rd_chunks_def)
  next
    case (Cons a as)
    show ?case
    proof (cases a)
      case (RdData b)
      then obtain bs' where bs': "bs = b @ bs'" "b \<noteq> []" "rd_chunks as bs'" using Cons.prems(1) by (auto simp: rd_chunks_def rd_data_def)
      then show ?thesis using Cons.IH[of bs' "k - length b" "got @ b"] Cons.prems(2) RdData
        by (subst readn_loop.simps) auto
    next
      case (RdErr e)
      then show ?thesis using Cons.IH[of bs k got] Cons.prems by (subst readn_loop.simps) (auto simp: rd_chunks_def rd_data_def)
    qed (use Cons.prems in \<open>simp add: rd_chunks_def\<close>)
  qed
  from this[OF assms, of "[]"] obtain as' where "readn 8 (as @ RdErr False # rest) = Some (-1, bs, as')"
    by (auto simp: readn_def)
  then show ?thesis using assms(2) by (simp add: client_readable_def)
qed

text \<open>Connections that succeed and register: the loop of \<open>connect\<close> ends, \<open>writen\<close> writes all.\<close>

lemma connect_loop_fields:
  "connect_loop rs c = Some (Inr c') \<Longrightarrow> isConnected c' = isConnected c \<and> called c' = called c \<and> beats c' = beats c
    \<and> registerBitmap c' = registerBitmap c \<and> clientConnectedHandler c' = clientConnectedHandler c
    \<and> clientDisconnectedHandler c' = clientDisconnectedHandler c"
  by (induction rs c rule: connect_loop.induct) (auto simp: Let_def split: if_splits)

lemma clientInitConnection_fields:
  "clientInitConnection e c = Some (Inr c') \<Longrightarrow> isConnected c' = isConnected c \<and> called c' = called c \<and> beats c' = beats c
    \<and> registerBitmap c' = registerBitmap c \<and> clientConnectedHandler c' = clientConnectedHandler c
    \<and> clientDisconnectedHandler c' = clientDisconnectedHandler c"
  using connect_loop_fields[of "e_conns e" "c\<lparr>sockfd := e_sock e\<rparr>" c'] by (auto simp: clientInitConnection_def split: if_splits)

lemma handleClientConnection_fields:
  assumes "handleClientConnection e c = Some (Inr c')"
  shows "isConnected c' \<and> beats c' = beats c \<and> clientDisconnectedHandler c' = clientDisconnectedHandler c
    \<and> called c' = called c @ (if clientConnectedHandler c then [ConnectedHandler] else [])
    \<and> clientConnectedHandler c' = clientConnectedHandler c"
proof -
  obtain c1 where c1: "clientInitConnection e c = Some (Inr c1)"
    using assms by (auto simp: handleClientConnection_def split: option.splits sum.splits)
  have "c' = (let c2 = c1\<lparr>isConnected := True\<rparr> in
      if clientConnectedHandler c2 then c2\<lparr>called := called c2 @ [ConnectedHandler]\<rparr> else c2)"
    using assms c1 by (cases "clientConnectedHandler c1")
      (simp_all add: handleClientConnection_def Let_def split: option.splits sum.splits)
  then show ?thesis using clientInitConnection_fields[OF c1] by (simp add: Let_def)
qed

lemma handleClientDisconnection_fields:
  "isConnected (handleClientDisconnection c) = False" "beats (handleClientDisconnection c) = beats c"
  "clientDisconnectedHandler (handleClientDisconnection c) = clientDisconnectedHandler c"
  "clientConnectedHandler (handleClientDisconnection c) = clientConnectedHandler c"
  "called (handleClientDisconnection c) = called c @ (if clientDisconnectedHandler c then [DisconnectedHandler] else [])"
  by (simp_all add: handleClientDisconnection_def Let_def)

lemma handleClientReconnection_fields:
  assumes "handleClientReconnection e c = Some (Inr c')"
  shows "isConnected c' \<and> beats c' = beats c
    \<and> called c' = called c @ (if clientDisconnectedHandler c then [DisconnectedHandler] else [])
        @ (if clientConnectedHandler c then [ConnectedHandler] else [])"
  using handleClientConnection_fields[OF assms[unfolded handleClientReconnection_def]]
  by (simp add: handleClientDisconnection_fields)

lemma ClientInit_fields:
  assumes "ClientInit inp e client_zero = Some (Inr c)"
  shows "\<not> isConnected c \<and> clientConnectedHandler c = in_connected inp \<and> \<not> clientDisconnectedHandler c
    \<and> called c = (if in_connected inp then [ConnectedHandler] else [])"
proof -
  obtain c1 where c1: "clientInitConnection e (initClientData inp client_zero) = Some (Inr c1)"
    using assms by (auto simp: ClientInit_def split: option.splits sum.splits)
  have "c = (if clientConnectedHandler c1 then c1\<lparr>called := called c1 @ [ConnectedHandler]\<rparr> else c1)"
    using assms c1 by (cases "clientConnectedHandler c1")
      (simp_all add: ClientInit_def Let_def split: option.splits sum.splits)
  then show ?thesis using clientInitConnection_fields[OF c1] by (simp add: initClientData_def client_zero_def)
qed

text \<open>After \<open>ClientInit\<close> has connected and registered, \<open>ClientGetConnectionStatus\<close> still reports
  no connection; only the first reconnection sets the status. And no reconnection ever calls the
  disconnection callback the application passed to \<open>ClientInit\<close>: it is not copied.\<close>

theorem client_status_after_init:
  assumes "ClientInit inp e client_zero = Some (Inr c)" "handleClientReconnection e2 c = Some (Inr c2)"
  shows "ClientGetConnectionStatus c = 0 \<and> ClientGetConnectionStatus c2 = 1
    \<and> called c2 = (if in_connected inp then [ConnectedHandler, ConnectedHandler] else [])"
  using ClientInit_fields[OF assms(1)] handleClientReconnection_fields[OF assms(2)]
  by (simp add: ClientGetConnectionStatus_def)

text \<open>Rounds of the heartbeat detector, one after another.\<close>

fun beat_rounds :: "conn_env list \<Rightarrow> client \<Rightarrow> (int + client) option" where
  "beat_rounds [] c = Some (Inr c)"
| "beat_rounds (e # es) c = (case beat_round e c of Some (Inr c') \<Rightarrow> beat_rounds es c' | r \<Rightarrow> r)"

lemma beat_rounds_quiet: "0 \<le> beats c \<Longrightarrow> beats c + 10 * int (length es) \<le> 40
  \<Longrightarrow> beat_rounds es c = Some (Inr (c\<lparr>beats := beats c + 10 * int (length es)\<rparr>))"
  by (induction es arbitrary: c) (auto simp: beat_round_def)

text \<open>Without heartbeats from the server the detector reconnects in its fifth round, and not
  before; a reconnection does not reset the counter, so every later round reconnects again
  until a heartbeat arrives.\<close>

theorem heartbeat_detection:
  assumes "beats c = 0"
  shows "(length es \<le> 4 \<longrightarrow> beat_rounds es c = Some (Inr (c\<lparr>beats := 10 * int (length es)\<rparr>)))
    \<and> (length es = 4 \<longrightarrow> beat_rounds (es @ [e]) c = handleClientReconnection e (c\<lparr>beats := 40\<rparr>))
    \<and> (beats d > 30 \<longrightarrow> (case beat_round e d of Some (Inr d') \<Rightarrow> beats d' > 30 \<and> isConnected d' | _ \<Rightarrow> True))"
proof (intro conjI impI)
  have app: "beat_rounds (xs @ [e]) c = (case beat_rounds xs c of Some (Inr c') \<Rightarrow> beat_round e c' | r \<Rightarrow> r)" for xs c
    by (induction xs arbitrary: c) (auto split: option.splits sum.splits)
  show "length es \<le> 4 \<Longrightarrow> beat_rounds es c = Some (Inr (c\<lparr>beats := 10 * int (length es)\<rparr>))"
    using beat_rounds_quiet[of c es] assms by simp
  then show "length es = 4 \<Longrightarrow> beat_rounds (es @ [e]) c = handleClientReconnection e (c\<lparr>beats := 40\<rparr>)"
    by (simp add: app beat_round_def)
  show "beats d > 30 \<Longrightarrow> case beat_round e d of Some (Inr d') \<Rightarrow> beats d' > 30 \<and> isConnected d' | _ \<Rightarrow> True"
    using handleClientReconnection_fields[of e d] by (auto simp: beat_round_def split: option.splits sum.splits)
qed

section \<open>From registration to delivery\<close>

text \<open>The event of a client \<open>fd\<close> whose \<open>clientRegister2Server\<close> sent its bitmap \<open>b\<close>, received in
  pieces of any sizes.\<close>

definition registers :: "int \<times> int \<Rightarrow> server_event \<Rightarrow> bool" where
  "registers c ev \<longleftrightarrow> (\<exists>junk as msg a1 a2 rest. 0 \<le> fst c \<and> fst c < 1000 \<and> length junk = 10
     \<and> clientRegister2Server (fst c) junk as = Some (Inr msg)
     \<and> rd_chunks a1 (take 8 msg) \<and> rd_chunks a2 (drop 8 msg) \<and> ev = Readable (snd c) (a1 @ a2 @ rest))"

lemma client_readable_msgs: "client_readable fd as s = Some s' \<Longrightarrow> serverMsgsList s' = serverMsgsList s \<and> written s' = written s"
  by (auto simp: client_readable_def drop_client_def handleRegisterMessage_def Let_def split: option.splits prod.splits if_splits)

lemma epoll_batch_registers:
  "list_all2 registers cs evs \<Longrightarrow> holds (clientFdList s) cs0
   \<Longrightarrow> \<exists>s'. epoll_batch evs s = Some (Inr s') \<and> holds (clientFdList s') (cs0 @ cs)
     \<and> serverMsgsList s' = serverMsgsList s \<and> written s' = written s"
proof (induction evs arbitrary: cs cs0 s)
  case (Cons ev evs)
  then obtain b fd cs' where cs: "cs = (b, fd) # cs'" "registers (b, fd) ev" "list_all2 registers cs' evs"
    by (auto simp: list_all2_Cons2)
  obtain junk as msg a1 a2 rest where r: "0 \<le> b" "b < 1000" "length junk = 10" "clientRegister2Server b junk as = Some (Inr msg)"
    "rd_chunks a1 (take 8 msg)" "rd_chunks a2 (drop 8 msg)" "ev = Readable fd (a1 @ a2 @ rest)"
    using cs(2) by (auto simp: registers_def)
  obtain s1 where s1: "client_readable fd (a1 @ a2 @ rest) s = Some s1" "holds (clientFdList s1) (cs0 @ [(b, fd)])"
    using register_small_bitmap[OF r(1-6) Cons.prems(2)] by blast
  show ?case using Cons.IH[OF cs(3) s1(2)] s1(1) client_readable_msgs[OF s1(1)] by (auto simp: cs(1) r(7))
qed simp

lemma epoll_loop_registers:
  "list_all2 (list_all2 registers) css batches \<Longrightarrow> list_all (\<lambda>b. length b \<le> MAX_EVENT) batches \<Longrightarrow> holds (clientFdList s) cs0
   \<Longrightarrow> \<exists>s'. epoll_loop (map Some batches) s = Some (Inr s') \<and> holds (clientFdList s') (cs0 @ concat css)
     \<and> serverMsgsList s' = serverMsgsList s \<and> written s' = written s"
proof (induction batches arbitrary: css cs0 s)
  case (Cons evs batches)
  then obtain cs css' where css: "css = cs # css'" "list_all2 registers cs evs" "list_all2 (list_all2 registers) css' batches"
    by (auto simp: list_all2_Cons2)
  obtain s1 where s1: "epoll_batch evs s = Some (Inr s1)" "holds (clientFdList s1) (cs0 @ cs)"
    "serverMsgsList s1 = serverMsgsList s" "written s1 = written s"
    using epoll_batch_registers[OF css(2) Cons.prems(3)] by blast
  show ?case using Cons.IH[OF css(3) _ s1(2)] Cons.prems(2) s1 css(1) by auto
qed simp

text \<open>The server from its start: clients register, in any batches of events and with their
  messages in any pieces; then every message queued is sent, in order, to exactly the clients
  whose bitmap has its type.\<close>

theorem server_from_start:
  assumes "ServerInit listener True True True = Inr (s0, listen_fd, n)"
    and "list_all2 (list_all2 registers) css batches" "list_all (\<lambda>b. length b \<le> MAX_EVENT) batches"
    and "concat css \<noteq> []" "requests_ok rs"
  shows "\<exists>s s1 s2. epollEventHandlerWorker True True (map Some batches) s0 = Some (Inr s)
    \<and> enqueue_all rs s = Some s1 \<and> sender_rounds (length rs) s1 = Some s2
    \<and> written s2 = concat (map (delivered (concat css)) rs)"
proof -
  have s0: "s0 = initServerData" using assms(1) by (cases listener) (auto simp: ServerInit_def)
  have init: "holds (clientFdList s0) []" "holds (serverMsgsList s0) []" "written s0 = []"
    by (simp_all add: s0 initServerData_def uq.new_repr)
  obtain s where s: "epoll_loop (map Some batches) s0 = Some (Inr s)" "holds (clientFdList s) (concat css)"
    "serverMsgsList s = serverMsgsList s0" "written s = []"
    using epoll_loop_registers[OF assms(2,3) init(1)] init(3) by auto
  obtain s1 where s1: "enqueue_all rs s = Some s1" "holds (serverMsgsList s1) ([] @ map framed rs)"
    "clientFdList s1 = clientFdList s" "written s1 = written s"
    using enqueue_all_ok[OF s(2) assms(4), of "[]" rs] init(2) s(3) assms(5) by auto
  obtain s2 where "sender_rounds (length rs) s1 = Some s2" "written s2 = written s1 @ concat (map (delivered (concat css)) rs)"
    using sender_rounds_ok[of s1 "concat css" rs "[]"] s(2) s1 assms(5) by auto
  then show ?thesis using s s1 by (auto simp: epollEventHandlerWorker_def)
qed

text \<open>The result of \<open>createListener\<close> is not looked at: with a socket that could not be bound the
  server starts as well, with a descriptor that is closed, and the first thing its event thread
  does with it is to fail.\<close>

theorem server_starts_without_listener:
  assumes "0 < fd" "\<not> (opt_ok \<and> bind_ok \<and> listen_ok)"
  shows "createListener fd opt_ok bind_ok listen_ok = (-1, fd, True)
    \<and> ServerInit (createListener fd opt_ok bind_ok listen_ok) True True True = Inr (initServerData, fd, 3)
    \<and> epollEventHandlerWorker True False waits s = Some (Inl (-1))"
  using assms by (auto simp: createListener_def ServerInit_def epollEventHandlerWorker_def)

section \<open>A concrete server\<close>

text \<open>The client 7 has registered the types 0 and 1, the client 8 the type 1.\<close>

definition demo_clients :: "int ulist" where
  "demo_clients = the (push_new (the (push_new createList 7 3)) 8 2)"

definition demo_server :: server where
  "demo_server = initServerData\<lparr>clientFdList := demo_clients\<rparr>"

lemma demo_clients: "holds (clientFdList demo_server) [(3, 7), (2, 8)]"
proof -
  obtain l1 :: "int ulist" where l1: "push_new createList 7 3 = Some l1" "holds l1 ([] @ [(3, 7)])"
    using uq.push_repr[OF uq.new_repr, of 7 3] by auto
  obtain l2 where "push_new l1 8 2 = Some l2" "holds l2 (([] @ [(3, 7)]) @ [(2, 8)])"
    using uq.push_repr[OF l1(2), of 8 2] by auto
  then show ?thesis using l1 by (simp add: demo_server_def demo_clients_def)
qed

lemma demo_msgs: "holds (serverMsgsList demo_server) []"
  by (simp add: demo_server_def initServerData_def uq.new_repr)

definition demo_junk :: "u8 list" where "demo_junk = replicate 10 255"

definition demo_conn :: conn_env where
  "demo_conn = \<lparr>e_sock = 5, e_pton = True, e_conns = [ConnErr, ConnOk], e_writes = [(12, False)], e_junk = demo_junk\<rparr>"

lemma server_messages_in_order_witness:
  "\<exists>s1 s2. enqueue_all [(1, [65]), (0, [66])] demo_server = Some s1 \<and> sender_rounds 2 s1 = Some s2
    \<and> map fst (written s2) = [7, 8, 7]"
proof -
  have "requests_ok [(1, [65]), (0, [66])]" by (simp add: requests_ok_def)
  moreover have "map fst (concat (map (delivered [(3, 7), (2, 8)]) [(1, [65]), (0, [66])])) = [7, 8, 7]"
    by (simp add: delivered_def bit_iff_odd)
  moreover have "written demo_server = []" by (simp add: demo_server_def initServerData_def)
  ultimately show ?thesis
    using server_messages_in_order[OF demo_clients _ demo_msgs, of "[(1, [65]), (0, [66])]"]
    by (fastforce simp: eval_nat_numeral)
qed

lemma demo_register: "length (pr_int b) < 10 \<Longrightarrow> length junk = 10 \<Longrightarrow> clientRegister2Server b junk [(12, False)] =
  Some (Inr (header_bytes REGISTER 4 @ take 4 (map byte_of (pr_int b) @ 0 # drop (length (pr_int b) + 1) junk)))"
  by (simp add: clientRegister2Server_def ClientWriteMsg2Server_def Let_def msg_types writen_def writen_loop.simps)

lemma register_small_bitmap_witness:
  "\<exists>s'. client_readable 9 [RdData (header_bytes REGISTER 4), RdErr True, RdData [53, 0, 255, 255]] demo_server = Some s'
    \<and> holds (clientFdList s') [(3, 7), (2, 8), (5, 9)]"
proof -
  have pr: "pr_int 5 = ''5''" by code_simp
  then have reg: "clientRegister2Server 5 demo_junk [(12, False)] = Some (Inr (header_bytes REGISTER 4 @ [53, 0, 255, 255]))"
    by (subst demo_register) (simp_all add: demo_junk_def eval_nat_numeral byte_of_def)
  show ?thesis
    using register_small_bitmap[OF _ _ _ reg _ _ demo_clients, of "[RdData (header_bytes REGISTER 4)]"
        "[RdErr True, RdData [53, 0, 255, 255]]" 9 "[]"]
    by (simp add: rd_chunks_def rd_data_def demo_junk_def flip: length_0_conv)
qed

lemma register_large_bitmap_witness:
  "client_readable 9 [RdData (header_bytes REGISTER 4), RdData [52, 48, 57, 54]] demo_server = None"
proof -
  have pr: "pr_int 4096 = ''4096''" by code_simp
  then have reg: "clientRegister2Server 4096 demo_junk [(12, False)] = Some (Inr (header_bytes REGISTER 4 @ [52, 48, 57, 54]))"
    by (subst demo_register) (simp_all add: demo_junk_def byte_of_def)
  show ?thesis
    using register_large_bitmap[OF _ _ _ reg, of "[RdData (header_bytes REGISTER 4)]" "[RdData [52, 48, 57, 54]]" 9 "[]" demo_server,
        THEN conjunct2]
    by (simp add: rd_chunks_def rd_data_def demo_junk_def flip: length_0_conv)
qed

lemma server_drops_empty_message_witness:
  "\<exists>s'. client_readable 7 [RdData (header_bytes BUSINESS_DATA 0)] demo_server = Some s'
    \<and> holds (clientFdList s') [(2, 8)] \<and> s_closed s' = [7]"
  using server_drops_empty_message[OF _ _ _ demo_clients, of "[RdData (header_bytes BUSINESS_DATA 0)]" BUSINESS_DATA 7 "[]"]
  by (auto simp: rd_chunks_def rd_data_def msg_types demo_server_def initServerData_def simp flip: length_0_conv)

lemma server_partial_header_undefined_witness:
  "client_readable 7 [RdData [1, 0], RdErr False] demo_server = None"
  using server_partial_header_undefined[of "[RdData [1, 0]]" "[1, 0]" 7 "[]"] by (simp add: rd_chunks_def rd_data_def)

lemma show_3: "pr_int 3 = ''3''"
  by code_simp

lemma demo_connects:
  "\<exists>c c2. ClientInit \<lparr>in_bitmap = 3, in_connected = True, in_disconnected = True\<rparr> demo_conn client_zero = Some (Inr c)
    \<and> handleClientReconnection demo_conn c = Some (Inr c2)"
proof -
  have reg: "\<exists>m. clientRegister2Server 3 demo_junk [(12, False)] = Some (Inr m)"
    by (subst demo_register) (simp_all add: demo_junk_def show_3)
  then show ?thesis
    by (auto simp: ClientInit_def clientInitConnection_def initClientData_def client_zero_def demo_conn_def
        handleClientReconnection_def handleClientConnection_def handleClientDisconnection_def Let_def)
qed

lemma client_status_after_init_witness:
  "\<exists>c c2. ClientInit \<lparr>in_bitmap = 3, in_connected = True, in_disconnected = True\<rparr> demo_conn client_zero = Some (Inr c)
    \<and> ClientGetConnectionStatus c = 0 \<and> handleClientReconnection demo_conn c = Some (Inr c2)
    \<and> called c2 = [ConnectedHandler, ConnectedHandler]"
  using demo_connects client_status_after_init by fastforce

lemma heartbeat_detection_witness:
  "beat_rounds (replicate 4 demo_conn) client_zero = Some (Inr (client_zero\<lparr>beats := 40\<rparr>))"
proof -
  have "beats client_zero = 0" by (simp add: client_zero_def)
  from heartbeat_detection[OF this, of "replicate 4 demo_conn" demo_conn client_zero] show ?thesis by simp
qed

end
