(* ===== verification/AmlLog.thy ===== *)
theory AmlLog
  imports CText
begin

text \<open>
  \<open>aml_log/aml_log.c\<close>, first part: log categories and their levels. A program's categories are
  kept by their addresses in a store; \<open>g_aml_log_cat_list\<close> is the list of the addresses of the
  registered ones (without the end marker \<open>AML_LOG_LAST\<close>), so that a category's \<open>next\<close> is
  \<open>NULL\<close> exactly when it is not in the list.

  The regular expressions of the C library are parameters: \<open>rc p\<close> says that \<open>regcomp\<close> accepts the
  text \<open>p\<close>, \<open>rx p s\<close> that \<open>regexec\<close> finds the pattern compiled from \<open>p\<close> in \<open>s\<close>.
\<close>

section \<open>State\<close>

datatype log_type = AML_DEBUG_LOG | AML_TRACE_LOG

record log_cat =
  cat_name :: string
  log_level :: int
  trace_level :: int

text \<open>\<open>struct log_setting_node\<close>: the level, and the text the pattern was compiled from.\<close>

type_synonym log_setting = "int \<times> string"

record log_state =
  cats :: "nat \<Rightarrow> log_cat"
  cat_list :: "nat list"
  g_log_setting :: "log_setting list"
  g_trace_setting :: "log_setting list"
  level_str :: string
  config_file :: "string option"

definition AML_LOG_LEVEL_INVALID :: int where "AML_LOG_LEVEL_INVALID = 0x7fffffff"

text \<open>\<open>AML_LOG_DEFINE\<close>, the address of \<open>AML_LOG_DEFAULT\<close>, and a process at its start.\<close>

definition AML_LOG_DEFINE :: "string \<Rightarrow> log_cat" where
  "AML_LOG_DEFINE name = \<lparr>cat_name = name, log_level = AML_LOG_LEVEL_INVALID, trace_level = AML_LOG_LEVEL_INVALID\<rparr>"

abbreviation AML_LOG_DEFAULT :: nat where "AML_LOG_DEFAULT \<equiv> 0"

definition log_start :: "(nat \<Rightarrow> string) \<Rightarrow> string option \<Rightarrow> log_state" where
  "log_start names file =
     \<lparr>cats = (\<lambda>a. if a = AML_LOG_DEFAULT then \<lparr>cat_name = ''default'', log_level = 1, trace_level = 1\<rparr>
        else AML_LOG_DEFINE (names a)),
      cat_list = [AML_LOG_DEFAULT], g_log_setting = [], g_trace_setting = [],
      level_str = zeros 256, config_file = file\<rparr>"

text \<open>The code treats the two kinds of levels alike, after a test of the type.\<close>

definition level_of :: "log_type \<Rightarrow> log_cat \<Rightarrow> int" where
  "level_of ty c = (case ty of AML_DEBUG_LOG \<Rightarrow> log_level c | AML_TRACE_LOG \<Rightarrow> trace_level c)"

definition set_cat_level :: "log_type \<Rightarrow> int \<Rightarrow> log_cat \<Rightarrow> log_cat" where
  "set_cat_level ty l c = (case ty of AML_DEBUG_LOG \<Rightarrow> c\<lparr>log_level := l\<rparr> | AML_TRACE_LOG \<Rightarrow> c\<lparr>trace_level := l\<rparr>)"

definition settings :: "log_type \<Rightarrow> log_state \<Rightarrow> log_setting list" where
  "settings ty st = (case ty of AML_DEBUG_LOG \<Rightarrow> g_log_setting st | AML_TRACE_LOG \<Rightarrow> g_trace_setting st)"

definition set_settings :: "log_type \<Rightarrow> log_setting list \<Rightarrow> log_state \<Rightarrow> log_state" where
  "set_settings ty ns st = (case ty of AML_DEBUG_LOG \<Rightarrow> st\<lparr>g_log_setting := ns\<rparr> | AML_TRACE_LOG \<Rightarrow> st\<lparr>g_trace_setting := ns\<rparr>)"

definition update_cat :: "log_type \<Rightarrow> int \<Rightarrow> nat \<Rightarrow> log_state \<Rightarrow> log_state" where
  "update_cat ty l a st = st\<lparr>cats := (cats st)(a := set_cat_level ty l (cats st a))\<rparr>"

section \<open>Registering a category\<close>

text \<open>\<open>get_log_level\<close> and \<open>get_trace_level\<close>.\<close>

definition get_level :: "(string \<Rightarrow> string \<Rightarrow> bool) \<Rightarrow> log_type \<Rightarrow> log_state \<Rightarrow> string \<Rightarrow> int" where
  "get_level rx ty st name =
     (case find (\<lambda>(l, p). rx p name) (settings ty st) of
        Some (l, p) \<Rightarrow> l
      | None \<Rightarrow> level_of ty (cats st AML_LOG_DEFAULT))"

definition aml_log_add :: "(string \<Rightarrow> string \<Rightarrow> bool) \<Rightarrow> nat \<Rightarrow> log_state \<Rightarrow> log_state" where
  "aml_log_add rx a st =
     (let st1 = st\<lparr>cat_list := a # cat_list st\<rparr>;
          name = cat_name (cats st a);
          st2 = update_cat AML_DEBUG_LOG (get_level rx AML_DEBUG_LOG st1 name) a st1
      in update_cat AML_TRACE_LOG (get_level rx AML_TRACE_LOG st2 name) a st2)"

section \<open>Parsing settings\<close>

definition log_level_strs :: "string list" where
  "log_level_strs = [''LOG_QUIET'', ''LOG_ERR'', ''LOG_WARNING'', ''LOG_INFO'', ''LOG_DEBUG'', ''LOG_VERBOSE'']"

fun level_scan :: "string list \<Rightarrow> int \<Rightarrow> string \<Rightarrow> int" where
  "level_scan [] level s = -1"
| "level_scan (n # ns) level s = (if strncmp_eq n s (length n) then level else level_scan ns (level + 1) s)"

definition level_str_to_level :: "string \<Rightarrow> int" where
  "level_str_to_level s = level_scan log_level_strs 0 s"

text \<open>
  The node made from the name in \<open>buf\<close> and the level behind the colon; a failure leaves no node.
\<close>

definition setting_node :: "(string \<Rightarrow> bool) \<Rightarrow> string \<Rightarrow> string \<Rightarrow> log_setting list" where
  "setting_node rc buf val =
     (if \<not> rc buf then []
      else let level = level_str_to_level (snprintf_s 256 val) in if level < 0 then [] else [(level, buf)])"

text \<open>
  The loop over the characters: \<open>key\<close> points to the start of a name, whose characters so far are
  \<open>k\<close>, or the name is in \<open>buf\<close> and the characters of the value so far are \<open>v\<close>.
\<close>

fun parse_key :: "(string \<Rightarrow> bool) \<Rightarrow> string \<Rightarrow> string \<Rightarrow> log_setting list"
  and parse_val :: "(string \<Rightarrow> bool) \<Rightarrow> string \<Rightarrow> string \<Rightarrow> string \<Rightarrow> log_setting list" where
  "parse_key rc k [] = []"
| "parse_key rc k (c # s) = (if c = CHR '':'' then parse_val rc (snprintf_s 256 k) [] s else parse_key rc (k @ [c]) s)"
| "parse_val rc buf v [] = setting_node rc buf v"
| "parse_val rc buf v (c # s) =
     (if c = CHR '','' then setting_node rc buf v @ parse_key rc [] s else parse_val rc buf (v @ [c]) s)"

section \<open>Applying settings\<close>

definition find_cat :: "(string \<Rightarrow> string \<Rightarrow> bool) \<Rightarrow> string \<Rightarrow> log_state \<Rightarrow> nat option" where
  "find_cat rx p st = find (\<lambda>a. rx p (cat_name (cats st a))) (cat_list st)"

text \<open>
  The loop over the nodes for single modules. \<open>rel\<close> holds the nodes of the new list before the
  current one, \<open>prev\<close> says that \<open>node_prev\<close> is set, \<open>head\<close> is the list of the saved settings. The
  first matching category takes the level; a node without one is saved.
\<close>

fun sub_modules :: "(string \<Rightarrow> string \<Rightarrow> bool) \<Rightarrow> log_type \<Rightarrow> log_setting list \<Rightarrow> bool \<Rightarrow> log_setting list
    \<Rightarrow> log_setting list \<Rightarrow> log_state \<Rightarrow> log_setting list \<times> log_setting list \<times> log_state" where
  "sub_modules rx ty [] prev rel head st = (rel, head, st)"
| "sub_modules rx ty (nd # nds) prev rel head st =
     (case find_cat rx (snd nd) st of
        Some a \<Rightarrow> sub_modules rx ty nds True (rel @ [nd]) head (update_cat ty (fst nd) a st)
      | None \<Rightarrow> sub_modules rx ty nds prev (if prev then rel else []) (nd # head) st)"

definition all_modules :: "log_type \<Rightarrow> int \<Rightarrow> log_state \<Rightarrow> log_state" where
  "all_modules ty l st = foldl (\<lambda>s a. update_cat ty l a s) st (cat_list st)"

text \<open>The result also tells which of the new nodes were released.\<close>

definition apply_settings :: "(string \<Rightarrow> string \<Rightarrow> bool) \<Rightarrow> log_type \<Rightarrow> log_setting list \<Rightarrow> log_state \<Rightarrow> log_setting list \<times> log_state" where
  "apply_settings rx ty nodes st =
     (case nodes of
        [] \<Rightarrow> ([], st)
      | nd # nds \<Rightarrow>
          let (rel, head, st1) =
            (if rx (snd nd) ''all'' then sub_modules rx ty nds False [nd] (settings ty st) (all_modules ty (fst nd) st)
             else sub_modules rx ty nodes False [] (settings ty st) st)
          in (rel, set_settings ty head st1))"

definition get_setting_from_string :: "(string \<Rightarrow> bool) \<Rightarrow> (string \<Rightarrow> string \<Rightarrow> bool) \<Rightarrow> log_type \<Rightarrow> string \<Rightarrow> log_state
    \<Rightarrow> log_setting list \<times> log_state" where
  "get_setting_from_string rc rx ty s st = apply_settings rx ty (parse_key rc [] s) st"

section \<open>The interface\<close>

text \<open>\<open>fopen_ok\<close>: the configuration file can be opened for writing.\<close>

definition aml_log_sync_config_file :: "bool \<Rightarrow> string \<Rightarrow> log_state \<Rightarrow> log_state" where
  "aml_log_sync_config_file fopen_ok s st = (if fopen_ok then st\<lparr>config_file := Some s\<rparr> else st)"

text \<open>\<open>strncmp\<close> reads behind \<open>level_str\<close> when that is full and equals the start of a longer string.\<close>

definition aml_log_set_from_string :: "(string \<Rightarrow> bool) \<Rightarrow> (string \<Rightarrow> string \<Rightarrow> bool) \<Rightarrow> bool \<Rightarrow> string \<Rightarrow> log_state \<Rightarrow> log_state option" where
  "aml_log_set_from_string rc rx fopen_ok s st =
     (if NUL \<notin> set (level_str st) \<and> length s > length (level_str st) \<and> take (length (level_str st)) s = level_str st then None
      else if strncmp_eq (level_str st) s (length s) then Some st
      else let st1 = aml_log_sync_config_file fopen_ok s (st\<lparr>level_str := strncpy (level_str st) s 256\<rparr>)
           in Some (snd (get_setting_from_string rc rx AML_DEBUG_LOG s st1)))"

definition aml_trace_set_from_string :: "(string \<Rightarrow> bool) \<Rightarrow> (string \<Rightarrow> string \<Rightarrow> bool) \<Rightarrow> string \<Rightarrow> log_state \<Rightarrow> log_state" where
  "aml_trace_set_from_string rc rx s st = snd (get_setting_from_string rc rx AML_TRACE_LOG s st)"

text \<open>\<open>aml_log_parse\<close>; \<open>fopen_ok\<close> is about writing the file back.\<close>

definition aml_log_parse :: "(string \<Rightarrow> bool) \<Rightarrow> (string \<Rightarrow> string \<Rightarrow> bool) \<Rightarrow> bool \<Rightarrow> log_state \<Rightarrow> log_state option" where
  "aml_log_parse rc rx fopen_ok st =
     (case config_file st of
        None \<Rightarrow> Some st
      | Some content \<Rightarrow> if content = [] then Some st else aml_log_set_from_string rc rx fopen_ok (cstr content) st)"

text \<open>The start of \<open>aml_log_threadloop\<close>: an empty or missing file gets a default.\<close>

definition aml_log_thread_start :: "(string \<Rightarrow> bool) \<Rightarrow> (string \<Rightarrow> string \<Rightarrow> bool) \<Rightarrow> bool \<Rightarrow> log_state \<Rightarrow> log_state option" where
  "aml_log_thread_start rc rx fopen_ok st =
     (if \<not> fopen_ok then Some st
      else aml_log_parse rc rx fopen_ok
        (if config_file st = None \<or> config_file st = Some [] then st\<lparr>config_file := Some ''all:LOG_ERR''\<rparr> else st))"

section \<open>Reading what is printed\<close>

text \<open>The text of a list of settings, as the header of the library describes it.\<close>

fun settings_text :: "(string \<times> nat) list \<Rightarrow> string" where
  "settings_text [] = []"
| "settings_text [(n, l)] = n @ CHR '':'' # log_level_strs ! l"
| "settings_text ((n, l) # ss) = n @ CHR '':'' # log_level_strs ! l @ CHR '','' # settings_text ss"

fun setting_ok :: "(string \<Rightarrow> bool) \<Rightarrow> string set \<Rightarrow> string \<times> nat \<Rightarrow> bool" where
  "setting_ok rc U (n, l) \<longleftrightarrow> n \<in> U \<and> rc n \<and> CHR '':'' \<notin> set n \<and> NUL \<notin> set n \<and> length n < 256 \<and> l < 6"

definition setting_nodes :: "(string \<times> nat) list \<Rightarrow> log_setting list" where
  "setting_nodes ss = map (\<lambda>(n, l). (int l, n)) ss"

lemma less_6: "l < 6 \<Longrightarrow> l = 0 \<or> l = 1 \<or> l = 2 \<or> l = 3 \<or> l = 4 \<or> l = (5 :: nat)"
  by linarith

lemma level_strs_ok:
  "l < 6 \<Longrightarrow> CHR '','' \<notin> set (log_level_strs ! l) \<and> level_str_to_level (snprintf_s 256 (log_level_strs ! l)) = int l"
  by (drule less_6) (elim disjE; simp add: log_level_strs_def level_str_to_level_def snprintf_s_def strncmp_eq_def cstr_def)

lemma parse_val_eat: "CHR '','' \<notin> set v \<Longrightarrow> parse_val rc buf w (v @ s) = parse_val rc buf (w @ v) s"
  by (induction v arbitrary: w) auto

lemma parse_key_eat: "CHR '':'' \<notin> set k \<Longrightarrow> parse_key rc w (k @ CHR '':'' # s) = parse_val rc (snprintf_s 256 (w @ k)) [] s"
  by (induction k arbitrary: w) auto

lemma setting_node_ok: "l < 6 \<Longrightarrow> rc n \<Longrightarrow> setting_node rc n (log_level_strs ! l) = [(int l, n)]"
  by (simp add: setting_node_def level_strs_ok)

lemma parse_settings_text: "list_all (setting_ok rc U) ss \<Longrightarrow> parse_key rc [] (settings_text ss) = setting_nodes ss"
proof (induction ss rule: settings_text.induct)
  case (2 n l)
  then show ?case
    using parse_val_eat[of "log_level_strs ! l" rc n "[]" "[]"] level_strs_ok[of l]
    by (simp add: parse_key_eat snprintf_s_id setting_node_ok setting_nodes_def)
next
  case (3 n l s ss)
  then show ?case
    using parse_val_eat[of "log_level_strs ! l" rc n "[]" "CHR '','' # settings_text (s # ss)"] level_strs_ok[of l]
    by (simp add: parse_key_eat snprintf_s_id setting_node_ok setting_nodes_def)
qed (simp add: setting_nodes_def)

section \<open>Levels by name\<close>

text \<open>
  What a program's logging promises: a level for every category name. \<open>overrides\<close> are the names
  with a level of their own, registered or not; the others have the level of the default category.
\<close>

definition named_cat :: "log_state \<Rightarrow> string \<Rightarrow> nat option" where
  "named_cat st n = find (\<lambda>a. cat_name (cats st a) = n) (cat_list st)"

definition overrides :: "log_type \<Rightarrow> log_state \<Rightarrow> string \<Rightarrow> int option" where
  "overrides ty st n = (case named_cat st n of
      Some a \<Rightarrow> Some (level_of ty (cats st a))
    | None \<Rightarrow> map_option fst (find (\<lambda>nd. snd nd = n) (settings ty st)))"

definition threshold :: "log_type \<Rightarrow> log_state \<Rightarrow> string \<Rightarrow> int" where
  "threshold ty st n = (case overrides ty st n of Some l \<Rightarrow> l | None \<Rightarrow> level_of ty (cats st AML_LOG_DEFAULT))"

text \<open>Names used as patterns that match just themselves.\<close>

definition plain_names :: "(string \<Rightarrow> string \<Rightarrow> bool) \<Rightarrow> string set \<Rightarrow> bool" where
  "plain_names rx U \<longleftrightarrow> ''all'' \<in> U \<and> (\<forall>n \<in> U. \<forall>m \<in> U. rx n m \<longleftrightarrow> n = m)"

definition log_ok :: "string set \<Rightarrow> log_state \<Rightarrow> bool" where
  "log_ok U st \<longleftrightarrow> AML_LOG_DEFAULT \<in> set (cat_list st)
     \<and> inj_on (\<lambda>a. cat_name (cats st a)) (set (cat_list st)) \<and> distinct (cat_list st)
     \<and> (\<forall>a \<in> set (cat_list st). cat_name (cats st a) \<in> U)
     \<and> (\<forall>ty. \<forall>nd \<in> set (settings ty st). snd nd \<in> U)"

lemma level_of_set [simp]: "level_of ty (set_cat_level ty' l c) = (if ty = ty' then l else level_of ty c)"
  "cat_name (set_cat_level ty l c) = cat_name c"
  by (cases ty; cases ty'; simp add: level_of_def set_cat_level_def) (cases ty; simp add: set_cat_level_def)

lemma update_cat_simps [simp]:
  "cat_list (update_cat ty l a st) = cat_list st" "settings ty' (update_cat ty l a st) = settings ty' st"
  "cat_name (cats (update_cat ty l a st) b) = cat_name (cats st b)"
  "level_of ty' (cats (update_cat ty l a st) b) = (if b = a \<and> ty' = ty then l else level_of ty' (cats st b))"
  by (auto simp: update_cat_def settings_def split: log_type.split)

lemma set_settings_simps [simp]:
  "cat_list (set_settings ty ns st) = cat_list st" "cats (set_settings ty ns st) = cats st"
  "settings ty' (set_settings ty ns st) = (if ty' = ty then ns else settings ty' st)"
  by (cases ty; cases ty'; simp add: set_settings_def settings_def)+

lemma find_cong_set: "(\<And>x. x \<in> set xs \<Longrightarrow> P x = Q x) \<Longrightarrow> find P xs = find Q xs"
  by (induction xs) auto

lemma find_cat_named:
  assumes "plain_names rx U" "log_ok U st" "n \<in> U"
  shows "find_cat rx n st = named_cat st n"
  using assms unfolding find_cat_def named_cat_def
  by (intro find_cong_set) (auto simp: plain_names_def log_ok_def)

lemma named_cat_Some: "named_cat st n = Some a \<Longrightarrow> a \<in> set (cat_list st) \<and> cat_name (cats st a) = n"
  by (auto simp: named_cat_def find_Some_iff)

lemma named_cat_None: "named_cat st n = None \<longleftrightarrow> (\<forall>a \<in> set (cat_list st). cat_name (cats st a) \<noteq> n)"
  by (auto simp: named_cat_def find_None_iff)

lemma named_cat_update [simp]: "named_cat (update_cat ty l a st) n = named_cat st n"
  "named_cat (set_settings ty ns st) n = named_cat st n"
  by (simp_all add: named_cat_def)

lemma overrides_update:
  assumes "log_ok U st" "named_cat st n = Some a"
  shows "overrides ty (update_cat ty l a st) = (overrides ty st)(n \<mapsto> l)"
proof
  fix m
  show "overrides ty (update_cat ty l a st) m = ((overrides ty st)(n \<mapsto> l)) m"
    using assms named_cat_Some[OF assms(2)] named_cat_Some[of st m]
    by (auto simp: overrides_def split: option.split)
qed

lemma overrides_save:
  assumes "named_cat st n = None"
  shows "overrides ty (set_settings ty ((l, n) # head) st) = (overrides ty (set_settings ty head st))(n \<mapsto> l)"
  using assms by (auto simp: overrides_def fun_eq_iff split: option.split)

lemma overrides_other: "ty' \<noteq> ty \<Longrightarrow> overrides ty' (update_cat ty l a st) = overrides ty' st"
  "ty' \<noteq> ty \<Longrightarrow> overrides ty' (set_settings ty ns st) = overrides ty' st"
  by (auto simp: overrides_def fun_eq_iff split: option.split)

lemma log_ok_update [simp]: "log_ok U (update_cat ty l a st) \<longleftrightarrow> log_ok U st"
  by (simp add: log_ok_def)

lemma log_ok_settings: "log_ok U st \<Longrightarrow> (\<And>nd. nd \<in> set ns \<Longrightarrow> snd nd \<in> U) \<Longrightarrow> log_ok U (set_settings ty ns st)"
  by (auto simp: log_ok_def)

section \<open>The settings change the levels they name\<close>

abbreviation setting_map :: "log_setting list \<Rightarrow> string \<Rightarrow> int option" where
  "setting_map nodes \<equiv> map_of (rev (map (\<lambda>(l, n). (n, l)) nodes))"

lemma setting_map_Cons: "m ++ setting_map ((l, n) # nds) = m(n \<mapsto> l) ++ setting_map nds"
  by (auto simp: fun_eq_iff map_add_def split: option.split)

abbreviation nodes_in :: "string set \<Rightarrow> log_setting list \<Rightarrow> bool" where
  "nodes_in U ns \<equiv> list_all (\<lambda>nd. snd nd \<in> U) ns"

lemma sub_modules_overrides:
  assumes "plain_names rx U" "log_ok U st" "nodes_in U nodes" "nodes_in U head"
    and "sub_modules rx ty nodes prev rel head st = (rel', head', st')"
  shows "overrides ty (set_settings ty head' st') = overrides ty (set_settings ty head st) ++ setting_map nodes
    \<and> log_ok U (set_settings ty head' st') \<and> cat_list st' = cat_list st
    \<and> (\<forall>ty'. ty' \<noteq> ty \<longrightarrow> overrides ty' (set_settings ty head' st') = overrides ty' st)"
  using assms(2-)
proof (induction nodes arbitrary: prev rel head st)
  case Nil
  then show ?case using log_ok_settings[of U st head ty] by (simp add: overrides_other list_all_iff)
next
  case (Cons nd nds)
  obtain l n where nd: "nd = (l, n)" by (cases nd)
  have n: "n \<in> U" "nodes_in U nds" using Cons.prems(2) nd by simp_all
  have fc: "find_cat rx n st = named_cat st n" by (rule find_cat_named[OF assms(1) Cons.prems(1) n(1)])
  show ?case
  proof (cases "named_cat st n")
    case None
    then have run: "sub_modules rx ty nds prev (if prev then rel else []) (nd # head) st = (rel', head', st')"
      using Cons.prems(4) fc nd by simp
    have "nodes_in U (nd # head)" using Cons.prems(3) n nd by simp
    note IH = Cons.IH[OF Cons.prems(1) n(2) this run]
    show ?thesis using IH overrides_save[OF None, of ty l head] by (simp only: nd setting_map_Cons) (simp add: fun_upd_def)
  next
    case (Some a)
    then have run: "sub_modules rx ty nds True (rel @ [nd]) head (update_cat ty l a st) = (rel', head', st')"
      using Cons.prems(4) fc nd by simp
    have "overrides ty (update_cat ty l a (set_settings ty head st)) = (overrides ty (set_settings ty head st))(n \<mapsto> l)"
      using Cons.prems(1,3) Some by (intro overrides_update[of U] log_ok_settings) (auto simp: list_all_iff)
    moreover have "update_cat ty l a (set_settings ty head st) = set_settings ty head (update_cat ty l a st)"
      by (simp add: update_cat_def set_settings_def split: log_type.splits)
    moreover have "log_ok U (update_cat ty l a st)" using Cons.prems(1) by simp
    note IH = Cons.IH[OF this n(2) Cons.prems(3) run]
    ultimately show ?thesis using IH by (simp only: nd setting_map_Cons) (simp add: overrides_other)
  qed
qed

lemma all_modules_props:
  "cat_list (all_modules ty l st) = cat_list st" "settings ty' (all_modules ty l st) = settings ty' st"
  "cat_name (cats (all_modules ty l st) b) = cat_name (cats st b)"
  "level_of ty' (cats (all_modules ty l st) b) = (if b \<in> set (cat_list st) \<and> ty' = ty then l else level_of ty' (cats st b))"
proof -
  have "cat_list (foldl (\<lambda>s a. update_cat ty l a s) st as) = cat_list st
    \<and> settings ty' (foldl (\<lambda>s a. update_cat ty l a s) st as) = settings ty' st
    \<and> cat_name (cats (foldl (\<lambda>s a. update_cat ty l a s) st as) b) = cat_name (cats st b)
    \<and> level_of ty' (cats (foldl (\<lambda>s a. update_cat ty l a s) st as) b) = (if b \<in> set as \<and> ty' = ty then l else level_of ty' (cats st b))" for as
    by (induction as arbitrary: st) auto
  from this[of "cat_list st"] show
    "cat_list (all_modules ty l st) = cat_list st" "settings ty' (all_modules ty l st) = settings ty' st"
    "cat_name (cats (all_modules ty l st) b) = cat_name (cats st b)"
    "level_of ty' (cats (all_modules ty l st) b) = (if b \<in> set (cat_list st) \<and> ty' = ty then l else level_of ty' (cats st b))"
    by (simp_all add: all_modules_def)
qed

lemma overrides_all:
  "overrides ty (all_modules ty l st) = (\<lambda>n. if named_cat st n \<noteq> None then Some l else overrides ty st n)"
  "ty' \<noteq> ty \<Longrightarrow> overrides ty' (all_modules ty l st) = overrides ty' st"
proof -
  have nc: "named_cat (all_modules ty l st) n = named_cat st n" for n
    by (simp add: named_cat_def all_modules_props)
  show "overrides ty (all_modules ty l st) = (\<lambda>n. if named_cat st n \<noteq> None then Some l else overrides ty st n)"
    using named_cat_Some by (fastforce simp: overrides_def nc all_modules_props split: option.split)
  show "ty' \<noteq> ty \<Longrightarrow> overrides ty' (all_modules ty l st) = overrides ty' st"
    by (auto simp: overrides_def nc all_modules_props fun_eq_iff split: option.split)
qed

lemma log_ok_all [simp]: "log_ok U (all_modules ty l st) \<longleftrightarrow> log_ok U st"
  by (simp add: log_ok_def all_modules_props)

text \<open>The levels by name after a list of settings.\<close>

definition settings_effect :: "log_state \<Rightarrow> log_setting list \<Rightarrow> (string \<Rightarrow> int option) \<Rightarrow> string \<Rightarrow> int option" where
  "settings_effect st nodes m =
     (case nodes of
        [] \<Rightarrow> m
      | (l, n) # nds \<Rightarrow>
          if n = ''all'' then (\<lambda>k. if named_cat st k \<noteq> None then Some l else m k) ++ setting_map nds
          else m ++ setting_map nodes)"

lemma apply_settings_effect:
  fixes ty :: log_type
  assumes "plain_names rx U" "log_ok U st" "nodes_in U nodes"
  defines "st' \<equiv> snd (apply_settings rx ty nodes st)"
  shows "overrides ty st' = settings_effect st nodes (overrides ty st) \<and> log_ok U st' \<and> cat_list st' = cat_list st
    \<and> (\<forall>ty'. ty' \<noteq> ty \<longrightarrow> overrides ty' st' = overrides ty' st)"
proof (cases nodes)
  case Nil
  then show ?thesis using assms(2) by (simp add: st'_def apply_settings_def settings_effect_def)
next
  case (Cons nd nds)
  obtain l n where nd: "nd = (l, n)" by (cases nd)
  have all: "rx n ''all'' \<longleftrightarrow> n = ''all''" using assms(1,3) Cons nd by (auto simp: plain_names_def)
  have same: "set_settings ty (settings ty s) s = s" for s
    by (cases ty) (simp_all add: set_settings_def settings_def)
  have hd: "nodes_in U (settings ty st)" using assms(2) by (simp add: log_ok_def list_all_iff)
  show ?thesis
  proof (cases "n = ''all''")
    case True
    obtain rel' head' s' where run: "sub_modules rx ty nds False [nd] (settings ty st) (all_modules ty l st) = (rel', head', s')"
      by (metis prod_cases3)
    have "log_ok U (all_modules ty l st)" using assms(2) by simp
    note * = sub_modules_overrides[OF assms(1) this _ hd run]
    have "st' = set_settings ty head' s'"
      using run all True nd by (simp add: st'_def apply_settings_def Cons)
    moreover have "set_settings ty (settings ty st) (all_modules ty l st) = all_modules ty l st"
      using same[of "all_modules ty l st"] by (simp add: all_modules_props)
    ultimately show ?thesis
      using * assms(3) Cons nd True by (simp add: settings_effect_def overrides_all all_modules_props)
  next
    case False
    obtain rel' head' s' where run: "sub_modules rx ty nodes False [] (settings ty st) st = (rel', head', s')"
      by (metis prod_cases3)
    note * = sub_modules_overrides[OF assms(1,2,3) hd run]
    have "st' = set_settings ty head' s'"
      using run all False nd by (simp add: st'_def apply_settings_def Cons)
    then show ?thesis using * Cons nd False by (simp add: settings_effect_def same)
  qed
qed

lemma setting_nodes_in: "list_all (setting_ok rc U) ss \<Longrightarrow> nodes_in U (setting_nodes ss)"
  by (auto simp: setting_nodes_def list_all_iff)

lemma settings_by_name:
  assumes "plain_names rx U" "log_ok U st" "list_all (setting_ok rc U) ss"
    "st' = snd (get_setting_from_string rc rx ty (settings_text ss) st)"
  shows "overrides ty st' = settings_effect st (setting_nodes ss) (overrides ty st) \<and> log_ok U st'
    \<and> cat_list st' = cat_list st \<and> (\<forall>ty'. ty' \<noteq> ty \<longrightarrow> overrides ty' st' = overrides ty' st)"
  using apply_settings_effect[OF assms(1,2) setting_nodes_in[OF assms(3)]]
  by (simp add: assms(4) get_setting_from_string_def parse_settings_text[OF assms(3)])

text \<open>Plain searching, as the C library does for a pattern without special characters.\<close>

definition search :: "string \<Rightarrow> string \<Rightarrow> bool" where "search p s \<longleftrightarrow> strstr s p \<noteq> None"

text \<open>
  What settings do for any patterns: one claims the first registered category whose name it is found
  in; one that is found in none is saved for categories that register later, before the ones saved so far.
\<close>

definition claims :: "(string \<Rightarrow> string \<Rightarrow> bool) \<Rightarrow> log_state \<Rightarrow> string \<Rightarrow> nat \<Rightarrow> bool" where
  "claims rx st p a \<longleftrightarrow> (case dropWhile (\<lambda>b. \<not> rx p (cat_name (cats st b))) (cat_list st) of [] \<Rightarrow> False | b # _ \<Rightarrow> b = a)"

definition unclaimed :: "(string \<Rightarrow> string \<Rightarrow> bool) \<Rightarrow> log_state \<Rightarrow> string \<Rightarrow> bool" where
  "unclaimed rx st p \<longleftrightarrow> list_all (\<lambda>b. \<not> rx p (cat_name (cats st b))) (cat_list st)"

text \<open>The level of a category after the settings: that of the last one that claims it.\<close>

definition last_claim :: "(string \<Rightarrow> string \<Rightarrow> bool) \<Rightarrow> log_state \<Rightarrow> log_setting list \<Rightarrow> nat \<Rightarrow> int \<Rightarrow> int" where
  "last_claim rx st nodes a old = (case filter (\<lambda>nd. claims rx st (snd nd) a) nodes of [] \<Rightarrow> old | xs \<Rightarrow> fst (last xs))"

definition is_for_all :: "(string \<Rightarrow> string \<Rightarrow> bool) \<Rightarrow> log_setting list \<Rightarrow> bool" where
  "is_for_all rx nodes \<longleftrightarrow> nodes \<noteq> [] \<and> rx (snd (hd nodes)) ''all''"

definition single_settings :: "(string \<Rightarrow> string \<Rightarrow> bool) \<Rightarrow> log_setting list \<Rightarrow> log_setting list" where
  "single_settings rx nodes = (if is_for_all rx nodes then tl nodes else nodes)"

lemma find_cat_claims: "find_cat rx p st = Some a \<Longrightarrow> claims rx st p b \<longleftrightarrow> b = a"
  and find_cat_unclaimed: "find_cat rx p st = None \<longleftrightarrow> unclaimed rx st p"
proof -
  have "find Q xs = (case dropWhile (\<lambda>x. \<not> Q x) xs of [] \<Rightarrow> None | x # _ \<Rightarrow> Some x)" for Q and xs :: "nat list"
    by (induction xs) auto
  from this[of "\<lambda>b. rx p (cat_name (cats st b))" "cat_list st"]
  show "find_cat rx p st = Some a \<Longrightarrow> claims rx st p b \<longleftrightarrow> b = a"
    unfolding find_cat_def claims_def by (auto split: list.splits simp del: dropWhile_eq_Nil_conv)
  show "find_cat rx p st = None \<longleftrightarrow> unclaimed rx st p"
    by (auto simp: find_cat_def unclaimed_def find_None_iff list_all_iff)
qed

lemma unclaimed_claims: "unclaimed rx st p \<Longrightarrow> \<not> claims rx st p a"
proof -
  assume "unclaimed rx st p"
  then have "dropWhile (\<lambda>b. \<not> rx p (cat_name (cats st b))) (cat_list st) = []" by (simp add: unclaimed_def list_all_iff)
  then show ?thesis by (simp only: claims_def list.case simp_thms)
qed

lemma last_claim_Cons:
  "last_claim rx st (nd # nds) a old = last_claim rx st nds a (if claims rx st (snd nd) a then fst nd else old)"
  by (auto simp: last_claim_def split: list.split)

lemma claims_names:
  assumes "cat_list st' = cat_list st" "\<And>b. cat_name (cats st' b) = cat_name (cats st b)"
  shows "claims rx st' = claims rx st" "unclaimed rx st' = unclaimed rx st" "last_claim rx st' = last_claim rx st"
    "find_cat rx p st' = find_cat rx p st"
  by (simp_all add: claims_def unclaimed_def last_claim_def find_cat_def assms fun_eq_iff)

lemma sub_modules_claims:
  assumes "sub_modules rx ty nodes prev rel head st = (rel', head', st')"
  shows "head' = rev (filter (\<lambda>nd. unclaimed rx st (snd nd)) nodes) @ head \<and> cat_list st' = cat_list st
    \<and> level_of ty (cats st' a) = last_claim rx st nodes a (level_of ty (cats st a))
    \<and> (\<forall>ty'. ty' \<noteq> ty \<longrightarrow> level_of ty' (cats st' a) = level_of ty' (cats st a)) \<and> (\<forall>ty'. settings ty' st' = settings ty' st)"
  using assms
proof (induction nodes arbitrary: prev rel head st)
  case Nil
  then show ?case by (simp add: last_claim_def)
next
  case (Cons nd nds)
  show ?case
  proof (cases "find_cat rx (snd nd) st")
    case None
    have u: "unclaimed rx st (snd nd)" using None find_cat_unclaimed by blast
    have run: "sub_modules rx ty nds prev (if prev then rel else []) (nd # head) st = (rel', head', st')"
      using Cons.prems None by simp
    show ?thesis using Cons.IH[OF run] u unclaimed_claims[OF u, of a] by (simp only: last_claim_Cons) simp
  next
    case (Some b)
    let ?s = "update_cat ty (fst nd) b st"
    have run: "sub_modules rx ty nds True (rel @ [nd]) head ?s = (rel', head', st')"
      using Cons.prems Some by simp
    have u: "\<not> unclaimed rx st (snd nd)" using Some find_cat_unclaimed[of rx "snd nd" st] by auto
    have n: "unclaimed rx ?s = unclaimed rx st" "last_claim rx ?s = last_claim rx st" by (rule claims_names; simp)+
    have l: "level_of ty (cats ?s a) = (if claims rx st (snd nd) a then fst nd else level_of ty (cats st a))"
      using find_cat_claims[OF Some, of a] by simp
    show ?thesis using Cons.IH[OF run] u unfolding n l last_claim_Cons by simp
  qed
qed

lemma apply_settings_claims:
  fixes ty :: log_type and st :: log_state and rx :: "string \<Rightarrow> string \<Rightarrow> bool"
  defines "st' nodes \<equiv> snd (apply_settings rx ty nodes st)"
  shows "a \<in> set (cat_list st) \<Longrightarrow> level_of ty (cats (st' nodes) a)
      = last_claim rx st (single_settings rx nodes) a (if is_for_all rx nodes then fst (hd nodes) else level_of ty (cats st a))"
    and "settings ty (st' nodes) = rev (filter (\<lambda>nd. unclaimed rx st (snd nd)) (single_settings rx nodes)) @ settings ty st"
    and "ty' \<noteq> ty \<Longrightarrow> settings ty' (st' nodes) = settings ty' st \<and> level_of ty' (cats (st' nodes) a) = level_of ty' (cats st a)"
    and "cat_list (st' nodes) = cat_list st"
proof -
  define st0 where "st0 = (if is_for_all rx nodes then all_modules ty (fst (hd nodes)) st else st)"
  obtain prev rel where run: "\<exists>rel' head' s. sub_modules rx ty (single_settings rx nodes) prev rel (settings ty st) st0 = (rel', head', s)
      \<and> (nodes \<noteq> [] \<longrightarrow> st' nodes = set_settings ty head' s)"
  proof (cases nodes)
    case Nil
    then show thesis using that[of False "[]"] by (simp add: single_settings_def is_for_all_def)
  next
    case (Cons nd nds)
    then show thesis
      using that[of False "if rx (snd nd) ''all'' then [nd] else []"]
      by (auto simp: st'_def apply_settings_def st0_def single_settings_def is_for_all_def Let_def split: prod.split)
  qed
  then obtain rel' head' s where r: "sub_modules rx ty (single_settings rx nodes) prev rel (settings ty st) st0 = (rel', head', s)"
    "nodes \<noteq> [] \<Longrightarrow> st' nodes = set_settings ty head' s" by blast
  note c = sub_modules_claims[OF r(1), of a]
  have n: "claims rx st0 = claims rx st" "unclaimed rx st0 = unclaimed rx st" "last_claim rx st0 = last_claim rx st"
    by (rule claims_names; simp add: st0_def all_modules_props)+
  have n2: "cat_list st0 = cat_list st" "settings t st0 = settings t st" for t
    by (simp_all add: st0_def all_modules_props)
  have e: "nodes = [] \<Longrightarrow> st' nodes = st" by (simp add: st'_def apply_settings_def)
  have l0: "level_of t (cats st0 a) = (if is_for_all rx nodes \<and> a \<in> set (cat_list st) \<and> t = ty then fst (hd nodes) else level_of t (cats st a))" for t
    by (simp add: st0_def all_modules_props)
  show "a \<in> set (cat_list st) \<Longrightarrow> level_of ty (cats (st' nodes) a)
      = last_claim rx st (single_settings rx nodes) a (if is_for_all rx nodes then fst (hd nodes) else level_of ty (cats st a))"
    using c r(2) e unfolding n n2 l0
    by (cases "nodes = []") (simp_all add: last_claim_def single_settings_def is_for_all_def)
  show "settings ty (st' nodes) = rev (filter (\<lambda>nd. unclaimed rx st (snd nd)) (single_settings rx nodes)) @ settings ty st"
    using c r(2) e unfolding n n2 by (cases "nodes = []") (simp_all add: single_settings_def is_for_all_def)
  show "ty' \<noteq> ty \<Longrightarrow> settings ty' (st' nodes) = settings ty' st \<and> level_of ty' (cats (st' nodes) a) = level_of ty' (cats st a)"
    using c r(2) e unfolding n n2 l0 by (cases "nodes = []") simp_all
  show "cat_list (st' nodes) = cat_list st"
    using c r(2) e unfolding n n2 by (cases "nodes = []") simp_all
qed

text \<open>C15: What a string of settings \<open>name:level,name:level,...\<close> does, for any names that \<open>regcomp\<close> accepts as regular
  expressions, of any meaning, without a colon and below 256 characters. A first name that is found in the word \<open>all\<close>
  gives its level to every registered category. Each other name claims the first registered category whose name it is
  found in; a category has the level of the last setting that claims it, else the one of \<open>all\<close>, else its own. The
  settings that claim none are saved in front of those saved before, the last one first, for categories that register later.
  Levels and settings of the other kind (debug or trace) stay. If moreover all names in use - of the settings, of those
  saved, of the categories, and the word \<open>all\<close> - are plain, each as a pattern found in none of them but itself, and no two
  categories share one, then the settings are a map: each name in them has the level behind it, the last one if it occurs
  twice, after a leading \<open>all\<close> every registered category has its level, all others have what they had.\<close>

theorem settings_refine_levels:
  assumes "list_all (setting_ok rc UNIV) ss" "st' = snd (get_setting_from_string rc rx ty (settings_text ss) st)" "nodes = setting_nodes ss"
  shows "(\<forall>a. a \<in> set (cat_list st) \<longrightarrow> level_of ty (cats st' a)
        = last_claim rx st (single_settings rx nodes) a (if is_for_all rx nodes then fst (hd nodes) else level_of ty (cats st a)))
    \<and> settings ty st' = rev (filter (\<lambda>nd. unclaimed rx st (snd nd)) (single_settings rx nodes)) @ settings ty st
    \<and> cat_list st' = cat_list st
    \<and> (\<forall>ty' a. ty' \<noteq> ty \<longrightarrow> settings ty' st' = settings ty' st \<and> level_of ty' (cats st' a) = level_of ty' (cats st a))
    \<and> (plain_names rx U \<and> log_ok U st \<and> fst ` set ss \<subseteq> U \<longrightarrow> overrides ty st' = settings_effect st nodes (overrides ty st)
        \<and> (\<forall>ty'. ty' \<noteq> ty \<longrightarrow> overrides ty' st' = overrides ty' st) \<and> log_ok U st')"
proof -
  have st': "st' = snd (apply_settings rx ty nodes st)"
    by (simp add: assms(2,3) get_setting_from_string_def parse_settings_text[OF assms(1)])
  have "fst ` set ss \<subseteq> U \<Longrightarrow> list_all (setting_ok rc U) ss" using assms(1) by (fastforce simp: list_all_iff)
  then have "plain_names rx U \<and> log_ok U st \<and> fst ` set ss \<subseteq> U \<longrightarrow> overrides ty st' = settings_effect st nodes (overrides ty st)
      \<and> (\<forall>ty'. ty' \<noteq> ty \<longrightarrow> overrides ty' st' = overrides ty' st) \<and> log_ok U st'"
    using settings_by_name[of rx U st rc ss st' ty] assms(2,3) by blast
  then show ?thesis using apply_settings_claims[where nodes = nodes and rx = rx and ty = ty and st = st] unfolding st' by blast
qed

lemma log_start_ok: "''default'' \<in> U \<Longrightarrow> log_ok U (log_start names file)"
  by (auto simp: log_ok_def log_start_def settings_def split: log_type.split)

definition demo_names :: "string set" where "demo_names = {''all'', ''default'', ''net'', ''wifi''}"

lemma demo_plain: "plain_names search demo_names"
  by (simp add: plain_names_def demo_names_def search_def)

text \<open>Names that contain each other, and plain ones.\<close>

theorem settings_refine_levels_witness:
  "level_of AML_DEBUG_LOG (cats (snd (get_setting_from_string (\<lambda>_. True) search AML_DEBUG_LOG
      (settings_text [(''net'', 4), (''def'', 2), (''default'', 3)]) (log_start (\<lambda>_. ''net'') None))) AML_LOG_DEFAULT) = 3
   \<and> overrides AML_DEBUG_LOG (snd (get_setting_from_string (\<lambda>_. True) search AML_DEBUG_LOG
      (settings_text [(''all'', 1), (''net'', 4)]) (log_start (\<lambda>_. ''net'') None))) ''net'' = Some 4"
proof
  let ?ss = "[(''net'', 4), (''def'', 2), (''default'', 3)] :: (string \<times> nat) list"
  from settings_refine_levels[of "\<lambda>_. True" ?ss, OF _ refl refl, where rx = search and ty = AML_DEBUG_LOG and st = "log_start (\<lambda>_. ''net'') None"]
  show "level_of AML_DEBUG_LOG (cats (snd (get_setting_from_string (\<lambda>_. True) search AML_DEBUG_LOG
      (settings_text ?ss) (log_start (\<lambda>_. ''net'') None))) AML_LOG_DEFAULT) = 3"
    by (auto simp: log_start_def last_claim_def single_settings_def is_for_all_def setting_nodes_def claims_def search_def
        simp del: settings_text.simps)
  have "log_ok demo_names (log_start (\<lambda>_. ''net'') None)" by (rule log_start_ok) (simp add: demo_names_def)
  then show "overrides AML_DEBUG_LOG (snd (get_setting_from_string (\<lambda>_. True) search AML_DEBUG_LOG
      (settings_text [(''all'', 1), (''net'', 4)]) (log_start (\<lambda>_. ''net'') None))) ''net'' = Some 4"
    using settings_refine_levels[of "\<lambda>_. True" "[(''all'', 1), (''net'', 4)]", OF _ refl refl, where rx = search and ty = AML_DEBUG_LOG and st = "log_start (\<lambda>_. ''net'') None" and U = demo_names]
      demo_plain by (auto simp: demo_names_def settings_effect_def setting_nodes_def simp del: settings_text.simps)
qed

section \<open>Registering later\<close>

lemma get_level_threshold:
  assumes "plain_names rx U" "log_ok U st" "n \<in> U" "named_cat st n = None"
  shows "get_level rx ty st n = threshold ty st n"
proof -
  have "find (\<lambda>(l, p). rx p n) (settings ty st) = find (\<lambda>nd. snd nd = n) (settings ty st)"
  proof (rule find_cong_set)
    fix nd assume "nd \<in> set (settings ty st)"
    then have "snd nd \<in> U" using assms(2) by (auto simp: log_ok_def)
    then show "(case nd of (l, p) \<Rightarrow> rx p n) = (snd nd = n)"
      using assms(1,3) by (simp add: plain_names_def split_def)
  qed
  then show ?thesis using assms(4)
    by (auto simp: get_level_def threshold_def overrides_def split: option.split)
qed

lemma get_level_cong:
  "settings ty st' = settings ty st \<Longrightarrow> level_of ty (cats st' AML_LOG_DEFAULT) = level_of ty (cats st AML_LOG_DEFAULT)
    \<Longrightarrow> get_level rx ty st' n = get_level rx ty st n"
  by (simp add: get_level_def split: option.split)

lemma aml_log_add_props:
  assumes "a \<noteq> AML_LOG_DEFAULT"
  shows "cat_list (aml_log_add rx a st) = a # cat_list st" "settings ty (aml_log_add rx a st) = settings ty st"
    "cat_name (cats (aml_log_add rx a st) b) = cat_name (cats st b)"
    "level_of ty (cats (aml_log_add rx a st) b) = (if b = a then get_level rx ty st (cat_name (cats st a)) else level_of ty (cats st b))"
proof -
  have s: "settings ty (st\<lparr>cat_list := l\<rparr>) = settings ty st" for l ty
    by (cases ty) (simp_all add: settings_def)
  have g: "get_level rx ty (st\<lparr>cat_list := l\<rparr>) n = get_level rx ty st n" for l ty n
    by (rule get_level_cong) (simp_all add: s)
  have g2: "get_level rx ty (update_cat ty' k a (st\<lparr>cat_list := l\<rparr>)) n = get_level rx ty st n" for l ty ty' k n
    by (rule get_level_cong) (use assms in \<open>simp_all add: s\<close>)
  show "cat_list (aml_log_add rx a st) = a # cat_list st" "settings ty (aml_log_add rx a st) = settings ty st"
    "cat_name (cats (aml_log_add rx a st) b) = cat_name (cats st b)"
    by (simp_all add: aml_log_add_def Let_def s)
  show "level_of ty (cats (aml_log_add rx a st) b) = (if b = a then get_level rx ty st (cat_name (cats st a)) else level_of ty (cats st b))"
    by (cases ty) (simp_all add: aml_log_add_def Let_def g g2)
qed

lemma add_keeps_levels:
  assumes "plain_names rx U" "log_ok U st" "a \<notin> set (cat_list st)" "cat_name (cats st a) \<in> U"
    and "named_cat st (cat_name (cats st a)) = None"
  shows "threshold ty (aml_log_add rx a st) m = threshold ty st m
    \<and> level_of ty (cats (aml_log_add rx a st) a) = threshold ty st (cat_name (cats st a)) \<and> log_ok U (aml_log_add rx a st)"
proof (intro conjI)
  let ?n = "cat_name (cats st a)"
  have a: "a \<noteq> AML_LOG_DEFAULT" using assms(2,3) unfolding log_ok_def by metis
  note p = aml_log_add_props[OF a]
  have lev: "get_level rx ty st ?n = threshold ty st ?n"
    by (rule get_level_threshold[OF assms(1,2,4,5)])
  then show "level_of ty (cats (aml_log_add rx a st) a) = threshold ty st ?n" by (simp add: p)
  have nc: "named_cat (aml_log_add rx a st) m = (if m = ?n then Some a else named_cat st m)"
    by (simp add: named_cat_def p)
  have "named_cat st m \<noteq> Some a" using named_cat_Some[of st m a] assms(3) by auto
  then have "overrides ty (aml_log_add rx a st) m = (if m = ?n then Some (threshold ty st ?n) else overrides ty st m)"
    by (auto simp: overrides_def nc p lev split: option.split)
  then show "threshold ty (aml_log_add rx a st) m = threshold ty st m"
    using a by (simp add: threshold_def p split: option.split)
  show "log_ok U (aml_log_add rx a st)"
    using assms(2-5) by (auto simp: log_ok_def p named_cat_None inj_on_def)
qed

text \<open>Registering a category gives it the levels that its name had before, and changes the levels of no
  name: whether a category registers before or after a setting makes no difference to it.\<close>

theorem aml_log_add_keeps_levels:
  assumes "plain_names rx U" "log_ok U st" "a \<notin> set (cat_list st)" "cat_name (cats st a) \<in> U"
    and "named_cat st (cat_name (cats st a)) = None"
  shows "threshold ty (aml_log_add rx a st) m = threshold ty st m
    \<and> level_of ty (cats (aml_log_add rx a st) a) = threshold ty st (cat_name (cats st a)) \<and> log_ok U (aml_log_add rx a st)"
  by (rule add_keeps_levels[OF assms])

theorem aml_log_add_keeps_levels_witness:
  "level_of AML_DEBUG_LOG (cats (aml_log_add search 7 (snd (get_setting_from_string (\<lambda>_. True) search AML_DEBUG_LOG
      (settings_text [(''net'', 4)]) (log_start (\<lambda>_. ''net'') None)))) 7) = 4"
proof -
  define st where "st = log_start (\<lambda>_. ''net'') None"
  define st' where "st' = snd (get_setting_from_string (\<lambda>_. True) search AML_DEBUG_LOG (settings_text [(''net'', 4)]) st)"
  have start: "log_ok demo_names st" unfolding st_def by (rule log_start_ok) (simp add: demo_names_def)
  have nodes: "list_all (setting_ok (\<lambda>_. True) demo_names) [(''net'', 4)]" by (simp add: demo_names_def)
  have ok: "log_ok demo_names st'" "overrides AML_DEBUG_LOG st' ''net'' = Some 4"
    using settings_by_name[OF demo_plain start nodes st'_def] by (simp_all add: settings_effect_def setting_nodes_def)
  have "st' = st\<lparr>g_log_setting := [(4, ''net'')]\<rparr>"
    unfolding st'_def get_setting_from_string_def parse_settings_text[OF nodes]
    by (simp add: setting_nodes_def apply_settings_def search_def find_cat_def st_def log_start_def set_settings_def settings_def)
  then have "7 \<notin> set (cat_list st')" "cat_name (cats st' 7) = ''net''" "named_cat st' ''net'' = None"
    by (simp_all add: st_def log_start_def AML_LOG_DEFINE_def named_cat_def)
  then show ?thesis
    using aml_log_add_keeps_levels[OF demo_plain ok(1), of 7 AML_DEBUG_LOG "''net''"] ok(2)
    unfolding st'_def[symmetric, unfolded st_def] by (simp add: demo_names_def threshold_def)
qed

section \<open>Restarts and repeated settings\<close>

lemma get_setting_frame:
  "config_file (snd (get_setting_from_string rc rx ty s st)) = config_file st"
  "level_str (snd (get_setting_from_string rc rx ty s st)) = level_str st"
proof -
  have upd: "config_file (update_cat ty l a st) = config_file st" "level_str (update_cat ty l a st) = level_str st" for l a st ty
    by (simp_all add: update_cat_def)
  have sets: "config_file (set_settings ty ns st) = config_file st" "level_str (set_settings ty ns st) = level_str st" for ns st
    by (cases ty; simp add: set_settings_def)+
  have sub: "config_file (snd (snd (sub_modules rx ty nodes prev rel head st))) = config_file st
    \<and> level_str (snd (snd (sub_modules rx ty nodes prev rel head st))) = level_str st" for nodes prev rel head st
    by (induction rx ty nodes prev rel head st rule: sub_modules.induct) (auto simp: upd split: option.split)
  have all: "config_file (foldl (\<lambda>s a. update_cat ty l a s) st as) = config_file st
    \<and> level_str (foldl (\<lambda>s a. update_cat ty l a s) st as) = level_str st" for l as st
    by (induction as arbitrary: st) (simp_all add: upd)
  have "config_file (snd (apply_settings rx ty nodes st)) = config_file st
    \<and> level_str (snd (apply_settings rx ty nodes st)) = level_str st" for nodes
    using sub all by (auto simp: apply_settings_def all_modules_def sets upd split_def Let_def split: list.split option.split)
  then show "config_file (snd (get_setting_from_string rc rx ty s st)) = config_file st"
    "level_str (snd (get_setting_from_string rc rx ty s st)) = level_str st"
    by (simp_all add: get_setting_from_string_def)
qed

text \<open>A string that is not taken for the current one is stored, written to the file and applied.\<close>

lemma set_from_string_new:
  assumes "\<not> strncmp_eq (level_str st) s (length s)" "length s < 256" "length (level_str st) = 256" "NUL \<notin> set s"
  obtains st1 where "aml_log_set_from_string rc rx ok s st = Some (snd (get_setting_from_string rc rx AML_DEBUG_LOG s st1))"
    "cats st1 = cats st" "cat_list st1 = cat_list st" "\<And>ty. settings ty st1 = settings ty st"
    "cstr (level_str st1) = s" "length (level_str st1) = 256" "ok \<Longrightarrow> config_file st1 = Some s"
proof
  let ?st1 = "aml_log_sync_config_file ok s (st\<lparr>level_str := strncpy (level_str st) s 256\<rparr>)"
  show "aml_log_set_from_string rc rx ok s st = Some (snd (get_setting_from_string rc rx AML_DEBUG_LOG s ?st1))"
    using assms by (simp add: aml_log_set_from_string_def Let_def)
  show "cstr (level_str ?st1) = s" using assms by (simp add: aml_log_sync_config_file_def cstr_strncpy_short)
qed (auto simp: aml_log_sync_config_file_def assms settings_def split: log_type.split)

lemma overrides_frame:
  assumes "cats st1 = cats st" "cat_list st1 = cat_list st" "\<And>ty. settings ty st1 = settings ty st"
  shows "overrides ty st1 = overrides ty st" "log_ok U st1 = log_ok U st" "named_cat st1 = named_cat st"
    "settings_effect st1 nodes = settings_effect st nodes"
proof -
  show n: "named_cat st1 = named_cat st" by (simp add: named_cat_def assms fun_eq_iff)
  show "overrides ty st1 = overrides ty st" by (simp add: overrides_def n assms fun_eq_iff split: option.split)
  show "log_ok U st1 = log_ok U st" by (simp add: log_ok_def assms)
  show "settings_effect st1 nodes = settings_effect st nodes" by (simp add: settings_effect_def n fun_eq_iff split: list.split)
qed

lemma log_level_strs_NUL: "l < 6 \<Longrightarrow> NUL \<notin> set (log_level_strs ! l) \<and> log_level_strs ! l \<noteq> []"
  by (drule less_6) (elim disjE; simp add: log_level_strs_def)

lemma settings_text_NUL: "list_all (setting_ok rc U) ss \<Longrightarrow> NUL \<notin> set (settings_text ss)"
  by (induction ss rule: settings_text.induct) (use log_level_strs_NUL in auto)

lemma settings_text_nonempty: "ss \<noteq> [] \<Longrightarrow> settings_text ss \<noteq> []"
  by (induction ss rule: settings_text.induct) auto

lemma set_from_string_effect:
  assumes "plain_names rx U" "log_ok U st" "list_all (setting_ok rc U) ss" "s = settings_text ss"
    and "\<not> strncmp_eq (level_str st) s (length s)" "length s < 256" "length (level_str st) = 256"
  obtains st' where "aml_log_set_from_string rc rx ok s st = Some st'"
    "overrides AML_DEBUG_LOG st' = settings_effect st (setting_nodes ss) (overrides AML_DEBUG_LOG st)" "log_ok U st'"
    "cstr (level_str st') = s" "length (level_str st') = 256" "ok \<Longrightarrow> config_file st' = Some s"
proof -
  obtain st1 where 1: "aml_log_set_from_string rc rx ok s st = Some (snd (get_setting_from_string rc rx AML_DEBUG_LOG s st1))"
    "cats st1 = cats st" "cat_list st1 = cat_list st" "\<And>ty. settings ty st1 = settings ty st"
    "cstr (level_str st1) = s" "length (level_str st1) = 256" "ok \<Longrightarrow> config_file st1 = Some s"
    using set_from_string_new[OF assms(5-7)] settings_text_NUL[OF assms(3)] assms(4) by metis
  note fr = overrides_frame[OF 1(2-4)]
  note eff = settings_by_name[OF assms(1) _ assms(3) refl, of st1 AML_DEBUG_LOG]
  show thesis
    using that[OF 1(1)] eff 1(5-7) assms(2) by (simp add: fr get_setting_frame flip: assms(4))
qed

text \<open>Settings survive a restart: a new process that finds the file written by
  \<open>aml_log_set_from_string\<close> starts its logging thread with the levels of those settings.\<close>

theorem settings_survive_restart:
  assumes "plain_names rx U" "log_ok U st" "''default'' \<in> U" "list_all (setting_ok rc U) ss" "ss \<noteq> []"
    and "length (settings_text ss) < 256" "length (level_str st) = 256"
    and "\<not> strncmp_eq (level_str st) (settings_text ss) (length (settings_text ss))"
  shows "\<exists>st1 st2. aml_log_set_from_string rc rx True (settings_text ss) st = Some st1
    \<and> aml_log_thread_start rc rx True (log_start names (config_file st1)) = Some st2
    \<and> overrides AML_DEBUG_LOG st2 = settings_effect (log_start names None) (setting_nodes ss) [''default'' \<mapsto> 1]"
proof -
  let ?s = "settings_text ss"
  let ?new = "log_start names (Some ?s)"
  obtain st1 where st1: "aml_log_set_from_string rc rx True ?s st = Some st1" "config_file st1 = Some ?s"
    using set_from_string_effect[OF assms(1,2,4) refl assms(8,6,7), of True] by metis
  have new: "\<not> strncmp_eq (level_str ?new) ?s (length ?s)" "length (level_str ?new) = 256"
    using settings_text_nonempty[OF assms(5)] settings_text_NUL[OF assms(4)]
    by (simp_all add: log_start_def strncmp_eq_def)
  obtain st2 where st2: "aml_log_set_from_string rc rx True ?s ?new = Some st2"
    "overrides AML_DEBUG_LOG st2 = settings_effect ?new (setting_nodes ss) (overrides AML_DEBUG_LOG ?new)"
    using set_from_string_effect[OF assms(1) log_start_ok[OF assms(3)] assms(4) refl new(1) assms(6) new(2), of True] by blast
  have "overrides AML_DEBUG_LOG ?new = [''default'' \<mapsto> 1]"
    by (rule ext) (simp add: overrides_def named_cat_def log_start_def settings_def level_of_def)
  moreover have "settings_effect ?new nodes = settings_effect (log_start names None) nodes" for nodes
    by (rule overrides_frame(4)) (simp_all add: log_start_def settings_def split: log_type.split)
  moreover have "aml_log_thread_start rc rx True ?new = Some st2"
    using st2(1) settings_text_nonempty[OF assms(5)] settings_text_NUL[OF assms(4)]
    by (simp add: aml_log_thread_start_def aml_log_parse_def log_start_def)
  ultimately show ?thesis using st1 st2(2) by metis
qed

lemma demo_new:
  "list_all (setting_ok (\<lambda>_. True) demo_names) ss \<Longrightarrow> ss \<noteq> []
    \<Longrightarrow> \<not> strncmp_eq (level_str (log_start names file)) (settings_text ss) (length (settings_text ss))"
  using settings_text_nonempty[of ss] settings_text_NUL[of "\<lambda>_. True" demo_names ss]
  by (simp add: log_start_def strncmp_eq_def)

theorem settings_survive_restart_witness:
  "\<exists>st1 st2. aml_log_set_from_string (\<lambda>_. True) search True (settings_text [(''all'', 2), (''net'', 4)]) (log_start (\<lambda>_. ''net'') None) = Some st1
    \<and> aml_log_thread_start (\<lambda>_. True) search True (log_start (\<lambda>_. ''net'') (config_file st1)) = Some st2
    \<and> overrides AML_DEBUG_LOG st2 = settings_effect (log_start (\<lambda>_. ''net'') None) [(2, ''all''), (4, ''net'')] [''default'' \<mapsto> 1]"
proof -
  let ?st = "log_start (\<lambda>_. ''net'') None" and ?s = "settings_text [(''all'', 2), (''net'', 4)]"
  have "length ?s < 256" "length (level_str ?st) = 256" "\<not> strncmp_eq (level_str ?st) ?s (length ?s)"
    using demo_new[of "[(''all'', 2), (''net'', 4)]"] by (simp_all add: log_level_strs_def log_start_def demo_names_def)
  then show ?thesis
    using settings_survive_restart[OF demo_plain log_start_ok, of "\<lambda>_. True" "[(''all'', 2), (''net'', 4)]" "\<lambda>_. ''net''" None "\<lambda>_. ''net''"]
    by (simp add: demo_names_def setting_nodes_def del: settings_text.simps)
qed

section \<open>Settings that do not do what they say\<close>

text \<open>A string that is the start of the current one is ignored: after "all:l1,name:l2" the string "all:l1",
  which would set every registered category to l1, leaves the category at l2.\<close>

theorem shorter_setting_ignored:
  assumes "plain_names rx U" "log_ok U st" "list_all (setting_ok rc U) [(''all'', l1), (n, l2)]"
    and "length (level_str st) = 256"
    and "\<not> strncmp_eq (level_str st) (settings_text [(''all'', l1), (n, l2)]) (length (settings_text [(''all'', l1), (n, l2)]))"
    and "length (settings_text [(''all'', l1), (n, l2)]) < 256"
  shows "\<exists>st1. aml_log_set_from_string rc rx ok (settings_text [(''all'', l1), (n, l2)]) st = Some st1
    \<and> aml_log_set_from_string rc rx ok (settings_text [(''all'', l1)]) st1 = Some st1
    \<and> threshold AML_DEBUG_LOG st1 n = int l2"
proof -
  let ?s = "settings_text [(''all'', l1), (n, l2)]" and ?t = "settings_text [(''all'', l1)]"
  obtain st1 where st1: "aml_log_set_from_string rc rx ok ?s st = Some st1"
    "overrides AML_DEBUG_LOG st1 = settings_effect st (setting_nodes [(''all'', l1), (n, l2)]) (overrides AML_DEBUG_LOG st)"
    "cstr (level_str st1) = ?s" "length (level_str st1) = 256"
    using set_from_string_effect[OF assms(1-3) refl assms(5,6,4), of ok] by metis
  have "NUL \<notin> set ?t" using assms(3) by (intro settings_text_NUL[of rc U]) simp
  then have "strncmp_eq (level_str st1) ?t (length ?t)"
    by (simp add: strncmp_eq_def st1(3) del: settings_text.simps(2,3)) simp
  moreover have "length ?t < 256" using assms(6) by simp
  ultimately have "aml_log_set_from_string rc rx ok ?t st1 = Some st1"
    by (simp add: aml_log_set_from_string_def st1(4))
  moreover have "threshold AML_DEBUG_LOG st1 n = int l2"
    by (simp add: threshold_def st1(2) settings_effect_def setting_nodes_def)
  ultimately show ?thesis using st1(1) by blast
qed

theorem shorter_setting_ignored_witness:
  "\<exists>st1. aml_log_set_from_string (\<lambda>_. True) search True (settings_text [(''all'', 1), (''net'', 4)]) (log_start (\<lambda>_. ''net'') None) = Some st1
    \<and> aml_log_set_from_string (\<lambda>_. True) search True (settings_text [(''all'', 1)]) st1 = Some st1
    \<and> threshold AML_DEBUG_LOG st1 ''net'' = 4"
proof -
  let ?st = "log_start (\<lambda>_. ''net'') None" and ?s = "settings_text [(''all'', 1), (''net'', 4)]"
  have "length ?s < 256" "length (level_str ?st) = 256" "\<not> strncmp_eq (level_str ?st) ?s (length ?s)"
    using demo_new[of "[(''all'', 1), (''net'', 4)]"] by (simp_all add: log_level_strs_def log_start_def demo_names_def)
  then show ?thesis
    using shorter_setting_ignored[OF demo_plain log_start_ok, of "\<lambda>_. True" 1 "''net''" 4 "\<lambda>_. ''net''" None True]
    by (simp add: demo_names_def del: settings_text.simps)
qed

text \<open>A first setting whose pattern is found in the word "all", for example for a category named "a" or "al",
  is applied to every registered category.\<close>

theorem pattern_in_all_sets_every_category:
  assumes "rx n ''all''" "setting_ok rc U (n, l)" "a \<in> set (cat_list st)"
  shows "level_of ty (cats (snd (get_setting_from_string rc rx ty (settings_text [(n, l)]) st)) a) = int l"
  using assms parse_settings_text[of rc U "[(n, l)]"]
  by (simp add: get_setting_from_string_def setting_nodes_def apply_settings_def all_modules_props del: settings_text.simps)

theorem pattern_in_all_sets_every_category_witness:
  "level_of AML_DEBUG_LOG (cats (snd (get_setting_from_string (\<lambda>_. True) search AML_DEBUG_LOG (settings_text [(''al'', 4)])
     (log_start (\<lambda>_. ''al'') None))) AML_LOG_DEFAULT) = 4"
  using pattern_in_all_sets_every_category[of search "''al''" "\<lambda>_. True" UNIV 4 AML_LOG_DEFAULT "log_start (\<lambda>_. ''al'') None" AML_DEBUG_LOG]
  by (simp add: search_def log_start_def)

text \<open>
  The node of a leading \<open>all\<close> is unlinked with the first node that is saved and so never released,
  unless a node before that one matched a category.
\<close>

lemma all_node_leaks:
  assumes "rx ''all'' ''all''" "find_cat rx n st = None"
  shows "fst (apply_settings rx ty [(l1, ''all''), (l2, n)] st) = []"
proof -
  have "find_cat rx n (all_modules ty l1 st) = find_cat rx n st"
    by (simp add: find_cat_def all_modules_props)
  then show ?thesis using assms by (simp add: apply_settings_def)
qed

end
