(* ===== verification/AmlLogOut.thy ===== *)
theory AmlLogOut
  imports AmlLog "HOL-Library.Signed_Division"
begin

text \<open>
  \<open>aml_log/aml_log.c\<close>, second part: messages, the rotation of the log file, traces. A stream of
  the C library is the name of its file and the text still in its buffer; how much of the buffer
  a call of \<open>fprintf\<close> passes on to the file is an argument. The command that copies the log is run
  by a shell outside the repository, the parameter \<open>shell\<close>: what the command does to the files.
\<close>

section \<open>Output\<close>

type_synonym files = "string \<Rightarrow> string option"

record out_state =
  files :: files
  log_fp :: "(string \<times> string) option"
  std_out :: string
  log_current_file :: "string option"
  log_rotate_file :: "string option"
  log_rotate_bytes :: u32
  total_len :: u32

definition aml_log_set_output_file :: "(string \<times> string) option \<Rightarrow> out_state \<Rightarrow> out_state" where
  "aml_log_set_output_file fp ou = ou\<lparr>log_fp := fp\<rparr>"


definition content :: "files \<Rightarrow> string \<Rightarrow> string" where
  "content fs f = (case fs f of None \<Rightarrow> [] | Some s \<Rightarrow> s)"

text \<open>\<open>fprintf\<close> to \<open>log_fp ?: stdout\<close>; \<open>k\<close> characters of the buffer go to the file.\<close>

definition log_fprintf :: "nat \<Rightarrow> string \<Rightarrow> out_state \<Rightarrow> out_state" where
  "log_fprintf k txt ou =
     (case log_fp ou of
        None \<Rightarrow> ou\<lparr>std_out := std_out ou @ txt\<rparr>
      | Some (f, buf) \<Rightarrow>
          ou\<lparr>files := (files ou)(f \<mapsto> content (files ou) f @ take k (buf @ txt)), log_fp := Some (f, drop k (buf @ txt))\<rparr>)"

text \<open>
  \<open>aml_log_do_rotate\<close>. The buffer is written by \<open>fseek\<close>, after the copy and the truncation.
\<close>

definition aml_log_do_rotate :: "(string \<Rightarrow> files \<Rightarrow> files) \<Rightarrow> int \<Rightarrow> out_state \<Rightarrow> out_state" where
  "aml_log_do_rotate shell len ou =
     (let total = total_len ou + word_of_int len; o1 = ou\<lparr>total_len := total\<rparr> in
      if total \<ge> log_rotate_bytes ou then
        (case (log_fp ou, log_rotate_file ou, log_current_file ou) of
           (Some (f, buf), Some rot, Some cur) \<Rightarrow>
             let cmd = snprintf_s 255 (''cp -f '' @ cur @ '' '' @ rot);
                 fs = shell cmd (files ou)
             in o1\<lparr>files := fs(f \<mapsto> buf), log_fp := Some (f, []), total_len := 0\<rparr>
         | _ \<Rightarrow> o1)
      else o1)"

text \<open>The end of \<open>aml_log_msg\<close>.\<close>

definition log_write :: "(string \<Rightarrow> files \<Rightarrow> files) \<Rightarrow> nat \<Rightarrow> string \<Rightarrow> out_state \<Rightarrow> out_state" where
  "log_write shell k txt ou =
     (let o1 = log_fprintf k txt ou
      in if log_fp o1 \<noteq> None then aml_log_do_rotate shell (int (length txt)) o1 else o1)"

section \<open>Messages\<close>

text \<open>What a message takes from the system: the time, the program, process and thread.\<close>

record msg_env =
  ts_sec :: int
  ts_nsec :: int
  progname :: string
  pid :: int
  tid :: int

definition log_level_name :: "string list" where
  "log_level_name = [''ERR'', ''WARNING'', ''INFO'', ''DEBUG'', ''VERBOSE'', ''VV'', ''VVV'', [], [], []]"

definition pad6 :: "int \<Rightarrow> string" where
  "pad6 i = replicate (6 - length (pr_int i)) (CHR ''0'') @ pr_int i"

text \<open>The head of a line; \<^const>\<open>None\<close>: the level's name is read outside the table.\<close>

definition msg_head :: "msg_env \<Rightarrow> string \<Rightarrow> int \<Rightarrow> string \<Rightarrow> string \<Rightarrow> int \<Rightarrow> string option" where
  "msg_head e name level file func lineno =
     (if 0 \<le> level \<and> level < 10 then
        Some (pr_int (ts_sec e) @ ''.'' @ pad6 (ts_nsec e div 1000 mod 1000000) @ '' '' @ progname e @ ''['' @ pr_int (pid e) @ ''] ''
          @ name @ '' '' @ log_level_name ! nat level @ '' tid:'' @ pr_int (tid e) @ '' ('' @ file @ '' '' @ pr_int lineno @ '' '' @ func @ ''): '')
      else None)"

text \<open>
  \<open>aml_log_msg\<close> for the category at \<open>a\<close>; \<open>body\<close> is the formatted message. \<^const>\<open>None\<close>: the head
  does not fit into the buffer of 4096 bytes, or the level has no name. The logging thread, which
  the first message starts, runs \<open>aml_log_thread_start\<close> beside it.
\<close>

definition aml_log_msg :: "(string \<Rightarrow> string \<Rightarrow> bool) \<Rightarrow> (string \<Rightarrow> files \<Rightarrow> files) \<Rightarrow> nat \<Rightarrow> msg_env \<Rightarrow> nat \<Rightarrow> int
    \<Rightarrow> string \<Rightarrow> string \<Rightarrow> int \<Rightarrow> string \<Rightarrow> log_state \<times> out_state \<Rightarrow> (log_state \<times> out_state) option" where
  "aml_log_msg rx shell k e a level file func lineno body so =
     (let st = fst so; new = a \<notin> set (cat_list st); st1 = (if new then aml_log_add rx a st else st) in
      if new \<and> \<not> log_level (cats st1 a) > level then Some (st1, snd so)
      else (case msg_head e (cat_name (cats st1 a)) level file func lineno of
          None \<Rightarrow> None
        | Some head \<Rightarrow>
            if length head \<ge> 4096 then None
            else Some (st1, log_write shell k (head @ snprintf_s (4096 - length head) body) (snd so))))"

text \<open>The macro \<open>AML_LOG_CAT\<close>.\<close>

definition AML_LOG_CAT :: "(string \<Rightarrow> string \<Rightarrow> bool) \<Rightarrow> (string \<Rightarrow> files \<Rightarrow> files) \<Rightarrow> nat \<Rightarrow> msg_env \<Rightarrow> nat \<Rightarrow> int
    \<Rightarrow> string \<Rightarrow> string \<Rightarrow> int \<Rightarrow> string \<Rightarrow> log_state \<times> out_state \<Rightarrow> (log_state \<times> out_state) option" where
  "AML_LOG_CAT rx shell k e a level file func lineno body so =
     (if log_level (cats (fst so) a) > level then aml_log_msg rx shell k e a level file func lineno body so else Some so)"

section \<open>Which messages are printed\<close>

text \<open>The text of a message.\<close>

definition msg_text :: "msg_env \<Rightarrow> string \<Rightarrow> int \<Rightarrow> string \<Rightarrow> string \<Rightarrow> int \<Rightarrow> string \<Rightarrow> string" where
  "msg_text e name level file func lineno body =
     (let head = the (msg_head e name level file func lineno) in head @ snprintf_s (4096 - length head) body)"

text \<open>Categories that are not registered still have the level they are defined with.\<close>

definition fresh_cats :: "log_state \<Rightarrow> bool" where
  "fresh_cats st \<longleftrightarrow> (\<forall>a. a \<notin> set (cat_list st) \<longrightarrow> log_level (cats st a) = AML_LOG_LEVEL_INVALID)"

lemma fresh_cats_start: "fresh_cats (log_start names file)"
  by (simp add: fresh_cats_def log_start_def AML_LOG_DEFINE_def)

text \<open>A log statement prints its message exactly when the level of its category's name is above the
  message's, also when it is the first one of the category, which it then registers; the levels of all
  names stay the same. The text never exceeds the buffer.\<close>

theorem AML_LOG_CAT_prints_by_level:
  assumes "plain_names rx U" "log_ok U st" "fresh_cats st" "cat_name (cats st a) = n" "n \<in> U"
    and "a \<in> set (cat_list st) \<or> named_cat st n = None" "0 \<le> level" "level < 10"
    and "length (the (msg_head e n level file func lineno)) < 4096"
  shows "\<exists>st1. AML_LOG_CAT rx shell k e a level file func lineno body (st, ou) =
      Some (st1, if threshold AML_DEBUG_LOG st n > level then log_write shell k (msg_text e n level file func lineno body) ou else ou)
    \<and> (\<forall>m. threshold AML_DEBUG_LOG st1 m = threshold AML_DEBUG_LOG st m)
    \<and> length (msg_text e n level file func lineno body) < 4096"
proof -
  let ?t = "msg_text e n level file func lineno body"
  obtain head where head: "msg_head e n level file func lineno = Some head" "length head < 4096"
    using assms(7-9) by (auto simp: msg_head_def)
  have tx: "?t = head @ snprintf_s (4096 - length head) body" by (simp add: msg_text_def head Let_def)
  have len: "length ?t < 4096" using head(2) by (simp add: tx snprintf_s_def)
  have debug: "log_level c = level_of AML_DEBUG_LOG c" for c by (simp add: level_of_def)
  show ?thesis
  proof (cases "a \<in> set (cat_list st)")
    case True
    then obtain b where b: "named_cat st n = Some b" using assms(4) named_cat_None by (metis option.exhaust)
    then have "b = a" using named_cat_Some[OF b] True assms(2,4) by (auto simp: log_ok_def dest: inj_onD)
    then have "threshold AML_DEBUG_LOG st n = log_level (cats st a)"
      using b by (simp add: threshold_def overrides_def debug)
    then show ?thesis using True head len assms(4) by (simp add: AML_LOG_CAT_def aml_log_msg_def Let_def tx)
  next
    case False
    then have nc: "named_cat st n = None" using assms(6) by simp
    let ?st1 = "aml_log_add rx a st"
    have keep: "\<forall>m. threshold AML_DEBUG_LOG ?st1 m = threshold AML_DEBUG_LOG st m"
      "log_level (cats ?st1 a) = threshold AML_DEBUG_LOG st n"
      using add_keeps_levels[OF assms(1,2) False, of AML_DEBUG_LOG] assms(4,5) nc by (simp_all add: debug)
    have "a \<noteq> AML_LOG_DEFAULT" using False assms(2) unfolding log_ok_def by metis
    then have name: "cat_name (cats ?st1 a) = n" using assms(4) by (simp add: aml_log_add_props)
    have "log_level (cats st a) > level" using assms(3,8) False by (simp add: fresh_cats_def AML_LOG_LEVEL_INVALID_def)
    then show ?thesis
      using False keep head len by (simp add: AML_LOG_CAT_def aml_log_msg_def Let_def name tx)
  qed
qed

definition demo_env :: msg_env where
  "demo_env = \<lparr>ts_sec = 12, ts_nsec = 5000, progname = ''app'', pid = 7, tid = 8\<rparr>"

definition demo_out :: out_state where
  "demo_out = \<lparr>files = Map.empty, log_fp = None, std_out = [], log_current_file = None, log_rotate_file = None,
     log_rotate_bytes = 1048576, total_len = 0\<rparr>"

theorem AML_LOG_CAT_prints_by_level_witness:
  "\<exists>st1. AML_LOG_CAT search (\<lambda>_ fs. fs) 0 demo_env 3 0 ''f.c'' ''main'' 9 ''hi'' (log_start (\<lambda>_. ''net'') None, demo_out) =
      Some (st1, log_write (\<lambda>_ fs. fs) 0 (msg_text demo_env ''net'' 0 ''f.c'' ''main'' 9 ''hi'') demo_out)"
proof -
  have def: "''default'' \<in> demo_names" by (simp add: demo_names_def)
  have 1: "cat_name (cats (log_start (\<lambda>_. ''net'') None) 3) = ''net''" "named_cat (log_start (\<lambda>_. ''net'') None) ''net'' = None"
    "threshold AML_DEBUG_LOG (log_start (\<lambda>_. ''net'') None) ''net'' = 1"
    by (simp_all add: log_start_def AML_LOG_DEFINE_def named_cat_def threshold_def overrides_def settings_def level_of_def)
  have 2: "length (the (msg_head demo_env ''net'' 0 ''f.c'' ''main'' 9)) < 4096"
    by code_simp
  show ?thesis
    using AML_LOG_CAT_prints_by_level[OF demo_plain log_start_ok[OF def] fresh_cats_start 1(1) _ _ _ _ 2, of "\<lambda>_ fs. fs" 0 "''hi''" demo_out] 1
    by (auto simp: demo_names_def)
qed

section \<open>Rotation\<close>










section \<open>Traces\<close>

text \<open>
  The trace output: the text written to the JSON stream, if there is one; the counter of streams,
  globally and as the current thread last saw it; the depth of the thread's scopes.
\<close>

record trace_state =
  trace_json_fp :: "string option"
  global_trace_seq :: int
  trace_seq :: int
  sc_level :: int

definition aml_trace_set_json_output :: "string option \<Rightarrow> trace_state \<Rightarrow> trace_state" where
  "aml_trace_set_json_output fp t =
     t\<lparr>global_trace_seq := global_trace_seq t + 1, trace_json_fp := map_option (\<lambda>s. s @ ''['') fp\<rparr>"

text \<open>A quoted string and the text of a member.\<close>

definition quoted :: "string \<Rightarrow> string" where "quoted s = CHR 0x22 # s @ [CHR 0x22]"

definition member :: "string \<Rightarrow> string \<Rightarrow> string" where "member k v = quoted k @ '':'' @ v"

definition line_end :: string where "line_end = '','' @ [CHR 0x0A]"

definition trace_thread_name :: "msg_env \<Rightarrow> string \<Rightarrow> string" where
  "trace_thread_name e tname =
     ''{'' @ member ''name'' (quoted ''thread_name'') @ '','' @ member ''ph'' (quoted ''M'') @ '','' @ member ''pid'' (pr_int (pid e)) @ '',''
     @ member ''tid'' (pr_int (tid e)) @ '','' @ member ''args'' (''{'' @ member ''name'' (quoted tname) @ ''}'') @ ''}'' @ line_end"

text \<open>The thread's name goes first into a new stream.\<close>

definition trace_out :: "msg_env \<Rightarrow> string \<Rightarrow> string \<Rightarrow> trace_state \<Rightarrow> trace_state" where
  "trace_out e tname ev t =
     (case trace_json_fp t of
        None \<Rightarrow> t
      | Some s \<Rightarrow>
          if global_trace_seq t \<noteq> trace_seq t
          then t\<lparr>trace_seq := global_trace_seq t, trace_json_fp := Some (s @ trace_thread_name e tname @ ev)\<rparr>
          else t\<lparr>trace_json_fp := Some (s @ ev)\<rparr>)"

definition trace_event_text :: "msg_env \<Rightarrow> int \<Rightarrow> int \<Rightarrow> string \<Rightarrow> string \<Rightarrow> char \<Rightarrow> string \<Rightarrow> string \<Rightarrow> string" where
  "trace_event_text e cpu_sec cpu_nsec evcat evname evph evid body =
     ''{'' @ member ''name'' (quoted evname) @ '','' @ member ''cat'' (quoted evcat) @ '','' @ member ''ph'' (quoted [evph]) @ '',''
     @ member ''ts'' (pr_int (ts_sec e * 1000000 + ts_nsec e sdiv 1000)) @ '','' @ member ''tts'' (pr_int (cpu_sec * 1000000 + cpu_nsec sdiv 1000)) @ '',''
     @ member ''pid'' (pr_int (pid e)) @ '','' @ member ''tid'' (pr_int (tid e)) @ '','' @ member ''id'' (quoted evid) @ '',''
     @ member ''args'' (''{'' @ member ''text'' (quoted body) @ ''}'') @ ''}'' @ line_end"

text \<open>\<open>aml_trace_log\<close>; \<open>evid\<close> is the pointer as \<open>printf\<close> shows it.\<close>

definition aml_trace_log :: "(string \<Rightarrow> string \<Rightarrow> bool) \<Rightarrow> msg_env \<Rightarrow> int \<Rightarrow> int \<Rightarrow> string \<Rightarrow> nat \<Rightarrow> int \<Rightarrow> string \<Rightarrow> string \<Rightarrow> char
    \<Rightarrow> string \<Rightarrow> string \<Rightarrow> log_state \<times> trace_state \<Rightarrow> log_state \<times> trace_state" where
  "aml_trace_log rx e cpu_sec cpu_nsec tname a level evcat evname evph evid body s =
     (let st = fst s; new = a \<notin> set (cat_list st); st1 = (if new then aml_log_add rx a st else st) in
      if new \<and> \<not> trace_level (cats st1 a) > level then (st1, snd s)
      else (st1, trace_out e tname (trace_event_text e cpu_sec cpu_nsec evcat evname evph evid (snprintf_s 4096 body)) (snd s)))"

text \<open>A timer of a scope, as the macro \<open>AML_SCTIME_LOGCAT_\<close> starts it.\<close>

record scope_timer =
  tm_buf :: string
  start_sec :: int
  start_nsec :: int
  start_cpu_sec :: int
  start_cpu_nsec :: int
  tm_cat :: nat
  tm_file :: string
  tm_func :: string
  tm_level :: int
  tm_line :: int

definition start_scope_timer :: "msg_env \<Rightarrow> int \<Rightarrow> int \<Rightarrow> nat \<Rightarrow> int \<Rightarrow> string \<Rightarrow> string \<Rightarrow> int \<Rightarrow> string
    \<Rightarrow> log_state \<times> trace_state \<Rightarrow> scope_timer option \<times> trace_state" where
  "start_scope_timer e cpu_sec cpu_nsec a level file func line body s =
     (if trace_level (cats (fst s) a) > level
      then Some \<lparr>tm_buf = snprintf_s 256 body, start_sec = ts_sec e, start_nsec = ts_nsec e, start_cpu_sec = cpu_sec,
        start_cpu_nsec = cpu_nsec, tm_cat = a, tm_file = file, tm_func = func, tm_level = level, tm_line = line\<rparr>
      else None, (snd s)\<lparr>sc_level := sc_level (snd s) + 1\<rparr>)"

text \<open>\<open>(int)\<close> of a 64-bit value.\<close>

definition c_int :: "int \<Rightarrow> int" where "c_int i = sint (word_of_int i :: 32 word)"

definition scope_json :: "msg_env \<Rightarrow> int \<Rightarrow> int \<Rightarrow> string \<Rightarrow> scope_timer \<Rightarrow> string" where
  "scope_json e time_ns ttime_ns cat tm =
     ''{'' @ member ''name'' (quoted (tm_func tm)) @ '','' @ member ''cat'' (quoted cat) @ '','' @ member ''ph'' (quoted ''X'') @ '',''
     @ member ''ts'' (pr_int (start_sec tm * 1000000 + start_nsec tm sdiv 1000)) @ '',''
     @ member ''tts'' (pr_int (start_cpu_sec tm * 1000000 + start_cpu_nsec tm sdiv 1000)) @ '',''
     @ member ''dur'' (pr_int (c_int (time_ns sdiv 1000))) @ '','' @ member ''tdur'' (pr_int (c_int (ttime_ns sdiv 1000))) @ '',''
     @ member ''pid'' (pr_int (pid e)) @ '','' @ member ''tid'' (pr_int (tid e)) @ '',''
     @ member ''args'' (''{'' @ member ''text'' (quoted (tm_buf tm)) @ ''}'') @ ''}'' @ line_end"

definition scope_line :: "msg_env \<Rightarrow> int \<Rightarrow> int \<Rightarrow> string \<Rightarrow> scope_timer \<Rightarrow> string" where
  "scope_line e depth time_ns cat tm =
     pr_int (ts_sec e) @ ''.'' @ pad6 (ts_nsec e div 1000 mod 1000000) @ '' '' @ pr_int depth @ '' '' @ progname e @ ''['' @ pr_int (pid e)
     @ ''] '' @ cat @ '' '' @ log_level_name ! nat (tm_level tm) @ '' tid:'' @ pr_int (tid e) @ '' ('' @ tm_file tm @ '' '' @ pr_int (tm_line tm)
     @ '' '' @ tm_func tm @ ''): SCTIME '' @ pr_int (c_int (time_ns sdiv 1000000)) @ ''.''
     @ pad6 (c_int (time_ns - (time_ns sdiv 1000000) * 1000000)) @ '' ms '' @ tm_buf tm @ [CHR 0x0A]"

text \<open>
  \<open>stop_scope_timer__\<close>; \<^const>\<open>None\<close>: the level's name is read outside the table. The line goes to
  the log without the check for a rotation.
\<close>

definition stop_scope_timer :: "(string \<Rightarrow> string \<Rightarrow> bool) \<Rightarrow> nat \<Rightarrow> msg_env \<Rightarrow> int \<Rightarrow> int \<Rightarrow> string \<Rightarrow> scope_timer option
    \<Rightarrow> log_state \<times> trace_state \<times> out_state \<Rightarrow> (log_state \<times> trace_state \<times> out_state) option" where
  "stop_scope_timer rx k e cpu_sec cpu_nsec tname timer s =
     (case s of (st, t, ou) \<Rightarrow>
        let t1 = t\<lparr>sc_level := sc_level t - 1\<rparr> in
        (case timer of
           None \<Rightarrow> Some (st, t1, ou)
         | Some tm \<Rightarrow>
             let a = tm_cat tm; st1 = (if a \<notin> set (cat_list st) then aml_log_add rx a st else st);
                 time_ns = (ts_sec e - start_sec tm) * 1000000000 + (ts_nsec e - start_nsec tm);
                 ttime_ns = (cpu_sec - start_cpu_sec tm) * 1000000000 + (cpu_nsec - start_cpu_nsec tm) in
             if \<not> trace_level (cats st1 a) > tm_level tm then Some (st1, t1, ou)
             else if trace_json_fp t1 \<noteq> None
               then Some (st1, trace_out e tname (scope_json e time_ns ttime_ns (cat_name (cats st1 a)) tm) t1, ou)
             else if 0 \<le> tm_level tm \<and> tm_level tm < 10
               then Some (st1, t1, log_fprintf k (scope_line e (sc_level t1) time_ns (cat_name (cats st1 a)) tm) ou)
             else None))"

text \<open>A thread names itself once in each new stream, before its events.\<close>

lemma trace_names_thread_once:
  assumes "trace_seq t \<noteq> global_trace_seq t + 1"
  shows "trace_json_fp (foldl (\<lambda>t ev. trace_out e tname ev t) (trace_out e tname ev (aml_trace_set_json_output (Some s) t)) evs)
    = Some (s @ ''['' @ trace_thread_name e tname @ ev @ concat evs)"
proof -
  have run: "trace_json_fp (foldl (\<lambda>t ev. trace_out e tname ev t) t evs) = Some (x @ concat evs)"
    if "trace_seq t = global_trace_seq t" "trace_json_fp t = Some x" for t x
    using that by (induction evs arbitrary: t x) (simp_all add: trace_out_def)
  show ?thesis
    using assms by (subst run) (auto simp: trace_out_def aml_trace_set_json_output_def)
qed

text \<open>The scopes of a thread are balanced: starting and stopping a timer restores the depth.\<close>

lemma scope_depth_balanced:
  assumes "start_scope_timer e1 c1 n1 a level file func line body (st, t) = (tm, t1)"
    and "stop_scope_timer rx k e2 c2 n2 tname tm (st2, t1, ou) = Some (st3, t3, ou3)"
  shows "sc_level t3 = sc_level t"
  using assms by (auto simp: start_scope_timer_def stop_scope_timer_def Let_def trace_out_def split: option.splits if_splits)

end
