(* ===== verification/BinderIo.thy ===== *)
theory BinderIo
  imports Codec
begin

text \<open>
  \<open>libbinder/servicemgr/binder.c\<close>, first part: reading and writing of transaction buffers
  (\<open>struct binder_io\<close>). The layout is that of a 64-bit build with the 64-bit protocol:
  \<open>size_t\<close>, \<open>binder_size_t\<close> and \<open>binder_uintptr_t\<close> have 8 bytes.

  A buffer is the bytes from \<open>data0\<close> on with the offset of \<open>data\<close>; the array of offsets is a list
  with the index of \<open>offs\<close>. A pointer into the buffer is an offset, \<open>NULL\<close> is \<^const>\<open>None\<close>.
\<close>

section \<open>Numbers in buffers\<close>

definition le_bytes16 :: "u16 \<Rightarrow> u8 list" where
  "le_bytes16 w = [ucast w, ucast (drop_bit 8 w)]"

definition of_le_bytes16 :: "u8 list \<Rightarrow> u16" where
  "of_le_bytes16 bs = ucast (bs ! 0) OR push_bit 8 (ucast (bs ! 1))"

lemma length_le_bytes16 [simp]: "length (le_bytes16 w) = 2"
  by (simp add: le_bytes16_def)

lemma of_le_bytes16_le_bytes16 [simp]: "of_le_bytes16 (le_bytes16 w) = w"
proof (rule bit_word_eqI)
  fix n assume "n < LENGTH(16)"
  then consider "n < 8" | "8 \<le> n" "n < 16" by fastforce
  then show "bit (of_le_bytes16 (le_bytes16 w)) n = bit w n"
    by cases (auto simp: of_le_bytes16_def le_bytes16_def bit_simps)
qed

text \<open>The bytes of an array of \<open>uint16_t\<close>, and \<open>n\<close> units read at an offset.\<close>

definition bytes16 :: "u16 list \<Rightarrow> u8 list" where
  "bytes16 s = concat (map le_bytes16 s)"

definition units16 :: "u8 list \<Rightarrow> nat \<Rightarrow> nat \<Rightarrow> u16 list" where
  "units16 b off n = map (\<lambda>i. of_le_bytes16 (get_at b (off + 2 * i) 2)) [0..<n]"

lemma length_bytes16 [simp]: "length (bytes16 s) = 2 * length s"
  by (induction s) (simp_all add: bytes16_def)

lemma length_units16 [simp]: "length (units16 b off n) = n"
  by (simp add: units16_def)

lemma get_at_append: "off = length a \<Longrightarrow> n = length b \<Longrightarrow> get_at (a @ b @ c) off n = b"
  by (simp add: get_at_def)

lemma units16_bytes16: "units16 (a @ bytes16 s @ c) (length a) (length s) = s"
proof (induction s arbitrary: a)
  case (Cons w s)
  have "units16 b off (Suc n) = of_le_bytes16 (get_at b off 2) # units16 b (off + 2) n" for b off n
  proof -
    have "[0..<Suc n] = 0 # map Suc [0..<n]" by (simp add: map_Suc_upt upt_conv_Cons del: upt_Suc)
    then show ?thesis unfolding units16_def by (simp add: add.assoc del: upt_Suc)
  qed
  moreover have "get_at (a @ le_bytes16 w @ bytes16 s @ c) (length a) 2 = le_bytes16 w"
    by (rule get_at_append) simp_all
  ultimately show ?case
    using Cons.IH[of "a @ le_bytes16 w"] by (simp add: bytes16_def)
qed (simp add: units16_def)

section \<open>The buffer\<close>

definition BIO_F_SHARED :: u32 where "BIO_F_SHARED = 1"
definition BIO_F_OVERFLOW :: u32 where "BIO_F_OVERFLOW = 2"
definition BIO_F_IOERROR :: u32 where "BIO_F_IOERROR = 4"
definition BIO_F_MALLOCED :: u32 where "BIO_F_MALLOCED = 8"
definition MAX_BIO_SIZE :: nat where "MAX_BIO_SIZE = 2 ^ 30"

record binder_io =
  io_data :: "u8 list"
  io_pos :: nat
  data_avail :: nat
  io_offs :: "u64 list"
  io_opos :: nat
  offs_avail :: nat
  io_flags :: u32

definition overflow :: "binder_io \<Rightarrow> binder_io" where
  "overflow io = io\<lparr>io_flags := io_flags io OR BIO_F_OVERFLOW\<rparr>"

text \<open>\<open>bio_init\<close> over the bytes of \<open>rdata\<close>; what the offsets are before they are written does not matter.\<close>

definition bio_init :: "u8 list \<Rightarrow> nat \<Rightarrow> binder_io" where
  "bio_init rdata maxoffs =
     (let n = maxoffs * 8 in
      if n > length rdata then \<lparr>io_data = [], io_pos = 0, data_avail = 0, io_offs = [], io_opos = 0, offs_avail = 0, io_flags = BIO_F_OVERFLOW\<rparr>
      else \<lparr>io_data = drop n rdata, io_pos = 0, data_avail = length rdata - n, io_offs = replicate maxoffs 0, io_opos = 0,
        offs_avail = maxoffs, io_flags = 0\<rparr>)"

text \<open>\<open>bio_init_from_txn\<close>: the data and offsets the driver has mapped.\<close>

definition bio_init_from_txn :: "u8 list \<Rightarrow> u64 list \<Rightarrow> binder_io" where
  "bio_init_from_txn data offs =
     \<lparr>io_data = data, io_pos = 0, data_avail = length data, io_offs = offs, io_opos = 0, offs_avail = length offs, io_flags = BIO_F_SHARED\<rparr>"

definition round4 :: "nat \<Rightarrow> nat" where "round4 n = (n + 3) div 4 * 4"

section \<open>Writing\<close>

definition bio_alloc :: "nat \<Rightarrow> binder_io \<Rightarrow> nat option \<times> binder_io" where
  "bio_alloc sz io =
     (let n = round4 sz in
      if n > data_avail io then (None, overflow io)
      else (Some (io_pos io), io\<lparr>io_pos := io_pos io + n, data_avail := data_avail io - n\<rparr>))"

text \<open>\<open>sizeof (struct flat_binder_object)\<close> is 24: type, flags, binder or handle, cookie.\<close>

definition bio_alloc_obj :: "binder_io \<Rightarrow> nat option \<times> binder_io" where
  "bio_alloc_obj io =
     (case bio_alloc 24 io of
        (Some p, io1) \<Rightarrow>
          if offs_avail io1 > 0
          then (Some p, io1\<lparr>offs_avail := offs_avail io1 - 1, io_offs := (io_offs io1)[io_opos io1 := word_of_nat p], io_opos := io_opos io1 + 1\<rparr>)
          else (None, overflow io1)
      | (None, io1) \<Rightarrow> (None, overflow io1))"

definition store :: "nat \<Rightarrow> u8 list \<Rightarrow> binder_io \<Rightarrow> binder_io" where
  "store p bs io = io\<lparr>io_data := put_at (io_data io) p bs\<rparr>"

definition bio_put_uint32 :: "u32 \<Rightarrow> binder_io \<Rightarrow> binder_io" where
  "bio_put_uint32 n io = (case bio_alloc 4 io of (Some p, io1) \<Rightarrow> store p (le_bytes32 n) io1 | (None, io1) \<Rightarrow> io1)"

definition OBJ_FLAGS :: u32 where "OBJ_FLAGS = 0x7f OR 0x100"
definition BINDER_TYPE_BINDER :: u32 where "BINDER_TYPE_BINDER = 0x73622a85"
definition BINDER_TYPE_HANDLE :: u32 where "BINDER_TYPE_HANDLE = 0x73682a85"

definition le64 :: "u64 \<Rightarrow> u8 list" where
  "le64 w = le_bytes32 (ucast w) @ le_bytes32 (ucast (drop_bit 32 w))"

lemma length_le64 [simp]: "length (le64 w) = 8"
  by (simp add: le64_def)

definition bio_put_obj :: "u64 \<Rightarrow> binder_io \<Rightarrow> binder_io" where
  "bio_put_obj ptr io =
     (case bio_alloc_obj io of
        (None, io1) \<Rightarrow> io1
      | (Some p, io1) \<Rightarrow> store p (le_bytes32 BINDER_TYPE_BINDER @ le_bytes32 OBJ_FLAGS @ le64 ptr @ le64 0) io1)"

text \<open>The four bytes behind a handle are not written.\<close>

definition bio_put_ref :: "u32 \<Rightarrow> binder_io \<Rightarrow> binder_io" where
  "bio_put_ref handle io =
     (case (if handle \<noteq> 0 then bio_alloc_obj io else bio_alloc 24 io) of
        (None, io1) \<Rightarrow> io1
      | (Some p, io1) \<Rightarrow>
          store (p + 16) (le64 0) (store p (le_bytes32 BINDER_TYPE_HANDLE @ le_bytes32 OBJ_FLAGS @ le_bytes32 handle) io1))"

text \<open>A \<open>uint16_t *\<close> string is its units before the NUL, or \<open>NULL\<close>.\<close>

definition bio_put_string16 :: "u16 list option \<Rightarrow> binder_io \<Rightarrow> binder_io" where
  "bio_put_string16 str io =
     (case str of
        None \<Rightarrow> bio_put_uint32 0xffffffff io
      | Some s \<Rightarrow>
          if length s \<ge> MAX_BIO_SIZE div 2 then bio_put_uint32 0xffffffff io
          else (case bio_alloc ((length s + 1) * 2) (bio_put_uint32 (word_of_nat (length s)) io) of
              (None, io1) \<Rightarrow> io1
            | (Some p, io1) \<Rightarrow> store p (bytes16 (s @ [0])) io1))"

text \<open>The same for a string of bytes, which are widened.\<close>

definition bio_put_string16_x :: "u8 list option \<Rightarrow> binder_io \<Rightarrow> binder_io" where
  "bio_put_string16_x str io = bio_put_string16 (map_option (map ucast) str) io"

section \<open>Reading\<close>

definition bio_get :: "nat \<Rightarrow> binder_io \<Rightarrow> nat option \<times> binder_io" where
  "bio_get sz io =
     (let n = round4 sz in
      if data_avail io < n then (None, overflow (io\<lparr>data_avail := 0\<rparr>))
      else (Some (io_pos io), io\<lparr>io_pos := io_pos io + n, data_avail := data_avail io - n\<rparr>))"

definition bio_get_uint32 :: "binder_io \<Rightarrow> u32 \<times> binder_io" where
  "bio_get_uint32 io =
     (case bio_get 4 io of (Some p, io1) \<Rightarrow> (of_le_bytes32 (get_at (io_data io1) p 4), io1) | (None, io1) \<Rightarrow> (0, io1))"

text \<open>The place and length of a string.\<close>

definition bio_get_string16 :: "binder_io \<Rightarrow> (nat option \<times> nat) \<times> binder_io" where
  "bio_get_string16 io =
     (let (w, io1) = bio_get_uint32 io; len = unat w; (p, io2) = bio_get ((len + 1) * 2) io1 in ((p, len), io2))"

definition bio_get_obj :: "binder_io \<Rightarrow> nat option \<times> binder_io" where
  "bio_get_obj io =
     (if word_of_nat (io_pos io) \<in> set (take (offs_avail io) (drop (io_opos io) (io_offs io))) then bio_get 24 io
      else (None, overflow (io\<lparr>data_avail := 0\<rparr>)))"

definition bio_get_ref :: "binder_io \<Rightarrow> u32 \<times> binder_io" where
  "bio_get_ref io =
     (case bio_get_obj io of
        (None, io1) \<Rightarrow> (0, io1)
      | (Some p, io1) \<Rightarrow>
          (if of_le_bytes32 (get_at (io_data io1) p 4) = BINDER_TYPE_HANDLE
           then of_le_bytes32 (get_at (io_data io1) (p + 8) 4) else 0, io1))"

section \<open>What is written can be read\<close>

text \<open>The items of a message, and what its sender and its receiver call for them.\<close>

datatype bio_item = Item32 u32 | Item16 "u16 list" | ItemRef u32

fun item_ok :: "bio_item \<Rightarrow> bool" where
  "item_ok (Item32 n) \<longleftrightarrow> True"
| "item_ok (Item16 s) \<longleftrightarrow> 0 \<notin> set s \<and> length s < MAX_BIO_SIZE div 2"
| "item_ok (ItemRef h) \<longleftrightarrow> h \<noteq> 0"

fun put_item :: "bio_item \<Rightarrow> binder_io \<Rightarrow> binder_io" where
  "put_item (Item32 n) io = bio_put_uint32 n io"
| "put_item (Item16 s) io = bio_put_string16 (Some s) io"
| "put_item (ItemRef h) io = bio_put_ref h io"

text \<open>Reading an item of the same kind; a string is read with its NUL.\<close>

fun get_item :: "bio_item \<Rightarrow> binder_io \<Rightarrow> bio_item option \<times> binder_io" where
  "get_item (Item32 _) io = (let (n, io1) = bio_get_uint32 io in (Some (Item32 n), io1))"
| "get_item (Item16 _) io =
     (case bio_get_string16 io of
        ((Some p, len), io1) \<Rightarrow> (if units16 (io_data io1) p (len + 1) ! len = 0 then Some (Item16 (units16 (io_data io1) p len)) else None, io1)
      | ((None, len), io1) \<Rightarrow> (None, io1))"
| "get_item (ItemRef _) io = (let (h, io1) = bio_get_ref io in (Some (ItemRef h), io1))"

fun get_items :: "bio_item list \<Rightarrow> binder_io \<Rightarrow> bio_item option list \<times> binder_io" where
  "get_items [] io = ([], io)"
| "get_items (x # xs) io = (let (r, io1) = get_item x io; (rs, io2) = get_items xs io1 in (r # rs, io2))"

text \<open>The message its receiver gets from the driver.\<close>

definition sent :: "binder_io \<Rightarrow> binder_io" where
  "sent io = bio_init_from_txn (take (io_pos io) (io_data io)) (take (io_opos io) (io_offs io))"

text \<open>A writer that has not overflowed.\<close>

definition writer :: "binder_io \<Rightarrow> bool" where
  "writer io \<longleftrightarrow> io_pos io + data_avail io = length (io_data io) \<and> io_opos io + offs_avail io = length (io_offs io)
     \<and> (io_flags io AND BIO_F_OVERFLOW) = 0 \<and> length (io_data io) < 2 ^ 32 \<and> 4 dvd io_pos io"

text \<open>The bytes of an item, of which the unwritten ones can be anything.\<close>

fun item_bytes :: "u8 list \<Rightarrow> bio_item \<Rightarrow> u8 list" where
  "item_bytes pad (Item32 n) = le_bytes32 n"
| "item_bytes pad (Item16 s) = le_bytes32 (word_of_nat (length s)) @ bytes16 (s @ [0]) @ pad"
| "item_bytes pad (ItemRef h) = le_bytes32 BINDER_TYPE_HANDLE @ le_bytes32 OBJ_FLAGS @ le_bytes32 h @ pad @ le64 0"

fun item_pad :: "bio_item \<Rightarrow> nat" where
  "item_pad (Item32 n) = 0"
| "item_pad (Item16 s) = round4 ((length s + 1) * 2) - (length s + 1) * 2"
| "item_pad (ItemRef h) = 4"

fun item_offs :: "nat \<Rightarrow> bio_item \<Rightarrow> u64 list" where
  "item_offs p (ItemRef h) = [word_of_nat p]"
| "item_offs p _ = []"

subsection \<open>Writing appends\<close>

definition written :: "binder_io \<Rightarrow> u8 list" where "written io = take (io_pos io) (io_data io)"
definition written_offs :: "binder_io \<Rightarrow> u64 list" where "written_offs io = take (io_opos io) (io_offs io)"

definition overflowed :: "binder_io \<Rightarrow> bool" where "overflowed io \<longleftrightarrow> (io_flags io AND BIO_F_OVERFLOW) \<noteq> 0"

lemma take_put_at:
  assumes "p + length bs \<le> q" "q \<le> length d"
  shows "take q (put_at d p bs) = take p d @ bs @ get_at d (p + length bs) (q - p - length bs)"
proof -
  obtain r where "q = p + length bs + r" using assms(1) le_iff_add by blast
  moreover have "length d \<le> p \<Longrightarrow> bs = []" using assms calculation by (cases bs) auto
  ultimately show ?thesis using assms(2) by (auto simp: put_at_def get_at_def min_def)
qed

lemma overflowed_overflow [simp]: "overflowed (overflow io)"
proof -
  have "(w OR BIO_F_OVERFLOW) AND BIO_F_OVERFLOW = BIO_F_OVERFLOW" for w :: u32
    by (simp add: bit_eq_iff bit_simps)
  then show ?thesis by (simp add: overflowed_def overflow_def BIO_F_OVERFLOW_def)
qed

lemma writer_not_overflowed: "writer io \<Longrightarrow> \<not> overflowed io"
  by (simp add: writer_def overflowed_def)

lemma round4_ge: "n \<le> round4 n" "4 dvd round4 n" "round4 n < n + 4"
  unfolding round4_def by simp_all

lemma alloc_store:
  assumes "writer io" "bio_alloc n io = (Some p, io1)" "length bs \<le> round4 n"
  shows "\<exists>pad. length pad = round4 n - length bs \<and> written (store p bs io1) = written io @ bs @ pad
    \<and> writer (store p bs io1) \<and> written_offs (store p bs io1) = written_offs io
    \<and> p = length (written io) \<and> length (io_data (store p bs io1)) = length (io_data io)"
proof -
  have p: "p = io_pos io" "io1 = io\<lparr>io_pos := io_pos io + round4 n, data_avail := data_avail io - round4 n\<rparr>" "round4 n \<le> data_avail io"
    using assms(2) by (auto simp: bio_alloc_def Let_def split: if_splits)
  have len: "io_pos io + data_avail io = length (io_data io)" using assms(1) by (simp add: writer_def)
  have "written (store p bs io1) = take (io_pos io) (io_data io) @ bs @ get_at (io_data io) (io_pos io + length bs) (round4 n - length bs)"
    using p len assms(3) by (simp add: written_def store_def take_put_at)
  moreover have "writer (store p bs io1)"
    using p len assms round4_ge(2)[of n] by (simp add: writer_def store_def)
  ultimately show ?thesis
    using p len assms(3) by (intro exI[of _ "get_at (io_data io) (io_pos io + length bs) (round4 n - length bs)"])
      (simp add: written_def written_offs_def store_def)
qed

lemma alloc_overflow: "bio_alloc n io = (None, io1) \<Longrightarrow> overflowed io1"
  by (auto simp: bio_alloc_def Let_def split: if_splits)

lemma alloc_keeps_overflow: "bio_alloc n io = (r, io1) \<Longrightarrow> overflowed io \<Longrightarrow> overflowed io1"
  by (auto simp: bio_alloc_def Let_def split: if_splits) (simp add: overflowed_def)

text \<open>Once an item has overflowed the buffer stays marked.\<close>

lemma put_keeps_overflow: "overflowed io \<Longrightarrow> overflowed (put_item x io)"
proof -
  have st: "overflowed (store p bs io) = overflowed io" for p bs io by (simp add: overflowed_def store_def)
  have u32: "overflowed (bio_put_uint32 n io)" if "overflowed io" for n io
    using alloc_keeps_overflow[of 4 io] that by (auto simp: bio_put_uint32_def st split: prod.split option.split)
  have obj: "overflowed io1" if "bio_alloc_obj io = (r, io1)" "overflowed io" for r io1 io
    using alloc_keeps_overflow[of 24 io] that
    by (auto simp: bio_alloc_obj_def split: prod.splits option.splits if_splits) (simp add: overflowed_def)
  show "overflowed io \<Longrightarrow> overflowed (put_item x io)"
  proof (cases x)
    case (Item16 s)
    then show "overflowed io \<Longrightarrow> ?thesis"
      using u32 alloc_keeps_overflow by (auto simp: bio_put_string16_def st split: prod.split option.split)
  next
    case (ItemRef h)
    then show "overflowed io \<Longrightarrow> ?thesis"
      using obj alloc_keeps_overflow by (auto simp: bio_put_ref_def st split: prod.split option.split)
  qed (simp add: u32)
qed

definition appended :: "binder_io \<Rightarrow> bio_item \<Rightarrow> binder_io \<Rightarrow> bool" where
  "appended io x io' \<longleftrightarrow> writer io' \<and> length (io_data io') = length (io_data io)
     \<and> (\<exists>pad. length pad = item_pad x \<and> written io' = written io @ item_bytes pad x)
     \<and> written_offs io' = written_offs io @ item_offs (length (written io)) x"

lemma put_uint32_appends:
  assumes "writer io" "\<not> overflowed (bio_put_uint32 n io)"
  shows "written (bio_put_uint32 n io) = written io @ le_bytes32 n \<and> writer (bio_put_uint32 n io)
    \<and> written_offs (bio_put_uint32 n io) = written_offs io \<and> length (io_data (bio_put_uint32 n io)) = length (io_data io)"
proof (cases "bio_alloc 4 io")
  case (Pair r io1)
  then obtain p where "bio_alloc 4 io = (Some p, io1)"
    using alloc_overflow[of 4 io io1] assms(2) by (cases r) (auto simp: bio_put_uint32_def)
  then show ?thesis
    using alloc_store[OF assms(1), of 4 p io1 "le_bytes32 n"] by (auto simp: bio_put_uint32_def round4_def)
qed

text \<open>Two writes with \<open>k\<close> unwritten bytes between them.\<close>

lemma store_gap:
  assumes "q = p + length bs + k" "q \<le> length (io_data io)"
  shows "store q cs (store p bs io) = store p (bs @ get_at (io_data io) (p + length bs) k @ cs) io"
proof -
  have "put_at (put_at d p bs) q cs = put_at d p (bs @ get_at d (p + length bs) k @ cs)" if "q \<le> length d" for d :: "u8 list"
    using that assms(1) by (auto simp: put_at_def get_at_def min_def take_drop ac_simps)
  then show ?thesis using assms(2) by (simp add: store_def)
qed

lemma put_item_appends:
  assumes "writer io" "item_ok x" "\<not> overflowed (put_item x io)"
  shows "appended io x (put_item x io)"
proof (cases x)
  case (Item32 n)
  then show ?thesis using put_uint32_appends[OF assms(1)] assms(3) by (simp add: appended_def)
next
  case (Item16 s)
  define n bs where "n = (length s + 1) * 2" and "bs = bytes16 (s @ [0])"
  have bs: "length bs = n" by (simp add: n_def bs_def)
  define io1 where "io1 = bio_put_uint32 (word_of_nat (length s)) io"
  obtain r io2 where al: "bio_alloc n io1 = (r, io2)" by (cases "bio_alloc n io1")
  have put: "put_item x io = (case r of None \<Rightarrow> io2 | Some p \<Rightarrow> store p bs io2)"
    using assms(2) Item16 al by (simp add: bio_put_string16_def io1_def n_def bs_def split: option.split)
  then obtain p where r: "r = Some p" using alloc_overflow al assms(3) by (cases r) auto
  have "\<not> overflowed io1"
    using alloc_keeps_overflow[OF al] assms(3) put r by (auto simp: overflowed_def store_def)
  note u = put_uint32_appends[OF assms(1) this[unfolded io1_def], folded io1_def]
  obtain pad where pad: "length pad = round4 n - n" "written (store p bs io2) = written io1 @ bs @ pad"
    "writer (store p bs io2)" "written_offs (store p bs io2) = written_offs io1" "length (io_data (store p bs io2)) = length (io_data io1)"
    using alloc_store[of io1 n p io2 bs] u al r round4_ge(1)[of n] bs by auto
  have "item_pad x = round4 n - n" "item_bytes pad x = le_bytes32 (word_of_nat (length s)) @ bs @ pad" "item_offs k x = []" for k
    by (simp_all add: Item16 n_def bs_def)
  then show ?thesis using u put r pad by (auto simp: appended_def)
next
  case (ItemRef h)
  let ?A = "le_bytes32 BINDER_TYPE_HANDLE @ le_bytes32 OBJ_FLAGS @ le_bytes32 h"
  obtain r io1 where al: "bio_alloc 24 io = (r, io1)" by (cases "bio_alloc 24 io")
  obtain r2 io2 where ob: "bio_alloc_obj io = (r2, io2)" by (cases "bio_alloc_obj io")
  have put: "put_item x io = (case r2 of None \<Rightarrow> io2 | Some p \<Rightarrow> store (p + 16) (le64 0) (store p ?A io2))"
    using assms(2) ItemRef ob by (simp add: bio_put_ref_def)
  have "r2 = None \<Longrightarrow> overflowed io2"
    using ob al by (auto simp: bio_alloc_obj_def split: option.splits if_splits)
  then obtain p where r2: "r2 = Some p" using put assms(3) by (cases r2) auto
  then have r: "r = Some p" and av: "offs_avail io1 > 0"
    and io2: "io2 = io1\<lparr>offs_avail := offs_avail io1 - 1, io_offs := (io_offs io1)[io_opos io1 := word_of_nat p], io_opos := io_opos io1 + 1\<rparr>"
    using ob al by (auto simp: bio_alloc_obj_def split: option.splits if_splits)
  have p: "p = io_pos io" "length (io_data io1) = length (io_data io)" "io_pos io + 24 \<le> length (io_data io)" "io_opos io1 = io_opos io"
    "io_offs io1 = io_offs io"
    using al r assms(1) by (auto simp: bio_alloc_def Let_def writer_def round4_def split: if_splits)
  define gap where "gap = get_at (io_data io1) (p + 12) 4"
  define st where "st = store p (?A @ gap @ le64 0) io1"
  have lens: "length gap = 4" "length ?A = 12" using p by (simp_all add: gap_def)
  have st: "store (p + 16) (le64 0) (store p ?A io2) = st\<lparr>offs_avail := offs_avail io1 - 1,
      io_offs := (io_offs io1)[io_opos io1 := word_of_nat p], io_opos := io_opos io1 + 1\<rparr>"
  proof -
    have "store (p + 16) (le64 0) (store p ?A io2) = store p (?A @ gap @ le64 0) io2"
      using store_gap[of "p + 16" p ?A 4 io2 "le64 0"] p lens by (simp add: io2 gap_def)
    then show ?thesis by (simp only:) (simp add: io2 store_def st_def)
  qed
  obtain pad where pad: "length pad = 0" "written st = written io @ (?A @ gap @ le64 0) @ pad"
    "writer st" "written_offs st = written_offs io" "p = length (written io)" "length (io_data st) = length (io_data io)"
    using alloc_store[of io 24 p io1 "?A @ gap @ le64 0"] assms(1) al r lens by (auto simp: st_def round4_def)
  have "io_opos io < length (io_offs io)" using pad(3) av p by (simp add: writer_def st_def store_def)
  then have "take (io_opos io + 1) ((io_offs io)[io_opos io := word_of_nat p]) = take (io_opos io) (io_offs io) @ [word_of_nat p]"
    by (simp add: take_Suc_conv_app_nth)
  moreover have "io_opos st = io_opos io" "io_offs st = io_offs io" "offs_avail st = offs_avail io1" by (simp_all add: st_def store_def p)
  ultimately show ?thesis
    using put r2 st pad av lens(1) p ItemRef
    by (auto simp: appended_def writer_def written_def written_offs_def intro!: exI[of _ gap])
qed

subsection \<open>Reading takes off the front\<close>

text \<open>A reader at the place behind \<open>a\<close>, before \<open>rest\<close>.\<close>

definition reader :: "binder_io \<Rightarrow> u8 list \<Rightarrow> u8 list \<Rightarrow> bool" where
  "reader io a rest \<longleftrightarrow> io_data io = a @ rest \<and> io_pos io = length a \<and> data_avail io = length rest
     \<and> io_opos io = 0 \<and> offs_avail io = length (io_offs io)"

definition advance :: "nat \<Rightarrow> binder_io \<Rightarrow> binder_io" where
  "advance n io = io\<lparr>io_pos := io_pos io + n, data_avail := data_avail io - n\<rparr>"

lemma reader_advance: "reader io a (b @ c) \<Longrightarrow> reader (advance (length b) io) (a @ b) c"
  by (simp add: reader_def advance_def)

lemma bio_get_reader: "reader io a (b @ c) \<Longrightarrow> length b = round4 n \<Longrightarrow> bio_get n io = (Some (length a), advance (length b) io)"
  by (simp add: bio_get_def reader_def advance_def Let_def)

lemma get_uint32_reader:
  "reader io a (le_bytes32 w @ c) \<Longrightarrow> bio_get_uint32 io = (w, advance 4 io)"
  using bio_get_reader[of io a "le_bytes32 w" c 4] get_at_append[of "length a" a 4 "le_bytes32 w" c]
  by (simp add: bio_get_uint32_def round4_def) (simp add: reader_def advance_def)

lemma units16_prefix: "units16 b off n = take n (units16 b off (n + k))"
  by (simp add: units16_def take_map)

lemma get_item_reads:
  assumes "reader io a (item_bytes pad x @ c)" "length pad = item_pad x" "item_ok x" "set (item_offs (length a) x) \<subseteq> set (io_offs io)"
  shows "get_item x io = (Some x, advance (length (item_bytes pad x)) io)"
proof (cases x)
  case (Item32 n)
  then show ?thesis using get_uint32_reader[of io a n c] assms(1) by simp
next
  case (Item16 s)
  define n bs where "n = (length s + 1) * 2" and "bs = bytes16 (s @ [0])"
  have bs: "length bs = n" by (simp add: n_def bs_def)
  have pad: "length pad = round4 n - n" using assms(2) by (simp add: Item16 n_def)
  have io: "reader io a (le_bytes32 (word_of_nat (length s)) @ (bs @ pad) @ c)" using assms(1) by (simp add: Item16 bs_def)
  let ?io1 = "advance 4 io"
  have u: "bio_get_uint32 io = (word_of_nat (length s), ?io1)" by (rule get_uint32_reader[OF io])
  have io1: "reader ?io1 (a @ le_bytes32 (word_of_nat (length s))) ((bs @ pad) @ c)"
    using reader_advance[OF io] by simp
  have g: "bio_get n ?io1 = (Some (length a + 4), advance (round4 n) ?io1)"
    using bio_get_reader[OF io1, of n] bs pad round4_ge(1)[of n] by simp
  have len: "unat (word_of_nat (length s) :: u32) = length s"
    using assms(3) by (simp add: Item16 MAX_BIO_SIZE_def unat_of_nat take_bit_nat_eq_self)
  have un: "units16 (io_data io) (length a + 4) (length s + 1) = s @ [0]"
    using units16_bytes16[of "a @ le_bytes32 (word_of_nat (length s))" "s @ [0]" "pad @ c"] io by (simp add: reader_def bs_def)
  then have "units16 (io_data io) (length a + 4) (length s) = s"
    using units16_prefix[of "io_data io" "length a + 4" "length s" 1] by simp
  moreover have "advance (round4 n) ?io1 = advance (length (item_bytes pad x)) io"
    using bs pad round4_ge(1)[of n] io by (simp add: Item16 advance_def reader_def flip: bs_def n_def)
  moreover have "io_data (advance k io) = io_data io" for k by (simp add: advance_def)
  ultimately show ?thesis
    using u g len un by (simp add: Item16 bio_get_string16_def n_def Let_def)
next
  case (ItemRef h)
  have io: "reader io a ((le_bytes32 BINDER_TYPE_HANDLE @ le_bytes32 OBJ_FLAGS @ le_bytes32 h @ pad @ le64 0) @ c)"
    using assms(1) by (simp add: ItemRef)
  have pad: "length pad = 4" using assms(2) by (simp add: ItemRef)
  have "bio_get_obj io = (Some (length a), advance 24 io)"
    using assms(4) bio_get_reader[OF io, of 24] pad io by (simp add: bio_get_obj_def ItemRef round4_def reader_def)
  moreover have "io_data io = a @ le_bytes32 BINDER_TYPE_HANDLE @ (le_bytes32 OBJ_FLAGS @ le_bytes32 h @ pad @ le64 0 @ c)"
    using io by (simp add: reader_def)
  then have "get_at (io_data io) (length a) 4 = le_bytes32 BINDER_TYPE_HANDLE"
    by (simp only:) (rule get_at_append; simp)
  moreover have "io_data io = (a @ le_bytes32 BINDER_TYPE_HANDLE @ le_bytes32 OBJ_FLAGS) @ le_bytes32 h @ (pad @ le64 0 @ c)"
    using io by (simp add: reader_def)
  then have "get_at (io_data io) (length a + 8) 4 = le_bytes32 h"
    by (simp only:) (rule get_at_append; simp)
  moreover have "io_data (advance 24 io) = io_data io" "length (item_bytes pad x) = 24" using pad by (simp_all add: advance_def ItemRef)
  ultimately show ?thesis by (simp add: ItemRef bio_get_ref_def)
qed

subsection \<open>Whole messages\<close>

fun items_offs :: "nat \<Rightarrow> (u8 list \<times> bio_item) list \<Rightarrow> u64 list" where
  "items_offs p [] = []"
| "items_offs p ((pad, x) # xs) = item_offs p x @ items_offs (p + length (item_bytes pad x)) xs"

abbreviation items_bytes :: "(u8 list \<times> bio_item) list \<Rightarrow> u8 list" where
  "items_bytes xs \<equiv> concat (map (\<lambda>(pad, x). item_bytes pad x) xs)"

abbreviation put_items :: "bio_item list \<Rightarrow> binder_io \<Rightarrow> binder_io" where
  "put_items xs io \<equiv> foldl (\<lambda>io x. put_item x io) io xs"

lemma put_items_keeps_overflow: "overflowed io \<Longrightarrow> overflowed (put_items xs io)"
  by (induction xs arbitrary: io) (simp_all add: put_keeps_overflow)

lemma put_items_appends:
  assumes "writer io" "list_all item_ok xs" "\<not> overflowed (put_items xs io)"
  shows "\<exists>pxs. map snd pxs = xs \<and> list_all (\<lambda>(pad, x). length pad = item_pad x) pxs
    \<and> written (put_items xs io) = written io @ items_bytes pxs
    \<and> written_offs (put_items xs io) = written_offs io @ items_offs (length (written io)) pxs \<and> writer (put_items xs io)"
  using assms
proof (induction xs arbitrary: io)
  case (Cons x xs)
  have "\<not> overflowed (put_item x io)" using Cons.prems(3) put_items_keeps_overflow by auto
  then have ap: "appended io x (put_item x io)" using put_item_appends Cons.prems(1,2) by simp
  then obtain pad where pad: "length pad = item_pad x" "written (put_item x io) = written io @ item_bytes pad x"
    "writer (put_item x io)" "written_offs (put_item x io) = written_offs io @ item_offs (length (written io)) x"
    by (auto simp: appended_def)
  obtain pxs where "map snd pxs = xs" "list_all (\<lambda>(pad, x). length pad = item_pad x) pxs"
    "written (put_items xs (put_item x io)) = written (put_item x io) @ items_bytes pxs"
    "written_offs (put_items xs (put_item x io)) = written_offs (put_item x io) @ items_offs (length (written (put_item x io))) pxs"
    "writer (put_items xs (put_item x io))"
    using Cons.IH[OF pad(3)] Cons.prems by auto
  then show ?case using pad by (intro exI[of _ "(pad, x) # pxs"]) simp
qed (auto intro: exI[of _ "[]"])

text \<open>A message that still holds the items \<open>xs\<close>, and reading the first of them.\<close>

definition holds :: "binder_io \<Rightarrow> bio_item list \<Rightarrow> bool" where
  "holds io xs \<longleftrightarrow> (\<exists>a pxs c. reader io a (items_bytes pxs @ c) \<and> list_all (\<lambda>(pad, x). length pad = item_pad x) pxs
     \<and> map snd pxs = xs \<and> list_all item_ok xs \<and> set (items_offs (length a) pxs) \<subseteq> set (io_offs io))"

lemma holds_sent:
  assumes "list_all item_ok xs" "8 * maxoffs \<le> length rdata" "length rdata < 2 ^ 32"
    and "\<not> overflowed (put_items xs (bio_init rdata maxoffs))"
  shows "holds (sent (put_items xs (bio_init rdata maxoffs))) xs"
proof -
  let ?io = "bio_init rdata maxoffs"
  have w: "writer ?io" using assms(2,3) by (simp add: bio_init_def writer_def Let_def mult.commute)
  have e: "written ?io = []" "written_offs ?io = []" by (simp_all add: bio_init_def written_def written_offs_def Let_def)
  from put_items_appends[OF w assms(1,4)] obtain pxs where pxs: "map snd pxs = xs"
    "list_all (\<lambda>(pad, x). length pad = item_pad x) pxs" "written (put_items xs ?io) = items_bytes pxs"
    "written_offs (put_items xs ?io) = items_offs 0 pxs" by (auto simp: e)
  have "reader (sent (put_items xs ?io)) [] (items_bytes pxs @ [])" "io_offs (sent (put_items xs ?io)) = items_offs 0 pxs"
    using pxs(3,4) by (simp_all add: reader_def sent_def bio_init_from_txn_def written_def written_offs_def)
  then show ?thesis unfolding holds_def using pxs(1,2) assms(1)
    by (intro exI[of _ "[]"] exI[of _ pxs]) auto
qed

lemma holds_item: "holds io (x # xs) \<Longrightarrow> \<exists>io'. get_item x io = (Some x, io') \<and> holds io' xs \<and> io_data io' = io_data io"
proof -
  assume "holds io (x # xs)"
  then obtain a pad pxs c where h: "reader io a (item_bytes pad x @ items_bytes pxs @ c)" "length pad = item_pad x"
    "list_all (\<lambda>(pad, x). length pad = item_pad x) pxs" "map snd pxs = xs" "list_all item_ok (x # xs)"
    "set (items_offs (length a) ((pad, x) # pxs)) \<subseteq> set (io_offs io)"
    by (auto simp: holds_def)
  have "get_item x io = (Some x, advance (length (item_bytes pad x)) io)"
    using get_item_reads[OF h(1,2)] h(5,6) by simp
  moreover have "holds (advance (length (item_bytes pad x)) io) xs"
    using reader_advance[OF h(1)] h(3-6) unfolding holds_def
    by (intro exI[of _ "a @ item_bytes pad x"] exI[of _ pxs] exI[of _ c]) (simp add: advance_def)
  ultimately show ?thesis by (simp add: advance_def)
qed

lemma holds_items: "holds io xs \<Longrightarrow> fst (get_items xs io) = map Some xs"
proof (induction xs arbitrary: io)
  case (Cons x xs)
  obtain io' where io': "get_item x io = (Some x, io')" "holds io' xs" using holds_item[OF Cons.prems] by blast
  obtain rs io2 where "get_items xs io' = (rs, io2)" by fastforce
  then show ?case using Cons.IH[OF io'(2)] io'(1) by simp
qed simp

lemma holds_uint32: "holds io (Item32 n # xs) \<Longrightarrow> \<exists>io'. bio_get_uint32 io = (n, io') \<and> holds io' xs"
  by (drule holds_item) (auto split: prod.splits)

lemma holds_string16:
  "holds io (Item16 s # xs) \<Longrightarrow> \<exists>p io'. bio_get_string16 io = ((Some p, length s), io') \<and> units16 (io_data io') p (length s) = s \<and> holds io' xs"
proof -
  assume "holds io (Item16 s # xs)"
  then obtain io' where io': "get_item (Item16 s) io = (Some (Item16 s), io')" "holds io' xs" using holds_item by blast
  obtain p len io2 where g: "bio_get_string16 io = ((p, len), io2)" by (metis prod.exhaust)
  then have "p \<noteq> None" "io2 = io'" "units16 (io_data io') (the p) len = s"
    using io'(1) by (auto split: option.splits if_splits)
  moreover have "len = length s" using calculation(3) by auto
  ultimately show ?thesis using g io'(2) by auto
qed

lemma holds_ref: "holds io (ItemRef h # xs) \<Longrightarrow> \<exists>io'. bio_get_ref io = (h, io') \<and> holds io' xs"
  by (drule holds_item) (auto split: prod.splits)

text \<open>C12: A message of numbers, strings and handles that fit into the sender's buffer is read by the receiver
  as it was written: the same items in the same order, whatever the buffer held before.\<close>

theorem binder_message_roundtrip:
  assumes "list_all item_ok xs" "8 * maxoffs \<le> length rdata" "length rdata < 2 ^ 32"
    and "io_flags (put_items xs (bio_init rdata maxoffs)) AND BIO_F_OVERFLOW = 0"
  shows "fst (get_items xs (sent (put_items xs (bio_init rdata maxoffs)))) = map Some xs"
  by (rule holds_items[OF holds_sent[OF assms(1-3)]]) (simp add: overflowed_def assms(4))

theorem binder_message_roundtrip_witness:
  "fst (get_items [Item32 5, Item16 [0x61, 0x62], ItemRef 7] (sent (put_items [Item32 5, Item16 [0x61, 0x62], ItemRef 7] (bio_init (replicate 64 0xcc) 1))))
    = map Some [Item32 5, Item16 [0x61, 0x62], ItemRef 7]"
proof (rule binder_message_roundtrip)
  show "io_flags (put_items [Item32 5, Item16 [0x61, 0x62], ItemRef 7] (bio_init (replicate 64 0xcc) 1)) AND BIO_F_OVERFLOW = 0"
    by (simp add: bio_init_def bio_put_uint32_def bio_put_string16_def bio_put_ref_def bio_alloc_def bio_alloc_obj_def round4_def store_def
        MAX_BIO_SIZE_def Let_def)
qed (simp_all add: MAX_BIO_SIZE_def)

text \<open>
  A null handle is written without an offset, so reading it marks the message as overflowed and
  nothing behind it can be read.
\<close>

lemma null_ref_unreadable:
  assumes "word_of_nat (io_pos io) \<notin> set (io_offs io)"
  shows "fst (bio_get_ref io) = 0 \<and> data_avail (snd (bio_get_ref io)) = 0 \<and> overflowed (snd (bio_get_ref io))"
proof -
  have "word_of_nat (io_pos io) \<notin> set (take (offs_avail io) (drop (io_opos io) (io_offs io)))"
    using assms by (auto dest: in_set_takeD in_set_dropD)
  then have "bio_get_obj io = (None, overflow (io\<lparr>data_avail := 0\<rparr>))" by (simp add: bio_get_obj_def)
  then show ?thesis by (simp add: bio_get_ref_def) (simp add: overflow_def)
qed

end
