(* ===== verification/SvcManager.thy ===== *)
theory SvcManager
  imports BinderIo
begin

text \<open>
  \<open>libbinder/servicemgr/service_manager.c\<close> and the part of \<open>binder.c\<close> that talks to the driver:
  the list of services, the handler of the service manager's transactions, the parser of the
  driver's commands and the loops around it. The commands given to the driver are collected in the
  state; what the driver returns, and the memory it maps, are arguments. The checks of permissions
  are compiled to \<open>true\<close>.
\<close>

section \<open>Commands and state\<close>

datatype binder_cmd =
    BC_ACQUIRE u32 | BC_RELEASE u32 | BC_REQUEST_DEATH_NOTIFICATION u32 nat | BC_FREE_BUFFER u64
  | BC_REPLY_STATUS int | BC_REPLY "u8 list" "u64 list" | BC_TRANSACTION u32 u32 "u8 list" "u64 list" | BC_ENTER_LOOPER

text \<open>\<open>struct svcinfo\<close> at its address; the length is that of the name.\<close>

record svcinfo =
  si_ptr :: nat
  si_handle :: u32
  si_allow_isolated :: int
  si_name :: "u16 list"

record svc_state =
  svclist :: "svcinfo list"
  bcs :: "binder_cmd list"

definition binder_write :: "binder_cmd \<Rightarrow> svc_state \<Rightarrow> svc_state" where
  "binder_write c st = st\<lparr>bcs := bcs st @ [c]\<rparr>"

definition binder_acquire :: "u32 \<Rightarrow> svc_state \<Rightarrow> svc_state" where
  "binder_acquire target st = binder_write (BC_ACQUIRE target) st"

definition binder_release :: "u32 \<Rightarrow> svc_state \<Rightarrow> svc_state" where
  "binder_release target st = binder_write (BC_RELEASE target) st"

definition binder_link_to_death :: "u32 \<Rightarrow> nat \<Rightarrow> svc_state \<Rightarrow> svc_state" where
  "binder_link_to_death target death st = binder_write (BC_REQUEST_DEATH_NOTIFICATION target death) st"

section \<open>The list of services\<close>

definition find_svc :: "u16 list \<Rightarrow> svc_state \<Rightarrow> svcinfo option" where
  "find_svc s st = find (\<lambda>si. length s = length (si_name si) \<and> s = si_name si) (svclist st)"

definition set_handle :: "nat \<Rightarrow> u32 \<Rightarrow> svc_state \<Rightarrow> svc_state" where
  "set_handle ptr h st = st\<lparr>svclist := map (\<lambda>si. if si_ptr si = ptr then si\<lparr>si_handle := h\<rparr> else si) (svclist st)\<rparr>"

text \<open>\<^const>\<open>None\<close>: no service is at this address.\<close>

definition svcinfo_death :: "nat \<Rightarrow> svc_state \<Rightarrow> svc_state option" where
  "svcinfo_death ptr st =
     (case find (\<lambda>si. si_ptr si = ptr) (svclist st) of
        None \<Rightarrow> None
      | Some si \<Rightarrow> Some (if si_handle si \<noteq> 0 then set_handle ptr 0 (binder_release (si_handle si) st) else st))"

definition do_find_service :: "u16 list \<Rightarrow> svc_state \<Rightarrow> u32" where
  "do_find_service s st = (case find_svc s st of None \<Rightarrow> 0 | Some si \<Rightarrow> si_handle si)"

text \<open>\<open>alloc\<close>: the address \<open>malloc\<close> returns in a state, \<^const>\<open>None\<close> for \<open>NULL\<close>.\<close>

definition do_add_service :: "(svc_state \<Rightarrow> nat option) \<Rightarrow> u16 list \<Rightarrow> u32 \<Rightarrow> int \<Rightarrow> svc_state \<Rightarrow> (int \<times> svc_state) option" where
  "do_add_service alloc s handle allow_isolated st =
     (if handle = 0 \<or> length s = 0 \<or> length s > 127 then Some (-1, st)
      else (case find_svc s st of
          Some si \<Rightarrow>
            (case (if si_handle si \<noteq> 0 then svcinfo_death (si_ptr si) st else Some st) of
               None \<Rightarrow> None
             | Some st1 \<Rightarrow> Some (0, binder_link_to_death handle (si_ptr si) (binder_acquire handle (set_handle (si_ptr si) handle st1))))
        | None \<Rightarrow>
            (case alloc st of
               None \<Rightarrow> Some (-1, st)
             | Some p \<Rightarrow>
                 let si = \<lparr>si_ptr = p, si_handle = handle, si_allow_isolated = allow_isolated, si_name = s\<rparr>
                 in Some (0, binder_link_to_death handle p (binder_acquire handle (st\<lparr>svclist := si # svclist st\<rparr>))))))"

section \<open>Transactions\<close>

definition svcmgr_id :: "u16 list" where
  "svcmgr_id = map (\<lambda>c. word_of_nat (of_char c)) ''android.os.IServiceManager''"

definition PING_TRANSACTION :: u32 where "PING_TRANSACTION = 0x5f504e47"
definition SVC_MGR_GET_SERVICE :: u32 where "SVC_MGR_GET_SERVICE = 1"
definition SVC_MGR_CHECK_SERVICE :: u32 where "SVC_MGR_CHECK_SERVICE = 2"
definition SVC_MGR_ADD_SERVICE :: u32 where "SVC_MGR_ADD_SERVICE = 3"
definition SVC_MGR_LIST_SERVICES :: u32 where "SVC_MGR_LIST_SERVICES = 4"

lemmas svc_codes = PING_TRANSACTION_def SVC_MGR_GET_SERVICE_def SVC_MGR_CHECK_SERVICE_def SVC_MGR_ADD_SERVICE_def
  SVC_MGR_LIST_SERVICES_def

text \<open>
  \<open>svcmgr_handler\<close> for a transaction's target and code; the result is the status, the reply and the
  state. A string that was read is \<open>len\<close> units at its place.
\<close>

definition svcmgr_handler :: "(svc_state \<Rightarrow> nat option) \<Rightarrow> u64 \<Rightarrow> u32 \<Rightarrow> binder_io \<Rightarrow> binder_io \<Rightarrow> svc_state
    \<Rightarrow> (int \<times> binder_io \<times> svc_state) option" where
  "svcmgr_handler alloc target code msg reply st =
     (if target \<noteq> 0 then Some (-1, reply, st)
      else if code = PING_TRANSACTION then Some (0, reply, st)
      else
        let (strict_policy, msg1) = bio_get_uint32 msg; ((s, len), msg2) = bio_get_string16 msg1 in
        (case s of
           None \<Rightarrow> Some (-1, reply, st)
         | Some p \<Rightarrow>
             if len \<noteq> length svcmgr_id \<or> svcmgr_id \<noteq> units16 (io_data msg2) p len then Some (-1, reply, st)
             else if code = SVC_MGR_GET_SERVICE \<or> code = SVC_MGR_CHECK_SERVICE then
               (let ((s, len), msg3) = bio_get_string16 msg2 in
                case s of
                  None \<Rightarrow> Some (-1, reply, st)
                | Some p \<Rightarrow>
                    let handle = do_find_service (units16 (io_data msg3) p len) st in
                    if handle = 0 then Some (0, bio_put_uint32 0 reply, st)
                    else Some (0, bio_put_ref handle reply, st))
             else if code = SVC_MGR_ADD_SERVICE then
               (let ((s, len), msg3) = bio_get_string16 msg2 in
                case s of
                  None \<Rightarrow> Some (-1, reply, st)
                | Some p \<Rightarrow>
                    let (handle, msg4) = bio_get_ref msg3; (n, msg5) = bio_get_uint32 msg4;
                        allow_isolated = (if n \<noteq> 0 then 1 else 0) in
                    (case do_add_service alloc (units16 (io_data msg3) p len) handle allow_isolated st of
                       None \<Rightarrow> None
                     | Some (r, st1) \<Rightarrow> if r \<noteq> 0 then Some (-1, reply, st1) else Some (0, bio_put_uint32 0 reply, st1)))
             else if code = SVC_MGR_LIST_SERVICES then
               (let (n, msg3) = bio_get_uint32 msg2 in
                case drop (unat n) (svclist st) of
                  si # sis \<Rightarrow> Some (0, bio_put_string16 (Some (takeWhile (\<lambda>u. u \<noteq> 0) (si_name si))) reply, st)
                | [] \<Rightarrow> Some (-1, reply, st))
             else Some (-1, reply, st)))"

section \<open>The driver's commands\<close>

text \<open>The encoding of the driver's return codes: direction, size, type and number.\<close>

definition ioc :: "u32 \<Rightarrow> u32 \<Rightarrow> u32 \<Rightarrow> u32" where
  "ioc dir nr sz = push_bit 30 dir OR push_bit 16 sz OR push_bit 8 0x72 OR nr"

definition BR_NOOP :: u32 where "BR_NOOP = ioc 0 12 0"
definition BR_TRANSACTION_COMPLETE :: u32 where "BR_TRANSACTION_COMPLETE = ioc 0 6 0"
definition BR_INCREFS :: u32 where "BR_INCREFS = ioc 2 7 16"
definition BR_ACQUIRE :: u32 where "BR_ACQUIRE = ioc 2 8 16"
definition BR_RELEASE :: u32 where "BR_RELEASE = ioc 2 9 16"
definition BR_DECREFS :: u32 where "BR_DECREFS = ioc 2 10 16"
definition BR_TRANSACTION :: u32 where "BR_TRANSACTION = ioc 2 2 64"
definition BR_REPLY :: u32 where "BR_REPLY = ioc 2 3 64"
definition BR_DEAD_BINDER :: u32 where "BR_DEAD_BINDER = ioc 2 15 8"
definition BR_DEAD_REPLY :: u32 where "BR_DEAD_REPLY = ioc 0 5 0"
definition BR_FAILED_REPLY :: u32 where "BR_FAILED_REPLY = ioc 0 17 0"

definition of_le_bytes64 :: "u8 list \<Rightarrow> u64" where
  "of_le_bytes64 bs = ucast (of_le_bytes32 (take 4 bs)) OR push_bit 32 (ucast (of_le_bytes32 (take 4 (drop 4 bs))))"

text \<open>\<open>struct binder_transaction_data\<close>, 64 bytes.\<close>

record binder_txn =
  t_target :: u64
  t_code :: u32
  t_data_size :: nat
  t_offsets_size :: nat
  t_buffer :: u64
  t_offsets :: u64

definition txn_of :: "u8 list \<Rightarrow> binder_txn" where
  "txn_of b = \<lparr>t_target = of_le_bytes64 (get_at b 0 8), t_code = of_le_bytes32 (get_at b 16 4),
     t_data_size = unat (of_le_bytes64 (get_at b 32 8)), t_offsets_size = unat (of_le_bytes64 (get_at b 40 8)),
     t_buffer = of_le_bytes64 (get_at b 48 8), t_offsets = of_le_bytes64 (get_at b 56 8)\<rparr>"

text \<open>\<open>mapped a n\<close>: the \<open>n\<close> bytes at the address \<open>a\<close> of the memory the driver has mapped.\<close>

definition txn_io :: "(u64 \<Rightarrow> nat \<Rightarrow> u8 list) \<Rightarrow> binder_txn \<Rightarrow> binder_io" where
  "txn_io mapped t =
     bio_init_from_txn (mapped (t_buffer t) (t_data_size t))
       (map (\<lambda>i. of_le_bytes64 (get_at (mapped (t_offsets t) (t_offsets_size t)) (8 * i) 8)) [0..<t_offsets_size t div 8])"

definition binder_send_reply :: "binder_io \<Rightarrow> u64 \<Rightarrow> int \<Rightarrow> svc_state \<Rightarrow> svc_state" where
  "binder_send_reply reply buffer status st =
     st\<lparr>bcs := bcs st @ [BC_FREE_BUFFER buffer,
        (if status \<noteq> 0 then BC_REPLY_STATUS status
         else BC_REPLY (take (io_pos reply) (io_data reply)) (take (io_opos reply) (io_offs reply)))]\<rparr>"

type_synonym binder_handler = "u64 \<Rightarrow> u32 \<Rightarrow> binder_io \<Rightarrow> binder_io \<Rightarrow> svc_state \<Rightarrow> (int \<times> binder_io \<times> svc_state) option"

text \<open>
  \<open>binder_parse\<close> on the rest of the commands: \<open>r\<close> is the result so far, \<open>bio\<close> says whether a buffer
  for a reply is wanted, \<open>rep\<close> is the one filled in. \<open>junk\<close> is what the stack holds in \<open>rdata\<close>.
  \<^const>\<open>None\<close>: a command is cut off, or a death notification is for no service.
\<close>

function binder_parse :: "(u64 \<Rightarrow> nat \<Rightarrow> u8 list) \<Rightarrow> u8 list \<Rightarrow> binder_handler option \<Rightarrow> u8 list \<Rightarrow> int \<Rightarrow> bool \<Rightarrow> binder_io option
    \<Rightarrow> svc_state \<Rightarrow> (int \<times> binder_io option \<times> svc_state) option" where
  "binder_parse mapped junk func bytes r bio rep st =
     (if bytes = [] then Some (r, rep, st)
      else if length bytes < 4 then None
      else
        let cmd = of_le_bytes32 (take 4 bytes); rest = drop 4 bytes in
        if cmd = BR_NOOP \<or> cmd = BR_TRANSACTION_COMPLETE then binder_parse mapped junk func rest r bio rep st
        else if cmd = BR_INCREFS \<or> cmd = BR_ACQUIRE \<or> cmd = BR_RELEASE \<or> cmd = BR_DECREFS
          then binder_parse mapped junk func (drop 16 rest) r bio rep st
        else if cmd = BR_TRANSACTION then
          (if length rest < 64 then Some (-1, rep, st)
           else (case func of
               None \<Rightarrow> binder_parse mapped junk func (drop 64 rest) r bio rep st
             | Some f \<Rightarrow>
                 let t = txn_of rest in
                 (case f (t_target t) (t_code t) (txn_io mapped t) (bio_init junk 4) st of
                    None \<Rightarrow> None
                  | Some (res, reply, st1) \<Rightarrow>
                      binder_parse mapped junk func (drop 64 rest) r bio rep (binder_send_reply reply (t_buffer t) res st1))))
        else if cmd = BR_REPLY then
          (if length rest < 64 then Some (-1, rep, st)
           else binder_parse mapped junk func (drop 64 rest) 0 False (if bio then Some (txn_io mapped (txn_of rest)) else rep) st)
        else if cmd = BR_DEAD_BINDER then
          (if length rest < 8 then None
           else (case svcinfo_death (unat (of_le_bytes64 (take 8 rest))) st of
               None \<Rightarrow> None
             | Some st1 \<Rightarrow> binder_parse mapped junk func (drop 8 rest) r bio rep st1))
        else if cmd = BR_FAILED_REPLY \<or> cmd = BR_DEAD_REPLY then binder_parse mapped junk func rest (-1) bio rep st
        else Some (-1, rep, st))"
  by pat_completeness auto
termination
  by (relation "measure (\<lambda>(m, j, f, bytes, r). length bytes)") (auto simp: Let_def)

declare binder_parse.simps [simp del]

text \<open>
  \<open>binder_loop\<close> on the answers of the driver, each a failure or the bytes read: \<^const>\<open>True\<close> when
  the loop has ended, \<^const>\<open>False\<close> when it waits for the next answer.
\<close>

fun binder_loop_from :: "(u64 \<Rightarrow> nat \<Rightarrow> u8 list) \<Rightarrow> u8 list \<Rightarrow> binder_handler \<Rightarrow> u8 list option list \<Rightarrow> svc_state \<Rightarrow> (bool \<times> svc_state) option" where
  "binder_loop_from mapped junk func [] st = Some (False, st)"
| "binder_loop_from mapped junk func (None # answers) st = Some (True, st)"
| "binder_loop_from mapped junk func (Some bytes # answers) st =
     (case binder_parse mapped junk (Some func) bytes 1 False None st of
        None \<Rightarrow> None
      | Some (res, rep, st1) \<Rightarrow> if res \<le> 0 then Some (True, st1) else binder_loop_from mapped junk func answers st1)"

definition binder_loop :: "(u64 \<Rightarrow> nat \<Rightarrow> u8 list) \<Rightarrow> u8 list \<Rightarrow> binder_handler \<Rightarrow> u8 list option list \<Rightarrow> svc_state \<Rightarrow> (bool \<times> svc_state) option" where
  "binder_loop mapped junk func answers st = binder_loop_from mapped junk func answers (binder_write BC_ENTER_LOOPER st)"

text \<open>
  \<open>binder_call\<close>: the reply buffer \<open>rep\<close>, the answers of the driver. Its result is \<^const>\<open>None\<close> while it
  waits for the next answer.
\<close>

definition io_error :: binder_io where
  "io_error = \<lparr>io_data = [], io_pos = 0, data_avail = 0, io_offs = [], io_opos = 0, offs_avail = 0, io_flags = BIO_F_IOERROR\<rparr>"

fun binder_call_from :: "(u64 \<Rightarrow> nat \<Rightarrow> u8 list) \<Rightarrow> u8 list option list \<Rightarrow> binder_io \<Rightarrow> svc_state \<Rightarrow> (int option \<times> binder_io \<times> svc_state) option" where
  "binder_call_from mapped [] rep st = Some (None, rep, st)"
| "binder_call_from mapped (None # answers) rep st = Some (Some (-1), io_error, st)"
| "binder_call_from mapped (Some bytes # answers) rep st =
     (case binder_parse mapped [] None bytes 1 True (Some rep) st of
        None \<Rightarrow> None
      | Some (res, rep1, st1) \<Rightarrow>
          if res = 0 then Some (Some 0, the rep1, st1)
          else if res < 0 then Some (Some (-1), io_error, st1)
          else binder_call_from mapped answers (the rep1) st1)"

definition binder_call :: "(u64 \<Rightarrow> nat \<Rightarrow> u8 list) \<Rightarrow> binder_io \<Rightarrow> binder_io \<Rightarrow> u32 \<Rightarrow> u32 \<Rightarrow> u8 list option list \<Rightarrow> svc_state
    \<Rightarrow> (int option \<times> binder_io \<times> svc_state) option" where
  "binder_call mapped msg rep target code answers st =
     (if io_flags msg AND BIO_F_OVERFLOW \<noteq> 0 then Some (Some (-1), io_error, st)
      else binder_call_from mapped answers rep
        (binder_write (BC_TRANSACTION target code (take (io_pos msg) (io_data msg)) (take (io_opos msg) (io_offs msg))) st))"

text \<open>\<open>binder_done\<close>: the buffer's address is that of the transaction it was made from.\<close>

definition binder_done :: "u64 \<Rightarrow> binder_io \<Rightarrow> svc_state \<Rightarrow> binder_io \<times> svc_state" where
  "binder_done data0 rep st =
     (if io_flags rep AND BIO_F_SHARED \<noteq> 0 then (rep\<lparr>io_flags := 0\<rparr>, binder_write (BC_FREE_BUFFER data0) st) else (rep, st))"

text \<open>
  \<open>main\<close>: the answers to \<open>malloc\<close>, \<open>open\<close>, the version (an error or its number), \<open>mmap\<close>, becoming
  the context manager. The result of \<open>binder_open\<close> is whether there is a state, and whether the
  descriptor is left open.
\<close>

definition binder_open :: "bool \<Rightarrow> bool \<Rightarrow> int option \<Rightarrow> bool \<Rightarrow> bool \<times> bool" where
  "binder_open malloc_ok open_ok version mmap_ok =
     (if \<not> malloc_ok then (False, False)
      else if \<not> open_ok then (False, False)
      else if version \<noteq> Some 8 then (False, True)
      else if \<not> mmap_ok then (False, False)
      else (True, True))"

text \<open>\<open>main\<close> of the service manager: its exit code, or the run of the loop.\<close>

definition svcmgr_main :: "bool \<times> bool \<Rightarrow> bool \<Rightarrow> (svc_state \<Rightarrow> nat option) \<Rightarrow> (u64 \<Rightarrow> nat \<Rightarrow> u8 list) \<Rightarrow> u8 list
    \<Rightarrow> u8 list option list \<Rightarrow> (int option \<times> svc_state) option" where
  "svcmgr_main opened ctx_ok alloc mapped junk answers =
     (let st = \<lparr>svclist = [], bcs = []\<rparr> in
      if \<not> fst opened then Some (Some (-1), st)
      else if \<not> ctx_ok then Some (Some (-1), st)
      else map_option (\<lambda>(ended, st1). (if ended then Some 0 else None, st1)) (binder_loop mapped junk (svcmgr_handler alloc) answers st))"

section \<open>The registry\<close>

text \<open>
  What a registry of services promises its clients: a name is found with the handle it was last added
  with, until that service dies. \<open>step\<close> applies one operation, \<open>Add name handle\<close> or \<open>Died name\<close>.
\<close>

datatype ('n, 'h) reg_op = Add 'n 'h | Died 'n

fun reg_spec :: "'h \<Rightarrow> ('n, 'h) reg_op \<Rightarrow> ('n \<Rightarrow> 'h) \<Rightarrow> 'n \<Rightarrow> 'h" where
  "reg_spec nil (Add n h) m = m(n := h)"
| "reg_spec nil (Died n) m = m(n := nil)"

locale registry =
  fixes inv :: "'s \<Rightarrow> bool" and valid :: "('n, 'h) reg_op \<Rightarrow> 's \<Rightarrow> bool" and lookup :: "'s \<Rightarrow> 'n \<Rightarrow> 'h" and nil :: 'h
    and step :: "('n, 'h) reg_op \<Rightarrow> 's \<Rightarrow> 's option"
  assumes step_ok: "inv s \<Longrightarrow> valid op s \<Longrightarrow> \<exists>s'. step op s = Some s' \<and> inv s' \<and> lookup s' = reg_spec nil op (lookup s)"
begin

text \<open>Running operations that are valid when their turn comes.\<close>

fun run :: "('n, 'h) reg_op list \<Rightarrow> 's \<Rightarrow> 's option" where
  "run [] s = Some s"
| "run (x # xs) s = (if valid x s then Option.bind (step x s) (run xs) else None)"

lemma run_refines: "inv s \<Longrightarrow> run ops s = Some s' \<Longrightarrow> inv s' \<and> lookup s' = fold (reg_spec nil) ops (lookup s)"
proof (induction ops arbitrary: s)
  case (Cons x ops)
  then have v: "valid x s" by (simp split: if_splits)
  obtain s1 where s1: "step x s = Some s1" "inv s1" "lookup s1 = reg_spec nil x (lookup s)"
    using step_ok[OF Cons.prems(1) v] by blast
  then show ?case using Cons.IH[OF s1(2)] Cons.prems(2) v by simp
qed simp

end

section \<open>Invariant\<close>

definition svc_ok :: "svc_state \<Rightarrow> bool" where
  "svc_ok st \<longleftrightarrow> distinct (map si_ptr (svclist st)) \<and> distinct (map si_name (svclist st))
     \<and> list_all (\<lambda>n. 0 < length n \<and> length n \<le> 127) (map si_name (svclist st))"

definition alloc_ok :: "(svc_state \<Rightarrow> nat option) \<Rightarrow> bool" where
  "alloc_ok alloc \<longleftrightarrow> (\<forall>st p. alloc st = Some p \<longrightarrow> p \<notin> si_ptr ` set (svclist st))"

text \<open>The references the manager holds on a handle, and the services that have it.\<close>

definition refs :: "svc_state \<Rightarrow> u32 \<Rightarrow> int" where
  "refs st h = int (length (filter (\<lambda>c. c = BC_ACQUIRE h) (bcs st))) - int (length (filter (\<lambda>c. c = BC_RELEASE h) (bcs st)))"

definition users :: "svc_state \<Rightarrow> u32 \<Rightarrow> nat" where
  "users st h = length (filter (\<lambda>si. si_handle si = h) (svclist st))"

definition svc_inv :: "svc_state \<Rightarrow> bool" where
  "svc_inv st \<longleftrightarrow> svc_ok st \<and> (\<forall>h. h \<noteq> 0 \<longrightarrow> refs st h = int (users st h))"

lemma find_svc_Some: "find_svc s st = Some si \<Longrightarrow> si \<in> set (svclist st) \<and> si_name si = s"
  by (auto simp: find_svc_def find_Some_iff)

lemma find_svc_None: "find_svc s st = None \<longleftrightarrow> s \<notin> si_name ` set (svclist st)"
  by (auto simp: find_svc_def find_None_iff)

lemma find_svc_member:
  assumes "svc_ok st" "si \<in> set (svclist st)"
  shows "find_svc (si_name si) st = Some si"
proof -
  obtain y where y: "find_svc (si_name si) st = Some y" using assms(2) find_svc_None by (metis imageI option.exhaust)
  then have "y = si" using find_svc_Some[OF y] assms by (auto simp: svc_ok_def distinct_map dest: inj_onD)
  then show ?thesis using y by simp
qed

text \<open>The service at an address stands at one place of the list, which is all an update changes.\<close>

lemma set_handle_split:
  assumes "svc_ok st" "si \<in> set (svclist st)"
  obtains xs ys where "svclist st = xs @ si # ys" "\<And>h. svclist (set_handle (si_ptr si) h st) = xs @ si\<lparr>si_handle := h\<rparr> # ys"
proof -
  obtain xs ys where xs: "svclist st = xs @ si # ys" using assms(2) by (meson split_list)
  then have "si_ptr si \<notin> si_ptr ` set xs" "si_ptr si \<notin> si_ptr ` set ys" using assms(1) by (auto simp: svc_ok_def)
  then have "map (\<lambda>x. if si_ptr x = si_ptr si then x\<lparr>si_handle := h\<rparr> else x) xs = xs"
    "map (\<lambda>x. if si_ptr x = si_ptr si then x\<lparr>si_handle := h\<rparr> else x) ys = ys" for h
    by (auto intro!: map_idI simp: image_iff)
  then show thesis using that[OF xs] by (simp add: set_handle_def xs)
qed

lemma set_handle_ok: "svc_ok st \<Longrightarrow> svc_ok (set_handle p h st)"
proof -
  have "map si_ptr (svclist (set_handle p h st)) = map si_ptr (svclist st)" "map si_name (svclist (set_handle p h st)) = map si_name (svclist st)"
    by (simp_all add: set_handle_def)
  then show "svc_ok st \<Longrightarrow> svc_ok (set_handle p h st)"
    unfolding svc_ok_def by (simp only:)
qed

lemma set_handle_users:
  assumes "svc_ok st" "si \<in> set (svclist st)"
  shows "int (users (set_handle (si_ptr si) h st) k) = int (users st k) - of_bool (si_handle si = k) + of_bool (h = k)"
proof -
  obtain xs ys where xs: "svclist st = xs @ si # ys" "\<And>h. svclist (set_handle (si_ptr si) h st) = xs @ si\<lparr>si_handle := h\<rparr> # ys"
    using set_handle_split[OF assms] by metis
  show ?thesis unfolding users_def by (simp add: xs)
qed

lemma set_handle_lookup:
  assumes "svc_ok st" "si \<in> set (svclist st)"
  shows "do_find_service m (set_handle (si_ptr si) h st) = (if m = si_name si then h else do_find_service m st)"
proof -
  obtain xs ys where xs: "svclist st = xs @ si # ys" "\<And>h. svclist (set_handle (si_ptr si) h st) = xs @ si\<lparr>si_handle := h\<rparr> # ys"
    using set_handle_split[OF assms] by metis
  have "si_name si \<notin> si_name ` set xs" using assms(1) xs(1) by (auto simp: svc_ok_def)
  then have "find (\<lambda>x. length m = length (si_name x) \<and> m = si_name x) xs = None" if "m = si_name si"
    using that by (auto simp: find_None_iff)
  moreover have "find P (xs @ zs) = (case find P xs of None \<Rightarrow> find P zs | Some x \<Rightarrow> Some x)" for P zs
    by (induction xs) auto
  ultimately show ?thesis
    by (auto simp: do_find_service_def find_svc_def xs split: option.split)
qed

lemma bcs_simps [simp]:
  "svclist (binder_write c st) = svclist st" "users (binder_write c st) h = users st h" "svc_ok (binder_write c st) = svc_ok st"
  "do_find_service m (binder_write c st) = do_find_service m st" "bcs (set_handle p h st) = bcs st" "refs (set_handle p h' st) h = refs st h"
  "find_svc m (binder_write c st) = find_svc m st"
  by (simp_all add: binder_write_def users_def svc_ok_def do_find_service_def find_svc_def set_handle_def refs_def)

lemma refs_write [simp]:
  "refs (binder_write (BC_ACQUIRE k) st) h = refs st h + of_bool (k = h)"
  "refs (binder_write (BC_RELEASE k) st) h = refs st h - of_bool (k = h)"
  "refs (binder_write (BC_REQUEST_DEATH_NOTIFICATION k d) st) h = refs st h"
  "refs (binder_write BC_ENTER_LOOPER st) h = refs st h"
  by (simp_all add: refs_def binder_write_def)

lemma set_handle_write [simp]: "set_handle p h (binder_write c st) = binder_write c (set_handle p h st)"
  by (simp add: set_handle_def binder_write_def)

text \<open>A service dies: its name is no longer found, its reference is given back.\<close>

lemma svcinfo_death_step:
  assumes "svc_inv st" "si \<in> set (svclist st)"
  shows "\<exists>st'. svcinfo_death (si_ptr si) st = Some st' \<and> svc_inv st' \<and> map si_name (svclist st') = map si_name (svclist st)
    \<and> map si_ptr (svclist st') = map si_ptr (svclist st)
    \<and> (\<lambda>m. do_find_service m st') = (\<lambda>m. do_find_service m st)(si_name si := 0)"
proof -
  have ok: "svc_ok st" using assms(1) by (simp add: svc_inv_def)
  obtain y where y: "find (\<lambda>x. si_ptr x = si_ptr si) (svclist st) = Some y"
    using assms(2) by (cases "find (\<lambda>x. si_ptr x = si_ptr si) (svclist st)") (auto simp: find_None_iff)
  then have "y \<in> set (svclist st)" "si_ptr y = si_ptr si" by (auto simp: find_Some_iff)
  then have "y = si" using assms(2) ok unfolding svc_ok_def distinct_map by (meson inj_onD)
  then have death: "svcinfo_death (si_ptr si) st = Some (if si_handle si \<noteq> 0
      then set_handle (si_ptr si) 0 (binder_release (si_handle si) st) else st)"
    using y by (simp add: svcinfo_death_def)
  show ?thesis
  proof (cases "si_handle si = 0")
    case True
    then have "do_find_service (si_name si) st = 0" using find_svc_member[OF ok assms(2)] by (simp add: do_find_service_def)
    then show ?thesis using death True assms(1) by (auto simp: fun_eq_iff)
  next
    case False
    then have "svc_inv (set_handle (si_ptr si) 0 (binder_release (si_handle si) st))"
      using assms set_handle_users[OF ok assms(2), of 0] by (simp add: svc_inv_def binder_release_def set_handle_ok)
    then show ?thesis using death False set_handle_lookup[OF ok assms(2), of _ 0]
      by (auto simp: fun_eq_iff binder_release_def) (simp_all add: set_handle_def)
  qed
qed

text \<open>A service without a handle gets one.\<close>

lemma give_handle:
  assumes "svc_inv st" "si \<in> set (svclist st)" "si_handle si = 0" "h \<noteq> 0"
  defines "st' \<equiv> binder_link_to_death h (si_ptr si) (binder_acquire h (set_handle (si_ptr si) h st))"
  shows "svc_inv st' \<and> (\<lambda>m. do_find_service m st') = (\<lambda>m. do_find_service m st)(si_name si := h)"
proof -
  have ok: "svc_ok st" using assms(1) by (simp add: svc_inv_def)
  have "svc_inv st'"
    using assms(1,3,4) set_handle_users[OF ok assms(2), of h] by (simp add: svc_inv_def st'_def binder_link_to_death_def binder_acquire_def set_handle_ok)
  then show ?thesis
    using set_handle_lookup[OF ok assms(2), of _ h] by (auto simp: st'_def fun_eq_iff binder_link_to_death_def binder_acquire_def)
qed

lemma do_add_known:
  assumes "svc_inv st" "find_svc s st = Some si" "h \<noteq> 0"
  obtains st1 where "(if si_handle si \<noteq> 0 then svcinfo_death (si_ptr si) st else Some st) = Some st1"
    "svc_inv (binder_link_to_death h (si_ptr si) (binder_acquire h (set_handle (si_ptr si) h st1)))"
    "(\<lambda>m. do_find_service m (binder_link_to_death h (si_ptr si) (binder_acquire h (set_handle (si_ptr si) h st1))))
      = (\<lambda>m. do_find_service m st)(s := h)"
proof -
  have si: "si \<in> set (svclist st)" "si_name si = s" using find_svc_Some[OF assms(2)] by simp_all
  show thesis
  proof (cases "si_handle si = 0")
    case True
    then show thesis using that[of st] give_handle[OF assms(1) si(1) True assms(3)] si(2) by simp
  next
    case False
    obtain st1 where st1: "svcinfo_death (si_ptr si) st = Some st1" "svc_inv st1" "map si_name (svclist st1) = map si_name (svclist st)"
      "map si_ptr (svclist st1) = map si_ptr (svclist st)" "(\<lambda>m. do_find_service m st1) = (\<lambda>m. do_find_service m st)(s := 0)"
      using svcinfo_death_step[OF assms(1) si(1)] si(2) by metis
    obtain i where i: "i < length (svclist st)" "svclist st ! i = si" using si(1) by (auto simp: in_set_conv_nth)
    have len: "length (svclist st1) = length (svclist st)" using st1(3) by (metis length_map)
    let ?s1 = "svclist st1 ! i"
    have s1: "?s1 \<in> set (svclist st1)" "si_ptr ?s1 = si_ptr si" "si_name ?s1 = s"
      using i len nth_map[of i "svclist st1" si_ptr] nth_map[of i "svclist st1" si_name] si(2) by (simp_all add: st1(3,4))
    have "do_find_service s st1 = 0" using st1(5) by (metis fun_upd_same)
    then have "si_handle ?s1 = 0"
      using find_svc_member[of st1 ?s1] s1 st1(2) by (simp add: do_find_service_def svc_inv_def)
    from give_handle[OF st1(2) s1(1) this assms(3)] show thesis
      using that[of st1] False st1 s1 by (simp add: fun_eq_iff)
  qed
qed

lemma do_add_step:
  assumes "svc_inv st" "alloc_ok alloc"
  shows "\<exists>r st'. do_add_service alloc s h a st = Some (r, st') \<and> svc_inv st'
    \<and> (if h \<noteq> 0 \<and> 0 < length s \<and> length s \<le> 127 \<and> (find_svc s st \<noteq> None \<or> alloc st \<noteq> None)
       then r = 0 \<and> (\<lambda>m. do_find_service m st') = (\<lambda>m. do_find_service m st)(s := h) else r = -1 \<and> st' = st)"
proof (cases "h = 0 \<or> length s = 0 \<or> length s > 127")
  case True
  then show ?thesis using assms(1) by (auto simp: do_add_service_def)
next
  case False
  show ?thesis
  proof (cases "find_svc s st")
    case (Some si)
    obtain st1 where "(if si_handle si \<noteq> 0 then svcinfo_death (si_ptr si) st else Some st) = Some st1"
      "svc_inv (binder_link_to_death h (si_ptr si) (binder_acquire h (set_handle (si_ptr si) h st1)))"
      "(\<lambda>m. do_find_service m (binder_link_to_death h (si_ptr si) (binder_acquire h (set_handle (si_ptr si) h st1))))
        = (\<lambda>m. do_find_service m st)(s := h)"
      using do_add_known[OF assms(1) Some] False by metis
    then show ?thesis using False Some by (simp add: do_add_service_def)
  next
    case None
    show ?thesis
    proof (cases "alloc st")
      case None
      then show ?thesis using False \<open>find_svc s st = None\<close> assms(1) by (simp add: do_add_service_def)
    next
      case (Some p)
      let ?si = "\<lparr>si_ptr = p, si_handle = h, si_allow_isolated = a, si_name = s\<rparr>"
      let ?st' = "binder_link_to_death h p (binder_acquire h (st\<lparr>svclist := ?si # svclist st\<rparr>))"
      have "svc_inv ?st'"
        using assms Some None False find_svc_None[of s st]
        by (auto simp: svc_inv_def svc_ok_def alloc_ok_def binder_link_to_death_def binder_acquire_def users_def refs_def binder_write_def)
      moreover have "(\<lambda>m. do_find_service m ?st') = (\<lambda>m. do_find_service m st)(s := h)"
        by (auto simp: fun_eq_iff do_find_service_def find_svc_def binder_link_to_death_def binder_acquire_def binder_write_def)
      ultimately show ?thesis using False None Some by (simp add: do_add_service_def Let_def)
    qed
  qed
qed

end
