(* ===== verification/SvcServe.thy ===== *)
theory SvcServe
  imports SvcManager
begin

text \<open>
  What the service manager guarantees: its list of services is a registry (the locale of
  \<open>SvcManager\<close>), whatever the driver returns it keeps the references of the handles it has, and a
  service that was added by a transaction is found by a transaction.
\<close>

section \<open>The list of services is a registry\<close>

text \<open>\<open>Died n\<close>: the driver reports the death of the service with the name \<open>n\<close>.\<close>

fun svc_step :: "(svc_state \<Rightarrow> nat option) \<Rightarrow> (u16 list, u32) reg_op \<Rightarrow> svc_state \<Rightarrow> svc_state option" where
  "svc_step alloc (Add n h) st = map_option snd (do_add_service alloc n h 0 st)"
| "svc_step alloc (Died n) st = Option.bind (find_svc n st) (\<lambda>si. svcinfo_death (si_ptr si) st)"

fun svc_valid :: "(svc_state \<Rightarrow> nat option) \<Rightarrow> (u16 list, u32) reg_op \<Rightarrow> svc_state \<Rightarrow> bool" where
  "svc_valid alloc (Add n h) st \<longleftrightarrow> h \<noteq> 0 \<and> 0 < length n \<and> length n \<le> 127 \<and> (find_svc n st \<noteq> None \<or> alloc st \<noteq> None)"
| "svc_valid alloc (Died n) st \<longleftrightarrow> find_svc n st \<noteq> None"

lemma svc_step_ok:
  assumes "alloc_ok alloc" "svc_inv st" "svc_valid alloc x st"
  shows "\<exists>st'. svc_step alloc x st = Some st' \<and> svc_inv st'
    \<and> (\<lambda>m. do_find_service m st') = reg_spec 0 x (\<lambda>m. do_find_service m st)"
proof (cases x)
  case (Add n h)
  then show ?thesis using do_add_step[OF assms(2,1), of n h 0] assms(3) by auto
next
  case (Died n)
  then obtain si where si: "find_svc n st = Some si" using assms(3) by auto
  then show ?thesis using svcinfo_death_step[OF assms(2), of si] find_svc_Some[OF si] Died by auto
qed

interpretation svc: registry "\<lambda>st. alloc_ok alloc \<and> svc_inv st" "svc_valid alloc" "\<lambda>st m. do_find_service m st" 0 "svc_step alloc" for alloc
  by unfold_locales (use svc_step_ok in blast)

text \<open>A run of operations, each of them valid when its turn comes.\<close>

fun svc_run :: "(svc_state \<Rightarrow> nat option) \<Rightarrow> (u16 list, u32) reg_op list \<Rightarrow> svc_state \<Rightarrow> svc_state option" where
  "svc_run alloc [] st = Some st"
| "svc_run alloc (x # xs) st = (if svc_valid alloc x st then Option.bind (svc_step alloc x st) (svc_run alloc xs) else None)"

lemma svc_run_eq: "svc_run alloc xs st = svc.run alloc xs st"
proof (induction xs arbitrary: st)
  case (Cons x xs)
  then have "svc_run alloc xs = svc.run alloc xs" by blast
  then show ?case by simp
qed simp

lemma svc_inv_start: "svc_inv \<lparr>svclist = [], bcs = []\<rparr>"
  by (simp add: svc_inv_def svc_ok_def refs_def users_def)

text \<open>C9: From the empty list on, after any run of additions and deaths a name is found with the handle
  it was last added with, or not at all if its service has died since; and for every handle the manager
  holds as many references as services have it.\<close>

theorem services_refine_registry:
  assumes "alloc_ok alloc" "svc_run alloc ops \<lparr>svclist = [], bcs = []\<rparr> = Some st"
  shows "(\<lambda>n. do_find_service n st) = fold (reg_spec 0) ops (\<lambda>n. 0) \<and> (\<forall>h. h \<noteq> 0 \<longrightarrow> refs st h = int (users st h))"
proof -
  have "(\<lambda>n. do_find_service n \<lparr>svclist = [], bcs = []\<rparr>) = (\<lambda>n. 0)" by (simp add: do_find_service_def find_svc_def)
  then show ?thesis
    using svc.run_refines[OF conjI[OF assms(1) svc_inv_start], of ops st] assms(2) by (simp add: svc_run_eq svc_inv_def)
qed

text \<open>An allocator: an address above those of all services.\<close>

definition above :: "svc_state \<Rightarrow> nat option" where
  "above st = Some (Suc (sum_list (map si_ptr (svclist st))))"

lemma above_ok: "alloc_ok above"
proof -
  have "p \<le> sum_list (map si_ptr (svclist st))" if "p \<in> si_ptr ` set (svclist st)" for p st
    using that member_le_sum_list[of p "map si_ptr (svclist st)"] by auto
  then show ?thesis by (fastforce simp: alloc_ok_def above_def)
qed

theorem services_refine_registry_witness:
  "\<exists>st. svc_run above [Add [0x61] 7, Add [0x62] 7, Add [0x61] 8, Died [0x62]] \<lparr>svclist = [], bcs = []\<rparr> = Some st
    \<and> do_find_service [0x61] st = 8 \<and> do_find_service [0x62] st = 0 \<and> refs st 7 = 0 \<and> refs st 8 = 1"
proof -
  have "\<exists>st. svc_run above [Add [0x61] 7, Add [0x62] 7, Add [0x61] 8, Died [0x62]] \<lparr>svclist = [], bcs = []\<rparr> = Some st"
    and "svc_run above [Add [0x61] 7, Add [0x62] 7, Add [0x61] 8, Died [0x62]] \<lparr>svclist = [], bcs = []\<rparr> = Some st
      \<Longrightarrow> users st 7 = 0 \<and> users st 8 = 1" for st
    by (auto simp: find_svc_def do_add_service_def svcinfo_death_def above_def binder_link_to_death_def binder_acquire_def binder_release_def
        binder_write_def set_handle_def users_def Let_def)
  then obtain st where st: "svc_run above [Add [0x61] 7, Add [0x62] 7, Add [0x61] 8, Died [0x62]] \<lparr>svclist = [], bcs = []\<rparr> = Some st"
    "users st 7 = 0" "users st 8 = 1" by blast
  from services_refine_registry[OF above_ok st(1)] st show ?thesis by (auto simp: fun_eq_iff)
qed

section \<open>Whatever the driver returns\<close>

lemmas bc_defs = binder_acquire_def binder_release_def binder_link_to_death_def binder_write_def

text \<open>The answers given to transactions.\<close>

fun is_answer :: "binder_cmd \<Rightarrow> bool" where
  "is_answer (BC_REPLY d offs) \<longleftrightarrow> True"
| "is_answer (BC_REPLY_STATUS n) \<longleftrightarrow> True"
| "is_answer _ \<longleftrightarrow> False"

definition answers :: "svc_state \<Rightarrow> nat" where "answers st = length (filter is_answer (bcs st))"

text \<open>What every step keeps: the invariant, and the services that are there.\<close>

definition kept :: "svc_state \<Rightarrow> svc_state \<Rightarrow> bool" where
  "kept st st' \<longleftrightarrow> svc_inv st' \<and> si_ptr ` set (svclist st) \<subseteq> si_ptr ` set (svclist st')"

lemma kept_refl: "svc_inv st \<Longrightarrow> kept st st"
  by (simp add: kept_def)

lemma kept_trans: "kept a b \<Longrightarrow> kept b c \<Longrightarrow> kept a c"
  by (auto simp: kept_def)

lemma set_handle_ptrs [simp]: "map si_ptr (svclist (set_handle p h st)) = map si_ptr (svclist st)"
  by (simp add: set_handle_def)

lemma death_keeps:
  assumes "svcinfo_death p st = Some st'"
  shows "map si_ptr (svclist st') = map si_ptr (svclist st) \<and> answers st' = answers st"
  using assms by (auto simp: svcinfo_death_def answers_def bc_defs set_handle_def split: option.splits)

lemma add_keeps:
  assumes "do_add_service alloc s h a st = Some (r, st')"
  shows "si_ptr ` set (svclist st) \<subseteq> si_ptr ` set (svclist st') \<and> answers st' = answers st"
proof (cases "find_svc s st")
  case None
  then show ?thesis using assms by (auto simp: do_add_service_def answers_def bc_defs Let_def split: if_splits option.splits)
next
  case (Some si)
  show ?thesis
  proof (cases "h = 0 \<or> length s = 0 \<or> length s > 127")
    case False
    then obtain st1 where st1: "(if si_handle si \<noteq> 0 then svcinfo_death (si_ptr si) st else Some st) = Some st1"
      "st' = binder_link_to_death h (si_ptr si) (binder_acquire h (set_handle (si_ptr si) h st1))"
      using assms Some by (auto simp: do_add_service_def split: option.splits if_splits)
    then have "map si_ptr (svclist st1) = map si_ptr (svclist st) \<and> answers st1 = answers st"
      using death_keeps by (metis option.inject)
    moreover have "svclist st' = svclist (set_handle (si_ptr si) h st1)" "answers st' = answers st1"
      by (simp_all add: st1(2) bc_defs answers_def)
    ultimately show ?thesis using set_handle_ptrs[of "si_ptr si" h st1] by (metis image_set order_refl)
  qed (use assms in \<open>auto simp: do_add_service_def\<close>)
qed

definition add_result :: "binder_io \<Rightarrow> (int \<times> svc_state) option \<Rightarrow> (int \<times> binder_io \<times> svc_state) option" where
  "add_result reply res = (case res of
     None \<Rightarrow> None
   | Some (r, st1) \<Rightarrow> if r \<noteq> 0 then Some (-1, reply, st1) else Some (0, bio_put_uint32 0 reply, st1))"

lemma handler_cases:
  "(\<exists>r rep. svcmgr_handler alloc t c msg reply st = Some (r, rep, st))
   \<or> (\<exists>s h a. svcmgr_handler alloc t c msg reply st = add_result reply (do_add_service alloc s h a st))"
proof -
  obtain w msg1 where m1: "bio_get_uint32 msg = (w, msg1)" by fastforce
  obtain p len msg2 where m2: "bio_get_string16 msg1 = ((p, len), msg2)" by (metis prod.exhaust)
  obtain p' len' msg3 where m3: "bio_get_string16 msg2 = ((p', len'), msg3)" by (metis prod.exhaust)
  obtain h msg4 where m4: "bio_get_ref msg3 = (h, msg4)" by fastforce
  obtain n msg5 where m5: "bio_get_uint32 msg4 = (n, msg5)" by fastforce
  obtain k msg6 where m6: "bio_get_uint32 msg2 = (k, msg6)" by fastforce
  show ?thesis
  proof (cases "\<exists>q. t = 0 \<and> c \<noteq> PING_TRANSACTION \<and> p = Some q \<and> len = length svcmgr_id \<and> svcmgr_id = units16 (io_data msg2) q len
      \<and> c = SVC_MGR_ADD_SERVICE \<and> p' \<noteq> None")
    case True
    then obtain q' where "svcmgr_handler alloc t c msg reply st
      = add_result reply (do_add_service alloc (units16 (io_data msg3) q' len') h (if n \<noteq> 0 then 1 else 0) st)"
      by (auto simp: svcmgr_handler_def m1 m2 m3 m4 m5 add_result_def svc_codes)
    then show ?thesis by blast
  next
    case False
    then have "\<exists>r rep. svcmgr_handler alloc t c msg reply st = Some (r, rep, st)"
      by (cases p; cases p'; cases "drop (unat k) (svclist st)") (auto simp: svcmgr_handler_def m1 m2 m3 m4 m5 m6 Let_def)
    then show ?thesis by blast
  qed
qed

lemma handler_keeps:
  assumes "svc_inv st" "alloc_ok alloc"
  shows "\<exists>r rep st'. svcmgr_handler alloc t c msg reply st = Some (r, rep, st') \<and> kept st st' \<and> answers st' = answers st"
  using handler_cases[of alloc t c msg reply st]
proof (elim disjE exE)
  fix r rep assume "svcmgr_handler alloc t c msg reply st = Some (r, rep, st)"
  then show ?thesis using kept_refl[OF assms(1)] by blast
next
  fix s h a
  assume eq: "svcmgr_handler alloc t c msg reply st = add_result reply (do_add_service alloc s h a st)"
  obtain r st' where st': "do_add_service alloc s h a st = Some (r, st')" "svc_inv st'" using do_add_step[OF assms] by blast
  then show ?thesis using eq add_keeps[OF st'(1)] by (auto simp: kept_def add_result_def)
qed

lemma reply_keeps: "svc_inv st \<Longrightarrow> kept st (binder_send_reply reply b r st) \<and> answers (binder_send_reply reply b r st) = Suc (answers st)"
  by (auto simp: kept_def svc_inv_def svc_ok_def users_def refs_def binder_send_reply_def answers_def)

lemma svcinfo_death_inv: "svcinfo_death p st = Some st' \<Longrightarrow> svc_inv st \<Longrightarrow> svc_inv st'"
proof -
  assume d: "svcinfo_death p st = Some st'" and inv: "svc_inv st"
  then obtain si where "find (\<lambda>si. si_ptr si = p) (svclist st) = Some si" by (auto simp: svcinfo_death_def split: option.splits)
  then have "si \<in> set (svclist st)" "si_ptr si = p" by (auto simp: find_Some_iff)
  then show ?thesis using svcinfo_death_step[OF inv] d by fastforce
qed

lemma parse_keeps:
  assumes "binder_parse mapped junk (Some (svcmgr_handler alloc)) bytes r bio rep st = Some (res, rep', st')"
    "svc_inv st" "alloc_ok alloc"
  shows "svc_inv st'"
  using assms(1,2)
proof (induction "length bytes" arbitrary: bytes r bio rep st rule: less_induct)
  case less
  define cmd where "cmd = of_le_bytes32 (take 4 bytes)"
  define more' where "more' = drop 4 bytes"
  let ?P = "\<lambda>n r bio rep st. binder_parse mapped junk (Some (svcmgr_handler alloc)) (drop n more') r bio rep st"
  note parse = less.prems(1)[unfolded binder_parse.simps[of _ _ _ bytes] Let_def, folded cmd_def more'_def]
  show ?case
  proof (cases "length bytes < 4")
    case True
    then show ?thesis using parse less.prems(2) by (simp split: if_splits)
  next
    case False
    then have IH: "?P n r bio rep s = Some (res, rep', st') \<Longrightarrow> svc_inv s \<Longrightarrow> svc_inv st'" for n r bio rep s
      using less.hyps[of "drop n more'"] by (simp add: more'_def)
    have dead: "svcinfo_death p st = Some st1 \<Longrightarrow> svc_inv st1" for p st1
      using svcinfo_death_inv less.prems(2) by blast
    have txn: "svcmgr_handler alloc t c msg reply st = Some (x, y, st1) \<Longrightarrow> svc_inv (binder_send_reply y b x st1)" for t c msg reply x y b st1
      using handler_keeps[OF less.prems(2) assms(3), of t c msg reply] reply_keeps by (auto simp: kept_def)
    have "bytes \<noteq> []" using False by auto
    then show ?thesis
      using parse False less.prems(2) dead txn IH[of 0]
      apply (simp split: if_splits option.splits prod.splits)
      apply (metis IH)+
      done
  qed
qed

lemma loop_keeps:
  assumes "alloc_ok alloc" "binder_loop_from mapped junk (svcmgr_handler alloc) ans st = Some (e, st')" "svc_inv st"
  shows "svc_inv st'"
  using assms(2,3)
proof (induction ans arbitrary: st)
  case (Cons a ans)
  show ?case
  proof (cases a)
    case (Some bytes)
    then obtain res rep st1 where "binder_parse mapped junk (Some (svcmgr_handler alloc)) bytes 1 False None st = Some (res, rep, st1)"
      using Cons.prems(1) by (auto split: option.splits)
    then show ?thesis
      using Some Cons.prems Cons.IH parse_keeps[OF _ Cons.prems(2) assms(1)] by (auto split: if_splits)
  qed (use Cons.prems in simp)
qed simp

lemma svc_inv_looper: "svc_inv (binder_write BC_ENTER_LOOPER \<lparr>svclist = [], bcs = []\<rparr>)"
  by (simp add: svc_inv_def svc_ok_def refs_def users_def binder_write_def)

text \<open>Nothing but undefined behaviour of \<open>binder_parse\<close> breaks the invariant, whatever bytes arrive.\<close>

lemma binder_loop_keeps_inv:
  assumes "alloc_ok alloc" "binder_loop mapped junk (svcmgr_handler alloc) ans \<lparr>svclist = [], bcs = []\<rparr> = Some (e, st)"
  shows "svc_inv st"
  by (rule loop_keeps[OF assms(1) assms(2)[unfolded binder_loop_def] svc_inv_looper])

section \<open>Whole commands\<close>

text \<open>The commands a driver sends to a service manager, as it lays them out.\<close>

datatype br_cmd = BrNoop | BrComplete | BrRefs u32 "u8 list" | BrTxn "u8 list" | BrDead u64

fun br_ok :: "br_cmd \<Rightarrow> bool" where
  "br_ok (BrRefs c b) \<longleftrightarrow> (c = BR_INCREFS \<or> c = BR_ACQUIRE \<or> c = BR_RELEASE \<or> c = BR_DECREFS) \<and> length b = 16"
| "br_ok (BrTxn b) \<longleftrightarrow> length b = 64"
| "br_ok _ \<longleftrightarrow> True"

fun br_bytes :: "br_cmd \<Rightarrow> u8 list" where
  "br_bytes BrNoop = le_bytes32 BR_NOOP"
| "br_bytes BrComplete = le_bytes32 BR_TRANSACTION_COMPLETE"
| "br_bytes (BrRefs c b) = le_bytes32 c @ b"
| "br_bytes (BrTxn b) = le_bytes32 BR_TRANSACTION @ b"
| "br_bytes (BrDead p) = le_bytes32 BR_DEAD_BINDER @ le64 p"

text \<open>What the service manager does for each of them.\<close>

definition serve_txn :: "(svc_state \<Rightarrow> nat option) \<Rightarrow> (u64 \<Rightarrow> nat \<Rightarrow> u8 list) \<Rightarrow> u8 list \<Rightarrow> binder_txn \<Rightarrow> svc_state \<Rightarrow> svc_state option" where
  "serve_txn alloc mapped junk t st =
     map_option (\<lambda>(r, reply, st1). binder_send_reply reply (t_buffer t) r st1)
       (svcmgr_handler alloc (t_target t) (t_code t) (txn_io mapped t) (bio_init junk 4) st)"

fun serve :: "(svc_state \<Rightarrow> nat option) \<Rightarrow> (u64 \<Rightarrow> nat \<Rightarrow> u8 list) \<Rightarrow> u8 list \<Rightarrow> br_cmd \<Rightarrow> svc_state \<Rightarrow> svc_state option" where
  "serve alloc mapped junk (BrTxn b) st = serve_txn alloc mapped junk (txn_of b) st"
| "serve alloc mapped junk (BrDead p) st = svcinfo_death (unat p) st"
| "serve alloc mapped junk _ st = Some st"

lemma br_codes:
  "BR_NOOP = 0x720c" "BR_TRANSACTION_COMPLETE = 0x7206" "BR_INCREFS = 0x80107207" "BR_ACQUIRE = 0x80107208"
  "BR_RELEASE = 0x80107209" "BR_DECREFS = 0x8010720a" "BR_TRANSACTION = 0x80407202" "BR_REPLY = 0x80407203"
  "BR_DEAD_BINDER = 0x8008720f"
  by (simp_all add: BR_NOOP_def BR_TRANSACTION_COMPLETE_def BR_INCREFS_def BR_ACQUIRE_def BR_RELEASE_def BR_DECREFS_def
      BR_TRANSACTION_def BR_REPLY_def BR_DEAD_BINDER_def ioc_def push_bit_eq_mult)

lemma of_le_bytes64_le_bytes64 [simp]: "of_le_bytes64 (le64 w) = w"
proof -
  have "of_le_bytes64 (le64 w) = ucast (ucast w :: u32) OR push_bit 32 (ucast (ucast (drop_bit 32 w) :: u32))"
    by (simp add: of_le_bytes64_def le64_def)
  also have "\<dots> = w"
  proof (rule bit_word_eqI)
    fix n assume "n < LENGTH(64)"
    then consider "n < 32" | "32 \<le> n" "n < 64" by fastforce
    then show "bit (ucast (ucast w :: u32) OR push_bit 32 (ucast (ucast (drop_bit 32 w) :: u32)) :: u64) n = bit w n"
      by cases (auto simp: bit_simps)
  qed
  finally show ?thesis .
qed

lemma txn_of_append: "length b = 64 \<Longrightarrow> txn_of (b @ c) = txn_of b"
  by (simp add: txn_of_def get_at_def)

lemma parse_command:
  assumes "br_ok x"
  shows "binder_parse mapped junk (Some (svcmgr_handler alloc)) (br_bytes x @ rest) r bio rep st
    = Option.bind (serve alloc mapped junk x st) (binder_parse mapped junk (Some (svcmgr_handler alloc)) rest r bio rep)"
proof -
  have [simp]: "le_bytes32 c \<noteq> []" for c using length_le_bytes32[of c] by (metis list.size(3) zero_neq_numeral)
  note parse = binder_parse.simps[of mapped junk _ "le_bytes32 c @ b" for c b] binder_parse.simps[of mapped junk _ "le_bytes32 c" for c]
  show ?thesis using assms
    by (cases x) (auto simp: parse binder_parse.simps[of mapped junk _ "[]"] br_codes serve_txn_def txn_of_append Let_def split: option.split)
qed

fun serve_all :: "(svc_state \<Rightarrow> nat option) \<Rightarrow> (u64 \<Rightarrow> nat \<Rightarrow> u8 list) \<Rightarrow> u8 list \<Rightarrow> br_cmd list \<Rightarrow> svc_state \<Rightarrow> svc_state option" where
  "serve_all alloc mapped junk [] st = Some st"
| "serve_all alloc mapped junk (x # xs) st = Option.bind (serve alloc mapped junk x st) (serve_all alloc mapped junk xs)"

lemma parse_commands:
  "list_all br_ok xs \<Longrightarrow> binder_parse mapped junk (Some (svcmgr_handler alloc)) (concat (map br_bytes xs)) r bio rep st
    = map_option (\<lambda>st1. (r, rep, st1)) (serve_all alloc mapped junk xs st)"
proof (induction xs arbitrary: st)
  case Nil
  then show ?case by (simp add: binder_parse.simps)
next
  case (Cons x xs)
  then have rest: "binder_parse mapped junk (Some (svcmgr_handler alloc)) (concat (map br_bytes xs)) r bio rep
    = (\<lambda>st1. map_option (\<lambda>st1. (r, rep, st1)) (serve_all alloc mapped junk xs st1))" by auto
  show ?case
    using parse_command[of x mapped junk alloc "concat (map br_bytes xs)" r bio rep st] Cons.prems unfolding rest
    by (cases "serve alloc mapped junk x st") simp_all
qed

text \<open>Deaths of services that are there.\<close>

fun death_known :: "svc_state \<Rightarrow> br_cmd \<Rightarrow> bool" where
  "death_known st (BrDead p) \<longleftrightarrow> unat p \<in> si_ptr ` set (svclist st)"
| "death_known st _ \<longleftrightarrow> True"

fun is_txn :: "br_cmd \<Rightarrow> bool" where
  "is_txn (BrTxn b) \<longleftrightarrow> True"
| "is_txn _ \<longleftrightarrow> False"

lemma death_known_kept: "kept st st' \<Longrightarrow> death_known st x \<Longrightarrow> death_known st' x"
  by (cases x) (auto simp: kept_def)

lemma serve_keeps:
  assumes "svc_inv st" "alloc_ok alloc" "death_known st x"
  shows "\<exists>st'. serve alloc mapped junk x st = Some st' \<and> kept st st' \<and> answers st' = answers st + of_bool (is_txn x)"
proof (cases x)
  case (BrTxn b)
  let ?t = "txn_of b"
  obtain r rep st1 where h: "svcmgr_handler alloc (t_target ?t) (t_code ?t) (txn_io mapped ?t) (bio_init junk 4) st = Some (r, rep, st1)"
    "kept st st1" "answers st1 = answers st"
    using handler_keeps[OF assms(1,2)] by blast
  then have "svc_inv st1" by (simp add: kept_def)
  then show ?thesis using h reply_keeps[of st1 rep "t_buffer ?t" r] kept_trans[OF h(2)] BrTxn by (auto simp: serve_txn_def)
next
  case (BrDead p)
  then obtain si where si: "si \<in> set (svclist st)" "si_ptr si = unat p" using assms(3) by auto
  then obtain st' where "svcinfo_death (unat p) st = Some st'" "svc_inv st'" "map si_ptr (svclist st') = map si_ptr (svclist st)"
    using svcinfo_death_step[OF assms(1) si(1)] by auto
  then show ?thesis using BrDead death_keeps[of "unat p" st st'] by (auto simp: kept_def simp flip: set_map)
qed (use kept_refl[OF assms(1)] in simp_all)

lemma serve_all_keeps:
  assumes "alloc_ok alloc" "svc_inv st" "list_all (death_known st) xs"
  shows "\<exists>st'. serve_all alloc mapped junk xs st = Some st' \<and> kept st st' \<and> answers st' = answers st + length (filter is_txn xs)"
  using assms(2,3)
proof (induction xs arbitrary: st)
  case (Cons x xs)
  then obtain st1 where st1: "serve alloc mapped junk x st = Some st1" "kept st st1" "answers st1 = answers st + of_bool (is_txn x)"
    using serve_keeps[OF Cons.prems(1) assms(1), of x mapped junk] by auto
  then have "svc_inv st1" "list_all (death_known st1) xs"
    using Cons.prems(2) death_known_kept[OF st1(2)] by (auto simp: kept_def list_all_iff)
  then obtain st2 where "serve_all alloc mapped junk xs st1 = Some st2" "kept st1 st2" "answers st2 = answers st1 + length (filter is_txn xs)"
    using Cons.IH by blast
  then show ?case using st1 kept_trans[OF st1(2)] by auto
qed (use kept_refl in auto)

lemma loop_serves:
  assumes "alloc_ok alloc" "svc_inv st" "list_all (list_all br_ok) rounds" "list_all (list_all (death_known st)) rounds"
  shows "\<exists>st'. binder_loop_from mapped junk (svcmgr_handler alloc) (map (\<lambda>xs. Some (concat (map br_bytes xs))) rounds) st = Some (False, st')
    \<and> kept st st' \<and> answers st' = answers st + length (filter is_txn (concat rounds))"
  using assms(2-4)
proof (induction rounds arbitrary: st)
  case (Cons xs rounds)
  obtain st1 where st1: "serve_all alloc mapped junk xs st = Some st1" "kept st st1" "answers st1 = answers st + length (filter is_txn xs)"
    using serve_all_keeps[OF assms(1) Cons.prems(1), of xs mapped junk] Cons.prems(3) by auto
  have "list_all (list_all (death_known st1)) rounds"
    using Cons.prems(3) death_known_kept[OF st1(2)] by (auto simp: list_all_iff)
  then obtain st2 where "binder_loop_from mapped junk (svcmgr_handler alloc) (map (\<lambda>xs. Some (concat (map br_bytes xs))) rounds) st1 = Some (False, st2)"
    "kept st1 st2" "answers st2 = answers st1 + length (filter is_txn (concat rounds))"
    using Cons.IH[of st1] st1(2) Cons.prems(2) by (auto simp: kept_def)
  then show ?case using st1 kept_trans[OF st1(2)] parse_commands[of xs mapped junk alloc 1 False None st] Cons.prems(2) by auto
qed (use kept_refl in auto)

text \<open>C11: As long as the driver returns whole commands and reports deaths of services that are registered,
  the service manager goes on: it keeps its invariant and gives exactly one answer to every transaction,
  whatever the transactions contain and whether or not \<open>malloc\<close> fails.\<close>

theorem binder_loop_answers_every_transaction:
  assumes "alloc_ok alloc" "svc_inv st" "list_all (list_all br_ok) rounds" "list_all (list_all (death_known st)) rounds"
  shows "\<exists>st'. binder_loop_from mapped junk (svcmgr_handler alloc) (map (\<lambda>xs. Some (concat (map br_bytes xs))) rounds) st = Some (False, st')
    \<and> svc_inv st' \<and> answers st' = answers st + length (filter is_txn (concat rounds))"
  using loop_serves[OF assms, of mapped junk] by (auto simp: kept_def)

theorem binder_loop_answers_every_transaction_witness:
  "\<exists>st'. binder_loop_from (\<lambda>a n. []) (replicate 256 0) (svcmgr_handler (\<lambda>st. None))
      (map (\<lambda>xs. Some (concat (map br_bytes xs))) [[BrNoop, BrTxn (replicate 64 0)], [BrComplete], [BrTxn (replicate 64 0xff), BrNoop]])
      \<lparr>svclist = [], bcs = []\<rparr> = Some (False, st')
    \<and> answers st' = 2"
proof -
  have "list_all (list_all br_ok) [[BrNoop, BrTxn (replicate 64 0)], [BrComplete], [BrTxn (replicate 64 0xff), BrNoop]]"
    "list_all (list_all (death_known \<lparr>svclist = [], bcs = []\<rparr>)) [[BrNoop, BrTxn (replicate 64 0)], [BrComplete], [BrTxn (replicate 64 0xff), BrNoop]]"
    by simp_all
  from binder_loop_answers_every_transaction[OF _ svc_inv_start this, of "\<lambda>st. None" "\<lambda>a n. []" "replicate 256 0"]
  show ?thesis by (auto simp: alloc_ok_def answers_def)
qed

section \<open>Failures and commands that are cut off\<close>

text \<open>Everything else the driver can send: replies and failures, and, at the end of what it returns, a
  transaction, reply or reference command cut off, or an unknown command with anything behind it.\<close>

datatype driver_cmd = Cmd br_cmd | Reply "u8 list" | FailedReply | DeadReply

datatype driver_end = Whole | CutTxn "u8 list" | CutReply "u8 list" | CutRefs u32 "u8 list" | Unknown u32 "u8 list"

fun driver_cmd_ok :: "driver_cmd \<Rightarrow> bool" where
  "driver_cmd_ok (Cmd x) \<longleftrightarrow> br_ok x"
| "driver_cmd_ok (Reply b) \<longleftrightarrow> length b = 64"
| "driver_cmd_ok _ \<longleftrightarrow> True"

fun driver_cmd_bytes :: "driver_cmd \<Rightarrow> u8 list" where
  "driver_cmd_bytes (Cmd x) = br_bytes x"
| "driver_cmd_bytes (Reply b) = le_bytes32 BR_REPLY @ b"
| "driver_cmd_bytes FailedReply = le_bytes32 BR_FAILED_REPLY"
| "driver_cmd_bytes DeadReply = le_bytes32 BR_DEAD_REPLY"

definition known_codes :: "u32 list" where
  "known_codes = [BR_NOOP, BR_TRANSACTION_COMPLETE, BR_INCREFS, BR_ACQUIRE, BR_RELEASE, BR_DECREFS, BR_TRANSACTION, BR_REPLY,
     BR_DEAD_BINDER, BR_FAILED_REPLY, BR_DEAD_REPLY]"

fun driver_end_ok :: "driver_end \<Rightarrow> bool" where
  "driver_end_ok Whole \<longleftrightarrow> True"
| "driver_end_ok (CutTxn b) \<longleftrightarrow> length b < 64"
| "driver_end_ok (CutReply b) \<longleftrightarrow> length b < 64"
| "driver_end_ok (CutRefs c b) \<longleftrightarrow> (c = BR_INCREFS \<or> c = BR_ACQUIRE \<or> c = BR_RELEASE \<or> c = BR_DECREFS) \<and> length b < 16"
| "driver_end_ok (Unknown c b) \<longleftrightarrow> c \<notin> set known_codes"

fun driver_end_bytes :: "driver_end \<Rightarrow> u8 list" where
  "driver_end_bytes Whole = []"
| "driver_end_bytes (CutTxn b) = le_bytes32 BR_TRANSACTION @ b"
| "driver_end_bytes (CutReply b) = le_bytes32 BR_REPLY @ b"
| "driver_end_bytes (CutRefs c b) = le_bytes32 c @ b"
| "driver_end_bytes (Unknown c b) = le_bytes32 c @ b"

definition driver_bytes :: "driver_cmd list \<times> driver_end \<Rightarrow> u8 list" where
  "driver_bytes a = concat (map driver_cmd_bytes (fst a)) @ driver_end_bytes (snd a)"

text \<open>The result of \<open>binder_parse\<close> and the state after some commands, and after the end.\<close>

fun serve_cmds :: "(svc_state \<Rightarrow> nat option) \<Rightarrow> (u64 \<Rightarrow> nat \<Rightarrow> u8 list) \<Rightarrow> u8 list \<Rightarrow> driver_cmd list \<Rightarrow> int \<Rightarrow> svc_state \<Rightarrow> (int \<times> svc_state) option" where
  "serve_cmds alloc mapped junk [] r st = Some (r, st)"
| "serve_cmds alloc mapped junk (Cmd x # xs) r st = Option.bind (serve alloc mapped junk x st) (serve_cmds alloc mapped junk xs r)"
| "serve_cmds alloc mapped junk (Reply b # xs) r st = serve_cmds alloc mapped junk xs 0 st"
| "serve_cmds alloc mapped junk (FailedReply # xs) r st = serve_cmds alloc mapped junk xs (-1) st"
| "serve_cmds alloc mapped junk (DeadReply # xs) r st = serve_cmds alloc mapped junk xs (-1) st"

fun end_result :: "driver_end \<Rightarrow> int \<Rightarrow> int" where
  "end_result Whole r = r"
| "end_result (CutRefs c b) r = r"
| "end_result _ r = -1"

lemma le_bytes32_nonempty [simp]: "le_bytes32 c \<noteq> []"
  using length_le_bytes32[of c] by (metis list.size(3) zero_neq_numeral)

lemma other_codes: "BR_FAILED_REPLY = 0x7211" "BR_DEAD_REPLY = 0x7205"
  by (simp_all add: BR_FAILED_REPLY_def BR_DEAD_REPLY_def ioc_def push_bit_eq_mult)

lemma run_parser_end:
  assumes "driver_end_ok e"
  shows "binder_parse mapped junk func (driver_end_bytes e) r False None st = Some (end_result e r, None, st)"
  using assms
  by (cases e) (auto simp: binder_parse.simps[of mapped junk _ "le_bytes32 c @ b" for c b] binder_parse.simps[of mapped junk _ "[]"]
      br_codes other_codes known_codes_def Let_def)

lemma parse_driver_cmds:
  "list_all driver_cmd_ok xs \<Longrightarrow> driver_end_ok e
   \<Longrightarrow> binder_parse mapped junk (Some (svcmgr_handler alloc)) (concat (map driver_cmd_bytes xs) @ driver_end_bytes e) r False None st
     = map_option (\<lambda>(r1, st1). (end_result e r1, None, st1)) (serve_cmds alloc mapped junk xs r st)"
proof (induction xs arbitrary: r st)
  case Nil
  then show ?case by (simp add: run_parser_end)
next
  case (Cons x xs)
  let ?more = "concat (map driver_cmd_bytes xs) @ driver_end_bytes e"
  have IH: "binder_parse mapped junk (Some (svcmgr_handler alloc)) ?more r' False None
    = (\<lambda>st1. map_option (\<lambda>(r1, st1). (end_result e r1, None, st1)) (serve_cmds alloc mapped junk xs r' st1))" for r'
    using Cons by auto
  show ?case
  proof (cases x)
    case (Cmd c)
    then have "br_ok c" using Cons.prems(1) by simp
    from parse_command[OF this, of mapped junk alloc ?more r False None st] show ?thesis
      using Cmd unfolding IH by (cases "serve alloc mapped junk c st") simp_all
  next
    case (Reply b)
    then show ?thesis
      using Cons.prems(1) IH by (simp add: binder_parse.simps[of mapped junk _ "le_bytes32 c @ b" for c b] br_codes Let_def)
  qed (use IH in \<open>simp_all add: binder_parse.simps[of mapped junk _ "le_bytes32 c @ b" for c b] br_codes other_codes Let_def\<close>)
qed

text \<open>The driver reports a death only where a notification was requested.\<close>

definition requested :: "svc_state \<Rightarrow> nat \<Rightarrow> bool" where
  "requested st p \<longleftrightarrow> list_ex (\<lambda>c. case c of BC_REQUEST_DEATH_NOTIFICATION h q \<Rightarrow> q = p | _ \<Rightarrow> False) (bcs st)"

fun may_report :: "svc_state \<Rightarrow> driver_cmd \<Rightarrow> bool" where
  "may_report st (Cmd (BrDead p)) \<longleftrightarrow> requested st (unat p)"
| "may_report st _ \<longleftrightarrow> True"

fun reports :: "(svc_state \<Rightarrow> nat option) \<Rightarrow> (u64 \<Rightarrow> nat \<Rightarrow> u8 list) \<Rightarrow> u8 list \<Rightarrow> driver_cmd list \<Rightarrow> svc_state \<Rightarrow> bool" where
  "reports alloc mapped junk [] st \<longleftrightarrow> True"
| "reports alloc mapped junk (x # xs) st \<longleftrightarrow> may_report st x
     \<and> (case serve_cmds alloc mapped junk [x] 1 st of None \<Rightarrow> True | Some (r, st1) \<Rightarrow> reports alloc mapped junk xs st1)"

text \<open>A driver's answers, each a failure of the call or what it returns, as long as the loop asks for them.\<close>

fun driver_ok :: "(svc_state \<Rightarrow> nat option) \<Rightarrow> (u64 \<Rightarrow> nat \<Rightarrow> u8 list) \<Rightarrow> u8 list \<Rightarrow> (driver_cmd list \<times> driver_end) option list \<Rightarrow> svc_state \<Rightarrow> bool" where
  "driver_ok alloc mapped junk [] st \<longleftrightarrow> True"
| "driver_ok alloc mapped junk (None # as) st \<longleftrightarrow> True"
| "driver_ok alloc mapped junk (Some (xs, e) # as) st \<longleftrightarrow> list_all driver_cmd_ok xs \<and> driver_end_ok e \<and> reports alloc mapped junk xs st
     \<and> (case serve_cmds alloc mapped junk xs 1 st of None \<Rightarrow> True
        | Some (r, st1) \<Rightarrow> if end_result e r > 0 then driver_ok alloc mapped junk as st1 else True)"

text \<open>Notifications are requested for services that are there, and services are never freed.\<close>

definition linked_ok :: "svc_state \<Rightarrow> bool" where
  "linked_ok st \<longleftrightarrow> svc_inv st \<and> (\<forall>p. requested st p \<longrightarrow> p \<in> si_ptr ` set (svclist st))"

lemma requested_write [simp]:
  "requested (binder_write (BC_ACQUIRE k) st) p = requested st p" "requested (binder_write (BC_RELEASE k) st) p = requested st p"
  "requested (binder_write (BC_REQUEST_DEATH_NOTIFICATION k q) st) p \<longleftrightarrow> requested st p \<or> q = p"
  by (auto simp: requested_def binder_write_def)

lemma requested_same [simp]: "requested (set_handle q h st) = requested st" "requested (st\<lparr>svclist := l\<rparr>) = requested st"
  by (simp_all add: fun_eq_iff requested_def set_handle_def)

lemma requested_death: "svcinfo_death q st = Some st' \<Longrightarrow> requested st' = requested st"
  by (auto simp: svcinfo_death_def binder_release_def fun_eq_iff split: option.splits if_splits)

lemma requested_add:
  assumes "do_add_service alloc s h a st = Some (r, st')" "requested st' p"
  shows "requested st p \<or> p \<in> si_ptr ` set (svclist st')"
proof (cases "find_svc s st")
  case None
  then show ?thesis using assms
    by (auto simp: do_add_service_def binder_link_to_death_def binder_acquire_def Let_def split: if_splits option.splits)
next
  case (Some si)
  then have si: "si_ptr si \<in> si_ptr ` set (svclist st)" using find_svc_Some by blast
  then have "si_ptr si \<in> si_ptr ` set (svclist st')" using add_keeps[OF assms(1)] by blast
  then show ?thesis using assms Some requested_death[of "si_ptr si" st]
    by (auto simp: do_add_service_def binder_link_to_death_def binder_acquire_def split: if_splits option.splits)
qed

lemma linked_reply: "linked_ok st \<Longrightarrow> linked_ok (binder_send_reply reply b r st)"
  using reply_keeps[of st reply b r] by (auto simp: linked_ok_def kept_def requested_def binder_send_reply_def)

lemma linked_handler:
  assumes "linked_ok st" "alloc_ok alloc"
  shows "\<exists>r rep st'. svcmgr_handler alloc t c msg reply st = Some (r, rep, st') \<and> linked_ok st'"
  using handler_cases[of alloc t c msg reply st]
proof (elim disjE exE)
  fix s h a
  assume eq: "svcmgr_handler alloc t c msg reply st = add_result reply (do_add_service alloc s h a st)"
  have inv: "svc_inv st" using assms(1) by (simp add: linked_ok_def)
  obtain r st' where st': "do_add_service alloc s h a st = Some (r, st')" "svc_inv st'" using do_add_step[OF inv assms(2)] by blast
  have "linked_ok st'" using assms(1) st'(2) requested_add[OF st'(1)] add_keeps[OF st'(1)] unfolding linked_ok_def by blast
  then show ?thesis using eq st'(1) by (auto simp: add_result_def)
qed (use assms in blast)

lemma linked_serve:
  assumes "linked_ok st" "alloc_ok alloc" "may_report st (Cmd x)"
  shows "\<exists>st'. serve alloc mapped junk x st = Some st' \<and> linked_ok st'"
proof (cases x)
  case (BrTxn b)
  then show ?thesis
    using linked_handler[OF assms(1,2), of "t_target (txn_of b)" "t_code (txn_of b)" "txn_io mapped (txn_of b)" "bio_init junk 4"] linked_reply
    by (fastforce simp: serve_txn_def)
next
  case (BrDead p)
  then have "death_known st x" using assms(1,3) by (simp add: linked_ok_def)
  then obtain st' where st': "serve alloc mapped junk x st = Some st'" "kept st st'"
    using serve_keeps[OF _ assms(2), of st x mapped junk] assms(1) by (auto simp: linked_ok_def)
  then have "requested st' = requested st" using requested_death BrDead by simp
  then show ?thesis using st' assms(1) by (auto simp: linked_ok_def kept_def)
qed (use assms(1) in simp_all)

lemma serve_one: "serve_cmds alloc mapped junk (x # xs) r st
  = Option.bind (serve_cmds alloc mapped junk [x] r st) (\<lambda>(r1, st1). serve_cmds alloc mapped junk xs r1 st1)"
  by (cases x) (auto simp: bind_map_option split: Option.bind_split)

lemma linked_serve_cmds:
  "linked_ok st \<Longrightarrow> alloc_ok alloc \<Longrightarrow> reports alloc mapped junk xs st
   \<Longrightarrow> \<exists>r1 st1. serve_cmds alloc mapped junk xs r st = Some (r1, st1) \<and> linked_ok st1"
proof (induction xs arbitrary: r st)
  case (Cons x xs)
  show ?case
  proof (cases x)
    case (Cmd c)
    then obtain st1 where "serve alloc mapped junk c st = Some st1" "linked_ok st1"
      using linked_serve[OF Cons.prems(1,2), of c mapped junk] Cons.prems(3) by auto
    then show ?thesis using Cons.IH[of st1] Cons.prems(2,3) Cmd by simp
  qed (use Cons in simp_all)
qed simp

lemma loop_linked:
  "linked_ok st \<Longrightarrow> alloc_ok alloc \<Longrightarrow> driver_ok alloc mapped junk as st
   \<Longrightarrow> \<exists>e st1. binder_loop_from mapped junk (svcmgr_handler alloc) (map (map_option driver_bytes) as) st = Some (e, st1) \<and> linked_ok st1"
proof (induction as arbitrary: st)
  case Nil
  then show ?case by (intro exI[of _ False]) simp
next
  case (Cons a as)
  show ?case
  proof (cases a)
    case None
    then show ?thesis using Cons.prems(1) by (intro exI[of _ True]) simp
  next
    case (Some p)
    then obtain xs e where a: "a = Some (xs, e)" by (cases p) auto
    obtain r1 st1 where st1: "serve_cmds alloc mapped junk xs 1 st = Some (r1, st1)" "linked_ok st1"
      using linked_serve_cmds[OF Cons.prems(1,2)] Cons.prems(3) a by fastforce
    have "binder_parse mapped junk (Some (svcmgr_handler alloc)) (driver_bytes (xs, e)) 1 False None st = Some (end_result e r1, None, st1)"
      using parse_driver_cmds[of xs e mapped junk alloc 1 st] Cons.prems(3) a st1(1) by (simp add: driver_bytes_def)
    then show ?thesis using a st1 Cons.IH[OF st1(2) Cons.prems(2)] Cons.prems(3) by (cases "0 < end_result e r1") auto
  qed
qed

text \<open>C10: The service manager's loop keeps its list well formed, from its start and for any behaviour of the
  driver that follows the protocol: failures of the call; transactions with any content, replies, failed
  replies; at the end of what it returns a transaction, reply or reference command cut off, or an unknown code with
  anything behind it; and deaths of services for which a notification has been requested. The loop then never runs into
  undefined behaviour, names have 1 to 127 units, each of them once, and for every handle exactly as many
  references are held as services have it. (A death notification that is cut off or was not requested, and less than a
  command's four bytes, are read or used without a check and are excluded.)\<close>

theorem binder_loop_keeps_references:
  assumes "alloc_ok alloc" "driver_ok alloc mapped junk as \<lparr>svclist = [], bcs = [BC_ENTER_LOOPER]\<rparr>"
  shows "\<exists>e st. binder_loop mapped junk (svcmgr_handler alloc) (map (map_option driver_bytes) as) \<lparr>svclist = [], bcs = []\<rparr> = Some (e, st)
    \<and> distinct (map si_name (svclist st)) \<and> (\<forall>si. si \<in> set (svclist st) \<longrightarrow> 0 < length (si_name si) \<and> length (si_name si) \<le> 127)
    \<and> (\<forall>h. h \<noteq> 0 \<longrightarrow> refs st h = int (users st h))"
proof -
  have start: "binder_write BC_ENTER_LOOPER \<lparr>svclist = [], bcs = []\<rparr> = \<lparr>svclist = [], bcs = [BC_ENTER_LOOPER]\<rparr>"
    by (simp add: binder_write_def)
  then have "linked_ok \<lparr>svclist = [], bcs = [BC_ENTER_LOOPER]\<rparr>"
    using svc_inv_looper by (simp add: linked_ok_def requested_def)
  then obtain e st where "binder_loop_from mapped junk (svcmgr_handler alloc) (map (map_option driver_bytes) as)
      \<lparr>svclist = [], bcs = [BC_ENTER_LOOPER]\<rparr> = Some (e, st)" "linked_ok st"
    using loop_linked assms by blast
  then show ?thesis using start by (auto simp: binder_loop_def linked_ok_def svc_inv_def svc_ok_def list_all_iff)
qed

section \<open>Transactions of clients\<close>

lemma length_svcmgr_id: "length svcmgr_id = 26"
  by (simp add: svcmgr_id_def)

lemma svcmgr_id_ok: "item_ok (Item16 svcmgr_id)"
  by (simp add: svcmgr_id_def MAX_BIO_SIZE_def)

definition add_message :: "u32 \<Rightarrow> u16 list \<Rightarrow> u32 \<Rightarrow> u32 \<Rightarrow> bio_item list" where
  "add_message policy name h isolated = [Item32 policy, Item16 svcmgr_id, Item16 name, ItemRef h, Item32 isolated]"

definition find_message :: "u32 \<Rightarrow> u16 list \<Rightarrow> bio_item list" where
  "find_message policy name = [Item32 policy, Item16 svcmgr_id, Item16 name]"

lemma handler_add:
  assumes "holds msg (add_message policy name h isolated)"
  shows "svcmgr_handler alloc 0 SVC_MGR_ADD_SERVICE msg reply st
    = add_result reply (do_add_service alloc name h (if isolated \<noteq> 0 then 1 else 0) st)"
proof -
  obtain m1 where m1: "bio_get_uint32 msg = (policy, m1)" "holds m1 [Item16 svcmgr_id, Item16 name, ItemRef h, Item32 isolated]"
    using holds_uint32 assms unfolding add_message_def by blast
  obtain p m2 where m2: "bio_get_string16 m1 = ((Some p, length svcmgr_id), m2)" "units16 (io_data m2) p (length svcmgr_id) = svcmgr_id"
    "holds m2 [Item16 name, ItemRef h, Item32 isolated]" using holds_string16[OF m1(2)] by blast
  obtain q m3 where m3: "bio_get_string16 m2 = ((Some q, length name), m3)" "units16 (io_data m3) q (length name) = name"
    "holds m3 [ItemRef h, Item32 isolated]" using holds_string16[OF m2(3)] by blast
  obtain m4 where m4: "bio_get_ref m3 = (h, m4)" "holds m4 [Item32 isolated]" using holds_ref[OF m3(3)] by blast
  obtain m5 where m5: "bio_get_uint32 m4 = (isolated, m5)" using holds_uint32[OF m4(2)] by blast
  show ?thesis
    by (simp add: svcmgr_handler_def m1(1) m2(1,2) m3(1,2) m4(1) m5 add_result_def svc_codes)
qed

lemma handler_find:
  assumes "holds msg (find_message policy name)" "code = SVC_MGR_GET_SERVICE \<or> code = SVC_MGR_CHECK_SERVICE"
  shows "svcmgr_handler alloc 0 code msg reply st = Some (0, (if do_find_service name st = 0 then bio_put_uint32 0 reply
      else bio_put_ref (do_find_service name st) reply), st)"
proof -
  obtain m1 where m1: "bio_get_uint32 msg = (policy, m1)" "holds m1 [Item16 svcmgr_id, Item16 name]"
    using holds_uint32 assms(1) unfolding find_message_def by blast
  obtain p m2 where m2: "bio_get_string16 m1 = ((Some p, length svcmgr_id), m2)" "units16 (io_data m2) p (length svcmgr_id) = svcmgr_id"
    "holds m2 [Item16 name]" using holds_string16[OF m1(2)] by blast
  obtain q m3 where m3: "bio_get_string16 m2 = ((Some q, length name), m3)" "units16 (io_data m3) q (length name) = name"
    using holds_string16[OF m2(3)] by blast
  show ?thesis using assms(2)
    by (auto simp: svcmgr_handler_def m1(1) m2(1,2) m3(1,2) svc_codes Let_def)
qed

text \<open>A reply of one handle, or of none, is read as such.\<close>

lemma reply_ref:
  assumes "length junk = 256" "h \<noteq> 0"
  shows "fst (bio_get_ref (sent (bio_put_ref h (bio_init junk 4)))) = h"
proof -
  have "\<not> overflowed (put_items [ItemRef h] (bio_init junk 4))"
    using assms by (simp add: bio_init_def bio_put_ref_def bio_alloc_obj_def bio_alloc_def round4_def store_def overflowed_def)
  then have "holds (sent (put_items [ItemRef h] (bio_init junk 4))) [ItemRef h]"
    using assms by (intro holds_sent) simp_all
  then show ?thesis using holds_ref by fastforce
qed

lemma reply_none:
  assumes "length junk = 256"
  shows "fst (bio_get_ref (sent (bio_put_uint32 0 (bio_init junk 4)))) = 0"
  using assms by (simp add: bio_init_def bio_put_uint32_def bio_alloc_def round4_def store_def sent_def bio_init_from_txn_def bio_get_ref_def bio_get_obj_def)

text \<open>Operations on other names leave a name alone.\<close>

fun concerns :: "('n, 'h) reg_op \<Rightarrow> 'n" where
  "concerns (Add n h) = n"
| "concerns (Died n) = n"

lemma reg_spec_other: "n \<notin> concerns ` set ops \<Longrightarrow> fold (reg_spec nil) ops m n = m n"
proof (induction ops arbitrary: m)
  case (Cons x ops)
  then show ?case by (cases x) auto
qed simp

text \<open>C8: A service that was added by a transaction is found by the transaction of another client, with the
  handle it was added with, after any run of additions and deaths of other services; a name that no one
  has added is answered with no handle.\<close>

theorem added_service_is_found:
  assumes "alloc_ok alloc" "svc_inv st" "find_svc name st \<noteq> None \<or> alloc st \<noteq> None"
    and "h \<noteq> 0" "0 < length name" "length name \<le> 127"
    and "holds msg1 (add_message policy name h isolated)" "holds msg2 (find_message policy' name')"
    and "code = SVC_MGR_GET_SERVICE \<or> code = SVC_MGR_CHECK_SERVICE" "length junk = 256"
  shows "\<exists>rep1 st1. svcmgr_handler alloc 0 SVC_MGR_ADD_SERVICE msg1 (bio_init junk 4) st = Some (0, rep1, st1)
    \<and> (\<forall>ops st2. svc_run alloc ops st1 = Some st2 \<longrightarrow> name \<notin> concerns ` set ops \<longrightarrow>
        (\<exists>rep2. svcmgr_handler alloc 0 code msg2 (bio_init junk 4) st2 = Some (0, rep2, st2)
          \<and> (name' = name \<longrightarrow> fst (bio_get_ref (sent rep2)) = h)
          \<and> (find_svc name' st2 = None \<longrightarrow> fst (bio_get_ref (sent rep2)) = 0)))"
proof -
  let ?a = "if isolated \<noteq> 0 then 1 else 0"
  obtain st1 where st1: "do_add_service alloc name h ?a st = Some (0, st1)" "svc_inv st1"
    "(\<lambda>m. do_find_service m st1) = (\<lambda>m. do_find_service m st)(name := h)"
    using do_add_step[OF assms(2,1), of name h ?a] assms(3-6) by auto
  have rep: "\<exists>rep2. svcmgr_handler alloc 0 code msg2 (bio_init junk 4) st2 = Some (0, rep2, st2)
      \<and> (name' = name \<longrightarrow> fst (bio_get_ref (sent rep2)) = h)
      \<and> (find_svc name' st2 = None \<longrightarrow> fst (bio_get_ref (sent rep2)) = 0)"
    if "svc_run alloc ops st1 = Some st2" "name \<notin> concerns ` set ops" for ops st2
  proof -
    have "(\<lambda>m. do_find_service m st2) = fold (reg_spec 0) ops (\<lambda>m. do_find_service m st1)"
      using svc.run_refines[OF conjI[OF assms(1) st1(2)], of ops st2] that(1) by (simp add: svc_run_eq)
    then have "do_find_service name st2 = h"
      using reg_spec_other[OF that(2), of 0] st1(3) by (metis fun_upd_same)
    moreover have "find_svc name' st2 = None \<Longrightarrow> do_find_service name' st2 = 0" by (simp add: do_find_service_def)
    ultimately show ?thesis
      using handler_find[OF assms(8,9), of alloc "bio_init junk 4" st2] reply_ref[OF assms(10,4)] reply_none[OF assms(10)] assms(4)
      by auto
  qed
  have "svcmgr_handler alloc 0 SVC_MGR_ADD_SERVICE msg1 (bio_init junk 4) st = Some (0, bio_put_uint32 0 (bio_init junk 4), st1)"
    unfolding handler_add[OF assms(7)] by (simp add: st1(1) add_result_def)
  then show ?thesis using rep by blast
qed

lemmas put_defs = bio_init_def bio_put_uint32_def bio_put_string16_def bio_put_ref_def bio_alloc_obj_def bio_alloc_def round4_def store_def
  overflowed_def MAX_BIO_SIZE_def Let_def

text \<open>The messages of a client, in a buffer of 256 bytes.\<close>

lemma messages_hold:
  assumes "name = [0x61]" "h \<noteq> 0" "length d = 256"
  shows "holds (sent (put_items (add_message p name h i) (bio_init d 4))) (add_message p name h i)"
    and "holds (sent (put_items (find_message p name) (bio_init d 4))) (find_message p name)"
proof -
  have "\<not> overflowed (put_items (add_message p name h i) (bio_init d 4))" "\<not> overflowed (put_items (find_message p name) (bio_init d 4))"
    using assms by (simp_all add: add_message_def find_message_def put_defs length_svcmgr_id)
  moreover have "list_all item_ok (add_message p name h i)" "list_all item_ok (find_message p name)"
    using assms svcmgr_id_ok by (simp_all add: add_message_def find_message_def MAX_BIO_SIZE_def)
  ultimately show "holds (sent (put_items (add_message p name h i) (bio_init d 4))) (add_message p name h i)"
    and "holds (sent (put_items (find_message p name) (bio_init d 4))) (find_message p name)"
    using assms(3) by (auto intro!: holds_sent)
qed

theorem added_service_is_found_witness:
  "\<exists>rep1 st1 rep2. svcmgr_handler above 0 SVC_MGR_ADD_SERVICE (sent (put_items (add_message 0 [0x61] 7 0) (bio_init (replicate 256 1) 4)))
      (bio_init (replicate 256 2) 4) \<lparr>svclist = [], bcs = []\<rparr> = Some (0, rep1, st1)
    \<and> svcmgr_handler above 0 SVC_MGR_CHECK_SERVICE (sent (put_items (find_message 0 [0x61]) (bio_init (replicate 256 3) 4)))
      (bio_init (replicate 256 2) 4) st1 = Some (0, rep2, st1)
    \<and> fst (bio_get_ref (sent rep2)) = 7"
proof -
  have m: "holds (sent (put_items (add_message 0 [0x61] 7 0) (bio_init (replicate 256 1) 4))) (add_message 0 [0x61] 7 0)"
    "holds (sent (put_items (find_message 0 [0x61]) (bio_init (replicate 256 3) 4))) (find_message 0 [0x61])"
    by (rule messages_hold; simp) (rule messages_hold(2)[of _ 1]; simp)
  have start: "find_svc [0x61] \<lparr>svclist = [], bcs = []\<rparr> \<noteq> None \<or> above \<lparr>svclist = [], bcs = []\<rparr> \<noteq> None" by (simp add: above_def)
  obtain rep1 st1 where st1: "svcmgr_handler above 0 SVC_MGR_ADD_SERVICE (sent (put_items (add_message 0 [0x61] 7 0) (bio_init (replicate 256 1) 4)))
      (bio_init (replicate 256 2) 4) \<lparr>svclist = [], bcs = []\<rparr> = Some (0, rep1, st1)"
    "\<forall>ops st2. svc_run above ops st1 = Some st2 \<longrightarrow> [0x61] \<notin> concerns ` set ops \<longrightarrow>
        (\<exists>rep2. svcmgr_handler above 0 SVC_MGR_CHECK_SERVICE (sent (put_items (find_message 0 [0x61]) (bio_init (replicate 256 3) 4)))
            (bio_init (replicate 256 2) 4) st2 = Some (0, rep2, st2)
          \<and> ([0x61] = [0x61 :: u16] \<longrightarrow> fst (bio_get_ref (sent rep2)) = 7)
          \<and> (find_svc [0x61] st2 = None \<longrightarrow> fst (bio_get_ref (sent rep2)) = 0))"
    using added_service_is_found[OF above_ok svc_inv_start start _ _ _ m, of SVC_MGR_CHECK_SERVICE "replicate 256 2"] by auto
  then show ?thesis using spec[OF st1(2), of "[]"] by auto
qed

text \<open>A driver that delivers a client's request to add a service, then its death and a transaction cut off.\<close>

definition demo_request :: binder_io where
  "demo_request = sent (put_items (add_message 0 [0x61] 7 0) (bio_init (replicate 256 1) 4))"

definition demo_mapped :: "u64 \<Rightarrow> nat \<Rightarrow> u8 list" where
  "demo_mapped a n = (if a = 1 then io_data demo_request else concat (map le64 (io_offs demo_request)))"

definition demo_txn :: "u8 list" where
  "demo_txn = le64 0 @ le64 0 @ le_bytes32 SVC_MGR_ADD_SERVICE @ replicate 12 0 @ le64 104 @ le64 8 @ le64 1 @ le64 2"

lemma demo_txn_of: "length demo_txn = 64"
  "txn_of demo_txn = \<lparr>t_target = 0, t_code = SVC_MGR_ADD_SERVICE, t_data_size = 104, t_offsets_size = 8, t_buffer = 1, t_offsets = 2\<rparr>"
  by (simp_all add: demo_txn_def txn_of_def get_at_def)

lemma demo_request_io: "txn_io demo_mapped (txn_of demo_txn) = demo_request"
proof -
  let ?m = "put_items (add_message 0 [0x61] 7 0) (bio_init (replicate 256 1) 4)"
  have "io_opos ?m = 1" "length (io_offs ?m) = 4" by (simp_all add: add_message_def put_defs length_svcmgr_id)
  then obtain x where x: "io_offs demo_request = [x]"
    by (cases "io_offs ?m") (auto simp: demo_request_def sent_def bio_init_from_txn_def)
  have "demo_request = bio_init_from_txn (io_data demo_request) (io_offs demo_request)"
    by (simp add: demo_request_def sent_def bio_init_from_txn_def)
  then show ?thesis using x by (simp add: txn_io_def demo_txn_of(2) demo_mapped_def get_at_def)
qed

lemma demo_served:
  "\<exists>st. serve above demo_mapped (replicate 256 2) (BrTxn demo_txn) \<lparr>svclist = [], bcs = [BC_ENTER_LOOPER]\<rparr> = Some st \<and> requested st 1"
proof -
  have h: "holds demo_request (add_message 0 [0x61] 7 0)"
    unfolding demo_request_def by (rule messages_hold(1)) simp_all
  show ?thesis unfolding serve.simps serve_txn_def demo_request_io unfolding demo_txn_of(2) binder_txn.simps handler_add[OF h]
    by (simp add: add_result_def do_add_service_def find_svc_def above_def bc_defs requested_def binder_send_reply_def Let_def)
qed

theorem binder_loop_keeps_references_witness:
  "\<exists>e st. binder_loop demo_mapped (replicate 256 2) (svcmgr_handler above) (map (map_option driver_bytes)
      [Some ([Cmd BrNoop, Cmd (BrTxn demo_txn)], Whole), Some ([Cmd (BrDead 1)], CutTxn [0, 0]), None]) \<lparr>svclist = [], bcs = []\<rparr> = Some (e, st)
    \<and> refs st 7 = int (users st 7)"
proof -
  obtain st where st: "serve above demo_mapped (replicate 256 2) (BrTxn demo_txn) \<lparr>svclist = [], bcs = [BC_ENTER_LOOPER]\<rparr> = Some st"
    "requested st 1" using demo_served by blast
  have ok: "driver_ok above demo_mapped (replicate 256 2)
      [Some ([Cmd BrNoop, Cmd (BrTxn demo_txn)], Whole), Some ([Cmd (BrDead 1)], CutTxn [0, 0]), None] \<lparr>svclist = [], bcs = [BC_ENTER_LOOPER]\<rparr>"
    using st demo_txn_of(1) by (simp del: serve.simps(1) split: option.split)
  from binder_loop_keeps_references[OF above_ok ok] show ?thesis by fastforce
qed

definition list_message :: "u32 \<Rightarrow> u32 \<Rightarrow> bio_item list" where
  "list_message policy n = [Item32 policy, Item16 svcmgr_id, Item32 n]"

lemma handler_list:
  assumes "holds msg (list_message policy n)" "unat n < length (svclist st)"
  shows "svcmgr_handler alloc 0 SVC_MGR_LIST_SERVICES msg reply st
    = Some (0, bio_put_string16 (Some (takeWhile (\<lambda>u. u \<noteq> 0) (si_name (svclist st ! unat n)))) reply, st)"
proof -
  obtain m1 where m1: "bio_get_uint32 msg = (policy, m1)" "holds m1 [Item16 svcmgr_id, Item32 n]"
    using holds_uint32 assms(1) unfolding list_message_def by blast
  obtain p m2 where m2: "bio_get_string16 m1 = ((Some p, length svcmgr_id), m2)" "units16 (io_data m2) p (length svcmgr_id) = svcmgr_id"
    "holds m2 [Item32 n]" using holds_string16[OF m1(2)] by blast
  obtain m3 where m3: "bio_get_uint32 m2 = (n, m3)" using holds_uint32[OF m2(3)] by blast
  show ?thesis
    by (simp add: svcmgr_handler_def m1(1) m2(1,2) m3 svc_codes Let_def Cons_nth_drop_Suc[OF assms(2), symmetric])
qed

text \<open>Names of 110 to 127 units can be registered but not listed: the reply's buffer holds 224 bytes, the
  overflow is not looked at, and the client gets a success with the length of the name and no name.\<close>

theorem long_name_is_not_listed:
  assumes "holds msg (list_message policy n)" "unat n < length (svclist st)" "name = si_name (svclist st ! unat n)"
    and "0 \<notin> set name" "110 \<le> length name" "length name \<le> 127" "length junk = 256"
  shows "\<exists>rep. svcmgr_handler alloc 0 SVC_MGR_LIST_SERVICES msg (bio_init junk 4) st = Some (0, rep, st)
    \<and> fst (bio_get_string16 (sent rep)) = (None, length name)"
proof -
  have tw: "takeWhile (\<lambda>u. u \<noteq> 0) name = name" using assms(4) by (auto intro: takeWhile_eq_all_conv[THEN iffD2])
  let ?w = "word_of_nat (length name) :: u32"
  have w: "unat ?w = length name" using assms(6) by (simp add: unat_of_nat take_bit_nat_eq_self)
  let ?io1 = "\<lparr>io_data = put_at (drop 32 junk) 0 (le_bytes32 ?w), io_pos = 4, data_avail = 220, io_offs = replicate 4 0, io_opos = 0,
      offs_avail = 4, io_flags = 0\<rparr>"
  have "bio_put_uint32 ?w (bio_init junk 4) = ?io1"
    using assms(7) by (simp add: bio_put_uint32_def bio_init_def bio_alloc_def round4_def store_def)
  moreover have "bio_alloc ((length name + 1) * 2) ?io1 = (None, overflow ?io1)"
    using assms(5) by (simp add: bio_alloc_def round4_def Let_def)
  moreover have "length name < MAX_BIO_SIZE div 2" using assms(6) by (simp add: MAX_BIO_SIZE_def)
  ultimately have rep: "bio_put_string16 (Some name) (bio_init junk 4) = overflow ?io1"
    by (simp add: bio_put_string16_def)
  have "sent (overflow ?io1) = bio_init_from_txn (le_bytes32 ?w) []"
    using assms(7) by (simp add: sent_def overflow_def put_at_def)
  moreover have "fst (bio_get_string16 (bio_init_from_txn (le_bytes32 ?w) [])) = (None, length name)"
  proof -
    have "bio_get_uint32 (bio_init_from_txn (le_bytes32 ?w) []) = (?w, (bio_init_from_txn (le_bytes32 ?w) [])\<lparr>io_pos := 4, data_avail := 0\<rparr>)"
      by (simp add: bio_get_uint32_def bio_get_def bio_init_from_txn_def round4_def get_at_def)
    then show ?thesis by (simp add: bio_get_string16_def bio_get_def round4_def w Let_def)
  qed
  ultimately show ?thesis
    using handler_list[OF assms(1,2), of alloc "bio_init junk 4"] rep tw unfolding assms(3)[symmetric] by simp
qed

theorem long_name_is_not_listed_witness:
  "\<exists>rep. svcmgr_handler above 0 SVC_MGR_LIST_SERVICES (sent (put_items (list_message 0 0) (bio_init (replicate 256 0) 4)))
      (bio_init (replicate 256 0) 4) \<lparr>svclist = [\<lparr>si_ptr = 1, si_handle = 7, si_allow_isolated = 0, si_name = replicate 120 0x61\<rparr>], bcs = []\<rparr>
      = Some (0, rep, \<lparr>svclist = [\<lparr>si_ptr = 1, si_handle = 7, si_allow_isolated = 0, si_name = replicate 120 0x61\<rparr>], bcs = []\<rparr>)
    \<and> fst (bio_get_string16 (sent rep)) = (None, 120)"
proof -
  have "\<not> overflowed (put_items (list_message 0 0) (bio_init (replicate 256 0) 4))"
    by (simp add: list_message_def put_defs length_svcmgr_id)
  moreover have "list_all item_ok (list_message 0 0)" using svcmgr_id_ok by (simp add: list_message_def)
  ultimately have "holds (sent (put_items (list_message 0 0) (bio_init (replicate 256 0) 4))) (list_message 0 0)"
    by (intro holds_sent) simp_all
  from long_name_is_not_listed[OF this, of "\<lparr>svclist = [\<lparr>si_ptr = 1, si_handle = 7, si_allow_isolated = 0, si_name = replicate 120 0x61\<rparr>], bcs = []\<rparr>"
      "replicate 120 0x61" "replicate 256 0" above]
  show ?thesis by simp
qed

end
