(* ===== verification/LogFilter.thy ===== *)
theory LogFilter
  imports CText
begin

text \<open>
  \<open>liblog/logprint.c\<close>, first part: priorities, filters by tag, and the names of formats. A
  priority is the 32-bit value of its \<open>enum\<close>, which is unsigned as no constant of it is negative.
  Strings are what stands before their NUL.
\<close>

section \<open>Priorities\<close>

definition ANDROID_LOG_UNKNOWN :: u32 where "ANDROID_LOG_UNKNOWN = 0"
definition ANDROID_LOG_DEFAULT :: u32 where "ANDROID_LOG_DEFAULT = 1"
definition ANDROID_LOG_VERBOSE :: u32 where "ANDROID_LOG_VERBOSE = 2"
definition ANDROID_LOG_DEBUG :: u32 where "ANDROID_LOG_DEBUG = 3"
definition ANDROID_LOG_INFO :: u32 where "ANDROID_LOG_INFO = 4"
definition ANDROID_LOG_WARN :: u32 where "ANDROID_LOG_WARN = 5"
definition ANDROID_LOG_ERROR :: u32 where "ANDROID_LOG_ERROR = 6"
definition ANDROID_LOG_FATAL :: u32 where "ANDROID_LOG_FATAL = 7"
definition ANDROID_LOG_SILENT :: u32 where "ANDROID_LOG_SILENT = 8"

lemmas prio_defs = ANDROID_LOG_UNKNOWN_def ANDROID_LOG_DEFAULT_def ANDROID_LOG_VERBOSE_def ANDROID_LOG_DEBUG_def
  ANDROID_LOG_INFO_def ANDROID_LOG_WARN_def ANDROID_LOG_ERROR_def ANDROID_LOG_FATAL_def ANDROID_LOG_SILENT_def

definition filterCharToPri :: "char \<Rightarrow> u32" where
  "filterCharToPri ch =
     (let c = tolower ch in
      if isdigit c then
        (if cval c \<ge> 48 + unat ANDROID_LOG_SILENT then ANDROID_LOG_VERBOSE else word_of_nat (cval c - 48))
      else if c = CHR ''v'' then ANDROID_LOG_VERBOSE
      else if c = CHR ''d'' then ANDROID_LOG_DEBUG
      else if c = CHR ''i'' then ANDROID_LOG_INFO
      else if c = CHR ''w'' then ANDROID_LOG_WARN
      else if c = CHR ''e'' then ANDROID_LOG_ERROR
      else if c = CHR ''f'' then ANDROID_LOG_FATAL
      else if c = CHR ''s'' then ANDROID_LOG_SILENT
      else if c = CHR ''*'' then ANDROID_LOG_DEFAULT
      else ANDROID_LOG_UNKNOWN)"

definition filterPriToChar :: "u32 \<Rightarrow> char" where
  "filterPriToChar pri =
     (if pri = ANDROID_LOG_VERBOSE then CHR ''V''
      else if pri = ANDROID_LOG_DEBUG then CHR ''D''
      else if pri = ANDROID_LOG_INFO then CHR ''I''
      else if pri = ANDROID_LOG_WARN then CHR ''W''
      else if pri = ANDROID_LOG_ERROR then CHR ''E''
      else if pri = ANDROID_LOG_FATAL then CHR ''F''
      else if pri = ANDROID_LOG_SILENT then CHR ''S''
      else CHR ''?'')"

section \<open>Formats\<close>

datatype print_format = FORMAT_OFF | FORMAT_BRIEF | FORMAT_PROCESS | FORMAT_TAG | FORMAT_THREAD | FORMAT_RAW
  | FORMAT_TIME | FORMAT_THREADTIME | FORMAT_LONG

definition android_log_formatFromString :: "string \<Rightarrow> print_format" where
  "android_log_formatFromString s =
     (if s = ''brief'' then FORMAT_BRIEF
      else if s = ''process'' then FORMAT_PROCESS
      else if s = ''tag'' then FORMAT_TAG
      else if s = ''thread'' then FORMAT_THREAD
      else if s = ''raw'' then FORMAT_RAW
      else if s = ''time'' then FORMAT_TIME
      else if s = ''threadtime'' then FORMAT_THREADTIME
      else if s = ''long'' then FORMAT_LONG
      else FORMAT_OFF)"

text \<open>\<open>struct AndroidLogFormat_t\<close>; the linked list of filters is a list of tags with priorities.\<close>

record log_format =
  global_pri :: u32
  filters :: "(string \<times> u32) list"
  print_as :: print_format

definition android_log_format_new :: log_format where
  "android_log_format_new = \<lparr>global_pri = ANDROID_LOG_VERBOSE, filters = [], print_as = FORMAT_BRIEF\<rparr>"

definition android_log_setPrintFormat :: "log_format \<Rightarrow> print_format \<Rightarrow> log_format" where
  "android_log_setPrintFormat fmt f = fmt\<lparr>print_as := f\<rparr>"

section \<open>Filters\<close>

fun filter_find :: "u32 \<Rightarrow> (string \<times> u32) list \<Rightarrow> string \<Rightarrow> u32" where
  "filter_find glob [] tag = glob"
| "filter_find glob ((t, p) # fs) tag =
     (if tag = t then (if p = ANDROID_LOG_DEFAULT then glob else p) else filter_find glob fs tag)"

definition filterPriForTag :: "log_format \<Rightarrow> string \<Rightarrow> u32" where
  "filterPriForTag fmt tag = filter_find (global_pri fmt) (filters fmt) tag"

definition android_log_shouldPrintLine :: "log_format \<Rightarrow> string \<Rightarrow> u32 \<Rightarrow> bool" where
  "android_log_shouldPrintLine fmt tag pri \<longleftrightarrow> pri \<ge> filterPriForTag fmt tag"

text \<open>One expression. The character behind the colon is the NUL when nothing stands there.\<close>

definition android_log_addFilterRule :: "log_format \<Rightarrow> string \<Rightarrow> int \<times> log_format" where
  "android_log_addFilterRule fmt e =
     (let tag = takeWhile (\<lambda>c. c \<noteq> CHR '':'') e; len = length tag;
          pri = (if len < length e then filterCharToPri ((e @ [NUL]) ! (len + 1)) else ANDROID_LOG_DEFAULT) in
      if len = 0 then (-1, fmt)
      else if len < length e \<and> pri = ANDROID_LOG_UNKNOWN then (-1, fmt)
      else if strncmp_eq ''*'' e len then (0, fmt\<lparr>global_pri := (if pri = ANDROID_LOG_DEFAULT then ANDROID_LOG_DEBUG else pri)\<rparr>)
      else (0, fmt\<lparr>filters := (tag, if pri = ANDROID_LOG_DEFAULT then ANDROID_LOG_VERBOSE else pri) # filters fmt\<rparr>))"

text \<open>\<open>strsep\<close> with the delimiters of the filter string: the tokens, empty ones too.\<close>

definition is_sep :: "char \<Rightarrow> bool" where
  "is_sep c \<longleftrightarrow> c = CHR '' '' \<or> c = CHR 0x09 \<or> c = CHR '',''"

fun strsep_tokens :: "string \<Rightarrow> string \<Rightarrow> string list" where
  "strsep_tokens tok [] = [tok]"
| "strsep_tokens tok (c # s) = (if is_sep c then tok # strsep_tokens [] s else strsep_tokens (tok @ [c]) s)"

fun add_rules :: "log_format \<Rightarrow> string list \<Rightarrow> int \<times> log_format" where
  "add_rules fmt [] = (0, fmt)"
| "add_rules fmt (t # ts) =
     (if t = [] then add_rules fmt ts
      else let (err, fmt1) = android_log_addFilterRule fmt t in if err < 0 then (-1, fmt1) else add_rules fmt1 ts)"

definition android_log_addFilterString :: "log_format \<Rightarrow> string \<Rightarrow> int \<times> log_format" where
  "android_log_addFilterString fmt s = add_rules fmt (strsep_tokens [] s)"

section \<open>What a filter string means\<close>

text \<open>A rule, and its text: for everything or for a tag, with a character for the priority or none.\<close>

datatype filter_rule = Global "char option" | ForTag string "char option"

fun level_text :: "char option \<Rightarrow> string" where
  "level_text None = []"
| "level_text (Some c) = [CHR '':'', c]"

fun rule_text :: "filter_rule \<Rightarrow> string" where
  "rule_text (Global l) = CHR ''*'' # level_text l"
| "rule_text (ForTag t l) = t @ level_text l"

definition level_ok :: "char option \<Rightarrow> bool" where
  "level_ok l \<longleftrightarrow> (case l of None \<Rightarrow> True | Some c \<Rightarrow> filterCharToPri c \<noteq> ANDROID_LOG_UNKNOWN)"

definition tag_ok :: "string \<Rightarrow> bool" where
  "tag_ok t \<longleftrightarrow> t \<noteq> [] \<and> t \<noteq> ''*'' \<and> list_all (\<lambda>c. c \<noteq> CHR '':'' \<and> \<not> is_sep c \<and> c \<noteq> NUL) t"

fun rule_ok :: "filter_rule \<Rightarrow> bool" where
  "rule_ok (Global l) \<longleftrightarrow> level_ok l"
| "rule_ok (ForTag t l) \<longleftrightarrow> tag_ok t \<and> level_ok l"

text \<open>The levels: one for all tags without a level of their own.\<close>

type_synonym levels = "u32 \<times> (string \<rightharpoonup> u32)"

definition level_pri :: "u32 \<Rightarrow> char option \<Rightarrow> u32" where
  "level_pri dflt l = (case l of None \<Rightarrow> dflt
     | Some c \<Rightarrow> if filterCharToPri c = ANDROID_LOG_DEFAULT then dflt else filterCharToPri c)"

fun rule_spec :: "filter_rule \<Rightarrow> levels \<Rightarrow> levels" where
  "rule_spec (Global l) (g, m) = (level_pri ANDROID_LOG_DEBUG l, m)"
| "rule_spec (ForTag t l) (g, m) = (g, m(t \<mapsto> level_pri ANDROID_LOG_VERBOSE l))"

definition levels_of :: "log_format \<Rightarrow> levels" where
  "levels_of fmt = (global_pri fmt, map_of (filters fmt))"

fun level_for :: "levels \<Rightarrow> string \<Rightarrow> u32" where
  "level_for (g, m) tag = (case m tag of None \<Rightarrow> g | Some p \<Rightarrow> p)"

text \<open>A format whose filters have levels of their own, as every filter string leaves them.\<close>

definition fmt_ok :: "log_format \<Rightarrow> bool" where
  "fmt_ok fmt \<longleftrightarrow> ANDROID_LOG_VERBOSE \<le> global_pri fmt \<and> global_pri fmt \<le> ANDROID_LOG_SILENT
     \<and> list_all (\<lambda>(t, p). ANDROID_LOG_VERBOSE \<le> p \<and> p \<le> ANDROID_LOG_SILENT) (filters fmt)"

lemma filter_find_levels:
  "list_all (\<lambda>(t, p). p \<noteq> ANDROID_LOG_DEFAULT) fs \<Longrightarrow> filter_find g fs tag = level_for (g, map_of fs) tag"
  by (induction fs) auto

lemma verbose_not_default: "ANDROID_LOG_VERBOSE \<le> p \<Longrightarrow> p \<noteq> ANDROID_LOG_DEFAULT"
  by (auto simp: prio_defs word_le_nat_alt)

lemma fmt_ok_no_default: "fmt_ok fmt \<Longrightarrow> list_all (\<lambda>(t, p). p \<noteq> ANDROID_LOG_DEFAULT) (filters fmt)"
  unfolding fmt_ok_def list_all_iff using verbose_not_default by blast

lemma filterPri_levels: "fmt_ok fmt \<Longrightarrow> filterPriForTag fmt tag = level_for (levels_of fmt) tag"
  by (simp add: filterPriForTag_def levels_of_def filter_find_levels fmt_ok_no_default del: level_for.simps)

lemma if_le: "(P \<Longrightarrow> a \<le> c) \<Longrightarrow> (\<not> P \<Longrightarrow> b \<le> c) \<Longrightarrow> (if P then a else b) \<le> c"
  by simp

lemma filterCharToPri_range: "filterCharToPri c \<le> ANDROID_LOG_SILENT"
proof -
  define n where "n = cval (tolower c)"
  have digit: "word_of_nat (n - 48) \<le> ANDROID_LOG_SILENT" if "n < 56"
  proof -
    have "n - 48 < 8" using that by simp
    then show ?thesis by (simp add: ANDROID_LOG_SILENT_def word_le_nat_alt unat_of_nat take_bit_nat_eq_self)
  qed
  have "p \<le> ANDROID_LOG_SILENT" if "p \<in> {ANDROID_LOG_VERBOSE, ANDROID_LOG_DEBUG, ANDROID_LOG_INFO, ANDROID_LOG_WARN,
      ANDROID_LOG_ERROR, ANDROID_LOG_FATAL, ANDROID_LOG_SILENT, ANDROID_LOG_DEFAULT, ANDROID_LOG_UNKNOWN}" for p
    using that by (auto simp: prio_defs)
  moreover have "48 + unat ANDROID_LOG_SILENT = 56" by (simp add: ANDROID_LOG_SILENT_def)
  ultimately show ?thesis
    using digit unfolding filterCharToPri_def Let_def n_def by (intro if_le) auto
qed

lemma pri_range:
  assumes "p \<le> ANDROID_LOG_SILENT" "p \<noteq> ANDROID_LOG_UNKNOWN" "p \<noteq> ANDROID_LOG_DEFAULT"
  shows "ANDROID_LOG_VERBOSE \<le> p"
proof -
  have "unat p = 0 \<Longrightarrow> p = 0" "unat p = 1 \<Longrightarrow> p = 1" 
    by (drule arg_cong[where f = "word_of_nat :: nat \<Rightarrow> u32"]; simp)+
  then have "unat p \<noteq> 0" "unat p \<noteq> 1" using assms(2,3) unfolding prio_defs by blast+
  then show ?thesis by (simp add: prio_defs word_le_nat_alt)
qed

lemma fmt_ok_new: "fmt_ok android_log_format_new"
  by (simp add: fmt_ok_def android_log_format_new_def prio_defs)

lemma add_rule_ok:
  assumes "fmt_ok fmt" "android_log_addFilterRule fmt e = (err, fmt')"
  shows "fmt_ok fmt' \<and> print_as fmt' = print_as fmt \<and> (err = 0 \<or> err = -1)"
proof -
  define len where "len = length (takeWhile (\<lambda>c. c \<noteq> CHR '':'') e)"
  define pri where "pri = (if len < length e then filterCharToPri ((e @ [NUL]) ! (len + 1)) else ANDROID_LOG_DEFAULT)"
  have rng: "pri \<le> ANDROID_LOG_SILENT" using filterCharToPri_range by (auto simp: pri_def) (simp add: prio_defs)
  have lev: "ANDROID_LOG_VERBOSE \<le> (if pri = ANDROID_LOG_DEFAULT then d else pri) \<and> (if pri = ANDROID_LOG_DEFAULT then d else pri) \<le> ANDROID_LOG_SILENT"
    if "d \<in> {ANDROID_LOG_DEBUG, ANDROID_LOG_VERBOSE}" "\<not> (len < length e \<and> pri = ANDROID_LOG_UNKNOWN)" for d
  proof (cases "pri = ANDROID_LOG_DEFAULT")
    case False
    have "pri \<noteq> ANDROID_LOG_UNKNOWN" using that(2) False by (auto simp: pri_def prio_defs)
    then show ?thesis using False pri_range rng by simp
  qed (use that(1) in \<open>auto simp: prio_defs\<close>)
  have "android_log_addFilterRule fmt e
     = (if len = 0 then (-1, fmt)
      else if len < length e \<and> pri = ANDROID_LOG_UNKNOWN then (-1, fmt)
      else if strncmp_eq ''*'' e len then (0, fmt\<lparr>global_pri := (if pri = ANDROID_LOG_DEFAULT then ANDROID_LOG_DEBUG else pri)\<rparr>)
      else (0, fmt\<lparr>filters := (takeWhile (\<lambda>c. c \<noteq> CHR '':'') e, if pri = ANDROID_LOG_DEFAULT then ANDROID_LOG_VERBOSE else pri) # filters fmt\<rparr>))"
    by (simp add: android_log_addFilterRule_def Let_def len_def pri_def)
  then show ?thesis
    using assms lev[of ANDROID_LOG_DEBUG] lev[of ANDROID_LOG_VERBOSE] unfolding fmt_ok_def by (simp split: if_splits)
qed

lemma add_rules_ok:
  "fmt_ok fmt \<Longrightarrow> add_rules fmt ts = (err, fmt') \<Longrightarrow> fmt_ok fmt' \<and> print_as fmt' = print_as fmt \<and> (err = 0 \<or> err = -1)"
proof (induction ts arbitrary: fmt)
  case (Cons t ts)
  obtain e fmt1 where a: "android_log_addFilterRule fmt t = (e, fmt1)" by fastforce
  then have "fmt_ok fmt1 \<and> print_as fmt1 = print_as fmt" using add_rule_ok[OF Cons.prems(1)] by blast
  then show ?case using Cons a by (auto split: if_splits)
qed simp

text \<open>C22: Whatever is given as a filter string, valid or not, every level a format holds stays one of the
  priorities from VERBOSE to SILENT; a new format has such levels.\<close>

theorem addFilterString_keeps_priorities:
  assumes "fmt_ok fmt" "android_log_addFilterString fmt s = (err, fmt')"
  shows "fmt_ok android_log_format_new \<and> fmt_ok fmt' \<and> print_as fmt' = print_as fmt \<and> (err = 0 \<or> err = -1)"
  using assms add_rules_ok[of fmt "strsep_tokens [] s" err fmt'] fmt_ok_new by (simp add: android_log_addFilterString_def)

theorem addFilterString_keeps_priorities_witness:
  "fmt_ok (snd (android_log_addFilterString android_log_format_new ''a:7 b:x''))"
  using addFilterString_keeps_priorities[OF fmt_ok_new, of "''a:7 b:x''"] by (metis prod.collapse)

section \<open>Filter strings\<close>

lemma strsep_word: "list_all (\<lambda>c. \<not> is_sep c) w \<Longrightarrow> strsep_tokens tok (w @ s) = strsep_tokens (tok @ w) s"
  by (induction w arbitrary: tok) auto

lemma add_rules_seps: "list_all is_sep sep \<Longrightarrow> add_rules fmt (strsep_tokens [] (sep @ s)) = add_rules fmt (strsep_tokens [] s)"
  by (induction sep) auto

lemma add_rules_word:
  assumes "w \<noteq> []" "list_all (\<lambda>c. \<not> is_sep c) w" "list_all is_sep sep" "sep \<noteq> [] \<or> s = []"
    and "android_log_addFilterRule fmt w = (0, fmt1)"
  shows "add_rules fmt (strsep_tokens [] (w @ sep @ s)) = add_rules fmt1 (strsep_tokens [] s)"
proof (cases sep)
  case Nil
  then show ?thesis using assms strsep_word[OF assms(2), of "[]" "[]"] by simp
next
  case (Cons c sep')
  then show ?thesis
    using assms strsep_word[OF assms(2), of "[]" "sep @ s"] add_rules_seps[of sep' fmt1 s] by simp
qed

lemma sep_unknown: "is_sep c \<Longrightarrow> filterCharToPri c = ANDROID_LOG_UNKNOWN"
  unfolding is_sep_def by (elim disjE) (simp_all add: filterCharToPri_def tolower_def isdigit_def cval_def)

lemma level_text_no_sep: "level_ok l \<Longrightarrow> list_all (\<lambda>c. \<not> is_sep c) (level_text l)"
  using sep_unknown by (cases l) (auto simp: level_ok_def is_sep_def)

lemma rule_text_word:
  assumes "rule_ok r"
  shows "rule_text r \<noteq> [] \<and> list_all (\<lambda>c. \<not> is_sep c) (rule_text r)"
proof (cases r)
  case (Global l)
  then show ?thesis using assms level_text_no_sep[of l] by (simp add: is_sep_def)
next
  case (ForTag t l)
  then show ?thesis using assms level_text_no_sep[of l] by (auto simp: tag_ok_def list_all_iff)
qed

lemma takeWhile_tag: "list_all (\<lambda>c. c \<noteq> CHR '':'') t \<Longrightarrow> takeWhile (\<lambda>c. c \<noteq> CHR '':'') (t @ level_text l) = t"
  by (cases l) (auto simp: takeWhile_append list_all_iff)

lemma level_text_pri:
  assumes "level_ok l"
  shows "(let e = t @ level_text l; len = length t in
      if len < length e then filterCharToPri ((e @ [NUL]) ! (len + 1)) else ANDROID_LOG_DEFAULT)
    = (case l of None \<Rightarrow> ANDROID_LOG_DEFAULT | Some c \<Rightarrow> filterCharToPri c)"
  by (cases l) (simp_all add: nth_append)

lemma add_rule_effect:
  assumes "rule_ok r"
  shows "\<exists>fmt'. android_log_addFilterRule fmt (rule_text r) = (0, fmt') \<and> levels_of fmt' = rule_spec r (levels_of fmt)"
proof (cases r)
  case (Global l)
  have "level_ok l" using assms Global by simp
  moreover have "takeWhile (\<lambda>c. c \<noteq> CHR '':'') (''*'' @ level_text l) = ''*''" by (rule takeWhile_tag) simp
  ultimately show ?thesis
    using level_text_pri[of l "''*''"] Global
    by (cases l) (auto simp: android_log_addFilterRule_def strncmp_eq_def cstr_Cons level_ok_def levels_of_def level_pri_def Let_def)
next
  case (ForTag t l)
  have t: "tag_ok t" "level_ok l" using assms ForTag by auto
  then have tw: "takeWhile (\<lambda>c. c \<noteq> CHR '':'') (t @ level_text l) = t"
    by (intro takeWhile_tag) (simp add: tag_ok_def list_all_iff)
  obtain c u where cu: "t = c # u" using t(1) by (cases t) (auto simp: tag_ok_def)
  have "\<not> strncmp_eq ''*'' (t @ level_text l) (length t)"
    using t(1) cu by (cases u) (auto simp: tag_ok_def strncmp_eq_def cstr_Cons)
  then show ?thesis
    using tw t cu level_text_pri[OF t(2), of t] ForTag
    by (cases l) (auto simp: android_log_addFilterRule_def level_ok_def levels_of_def level_pri_def Let_def)
qed

text \<open>Rules, each with the separators behind it; only the last one may be without.\<close>

definition filter_text :: "(filter_rule \<times> string) list \<Rightarrow> string" where
  "filter_text rs = concat (map (\<lambda>(r, sep). rule_text r @ sep) rs)"

definition text_ok :: "(filter_rule \<times> string) list \<Rightarrow> bool" where
  "text_ok rs \<longleftrightarrow> list_all (\<lambda>(r, sep). rule_ok r \<and> list_all is_sep sep) rs \<and> list_all (\<lambda>(r, sep). sep \<noteq> []) (butlast rs)"

lemma add_filter_text:
  "text_ok rs \<Longrightarrow> \<exists>fmt'. add_rules fmt (strsep_tokens [] (filter_text rs)) = (0, fmt') \<and> levels_of fmt' = fold rule_spec (map fst rs) (levels_of fmt)"
proof (induction rs arbitrary: fmt)
  case Nil
  then show ?case by (simp add: filter_text_def)
next
  case (Cons x rs)
  obtain r sep where x: "x = (r, sep)" by fastforce
  have ok: "rule_ok r" "list_all is_sep sep" "text_ok rs" "sep \<noteq> [] \<or> filter_text rs = []"
    using Cons.prems by (auto simp: text_ok_def x filter_text_def split: if_splits)
  obtain fmt1 where fmt1: "android_log_addFilterRule fmt (rule_text r) = (0, fmt1)" "levels_of fmt1 = rule_spec r (levels_of fmt)"
    using add_rule_effect[OF ok(1)] by blast
  have "add_rules fmt (strsep_tokens [] (rule_text r @ sep @ filter_text rs)) = add_rules fmt1 (strsep_tokens [] (filter_text rs))"
    using add_rules_word[OF _ _ ok(2,4) fmt1(1)] rule_text_word[OF ok(1)] by blast
  then show ?case using Cons.IH[OF ok(3), of fmt1] fmt1(2) by (simp add: x filter_text_def)
qed

text \<open>C21: A filter string is obeyed: with its rules in order and any separators between them, the level of a
  tag is that of the last rule for the tag or, if there is none, of the last rule for everything; and a
  line is printed exactly when its priority is at least that level.\<close>

theorem filter_string_sets_levels:
  assumes "fmt_ok fmt" "text_ok rs"
  shows "\<exists>fmt'. android_log_addFilterString fmt (filter_text rs) = (0, fmt')
    \<and> (\<forall>tag. filterPriForTag fmt' tag = level_for (fold rule_spec (map fst rs) (levels_of fmt)) tag)
    \<and> (\<forall>tag pri. android_log_shouldPrintLine fmt' tag pri \<longleftrightarrow> pri \<ge> level_for (fold rule_spec (map fst rs) (levels_of fmt)) tag)"
proof -
  obtain fmt' where fmt': "add_rules fmt (strsep_tokens [] (filter_text rs)) = (0, fmt')"
    "levels_of fmt' = fold rule_spec (map fst rs) (levels_of fmt)"
    using add_filter_text[OF assms(2)] by blast
  moreover have "fmt_ok fmt'" using add_rules_ok[OF assms(1) fmt'(1)] by simp
  ultimately show ?thesis
    by (auto simp: android_log_addFilterString_def android_log_shouldPrintLine_def filterPri_levels)
qed

theorem filter_string_sets_levels_witness:
  "\<exists>fmt'. android_log_addFilterString android_log_format_new ''*:s net, wifi:w'' = (0, fmt')
    \<and> android_log_shouldPrintLine fmt' ''wifi'' ANDROID_LOG_ERROR \<and> \<not> android_log_shouldPrintLine fmt' ''wifi'' ANDROID_LOG_INFO
    \<and> android_log_shouldPrintLine fmt' ''net'' ANDROID_LOG_VERBOSE \<and> \<not> android_log_shouldPrintLine fmt' ''bt'' ANDROID_LOG_FATAL"
proof -
  let ?rs = "[(Global (Some (CHR ''s'')), '' ''), (ForTag ''net'' None, '', ''), (ForTag ''wifi'' (Some (CHR ''w'')), [])]"
  have "text_ok ?rs"
    by (simp add: text_ok_def tag_ok_def level_ok_def is_sep_def filterCharToPri_def tolower_def isdigit_def cval_def prio_defs)
  moreover have "filter_text ?rs = ''*:s net, wifi:w''" by (simp add: filter_text_def)
  moreover have "fold rule_spec (map fst ?rs) (levels_of android_log_format_new)
      = (ANDROID_LOG_SILENT, [''net'' \<mapsto> ANDROID_LOG_VERBOSE, ''wifi'' \<mapsto> ANDROID_LOG_WARN])"
    by (simp add: levels_of_def android_log_format_new_def level_pri_def filterCharToPri_def tolower_def isdigit_def cval_def prio_defs)
  ultimately show ?thesis
    using filter_string_sets_levels[OF fmt_ok_new, of ?rs] by (auto simp: prio_defs)
qed

text \<open>The priorities 0 and 1 are no levels, whatever the comment of \<open>filterCharToPri\<close> says: the first is
  refused, the second means the default.\<close>

lemma digit_priorities:
  "filterCharToPri (CHR ''0'') = ANDROID_LOG_UNKNOWN" "filterCharToPri (CHR ''1'') = ANDROID_LOG_DEFAULT"
  "filterCharToPri (CHR ''8'') = ANDROID_LOG_VERBOSE" "filterCharToPri (CHR ''9'') = ANDROID_LOG_VERBOSE"
  by (simp_all add: filterCharToPri_def tolower_def isdigit_def cval_def prio_defs)

end
