(* ===== verification/LogEntry.thy ===== *)
theory LogEntry
  imports LogFilter
begin

text \<open>
  The way of a message through the kernel's log: \<open>liblog/logd_write.c\<close> writes entries to the log
  devices, \<open>android_log_processLogBuffer\<close> of \<open>liblog/logprint.c\<close> splits what is read from them. The
  devices' answers are arguments; what they accepted is recorded in the state.
\<close>

section \<open>Writing\<close>

definition LOG_ID_MAIN :: int where "LOG_ID_MAIN = 0"
definition LOG_ID_RADIO :: int where "LOG_ID_RADIO = 1"
definition LOG_ID_EVENTS :: int where "LOG_ID_EVENTS = 2"
definition LOG_ID_SYSTEM :: int where "LOG_ID_SYSTEM = 3"
definition LOG_ID_MAX :: int where "LOG_ID_MAX = 4"

lemmas log_ids = LOG_ID_MAIN_def LOG_ID_RADIO_def LOG_ID_EVENTS_def LOG_ID_SYSTEM_def LOG_ID_MAX_def

text \<open>The function \<open>write_to_log\<close> points to, and \<open>g_log_status\<close>.\<close>

datatype write_fn = Write_init | Write_kernel | Write_null
datatype log_status = LogUninitialized | LogNotAvailable | LogAvailable

record logd =
  write_to_log :: write_fn
  log_fds :: "int \<Rightarrow> int"
  g_log_status :: log_status
  accepted :: "(int \<times> string) list"

definition logd_start :: logd where
  "logd_start = \<lparr>write_to_log = Write_init, log_fds = (\<lambda>_. -1), g_log_status = LogUninitialized, accepted = []\<rparr>"

definition android_log_dev_available :: "bool \<Rightarrow> logd \<Rightarrow> bool \<times> logd" where
  "android_log_dev_available access_ok st =
     (let st1 = (if g_log_status st = LogUninitialized
                 then st\<lparr>g_log_status := (if access_ok then LogAvailable else LogNotAvailable)\<rparr> else st)
      in (g_log_status st1 = LogAvailable, st1))"

text \<open>An answer of \<open>writev\<close>: interrupted, or its result.\<close>

datatype writev_answer = Interrupted | Wrote int

text \<open>\<open>__write_to_log_kernel\<close>; \<^const>\<open>None\<close>: an identifier below the array, or still writing.\<close>

fun writev_loop :: "int \<Rightarrow> string \<Rightarrow> writev_answer list \<Rightarrow> logd \<Rightarrow> (int \<times> logd) option" where
  "writev_loop fd bytes [] st = None"
| "writev_loop fd bytes (Interrupted # ans) st = writev_loop fd bytes ans st"
| "writev_loop fd bytes (Wrote r # ans) st =
     Some (r, if r < 0 then st else st\<lparr>accepted := accepted st @ [(fd, take (nat r) bytes)]\<rparr>)"

definition write_to_log_kernel :: "int \<Rightarrow> string \<Rightarrow> writev_answer list \<Rightarrow> logd \<Rightarrow> (int \<times> logd) option" where
  "write_to_log_kernel log_id bytes ans st =
     (if log_id < LOG_ID_MAX then (if log_id < 0 then None else writev_loop (log_fds st log_id) bytes ans st)
      else Some (9, st))"

text \<open>\<open>opened\<close>: what \<open>open\<close> returns for the four devices.\<close>

definition log_init :: "(int \<Rightarrow> int) \<Rightarrow> logd \<Rightarrow> logd" where
  "log_init opened st =
     (if write_to_log st = Write_init then
        let fds = opened;
            bad = fds LOG_ID_MAIN < 0 \<or> fds LOG_ID_RADIO < 0 \<or> fds LOG_ID_EVENTS < 0;
            fds1 = (if bad then fds(LOG_ID_MAIN := -1, LOG_ID_RADIO := -1, LOG_ID_EVENTS := -1) else fds);
            fds2 = (if fds1 LOG_ID_SYSTEM < 0 then fds1(LOG_ID_SYSTEM := fds1 LOG_ID_MAIN) else fds1)
        in st\<lparr>log_fds := fds2, write_to_log := (if bad then Write_null else Write_kernel)\<rparr>
      else st)"

definition call_write_to_log :: "(int \<Rightarrow> int) \<Rightarrow> int \<Rightarrow> string \<Rightarrow> writev_answer list \<Rightarrow> logd \<Rightarrow> (int \<times> logd) option" where
  "call_write_to_log opened log_id bytes ans st =
     (let st1 = log_init opened st in
      if write_to_log st1 = Write_null then Some (-1, st1) else write_to_log_kernel log_id bytes ans st1)"

definition radio_tag :: "string \<Rightarrow> bool" where
  "radio_tag tag \<longleftrightarrow> tag = ''HTC_RIL'' \<or> take 3 tag = ''RIL'' \<or> tag = ''AT'' \<or> tag = ''GSM'' \<or> tag = ''STK''
     \<or> tag = ''CDMA'' \<or> tag = ''PHONE'' \<or> tag = ''SMS''"

text \<open>The bytes of a message: the low byte of the priority, the tag and the text with their NULs.\<close>

definition prio_char :: "int \<Rightarrow> char" where
  "prio_char prio = char_of (nat (prio mod 256))"

definition entry_bytes :: "int \<Rightarrow> string \<Rightarrow> string \<Rightarrow> string" where
  "entry_bytes prio tag msg = prio_char prio # tag @ [NUL] @ msg @ [NUL]"

definition android_log_buf_write :: "(int \<Rightarrow> int) \<Rightarrow> int \<Rightarrow> int \<Rightarrow> string option \<Rightarrow> string \<Rightarrow> writev_answer list \<Rightarrow> logd \<Rightarrow> (int \<times> logd) option" where
  "android_log_buf_write opened bufID prio tag msg ans st =
     (let tag = (case tag of None \<Rightarrow> '''' | Some t \<Rightarrow> t) in
      call_write_to_log opened (if radio_tag tag then LOG_ID_RADIO else bufID) (entry_bytes prio tag msg) ans st)"

definition android_log_write :: "(int \<Rightarrow> int) \<Rightarrow> int \<Rightarrow> string option \<Rightarrow> string \<Rightarrow> writev_answer list \<Rightarrow> logd \<Rightarrow> (int \<times> logd) option" where
  "android_log_write opened prio tag msg ans st = android_log_buf_write opened LOG_ID_MAIN prio tag msg ans st"

text \<open>
  The printing functions, for the text that \<open>vsnprintf\<close> makes of the format: it is cut to what the
  buffer holds.
\<close>

definition LOG_BUF_SIZE :: nat where "LOG_BUF_SIZE = 4096"

definition android_log_vprint :: "(int \<Rightarrow> int) \<Rightarrow> int \<Rightarrow> string option \<Rightarrow> string \<Rightarrow> writev_answer list \<Rightarrow> logd \<Rightarrow> (int \<times> logd) option" where
  "android_log_vprint opened prio tag text ans st = android_log_write opened prio tag (take (LOG_BUF_SIZE - 1) text) ans st"

definition android_log_print :: "(int \<Rightarrow> int) \<Rightarrow> int \<Rightarrow> string option \<Rightarrow> string \<Rightarrow> writev_answer list \<Rightarrow> logd \<Rightarrow> (int \<times> logd) option" where
  "android_log_print opened prio tag text ans st = android_log_write opened prio tag (take (LOG_BUF_SIZE - 1) text) ans st"

definition android_log_buf_print :: "(int \<Rightarrow> int) \<Rightarrow> int \<Rightarrow> int \<Rightarrow> string option \<Rightarrow> string \<Rightarrow> writev_answer list \<Rightarrow> logd \<Rightarrow> (int \<times> logd) option" where
  "android_log_buf_print opened bufID prio tag text ans st =
     android_log_buf_write opened bufID prio tag (take (LOG_BUF_SIZE - 1) text) ans st"

definition android_log_buf_vprint :: "(int \<Rightarrow> int) \<Rightarrow> int \<Rightarrow> int \<Rightarrow> string option \<Rightarrow> string \<Rightarrow> writev_answer list \<Rightarrow> logd \<Rightarrow> (int \<times> logd) option" where
  "android_log_buf_vprint opened bufID prio tag text ans st =
     android_log_buf_write opened bufID prio tag (take (LOG_BUF_SIZE - 1) text) ans st"

text \<open>\<open>__android_log_assert\<close> up to its trap: the condition, and the text of the format if there is one.\<close>

definition android_log_assert :: "(int \<Rightarrow> int) \<Rightarrow> string option \<Rightarrow> string option \<Rightarrow> string option \<Rightarrow> writev_answer list \<Rightarrow> logd \<Rightarrow> (int \<times> logd) option" where
  "android_log_assert opened cond tag text ans st =
     android_log_write opened 7 tag
       (case text of
          Some t \<Rightarrow> take (LOG_BUF_SIZE - 1) t
        | None \<Rightarrow> (case cond of
            Some c \<Rightarrow> take (LOG_BUF_SIZE - 1) (''Assertion failed: '' @ c)
          | None \<Rightarrow> ''Unspecified assertion failed'')) ans st"

text \<open>Binary events: the tag's number in little-endian order, a type, the payload.\<close>

definition tag_bytes :: "u32 \<Rightarrow> string" where
  "tag_bytes w = map (\<lambda>i. char_of_byte (ucast (drop_bit (8 * i) w))) [0..<4]"

definition android_log_bwrite :: "(int \<Rightarrow> int) \<Rightarrow> u32 \<Rightarrow> string \<Rightarrow> writev_answer list \<Rightarrow> logd \<Rightarrow> (int \<times> logd) option" where
  "android_log_bwrite opened tag payload ans st = call_write_to_log opened LOG_ID_EVENTS (tag_bytes tag @ payload) ans st"

definition android_log_btwrite :: "(int \<Rightarrow> int) \<Rightarrow> u32 \<Rightarrow> char \<Rightarrow> string \<Rightarrow> writev_answer list \<Rightarrow> logd \<Rightarrow> (int \<times> logd) option" where
  "android_log_btwrite opened tag type payload ans st =
     call_write_to_log opened LOG_ID_EVENTS (tag_bytes tag @ [type] @ payload) ans st"

section \<open>Reading\<close>

text \<open>\<open>struct logger_entry\<close>; the memory from \<open>msg\<close> on can be longer than \<open>len\<close>.\<close>

record logger_entry =
  le_len :: nat
  le_pid :: int
  le_tid :: int
  le_sec :: int
  le_nsec :: int
  le_msg :: string

text \<open>\<open>AndroidLogEntry\<close>; its strings are literals or places in the entry's memory.\<close>

datatype log_str = Lit string | InMsg nat

record log_entry =
  tv_sec :: int
  tv_nsec :: int
  priority :: u32
  epid :: int
  etid :: int
  etag :: log_str
  messageLen :: u64
  emessage :: log_str

fun log_str_at :: "string \<Rightarrow> log_str \<Rightarrow> string option" where
  "log_str_at mem (Lit s) = Some (cstr s)"
| "log_str_at mem (InMsg i) = cstr_at mem i"

text \<open>The value of a \<open>char\<close> as a priority; \<open>schar\<close> says whether \<open>char\<close> is signed.\<close>

definition prio_of_char :: "bool \<Rightarrow> char \<Rightarrow> u32" where
  "prio_of_char schar c = (if schar \<and> cval c \<ge> 128 then word_of_int (int (cval c) - 256) else word_of_nat (cval c))"

definition isprint :: "char \<Rightarrow> bool" where "isprint c \<longleftrightarrow> 32 \<le> cval c \<and> cval c \<le> 126"

text \<open>The search for the two NULs: \<open>msgStart\<close> and \<open>msgEnd\<close>, -1 where none was found.\<close>

fun find_nuls :: "string \<Rightarrow> nat \<Rightarrow> int \<Rightarrow> int \<times> int" where
  "find_nuls [] i msgStart = (msgStart, -1)"
| "find_nuls (c # s) i msgStart =
     (if c = NUL then (if msgStart = -1 then find_nuls s (i + 1) (int i + 1) else (msgStart, int i))
      else find_nuls s (i + 1) msgStart)"

text \<open>The search for printable characters, on the characters from \<open>index\<close> on.\<close>

record bad_scan =
  longest_start :: int
  longest_len :: int
  first_at :: int
  last_at :: int
  found_printable :: bool

definition bad_step :: "nat \<Rightarrow> nat \<Rightarrow> char \<Rightarrow> bad_scan \<Rightarrow> bad_scan" where
  "bad_step len index c b =
     (if isprint c \<and> index < len - 1 then
        (if found_printable b then b\<lparr>last_at := int index\<rparr>
         else b\<lparr>first_at := int index, last_at := int index, found_printable := True\<rparr>)
      else if found_printable b then
        (if last_at b - first_at b + 1 > longest_len b
         then b\<lparr>longest_len := last_at b - first_at b + 1, longest_start := first_at b, found_printable := False\<rparr> else b)
      else b)"

fun bad_loop :: "nat \<Rightarrow> nat \<Rightarrow> string \<Rightarrow> bad_scan \<Rightarrow> bad_scan" where
  "bad_loop len index [] b = b"
| "bad_loop len index (c # s) b = bad_loop len (index + 1) s (bad_step len index c b)"

definition bad_start :: bad_scan where
  "bad_start = \<lparr>longest_start = -1, longest_len = 0, first_at = -1, last_at = 0, found_printable = False\<rparr>"

text \<open>
  \<open>android_log_processLogBuffer\<close> on an entry and what the caller's \<open>AndroidLogEntry\<close> holds: the result
  and what it leaves in both. \<^const>\<open>None\<close>: a read behind the memory, or the write before it when there
  is no printable character.
\<close>

definition android_log_processLogBuffer :: "bool \<Rightarrow> logger_entry \<Rightarrow> log_entry \<Rightarrow> (int \<times> log_entry \<times> logger_entry) option" where
  "android_log_processLogBuffer schar buf e =
     (let e1 = e\<lparr>tv_sec := le_sec buf, tv_nsec := le_nsec buf, epid := le_pid buf, etid := le_tid buf\<rparr>; len = le_len buf in
      if len < 3 then Some (-1, e1, buf)
      else if length (le_msg buf) < len then None
      else
        let (msgStart, msgEnd) = find_nuls (drop 1 (take len (le_msg buf))) 1 (-1) in
        if msgStart = -1 then
          let b = bad_loop len 0 (take len (le_msg buf)) bad_start; p = longest_start b + longest_len b in
          if p < 0 then None
          else Some (0, e1\<lparr>priority := ANDROID_LOG_INFO, etag := Lit ''?BadLog'', emessage := InMsg (nat (longest_start b)),
                 messageLen := word_of_int (longest_len b)\<rparr>, buf\<lparr>le_msg := (le_msg buf)[nat p := NUL]\<rparr>)
        else
          let msgEnd1 = (if msgEnd = -1 then int len - 1 else msgEnd);
              msg1 = (if msgEnd = -1 then (le_msg buf)[len - 1 := NUL] else le_msg buf) in
          Some (0, e1\<lparr>priority := prio_of_char schar (msg1 ! 0), etag := InMsg 1, emessage := InMsg (nat msgStart),
            messageLen := word_of_int (msgEnd1 - msgStart)\<rparr>, buf\<lparr>le_msg := msg1\<rparr>))"

section \<open>Messages through the log\<close>

lemma find_nuls_skip: "NUL \<notin> set a \<Longrightarrow> find_nuls (a @ s) i m = find_nuls s (i + length a) m"
  by (induction a arbitrary: i) auto

lemma find_nuls_none: "NUL \<notin> set a \<Longrightarrow> find_nuls a i m = (m, -1)"
  using find_nuls_skip[of a "[]" i m] by simp

lemma find_nuls_tag:
  "NUL \<notin> set tag \<Longrightarrow> find_nuls (tag @ NUL # s) i (-1) = find_nuls s (i + length tag + 1) (int i + int (length tag) + 1)"
  by (simp add: find_nuls_skip)

lemma cval_prio_char: "0 \<le> prio \<Longrightarrow> prio < 256 \<Longrightarrow> cval (prio_char prio) = nat prio"
  by (simp add: prio_char_def)

text \<open>An entry with a priority, a tag and a text behind their NULs.\<close>

lemma process_entry:
  assumes "NUL \<notin> set tag" "NUL \<notin> set tx" "length bytes = le_len buf" "le_len buf \<ge> 3" "le_msg buf = bytes @ rest"
    and "bytes = p # tag @ NUL # tx @ (if ended then [NUL] else [])" "ended \<or> tx \<noteq> []"
  shows "android_log_processLogBuffer schar buf e = Some (0,
    e\<lparr>tv_sec := le_sec buf, tv_nsec := le_nsec buf, epid := le_pid buf, etid := le_tid buf, priority := prio_of_char schar p,
      etag := InMsg 1, emessage := InMsg (length tag + 2), messageLen := word_of_nat (if ended then length tx else length tx - 1)\<rparr>,
    buf\<lparr>le_msg := p # tag @ NUL # (if ended then tx else butlast tx) @ NUL # rest\<rparr>)"
proof -
  have len: "le_len buf = length tag + length tx + 2 + (if ended then 1 else 0)" using assms(3,6) by auto
  have take: "drop 1 (take (le_len buf) (le_msg buf)) = tag @ NUL # tx @ (if ended then [NUL] else [])"
  proof -
    have "take (le_len buf) (le_msg buf) = bytes" by (simp add: assms(3)[symmetric] assms(5))
    then show ?thesis using assms(6) by simp
  qed
  show ?thesis
  proof (cases ended)
    case True
    have "find_nuls (drop 1 (take (le_len buf) (le_msg buf))) 1 (-1) = (int (length tag) + 2, int (length tag) + int (length tx) + 2)"
      unfolding take using True assms(1,2) by (simp add: find_nuls_tag find_nuls_skip)
    then show ?thesis
      using True assms(3-6) len by (simp add: android_log_processLogBuffer_def Let_def nat_add_distrib)
  next
    case False
    have fn: "find_nuls (drop 1 (take (le_len buf) (le_msg buf))) 1 (-1) = (int (length tag) + 2, -1)"
      unfolding take using False assms(1,2) by (simp add: find_nuls_tag find_nuls_none)
    have ne: "tx \<noteq> []" using False assms(7) by simp
    then have "1 \<le> length tx" by (cases tx) auto
    then have "(word_of_int (int (length tx) - 1) :: u64) = word_of_nat (length tx - 1)" by simp
    moreover have "(bytes @ rest)[le_len buf - 1 := NUL] = p # tag @ NUL # butlast tx @ NUL # rest"
    proof -
      have b: "bytes = p # tag @ NUL # butlast tx @ [last tx]" using assms(6) False ne by simp
      then have "le_len buf - 1 = length (p # tag @ NUL # butlast tx)" using assms(3) by simp
      moreover have "(a @ x # r)[length a := y] = a @ y # r" for a r and x y :: char by simp
      ultimately show ?thesis unfolding b by (metis append.assoc append_Cons append_Nil)
    qed
    ultimately show ?thesis
      using False assms(3-6) len fn ne by (simp add: android_log_processLogBuffer_def Let_def nat_add_distrib)
  qed
qed

lemma writev_interrupted: "writev_loop fd bytes (replicate k Interrupted @ ans) st = writev_loop fd bytes ans st"
  by (induction k) auto

lemma cstr_at_offset: "i = length a \<Longrightarrow> NUL \<notin> set s \<Longrightarrow> cstr_at (a @ s @ NUL # t) i = Some s"
  by (simp add: cstr_at_def)

text \<open>The devices open.\<close>

definition devices_ok :: "(int \<Rightarrow> int) \<Rightarrow> bool" where
  "devices_ok opened \<longleftrightarrow> list_all (\<lambda>i. 0 \<le> opened i) [LOG_ID_MAIN, LOG_ID_RADIO, LOG_ID_EVENTS, LOG_ID_SYSTEM]"

lemma write_first:
  assumes "devices_ok opened" "0 \<le> log_id" "log_id < LOG_ID_MAX"
  shows "\<exists>st'. call_write_to_log opened log_id bytes (replicate k Interrupted @ [Wrote (int (length bytes))]) logd_start
    = Some (int (length bytes), st') \<and> accepted st' = [(opened log_id, bytes)]"
  using assms by (auto simp: call_write_to_log_def log_init_def logd_start_def devices_ok_def write_to_log_kernel_def writev_interrupted Let_def)

text \<open>A message that is written with a priority, a tag and a text is read back from its log device with
  the same priority, tag and text, however often the write is interrupted; tags of the telephone go to
  the radio log.\<close>

theorem log_message_roundtrip:
  assumes "devices_ok opened" "0 \<le> prio" "prio < 128" "NUL \<notin> set tag" "NUL \<notin> set msg"
  shows "\<exists>st' bytes. android_log_write opened prio (Some tag) msg (replicate k Interrupted @ [Wrote (int (length tag + length msg + 3))]) logd_start
      = Some (int (length tag + length msg + 3), st')
    \<and> accepted st' = [(opened (if radio_tag tag then LOG_ID_RADIO else LOG_ID_MAIN), bytes)]
    \<and> (\<exists>e'. android_log_processLogBuffer schar \<lparr>le_len = length bytes, le_pid = pid, le_tid = tid, le_sec = sec, le_nsec = nsec, le_msg = bytes @ rest\<rparr> e
          = Some (0, e', \<lparr>le_len = length bytes, le_pid = pid, le_tid = tid, le_sec = sec, le_nsec = nsec, le_msg = bytes @ rest\<rparr>)
        \<and> priority e' = word_of_int prio \<and> tv_sec e' = sec \<and> tv_nsec e' = nsec \<and> epid e' = pid \<and> etid e' = tid
        \<and> log_str_at (bytes @ rest) (etag e') = Some tag \<and> log_str_at (bytes @ rest) (emessage e') = Some msg
        \<and> messageLen e' = word_of_nat (length msg))"
proof -
  define bytes where "bytes = entry_bytes prio tag msg"
  have bytes: "bytes = prio_char prio # tag @ NUL # msg @ [NUL]" "length bytes = length tag + length msg + 3"
    by (simp_all add: bytes_def entry_bytes_def)
  define buf where "buf = \<lparr>le_len = length bytes, le_pid = pid, le_tid = tid, le_sec = sec, le_nsec = nsec, le_msg = bytes @ rest\<rparr>"
  have ids: "0 \<le> (if radio_tag tag then LOG_ID_RADIO else LOG_ID_MAIN)" "(if radio_tag tag then LOG_ID_RADIO else LOG_ID_MAIN) < LOG_ID_MAX"
    by (simp_all add: log_ids)
  obtain st' where st': "android_log_write opened prio (Some tag) msg (replicate k Interrupted @ [Wrote (int (length bytes))]) logd_start
      = Some (int (length bytes), st')" "accepted st' = [(opened (if radio_tag tag then LOG_ID_RADIO else LOG_ID_MAIN), bytes)]"
    using write_first[OF assms(1) ids, of bytes k] unfolding android_log_write_def android_log_buf_write_def
    by (auto simp: bytes_def[symmetric])
  have "android_log_processLogBuffer schar buf e = Some (0,
    e\<lparr>tv_sec := le_sec buf, tv_nsec := le_nsec buf, epid := le_pid buf, etid := le_tid buf, priority := prio_of_char schar (prio_char prio),
      etag := InMsg 1, emessage := InMsg (length tag + 2), messageLen := word_of_nat (length msg)\<rparr>, buf\<lparr>le_msg := bytes @ rest\<rparr>)"
    using process_entry[OF assms(4,5), of bytes buf rest "prio_char prio" True schar e] by (simp add: buf_def bytes)
  moreover have "prio_of_char schar (prio_char prio) = word_of_int prio"
    using assms(2,3) by (auto simp: prio_of_char_def cval_prio_char)
  moreover have "cstr_at (bytes @ rest) 1 = Some tag" "cstr_at (bytes @ rest) (length tag + 2) = Some msg"
    using cstr_at_offset[of 1 "[prio_char prio]" tag "msg @ NUL # rest"] cstr_at_offset[of "length tag + 2" "prio_char prio # tag @ [NUL]" msg rest] assms(4,5)
    by (simp_all add: bytes(1))
  ultimately show ?thesis
    using st' bytes(2) by (intro exI[of _ st'] exI[of _ bytes]) (simp add: buf_def)
qed

text \<open>An entry that was cut behind its tag loses one character more: its last one makes room for a NUL. The
  text is then the start of the message, and the length reported is that text's length.\<close>

theorem cut_entry_is_terminated:
  assumes "NUL \<notin> set tag" "NUL \<notin> set msg" "length tag + 3 \<le> n" "n < length tag + length msg + 3"
    and "le_len buf = n" "le_msg buf = take n (entry_bytes prio tag msg) @ rest"
  shows "\<exists>e' buf'. android_log_processLogBuffer schar buf e = Some (0, e', buf')
    \<and> log_str_at (le_msg buf') (etag e') = Some tag
    \<and> log_str_at (le_msg buf') (emessage e') = Some (take (n - length tag - 3) msg)
    \<and> messageLen e' = word_of_nat (n - length tag - 3)"
proof -
  define tx where "tx = take (n - length tag - 2) msg"
  have n: "n = length tag + length tx + 2" "tx \<noteq> []" using assms(3,4) by (auto simp: tx_def)
  have bytes: "take n (entry_bytes prio tag msg) = prio_char prio # tag @ NUL # tx"
  proof -
    obtain k where k: "n = length tag + 2 + k" using assms(3) le_Suc_ex[of "length tag + 2" n] by auto
    then have "k \<le> length msg" using assms(4) by simp
    then show ?thesis by (simp add: entry_bytes_def tx_def k)
  qed
  have nul: "NUL \<notin> set tx" using assms(2) by (auto simp: tx_def dest: in_set_takeD)
  then have bnul: "NUL \<notin> set (butlast tx)" by (metis in_set_butlastD)
  have bl: "butlast tx = take (n - length tag - 3) msg" using assms(3,4) by (simp add: tx_def butlast_take numeral_3_eq_3 numeral_2_eq_2)
  have len: "length (prio_char prio # tag @ NUL # tx) = le_len buf" "3 \<le> le_len buf" using n assms(3,5) by simp_all
  have msg: "le_msg buf = (prio_char prio # tag @ NUL # tx) @ rest" unfolding assms(6) bytes ..
  have pe: "android_log_processLogBuffer schar buf e = Some (0,
    e\<lparr>tv_sec := le_sec buf, tv_nsec := le_nsec buf, epid := le_pid buf, etid := le_tid buf, priority := prio_of_char schar (prio_char prio),
      etag := InMsg 1, emessage := InMsg (length tag + 2), messageLen := word_of_nat (length tx - 1)\<rparr>,
    buf\<lparr>le_msg := prio_char prio # tag @ NUL # butlast tx @ NUL # rest\<rparr>)"
    using process_entry[OF assms(1) nul len msg, of "prio_char prio" False schar e] n(2) by simp
  let ?m = "prio_char prio # tag @ NUL # butlast tx @ NUL # rest"
  have strs: "cstr_at ?m 1 = Some tag" "cstr_at ?m (length tag + 2) = Some (butlast tx)"
    using cstr_at_offset[of 1 "[prio_char prio]" tag "butlast tx @ NUL # rest"]
      cstr_at_offset[of "length tag + 2" "prio_char prio # tag @ [NUL]" "butlast tx" rest] assms(1) bnul by simp_all
  have "length tx - 1 = n - length tag - 3" using n(1) by simp
  then show ?thesis unfolding bl[symmetric]
    by - (rule exI, rule exI, rule conjI, rule pe, simp add: strs[simplified])
qed

text \<open>An entry that was cut right behind its tag is reported with a length of the text that is the largest
  \<open>size_t\<close>, not 0.\<close>

theorem cut_entry_without_text:
  assumes "NUL \<notin> set tag" "tag \<noteq> []" "le_len buf = length tag + 2" "le_msg buf = take (length tag + 2) (entry_bytes prio tag msg) @ rest"
  shows "\<exists>e' buf'. android_log_processLogBuffer schar buf e = Some (0, e', buf') \<and> messageLen e' = 2 ^ 64 - 1"
proof -
  have msg: "le_msg buf = prio_char prio # tag @ NUL # rest" using assms(4) by (simp add: entry_bytes_def)
  then have "find_nuls (drop 1 (take (le_len buf) (le_msg buf))) 1 (-1) = (int (length tag) + 2, -1)"
    using assms(1,3) by (simp add: find_nuls_tag)
  moreover have "le_len buf \<ge> 3" using assms(2,3) by (cases tag) auto
  ultimately show ?thesis
    using assms(2,3) msg by (simp add: android_log_processLogBuffer_def Let_def)
qed

text \<open>An entry without a NUL and without a printable character makes the search write before the entry's
  memory.\<close>

theorem unprintable_entry_writes_before_buffer:
  assumes "3 \<le> le_len buf" "le_len buf \<le> length (le_msg buf)"
    and "list_all (\<lambda>c. c \<noteq> NUL \<and> \<not> isprint c) (take (le_len buf) (le_msg buf))"
  shows "android_log_processLogBuffer schar buf e = None"
proof -
  have "bad_loop n i s bad_start = bad_start" if "list_all (\<lambda>c. \<not> isprint c) s" for n i s
    using that by (induction s arbitrary: i) (auto simp: bad_step_def bad_start_def)
  moreover have "list_all (\<lambda>c. \<not> isprint c) (take (le_len buf) (le_msg buf))" using assms(3) by (auto simp: list_all_iff)
  ultimately have "bad_loop (le_len buf) 0 (take (le_len buf) (le_msg buf)) bad_start = bad_start" by blast
  moreover have "NUL \<notin> set (drop 1 (take (le_len buf) (le_msg buf)))" using assms(3) by (auto simp: list_all_iff dest: in_set_dropD)
  then have "find_nuls (drop 1 (take (le_len buf) (le_msg buf))) 1 (-1) = (-1, -1)" by (rule find_nuls_none)
  ultimately show ?thesis
    using assms(1,2) by (simp add: android_log_processLogBuffer_def bad_start_def)
qed

text \<open>\<open>bad_step\<close> does not forget a run that is no longer than the longest one, so what is found as the
  longest string of printable characters can have others in it.\<close>

lemma bad_log_has_unprintables:
  "android_log_processLogBuffer True \<lparr>le_len = 10, le_pid = 1, le_tid = 1, le_sec = 0, le_nsec = 0,
      le_msg = [CHR ''a'', CHR ''b'', CHR 0x01, CHR ''c'', CHR 0x01, CHR ''d'', CHR 0x01, CHR ''e'', CHR 0x01, CHR 0x01]\<rparr>
    e = Some (0, e\<lparr>tv_sec := 0, tv_nsec := 0, epid := 1, etid := 1, priority := ANDROID_LOG_INFO, etag := Lit ''?BadLog'',
        emessage := InMsg 3, messageLen := 3\<rparr>,
      \<lparr>le_len = 10, le_pid = 1, le_tid = 1, le_sec = 0, le_nsec = 0,
       le_msg = [CHR ''a'', CHR ''b'', CHR 0x01, CHR ''c'', CHR 0x01, CHR ''d'', NUL, CHR ''e'', CHR 0x01, CHR 0x01]\<rparr>)"
  by (simp add: android_log_processLogBuffer_def bad_start_def bad_step_def isprint_def cval_def)

definition no_entry :: log_entry where
  "no_entry = \<lparr>tv_sec = 0, tv_nsec = 0, priority = 0, epid = 0, etid = 0, etag = Lit [], messageLen = 0, emessage = Lit []\<rparr>"

theorem log_message_roundtrip_witness:
  "\<exists>st' bytes. android_log_write (\<lambda>i. i + 3) 5 (Some ''net'') ''up'' (replicate 2 Interrupted @ [Wrote 8]) logd_start = Some (8, st')
    \<and> accepted st' = [(3, bytes)]"
  using log_message_roundtrip[of "\<lambda>i. i + 3" 5 "''net''" "''up''" 2 True 1 1 0 0 "[]" no_entry]
  by (auto simp: devices_ok_def log_ids radio_tag_def)

theorem cut_entry_is_terminated_witness:
  "\<exists>e' buf'. android_log_processLogBuffer True \<lparr>le_len = 7, le_pid = 1, le_tid = 1, le_sec = 0, le_nsec = 0,
        le_msg = take 7 (entry_bytes 5 ''net'' ''hello'') @ ''xyz''\<rparr> no_entry = Some (0, e', buf')
    \<and> log_str_at (le_msg buf') (emessage e') = Some ''h'' \<and> messageLen e' = 1"
  using cut_entry_is_terminated[of "''net''" "''hello''" 7 "\<lparr>le_len = 7, le_pid = 1, le_tid = 1, le_sec = 0, le_nsec = 0,
        le_msg = take 7 (entry_bytes 5 ''net'' ''hello'') @ ''xyz''\<rparr>" 5 "''xyz''" True no_entry]
  by auto

theorem cut_entry_without_text_witness:
  "\<exists>e' buf'. android_log_processLogBuffer True \<lparr>le_len = 5, le_pid = 1, le_tid = 1, le_sec = 0, le_nsec = 0,
        le_msg = take 5 (entry_bytes 5 ''net'' ''hello'') @ ''xyz''\<rparr> no_entry = Some (0, e', buf') \<and> messageLen e' = 2 ^ 64 - 1"
  by (rule cut_entry_without_text[of "''net''" _ 5 "''hello''" "''xyz''"]) (simp_all add: entry_bytes_def)

theorem unprintable_entry_writes_before_buffer_witness:
  "android_log_processLogBuffer True \<lparr>le_len = 3, le_pid = 1, le_tid = 1, le_sec = 0, le_nsec = 0, le_msg = [CHR 0x01, CHR 0x02, CHR 0x03]\<rparr> no_entry = None"
  by (rule unprintable_entry_writes_before_buffer) (simp_all add: isprint_def cval_def)

end
