(* ===== verification/QSort.thy ===== *)
theory QSort
  imports CText "HOL-Library.Multiset" "HOL-Library.List_Lexorder"
begin

text \<open>
  \<open>qsort\<close> of the C library with a comparison function, and the comparison \<open>strcasecmp\<close>. The result is
  defined only when the comparison orders the elements; equal elements may come in any order, here in that
  of the array.
\<close>

definition orders :: "('a \<Rightarrow> 'a \<Rightarrow> int) \<Rightarrow> 'a list \<Rightarrow> bool" where
  "orders cmp xs \<longleftrightarrow> list_all (\<lambda>a. list_all (\<lambda>b.
     (cmp a b < 0 \<longrightarrow> cmp b a > 0) \<and>
     list_all (\<lambda>c. cmp a b \<le> 0 \<and> cmp b c \<le> 0 \<longrightarrow> cmp a c \<le> 0) xs) xs) xs"

fun insert_by :: "('a \<Rightarrow> 'a \<Rightarrow> int) \<Rightarrow> 'a \<Rightarrow> 'a list \<Rightarrow> 'a list" where
  "insert_by cmp a [] = [a]"
| "insert_by cmp a (b # xs) = (if cmp a b \<le> 0 then a # b # xs else b # insert_by cmp a xs)"

definition qsort :: "('a \<Rightarrow> 'a \<Rightarrow> int) \<Rightarrow> 'a list \<Rightarrow> 'a list option" where
  "qsort cmp xs = (if orders cmp xs then Some (foldr (insert_by cmp) xs []) else None)"

text \<open>A comparison that agrees with a key sorts by that key.\<close>

definition agrees :: "('a \<Rightarrow> 'a \<Rightarrow> int) \<Rightarrow> ('a \<Rightarrow> 'k :: linorder) \<Rightarrow> 'a set \<Rightarrow> bool" where
  "agrees cmp key A \<longleftrightarrow> (\<forall>a \<in> A. \<forall>b \<in> A. (cmp a b \<le> 0 \<longleftrightarrow> key a \<le> key b) \<and> (cmp a b < 0 \<longleftrightarrow> key a < key b))"

lemma agrees_orders: "agrees cmp key (set xs) \<Longrightarrow> orders cmp xs"
  unfolding orders_def list_all_iff agrees_def by (intro ballI conjI) (force simp: not_le[symmetric])+

lemma insert_by_key: "agrees cmp key A \<Longrightarrow> a \<in> A \<Longrightarrow> set xs \<subseteq> A \<Longrightarrow> insert_by cmp a xs = insort_key key a xs"
  by (induction xs) (auto simp: agrees_def)

lemma foldr_insert_key:
  assumes "agrees cmp key A" "set xs \<subseteq> A"
  shows "foldr (insert_by cmp) xs [] = sort_key key xs"
  using assms(2)
proof (induction xs)
  case (Cons x xs)
  then have "insert_by cmp x (sort_key key xs) = insort_key key x (sort_key key xs)"
    by (intro insert_by_key[OF assms(1)]) simp_all
  moreover have "foldr (insert_by cmp) xs [] = sort_key key xs" using Cons by simp
  moreover have "sort_key key (x # xs) = insort_key key x (sort_key key xs)" by simp
  ultimately show ?case by (simp only: foldr_Cons o_apply)
qed simp

lemma qsort_key: "agrees cmp key (set xs) \<Longrightarrow> qsort cmp xs = Some (sort_key key xs)"
  by (simp add: qsort_def agrees_orders foldr_insert_key)

lemma sint_small32:
  assumes "- 2147483648 \<le> z" "z < 2147483648"
  shows "sint (word_of_int z :: 32 word) = z"
proof -
  have "sint (word_of_int z :: 32 word) = signed_take_bit 31 z" by (simp only: sint_sbintrunc') simp
  also have "signed_take_bit 31 z = z" by (rule signed_take_bit_int_eq_self) (use assms in simp_all)
  finally show ?thesis .
qed

section \<open>Comparing without case\<close>

fun strcasecmp :: "string \<Rightarrow> string \<Rightarrow> int" where
  "strcasecmp [] [] = 0"
| "strcasecmp [] (b # t) = - int (cval (tolower b))"
| "strcasecmp (a # s) [] = int (cval (tolower a))"
| "strcasecmp (a # s) (b # t) =
     (if tolower a = tolower b then strcasecmp s t else int (cval (tolower a)) - int (cval (tolower b)))"

definition nocase_key :: "string \<Rightarrow> nat list" where
  "nocase_key s = map (\<lambda>c. cval (tolower c)) s"

lemma cval_tolower_pos: "NUL \<noteq> c \<Longrightarrow> 0 < cval (tolower c)"
proof -
  assume "NUL \<noteq> c"
  then have "cval c \<noteq> cval NUL" using cval_inj by metis
  then have "0 < cval c" by (simp add: cval_def)
  then show ?thesis by (simp add: tolower_def)
qed

lemma strcasecmp_key:
  "NUL \<notin> set s \<Longrightarrow> NUL \<notin> set t \<Longrightarrow>
    (strcasecmp s t \<le> 0 \<longleftrightarrow> nocase_key s \<le> nocase_key t) \<and> (strcasecmp s t < 0 \<longleftrightarrow> nocase_key s < nocase_key t)"
proof (induction s t rule: strcasecmp.induct)
  case (4 a s b t)
  have "cval (tolower a) = cval (tolower b) \<longleftrightarrow> tolower a = tolower b" using cval_inj by metis
  then show ?case using 4 by (auto simp: nocase_key_def)
next
  case (2 b t)
  then show ?case using cval_tolower_pos[of b] by (auto simp: nocase_key_def)
next
  case (3 a s)
  then show ?case using cval_tolower_pos[of a] by (auto simp: nocase_key_def)
qed (simp add: nocase_key_def)

end
