(* ===== verification/EventTags.thy ===== *)
theory EventTags
  imports QSort
begin

text \<open>
  \<open>liblog/event_tag_map.c\<close>: the map from event numbers to names that is read from a text file.
  The file is mapped into memory; parsing stores the offsets of the names and overwrites the
  characters behind the numbers and names with NULs. A read behind the mapped file is
  \<^const>\<open>None\<close>.
\<close>

section \<open>Tags\<close>

text \<open>A tag: its number, and the offset of its name in the mapped file.\<close>

datatype event_tag = EventTag (tagIndex: u32) (tagStr: nat)

text \<open>Tags are ordered by their number; equal numbers, which are an error, by the place.\<close>

instantiation event_tag :: linorder
begin

definition less_eq_event_tag :: "event_tag \<Rightarrow> event_tag \<Rightarrow> bool" where
  "less_eq_event_tag a b \<longleftrightarrow> tagIndex a < tagIndex b \<or> tagIndex a = tagIndex b \<and> tagStr a \<le> tagStr b"

definition less_event_tag :: "event_tag \<Rightarrow> event_tag \<Rightarrow> bool" where
  "less_event_tag a b \<longleftrightarrow> tagIndex a < tagIndex b \<or> tagIndex a = tagIndex b \<and> tagStr a < tagStr b"

instance
proof
  fix a b c :: event_tag
  show "a < b \<longleftrightarrow> a \<le> b \<and> \<not> b \<le> a" by (auto simp: less_eq_event_tag_def less_event_tag_def)
  show "a \<le> a" by (simp add: less_eq_event_tag_def)
  show "a \<le> b \<Longrightarrow> b \<le> c \<Longrightarrow> a \<le> c" by (auto simp: less_eq_event_tag_def)
  show "a \<le> b \<Longrightarrow> b \<le> a \<Longrightarrow> a = b" by (cases a; cases b) (auto simp: less_eq_event_tag_def)
  show "a \<le> b \<or> b \<le> a" by (auto simp: less_eq_event_tag_def)
qed

end

text \<open>The structure \<open>EventTagMap\<close>: the mapped file and the array.\<close>

record tag_map =
  map_mem :: string
  tag_array :: "event_tag list"

section \<open>Scanning\<close>

definition isCharWhitespace :: "char \<Rightarrow> bool" where
  "isCharWhitespace c \<longleftrightarrow> cval c = 32 \<or> cval c = 10 \<or> cval c = 13 \<or> cval c = 9"

definition isCharValidTag :: "char \<Rightarrow> bool" where
  "isCharValidTag c \<longleftrightarrow> 65 \<le> cval c \<and> cval c \<le> 90 \<or> 97 \<le> cval c \<and> cval c \<le> 122
     \<or> 48 \<le> cval c \<and> cval c \<le> 57 \<or> cval c = 95"

abbreviation newline :: char where "newline \<equiv> CHR 0x0A"

text \<open>\<open>countMapLines\<close>, from a character on.\<close>

fun count_lines :: "string \<Rightarrow> bool \<Rightarrow> nat" where
  "count_lines [] unknown = 0"
| "count_lines (c # s) unknown =
     (if c = newline then count_lines s True
      else if unknown then
        (if isdigit c then Suc (count_lines s False)
         else if isCharWhitespace c then count_lines s True
         else count_lines s False)
      else count_lines s False)"

definition countMapLines :: "string \<Rightarrow> nat" where
  "countMapLines mem = count_lines mem True"

text \<open>A loop that moves a pointer over characters with \<open>P\<close>, from the offset \<open>i\<close>.\<close>

definition skip_while :: "(char \<Rightarrow> bool) \<Rightarrow> string \<Rightarrow> nat \<Rightarrow> nat option" where
  "skip_while P mem i =
     (let j = i + length (takeWhile P (drop i mem)) in if j < length mem then Some j else None)"

text \<open>
  \<open>scanTagLine\<close> at the offset \<open>cp\<close>: the error, or the changed memory, the tag and the offset of
  the last character consumed. \<open>ulong_max\<close> is the largest \<open>unsigned long\<close>, which \<open>strtoul\<close> gives
  for larger numbers.
\<close>

definition scanTagLine :: "nat \<Rightarrow> string \<Rightarrow> nat \<Rightarrow> (int + string \<times> event_tag \<times> nat) option" where
  "scanTagLine ulong_max mem cp =
     (case skip_while isdigit mem (cp + 1) of
        None \<Rightarrow> None
      | Some e \<Rightarrow>
          let mem1 = mem[e := NUL];
              val = min (digits_val 10 (take (e - cp) (drop cp mem))) ulong_max in
          (case skip_while (\<lambda>c. c \<noteq> newline \<and> isCharWhitespace c) mem1 (e + 1) of
             None \<Rightarrow> None
           | Some s \<Rightarrow>
               if mem1 ! s = newline then Some (Inl (-1))
               else (case skip_while isCharValidTag mem1 (s + 1) of
                  None \<Rightarrow> None
                | Some t \<Rightarrow>
                    if mem1 ! t = newline then Some (Inr (mem1[t := NUL], EventTag (word_of_nat val) s, t))
                    else if isCharWhitespace (mem1 ! t) then
                      (case skip_while (\<lambda>c. c \<noteq> newline) (mem1[t := NUL]) (t + 1) of
                         None \<Rightarrow> None
                       | Some n \<Rightarrow> Some (Inr (mem1[t := NUL], EventTag (word_of_nat val) s, n)))
                    else Some (Inl (-1)))))"

lemma skip_while_le: "skip_while P mem i = Some j \<Longrightarrow> i \<le> j \<and> j < length mem"
  by (auto simp: skip_while_def Let_def split: if_splits)

lemma scanTagLine_forward: "scanTagLine u mem cp = Some (Inr (mem', tag, n)) \<Longrightarrow> cp < n \<and> n < length mem \<and> length mem' = length mem"
  by (auto simp: scanTagLine_def Let_def split: option.splits if_splits dest!: skip_while_le)

text \<open>The loop of \<open>parseMapLines\<close> over at most \<open>numTags\<close> tags.\<close>

function parse_loop :: "nat \<Rightarrow> nat \<Rightarrow> string \<Rightarrow> nat \<Rightarrow> bool \<Rightarrow> event_tag list \<Rightarrow> (int + string \<times> event_tag list) option" where
  "parse_loop u numTags mem cp lineStart tags =
     (if cp \<ge> length mem then (if length tags = numTags then Some (Inr (mem, tags)) else Some (Inl (-1)))
      else
        let c = mem ! cp in
        if c = newline then parse_loop u numTags mem (cp + 1) True tags
        else if lineStart then
          (if c = CHR ''#'' then parse_loop u numTags mem (cp + 1) False tags
           else if isdigit c then
             (if length tags \<ge> numTags then Some (Inl (-1))
              else (case scanTagLine u mem cp of
                  None \<Rightarrow> None
                | Some (Inl e) \<Rightarrow> Some (Inl (-1))
                | Some (Inr (mem', tag, n)) \<Rightarrow> parse_loop u numTags mem' (n + 1) True (tags @ [tag])))
           else if isCharWhitespace c then parse_loop u numTags mem (cp + 1) True tags
           else Some (Inl (-1)))
        else parse_loop u numTags mem (cp + 1) False tags)"
  by pat_completeness auto
termination
  by (relation "measure (\<lambda>(u, k, mem, cp, l, tags). length mem - cp)") (auto dest!: scanTagLine_forward)

declare parse_loop.simps [simp del]

definition parseMapLines :: "nat \<Rightarrow> nat \<Rightarrow> string \<Rightarrow> (int + string \<times> event_tag list) option" where
  "parseMapLines u numTags mem =
     (if mem = [] then None
      else if last mem \<noteq> newline then Some (Inl (-1))
      else parse_loop u numTags mem 0 True [])"

text \<open>
  \<open>compareEventTags\<close> subtracts the numbers as 32-bit integers, so it orders the array only when they
  are near enough.
\<close>

definition compareEventTags :: "event_tag \<Rightarrow> event_tag \<Rightarrow> int" where
  "compareEventTags a b = sint (tagIndex a - tagIndex b)"

definition qsort_tags :: "event_tag list \<Rightarrow> event_tag list option" where
  "qsort_tags ts = qsort compareEventTags ts"

fun no_duplicates :: "event_tag list \<Rightarrow> bool" where
  "no_duplicates (a # b # ts) \<longleftrightarrow> tagIndex b \<noteq> tagIndex a \<and> no_duplicates (b # ts)"
| "no_duplicates _ \<longleftrightarrow> True"

definition sortTags :: "event_tag list \<Rightarrow> (int + event_tag list) option" where
  "sortTags ts =
     (case qsort_tags ts of None \<Rightarrow> None
      | Some s \<Rightarrow> Some (if no_duplicates s then Inr s else Inl (-1)))"

definition processFile :: "nat \<Rightarrow> string \<Rightarrow> (int + tag_map) option" where
  "processFile u mem =
     (case parseMapLines u (countMapLines mem) mem of
        None \<Rightarrow> None
      | Some (Inl e) \<Rightarrow> Some (Inl (-1))
      | Some (Inr (mem', tags)) \<Rightarrow>
          (case sortTags tags of
             None \<Rightarrow> None
           | Some (Inl e) \<Rightarrow> Some (Inl (-1))
           | Some (Inr s) \<Rightarrow> Some (Inr \<lparr>map_mem = mem', tag_array = s\<rparr>)))"

text \<open>
  \<open>android_openEventTagMap\<close>: the file's content, or \<^const>\<open>None\<close> when it cannot be opened or
  measured; \<open>mmap\<close> fails for an empty file. The result is the map or \<open>NULL\<close>.
\<close>

definition android_openEventTagMap :: "nat \<Rightarrow> string option \<Rightarrow> bool \<Rightarrow> tag_map option option" where
  "android_openEventTagMap u file mmap_ok =
     (case file of
        None \<Rightarrow> Some None
      | Some text \<Rightarrow>
          if text = [] \<or> \<not> mmap_ok then Some None
          else (case processFile u text of
             None \<Rightarrow> None | Some (Inl e) \<Rightarrow> Some None | Some (Inr m) \<Rightarrow> Some (Some m)))"

section \<open>Looking up\<close>

text \<open>The loop of \<open>android_lookupEventTag\<close>: the index of the tag found.\<close>

function lookup_loop :: "event_tag list \<Rightarrow> int \<Rightarrow> int \<Rightarrow> int \<Rightarrow> int option" where
  "lookup_loop arr tag lo hi =
     (if lo \<le> hi then
        let mid = (lo + hi) div 2; cmp = sint (tagIndex (arr ! nat mid) - word_of_int tag) in
        if cmp < 0 then lookup_loop arr tag (mid + 1) hi
        else if cmp > 0 then lookup_loop arr tag lo (mid - 1)
        else Some mid
      else None)"
  by pat_completeness auto
termination
  by (relation "measure (\<lambda>(arr, tag, lo, hi). nat (hi - lo + 1))") (auto simp: Let_def)

declare lookup_loop.simps [simp del]

definition android_lookupEventTag :: "tag_map \<Rightarrow> int \<Rightarrow> nat option" where
  "android_lookupEventTag m tag =
     map_option (\<lambda>i. tagStr (tag_array m ! nat i)) (lookup_loop (tag_array m) tag 0 (int (length (tag_array m)) - 1))"

section \<open>Sorting\<close>

text \<open>Numbers below \<open>2 ^ 31\<close>, for which the comparison is their order.\<close>

abbreviation small_tag :: "event_tag \<Rightarrow> bool" where
  "small_tag t \<equiv> unat (tagIndex t) < 2 ^ 31"

lemma sint_diff_small:
  fixes a b :: u32
  assumes "unat a < 2 ^ 31" "unat b < 2 ^ 31"
  shows "sint (a - b) = int (unat a) - int (unat b)"
proof -
  have "a - b = word_of_int (int (unat a) - int (unat b))" by simp
  moreover have "unat a < 2147483648" "unat b < 2147483648" using assms by simp_all
  then have "- 2147483648 \<le> int (unat a) - int (unat b)" "int (unat a) - int (unat b) < 2147483648" by linarith+
  ultimately show ?thesis using sint_small32 by metis
qed

lemma compare_small:
  "small_tag a \<Longrightarrow> small_tag b \<Longrightarrow> compareEventTags a b = int (unat (tagIndex a)) - int (unat (tagIndex b))"
  by (simp add: compareEventTags_def sint_diff_small)

lemma qsort_tags_small: "list_all small_tag ts \<Longrightarrow> qsort_tags ts = Some (sort_key tagIndex ts)"
  unfolding qsort_tags_def by (rule qsort_key) (auto simp: agrees_def list_all_iff compare_small word_le_def word_less_def)

lemma no_duplicates_sorted:
  "sorted (map tagIndex ts) \<Longrightarrow> no_duplicates ts \<longleftrightarrow> distinct (map tagIndex ts)"
proof (induction ts rule: no_duplicates.induct)
  case (1 a b ts)
  then show ?case by (auto simp del: sorted_wrt.simps(2) simp: sorted2) (auto simp: le_less)
qed auto

lemma sort_key_eq_sort:
  assumes "distinct (map tagIndex ts)"
  shows "sort_key tagIndex ts = sort ts"
proof (rule sorted_distinct_set_unique)
  have s: "sorted_wrt (\<lambda>a b. tagIndex a \<le> tagIndex b) (sort_key tagIndex ts)"
    using sorted_sort_key[of tagIndex ts] by (simp add: sorted_map)
  have d: "distinct (map tagIndex (sort_key tagIndex ts))"
    using assms by (simp add: distinct_map)
  have "sorted_wrt (\<lambda>a b. tagIndex a < tagIndex b) us" if "sorted_wrt (\<lambda>a b. tagIndex a \<le> tagIndex b) us" "distinct (map tagIndex us)" for us
    using that by (induction us) (auto simp: less_le)
  from this[OF s d] show "sorted (sort_key tagIndex ts)"
    by (rule sorted_wrt_mono_rel[rotated]) (simp add: less_eq_event_tag_def)
qed (use assms in \<open>auto simp: distinct_map\<close>)

text \<open>For numbers below 2^31, sortTags accepts the array iff the numbers are distinct, and then
  leaves the tags sorted in the order of their numbers.\<close>

theorem sortTags_sorts:
  assumes "list_all small_tag ts"
  shows "sortTags ts = Some (if distinct (map tagIndex ts) then Inr (sort ts) else Inl (-1))"
  using no_duplicates_sorted[OF sorted_sort_key, of ts] assms
  by (auto simp: sortTags_def qsort_tags_small distinct_map sort_key_eq_sort)

theorem sortTags_sorts_witness:
  "sortTags [EventTag 42 0, EventTag 7 5] = Some (Inr (sort [EventTag 42 0, EventTag 7 5]))"
  using sortTags_sorts[of "[EventTag 42 0, EventTag 7 5]"] by simp

section \<open>The binary search\<close>

lemma strictly_sorted_small:
  assumes "sorted ts" "distinct (map tagIndex ts)" "i < j" "j < length ts"
  shows "tagIndex (ts ! i) < tagIndex (ts ! j)"
proof -
  have "ts ! i \<le> ts ! j" using assms by (simp add: sorted_nth_mono)
  moreover have "tagIndex (ts ! i) \<noteq> tagIndex (ts ! j)"
    using assms nth_eq_iff_index_eq[of "map tagIndex ts" i j] by simp
  ultimately show ?thesis by (auto simp: less_eq_event_tag_def)
qed

text \<open>The file's tags by number, as the caller of the search sees them.\<close>

definition tag_assoc :: "tag_map \<Rightarrow> (int \<times> nat) list" where
  "tag_assoc m = map (\<lambda>t. (int (unat (tagIndex t)), tagStr t)) (tag_array m)"

lemma lookup_loop_correct:
  fixes lo hi :: int
  assumes "\<And>i j. i < j \<Longrightarrow> j < length arr \<Longrightarrow> unat (tagIndex (arr ! i)) < unat (tagIndex (arr ! j))"
    and "list_all small_tag arr" "n < 2 ^ 31"
    and "0 \<le> lo" "hi < int (length arr)"
    and "\<And>i. i < length arr \<Longrightarrow> int i < lo \<Longrightarrow> unat (tagIndex (arr ! i)) < n"
    and "\<And>i. i < length arr \<Longrightarrow> hi < int i \<Longrightarrow> n < unat (tagIndex (arr ! i))"
  shows "case lookup_loop arr (int n) lo hi of
           Some k \<Rightarrow> 0 \<le> k \<and> k < int (length arr) \<and> unat (tagIndex (arr ! nat k)) = n
         | None \<Rightarrow> \<forall>i < length arr. unat (tagIndex (arr ! i)) \<noteq> n"
  using assms(4-)
proof (induction "nat (hi - lo + 1)" arbitrary: lo hi rule: less_induct)
  case less
  show ?case
  proof (cases "lo \<le> hi")
    case False
    have "unat (tagIndex (arr ! i)) \<noteq> n" if "i < length arr" for i
      using less.prems(3)[OF that] less.prems(4)[OF that] False by (cases "int i < lo") auto
    moreover have "lookup_loop arr (int n) lo hi = None" using False by (simp add: lookup_loop.simps)
    ultimately show ?thesis by simp
  next
    case True
    define mid where "mid = (lo + hi) div 2"
    have mid: "lo \<le> mid" "mid \<le> hi" using True by (auto simp: mid_def)
    define k where "k = nat mid"
    have k: "k < length arr" "int k = mid" using mid less.prems(1,2) by (auto simp: k_def)
    have small: "unat (tagIndex (arr ! k)) < 2 ^ 31" using assms(2) k(1) by (simp add: list_all_length)
    have "sint (tagIndex (arr ! k) - word_of_int (int n)) = int (unat (tagIndex (arr ! k))) - int n"
      using sint_diff_small[OF small, of "word_of_nat n"] assms(3) by (simp add: unat_of_nat take_bit_nat_eq_self)
    then have cmp: "(sint (tagIndex (arr ! k) - word_of_nat n) < 0) = (unat (tagIndex (arr ! k)) < n)"
      "(0 < sint (tagIndex (arr ! k) - word_of_nat n)) = (n < unat (tagIndex (arr ! k)))"
      by (simp_all del: of_nat_unat)
    have step: "lookup_loop arr (int n) lo hi =
      (if unat (tagIndex (arr ! k)) < n then lookup_loop arr (int n) (mid + 1) hi
       else if unat (tagIndex (arr ! k)) > n then lookup_loop arr (int n) lo (mid - 1) else Some mid)"
      using True by (subst lookup_loop.simps) (simp add: Let_def cmp flip: mid_def k_def)
    have below: "unat (tagIndex (arr ! i)) \<le> unat (tagIndex (arr ! k))" if "i \<le> k" for i
      using assms(1)[of i k] that k by (cases "i = k") auto
    have above: "unat (tagIndex (arr ! k)) \<le> unat (tagIndex (arr ! i))" if "k \<le> i" "i < length arr" for i
      using assms(1)[of k i] that by (cases "i = k") auto
    consider "unat (tagIndex (arr ! k)) < n" | "unat (tagIndex (arr ! k)) > n" | "unat (tagIndex (arr ! k)) = n"
      by linarith
    then show ?thesis
    proof cases
      case 1
      have "unat (tagIndex (arr ! i)) < n" if "int i < mid + 1" for i
        using below[of i] 1 that k by linarith
      then show ?thesis using less.hyps[of hi "mid + 1"] less.prems mid True 1 by (simp add: step)
    next
      case 2
      have "n < unat (tagIndex (arr ! i))" if "i < length arr" "mid - 1 < int i" for i
        using above[of i] 2 that k by linarith
      then show ?thesis using less.hyps[of "mid - 1" lo] less.prems mid True 2 by (simp add: step)
    next
      case 3
      then show ?thesis using k by (simp add: step k_def) (use mid less.prems in linarith)
    qed
  qed
qed

lemma lookup_finds:
  assumes "sorted (tag_array m)" "distinct (map tagIndex (tag_array m))"
    and "list_all small_tag (tag_array m)" "n < 2 ^ 31"
  shows "android_lookupEventTag m (int n) = map_of (tag_assoc m) (int n)"
proof -
  let ?a = "tag_array m"
  have less: "unat (tagIndex (?a ! i)) < unat (tagIndex (?a ! j))" if "i < j" "j < length ?a" for i j
    using strictly_sorted_small[OF assms(1,2) that] by (simp add: word_less_nat_alt)
  have d: "distinct (map fst (tag_assoc m))"
    using assms(2) by (simp add: tag_assoc_def comp_def distinct_conv_nth word_uint_eq_iff)
  have *: "case lookup_loop ?a (int n) 0 (int (length ?a) - 1) of
           Some k \<Rightarrow> 0 \<le> k \<and> k < int (length ?a) \<and> unat (tagIndex (?a ! nat k)) = n
         | None \<Rightarrow> \<forall>i < length ?a. unat (tagIndex (?a ! i)) \<noteq> n"
    by (rule lookup_loop_correct[OF less assms(3,4)]) auto
  show ?thesis
  proof (cases "lookup_loop ?a (int n) 0 (int (length ?a) - 1)")
    case None
    then have "int n \<notin> fst ` set (tag_assoc m)"
      using * by (auto simp: tag_assoc_def in_set_conv_nth simp del: of_nat_unat)
    then show ?thesis using None by (simp add: android_lookupEventTag_def map_of_eq_None_iff[THEN iffD2])
  next
    case (Some k)
    then have "(int n, tagStr (?a ! nat k)) \<in> set (tag_assoc m)"
      using * by (auto simp: tag_assoc_def image_iff intro!: bexI[of _ "?a ! nat k"])
    then show ?thesis using Some d by (simp add: android_lookupEventTag_def)
  qed
qed

text \<open>C25: In an array sorted by distinct numbers below 2^31 the binary search terminates and finds, for
  every tag below 2^31, the name of the entry with that number, and NULL when there is none.\<close>

theorem android_lookupEventTag_finds:
  assumes "sorted (tag_array m)" "distinct (map tagIndex (tag_array m))"
    and "list_all small_tag (tag_array m)" "n < 2 ^ 31"
  shows "android_lookupEventTag m (int n) = map_of (tag_assoc m) (int n)"
  by (rule lookup_finds[OF assms])

theorem android_lookupEventTag_finds_witness:
  "android_lookupEventTag \<lparr>map_mem = [], tag_array = [EventTag 3 0, EventTag 7 5, EventTag 42 9]\<rparr> 42 = Some 9"
  using android_lookupEventTag_finds[of "\<lparr>map_mem = [], tag_array = [EventTag 3 0, EventTag 7 5, EventTag 42 9]\<rparr>" 42]
  by (simp add: tag_assoc_def less_eq_event_tag_def)

section \<open>Reading a file\<close>

text \<open>
  A line of a well-formed file: a comment with its text, or a number, the blanks behind it, a name
  and the rest of the line (which is empty or starts with a blank).
\<close>

datatype tag_line = Comment string | Entry nat string string string

abbreviation blank :: "char \<Rightarrow> bool" where
  "blank c \<equiv> c \<noteq> newline \<and> isCharWhitespace c"

fun line_ok :: "tag_line \<Rightarrow> bool" where
  "line_ok (Comment txt) \<longleftrightarrow> newline \<notin> set txt"
| "line_ok (Entry n sep name rest) \<longleftrightarrow> n < 2 ^ 31 \<and> list_all blank sep \<and> name \<noteq> [] \<and> list_all isCharValidTag name
     \<and> newline \<notin> set rest \<and> (rest \<noteq> [] \<longrightarrow> blank (hd rest))"

fun line_text :: "tag_line \<Rightarrow> string" where
  "line_text (Comment txt) = CHR ''#'' # txt @ [newline]"
| "line_text (Entry n sep name rest) = pr_nat 10 n @ CHR '' '' # sep @ name @ rest @ [newline]"

text \<open>The line after parsing, and its tags when it starts at the offset \<open>off\<close>.\<close>

fun line_parsed :: "tag_line \<Rightarrow> string" where
  "line_parsed (Comment txt) = line_text (Comment txt)"
| "line_parsed (Entry n sep name rest) = pr_nat 10 n @ NUL # sep @ name @ NUL # tl (rest @ [newline])"

fun line_tags :: "nat \<Rightarrow> tag_line \<Rightarrow> event_tag list" where
  "line_tags off (Comment txt) = []"
| "line_tags off (Entry n sep name rest) = [EventTag (word_of_nat n) (off + length (pr_nat 10 n) + 1 + length sep)]"

fun file_tags :: "nat \<Rightarrow> tag_line list \<Rightarrow> event_tag list" where
  "file_tags off [] = []"
| "file_tags off (l # ls) = line_tags off l @ file_tags (off + length (line_text l)) ls"

fun file_entries :: "tag_line list \<Rightarrow> (int \<times> string) list" where
  "file_entries [] = []"
| "file_entries (Comment _ # ls) = file_entries ls"
| "file_entries (Entry n _ name _ # ls) = (int n, name) # file_entries ls"

abbreviation file_text :: "tag_line list \<Rightarrow> string" where
  "file_text ls \<equiv> concat (map line_text ls)"

lemma length_line_parsed [simp]: "length (line_parsed l) = length (line_text l)"
  by (cases l) simp_all

lemma isCharValidTag_simps [simp]:
  "isCharValidTag c \<Longrightarrow> \<not> isCharWhitespace c" "isCharValidTag c \<Longrightarrow> c \<noteq> newline" "isCharValidTag c \<Longrightarrow> c \<noteq> NUL"
  by (auto simp: isCharValidTag_def isCharWhitespace_def cval_def)

lemma isdigit_simps [simp]:
  "isdigit c \<Longrightarrow> c \<noteq> newline" "isdigit c \<Longrightarrow> c \<noteq> CHR ''#''" "isdigit c \<Longrightarrow> \<not> isCharWhitespace c"
  by (auto simp: isdigit_def isCharWhitespace_def cval_def)

lemma special_chars [simp]:
  "\<not> isdigit (CHR '' '')" "\<not> isdigit (CHR ''#'')" "\<not> isCharWhitespace (CHR ''#'')" "isCharWhitespace newline"
  by (simp_all add: isdigit_def isCharWhitespace_def cval_def)

lemma blank_not [simp]: "isCharWhitespace c \<Longrightarrow> \<not> isCharValidTag c"
  using isCharValidTag_simps(1) by blast

text \<open>Moving over a stretch of the memory, reading and writing behind it.\<close>

lemma nth_stretch: "mem = a @ x # b \<Longrightarrow> i = length a \<Longrightarrow> mem ! i = x"
  by simp

lemma update_stretch: "mem = a @ x # b \<Longrightarrow> i = length a \<Longrightarrow> mem[i := y] = a @ y # b"
  by simp

lemma skip_while_stretch:
  "mem = a @ b @ c # d \<Longrightarrow> list_all P b \<Longrightarrow> \<not> P c \<Longrightarrow> i = length a \<Longrightarrow> j = length a + length b
    \<Longrightarrow> skip_while P mem i = Some j"
  by (simp add: skip_while_def list_all_iff takeWhile_append2)

lemma count_lines_rest:
  "newline \<notin> set s \<Longrightarrow> count_lines (s @ newline # t) False = count_lines t True"
  by (induction s) auto

lemma not_newline [simp]:
  "list_all blank s \<Longrightarrow> newline \<notin> set s" "list_all isCharValidTag s \<Longrightarrow> newline \<notin> set s" "newline \<notin> set (pr_nat 10 n)"
  by (auto simp: list_all_iff isCharValidTag_def cval_def dest: pr_nat_isdigit isdigit_simps(1))

lemma pr_nat_split: obtains d ds where "pr_nat 10 n = d # ds" "isdigit d" "list_all isdigit ds"
  using pr_nat_isdigit[of _ n] by (cases "pr_nat 10 n") (auto simp: list_all_iff)

lemma count_lines_line:
  "line_ok l \<Longrightarrow> count_lines (line_text l @ t) True = length (line_tags k l) + count_lines t True"
proof (induction k l rule: line_tags.induct)
  case (1 k s)
  then show ?case by (simp add: count_lines_rest isdigit_def isCharWhitespace_def cval_def)
next
  case (2 k n sep name rest)
  obtain d ds where d: "pr_nat 10 n = d # ds" "isdigit d" by (rule pr_nat_split)
  then have "newline \<notin> set ds" using not_newline(3)[of n] by simp
  then show ?case using 2 d count_lines_rest[of "ds @ CHR '' '' # sep @ name @ rest" t] by simp
qed

lemma count_lines_text:
  "list_all line_ok ls \<Longrightarrow> count_lines (file_text ls) True = length (file_tags off ls)"
  by (induction ls arbitrary: off) (simp_all add: count_lines_line)

text \<open>Parsing one line.\<close>

text \<open>
  The character behind the number is overwritten whatever it is, and the first character of the name
  is not looked at.
\<close>

lemma scanTagLine_line:
  assumes "\<not> isdigit y" "list_all blank sep" "\<not> isCharWhitespace x" "list_all isCharValidTag xs"
    and "newline \<notin> set rest" "rest \<noteq> [] \<longrightarrow> blank (hd rest)" "n \<le> u"
  shows "scanTagLine u (pre @ pr_nat 10 n @ y # sep @ x # xs @ rest @ newline # post) (length pre) =
    Some (Inr (pre @ pr_nat 10 n @ NUL # sep @ x # xs @ NUL # tl (rest @ [newline]) @ post,
      EventTag (word_of_nat n) (length pre + length (pr_nat 10 n) + 1 + length sep),
      length pre + length (pr_nat 10 n) + 2 + length sep + length xs + length rest))"
proof -
  obtain d ds where d: "pr_nat 10 n = d # ds" "isdigit d" "list_all isdigit ds" by (rule pr_nat_split)
  obtain w ws where w: "rest @ [newline] = w # ws" "isCharWhitespace w"
    using assms(5,6) by (cases rest) (auto simp: isCharWhitespace_def cval_def)
  define mem where "mem = pre @ d # ds @ y # sep @ x # xs @ w # ws @ post"
  define mem1 where "mem1 = pre @ d # ds @ NUL # sep @ x # xs @ w # ws @ post"
  define mem2 where "mem2 = pre @ d # ds @ NUL # sep @ x # xs @ NUL # ws @ post"
  define e where "e = length pre + 1 + length ds"
  define s where "s = e + 1 + length sep"
  define t where "t = s + 1 + length xs"
  have n: "min (digits_val 10 (take (e - length pre) (drop (length pre) mem))) u = n"
    using assms(7) d(1) digits_val_pr_nat[of 10 n] by (simp add: e_def mem_def)
  have 1: "skip_while isdigit mem (length pre + 1) = Some e"
    by (rule skip_while_stretch[where a = "pre @ [d]" and b = ds and c = y]) (use d(3) assms(1) in \<open>simp_all add: mem_def e_def\<close>)
  have 2: "mem[e := NUL] = mem1"
    unfolding mem1_def by (rule trans[OF update_stretch[where a = "pre @ d # ds"]]) (simp_all add: mem_def e_def)
  have 3: "skip_while blank mem1 (e + 1) = Some s"
    by (rule skip_while_stretch[where a = "pre @ d # ds @ [NUL]" and b = sep and c = x])
      (use assms(2,3) in \<open>simp_all add: mem1_def e_def s_def\<close>)
  have 4: "mem1 ! s = x"
    by (rule nth_stretch[where a = "pre @ d # ds @ NUL # sep"]) (simp_all add: mem1_def e_def s_def)
  have 5: "skip_while isCharValidTag mem1 (s + 1) = Some t"
    by (rule skip_while_stretch[where a = "pre @ d # ds @ NUL # sep @ [x]" and b = xs and c = w])
      (use assms(4) w(2) in \<open>simp_all add: mem1_def e_def s_def t_def\<close>)
  have 6: "mem1 ! t = w"
    by (rule nth_stretch[where a = "pre @ d # ds @ NUL # sep @ x # xs"]) (simp_all add: mem1_def e_def s_def t_def)
  have 7: "mem1[t := NUL] = mem2"
    unfolding mem2_def by (rule trans[OF update_stretch[where a = "pre @ d # ds @ NUL # sep @ x # xs"]])
      (simp_all add: mem1_def e_def s_def t_def)
  have 8: "skip_while (\<lambda>c. c \<noteq> newline) mem2 (t + 1) = Some (t + length ws)" if "w \<noteq> newline"
  proof -
    have vs: "ws = tl rest @ [newline]" using w(1) that by (cases rest) simp_all
    have "newline \<notin> set (tl rest)" using assms(5,6) by (cases rest) simp_all
    then have "list_all (\<lambda>c. c \<noteq> newline) (tl rest)" by (auto simp: list_all_iff)
    with vs show ?thesis
      by (intro skip_while_stretch[where a = "pre @ d # ds @ NUL # sep @ x # xs @ [NUL]" and b = "tl rest" and c = newline])
        (simp_all add: mem2_def e_def s_def t_def)
  qed
  have 9: "ws = []" if "w = newline"
    using w(1) that assms(5,6) by (cases rest) auto
  have aft: "rest @ newline # post = w # ws @ post" using w(1) by (metis append_Cons append_Nil append_assoc)
  have len: "length rest = length ws" using arg_cong[OF w(1), of length] by simp
  have 10: "pre @ pr_nat 10 n @ y # sep @ x # xs @ rest @ newline # post = mem"
    "pre @ pr_nat 10 n @ NUL # sep @ x # xs @ NUL # tl (rest @ [newline]) @ post = mem2"
    "length pre + length (pr_nat 10 n) + 1 + length sep = s"
    "length pre + length (pr_nat 10 n) + 2 + length sep + length xs + length rest = t + length ws"
    by (simp_all add: aft mem_def mem2_def w(1) d(1) e_def s_def t_def len)
  have 11: "x \<noteq> newline" using assms(3) by auto
  show ?thesis
    unfolding 10 scanTagLine_def 1 Let_def option.case 2 3 n 4 5 6 7
    using 8 9 11 w(2) by (cases "w = newline") simp_all
qed

lemma scanTagLine_entry:
  assumes "line_ok (Entry n sep name rest)" "2 ^ 31 \<le> u"
  defines "l \<equiv> Entry n sep name rest"
  shows "scanTagLine u (pre @ line_text l @ post) (length pre) =
    Some (Inr (pre @ line_parsed l @ post, hd (line_tags (length pre) l), length pre + length (line_text l) - 1))"
proof -
  obtain x xs where x: "name = x # xs" "isCharValidTag x" "list_all isCharValidTag xs"
    using assms(1) by (cases name) auto
  show ?thesis
    using scanTagLine_line[of "CHR '' ''" sep x xs rest n u pre post] assms(1,2) x by (simp add: l_def)
qed

text \<open>Parsing the whole file.\<close>

lemma parse_comment:
  "newline \<notin> set cs \<Longrightarrow>
   parse_loop u k (pre @ cs @ newline # post) (length pre) False tags
   = parse_loop u k (pre @ cs @ newline # post) (length pre + length cs + 1) True tags"
proof (induction cs arbitrary: pre)
  case Nil
  then show ?case by (simp add: parse_loop.simps[of _ _ _ "length pre"])
next
  case (Cons c cs)
  then have "c \<noteq> newline" by auto
  then show ?case using Cons.IH[of "pre @ [c]"] Cons.prems by (simp add: parse_loop.simps[of _ _ _ "length pre"])
qed

lemma parse_line:
  assumes "line_ok l" "2 ^ 31 \<le> u" "length tags + length (line_tags (length pre) l) \<le> k"
  shows "parse_loop u k (pre @ line_text l @ post) (length pre) True tags
    = parse_loop u k ((pre @ line_parsed l) @ post) (length (pre @ line_parsed l)) True (tags @ line_tags (length pre) l)"
proof (cases l)
  case (Comment cs)
  then show ?thesis
    using parse_comment[of cs u k "pre @ ''#''" post tags] assms(1)
    by (subst parse_loop.simps) simp
next
  case (Entry n sep name rest)
  obtain d ds where d: "pr_nat 10 n = d # ds" "isdigit d" by (rule pr_nat_split)
  have mem: "(pre @ line_text l @ post) ! length pre = d" "\<not> length (pre @ line_text l @ post) \<le> length pre"
    using d(1) by (simp_all add: Entry)
  have one: "[hd (line_tags (length pre) l)] = line_tags (length pre) l" by (simp add: Entry)
  have "scanTagLine u (pre @ line_text l @ post) (length pre) =
    Some (Inr (pre @ line_parsed l @ post, hd (line_tags (length pre) l), length pre + length (line_text l) - 1))"
    using scanTagLine_entry[of n sep name rest u pre post] assms(1,2) by (simp add: Entry)
  moreover have "length pre + length (line_text l) - 1 + 1 = length (pre @ line_parsed l)"
    by (simp add: Entry)
  moreover have "length tags < k" using assms(3) by (simp add: Entry)
  ultimately show ?thesis
    by (subst parse_loop.simps) (simp only: mem d(2) isdigit_simps one Let_def if_False if_True
      option.case sum.case prod.case not_le append_assoc, simp add: not_less)
qed

lemma parse_lines:
  assumes "list_all line_ok ls" "2 ^ 31 \<le> u"
  shows "parse_loop u (length tags + length (file_tags (length pre) ls)) (pre @ file_text ls) (length pre) True tags
    = Some (Inr (pre @ concat (map line_parsed ls), tags @ file_tags (length pre) ls))"
  using assms(1)
proof (induction ls arbitrary: pre tags)
  case Nil
  show ?case by (subst parse_loop.simps) simp
next
  case (Cons l ls)
  show ?case
    using parse_line[of l u tags pre _ "file_text ls"] Cons.prems assms(2)
      Cons.IH[of "tags @ line_tags (length pre) l" "pre @ line_parsed l"]
    by (simp add: add.assoc)
qed

text \<open>The tags of a file lead to the names of its entries.\<close>

lemma file_tags_names:
  "list_all line_ok ls \<Longrightarrow>
   map (\<lambda>t. (int (unat (tagIndex t)), cstr_at (pre @ concat (map line_parsed ls)) (tagStr t))) (file_tags (length pre) ls)
   = map (\<lambda>(n, name). (n, Some name)) (file_entries ls)"
proof (induction ls arbitrary: pre rule: file_entries.induct)
  case (2 cs ls)
  then show ?case using "2.IH"[of "pre @ line_parsed (Comment cs)"] by simp
next
  case (3 n sep name rest ls)
  have "NUL \<notin> set name" using "3.prems" by (auto simp: list_all_iff dest: isCharValidTag_simps(3))
  then have "cstr_at (pre @ pr_nat 10 n @ NUL # sep @ name @ NUL # z) (length pre + length (pr_nat 10 n) + 1 + length sep) = Some name" for z
    by (simp add: cstr_at_def)
  then show ?case using 3 "3.IH"[of "pre @ line_parsed (Entry n sep name rest)"]
    by (simp add: unsigned_of_nat take_bit_nat_eq_self)
qed simp

lemma file_tags_small: "list_all line_ok ls \<Longrightarrow> list_all small_tag (file_tags k ls)"
proof (induction ls arbitrary: k)
  case (Cons l ls)
  then show ?case by (cases l) (simp_all add: unat_of_nat take_bit_nat_eq_self)
qed simp

lemma file_text_last: "list_all line_ok ls \<Longrightarrow> ls \<noteq> [] \<Longrightarrow> file_text ls \<noteq> [] \<and> last (file_text ls) = newline"
proof (induction ls rule: rev_induct)
  case (snoc l ls)
  then show ?case by (cases l) simp_all
qed simp

lemma open_file_text:
  assumes "list_all line_ok ls" "ls \<noteq> []" "2 ^ 31 \<le> u" "distinct (map tagIndex (file_tags 0 ls))"
  shows "android_openEventTagMap u (Some (file_text ls)) True
    = Some (Some \<lparr>map_mem = concat (map line_parsed ls), tag_array = sort (file_tags 0 ls)\<rparr>)"
proof -
  have "parseMapLines u (countMapLines (file_text ls)) (file_text ls) = Some (Inr (concat (map line_parsed ls), file_tags 0 ls))"
    using parse_lines[OF assms(1,3), of "[]" "[]"] file_text_last[OF assms(1,2)]
    by (simp add: parseMapLines_def countMapLines_def count_lines_text[OF assms(1), of 0])
  moreover have "sortTags (file_tags 0 ls) = Some (Inr (sort (file_tags 0 ls)))"
    using file_tags_small[OF assms(1)] assms(4) no_duplicates_sorted[OF sorted_sort_key, of "file_tags 0 ls"]
    by (simp add: sortTags_def qsort_tags_small distinct_map sort_key_eq_sort)
  ultimately show ?thesis
    using file_text_last[OF assms(1,2)] by (simp add: android_openEventTagMap_def processFile_def)
qed

lemma open_file_names:
  assumes "list_all line_ok ls"
  defines "m \<equiv> \<lparr>map_mem = concat (map line_parsed ls), tag_array = sort (file_tags 0 ls)\<rparr>"
  shows "set (map (\<lambda>(n, at). (n, cstr_at (map_mem m) at)) (tag_assoc m)) = set (map (\<lambda>(n, name). (n, Some name)) (file_entries ls))"
    and "distinct (map fst (tag_assoc m)) \<longleftrightarrow> distinct (map fst (file_entries ls))"
proof -
  have *: "map (\<lambda>t. (int (unat (tagIndex t)), cstr_at (map_mem m) (tagStr t))) (file_tags 0 ls)
    = map (\<lambda>(n, name). (n, Some name)) (file_entries ls)"
    using file_tags_names[OF assms(1), of "[]"] by (simp add: m_def)
  have "set (map (\<lambda>(n, at). (n, cstr_at (map_mem m) at)) (tag_assoc m))
    = set (map (\<lambda>t. (int (unat (tagIndex t)), cstr_at (map_mem m) (tagStr t))) (file_tags 0 ls))"
    by (simp add: tag_assoc_def m_def image_image)
  then show "set (map (\<lambda>(n, at). (n, cstr_at (map_mem m) at)) (tag_assoc m)) = set (map (\<lambda>(n, name). (n, Some name)) (file_entries ls))"
    by (simp only: *)
  have "mset (map fst (tag_assoc m)) = mset (map fst (map (\<lambda>(n, name). (n, Some name)) (file_entries ls)))"
    unfolding *[symmetric] by (simp add: tag_assoc_def m_def image_mset.compositionality comp_def)
  then show "distinct (map fst (tag_assoc m)) \<longleftrightarrow> distinct (map fst (file_entries ls))"
    by (simp add: comp_def split_def mset_eq_imp_distinct_iff)
qed

lemma open_file_reads:
  assumes "list_all line_ok ls" "ls \<noteq> []" "distinct (map fst (file_entries ls))" "2 ^ 31 \<le> u" "n < 2 ^ 31"
  shows "\<exists>m. android_openEventTagMap u (Some (file_text ls)) True = Some (Some m)
    \<and> map_option (cstr_at (map_mem m)) (android_lookupEventTag m (int n)) = map_option Some (map_of (file_entries ls) (int n))"
proof -
  let ?m = "\<lparr>map_mem = concat (map line_parsed ls), tag_array = sort (file_tags 0 ls)\<rparr>"
  note names = open_file_names[OF assms(1)]
  have da: "distinct (map fst (tag_assoc ?m))" using names(2) assms(3) by simp
  then have "distinct (map (\<lambda>w. int (unat w)) (map tagIndex (sort (file_tags 0 ls))))"
    by (simp add: tag_assoc_def comp_def)
  then have ds: "distinct (map tagIndex (sort (file_tags 0 ls)))"
    by (simp only: distinct_map[of "\<lambda>w. int (unat w)"])
  then have d: "distinct (map tagIndex (file_tags 0 ls))" by (simp add: distinct_map)
  have open_m: "android_openEventTagMap u (Some (file_text ls)) True = Some (Some ?m)"
    by (rule open_file_text[OF assms(1,2,4) d])
  have "map_of (map (\<lambda>(n, at). (n, cstr_at (map_mem ?m) at)) (tag_assoc ?m)) = map_of (map (\<lambda>(n, name). (n, Some name)) (file_entries ls))"
    using names(1) da assms(3) by (intro map_of_inject_set[THEN iffD2]) (simp_all add: comp_def split_def)
  then have "map_option (cstr_at (map_mem ?m)) (map_of (tag_assoc ?m) (int n)) = map_option Some (map_of (file_entries ls) (int n))"
    by (simp add: map_of_map fun_eq_iff split: option.splits)
  moreover have "android_lookupEventTag ?m (int n) = map_of (tag_assoc ?m) (int n)"
    using ds file_tags_small[OF assms(1), of 0] lookup_finds[of ?m n] assms(5) by (simp add: list_all_iff)
  ultimately show ?thesis using open_m by (intro exI[of _ ?m]) simp
qed

text \<open>C24: A file of well-formed lines with distinct numbers below 2^31 opens, and the lookup of a number in
  the map gives the name written behind that number, or NULL when no line has it.\<close>

theorem android_openEventTagMap_reads:
  assumes "list_all line_ok ls" "ls \<noteq> []" "distinct (map fst (file_entries ls))" "2 ^ 31 \<le> u" "n < 2 ^ 31"
  shows "\<exists>m. android_openEventTagMap u (Some (file_text ls)) True = Some (Some m)
    \<and> map_option (cstr_at (map_mem m)) (android_lookupEventTag m (int n)) = map_option Some (map_of (file_entries ls) (int n))"
  by (rule open_file_reads[OF assms])

theorem android_openEventTagMap_reads_witness:
  defines "ls \<equiv> [Comment ''tags'', Entry 42 [] ''answer'' '' (to|1)'', Entry 7 '' '' ''seven'' []]"
  shows "\<exists>m. android_openEventTagMap (2 ^ 64 - 1) (Some (file_text ls)) True = Some (Some m)
    \<and> map_option (cstr_at (map_mem m)) (android_lookupEventTag m 42) = Some (Some ''answer'')"
  using android_openEventTagMap_reads[of ls "2 ^ 64 - 1" 42]
  by (simp add: ls_def isCharWhitespace_def isCharValidTag_def cval_def)

section \<open>A number without a name\<close>

lemma scan_number_at_end:
  "scanTagLine u (pr_nat 10 n @ [newline]) 0 = None"
proof -
  obtain d ds where d: "pr_nat 10 n = d # ds" "list_all isdigit ds" by (rule pr_nat_split)
  have "skip_while isdigit (pr_nat 10 n @ [newline]) 1 = Some (1 + length ds)"
    by (rule skip_while_stretch[where a = "[d]" and b = ds and c = newline]) (use d in \<open>simp_all add: isdigit_def cval_def\<close>)
  then show ?thesis
    using d(1) by (simp add: scanTagLine_def skip_while_def[of blank])
qed

lemma open_single:
  assumes "count_lines rest False = 0"
    and mem: "mem = pr_nat 10 n @ rest" and "last mem = newline"
  shows "android_openEventTagMap u (Some mem) True
    = (case scanTagLine u mem 0 of None \<Rightarrow> None | Some (Inl e) \<Rightarrow> Some None
       | Some (Inr (mem', tag, i)) \<Rightarrow> (case parse_loop u 1 mem' (i + 1) True [tag] of
           None \<Rightarrow> None | Some (Inl e) \<Rightarrow> Some None
         | Some (Inr (mem'', tags)) \<Rightarrow> (case sortTags tags of
             None \<Rightarrow> None | Some (Inl e) \<Rightarrow> Some None | Some (Inr s) \<Rightarrow> Some (Some \<lparr>map_mem = mem'', tag_array = s\<rparr>))))"
proof -
  obtain d ds where d: "pr_nat 10 n = d # ds" "isdigit d" "list_all isdigit ds" by (rule pr_nat_split)
  have skip: "count_lines (xs @ rest) False = count_lines rest False" if "list_all isdigit xs" for xs
    using that by (induction xs) auto
  have count: "countMapLines mem = 1"
    using d skip[of ds] assms(1) by (simp add: countMapLines_def mem)
  have "parse_loop u 1 mem 0 True [] = (case scanTagLine u mem 0 of None \<Rightarrow> None | Some (Inl e) \<Rightarrow> Some (Inl (-1))
       | Some (Inr (mem', tag, i)) \<Rightarrow> parse_loop u 1 mem' (i + 1) True [tag])"
    using d by (subst parse_loop.simps) (simp add: mem cong: option.case_cong sum.case_cong)
  moreover have "mem \<noteq> []" by (simp add: mem)
  ultimately show ?thesis
    unfolding android_openEventTagMap_def processFile_def parseMapLines_def count
    by (auto simp: assms(3) count split: option.split sum.split prod.split)
qed

text \<open>A line that holds only a number is not reported as "missing tag string": the newline behind the
  number is overwritten before it is looked for, so a comment on the next line becomes the name, and at
  the end of the file the scan reads behind the mapped file.\<close>

theorem missing_name_not_reported:
  assumes "n < 2 ^ 31" "2 ^ 31 \<le> u" "newline \<notin> set cs"
  shows "android_openEventTagMap u (Some (pr_nat 10 n @ newline # CHR ''#'' # CHR '' '' # cs @ [newline])) True
      = Some (Some \<lparr>map_mem = pr_nat 10 n @ NUL # CHR ''#'' # NUL # cs @ [newline],
          tag_array = [EventTag (word_of_nat n) (length (pr_nat 10 n) + 1)]\<rparr>)
    \<and> android_openEventTagMap u (Some (pr_nat 10 n @ [newline])) True = None"
proof
  let ?rest = "newline # CHR ''#'' # CHR '' '' # cs @ [newline]"
  have "scanTagLine u (pr_nat 10 n @ ?rest) 0
    = Some (Inr (pr_nat 10 n @ NUL # CHR ''#'' # NUL # cs @ [newline],
        EventTag (word_of_nat n) (length (pr_nat 10 n) + 1), length (pr_nat 10 n) + 3 + length cs))"
    using scanTagLine_line[of newline "[]" "CHR ''#''" "[]" "CHR '' '' # cs" n u "[]" "[]"] assms
    by (simp add: isdigit_def cval_def isCharWhitespace_def)
  moreover have "count_lines ?rest False = 0"
    using count_lines_rest[of "CHR '' '' # cs" "[]"] assms(3) by simp
  moreover have "sortTags [EventTag (word_of_nat n) k] = Some (Inr [EventTag (word_of_nat n) k])" for k
    by (simp add: sortTags_def qsort_tags_def qsort_def orders_def compareEventTags_def)
  ultimately show "android_openEventTagMap u (Some (pr_nat 10 n @ ?rest)) True
      = Some (Some \<lparr>map_mem = pr_nat 10 n @ NUL # CHR ''#'' # NUL # cs @ [newline],
          tag_array = [EventTag (word_of_nat n) (length (pr_nat 10 n) + 1)]\<rparr>)"
    by (subst open_single[OF _ refl]) (simp_all add: parse_loop.simps[of _ "Suc 0"])
  show "android_openEventTagMap u (Some (pr_nat 10 n @ [newline])) True = None"
    by (subst open_single[OF _ refl]) (simp_all add: scan_number_at_end)
qed

theorem missing_name_not_reported_witness:
  "android_openEventTagMap (2 ^ 64 - 1) (Some (pr_nat 10 42 @ newline # CHR ''#'' # CHR '' '' # ''x'' @ [newline])) True
      = Some (Some \<lparr>map_mem = pr_nat 10 42 @ NUL # CHR ''#'' # NUL # ''x'' @ [newline],
          tag_array = [EventTag (word_of_nat 42) (length (pr_nat 10 42) + 1)]\<rparr>)
    \<and> android_openEventTagMap (2 ^ 64 - 1) (Some (pr_nat 10 42 @ [newline])) True = None"
  using missing_name_not_reported[of 42 "2 ^ 64 - 1" "''x''"] by simp

end
