(* ===== verification/LogBinary.thy ===== *)
theory LogBinary
  imports LogEntry EventTags
begin

text \<open>
  \<open>liblog/logprint.c\<close>, binary events: \<open>android_log_printBinaryEvent\<close> turns the typed values of an event
  into text, \<open>android_log_processBinaryLogBuffer\<close> an entry of the events log into a log entry with that
  text and the name of the event from the tag map.
\<close>

section \<open>Values\<close>

definition EVENT_TYPE_INT :: nat where "EVENT_TYPE_INT = 0"
definition EVENT_TYPE_LONG :: nat where "EVENT_TYPE_LONG = 1"
definition EVENT_TYPE_STRING :: nat where "EVENT_TYPE_STRING = 2"
definition EVENT_TYPE_LIST :: nat where "EVENT_TYPE_LIST = 3"

lemmas event_types = EVENT_TYPE_INT_def EVENT_TYPE_LONG_def EVENT_TYPE_STRING_def EVENT_TYPE_LIST_def

definition get4LE :: "string \<Rightarrow> u32" where
  "get4LE s = (let b = (\<lambda>i. ucast (byte_of (s ! i))) in b 0 OR push_bit 8 (b 1) OR push_bit 16 (b 2) OR push_bit 24 (b 3))"

definition get8LE :: "string \<Rightarrow> u64" where
  "get8LE s = push_bit 32 (ucast (get4LE (drop 4 s))) OR ucast (get4LE s)"

section \<open>Printing an event\<close>

text \<open>
  The event data not yet read, the text written so far, and the room left for more
  (\<open>*pEventData\<close>, \<open>*pOutBuf\<close>, \<open>*pOutBufLen\<close>). Characters written behind the text without moving
  \<open>outBuf\<close> do not matter.
\<close>

record event_io =
  ev_data :: string
  ev_out :: string
  ev_room :: nat

text \<open>\<open>snprintf\<close> of a number with its check, and one character.\<close>

definition put_number :: "string \<Rightarrow> event_io \<Rightarrow> int \<times> event_io" where
  "put_number txt s =
     (if length txt < ev_room s then (0, s\<lparr>ev_out := ev_out s @ txt, ev_room := ev_room s - length txt\<rparr>) else (1, s))"

definition put_char :: "char \<Rightarrow> event_io \<Rightarrow> int \<times> event_io" where
  "put_char c s = (if ev_room s > 0 then (0, s\<lparr>ev_out := ev_out s @ [c], ev_room := ev_room s - 1\<rparr>) else (1, s))"

definition print_string :: "nat \<Rightarrow> event_io \<Rightarrow> int \<times> event_io" where
  "print_string strLen s =
     (if strLen < ev_room s then
        (0, s\<lparr>ev_out := ev_out s @ take strLen (ev_data s), ev_room := ev_room s - strLen, ev_data := drop strLen (ev_data s)\<rparr>)
      else if ev_room s > 0 then (1, s\<lparr>ev_out := ev_out s @ take (ev_room s) (ev_data s), ev_room := 0\<rparr>)
      else (0, s\<lparr>ev_data := drop strLen (ev_data s)\<rparr>))"

lemma put_data [simp]:
  "ev_data (snd (put_number txt s)) = ev_data s" "ev_data (snd (put_char c s)) = ev_data s"
  by (simp_all add: put_number_def put_char_def)

lemma print_string_data: "length (ev_data (snd (print_string n s))) \<le> length (ev_data s)"
  by (simp add: print_string_def)

lemma put_char_data: "(r, y) = put_char c s \<Longrightarrow> ev_data y = ev_data s"
  by (metis put_data(2) snd_conv)

text \<open>\<open>android_log_printBinaryEvent\<close>, and the loop over the items of a list with how many are left. No call makes
  the data longer, so the recursion ends.\<close>

function print_event :: "event_io \<Rightarrow> int \<times> event_io" and print_items :: "nat \<Rightarrow> event_io \<Rightarrow> int \<times> event_io" where
  "print_event s =
     (case ev_data s of
        [] \<Rightarrow> (-1, s)
      | t # d \<Rightarrow>
          if cval t = EVENT_TYPE_INT then
            (if length d < 4 then (-1, s) else put_number (pr_int (sint (get4LE d))) (s\<lparr>ev_data := drop 4 d\<rparr>))
          else if cval t = EVENT_TYPE_LONG then
            (if length d < 8 then (-1, s) else put_number (pr_int (sint (get8LE d))) (s\<lparr>ev_data := drop 8 d\<rparr>))
          else if cval t = EVENT_TYPE_STRING then
            (if length d < 4 then (-1, s)
             else if length (drop 4 d) < unat (get4LE d) then (-1, s)
             else print_string (unat (get4LE d)) (s\<lparr>ev_data := drop 4 d\<rparr>))
          else if cval t = EVENT_TYPE_LIST then
            (case d of
               [] \<Rightarrow> (-1, s)
             | n # d1 \<Rightarrow>
                 let (r, s1) = put_char (CHR ''['') (s\<lparr>ev_data := d1\<rparr>) in
                 if r \<noteq> 0 then (r, s1)
                 else let (r, s2) = print_items (cval n) s1 in
                   if r \<noteq> 0 then (r, s2) else put_char (CHR '']'') s2)
          else (-1, s))"
| "print_items n s =
     (case n of
        0 \<Rightarrow> (0, s)
      | Suc k \<Rightarrow>
          let (r, s1) = print_event s in
          if r \<noteq> 0 then (r, s1)
          else if k = 0 then (0, s1)
          else let (r, s2) = put_char (CHR '','') s1 in
            if r \<noteq> 0 then (r, s2) else print_items k s2)"
  by pat_completeness auto

termination
proof -
  have print_shrinks:
    "print_event_print_items_dom (Inl s) \<Longrightarrow> length (ev_data (snd (print_event s))) \<le> length (ev_data s)"
    "print_event_print_items_dom (Inr (n, s)) \<Longrightarrow> length (ev_data (snd (print_items n s))) \<le> length (ev_data s)" for s n
  proof (induction s and n s rule: print_event_print_items.pinduct)
    case (1 s)
    note psimp = print_event.psimps[OF "1.hyps"(1)]
    show ?case
    proof (cases "\<exists>t n d. ev_data s = t # n # d \<and> cval t = EVENT_TYPE_LIST")
      case True
      then obtain t n d where d: "ev_data s = t # n # d" "cval t = EVENT_TYPE_LIST" by blast
      obtain r s1 where s1: "put_char (CHR ''['') (s\<lparr>ev_data := d\<rparr>) = (r, s1)" by fastforce
      then have l1: "ev_data s1 = d" using put_data(2)[of "CHR ''[''" "s\<lparr>ev_data := d\<rparr>"] by simp
      obtain q s2 where s2: "print_items (cval n) s1 = (q, s2)" by fastforce
      have "r = 0 \<Longrightarrow> length (ev_data s2) \<le> length d"
        using "1.IH"[of t "n # d" n d] d s1 l1 s2 by (simp add: event_types)
      then show ?thesis using psimp d s1 l1 s2 by (auto simp: event_types)
    next
      case False
      have "length (ev_data (snd (print_string k (s\<lparr>ev_data := x\<rparr>)))) \<le> length x" for k x
        using print_string_data[of k "s\<lparr>ev_data := x\<rparr>"] by simp
      note le = le_trans[OF this]
      show ?thesis using psimp False by (auto intro!: le split: list.split)
    qed
  next
    case (2 n s)
    note psimp = print_items.psimps[OF "2.hyps"(1)]
    show ?case
    proof (cases n)
      case (Suc k)
      obtain r s1 where s1: "print_event s = (r, s1)" by fastforce
      then have l1: "length (ev_data s1) \<le> length (ev_data s)" using "2.IH"(1)[OF Suc] by simp
      obtain q s2 where s2: "put_char (CHR '','') s1 = (q, s2)" by fastforce
      then have l2: "ev_data s2 = ev_data s1" using put_data(2)[of "CHR '',''" s1] by simp
      have "r = 0 \<Longrightarrow> k \<noteq> 0 \<Longrightarrow> q = 0 \<Longrightarrow> length (ev_data (snd (print_items k s2))) \<le> length (ev_data s2)"
        using "2.IH"(2)[OF Suc s1[symmetric]] s2 by simp
      then show ?thesis using psimp Suc s1 s2 l1 l2 by auto
    qed (use psimp in simp)
  qed
  show ?thesis
    by (relation "measures [\<lambda>x. length (ev_data (case x of Inl s \<Rightarrow> s | Inr (n, s) \<Rightarrow> s)), \<lambda>x. case x of Inl s \<Rightarrow> 0 | Inr (n, s) \<Rightarrow> 1 + n]")
      (auto dest!: put_char_data dest: print_shrinks(1) simp: snd_def split: prod.splits)
qed

declare print_event.simps [simp del] print_items.simps [simp del]

section \<open>The values of an event\<close>

text \<open>What an event can hold, its bytes and its text.\<close>

datatype event_val = EInt u32 | ELong u64 | EStr string | EList "event_val list"

definition le8 :: "u64 \<Rightarrow> string" where
  "le8 w = tag_bytes (ucast w) @ tag_bytes (ucast (drop_bit 32 w))"

fun event_bytes :: "event_val \<Rightarrow> string" where
  "event_bytes (EInt w) = CHR 0x00 # tag_bytes w"
| "event_bytes (ELong w) = CHR 0x01 # le8 w"
| "event_bytes (EStr s) = CHR 0x02 # tag_bytes (word_of_nat (length s)) @ s"
| "event_bytes (EList es) = CHR 0x03 # char_of (length es) # concat (map event_bytes es)"

fun commas :: "string list \<Rightarrow> string" where
  "commas [] = []"
| "commas [x] = x"
| "commas (x # y # xs) = x @ CHR '','' # commas (y # xs)"

fun event_text :: "event_val \<Rightarrow> string" where
  "event_text (EInt w) = pr_int (sint w)"
| "event_text (ELong w) = pr_int (sint w)"
| "event_text (EStr s) = s"
| "event_text (EList es) = CHR ''['' # commas (map event_text es) @ [CHR '']'']"

fun event_ok :: "event_val \<Rightarrow> bool" where
  "event_ok (EStr s) \<longleftrightarrow> length s < 2 ^ 32"
| "event_ok (EList es) \<longleftrightarrow> length es < 256 \<and> list_all event_ok es"
| "event_ok _ \<longleftrightarrow> True"

lemma length_tag_bytes [simp]: "length (tag_bytes w) = 4"
  by (simp add: tag_bytes_def)

lemma get4LE_tag_bytes [simp]: "get4LE (tag_bytes w @ s) = w"
proof (rule bit_word_eqI)
  fix n assume "n < LENGTH(32)"
  then consider "n < 8" | "8 \<le> n" "n < 16" | "16 \<le> n" "n < 24" | "24 \<le> n" "n < 32" by fastforce
  then show "bit (get4LE (tag_bytes w @ s)) n = bit w n"
    by cases (auto simp: get4LE_def tag_bytes_def bit_simps upt_rec Let_def)
qed

lemma get8LE_le8 [simp]: "get8LE (le8 w @ s) = w"
proof (rule bit_word_eqI)
  fix n assume "n < LENGTH(64)"
  then consider "n < 32" | "32 \<le> n" "n < 64" by fastforce
  then show "bit (get8LE (le8 w @ s)) n = bit w n"
    by cases (auto simp: get8LE_def le8_def bit_simps)
qed

lemma length_le8 [simp]: "length (le8 w) = 8"
  by (simp add: le8_def)

text \<open>Printing with enough room: the text is appended, the bytes are eaten.\<close>

definition prints :: "event_io \<Rightarrow> string \<Rightarrow> string \<Rightarrow> event_io" where
  "prints s txt rest = s\<lparr>ev_data := rest, ev_out := ev_out s @ txt, ev_room := ev_room s - length txt\<rparr>"

lemma put_char_prints: "0 < ev_room s \<Longrightarrow> put_char c s = (0, prints s [c] (ev_data s))"
  by (simp add: put_char_def prints_def)

lemma prints_prints [simp]: "prints (prints s t r) t' r' = prints s (t @ t') r'"
  by (simp add: prints_def)

lemma prints_simps [simp]:
  "ev_data (prints s t r) = r" "ev_room (prints s t r) = ev_room s - length t" "ev_out (prints s t r) = ev_out s @ t"
  by (simp_all add: prints_def)

lemma items_print:
  assumes "\<And>e s rest. e \<in> set es \<Longrightarrow> ev_data s = event_bytes e @ rest \<Longrightarrow> length (event_text e) < ev_room s
    \<Longrightarrow> print_event s = (0, prints s (event_text e) rest)"
    and "ev_data s = concat (map event_bytes es) @ rest" "length (commas (map event_text es)) < ev_room s"
  shows "print_items (length es) s = (0, prints s (commas (map event_text es)) rest)"
  using assms
proof (induction es arbitrary: s)
  case Nil
  then show ?case by (simp add: print_items.simps prints_def)
next
  case (Cons e es)
  show ?case
  proof (cases es)
    case Nil
    then show ?thesis using Cons.prems by (simp add: print_items.simps)
  next
    case (Cons f fs)
    let ?s1 = "prints s (event_text e) (concat (map event_bytes es) @ rest)"
    let ?s2 = "prints ?s1 '','' (concat (map event_bytes es) @ rest)"
    have len: "length (event_text e) + 1 + length (commas (map event_text es)) < ev_room s"
      using Cons.prems(3) Cons by simp
    have "print_event s = (0, ?s1)" using Cons.prems(1)[of e s] Cons.prems(2) len by simp
    moreover have "put_char (CHR '','') ?s1 = (0, ?s2)" using put_char_prints[of ?s1 "CHR '',''"] len by simp
    moreover have "print_items (length es) ?s2 = (0, prints ?s2 (commas (map event_text es)) rest)"
      using Cons.IH[of ?s2] Cons.prems(1) len by simp
    ultimately show ?thesis using Cons by (simp add: print_items.simps[of "Suc _"])
  qed
qed

lemma event_prints:
  assumes "event_ok e" "ev_data s = event_bytes e @ rest" "length (event_text e) < ev_room s"
  shows "print_event s = (0, prints s (event_text e) rest)"
  using assms
proof (induction e arbitrary: s rest)
  case (EInt w)
  then show ?case by (simp add: print_event.simps event_types cval_def put_number_def prints_def)
next
  case (ELong w)
  then show ?case by (simp add: print_event.simps event_types cval_def put_number_def prints_def)
next
  case (EStr t)
  then have "unat (word_of_nat (length t) :: u32) = length t" by (simp add: unat_of_nat take_bit_nat_eq_self)
  then show ?case using EStr by (simp add: print_event.simps event_types cval_def print_string_def prints_def)
next
  case (EList es)
  let ?d = "concat (map event_bytes es) @ rest"
  let ?s1 = "prints s ''['' ?d"
  have n: "cval (char_of (length es)) = length es" using EList.prems(1) by simp
  have len: "length (commas (map event_text es)) + 2 < ev_room s" using EList.prems(3) by simp
  have s1: "put_char (CHR ''['') (s\<lparr>ev_data := ?d\<rparr>) = (0, ?s1)" using len by (simp add: put_char_def prints_def)
  have "print_items (length es) ?s1 = (0, prints ?s1 (commas (map event_text es)) rest)"
    by (rule items_print) (use EList len in \<open>auto simp: list_all_iff\<close>)
  moreover have "put_char (CHR '']'') (prints ?s1 (commas (map event_text es)) rest)
      = (0, prints (prints ?s1 (commas (map event_text es)) rest) '']'' rest)"
    using put_char_prints[of "prints ?s1 (commas (map event_text es)) rest" "CHR '']''"] len by simp
  ultimately show ?case
    using EList.prems(2) s1 n by (simp add: print_event.simps[of s] event_types) (simp add: cval_def)
qed

section \<open>Never more than the room\<close>

text \<open>A step that only appends, and takes the room it uses.\<close>

definition fits :: "event_io \<Rightarrow> event_io \<Rightarrow> bool" where
  "fits s s' \<longleftrightarrow> (\<exists>t. ev_out s' = ev_out s @ t \<and> length t + ev_room s' = ev_room s)"

lemma fits_refl: "ev_out s' = ev_out s \<Longrightarrow> ev_room s' = ev_room s \<Longrightarrow> fits s s'"
  by (simp add: fits_def)

lemma fits_trans: "fits a b \<Longrightarrow> fits b c \<Longrightarrow> fits a c"
  unfolding fits_def by (elim exE, rule_tac x = "t @ ta" in exI) simp

lemma fits_put:
  "fits s (snd (put_number txt s))" "fits s (snd (put_char c s))" "n \<le> length (ev_data s) \<Longrightarrow> fits s (snd (print_string n s))"
  by (simp_all add: fits_def put_number_def put_char_def print_string_def min_def)

lemma fits_data: "fits (s\<lparr>ev_data := d\<rparr>) s' \<longleftrightarrow> fits s s'"
  by (simp add: fits_def)

lemma result_put: "fst (put_number txt s) \<in> {0, 1}" "fst (put_char c s) \<in> {0, 1}" "fst (print_string n s) \<in> {0, 1}"
  by (simp_all add: put_number_def put_char_def print_string_def)

lemma print_fits:
  "fits s (snd (print_event s)) \<and> fst (print_event s) \<in> {-1, 0, 1}"
  "fits s (snd (print_items n s)) \<and> fst (print_items n s) \<in> {-1, 0, 1}"
proof (induction s and n s rule: print_event_print_items.induct)
  case (1 s)
  note simps = print_event.simps[of s]
  show ?case
  proof (cases "\<exists>t n d. ev_data s = t # n # d \<and> cval t = EVENT_TYPE_LIST")
    case True
    then obtain t n d where d: "ev_data s = t # n # d" "cval t = EVENT_TYPE_LIST" by blast
    obtain r s1 where s1: "put_char (CHR ''['') (s\<lparr>ev_data := d\<rparr>) = (r, s1)" by fastforce
    then have f1: "fits s s1" "r \<in> {0, 1}"
      using fits_put(2)[of "s\<lparr>ev_data := d\<rparr>" "CHR ''[''"] result_put(2)[of "CHR ''[''" "s\<lparr>ev_data := d\<rparr>"] by (simp_all add: fits_data)
    obtain q s2 where s2: "print_items (cval n) s1 = (q, s2)" by fastforce
    have f2: "r = 0 \<Longrightarrow> fits s1 s2 \<and> q \<in> {-1, 0, 1}"
      using 1[of t "n # d" n d] d s1 s2 by (simp add: event_types)
    obtain q3 s3 where s3: "put_char (CHR '']'') s2 = (q3, s3)" by fastforce
    then have f3: "fits s2 s3" "q3 \<in> {0, 1}" using fits_put(2)[of s2 "CHR '']''"] result_put(2)[of "CHR '']''" s2] by simp_all
    have "r = 0 \<Longrightarrow> fits s s2" "r = 0 \<Longrightarrow> fits s s3" using f1(1) f2 f3(1) fits_trans by blast+
    moreover have "print_event s = (if r \<noteq> 0 then (r, s1) else if q \<noteq> 0 then (q, s2) else (q3, s3))"
      using simps d s1 s2 s3 by (simp add: event_types)
    ultimately show ?thesis using f1 f2 f3(2) by (cases "r = 0"; cases "q = 0") auto
  next
    case False
    have leaf: "fits s (snd (put_number w (s\<lparr>ev_data := d\<rparr>)))" "k \<le> length d \<Longrightarrow> fits s (snd (print_string k (s\<lparr>ev_data := d\<rparr>)))"
      "fst (put_number w s') \<in> {-1, 0, 1}" "fst (print_string k s') \<in> {-1, 0, 1}" for w d k s'
      using fits_put(1)[of "s\<lparr>ev_data := d\<rparr>" w] fits_put(3)[of k "s\<lparr>ev_data := d\<rparr>"] result_put by (auto simp: fits_data)
    show ?thesis using simps False leaf fits_refl[of s s] by (cases "ev_data s") (auto split: list.split)
  qed
next
  case (2 n s)
  show ?case
  proof (cases n)
    case 0
    then show ?thesis by (simp add: print_items.simps fits_refl)
  next
    case (Suc k)
    obtain r s1 where s1: "print_event s = (r, s1)" by fastforce
    then have f1: "fits s s1" "r \<in> {-1, 0, 1}" using 2(1)[OF Suc] by simp_all
    obtain q s2 where s2: "put_char (CHR '','') s1 = (q, s2)" by fastforce
    then have f2: "fits s1 s2" "q \<in> {0, 1}" using fits_put(2)[of s1 "CHR '',''"] result_put(2)[of "CHR '',''" s1] by simp_all
    have f3: "r = 0 \<Longrightarrow> k \<noteq> 0 \<Longrightarrow> q = 0 \<Longrightarrow> fits s2 (snd (print_items k s2)) \<and> fst (print_items k s2) \<in> {-1, 0, 1}"
      using 2(2)[OF Suc s1[symmetric]] s2 by simp
    have "print_items n s = (if r \<noteq> 0 then (r, s1) else if k = 0 then (0, s1) else if q \<noteq> 0 then (q, s2) else print_items k s2)"
      unfolding Suc print_items.simps[of "Suc k"] using s1 s2 by simp
    then show ?thesis
      using f1 f2 f3 fits_trans[OF f1(1) f2(1)] fits_trans[of s s2 "snd (print_items k s2)"]
      by (cases "r = 0"; cases "q = 0"; cases "k = 0") auto
  qed
qed

section \<open>Entries\<close>

text \<open>
  \<open>android_log_processBinaryLogBuffer\<close> with a buffer of \<open>room\<close> characters for the text. Without a name
  the number of the tag is put at the buffer's start, and the text behind it. \<^const>\<open>None\<close>: a write
  behind the buffer, a read behind the entry, or a name without a NUL.
\<close>

definition generated_tag :: "u32 \<Rightarrow> string" where
  "generated_tag n = CHR ''['' # pr_int (sint n) @ '']''"

definition binary_tag :: "tag_map option \<Rightarrow> u32 \<Rightarrow> int \<Rightarrow> (string \<times> int) option" where
  "binary_tag tmap n room =
     (case (case tmap of None \<Rightarrow> None | Some m \<Rightarrow> android_lookupEventTag m (sint n)) of
        Some i \<Rightarrow> map_option (\<lambda>name. (name, room)) (cstr_at (map_mem (the tmap)) i)
      | None \<Rightarrow> if room < 0 then None else Some (generated_tag n, room - int (length (generated_tag n) + 1)))"

definition mark_cut :: "int \<Rightarrow> string \<Rightarrow> string" where
  "mark_cut r out = (if r = 1 then (if out = [] then ''!'' else butlast out @ ''!'') else out)"

definition android_log_processBinaryLogBuffer :: "tag_map option \<Rightarrow> logger_entry \<Rightarrow> int \<Rightarrow> log_entry \<Rightarrow> (int \<times> log_entry) option" where
  "android_log_processBinaryLogBuffer tmap buf room e =
     (let e1 = e\<lparr>tv_sec := le_sec buf, tv_nsec := le_nsec buf, priority := ANDROID_LOG_INFO, epid := le_pid buf, etid := le_tid buf\<rparr>;
          data = take (le_len buf) (le_msg buf) in
      if le_len buf < 4 then Some (-1, e1)
      else if length (le_msg buf) < le_len buf then None
      else (case binary_tag tmap (get4LE data) room of
          None \<Rightarrow> None
        | Some (name, size1) \<Rightarrow>
            let (r, s) = print_event \<lparr>ev_data = drop 4 data, ev_out = [], ev_room = unat (word_of_int (size1 - 1) :: u64)\<rparr> in
            if r < 0 then (if ev_out s = [] \<or> int (length (ev_out s)) \<le> size1 then Some (-1, e1\<lparr>etag := Lit name\<rparr>) else None)
            else let out = mark_cut r (ev_out s) in
              if int (length out) + 1 \<le> size1
              then Some (0, e1\<lparr>etag := Lit name, messageLen := word_of_nat (length out), emessage := Lit out\<rparr>) else None))"

lemma length_mark_cut: "length (mark_cut r out) \<le> max 1 (length out)"
  by (simp add: mark_cut_def)

lemma length_generated_tag: "length (generated_tag n) \<le> 13"
proof -
  have "- (2 ^ 31) \<le> sint n" "sint n < 2 ^ 31" using sint_range_size[of n] by (simp_all add: word_size)
  then have "nat (- sint n) < 10 ^ 10" "nat (sint n) < 10 ^ 10" by simp_all
  then have "length (pr_nat 10 (nat (- sint n))) \<le> 10" "length (pr_nat 10 (nat (sint n))) \<le> 10"
    by (simp_all only: length_pr_nat zero_less_numeral)
  then show ?thesis by (simp add: generated_tag_def pr_int_def)
qed

text \<open>C20: With room for 16 characters the buffer is never overrun, whatever the event holds, with a tag map or
  without: the entry is refused, or it has a text that ends with its NUL inside the buffer.\<close>

theorem binary_event_stays_in_buffer:
  assumes "le_len buf \<le> length (le_msg buf)" "16 \<le> room" "room < 2 ^ 31"
    and "\<And>m i. tmap = Some m \<Longrightarrow> android_lookupEventTag m (sint (get4LE (take (le_len buf) (le_msg buf)))) = Some i \<Longrightarrow> cstr_at (map_mem m) i \<noteq> None"
  shows "\<exists>r e'. android_log_processBinaryLogBuffer tmap buf room e = Some (r, e') \<and> (r = -1 \<or> r = 0 \<and>
    (\<exists>out. emessage e' = Lit out \<and> messageLen e' = word_of_nat (length out) \<and> int (length out) < room))"
proof (cases "le_len buf < 4")
  case True
  then show ?thesis by (auto simp: android_log_processBinaryLogBuffer_def Let_def)
next
  case False
  let ?n = "get4LE (take (le_len buf) (le_msg buf))"
  have "\<exists>name size1. binary_tag tmap ?n room = Some (name, size1) \<and> 2 \<le> size1 \<and> size1 \<le> room"
  proof (cases "case tmap of None \<Rightarrow> None | Some m \<Rightarrow> android_lookupEventTag m (sint ?n)")
    case None
    then show ?thesis using assms(2) length_generated_tag[of ?n] by (simp add: binary_tag_def)
  next
    case (Some i)
    then obtain m where "tmap = Some m" "android_lookupEventTag m (sint ?n) = Some i" by (cases tmap) auto
    then show ?thesis using assms(2) assms(4)[of m i] by (auto simp: binary_tag_def)
  qed
  then obtain name size1 where t: "binary_tag tmap ?n room = Some (name, size1)" "2 \<le> size1" "size1 \<le> room" by blast
  have "word_of_int (size1 - 1) = (word_of_nat (nat (size1 - 1)) :: u64)" "nat (size1 - 1) < 2 ^ 64" using t(2,3) assms(3) by simp_all
  moreover define rm where "rm = unat (word_of_int (size1 - 1) :: u64)"
  ultimately have ev: "rm = nat (size1 - 1)" by (simp only: unat_of_nat take_bit_nat_eq_self) simp
  define s where "s = \<lparr>ev_data = drop 4 (take (le_len buf) (le_msg buf)), ev_out = [], ev_room = rm\<rparr>"
  obtain r s' where pr: "print_event s = (r, s')" by fastforce
  have "fits s s'" "r \<in> {-1, 0, 1}" using print_fits(1)[of s] pr by simp_all
  then have out: "length (ev_out s') \<le> nat (size1 - 1)" by (auto simp: fits_def s_def ev)
  then have "int (length (mark_cut r (ev_out s'))) + 1 \<le> size1" using length_mark_cut[of r "ev_out s'"] t(2) by linarith
  then show ?thesis
    using False assms(1) t pr out \<open>r \<in> {-1, 0, 1}\<close> unfolding s_def rm_def
    by (auto simp: android_log_processBinaryLogBuffer_def Let_def)
qed

text \<open>The entry of an event.\<close>

lemma binary_entry:
  assumes "binary_tag tmap n room = Some (name, size1)" "int (length (event_text v)) + 1 < size1" "size1 \<le> 2 ^ 31"
    and "event_ok v" "le_msg buf = tag_bytes n @ event_bytes v @ rest" "le_len buf = 4 + length (event_bytes v) + k" "k \<le> length rest"
  shows "android_log_processBinaryLogBuffer tmap buf room e = Some (0,
    e\<lparr>tv_sec := le_sec buf, tv_nsec := le_nsec buf, priority := ANDROID_LOG_INFO, epid := le_pid buf, etid := le_tid buf,
      etag := Lit name, messageLen := word_of_nat (length (event_text v)), emessage := Lit (event_text v)\<rparr>)"
proof -
  have data: "take (le_len buf) (le_msg buf) = tag_bytes n @ event_bytes v @ take k rest" using assms(5,6) by simp
  have "word_of_int (size1 - 1) = (word_of_nat (nat (size1 - 1)) :: u64)" "nat (size1 - 1) < 2 ^ 64" using assms(2,3) by simp_all
  moreover define rm where "rm = unat (word_of_int (size1 - 1) :: u64)"
  ultimately have rm: "rm = nat (size1 - 1)" by (simp only: unat_of_nat take_bit_nat_eq_self) simp
  have rm1: "unat (word_of_int size1 - 1 :: u64) = rm" by (simp add: rm_def)
  let ?s = "\<lparr>ev_data = event_bytes v @ take k rest, ev_out = [], ev_room = rm\<rparr>"
  have "print_event ?s = (0, prints ?s (event_text v) (take k rest))"
    by (rule event_prints) (use assms(2,4) rm in auto)
  moreover have "length (le_msg buf) \<ge> le_len buf" "\<not> le_len buf < 4" using assms(5,6,7) by simp_all
  ultimately show ?thesis
    using assms(1,2) data by (simp add: android_log_processBinaryLogBuffer_def Let_def mark_cut_def rm1)
qed

text \<open>C19: An event that is written with its number and its values is read back from the events log with the
  values' text, and with the name the tag file gives to the number - or with the number in brackets, if
  the file does not name it.\<close>

theorem event_roundtrip:
  assumes "devices_ok opened" "event_ok v" "n < 2 ^ 31" "length (event_text v) + 16 < room" "room < 2 ^ 31"
    and "list_all line_ok ls" "ls \<noteq> []" "distinct (map fst (file_entries ls))" "2 ^ 31 \<le> u"
  shows "\<exists>m st' bytes e'. android_openEventTagMap u (Some (file_text ls)) True = Some (Some m)
    \<and> android_log_bwrite opened (word_of_nat n) (event_bytes v) [Wrote (int (length (event_bytes v) + 4))] logd_start
        = Some (int (length (event_bytes v) + 4), st')
    \<and> accepted st' = [(opened LOG_ID_EVENTS, bytes)]
    \<and> android_log_processBinaryLogBuffer (Some m) \<lparr>le_len = length bytes, le_pid = pid, le_tid = tid, le_sec = sec, le_nsec = nsec, le_msg = bytes @ rest\<rparr>
        (int room) e = Some (0, e')
    \<and> etag e' = Lit (case map_of (file_entries ls) (int n) of Some name \<Rightarrow> name | None \<Rightarrow> generated_tag (word_of_nat n))
    \<and> emessage e' = Lit (event_text v) \<and> messageLen e' = word_of_nat (length (event_text v))"
proof -
  define bytes where "bytes = tag_bytes (word_of_nat n) @ event_bytes v"
  obtain m where m: "android_openEventTagMap u (Some (file_text ls)) True = Some (Some m)"
    "map_option (cstr_at (map_mem m)) (android_lookupEventTag m (int n)) = map_option Some (map_of (file_entries ls) (int n))"
    using open_file_reads[OF assms(6-9,3)] by blast
  obtain st' where st': "android_log_bwrite opened (word_of_nat n) (event_bytes v) [Wrote (int (length (event_bytes v) + 4))] logd_start
      = Some (int (length (event_bytes v) + 4), st')" "accepted st' = [(opened LOG_ID_EVENTS, bytes)]"
    using write_first[OF assms(1), of LOG_ID_EVENTS bytes 0]
    by (auto simp: android_log_bwrite_def bytes_def log_ids add.commute)
  define name where "name = (case map_of (file_entries ls) (int n) of Some name \<Rightarrow> name | None \<Rightarrow> generated_tag (word_of_nat n))"
  have sint: "sint (word_of_nat n :: u32) = int n"
  proof -
    have "unat (word_of_nat n :: u32) = n" using assms(3) by (simp add: unat_of_nat take_bit_nat_eq_self)
    then have "uint (word_of_nat n :: u32) = int n" by (simp only: uint_nat)
    then show ?thesis using assms(3) by (simp add: sint_uint signed_take_bit_int_eq_self)
  qed
  have "\<exists>size1. binary_tag (Some m) (word_of_nat n) (int room) = Some (name, size1) \<and> int (length (event_text v)) + 1 < size1 \<and> size1 \<le> 2 ^ 31"
  proof (cases "android_lookupEventTag m (int n)")
    case None
    then have "map_of (file_entries ls) (int n) = None" using m(2) by simp
    then show ?thesis
      using None assms(4,5) sint length_generated_tag[of "word_of_nat n"] by (simp add: binary_tag_def name_def)
  next
    case (Some i)
    then obtain x where "map_of (file_entries ls) (int n) = Some x" "cstr_at (map_mem m) i = Some x"
      using m(2) by (auto simp: map_option_case split: option.splits)
    then show ?thesis using Some assms(4,5) sint by (simp add: binary_tag_def name_def)
  qed
  then obtain size1 where t: "binary_tag (Some m) (word_of_nat n) (int room) = Some (name, size1)"
    "int (length (event_text v)) + 1 < size1" "size1 \<le> 2 ^ 31" by blast
  let ?buf = "\<lparr>le_len = length bytes, le_pid = pid, le_tid = tid, le_sec = sec, le_nsec = nsec, le_msg = bytes @ rest\<rparr>"
  have "android_log_processBinaryLogBuffer (Some m) ?buf (int room) e = Some (0,
    e\<lparr>tv_sec := sec, tv_nsec := nsec, priority := ANDROID_LOG_INFO, epid := pid, etid := tid,
      etag := Lit name, messageLen := word_of_nat (length (event_text v)), emessage := Lit (event_text v)\<rparr>)"
    using binary_entry[OF t assms(2), of ?buf rest 0 e] by (simp add: bytes_def)
  then show ?thesis using m(1) st' unfolding name_def by (intro exI[of _ m] exI[of _ st'] exI[of _ bytes]) simp
qed

theorem event_roundtrip_witness:
  "\<exists>m st' bytes e'. android_openEventTagMap (2 ^ 64 - 1) (Some (file_text [Entry 42 [] ''answer'' '' (to|1)''])) True = Some (Some m)
    \<and> android_log_bwrite (\<lambda>i. i + 3) 42 (event_bytes (EList [EInt (-7), EStr ''ok''])) [Wrote 18] logd_start = Some (18, st')
    \<and> accepted st' = [(5, bytes)]
    \<and> android_log_processBinaryLogBuffer (Some m) \<lparr>le_len = length bytes, le_pid = 1, le_tid = 1, le_sec = 0, le_nsec = 0, le_msg = bytes @ []\<rparr>
        100 no_entry = Some (0, e')
    \<and> etag e' = Lit ''answer'' \<and> emessage e' = Lit ''[-7,ok]'' \<and> messageLen e' = 7"
proof -
  let ?v = "EList [EInt (-7), EStr ''ok'']" and ?ls = "[Entry 42 [] ''answer'' '' (to|1)'']"
  have p: "event_text ?v = ''[-7,ok]''" "length (event_bytes ?v) = 14"
    by code_simp+
  have l: "list_all line_ok ?ls" "file_entries ?ls = [(42, ''answer'')]"
    by (simp_all add: isCharWhitespace_def isCharValidTag_def cval_def)
  show ?thesis
    using event_roundtrip[of "\<lambda>i. i + 3" ?v 42 100 ?ls "2 ^ 64 - 1" 1 1 0 0 "[]" no_entry] p l
    by (simp add: devices_ok_def log_ids)
qed

theorem binary_event_stays_in_buffer_witness:
  "\<exists>r e'. android_log_processBinaryLogBuffer None
      \<lparr>le_len = 12, le_pid = 1, le_tid = 1, le_sec = 0, le_nsec = 0, le_msg = tag_bytes 5 @ event_bytes (EInt 70000) @ ''abc''\<rparr> 16 no_entry = Some (r, e')"
  using binary_event_stays_in_buffer[of "\<lparr>le_len = 12, le_pid = 1, le_tid = 1, le_sec = 0, le_nsec = 0, le_msg = tag_bytes 5 @ event_bytes (EInt 70000) @ ''abc''\<rparr>"
      16 None no_entry] by auto

text \<open>With room for one character only the text and its NUL do not fit: the mark for a cut text is written
  behind the buffer.\<close>

lemma one_character_overrun:
  "android_log_processBinaryLogBuffer (Some \<lparr>map_mem = ''a'' @ [NUL], tag_array = [EventTag 5 0]\<rparr>)
      \<lparr>le_len = 9, le_pid = 1, le_tid = 1, le_sec = 0, le_nsec = 0, le_msg = tag_bytes 5 @ event_bytes (EInt 7)\<rparr> 1 e = None"
proof -
  have "get4LE (tag_bytes 5 @ event_bytes (EInt 7)) = 5" by (rule get4LE_tag_bytes)
  moreover have "android_lookupEventTag \<lparr>map_mem = ''a'' @ [NUL], tag_array = [EventTag 5 0]\<rparr> 5 = Some 0"
    by (simp add: android_lookupEventTag_def lookup_loop.simps)
  moreover have "print_event \<lparr>ev_data = event_bytes (EInt 7), ev_out = [], ev_room = 0\<rparr> = (1, \<lparr>ev_data = [], ev_out = [], ev_room = 0\<rparr>)"
    using get4LE_tag_bytes[of 7 "[]"] by (simp add: print_event.simps event_types cval_def put_number_def)
  ultimately show ?thesis
    by (simp add: android_log_processBinaryLogBuffer_def binary_tag_def mark_cut_def cstr_at_def cstr_Cons)
qed

end
