(* ===== verification/LogFormat.thy ===== *)
theory LogFormat
  imports LogEntry
begin

text \<open>
  \<open>liblog/logprint.c\<close>, output: \<open>android_log_formatLogLine\<close> with the buffer it fills,
  \<open>android_log_filter_url\<close>, and \<open>android_log_printLogLine\<close>. The text of a time, which depends on the
  time zone, and the memory \<open>malloc\<close> returns are arguments.
\<close>

section \<open>Strings in buffers\<close>

text \<open>\<open>strcat\<close> and \<open>strncat\<close> at the offset \<open>p\<close>; \<^const>\<open>None\<close>: no NUL behind \<open>p\<close>, or no room.\<close>

definition append_at :: "nat \<Rightarrow> string \<Rightarrow> string \<Rightarrow> string option" where
  "append_at p s buf =
     (if NUL \<notin> set (drop p buf) then None
      else let e = p + length (cstr (drop p buf)) in
        if e + length s < length buf then Some (put_at buf e (s @ [NUL])) else None)"

definition strncat_at :: "nat \<Rightarrow> string \<Rightarrow> nat \<Rightarrow> string \<Rightarrow> string option" where
  "strncat_at p src n buf = (if NUL \<in> set src \<or> n \<le> length src then append_at p (take n (cstr src)) buf else None)"

section \<open>URLs\<close>

definition is_secure_build :: "string option \<Rightarrow> bool" where
  "is_secure_build env =
     (case env of
        None \<Rightarrow> True
      | Some v \<Rightarrow> (case scan_dec v of
            Some (i, rest) \<Rightarrow> if rest = [] then i = 1 else True
          | None \<Rightarrow> v \<noteq> []))"

definition starts_nocase :: "string \<Rightarrow> string \<Rightarrow> bool" where
  "starts_nocase pat s \<longleftrightarrow> map tolower (take (length pat) s) = map tolower pat"

text \<open>\<open>strcasestr\<close> for a pattern that is not empty: where it is.\<close>

fun strcasestr :: "string \<Rightarrow> string \<Rightarrow> nat option" where
  "strcasestr pat [] = None"
| "strcasestr pat (c # s) = (if starts_nocase pat (c # s) then Some 0 else map_option Suc (strcasestr pat s))"

definition opt_s :: "string \<Rightarrow> nat" where
  "opt_s s = (if s \<noteq> [] \<and> tolower (hd s) = CHR ''s'' then 1 else 0)"

definition colon :: "string \<Rightarrow> nat option" where
  "colon s = (if s \<noteq> [] \<and> hd s = CHR '':'' then Some 1 else if starts_nocase ''%3A'' s then Some 3 else None)"

text \<open>One round of the loop over the slashes: without one it only goes on.\<close>

definition slash :: "string \<Rightarrow> nat" where
  "slash s = (if s \<noteq> [] \<and> hd s = CHR ''/'' then 1 else if starts_nocase ''%2F'' s then 3 else 0)"

definition url_end :: "char \<Rightarrow> bool" where
  "url_end c \<longleftrightarrow> c \<in> {CHR 0x0C, CHR 0x0A, CHR 0x0D, CHR 0x09, CHR 0x0B, CHR '' ''}"

text \<open>How far the pointer is behind \<open>http\<close>, and whether there is a URL to censor.\<close>

definition url_head :: "string \<Rightarrow> nat \<times> bool" where
  "url_head s =
     (let a = opt_s s in
      (case colon (drop a s) of
         None \<Rightarrow> (a, False)
       | Some b \<Rightarrow>
           let c = slash (drop (a + b) s); d = slash (drop (a + b + c) s) in (a + b + c + d, True)))"

lemma strcasestr_less: "strcasestr pat s = Some k \<Longrightarrow> k < length s"
  by (induction s arbitrary: k) (auto split: if_splits)

function censor :: "string \<Rightarrow> string" where
  "censor s =
     (case strcasestr ''http'' s of
        None \<Rightarrow> s
      | Some k \<Rightarrow>
          let q = k + 4 + fst (url_head (drop (k + 4) s)) in
          if snd (url_head (drop (k + 4) s)) then
            let n = length (takeWhile (\<lambda>c. \<not> url_end c) (drop q s))
            in take q s @ replicate n (CHR ''X'') @ censor (drop (q + n) s)
          else take q s @ censor (drop q s))"
  by pat_completeness auto
termination
  by (relation "measure length") (auto dest: strcasestr_less)

declare censor.simps [simp del]

text \<open>\<open>android_log_filter_url\<close> on the string a buffer starts with.\<close>

definition android_log_filter_url :: "string option \<Rightarrow> string \<Rightarrow> string" where
  "android_log_filter_url env buf =
     (if is_secure_build env then censor (cstr buf) @ drop (length (cstr buf)) buf else buf)"

section \<open>The head of a line\<close>

definition pad_left :: "nat \<Rightarrow> string \<Rightarrow> string" where
  "pad_left n s = replicate (n - length s) (CHR '' '') @ s"

definition pad_right :: "nat \<Rightarrow> string \<Rightarrow> string" where
  "pad_right n s = s @ replicate (n - length s) (CHR '' '')"

text \<open>\<open>%03ld\<close>, \<open>%p\<close>, and the division of C.\<close>

definition pr_03 :: "int \<Rightarrow> string" where
  "pr_03 i = (if i < 0 then CHR ''-'' # replicate (2 - length (pr_nat 10 (nat (- i)))) (CHR ''0'') @ pr_nat 10 (nat (- i))
              else replicate (3 - length (pr_nat 10 (nat i))) (CHR ''0'') @ pr_nat 10 (nat i))"

definition pr_ptr :: "u64 \<Rightarrow> string" where
  "pr_ptr w = (if w = 0 then ''(nil)'' else ''0x'' @ pr_nat 16 (unat w))"

definition quot :: "int \<Rightarrow> int \<Rightarrow> int" where
  "quot a b = (if a < 0 then - ((- a) div b) else a div b)"

definition millis :: "log_entry \<Rightarrow> string" where
  "millis e = pr_03 (quot (tv_nsec e) 1000000)"

text \<open>What stands before and behind each line, before it is cut to its buffer of 128 characters.\<close>

definition prefix_text :: "print_format \<Rightarrow> string \<Rightarrow> string \<Rightarrow> log_entry \<Rightarrow> string" where
  "prefix_text f time tag e =
     (let pri = [filterPriToChar (priority e)]; pid = pad_left 5 (pr_int (epid e)); tid = word_of_int (etid e) :: u64;
          tag8 = pad_right 8 tag in
      case f of
        FORMAT_TAG \<Rightarrow> pri @ ''/'' @ tag8 @ '': ''
      | FORMAT_PROCESS \<Rightarrow> pri @ ''('' @ pid @ '') ''
      | FORMAT_THREAD \<Rightarrow> pri @ ''('' @ pid @ '':'' @ pr_ptr tid @ '') ''
      | FORMAT_RAW \<Rightarrow> []
      | FORMAT_TIME \<Rightarrow> time @ ''.'' @ millis e @ '' '' @ pri @ ''/'' @ tag8 @ ''('' @ pid @ ''): ''
      | FORMAT_THREADTIME \<Rightarrow> time @ ''.'' @ millis e @ '' '' @ pid @ '' '' @ pad_left 5 (pr_int (etid e)) @ '' '' @ pri @ '' '' @ tag8 @ '': ''
      | FORMAT_LONG \<Rightarrow> ''[ '' @ time @ ''.'' @ millis e @ '' '' @ pid @ '':'' @ pr_ptr tid @ '' '' @ pri @ ''/'' @ tag8 @ '' ]'' @ [CHR 0x0A]
      | _ \<Rightarrow> pri @ ''/'' @ tag8 @ ''('' @ pid @ ''): '')"

definition suffix_text :: "print_format \<Rightarrow> string \<Rightarrow> string" where
  "suffix_text f tag =
     (case f of
        FORMAT_PROCESS \<Rightarrow> ''  ('' @ tag @ '')'' @ [CHR 0x0A]
      | FORMAT_LONG \<Rightarrow> [CHR 0x0A, CHR 0x0A]
      | _ \<Rightarrow> [CHR 0x0A])"

section \<open>Formatting\<close>

definition numLines :: "print_format \<Rightarrow> string \<Rightarrow> nat" where
  "numLines f msg =
     (if f = FORMAT_LONG then 1
      else length (filter (\<lambda>c. c = CHR 0x0A) msg) + (if msg \<noteq> [] \<and> last msg \<noteq> CHR 0x0A then 1 else 0))"

text \<open>
  The loop over the lines: \<open>mem\<close> is the memory of the message, \<open>len\<close> its length, \<open>pm\<close> and \<open>p\<close> the
  places in it and in the buffer. \<open>line_out\<close> is one line.
\<close>

definition line_out :: "string \<Rightarrow> string \<Rightarrow> string \<Rightarrow> nat \<Rightarrow> nat \<Rightarrow> string \<Rightarrow> (string \<times> nat) option" where
  "line_out pre suf line lineLen p buf =
     (case append_at p pre buf of
        None \<Rightarrow> None
      | Some buf1 \<Rightarrow> (case strncat_at (p + length pre) line lineLen buf1 of
          None \<Rightarrow> None
        | Some buf2 \<Rightarrow> (case append_at (p + length pre + lineLen) suf buf2 of
            None \<Rightarrow> None
          | Some buf3 \<Rightarrow> Some (buf3, p + length pre + lineLen + length suf))))"

function lines_out :: "string \<Rightarrow> string \<Rightarrow> string \<Rightarrow> nat \<Rightarrow> nat \<Rightarrow> nat \<Rightarrow> string \<Rightarrow> (string \<times> nat) option" where
  "lines_out pre suf mem len pm p buf =
     (if pm < len then
        let lineLen = length (takeWhile (\<lambda>c. c \<noteq> CHR 0x0A) (take (len - pm) (drop pm mem))); pm1 = pm + lineLen in
        (case line_out pre suf (drop pm mem) lineLen p buf of
           None \<Rightarrow> None
         | Some (buf1, p1) \<Rightarrow>
             if length mem \<le> pm1 then None
             else lines_out pre suf mem len (if mem ! pm1 = CHR 0x0A then pm1 + 1 else pm1) p1 buf1)
      else Some (buf, p))"
  by pat_completeness auto

termination
proof (relation "measure (\<lambda>(pre, suf, mem, len, pm, p, buf). len - pm)", simp, clarify)
  fix pre suf mem :: string and len pm p :: nat and buf :: string and pm1 :: nat and buf1 p1
  let ?w = "takeWhile (\<lambda>c. c \<noteq> CHR 0x0A) (take (len - pm) (drop pm mem))"
  assume a: "pm < len" "\<not> length mem \<le> pm + length ?w"
  have "pm < (if mem ! (pm + length ?w) = CHR 0x0A then pm + length ?w + 1 else pm + length ?w)"
  proof (cases "?w")
    case Nil
    obtain k where k: "len - pm = Suc k" using a(1) by (cases "len - pm") auto
    have "drop pm mem = mem ! pm # drop (Suc pm) mem" using a(2) Nil by (simp add: Cons_nth_drop_Suc)
    then have "mem ! pm = CHR 0x0A" using Nil k by (simp split: if_splits)
    then show ?thesis using Nil by simp
  qed simp
  then show "((pre, suf, mem, len, if mem ! (pm + length ?w) = CHR 0x0A then pm + length ?w + 1 else pm + length ?w, p1, buf1),
      pre, suf, mem, len, pm, p, buf) \<in> measure (\<lambda>(pre, suf, mem, len, pm, p, buf). len - pm)"
    using a(1) by simp
qed

declare lines_out.simps [simp del]

text \<open>
  \<open>android_log_formatLogLine\<close>: \<open>mem\<close> is the memory of the entry, \<open>dflt\<close> the default buffer, \<open>alloc\<close>
  what \<open>malloc\<close> returns for a size. The result is \<open>NULL\<close>, or the buffer after the URLs are censored,
  and the length of the text.
\<close>

fun mem_from :: "string \<Rightarrow> log_str \<Rightarrow> string" where
  "mem_from mem (Lit s) = s @ [NUL]"
| "mem_from mem (InMsg i) = drop i mem"

definition line_bufsize :: "print_format \<Rightarrow> string \<Rightarrow> string \<Rightarrow> string \<Rightarrow> nat" where
  "line_bufsize f pre suf msg = numLines f msg * (length pre + length suf) + length msg + 1"

definition android_log_formatLogLine :: "string option \<Rightarrow> (int \<Rightarrow> string) \<Rightarrow> (nat \<Rightarrow> string option) \<Rightarrow> log_format \<Rightarrow> string \<Rightarrow> string \<Rightarrow> log_entry
    \<Rightarrow> (string \<times> nat) option option" where
  "android_log_formatLogLine env time alloc fmt dflt mem e =
     (case log_str_at mem (etag e) of
        None \<Rightarrow> None
      | Some tag \<Rightarrow>
          let f = print_as fmt; msgmem = mem_from mem (emessage e); len = unat (messageLen e);
              pre = take 127 (prefix_text f (time (tv_sec e)) tag e); suf = take 127 (suffix_text f tag);
              need = line_bufsize f pre suf (take len msgmem) in
          if length msgmem < len then None
          else (case (if length dflt \<ge> need then Some dflt else alloc need) of
              None \<Rightarrow> Some None
            | Some buf \<Rightarrow>
                let buf1 = buf[0 := NUL] in
                map_option (\<lambda>(b, n). Some (android_log_filter_url env b, n))
                  (if f = FORMAT_LONG then line_out pre suf msgmem len 0 buf1
                   else lines_out pre suf msgmem len 0 0 buf1)))"

text \<open>\<open>android_log_printLogLine\<close> with the answers of \<open>write\<close>: the result and what was written.\<close>

fun write_loop :: "string \<Rightarrow> writev_answer list \<Rightarrow> (int \<times> string) option" where
  "write_loop out [] = None"
| "write_loop out (Interrupted # ans) = write_loop out ans"
| "write_loop out (Wrote r # ans) = Some (if r < 0 then (0, []) else (r, take (nat r) out))"

definition android_log_printLogLine :: "string option \<Rightarrow> (int \<Rightarrow> string) \<Rightarrow> (nat \<Rightarrow> string option) \<Rightarrow> log_format \<Rightarrow> string \<Rightarrow> string \<Rightarrow> log_entry
    \<Rightarrow> writev_answer list \<Rightarrow> (int \<times> string) option" where
  "android_log_printLogLine env time alloc fmt dflt mem e ans =
     (case android_log_formatLogLine env time alloc fmt dflt mem e of
        None \<Rightarrow> None
      | Some None \<Rightarrow> Some (-1, [])
      | Some (Some (out, n)) \<Rightarrow> write_loop (take n out) ans)"

section \<open>The text of a message\<close>

function log_lines :: "string \<Rightarrow> string list" where
  "log_lines s = (if s = [] then []
     else let l = takeWhile (\<lambda>c. c \<noteq> CHR 0x0A) s in l # log_lines (drop (length l + 1) s))"
  by pat_completeness auto
termination by (relation "measure length") auto

declare log_lines.simps [simp del]

text \<open>Each line with what stands before and behind it.\<close>

definition lines_text :: "string \<Rightarrow> string \<Rightarrow> string \<Rightarrow> string" where
  "lines_text pre suf msg = concat (map (\<lambda>l. pre @ l @ suf) (log_lines msg))"

lemma lines_text_step:
  "s \<noteq> [] \<Longrightarrow> l = takeWhile (\<lambda>c. c \<noteq> CHR 0x0A) s \<Longrightarrow> lines_text pre suf s = pre @ l @ suf @ lines_text pre suf (drop (length l + 1) s)"
  by (simp add: lines_text_def log_lines.simps[of s] Let_def)

lemma lines_text_Nil [simp]: "lines_text pre suf [] = []"
  by (simp add: lines_text_def log_lines.simps)

text \<open>A line and what follows its newline.\<close>

lemma line_split:
  assumes "l = takeWhile (\<lambda>c. c \<noteq> CHR 0x0A) s"
  shows "s = l \<or> s = l @ CHR 0x0A # drop (length l + 1) s"
proof (cases "CHR 0x0A \<in> set s")
  case False
  then have "l = s" unfolding assms by (intro takeWhile_eq_all_conv[THEN iffD2]) auto
  then show ?thesis by simp
next
  case True
  then show ?thesis unfolding assms by (induction s) auto
qed

lemma numLines_lines: "f \<noteq> FORMAT_LONG \<Longrightarrow> length (log_lines s) = numLines f s"
proof (induction s rule: log_lines.induct)
  case (1 s)
  show ?case
  proof (cases "s = []")
    case False
    define l where "l = takeWhile (\<lambda>c. c \<noteq> CHR 0x0A) s"
    have nl: "filter (\<lambda>c. c = CHR 0x0A) l = []" by (auto simp: l_def filter_empty_conv dest: set_takeWhileD)
    have IH: "length (log_lines (drop (length l + 1) s)) = numLines f (drop (length l + 1) s)" using 1 False by (simp add: l_def)
    have "length (log_lines s) = Suc (length (log_lines (drop (length l + 1) s)))"
      using False by (simp add: log_lines.simps[of s] l_def Let_def)
    then show ?thesis
    proof (cases "s = l")
      case True
      then have "CHR 0x0A \<notin> set s" using nl by (auto simp: filter_empty_conv)
      moreover have "drop (length l + 1) s = []" using True by simp
      moreover have "last s \<noteq> CHR 0x0A" using last_in_set[OF False] calculation(1) by metis
      ultimately show ?thesis
        using False nl \<open>length (log_lines s) = _\<close> "1.prems" True by (simp add: numLines_def log_lines.simps[of "[]"])
    next
      case False
      define t where "t = drop (length l + 1) s"
      have s: "s = l @ CHR 0x0A # t" using line_split[OF l_def] False by (simp add: t_def)
      show ?thesis
        using \<open>length (log_lines s) = _\<close> IH nl "1.prems" unfolding t_def[symmetric] by (simp add: numLines_def s)
    qed
  qed (use "1.prems" in \<open>simp add: log_lines.simps numLines_def\<close>)
qed

lemma length_lines_text: "length (lines_text pre suf s) \<le> length (log_lines s) * (length pre + length suf) + length s"
proof (induction s rule: log_lines.induct)
  case (1 s)
  show ?case
  proof (cases "s = []")
    case False
    define l where "l = takeWhile (\<lambda>c. c \<noteq> CHR 0x0A) s"
    have "length s = length l \<or> length s = length l + 1 + length (drop (length l + 1) s)"
      using line_split[OF l_def] by (metis length_append length_Cons add_Suc_right add_Suc Suc_eq_plus1 add.assoc)
    moreover have "length (lines_text pre suf (drop (length l + 1) s))
        \<le> length (log_lines (drop (length l + 1) s)) * (length pre + length suf) + length (drop (length l + 1) s)"
      using 1 False by (simp add: l_def)
    ultimately show ?thesis
      using lines_text_step[OF False l_def, of pre suf] False by (auto simp: log_lines.simps[of s] Let_def simp flip: l_def)
  qed (simp add: log_lines.simps)
qed

lemma append_at_end:
  assumes "NUL \<notin> set s" "length s \<le> length r" "p = length w"
  shows "append_at p s (w @ NUL # r) = Some (w @ s @ NUL # drop (length s) r)"
  using assms by (simp add: append_at_def cstr_Cons put_at_def)

lemma line_out_ok:
  assumes "NUL \<notin> set pre" "NUL \<notin> set suf" "NUL \<notin> set l" "length pre + length l + length suf \<le> length r" "p = length w"
  shows "line_out pre suf (l @ x) (length l) p (w @ NUL # r)
    = Some (w @ pre @ l @ suf @ NUL # drop (length pre + length l + length suf) r, p + length pre + length l + length suf)"
proof -
  have 1: "append_at p pre (w @ NUL # r) = Some ((w @ pre) @ NUL # drop (length pre) r)"
    using assms append_at_end[of pre r p w] by simp
  have "take (length l) (cstr (l @ x)) = l"
    using assms(3) by (simp add: cstr_def takeWhile_append)
  then have 2: "strncat_at (p + length pre) (l @ x) (length l) ((w @ pre) @ NUL # drop (length pre) r)
      = Some ((w @ pre @ l) @ NUL # drop (length pre + length l) r)"
    using assms append_at_end[of l "drop (length pre) r" "p + length pre" "w @ pre"] by (simp add: strncat_at_def add.commute)
  have 3: "append_at (p + length pre + length l) suf ((w @ pre @ l) @ NUL # drop (length pre + length l) r)
      = Some ((w @ pre @ l) @ suf @ NUL # drop (length pre + length l + length suf) r)"
    using assms append_at_end[of suf "drop (length pre + length l) r" "p + length pre + length l" "w @ pre @ l"]
    by (simp add: add.commute add.left_commute)
  show ?thesis unfolding line_out_def 1 option.case 2 3 by simp
qed

lemma lines_out_end: "len \<le> pm \<Longrightarrow> lines_out pre suf mem len pm p buf = Some (buf, p)"
  by (simp add: lines_out.simps)

lemma lines_out_ok:
  assumes "NUL \<notin> set pre" "NUL \<notin> set suf" "NUL \<notin> set s" "mem = a @ s @ x # rest" "len = length a + length s" "pm = length a"
    and "length (lines_text pre suf s) \<le> length r" "p = length w"
  shows "lines_out pre suf mem len pm p (w @ NUL # r)
    = Some (w @ lines_text pre suf s @ NUL # drop (length (lines_text pre suf s)) r, p + length (lines_text pre suf s))"
  using assms(3-8)
proof (induction s arbitrary: a pm p w r rule: log_lines.induct)
  case (1 s)
  show ?case
  proof (cases "s = []")
    case True
    then show ?thesis using 1 by (simp add: lines_out.simps)
  next
    case False
    define l t where "l = takeWhile (\<lambda>c. c \<noteq> CHR 0x0A) s" and "t = drop (length l + 1) s"
    note IH = "1.IH"[OF False refl, folded l_def, folded t_def]
    have lt: "lines_text pre suf s = pre @ l @ suf @ lines_text pre suf t"
      using lines_text_step[OF False l_def] by (simp add: t_def)
    have mem: "drop pm mem = s @ x # rest" "take (len - pm) (drop pm mem) = s" using 1 by simp_all
    obtain y where y: "s = l @ y" unfolding l_def using takeWhile_dropWhile_id[of _ s] by metis
    have nul: "NUL \<notin> set l" "NUL \<notin> set t" using "1.prems"(1) y by (auto simp: t_def dest: in_set_dropD)
    have room: "length pre + length l + length suf + length (lines_text pre suf t) \<le> length r"
      using "1.prems"(5) lt by simp
    define w1 r1 where "w1 = w @ pre @ l @ suf" and "r1 = drop (length pre + length l + length suf) r"
    have lo: "line_out pre suf (drop pm mem) (length l) p (w @ NUL # r) = Some (w1 @ NUL # r1, p + length pre + length l + length suf)"
      using line_out_ok[OF assms(1,2) nul(1), of r p w "y @ x # rest"] room "1.prems"(6) mem(1) y by (simp add: w1_def r1_def)
    have step: "lines_out pre suf mem len pm p (w @ NUL # r)
      = lines_out pre suf mem len (if mem ! (pm + length l) = CHR 0x0A then pm + length l + 1 else pm + length l)
          (p + length pre + length l + length suf) (w1 @ NUL # r1)"
    proof -
      have "pm < len" "\<not> length mem \<le> pm + length l" using "1.prems"(2-4) False y by simp_all
      then show ?thesis by (simp add: lines_out.simps[of pre suf mem len pm] mem(2) lo Let_def flip: l_def)
    qed
    have "lines_out pre suf mem len (if mem ! (pm + length l) = CHR 0x0A then pm + length l + 1 else pm + length l)
          (p + length pre + length l + length suf) (w1 @ NUL # r1)
      = Some (w1 @ lines_text pre suf t @ NUL # drop (length (lines_text pre suf t)) r1,
          p + length pre + length l + length suf + length (lines_text pre suf t))"
    proof (cases "s = l")
      case True
      then have "t = []" by (simp add: t_def)
      moreover have "len \<le> (if mem ! (pm + length l) = CHR 0x0A then pm + length l + 1 else pm + length l)"
        using "1.prems"(3,4) True by simp
      ultimately show ?thesis by (simp only: lines_out_end) simp
    next
      case False
      then have sl: "s = l @ CHR 0x0A # t" using line_split[OF l_def] by (simp add: t_def)
      then have "mem ! (pm + length l) = CHR 0x0A" using "1.prems"(2,4) by (simp add: nth_append)
      moreover have "lines_out pre suf mem len (pm + length l + 1) (p + length pre + length l + length suf) (w1 @ NUL # r1)
        = Some (w1 @ lines_text pre suf t @ NUL # drop (length (lines_text pre suf t)) r1,
            p + length pre + length l + length suf + length (lines_text pre suf t))"
      proof -
        show ?thesis
          by (rule IH[of "a @ l @ [CHR 0x0A]"]) (use "1.prems" sl nul(2) room in \<open>simp_all add: w1_def r1_def\<close>)
      qed
      ultimately show ?thesis by simp
    qed
    then show ?thesis unfolding step lt by (simp add: w1_def r1_def ac_simps)
  qed
qed

section \<open>Censoring keeps the shape\<close>

lemma starts_nocase_length: "starts_nocase pat s \<Longrightarrow> length pat \<le> length s"
  unfolding starts_nocase_def by (metis length_map length_take min.cobounded1)

lemma url_parts_le: "opt_s s \<le> length s" "colon s = Some b \<Longrightarrow> b \<le> length s" "slash s \<le> length s"
  using starts_nocase_length[of "''%3A''" s] starts_nocase_length[of "''%2F''" s]
  by (cases s; auto simp: opt_s_def colon_def slash_def split: if_splits)+

lemma url_head_le: "fst (url_head s) \<le> length s"
proof (cases "colon (drop (opt_s s) s)")
  case None
  then show ?thesis using url_parts_le(1) by (simp add: url_head_def)
next
  case (Some b)
  define a where "a = opt_s s"
  define c where "c = slash (drop (a + b) s)"
  have "a + b \<le> length s" using url_parts_le(2)[OF Some] url_parts_le(1)[of s] by (simp add: a_def)
  moreover have "c \<le> length s - (a + b)" using url_parts_le(3)[of "drop (a + b) s"] by (simp add: c_def)
  moreover have "slash (drop (a + b + c) s) \<le> length s - (a + b + c)" using url_parts_le(3)[of "drop (a + b + c) s"] by simp
  ultimately show ?thesis using Some by (simp add: url_head_def Let_def flip: a_def c_def)
qed

lemma strcasestr_http: "strcasestr ''http'' s = Some k \<Longrightarrow> starts_nocase ''http'' (drop k s) \<and> k + 4 \<le> length s"
proof (induction s arbitrary: k)
  case (Cons c s)
  then show ?case using starts_nocase_length[of "''http''" "c # s"] by (auto split: if_splits)
qed simp

text \<open>The end of what is taken over for one find, and how much of it is censored.\<close>

definition find_end :: "nat \<Rightarrow> string \<Rightarrow> nat" where
  "find_end k s = k + 4 + fst (url_head (drop (k + 4) s))"

definition find_cut :: "nat \<Rightarrow> string \<Rightarrow> nat" where
  "find_cut k s = (if snd (url_head (drop (k + 4) s)) then length (takeWhile (\<lambda>c. \<not> url_end c) (drop (find_end k s) s)) else 0)"

lemma censor_find:
  "strcasestr ''http'' s = Some k \<Longrightarrow>
    censor s = take (find_end k s) s @ replicate (find_cut k s) (CHR ''X'') @ censor (drop (find_end k s + find_cut k s) s)"
  by (simp add: censor.simps[of s] find_end_def find_cut_def Let_def)

lemma censor_none: "strcasestr ''http'' s = None \<Longrightarrow> censor s = s"
  by (simp add: censor.simps)

lemma find_end_le:
  assumes "strcasestr ''http'' s = Some k"
  shows "find_end k s + find_cut k s \<le> length s" "k + 4 \<le> find_end k s"
proof -
  have "find_end k s \<le> length s"
    using strcasestr_http[OF assms] url_head_le[of "drop (k + 4) s"] unfolding find_end_def by (simp only: length_drop) linarith
  moreover have "length (takeWhile (\<lambda>c. \<not> url_end c) (drop (find_end k s) s)) \<le> length s - find_end k s"
    using length_takeWhile_le[of "\<lambda>c. \<not> url_end c" "drop (find_end k s) s"] by simp
  ultimately show "find_end k s + find_cut k s \<le> length s" by (auto simp: find_cut_def)
qed (simp add: find_end_def)

lemma censor_induct [case_names none find]:
  assumes "\<And>s. strcasestr ''http'' s = None \<Longrightarrow> P s"
    and "\<And>s k. strcasestr ''http'' s = Some k \<Longrightarrow> P (drop (find_end k s + find_cut k s) s) \<Longrightarrow> P s"
  shows "P s"
proof (induction "length s" arbitrary: s rule: less_induct)
  case less
  show ?case
  proof (cases "strcasestr ''http'' s")
    case (Some k)
    have "length (drop (find_end k s + find_cut k s) s) < length s" using find_end_le[OF Some] by simp
    then show ?thesis using assms(2)[OF Some] less by blast
  qed (rule assms(1))
qed

lemma length_censor [simp]: "length (censor s) = length s"
proof (induction s rule: censor_induct)
  case (find s k)
  then show ?case using find_end_le[OF find(1)] by (simp add: censor_find[OF find(1)])
qed (simp add: censor_none)

lemma NUL_notin_censor: "NUL \<notin> set s \<Longrightarrow> NUL \<notin> set (censor s)"
proof (induction s rule: censor_induct)
  case (find s k)
  then show ?case by (auto simp: censor_find[OF find(1)] dest: in_set_takeD in_set_dropD)
qed (simp add: censor_none)

section \<open>Formatting prints the text\<close>

lemma NUL_notin_pr_nat [simp]: "b \<le> 16 \<Longrightarrow> 2 \<le> b \<Longrightarrow> NUL \<notin> set (pr_nat b n)"
proof
  assume b: "b \<le> 16" "2 \<le> b" and "NUL \<in> set (pr_nat b n)"
  then obtain d where "d < b" "NUL = digit_char d" using pr_nat_digits by blast
  then have "cval NUL = (if d < 10 then 48 + d else 87 + d)" using cval_digit_char[of d] b by simp
  then show False by (simp add: cval_def split: if_splits)
qed

lemma NUL_notin_pads [simp]:
  "NUL \<notin> set s \<Longrightarrow> NUL \<notin> set (pad_left n s)" "NUL \<notin> set s \<Longrightarrow> NUL \<notin> set (pad_right n s)"
  "NUL \<notin> set (pr_03 i)" "NUL \<notin> set (pr_ptr w)" "NUL \<notin> set (millis e)" "filterPriToChar p \<noteq> NUL"
  by (auto simp: pad_left_def pad_right_def pr_03_def pr_ptr_def millis_def filterPriToChar_def)

lemma NUL_notin_affixes:
  "NUL \<notin> set time \<Longrightarrow> NUL \<notin> set tag \<Longrightarrow> NUL \<notin> set (prefix_text f time tag e)" "NUL \<notin> set tag \<Longrightarrow> NUL \<notin> set (suffix_text f tag)"
  by (cases f; simp add: prefix_text_def suffix_text_def Let_def filterPriToChar_def)+

text \<open>What is printed for a message.\<close>

definition line_text :: "print_format \<Rightarrow> string \<Rightarrow> string \<Rightarrow> string \<Rightarrow> string" where
  "line_text f pre suf msg = (if f = FORMAT_LONG then pre @ msg @ suf else lines_text pre suf msg)"

lemma length_line_text: "length (line_text f pre suf msg) < line_bufsize f pre suf msg"
proof (cases "f = FORMAT_LONG")
  case True
  then show ?thesis by (simp add: line_text_def line_bufsize_def numLines_def)
next
  case False
  then show ?thesis using length_lines_text[of pre suf msg] by (simp add: line_text_def line_bufsize_def numLines_lines)
qed

lemma NUL_notin_lines_text:
  assumes "NUL \<notin> set pre" "NUL \<notin> set suf" "NUL \<notin> set s"
  shows "NUL \<notin> set (lines_text pre suf s)"
  using assms(3)
proof (induction s rule: log_lines.induct)
  case (1 s)
  show ?case
  proof (cases "s = []")
    case False
    define l where "l = takeWhile (\<lambda>c. c \<noteq> CHR 0x0A) s"
    have "NUL \<notin> set l" using 1 by (auto simp: l_def dest: set_takeWhileD)
    moreover have "NUL \<notin> set (lines_text pre suf (drop (length l + 1) s))"
      using "1.IH"[OF False l_def] "1.prems" by (meson in_set_dropD)
    ultimately show ?thesis using lines_text_step[OF False l_def] assms by simp
  qed simp
qed

lemma formatLogLine_text:
  assumes "log_str_at mem (etag e) = Some tag" "NUL \<notin> set tag" "NUL \<notin> set (time (tv_sec e))"
    and "mem_from mem (emessage e) = msg @ NUL # rest" "NUL \<notin> set msg" "messageLen e = word_of_nat (length msg)" "length msg < 2 ^ 64"
    and "\<forall>n b. alloc n = Some b \<longrightarrow> n \<le> length b"
    and "pre = take 127 (prefix_text (print_as fmt) (time (tv_sec e)) tag e)" "suf = take 127 (suffix_text (print_as fmt) tag)"
    and "out = line_text (print_as fmt) pre suf msg"
  shows "\<exists>res. android_log_formatLogLine env time alloc fmt dflt mem e = Some res
    \<and> (res = None \<longleftrightarrow> length dflt < line_bufsize (print_as fmt) pre suf msg \<and> alloc (line_bufsize (print_as fmt) pre suf msg) = None)
    \<and> (\<forall>buf n. res = Some (buf, n) \<longrightarrow> n = length out \<and> cstr buf = (if is_secure_build env then censor out else out))"
proof -
  let ?f = "print_as fmt"
  let ?need = "line_bufsize ?f pre suf msg"
  have nul: "NUL \<notin> set pre" "NUL \<notin> set suf"
    using NUL_notin_affixes assms(2,3) unfolding assms(9,10) by (meson in_set_takeD)+
  have len: "unat (messageLen e) = length msg" using assms(6,7) by (simp add: unat_of_nat take_bit_nat_eq_self)
  have out: "NUL \<notin> set out" "length out < ?need"
    using NUL_notin_lines_text[OF nul assms(5)] nul assms(5) length_line_text by (simp_all add: assms(11) line_text_def)
  have body: "(if ?f = FORMAT_LONG then line_out pre suf (msg @ NUL # rest) (length msg) 0 (buf[0 := NUL])
      else lines_out pre suf (msg @ NUL # rest) (length msg) 0 0 (buf[0 := NUL])) = Some (out @ NUL # drop (length out) (tl buf), length out)"
    if fit: "?need \<le> length buf" for buf
  proof -
    obtain c r where buf: "buf = c # r" using fit by (cases buf) (auto simp: line_bufsize_def)
    have room: "length out \<le> length r" using fit out(2) buf by simp
    show ?thesis
    proof (cases "?f = FORMAT_LONG")
      case True
      then show ?thesis using line_out_ok[OF nul assms(5), of r 0 "[]" "NUL # rest"] room
        by (simp add: assms(11) line_text_def buf add.assoc)
    next
      case False
      then show ?thesis using lines_out_ok[OF nul assms(5), of "msg @ NUL # rest" "[]" NUL rest "length msg" 0 r 0 "[]"] room
        by (simp add: assms(11) line_text_def buf)
    qed
  qed
  have url: "cstr (android_log_filter_url env (out @ NUL # x)) = (if is_secure_build env then censor out else out)" for x
    using out(1) NUL_notin_censor[OF out(1)] by (simp add: android_log_filter_url_def)
  define got where "got = (if ?need \<le> length dflt then Some dflt else alloc ?need)"
  have big: "got = Some buf \<Longrightarrow> ?need \<le> length buf" for buf using assms(8) by (auto simp: got_def split: if_splits)
  have "android_log_formatLogLine env time alloc fmt dflt mem e = (case got of
      None \<Rightarrow> Some None
    | Some buf \<Rightarrow> Some (Some (android_log_filter_url env (out @ NUL # drop (length out) (tl buf)), length out)))"
  proof -
    have tk: "take (length msg) (msg @ NUL # rest) = msg" by simp
    have "android_log_formatLogLine env time alloc fmt dflt mem e = (case got of
        None \<Rightarrow> Some None
      | Some buf \<Rightarrow> map_option (\<lambda>(b, n). Some (android_log_filter_url env b, n))
          (if ?f = FORMAT_LONG then line_out pre suf (msg @ NUL # rest) (length msg) 0 (buf[0 := NUL])
           else lines_out pre suf (msg @ NUL # rest) (length msg) 0 0 (buf[0 := NUL])))"
      unfolding android_log_formatLogLine_def Let_def assms(1,4) option.case len assms(9,10)[symmetric] tk
      by (simp add: got_def split del: if_split)
    then show ?thesis using big body by (simp split: option.split)
  qed
  then show ?thesis using url by (auto simp: got_def split: option.split if_splits)
qed

section \<open>No URL is left\<close>

definition is_h :: "char \<Rightarrow> bool" where "is_h c \<longleftrightarrow> tolower c = CHR ''h''"

lemma http_h: "starts_nocase ''http'' s \<Longrightarrow> s \<noteq> [] \<and> is_h (hd s)"
  by (cases s) (auto simp: starts_nocase_def is_h_def tolower_def cval_def)

text \<open>Behind its first letter, the head of a URL has no \<open>h\<close>.\<close>

lemma nocase_not_h:
  assumes "starts_nocase pat s" "CHR ''h'' \<notin> set (map tolower pat)" "i < length pat"
  shows "\<not> is_h (s ! i)"
proof -
  have "map tolower (take (length pat) s) ! i = map tolower pat ! i" using assms(1) by (simp add: starts_nocase_def)
  then have "tolower (s ! i) = map tolower pat ! i" using assms(3) starts_nocase_length[OF assms(1)] by simp
  then show ?thesis using assms(2,3) by (metis is_h_def length_map nth_mem)
qed

lemma lower_pats: "CHR ''h'' \<notin> set (map tolower ''%3A'')" "CHR ''h'' \<notin> set (map tolower ''%2F'')"
  by code_simp+

lemma parts_not_h:
  "i < opt_s s \<Longrightarrow> \<not> is_h (s ! i)" "colon s = Some b \<Longrightarrow> i < b \<Longrightarrow> \<not> is_h (s ! i)" "i < slash s \<Longrightarrow> \<not> is_h (s ! i)"
proof -
  show "i < opt_s s \<Longrightarrow> \<not> is_h (s ! i)" by (cases s) (auto simp: opt_s_def is_h_def split: if_splits)
  have lit: "\<not> is_h (CHR '':'')" "\<not> is_h (CHR ''/'')" by (simp_all add: is_h_def tolower_def cval_def)
  show "colon s = Some b \<Longrightarrow> i < b \<Longrightarrow> \<not> is_h (s ! i)"
    using nocase_not_h[OF _ lower_pats(1), of s i] lit by (cases s) (auto simp: colon_def split: if_splits)
  show "i < slash s \<Longrightarrow> \<not> is_h (s ! i)"
    using nocase_not_h[OF _ lower_pats(2), of s i] lit by (cases s) (auto simp: slash_def split: if_splits)
qed

lemma url_head_not_h: "i < fst (url_head s) \<Longrightarrow> \<not> is_h (s ! i)"
proof -
  assume i: "i < fst (url_head s)"
  define a where "a = opt_s s"
  show ?thesis
  proof (cases "colon (drop a s)")
    case None
    then show ?thesis using i parts_not_h(1) by (simp add: url_head_def Let_def a_def)
  next
    case (Some b)
    define c d where "c = slash (drop (a + b) s)" and "d = slash (drop (a + b + c) s)"
    have len: "a \<le> length s" "a + b \<le> length s" using url_parts_le(1)[of s] url_parts_le(2)[OF Some] by (simp_all add: a_def)
    have len2: "a + b + c \<le> length s" using url_parts_le(3)[of "drop (a + b) s"] len by (simp add: c_def)
    have "i < a + b + c + d" using i Some by (simp add: url_head_def Let_def a_def c_def d_def)
    then consider "i < a" | "a \<le> i" "i < a + b" | "a + b \<le> i" "i < a + b + c" | "a + b + c \<le> i" "i < a + b + c + d" by linarith
    then show ?thesis
    proof cases
      case 1
      then show ?thesis using parts_not_h(1) by (simp add: a_def)
    next
      case 2
      then show ?thesis using parts_not_h(2)[OF Some, of "i - a"] len by simp
    next
      case 3
      then show ?thesis using parts_not_h(3)[of "i - (a + b)" "drop (a + b) s"] len by (simp add: c_def)
    next
      case 4
      then show ?thesis using parts_not_h(3)[of "i - (a + b + c)" "drop (a + b + c) s"] len2 by (simp add: d_def)
    qed
  qed
qed

lemma strcasestr_before: "strcasestr pat s = Some k \<Longrightarrow> j < k \<Longrightarrow> \<not> starts_nocase pat (drop j s)"
proof (induction s arbitrary: j k)
  case (Cons c s)
  then show ?case by (cases j) (auto split: if_splits)
qed simp

lemma strcasestr_none: "strcasestr pat s = None \<Longrightarrow> pat \<noteq> [] \<Longrightarrow> \<not> starts_nocase pat (drop j s)"
proof (induction s arbitrary: j)
  case Nil
  then show ?case using starts_nocase_length[of pat "[]"] by auto
next
  case (Cons c s)
  then show ?case by (cases j) (auto split: if_splits)
qed

text \<open>What \<open>censor\<close> makes of one find: the head, the crosses, the rest; no \<open>h\<close> behind the first letter.\<close>

lemma find_not_h:
  assumes "strcasestr ''http'' s = Some k" "k < j" "j < find_end k s"
  shows "\<not> is_h (s ! j)"
proof (cases "j < k + 4")
  case True
  have st: "starts_nocase ''http'' (drop k s)" "k + 4 \<le> length s" using strcasestr_http[OF assms(1)] by simp_all
  have l4: "length ''http'' = 4" by simp
  have "map tolower (take 4 (drop k s)) ! (j - k) = map tolower ''http'' ! (j - k)" using st(1)[unfolded starts_nocase_def l4] by (rule arg_cong)
  then have "tolower (s ! j) = map tolower ''http'' ! (j - k)" using st(2) True assms(2) by simp
  moreover have "map tolower ''http'' = ''http''" by code_simp
  moreover have "j - k \<in> {1, 2, 3}" using True assms(2) by auto
  ultimately show ?thesis by (auto simp: is_h_def)
next
  case False
  then have "j - (k + 4) < fst (url_head (drop (k + 4) s))" using assms(3) by (simp add: find_end_def)
  moreover have "k + 4 \<le> length s" using strcasestr_http[OF assms(1)] by simp
  ultimately show ?thesis using url_head_not_h[of "j - (k + 4)" "drop (k + 4) s"] False by simp
qed

lemma take_length_cstr: "take (length (cstr s)) s = cstr s"
  by (simp add: cstr_def takeWhile_eq_take[symmetric])

lemma censor_at:
  assumes "strcasestr ''http'' s = Some k" "m = find_end k s + find_cut k s"
  shows "i < find_end k s \<Longrightarrow> censor s ! i = s ! i"
    and "find_end k s \<le> i \<Longrightarrow> i < m \<Longrightarrow> censor s ! i = CHR ''X''"
    and "m \<le> i \<Longrightarrow> censor s ! i = censor (drop m s) ! (i - m)"
proof -
  note le = find_end_le[OF assms(1)]
  show "i < find_end k s \<Longrightarrow> censor s ! i = s ! i" using le by (simp add: censor_find[OF assms(1)] nth_append)
  show "censor s ! i = CHR ''X''" if "find_end k s \<le> i" "i < m"
  proof -
    have "i - find_end k s < find_cut k s" "\<not> i < find_end k s" using that assms(2) by linarith+
    then show ?thesis using le by (simp add: censor_find[OF assms(1)] nth_append min_def)
  qed
  have "length (take (find_end k s) s @ replicate (find_cut k s) (CHR ''X'')) = m" using le by (simp add: assms(2))
  then show "m \<le> i \<Longrightarrow> censor s ! i = censor (drop m s) ! (i - m)"
    by (simp only: censor_find[OF assms(1)] append_assoc[symmetric] nth_append assms(2)[symmetric]) simp
qed

text \<open>
  What a URL is, independently of the search: the text a head consists of, without regard to case,
  and the word behind it. The code also takes the heads without their slashes.
\<close>

definition url_heads :: "string list" where
  "url_heads = [''http'' @ o_s @ c @ a @ b. o_s \<leftarrow> [[], ''s''], c \<leftarrow> ['':'', ''%3a''], a \<leftarrow> [''/'', ''%2f''], b \<leftarrow> [''/'', ''%2f'']]"

definition colon_heads :: "string list" where
  "colon_heads = [''http:'', ''https:'', ''http%3a'', ''https%3a'']"

definition head_at :: "string \<Rightarrow> nat \<Rightarrow> string \<Rightarrow> bool" where
  "head_at s j h \<longleftrightarrow> map tolower (take (length h) (drop j s)) = h"

definition in_word :: "string \<Rightarrow> nat \<Rightarrow> nat \<Rightarrow> bool" where
  "in_word s a i \<longleftrightarrow> a \<le> i \<and> i < length s \<and> list_all (\<lambda>c. \<not> isspace c) (take (i + 1 - a) (drop a s))"

lemma char_by_value: "c = d \<longleftrightarrow> cval c = cval d"
  by (simp add: cval_def)

lemma isspace_url_end: "url_end c = isspace c"
proof -
  have "url_end c \<longleftrightarrow> cval c \<in> {12, 10, 13, 9, 11, 32}" by (simp add: url_end_def char_by_value) (simp add: cval_def)
  then show ?thesis by (auto simp: isspace_def)
qed

lemma tolower_fixed: "tolower c = CHR '':'' \<longleftrightarrow> c = CHR '':''" "tolower c = CHR ''/'' \<longleftrightarrow> c = CHR ''/''"
proof -
  have "cval (tolower c) = (if 65 \<le> cval c \<and> cval c \<le> 90 then cval c + 32 else cval c)"
    by (simp add: tolower_def cval_def of_char_of)
  then show "tolower c = CHR '':'' \<longleftrightarrow> c = CHR '':''" "tolower c = CHR ''/'' \<longleftrightarrow> c = CHR ''/''"
    unfolding char_by_value by (auto simp: cval_def)
qed

lemma in_wordD: "in_word s a i \<Longrightarrow> a \<le> i \<and> i < length s" "in_word s a i \<Longrightarrow> a \<le> m \<Longrightarrow> m \<le> i \<Longrightarrow> \<not> isspace (s ! m)"
proof -
  show "in_word s a i \<Longrightarrow> a \<le> i \<and> i < length s" by (simp add: in_word_def)
  assume w: "in_word s a i" "a \<le> m" "m \<le> i"
  then have "take (i + 1 - a) (drop a s) ! (m - a) = s ! m" "m - a < length (take (i + 1 - a) (drop a s))"
    by (auto simp: in_word_def)
  then show "\<not> isspace (s ! m)" using w(1) by (metis in_word_def list_all_length)
qed

lemma in_wordI: "a \<le> i \<Longrightarrow> i < length s \<Longrightarrow> (\<And>m. a \<le> m \<Longrightarrow> m \<le> i \<Longrightarrow> \<not> isspace (s ! m)) \<Longrightarrow> in_word s a i"
  by (auto simp: in_word_def list_all_length)

text \<open>The search takes exactly the head of a URL.\<close>

lemma append_eq_split:
  assumes "length a \<le> length x" "length a < length x \<longrightarrow> b = []"
  shows "a @ b = x @ y \<longleftrightarrow> a = x \<and> b = y"
proof (cases "length a = length x")
  case False
  then have "length a < length x" "b = []" using assms by auto
  then have n: "length (a @ b) \<noteq> length (x @ y)" "length a \<noteq> length x" by simp_all
  have "a @ b \<noteq> x @ y"
  proof
    assume "a @ b = x @ y"
    then have "length (a @ b) = length (x @ y)" by (rule arg_cong)
    with n(1) show False ..
  qed
  then show ?thesis using n(2) by blast
qed simp

lemma head_at_append: "head_at s j (x @ y) \<longleftrightarrow> head_at s j x \<and> head_at s (j + length x) y"
proof -
  have t: "take (length (x @ y)) (drop j s) = take (length x) (drop j s) @ take (length y) (drop (j + length x) s)"
    unfolding length_append take_add drop_drop by (simp only: add.commute)
  show ?thesis unfolding head_at_def t map_append by (rule append_eq_split) auto
qed

lemma head_at_hd: "head_at s j (c # h) \<Longrightarrow> drop j s \<noteq> [] \<and> tolower (hd (drop j s)) = c"
  by (cases "drop j s") (simp_all add: head_at_def)

lemma head_parts:
  "head_at s j ''s'' \<Longrightarrow> opt_s (drop j s) = 1"
  "head_at s j '':'' \<or> head_at s j ''%3a'' \<Longrightarrow> opt_s (drop j s) = 0"
  "head_at s j '':'' \<Longrightarrow> colon (drop j s) = Some 1"
  "head_at s j ''%3a'' \<Longrightarrow> colon (drop j s) = Some 3"
  "head_at s j ''/'' \<Longrightarrow> slash (drop j s) = 1"
  "head_at s j ''%2f'' \<Longrightarrow> slash (drop j s) = 3"
proof -
  note hd = head_at_hd[of s j]
  have pat: "map tolower ''%3A'' = ''%3a''" "map tolower ''%2F'' = ''%2f''" by code_simp+
  show "head_at s j ''s'' \<Longrightarrow> opt_s (drop j s) = 1" using hd[of "CHR ''s''" "[]"] by (simp add: opt_s_def)
  show "head_at s j '':'' \<or> head_at s j ''%3a'' \<Longrightarrow> opt_s (drop j s) = 0"
    using hd[of "CHR '':''" "[]"] hd[of "CHR ''%''" "''3a''"] by (auto simp: opt_s_def)
  show "head_at s j '':'' \<Longrightarrow> colon (drop j s) = Some 1" using hd[of "CHR '':''" "[]"] by (simp add: colon_def tolower_fixed)
  show "head_at s j ''/'' \<Longrightarrow> slash (drop j s) = 1" using hd[of "CHR ''/''" "[]"] by (simp add: slash_def tolower_fixed)
  have "starts_nocase ''%3A'' (drop j s)" if "head_at s j ''%3a''" using that unfolding starts_nocase_def head_at_def pat by simp
  then show "head_at s j ''%3a'' \<Longrightarrow> colon (drop j s) = Some 3"
    using hd[of "CHR ''%''" "''3a''"] tolower_fixed(1)[of "hd (drop j s)"] by (auto simp: colon_def)
  have "starts_nocase ''%2F'' (drop j s)" if "head_at s j ''%2f''" using that unfolding starts_nocase_def head_at_def pat by simp
  then show "head_at s j ''%2f'' \<Longrightarrow> slash (drop j s) = 3"
    using hd[of "CHR ''%''" "''2f''"] tolower_fixed(2)[of "hd (drop j s)"] by (auto simp: slash_def)
qed

lemma http_length: "length ''http'' = 4"
  by simp

lemma url_head_exact:
  assumes "h \<in> set url_heads" "head_at s j h"
  shows "starts_nocase ''http'' (drop j s) \<and> url_head (drop (j + 4) s) = (length h - 4, True)"
proof -
  have "set [''http'' @ x @ c @ a @ b. x \<leftarrow> X, c \<leftarrow> C, a \<leftarrow> A, b \<leftarrow> B]
    = {''http'' @ x @ c @ a @ b | x c a b. x \<in> set X \<and> c \<in> set C \<and> a \<in> set A \<and> b \<in> set B}" for X C A B
    by auto
  then obtain x c a b where h: "h = ''http'' @ x @ c @ a @ b" and "x \<in> set [[], ''s'']" "c \<in> set ['':'', ''%3a'']"
    "a \<in> set [''/'', ''%2f'']" "b \<in> set [''/'', ''%2f'']"
    using assms(1) unfolding url_heads_def by blast
  then have p: "x = [] \<or> x = ''s''" "c = '':'' \<or> c = ''%3a''" "a = ''/'' \<or> a = ''%2f''" "b = ''/'' \<or> b = ''%2f''" by simp_all
  let ?j = "j + 4"
  have at: "head_at s j ''http''" "head_at s ?j x" "head_at s (?j + length x) c" "head_at s (?j + length x + length c) a"
    "head_at s (?j + length x + length c + length a) b"
    using assms(2) unfolding h head_at_append http_length by (simp_all only: add.assoc simp_thms)
  have 1: "opt_s (drop ?j s) = length x" using p(1,2) at(2,3) head_parts(1,2)[of s ?j] by auto
  have 2: "colon (drop (?j + length x) s) = Some (length c)" using p(2) at(3) head_parts(3,4) by auto
  have 3: "slash (drop (?j + length x + length c) s) = length a" using p(3) at(4) head_parts(5,6) by auto
  have 4: "slash (drop (?j + length x + length c + length a) s) = length b" using p(4) at(5) head_parts(5,6) by auto
  have "url_head (drop ?j s) = (length x + length c + length a + length b, True)"
    using 1 2 3 4 by (simp add: url_head_def Let_def ac_simps)
  moreover have "map tolower ''http'' = ''http''" by code_simp
  then have "starts_nocase ''http'' (drop j s)" using at(1) by (simp only: starts_nocase_def head_at_def)
  ultimately show ?thesis by (simp add: h)
qed

text \<open>The heads that the search takes: from \<open>http\<close> to the colon, then slashes.\<close>

lemma slash_not_space: "i < slash s \<Longrightarrow> \<not> isspace (s ! i)"
proof -
  assume i: "i < slash s"
  have "tolower (s ! i) \<in> set ''%2f''" if "starts_nocase ''%2F'' s" "i < 3"
  proof -
    have p: "map tolower ''%2F'' = ''%2f''" "length ''%2F'' = 3" by code_simp+
    have "map tolower (take 3 s) ! i = ''%2f'' ! i" using that(1) unfolding starts_nocase_def p by simp
    then have "tolower (s ! i) = ''%2f'' ! i" using that starts_nocase_length[OF that(1)] by simp
    then show ?thesis using that(2) by (metis length_Cons list.size(3) nth_mem numeral_3_eq_3)
  qed
  then have "tolower (s ! i) \<in> set ''%2f'' \<or> s ! i = CHR ''/''"
    using i by (cases s) (auto simp: slash_def split: if_splits)
  then show ?thesis by (auto simp: tolower_def isspace_def cval_def split: if_splits)
qed

lemma url_head_found:
  assumes "starts_nocase ''http'' (drop k s)" "snd (url_head (drop (k + 4) s))"
  shows "\<exists>h \<in> set colon_heads. head_at s k h \<and> k + length h \<le> find_end k s
    \<and> (\<forall>m. k + length h \<le> m \<longrightarrow> m < find_end k s \<longrightarrow> \<not> isspace (s ! m))"
proof -
  define a where "a = opt_s (drop (k + 4) s)"
  obtain b where b: "colon (drop (k + 4 + a) s) = Some b"
    using assms(2) by (auto simp: url_head_def a_def Let_def add.commute split: option.splits)
  define c d where "c = slash (drop (k + 4 + a + b) s)" and "d = slash (drop (k + 4 + a + b + c) s)"
  have e: "find_end k s = k + 4 + a + b + c + d"
    using b by (simp add: find_end_def url_head_def Let_def a_def c_def d_def ac_simps)
  have "map tolower ''http'' = ''http''" by code_simp
  then have h1: "head_at s k ''http''" using assms(1) by (simp only: starts_nocase_def head_at_def)
  obtain x where x: "x \<in> {[], ''s''}" "length x = a" "head_at s (k + 4) x"
  proof (cases "a = 0")
    case False
    then have "a = 1" "head_at s (k + 4) ''s''"
      by (cases "drop (k + 4) s"; simp add: a_def opt_s_def head_at_def split: if_splits)+
    then show ?thesis by (intro that[of "''s''"]) simp_all
  qed (intro that[of "[]"]; simp add: head_at_def)
  obtain y where y: "y \<in> {'':'', ''%3a''}" "length y = b" "head_at s (k + 4 + a) y"
  proof (cases "b = 1")
    case True
    then have "head_at s (k + 4 + a) '':''"
      using b by (cases "drop (k + 4 + a) s") (auto simp: colon_def head_at_def tolower_fixed split: if_splits)
    then show ?thesis using True by (intro that[of "'':''"]) simp_all
  next
    case False
    then have "b = 3" "starts_nocase ''%3A'' (drop (k + 4 + a) s)" using b by (auto simp: colon_def split: if_splits list.splits)
    moreover have "map tolower ''%3A'' = ''%3a''" by code_simp
    ultimately show ?thesis by (intro that[of "''%3a''"]) (simp_all add: head_at_def starts_nocase_def)
  qed
  have "head_at s k (''http'' @ x @ y)" unfolding head_at_append http_length using h1 x(2,3) y(3) by simp
  moreover have "''http'' @ x @ y \<in> set colon_heads" using x(1) y(1) by (auto simp: colon_heads_def)
  moreover have "\<not> isspace (s ! m)" if "k + 4 + a + b \<le> m" "m < k + 4 + a + b + c + d" for m
  proof (cases "m < k + 4 + a + b + c")
    case True
    then have m: "m - (k + 4 + a + b) < c" using that(1) by linarith
    have "k + 4 + a + b \<le> length s" using m by (cases "k + 4 + a + b \<le> length s") (auto simp: c_def slash_def starts_nocase_def)
    then show ?thesis using slash_not_space[OF m[unfolded c_def]] that(1) by simp
  next
    case False
    then have m: "m - (k + 4 + a + b + c) < d" using that(2) by linarith
    have "k + 4 + a + b + c \<le> length s" using m by (cases "k + 4 + a + b + c \<le> length s") (auto simp: d_def slash_def starts_nocase_def)
    then show ?thesis using slash_not_space[OF m[unfolded d_def]] False by simp
  qed
  ultimately show ?thesis using x(2) y(2) e by (intro bexI[of _ "''http'' @ x @ y"]) auto
qed

text \<open>What is left of a URL, and what is taken from a text.\<close>

lemma head_at_drop: "head_at (drop m s) j h = head_at s (m + j) h"
  by (simp add: head_at_def add.commute)

lemma in_word_drop: "in_word (drop m s) a i \<Longrightarrow> in_word s (m + a) (m + i)"
  by (auto simp: in_word_def add.commute)

lemma in_word_shift:
  assumes "in_word s a i" "m \<le> i"
  shows "in_word (drop m s) (a - m) (i - m)"
proof (rule in_wordI)
  show "a - m \<le> i - m" "i - m < length (drop m s)" using in_wordD(1)[OF assms(1)] assms(2) by auto
  fix n assume "a - m \<le> n" "n \<le> i - m"
  then show "\<not> isspace (drop m s ! n)" using in_wordD(1)[OF assms(1)] in_wordD(2)[OF assms(1), of "m + n"] assms(2) by simp
qed

lemma url_heads_chars: "list_all (\<lambda>h. h \<noteq> [] \<and> take 1 h = ''h'' \<and> list_all (\<lambda>c. \<not> isspace c \<and> c \<noteq> tolower (CHR ''X'')) h) url_heads"
  by code_simp

lemma url_heads_long: "list_all (\<lambda>h. 4 \<le> length h) url_heads"
  by code_simp

lemma tolower_space: "isspace c \<Longrightarrow> tolower c = c"
  by (simp add: isspace_def tolower_def) (auto simp: cval_def)

lemma head_chars:
  assumes "h \<in> set url_heads" "head_at s j h" "j \<le> m" "m < j + length h"
  shows "m < length s" "tolower (s ! m) = h ! (m - j)" "\<not> isspace (s ! m)" "s ! m \<noteq> CHR ''X''"
proof -
  have c: "\<not> isspace (h ! (m - j)) \<and> h ! (m - j) \<noteq> tolower (CHR ''X'')"
    using url_heads_chars assms(1,3,4) by (auto simp: list_all_iff list_all_length)
  have e: "map tolower (take (length h) (drop j s)) = h" using assms(2) by (simp add: head_at_def)
  then have "length (take (length h) (drop j s)) = length h" by (metis length_map)
  then show l: "m < length s" using assms(3,4) by simp
  have "map tolower (take (length h) (drop j s)) ! (m - j) = h ! (m - j)" by (simp only: e)
  moreover have "map tolower (take (length h) (drop j s)) ! (m - j) = tolower (take (length h) (drop j s) ! (m - j))"
    by (rule nth_map) (use l assms(3,4) in auto)
  moreover have "take (length h) (drop j s) ! (m - j) = s ! m" using l assms(3,4) by simp
  ultimately show t: "tolower (s ! m) = h ! (m - j)" by simp
  show "\<not> isspace (s ! m)" "s ! m \<noteq> CHR ''X''" using c t tolower_space[of "s ! m"] by auto
qed

lemma head_is_h:
  assumes "h \<in> set url_heads" "head_at s j h"
  shows "is_h (s ! j)" "j < length s"
proof -
  have "h \<noteq> []" "h ! 0 = CHR ''h''" using url_heads_chars assms(1) by (cases h; auto simp: list_all_iff)+
  then show "is_h (s ! j)" "j < length s" using head_chars(1,2)[OF assms, of j] by (simp_all add: is_h_def)
qed

text \<open>The characters that one find takes: the word behind the head.\<close>

lemma cut_not_space:
  assumes "find_end k s \<le> n" "n < find_end k s + find_cut k s"
  shows "\<not> isspace (s ! n)" "snd (url_head (drop (k + 4) s))"
proof -
  let ?w = "takeWhile (\<lambda>c. \<not> url_end c) (drop (find_end k s) s)"
  show u: "snd (url_head (drop (k + 4) s))" using assms by (auto simp: find_cut_def split: if_splits)
  then have l: "n - find_end k s < length ?w" using assms by (auto simp: find_cut_def)
  then have "?w ! (n - find_end k s) = drop (find_end k s) s ! (n - find_end k s)" by (rule takeWhile_nth)
  moreover have "find_end k s \<le> length s" using l by (cases "find_end k s \<le> length s") auto
  ultimately have "?w ! (n - find_end k s) = s ! n" using assms(1) by simp
  moreover have "\<not> url_end (?w ! (n - find_end k s))" using set_takeWhileD[OF nth_mem[OF l]] by simp
  ultimately show "\<not> isspace (s ! n)" by (simp add: isspace_url_end)
qed

lemma cut_covers:
  assumes "snd (url_head (drop (k + 4) s))" "find_end k s \<le> i" "i < length s" "\<And>n. find_end k s \<le> n \<Longrightarrow> n \<le> i \<Longrightarrow> \<not> isspace (s ! n)"
  shows "i < find_end k s + find_cut k s"
proof (rule ccontr)
  let ?w = "takeWhile (\<lambda>c. \<not> url_end c) (drop (find_end k s) s)"
  assume "\<not> i < find_end k s + find_cut k s"
  then have w: "find_end k s + length ?w \<le> i" using assms(1) by (simp add: find_cut_def)
  then have "length ?w < length (drop (find_end k s) s)" using assms(3) by simp
  then have "url_end (drop (find_end k s) s ! length ?w)" using nth_length_takeWhile by fastforce
  then show False using assms(3) assms(4)[of "find_end k s + length ?w"] w by (simp add: isspace_url_end)
qed

lemma censor_hides:
  assumes "h \<in> set url_heads"
  shows "head_at s j h \<Longrightarrow> in_word s (j + length h) i \<Longrightarrow> censor s ! i = CHR ''X''"
proof (induction s arbitrary: i j rule: censor_induct)
  case (none s)
  then show ?case using url_head_exact[OF assms none(2)] strcasestr_none[OF none(1)] by simp
next
  case (find s k)
  let ?e = "find_end k s" and ?m = "find_end k s + find_cut k s"
  note at = censor_at[OF find(1) refl] and w = in_wordD[OF find(4)]
  note head = url_head_exact[OF assms find(3)] and h = head_is_h[OF assms find(3)]
  have ns: "\<not> isspace (s ! n)" if "j \<le> n" "n \<le> i" for n
    using head_chars(3)[OF assms find(3), of n] w(2)[of n] that by (cases "n < j + length h") auto
  have "\<not> j < k" using strcasestr_before[OF find(1)] head by blast
  moreover have "\<not> (k < j \<and> j < ?e)" using find_not_h[OF find(1), of j] h by blast
  ultimately consider "j = k" | "?e \<le> j" "j < ?m" | "?m \<le> j" by linarith
  then show ?case
  proof cases
    case 1
    have "4 \<le> length h" using url_heads_long assms by (auto simp: list_all_iff)
    then have e: "?e = j + length h" using head 1 by (simp add: find_end_def)
    then have "i < ?m" using cut_covers[of k s i] head 1 w(1) ns by simp
    then show ?thesis using at(2)[of i] e w(1) by simp
  next
    case 2
    have "\<not> isspace (s ! n)" if "?e \<le> n" "n \<le> i" for n
      using cut_not_space(1)[OF that(1)] ns[of n] that 2 by (cases "n < j") auto
    then have "i < ?m" using cut_covers[of k s i] cut_not_space(2)[OF 2] 2 w(1) by simp
    then show ?thesis using at(2)[of i] 2 w(1) by simp
  next
    case 3
    have "head_at (drop ?m s) (j - ?m) h" using find(3) 3 by (simp add: head_at_drop)
    moreover have "in_word (drop ?m s) (j - ?m + length h) (i - ?m)" using in_word_shift[OF find(4), of ?m] 3 w(1) by simp
    ultimately show ?thesis using find(2) at(3)[of i] 3 w(1) by simp
  qed
qed

lemma censor_changes:
  assumes "i < length s" "censor s ! i \<noteq> s ! i"
  shows "censor s ! i = CHR ''X'' \<and> (\<exists>j. \<exists>h \<in> set colon_heads. head_at s j h \<and> in_word s (j + length h) i)"
  using assms
proof (induction s arbitrary: i rule: censor_induct)
  case (find s k)
  let ?e = "find_end k s" and ?m = "find_end k s + find_cut k s"
  note at = censor_at[OF find(1) refl]
  consider "i < ?e" | "?e \<le> i" "i < ?m" | "?m \<le> i" by linarith
  then show ?case
  proof cases
    case 1
    then show ?thesis using at(1) find(4) by simp
  next
    case 2
    obtain h where h: "h \<in> set colon_heads" "head_at s k h" "k + length h \<le> ?e"
        "\<And>m. k + length h \<le> m \<Longrightarrow> m < ?e \<Longrightarrow> \<not> isspace (s ! m)"
      using url_head_found[of k s] strcasestr_http[OF find(1)] cut_not_space(2)[OF 2] by blast
    have "in_word s (k + length h) i"
    proof (rule in_wordI)
      fix m assume m: "k + length h \<le> m" "m \<le> i"
      then show "\<not> isspace (s ! m)" using h(4)[OF m(1)] cut_not_space(1)[of k s m] 2 by (cases "m < ?e") auto
    qed (use h(3) 2 find(3) in simp_all)
    then show ?thesis using h(1,2) at(2)[OF 2] by blast
  next
    case 3
    then have "censor (drop ?m s) ! (i - ?m) \<noteq> drop ?m s ! (i - ?m)" "i - ?m < length (drop ?m s)"
      using at(3)[OF 3] find(3,4) by simp_all
    from find(2)[OF this(2,1)] obtain j h where "censor (drop ?m s) ! (i - ?m) = CHR ''X''" "h \<in> set colon_heads"
        "head_at s (?m + j) h" "in_word (drop ?m s) (j + length h) (i - ?m)"
      unfolding head_at_drop by blast
    moreover have "in_word s (?m + j + length h) i" using in_word_drop[OF calculation(4)] 3 by (simp add: add.assoc)
    ultimately show ?thesis using at(3)[OF 3] by auto
  qed
qed (simp add: censor_none)

text \<open>A head in the result was there before: the crosses make none.\<close>

lemma censor_again:
  assumes "h \<in> set url_heads" "head_at (censor s) j h" "in_word (censor s) (j + length h) i"
  shows "censor s ! i = CHR ''X''"
proof -
  have same: "censor s ! m = s ! m \<or> censor s ! m = CHR ''X'' \<and> \<not> isspace (s ! m)" if "m < length s" for m
    using censor_changes[OF that] in_wordD by blast
  have "m < length s \<and> tolower (s ! m) = h ! (m - j)" if "j \<le> m" "m < j + length h" for m
    using head_chars(1,2,4)[OF assms(1,2) that] same[of m] by auto
  moreover have "h \<noteq> []" using url_heads_chars assms(1) by (auto simp: list_all_iff)
  moreover have "j + length h \<le> length s" using calculation(1)[of "j + length h - 1"] calculation(2) by (cases h) auto
  ultimately have "head_at s j h" unfolding head_at_def by (intro nth_equalityI) auto
  moreover have "in_word s (j + length h) i"
    using in_wordD[OF assms(3)] same by (intro in_wordI) (simp_all, metis le_less_trans)
  ultimately show ?thesis using censor_hides[OF assms(1)] by blast
qed

section \<open>Properties\<close>

text \<open>C17: A message is formatted into a buffer that holds it, whatever the format and however long the message,
  the tag and the lines are: the result is every line between its prefix and its suffix (the whole message
  between them for the long format), cut nowhere but inside a prefix or suffix of 128 or more characters,
  with the length of that text; on a secure build with the URLs censored. There is no result only when
  \<open>malloc\<close> fails.\<close>

theorem formatLogLine_prints_message:
  assumes "log_str_at mem (etag e) = Some tag" "NUL \<notin> set tag" "NUL \<notin> set (time (tv_sec e))"
    and "mem_from mem (emessage e) = msg @ NUL # rest" "NUL \<notin> set msg" "messageLen e = word_of_nat (length msg)" "length msg < 2 ^ 64"
    and "\<forall>n b. alloc n = Some b \<longrightarrow> n \<le> length b"
    and "pre = take 127 (prefix_text (print_as fmt) (time (tv_sec e)) tag e)" "suf = take 127 (suffix_text (print_as fmt) tag)"
    and "out = line_text (print_as fmt) pre suf msg"
  shows "\<exists>res. android_log_formatLogLine env time alloc fmt dflt mem e = Some res
    \<and> (res = None \<longleftrightarrow> length dflt < line_bufsize (print_as fmt) pre suf msg \<and> alloc (line_bufsize (print_as fmt) pre suf msg) = None)
    \<and> (\<forall>buf n. res = Some (buf, n) \<longrightarrow> n = length out \<and> cstr buf = (if is_secure_build env then censor out else out))"
  by (rule formatLogLine_text[where time = time and alloc = alloc, OF assms])

text \<open>\<open>android_log_printLogLine\<close> writes exactly the text of the message to the descriptor, prefixes,
  suffixes and censored URLs included, after any number of interrupted calls, and returns its length; when the
  kernel takes only a part, that part is a prefix of the text and the result says how long it is; when
  \<open>write\<close> fails the result is 0 and nothing is written. The text is the same whether it is formatted in the
  buffer on the stack or in one from \<open>malloc\<close>.\<close>

theorem printLogLine_writes_message:
  assumes "log_str_at mem (etag e) = Some tag" "NUL \<notin> set tag" "NUL \<notin> set (time (tv_sec e))"
    and "mem_from mem (emessage e) = msg @ NUL # rest" "NUL \<notin> set msg" "messageLen e = word_of_nat (length msg)" "length msg < 2 ^ 64"
    and "\<forall>n b. alloc n = Some b \<longrightarrow> n \<le> length b"
    and "pre = take 127 (prefix_text (print_as fmt) (time (tv_sec e)) tag e)" "suf = take 127 (suffix_text (print_as fmt) tag)"
    and "out = line_text (print_as fmt) pre suf msg"
    and "length dflt < line_bufsize (print_as fmt) pre suf msg \<Longrightarrow> alloc (line_bufsize (print_as fmt) pre suf msg) \<noteq> None"
    and "shown = (if is_secure_build env then censor out else out)"
  shows "android_log_printLogLine env time alloc fmt dflt mem e (replicate n Interrupted @ Wrote r # ans)
    = Some (if r < 0 then (0, []) else (r, take (nat r) shown))"
proof -
  obtain res where res: "android_log_formatLogLine env time alloc fmt dflt mem e = Some res"
      "res = None \<longleftrightarrow> length dflt < line_bufsize (print_as fmt) pre suf msg \<and> alloc (line_bufsize (print_as fmt) pre suf msg) = None"
      "\<forall>buf n. res = Some (buf, n) \<longrightarrow> n = length out \<and> cstr buf = (if is_secure_build env then censor out else out)"
    using formatLogLine_text[where time = time and alloc = alloc and dflt = dflt and env = env, OF assms(1-11)] by (elim exE conjE) (rule that)
  have "res \<noteq> None" using res(2) assms(12) by blast
  then obtain buf m where bm0: "res = Some (buf, m)" by (metis not_None_eq prod.exhaust)
  have bm: "m = length out" "cstr buf = shown" using res(3)[rule_format, OF bm0] by (simp_all only: assms(13))
  have "length shown = length out" unfolding assms(13) by simp
  have "take m buf = shown" using take_length_cstr[of buf] bm \<open>length shown = length out\<close> by simp
  moreover have "write_loop t (replicate n Interrupted @ Wrote r # ans) = write_loop t (Wrote r # ans)" for t
    by (induction n) simp_all
  ultimately show ?thesis by (simp add: android_log_printLogLine_def res(1) bm0)
qed

text \<open>C18: On a secure build \<open>android_log_filter_url\<close> leaves no URL that can be read: behind every \<open>http\<close> or
  \<open>https\<close>, a colon and two slashes in the text, in any case and with the colon and the slashes encoded or not,
  every character up to the white space (\<open>isspace\<close>) or the end becomes a cross; and the result has no such head
  with anything but crosses behind it. The text keeps its length, and no character changes but into a cross, inside
  the word behind \<open>http\<close> or \<open>https\<close> and a colon. The slashes are not required there: against the comment
  in \<open>logprint.c\<close>, the code also censors \<open>http:8080\<close>.\<close>

theorem filter_url_hides_urls:
  assumes "is_secure_build env" "s = cstr buf" "s' = cstr (android_log_filter_url env buf)"
  shows "(\<forall>j h i. h \<in> set url_heads \<longrightarrow> head_at s j h \<longrightarrow> in_word s (j + length h) i \<longrightarrow> s' ! i = CHR ''X'')
    \<and> (\<forall>j h i. h \<in> set url_heads \<longrightarrow> head_at s' j h \<longrightarrow> in_word s' (j + length h) i \<longrightarrow> s' ! i = CHR ''X'')
    \<and> length s' = length s
    \<and> (\<forall>i < length s. s' ! i \<noteq> s ! i \<longrightarrow> s' ! i = CHR ''X''
        \<and> (\<exists>j. \<exists>h \<in> set colon_heads. head_at s j h \<and> in_word s (j + length h) i))"
proof -
  have "NUL \<notin> set (cstr buf)" by (auto simp: cstr_def dest: set_takeWhileD)
  then have nul: "NUL \<notin> set (censor (cstr buf))" by (rule NUL_notin_censor)
  have "s' = censor s"
  proof (cases "drop (length (cstr buf)) buf")
    case Nil
    then show ?thesis using nul assms by (simp add: android_log_filter_url_def)
  next
    case (Cons c r)
    then have "c = NUL" unfolding cstr_def using hd_dropWhile[of "\<lambda>c. c \<noteq> NUL" buf] by (simp add: dropWhile_eq_drop[symmetric])
    then show ?thesis using nul assms Cons by (simp add: android_log_filter_url_def)
  qed
  then show ?thesis using censor_hides censor_again censor_changes by auto
qed

section \<open>Witnesses\<close>

definition two_lines :: log_entry where
  "two_lines = \<lparr>tv_sec = 0, tv_nsec = 0, priority = 5, epid = 77, etid = 78, etag = InMsg 1, messageLen = 5, emessage = InMsg 5\<rparr>"

definition two_lines_mem :: string where
  "two_lines_mem = [CHR 0x05] @ ''net'' @ [NUL] @ ''ab'' @ [CHR 0x0A] @ ''cd'' @ [NUL]"


lemma two_lines_parts:
  "log_str_at two_lines_mem (etag two_lines) = Some ''net''"
  "mem_from two_lines_mem (emessage two_lines) = (''ab'' @ [CHR 0x0A] @ ''cd'') @ NUL # []"
  "NUL \<notin> set ''net''" "NUL \<notin> set (''ab'' @ [CHR 0x0A] @ ''cd'')" "NUL \<notin> set []"
  "messageLen two_lines = word_of_nat (length (''ab'' @ [CHR 0x0A] @ ''cd''))" "length (''ab'' @ [CHR 0x0A] @ ''cd'') < 2 ^ 64"
  by (simp_all add: two_lines_def two_lines_mem_def cstr_at_def cstr_Cons)

theorem formatLogLine_prints_message_witness:
  "\<exists>buf. android_log_formatLogLine (Some ''0'') (\<lambda>_. []) (\<lambda>n. Some (replicate n CHR ''?'')) android_log_format_new
      (replicate 20 NUL) two_lines_mem two_lines = Some (Some (buf, 44))
    \<and> cstr buf = ''W/net     (   77): ab'' @ [CHR 0x0A] @ ''W/net     (   77): cd'' @ [CHR 0x0A]"
proof -
  let ?pre = "''W/net     (   77): ''"
  have pre: "?pre = take 127 (prefix_text (print_as android_log_format_new) ((\<lambda>_. []) (tv_sec two_lines)) ''net'' two_lines)" by code_simp
  have suf: "[CHR 0x0A] = take 127 (suffix_text (print_as android_log_format_new) ''net'')" by code_simp
  have out: "?pre @ ''ab'' @ [CHR 0x0A] @ ?pre @ ''cd'' @ [CHR 0x0A]
      = line_text (print_as android_log_format_new) ?pre [CHR 0x0A] (''ab'' @ [CHR 0x0A] @ ''cd'')"
    by (simp add: line_text_def android_log_format_new_def lines_text_def log_lines.simps)
  have sec: "\<not> is_secure_build (Some ''0'')" by code_simp
  have len: "length (?pre @ ''ab'' @ [CHR 0x0A] @ ?pre @ ''cd'' @ [CHR 0x0A]) = 44" by simp
  obtain res where "android_log_formatLogLine (Some ''0'') (\<lambda>_. []) (\<lambda>n. Some (replicate n CHR ''?'')) android_log_format_new
      (replicate 20 NUL) two_lines_mem two_lines = Some res" "res \<noteq> None"
      "\<forall>buf n. res = Some (buf, n) \<longrightarrow> n = 44 \<and> cstr buf = ?pre @ ''ab'' @ [CHR 0x0A] @ ?pre @ ''cd'' @ [CHR 0x0A]"
    using formatLogLine_prints_message[where env = "Some ''0''" and dflt = "replicate 20 NUL" and time = "\<lambda>_. []"
        and alloc = "\<lambda>n. Some (replicate n CHR ''?'')", OF two_lines_parts(1,3,5,2,4,6,7) _ pre suf out] sec len
    by auto
  then show ?thesis by auto
qed

theorem printLogLine_writes_message_witness:
  "android_log_printLogLine (Some ''0'') (\<lambda>_. []) (\<lambda>_. None) (android_log_setPrintFormat android_log_format_new FORMAT_RAW)
      (replicate 512 NUL) two_lines_mem two_lines [Interrupted, Wrote 6] = Some (6, ''ab'' @ [CHR 0x0A] @ ''cd'' @ [CHR 0x0A])"
proof -
  let ?f = "android_log_setPrintFormat android_log_format_new FORMAT_RAW"
  have f: "print_as ?f = FORMAT_RAW" by code_simp
  have pre: "[] = take 127 (prefix_text (print_as ?f) ((\<lambda>_. []) (tv_sec two_lines)) ''net'' two_lines)" by code_simp
  have suf: "[CHR 0x0A] = take 127 (suffix_text (print_as ?f) ''net'')" by code_simp
  have out: "''ab'' @ [CHR 0x0A] @ ''cd'' @ [CHR 0x0A] = line_text (print_as ?f) [] [CHR 0x0A] (''ab'' @ [CHR 0x0A] @ ''cd'')"
    by (simp add: line_text_def f lines_text_def log_lines.simps)
  have sec: "\<not> is_secure_build (Some ''0'')" by code_simp
  have "android_log_printLogLine (Some ''0'') (\<lambda>_. []) (\<lambda>_. None) ?f (replicate 512 NUL) two_lines_mem two_lines
      (replicate 1 Interrupted @ Wrote 6 # []) = Some (if (6::int) < 0 then (0, []) else (6, take (nat 6) (''ab'' @ [CHR 0x0A] @ ''cd'' @ [CHR 0x0A])))"
    by (rule printLogLine_writes_message[where pre = "[]" and suf = "[CHR 0x0A]", OF two_lines_parts(1,3,5,2,4,6,7) _ pre suf out])
      (simp_all add: line_bufsize_def numLines_def f sec)
  then show ?thesis by simp
qed

theorem filter_url_hides_urls_witness:
  "cstr (android_log_filter_url None ''see HTTP%3a//x?q ok'') ! 15 = CHR ''X''
    \<and> length (cstr (android_log_filter_url None ''see HTTP%3a//x?q ok'')) = 19
    \<and> ''http%3a//'' \<in> set url_heads \<and> head_at ''see HTTP%3a//x?q ok'' 4 ''http%3a//'' \<and> in_word ''see HTTP%3a//x?q ok'' 13 15"
proof -
  let ?s = "''see HTTP%3a//x?q ok''"
  have at: "is_secure_build None" "?s = cstr ?s" "''http%3a//'' \<in> set url_heads" "head_at ?s 4 ''http%3a//''" "in_word ?s 13 15"
    by code_simp+
  note all = filter_url_hides_urls[OF at(1,2) refl]
  have "length ''http%3a//'' = 9" by simp
  then show ?thesis using all at by auto
qed

end
