(* ===== verification/WifiTable.thy ===== *)
theory WifiTable
  imports CText
begin

text \<open>
  \<open>utils/multi_wifi_load_driver.c\<close>, the data: the paths the build sets, the table of the Wi-Fi chips with
  their kernel modules, the text of a module's options, and the buffers these texts are put into.
\<close>

section \<open>Paths\<close>

definition DEFAULT_KO_PATH :: string where "DEFAULT_KO_PATH = ''/vendor/lib/modules''"
definition DEFAULT_CONFIG_PATH :: string where "DEFAULT_CONFIG_PATH = ''/vendor/etc/wifi''"

text \<open>What the build defines: a path for each vendor, and the two switches.\<close>

record wifi_cfg =
  broadcom_ko :: string
  cypress_ko :: string
  realtek_ko :: string
  amlogic_ko :: string
  mtk_ko :: string
  mrvl_ko :: string
  qca_ko :: string
  icomm_ko :: string
  broadcom_fw :: string
  cypress_fw :: string
  icomm_cfg :: string
  CYPRESS_WIFI_MODULE :: bool
  RTK_WIFI_MODULE :: bool

definition default_cfg :: wifi_cfg where
  "default_cfg = \<lparr>broadcom_ko = DEFAULT_KO_PATH, cypress_ko = DEFAULT_KO_PATH, realtek_ko = DEFAULT_KO_PATH,
     amlogic_ko = DEFAULT_KO_PATH, mtk_ko = DEFAULT_KO_PATH, mrvl_ko = DEFAULT_CONFIG_PATH, qca_ko = DEFAULT_CONFIG_PATH,
     icomm_ko = DEFAULT_KO_PATH, broadcom_fw = DEFAULT_CONFIG_PATH, cypress_fw = DEFAULT_CONFIG_PATH,
     icomm_cfg = DEFAULT_CONFIG_PATH, CYPRESS_WIFI_MODULE = False, RTK_WIFI_MODULE = False\<rparr>"

section \<open>The table\<close>

definition MODULE_ARG_FIRMWARE :: int where "MODULE_ARG_FIRMWARE = 0"
definition MODULE_ARG_IFNAME :: int where "MODULE_ARG_IFNAME = 1"
definition MODULE_ARG_STACFG :: int where "MODULE_ARG_STACFG = 2"
definition MODULE_ARG_OTHER :: int where "MODULE_ARG_OTHER = 3"

lemmas module_arg_types = MODULE_ARG_FIRMWARE_def MODULE_ARG_IFNAME_def MODULE_ARG_STACFG_def MODULE_ARG_OTHER_def

text \<open>A pointer to a string can be \<open>NULL\<close>.\<close>

record module_arg =
  arg_type :: int
  firmware_path :: "string option"
  firmware_ap_path :: "string option"
  nvram_path :: "string option"
  ifname :: "string option"
  if2name :: "string option"
  stacfgpath :: "string option"
  other_text :: "string option"

record dongle_info =
  chip_id :: string
  wifi_module_name :: string
  wifi_module_filename :: string
  wifi_module_path :: string
  wifi_module_arg :: module_arg
  wifi_name :: string
  wifi_pid :: int
  wifi_module_name2 :: "string option"
  wifi_module_filename2 :: "string option"
  wifi_module_arg2 :: "string option"

text \<open>The initialisers of the table.\<close>

definition empty_arg :: "int \<Rightarrow> module_arg" where
  "empty_arg t = \<lparr>arg_type = t, firmware_path = None, firmware_ap_path = None, nvram_path = None, ifname = None,
     if2name = None, stacfgpath = None, other_text = None\<rparr>"

definition fw_arg :: "string \<Rightarrow> string \<Rightarrow> string \<Rightarrow> module_arg" where
  "fw_arg sta ap nvram = (empty_arg MODULE_ARG_FIRMWARE)\<lparr>firmware_path := Some sta, firmware_ap_path := Some ap, nvram_path := Some nvram\<rparr>"

definition ifname_arg :: module_arg where
  "ifname_arg = (empty_arg MODULE_ARG_IFNAME)\<lparr>ifname := Some ''wlan0'', if2name := Some ''p2p0''\<rparr>"

definition no_names_arg :: module_arg where
  "no_names_arg = empty_arg MODULE_ARG_IFNAME"

definition stacfg_arg :: "string \<Rightarrow> module_arg" where
  "stacfg_arg p = (empty_arg MODULE_ARG_STACFG)\<lparr>stacfgpath := Some p\<rparr>"

definition other_arg :: "string \<Rightarrow> module_arg" where
  "other_arg a = (empty_arg MODULE_ARG_OTHER)\<lparr>other_text := Some a\<rparr>"

definition unknown_arg :: module_arg where
  "unknown_arg = empty_arg 0xFF"

definition dongle :: "string \<Rightarrow> string \<Rightarrow> string \<Rightarrow> string \<Rightarrow> module_arg \<Rightarrow> string \<Rightarrow> int \<Rightarrow> dongle_info" where
  "dongle chip m file path a name pid = \<lparr>chip_id = chip, wifi_module_name = m, wifi_module_filename = file,
     wifi_module_path = path, wifi_module_arg = a, wifi_name = name, wifi_pid = pid,
     wifi_module_name2 = None, wifi_module_filename2 = None, wifi_module_arg2 = None\<rparr>"

definition with_second :: "dongle_info \<Rightarrow> string \<Rightarrow> string \<Rightarrow> string \<Rightarrow> dongle_info" where
  "with_second d m file a = d\<lparr>wifi_module_name2 := Some m, wifi_module_filename2 := Some file, wifi_module_arg2 := Some a\<rparr>"

definition broadcom_dongles :: "wifi_cfg \<Rightarrow> dongle_info list" where
  "broadcom_dongles cfg = [
     dongle ''a962'' ''dhd'' ''dhd.ko'' (broadcom_ko cfg) (fw_arg ''40181/fw_bcm40181a2.bin'' ''40181/fw_bcm40181a2_apsta.bin'' ''40181/nvram.txt'') ''bcm6210'' 0,
     dongle ''4359'' ''dhd'' ''dhd.ko'' (broadcom_ko cfg) (fw_arg ''AP6398/fw_bcm4359c0_ag.bin'' ''AP6398/fw_bcm4359c0_ag_apsta.bin'' ''AP6398/nvram_ap6398s.txt'') ''ap6398'' 0,
     dongle ''a804'' ''dhd'' ''dhd.ko'' (broadcom_ko cfg) (fw_arg ''AP6201/fw_bcm43013b0.bin'' ''AP6201/fw_bcm43013b0_apsta.bin'' ''AP6201/nvram_ap6201.txt'') ''ap6201'' 0,
     dongle ''4354'' ''dhd'' ''dhd.ko'' (broadcom_ko cfg) (fw_arg ''4354/fw_bcm4354a1_ag.bin'' ''4354/fw_bcm4354a1_ag_apsta.bin'' ''4354/nvram.txt'') ''bcm4354'' 0,
     dongle ''4335'' ''dhd'' ''dhd.ko'' (broadcom_ko cfg) (fw_arg ''6335/fw_bcm4339a0_ag.bin'' ''6335/fw_bcm4339a0_ag_apsta.bin'' ''6335/nvram.txt'') ''bcm6335'' 0,
     dongle ''a94d'' ''dhd'' ''dhd.ko'' (broadcom_ko cfg) (fw_arg ''6234/fw_bcm43341b0_ag.bin'' ''6234/fw_bcm43341b0_ag_apsta.bin'' ''6234/nvram.txt'') ''bcm6234'' 0,
     dongle ''aae8'' ''dhd'' ''dhd.ko'' (broadcom_ko cfg) (fw_arg ''AP6275/fw_bcm43752a2_ag.bin'' ''AP6275/fw_bcm43752a2_ag_apsta.bin'' ''AP6275/nvram_ap6275s.txt'') ''ap6275'' 0]"

definition cypress_dongles :: "wifi_cfg \<Rightarrow> dongle_info list" where
  "cypress_dongles cfg = (if CYPRESS_WIFI_MODULE cfg then
    [
     dongle ''a9bf'' ''cywdhd'' ''cywdhd.ko'' (cypress_ko cfg) (fw_arg ''cyw43455/cyw43455-7.45.100.13.bin'' ''cyw43455/cyw43455-7.45.100.13.bin'' ''cyw43455/bcm943457wlsagb_4L_170607_customer.txt'') ''cyw43455'' 0,
     dongle ''a9a6'' ''cywdhd'' ''cywdhd.ko'' (cypress_ko cfg) (fw_arg ''cyw43438/cyw43438-7.46.58.15.bin'' ''cyw43438/cyw43438-7.46.58.15.bin'' ''cyw43438/NB197SM.nvram_20180419_AZ.txt'') ''cyw43438'' 0]
   else
    [
     dongle ''a9bf'' ''dhd'' ''dhd.ko'' (broadcom_ko cfg) (fw_arg ''6255/fw_bcm43455c0_ag.bin'' ''6255/fw_bcm43455c0_ag_apsta.bin'' ''6255/nvram.txt'') ''bcm6255'' 0,
     dongle ''a9a6'' ''dhd'' ''dhd.ko'' (broadcom_ko cfg) (fw_arg ''6212/fw_bcm43438a0.bin'' ''6212/fw_bcm43438a0_apsta.bin'' ''6212/nvram.txt'') ''bcm6212'' 0])"

definition more_broadcom_dongles :: "wifi_cfg \<Rightarrow> dongle_info list" where
  "more_broadcom_dongles cfg = [
     dongle ''4356'' ''dhd'' ''dhd.ko'' (broadcom_ko cfg) (fw_arg ''4356/fw_bcm4356a2_ag.bin'' ''4356/fw_bcm4356a2_ag_apsta.bin'' ''4356/nvram.txt'') ''bcm6356'' 0,
     dongle ''aa31'' ''dhd'' ''dhd.ko'' (broadcom_ko cfg) (fw_arg ''4358/fw_bcm4358_ag.bin'' ''4358/fw_bcm4358_ag_apsta.bin'' ''4358/nvram.txt'') ''bcm4358'' 0]"

definition realtek_dongles :: "wifi_cfg \<Rightarrow> dongle_info list" where
  "realtek_dongles cfg = [
     dongle ''8179'' ''8189es'' ''8189es.ko'' (realtek_ko cfg) ifname_arg ''rtl8189es'' 0,
     dongle ''f179'' ''8189fs'' ''8189fs.ko'' (realtek_ko cfg) ifname_arg ''rtl8189fs'' 0,
     dongle ''0000'' ''8188fu'' ''8188fu.ko'' (realtek_ko cfg) ifname_arg ''rtl8188fu'' 0xf179,
     dongle ''invalid'' ''8188gtvu'' ''8188gtvu.ko'' (realtek_ko cfg) ifname_arg ''rtl8188gtv'' 0x018c,
     dongle ''d723'' ''8723ds'' ''8723ds.ko'' (realtek_ko cfg) ifname_arg ''rtl8723ds'' 0,
     dongle ''invalid'' ''8723du'' ''8723du.ko'' (realtek_ko cfg) ifname_arg ''rtl8723du'' 0xd723,
     dongle ''invalid'' ''8723bu'' ''8723bu.ko'' (realtek_ko cfg) ifname_arg ''rtl8723bu'' 0xb720,
     dongle ''b822'' ''8822bs'' ''8822bs.ko'' (realtek_ko cfg) ifname_arg ''rtl8822bs'' 0,
     dongle ''invalid'' ''8822bu'' ''8822bu.ko'' (realtek_ko cfg) ifname_arg ''rtl8822bu'' 0xb82c,
     dongle ''c822'' ''8822cs'' ''8822cs.ko'' (realtek_ko cfg) ifname_arg ''rtl8822cs'' 0]"

definition other_dongles :: "wifi_cfg \<Rightarrow> dongle_info list" where
  "other_dongles cfg = [
     with_second (dongle ''8888'' ''aml_sdio'' ''aml_sdio.ko'' (amlogic_ko cfg) no_names_arg ''w155s1'' 0xffff) ''vlsicomm'' ''vlsicomm.ko'' ''country_code=WW conf_path=/etc/wifi/w1 vmac1=wlan1 vif1opmode=2 con_mode=0x06 plt_ver=gva'',
     with_second (dongle ''0540'' ''w1u_comm'' ''w1u_comm.ko'' (amlogic_ko cfg) no_names_arg ''w155s2'' 0xffff) ''w1u'' ''w1u.ko'' ''country_code=WW conf_path=/w1u vmac0=wlan0 vmac1=p2p0 vif0opmode=1 vif1opmode=2 con_mode=0x06'',
     with_second (dongle ''0640'' ''w2_comm'' ''w2_comm.ko'' (amlogic_ko cfg) (other_arg ''bus_type=sdio'') ''w265s1'' 0xffff) ''w2'' ''w2.ko'' '''',
     with_second (dongle ''0800'' ''w2l_comm'' ''w2l_comm.ko'' (amlogic_ko cfg) (other_arg ''bus_type=sdio'') ''w265s2m'' 0xffff) ''w2l'' ''w2l.ko'' '''',
     dongle ''7603'' ''wlan_mt7663_sdio'' ''wlan_mt7663_sdio.ko'' (mtk_ko cfg) no_names_arg ''mtk7661s'' 0xffff,
     dongle ''3030'' ''ssv6051'' ''ssv6051.ko'' DEFAULT_KO_PATH (stacfg_arg ''/system/vendor/etc/wifi/ssv6051/ssv6051-wifi.cfg'') ''ssv6051'' 0,
     with_second (dongle ''9145'' ''mlan'' ''mlan8977.ko'' (mrvl_ko cfg) unknown_arg ''sd8977'' 0) ''sd8xxx'' ''sd8xxx_8977.ko'' ''cal_data_cfg=none'',
     with_second (dongle ''9149'' ''mlan'' ''mlan8987.ko'' (mrvl_ko cfg) unknown_arg ''sd8987'' 0) ''sd8xxx'' ''sd8xxx_8987.ko'' ''cal_data_cfg=none'',
     dongle ''0701'' ''wlan'' ''wlan.ko'' (qca_ko cfg) (other_arg ''country_code=CN'') ''qca9377'' 0,
     dongle ''050a'' ''wlan'' ''wlan.ko'' (qca_ko cfg) (other_arg ''country_code=CN'') ''qca6174'' 0,
     dongle ''2060'' ''ssv6x5x'' ''sv6158.ko'' (icomm_ko cfg) (stacfg_arg ''sv6158-wifi.cfg'') ''sv6158'' 0]"

definition dongle_registerd :: "wifi_cfg \<Rightarrow> dongle_info list" where
  "dongle_registerd cfg = broadcom_dongles cfg @ cypress_dongles cfg @ more_broadcom_dongles cfg @ realtek_dongles cfg @ other_dongles cfg"

lemmas dongle_tables = dongle_registerd_def broadcom_dongles_def cypress_dongles_def more_broadcom_dongles_def
  realtek_dongles_def other_dongles_def

section \<open>Options\<close>

definition TYPE_AP :: int where "TYPE_AP = 0"
definition TYPE_STATION :: int where "TYPE_STATION = 1"

text \<open>\<open>%s\<close> of a pointer, as the GNU library prints it.\<close>

definition pr_s :: "string option \<Rightarrow> string" where
  "pr_s p = (case p of None \<Rightarrow> ''(null)'' | Some s \<Rightarrow> s)"

text \<open>\<open>get_module_arg\<close> into a buffer that was cleared.\<close>

definition get_module_arg :: "wifi_cfg \<Rightarrow> module_arg \<Rightarrow> int \<Rightarrow> string" where
  "get_module_arg cfg a ty =
     (if arg_type a = MODULE_ARG_FIRMWARE then
        (let fw = (if ty = TYPE_AP then firmware_ap_path a else firmware_path a) in
         if CYPRESS_WIFI_MODULE cfg
         then ''firmware_path='' @ cypress_fw cfg @ ''/'' @ pr_s fw @ '' nvram_path='' @ cypress_fw cfg @ ''/'' @ pr_s (nvram_path a)
         else ''firmware_path=/../..'' @ broadcom_fw cfg @ ''/'' @ pr_s fw @ '' nvram_path=/../..'' @ broadcom_fw cfg @ ''/'' @ pr_s (nvram_path a))
      else if arg_type a = MODULE_ARG_IFNAME then ''ifname='' @ pr_s (ifname a) @ '' if2name='' @ pr_s (if2name a)
      else if arg_type a = MODULE_ARG_STACFG then ''stacfgpath='' @ icomm_cfg cfg @ ''/'' @ pr_s (stacfgpath a)
      else if arg_type a = MODULE_ARG_OTHER then pr_s (other_text a)
      else [])"

text \<open>A text in a buffer of \<open>n\<close> bytes; \<^const>\<open>None\<close>: it does not fit.\<close>

definition text_in :: "nat \<Rightarrow> string \<Rightarrow> string option" where
  "text_in n s = (if length s < n then Some s else None)"

definition module_path :: "dongle_info \<Rightarrow> string \<Rightarrow> string option" where
  "module_path d file = text_in 128 (wifi_module_path d @ ''/'' @ file)"

definition module_options :: "wifi_cfg \<Rightarrow> dongle_info \<Rightarrow> int \<Rightarrow> string option" where
  "module_options cfg d ty = text_in 256 (get_module_arg cfg (wifi_module_arg d) ty)"

text \<open>The command of \<open>insmod\<close>; the texts are its formats, so they must not have conversions.\<close>

definition insmod_command :: "string \<Rightarrow> string \<Rightarrow> string option" where
  "insmod_command file opts =
     (if CHR ''%'' \<in> set file \<or> CHR ''%'' \<in> set opts then None else text_in 200 (''insmod '' @ file @ '' '' @ opts))"

section \<open>The table fits its buffers\<close>

text \<open>Paths short enough, without conversions.\<close>

definition short_path :: "string \<Rightarrow> bool" where
  "short_path p \<longleftrightarrow> length p \<le> 24 \<and> CHR ''%'' \<notin> set p"

definition cfg_ok :: "wifi_cfg \<Rightarrow> bool" where
  "cfg_ok cfg \<longleftrightarrow> list_all short_path [broadcom_ko cfg, cypress_ko cfg, realtek_ko cfg, amlogic_ko cfg, mtk_ko cfg, mrvl_ko cfg,
     qca_ko cfg, icomm_ko cfg, broadcom_fw cfg, cypress_fw cfg, icomm_cfg cfg]"

text \<open>All texts of an entry fit; \<open>module_text\<close>, \<open>second_text\<close> are the path and the options.\<close>

definition module_text :: "wifi_cfg \<Rightarrow> int \<Rightarrow> dongle_info \<Rightarrow> string \<times> string" where
  "module_text cfg ty d = (wifi_module_path d @ ''/'' @ wifi_module_filename d, get_module_arg cfg (wifi_module_arg d) ty)"

definition second_text :: "dongle_info \<Rightarrow> string \<times> string" where
  "second_text d = (wifi_module_path d @ ''/'' @ pr_s (wifi_module_filename2 d), pr_s (wifi_module_arg2 d))"

definition text_fits :: "string \<times> string \<Rightarrow> bool" where
  "text_fits t \<longleftrightarrow> length (fst t) < 128 \<and> length (snd t) < 256 \<and> length (fst t) + length (snd t) < 192
     \<and> CHR ''%'' \<notin> set (fst t) \<and> CHR ''%'' \<notin> set (snd t)"

definition dongle_ok :: "wifi_cfg \<Rightarrow> int \<Rightarrow> dongle_info \<Rightarrow> bool" where
  "dongle_ok cfg ty d \<longleftrightarrow> text_fits (module_text cfg ty d)
     \<and> (if wifi_module_name2 d = None then True
        else text_fits (second_text d) \<and> wifi_module_filename2 d \<noteq> None \<and> wifi_module_arg2 d \<noteq> None)"

lemmas arg_defs = fw_arg_def ifname_arg_def no_names_arg_def stacfg_arg_def other_arg_def unknown_arg_def empty_arg_def
  get_module_arg_def module_arg_types pr_s_def dongle_def with_second_def

lemma dongles_ok:
  assumes "cfg_ok cfg"
  shows "list_all (dongle_ok cfg ty) (broadcom_dongles cfg)" "list_all (dongle_ok cfg ty) (cypress_dongles cfg)"
    "list_all (dongle_ok cfg ty) (more_broadcom_dongles cfg)" "list_all (dongle_ok cfg ty) (realtek_dongles cfg)"
    "list_all (dongle_ok cfg ty) (other_dongles cfg)"
  using assms unfolding cfg_ok_def
  by (cases "CYPRESS_WIFI_MODULE cfg"; cases "ty = TYPE_AP"; simp add: broadcom_dongles_def cypress_dongles_def more_broadcom_dongles_def realtek_dongles_def other_dongles_def
      dongle_ok_def text_fits_def module_text_def second_text_def short_path_def arg_defs DEFAULT_KO_PATH_def Let_def)+

end
