(* ===== verification/WifiDriver.thy ===== *)
theory WifiDriver
  imports WifiTable
begin

text \<open>
  \<open>utils/multi_wifi_load_driver.c\<close>, the operations: finding the Wi-Fi chip on the SDIO bus or among the USB
  devices, loading and unloading its modules, the power of the chip. The answers of the system are in an
  environment; what the program does to it is recorded. \<^const>\<open>None\<close>: a text does not fit its buffer.
\<close>

section \<open>The system and the program's state\<close>

datatype finit_answer = Not_opened | Finit_rc int
datatype del_answer = Try_again | Del_rc int
datatype usb_answer = Usb_init nat | Usb_list nat | Usb_devices "int option list"

text \<open>
  \<open>power_dev\<close>, \<open>clock_file\<close>: whether the files can be opened; \<open>dev_type\<close>: the answer of
  \<open>SDIO_GET_DEV_TYPE\<close>; \<open>sdio_file\<close>, \<open>mac_file\<close>: contents of files; \<open>usb\<close>: what each scan finds: a failure, with
  its code below 0 as \<open>-1 - n\<close>, or the product identifiers or \<^const>\<open>None\<close> for a device without a descriptor.
\<close>

record wifi_env =
  power_dev :: bool
  dev_type :: "string option"
  sdio_file :: "string \<Rightarrow> string option"
  mac_file :: "string option"
  clock_file :: bool
  usb :: "nat \<Rightarrow> usb_answer"
  finit :: "string \<Rightarrow> string \<Rightarrow> finit_answer"
  shell :: "string \<Rightarrow> int"
  delete_module :: "string \<Rightarrow> nat \<Rightarrow> del_answer"

datatype wifi_act = Finit_module string string | System string | Delete_module string | Power int | Clock_on | Usleep int

record wifi =
  file_name :: string
  load_dongle_index :: int
  usb_scans :: nat
  acts :: "wifi_act list"

definition wifi_start :: wifi where
  "wifi_start = \<lparr>file_name = [], load_dongle_index = -1, usb_scans = 0, acts = []\<rparr>"

definition do_act :: "wifi_act \<Rightarrow> wifi \<Rightarrow> wifi" where
  "do_act a st = st\<lparr>acts := acts st @ [a]\<rparr>"

section \<open>Modules and power\<close>

definition insmod :: "wifi_env \<Rightarrow> string \<Rightarrow> string \<Rightarrow> wifi \<Rightarrow> (int \<times> wifi) option" where
  "insmod e filename options st =
     (let st1 = do_act (Finit_module filename options) st in
      case finit e filename options of
        Not_opened \<Rightarrow> Some (-1, st)
      | Finit_rc rc \<Rightarrow>
          if rc = 0 then Some (0, st1)
          else (case insmod_command filename options of
              None \<Rightarrow> None
            | Some cmd \<Rightarrow> Some (shell e cmd, do_act (System cmd) st1)))"

text \<open>The loop of \<open>rmmod\<close>: the number of the try, the tries left, the last result.\<close>

fun rmmod_loop :: "wifi_env \<Rightarrow> string \<Rightarrow> nat \<Rightarrow> nat \<Rightarrow> int \<Rightarrow> wifi \<Rightarrow> int \<times> wifi" where
  "rmmod_loop e m n 0 ret st = (ret, st)"
| "rmmod_loop e m n (Suc k) ret st =
     (let st1 = do_act (Delete_module m) st in
      case delete_module e m n of
        Try_again \<Rightarrow> rmmod_loop e m (n + 1) k (-1) (do_act (Usleep 500000) st1)
      | Del_rc r \<Rightarrow> (r, st1))"

definition rmmod :: "wifi_env \<Rightarrow> string \<Rightarrow> wifi \<Rightarrow> int \<times> wifi" where
  "rmmod e m st = rmmod_loop e m 0 10 (-1) st"

definition USB_POWER_UP :: int where "USB_POWER_UP = 1"
definition USB_POWER_DOWN :: int where "USB_POWER_DOWN = 2"
definition SDIO_POWER_UP :: int where "SDIO_POWER_UP = 3"
definition SDIO_POWER_DOWN :: int where "SDIO_POWER_DOWN = 4"

definition set_wifi_power :: "wifi_env \<Rightarrow> int \<Rightarrow> wifi \<Rightarrow> wifi" where
  "set_wifi_power e pw st =
     (if power_dev e \<and> (pw = USB_POWER_UP \<or> pw = USB_POWER_DOWN \<or> pw = SDIO_POWER_UP \<or> pw = SDIO_POWER_DOWN)
      then do_act (Power pw) st else st)"

text \<open>\<open>get_wifi_dev_type\<close>: the result and the buffer, which was cleared.\<close>

definition get_wifi_dev_type :: "wifi_env \<Rightarrow> int \<times> string" where
  "get_wifi_dev_type e = (if power_dev e then (case dev_type e of None \<Rightarrow> (-1, []) | Some t \<Rightarrow> (0, t)) else (-1, []))"

definition set_sdio_clock_always_on :: "wifi_env \<Rightarrow> wifi \<Rightarrow> wifi" where
  "set_sdio_clock_always_on e st = (if clock_file e then do_act Clock_on st else st)"

text \<open>
  \<open>set_rtk_wifi_mac\<close> on the options: \<open>sizeof (module_arg)\<close> is the size of a pointer, and the room computed
  from it wraps; a room that wrapped does not cut the text.
\<close>

definition wifimac_text :: "string \<Rightarrow> string" where
  "wifimac_text s = (let m = cstr (take 31 s) in if m \<noteq> [] \<and> last m = CHR 0x0A then butlast m else m)"

definition set_rtk_wifi_mac :: "wifi_env \<Rightarrow> string \<Rightarrow> (int \<times> string) option" where
  "set_rtk_wifi_mac e arg =
     (case mac_file e of
        None \<Rightarrow> Some (-1, arg)
      | Some s \<Rightarrow>
          if length s < 31 then Some (-1, arg)
          else let m = wifimac_text s in
            if m \<noteq> [] \<and> strstr m ''(null)'' = None then
              let add = '' rtw_initmac='' @ m in
              if length arg \<le> 7 then Some (0, arg @ take (7 - length arg - 1) add)
              else map_option (Pair 0) (text_in 256 (arg @ add))
            else Some (-1, arg))"

section \<open>Finding the chip\<close>

text \<open>The first entry of the table with a property, from the index \<open>j\<close>.\<close>

fun find_index :: "('a \<Rightarrow> bool) \<Rightarrow> nat \<Rightarrow> 'a list \<Rightarrow> (nat \<times> 'a) option" where
  "find_index P j [] = None"
| "find_index P j (x # xs) = (if P x then Some (j, x) else find_index P (j + 1) xs)"

definition find_chip :: "wifi_cfg \<Rightarrow> string \<Rightarrow> (nat \<times> dongle_info) option" where
  "find_chip cfg buf = find_index (\<lambda>d. strstr buf (chip_id d) \<noteq> None) 0 (dongle_registerd cfg)"

definition find_pid :: "wifi_cfg \<Rightarrow> int \<Rightarrow> (nat \<times> dongle_info) option" where
  "find_pid cfg pid = find_index (\<lambda>d. wifi_pid d = pid) 0 (dongle_registerd cfg)"

section \<open>Loading\<close>

definition load_first :: "wifi_env \<Rightarrow> wifi_cfg \<Rightarrow> int \<Rightarrow> dongle_info \<Rightarrow> wifi \<Rightarrow> (int \<times> wifi) option" where
  "load_first e cfg ty d st =
     (case module_path d (wifi_module_filename d) of
        None \<Rightarrow> None
      | Some path \<Rightarrow> (case module_options cfg d ty of
          None \<Rightarrow> None
        | Some opts \<Rightarrow> insmod e path opts st))"

fun print_devs :: "wifi_env \<Rightarrow> wifi_cfg \<Rightarrow> int \<Rightarrow> int option list \<Rightarrow> wifi \<Rightarrow> (int \<times> wifi) option" where
  "print_devs e cfg ty [] st = Some (-1, st)"
| "print_devs e cfg ty (None # devs) st = Some (-1, st)"
| "print_devs e cfg ty (Some pid # devs) st =
     (case find_pid cfg pid of
        None \<Rightarrow> print_devs e cfg ty devs st
      | Some (j, d) \<Rightarrow>
          map_option (\<lambda>(rc, st1). (0, st1)) (load_first e cfg ty d (st\<lparr>load_dongle_index := int j\<rparr>)))"

definition usb_wifi_load_driver :: "wifi_env \<Rightarrow> wifi_cfg \<Rightarrow> int \<Rightarrow> wifi \<Rightarrow> (int \<times> wifi) option" where
  "usb_wifi_load_driver e cfg ty st =
     (let st1 = st\<lparr>usb_scans := usb_scans st + 1\<rparr> in
      case usb e (usb_scans st) of
        Usb_init n \<Rightarrow> Some (-1 - int n, st1)
      | Usb_list n \<Rightarrow> Some (-1 - int n, st1)
      | Usb_devices devs \<Rightarrow>
          (case print_devs e cfg ty devs st1 of
             None \<Rightarrow> None
           | Some (r, st2) \<Rightarrow> Some (if r < 0 then r else 0, st2)))"

text \<open>The second module of an entry that has one.\<close>

definition load_second :: "wifi_env \<Rightarrow> dongle_info \<Rightarrow> wifi \<Rightarrow> (int \<times> wifi) option" where
  "load_second e d st =
     (case wifi_module_name2 d of
        None \<Rightarrow> Some (0, st)
      | Some m \<Rightarrow>
          (case wifi_module_arg2 d of
             None \<Rightarrow> None
           | Some a \<Rightarrow>
               if length a < 256 then
                 (case module_path d (pr_s (wifi_module_filename2 d)) of
                    None \<Rightarrow> None
                  | Some path \<Rightarrow> map_option (\<lambda>(rc, st1). (0, st1)) (insmod e path a st))
               else Some (-1, st)))"

definition sdio_options :: "wifi_env \<Rightarrow> wifi_cfg \<Rightarrow> int \<Rightarrow> dongle_info \<Rightarrow> string option" where
  "sdio_options e cfg ty d =
     (case module_options cfg d ty of
        None \<Rightarrow> None
      | Some opts \<Rightarrow> if RTK_WIFI_MODULE cfg then map_option snd (set_rtk_wifi_mac e opts) else Some opts)"

definition sdio_prepare :: "wifi_env \<Rightarrow> dongle_info \<Rightarrow> wifi \<Rightarrow> wifi" where
  "sdio_prepare e d st =
     (if strstr (wifi_name d) ''sv6158'' \<noteq> None
      then set_sdio_clock_always_on e (snd (rmmod e (wifi_module_name d) st)) else st)"

definition sdio_wifi_load_driver :: "wifi_env \<Rightarrow> wifi_cfg \<Rightarrow> int \<Rightarrow> wifi \<Rightarrow> (int \<times> wifi) option" where
  "sdio_wifi_load_driver e cfg ty st =
     (case sdio_file e (file_name st) of
        None \<Rightarrow> Some (-1, st)
      | Some s \<Rightarrow>
          if s = [] then Some (-1, st)
          else (case find_chip cfg (cstr (take 127 s)) of
              None \<Rightarrow> Some (-1, st)
            | Some (i, d) \<Rightarrow>
                let st1 = st\<lparr>load_dongle_index := int i\<rparr> in
                (case module_path d (wifi_module_filename d) of
                   None \<Rightarrow> None
                 | Some path \<Rightarrow> (case sdio_options e cfg ty d of
                     None \<Rightarrow> None
                   | Some opts \<Rightarrow> (case insmod e path opts (sdio_prepare e d st1) of
                       None \<Rightarrow> None
                     | Some (rc, st2) \<Rightarrow> load_second e d st2)))))"

definition sdio_path :: "string \<Rightarrow> nat \<Rightarrow> string" where
  "sdio_path t i = ''/sys/bus/mmc/devices/'' @ t @ '':000'' @ pr_nat 10 i @ ''/'' @ t @ '':000'' @ pr_nat 10 i @ '':1/device''"

text \<open>The wait for a USB device: \<open>w\<close> is \<open>wait_time\<close>.\<close>

function wait_usb :: "wifi_env \<Rightarrow> wifi_cfg \<Rightarrow> int \<Rightarrow> nat \<Rightarrow> wifi \<Rightarrow> (int \<times> wifi) option" where
  "wait_usb e cfg ty w st =
     (case usb_wifi_load_driver e cfg ty st of
        None \<Rightarrow> None
      | Some (ret, st1) \<Rightarrow>
          if ret = 0 then Some (0, st1)
          else if ret > 0 then Some (-1, st1)
          else let st2 = do_act (Usleep 50000) st1 in
            if w + 1 < 300 then wait_usb e cfg ty (w + 1) st2 else Some (-1, st2))"
  by pat_completeness auto
termination by (relation "measure (\<lambda>(e, cfg, ty, w, st). 300 - w)") auto

declare wait_usb.simps [simp del]

definition multi_wifi_load_driver :: "wifi_env \<Rightarrow> wifi_cfg \<Rightarrow> int \<Rightarrow> wifi \<Rightarrow> (int \<times> wifi) option" where
  "multi_wifi_load_driver e cfg ty st =
     (let t = snd (get_wifi_dev_type e) in
      if length t < 10 then
        (case sdio_wifi_load_driver e cfg ty (st\<lparr>file_name := sdio_path t 0\<rparr>) of
           None \<Rightarrow> None
         | Some (r0, st0) \<Rightarrow>
             if r0 = 0 then Some (0, st0)
             else (case sdio_wifi_load_driver e cfg ty ((do_act (Usleep 10000) st0)\<lparr>file_name := sdio_path t 1\<rparr>) of
                 None \<Rightarrow> None
               | Some (r1, st1) \<Rightarrow>
                   if r1 = 0 then Some (0, st1) else wait_usb e cfg ty 0 (do_act (Usleep 10000) st1)))
      else None)"

definition wifi_on :: "wifi_env \<Rightarrow> wifi_cfg \<Rightarrow> int \<Rightarrow> wifi \<Rightarrow> (int \<times> wifi) option" where
  "wifi_on e cfg ty st =
     (case multi_wifi_load_driver e cfg ty (set_wifi_power e SDIO_POWER_UP st) of
        None \<Rightarrow> None
      | Some (r, st1) \<Rightarrow> if r < 0 then Some (-1, set_wifi_power e SDIO_POWER_DOWN st1) else Some (0, st1))"

section \<open>Unloading\<close>

text \<open>The device file \<open>wifi_off\<close> opens: the first that is there.\<close>

definition off_file :: "wifi_env \<Rightarrow> string \<Rightarrow> (string \<times> string) option" where
  "off_file e t =
     (case sdio_file e (sdio_path t 0) of
        Some s \<Rightarrow> Some (sdio_path t 0, s)
      | None \<Rightarrow> map_option (Pair (sdio_path t 1)) (sdio_file e (sdio_path t 1)))"

text \<open>The loop over the table of \<open>wifi_off\<close> has no end at a match: the last one counts.\<close>

fun last_index :: "('a \<Rightarrow> bool) \<Rightarrow> nat \<Rightarrow> 'a list \<Rightarrow> int \<Rightarrow> int" where
  "last_index P j [] r = r"
| "last_index P j (x # xs) r = last_index P (j + 1) xs (if P x then int j else r)"

fun off_devs :: "wifi_cfg \<Rightarrow> int option list \<Rightarrow> int \<Rightarrow> int option" where
  "off_devs cfg [] r = Some r"
| "off_devs cfg (None # devs) r = None"
| "off_devs cfg (Some pid # devs) r = off_devs cfg devs (last_index (\<lambda>d. wifi_pid d = pid) 0 (dongle_registerd cfg) r)"

text \<open>The index \<open>wifi_off\<close> finds, or the result it returns before it has one.\<close>

definition off_index :: "wifi_env \<Rightarrow> wifi_cfg \<Rightarrow> string \<Rightarrow> wifi \<Rightarrow> int + int" where
  "off_index e cfg t st =
     (case off_file e t of
        Some (f, s) \<Rightarrow>
          if s = [] then Inl (-1)
          else (case find_chip cfg (cstr (take 127 s)) of None \<Rightarrow> Inr (load_dongle_index st) | Some (i, d) \<Rightarrow> Inr (int i))
      | None \<Rightarrow> (case usb e (usb_scans st) of
          Usb_init n \<Rightarrow> Inl (-1 - int n)
        | Usb_list n \<Rightarrow> Inl (-1)
        | Usb_devices devs \<Rightarrow> (case off_devs cfg devs (load_dongle_index st) of None \<Rightarrow> Inl (-1) | Some i \<Rightarrow> Inr i)))"

definition unload :: "wifi_env \<Rightarrow> dongle_info \<Rightarrow> wifi \<Rightarrow> wifi" where
  "unload e d st =
     (case wifi_module_name2 d of
        Some m \<Rightarrow> set_wifi_power e SDIO_POWER_DOWN (snd (rmmod e m st))
      | None \<Rightarrow> set_wifi_power e SDIO_POWER_DOWN (do_act (Usleep 500000) (snd (rmmod e (wifi_module_name d) st))))"

definition wifi_off :: "wifi_env \<Rightarrow> wifi_cfg \<Rightarrow> wifi \<Rightarrow> (int \<times> wifi) option" where
  "wifi_off e cfg st =
     (let t = snd (get_wifi_dev_type e) in
      if length t < 10 then
        (let st1 = st\<lparr>file_name := (case off_file e t of Some (f, s) \<Rightarrow> f | None \<Rightarrow> sdio_path t 1)\<rparr> in
         case off_index e cfg t st1 of
           Inl r \<Rightarrow> Some (r, st1)
         | Inr i \<Rightarrow>
             if i = -1 then Some (-1, st1\<lparr>load_dongle_index := i\<rparr>)
             else Some (0, unload e (dongle_registerd cfg ! nat i) (do_act (Usleep 200000) (st1\<lparr>load_dongle_index := i\<rparr>))))
      else None)"

text \<open>\<open>main\<close> after the console is opened: the exit code.\<close>

definition wifi_main :: "wifi_env \<Rightarrow> wifi_cfg \<Rightarrow> string list \<Rightarrow> (int \<times> wifi) option" where
  "wifi_main e cfg argv =
     (case argv of
        [prog, mode, val] \<Rightarrow>
          (let ty = (if take 2 mode = ''ap'' then TYPE_AP else if take 3 mode = ''sta'' then TYPE_STATION else TYPE_AP) in
           map_option (\<lambda>(r, st). (0, st))
             (case scan_dec val of
                Some (i, rest) \<Rightarrow> if i = 1 then wifi_on e cfg ty wifi_start else wifi_off e cfg wifi_start
              | None \<Rightarrow> wifi_off e cfg wifi_start))
      | _ \<Rightarrow> Some (-1, wifi_start))"

end
