(* ===== verification/WifiProps.thy ===== *)
theory WifiProps
  imports WifiDriver
begin

text \<open>
  What \<open>wifi_on\<close> and \<open>wifi_off\<close> do to the system: the sequence of actions as a function of the chips that are
  found, the modules that are loaded afterwards, and that no text overflows its buffer.
\<close>

section \<open>Steps\<close>

definition do_acts :: "wifi_act list \<Rightarrow> wifi \<Rightarrow> wifi" where
  "do_acts xs st = st\<lparr>acts := acts st @ xs\<rparr>"

lemma do_acts_simps [simp]:
  "do_acts ys (do_acts xs st) = do_acts (xs @ ys) st" "acts (do_acts xs st) = acts st @ xs" "do_acts [] st = st"
  "usb_scans (do_acts xs st) = usb_scans st" "file_name (do_acts xs st) = file_name st"
  "load_dongle_index (do_acts xs st) = load_dongle_index st"
  by (simp_all add: do_acts_def)

lemma do_act_acts: "do_act a st = do_acts [a] st"
  by (simp add: do_act_def do_acts_def)

fun rmmod_acts :: "wifi_env \<Rightarrow> string \<Rightarrow> nat \<Rightarrow> nat \<Rightarrow> wifi_act list" where
  "rmmod_acts e m n 0 = []"
| "rmmod_acts e m n (Suc k) = Delete_module m #
     (case delete_module e m n of Try_again \<Rightarrow> Usleep 500000 # rmmod_acts e m (n + 1) k | Del_rc r \<Rightarrow> [])"

lemma rmmod_acts: "snd (rmmod e m st) = do_acts (rmmod_acts e m 0 10) st"
proof -
  have "snd (rmmod_loop e m n k ret st) = do_acts (rmmod_acts e m n k) st" for n k ret
    by (induction e m n k ret st rule: rmmod_loop.induct) (simp_all add: do_act_acts Let_def split: del_answer.split)
  then show ?thesis by (simp add: rmmod_def)
qed

lemma find_index_Some:
  "find_index P j xs = Some (k, x) \<Longrightarrow> x \<in> set xs \<and> P x \<and> j \<le> k \<and> k < j + length xs \<and> xs ! (k - j) = x"
proof (induction xs arbitrary: j)
  case (Cons y xs)
  show ?case
  proof (cases "P y")
    case False
    then have "find_index P (j + 1) xs = Some (k, x)" using Cons.prems by simp
    note IH = Cons.IH[OF this]
    then have "k - j = Suc (k - (j + 1))" by linarith
    then show ?thesis using IH by simp
  qed (use Cons.prems in auto)
qed simp

lemma find_index_map: "find_index (\<lambda>x. P (f x)) j xs = None \<longleftrightarrow> find P (map f xs) = None"
  "find_index (\<lambda>x. P (f x)) j xs = Some (k, x) \<Longrightarrow> find P (map f xs) = Some (f x)"
  by (induction xs arbitrary: j) (auto split: if_splits)

section \<open>Every text fits\<close>

lemma dongle_okI:
  assumes "cfg_ok cfg" "d \<in> set (dongle_registerd cfg)"
  shows "dongle_ok cfg ty d"
  using dongles_ok[OF assms(1), of ty] assms(2) by (auto simp: dongle_registerd_def list_all_iff)

lemma find_chip_ok: "cfg_ok cfg \<Longrightarrow> find_chip cfg buf = Some (i, d) \<Longrightarrow> dongle_ok cfg ty d"
  unfolding find_chip_def by (erule dongle_okI, erule find_index_Some[THEN conjunct1])

lemma find_pid_ok: "cfg_ok cfg \<Longrightarrow> find_pid cfg pid = Some (i, d) \<Longrightarrow> dongle_ok cfg ty d"
  unfolding find_pid_def by (erule dongle_okI, erule find_index_Some[THEN conjunct1])

lemma insmod_total:
  assumes "text_fits (p, opts)"
  shows "\<exists>rc st'. insmod e p opts st = Some (rc, st')"
proof -
  have "length (''insmod '' @ p @ '' '' @ opts) < 200" using assms by (simp add: text_fits_def)
  then show ?thesis using assms
    by (simp add: insmod_def Let_def insmod_command_def text_in_def text_fits_def split: finit_answer.split)
qed

text \<open>What loading a module does: nothing when its file cannot be opened, and the shell's \<open>insmod\<close> when the kernel
  refuses it.\<close>

definition load_acts :: "wifi_env \<Rightarrow> string \<times> string \<Rightarrow> wifi_act list" where
  "load_acts e m =
     (case finit e (fst m) (snd m) of
        Not_opened \<Rightarrow> []
      | Finit_rc rc \<Rightarrow> Finit_module (fst m) (snd m) # (if rc = 0 then [] else [System (''insmod '' @ fst m @ '' '' @ snd m)]))"

lemma insmod_acts:
  assumes "text_fits m"
  shows "\<exists>rc. insmod e (fst m) (snd m) st = Some (rc, do_acts (load_acts e m) st)"
proof -
  have "length (''insmod '' @ fst m @ '' '' @ snd m) < 200" using assms by (simp add: text_fits_def)
  then show ?thesis using assms
    by (simp add: insmod_def Let_def insmod_command_def text_in_def text_fits_def load_acts_def do_act_acts split: finit_answer.split)
qed

definition kernel_ok :: "wifi_env \<Rightarrow> bool" where
  "kernel_ok e \<longleftrightarrow> (\<forall>p opts. finit e p opts = Finit_rc 0)"

lemma load_acts_ok: "kernel_ok e \<Longrightarrow> load_acts e m = [Finit_module (fst m) (snd m)]"
  by (simp add: kernel_ok_def load_acts_def)

definition first_acts :: "wifi_env \<Rightarrow> wifi_cfg \<Rightarrow> int \<Rightarrow> dongle_info \<Rightarrow> wifi_act list" where
  "first_acts e cfg ty d = load_acts e (module_text cfg ty d)"

definition second_acts :: "wifi_env \<Rightarrow> dongle_info \<Rightarrow> wifi_act list" where
  "second_acts e d = (if wifi_module_name2 d = None then [] else load_acts e (second_text d))"

lemma module_text_in:
  assumes "dongle_ok cfg ty d"
  shows "module_path d (wifi_module_filename d) = Some (fst (module_text cfg ty d))" "module_options cfg d ty = Some (snd (module_text cfg ty d))"
    "text_fits (fst (module_text cfg ty d), snd (module_text cfg ty d))"
  using assms by (simp_all add: dongle_ok_def text_fits_def module_path_def module_options_def text_in_def module_text_def)

lemma load_second_def2:
  assumes "dongle_ok cfg ty d" "wifi_module_name2 d = Some m"
  shows "load_second e d st = map_option (\<lambda>(rc, st1). (0, st1)) (insmod e (fst (second_text d)) (snd (second_text d)) st)"
    "text_fits (fst (second_text d), snd (second_text d))"
  using assms by (auto simp: dongle_ok_def load_second_def module_path_def text_in_def second_text_def text_fits_def pr_s_def split: option.splits)

lemma load_second_total:
  assumes "dongle_ok cfg ty d"
  shows "\<exists>st'. load_second e d st = Some (0, st')"
proof (cases "wifi_module_name2 d")
  case None
  then show ?thesis by (simp add: load_second_def)
next
  case (Some m)
  note l = load_second_def2[OF assms Some]
  obtain rc st' where "insmod e (fst (second_text d)) (snd (second_text d)) st = Some (rc, st')" using insmod_total[OF l(2)] by blast
  then show ?thesis using l(1) by simp
qed

lemma load_second_acts:
  assumes "dongle_ok cfg ty d"
  shows "load_second e d st = Some (0, do_acts (second_acts e d) st)"
proof (cases "wifi_module_name2 d")
  case None
  then show ?thesis by (simp add: second_acts_def load_second_def)
next
  case (Some m)
  note l = load_second_def2[OF assms Some]
  obtain rc where "insmod e (fst (second_text d)) (snd (second_text d)) st = Some (rc, do_acts (load_acts e (second_text d)) st)"
    using insmod_acts[of "second_text d"] l(2) by fastforce
  then show ?thesis using l(1) Some by (simp add: second_acts_def)
qed

section \<open>SDIO\<close>

definition sdio_chip :: "wifi_env \<Rightarrow> wifi_cfg \<Rightarrow> string \<Rightarrow> nat \<Rightarrow> (nat \<times> dongle_info) option" where
  "sdio_chip e cfg t i =
     (case sdio_file e (sdio_path t i) of
        None \<Rightarrow> None
      | Some s \<Rightarrow> if s = [] then None else find_chip cfg (cstr (take 127 s)))"

definition prepare_acts :: "wifi_env \<Rightarrow> dongle_info \<Rightarrow> wifi_act list" where
  "prepare_acts e d =
     (if strstr (wifi_name d) ''sv6158'' \<noteq> None
      then rmmod_acts e (wifi_module_name d) 0 10 @ (if clock_file e then [Clock_on] else []) else [])"

definition sdio_acts :: "wifi_env \<Rightarrow> wifi_cfg \<Rightarrow> int \<Rightarrow> dongle_info \<Rightarrow> wifi_act list" where
  "sdio_acts e cfg ty d = prepare_acts e d @ first_acts e cfg ty d @ second_acts e d"

lemma sdio_prepare_acts: "sdio_prepare e d st = do_acts (prepare_acts e d) st"
  by (simp add: sdio_prepare_def prepare_acts_def set_sdio_clock_always_on_def rmmod_acts do_act_acts)

lemma sdio_none:
  assumes "sdio_chip e cfg t i = None" "file_name st = sdio_path t i"
  shows "sdio_wifi_load_driver e cfg ty st = Some (-1, st)"
  using assms by (auto simp: sdio_chip_def sdio_wifi_load_driver_def split: option.splits if_splits)

lemma sdio_some:
  assumes "sdio_chip e cfg t i = Some (j, d)" "file_name st = sdio_path t i" "cfg_ok cfg" "\<not> RTK_WIFI_MODULE cfg"
  shows "sdio_wifi_load_driver e cfg ty st =
      (case insmod e (fst (module_text cfg ty d)) (snd (module_text cfg ty d)) (do_acts (prepare_acts e d) (st\<lparr>load_dongle_index := int j\<rparr>)) of
         None \<Rightarrow> None | Some (rc, st2) \<Rightarrow> load_second e d st2)"
    "dongle_ok cfg ty d"
proof -
  obtain s where s: "sdio_file e (sdio_path t i) = Some s" "s \<noteq> []" "find_chip cfg (cstr (take 127 s)) = Some (j, d)"
    using assms(1) by (auto simp: sdio_chip_def split: option.splits if_splits)
  show ok: "dongle_ok cfg ty d" by (rule find_chip_ok[OF assms(3) s(3)])
  show "sdio_wifi_load_driver e cfg ty st =
      (case insmod e (fst (module_text cfg ty d)) (snd (module_text cfg ty d)) (do_acts (prepare_acts e d) (st\<lparr>load_dongle_index := int j\<rparr>)) of
         None \<Rightarrow> None | Some (rc, st2) \<Rightarrow> load_second e d st2)"
    using s assms(2,4) module_text_in(1,2)[OF ok]
    by (simp add: sdio_wifi_load_driver_def sdio_options_def sdio_prepare_acts Let_def)
qed

lemma sdio_acts:
  assumes "sdio_chip e cfg t i = Some (j, d)" "file_name st = sdio_path t i" "cfg_ok cfg" "\<not> RTK_WIFI_MODULE cfg"
  shows "sdio_wifi_load_driver e cfg ty st = Some (0, do_acts (sdio_acts e cfg ty d) (st\<lparr>load_dongle_index := int j\<rparr>))"
proof -
  note d = sdio_some[OF assms]
  have ok: "text_fits (module_text cfg ty d)" using module_text_in(3)[OF d(2)[of ty]] by simp
  obtain rc where "insmod e (fst (module_text cfg ty d)) (snd (module_text cfg ty d)) (do_acts (prepare_acts e d) (st\<lparr>load_dongle_index := int j\<rparr>))
      = Some (rc, do_acts (load_acts e (module_text cfg ty d)) (do_acts (prepare_acts e d) (st\<lparr>load_dongle_index := int j\<rparr>)))"
    using insmod_acts[OF ok] by blast
  then show ?thesis using d(1)[of ty] load_second_acts[OF d(2)[of ty]] by (simp add: sdio_acts_def first_acts_def)
qed

lemma sdio_total:
  assumes "sdio_chip e cfg t i = Some (j, d)" "file_name st = sdio_path t i" "cfg_ok cfg" "\<not> RTK_WIFI_MODULE cfg"
  shows "\<exists>st'. sdio_wifi_load_driver e cfg ty st = Some (0, st')"
proof -
  note d = sdio_some[OF assms]
  obtain rc st2 where "insmod e (fst (module_text cfg ty d)) (snd (module_text cfg ty d)) (do_acts (prepare_acts e d) (st\<lparr>load_dongle_index := int j\<rparr>)) = Some (rc, st2)"
    using insmod_total[OF module_text_in(3)[OF d(2)]] by blast
  then show ?thesis using d(1) load_second_total[OF d(2)] by simp
qed

section \<open>USB\<close>

text \<open>The entry of the first known device of a scan; a device without a descriptor ends it.\<close>

fun first_known :: "wifi_cfg \<Rightarrow> int option list \<Rightarrow> dongle_info option" where
  "first_known cfg [] = None"
| "first_known cfg (None # devs) = None"
| "first_known cfg (Some pid # devs) = (case find_pid cfg pid of None \<Rightarrow> first_known cfg devs | Some (j, d) \<Rightarrow> Some d)"

definition usb_chip :: "wifi_env \<Rightarrow> wifi_cfg \<Rightarrow> nat \<Rightarrow> dongle_info option" where
  "usb_chip e cfg n = (case usb e n of Usb_devices devs \<Rightarrow> first_known cfg devs | _ \<Rightarrow> None)"

lemma print_devs_none: "first_known cfg devs = None \<Longrightarrow> print_devs e cfg ty devs st = Some (-1, st)"
  by (induction cfg devs rule: first_known.induct) (auto split: option.splits)

lemma print_devs_some:
  "first_known cfg devs = Some d \<Longrightarrow> cfg_ok cfg \<Longrightarrow>
    (\<exists>j. print_devs e cfg ty devs st = map_option (\<lambda>(rc, st1). (0, st1)) (load_first e cfg ty d (st\<lparr>load_dongle_index := j\<rparr>)))
    \<and> dongle_ok cfg ty d"
proof (induction cfg devs rule: first_known.induct)
  case (3 cfg pid devs)
  show ?case
  proof (cases "find_pid cfg pid")
    case None
    then show ?thesis using 3 by simp
  next
    case (Some jd)
    obtain j d' where jd: "jd = (j, d')" by fastforce
    then have "d' = d" using 3 Some by simp
    then show ?thesis using Some jd find_pid_ok[OF "3.prems"(2)] by auto
  qed
qed simp_all

lemma load_first_total: "dongle_ok cfg ty d \<Longrightarrow> \<exists>rc st'. load_first e cfg ty d st = Some (rc, st')"
  using module_text_in[of cfg ty d] insmod_total[of "fst (module_text cfg ty d)" "snd (module_text cfg ty d)" e st]
  by (simp add: load_first_def)

lemma load_first_acts: "dongle_ok cfg ty d \<Longrightarrow> \<exists>rc. load_first e cfg ty d st = Some (rc, do_acts (first_acts e cfg ty d) st)"
  using module_text_in[of cfg ty d] insmod_acts[of "module_text cfg ty d" e st]
  by (simp add: load_first_def first_acts_def)

lemma usb_none: "usb_chip e cfg (usb_scans st) = None \<Longrightarrow>
    \<exists>r < 0. usb_wifi_load_driver e cfg ty st = Some (r, st\<lparr>usb_scans := usb_scans st + 1\<rparr>)"
  by (cases "usb e (usb_scans st)") (simp_all add: usb_chip_def usb_wifi_load_driver_def print_devs_none Let_def)

lemma usb_total:
  assumes "usb_chip e cfg (usb_scans st) = Some d" "cfg_ok cfg"
  shows "\<exists>st'. usb_wifi_load_driver e cfg ty st = Some (0, st')"
proof -
  obtain devs where devs: "usb e (usb_scans st) = Usb_devices devs" "first_known cfg devs = Some d"
    using assms(1) by (auto simp: usb_chip_def split: usb_answer.splits)
  obtain j where j: "print_devs e cfg ty devs (st\<lparr>usb_scans := usb_scans st + 1\<rparr>)
      = map_option (\<lambda>(rc, st1). (0, st1)) (load_first e cfg ty d (st\<lparr>usb_scans := usb_scans st + 1, load_dongle_index := j\<rparr>))"
    and ok: "dongle_ok cfg ty d" using print_devs_some[OF devs(2) assms(2)] by fastforce
  obtain rc st1 where "load_first e cfg ty d (st\<lparr>usb_scans := usb_scans st + 1, load_dongle_index := j\<rparr>) = Some (rc, st1)"
    using load_first_total[OF ok] by blast
  then show ?thesis using devs(1) j by (simp add: usb_wifi_load_driver_def Let_def)
qed

lemma usb_acts:
  assumes "usb_chip e cfg (usb_scans st) = Some d" "cfg_ok cfg"
  shows "\<exists>st'. usb_wifi_load_driver e cfg ty st = Some (0, st') \<and> acts st' = acts st @ first_acts e cfg ty d"
proof -
  obtain devs where devs: "usb e (usb_scans st) = Usb_devices devs" "first_known cfg devs = Some d"
    using assms(1) by (auto simp: usb_chip_def split: usb_answer.splits)
  obtain j where j: "print_devs e cfg ty devs (st\<lparr>usb_scans := usb_scans st + 1\<rparr>)
      = map_option (\<lambda>(rc, st1). (0, st1)) (load_first e cfg ty d (st\<lparr>usb_scans := usb_scans st + 1, load_dongle_index := j\<rparr>))"
    and ok: "dongle_ok cfg ty d" using print_devs_some[OF devs(2) assms(2)] by fastforce
  obtain rc where "load_first e cfg ty d (st\<lparr>usb_scans := usb_scans st + 1, load_dongle_index := j\<rparr>)
      = Some (rc, do_acts (first_acts e cfg ty d) (st\<lparr>usb_scans := usb_scans st + 1, load_dongle_index := j\<rparr>))"
    using load_first_acts[OF ok] by blast
  then show ?thesis using devs(1) j by (simp add: usb_wifi_load_driver_def Let_def)
qed

text \<open>The wait, from the scan \<open>w\<close>: which scan finds a chip, what is done until then.\<close>

definition wait_spec :: "wifi_env \<Rightarrow> wifi_cfg \<Rightarrow> int \<Rightarrow> nat \<Rightarrow> int \<times> wifi_act list" where
  "wait_spec e cfg ty w =
     (case find (\<lambda>n. usb_chip e cfg n \<noteq> None) [w..<300] of
        Some n \<Rightarrow> (0, replicate (n - w) (Usleep 50000) @ first_acts e cfg ty (the (usb_chip e cfg n)))
      | None \<Rightarrow> (-1, replicate (300 - w) (Usleep 50000)))"

lemma find_upt: "find P [i..<n] = Some k \<Longrightarrow> i \<le> k \<and> k < n"
  by (auto simp: find_Some_iff)

lemma wait_spec_step:
  assumes "w < 300" "usb_chip e cfg w = None"
  shows "wait_spec e cfg ty w = (fst (wait_spec e cfg ty (w + 1)), Usleep 50000 # snd (wait_spec e cfg ty (w + 1)))"
proof -
  have up: "[w..<300] = w # [w + 1..<300]" using assms(1) by (simp add: upt_conv_Cons)
  show ?thesis
  proof (cases "find (\<lambda>n. usb_chip e cfg n \<noteq> None) [w + 1..<300]")
    case None
    have "300 - w = Suc (300 - (w + 1))" using assms(1) by simp
    then show ?thesis using None assms(2) by (simp add: wait_spec_def up)
  next
    case (Some n)
    then have "w + 1 \<le> n" using find_upt by fast
    then have "n - w = Suc (n - (w + 1))" by simp
    then show ?thesis using Some assms(2) by (simp add: wait_spec_def up)
  qed
qed

lemma wait_spec_end: "wait_spec e cfg ty 300 = (-1, [])"
  by (simp add: wait_spec_def)

lemma wait_usb_spec:
  assumes "w < 300" "usb_scans st = w" "cfg_ok cfg"
  shows "\<exists>st'. wait_usb e cfg ty w st = Some (fst (wait_spec e cfg ty w), st') \<and> acts st' = acts st @ snd (wait_spec e cfg ty w)"
  using assms
proof (induction "300 - w" arbitrary: w st)
  case (Suc k)
  show ?case
  proof (cases "usb_chip e cfg w")
    case None
    then obtain r where r: "r < 0" "usb_wifi_load_driver e cfg ty st = Some (r, st\<lparr>usb_scans := usb_scans st + 1\<rparr>)"
      using usb_none[of e cfg st ty] Suc.prems(2) by auto
    define st2 where "st2 = do_acts [Usleep 50000] (st\<lparr>usb_scans := usb_scans st + 1\<rparr>)"
    have st2: "usb_scans st2 = w + 1" "acts st2 = acts st @ [Usleep 50000]" using Suc.prems(2) by (simp_all add: st2_def do_acts_def)
    have step: "wait_usb e cfg ty w st = (if w + 1 < 300 then wait_usb e cfg ty (w + 1) st2 else Some (-1, st2))"
      using r by (simp add: wait_usb.simps[of e cfg ty w st] do_act_acts st2_def Let_def)
    show ?thesis
    proof (cases "w + 1 < 300")
      case True
      have "k = 300 - (w + 1)" using Suc.hyps(2) by simp
      then obtain st' where "wait_usb e cfg ty (w + 1) st2 = Some (fst (wait_spec e cfg ty (w + 1)), st')"
          "acts st' = acts st2 @ snd (wait_spec e cfg ty (w + 1))"
        using Suc.hyps(1)[OF _ True st2(1) Suc.prems(3)] by blast
      then show ?thesis using step True wait_spec_step[OF Suc.prems(1) None] st2(2) by simp
    next
      case False
      then have "w + 1 = 300" using Suc.prems(1) by simp
      then show ?thesis using step wait_spec_step[OF Suc.prems(1) None, of ty] wait_spec_end[of e cfg ty] st2(2) by simp
    qed
  next
    case (Some d)
    obtain st' where st': "usb_wifi_load_driver e cfg ty st = Some (0, st')" "acts st' = acts st @ first_acts e cfg ty d"
      using usb_acts[of e cfg st d ty] Some Suc.prems by auto
    have "wait_spec e cfg ty w = (0, first_acts e cfg ty d)"
      using Some Suc.prems(1) by (simp add: wait_spec_def upt_conv_Cons)
    then show ?thesis using st' by (simp add: wait_usb.simps[of e cfg ty w st])
  qed
qed simp

lemma wait_usb_total: "cfg_ok cfg \<Longrightarrow> \<exists>r st'. wait_usb e cfg ty w st = Some (r, st')"
proof (induction e cfg ty w st rule: wait_usb.induct)
  case (1 e cfg ty w st)
  show ?case
  proof (cases "usb_chip e cfg (usb_scans st)")
    case None
    then obtain r where "r < 0" "usb_wifi_load_driver e cfg ty st = Some (r, st\<lparr>usb_scans := usb_scans st + 1\<rparr>)"
      using usb_none[of e cfg st ty] by auto
    then show ?thesis using 1 by (simp add: wait_usb.simps[of e cfg ty w st] Let_def)
  next
    case (Some d)
    then show ?thesis using usb_total[OF Some "1.prems", of ty] by (auto simp: wait_usb.simps[of e cfg ty w st])
  qed
qed

section \<open>Turning on and off\<close>

text \<open>What \<open>wifi_on\<close> returns and does: the first SDIO function with a known chip, else the first scan of the USB devices
  with a known device within 300 scans.\<close>

definition power_acts :: "wifi_env \<Rightarrow> int \<Rightarrow> wifi_act list" where
  "power_acts e p = (if power_dev e then [Power p] else [])"

definition on_spec :: "wifi_env \<Rightarrow> wifi_cfg \<Rightarrow> int \<Rightarrow> string \<Rightarrow> int \<times> wifi_act list" where
  "on_spec e cfg ty t =
     (case sdio_chip e cfg t 0 of
        Some (i, d) \<Rightarrow> (0, power_acts e SDIO_POWER_UP @ sdio_acts e cfg ty d)
      | None \<Rightarrow> (case sdio_chip e cfg t 1 of
          Some (i, d) \<Rightarrow> (0, power_acts e SDIO_POWER_UP @ [Usleep 10000] @ sdio_acts e cfg ty d)
        | None \<Rightarrow>
            let (r, xs) = wait_spec e cfg ty 0 in
            (r, power_acts e SDIO_POWER_UP @ [Usleep 10000, Usleep 10000] @ xs @ (if r < 0 then power_acts e SDIO_POWER_DOWN else []))))"

definition wifi_dev :: "wifi_env \<Rightarrow> string \<Rightarrow> bool" where
  "wifi_dev e t \<longleftrightarrow> power_dev e \<and> dev_type e = Some t \<and> length t < 10"

lemma powers: "SDIO_POWER_UP = 3" "SDIO_POWER_DOWN = 4"
  by (simp_all add: SDIO_POWER_UP_def SDIO_POWER_DOWN_def)

lemma set_wifi_power_acts:
  "set_wifi_power e SDIO_POWER_UP st = do_acts (power_acts e SDIO_POWER_UP) st"
  "set_wifi_power e SDIO_POWER_DOWN st = do_acts (power_acts e SDIO_POWER_DOWN) st"
  by (simp_all add: power_acts_def set_wifi_power_def do_act_acts)

lemma power_acts_dev: "wifi_dev e t \<Longrightarrow> power_acts e p = [Power p]"
  by (simp add: wifi_dev_def power_acts_def)

lemma get_wifi_dev_type: "wifi_dev e t \<Longrightarrow> get_wifi_dev_type e = (0, t) \<and> length t < 10"
  by (simp add: wifi_dev_def get_wifi_dev_type_def)

lemma wait_spec_result: "fst (wait_spec e cfg ty w) = 0 \<or> fst (wait_spec e cfg ty w) = -1"
  by (simp add: wait_spec_def split: option.split)

lemma wifi_on_spec:
  assumes "t = snd (get_wifi_dev_type e)" "length t < 10" "cfg_ok cfg" "\<not> RTK_WIFI_MODULE cfg"
  shows "\<exists>st. wifi_on e cfg ty wifi_start = Some (fst (on_spec e cfg ty t), st) \<and> acts st = snd (on_spec e cfg ty t)"
proof -
  define st0 where "st0 = (do_acts (power_acts e SDIO_POWER_UP) wifi_start)\<lparr>file_name := sdio_path t 0\<rparr>"
  define st1 where "st1 = (do_acts [Usleep 10000] st0)\<lparr>file_name := sdio_path t 1\<rparr>"
  define st2 where "st2 = do_acts [Usleep 10000] st1"
  have f: "file_name st0 = sdio_path t 0" "file_name st1 = sdio_path t 1" by (simp_all add: st0_def st1_def)
  have a: "acts st0 = power_acts e SDIO_POWER_UP" "acts st1 = power_acts e SDIO_POWER_UP @ [Usleep 10000]"
      "acts st2 = power_acts e SDIO_POWER_UP @ [Usleep 10000, Usleep 10000]" "usb_scans st2 = 0"
    by (simp_all add: st0_def st1_def st2_def wifi_start_def do_acts_def)
  have on: "multi_wifi_load_driver e cfg ty (set_wifi_power e SDIO_POWER_UP wifi_start) =
      (case sdio_wifi_load_driver e cfg ty st0 of None \<Rightarrow> None
       | Some (r0, s0) \<Rightarrow> if r0 = 0 then Some (0, s0) else
           (case sdio_wifi_load_driver e cfg ty ((do_act (Usleep 10000) s0)\<lparr>file_name := sdio_path t 1\<rparr>) of None \<Rightarrow> None
            | Some (r1, s1) \<Rightarrow> if r1 = 0 then Some (0, s1) else wait_usb e cfg ty 0 (do_act (Usleep 10000) s1)))"
    using assms(2) by (simp add: multi_wifi_load_driver_def set_wifi_power_acts st0_def flip: assms(1))
  show ?thesis
  proof (cases "sdio_chip e cfg t 0")
    case (Some jd)
    obtain j d where jd: "jd = (j, d)" by fastforce
    show ?thesis
      using Some sdio_acts[OF Some[unfolded jd] f(1) assms(3,4), of ty] jd a(1) by (simp add: wifi_on_def on on_spec_def)
  next
    case none0: None
    note r0 = sdio_none[OF none0 f(1), of ty]
    show ?thesis
    proof (cases "sdio_chip e cfg t 1")
      case (Some jd)
      obtain j d where jd: "jd = (j, d)" by fastforce
      show ?thesis
        using Some none0 r0 sdio_acts[OF Some[unfolded jd] f(2) assms(3,4), of ty] jd a(2)
        by (simp add: wifi_on_def on on_spec_def do_act_acts del: One_nat_def flip: st1_def)
    next
      case None
      note r1 = sdio_none[OF None f(2), of ty]
      obtain st' where st': "wait_usb e cfg ty 0 st2 = Some (fst (wait_spec e cfg ty 0), st')" "acts st' = acts st2 @ snd (wait_spec e cfg ty 0)"
        using wait_usb_spec[of 0 st2 cfg e ty] a(4) assms by auto
      have "multi_wifi_load_driver e cfg ty (set_wifi_power e SDIO_POWER_UP wifi_start) = Some (fst (wait_spec e cfg ty 0), st')"
        unfolding on r0 by (simp add: do_act_acts r1 st'(1) del: One_nat_def flip: st1_def st2_def)
      then show ?thesis
        using none0 None st'(2) a(3) wait_spec_result[of e cfg ty 0]
        by (auto simp: wifi_on_def on_spec_def set_wifi_power_acts simp del: One_nat_def split: prod.split)
    qed
  qed
qed

text \<open>The modules in the kernel and the power after a sequence of actions, when every deletion succeeds. The name
  of a module is a property of its file.\<close>

definition file_names :: "wifi_cfg \<Rightarrow> (string \<times> string) list" where
  "file_names cfg = map (\<lambda>d. (wifi_module_filename d, wifi_module_name d)) (dongle_registerd cfg)
     @ concat (map (\<lambda>d. case wifi_module_name2 d of None \<Rightarrow> [] | Some m \<Rightarrow> [(pr_s (wifi_module_filename2 d), m)]) (dongle_registerd cfg))"

definition base_name :: "string \<Rightarrow> string" where
  "base_name p = rev (takeWhile (\<lambda>c. c \<noteq> CHR ''/'') (rev p))"

fun kernel_act :: "wifi_cfg \<Rightarrow> wifi_act \<Rightarrow> string set \<times> bool \<Rightarrow> string set \<times> bool" where
  "kernel_act cfg (Finit_module p opts) (ms, pw) = (case map_of (file_names cfg) (base_name p) of None \<Rightarrow> (ms, pw) | Some m \<Rightarrow> (insert m ms, pw))"
| "kernel_act cfg (Delete_module m) (ms, pw) = (ms - {m}, pw)"
| "kernel_act cfg (Power n) (ms, pw) = (ms, n = USB_POWER_UP \<or> n = SDIO_POWER_UP)"
| "kernel_act cfg _ s = s"

definition kernel_after :: "wifi_cfg \<Rightarrow> wifi_act list \<Rightarrow> string set \<times> bool" where
  "kernel_after cfg xs = fold (kernel_act cfg) xs ({}, False)"

definition names_consistent :: "(string \<times> string) list \<Rightarrow> bool" where
  "names_consistent l \<longleftrightarrow> list_all (\<lambda>(f, m). map_of l f = Some m \<and> CHR ''/'' \<notin> set f) l"

lemma names_consistent: "names_consistent (file_names cfg)"
proof (cases "CYPRESS_WIFI_MODULE cfg")
  case True
  show ?thesis using True
    by (simp add: file_names_def dongle_tables dongle_def with_second_def pr_s_def) code_simp
next
  case False
  show ?thesis using False
    by (simp add: file_names_def dongle_tables dongle_def with_second_def pr_s_def) code_simp
qed

lemma base_name: "CHR ''/'' \<notin> set f \<Longrightarrow> base_name (p @ ''/'' @ f) = f"
proof -
  assume f: "CHR ''/'' \<notin> set f"
  then have "takeWhile (\<lambda>c. c \<noteq> CHR ''/'') (rev f @ x) = rev f @ takeWhile (\<lambda>c. c \<noteq> CHR ''/'') x" for x
    by (intro takeWhile_append2) auto
  then show ?thesis by (simp add: base_name_def)
qed

lemma file_name_of:
  assumes "(f, m) \<in> set (file_names cfg)"
  shows "map_of (file_names cfg) (base_name (p @ ''/'' @ f)) = Some m"
  using names_consistent[of cfg] assms base_name[of f p] by (auto simp: names_consistent_def list_all_iff)

definition delete_ok :: "wifi_env \<Rightarrow> bool" where
  "delete_ok e \<longleftrightarrow> (\<forall>m n. delete_module e m n = Del_rc 0)"

lemma rmmod_acts_ok: "delete_ok e \<Longrightarrow> rmmod_acts e m 0 10 = [Delete_module m]"
  by (simp add: delete_ok_def numeral_eq_Suc)

lemma second_differs: "list_all (\<lambda>d. wifi_module_name2 d \<noteq> Some (wifi_module_name d)) (dongle_registerd cfg)"
  by (simp add: dongle_tables dongle_def with_second_def)

definition modules_of :: "dongle_info \<Rightarrow> string set" where
  "modules_of d = (case wifi_module_name2 d of None \<Rightarrow> {wifi_module_name d} | Some m \<Rightarrow> {wifi_module_name d, m})"

lemma kernel_after_load:
  assumes "d \<in> set (dongle_registerd cfg)" "delete_ok e" "kernel_ok e"
  shows "fold (kernel_act cfg) (sdio_acts e cfg ty d) ({}, True) = (modules_of d, True)"
proof -
  have "(wifi_module_filename d, wifi_module_name d) \<in> set (file_names cfg)" using assms(1) by (auto simp: file_names_def)
  note n1 = file_name_of[OF this, of "wifi_module_path d"]
  have n2: "map_of (file_names cfg) (base_name (fst (second_text d))) = Some m" if "wifi_module_name2 d = Some m" for m
  proof -
    have "(pr_s (wifi_module_filename2 d), m) \<in> set (file_names cfg)" using assms(1) that by (force simp: file_names_def)
    then show ?thesis using file_name_of[of _ m cfg "wifi_module_path d"] by (simp add: second_text_def)
  qed
  have "fold (kernel_act cfg) (prepare_acts e d) ({}, True) = ({}, True)"
    by (simp add: prepare_acts_def rmmod_acts_ok[OF assms(2)])
  moreover have "fold (kernel_act cfg) (first_acts e cfg ty d) ({}, True) = ({wifi_module_name d}, True)"
    using n1 by (simp add: first_acts_def load_acts_ok[OF assms(3)] module_text_def)
  ultimately show ?thesis using n2
    by (cases "wifi_module_name2 d") (auto simp: sdio_acts_def second_acts_def load_acts_ok[OF assms(3)] modules_of_def)
qed

lemma unload_acts:
  assumes "wifi_dev e t" "delete_ok e"
  shows "unload e d st = do_acts
    (case wifi_module_name2 d of Some m \<Rightarrow> [Delete_module m, Power SDIO_POWER_DOWN]
     | None \<Rightarrow> [Delete_module (wifi_module_name d), Usleep 500000, Power SDIO_POWER_DOWN]) st"
  by (simp add: unload_def rmmod_acts rmmod_acts_ok[OF assms(2)] set_wifi_power_acts power_acts_dev[OF assms(1)] do_act_acts split: option.split)

text \<open>The SDIO function \<open>wifi_on\<close> and \<open>wifi_off\<close> agree on: the first device file that is there.\<close>

definition sdio_dongle :: "wifi_env \<Rightarrow> wifi_cfg \<Rightarrow> string \<Rightarrow> dongle_info \<Rightarrow> bool" where
  "sdio_dongle e cfg t d \<longleftrightarrow> (\<exists>i. sdio_chip e cfg t 0 = Some (i, d))
     \<or> sdio_file e (sdio_path t 0) = None \<and> (\<exists>i. sdio_chip e cfg t 1 = Some (i, d))"

lemma off_index_sdio:
  assumes "sdio_dongle e cfg t d"
  shows "\<exists>i. off_index e cfg t st = Inr (int i) \<and> dongle_registerd cfg ! i = d \<and> i < length (dongle_registerd cfg)"
proof -
  have f: "dongle_registerd cfg ! i = d \<and> i < length (dongle_registerd cfg)" if "find_chip cfg s = Some (i, d)" for i s
    using find_index_Some[OF that[unfolded find_chip_def]] by simp
  show ?thesis using assms f
    by (auto simp: sdio_dongle_def sdio_chip_def off_index_def off_file_def split: option.splits if_splits)
qed

lemma on_spec_sdio:
  assumes "sdio_dongle e cfg t d"
  shows "fst (on_spec e cfg ty t) = 0"
    "\<exists>w. snd (on_spec e cfg ty t) = power_acts e SDIO_POWER_UP @ w @ sdio_acts e cfg ty d \<and> set w \<subseteq> {Usleep 10000}"
    "d \<in> set (dongle_registerd cfg)"
proof -
  have f: "d \<in> set (dongle_registerd cfg)" if "sdio_chip e cfg t i = Some (j, d)" for i j
    using that find_index_Some by (fastforce simp: sdio_chip_def find_chip_def split: option.splits if_splits)
  show "d \<in> set (dongle_registerd cfg)" using assms f by (auto simp: sdio_dongle_def)
  consider i where "sdio_chip e cfg t 0 = Some (i, d)" | i where "sdio_chip e cfg t 0 = None" "sdio_chip e cfg t 1 = Some (i, d)"
    using assms by (auto simp: sdio_dongle_def sdio_chip_def)
  then show "fst (on_spec e cfg ty t) = 0" "\<exists>w. snd (on_spec e cfg ty t) = power_acts e SDIO_POWER_UP @ w @ sdio_acts e cfg ty d \<and> set w \<subseteq> {Usleep 10000}"
    by (cases; auto simp: on_spec_def intro: exI[of _ "[]"] exI[of _ "[Usleep 10000]"])+
qed

section \<open>No overflow, failures\<close>

lemma wifi_on_total:
  assumes "cfg_ok cfg" "\<not> RTK_WIFI_MODULE cfg" "length (snd (get_wifi_dev_type e)) < 10"
  shows "\<exists>r st'. wifi_on e cfg ty st = Some (r, st') \<and> (sdio_chip e cfg (snd (get_wifi_dev_type e)) 0 \<noteq> None \<longrightarrow> r = 0)"
proof -
  define t where "t = snd (get_wifi_dev_type e)"
  define s0 where "s0 = (set_wifi_power e SDIO_POWER_UP st)\<lparr>file_name := sdio_path t 0\<rparr>"
  have f0: "file_name s0 = sdio_path t 0" by (simp add: s0_def)
  have drv: "\<exists>r st'. sdio_wifi_load_driver e cfg ty s = Some (r, st') \<and> (sdio_chip e cfg t i \<noteq> None \<longrightarrow> r = 0)"
    if "file_name s = sdio_path t i" for s i
    using that sdio_none[of e cfg t i s ty] sdio_total[of e cfg t i _ _ s ty] assms(1,2) by (cases "sdio_chip e cfg t i") auto
  obtain r0 s0' where r0: "sdio_wifi_load_driver e cfg ty s0 = Some (r0, s0')" "sdio_chip e cfg t 0 \<noteq> None \<longrightarrow> r0 = 0" using drv[OF f0] by blast
  obtain r1 s1' where r1: "sdio_wifi_load_driver e cfg ty ((do_act (Usleep 10000) s0')\<lparr>file_name := sdio_path t 1\<rparr>) = Some (r1, s1')"
    using drv[of "(do_act (Usleep 10000) s0')\<lparr>file_name := sdio_path t 1\<rparr>" 1] by auto
  obtain r2 s2' where r2: "wait_usb e cfg ty 0 (do_act (Usleep 10000) s1') = Some (r2, s2')" using wait_usb_total[OF assms(1)] by blast
  have m: "multi_wifi_load_driver e cfg ty (set_wifi_power e SDIO_POWER_UP st)
      = (if r0 = 0 then Some (0, s0') else if r1 = 0 then Some (0, s1') else Some (r2, s2'))"
    using assms(3) r0(1) r1 r2 by (simp add: multi_wifi_load_driver_def Let_def del: One_nat_def flip: t_def s0_def)
  show ?thesis using m r0(2) by (auto simp: wifi_on_def simp flip: t_def)
qed

lemma wifi_off_total: "length (snd (get_wifi_dev_type e)) < 10 \<Longrightarrow> \<exists>r st'. wifi_off e cfg st = Some (r, st')"
  by (auto simp: wifi_off_def Let_def split: sum.split)

lemma not_opened_acts:
  assumes "\<forall>p opts. finit e p opts = Not_opened" "sdio_chip e cfg t 0 = Some (j, d)" "file_name st = sdio_path t 0"
    "cfg_ok cfg" "\<not> RTK_WIFI_MODULE cfg"
  shows "sdio_wifi_load_driver e cfg ty st = Some (0, do_acts (prepare_acts e d) (st\<lparr>load_dongle_index := int j\<rparr>))"
proof -
  have ins: "insmod e p opts s = Some (-1, s)" for p opts s using assms(1) by (simp add: insmod_def)
  note d = sdio_some[OF assms(2-5), of ty]
  have "load_second e d s = Some (0, s)" for s
    using load_second_def2(1)[OF d(2), of _ e s] ins by (cases "wifi_module_name2 d") (simp_all add: load_second_def[of e d s])
  then show ?thesis using d(1) ins by simp
qed

text \<open>The identifiers of the chips, in the order of the table.\<close>

definition chip_ids :: "string list" where
  "chip_ids = map chip_id (dongle_registerd default_cfg)"

lemma chip_ids: "map chip_id (dongle_registerd cfg) = chip_ids"
  by (cases "CYPRESS_WIFI_MODULE cfg") (simp_all add: chip_ids_def dongle_tables dongle_def with_second_def default_cfg_def)

definition device_text :: "string \<Rightarrow> string" where
  "device_text c = ''0x'' @ c @ [CHR 0x0A]"

lemma chip_found:
  "list_all (\<lambda>c. c = ''invalid'' \<or> find (\<lambda>x. strstr (cstr (take 127 (device_text c))) x \<noteq> None) chip_ids = Some c) chip_ids"
  by code_simp

section \<open>Properties\<close>


text \<open>Turning Wi-Fi off after turning it on, in another process and with the same chip on the SDIO bus, unloads the
  driver and powers the chip down, whatever was loaded before. Of a driver in two modules only the second is
  unloaded: the first stays in the kernel.\<close>

theorem wifi_off_undoes_wifi_on:
  assumes "wifi_dev e t" "cfg_ok cfg" "\<not> RTK_WIFI_MODULE cfg" "kernel_ok e" "delete_ok e" "sdio_dongle e cfg t d"
  shows "\<exists>st st'. wifi_on e cfg ty wifi_start = Some (0, st) \<and> kernel_after cfg (acts st) = (modules_of d, True)
    \<and> wifi_off e cfg wifi_start = Some (0, st')
    \<and> kernel_after cfg (acts st @ acts st') = (if wifi_module_name2 d = None then {} else {wifi_module_name d}, False)"
proof -
  note on = on_spec_sdio[OF assms(6)]
  obtain st where st: "wifi_on e cfg ty wifi_start = Some (0, st)" "acts st = snd (on_spec e cfg ty t)"
    using wifi_on_spec[of t e cfg ty] get_wifi_dev_type[OF assms(1)] assms(2,3) on(1)[of ty] by auto
  have waits: "set w \<subseteq> {Usleep 10000} \<Longrightarrow> fold (kernel_act cfg) w s = s" for w s
    by (induction w arbitrary: s) (auto split: prod.split)
  obtain w where w: "snd (on_spec e cfg ty t) = Power SDIO_POWER_UP # w @ sdio_acts e cfg ty d" "set w \<subseteq> {Usleep 10000}"
    using on(2)[of ty] power_acts_dev[OF assms(1)] by fastforce
  have k: "kernel_after cfg (acts st) = (modules_of d, True)"
    using kernel_after_load[OF on(3) assms(5,4), of ty] w waits by (simp add: st(2) kernel_after_def)
  obtain i where i: "off_index e cfg t (wifi_start\<lparr>file_name := (case off_file e t of Some (f, s) \<Rightarrow> f | None \<Rightarrow> sdio_path t 1)\<rparr>) = Inr (int i)"
      "dongle_registerd cfg ! i = d" using off_index_sdio[OF assms(6)] by blast
  have off: "\<exists>st'. wifi_off e cfg wifi_start = Some (0, st') \<and> acts st' = Usleep 200000 #
      (case wifi_module_name2 d of Some m \<Rightarrow> [Delete_module m, Power SDIO_POWER_DOWN]
       | None \<Rightarrow> [Delete_module (wifi_module_name d), Usleep 500000, Power SDIO_POWER_DOWN])"
    using get_wifi_dev_type[OF assms(1)] i unload_acts[OF assms(1,5)] by (simp add: wifi_off_def do_act_acts wifi_start_def do_acts_def)
  have "wifi_module_name2 d \<noteq> Some (wifi_module_name d)" using second_differs[of cfg] on(3) by (auto simp: list_all_iff)
  then have "fold (kernel_act cfg) (Usleep 200000 # (case wifi_module_name2 d of Some m \<Rightarrow> [Delete_module m, Power SDIO_POWER_DOWN]
       | None \<Rightarrow> [Delete_module (wifi_module_name d), Usleep 500000, Power SDIO_POWER_DOWN])) (modules_of d, True)
     = (if wifi_module_name2 d = None then {} else {wifi_module_name d}, False)"
    by (cases "wifi_module_name2 d") (auto simp: modules_of_def powers USB_POWER_UP_def)
  then show ?thesis using st(1) off k by (auto simp: kernel_after_def)
qed

text \<open>With paths of at most 24 characters and no MAC address added, every path, every list of options and every
  command that is built from the table fits its buffer (128, 256 and 200 bytes) and has no conversion: neither
  turning Wi-Fi on nor turning it off runs over, whatever the system answers.\<close>

theorem wifi_texts_fit:
  assumes "cfg_ok cfg" "\<not> RTK_WIFI_MODULE cfg" "length (snd (get_wifi_dev_type e)) < 10"
  shows "wifi_on e cfg ty st \<noteq> None \<and> wifi_off e cfg st \<noteq> None"
  using wifi_on_total[OF assms, of ty st] wifi_off_total[OF assms(3), of cfg st] by auto

text \<open>A driver that cannot be loaded is not reported: when the chip is found but no module's file can be opened,
  \<open>wifi_on\<close> loads nothing, leaves the chip powered and returns success.\<close>

theorem wifi_on_hides_load_failure:
  assumes "wifi_dev e t" "cfg_ok cfg" "\<not> RTK_WIFI_MODULE cfg" "\<forall>p opts. finit e p opts = Not_opened" "delete_ok e"
    and "sdio_chip e cfg t 0 = Some (i, d)"
  shows "\<exists>st. wifi_on e cfg ty wifi_start = Some (0, st) \<and> kernel_after cfg (acts st) = ({}, True)"
proof -
  define s0 where "s0 = (do_acts [Power SDIO_POWER_UP] wifi_start)\<lparr>file_name := sdio_path t 0\<rparr>"
  have "sdio_wifi_load_driver e cfg ty s0 = Some (0, do_acts (prepare_acts e d) (s0\<lparr>load_dongle_index := int i\<rparr>))"
    by (rule not_opened_acts[OF assms(4,6) _ assms(2,3)]) (simp add: s0_def)
  then have "multi_wifi_load_driver e cfg ty (set_wifi_power e SDIO_POWER_UP wifi_start)
      = Some (0, do_acts (prepare_acts e d) (s0\<lparr>load_dongle_index := int i\<rparr>))"
    using get_wifi_dev_type[OF assms(1)] by (simp add: multi_wifi_load_driver_def set_wifi_power_acts power_acts_dev[OF assms(1)] flip: s0_def)
  then show ?thesis
    by (simp add: wifi_on_def kernel_after_def s0_def wifi_start_def do_acts_def prepare_acts_def rmmod_acts_ok[OF assms(5)] powers)
qed

text \<open>The device file of every chip in the table, with the identifier as the kernel prints it, selects an entry of
  that identifier: no entry is hidden by one before it.\<close>

theorem chip_selects_its_entry:
  assumes "d \<in> set (dongle_registerd cfg)" "chip_id d \<noteq> ''invalid''"
  shows "\<exists>i d'. find_chip cfg (cstr (take 127 (device_text (chip_id d)))) = Some (i, d') \<and> chip_id d' = chip_id d"
proof -
  let ?b = "cstr (take 127 (device_text (chip_id d)))"
  have "chip_id d \<in> set chip_ids" using assms(1) by (auto simp flip: chip_ids[of cfg])
  then have "find (\<lambda>x. strstr ?b x \<noteq> None) chip_ids = Some (chip_id d)" using chip_found assms(2) by (auto simp: list_all_iff)
  then have "find (\<lambda>x. strstr ?b x \<noteq> None) (map chip_id (dongle_registerd cfg)) = Some (chip_id d)" by (simp only: chip_ids)
  note f = this
  have "find_chip cfg ?b \<noteq> None"
    using f find_index_map(1)[of "\<lambda>x. strstr ?b x \<noteq> None" chip_id 0 "dongle_registerd cfg"] unfolding find_chip_def by (metis option.distinct(1))
  then obtain i d' where d': "find_chip cfg ?b = Some (i, d')" by fast
  have "chip_id d' = chip_id d"
    using f find_index_map(2)[where f = chip_id and P = "\<lambda>x. strstr ?b x \<noteq> None", OF d'[unfolded find_chip_def]] by simp
  then show ?thesis using d' by blast
qed

section \<open>Witnesses\<close>

definition demo_env :: wifi_env where
  "demo_env = \<lparr>power_dev = True, dev_type = Some ''sdio'', sdio_file = (\<lambda>p. if p = sdio_path ''sdio'' 0 then Some (device_text ''9145'') else None),
     mac_file = None, clock_file = False, usb = (\<lambda>_. Usb_devices []), finit = (\<lambda>_ _. Finit_rc 0), shell = (\<lambda>_. 0),
     delete_module = (\<lambda>_ _. Del_rc 0)\<rparr>"

lemma demo:
  "wifi_dev demo_env ''sdio''" "cfg_ok default_cfg" "\<not> RTK_WIFI_MODULE default_cfg" "kernel_ok demo_env" "delete_ok demo_env"
  "get_wifi_dev_type demo_env = (0, ''sdio'')"
  by (simp_all add: wifi_dev_def demo_env_def cfg_ok_def short_path_def default_cfg_def DEFAULT_KO_PATH_def DEFAULT_CONFIG_PATH_def
      kernel_ok_def delete_ok_def get_wifi_dev_type_def)

definition demo_dongle :: dongle_info where
  "demo_dongle = with_second (dongle ''9145'' ''mlan'' ''mlan8977.ko'' DEFAULT_CONFIG_PATH unknown_arg ''sd8977'' 0)
     ''sd8xxx'' ''sd8xxx_8977.ko'' ''cal_data_cfg=none''"

lemma demo_chip: "sdio_chip demo_env default_cfg ''sdio'' 0 = Some (27, demo_dongle)"
  by code_simp



theorem wifi_off_undoes_wifi_on_witness:
  "\<exists>st st'. wifi_on demo_env default_cfg TYPE_AP wifi_start = Some (0, st) \<and> wifi_off demo_env default_cfg wifi_start = Some (0, st')
    \<and> kernel_after default_cfg (acts st @ acts st') = ({''mlan''}, False)"
proof -
  have "sdio_dongle demo_env default_cfg ''sdio'' demo_dongle" using demo_chip by (auto simp: sdio_dongle_def)
  then show ?thesis using wifi_off_undoes_wifi_on[OF demo(1-5), of demo_dongle TYPE_AP]
    by (auto simp: demo_dongle_def with_second_def dongle_def)
qed

theorem wifi_texts_fit_witness:
  "wifi_on demo_env default_cfg TYPE_STATION wifi_start \<noteq> None \<and> wifi_off demo_env default_cfg wifi_start \<noteq> None"
  by (rule wifi_texts_fit) (simp_all add: demo)

theorem wifi_on_hides_load_failure_witness:
  "\<exists>st. wifi_on (demo_env\<lparr>finit := \<lambda>_ _. Not_opened\<rparr>) default_cfg TYPE_AP wifi_start = Some (0, st)
    \<and> kernel_after default_cfg (acts st) = ({}, True)"
proof (rule wifi_on_hides_load_failure)
  show "sdio_chip (demo_env\<lparr>finit := \<lambda>_ _. Not_opened\<rparr>) default_cfg ''sdio'' 0 = Some (27, demo_dongle)"
    using demo_chip by (simp add: sdio_chip_def)
qed (use demo in \<open>simp_all add: wifi_dev_def delete_ok_def\<close>)

theorem chip_selects_its_entry_witness:
  "\<exists>i d'. find_chip default_cfg (cstr (take 127 (''0x9145'' @ [CHR 0x0A]))) = Some (i, d') \<and> chip_id d' = ''9145''"
proof -
  have "demo_dongle \<in> set (dongle_registerd default_cfg)"
    by (simp add: demo_dongle_def dongle_tables default_cfg_def)
  then show ?thesis using chip_selects_its_entry[of demo_dongle default_cfg]
    by (simp add: demo_dongle_def with_second_def dongle_def device_text_def)
qed

end
