(* ===== verification/WpaScan.thy ===== *)
theory WpaScan
  imports QSort
begin

text \<open>
  \<open>aml_wpa_wifi_util/aml_wpa_wifi_util.c\<close>, scan results: parsing the text of \<open>wpa_supplicant\<close>, sorting the access
  points, and filling the caller's array with one entry for each network name.
\<close>

section \<open>Access points\<close>

definition WPA_SSID_SIZE_MAX :: nat where "WPA_SSID_SIZE_MAX = 64"
definition WPA_BSSID_SIZE_MAX :: nat where "WPA_BSSID_SIZE_MAX = 64"
definition WPA_AP_NUM_MAX :: nat where "WPA_AP_NUM_MAX = 64"

lemmas wpa_sizes = WPA_SSID_SIZE_MAX_def WPA_BSSID_SIZE_MAX_def WPA_AP_NUM_MAX_def

datatype wpa_level = WPA_WIFI_LEVEL_0 | WPA_WIFI_LEVEL_1 | WPA_WIFI_LEVEL_2 | WPA_WIFI_LEVEL_3 | WPA_WIFI_LEVEL_4

record ap_info =
  bssid :: string
  frequency :: int
  signal_strength :: int
  signal_level :: wpa_level
  flags :: string
  ssid :: string

definition TAB :: char where "TAB = CHR 0x09"
definition NL :: char where "NL = CHR 0x0A"

section \<open>Parsing\<close>

text \<open>\<open>COPY_NEXT_TOKEN\<close> into a buffer of \<open>n\<close> bytes; \<^const>\<open>None\<close> is its \<open>break\<close>.\<close>

definition copy_next_token :: "nat \<Rightarrow> char \<Rightarrow> string \<Rightarrow> (string \<times> string) option" where
  "copy_next_token n delim s =
     (case strchr s delim of
        None \<Rightarrow> None
      | Some len \<Rightarrow> if len \<ge> n then None else Some (take len s, drop (len + 1) s))"

definition signal_level_of :: "int \<Rightarrow> wpa_level" where
  "signal_level_of i = (if i \<le> -88 then WPA_WIFI_LEVEL_0 else if i \<le> -77 then WPA_WIFI_LEVEL_1
     else if i \<le> -66 then WPA_WIFI_LEVEL_2 else if i \<le> -55 then WPA_WIFI_LEVEL_3 else WPA_WIFI_LEVEL_4)"

text \<open>One round of the loop: \<^const>\<open>None\<close> for a number outside \<open>int\<close>, \<open>Some None\<close> for a \<open>break\<close>.\<close>

definition parse_ap :: "string \<Rightarrow> (ap_info \<times> string) option option" where
  "parse_ap s =
     (case copy_next_token WPA_BSSID_SIZE_MAX TAB s of
        None \<Rightarrow> Some None
      | Some (b, s1) \<Rightarrow> (case copy_next_token 64 TAB s1 of
          None \<Rightarrow> Some None
        | Some (fr, s2) \<Rightarrow> (case atoi fr of
            None \<Rightarrow> None
          | Some freq \<Rightarrow> (case copy_next_token 64 TAB s2 of
              None \<Rightarrow> Some None
            | Some (st, s3) \<Rightarrow> (case atoi st of
                None \<Rightarrow> None
              | Some sig \<Rightarrow> (case copy_next_token 256 TAB s3 of
                  None \<Rightarrow> Some None
                | Some (fl, s4) \<Rightarrow> (case copy_next_token WPA_SSID_SIZE_MAX NL s4 of
                    None \<Rightarrow> Some None
                  | Some (name, s5) \<Rightarrow>
                      Some (Some (\<lparr>bssid = b, frequency = freq, signal_strength = sig, signal_level = signal_level_of sig,
                        flags = fl, ssid = name\<rparr>, s5)))))))))"

lemma copy_next_token_less: "copy_next_token n d s = Some (t, s') \<Longrightarrow> length s' < length s"
  using strchr_less[of s d] by (auto simp: copy_next_token_def split: option.splits if_splits)

lemma parse_ap_less: "parse_ap s = Some (Some (ap, s')) \<Longrightarrow> length s' < length s"
  by (auto simp: parse_ap_def split: option.splits prod.splits dest!: copy_next_token_less)

text \<open>
  The loop: the entries that are counted. The array has one more, the one being filled when the loop ends, which
  is never read; the entry that fills the array is not counted either.
\<close>

function parse_aps :: "nat \<Rightarrow> string \<Rightarrow> ap_info list option" where
  "parse_aps n s =
     (if TAB \<notin> set s then Some []
      else (case parse_ap s of
          None \<Rightarrow> None
        | Some None \<Rightarrow> Some []
        | Some (Some (ap, s')) \<Rightarrow>
            if n \<ge> WPA_AP_NUM_MAX - 1 then Some [] else map_option ((#) ap) (parse_aps (n + 1) s')))"
  by pat_completeness auto
termination by (relation "measure (\<lambda>(n, s). length s)") (auto dest: parse_ap_less)

declare parse_aps.simps [simp del]

definition sorted_by_ssid_dictionary :: "ap_info \<Rightarrow> ap_info \<Rightarrow> int" where
  "sorted_by_ssid_dictionary a b = strcasecmp (ssid a) (ssid b)"

text \<open>The difference of two \<open>int\<close>s as the machine computes it.\<close>

definition sorted_by_signal_strength :: "ap_info \<Rightarrow> ap_info \<Rightarrow> int" where
  "sorted_by_signal_strength a b = sint (word_of_int (signal_strength b - signal_strength a) :: 32 word)"

definition SCAN_HEADER :: string where
  "SCAN_HEADER = ''bssid / frequency / signal level / flags / ssid''"

text \<open>\<open>parse_scan_results\<close>: \<open>Some None\<close> is \<open>RETURN_ERR\<close>, else the counted part of the array.\<close>

definition parse_scan_results :: "string \<Rightarrow> bool \<Rightarrow> ap_info list option option" where
  "parse_scan_results res by_strength =
     (if take (length SCAN_HEADER) res \<noteq> SCAN_HEADER then Some None
      else (case strchr res NL of
          None \<Rightarrow> Some None
        | Some n \<Rightarrow> (case parse_aps 0 (drop (n + 1) res) of
            None \<Rightarrow> None
          | Some aps \<Rightarrow> map_option Some (qsort (if by_strength then sorted_by_signal_strength else sorted_by_ssid_dictionary) aps))))"

section \<open>One entry for each name\<close>

text \<open>The caller's array: the buffers of its entries.\<close>

definition is_ssid_duplicate :: "ap_info list \<Rightarrow> nat \<Rightarrow> string \<Rightarrow> bool" where
  "is_ssid_duplicate arr n name \<longleftrightarrow> list_ex (\<lambda>a. cstr (ssid a) = name) (take n arr)"

definition fill_entry :: "ap_info \<Rightarrow> ap_info \<Rightarrow> ap_info" where
  "fill_entry old ap = old\<lparr>ssid := strncpy (ssid old) (ssid ap) (WPA_SSID_SIZE_MAX - 1),
     bssid := strncpy (bssid old) (bssid ap) (WPA_BSSID_SIZE_MAX - 1),
     signal_strength := signal_strength ap, signal_level := signal_level ap, frequency := frequency ap\<rparr>"

fun fill_unique :: "ap_info list \<Rightarrow> ap_info list \<Rightarrow> nat \<Rightarrow> ap_info list \<times> nat" where
  "fill_unique [] arr n = (arr, n)"
| "fill_unique (ap # aps) arr n =
     (if ssid ap \<noteq> [] \<and> \<not> is_ssid_duplicate arr n (ssid ap)
      then fill_unique aps (arr[n := fill_entry (arr ! n) ap]) (n + 1)
      else fill_unique aps arr n)"

text \<open>The array and the number of entries for what the scan found; \<open>sz\<close> is what the caller says.\<close>

definition fill_results :: "ap_info list \<Rightarrow> int \<Rightarrow> ap_info list \<Rightarrow> ap_info list \<times> nat" where
  "fill_results aps sz arr = (if int (length aps) < sz then fill_unique aps arr 0 else (arr, 0))"

section \<open>Parsing what was printed\<close>

text \<open>The text of a scan.\<close>

definition ap_line :: "ap_info \<Rightarrow> string" where
  "ap_line ap = bssid ap @ [TAB] @ pr_int (frequency ap) @ [TAB] @ pr_int (signal_strength ap) @ [TAB] @ flags ap @ [TAB] @ ssid ap @ [NL]"

definition scan_text :: "ap_info list \<Rightarrow> string" where
  "scan_text aps = SCAN_HEADER @ [NL] @ concat (map ap_line aps)"

definition ap_ok :: "ap_info \<Rightarrow> bool" where
  "ap_ok ap \<longleftrightarrow> {TAB, NL, NUL} \<inter> (set (bssid ap) \<union> set (flags ap) \<union> set (ssid ap)) = {}
     \<and> length (bssid ap) < 64 \<and> length (flags ap) < 256 \<and> length (ssid ap) < 64
     \<and> \<bar>frequency ap\<bar> < 2 ^ 30 \<and> \<bar>signal_strength ap\<bar> < 2 ^ 30 \<and> signal_level ap = signal_level_of (signal_strength ap)"

lemma copy_token: "d \<notin> set t \<Longrightarrow> length t < n \<Longrightarrow> copy_next_token n d (t @ d # s) = Some (t, s)"
  by (simp add: copy_next_token_def)

lemma pr_int_plain: "TAB \<notin> set (pr_int i)" "NL \<notin> set (pr_int i)"
  by (auto simp: TAB_def NL_def cval_def isdigit_def dest!: pr_int_chars)

lemma length_token: "\<bar>i\<bar> < 2 ^ 30 \<Longrightarrow> length (pr_int i) < 64"
proof -
  assume i: "\<bar>i\<bar> < 2 ^ 30"
  moreover have "(2::int) ^ 30 < 10 ^ 10" by simp
  ultimately have "\<bar>i\<bar> < 10 ^ 10" by linarith
  then show ?thesis using length_pr_int[of i 10] by simp
qed

lemma parse_ap_line:
  assumes "ap_ok ap"
  shows "parse_ap (ap_line ap @ rest) = Some (Some (ap, rest))"
proof -
  have i: "atoi (pr_int i) = Some i" if "\<bar>i\<bar> < 2 ^ 30" for i using that by (intro atoi_pr_int) simp_all
  show ?thesis using assms
    by (simp add: parse_ap_def ap_line_def ap_ok_def copy_token pr_int_plain length_token i wpa_sizes)
qed

lemma TAB_in_line [simp]: "TAB \<in> set (ap_line ap)"
  by (simp add: ap_line_def)

lemma parse_ap_lines:
  "list_all ap_ok aps \<Longrightarrow> n \<le> 63 \<Longrightarrow> parse_aps n (concat (map ap_line aps)) = Some (take (63 - n) aps)"
proof (induction aps arbitrary: n)
  case Nil
  then show ?case by (simp add: parse_aps.simps)
next
  case (Cons ap aps)
  have step: "parse_aps n (concat (map ap_line (ap # aps)))
      = (if n \<ge> 63 then Some [] else map_option ((#) ap) (parse_aps (n + 1) (concat (map ap_line aps))))"
    using parse_ap_line[of ap "concat (map ap_line aps)"] Cons.prems(1)
    by (simp add: parse_aps.simps[of n] wpa_sizes)
  show ?case
  proof (cases "n = 63")
    case False
    then have "63 - n = Suc (63 - (n + 1))" using Cons.prems(2) by simp
    then show ?thesis using step Cons False by simp
  qed (use step in simp)
qed

section \<open>Sorting\<close>

lemma strength_agrees: "A \<subseteq> {ap. \<bar>signal_strength ap\<bar> < 2 ^ 30} \<Longrightarrow> agrees sorted_by_signal_strength (\<lambda>ap. - signal_strength ap) A"
proof -
  assume A: "A \<subseteq> {ap. \<bar>signal_strength ap\<bar> < 2 ^ 30}"
  have "sorted_by_signal_strength a b = signal_strength b - signal_strength a" if "a \<in> A" "b \<in> A" for a b
  proof -
    have "\<bar>signal_strength a\<bar> < 1073741824" "\<bar>signal_strength b\<bar> < 1073741824" using A that by auto
    then have "- 2147483648 \<le> signal_strength b - signal_strength a" "signal_strength b - signal_strength a < 2147483648" by linarith+
    then show ?thesis unfolding sorted_by_signal_strength_def by (rule sint_small32)
  qed
  then show ?thesis by (auto simp: agrees_def)
qed

lemma ssid_agrees: "A \<subseteq> {ap. NUL \<notin> set (ssid ap)} \<Longrightarrow> agrees sorted_by_ssid_dictionary (\<lambda>ap. nocase_key (ssid ap)) A"
  unfolding agrees_def sorted_by_ssid_dictionary_def using strcasecmp_key by blast

lemma parse_scan_text:
  assumes "list_all ap_ok aps"
  shows "parse_scan_results (scan_text aps) True = Some (Some (sort_key (\<lambda>ap. - signal_strength ap) (take 63 aps)))"
    "parse_scan_results (scan_text aps) False = Some (Some (sort_key (\<lambda>ap. nocase_key (ssid ap)) (take 63 aps)))"
proof -
  have "NL \<notin> set SCAN_HEADER" by (simp add: SCAN_HEADER_def NL_def)
  then have nl: "strchr (scan_text aps) NL = Some (length SCAN_HEADER)" "drop (length SCAN_HEADER + 1) (scan_text aps) = concat (map ap_line aps)"
    by (simp_all add: scan_text_def)
  have p: "parse_scan_results (scan_text aps) b = map_option Some (qsort (if b then sorted_by_signal_strength else sorted_by_ssid_dictionary) (take 63 aps))" for b
  proof -
    have "take (length SCAN_HEADER) (scan_text aps) = SCAN_HEADER" by (simp add: scan_text_def)
    then show ?thesis using nl parse_ap_lines[OF assms, of 0] unfolding parse_scan_results_def by simp
  qed
  have ok: "ap_ok ap" if "ap \<in> set (take 63 aps)" for ap using assms that by (auto simp: list_all_iff dest: in_set_takeD)
  have "qsort sorted_by_signal_strength (take 63 aps) = Some (sort_key (\<lambda>ap. - signal_strength ap) (take 63 aps))"
    by (intro qsort_key strength_agrees) (use ok in \<open>auto simp: ap_ok_def\<close>)
  then show "parse_scan_results (scan_text aps) True = Some (Some (sort_key (\<lambda>ap. - signal_strength ap) (take 63 aps)))" by (simp add: p)
  have "qsort sorted_by_ssid_dictionary (take 63 aps) = Some (sort_key (\<lambda>ap. nocase_key (ssid ap)) (take 63 aps))"
    by (intro qsort_key ssid_agrees) (use ok in \<open>auto simp: ap_ok_def\<close>)
  then show "parse_scan_results (scan_text aps) False = Some (Some (sort_key (\<lambda>ap. nocase_key (ssid ap)) (take 63 aps)))" by (simp add: p)
qed

section \<open>The first entry of each name\<close>

fun uniq :: "string list \<Rightarrow> ap_info list \<Rightarrow> ap_info list" where
  "uniq seen [] = []"
| "uniq seen (ap # aps) =
     (if ssid ap \<noteq> [] \<and> ssid ap \<notin> set seen then ap # uniq (seen @ [ssid ap]) aps else uniq seen aps)"

lemma uniq_set: "set (uniq seen aps) \<subseteq> set aps" "ap \<in> set (uniq seen aps) \<Longrightarrow> ssid ap \<noteq> [] \<and> ssid ap \<notin> set seen"
  by (induction seen aps rule: uniq.induct) (auto split: if_splits)

lemma uniq_distinct: "distinct (map ssid (uniq seen aps))"
proof (induction seen aps rule: uniq.induct)
  case (2 seen ap aps)
  then show ?case using uniq_set(2)[of _ "seen @ [ssid ap]" aps] by fastforce
qed simp

lemma uniq_names: "ssid ` set (uniq seen aps) = ssid ` set aps - set seen - {[]}"
  by (induction seen aps rule: uniq.induct) auto

lemma uniq_sorted: "sorted_wrt R aps \<Longrightarrow> sorted_wrt R (uniq seen aps)"
proof (induction seen aps rule: uniq.induct)
  case (2 seen ap aps)
  then show ?case using uniq_set(1)[of "seen @ [ssid ap]" aps] by auto
qed simp

lemma uniq_first:
  "sorted_wrt (\<lambda>a b. signal_strength b \<le> signal_strength a) aps \<Longrightarrow> u \<in> set (uniq seen aps) \<Longrightarrow> ap \<in> set aps \<Longrightarrow> ssid ap = ssid u
    \<Longrightarrow> signal_strength ap \<le> signal_strength u"
proof (induction seen aps rule: uniq.induct)
  case (2 seen a aps)
  show ?case
  proof (cases "ssid a \<noteq> [] \<and> ssid a \<notin> set seen")
    case new: True
    then have "u = a \<or> u \<in> set (uniq (seen @ [ssid a]) aps)" using "2.prems"(2) by simp
    then show ?thesis
    proof
      assume "u = a"
      then show ?thesis using "2.prems"(1,3) by auto
    next
      assume u: "u \<in> set (uniq (seen @ [ssid a]) aps)"
      then have "ssid u \<noteq> ssid a" using uniq_set(2)[OF u] by simp
      then have "ap \<in> set aps" using "2.prems"(3,4) by auto
      then show ?thesis using "2.IH"(1)[OF new _ u] "2.prems"(1,4) by simp
    qed
  next
    case False
    then have u: "u \<in> set (uniq seen aps)" using "2.prems"(2) by (auto split: if_splits)
    then have "ssid u \<noteq> [] \<and> ssid u \<notin> set seen" by (rule uniq_set(2))
    then have "ap \<in> set aps" using "2.prems"(3,4) False by auto
    then show ?thesis using "2.IH"(2)[OF False _ u] "2.prems"(1,4) by simp
  qed
qed simp

section \<open>Filling the array\<close>

definition entry_ok :: "ap_info \<Rightarrow> bool" where
  "entry_ok e \<longleftrightarrow> length (ssid e) = 64 \<and> ssid e ! 63 = NUL \<and> length (bssid e) = 64 \<and> bssid e ! 63 = NUL"

definition shows_ap :: "ap_info \<Rightarrow> ap_info \<Rightarrow> bool" where
  "shows_ap e ap \<longleftrightarrow> cstr (ssid e) = ssid ap \<and> cstr (bssid e) = bssid ap \<and> signal_strength e = signal_strength ap
     \<and> signal_level e = signal_level ap \<and> frequency e = frequency ap"

lemma strncpy_whole:
  assumes "length d = 64" "d ! 63 = NUL" "NUL \<notin> set s" "length s < 64"
  shows "cstr (strncpy d s 63) = s"
proof -
  have "drop 63 d = [NUL]" using assms(1,2) Cons_nth_drop_Suc[of 63 d] by simp
  then have "strncpy d s 63 = s @ NUL # replicate (63 - length s) NUL"
    using assms(3,4) by (simp add: strncpy_def replicate_append_same flip: replicate_Suc)
  then show ?thesis using assms(3) by simp
qed

lemma fill_shows: "entry_ok e \<Longrightarrow> ap_ok ap \<Longrightarrow> shows_ap (fill_entry e ap) ap"
  by (auto simp: shows_ap_def fill_entry_def entry_ok_def ap_ok_def wpa_sizes intro!: strncpy_whole)

lemma shows_names: "list_all2 shows_ap es aps \<Longrightarrow> map (\<lambda>e. cstr (ssid e)) es = map ssid aps"
  by (induction rule: list_all2_induct) (simp_all add: shows_ap_def)

lemma fill_unique_uniq:
  assumes "list_all ap_ok aps" "list_all entry_ok (drop n arr)" "n + length aps \<le> length arr" "list_all2 shows_ap (take n arr) shown"
  shows "\<exists>arr'. fill_unique aps arr n = (arr', n + length (uniq (map ssid shown) aps))
    \<and> list_all2 shows_ap (take (n + length (uniq (map ssid shown) aps)) arr') (shown @ uniq (map ssid shown) aps)"
  using assms
proof (induction aps arbitrary: arr n shown)
  case (Cons ap aps)
  have dup: "is_ssid_duplicate arr n (ssid ap) \<longleftrightarrow> ssid ap \<in> set (map ssid shown)"
  proof -
    have "map (\<lambda>e. cstr (ssid e)) (take n arr) = map ssid shown" by (rule shows_names[OF Cons.prems(4)])
    then have "(\<lambda>e. cstr (ssid e)) ` set (take n arr) = set (map ssid shown)" by (metis list.set_map)
    moreover have "is_ssid_duplicate arr n (ssid ap) \<longleftrightarrow> ssid ap \<in> (\<lambda>e. cstr (ssid e)) ` set (take n arr)"
      unfolding is_ssid_duplicate_def list_ex_iff by (auto intro: image_eqI[OF sym])
    ultimately show ?thesis by (simp only:)
  qed
  show ?case
  proof (cases "ssid ap \<noteq> [] \<and> ssid ap \<notin> set (map ssid shown)")
    case True
    define arr1 where "arr1 = arr[n := fill_entry (arr ! n) ap]"
    have n: "n < length arr" using Cons.prems(3) by simp
    have "entry_ok (arr ! n)" using Cons.prems(2) n by (auto simp: Cons_nth_drop_Suc[symmetric])
    then have e: "shows_ap (fill_entry (arr ! n) ap) ap" using fill_shows Cons.prems(1) by simp
    have "drop (n + 1) arr1 = drop (n + 1) arr" by (simp add: arr1_def)
    moreover have "list_all entry_ok (drop (n + 1) arr)" using Cons.prems(2) n by (auto simp: Cons_nth_drop_Suc[symmetric])
    moreover have "list_all2 shows_ap (take (n + 1) arr1) (shown @ [ap])"
      using Cons.prems(4) e n by (simp add: arr1_def take_Suc_conv_app_nth list_all2_appendI)
    ultimately have "\<exists>arr'. fill_unique aps arr1 (n + 1) = (arr', n + 1 + length (uniq (map ssid (shown @ [ap])) aps))
        \<and> list_all2 shows_ap (take (n + 1 + length (uniq (map ssid (shown @ [ap])) aps)) arr') ((shown @ [ap]) @ uniq (map ssid (shown @ [ap])) aps)"
      by (intro Cons.IH) (use Cons.prems in \<open>simp_all add: arr1_def\<close>)
    then show ?thesis using True dup by (simp add: arr1_def)
  next
    case False
    have "\<exists>arr'. fill_unique aps arr n = (arr', n + length (uniq (map ssid shown) aps))
        \<and> list_all2 shows_ap (take (n + length (uniq (map ssid shown) aps)) arr') (shown @ uniq (map ssid shown) aps)"
      by (rule Cons.IH) (use Cons.prems in simp_all)
    moreover have "fill_unique (ap # aps) arr n = fill_unique aps arr n" "uniq (map ssid shown) (ap # aps) = uniq (map ssid shown) aps"
      using False dup by auto
    ultimately show ?thesis by simp
  qed
qed (simp add: list_all2_conv_all_nth)

text \<open>The entries of a caller's array after a scan that is sorted by strength: one for each name that is not empty, the
  strongest access point of that name.\<close>

definition best_of :: "ap_info list \<Rightarrow> ap_info list \<Rightarrow> bool" where
  "best_of aps es \<longleftrightarrow> distinct (map (\<lambda>e. cstr (ssid e)) es)
     \<and> (\<lambda>e. cstr (ssid e)) ` set es = ssid ` set aps - {[]}
     \<and> sorted_wrt (\<lambda>a b. signal_strength b \<le> signal_strength a) es
     \<and> (\<forall>e \<in> set es. \<exists>ap \<in> set aps. shows_ap e ap \<and> (\<forall>ap' \<in> set aps. ssid ap' = ssid ap \<longrightarrow> signal_strength ap' \<le> signal_strength ap))"

lemma best_of_uniq:
  assumes "sorted_wrt (\<lambda>a b. signal_strength b \<le> signal_strength a) aps" "list_all2 shows_ap es (uniq [] aps)"
  shows "best_of aps es"
proof -
  note names = shows_names[OF assms(2)]
  have "(\<lambda>e. cstr (ssid e)) ` set es = ssid ` set (uniq [] aps)" by (metis names list.set_map)
  then have set: "(\<lambda>e. cstr (ssid e)) ` set es = ssid ` set aps - {[]}" by (simp add: uniq_names)
  have "sorted_wrt (\<lambda>a b. signal_strength b \<le> signal_strength a) (uniq [] aps)" by (rule uniq_sorted[OF assms(1)])
  then have sorted: "sorted_wrt (\<lambda>a b. signal_strength b \<le> signal_strength a) es"
    using assms(2) by (auto simp: sorted_wrt_iff_nth_less list_all2_conv_all_nth shows_ap_def)
  have "\<exists>ap \<in> set aps. shows_ap e ap \<and> (\<forall>ap' \<in> set aps. ssid ap' = ssid ap \<longrightarrow> signal_strength ap' \<le> signal_strength ap)"
    if e: "e \<in> set es" for e
  proof -
    obtain ap where ap: "ap \<in> set (uniq [] aps)" "shows_ap e ap"
      using e assms(2) by (metis list_all2_conv_all_nth in_set_conv_nth)
    then show ?thesis using uniq_set(1)[of "[]" aps] uniq_first[OF assms(1) ap(1)] by blast
  qed
  then show ?thesis using names set sorted uniq_distinct[of "[]" aps] by (simp add: best_of_def)
qed

lemma fill_best:
  assumes "sorted_wrt (\<lambda>a b. signal_strength b \<le> signal_strength a) aps" "list_all ap_ok aps" "list_all entry_ok arr"
    "length aps \<le> length arr" "int (length aps) < sz"
  shows "\<exists>arr' n. fill_results aps sz arr = (arr', n) \<and> best_of aps (take n arr')"
  using fill_unique_uniq[of aps 0 arr "[]"] best_of_uniq[OF assms(1)] assms(2-5) by (auto simp: fill_results_def)

end
