(* ===== verification/WpaNet.thy ===== *)
theory WpaNet
  imports WpaScan
begin

text \<open>
  \<open>aml_wpa_wifi_util/aml_wpa_wifi_util.c\<close>, the manager of networks: commands to \<open>wpa_supplicant\<close>, its events, and the
  thread that watches a new connection. \<open>wpa_supplicant\<close> is an argument: a function from its state and a
  command to the result, the reply and its new state; so are the texts of its events, which its header
  defines. \<^const>\<open>None\<close>: an index outside the array, a text that does not fit, or a reply without an end.
\<close>

section \<open>The manager\<close>

datatype wpa_status = WPA_WIFI_INVALID | WPA_WIFI_SUCCESS | WPA_WIFI_CONNECTING | WPA_WIFI_DISCONNECTED | WPA_WIFI_ERROR_NOT_FOUND
  | WPA_WIFI_ERROR_INVALID_CREDENTIALS | WPA_WIFI_ERROR_TIMEOUT_EXPIRED | WPA_WIFI_ERROR_DEV_DISCONNECT | WPA_WIFI_ERROR_UNKNOWN

datatype wpa_scan_state = WPA_WIFI_SCAN_STATE_IDLE | WPA_WIFI_SCAN_STATE_CMD_SENT | WPA_WIFI_SCAN_STATE_STARTED
  | WPA_WIFI_SCAN_STATE_RESULTS_RECEIVED

definition DEFAULT_PRIORITY :: int where "DEFAULT_PRIORITY = 0"
definition LAST_CONNECT_PRIORITY :: int where "LAST_CONNECT_PRIORITY = 98"
definition CONNECT_NETWORK_PRIORITY :: int where "CONNECT_NETWORK_PRIORITY = 99"
definition MAX_NEW_CONNECTION_TIMEOUT :: nat where "MAX_NEW_CONNECTION_TIMEOUT = 24"
definition MAX_RETRY :: nat where "MAX_RETRY = 10"
definition MAX_NETWORKS :: nat where "MAX_NETWORKS = 10"

text \<open>
  \<open>monitors\<close> counts the watching threads that were started, \<open>callbacks\<close> records the calls of the callback,
  \<open>commands\<close> the commands that were sent; \<open>sup\<close> is the state of \<open>wpa_supplicant\<close>.
\<close>

record 's wpa =
  ctrl_handle :: bool
  connect_callback :: bool
  monitor_is_stop :: bool
  cur_scan_status :: wpa_scan_state
  cur_wifi_status :: wpa_status
  save_when_connected :: bool
  network_num :: int
  cur_network_id :: int
  previous_connected_network_id :: int
  pending_network_id :: int
  network_info :: "(int \<times> string) list"
  auto_connect_when_fail :: bool
  monitors :: nat
  callbacks :: "(string \<times> wpa_status) list"
  commands :: "string list"
  sup :: 's

type_synonym 's request = "'s \<Rightarrow> string \<Rightarrow> int \<times> string \<times> 's"

section \<open>Commands\<close>

text \<open>The reply in a buffer whose first \<open>n\<close> bytes were cleared; the byte behind them was not.\<close>

definition reply_text :: "nat \<Rightarrow> string \<Rightarrow> string option" where
  "reply_text n r = (if length r < n \<or> NUL \<in> set (take n r) then Some (cstr (take n r)) else None)"

definition send_wpa_cli_command :: "'s request \<Rightarrow> nat \<Rightarrow> string \<Rightarrow> 's wpa \<Rightarrow> int \<times> string option \<times> 's wpa" where
  "send_wpa_cli_command rq n cmd st =
     (let c = take 255 cmd in
      if \<not> ctrl_handle st then (-3, Some [], st)
      else let (ret, r, s') = rq (sup st) c; st1 = st\<lparr>sup := s', commands := commands st @ [c]\<rparr> in
        if ret = -2 then (-2, Some [], st1)
        else if ret < 0 then (-1, Some [], st1)
        else (0, reply_text n r, st1))"

definition send_ret :: "'s request \<Rightarrow> nat \<Rightarrow> string \<Rightarrow> 's wpa \<Rightarrow> int \<times> 's wpa" where
  "send_ret rq n cmd st = (let (ret, r, st1) = send_wpa_cli_command rq n cmd st in (ret, st1))"

definition sent :: "'s request \<Rightarrow> string \<Rightarrow> 's wpa \<Rightarrow> 's wpa" where
  "sent rq cmd st = snd (send_ret rq 63 cmd st)"

definition id_cmd :: "string \<Rightarrow> int \<Rightarrow> string \<Rightarrow> string" where
  "id_cmd a i b = a @ '' '' @ pr_int i @ b"

definition priority_cmd :: "int \<Rightarrow> int \<Rightarrow> string" where
  "priority_cmd i p = id_cmd ''SET_NETWORK'' i ('' priority '' @ pr_int p)"

definition wpa_wifi_send_status_cmd :: "'s request \<Rightarrow> 's wpa \<Rightarrow> int \<times> 's wpa" where
  "wpa_wifi_send_status_cmd rq st = send_ret rq 511 ''STATUS'' st"

definition wpa_wifi_send_save_config_cmd :: "'s request \<Rightarrow> 's wpa \<Rightarrow> int \<times> 's wpa" where
  "wpa_wifi_send_save_config_cmd rq st = send_ret rq 63 ''SAVE_CONFIG'' st"

definition wpa_wifi_send_enable_cmd :: "'s request \<Rightarrow> int \<Rightarrow> 's wpa \<Rightarrow> int \<times> 's wpa" where
  "wpa_wifi_send_enable_cmd rq i st = send_ret rq 63 (id_cmd ''ENABLE_NETWORK'' i []) st"

definition wpa_wifi_send_disable_cmd :: "'s request \<Rightarrow> int \<Rightarrow> 's wpa \<Rightarrow> int \<times> 's wpa" where
  "wpa_wifi_send_disable_cmd rq i st = send_ret rq 63 (id_cmd ''DISABLE_NETWORK'' i []) st"

definition wpa_wifi_send_disconnect_cmd :: "'s request \<Rightarrow> 's wpa \<Rightarrow> int \<times> 's wpa" where
  "wpa_wifi_send_disconnect_cmd rq st =
     (let (ret, st1) = send_ret rq 63 ''DISCONNECT'' st in
      (ret, if ret = 0 then st1\<lparr>cur_wifi_status := WPA_WIFI_DISCONNECTED\<rparr> else st1))"

definition wpa_wifi_send_reconnect_cmd :: "'s request \<Rightarrow> 's wpa \<Rightarrow> int \<times> 's wpa" where
  "wpa_wifi_send_reconnect_cmd rq st = send_ret rq 63 ''RECONNECT'' st"

text \<open>The loop that repeats \<open>SCAN\<close> while the reply says busy; it might not end.\<close>

partial_function (option) scan_busy :: "'s request \<Rightarrow> string option \<Rightarrow> 's wpa \<Rightarrow> 's wpa option" where
  "scan_busy rq r st =
     (case r of
        None \<Rightarrow> None
      | Some t \<Rightarrow>
          if strstr t ''FAIL-BUSY'' = None then Some st
          else let (ret, r1, st1) = send_wpa_cli_command rq 127 ''SCAN'' st in scan_busy rq r1 st1)"

definition wpa_wifi_send_scan_cmd :: "'s request \<Rightarrow> 's wpa \<Rightarrow> (int \<times> 's wpa) option" where
  "wpa_wifi_send_scan_cmd rq st =
     (if cur_scan_status st = WPA_WIFI_SCAN_STATE_RESULTS_RECEIVED then Some (0, st)
      else let (ret, r, st1) = send_wpa_cli_command rq 127 ''SCAN'' st in
        if ret \<noteq> 0 then Some (ret, st1)
        else map_option (\<lambda>st2. (ret, st2\<lparr>cur_scan_status := WPA_WIFI_SCAN_STATE_CMD_SENT\<rparr>)) (scan_busy rq r st1))"

section \<open>Lines\<close>

text \<open>\<open>strtok\<close> with one delimiter: the tokens, none of them empty.\<close>

fun tokens :: "char \<Rightarrow> string \<Rightarrow> string \<Rightarrow> string list" where
  "tokens d tok [] = (if tok = [] then [] else [tok])"
| "tokens d tok (c # s) = (if c = d then (if tok = [] then [] else [tok]) @ tokens d [] s else tokens d (tok @ [c]) s)"

definition starts_with :: "string \<Rightarrow> string \<Rightarrow> bool" where
  "starts_with p s \<longleftrightarrow> take (length p) s = p"

text \<open>The result, and the identifier when one is stored.\<close>

definition wpa_wifi_get_current_connected_id :: "'s request \<Rightarrow> 's wpa \<Rightarrow> (int \<times> int option \<times> 's wpa) option" where
  "wpa_wifi_get_current_connected_id rq st =
     (let (ret, r, st1) = send_wpa_cli_command rq 511 ''STATUS'' st in
      if ret \<noteq> 0 then Some (ret, None, st1)
      else (case r of
          None \<Rightarrow> None
        | Some t \<Rightarrow> (case find (starts_with ''id='') (tokens NL [] t) of
            None \<Rightarrow> Some (-1, None, st1)
          | Some l \<Rightarrow> map_option (\<lambda>i. (0, Some i, st1)) (atoi (drop 3 l)))))"

text \<open>The name at an index of the array, if it is one.\<close>

definition info_ssid :: "'s wpa \<Rightarrow> int \<Rightarrow> string option" where
  "info_ssid st i = (if 0 \<le> i \<and> i < int (length (network_info st)) then Some (snd (network_info st ! nat i)) else None)"

definition wpa_wifi_get_current_connected_ssid :: "'s request \<Rightarrow> 's wpa \<Rightarrow> (int \<times> string option \<times> 's wpa) option" where
  "wpa_wifi_get_current_connected_ssid rq st =
     (case wpa_wifi_get_current_connected_id rq st of
        None \<Rightarrow> None
      | Some (ret, i, st1) \<Rightarrow>
          (case i of
             Some n \<Rightarrow> if ret = 0 then map_option (\<lambda>s. (0, Some s, st1)) (info_ssid st1 n) else Some (-1, None, st1)
           | None \<Rightarrow> Some (-1, None, st1)))"

section \<open>Passwords\<close>

text \<open>The loop over the lines: whether the name was seen; the password.\<close>

fun psk_scan :: "string \<Rightarrow> bool \<Rightarrow> string list \<Rightarrow> string option" where
  "psk_scan name found [] = None"
| "psk_scan name found (l # ls) =
     (if strstr l name \<noteq> None \<and> strstr l ''ssid=\"'' \<noteq> None then psk_scan name True ls
      else if found then
        (case strstr l ''psk=\"'' of
           None \<Rightarrow> psk_scan name found ls
         | Some t \<Rightarrow> (case strchr (drop 5 t) (CHR ''\"'') of
             None \<Rightarrow> psk_scan name found ls
           | Some k \<Rightarrow> Some (take k (drop 5 t))))
      else psk_scan name found ls)"

definition wpa_wifi_get_password_for_ssid :: "string option \<Rightarrow> string \<Rightarrow> int \<times> string option" where
  "wpa_wifi_get_password_for_ssid conf name =
     (case conf of
        None \<Rightarrow> (-1, None)
      | Some text \<Rightarrow> (case psk_scan name False (map cstr (fgets_lines 255 text)) of
          None \<Rightarrow> (-1, None)
        | Some p \<Rightarrow> (0, Some p)))"

definition wpa_wifi_get_current_connected_ssid_and_password :: "'s request \<Rightarrow> string option \<Rightarrow> 's wpa \<Rightarrow> (int \<times> string option \<times> string option \<times> 's wpa) option" where
  "wpa_wifi_get_current_connected_ssid_and_password rq conf st =
     (case wpa_wifi_get_current_connected_ssid rq st of
        None \<Rightarrow> None
      | Some (ret, name, st1) \<Rightarrow>
          (case name of
             None \<Rightarrow> Some (-1, None, None, st1)
           | Some s \<Rightarrow> let (r, p) = wpa_wifi_get_password_for_ssid conf s in Some (if r \<noteq> 0 then -1 else 0, Some s, p, st1)))"

section \<open>Connecting\<close>

text \<open>
  The wait of the thread that watches a new connection: what it sees of \<open>monitor_is_stop\<close> and of the status at
  each check; the value of its timer at the end.
\<close>

function monitor_wait :: "(nat \<Rightarrow> bool \<times> wpa_status) \<Rightarrow> nat \<Rightarrow> nat" where
  "monitor_wait seen timer =
     (if \<not> fst (seen timer) \<and> timer < MAX_NEW_CONNECTION_TIMEOUT
      then (if snd (seen timer) = WPA_WIFI_SUCCESS then timer else monitor_wait seen (timer + 1))
      else timer)"
  by pat_completeness auto
termination by (relation "measure (\<lambda>(seen, timer). MAX_NEW_CONNECTION_TIMEOUT - timer)") auto

declare monitor_wait.simps [simp del]

definition connection_timed_out :: "'s request \<Rightarrow> 's wpa \<Rightarrow> 's wpa" where
  "connection_timed_out rq st =
     (let st1 = st\<lparr>network_num := network_num st - 1\<rparr>;
          st2 = sent rq (priority_cmd (previous_connected_network_id st1) CONNECT_NETWORK_PRIORITY) st1;
          st3 = (if pending_network_id st2 = network_num st2 then sent rq (id_cmd ''REMOVE_NETWORK'' (pending_network_id st2) []) st2 else st2)
      in st3\<lparr>pending_network_id := -1, cur_network_id := -1, previous_connected_network_id := -1,
           cur_wifi_status := WPA_WIFI_ERROR_UNKNOWN\<rparr>)"

definition connection_settled :: "'s request \<Rightarrow> 's wpa \<Rightarrow> 's wpa" where
  "connection_settled rq st =
     (if cur_network_id st \<noteq> pending_network_id st then
        let st1 = st\<lparr>network_num := network_num st - 1\<rparr>;
            st2 = (if cur_network_id st1 \<noteq> previous_connected_network_id st1
                   then sent rq (priority_cmd (previous_connected_network_id st1) DEFAULT_PRIORITY) st1 else st1);
            st3 = (if pending_network_id st2 = network_num st2 then sent rq (id_cmd ''REMOVE_NETWORK'' (pending_network_id st2) []) st2 else st2)
        in st3\<lparr>previous_connected_network_id := -1, pending_network_id := -1\<rparr>
      else
        let st1 = sent rq (priority_cmd (previous_connected_network_id st) DEFAULT_PRIORITY) st
        in st1\<lparr>previous_connected_network_id := -1, pending_network_id := -1\<rparr>)"

text \<open>The rest of the thread, on the state it finds after the wait.\<close>

definition new_connection_monitor :: "'s request \<Rightarrow> (nat \<Rightarrow> bool \<times> wpa_status) \<Rightarrow> 's wpa \<Rightarrow> 's wpa" where
  "new_connection_monitor rq seen st =
     (let st1 = (if monitor_wait seen 0 \<ge> MAX_NEW_CONNECTION_TIMEOUT then connection_timed_out rq st else connection_settled rq st)
      in if save_when_connected st1 then snd (wpa_wifi_send_save_config_cmd rq st1) else st1)"

definition wpa_wifi_connect_with_network_id :: "'s request \<Rightarrow> int \<Rightarrow> 's wpa \<Rightarrow> int \<times> 's wpa" where
  "wpa_wifi_connect_with_network_id rq i st =
     (if i < 0 \<or> i \<ge> network_num st then (-1, st)
      else
        let st1 = st\<lparr>cur_wifi_status := WPA_WIFI_INVALID, previous_connected_network_id := cur_network_id st, pending_network_id := i\<rparr>;
            st2 = (if auto_connect_when_fail st1
                   then sent rq ''ENABLE_NETWORK all'' (sent rq (priority_cmd (previous_connected_network_id st1) LAST_CONNECT_PRIORITY) st1)
                   else sent rq ''DISABLE_NETWORK all'' (sent rq (priority_cmd (previous_connected_network_id st1) DEFAULT_PRIORITY) st1));
            st3 = sent rq (priority_cmd i CONNECT_NETWORK_PRIORITY) st2;
            st4 = sent rq (id_cmd ''ENABLE_NETWORK'' i []) st3;
            st5 = sent rq ''REASSOCIATE'' st4
        in (0, st5\<lparr>monitors := monitors st5 + 1\<rparr>))"

definition quoted :: "string \<Rightarrow> string" where
  "quoted s = ''\"'' @ s @ ''\"''"

definition wpa_wifi_send_connect_cmd :: "'s request \<Rightarrow> string \<Rightarrow> string \<Rightarrow> 's wpa \<Rightarrow> (int \<times> 's wpa) option" where
  "wpa_wifi_send_connect_cmd rq name password st =
     (let (ret, r, st0) = send_wpa_cli_command rq 63 ''ADD_NETWORK'' st in
      case (case r of None \<Rightarrow> None | Some t \<Rightarrow> atoi t) of
        None \<Rightarrow> None
      | Some i \<Rightarrow>
          if i < 0 \<or> int MAX_NETWORKS \<le> i \<or> length name \<ge> WPA_SSID_SIZE_MAX then None
          else
            let st1 = st0\<lparr>network_num := network_num st0 + 1, network_info := (network_info st0)[nat i := (i, name)]\<rparr>;
                st2 = sent rq (id_cmd ''SET_NETWORK'' i ('' ssid '' @ quoted name)) st1;
                st3 = sent rq (id_cmd ''SET_NETWORK'' i '' key_mgmt WPA-PSK'') st2;
                st4 = sent rq (id_cmd ''SET_NETWORK'' i ('' psk '' @ quoted password)) st3;
                st5 = sent rq (id_cmd ''SET_NETWORK'' i '' pairwise CCMP TKIP'') st4;
                st6 = sent rq (id_cmd ''SET_NETWORK'' i '' group CCMP TKIP'') st5;
                st7 = sent rq (id_cmd ''SET_NETWORK'' i '' proto RSN'') st6
            in Some (0, snd (wpa_wifi_connect_with_network_id rq i st7)))"

section \<open>Removing\<close>

text \<open>One variable of the last network is asked for and set for another.\<close>

definition move_variable :: "'s request \<Rightarrow> int \<Rightarrow> int \<Rightarrow> string \<Rightarrow> 's wpa \<Rightarrow> 's wpa option" where
  "move_variable rq from_id to_id var st =
     (let (ret, r, st1) = send_wpa_cli_command rq 63 (id_cmd ''GET_NETWORK'' from_id ('' '' @ var)) st in
      map_option (\<lambda>v. sent rq (id_cmd ''SET_NETWORK'' to_id ('' '' @ var @ '' '' @ v)) st1) r)"

fun move_variables :: "'s request \<Rightarrow> int \<Rightarrow> int \<Rightarrow> string list \<Rightarrow> 's wpa \<Rightarrow> 's wpa option" where
  "move_variables rq from_id to_id [] st = Some st"
| "move_variables rq from_id to_id (v # vs) st =
     (case move_variable rq from_id to_id v st of None \<Rightarrow> None | Some st1 \<Rightarrow> move_variables rq from_id to_id vs st1)"

text \<open>The password has a buffer of 64 bytes, which holds nothing when none is found.\<close>

definition move_network :: "'s request \<Rightarrow> string option \<Rightarrow> int \<Rightarrow> int \<Rightarrow> 's wpa \<Rightarrow> 's wpa option" where
  "move_network rq conf from_id to_id st =
     (let (ret, r, st1) = send_wpa_cli_command rq 63 (id_cmd ''GET_NETWORK'' from_id '' ssid'') st in
      case r of
        None \<Rightarrow> None
      | Some v \<Rightarrow>
          let st2 = sent rq (id_cmd ''SET_NETWORK'' to_id ('' ssid '' @ v)) st1 in
          (case snd (wpa_wifi_get_password_for_ssid conf v) of
             None \<Rightarrow> None
           | Some p \<Rightarrow>
               if length p \<ge> 64 then None
               else move_variables rq from_id to_id [''key_mgmt'', ''pairwise'', ''group'', ''proto'', ''priority'']
                 (sent rq (id_cmd ''SET_NETWORK'' to_id ('' psk '' @ quoted p)) st2)))"

definition wpa_wifi_send_remove_network :: "'s request \<Rightarrow> string option \<Rightarrow> int \<Rightarrow> bool \<Rightarrow> 's wpa \<Rightarrow> (int \<times> 's wpa) option" where
  "wpa_wifi_send_remove_network rq conf i is_save st =
     (if i < -1 \<or> i \<ge> network_num st then Some (-1, st)
      else map_option (\<lambda>st1. (0, if is_save then sent rq ''SAVE_CONFIG'' st1 else st1))
        (if i = -1 then Some (sent rq ''REMOVE_NETWORK all'' (st\<lparr>network_num := 0\<rparr>))
         else if network_num st - 1 = i then
           (let st1 = sent rq (id_cmd ''REMOVE_NETWORK'' i []) st in Some (st1\<lparr>network_num := network_num st1 - 1\<rparr>))
         else
           (let m = network_num st - 1 in
            case move_network rq conf m i st of
              None \<Rightarrow> None
            | Some st1 \<Rightarrow>
                let st2 = sent rq (id_cmd ''REMOVE_NETWORK'' m []) st1 in
                (case info_ssid st2 m of
                   None \<Rightarrow> None
                 | Some name \<Rightarrow>
                     let st3 = st2\<lparr>network_info := (network_info st2)[nat i := (fst (network_info st2 ! nat i), name)],
                                   network_num := network_num st2 - 1\<rparr>
                     in Some (if cur_network_id st3 = m \<or> cur_network_id st3 = i then sent rq ''REASSOCIATE'' st3 else st3)))))"

section \<open>Events\<close>

datatype wpa_event = SCAN_STARTED | SCAN_RESULTS | AP_AVAILABLE_PBC | WPS_TIMEOUT | WPS_SUCCESS | CONNECTED | DISCONNECTED
  | TEMP_DISABLED | NETWORK_NOT_FOUND

text \<open>The event of a message: the first, in the order of the code, whose text occurs in it.\<close>

definition event_of :: "(wpa_event \<Rightarrow> string) \<Rightarrow> string \<Rightarrow> wpa_event option" where
  "event_of evs msg = find (\<lambda>e. strstr msg (evs e) \<noteq> None)
     [SCAN_STARTED, SCAN_RESULTS, AP_AVAILABLE_PBC, WPS_TIMEOUT, WPS_SUCCESS, CONNECTED, DISCONNECTED, TEMP_DISABLED, NETWORK_NOT_FOUND]"

definition call_back :: "string \<Rightarrow> 's wpa \<Rightarrow> 's wpa" where
  "call_back name st = (if connect_callback st then st\<lparr>callbacks := callbacks st @ [(name, cur_wifi_status st)]\<rparr> else st)"

definition on_connected :: "'s request \<Rightarrow> 's wpa \<Rightarrow> 's wpa option" where
  "on_connected rq st =
     (case wpa_wifi_get_current_connected_id rq st of
        None \<Rightarrow> None
      | Some (ret, i, st0) \<Rightarrow>
          let st1 = (case i of None \<Rightarrow> st0 | Some n \<Rightarrow> st0\<lparr>cur_network_id := n\<rparr>) in
          (case info_ssid st1 (cur_network_id st1) of
             None \<Rightarrow> None
           | Some name \<Rightarrow>
               let st2 = snd (send_ret rq 4095 (priority_cmd (cur_network_id st1) CONNECT_NETWORK_PRIORITY) (st1\<lparr>cur_wifi_status := WPA_WIFI_SUCCESS\<rparr>));
                   st3 = (if save_when_connected st2 then snd (send_ret rq 4095 ''SAVE_CONFIG'' st2) else st2)
               in Some (call_back name st3)))"

definition handle_event :: "'s request \<Rightarrow> wpa_event \<Rightarrow> 's wpa \<Rightarrow> 's wpa option" where
  "handle_event rq e st =
     (case e of
        SCAN_STARTED \<Rightarrow>
          Some (if cur_scan_status st = WPA_WIFI_SCAN_STATE_CMD_SENT
                then (snd (send_ret rq 4095 (id_cmd ''BSS_FLUSH'' (cur_network_id st) []) st))\<lparr>cur_scan_status := WPA_WIFI_SCAN_STATE_STARTED\<rparr>
                else st)
      | SCAN_RESULTS \<Rightarrow>
          Some (if cur_scan_status st = WPA_WIFI_SCAN_STATE_STARTED then st\<lparr>cur_scan_status := WPA_WIFI_SCAN_STATE_RESULTS_RECEIVED\<rparr> else st)
      | AP_AVAILABLE_PBC \<Rightarrow> Some (st\<lparr>cur_wifi_status := WPA_WIFI_CONNECTING\<rparr>)
      | WPS_TIMEOUT \<Rightarrow> Some (st\<lparr>cur_wifi_status := WPA_WIFI_ERROR_NOT_FOUND\<rparr>)
      | WPS_SUCCESS \<Rightarrow> Some st
      | CONNECTED \<Rightarrow> on_connected rq st
      | DISCONNECTED \<Rightarrow> Some (st\<lparr>cur_wifi_status := WPA_WIFI_DISCONNECTED\<rparr>)
      | TEMP_DISABLED \<Rightarrow>
          (let (ret, r, st1) = send_wpa_cli_command rq 63 (id_cmd ''GET_NETWORK'' (cur_network_id st) '' ssid'') st;
               st2 = st1\<lparr>cur_wifi_status := WPA_WIFI_ERROR_INVALID_CREDENTIALS\<rparr>
           in map_option (\<lambda>name. call_back name st2) r)
      | NETWORK_NOT_FOUND \<Rightarrow> Some (st\<lparr>cur_wifi_status := WPA_WIFI_ERROR_NOT_FOUND\<rparr>))"

text \<open>One message of \<open>wpa_supplicant\<close>; without \<open>>\<close> the code reads at the address 1.\<close>

definition event_message :: "'s request \<Rightarrow> (wpa_event \<Rightarrow> string) \<Rightarrow> string \<Rightarrow> 's wpa \<Rightarrow> 's wpa option" where
  "event_message rq evs msg st =
     (let buf = cstr (take 511 msg) in
      case strchr buf (CHR ''>'') of
        None \<Rightarrow> None
      | Some k \<Rightarrow> (case event_of evs (drop (k + 1) buf) of None \<Rightarrow> Some st | Some e \<Rightarrow> handle_event rq e st))"

section \<open>Results of a scan\<close>

text \<open>The waits of \<open>wpa_wifi_get_scan_results\<close>: \<open>seen\<close> is the scan status at each check.\<close>

function scan_wait :: "(nat \<Rightarrow> wpa_scan_state) \<Rightarrow> nat \<Rightarrow> wpa_scan_state" where
  "scan_wait seen n =
     (if seen n \<noteq> WPA_WIFI_SCAN_STATE_RESULTS_RECEIVED \<and> n < 40 then scan_wait seen (n + 1) else seen n)"
  by pat_completeness auto
termination by (relation "measure (\<lambda>(seen, n). 40 - n)") auto

declare scan_wait.simps [simp del]

text \<open>The result, the array, what is stored in \<open>*ap_count\<close>.\<close>

definition wpa_wifi_get_scan_results :: "'s request \<Rightarrow> (nat \<Rightarrow> wpa_scan_state) \<Rightarrow> ap_info list \<Rightarrow> int \<Rightarrow> bool \<Rightarrow> 's wpa
    \<Rightarrow> (int \<times> ap_info list \<times> nat option \<times> 's wpa) option" where
  "wpa_wifi_get_scan_results rq seen arr sz by_strength st =
     (if scan_wait seen 0 \<noteq> WPA_WIFI_SCAN_STATE_RESULTS_RECEIVED then Some (-1, arr, None, st)
      else let (ret, r, st1) = send_wpa_cli_command rq 4095 ''SCAN_RESULTS'' st in
        case r of
          None \<Rightarrow> None
        | Some text \<Rightarrow> (case parse_scan_results text by_strength of
            None \<Rightarrow> None
          | Some None \<Rightarrow> Some (-1, arr, None, st1)
          | Some (Some aps) \<Rightarrow>
              let (arr1, n) = fill_results aps sz arr in Some (0, arr1, Some n, st1\<lparr>cur_scan_status := WPA_WIFI_SCAN_STATE_IDLE\<rparr>)))"

section \<open>Queries\<close>

definition wpa_wifi_get_current_wifi_status :: "'s wpa \<Rightarrow> int \<times> wpa_status" where
  "wpa_wifi_get_current_wifi_status st = (0, cur_wifi_status st)"

definition wpa_wifi_get_current_scan_status :: "'s wpa \<Rightarrow> int \<times> wpa_scan_state" where
  "wpa_wifi_get_current_scan_status st = (0, cur_scan_status st)"

text \<open>The entries that are copied to the caller's array, whose names have buffers of the same size; a number above
  the size of the manager's array is read past its end.\<close>

definition wpa_wifi_get_networks_info :: "int \<Rightarrow> 's wpa \<Rightarrow> (int \<times> (int \<times> string) list) option" where
  "wpa_wifi_get_networks_info sz st =
     (if network_num st \<le> 0 then Some (0, [])
      else let n = (if network_num st < sz then network_num st else sz) in
        if n \<le> int (length (network_info st)) then Some (0, take (nat n) (network_info st)) else None)"

fun saved_loop :: "string \<Rightarrow> (int \<times> string) list \<Rightarrow> int option" where
  "saved_loop name [] = None"
| "saved_loop name ((i, s) # l) = (if s = name then Some i else saved_loop name l)"

definition wpa_wifi_ssid_is_saved_in_config :: "string \<Rightarrow> 's wpa \<Rightarrow> int option" where
  "wpa_wifi_ssid_is_saved_in_config name st = saved_loop name (take (nat (network_num st)) (network_info st))"

section \<open>Starting\<close>

fun status_lines :: "string list \<Rightarrow> 's wpa \<Rightarrow> 's wpa" where
  "status_lines [] st = st"
| "status_lines (l # ls) st =
     (if strstr l ''wpa_state=COMPLETED'' \<noteq> None then status_lines ls (st\<lparr>cur_wifi_status := WPA_WIFI_SUCCESS\<rparr>)
      else if strstr l ''id='' \<noteq> None \<and> starts_with ''id='' l
      then (case scan_dec (drop 3 l) of None \<Rightarrow> status_lines ls st | Some (i, rest) \<Rightarrow> status_lines ls (st\<lparr>cur_network_id := i\<rparr>))
      else status_lines ls st)"

definition init_cur_wifi_status :: "'s request \<Rightarrow> 's wpa \<Rightarrow> 's wpa option" where
  "init_cur_wifi_status rq st =
     (let (ret, r, st1) = send_wpa_cli_command rq 511 ''STATUS'' st in
      if ret \<noteq> 0 then Some st1 else map_option (\<lambda>t. status_lines (tokens NL [] t) st1) r)"

text \<open>A line of the list: \<open>sscanf\<close> with \<open>%d\t%[^\t\n]\<close>; the tab of the format matches any white space.\<close>

definition network_line :: "string \<Rightarrow> (int \<times> string) option" where
  "network_line l =
     (case scan_dec l of
        None \<Rightarrow> None
      | Some (i, rest) \<Rightarrow>
          (let name = takeWhile (\<lambda>c. c \<noteq> TAB \<and> c \<noteq> NL) (skip_ws rest) in if name = [] then None else Some (i, name)))"

text \<open>The loop: the entries stored; \<^const>\<open>None\<close>: a name too long for its buffer.\<close>

fun network_lines :: "string list \<Rightarrow> (int \<times> string) list \<Rightarrow> (int \<times> string) list option" where
  "network_lines [] info = Some info"
| "network_lines (l # ls) info =
     (if strstr l ''network id'' \<noteq> None \<or> strstr l ''---'' \<noteq> None then network_lines ls info
      else (case network_line l of
          None \<Rightarrow> network_lines ls info
        | Some (i, name) \<Rightarrow>
            if length name \<ge> WPA_SSID_SIZE_MAX then None
            else network_lines ls (if length info < MAX_NETWORKS then info @ [(i, name)] else info)))"

definition init_network_info :: "'s request \<Rightarrow> 's wpa \<Rightarrow> 's wpa option" where
  "init_network_info rq st =
     (let (ret, r, st1) = send_wpa_cli_command rq 511 ''LIST_NETWORKS'' st in
      if ret \<noteq> 0 then Some st1
      else (case r of
          None \<Rightarrow> None
        | Some t \<Rightarrow> map_option (\<lambda>info. st1\<lparr>network_info := info @ drop (length info) (network_info st1), network_num := int (length info)\<rparr>)
            (network_lines (tokens NL [] t) [])))"

text \<open>The tries to open the control interface: whether a handle is there and the value of \<open>retry\<close>; \<open>opens\<close>
  tells whether each call succeeds.\<close>

function open_loop :: "(nat \<Rightarrow> bool) \<Rightarrow> bool \<Rightarrow> nat \<Rightarrow> bool \<times> nat" where
  "open_loop opens h retry =
     (if h then (True, retry)
      else let h1 = opens (retry + 1) in if retry + 1 > MAX_RETRY then (h1, retry + 1) else open_loop opens h1 (retry + 1))"
  by pat_completeness auto
termination by (relation "measure (\<lambda>(opens, h, retry). MAX_RETRY - retry)") auto

declare open_loop.simps [simp del]

definition wpa_wifi_init :: "'s request \<Rightarrow> (nat \<Rightarrow> bool) \<Rightarrow> bool \<Rightarrow> bool \<Rightarrow> bool \<Rightarrow> bool \<Rightarrow> bool \<Rightarrow> 's wpa \<Rightarrow> (int \<times> 's wpa) option" where
  "wpa_wifi_init rq opens attach thread callback save auto st =
     (let (h, retry) = open_loop opens (opens 0) 0;
          st1 = st\<lparr>connect_callback := callback, save_when_connected := save, auto_connect_when_fail := auto, cur_network_id := -1,
            network_num := 0, previous_connected_network_id := -1, pending_network_id := -1, monitor_is_stop := False, ctrl_handle := h\<rparr>
      in if retry > MAX_RETRY then Some (-1, st1)
        else (case init_cur_wifi_status rq st1 of
            None \<Rightarrow> None
          | Some st2 \<Rightarrow> (case init_network_info rq st2 of
              None \<Rightarrow> None
            | Some st3 \<Rightarrow> if \<not> attach then Some (-1, st3) else if \<not> thread then Some (-1, st3) else Some (0, st3))))"

text \<open>The handle is closed but stays set.\<close>

definition wpa_wifi_uninit :: "'s wpa \<Rightarrow> int \<times> 's wpa" where
  "wpa_wifi_uninit st = (0, st\<lparr>monitor_is_stop := True\<rparr>)"

end
