(* ===== verification/WpaProps.thy ===== *)
theory WpaProps
  imports WpaNet
begin

text \<open>
  What the manager of \<open>aml_wpa_wifi_util/aml_wpa_wifi_util.c\<close> does over several steps: a scan, a connection that
  succeeds or fails, the removal of a network, and the list of networks at the start.
\<close>

section \<open>What a command leaves alone\<close>

lemma send_cases:
  "send_wpa_cli_command rq n cmd st = (if \<not> ctrl_handle st then (-3, Some [], st)
     else let s = rq (sup st) (take 255 cmd) in
       (if fst s = -2 then -2 else if fst s < 0 then -1 else 0, if fst s < 0 then Some [] else reply_text n (fst (snd s)),
        st\<lparr>sup := snd (snd s), commands := commands st @ [take 255 cmd]\<rparr>))"
  by (simp add: send_wpa_cli_command_def Let_def split: prod.splits)

lemma sent_eq:
  "sent rq cmd st = (if ctrl_handle st then st\<lparr>sup := snd (snd (rq (sup st) (take 255 cmd))), commands := commands st @ [take 255 cmd]\<rparr> else st)"
  by (simp add: sent_def send_ret_def send_cases Let_def)

lemma send_ret_eq: "snd (send_ret rq n cmd st) = sent rq cmd st"
  by (simp add: sent_def send_ret_def send_cases Let_def)

lemma sent_keeps [simp]:
  "ctrl_handle (sent rq cmd st) = ctrl_handle st" "network_num (sent rq cmd st) = network_num st"
  "network_info (sent rq cmd st) = network_info st" "cur_network_id (sent rq cmd st) = cur_network_id st"
  "pending_network_id (sent rq cmd st) = pending_network_id st" "previous_connected_network_id (sent rq cmd st) = previous_connected_network_id st"
  "cur_wifi_status (sent rq cmd st) = cur_wifi_status st" "cur_scan_status (sent rq cmd st) = cur_scan_status st"
  "save_when_connected (sent rq cmd st) = save_when_connected st" "auto_connect_when_fail (sent rq cmd st) = auto_connect_when_fail st"
  "connect_callback (sent rq cmd st) = connect_callback st" "callbacks (sent rq cmd st) = callbacks st"
  "monitors (sent rq cmd st) = monitors st"
  by (simp_all add: sent_eq)

lemma sent_commands [simp]: "ctrl_handle st \<Longrightarrow> commands (sent rq cmd st) = commands st @ [take 255 cmd]"
  by (simp add: sent_eq)

lemma short_reply: "length r < n \<Longrightarrow> NUL \<notin> set r \<Longrightarrow> reply_text n r = Some r"
  by (simp add: reply_text_def)

lemma monitor_wait_success: "\<not> fst (seen n) \<Longrightarrow> snd (seen n) = WPA_WIFI_SUCCESS \<Longrightarrow> n < 24 \<Longrightarrow> monitor_wait seen n = n"
  by (simp add: monitor_wait.simps MAX_NEW_CONNECTION_TIMEOUT_def)

lemma monitor_wait_timeout:
  "(\<forall>i. \<not> fst (seen i) \<and> snd (seen i) \<noteq> WPA_WIFI_SUCCESS) \<Longrightarrow> n \<le> 24 \<Longrightarrow> monitor_wait seen n = 24"
  by (induction seen n rule: monitor_wait.induct) (subst monitor_wait.simps, auto simp: MAX_NEW_CONNECTION_TIMEOUT_def)

lemma scan_wait_received: "seen k = WPA_WIFI_SCAN_STATE_RESULTS_RECEIVED \<Longrightarrow> n \<le> k \<Longrightarrow> k \<le> 40
    \<Longrightarrow> scan_wait seen n = WPA_WIFI_SCAN_STATE_RESULTS_RECEIVED"
proof (induction seen n rule: scan_wait.induct)
  case (1 seen n)
  show ?case
  proof (cases "seen n = WPA_WIFI_SCAN_STATE_RESULTS_RECEIVED")
    case False
    then have "n < k" using "1.prems" by (cases "n = k") auto
    then show ?thesis using "1.IH" "1.prems" False by (simp add: scan_wait.simps[of seen n])
  qed (simp add: scan_wait.simps)
qed

section \<open>A scan\<close>

lemma scan_text_plain: "list_all ap_ok aps \<Longrightarrow> NUL \<notin> set (scan_text aps)"
  by (auto simp: scan_text_def ap_line_def ap_ok_def list_all_iff SCAN_HEADER_def TAB_def NL_def isdigit_def cval_def dest!: pr_int_chars)

lemma best_of_sorted: "best_of (sort_key f aps) es = best_of aps es"
  by (simp add: best_of_def)

lemma sort_strength: "sorted_wrt (\<lambda>a b. signal_strength b \<le> signal_strength a) (sort_key (\<lambda>ap. - signal_strength ap) aps)"
  using sorted_sort_key[of "\<lambda>ap. - signal_strength ap" aps] by (simp add: sorted_map)

text \<open>C33: When the results of a scan arrive while the call waits (within 40 checks), \<open>wpa_wifi_get_scan_results\<close> sorted by strength
  fills one entry for each network name that is not empty: the strongest access point of that name, the entries in the
  order of their strength; the scan state is idle again. Conditions: the control interface is open and \<open>SCAN_RESULTS\<close> succeeds;
  the reply is a header line and a line for each access point, in all less than 4095 bytes; there are at most 63 access
  points, fewer than the size given for the array, which is true and whose names are buffers of 64 bytes that end with
  a NUL; BSSID and SSID as printed, that is with every byte that is not printable ASCII escaped in four characters, have less
  than 64 characters and the flags less than 256, without tab, newline and NUL; the numbers are below \<open>2^30\<close>. A longer SSID
  ends the parse (\<open>aml_wpa_wifi_util.c\<close>, line 126), and the access points behind it are lost.\<close>

theorem scan_results_strongest:
  assumes "seen k = WPA_WIFI_SCAN_STATE_RESULTS_RECEIVED" "k \<le> 40" "ctrl_handle st" "rq (sup st) ''SCAN_RESULTS'' = (0, scan_text aps, s')"
    "list_all ap_ok aps" "length aps \<le> 63" "length (scan_text aps) < 4095" "list_all entry_ok arr" "length aps \<le> length arr"
    "int (length aps) < sz"
  shows "\<exists>arr' n. wpa_wifi_get_scan_results rq seen arr sz True st
      = Some (0, arr', Some n, st\<lparr>sup := s', commands := commands st @ [''SCAN_RESULTS''], cur_scan_status := WPA_WIFI_SCAN_STATE_IDLE\<rparr>)
    \<and> best_of aps (take n arr')"
proof -
  have "scan_wait seen 0 = WPA_WIFI_SCAN_STATE_RESULTS_RECEIVED" using assms(1,2) by (intro scan_wait_received[of seen k]) simp_all
  moreover have "reply_text 4095 (scan_text aps) = Some (scan_text aps)" using assms(5,7) by (intro short_reply scan_text_plain)
  moreover have "parse_scan_results (scan_text aps) True = Some (Some (sort_key (\<lambda>ap. - signal_strength ap) aps))"
    using parse_scan_text(1)[OF assms(5)] assms(6) by simp
  moreover obtain arr' n where "fill_results (sort_key (\<lambda>ap. - signal_strength ap) aps) sz arr = (arr', n)" "best_of aps (take n arr')"
    using fill_best[OF sort_strength, of aps arr sz] assms(5,8-10) by (auto simp: list_all_iff best_of_sorted)
  ultimately show ?thesis using assms(3,4) by (simp add: wpa_wifi_get_scan_results_def send_cases)
qed

definition demo_wpa :: "nat wpa" where
  "demo_wpa = \<lparr>ctrl_handle = True, connect_callback = False, monitor_is_stop = False, cur_scan_status = WPA_WIFI_SCAN_STATE_IDLE,
     cur_wifi_status = WPA_WIFI_INVALID, save_when_connected = True, network_num = 2, cur_network_id = 0,
     previous_connected_network_id = -1, pending_network_id = -1,
     network_info = [(0, ''home''), (1, ''cafe'')] @ replicate 8 (0, []), auto_connect_when_fail = True, monitors = 0,
     callbacks = [], commands = [], sup = 0\<rparr>"

definition demo_aps :: "ap_info list" where
  "demo_aps = [\<lparr>bssid = ''a'', frequency = 2412, signal_strength = -70, signal_level = WPA_WIFI_LEVEL_2, flags = ''[ESS]'', ssid = ''home''\<rparr>,
     \<lparr>bssid = ''b'', frequency = 5180, signal_strength = -40, signal_level = WPA_WIFI_LEVEL_4, flags = ''[ESS]'', ssid = ''home''\<rparr>]"

definition demo_scan :: "nat request" where
  "demo_scan s c = (0, scan_text demo_aps, s + 1)"

definition demo_array :: "ap_info list" where
  "demo_array = replicate 3 \<lparr>bssid = replicate 64 NUL, frequency = 0, signal_strength = 0, signal_level = WPA_WIFI_LEVEL_0, flags = [], ssid = replicate 64 NUL\<rparr>"

definition demo_seen :: "nat \<Rightarrow> wpa_scan_state" where
  "demo_seen n = (if n < 2 then WPA_WIFI_SCAN_STATE_STARTED else WPA_WIFI_SCAN_STATE_RESULTS_RECEIVED)"

lemma scan_results_strongest_witness:
  "\<exists>arr' n. wpa_wifi_get_scan_results demo_scan demo_seen demo_array 3 True demo_wpa
      = Some (0, arr', Some n, demo_wpa\<lparr>sup := 1, commands := commands demo_wpa @ [''SCAN_RESULTS''], cur_scan_status := WPA_WIFI_SCAN_STATE_IDLE\<rparr>)
    \<and> best_of demo_aps (take n arr')"
proof -
  have "list_all ap_ok demo_aps" by (simp add: demo_aps_def ap_ok_def signal_level_of_def TAB_def NL_def)
  moreover have "length (scan_text demo_aps) < 4095"
    using length_token[of 2412] length_token[of 5180] length_token[of "-70"] length_token[of "-40"]
    by (simp add: scan_text_def ap_line_def demo_aps_def SCAN_HEADER_def)
  moreover have "list_all entry_ok demo_array" by (simp add: demo_array_def entry_ok_def list_all_iff)
  moreover have "length demo_aps = 2" "length demo_array = 3" by (simp_all add: demo_aps_def demo_array_def)
  moreover have "ctrl_handle demo_wpa" "demo_scan (sup demo_wpa) ''SCAN_RESULTS'' = (0, scan_text demo_aps, 1)"
    by (simp_all add: demo_wpa_def demo_scan_def)
  ultimately show ?thesis
    by (intro scan_results_strongest[where k = 2]) (simp_all add: demo_seen_def)
qed

text \<open>The state \<open>CMD_SENT\<close> is stored after the reply to \<open>SCAN\<close>, in a critical section of its own. When the event thread
  handles the start of the scan before that, the event is ignored, and so are the results: the scan stays in \<open>CMD_SENT\<close> and
  \<open>wpa_wifi_get_scan_results\<close> ends with an error, whatever \<open>wpa_supplicant\<close> found.\<close>

theorem scan_start_lost:
  assumes "cur_scan_status st = WPA_WIFI_SCAN_STATE_IDLE" "\<forall>i. seen i = cur_scan_status st3"
    "handle_event rq SCAN_STARTED st = Some st1" "st2 = st1\<lparr>cur_scan_status := WPA_WIFI_SCAN_STATE_CMD_SENT\<rparr>"
    "handle_event rq SCAN_RESULTS st2 = Some st3"
  shows "st3 = st\<lparr>cur_scan_status := WPA_WIFI_SCAN_STATE_CMD_SENT\<rparr>
    \<and> wpa_wifi_get_scan_results rq seen arr sz by_strength st3 = Some (-1, arr, None, st3)"
proof -
  have st3: "st3 = st\<lparr>cur_scan_status := WPA_WIFI_SCAN_STATE_CMD_SENT\<rparr>" using assms(1,3-5) by (simp add: handle_event_def)
  have "scan_wait seen n = WPA_WIFI_SCAN_STATE_CMD_SENT" for n
    using assms(2) st3 by (induction seen n rule: scan_wait.induct) (simp add: scan_wait.simps)
  then show ?thesis using st3 by (simp add: wpa_wifi_get_scan_results_def)
qed

lemma scan_start_lost_witness:
  "wpa_wifi_get_scan_results demo_scan (\<lambda>i. WPA_WIFI_SCAN_STATE_CMD_SENT) demo_array 3 True
      (demo_wpa\<lparr>cur_scan_status := WPA_WIFI_SCAN_STATE_CMD_SENT\<rparr>)
    = Some (-1, demo_array, None, demo_wpa\<lparr>cur_scan_status := WPA_WIFI_SCAN_STATE_CMD_SENT\<rparr>)"
  using scan_start_lost[of demo_wpa "\<lambda>i. WPA_WIFI_SCAN_STATE_CMD_SENT" "demo_wpa\<lparr>cur_scan_status := WPA_WIFI_SCAN_STATE_CMD_SENT\<rparr>" demo_scan demo_wpa
      "demo_wpa\<lparr>cur_scan_status := WPA_WIFI_SCAN_STATE_CMD_SENT\<rparr>" demo_array 3 True]
  by (simp add: demo_wpa_def handle_event_def)

section \<open>Connecting\<close>

text \<open>The names of the saved networks, and that the entry \<open>i\<close> of the array is the network \<open>i\<close>.\<close>

definition saved :: "'s wpa \<Rightarrow> string list" where
  "saved st = map snd (take (nat (network_num st)) (network_info st))"

definition wpa_ok :: "'s wpa \<Rightarrow> bool" where
  "wpa_ok st \<longleftrightarrow> ctrl_handle st \<and> length (network_info st) = MAX_NETWORKS \<and> 0 \<le> network_num st \<and> network_num st \<le> int MAX_NETWORKS
     \<and> map fst (take (nat (network_num st)) (network_info st)) = map int [0..<nat (network_num st)]"

lemma connect_with:
  assumes "ctrl_handle st" "0 \<le> i" "i < network_num st"
  shows "fst (wpa_wifi_connect_with_network_id rq i st) = 0"
    "cur_wifi_status (snd (wpa_wifi_connect_with_network_id rq i st)) = WPA_WIFI_INVALID"
    "previous_connected_network_id (snd (wpa_wifi_connect_with_network_id rq i st)) = cur_network_id st"
    "pending_network_id (snd (wpa_wifi_connect_with_network_id rq i st)) = i"
    "network_num (snd (wpa_wifi_connect_with_network_id rq i st)) = network_num st"
    "network_info (snd (wpa_wifi_connect_with_network_id rq i st)) = network_info st"
    "cur_network_id (snd (wpa_wifi_connect_with_network_id rq i st)) = cur_network_id st"
    "ctrl_handle (snd (wpa_wifi_connect_with_network_id rq i st))"
    "save_when_connected (snd (wpa_wifi_connect_with_network_id rq i st)) = save_when_connected st"
  using assms by (simp_all add: wpa_wifi_connect_with_network_id_def Let_def)

lemma atoi_reply: "0 \<le> n \<Longrightarrow> n < 10 \<Longrightarrow> atoi (pr_int n @ [NL]) = Some n"
  using scan_dec_int[of "[NL]" n] by (simp add: atoi_def NL_def isdigit_def cval_def)

lemma pr_int_short: "0 \<le> n \<Longrightarrow> n < 10 \<Longrightarrow> length (pr_int n) < 62"
  using length_pr_int[of n 10] by simp

lemma id_cmd_short: "0 \<le> n \<Longrightarrow> n < 10 \<Longrightarrow> take 255 (id_cmd ''REMOVE_NETWORK'' n []) = id_cmd ''REMOVE_NETWORK'' n []"
  using pr_int_short[of n] by (simp add: id_cmd_def)

text \<open>What \<open>wpa_wifi_send_connect_cmd\<close> does when \<open>wpa_supplicant\<close> gives the next number.\<close>

lemma connect_cmd:
  assumes "wpa_ok st" "network_num st < int MAX_NETWORKS" "length name < WPA_SSID_SIZE_MAX"
    "rq (sup st) ''ADD_NETWORK'' = (0, pr_int (network_num st) @ [NL], s')"
  shows "\<exists>st'. wpa_wifi_send_connect_cmd rq name password st = Some (0, st') \<and> network_num st' = network_num st + 1
    \<and> network_info st' = (network_info st)[nat (network_num st) := (network_num st, name)] \<and> cur_wifi_status st' = WPA_WIFI_INVALID
    \<and> previous_connected_network_id st' = cur_network_id st \<and> pending_network_id st' = network_num st
    \<and> cur_network_id st' = cur_network_id st \<and> save_when_connected st' = save_when_connected st \<and> ctrl_handle st'"
proof -
  have n: "0 \<le> network_num st" "network_num st < 10" "ctrl_handle st" using assms(1,2) by (auto simp: wpa_ok_def MAX_NETWORKS_def)
  have "NUL \<notin> set (pr_int (network_num st) @ [NL])" by (auto simp: NL_def isdigit_def cval_def dest!: pr_int_chars)
  then have "reply_text 63 (pr_int (network_num st) @ [NL]) = Some (pr_int (network_num st) @ [NL])"
    using pr_int_short n by (intro short_reply) simp_all
  then show ?thesis using n assms(3,4) atoi_reply[of "network_num st"]
    by (simp add: wpa_wifi_send_connect_cmd_def send_cases Let_def MAX_NETWORKS_def connect_with)
qed

text \<open>The event of a connection, when the status names the network \<open>i\<close>.\<close>

definition tells_id :: "'s request \<Rightarrow> int \<Rightarrow> bool" where
  "tells_id rq i \<longleftrightarrow> (\<forall>s. \<exists>t s'. rq s ''STATUS'' = (0, t, s') \<and> NUL \<notin> set t \<and> length t < 511
     \<and> find (starts_with ''id='') (tokens NL [] t) = Some (''id='' @ pr_int i))"

lemma connected_event:
  assumes "tells_id rq i" "wpa_ok st" "0 \<le> i" "i < 10"
  shows "\<exists>st'. handle_event rq CONNECTED st = Some st' \<and> cur_network_id st' = i \<and> cur_wifi_status st' = WPA_WIFI_SUCCESS
    \<and> network_num st' = network_num st \<and> network_info st' = network_info st \<and> pending_network_id st' = pending_network_id st
    \<and> save_when_connected st' = save_when_connected st \<and> ctrl_handle st'"
proof -
  obtain t s' where t: "rq (sup st) ''STATUS'' = (0, t, s')" "NUL \<notin> set t" "length t < 511"
    "find (starts_with ''id='') (tokens NL [] t) = Some (''id='' @ pr_int i)" using assms(1) unfolding tells_id_def by blast
  have "atoi (pr_int i) = Some i" using assms(3,4) by (intro atoi_pr_int) simp_all
  then show ?thesis using assms(2-4) t
    by (simp add: handle_event_def on_connected_def wpa_wifi_get_current_connected_id_def send_cases short_reply wpa_ok_def
        info_ssid_def MAX_NETWORKS_def Let_def send_ret_eq call_back_def)
qed

lemma take_update_new: "k < length xs \<Longrightarrow> take (k + 1) (xs[k := x]) = take k xs @ [x]"
  by (simp add: take_Suc_conv_app_nth)

lemma new_network_info:
  assumes "wpa_ok st" "network_num st < int MAX_NETWORKS" "ctrl_handle st'" "network_num st' = network_num st + 1"
    "network_info st' = (network_info st)[nat (network_num st) := (network_num st, name)]"
  shows "wpa_ok st'" "saved st' = saved st @ [name]"
proof -
  have n: "nat (network_num st + 1) = nat (network_num st) + 1" "nat (network_num st) < length (network_info st)"
    using assms(1,2) by (auto simp: wpa_ok_def)
  show "saved st' = saved st @ [name]" unfolding saved_def assms(4,5) n(1) take_update_new[OF n(2)] by simp
  have "map fst (take (nat (network_num st')) (network_info st')) = map int [0..<nat (network_num st')]"
    unfolding assms(4,5) n(1) take_update_new[OF n(2)] using assms(1) by (simp add: wpa_ok_def)
  then show "wpa_ok st'" using assms by (simp add: wpa_ok_def)
qed

text \<open>A new network that can be joined is saved: the number from \<open>wpa_supplicant\<close> is the next free entry, the event of the
  connection sets the status and the current network, and the watching thread, which sees the success, leaves
  the network as the last of the saved ones.\<close>

theorem new_network_saved:
  assumes "wpa_ok st" "network_num st < int MAX_NETWORKS" "length name < WPA_SSID_SIZE_MAX"
    "rq (sup st) ''ADD_NETWORK'' = (0, pr_int (network_num st) @ [NL], s')" "tells_id rq (network_num st)"
    "\<not> fst (seen 0)" "snd (seen 0) = WPA_WIFI_SUCCESS"
  shows "\<exists>st1 st2. wpa_wifi_send_connect_cmd rq name password st = Some (0, st1) \<and> handle_event rq CONNECTED st1 = Some st2
    \<and> wpa_ok (new_connection_monitor rq seen st2) \<and> saved (new_connection_monitor rq seen st2) = saved st @ [name]
    \<and> cur_network_id (new_connection_monitor rq seen st2) = network_num st
    \<and> cur_wifi_status (new_connection_monitor rq seen st2) = WPA_WIFI_SUCCESS
    \<and> pending_network_id (new_connection_monitor rq seen st2) = -1"
proof -
  obtain st1 where st1: "wpa_wifi_send_connect_cmd rq name password st = Some (0, st1)" "network_num st1 = network_num st + 1"
    "network_info st1 = (network_info st)[nat (network_num st) := (network_num st, name)]" "pending_network_id st1 = network_num st" "ctrl_handle st1"
    using connect_cmd[where rq = rq and st = st and name = name, OF assms(1-4)] by blast
  note ok = new_network_info[OF assms(1,2) st1(5,2,3)]
  have n: "0 \<le> network_num st" "network_num st < 10" using assms(1,2) by (auto simp: wpa_ok_def MAX_NETWORKS_def)
  obtain st2 where st2: "handle_event rq CONNECTED st1 = Some st2" "cur_network_id st2 = network_num st" "cur_wifi_status st2 = WPA_WIFI_SUCCESS"
    "network_num st2 = network_num st1" "network_info st2 = network_info st1" "pending_network_id st2 = pending_network_id st1" "ctrl_handle st2"
    using connected_event[OF assms(5) ok(1) n] by blast
  have w: "monitor_wait seen 0 = 0" using assms(6,7) by (intro monitor_wait_success) simp_all
  define st3 where "st3 = new_connection_monitor rq seen st2"
  have st3: "network_num st3 = network_num st1" "network_info st3 = network_info st1" "cur_network_id st3 = network_num st"
    "cur_wifi_status st3 = WPA_WIFI_SUCCESS" "pending_network_id st3 = -1" "ctrl_handle st3"
    using st1(4) st2(2-7) by (simp_all add: st3_def new_connection_monitor_def w MAX_NEW_CONNECTION_TIMEOUT_def connection_settled_def
        wpa_wifi_send_save_config_cmd_def send_ret_eq Let_def)
  have "wpa_ok st3 \<and> saved st3 = saved st1" using ok(1) st3 by (simp add: wpa_ok_def saved_def)
  then show ?thesis using st1(1) st2(1) st3(3-5) ok(2) unfolding st3_def by auto
qed

definition demo_net :: "nat request" where
  "demo_net s c = (0, if c = ''ADD_NETWORK'' then [CHR ''2'', NL]
     else if c = ''STATUS'' then ''wpa_state=COMPLETED'' @ [NL] @ ''id=2'' @ [NL] else ''OK'', s + 1)"

lemma demo_net_ok: "tells_id demo_net (network_num demo_wpa)" "wpa_ok demo_wpa"
    "demo_net (sup demo_wpa) ''ADD_NETWORK'' = (0, pr_int (network_num demo_wpa) @ [NL], 1)"
proof -
  have "find (starts_with ''id='') (tokens NL [] (''wpa_state=COMPLETED'' @ [NL] @ ''id=2'' @ [NL])) = Some (''id='' @ pr_int 2)" by code_simp
  then show "tells_id demo_net (network_num demo_wpa)"
    by (simp add: tells_id_def demo_net_def demo_wpa_def NL_def)
  show "wpa_ok demo_wpa" by code_simp
  have "pr_int 2 = ''2''" by code_simp
  then show "demo_net (sup demo_wpa) ''ADD_NETWORK'' = (0, pr_int (network_num demo_wpa) @ [NL], 1)"
    by (simp add: demo_net_def demo_wpa_def)
qed

lemma new_network_saved_witness:
  "\<exists>st1 st2. wpa_wifi_send_connect_cmd demo_net ''guest'' ''secret12'' demo_wpa = Some (0, st1) \<and> handle_event demo_net CONNECTED st1 = Some st2
    \<and> saved (new_connection_monitor demo_net (\<lambda>i. (False, WPA_WIFI_SUCCESS)) st2) = [''home'', ''cafe'', ''guest'']"
proof -
  have "saved demo_wpa = [''home'', ''cafe'']" by code_simp
  then show ?thesis
    using new_network_saved[of demo_wpa "''guest''" demo_net 1 "\<lambda>i. (False, WPA_WIFI_SUCCESS)" "''secret12''"] demo_net_ok
    by (auto simp: demo_wpa_def MAX_NETWORKS_def WPA_SSID_SIZE_MAX_def)
qed

lemma timed_out_keeps:
  assumes "\<forall>i. \<not> fst (seen i) \<and> snd (seen i) \<noteq> WPA_WIFI_SUCCESS" "ctrl_handle st"
  shows "network_num (new_connection_monitor rq seen st) = network_num st - 1"
    "network_info (new_connection_monitor rq seen st) = network_info st" "ctrl_handle (new_connection_monitor rq seen st)"
    "cur_network_id (new_connection_monitor rq seen st) = -1" "pending_network_id (new_connection_monitor rq seen st) = -1"
    "cur_wifi_status (new_connection_monitor rq seen st) = WPA_WIFI_ERROR_UNKNOWN"
    "pending_network_id st = network_num st - 1 \<Longrightarrow>
      take 255 (id_cmd ''REMOVE_NETWORK'' (pending_network_id st) []) \<in> set (commands (new_connection_monitor rq seen st))"
  using monitor_wait_timeout[OF assms(1), of 0] assms(2)
  by (simp_all add: new_connection_monitor_def MAX_NEW_CONNECTION_TIMEOUT_def connection_timed_out_def
      wpa_wifi_send_save_config_cmd_def send_ret_eq Let_def)

text \<open>A new network that cannot be joined in 24 seconds is undone: the saved networks are the former ones, the number is
  removed from \<open>wpa_supplicant\<close>, and no network is current.\<close>

theorem new_network_undone:
  assumes "wpa_ok st" "network_num st < int MAX_NETWORKS" "length name < WPA_SSID_SIZE_MAX"
    "rq (sup st) ''ADD_NETWORK'' = (0, pr_int (network_num st) @ [NL], s')"
    "\<forall>i. \<not> fst (seen i) \<and> snd (seen i) \<noteq> WPA_WIFI_SUCCESS"
  shows "\<exists>st1. wpa_wifi_send_connect_cmd rq name password st = Some (0, st1)
    \<and> wpa_ok (new_connection_monitor rq seen st1) \<and> saved (new_connection_monitor rq seen st1) = saved st
    \<and> id_cmd ''REMOVE_NETWORK'' (network_num st) [] \<in> set (commands (new_connection_monitor rq seen st1))
    \<and> cur_network_id (new_connection_monitor rq seen st1) = -1
    \<and> cur_wifi_status (new_connection_monitor rq seen st1) = WPA_WIFI_ERROR_UNKNOWN"
proof -
  obtain st1 where st1: "wpa_wifi_send_connect_cmd rq name password st = Some (0, st1)" "network_num st1 = network_num st + 1"
    "network_info st1 = (network_info st)[nat (network_num st) := (network_num st, name)]" "pending_network_id st1 = network_num st" "ctrl_handle st1"
    using connect_cmd[where rq = rq and st = st and name = name, OF assms(1-4)] by blast
  note k = timed_out_keeps[where rq = rq, OF assms(5) st1(5)]
  have "saved (new_connection_monitor rq seen st1) = saved st" "wpa_ok (new_connection_monitor rq seen st1)"
    using assms(1) st1(2,3) k(1-3) by (simp_all add: saved_def wpa_ok_def)
  then show ?thesis using st1(1,2,4) k(4-7) id_cmd_short[of "network_num st"] assms(1,2) by (auto simp: wpa_ok_def MAX_NETWORKS_def)
qed

lemma new_network_undone_witness:
  "\<exists>st1. wpa_wifi_send_connect_cmd demo_net ''guest'' ''secret12'' demo_wpa = Some (0, st1)
    \<and> saved (new_connection_monitor demo_net (\<lambda>i. (False, WPA_WIFI_INVALID)) st1) = [''home'', ''cafe'']"
proof -
  have "saved demo_wpa = [''home'', ''cafe'']" by code_simp
  then show ?thesis
    using new_network_undone[of demo_wpa "''guest''" demo_net 1 "\<lambda>i. (False, WPA_WIFI_INVALID)" "''secret12''"] demo_net_ok(2,3)
    by (auto simp: demo_wpa_def MAX_NETWORKS_def WPA_SSID_SIZE_MAX_def)
qed

text \<open>C35: Connecting to a network that is already saved and cannot be joined in time loses a network: the number of saved ones is
  decreased as if the network had just been added, so the last one is forgotten; when it is the one that failed, it
  is removed from \<open>wpa_supplicant\<close> too.\<close>

theorem saved_network_lost:
  assumes "wpa_ok st" "0 \<le> k" "k < network_num st" "\<forall>i. \<not> fst (seen i) \<and> snd (seen i) \<noteq> WPA_WIFI_SUCCESS"
  shows "\<exists>st1. wpa_wifi_connect_with_network_id rq k st = (0, st1) \<and> saved st1 = saved st
    \<and> saved (new_connection_monitor rq seen st1) = butlast (saved st)
    \<and> (k = network_num st - 1 \<longrightarrow> id_cmd ''REMOVE_NETWORK'' k [] \<in> set (commands (new_connection_monitor rq seen st1)))"
proof -
  define st1 where "st1 = snd (wpa_wifi_connect_with_network_id rq k st)"
  have c: "ctrl_handle st" and len: "nat (network_num st) \<le> length (network_info st)" using assms(1) by (auto simp: wpa_ok_def)
  have st1: "wpa_wifi_connect_with_network_id rq k st = (0, st1)" "network_num st1 = network_num st" "network_info st1 = network_info st"
    "pending_network_id st1 = k" "ctrl_handle st1"
    using connect_with[OF c assms(2,3)] by (simp_all add: st1_def prod_eq_iff)
  note e = timed_out_keeps[where rq = rq, OF assms(4) st1(5)]
  have "nat (network_num st - 1) = nat (network_num st) - 1" by simp
  then have "saved (new_connection_monitor rq seen st1) = butlast (saved st)"
    using len by (simp add: saved_def e(1,2) st1(2,3) butlast_take flip: map_butlast)
  moreover have "k = network_num st - 1 \<longrightarrow> id_cmd ''REMOVE_NETWORK'' k [] \<in> set (commands (new_connection_monitor rq seen st1))"
    using e(7) st1(2,4) id_cmd_short[of k] assms(1,2,3) by (auto simp: wpa_ok_def MAX_NETWORKS_def)
  ultimately show ?thesis using st1(1-3) by (simp add: saved_def)
qed

lemma saved_network_lost_witness:
  "\<exists>st1. wpa_wifi_connect_with_network_id demo_net 0 demo_wpa = (0, st1) \<and> saved st1 = [''home'', ''cafe'']
    \<and> saved (new_connection_monitor demo_net (\<lambda>i. (False, WPA_WIFI_INVALID)) st1) = [''home'']"
proof -
  have "saved demo_wpa = [''home'', ''cafe'']" by code_simp
  then show ?thesis
    using saved_network_lost[of demo_wpa 0 "\<lambda>i. (False, WPA_WIFI_INVALID)" demo_net] demo_net_ok(2)
    by (auto simp: demo_wpa_def)
qed

section \<open>Removing\<close>

text \<open>
  The networks of \<open>wpa_supplicant\<close>: their variables by number, \<open>net s\<close> in its state \<open>s\<close>. What its documentation says of
  the commands: \<open>GET_NETWORK\<close> replies with the value and changes nothing, \<open>SET_NETWORK\<close> stores one in a network that is
  there, \<open>REMOVE_NETWORK\<close> removes it, \<open>REASSOCIATE\<close> and \<open>SAVE_CONFIG\<close> leave the networks alone. What it replies to
  these, \<open>OK\<close> or \<open>FAIL\<close>, is open, and so are its replies to anything else.
\<close>

type_synonym networks = "int \<Rightarrow> string \<Rightarrow> string option"

definition moved_vars :: "string list" where
  "moved_vars = [''ssid'', ''key_mgmt'', ''pairwise'', ''group'', ''proto'', ''priority'']"

definition net_vars :: "string list" where
  "net_vars = ''psk'' # moved_vars"

definition after :: "'s request \<Rightarrow> 's \<Rightarrow> string \<Rightarrow> 's" where
  "after rq s c = snd (snd (rq s c))"

definition supplicant :: "'s request \<Rightarrow> ('s \<Rightarrow> networks) \<Rightarrow> bool" where
  "supplicant rq net \<longleftrightarrow>
     (\<forall>s i v x. 0 \<le> i \<longrightarrow> i < 10 \<longrightarrow> v \<in> set moved_vars \<longrightarrow> net s i v = Some x \<longrightarrow>
        (\<exists>s'. rq s (id_cmd ''GET_NETWORK'' i ('' '' @ v)) = (0, x, s') \<and> net s' = net s))
   \<and> (\<forall>s i v x. 0 \<le> i \<longrightarrow> i < 10 \<longrightarrow> v \<in> set net_vars \<longrightarrow> net s i \<noteq> Map.empty \<longrightarrow>
        net (after rq s (id_cmd ''SET_NETWORK'' i ('' '' @ v @ '' '' @ x))) = (net s)(i := (net s i)(v \<mapsto> x)))
   \<and> (\<forall>s i. 0 \<le> i \<longrightarrow> i < 10 \<longrightarrow> net (after rq s (id_cmd ''REMOVE_NETWORK'' i [])) = (net s)(i := Map.empty))
   \<and> (\<forall>s. net (after rq s ''REASSOCIATE'') = net s \<and> net (after rq s ''SAVE_CONFIG'') = net s)"

text \<open>A network whose variables fit the buffers of their replies.\<close>

definition movable :: "networks \<Rightarrow> int \<Rightarrow> bool" where
  "movable ns i \<longleftrightarrow> (\<forall>v \<in> set moved_vars. \<exists>x. ns i v = Some x \<and> length x < 63 \<and> NUL \<notin> set x)"

lemma net_vars_short: "v \<in> set net_vars \<Longrightarrow> length v \<le> 8" "set moved_vars \<subseteq> set net_vars" "''psk'' \<notin> set moved_vars"
  "distinct moved_vars"
  by (auto simp: net_vars_def moved_vars_def)

text \<open>A state that differs in what was sent and in \<open>wpa_supplicant\<close> only; its networks there.\<close>

definition same_nets :: "'s wpa \<Rightarrow> 's wpa \<Rightarrow> bool" where
  "same_nets st st' \<longleftrightarrow> ctrl_handle st' = ctrl_handle st \<and> network_num st' = network_num st \<and> network_info st' = network_info st"

lemma same_sent [simp]: "same_nets st (sent rq c st') = same_nets st st'"
  by (simp add: same_nets_def)

lemma sup_sent: "ctrl_handle st \<Longrightarrow> length c \<le> 255 \<Longrightarrow> sup (sent rq c st) = after rq (sup st) c"
  by (simp add: sent_eq after_def)

lemma get_network:
  assumes "supplicant rq net" "ctrl_handle st" "0 \<le> a" "a < 10" "v \<in> set moved_vars" "net (sup st) a v = Some x" "length x < 63" "NUL \<notin> set x"
  defines "c \<equiv> id_cmd ''GET_NETWORK'' a ('' '' @ v)"
  shows "send_wpa_cli_command rq 63 c st = (0, Some x, sent rq c st)" "net (sup (sent rq c st)) = net (sup st)"
proof -
  obtain s' where r: "rq (sup st) c = (0, x, s')" "net s' = net (sup st)"
    using assms(1,3-6) unfolding supplicant_def c_def by blast
  have l: "length c \<le> 255" using pr_int_short[OF assms(3,4)] net_vars_short(1)[of v] net_vars_short(2) assms(5)
    by (auto simp: c_def id_cmd_def)
  show "send_wpa_cli_command rq 63 c st = (0, Some x, sent rq c st)" using r(1) l assms(2,7,8) by (simp add: send_cases short_reply sent_eq)
  show "net (sup (sent rq c st)) = net (sup st)" using r l assms(2) by (simp add: sup_sent after_def)
qed

lemma set_network:
  assumes "supplicant rq net" "ctrl_handle st" "0 \<le> b" "b < 10" "v \<in> set net_vars" "net (sup st) b \<noteq> Map.empty" "length x \<le> 70"
  shows "net (sup (sent rq (id_cmd ''SET_NETWORK'' b ('' '' @ v @ '' '' @ x)) st)) = (net (sup st))(b := (net (sup st) b)(v \<mapsto> x))"
proof -
  have l: "length (id_cmd ''SET_NETWORK'' b ('' '' @ v @ '' '' @ x)) \<le> 255"
    using pr_int_short[OF assms(3,4)] net_vars_short(1)[OF assms(5)] assms(7) by (simp add: id_cmd_def)
  show ?thesis using assms(1,3-6) unfolding sup_sent[OF assms(2) l] supplicant_def by blast
qed

lemma other_commands:
  assumes "supplicant rq net" "ctrl_handle st"
  shows "0 \<le> i \<Longrightarrow> i < 10 \<Longrightarrow> net (sup (sent rq (id_cmd ''REMOVE_NETWORK'' i []) st)) = (net (sup st))(i := Map.empty)"
    "net (sup (sent rq ''REASSOCIATE'' st)) = net (sup st)" "net (sup (sent rq ''SAVE_CONFIG'' st)) = net (sup st)"
proof -
  show "net (sup (sent rq (id_cmd ''REMOVE_NETWORK'' i []) st)) = (net (sup st))(i := Map.empty)" if "0 \<le> i" "i < 10"
  proof -
    have l: "length (id_cmd ''REMOVE_NETWORK'' i []) \<le> 255" using pr_int_short[OF that] by (simp add: id_cmd_def)
    show ?thesis using assms(1) that unfolding sup_sent[OF assms(2) l] supplicant_def by blast
  qed
  show "net (sup (sent rq ''REASSOCIATE'' st)) = net (sup st)" "net (sup (sent rq ''SAVE_CONFIG'' st)) = net (sup st)"
    using assms by (simp_all add: sup_sent supplicant_def)
qed

text \<open>The variables of the network \<open>a\<close> are copied to the network \<open>b\<close>.\<close>

lemma move_variables_copy:
  assumes "supplicant rq net" "0 \<le> a" "a < 10" "0 \<le> b" "b < 10" "a \<noteq> b"
  shows "ctrl_handle st \<Longrightarrow> same_nets st0 st \<Longrightarrow> movable (net (sup st)) a \<Longrightarrow> net (sup st) b \<noteq> Map.empty \<Longrightarrow> set vs \<subseteq> set moved_vars
    \<Longrightarrow> \<exists>st'. move_variables rq a b vs st = Some st' \<and> same_nets st0 st'
      \<and> net (sup st') = (net (sup st))(b := \<lambda>v. if v \<in> set vs then net (sup st) a v else net (sup st) b v)"
proof (induction vs arbitrary: st)
  case Nil
  then show ?case by simp
next
  case (Cons v vs)
  obtain x where x: "net (sup st) a v = Some x" "length x < 63" "NUL \<notin> set x" using Cons.prems(3,5) by (auto simp: movable_def)
  have v: "v \<in> set moved_vars" "v \<in> set net_vars" using Cons.prems(5) net_vars_short(2) by auto
  let ?g = "id_cmd ''GET_NETWORK'' a ('' '' @ v)" and ?s = "id_cmd ''SET_NETWORK'' b ('' '' @ v @ '' '' @ x)"
  define st2 where "st2 = sent rq ?s (sent rq ?g st)"
  note g = get_network[where net = net, OF assms(1) Cons.prems(1) assms(2,3) v(1) x]
  have n2: "net (sup st2) = (net (sup st))(b := (net (sup st) b)(v \<mapsto> x))"
    using set_network[where net = net, OF assms(1) _ assms(4,5) v(2), of "sent rq ?g st" x] Cons.prems(1,4) g(2) x(2) by (simp add: st2_def)
  have mv: "movable (net (sup st2)) a" "net (sup st2) b \<noteq> Map.empty" using Cons.prems(3) assms(6) by (simp_all add: n2 movable_def)
  have vs: "set vs \<subseteq> set moved_vars" using Cons.prems(5) by simp
  have c2: "ctrl_handle st2" "same_nets st0 st2" using Cons.prems(1,2) by (simp_all add: st2_def)
  obtain st' where st': "move_variables rq a b vs st2 = Some st'" "same_nets st0 st'"
      "net (sup st') = (net (sup st2))(b := \<lambda>w. if w \<in> set vs then net (sup st2) a w else net (sup st2) b w)"
    using Cons.IH[OF c2 mv vs] by blast
  have "move_variables rq a b (v # vs) st = Some st'" using g(1) st'(1)[unfolded st2_def] by (simp add: move_variable_def)
  moreover have "net (sup st') = (net (sup st))(b := \<lambda>w. if w \<in> set (v # vs) then net (sup st) a w else net (sup st) b w)"
    unfolding st'(3) n2 using assms(6) x(1) by (auto simp: fun_eq_iff)
  ultimately show ?case using st'(2) by blast
qed

definition moved_to :: "networks \<Rightarrow> int \<Rightarrow> int \<Rightarrow> string \<Rightarrow> networks" where
  "moved_to ns a b p = ns(b := \<lambda>v. if v \<in> set moved_vars then ns a v else if v = ''psk'' then Some (quoted p) else ns b v)"

lemma move_network_copy:
  assumes "supplicant rq net" "ctrl_handle st" "0 \<le> a" "a < 10" "0 \<le> b" "b < 10" "a \<noteq> b" "movable (net (sup st)) a" "net (sup st) b \<noteq> Map.empty"
    and "wpa_wifi_get_password_for_ssid conf (the (net (sup st) a ''ssid'')) = (0, Some p)" "length p < 64"
  shows "\<exists>st'. move_network rq conf a b st = Some st' \<and> same_nets st st' \<and> net (sup st') = moved_to (net (sup st)) a b p"
proof -
  let ?vs = "[''key_mgmt'', ''pairwise'', ''group'', ''proto'', ''priority'']"
  have m: "''ssid'' \<in> set moved_vars" "''ssid'' \<in> set net_vars" "''psk'' \<in> set net_vars" "set ?vs \<subseteq> set moved_vars"
    "set moved_vars = insert ''ssid'' (set ?vs)"
    by (simp_all add: moved_vars_def net_vars_def)
  obtain x where x: "net (sup st) a ''ssid'' = Some x" "length x < 63" "NUL \<notin> set x" using assms(8) m(1) by (fastforce simp: movable_def)
  let ?g = "id_cmd ''GET_NETWORK'' a ('' '' @ ''ssid'')" and ?s = "id_cmd ''SET_NETWORK'' b ('' '' @ ''ssid'' @ '' '' @ x)"
    and ?p = "id_cmd ''SET_NETWORK'' b ('' '' @ ''psk'' @ '' '' @ quoted p)"
  note g = get_network[where net = net, OF assms(1-4) m(1) x]
  define st2 where "st2 = sent rq ?s (sent rq ?g st)"
  define st3 where "st3 = sent rq ?p st2"
  have n2: "net (sup st2) = (net (sup st))(b := (net (sup st) b)(''ssid'' \<mapsto> x))"
    using set_network[where net = net, OF assms(1) _ assms(5,6) m(2), of "sent rq ?g st" x] assms(2,9) g(2) x(2) by (simp add: st2_def)
  have n3: "net (sup st3) = (net (sup st))(b := (net (sup st) b)(''ssid'' \<mapsto> x, ''psk'' \<mapsto> quoted p))"
    using set_network[where net = net, OF assms(1) _ assms(5,6) m(3), of st2 "quoted p"] assms(2,11) n2 by (simp add: st3_def st2_def quoted_def)
  have c3: "ctrl_handle st3" "same_nets st st3" using assms(2) by (simp_all add: st3_def st2_def same_nets_def)
  have "movable (net (sup st3)) a" "net (sup st3) b \<noteq> Map.empty" using assms(7,8) by (simp_all add: n3 movable_def)
  then obtain st' where st': "move_variables rq a b ?vs st3 = Some st'" "same_nets st st'"
      "net (sup st') = (net (sup st3))(b := \<lambda>w. if w \<in> set ?vs then net (sup st3) a w else net (sup st3) b w)"
    using move_variables_copy[where net = net, OF assms(1,3-7) c3 _ _ m(4)] by blast
  have "move_network rq conf a b st = Some st'"
    using g(1) st'(1) assms(10,11) x(1) by (simp add: move_network_def st3_def st2_def del: move_variables.simps)
  moreover have "net (sup st') = moved_to (net (sup st)) a b p"
    unfolding st'(3) n3 moved_to_def m(5) using assms(7) x(1) by (auto simp: fun_eq_iff)
  ultimately show ?thesis using st'(2) by blast
qed

text \<open>The manager and \<open>wpa_supplicant\<close> have the same names under the same numbers.\<close>

definition in_step :: "('s \<Rightarrow> networks) \<Rightarrow> 's wpa \<Rightarrow> bool" where
  "in_step net st \<longleftrightarrow> (\<forall>i. 0 \<le> i \<longrightarrow> i < network_num st \<longrightarrow> net (sup st) i ''ssid'' = Some (quoted (snd (network_info st ! nat i))))"

lemma in_step_last:
  assumes "wpa_ok st" "in_step net st" "0 < network_num st"
  shows "net (sup st) (network_num st - 1) ''ssid'' = Some (quoted (last (saved st)))"
    "last (saved st) = snd (network_info st ! nat (network_num st - 1))"
proof -
  let ?n = "nat (network_num st)"
  have "?n \<le> length (network_info st)" using assms(1) by (auto simp: wpa_ok_def)
  then have "map snd (take ?n (network_info st)) \<noteq> []" "length (map snd (take ?n (network_info st))) = ?n" using assms(3) by auto
  then show "last (saved st) = snd (network_info st ! nat (network_num st - 1))"
    using assms(3) by (simp add: saved_def last_conv_nth nat_diff_distrib)
  then show "net (sup st) (network_num st - 1) ''ssid'' = Some (quoted (last (saved st)))"
    using assms(2,3) by (simp add: in_step_def)
qed

lemma remove_last:
  assumes "supplicant rq net" "wpa_ok st" "0 < network_num st" "k = network_num st - 1"
  shows "\<exists>st'. wpa_wifi_send_remove_network rq conf k save st = Some (0, st') \<and> ctrl_handle st' \<and> network_num st' = k
    \<and> network_info st' = network_info st \<and> net (sup st') = (net (sup st))(k := Map.empty)"
proof -
  have c: "ctrl_handle st" "0 \<le> k" "k < 10" using assms(2-4) by (auto simp: wpa_ok_def MAX_NETWORKS_def)
  define st1 where "st1 = sent rq (id_cmd ''REMOVE_NETWORK'' k []) st"
  have c1: "ctrl_handle (st1\<lparr>network_num := k\<rparr>)" using c by (simp add: st1_def)
  have "wpa_wifi_send_remove_network rq conf k save st = Some (0, if save then sent rq ''SAVE_CONFIG'' (st1\<lparr>network_num := k\<rparr>) else st1\<lparr>network_num := k\<rparr>)"
    using c assms(3,4) by (simp add: wpa_wifi_send_remove_network_def Let_def st1_def)
  then show ?thesis
    using c c1 other_commands(1)[OF assms(1) c(1), of k] other_commands(3)[OF assms(1) c1] by (cases save) (simp_all add: st1_def)
qed

lemma remove_inner:
  assumes "supplicant rq net" "wpa_ok st" "in_step net st" "0 \<le> k" "k < m" "m = network_num st - 1" "movable (net (sup st)) m"
    and "wpa_wifi_get_password_for_ssid conf (quoted (last (saved st))) = (0, Some p)" "length p < 64"
  shows "\<exists>st'. wpa_wifi_send_remove_network rq conf k save st = Some (0, st') \<and> ctrl_handle st' \<and> network_num st' = m
    \<and> network_info st' = (network_info st)[nat k := (fst (network_info st ! nat k), last (saved st))]
    \<and> net (sup st') = (moved_to (net (sup st)) m k p)(m := Map.empty)"
proof -
  have c: "ctrl_handle st" "0 \<le> m" "m < 10" "k < 10" "m \<noteq> k" "m < int (length (network_info st))" "length (network_info st) = 10"
    using assms(2,4-6) by (auto simp: wpa_ok_def MAX_NETWORKS_def)
  note last = in_step_last[OF assms(2,3)]
  have ne: "net (sup st) k \<noteq> Map.empty" using assms(3-6) by (fastforce simp: in_step_def)
  obtain st1 where st1: "move_network rq conf m k st = Some st1" "same_nets st st1" "net (sup st1) = moved_to (net (sup st)) m k p"
    using move_network_copy[OF assms(1) c(1-3) assms(4) c(4,5) assms(7) ne] assms(4-6,8,9) last(1) by fastforce
  define st2 where "st2 = sent rq (id_cmd ''REMOVE_NETWORK'' m []) st1"
  define st3 where "st3 = st2\<lparr>network_info := (network_info st2)[nat k := (fst (network_info st2 ! nat k), snd (network_info st2 ! nat m))],
    network_num := network_num st2 - 1\<rparr>"
  define st4 where "st4 = (if cur_network_id st3 = m \<or> cur_network_id st3 = k then sent rq ''REASSOCIATE'' st3 else st3)"
  define st5 where "st5 = (if save then sent rq ''SAVE_CONFIG'' st4 else st4)"
  have same: "ctrl_handle st1" "network_num st1 = network_num st" "network_info st1 = network_info st" using st1(2) c(1) by (simp_all add: same_nets_def)
  then have "wpa_wifi_send_remove_network rq conf k save st = Some (0, st5)"
    using st1(1) assms(4-6) c(2,6) unfolding st5_def st4_def st3_def st2_def
    by (simp add: wpa_wifi_send_remove_network_def Let_def info_ssid_def)
  moreover have c3: "ctrl_handle st3" "ctrl_handle st4" using same by (simp_all add: st4_def st3_def st2_def)
  moreover have "net (sup st3) = (moved_to (net (sup st)) m k p)(m := Map.empty)"
    using other_commands(1)[OF assms(1) same(1) c(2,3)] st1(3) by (simp add: st3_def st2_def)
  then have "net (sup st5) = (moved_to (net (sup st)) m k p)(m := Map.empty)"
    using other_commands(2)[OF assms(1) c3(1)] other_commands(3)[OF assms(1) c3(2)] by (simp add: st5_def st4_def)
  moreover have "ctrl_handle st5" "network_num st5 = m" "network_info st5 = (network_info st)[nat k := (fst (network_info st ! nat k), last (saved st))]"
    using same c3 assms(4-6) last(2) by (simp_all add: st5_def st4_def st3_def st2_def)
  ultimately show ?thesis by blast
qed

text \<open>C34: Removing the network \<open>k\<close> keeps the numbers without a gap, in the manager and in \<open>wpa_supplicant\<close>: the last network
  takes the place of the removed one, in \<open>wpa_supplicant\<close> with all six variables that are asked for and the password the
  search of the configuration file gives for its quoted name, and its old number is gone there; no other network changes;
  the saved names are the former ones without the last, with that one at \<open>k\<close>, and still those in \<open>wpa_supplicant\<close>. Removing the last
  just drops it. Conditions: the control interface is open, the numbers are below 10 and the saved names are those in \<open>wpa_supplicant\<close>,
  quoted; \<open>GET_NETWORK\<close>, \<open>SET_NETWORK\<close>, \<open>REMOVE_NETWORK\<close>, \<open>REASSOCIATE\<close>, \<open>SAVE_CONFIG\<close> do what is documented; and unless \<open>k\<close> is the
  last, the values of the last network have less than 63 characters and the search finds a password of less than 64.\<close>

theorem remove_network_swaps:
  assumes "supplicant rq net" "wpa_ok st" "in_step net st" "0 \<le> k" "k < network_num st" "m = network_num st - 1"
    and "k \<noteq> m \<longrightarrow> movable (net (sup st)) m \<and> wpa_wifi_get_password_for_ssid conf (quoted (last (saved st))) = (0, Some p) \<and> length p < 64"
  shows "\<exists>st'. wpa_wifi_send_remove_network rq conf k save st = Some (0, st') \<and> wpa_ok st' \<and> in_step net st'
    \<and> saved st' = (butlast (saved st))[nat k := last (saved st)]
    \<and> net (sup st') = (if k = m then net (sup st) else moved_to (net (sup st)) m k p)(m := Map.empty)"
proof -
  let ?n = "nat (network_num st)" and ?info = "network_info st"
  let ?info' = "if k = m then ?info else ?info[nat k := (fst (?info ! nat k), last (saved st))]"
  have len: "?n \<le> length ?info" "length ?info = MAX_NETWORKS" "network_num st \<le> int MAX_NETWORKS"
    and ids: "map fst (take ?n ?info) = map int [0..<?n]" using assms(2) by (auto simp: wpa_ok_def)
  have n0: "0 < network_num st" "nat m = ?n - 1" "0 \<le> m" "m < network_num st" using assms(4-6) by auto
  have km: "k \<noteq> m \<Longrightarrow> k < m" using assms(5,6) by simp
  obtain st' where st': "wpa_wifi_send_remove_network rq conf k save st = Some (0, st')" "ctrl_handle st'" "network_num st' = m"
      "network_info st' = ?info'" "net (sup st') = (if k = m then net (sup st) else moved_to (net (sup st)) m k p)(m := Map.empty)"
    using remove_last[OF assms(1,2) n0(1), of k conf save] remove_inner[OF assms(1-4) km assms(6), of conf p save] assms(6,7) by (cases "k = m") auto
  have "map fst ?info' = map fst ?info" by (auto simp: map_update) (metis nth_map list_update_id list_update_beyond length_map not_le)
  then have "map fst (take (?n - 1) ?info') = map fst (take (?n - 1) ?info)" by (metis take_map)
  then have ids': "map fst (take (?n - 1) ?info') = map int [0..<?n - 1]"
    using arg_cong[OF ids, of "take (?n - 1)"] n0 by (simp add: take_map min_def)
  have bl: "butlast (saved st) = map snd (take (?n - 1) ?info)" using len by (simp add: saved_def butlast_take flip: map_butlast)
  have "saved st' = (butlast (saved st))[nat k := last (saved st)]"
    using n0(2) assms(4) by (simp add: saved_def[of st'] st'(3,4) bl take_update_swap map_update list_update_beyond)
  moreover have "in_step net st'"
    unfolding in_step_def st'(3)
  proof (intro allI impI)
    fix i assume i: "0 \<le> i" "i < m"
    have old: "net (sup st) i ''ssid'' = Some (quoted (snd (?info ! nat i)))" using assms(3,6) i by (simp add: in_step_def)
    have "nat i \<noteq> nat k \<or> i = k" using i assms(4) by auto
    then show "net (sup st') i ''ssid'' = Some (quoted (snd (network_info st' ! nat i)))"
      using old in_step_last(1)[OF assms(2,3) n0(1)] i len n0(4) unfolding st'(4,5) by (auto simp: moved_to_def moved_vars_def assms(6))
  qed
  moreover have "wpa_ok st'" using st' n0 len ids' by (auto simp: wpa_ok_def split: if_splits)
  ultimately show ?thesis using st'(1,5) by blast
qed

text \<open>A \<open>wpa_supplicant\<close> that keeps the variables and does the commands as documented.\<close>

definition cut_word :: "string \<Rightarrow> string \<times> string" where
  "cut_word s = (takeWhile (\<lambda>c. c \<noteq> CHR '' '') s, drop 1 (dropWhile (\<lambda>c. c \<noteq> CHR '' '') s))"

definition demo_supplicant :: "networks request" where
  "demo_supplicant ns c =
     (let (cmd, args) = cut_word c; (n, r) = cut_word args; (v, x) = cut_word r; i = the (atoi n) in
      if cmd = ''GET_NETWORK'' then (0, case ns i r of None \<Rightarrow> ''FAIL'' @ [NL] | Some y \<Rightarrow> y, ns)
      else if cmd = ''SET_NETWORK'' then
        (if ns i = Map.empty then (0, ''FAIL'' @ [NL], ns) else (0, ''OK'' @ [NL], ns(i := (ns i)(v \<mapsto> x))))
      else if cmd = ''REMOVE_NETWORK'' then (0, ''OK'' @ [NL], ns(i := Map.empty))
      else (0, ''OK'' @ [NL], ns))"

lemma cut_word_append: "CHR '' '' \<notin> set w \<Longrightarrow> cut_word (w @ CHR '' '' # s) = (w, s)" "CHR '' '' \<notin> set w \<Longrightarrow> cut_word w = (w, [])"
proof -
  assume w: "CHR '' '' \<notin> set w"
  then have "takeWhile (\<lambda>c. c \<noteq> CHR '' '') (w @ x) = w @ takeWhile (\<lambda>c. c \<noteq> CHR '' '') x" 
    "dropWhile (\<lambda>c. c \<noteq> CHR '' '') (w @ x) = dropWhile (\<lambda>c. c \<noteq> CHR '' '') x" for x
    by (intro takeWhile_append2 dropWhile_append2; auto)+
  moreover have "takeWhile (\<lambda>c. c \<noteq> CHR '' '') w = w" "dropWhile (\<lambda>c. c \<noteq> CHR '' '') w = []" using w by auto
  ultimately show "cut_word (w @ CHR '' '' # s) = (w, s)" "cut_word w = (w, [])"
    by (simp_all add: cut_word_def del: dropWhile_eq_Nil_conv)
qed

lemma demo_commands:
  assumes "CHR '' '' \<notin> set a" "0 \<le> i" "i < 10"
  shows "cut_word (id_cmd a i b) = (a, pr_int i @ b)" "cut_word (pr_int i @ CHR '' '' # b) = (pr_int i, b)" "cut_word (pr_int i) = (pr_int i, [])"
    "atoi (pr_int i) = Some i"
proof -
  have "CHR '' '' \<notin> set (pr_int i)" using pr_int_chars[of "CHR '' ''" i] by (auto simp: isdigit_def cval_def)
  then show "cut_word (pr_int i @ CHR '' '' # b) = (pr_int i, b)" "cut_word (pr_int i) = (pr_int i, [])" by (simp_all add: cut_word_append)
  show "cut_word (id_cmd a i b) = (a, pr_int i @ b)" using cut_word_append(1)[OF assms(1)] by (simp add: id_cmd_def)
  show "atoi (pr_int i) = Some i" using assms(2,3) by (intro atoi_pr_int) simp_all
qed

lemma demo_supplicant_ok: "supplicant demo_supplicant (\<lambda>ns. ns)"
proof -
  have v: "CHR '' '' \<notin> set v" if "v \<in> set net_vars" for v using that by (auto simp: net_vars_def moved_vars_def)
  have g: "CHR '' '' \<notin> set ''GET_NETWORK''" "CHR '' '' \<notin> set ''SET_NETWORK''" "CHR '' '' \<notin> set ''REMOVE_NETWORK''" by simp_all
  have 1: "demo_supplicant s (id_cmd ''GET_NETWORK'' i ('' '' @ v)) = (0, x, s)" if "0 \<le> i" "i < 10" "s i v = Some x" for s i v x
    using demo_commands(1)[OF g(1) that(1,2), of "'' '' @ v"] demo_commands(2,4)[OF g(1) that(1,2)] that(3)
    by (simp add: demo_supplicant_def split: prod.split)
  have 2: "after demo_supplicant s (id_cmd ''SET_NETWORK'' i ('' '' @ v @ '' '' @ x)) = s(i := (s i)(v \<mapsto> x))"
    if "0 \<le> i" "i < 10" "v \<in> set net_vars" "s i \<noteq> Map.empty" for s i v x
    using demo_commands(1)[OF g(2) that(1,2), of "'' '' @ v @ '' '' @ x"] demo_commands(2,4)[OF g(2) that(1,2)] cut_word_append(1)[OF v[OF that(3)]] that(4)
    by (simp add: demo_supplicant_def after_def)
  have 3: "after demo_supplicant s (id_cmd ''REMOVE_NETWORK'' i []) = s(i := Map.empty)" if "0 \<le> i" "i < 10" for s i
    using demo_commands(1)[OF g(3) that, of "[]"] demo_commands(3,4)[OF g(3) that]
    by (simp add: demo_supplicant_def after_def split: prod.split)
  have 4: "after demo_supplicant s ''REASSOCIATE'' = s" "after demo_supplicant s ''SAVE_CONFIG'' = s" for s
    by (simp_all add: demo_supplicant_def after_def cut_word_def)
  show ?thesis unfolding supplicant_def using 1 2 3 4 by auto
qed

definition demo_vars :: "string \<Rightarrow> string \<Rightarrow> string option" where
  "demo_vars name = map_of [(''ssid'', quoted name), (''psk'', ''*''), (''key_mgmt'', ''WPA-PSK''), (''pairwise'', ''CCMP TKIP''),
     (''group'', ''CCMP TKIP''), (''proto'', ''RSN''), (''priority'', ''0'')]"

definition demo_manager :: "networks wpa" where
  "demo_manager = \<lparr>ctrl_handle = True, connect_callback = False, monitor_is_stop = False, cur_scan_status = WPA_WIFI_SCAN_STATE_IDLE,
     cur_wifi_status = WPA_WIFI_INVALID, save_when_connected = True, network_num = 2, cur_network_id = 0,
     previous_connected_network_id = -1, pending_network_id = -1,
     network_info = [(0, ''home''), (1, ''cafe'')] @ replicate 8 (0, []), auto_connect_when_fail = True, monitors = 0,
     callbacks = [], commands = [], sup = (\<lambda>_. Map.empty)(0 := demo_vars ''home'', 1 := demo_vars ''cafe'')\<rparr>"

definition demo_conf :: string where
  "demo_conf = ''network={'' @ [NL, TAB] @ ''ssid=\"home\"'' @ [NL, TAB] @ ''psk=\"homepass\"'' @ [NL] @ ''}'' @ [NL]
     @ ''network={'' @ [NL, TAB] @ ''ssid=\"cafe\"'' @ [NL, TAB] @ ''psk=\"coffee12\"'' @ [NL] @ ''}'' @ [NL]"

lemma remove_network_swaps_witness:
  "\<exists>st'. wpa_wifi_send_remove_network demo_supplicant (Some demo_conf) 0 True demo_manager = Some (0, st') \<and> saved st' = [''cafe'']
    \<and> sup st' 0 ''ssid'' = Some (quoted ''cafe'') \<and> sup st' 0 ''psk'' = Some (quoted ''coffee12'') \<and> sup st' 1 = Map.empty"
proof -
  have sv: "saved demo_manager = [''home'', ''cafe'']" by code_simp
  have pw: "wpa_wifi_get_password_for_ssid (Some demo_conf) (quoted ''cafe'') = (0, Some ''coffee12'')" by code_simp
  have ok: "wpa_ok demo_manager" by code_simp
  have two: "network_num demo_manager = 2" "sup demo_manager = (\<lambda>_. Map.empty)(0 := demo_vars ''home'', 1 := demo_vars ''cafe'')"
    by (simp_all add: demo_manager_def)
  have "i = 0 \<or> i = 1" if "0 \<le> i" "i < 2" for i :: int using that by linarith
  then have step: "in_step (\<lambda>ns. ns) demo_manager" by (auto simp: in_step_def two) (simp_all add: demo_manager_def demo_vars_def)
  have mv: "movable (sup demo_manager) 1" by (simp add: movable_def moved_vars_def two demo_vars_def quoted_def)
  show ?thesis
    using remove_network_swaps[where conf = "Some demo_conf" and save = True, OF demo_supplicant_ok ok step, of 0 1 "''coffee12''"] mv
    by (auto simp: two sv pw moved_to_def moved_vars_def demo_vars_def)
qed

section \<open>The list of networks at the start\<close>

lemma tokens_line: "NL \<notin> set l \<Longrightarrow> t @ l \<noteq> [] \<Longrightarrow> tokens NL t (l @ NL # rest) = (t @ l) # tokens NL [] rest"
  by (induction l arbitrary: t) auto

lemma tokens_lines: "list_all (\<lambda>l. l \<noteq> [] \<and> NL \<notin> set l) ls \<Longrightarrow> tokens NL [] (concat (map (\<lambda>l. l @ [NL]) ls)) = ls"
  by (induction ls) (simp_all add: tokens_line)

text \<open>The answer to \<open>LIST_NETWORKS\<close>, for networks with a number, a name and the rest of their line.\<close>

definition net_line :: "int \<times> string \<times> string \<Rightarrow> string" where
  "net_line n = pr_int (fst n) @ [TAB] @ fst (snd n) @ [TAB] @ snd (snd n)"

definition LIST_HEADER :: string where
  "LIST_HEADER = ''network id / ssid / bssid / flags''"

definition list_text :: "(int \<times> string \<times> string) list \<Rightarrow> string" where
  "list_text nets = concat (map (\<lambda>l. l @ [NL]) (LIST_HEADER # map net_line nets))"

text \<open>Names the reader takes as they are.\<close>

definition net_ok :: "int \<times> string \<times> string \<Rightarrow> bool" where
  "net_ok n \<longleftrightarrow> (let name = fst (snd n) in name \<noteq> [] \<and> \<not> isspace (hd name) \<and> length name < 64 \<and> {TAB, NL, NUL} \<inter> set name = {}
     \<and> {NL, NUL} \<inter> set (snd (snd n)) = {} \<and> strstr (net_line n) ''network id'' = None \<and> strstr (net_line n) ''---'' = None)"

lemma network_line_net: "net_ok n \<Longrightarrow> network_line (net_line n) = Some (fst n, fst (snd n))"
proof -
  assume "net_ok n"
  then have name: "fst (snd n) \<noteq> []" "\<not> isspace (hd (fst (snd n)))" "TAB \<notin> set (fst (snd n))" "NL \<notin> set (fst (snd n))"
    by (simp_all add: net_ok_def Let_def)
  have "scan_dec (net_line n) = Some (fst n, [TAB] @ fst (snd n) @ [TAB] @ snd (snd n))"
    unfolding net_line_def by (rule scan_dec_int) (simp add: TAB_def isdigit_def cval_def)
  moreover have "skip_ws ([TAB] @ fst (snd n) @ [TAB] @ snd (snd n)) = fst (snd n) @ [TAB] @ snd (snd n)"
  proof -
    have "isspace TAB" by (simp add: TAB_def isspace_def cval_def)
    then show ?thesis using name(1,2) by (cases "fst (snd n)") (simp_all add: skip_ws_def)
  qed
  moreover have "takeWhile (\<lambda>c. c \<noteq> TAB \<and> c \<noteq> NL) (fst (snd n) @ [TAB] @ snd (snd n)) = fst (snd n)"
    using name(3,4) by (subst takeWhile_append2) auto
  ultimately show ?thesis using name(1) by (simp add: network_line_def Let_def)
qed

lemma network_lines_nets: "list_all net_ok nets \<Longrightarrow> length info + length nets \<le> MAX_NETWORKS
    \<Longrightarrow> network_lines (map net_line nets) info = Some (info @ map (\<lambda>n. (fst n, fst (snd n))) nets)"
proof (induction nets arbitrary: info)
  case (Cons n nets)
  have "network_line (net_line n) = Some (fst n, fst (snd n))" using Cons.prems(1) by (intro network_line_net) simp
  then show ?case using Cons.IH Cons.prems by (simp add: net_ok_def Let_def WPA_SSID_SIZE_MAX_def)
qed simp

lemma net_line_plain: "net_ok n \<Longrightarrow> net_line n \<noteq> [] \<and> NL \<notin> set (net_line n) \<and> NUL \<notin> set (net_line n)"
  by (auto simp: net_ok_def net_line_def Let_def TAB_def NL_def isdigit_def cval_def dest!: pr_int_chars)

lemma list_text_tokens:
  assumes "list_all net_ok nets"
  shows "tokens NL [] (list_text nets) = LIST_HEADER # map net_line nets" "NUL \<notin> set (list_text nets)"
proof -
  have "list_all (\<lambda>l. l \<noteq> [] \<and> NL \<notin> set l) (LIST_HEADER # map net_line nets)"
    using assms net_line_plain by (auto simp: list_all_iff LIST_HEADER_def NL_def)
  then show "tokens NL [] (list_text nets) = LIST_HEADER # map net_line nets" unfolding list_text_def by (rule tokens_lines)
  show "NUL \<notin> set (list_text nets)" using assms net_line_plain by (auto simp: list_text_def list_all_iff LIST_HEADER_def NL_def)
qed

lemma header_skipped: "strstr LIST_HEADER ''network id'' \<noteq> None"
  by code_simp

text \<open>The list of networks that \<open>wpa_supplicant\<close> prints is read back at the start, up to ten networks: their numbers and names, in
  order, and their count.\<close>

theorem list_networks_read:
  assumes "ctrl_handle st" "rq (sup st) ''LIST_NETWORKS'' = (0, list_text nets, s')" "list_all net_ok nets" "length nets \<le> MAX_NETWORKS"
    "length (list_text nets) < 511" "length (network_info st) = MAX_NETWORKS"
  shows "\<exists>st'. init_network_info rq st = Some st' \<and> network_num st' = int (length nets)
    \<and> take (length nets) (network_info st') = map (\<lambda>n. (fst n, fst (snd n))) nets \<and> length (network_info st') = MAX_NETWORKS"
proof -
  have "reply_text 511 (list_text nets) = Some (list_text nets)" using list_text_tokens(2)[OF assms(3)] assms(5) by (intro short_reply)
  moreover have "network_lines (LIST_HEADER # map net_line nets) [] = Some (map (\<lambda>n. (fst n, fst (snd n))) nets)"
    using network_lines_nets[OF assms(3), of "[]"] assms(4) header_skipped by simp
  ultimately show ?thesis using assms(1,2,4,6) list_text_tokens(1)[OF assms(3)]
    by (simp add: init_network_info_def send_cases)
qed

definition demo_nets :: "(int \<times> string \<times> string) list" where
  "demo_nets = [(0, ''home'', ''any''), (1, ''a cafe'', ''any'')]"

lemma list_networks_read_witness:
  "\<exists>st'. init_network_info (\<lambda>s c. (0, list_text demo_nets, s)) demo_wpa = Some st' \<and> network_num st' = 2
    \<and> take 2 (network_info st') = [(0, ''home''), (1, ''a cafe'')]"
proof -
  have "list_all net_ok demo_nets" "length (list_text demo_nets) < 511" by code_simp+
  then show ?thesis
    using list_networks_read[of demo_wpa "\<lambda>s c. (0, list_text demo_nets, s)" demo_nets 0]
    by (auto simp: demo_wpa_def demo_nets_def MAX_NETWORKS_def numeral_2_eq_2)
qed

end
