(* ===== verification/DeviceProps.thy ===== *)
theory DeviceProps
  imports CText
begin

text \<open>
  \<open>aml_deviceproperty/aml_device_property.c\<close>, properties from the environment or a file, and
  \<open>aml_utility/unifykey.c\<close>, keys in the kernel's key store. Files, the environment and the driver are arguments, and so is
  what \<open>getline\<close> allocates.
\<close>

section \<open>Properties\<close>

definition AMLDEVICE_SUCCESS :: int where "AMLDEVICE_SUCCESS = 0"
definition AMLDEVICE_FAILED :: int where "AMLDEVICE_FAILED = -1"
definition AMLDEVICE_PARAMETER_INVALID :: int where "AMLDEVICE_PARAMETER_INVALID = 0x1000"
definition AMLDEVICE_MEMORY_NOT_ENOUGH :: int where "AMLDEVICE_MEMORY_NOT_ENOUGH = 0x1001"
definition AMLDEVICE_OPEN_FILE_FAILED :: int where "AMLDEVICE_OPEN_FILE_FAILED = 0x1002"
definition AMLDEVICE_OUTPUT_NOT_ENOUGH :: int where "AMLDEVICE_OUTPUT_NOT_ENOUGH = 0x1003"

lemmas amldevice_codes = AMLDEVICE_SUCCESS_def AMLDEVICE_FAILED_def AMLDEVICE_PARAMETER_INVALID_def AMLDEVICE_MEMORY_NOT_ENOUGH_def
  AMLDEVICE_OPEN_FILE_FAILED_def AMLDEVICE_OUTPUT_NOT_ENOUGH_def

definition DEFAULT_EXPORT_SYSTEM_PROPERTY_FILE :: string where
  "DEFAULT_EXPORT_SYSTEM_PROPERTY_FILE = ''DEVICE_PROPERTYIES_FILE''"

definition DEFAULT_SYSTEM_PROPERTY_FILE :: string where
  "DEFAULT_SYSTEM_PROPERTY_FILE = ''/etc/device.properties''"

text \<open>\<open>grow\<close> gives the size of the buffer after \<open>getline\<close> from its size before and the bytes that are needed.\<close>

record prop_env =
  saved_system_property_file :: "string option"
  getenv :: "string \<Rightarrow> string option"
  prop_files :: "string \<Rightarrow> string option"
  grow :: "nat \<Rightarrow> nat \<Rightarrow> nat"

text \<open>What the function returns after it stored the name is not defined: the first component is \<^const>\<open>None\<close> then.\<close>

definition AmlDeviceSetPropertyFile :: "bool \<Rightarrow> string \<Rightarrow> prop_env \<Rightarrow> int option \<times> prop_env" where
  "AmlDeviceSetPropertyFile malloc_ok filename e =
     (if \<not> malloc_ok then (Some AMLDEVICE_MEMORY_NOT_ENOUGH, e\<lparr>saved_system_property_file := None\<rparr>)
      else (None, e\<lparr>saved_system_property_file := Some filename\<rparr>))"

text \<open>The loops that skip characters while bytes remain: the rest and \<open>remainder_length\<close>.\<close>

fun skip_chars :: "(char \<Rightarrow> bool) \<Rightarrow> string \<Rightarrow> nat \<Rightarrow> string \<times> nat" where
  "skip_chars P [] n = ([], n)"
| "skip_chars P (c # s) n = (if P c \<and> n \<ge> 1 then skip_chars P s (n - 1) else (c # s, n))"

definition trim_end :: "string \<Rightarrow> string" where
  "trim_end s = rev (dropWhile (\<lambda>c. c = CHR '' '' \<or> c = CHR 0x0D \<or> c = CHR 0x0A) (rev s))"

text \<open>One line in a buffer of \<open>sz\<close> bytes: \<^const>\<open>None\<close> goes on with the next; an error or the value.\<close>

definition property_line :: "nat \<Rightarrow> string \<Rightarrow> int \<Rightarrow> string \<Rightarrow> (int + string) option" where
  "property_line sz name len l =
     (let (r, n) = skip_chars (\<lambda>c. c = CHR '' '') (cstr l) sz in
      if take 1 r = ''#'' \<or> n \<le> 1 then None
      else (case strstr r name of
          None \<Rightarrow> None
        | Some r1 \<Rightarrow>
            let (r2, n2) = skip_chars (\<lambda>c. c = CHR '' '' \<or> c = CHR ''='') (drop (length name) r1) (n - length name) in
            if n2 > 1 then Some (if int (length r2) > len then Inl AMLDEVICE_OUTPUT_NOT_ENOUGH else Inr (trim_end r2)) else None))"

fun property_scan :: "(nat \<Rightarrow> nat \<Rightarrow> nat) \<Rightarrow> nat \<Rightarrow> string \<Rightarrow> int \<Rightarrow> string list \<Rightarrow> int + string" where
  "property_scan gr sz name len [] = Inl AMLDEVICE_FAILED"
| "property_scan gr sz name len (l # ls) =
     (let sz1 = gr sz (length l + 1) in
      case property_line sz1 name len l of None \<Rightarrow> property_scan gr sz1 name len ls | Some r \<Rightarrow> r)"

text \<open>\<open>strcpy\<close> into a buffer; \<^const>\<open>None\<close>: it does not fit.\<close>

definition strcpy :: "string \<Rightarrow> string \<Rightarrow> string option" where
  "strcpy dst s = (if length s < length dst then Some (put_at dst 0 (s @ [NUL])) else None)"

definition AmlDeviceParsePropertyFile :: "prop_env \<Rightarrow> string \<Rightarrow> string \<Rightarrow> string \<Rightarrow> int \<Rightarrow> (int \<times> string) option" where
  "AmlDeviceParsePropertyFile e filename name value len =
     (case prop_files e filename of
        None \<Rightarrow> Some (AMLDEVICE_OPEN_FILE_FAILED, value)
      | Some text \<Rightarrow> (case property_scan (grow e) 0 name len (fgets_lines (length text) text) of
          Inl err \<Rightarrow> Some (err, value)
        | Inr v \<Rightarrow> map_option (\<lambda>value1. (AMLDEVICE_SUCCESS, value1)) (strcpy value v)))"

definition AmlDeviceGetProperty :: "prop_env \<Rightarrow> string option \<Rightarrow> string option \<Rightarrow> int \<Rightarrow> (int \<times> string option) option" where
  "AmlDeviceGetProperty e name value len =
     (case (name, value) of
        (Some nm, Some buf) \<Rightarrow>
          if len \<le> 0 then Some (AMLDEVICE_PARAMETER_INVALID, value)
          else (case getenv e nm of
              Some env \<Rightarrow>
                if int (length env) > len then Some (AMLDEVICE_OUTPUT_NOT_ENOUGH, value)
                else if int (length buf) < len then None
                else Some (AMLDEVICE_SUCCESS, Some (strncpy buf env (nat len)))
            | None \<Rightarrow>
                map_option (\<lambda>(r, v). (r, Some v)) (AmlDeviceParsePropertyFile e
                  (case saved_system_property_file e of Some f \<Rightarrow> f
                   | None \<Rightarrow> (case getenv e DEFAULT_EXPORT_SYSTEM_PROPERTY_FILE of Some f \<Rightarrow> f | None \<Rightarrow> DEFAULT_SYSTEM_PROPERTY_FILE))
                  nm buf len))
      | _ \<Rightarrow> Some (AMLDEVICE_PARAMETER_INVALID, value))"

section \<open>Keys\<close>

definition KEY_UNIFY_NAME_LEN :: nat where "KEY_UNIFY_NAME_LEN = 48"

record key_item_info =
  key_id :: nat
  key_size :: nat
  key_flag :: nat

text \<open>
  The driver over its state \<open>'d\<close>: whether a path opens, the two calls of \<open>ioctl\<close> (an error is negative), reading at most
  so many bytes at a position, and writing.
\<close>

record 'd key_driver =
  kd_open :: "'d \<Rightarrow> string \<Rightarrow> bool"
  kd_attach :: "'d \<Rightarrow> int \<times> 'd"
  kd_info :: "'d \<Rightarrow> string \<Rightarrow> int \<times> key_item_info"
  kd_read :: "'d \<Rightarrow> nat \<Rightarrow> nat \<Rightarrow> int + string"
  kd_write :: "'d \<Rightarrow> nat \<Rightarrow> string \<Rightarrow> nat \<times> 'd"

definition UNIFYKEYS_PATH :: string where "UNIFYKEYS_PATH = ''/dev/unifykeys''"

definition Aml_Util_UnifyKeyInit :: "'d key_driver \<Rightarrow> string \<Rightarrow> 'd \<Rightarrow> int \<times> 'd" where
  "Aml_Util_UnifyKeyInit kd path d = (if \<not> kd_open kd d path then (-1, d) else kd_attach kd d)"

text \<open>The result and the caller's buffer; the local one has 4096 bytes, which were cleared.\<close>

definition Aml_Util_UnifyKeyRead :: "'d key_driver \<Rightarrow> string option \<Rightarrow> string option \<Rightarrow> string \<Rightarrow> 'd \<Rightarrow> (int \<times> string) option" where
  "Aml_Util_UnifyKeyRead kd path name refbuf d =
     (case (path, name) of
        (Some p, Some nm) \<Rightarrow>
          if \<not> kd_open kd d p then Some (-2, refbuf)
          else if length nm \<ge> KEY_UNIFY_NAME_LEN then None
          else let (ret, info) = kd_info kd d nm in
            if ret < 0 then Some (ret, refbuf)
            else if key_flag info = 0 then Some (ret, refbuf)
            else (case kd_read kd d (key_id info) (key_size info) of
                Inl err \<Rightarrow> Some (err, refbuf)
              | Inr bytes \<Rightarrow>
                  if length bytes > 4096 \<or> (length bytes = 4096 \<and> NUL \<notin> set bytes) then None
                  else map_option (\<lambda>b. (int (length bytes), b)) (strcpy refbuf (cstr bytes)))
      | _ \<Rightarrow> Some (-1, refbuf))"

definition Aml_Util_UnifyKeyWrite :: "'d key_driver \<Rightarrow> string option \<Rightarrow> string option \<Rightarrow> string option \<Rightarrow> 'd \<Rightarrow> (int \<times> 'd) option" where
  "Aml_Util_UnifyKeyWrite kd path buff name d =
     (case (path, buff, name) of
        (Some p, Some b, Some nm) \<Rightarrow>
          if \<not> kd_open kd d p then Some (-1, d)
          else if length nm \<ge> KEY_UNIFY_NAME_LEN then None
          else let (ret, info) = kd_info kd d nm in
            if ret < 0 then Some (ret, d)
            else let (n, d1) = kd_write kd d (key_id info) b in Some (if n \<noteq> length b then -1 else ret, d1)
      | _ \<Rightarrow> Some (-1, d))"

text \<open>\<open>dump_mem\<close> and \<open>dump_keyitem_info\<close> only print. A value that was written is read back: the driver's contract is that a
  complete write stores the bytes, which a later read of at least their number returns.\<close>

definition key_stores :: "'d key_driver \<Rightarrow> string \<Rightarrow> string \<Rightarrow> string \<Rightarrow> 'd \<Rightarrow> bool" where
  "key_stores kd p nm b d \<longleftrightarrow> (\<exists>info info' d'. kd_open kd d p \<and> kd_info kd d nm = (0, info) \<and> kd_write kd d (key_id info) b = (length b, d')
     \<and> kd_open kd d' p \<and> kd_info kd d' nm = (0, info') \<and> key_flag info' \<noteq> 0 \<and> key_size info' = length b
     \<and> kd_read kd d' (key_id info') (length b) = Inr b)"

lemma key_write_read:
  assumes "key_stores kd p nm b d" "length nm < KEY_UNIFY_NAME_LEN" "NUL \<notin> set b" "length b < length refbuf" "length b < 4096"
  shows "\<exists>d' buf. Aml_Util_UnifyKeyWrite kd (Some p) (Some b) (Some nm) d = Some (0, d')
    \<and> Aml_Util_UnifyKeyRead kd (Some p) (Some nm) refbuf d' = Some (int (length b), buf) \<and> cstr buf = b"
proof -
  obtain info info' d' where k: "kd_open kd d p" "kd_info kd d nm = (0, info)" "kd_write kd d (key_id info) b = (length b, d')"
    "kd_open kd d' p" "kd_info kd d' nm = (0, info')" "key_flag info' \<noteq> 0" "key_size info' = length b" "kd_read kd d' (key_id info') (length b) = Inr b"
    using assms(1) unfolding key_stores_def by blast
  have "cstr (put_at refbuf 0 (b @ [NUL])) = b" using assms(3) by (simp add: put_at_def)
  then show ?thesis using k assms(2-5) by (simp add: Aml_Util_UnifyKeyWrite_def Aml_Util_UnifyKeyRead_def strcpy_def)
qed

section \<open>A file of properties as a map\<close>

abbreviation LF :: char where "LF \<equiv> CHR 0x0A"

lemma fgets_whole_line: "LF \<notin> set l \<Longrightarrow> length l < n \<Longrightarrow> fgets_lines n (l @ LF # rest) = (l @ [LF]) # fgets_lines n rest"
proof -
  assume l: "LF \<notin> set l" "length l < n"
  then have "takeWhile (\<lambda>c. c \<noteq> LF) (l @ LF # rest) = l" by (auto simp: takeWhile_append)
  moreover have "min n (length l + 1) = length l + 1" using l(2) by simp
  ultimately show ?thesis using l by (subst fgets_lines.simps) (simp add: Let_def)
qed

lemma fgets_whole_lines:
  "list_all (\<lambda>l. LF \<notin> set l \<and> length l < n) ls \<Longrightarrow> fgets_lines n (concat (map (\<lambda>l. l @ [LF]) ls)) = map (\<lambda>l. l @ [LF]) ls"
  by (induction ls) (simp_all add: fgets_whole_line fgets_lines.simps[of n "[]"])

definition prop_line :: "string \<times> string \<Rightarrow> string" where
  "prop_line p = fst p @ ''='' @ snd p"

definition prop_text :: "(string \<times> string) list \<Rightarrow> string" where
  "prop_text ps = concat (map (\<lambda>l. l @ [LF]) (map prop_line ps))"

definition blank :: "char \<Rightarrow> bool" where
  "blank c \<longleftrightarrow> c = CHR '' '' \<or> c = CHR 0x0D \<or> c = LF"

text \<open>A name and a value whose line the reader takes as they are.\<close>

definition prop_ok :: "string \<times> string \<Rightarrow> bool" where
  "prop_ok p \<longleftrightarrow> fst p \<noteq> [] \<and> hd (fst p) \<noteq> CHR '' '' \<and> hd (fst p) \<noteq> CHR ''#'' \<and> {LF, NUL} \<inter> set (prop_line p) = {}
     \<and> (snd p \<noteq> [] \<longrightarrow> hd (snd p) \<noteq> CHR '' '' \<and> hd (snd p) \<noteq> CHR ''='' \<and> \<not> blank (last (snd p)))"

lemma skip_none: "(s \<noteq> [] \<Longrightarrow> \<not> P (hd s)) \<Longrightarrow> skip_chars P s n = (s, n)"
  by (cases s) auto

lemma trim_line: "(v \<noteq> [] \<Longrightarrow> \<not> blank (last v)) \<Longrightarrow> trim_end (v @ [LF]) = v"
  by (cases v rule: rev_cases) (auto simp: trim_end_def blank_def)

lemma strstr_prefix: "strstr (k @ s) k = Some (k @ s)"
proof -
  have "take (length k) x = k \<Longrightarrow> strstr x k = Some x" for x by (cases x) auto
  then show ?thesis by simp
qed

lemma own_line:
  assumes "prop_ok (k, v)" "length (prop_line (k, v)) + 2 \<le> sz" "int (length v) < len"
  shows "property_line sz k len (prop_line (k, v) @ [LF]) = Some (Inr v)"
proof -
  have k: "k \<noteq> []" "hd k \<noteq> CHR '' ''" "hd k \<noteq> CHR ''#''" "NUL \<notin> set (k @ ''='' @ v @ [LF])"
    and v: "v \<noteq> [] \<Longrightarrow> hd v \<noteq> CHR '' '' \<and> hd v \<noteq> CHR ''='' \<and> \<not> blank (last v)"
    using assms(1) by (auto simp: prop_ok_def prop_line_def)
  have "skip_chars (\<lambda>c. c = CHR '' '') (k @ ''='' @ v @ [LF]) sz = (k @ ''='' @ v @ [LF], sz)" using k by (intro skip_none) simp
  moreover have "skip_chars (\<lambda>c. c = CHR '' '' \<or> c = CHR ''='') (''='' @ v @ [LF]) n = (v @ [LF], n - 1)" if "1 \<le> n" for n
  proof -
    have "skip_chars (\<lambda>c. c = CHR '' '' \<or> c = CHR ''='') (v @ [LF]) m = (v @ [LF], m)" for m
      using v by (intro skip_none) (cases v, auto)
    then show ?thesis using that by simp
  qed
  moreover have "take 1 (k @ ''='' @ v @ [LF]) \<noteq> ''#''" using k(1,3) by (cases k) auto
  moreover have "trim_end (v @ [LF]) = v" using v by (intro trim_line) simp
  moreover have "1 \<le> sz - length k" "1 < sz - length k - 1" "1 < sz" using assms(2) by (auto simp: prop_line_def)
  moreover have "cstr (k @ ''='' @ v @ [LF]) = k @ ''='' @ v @ [LF]" using k(4) by (rule cstr_id)
  ultimately show ?thesis using assms(3) strstr_prefix[of k "''='' @ v @ [LF]"]
    by (simp add: property_line_def prop_line_def del: skip_chars.simps append_Cons)
qed

lemma other_line: "prop_ok p \<Longrightarrow> strstr (prop_line p @ [LF]) k = None \<Longrightarrow> property_line sz k len (prop_line p @ [LF]) = None"
proof -
  assume p: "prop_ok p" and n: "strstr (prop_line p @ [LF]) k = None"
  have "skip_chars (\<lambda>c. c = CHR '' '') (prop_line p @ [LF]) sz = (prop_line p @ [LF], sz)"
    using p by (intro skip_none) (cases "fst p", auto simp: prop_ok_def prop_line_def)
  moreover have "cstr (prop_line p @ [LF]) = prop_line p @ [LF]" using p by (intro cstr_id) (auto simp: prop_ok_def)
  ultimately show ?thesis using n by (simp add: property_line_def)
qed

lemma property_scan_map:
  assumes "\<And>old need. need \<le> gr old need" "list_all prop_ok ps" "list_all (\<lambda>p. fst p = k \<or> strstr (prop_line p @ [LF]) k = None) ps"
    "list_all (\<lambda>p. int (length (snd p)) < len) ps"
  shows "property_scan gr sz k len (map (\<lambda>p. prop_line p @ [LF]) ps)
    = (case map_of ps k of None \<Rightarrow> Inl AMLDEVICE_FAILED | Some v \<Rightarrow> Inr v)"
  using assms(2-4)
proof (induction ps arbitrary: sz)
  case (Cons p ps)
  obtain n v where p: "p = (n, v)" by (cases p)
  let ?sz = "gr sz (length (prop_line p @ [LF]) + 1)"
  have sz: "length (prop_line p) + 2 \<le> ?sz" using assms(1)[of "length (prop_line p @ [LF]) + 1" sz] by simp
  show ?case
  proof (cases "n = k")
    case True
    have "property_line ?sz k len (prop_line p @ [LF]) = Some (Inr v)" unfolding p True
      by (rule own_line) (use Cons.prems sz in \<open>simp_all add: p True\<close>)
    then show ?thesis by (simp add: p True)
  next
    case False
    then have "property_line ?sz k len (prop_line p @ [LF]) = None" using Cons.prems(1,2) by (intro other_line) (auto simp: p)
    then show ?thesis using Cons False by (simp add: p Let_def)
  qed
qed simp

text \<open>A file of \<open>name=value\<close> lines in which the wanted name occurs nowhere but as a name is a map: \<open>AmlDeviceGetProperty\<close>
  stores the value of the name, or fails with the buffer unchanged when there is none, whatever sizes \<open>getline\<close> allocates.\<close>

theorem property_file_is_map:
  assumes "\<And>old need. need \<le> grow e old need" "getenv e k = None" "saved_system_property_file e = Some f" "prop_files e f = Some (prop_text ps)"
    "list_all prop_ok ps" "list_all (\<lambda>p. fst p = k \<or> strstr (prop_line p @ [LF]) k = None) ps"
    "list_all (\<lambda>p. length (snd p) < length buf) ps"
  shows "\<exists>r buf'. AmlDeviceGetProperty e (Some k) (Some buf) (int (length buf)) = Some (r, Some buf')
    \<and> (case map_of ps k of None \<Rightarrow> buf' = buf \<and> (buf = [] \<or> r = AMLDEVICE_FAILED) | Some v \<Rightarrow> r = AMLDEVICE_SUCCESS \<and> cstr buf' = v)"
proof -
  have len: "length (prop_line p) < length (prop_text ps)" if "p \<in> set ps" for p
    using that by (induction ps) (auto simp: prop_text_def)
  have ls: "fgets_lines (length (prop_text ps)) (prop_text ps) = map (\<lambda>p. prop_line p @ [LF]) ps"
    unfolding prop_text_def
    by (subst fgets_whole_lines) (use assms(5) len in \<open>auto simp: list_all_iff prop_ok_def prop_text_def\<close>)
  have scan: "property_scan (grow e) 0 k (int (length buf)) (map (\<lambda>p. prop_line p @ [LF]) ps)
      = (case map_of ps k of None \<Rightarrow> Inl AMLDEVICE_FAILED | Some v \<Rightarrow> Inr v)"
    using assms(1,5-7) by (intro property_scan_map) (simp_all add: list_all_iff)
  show ?thesis
  proof (cases "map_of ps k")
    case None
    then show ?thesis using assms(2-4) ls scan by (simp add: AmlDeviceGetProperty_def AmlDeviceParsePropertyFile_def)
  next
    case (Some v)
    then have kv: "(k, v) \<in> set ps" by (rule map_of_SomeD)
    then have v: "length v < length buf" "NUL \<notin> set v" using assms(5,7) by (auto simp: list_all_iff prop_ok_def prop_line_def)
    then have "cstr (put_at buf 0 (v @ [NUL])) = v" by (simp add: put_at_def)
    then show ?thesis using Some v assms(2-4) ls scan
      by (auto simp: AmlDeviceGetProperty_def AmlDeviceParsePropertyFile_def strcpy_def)
  qed
qed

lemma property_file_is_map_witness:
  "\<exists>r buf'. AmlDeviceGetProperty \<lparr>saved_system_property_file = Some ''f'', getenv = (\<lambda>n. None),
      prop_files = (\<lambda>f. Some (prop_text [(''OEM'', ''Amlogic''), (''MODEL'', ''X 1'')])), grow = max\<rparr> (Some ''MODEL'') (Some ''????????'') 8
    = Some (r, Some buf') \<and> r = AMLDEVICE_SUCCESS \<and> cstr buf' = ''X 1''"
proof -
  have "list_all prop_ok [(''OEM'', ''Amlogic''), (''MODEL'', ''X 1'')]"
    "list_all (\<lambda>p. fst p = ''MODEL'' \<or> strstr (prop_line p @ [LF]) ''MODEL'' = None) [(''OEM'', ''Amlogic''), (''MODEL'', ''X 1'')]"
    by code_simp+
  then show ?thesis
    using property_file_is_map[of "\<lparr>saved_system_property_file = Some ''f'', getenv = (\<lambda>n. None),
      prop_files = (\<lambda>f. Some (prop_text [(''OEM'', ''Amlogic''), (''MODEL'', ''X 1'')])), grow = max\<rparr>" "''MODEL''" "''f''"
      "[(''OEM'', ''Amlogic''), (''MODEL'', ''X 1'')]" "''????????''"]
    by simp
qed

end
