(* ===== verification/Fota.thy ===== *)
theory Fota
  imports DeviceProps "HOL-Library.Monad_Syntax" "HOL-Library.Signed_Division"
begin

text \<open>
  \<open>utils/fota_upgrade.c\<close>, the program that checks for a new version of the device's software, downloads and verifies it,
  and starts the recovery system. The update library \<open>dmgr\<close>, of which the repository has the header only, is an argument:
  the results of its calls and the notifications it sends. Commands given to the shell and files written are recorded in order.
  Memory is taken to suffice.
\<close>

section \<open>The context\<close>

definition INFO_LEN :: nat where "INFO_LEN = 128"
definition MD5_LEN :: nat where "MD5_LEN = 32"

record version_info =
  version_name :: "string option"
  file_size :: int
  delta_id :: "string option"
  md5sum :: "string option"
  delta_url :: "string option"
  release_note :: "string option"
  version_flags :: int
  upgrade_from_time :: "string option"
  upgrade_to_time :: "string option"
  upgrade_gap :: "string option"
  meta_data :: "string option"
  event_id :: "string option"

definition no_version :: version_info where
  "no_version = \<lparr>version_name = None, file_size = 0, delta_id = None, md5sum = None, delta_url = None, release_note = None,
     version_flags = 0, upgrade_from_time = None, upgrade_to_time = None, upgrade_gap = None, meta_data = None, event_id = None\<rparr>"

datatype fota_act = System string | WriteFile string string

text \<open>The texts are buffers of 128 bytes, \<open>DEVINFO_MID\<close> one of 256; \<open>pre_percent\<close> is the static variable of
  \<open>download_notifier\<close>.\<close>

record test_context =
  DEVINFO_OEM :: string
  DEVINFO_DEVICETYPE :: string
  DEVINFO_PLATFORM :: string
  DEVINFO_MODELS :: string
  DEVINFO_VERSION :: string
  DEVINFO_PRODUCTID :: string
  DEVINFO_PRODUCTSECRET :: string
  DEVINFO_MID :: string
  has_new_version :: int
  cloned_version :: version_info
  download_exit :: int
  pre_percent :: int
  fota_acts :: "fota_act list"

definition text_buffer :: "nat \<Rightarrow> string \<Rightarrow> string" where
  "text_buffer n s = s @ replicate (n - length s) NUL"

definition INIT_DEFAULT_TEST_CONTEXT :: test_context where
  "INIT_DEFAULT_TEST_CONTEXT = \<lparr>DEVINFO_OEM = text_buffer INFO_LEN ''Amlogic'', DEVINFO_DEVICETYPE = text_buffer INFO_LEN ''smarthome'',
     DEVINFO_PLATFORM = text_buffer INFO_LEN ''A113D'', DEVINFO_MODELS = text_buffer INFO_LEN ''OTT'', DEVINFO_VERSION = text_buffer INFO_LEN ''0.5.0'',
     DEVINFO_PRODUCTID = text_buffer INFO_LEN ''1660115992'', DEVINFO_PRODUCTSECRET = text_buffer INFO_LEN ''fa7bfc8d755c4c0b8c52fdb00d431d3f'',
     DEVINFO_MID = text_buffer 256 ''20220809043042'', has_new_version = 0, cloned_version = no_version, download_exit = 0, pre_percent = 0,
     fota_acts = []\<rparr>"

definition act :: "fota_act \<Rightarrow> test_context \<Rightarrow> test_context" where
  "act a ctx = ctx\<lparr>fota_acts := fota_acts ctx @ [a]\<rparr>"

definition stat :: "string \<Rightarrow> test_context \<Rightarrow> test_context" where
  "stat s = act (System (''echo '' @ s @ '' > /tmp/fota_stat''))"

section \<open>Versions\<close>

definition write_new_version :: "bool \<Rightarrow> bool \<Rightarrow> version_info \<Rightarrow> test_context \<Rightarrow> int \<times> test_context" where
  "write_new_version exists fopen_ok ver ctx =
     (let ctx1 = (if exists then act (System ''rm /data/new_version'') ctx else ctx) in
      if \<not> fopen_ok then (-1, ctx1)
      else (0, act (WriteFile ''/data/new_version'' (''version_name:'' @ (case version_name ver of Some s \<Rightarrow> s | None \<Rightarrow> ''(null)'') @ [LF])) ctx1))"

definition simple_strndup :: "string \<Rightarrow> nat \<Rightarrow> string" where
  "simple_strndup s n = take n s"

definition simple_strdup :: "string \<Rightarrow> string" where
  "simple_strdup s = simple_strndup s 0x7fffff"

definition clone_field :: "(string \<Rightarrow> string) \<Rightarrow> string option \<Rightarrow> string option \<Rightarrow> string option" where
  "clone_field dup new old = (case new of Some s \<Rightarrow> Some (dup s) | None \<Rightarrow> old)"

definition clone_version :: "version_info \<Rightarrow> test_context \<Rightarrow> test_context" where
  "clone_version info ctx =
     (let old = cloned_version ctx in ctx\<lparr>cloned_version :=
       \<lparr>version_name = clone_field simple_strdup (version_name info) (version_name old),
        file_size = file_size info,
        delta_id = clone_field simple_strdup (delta_id info) (delta_id old),
        md5sum = clone_field simple_strdup (md5sum info) (md5sum old),
        delta_url = clone_field simple_strdup (delta_url info) (delta_url old),
        release_note = clone_field simple_strdup (release_note info) (release_note old),
        version_flags = version_flags info,
        upgrade_from_time = clone_field id (upgrade_from_time info) (upgrade_from_time old),
        upgrade_to_time = clone_field id (upgrade_to_time info) (upgrade_to_time old),
        upgrade_gap = clone_field id (upgrade_gap info) (upgrade_gap old),
        meta_data = clone_field simple_strdup (meta_data info) (meta_data old),
        event_id = clone_field id (event_id info) (event_id old)\<rparr>\<rparr>)"

definition free_cloned_version :: "test_context \<Rightarrow> test_context" where
  "free_cloned_version ctx = (if has_new_version ctx = 0 then ctx else ctx\<lparr>cloned_version := no_version, has_new_version := 0\<rparr>)"

section \<open>Notifications\<close>

datatype notify = NOTIFY_CHECKVERSION_PREPARE | NOTIFY_CHECKVERSION_ABORTED | NOTIFY_CHECKVERSION_FINISHED | NOTIFY_DOWNLOAD_PREPARE
  | NOTIFY_DOWNLOAD_ABORTED | NOTIFY_DOWNLOAD_TRANSLATING | NOTIFY_DOWNLOAD_FINISHED | NOTIFY_DOWNLOAD_PARTTIAL_FINISHED | NOTIFY_OTHER

definition checkversion_notifier :: "notify \<Rightarrow> version_info option \<Rightarrow> test_context \<Rightarrow> test_context" where
  "checkversion_notifier action data ctx =
     (case action of
        NOTIFY_CHECKVERSION_FINISHED \<Rightarrow> (case data of None \<Rightarrow> ctx | Some info \<Rightarrow> clone_version info (ctx\<lparr>has_new_version := 1\<rparr>))
      | _ \<Rightarrow> ctx)"

text \<open>\<^const>\<open>None\<close>: a division by zero, or a product outside \<open>long\<close>.\<close>

definition download_notifier :: "notify \<Rightarrow> int \<times> int \<Rightarrow> test_context \<Rightarrow> test_context option" where
  "download_notifier action bytes ctx =
     (let total = fst bytes sdiv 1024; saved = snd bytes sdiv 1024; percent = ((saved * 100) sdiv total) mod 2 ^ 32 in
      if total = 0 \<or> saved * 100 < - (2 ^ 63) \<or> 2 ^ 63 \<le> saved * 100 then None
      else Some (case action of
          NOTIFY_DOWNLOAD_PREPARE \<Rightarrow> ctx\<lparr>pre_percent := 0\<rparr>
        | NOTIFY_DOWNLOAD_ABORTED \<Rightarrow> ctx\<lparr>download_exit := -1\<rparr>
        | NOTIFY_DOWNLOAD_TRANSLATING \<Rightarrow>
            if percent < 100 \<and> pre_percent ctx \<noteq> percent then stat (''Downloading '' @ pr_int percent) (ctx\<lparr>pre_percent := percent\<rparr>) else ctx
        | NOTIFY_DOWNLOAD_FINISHED \<Rightarrow> ctx\<lparr>download_exit := 1\<rparr>
        | NOTIFY_DOWNLOAD_PARTTIAL_FINISHED \<Rightarrow> ctx\<lparr>download_exit := 1\<rparr>
        | _ \<Rightarrow> ctx))"

text \<open>
  The wait, which sleeps a second between its looks at \<open>download_exit\<close>: the notifications are taken one by one, and none
  after the first that sets it, although one could still come within that second.
\<close>

fun WAIT_DOWNLOAD_COMPLETED :: "(notify \<times> int \<times> int) list \<Rightarrow> test_context \<Rightarrow> test_context option" where
  "WAIT_DOWNLOAD_COMPLETED [] ctx = (if download_exit ctx \<noteq> 0 then Some ctx else None)"
| "WAIT_DOWNLOAD_COMPLETED ((action, bytes) # evs) ctx =
     (if download_exit ctx \<noteq> 0 then Some ctx
      else (case download_notifier action bytes ctx of None \<Rightarrow> None | Some ctx1 \<Rightarrow> WAIT_DOWNLOAD_COMPLETED evs ctx1))"

section \<open>The device\<close>

definition getMid :: "'d key_driver \<Rightarrow> string \<Rightarrow> 'd \<Rightarrow> (int \<times> string) option" where
  "getMid kd readbuf d =
     (let (ret, d1) = Aml_Util_UnifyKeyInit kd UNIFYKEYS_PATH d in
      Aml_Util_UnifyKeyRead kd (Some UNIFYKEYS_PATH) (Some ''deviceid'') readbuf d1)"

definition get_sw_version :: "string option \<Rightarrow> string \<Rightarrow> (int \<times> string) option" where
  "get_sw_version file sw_version =
     (case file of
        None \<Rightarrow> Some (-1, sw_version)
      | Some text \<Rightarrow> (case find (\<lambda>l. strstr l ''imagename'' \<noteq> None) (map cstr (fgets_lines 199 text)) of
          None \<Rightarrow> Some (0, sw_version)
        | Some l \<Rightarrow> if length l < 15 then None else Some (0, put_at sw_version 0 (take 14 (drop (length l - 15) l)))))"

text \<open>One property: its result, \<open>out_value\<close>, and the field, into which the text is copied without its end.\<close>

definition get_info :: "prop_env \<Rightarrow> string \<Rightarrow> string \<Rightarrow> string \<Rightarrow> (int \<times> string \<times> string) option" where
  "get_info e name out field =
     do { (ret, v) \<leftarrow> AmlDeviceGetProperty e (Some name) (Some out) (int INFO_LEN);
          out1 \<leftarrow> v;
          if ret = AMLDEVICE_SUCCESS
          then do { s \<leftarrow> cstr_at out1 0; if length s \<le> length field then Some (ret, out1, put_at field 0 s) else None }
          else Some (ret, out1, field) }"

definition get_deviceinfo :: "prop_env \<Rightarrow> string option \<Rightarrow> string \<Rightarrow> test_context \<Rightarrow> (int \<times> test_context) option" where
  "get_deviceinfo e version_file out ctx =
     do { (_, ver) \<leftarrow> get_sw_version version_file (DEVINFO_VERSION ctx);
          (_, out1, oem) \<leftarrow> get_info e ''DEVINFO_OEM'' out (DEVINFO_OEM ctx);
          (_, out2, dt) \<leftarrow> get_info e ''DEVINFO_DEVICETYPE'' out1 (DEVINFO_DEVICETYPE ctx);
          (_, out3, plat) \<leftarrow> get_info e ''DEVINFO_PLATFORM'' out2 (DEVINFO_PLATFORM ctx);
          (_, out4, models) \<leftarrow> get_info e ''DEVINFO_MODELS'' out3 (DEVINFO_MODELS ctx);
          (_, out5, pid) \<leftarrow> get_info e ''DEVINFO_PRODUCTID'' out4 (DEVINFO_PRODUCTID ctx);
          (ret, out6, secret) \<leftarrow> get_info e ''DEVINFO_PRODUCTSECRET'' out5 (DEVINFO_PRODUCTSECRET ctx);
          Some (ret, ctx\<lparr>DEVINFO_VERSION := ver, DEVINFO_OEM := oem, DEVINFO_DEVICETYPE := dt, DEVINFO_PLATFORM := plat,
            DEVINFO_MODELS := models, DEVINFO_PRODUCTID := pid, DEVINFO_PRODUCTSECRET := secret\<rparr>) }"

section \<open>Checks\<close>

text \<open>The digest in what \<open>md5sum\<close> prints; \<open>out\<close> is \<^const>\<open>None\<close> when it cannot be started.\<close>

definition CalcFileMD5 :: "string option \<Rightarrow> string option" where
  "CalcFileMD5 out =
     (case out of
        None \<Rightarrow> None
      | Some text \<Rightarrow> let ds = takeWhile isxdigit (take MD5_LEN text) in if length ds = MD5_LEN then Some ds else None)"

definition check_md5 :: "string option \<Rightarrow> string option \<Rightarrow> int option" where
  "check_md5 out expected =
     (case CalcFileMD5 out of
        None \<Rightarrow> Some (-1)
      | Some ds \<Rightarrow> map_option (\<lambda>m. if strncmp_eq ds m MD5_LEN then 0 else -1) expected)"

text \<open>The lines of \<open>ping\<close>: the result of the first with \<open>received,\<close>. Three bytes are read as a number together with those that
  follow \<open>num\<close> in memory, \<open>junk\<close>.\<close>

fun net_scan :: "string \<Rightarrow> string list \<Rightarrow> int option option" where
  "net_scan junk [] = Some None"
| "net_scan junk (l # ls) =
     (case strstr l ''received,'' of
        None \<Rightarrow> net_scan junk ls
      | Some p \<Rightarrow>
          let k = length l - length p in
          if k + 13 > 200 then None
          else do { s \<leftarrow> cstr_at (get_at (text_buffer 200 l) (k + 10) 3 @ junk) 0; n \<leftarrow> atoi s; Some (Some (if n = 0 then 1 else 0)) })"

text \<open>Without a file \<open>fopen\<close> returns \<open>NULL\<close>, which is not below zero.\<close>

definition checkNet :: "string option \<Rightarrow> string \<Rightarrow> test_context \<Rightarrow> (int \<times> test_context) option" where
  "checkNet netlog junk ctx =
     (let ctx1 = act (System ''ping www.abupdate.com -c 1 -w 2 > /tmp/netlog'') ctx in
      do { text \<leftarrow> netlog;
           r \<leftarrow> net_scan junk (map cstr (fgets_lines 199 text));
           Some (case r of Some n \<Rightarrow> (n, ctx1) | None \<Rightarrow> (0, act (System ''rm /tmp/netlog'') ctx1)) })"

section \<open>The program\<close>

text \<open>What happens in one round of the loop.\<close>

record fota_round =
  netlog :: "string option"
  net_junk :: string
  dm_alloc :: int
  dm_registers :: "int list"
  dm_free :: int
  dm_check :: int
  check_events :: "(notify \<times> version_info option) list"
  package_exists :: bool
  dm_download :: int
  download_events :: "(notify \<times> int \<times> int) list"
  version_exists :: bool
  version_fopen :: bool
  md5_out :: "string option"

text \<open>The end of a round after the download.\<close>

definition fota_finish :: "fota_round \<Rightarrow> int \<Rightarrow> test_context \<Rightarrow> (int \<times> test_context) option" where
  "fota_finish r ret ctx =
     (if has_new_version ctx \<noteq> 0 \<and> download_exit ctx = 1 then
        let ctx1 = snd (write_new_version (version_exists r) (version_fopen r) (cloned_version ctx) ctx) in
        do { m \<leftarrow> check_md5 (md5_out r) (md5sum (cloned_version ctx));
             if m = 0 then Some (1, free_cloned_version (act (System ''reboot recovery'') (stat ''package_check_SUCCESS'' ctx1)))
             else let ctx2 = act (System ''sync'') (act (System ''rm /data/software.swu'') ctx1) in
               if dm_free r \<noteq> 0 then Some (-1, ctx2)
               else Some (-1, free_cloned_version (stat ''package_check_FAILED'' ctx2)) }
      else Some (ret, free_cloned_version ctx))"

text \<open>A round: \<open>Inr\<close> continues the loop. \<open>DEVINFO_CHK_URL\<close> is \<open>NULL\<close>, so no server is registered.\<close>

definition fota_round_step :: "fota_round \<Rightarrow> int \<Rightarrow> test_context \<Rightarrow> ((int \<times> test_context) + test_context) option" where
  "fota_round_step r ret ctx =
     do { (net, ctx1) \<leftarrow> checkNet (netlog r) (net_junk r) ctx;
          if net = 0 then Some (Inl (-1, stat ''network_not_connect'' ctx1))
          else if dm_alloc r \<le> 0 then Some (Inl (-1, ctx1))
          else if list_ex (\<lambda>x. x \<noteq> 0) (dm_registers r) then Some (if dm_free r \<noteq> 0 then Inl (-1, ctx1) else Inr ctx1)
          else let ctx2 = fold (\<lambda>(a, v). checkversion_notifier a v) (check_events r) ctx1 in
            if dm_check r \<noteq> 0 then
              Some (Inl (if dm_free r \<noteq> 0 then (-1, ctx2) else (ret, act (System ''echo Check_NewVersion Failed> /tmp/fota_stat'') ctx2)))
            else if has_new_version ctx2 = 0 then
              let ctx3 = (if package_exists r then act (System ''rm /data/software.swu'') ctx2 else ctx2) in
              Some (Inl (if dm_free r \<noteq> 0 then (-1, ctx3) else (0, stat ''No_NewVersion'' ctx3)))
            else
              let ctx3 = stat ''downloading'' (stat ''NewVersion'' ctx2) in
              if dm_download r \<noteq> 0 then Some (Inl (if dm_free r \<noteq> 0 then (-1, ctx3) else (-1, stat ''Download_FAILED'' ctx3)))
              else do { ctx4 \<leftarrow> WAIT_DOWNLOAD_COMPLETED (download_events r) ctx3; map_option Inl (fota_finish r ret ctx4) } }"

partial_function (option) fota_loop :: "(nat \<Rightarrow> fota_round) \<Rightarrow> nat \<Rightarrow> int \<Rightarrow> test_context \<Rightarrow> (int \<times> test_context) option" where
  "fota_loop rs i ret ctx =
     (case fota_round_step (rs i) ret ctx of
        None \<Rightarrow> None
      | Some (Inl x) \<Rightarrow> Some x
      | Some (Inr ctx1) \<Rightarrow> fota_loop rs (i + 1) ret ctx1)"

text \<open>\<open>rbuf\<close> and \<open>out\<close> are the uninitialised buffers of \<open>main\<close> and \<open>get_deviceinfo\<close>.\<close>

definition fota_main :: "'d key_driver \<Rightarrow> 'd \<Rightarrow> prop_env \<Rightarrow> string option \<Rightarrow> string \<Rightarrow> string \<Rightarrow> (nat \<Rightarrow> fota_round) \<Rightarrow> (int \<times> test_context) option" where
  "fota_main kd d e version_file rbuf out rs =
     do { (ret, rbuf1) \<leftarrow> getMid kd rbuf d;
          mid \<leftarrow> cstr_at rbuf1 0;
          if mid = [] \<or> ret \<le> 0 then Some (-1, INIT_DEFAULT_TEST_CONTEXT)
          else do { b \<leftarrow> strcpy (DEVINFO_MID INIT_DEFAULT_TEST_CONTEXT) mid;
            (ret1, ctx) \<leftarrow> get_deviceinfo e version_file out (INIT_DEFAULT_TEST_CONTEXT\<lparr>DEVINFO_MID := b\<rparr>);
            if ret1 < 0 then Some (-1, ctx)
            else fota_loop rs 0 ret1 (stat ''Checking_NewVersion'' ctx) } }"

end
