(* ===== verification/FotaProps.thy ===== *)
theory FotaProps
  imports Fota
begin

text \<open>
  What \<open>utils/fota_upgrade.c\<close> guarantees: the recovery system is started for a verified package only, and for
  every package that is announced, downloaded and verified; what it reports of a download that is aborted, and what its device
  information is.
\<close>

section \<open>The device information\<close>

lemma text_buffer_simps [simp]: "length s \<le> n \<Longrightarrow> length (text_buffer n s) = n" "NUL \<notin> set s \<Longrightarrow> cstr (text_buffer n s) = s"
  by (simp_all add: text_buffer_def)

text \<open>A property is copied over the default of the device information without its end: when it is shorter, the rest
  of the default follows it.\<close>

theorem property_keeps_default_tail:
  assumes "getenv e name = Some v" "NUL \<notin> set v" "length v < INFO_LEN" "NUL \<notin> set s" "length s < INFO_LEN" "length out = INFO_LEN"
  shows "\<exists>out' f. get_info e name out (text_buffer INFO_LEN s) = Some (AMLDEVICE_SUCCESS, out', f) \<and> cstr f = v @ drop (length v) s"
proof -
  have c: "cstr (strncpy out v INFO_LEN) = v" using assms(2,3,6) by (intro cstr_strncpy_short) simp_all
  have "length (strncpy out v INFO_LEN) = INFO_LEN" using assms(6) by simp
  moreover have "strncpy out v INFO_LEN = take INFO_LEN (v @ replicate INFO_LEN NUL)" using assms(2,6) by (simp add: strncpy_def)
  moreover have "NUL \<in> set (take INFO_LEN (v @ replicate INFO_LEN NUL))" using assms(3) by simp
  ultimately have "cstr_at (strncpy out v INFO_LEN) 0 = Some v" using c by (simp add: cstr_at_def)
  then have "get_info e name out (text_buffer INFO_LEN s) = Some (AMLDEVICE_SUCCESS, strncpy out v INFO_LEN, put_at (text_buffer INFO_LEN s) 0 v)"
    using assms by (simp add: get_info_def AmlDeviceGetProperty_def INFO_LEN_def)
  moreover have "put_at (text_buffer INFO_LEN s) 0 v = (v @ drop (length v) s) @ replicate (INFO_LEN - max (length v) (length s)) NUL"
    using assms(3,5) by (auto simp: put_at_def text_buffer_def max_def)
  moreover have "NUL \<notin> set (v @ drop (length v) s)" using assms(2,4) by (auto dest: in_set_dropD)
  ultimately show ?thesis by (metis cstr_append_zeros)
qed

section \<open>Commands that do not start the recovery system\<close>

definition no_reboot :: "test_context \<Rightarrow> bool" where
  "no_reboot ctx \<longleftrightarrow> System ''reboot recovery'' \<notin> set (fota_acts ctx)"

lemma no_reboot_act [simp]: "no_reboot (act a ctx) \<longleftrightarrow> a \<noteq> System ''reboot recovery'' \<and> no_reboot ctx"
  by (auto simp: no_reboot_def act_def)

lemma no_reboot_stat [simp]: "no_reboot (stat s ctx) \<longleftrightarrow> no_reboot ctx"
  by (simp add: stat_def)

lemma act_keeps [simp]:
  "cloned_version (act a ctx) = cloned_version ctx" "has_new_version (act a ctx) = has_new_version ctx" "download_exit (act a ctx) = download_exit ctx"
  "cloned_version (stat s ctx) = cloned_version ctx" "has_new_version (stat s ctx) = has_new_version ctx" "download_exit (stat s ctx) = download_exit ctx"
  by (simp_all add: act_def stat_def)

lemma acts_act [simp]: "fota_acts (act a ctx) = fota_acts ctx @ [a]"
  by (simp add: act_def)

definition same_version :: "test_context \<Rightarrow> test_context \<Rightarrow> bool" where
  "same_version ctx ctx' \<longleftrightarrow> cloned_version ctx' = cloned_version ctx \<and> has_new_version ctx' = has_new_version ctx"

lemma checkNet_keeps: "checkNet nl junk ctx = Some (n, ctx1)
    \<Longrightarrow> no_reboot ctx1 = no_reboot ctx \<and> same_version ctx ctx1 \<and> download_exit ctx1 = download_exit ctx"
  by (auto simp: checkNet_def same_version_def Let_def split: bind_splits option.splits)

lemma download_notifier_keeps: "download_notifier a b ctx = Some ctx1 \<Longrightarrow> no_reboot ctx1 = no_reboot ctx \<and> same_version ctx ctx1"
  by (auto simp: download_notifier_def same_version_def Let_def no_reboot_def stat_def act_def split: if_splits notify.splits)

lemma wait_keeps: "WAIT_DOWNLOAD_COMPLETED evs ctx = Some ctx1 \<Longrightarrow> no_reboot ctx1 = no_reboot ctx \<and> same_version ctx ctx1"
proof (induction evs ctx rule: WAIT_DOWNLOAD_COMPLETED.induct)
  case (2 action bytes evs ctx)
  show ?case
  proof (cases "download_exit ctx \<noteq> 0")
    case False
    then obtain ctx2 where "download_notifier action bytes ctx = Some ctx2" "WAIT_DOWNLOAD_COMPLETED evs ctx2 = Some ctx1"
      using "2.prems" by (auto split: option.splits)
    then show ?thesis using "2.IH"[OF False] download_notifier_keeps[of action bytes ctx ctx2] by (auto simp: same_version_def)
  qed (use "2.prems" in \<open>simp add: same_version_def\<close>)
qed (auto simp: same_version_def split: if_splits)

definition announces :: "(notify \<times> version_info option) list \<Rightarrow> string \<Rightarrow> bool" where
  "announces evs m \<longleftrightarrow> (\<exists>info m0. (NOTIFY_CHECKVERSION_FINISHED, Some info) \<in> set evs \<and> md5sum info = Some m0 \<and> m = simple_strdup m0)"

abbreviation check_all :: "(notify \<times> version_info option) list \<Rightarrow> test_context \<Rightarrow> test_context" where
  "check_all \<equiv> fold (\<lambda>(a, v). checkversion_notifier a v)"

lemma check_one: "fota_acts (checkversion_notifier a v ctx) = fota_acts ctx \<and> download_exit (checkversion_notifier a v ctx) = download_exit ctx"
  by (cases a; cases v) (simp_all add: checkversion_notifier_def clone_version_def Let_def)

lemma check_announced:
  "fota_acts (check_all evs ctx) = fota_acts ctx \<and> download_exit (check_all evs ctx) = download_exit ctx
    \<and> (md5sum (cloned_version (check_all evs ctx)) = Some m \<longrightarrow> announces evs m \<or> md5sum (cloned_version ctx) = Some m)"
proof (induction evs rule: rev_induct)
  case (snoc x evs)
  obtain a v where x: "x = (a, v)" by (cases x)
  have one: "md5sum (cloned_version (checkversion_notifier a v c)) = Some m \<Longrightarrow> announces [x] m \<or> md5sum (cloned_version c) = Some m" for c
    by (cases a; cases v)
      (auto simp: x checkversion_notifier_def clone_version_def Let_def announces_def clone_field_def split: option.splits)
  have "announces [x] m \<or> announces evs m \<Longrightarrow> announces (evs @ [x]) m" by (auto simp: announces_def)
  then show ?case using snoc check_one[of a v] one[of "check_all evs ctx"] by (auto simp: x)
qed simp

section \<open>Only verified packages\<close>

text \<open>The digest that \<open>md5sum\<close> printed for the package of a round is the announced one.\<close>

definition verified :: "fota_round \<Rightarrow> bool" where
  "verified r \<longleftrightarrow> (\<exists>out m. md5_out r = Some out \<and> announces (check_events r) m
     \<and> list_all isxdigit (take 32 out) \<and> 32 \<le> length out \<and> take 32 (cstr m) = take 32 out)"

lemma check_md5_verified:
  "check_md5 out m = Some 0 \<Longrightarrow> \<exists>t s. out = Some t \<and> m = Some s \<and> list_all isxdigit (take 32 t) \<and> 32 \<le> length t \<and> take 32 (cstr s) = take 32 t"
proof -
  assume "check_md5 out m = Some 0"
  then obtain t s where t: "out = Some t" "m = Some s" "length (takeWhile isxdigit (take 32 t)) = 32"
    "strncmp_eq (takeWhile isxdigit (take 32 t)) s 32"
    by (auto simp: check_md5_def CalcFileMD5_def MD5_LEN_def Let_def split: option.splits if_splits)
  have len: "32 \<le> length t" using t(3) length_takeWhile_le[of isxdigit "take 32 t"] by simp
  then have w: "takeWhile isxdigit (take 32 t) = take 32 t" using t(3) by (metis takeWhile_eq_take take_all_iff length_take min_absorb2 order_refl)
  then have hex: "\<forall>c \<in> set (take 32 t). isxdigit c" by (metis set_takeWhileD)
  then have "NUL \<notin> set (take 32 t)" by (auto simp: isxdigit_def isdigit_def cval_def)
  then have "take 32 (cstr s) = take 32 t" using t(4) by (simp add: strncmp_eq_def w)
  then show ?thesis using t(1,2) len hex by (auto simp: list_all_iff)
qed

lemma finish_reboots:
  assumes "fota_finish r ret ctx = Some (x, ctx')" "no_reboot ctx" "\<not> no_reboot ctx'"
  shows "x = 1 \<and> check_md5 (md5_out r) (md5sum (cloned_version ctx)) = Some 0"
proof -
  have w: "no_reboot (snd (write_new_version a b v ctx))" for a b v using assms(2) by (simp add: write_new_version_def Let_def)
  have f: "no_reboot (free_cloned_version c) = no_reboot c" for c by (simp add: free_cloned_version_def no_reboot_def)
  show ?thesis using assms w f by (auto simp: fota_finish_def Let_def split: if_splits bind_splits)
qed

lemma round_keeps:
  assumes "fota_round_step r ret ctx = Some y" "no_reboot ctx" "md5sum (cloned_version ctx) = None"
  shows "case y of Inr ctx1 \<Rightarrow> no_reboot ctx1 \<and> md5sum (cloned_version ctx1) = None | Inl (x, ctx1) \<Rightarrow> no_reboot ctx1 \<or> x = 1 \<and> verified r"
proof -
  obtain net ctx1 where n: "checkNet (netlog r) (net_junk r) ctx = Some (net, ctx1)"
    using assms(1) by (cases "checkNet (netlog r) (net_junk r) ctx") (auto simp: fota_round_step_def)
  have c1: "no_reboot ctx1" "cloned_version ctx1 = cloned_version ctx" using checkNet_keeps[OF n] assms(2) by (auto simp: same_version_def)
  define ctx2 where "ctx2 = check_all (check_events r) ctx1"
  have c2: "no_reboot ctx2" using c1(1) check_announced[of "check_events r" ctx1] by (simp add: ctx2_def no_reboot_def)
  have v: "verified r" if m: "check_md5 (md5_out r) (md5sum (cloned_version ctx2)) = Some 0"
  proof -
    obtain t s where t: "md5_out r = Some t" "md5sum (cloned_version ctx2) = Some s" "list_all isxdigit (take 32 t)" "32 \<le> length t" "take 32 (cstr s) = take 32 t"
      using check_md5_verified[OF m] by blast
    have "announces (check_events r) s" using check_announced[of "check_events r" ctx1 s] t(2) c1(2) assms(3) by (simp add: ctx2_def)
    then show ?thesis using t unfolding verified_def by blast
  qed
  have fin: "no_reboot ctx' \<or> x = 1 \<and> verified r"
    if "WAIT_DOWNLOAD_COMPLETED evs (stat s1 (stat s2 ctx2)) = Some ctx4" "fota_finish r ret ctx4 = Some (x, ctx')" for evs s1 s2 ctx4 x ctx'
    using finish_reboots[OF that(2)] wait_keeps[OF that(1)] c2 v by (auto simp: same_version_def)
  show ?thesis using assms(1,3) c1 c2 n fin
    by (auto simp: fota_round_step_def ctx2_def[symmetric] Let_def split: if_splits bind_splits)
qed

lemma loop_reboots:
  assumes "fota_loop rs i ret ctx = Some y" "no_reboot ctx" "md5sum (cloned_version ctx) = None"
  shows "no_reboot (snd y) \<or> fst y = 1 \<and> (\<exists>j. verified (rs j))"
proof -
  define P where "P rs i ret ctx y \<longleftrightarrow> (no_reboot ctx \<longrightarrow> md5sum (cloned_version ctx) = None
    \<longrightarrow> no_reboot (snd y) \<or> fst y = 1 \<and> (\<exists>j. verified (rs j)))" for rs :: "nat \<Rightarrow> fota_round" and i :: nat and ret :: int and ctx and y :: "int \<times> test_context"
  have "P rs i ret ctx y"
  proof (rule fota_loop.raw_induct[where P = P, OF _ assms(1)])
    fix loop :: "(nat \<Rightarrow> fota_round) \<Rightarrow> nat \<Rightarrow> int \<Rightarrow> test_context \<Rightarrow> (int \<times> test_context) option" and rs i ret ctx y
    assume IH: "\<And>rs i ret ctx y. loop rs i ret ctx = Some y \<Longrightarrow> P rs i ret ctx y"
      and y: "(case fota_round_step (rs i) ret ctx of None \<Rightarrow> None | Some (Inl x) \<Rightarrow> Some x | Some (Inr ctx1) \<Rightarrow> loop rs (i + 1) ret ctx1) = Some y"
    show "P rs i ret ctx y" unfolding P_def
    proof (intro impI)
      assume ctx: "no_reboot ctx" "md5sum (cloned_version ctx) = None"
      obtain z where z: "fota_round_step (rs i) ret ctx = Some z" using y by (auto split: option.splits)
      note k = round_keeps[OF z ctx]
      show "no_reboot (snd y) \<or> fst y = 1 \<and> (\<exists>j. verified (rs j))"
      proof (cases z)
        case (Inl x)
        then have "y = x" using y z by simp
        then show ?thesis using k Inl by (cases x) auto
      next
        case (Inr ctx1)
        then have "P rs (i + 1) ret ctx1 y" using y z by (intro IH) simp
        then show ?thesis using k Inr by (simp add: P_def)
      qed
    qed
  qed
  then show ?thesis using assms(2,3) by (simp add: P_def)
qed

lemma get_deviceinfo_keeps:
  "get_deviceinfo e vf out ctx = Some (ret, ctx1) \<Longrightarrow> fota_acts ctx1 = fota_acts ctx \<and> cloned_version ctx1 = cloned_version ctx"
  by (auto simp: get_deviceinfo_def split: bind_splits prod.splits)

text \<open>C36: The device is rebooted into the recovery system only when a new version was announced with a digest and \<open>md5sum\<close>
  printed this digest, of 32 hexadecimal digits, for the downloaded package; the program returns 1 then.\<close>

theorem reboot_only_verified:
  assumes "fota_main kd d e version_file rbuf out rs = Some (ret, ctx)" "System ''reboot recovery'' \<in> set (fota_acts ctx)"
  shows "ret = 1 \<and> (\<exists>j. verified (rs j))"
proof -
  have init: "no_reboot (INIT_DEFAULT_TEST_CONTEXT\<lparr>DEVINFO_MID := b\<rparr>)" "md5sum (cloned_version (INIT_DEFAULT_TEST_CONTEXT\<lparr>DEVINFO_MID := b\<rparr>)) = None"
    "no_reboot INIT_DEFAULT_TEST_CONTEXT" for b by (simp_all add: INIT_DEFAULT_TEST_CONTEXT_def no_reboot_def no_version_def)
  have dev: "no_reboot c \<and> md5sum (cloned_version c) = None"
    if "get_deviceinfo e version_file out (INIT_DEFAULT_TEST_CONTEXT\<lparr>DEVINFO_MID := b\<rparr>) = Some (r, c)" for b r c
    using get_deviceinfo_keeps[OF that] init(1,2)[of b] by (simp add: no_reboot_def)
  have "\<not> no_reboot ctx" using assms(2) by (simp add: no_reboot_def)
  then show ?thesis using assms(1) init(3) dev loop_reboots[of rs 0]
    by (auto simp: fota_main_def split: if_splits bind_splits prod.splits) (metis fst_conv snd_conv no_reboot_stat act_keeps(4))+
qed

section \<open>Every verified package\<close>

definition bytes_ok :: "int \<times> int \<Rightarrow> bool" where
  "bytes_ok b \<longleftrightarrow> 1024 \<le> fst b \<and> fst b < 2 ^ 50 \<and> 0 \<le> snd b \<and> snd b < 2 ^ 50"

lemma bytes_defined:
  assumes "bytes_ok b"
  shows "fst b sdiv 1024 \<noteq> 0" "\<not> snd b sdiv 1024 * 100 < - (2 ^ 63)" "\<not> 2 ^ 63 \<le> snd b sdiv 1024 * 100"
proof -
  have d: "fst b sdiv 1024 = fst b div 1024" "snd b sdiv 1024 = snd b div 1024"
    using assms by (auto simp: bytes_ok_def signed_divide_int_def sgn_if)
  have "1 \<le> fst b div 1024" using assms zdiv_mono1[of 1024 "fst b" 1024] by (simp add: bytes_ok_def)
  then show "fst b sdiv 1024 \<noteq> 0" using d by simp
  have "0 \<le> snd b" using assms by (simp add: bytes_ok_def)
  then have "0 \<le> snd b div 1024" "snd b div 1024 \<le> snd b"
    using zdiv_mono2[of "snd b" 1 1024] by (simp_all add: pos_imp_zdiv_nonneg_iff)
  then show "\<not> snd b sdiv 1024 * 100 < - (2 ^ 63)" "\<not> 2 ^ 63 \<le> snd b sdiv 1024 * 100" using assms d by (auto simp: bytes_ok_def)
qed

lemma wait_finishes:
  "list_all (\<lambda>(a, b). (a = NOTIFY_DOWNLOAD_PREPARE \<or> a = NOTIFY_DOWNLOAD_TRANSLATING) \<and> bytes_ok b) evs \<Longrightarrow> bytes_ok b \<Longrightarrow> download_exit ctx = 0
    \<Longrightarrow> \<exists>ctx'. WAIT_DOWNLOAD_COMPLETED (evs @ [(NOTIFY_DOWNLOAD_FINISHED, b)]) ctx = Some ctx' \<and> download_exit ctx' = 1"
proof (induction evs arbitrary: ctx)
  case Nil
  then show ?case using bytes_defined[of b] by (simp add: download_notifier_def Let_def)
next
  case (Cons x evs)
  obtain a c where x: "x = (a, c)" "a = NOTIFY_DOWNLOAD_PREPARE \<or> a = NOTIFY_DOWNLOAD_TRANSLATING" "bytes_ok c" using Cons.prems(1) by (cases x) auto
  obtain ctx1 where c1: "download_notifier a c ctx = Some ctx1" "download_exit ctx1 = 0"
    using x(2) bytes_defined[OF x(3)] Cons.prems(3) by (auto simp: download_notifier_def Let_def)
  have "\<exists>ctx'. WAIT_DOWNLOAD_COMPLETED (evs @ [(NOTIFY_DOWNLOAD_FINISHED, b)]) ctx1 = Some ctx' \<and> download_exit ctx' = 1"
    using Cons.IH[of ctx1] Cons.prems(1,2) c1(2) by simp
  then show ?case using c1 Cons.prems(3) by (simp add: x(1))
qed

text \<open>A round in which a version with the digest \<open>m\<close> is announced and its download finishes.\<close>

definition delivers :: "fota_round \<Rightarrow> string \<Rightarrow> bool" where
  "delivers r m \<longleftrightarrow>
     (\<exists>text. netlog r = Some text \<and> net_scan (net_junk r) (map cstr (fgets_lines 199 text)) = Some (Some 1))
     \<and> 0 < dm_alloc r \<and> list_all (\<lambda>x. x = 0) (dm_registers r) \<and> dm_check r = 0 \<and> dm_download r = 0
     \<and> (\<exists>info. check_events r = [(NOTIFY_CHECKVERSION_PREPARE, None), (NOTIFY_CHECKVERSION_FINISHED, Some info)] \<and> md5sum info = Some m)
     \<and> (\<exists>evs b. download_events r = evs @ [(NOTIFY_DOWNLOAD_FINISHED, b)] \<and> bytes_ok b
        \<and> list_all (\<lambda>(a, b). (a = NOTIFY_DOWNLOAD_PREPARE \<or> a = NOTIFY_DOWNLOAD_TRANSLATING) \<and> bytes_ok b) evs)
     \<and> length m \<le> 0x7fffff"

text \<open>\<open>md5sum\<close> prints the digest \<open>m\<close>.\<close>

definition prints_digest :: "fota_round \<Rightarrow> string \<Rightarrow> bool" where
  "prints_digest r m \<longleftrightarrow>
     (\<exists>out. md5_out r = Some out \<and> 32 \<le> length out \<and> list_all isxdigit (take 32 out) \<and> take 32 (cstr m) = take 32 out)"

lemma check_md5_prints: "check_md5 (md5_out r) (Some m) = Some (if prints_digest r m then 0 else -1)"
proof (cases "prints_digest r m")
  case True
  then obtain out where out: "md5_out r = Some out" "32 \<le> length out" "list_all isxdigit (take 32 out)" "take 32 (cstr m) = take 32 out"
    unfolding prints_digest_def by blast
  have "takeWhile isxdigit (take 32 out) = take 32 out" using out(3) by (simp add: list_all_iff takeWhile_eq_all_conv)
  moreover have "cstr (take 32 out) = take 32 out"
    using out(3) by (intro cstr_id) (auto simp: list_all_iff isxdigit_def isdigit_def cval_def)
  ultimately show ?thesis using out(1,2,4) True
    by (simp add: check_md5_def CalcFileMD5_def MD5_LEN_def Let_def strncmp_eq_def del: takeWhile_eq_all_conv)
next
  case False
  then have "check_md5 (md5_out r) (Some m) \<noteq> Some 0" using check_md5_verified[of "md5_out r" "Some m"] by (auto simp: prints_digest_def)
  then show ?thesis using False by (auto simp: check_md5_def Let_def split: option.splits if_splits)
qed

lemma free_acts: "fota_acts (free_cloned_version ctx) = fota_acts ctx"
  by (simp add: free_cloned_version_def)

lemma delivered_round:
  assumes "delivers r m" "download_exit ctx = 0"
  shows "\<exists>ctx'. fota_round_step r ret ctx = Some (Inl (if prints_digest r m then 1 else -1, ctx'))
    \<and> (\<exists>cs. fota_acts ctx' = cs @ (if prints_digest r m then [System ''reboot recovery'']
       else [System ''rm /data/software.swu'', System ''sync''] @ (if dm_free r = 0 then [System ''echo package_check_FAILED > /tmp/fota_stat''] else [])))"
proof -
  obtain log info evs b where r: "netlog r = Some log" "net_scan (net_junk r) (map cstr (fgets_lines 199 log)) = Some (Some 1)"
    "0 < dm_alloc r" "list_all (\<lambda>x. x = 0) (dm_registers r)" "dm_check r = 0" "dm_download r = 0"
    "check_events r = [(NOTIFY_CHECKVERSION_PREPARE, None), (NOTIFY_CHECKVERSION_FINISHED, Some info)]" "md5sum info = Some m"
    "download_events r = evs @ [(NOTIFY_DOWNLOAD_FINISHED, b)]" "bytes_ok b"
    "list_all (\<lambda>(a, b). (a = NOTIFY_DOWNLOAD_PREPARE \<or> a = NOTIFY_DOWNLOAD_TRANSLATING) \<and> bytes_ok b) evs"
    "length m \<le> 0x7fffff"
    using assms(1) unfolding delivers_def by blast
  define ctx1 where "ctx1 = act (System ''ping www.abupdate.com -c 1 -w 2 > /tmp/netlog'') ctx"
  have net: "checkNet (netlog r) (net_junk r) ctx = Some (1, ctx1)" using r(1,2) by (simp add: checkNet_def ctx1_def)
  define ctx2 where "ctx2 = check_all (check_events r) ctx1"
  have "md5sum (cloned_version ctx2) = Some (simple_strdup m)" "has_new_version ctx2 = 1" "download_exit ctx2 = 0"
    using r(7,8) assms(2) by (simp_all add: ctx2_def ctx1_def checkversion_notifier_def clone_version_def clone_field_def Let_def)
  moreover have "simple_strdup m = m" using r(12) by (simp add: simple_strdup_def simple_strndup_def)
  ultimately have c2: "md5sum (cloned_version ctx2) = Some m" "has_new_version ctx2 = 1" "download_exit ctx2 = 0" by simp_all
  obtain ctx4 where w: "WAIT_DOWNLOAD_COMPLETED (download_events r) (stat ''downloading'' (stat ''NewVersion'' ctx2)) = Some ctx4" "download_exit ctx4 = 1"
    using wait_finishes[OF r(11,10), of "stat ''downloading'' (stat ''NewVersion'' ctx2)"] c2(3) r(9) by auto
  then have c4: "md5sum (cloned_version ctx4) = Some m" "has_new_version ctx4 = 1" using wait_keeps[OF w(1)] c2 by (simp_all add: same_version_def)
  have "list_ex (\<lambda>x. x \<noteq> 0) (dm_registers r) = False" using r(4) by (auto simp: list_all_iff list_ex_iff)
  then have "fota_round_step r ret ctx = map_option Inl (fota_finish r ret ctx4)"
    using net r(3,5,6) c2(2) w(1) by (simp add: fota_round_step_def ctx2_def[symmetric] Let_def)
  then show ?thesis using w(2) c4 check_md5_prints[of r m]
    by (simp add: fota_finish_def Let_def free_acts stat_def)
qed

text \<open>C37: When a new version is announced with a digest and its download finishes, the digest decides: if \<open>md5sum\<close> prints the announced
  one, of 32 hexadecimal digits, the last command reboots into the recovery system and the result is 1; if it prints
  anything else, or nothing, the package is removed and the result is -1, and the failure is written to \<open>/tmp/fota_stat\<close> unless
  \<open>dmgr_free\<close> fails, when the program returns before. Conditions: the log of \<open>ping\<close> tells that the network is there; the
  device manager is allocated, all its registrations, the check for a version and the start of the download succeed; the check
  notifies of its preparation and of the version, the download of its preparation and progress and at last of its end; these
  notifications are taken one after the other, and each gives sizes below \<open>2^50\<close> and a total of at least 1024 bytes
  (\<open>download_notifier\<close> divides by zero for a smaller one).\<close>

theorem digest_decides:
  assumes "delivers (rs i) m" "download_exit ctx = 0"
  shows "\<exists>ctx'. fota_loop rs i ret ctx = Some (if prints_digest (rs i) m then 1 else -1, ctx')
    \<and> (\<exists>cs. fota_acts ctx' = cs @ (if prints_digest (rs i) m then [System ''reboot recovery'']
       else [System ''rm /data/software.swu'', System ''sync'']
         @ (if dm_free (rs i) = 0 then [System ''echo package_check_FAILED > /tmp/fota_stat''] else [])))"
  using delivered_round[OF assms, of ret] fota_loop.simps[of rs i ret ctx] by auto

text \<open>A download that is aborted is reported as success: the program returns the result of reading the device information, which is
  not negative, and the status stays at what the download showed last.\<close>

theorem aborted_download_succeeds:
  assumes "netlog (rs i) = Some text" "net_scan (net_junk (rs i)) (map cstr (fgets_lines 199 text)) = Some (Some 1)" "0 < dm_alloc (rs i)"
    "list_all (\<lambda>x. x = 0) (dm_registers (rs i))" "dm_check (rs i) = 0" "check_events (rs i) = [(NOTIFY_CHECKVERSION_FINISHED, Some info)]"
    "dm_download (rs i) = 0" "download_events (rs i) = [(NOTIFY_DOWNLOAD_ABORTED, b)]" "bytes_ok b" "download_exit ctx = 0"
  shows "\<exists>ctx'. fota_loop rs i ret ctx = Some (ret, ctx') \<and> (\<exists>cs. fota_acts ctx' = cs @ [System ''echo downloading > /tmp/fota_stat''])"
proof -
  have net: "checkNet (netlog (rs i)) (net_junk (rs i)) ctx = Some (1, act (System ''ping www.abupdate.com -c 1 -w 2 > /tmp/netlog'') ctx)"
    using assms(1,2) by (simp add: checkNet_def)
  have "list_ex (\<lambda>x. x \<noteq> 0) (dm_registers (rs i)) = False" using assms(4) by (auto simp: list_all_iff list_ex_iff)
  then show ?thesis using assms(3,5-8,10) net bytes_defined[OF assms(9)]
    by (subst fota_loop.simps)
      (simp add: fota_round_step_def checkversion_notifier_def clone_version_def Let_def download_notifier_def fota_finish_def free_acts stat_def act_def)
qed

section \<open>A device that is updated\<close>

definition demo_log :: string where
  "demo_log = ''1 packets transmitted, 1 received, 0% packet loss'' @ [LF]"

definition demo_digest :: string where
  "demo_digest = concat (replicate 8 ''12ab'')"

definition demo_round :: fota_round where
  "demo_round = \<lparr>netlog = Some demo_log, net_junk = [NUL], dm_alloc = 1, dm_registers = replicate 10 0, dm_free = 0, dm_check = 0,
     check_events = [(NOTIFY_CHECKVERSION_PREPARE, None), (NOTIFY_CHECKVERSION_FINISHED, Some (no_version\<lparr>md5sum := Some demo_digest\<rparr>))],
     package_exists = False, dm_download = 0, download_events = [(NOTIFY_DOWNLOAD_FINISHED, 4096, 4096)], version_exists = False,
     version_fopen = True, md5_out = Some demo_digest\<rparr>"

lemma demo_net: "net_scan [NUL] (map cstr (fgets_lines 199 demo_log)) = Some (Some 1)"
  by code_simp

lemma demo_delivers: "delivers demo_round demo_digest"
proof -
  have "length demo_digest = 32" by code_simp
  moreover have "list_all (\<lambda>x. x = 0) (replicate 10 (0 :: int))" by (simp add: list_all_iff)
  ultimately show ?thesis using demo_net by (simp add: delivers_def demo_round_def bytes_ok_def no_version_def)
qed

lemma demo_prints: "prints_digest demo_round demo_digest" "\<not> prints_digest (demo_round\<lparr>md5_out := Some ''no digest''\<rparr>) demo_digest"
proof -
  have "list_all isxdigit demo_digest \<and> length demo_digest = 32 \<and> take 32 (cstr demo_digest) = take 32 demo_digest" by code_simp
  then show "prints_digest demo_round demo_digest" by (simp add: prints_digest_def demo_round_def)
  show "\<not> prints_digest (demo_round\<lparr>md5_out := Some ''no digest''\<rparr>) demo_digest" by (simp add: prints_digest_def)
qed

lemma digest_decides_witness:
  "(\<exists>ctx'. fota_loop (\<lambda>i. demo_round) 0 0 INIT_DEFAULT_TEST_CONTEXT = Some (1, ctx') \<and> (\<exists>cs. fota_acts ctx' = cs @ [System ''reboot recovery'']))
    \<and> (\<exists>ctx'. fota_loop (\<lambda>i. demo_round\<lparr>md5_out := Some ''no digest''\<rparr>) 0 0 INIT_DEFAULT_TEST_CONTEXT = Some (-1, ctx'))"
proof -
  have c: "download_exit INIT_DEFAULT_TEST_CONTEXT = 0" by (simp add: INIT_DEFAULT_TEST_CONTEXT_def)
  have "delivers (demo_round\<lparr>md5_out := Some ''no digest''\<rparr>) demo_digest" using demo_delivers by (simp add: delivers_def)
  then show ?thesis
    using digest_decides[of "\<lambda>i. demo_round" 0 demo_digest, OF demo_delivers c, of 0]
      digest_decides[of "\<lambda>i. demo_round\<lparr>md5_out := Some ''no digest''\<rparr>" 0 demo_digest, OF _ c, of 0] demo_prints
    by auto
qed

lemma aborted_download_succeeds_witness:
  "\<exists>ctx'. fota_loop (\<lambda>i. demo_round\<lparr>check_events := [(NOTIFY_CHECKVERSION_FINISHED, Some no_version)],
        download_events := [(NOTIFY_DOWNLOAD_ABORTED, 4096, 0)]\<rparr>) 0 0 INIT_DEFAULT_TEST_CONTEXT = Some (0, ctx')
    \<and> (\<exists>cs. fota_acts ctx' = cs @ [System ''echo downloading > /tmp/fota_stat''])"
  by (rule aborted_download_succeeds[of _ _ demo_log no_version "(4096, 0)"])
    (simp_all add: demo_round_def demo_net bytes_ok_def INIT_DEFAULT_TEST_CONTEXT_def list_all_iff)

definition demo_driver :: "unit key_driver" where
  "demo_driver = \<lparr>kd_open = (\<lambda>d p. True), kd_attach = (\<lambda>d. (0, d)), kd_info = (\<lambda>d n. (0, \<lparr>key_id = 0, key_size = 3, key_flag = 1\<rparr>)),
     kd_read = (\<lambda>d i n. Inr ''abc''), kd_write = (\<lambda>d i b. (length b, d))\<rparr>"

definition demo_props :: prop_env where
  "demo_props = \<lparr>saved_system_property_file = None, getenv = (\<lambda>n. if n = ''DEVINFO_MODELS'' then Some ''AB'' else None),
     prop_files = (\<lambda>f. None), grow = max\<rparr>"

lemma property_keeps_default_tail_witness:
  "\<exists>out' f. get_info demo_props ''DEVINFO_MODELS'' (zeros INFO_LEN) (text_buffer INFO_LEN ''OTT'') = Some (AMLDEVICE_SUCCESS, out', f) \<and> cstr f = ''ABT''"
  using property_keeps_default_tail[of demo_props "''DEVINFO_MODELS''" "''AB''" "''OTT''" "zeros INFO_LEN"]
  by (simp add: demo_props_def INFO_LEN_def)

lemma demo_info: "\<exists>ctx. get_deviceinfo (demo_props\<lparr>getenv := (\<lambda>n. None)\<rparr>) None (zeros INFO_LEN) c = Some (AMLDEVICE_OPEN_FILE_FAILED, ctx)
    \<and> download_exit ctx = download_exit c"
  by (simp add: get_deviceinfo_def get_sw_version_def get_info_def AmlDeviceGetProperty_def AmlDeviceParsePropertyFile_def demo_props_def
      INFO_LEN_def amldevice_codes)

lemma reboot_only_verified_witness:
  "\<exists>ctx. fota_main demo_driver () (demo_props\<lparr>getenv := (\<lambda>n. None)\<rparr>) None (zeros 64) (zeros INFO_LEN) (\<lambda>i. demo_round) = Some (1, ctx)
    \<and> verified demo_round"
proof -
  have mid: "getMid demo_driver (zeros 64) () = Some (3, put_at (zeros 64) 0 (''abc'' @ [NUL]))"
    by (simp add: getMid_def Aml_Util_UnifyKeyInit_def Aml_Util_UnifyKeyRead_def demo_driver_def KEY_UNIFY_NAME_LEN_def strcpy_def cstr_id)
  have at: "cstr_at (put_at (zeros 64) 0 (''abc'' @ [NUL])) 0 = Some ''abc''" by (simp add: cstr_at_def put_at_def cstr_Cons)
  obtain b where b: "strcpy (DEVINFO_MID INIT_DEFAULT_TEST_CONTEXT) ''abc'' = Some b" by (simp add: strcpy_def INIT_DEFAULT_TEST_CONTEXT_def)
  let ?c = "INIT_DEFAULT_TEST_CONTEXT\<lparr>DEVINFO_MID := b\<rparr>"
  obtain c1 where c1: "get_deviceinfo (demo_props\<lparr>getenv := (\<lambda>n. None)\<rparr>) None (zeros INFO_LEN) ?c = Some (AMLDEVICE_OPEN_FILE_FAILED, c1)"
    "download_exit c1 = download_exit ?c" using demo_info[of ?c] by blast
  have "download_exit (stat ''Checking_NewVersion'' c1) = 0" using c1(2) by (simp add: INIT_DEFAULT_TEST_CONTEXT_def)
  then obtain ctx cs where r: "fota_round_step demo_round AMLDEVICE_OPEN_FILE_FAILED (stat ''Checking_NewVersion'' c1) = Some (Inl (1, ctx))"
    "fota_acts ctx = cs @ [System ''reboot recovery'']"
    using delivered_round[OF demo_delivers, of "stat ''Checking_NewVersion'' c1" AMLDEVICE_OPEN_FILE_FAILED] demo_prints(1) by auto
  then have l: "fota_loop (\<lambda>i. demo_round) 0 AMLDEVICE_OPEN_FILE_FAILED (stat ''Checking_NewVersion'' c1) = Some (1, ctx)"
    by (simp add: fota_loop.simps)
  then have m: "fota_main demo_driver () (demo_props\<lparr>getenv := (\<lambda>n. None)\<rparr>) None (zeros 64) (zeros INFO_LEN) (\<lambda>i. demo_round) = Some (1, ctx)"
    using mid at b c1(1) by (simp add: fota_main_def AMLDEVICE_OPEN_FILE_FAILED_def)
  then show ?thesis using reboot_only_verified[OF m] r(2) by auto
qed

end
