(* ===== verification/Battery.thy ===== *)
theory Battery
  imports CText
begin

text \<open>
  \<open>utils/battery_monitor.c\<close>, the daemon that reads the battery's uevents, switches the device off when the capacity is low and
  sets how often the driver reports. The command line, files and the netlink socket are arguments; \<^const>\<open>None\<close> is a buffer
  that is too short.
\<close>

section \<open>State\<close>

definition REPORT_TIME_MAX :: int where "REPORT_TIME_MAX = 90"
definition REPORT_TIME_MIN :: int where "REPORT_TIME_MIN = 1"
definition REPORT_TIME_DEFAULT :: int where "REPORT_TIME_DEFAULT = 60"
definition REPORT_TIME_LOW_ALARM :: int where "REPORT_TIME_LOW_ALARM = 1"
definition ALARM_CAPACITY_MAX :: int where "ALARM_CAPACITY_MAX = 99"
definition ALARM_CAPACITY_MIN :: int where "ALARM_CAPACITY_MIN = 1"
definition ALARM_CAPACITY_DEFAULT :: int where "ALARM_CAPACITY_DEFAULT = 1"
definition DELTA_CAPACITY_ENTER_PRE_ALARM :: int where "DELTA_CAPACITY_ENTER_PRE_ALARM = 2"
definition UEVENT_BUFFER_SIZE :: nat where "UEVENT_BUFFER_SIZE = 2048"
definition DEVICE_PATH :: string where "DEVICE_PATH = ''/sys/class/power_supply''"
definition REPORT_PERIOD_SETTING_FILE :: string where "REPORT_PERIOD_SETTING_FILE = ''uevent_period''"

lemmas battery_consts = REPORT_TIME_MAX_def REPORT_TIME_MIN_def REPORT_TIME_DEFAULT_def REPORT_TIME_LOW_ALARM_def ALARM_CAPACITY_MAX_def
  ALARM_CAPACITY_MIN_def ALARM_CAPACITY_DEFAULT_def DELTA_CAPACITY_ENTER_PRE_ALARM_def

text \<open>What the program does to the system: the alarm, and periods written to the driver's file.\<close>

datatype battery_act = LowPower | WritePeriod string string

record battery =
  report_time :: int
  alarm_capacity :: int
  report_time_current :: int
  device_name :: string
  log_debug :: bool
  battery_acts :: "battery_act list"

definition battery_start :: battery where
  "battery_start = \<lparr>report_time = REPORT_TIME_DEFAULT, alarm_capacity = ALARM_CAPACITY_DEFAULT, report_time_current = 0, device_name = [],
     log_debug = False, battery_acts = []\<rparr>"

section \<open>Uevents\<close>

text \<open>\<open>sprintf\<close> into 64 bytes, and whether the file opens.\<close>

definition period_path :: "battery \<Rightarrow> string" where
  "period_path st = DEVICE_PATH @ ''/'' @ device_name st @ ''/'' @ REPORT_PERIOD_SETTING_FILE"

definition set_report_time :: "(string \<Rightarrow> bool) \<Rightarrow> int \<Rightarrow> battery \<Rightarrow> battery option" where
  "set_report_time opens t st =
     (if length (period_path st) \<ge> 64 then None
      else Some (if opens (period_path st)
        then st\<lparr>battery_acts := battery_acts st @ [WritePeriod (period_path st) (pr_int t @ [NUL])], report_time_current := t\<rparr>
        else st))"

definition state_capacity_analysis :: "(string \<Rightarrow> bool) \<Rightarrow> string \<Rightarrow> string \<Rightarrow> battery \<Rightarrow> battery option" where
  "state_capacity_analysis opens buf name st =
     (case atoi (drop (length name) buf) of
        None \<Rightarrow> None
      | Some capacity \<Rightarrow>
          if capacity \<le> alarm_capacity st then Some (st\<lparr>battery_acts := battery_acts st @ [LowPower]\<rparr>)
          else if capacity - alarm_capacity st \<le> DELTA_CAPACITY_ENTER_PRE_ALARM then
            (if report_time_current st \<noteq> REPORT_TIME_LOW_ALARM then set_report_time opens REPORT_TIME_LOW_ALARM st else Some st)
          else
            (if report_time_current st \<noteq> report_time st then set_report_time opens (report_time st) st else Some st))"

text \<open>The table: names, and whether they have a function, which is \<open>state_capacity_analysis\<close>.\<close>

definition STATE_CAPACITY :: string where "STATE_CAPACITY = ''POWER_SUPPLY_CAPACITY=''"

definition battery_state :: "(string \<times> bool) list" where
  "battery_state = [(''POWER_SUPPLY_PRESENT='', False), (''POWER_SUPPLY_HEALTH='', False), (STATE_CAPACITY, True),
     (''POWER_SUPPLY_VOLTAGE_NOW='', False), (''POWER_SUPPLY_VOLTAGE_OCV='', False), (''POWER_SUPPLY_CURRENT_NOW='', False),
     (''POWER_SUPPLY_RESIST='', False), (''POWER_SUPPLY_CAPACITY_LEVEL='', False), (''POWER_SUPPLY_STATUS='', False),
     (''POWER_SUPPLY_TEMP='', False), (''POWER_SUPPLY_UEVENT_PERIOD='', False), (''POWER_SUPPLY_SERIAL_NUMBER='', False)]"

fun analysis_loop :: "(string \<Rightarrow> bool) \<Rightarrow> string \<Rightarrow> (string \<times> bool) list \<Rightarrow> battery \<Rightarrow> battery option" where
  "analysis_loop opens buf [] st = Some st"
| "analysis_loop opens buf ((name, fn) # items) st =
     (case (if take (length name) buf = name \<and> fn then state_capacity_analysis opens buf name st else Some st) of
        None \<Rightarrow> None
      | Some st1 \<Rightarrow> analysis_loop opens buf items st1)"

definition battery_state_analysis :: "(string \<Rightarrow> bool) \<Rightarrow> string \<Rightarrow> battery \<Rightarrow> battery option" where
  "battery_state_analysis opens buf st = analysis_loop opens buf battery_state st"

text \<open>The strings of a message one by one; \<open>mem\<close> is the memory from \<open>buf\<close> on.\<close>

function battery_state_change :: "(string \<Rightarrow> bool) \<Rightarrow> string \<Rightarrow> int \<Rightarrow> battery \<Rightarrow> battery option" where
  "battery_state_change opens mem sz st =
     (if sz \<le> 0 then Some st
      else (case cstr_at mem 0 of
          None \<Rightarrow> None
        | Some s \<Rightarrow> (case battery_state_analysis opens s st of
            None \<Rightarrow> None
          | Some st1 \<Rightarrow> battery_state_change opens (drop (length s + 1) mem) (sz - (int (length s) + 1)) st1)))"
  by pat_completeness auto
termination by (relation "measure (\<lambda>(opens, mem, sz, st). nat sz)") auto

declare battery_state_change.simps [simp del]

text \<open>A datagram of at most 2048 bytes in the cleared buffer. \<open>buf[len] = 0\<close> is behind its end for a full one.\<close>

definition battery_state_read :: "(string \<Rightarrow> bool) \<Rightarrow> string option \<Rightarrow> battery \<Rightarrow> battery option" where
  "battery_state_read opens received st =
     (case received of
        None \<Rightarrow> Some st
      | Some bytes \<Rightarrow>
          let buf = bytes @ replicate (UEVENT_BUFFER_SIZE - length bytes) NUL in
          if bytes = [] then Some st
          else (case cstr_at buf 0 of
              None \<Rightarrow> None
            | Some s \<Rightarrow>
                if strstr s (device_name st) = None then Some st
                else if length bytes \<ge> UEVENT_BUFFER_SIZE then None
                else battery_state_change opens buf (int (length bytes)) st))"

section \<open>The program\<close>

text \<open>The options as \<open>getopt\<close> returns them. \<open>Inl\<close> is the exit status.\<close>

fun battery_options :: "(char \<times> string) list \<Rightarrow> battery \<Rightarrow> (int + battery) option" where
  "battery_options [] st = Some (Inr st)"
| "battery_options ((c, arg) # opts) st =
     (if c = CHR ''d'' then (if length arg \<ge> 32 then None else battery_options opts (st\<lparr>device_name := arg\<rparr>))
      else if c = CHR ''r'' then (case atoi arg of
          None \<Rightarrow> None
        | Some t \<Rightarrow> battery_options opts (st\<lparr>report_time := if t < REPORT_TIME_MIN \<or> REPORT_TIME_MIN > REPORT_TIME_MAX then REPORT_TIME_DEFAULT else t\<rparr>))
      else if c = CHR ''a'' then (case atoi arg of
          None \<Rightarrow> None
        | Some a \<Rightarrow> battery_options opts (st\<lparr>alarm_capacity := if a < ALARM_CAPACITY_MIN \<or> a > ALARM_CAPACITY_MAX then ALARM_CAPACITY_DEFAULT else a\<rparr>))
      else if c = CHR ''p'' then battery_options opts (st\<lparr>log_debug := True\<rparr>)
      else Some (Inl 1))"

text \<open>The socket: each call's result, and \<open>errno\<close>.\<close>

definition battery_monitor_init :: "int \<Rightarrow> int \<Rightarrow> int \<Rightarrow> int \<Rightarrow> int" where
  "battery_monitor_init sock setopt bound err =
     (if sock < 0 then -1 else if setopt < 0 then - err else if bound < 0 then - err else sock)"

fun poll_loop :: "(string \<Rightarrow> bool) \<Rightarrow> string option list \<Rightarrow> battery \<Rightarrow> battery option" where
  "poll_loop opens [] st = Some st"
| "poll_loop opens (m # ms) st = (case battery_state_read opens m st of None \<Rightarrow> None | Some st1 \<Rightarrow> poll_loop opens ms st1)"

text \<open>\<open>main\<close> up to the state after the datagrams \<open>ms\<close>; \<open>exists\<close> answers \<open>access\<close>.\<close>

definition battery_main :: "(string \<Rightarrow> bool) \<Rightarrow> (string \<Rightarrow> bool) \<Rightarrow> int \<Rightarrow> (char \<times> string) list \<Rightarrow> string option list \<Rightarrow> (int + battery) option" where
  "battery_main exists opens fd opts ms =
     (case battery_options opts battery_start of
        None \<Rightarrow> None
      | Some (Inl e) \<Rightarrow> Some (Inl e)
      | Some (Inr st) \<Rightarrow>
          if device_name st = [] then Some (Inl 1)
          else if length (DEVICE_PATH @ ''/'' @ device_name st) \<ge> 64 then None
          else if \<not> exists (DEVICE_PATH @ ''/'' @ device_name st) then Some (Inl 1)
          else if length (period_path st) \<ge> 64 then None
          else if \<not> exists (period_path st) then Some (Inl 1)
          else (case set_report_time opens (report_time st) st of
              None \<Rightarrow> None
            | Some st1 \<Rightarrow> if fd < 0 then Some (Inl 1) else map_option Inr (poll_loop opens ms st1)))"

section \<open>What a uevent does\<close>

text \<open>The reaction to a capacity, when the driver's file can be written.\<close>

definition react :: "int \<Rightarrow> battery \<Rightarrow> battery" where
  "react c st =
     (let period = (if c \<le> alarm_capacity st + 2 then 1 else report_time st) in
      if c \<le> alarm_capacity st then st\<lparr>battery_acts := battery_acts st @ [LowPower]\<rparr>
      else if report_time_current st = period then st
      else st\<lparr>battery_acts := battery_acts st @ [WritePeriod (period_path st) (pr_int period @ [NUL])], report_time_current := period\<rparr>)"

lemma react_keeps [simp]: "device_name (react c st) = device_name st" "period_path (react c st) = period_path st"
  "alarm_capacity (react c st) = alarm_capacity st" "report_time (react c st) = report_time st"
  by (simp_all add: react_def Let_def period_path_def)

definition capacity_field :: "string \<Rightarrow> bool" where
  "capacity_field s \<longleftrightarrow> take (length STATE_CAPACITY) s = STATE_CAPACITY"

definition capacities :: "string list \<Rightarrow> int list" where
  "capacities us = map (\<lambda>s. the (atoi (drop (length STATE_CAPACITY) s))) (filter capacity_field us)"

definition can_write :: "(string \<Rightarrow> bool) \<Rightarrow> battery \<Rightarrow> bool" where
  "can_write opens st \<longleftrightarrow> length (period_path st) < 64 \<and> opens (period_path st)"

lemma analysis_reacts:
  assumes "can_write opens st" "capacity_field s \<Longrightarrow> atoi (drop (length STATE_CAPACITY) s) \<noteq> None"
  shows "battery_state_analysis opens s st = Some (if capacity_field s then react (the (atoi (drop (length STATE_CAPACITY) s))) st else st)"
proof -
  have "analysis_loop opens s items st1 = Some st1" if "list_all (\<lambda>p. \<not> snd p) items" for items st1
    using that by (induction items) auto
  then have "battery_state_analysis opens s st = (if capacity_field s then state_capacity_analysis opens s STATE_CAPACITY st else Some st)"
    by (simp add: battery_state_analysis_def battery_state_def capacity_field_def split: option.split)
  moreover have "state_capacity_analysis opens s STATE_CAPACITY st = Some (react c st)" if "atoi (drop (length STATE_CAPACITY) s) = Some c" for c
    using that assms(1) by (auto simp: state_capacity_analysis_def react_def Let_def set_report_time_def can_write_def battery_consts)
  ultimately show ?thesis using assms(2) by auto
qed

lemma change_reacts:
  assumes "list_all (\<lambda>s. NUL \<notin> set s \<and> (capacity_field s \<longrightarrow> atoi (drop (length STATE_CAPACITY) s) \<noteq> None)) us" "can_write opens st"
  shows "battery_state_change opens (concat (map (\<lambda>s. s @ [NUL]) us) @ rest) (int (length (concat (map (\<lambda>s. s @ [NUL]) us)))) st
    = Some (fold react (capacities us) st)"
  using assms
proof (induction us arbitrary: st)
  case Nil
  then show ?case by (simp add: battery_state_change.simps capacities_def)
next
  case (Cons s us)
  let ?c = "the (atoi (drop (length STATE_CAPACITY) s))" and ?t = "concat (map (\<lambda>s. s @ [NUL]) us)"
  have at: "cstr_at (s @ NUL # ?t @ rest) 0 = Some s" using Cons.prems(1) by (simp add: cstr_at_def)
  have a: "battery_state_analysis opens s st = Some (if capacity_field s then react ?c st else st)"
    using Cons.prems by (intro analysis_reacts) auto
  have "can_write opens (if capacity_field s then react ?c st else st)" using Cons.prems(2) by (simp add: can_write_def)
  then have "battery_state_change opens (?t @ rest) (int (length ?t)) (if capacity_field s then react ?c st else st)
      = Some (fold react (capacities us) (if capacity_field s then react ?c st else st))"
    using Cons.prems(1) by (intro Cons.IH) auto
  then show ?case using at a by (subst battery_state_change.simps) (simp add: capacities_def)
qed

text \<open>A uevent of the monitored battery that fits the buffer is handled field by field: each reported capacity starts the low power alarm
  at or below the alarm capacity, else sets the period to one second up to two percent above it and to the configured time otherwise, writing
  the driver's file only when the period changes.\<close>

theorem uevent_reacts_to_capacity:
  assumes "list_all (\<lambda>s. NUL \<notin> set s \<and> (capacity_field s \<longrightarrow> atoi (drop (length STATE_CAPACITY) s) \<noteq> None)) us"
    "us \<noteq> []" "strstr (hd us) (device_name st) \<noteq> None" "can_write opens st"
    "length (concat (map (\<lambda>s. s @ [NUL]) us)) < UEVENT_BUFFER_SIZE"
  shows "battery_state_read opens (Some (concat (map (\<lambda>s. s @ [NUL]) us))) st = Some (fold react (capacities us) st)"
proof -
  obtain s ss where f: "us = s # ss" using assms(2) by (cases us) auto
  have "cstr_at (concat (map (\<lambda>s. s @ [NUL]) us) @ rest) 0 = Some s" for rest
    using assms(1) by (simp add: cstr_at_def f)
  then show ?thesis using assms(3-5) change_reacts[OF assms(1,4)]
    by (auto simp: battery_state_read_def f Let_def)
qed

lemma uevent_reacts_to_capacity_witness:
  "battery_state_read (\<lambda>p. True) (Some (concat (map (\<lambda>s. s @ [NUL]) [''change@/devices/bat0'', ''POWER_SUPPLY_CAPACITY=3''])))
      (battery_start\<lparr>device_name := ''bat0''\<rparr>)
    = Some (fold react [3] (battery_start\<lparr>device_name := ''bat0''\<rparr>))"
proof -
  have c: "capacities [''change@/devices/bat0'', ''POWER_SUPPLY_CAPACITY=3''] = [3]"
    "list_all (\<lambda>s. NUL \<notin> set s \<and> (capacity_field s \<longrightarrow> atoi (drop (length STATE_CAPACITY) s) \<noteq> None)) [''change@/devices/bat0'', ''POWER_SUPPLY_CAPACITY=3'']"
    by code_simp+
  show ?thesis unfolding c(1)[symmetric]
    by (rule uevent_reacts_to_capacity[OF c(2)])
      (simp_all add: can_write_def period_path_def battery_start_def DEVICE_PATH_def REPORT_PERIOD_SETTING_FILE_def UEVENT_BUFFER_SIZE_def)
qed

text \<open>Every configuration the command line can give has a period of at least one second and an alarm capacity between 1 and 99.\<close>

theorem battery_options_in_range:
  assumes "battery_options opts battery_start = Some (Inr st)"
  shows "1 \<le> report_time st \<and> 1 \<le> alarm_capacity st \<and> alarm_capacity st \<le> 99"
proof -
  have "battery_options opts st0 = Some (Inr st) \<Longrightarrow> 1 \<le> report_time st0 \<Longrightarrow> 1 \<le> alarm_capacity st0 \<Longrightarrow> alarm_capacity st0 \<le> 99
    \<Longrightarrow> 1 \<le> report_time st \<and> 1 \<le> alarm_capacity st \<and> alarm_capacity st \<le> 99" for st0
    by (induction opts st0 rule: battery_options.induct) (auto simp: battery_consts split: if_splits option.splits)
  then show ?thesis using assms by (simp add: battery_start_def battery_consts)
qed

lemma battery_options_in_range_witness:
  "battery_options [(CHR ''d'', ''bat0''), (CHR ''r'', ''500''), (CHR ''a'', ''100'')] battery_start
      = Some (Inr (battery_start\<lparr>device_name := ''bat0'', report_time := 500, alarm_capacity := 1\<rparr>)) \<and> 1 \<le> (500 :: int)"
proof -
  have "atoi ''500'' = Some 500" "atoi ''100'' = Some 100" by code_simp+
  then have o: "battery_options [(CHR ''d'', ''bat0''), (CHR ''r'', ''500''), (CHR ''a'', ''100'')] battery_start
      = Some (Inr (battery_start\<lparr>device_name := ''bat0'', report_time := 500, alarm_capacity := 1\<rparr>))"
    by (simp add: battery_consts)
  then show ?thesis using battery_options_in_range[OF o] by simp
qed

end
