(* ===== verification/FakeLog.thy ===== *)
theory FakeLog
  imports LogFormat "HOL-Library.Monad_Syntax"
begin

text \<open>
  \<open>liblog/fake_log_device.c\<close>, the log device of systems without one: a table of open logs, the levels of tags from the
  environment, and messages formatted line by line into a file whose place and size a configuration file gives. \<^const>\<open>None\<close>: a write
  or read outside a buffer, a null pointer, or a lock that is never released.
\<close>

section \<open>State\<close>

definition kMaxTagLen :: nat where "kMaxTagLen = 16"
definition kTagSetSize :: nat where "kTagSetSize = 16"
definition FAKE_FD_BASE :: int where "FAKE_FD_BASE = 10000"
definition MAX_OPEN_LOGS :: nat where "MAX_OPEN_LOGS = 16"

lemmas fake_sizes = kMaxTagLen_def kTagSetSize_def FAKE_FD_BASE_def MAX_OPEN_LOGS_def

record fake_state =
  fakeFd :: int
  debugName :: string
  isBinary :: bool
  globalMinPriority :: int
  outputFormat :: print_format
  tagSet :: "(string \<times> int) list"

text \<open>\<open>logEnv\<close>; \<open>out_file\<close> and \<open>out_pos\<close> are the file behind \<open>outFd\<close> and the place of the next write in it.\<close>

record fake_log_env =
  initFlag :: bool
  maxFileSize :: int
  writeLen :: int
  stdoutFlag :: bool
  outFd :: int
  keepFile :: bool
  out_format :: string
  logPath :: string
  out_file :: string
  out_pos :: nat

datatype redirect = Unset | ToDevice | ToFake

text \<open>\<open>held\<close>: the lock, which exists only when the file is compiled with \<open>HAVE_PTHREADS\<close>.\<close>

record fake_log =
  openLogTable :: "fake_state option list"
  logEnv :: fake_log_env
  held :: bool
  redirected :: redirect

definition fake_start :: fake_log where
  "fake_start = \<lparr>openLogTable = replicate MAX_OPEN_LOGS None,
     logEnv = \<lparr>initFlag = False, maxFileSize = 1048576, writeLen = 0, stdoutFlag = False, outFd = -1, keepFile = False, out_format = ''time'',
       logPath = ''/data'', out_file = [], out_pos = 0\<rparr>, held = False, redirected = Unset\<rparr>"

text \<open>What the system answers: the environment, the files, whether the log file opens and what is in it, the time and the process.\<close>

record fake_sys =
  env_var :: "string \<Rightarrow> string option"
  logcat_conf :: "string option"
  proc_status :: "string option"
  open_fd :: int
  old_file :: string
  time_text :: string
  millisec :: int
  fake_pid :: int
  vec_malloc :: bool
  pthreads :: bool
  signed_char :: bool

definition lock :: "fake_sys \<Rightarrow> fake_log \<Rightarrow> fake_log option" where
  "lock y st = (if pthreads y then (if held st then None else Some (st\<lparr>held := True\<rparr>)) else Some st)"

definition unlock :: "fake_sys \<Rightarrow> fake_log \<Rightarrow> fake_log" where
  "unlock y st = (if pthreads y then st\<lparr>held := False\<rparr> else st)"

section \<open>Descriptors\<close>

text \<open>The first free place of the table from \<open>i\<close> on.\<close>

fun free_slot :: "fake_state option list \<Rightarrow> nat \<Rightarrow> nat option" where
  "free_slot [] i = None"
| "free_slot (s # ss) i = (if s = None then Some i else free_slot ss (i + 1))"

definition zero_state :: fake_state where
  "zero_state = \<lparr>fakeFd = 0, debugName = [], isBinary = False, globalMinPriority = 0, outputFormat = FORMAT_OFF,
     tagSet = replicate kTagSetSize ([], 0)\<rparr>"

definition createLogState :: "fake_log \<Rightarrow> (nat \<times> fake_state) option" where
  "createLogState st = map_option (\<lambda>i. (i, zero_state\<lparr>fakeFd := FAKE_FD_BASE + int i\<rparr>)) (free_slot (openLogTable st) 0)"

definition fdToLogState :: "int \<Rightarrow> fake_log \<Rightarrow> fake_state option" where
  "fdToLogState fd st =
     (if fd \<ge> FAKE_FD_BASE \<and> fd < FAKE_FD_BASE + int MAX_OPEN_LOGS then openLogTable st ! nat (fd - FAKE_FD_BASE) else None)"

definition deleteFakeFd :: "fake_sys \<Rightarrow> int \<Rightarrow> fake_log \<Rightarrow> fake_log option" where
  "deleteFakeFd y fd st =
     map_option (\<lambda>st1. unlock y (if fdToLogState fd st1 \<noteq> None
         then st1\<lparr>openLogTable := (openLogTable st1)[nat (fd - FAKE_FD_BASE) := None]\<rparr> else st1)) (lock y st)"

section \<open>Levels from the environment\<close>

definition letter_prio :: "char \<Rightarrow> int" where
  "letter_prio c =
     (if c = CHR ''v'' then 2 else if c = CHR ''d'' then 3 else if c = CHR ''i'' then 4 else if c = CHR ''w'' then 5
      else if c = CHR ''e'' then 6 else if c = CHR ''f'' then 7 else if c = CHR ''s'' then 8 else 1)"

text \<open>A digit gives the code of its character, since the code subtracts \<open>'\0'\<close>.\<close>

definition level_char :: "char \<Rightarrow> int" where
  "level_char c =
     (if isdigit c then (if cval c \<ge> cval (CHR ''0'') + 8 then 2 else int (cval c)) else letter_prio c)"

definition set_entry :: "string \<Rightarrow> int \<Rightarrow> nat \<Rightarrow> fake_state \<Rightarrow> (nat \<times> fake_state) option" where
  "set_entry name prio entry ls =
     (if name = [] then Some (entry, ls\<lparr>globalMinPriority := prio\<rparr>)
      else if entry \<ge> kTagSetSize then None
      else Some (entry + 1, ls\<lparr>tagSet := (tagSet ls)[entry := (name, prio)]\<rparr>))"

text \<open>The loop over \<open>ANDROID_LOG_TAGS\<close>. The first component is \<^const>\<open>False\<close> for an early return.\<close>

definition name_char :: "char \<Rightarrow> bool" where
  "name_char c \<longleftrightarrow> \<not> isspace c \<and> c \<noteq> CHR '':''"

lemma tag_progress:
  assumes "t1 = dropWhile isspace tags" "nm = take kMaxTagLen (takeWhile name_char t1)" "rest = drop (length nm) t1" "tags \<noteq> []"
    "take 1 rest \<noteq> '':''"
  shows "length rest < length tags"
proof (cases t1)
  case Nil
  then show ?thesis using assms(3,4) by simp
next
  case (Cons c t)
  have "\<not> isspace c" using assms(1) Cons dropWhile_eq_Cons_conv[of isspace tags c t] by simp
  moreover have "c \<noteq> CHR '':''"
  proof
    assume c: "c = CHR '':''"
    then have "nm = []" using assms(2) Cons by (simp add: name_char_def)
    then show False using assms(3,5) Cons c by simp
  qed
  ultimately have "nm \<noteq> []" using assms(2) Cons by (simp add: name_char_def kMaxTagLen_def)
  then have "length rest < length t1" using assms(3) Cons by simp
  then show ?thesis using assms(1) length_dropWhile_le[of isspace tags] by simp
qed

function parse_tags :: "string \<Rightarrow> nat \<Rightarrow> fake_state \<Rightarrow> (bool \<times> fake_state) option" where
  "parse_tags tags entry ls =
     (if tags = [] then Some (True, ls)
      else let t1 = dropWhile isspace tags; nm = take kMaxTagLen (takeWhile name_char t1); rest = drop (length nm) t1;
          star = (nm = ''*''); name = (if star then [] else nm); prio = (if star then 3 else 2) in
        if length nm = kMaxTagLen then Some (False, ls)
        else if take 1 rest = '':'' then
          (case drop 1 rest of
             [] \<Rightarrow> None
           | c # rest1 \<Rightarrow>
               if rest1 \<noteq> [] \<and> \<not> isspace (hd rest1) then Some (False, ls)
               else (case set_entry name (level_char c) entry ls of None \<Rightarrow> None | Some (n, ls1) \<Rightarrow> parse_tags rest1 n ls1))
        else (case set_entry name prio entry ls of None \<Rightarrow> None | Some (n, ls1) \<Rightarrow> parse_tags rest n ls1))"
  by pat_completeness auto
termination
proof (relation "measure (\<lambda>(tags, entry, ls). length tags)", goal_cases)
  case (2 tags entry ls t1 nm rest star name prio c rest1)
  have "length rest1 < length rest" using arg_cong[OF 2(10), of length] by simp
  moreover have "length rest \<le> length t1" "length t1 \<le> length tags" using 2(2,4) by (simp_all add: length_dropWhile_le)
  ultimately show ?case by simp
next
  case (3 tags entry ls t1 nm rest star name prio)
  then show ?case using tag_progress[OF 3(2-4,1)] by simp
qed simp_all

declare parse_tags.simps [simp del]

definition configureInitialState :: "fake_sys \<Rightarrow> string \<Rightarrow> fake_state \<Rightarrow> fake_state option" where
  "configureInitialState y pathName ls =
     (if length pathName < 9 then None
      else let ls1 = ls\<lparr>debugName := pathName, isBinary := (drop 9 pathName = ''events''), globalMinPriority := 4\<rparr> in
        case env_var y ''ANDROID_LOG_TAGS'' of
          None \<Rightarrow> Some (ls1\<lparr>outputFormat := FORMAT_TIME\<rparr>)
        | Some tags \<Rightarrow> map_option (\<lambda>(done, ls2). if done then ls2\<lparr>outputFormat := FORMAT_TIME\<rparr> else ls2) (parse_tags tags 0 ls1))"

section \<open>The configuration file\<close>

definition trim :: "string \<Rightarrow> string" where
  "trim str = filter (\<lambda>c. c \<noteq> CHR '' '' \<and> c \<noteq> CHR 0x09 \<and> c \<noteq> CHR 0x0D \<and> c \<noteq> CHR 0x0A) str"

text \<open>The value behind a key and one more character; \<^const>\<open>None\<close>: the line ends with the key.\<close>

definition getKeyValue :: "string \<Rightarrow> string \<Rightarrow> string option option" where
  "getKeyValue str key =
     (let t = trim str in
      if take 1 t = ''#'' then Some None
      else (case strstr t key of
          None \<Rightarrow> Some None
        | Some p \<Rightarrow> if length p = length key then None else Some (Some (drop (length key + 1) p))))"

record conf_state =
  stdoutini :: bool
  formatini :: bool
  pathini :: bool
  sizeini :: bool
  keepfileini :: bool
  conf_env :: fake_log_env

definition conf_key :: "bool \<Rightarrow> string \<Rightarrow> string \<Rightarrow> string option option" where
  "conf_key seen l key = (if seen then Some None else getKeyValue l key)"

text \<open>The process's name from its status: the buffer of 32 bytes, line by line.\<close>

fun proc_name :: "string \<Rightarrow> string list \<Rightarrow> string" where
  "proc_name line [] = line"
| "proc_name line (l # ls) =
     (let line1 = put_at line 0 (l @ [NUL]) in
      if take 6 l = ''Name:'' @ [CHR 0x09] then put_at line1 (length l - 1) [NUL] else proc_name line1 ls)"

definition log_path :: "fake_sys \<Rightarrow> string \<Rightarrow> string option" where
  "log_path y p =
     (let dir = p @ ''/logcat/'' in
      if length dir \<ge> 32 then None
      else do { status \<leftarrow> proc_status y;
                let name = cstr (drop 6 (proc_name (zeros 32) (fgets_lines 31 status)));
                let path = dir @ ''logcat_'' @ name @ ''.txt'';
                if length path \<ge> 64 then None else Some path })"

definition conf_line :: "fake_sys \<Rightarrow> string \<Rightarrow> conf_state \<Rightarrow> conf_state option" where
  "conf_line y l c =
     (let e = conf_env c in
      do { v1 \<leftarrow> conf_key (stdoutini c) l ''STDOUT'';
      case v1 of Some p \<Rightarrow> Some (c\<lparr>conf_env := e\<lparr>stdoutFlag := (take 4 p = ''true'')\<rparr>, stdoutini := True\<rparr>)
      | None \<Rightarrow> do { v2 \<leftarrow> conf_key (formatini c) l ''LOG_FORMAT'';
      case v2 of Some p \<Rightarrow> if length p \<ge> 16 then None else Some (c\<lparr>conf_env := e\<lparr>out_format := p\<rparr>, formatini := True\<rparr>)
      | None \<Rightarrow> do { v3 \<leftarrow> conf_key (pathini c) l ''LOG_PATH'';
      case v3 of Some p \<Rightarrow> map_option (\<lambda>path. c\<lparr>conf_env := e\<lparr>logPath := path\<rparr>, pathini := True\<rparr>) (log_path y p)
      | None \<Rightarrow> do { v4 \<leftarrow> conf_key (sizeini c) l ''LOG_MAX_FILESIZE'';
      case v4 of Some p \<Rightarrow> map_option (\<lambda>n. c\<lparr>conf_env := e\<lparr>maxFileSize := n\<rparr>, sizeini := True\<rparr>) (atoi p)
      | None \<Rightarrow> do { v5 \<leftarrow> conf_key (keepfileini c) l ''LOG_KEEP_FILE'';
      case v5 of Some p \<Rightarrow> Some (c\<lparr>conf_env := e\<lparr>keepFile := (take 4 p = ''true'')\<rparr>, keepfileini := True\<rparr>)
      | None \<Rightarrow> Some c }}}}})"

fun conf_lines :: "fake_sys \<Rightarrow> string list \<Rightarrow> conf_state \<Rightarrow> conf_state option" where
  "conf_lines y [] c = Some c"
| "conf_lines y (l # ls) c = (case conf_line y l c of None \<Rightarrow> None | Some c1 \<Rightarrow> conf_lines y ls c1)"

definition initLogcatEnv :: "fake_sys \<Rightarrow> fake_log_env \<Rightarrow> fake_log_env option" where
  "initLogcatEnv y e =
     (case logcat_conf y of
        None \<Rightarrow> Some e
      | Some text \<Rightarrow> map_option conf_env (conf_lines y (map cstr (fgets_lines (length text) text))
          \<lparr>stdoutini = False, formatini = False, pathini = False, sizeini = False, keepfileini = False, conf_env = e\<rparr>))"

section \<open>Writing\<close>

definition getPriorityString :: "int \<Rightarrow> string" where
  "getPriorityString p =
     (if p < 2 \<or> p - 2 \<ge> 6 then ''?unknown?''
      else [''Verbose'', ''Debug'', ''Info'', ''Warn'', ''Error'', ''Assert''] ! nat (p - 2))"

definition fake_prefix :: "fake_sys \<Rightarrow> print_format \<Rightarrow> int \<Rightarrow> string \<Rightarrow> string" where
  "fake_prefix y f prio tag =
     (let pri = [hd (getPriorityString prio)]; pid = pad_left 5 (pr_int (fake_pid y)); tid = pr_ptr (word_of_int (fake_pid y)); tag8 = pad_right 8 tag in
      case f of
        FORMAT_TAG \<Rightarrow> pri @ ''/'' @ tag8 @ '': ''
      | FORMAT_PROCESS \<Rightarrow> pri @ ''('' @ pid @ '') ''
      | FORMAT_THREAD \<Rightarrow> pri @ ''('' @ pid @ '':'' @ tid @ '') ''
      | FORMAT_RAW \<Rightarrow> []
      | FORMAT_TIME \<Rightarrow> time_text y @ ''.'' @ pr_03 (millisec y) @ '' '' @ tag8 @ [CHR 0x09]
      | FORMAT_THREADTIME \<Rightarrow> time_text y @ '' '' @ pid @ '' '' @ pid @ '' '' @ pri @ '' '' @ tag8 @ '' '' @ [CHR 0x0A, CHR 0x09]
      | FORMAT_LONG \<Rightarrow> ''[ '' @ time_text y @ '' '' @ pid @ '':'' @ tid @ '' '' @ pri @ ''/'' @ tag8 @ '' ]'' @ [CHR 0x0A]
      | _ \<Rightarrow> pri @ ''/'' @ tag8 @ ''('' @ pid @ ''): '')"

text \<open>What is written of a text that \<open>snprintf\<close> put into 128 bytes, with the length it returned.\<close>

definition in_buffer :: "string \<Rightarrow> string option" where
  "in_buffer s = (if length s > 128 then None else Some (if length s = 128 then take 127 s @ [NUL] else s))"

text \<open>The pieces of the lines of a message.\<close>

function line_vecs :: "string \<Rightarrow> string \<Rightarrow> nat \<Rightarrow> string \<Rightarrow> string list" where
  "line_vecs pre suf n p =
     (if n = 0 \<or> p = [] then []
      else let l = takeWhile (\<lambda>c. c \<noteq> CHR 0x0A) p in
        filter (\<lambda>v. v \<noteq> []) [pre, l, suf] @ line_vecs pre suf (n - 1) (drop (length l + 1) p))"
  by pat_completeness auto
termination by (relation "measure (\<lambda>(pre, suf, n, p). n)") auto

declare line_vecs.simps [simp del]

datatype write_answer = Full | Short nat | Intr | Fail

text \<open>A write at the place of the descriptor.\<close>

definition put_out :: "string \<Rightarrow> fake_log_env \<Rightarrow> fake_log_env" where
  "put_out v e = e\<lparr>out_file := put_at (out_file e) (out_pos e) v, out_pos := out_pos e + length v\<rparr>"

text \<open>\<open>fake_writev\<close>: the result, whether it was interrupted, the answers left, and the file. Writes without an answer succeed.\<close>

fun fake_writev :: "write_answer list \<Rightarrow> string list \<Rightarrow> int \<Rightarrow> fake_log_env \<Rightarrow> int \<times> bool \<times> write_answer list \<times> fake_log_env" where
  "fake_writev ans [] res e = (res, False, ans, e)"
| "fake_writev ans (v # vs) res e =
     (if outFd e < 0 then (-1, False, ans, e)
      else (case ans of
          [] \<Rightarrow> fake_writev [] vs (res + int (length v)) (put_out v e)
        | Full # a \<Rightarrow> fake_writev a vs (res + int (length v)) (put_out v e)
        | Short n # a \<Rightarrow>
            if n < length v then (res + int n, False, a, put_out (take n v) e) else fake_writev a vs (res + int (length v)) (put_out v e)
        | Intr # a \<Rightarrow> (-1, True, a, e)
        | Fail # a \<Rightarrow> (-1, False, a, e)))"

lemma fake_writev_less: "fake_writev ans vs res e = (cc, True, a, e1) \<Longrightarrow> length a < length ans"
proof (induction ans vs res e rule: fake_writev.induct)
  case (2 ans v vs res e)
  then show ?case by (cases ans) (force split: if_splits write_answer.splits)+
qed simp

function write_vecs :: "write_answer list \<Rightarrow> string list \<Rightarrow> int \<Rightarrow> fake_log_env \<Rightarrow> fake_log_env" where
  "write_vecs ans vs tot e =
     (let r = fake_writev ans vs 0 e in
      if fst r = tot then snd (snd (snd r))
      else if fst r < 0 \<and> fst (snd r) then write_vecs (fst (snd (snd r))) vs tot (snd (snd (snd r)))
      else snd (snd (snd r)))"
  by pat_completeness auto
termination
proof (relation "measure (\<lambda>(ans, vs, tot, e). length ans)", goal_cases)
  case (2 ans vs tot e r)
  obtain cc b a e1 where r: "fake_writev ans vs 0 e = (cc, b, a, e1)" by (cases "fake_writev ans vs 0 e") auto
  then have b using 2 by simp
  then show ?case using fake_writev_less[of ans vs 0 e cc a e1] r 2(1) by simp
qed simp

declare write_vecs.simps [simp del]

text \<open>Opening the file before the first write.\<close>

definition open_out :: "fake_sys \<Rightarrow> fake_log_env \<Rightarrow> fake_log_env option" where
  "open_out y e =
     (if initFlag e then Some e
      else map_option (\<lambda>e1. if stdoutFlag e1 then e1\<lparr>outFd := 2, out_file := [], out_pos := 0, initFlag := True\<rparr>
          else e1\<lparr>outFd := open_fd y, out_file := (if keepFile e1 then old_file y else []), out_pos := 0, initFlag := True\<rparr>)
        (initLogcatEnv y e))"

definition showLog :: "fake_sys \<Rightarrow> write_answer list \<Rightarrow> fake_state \<Rightarrow> int \<Rightarrow> string \<Rightarrow> string \<Rightarrow> fake_log_env \<Rightarrow> fake_log_env option" where
  "showLog y ans ls prio tag msg e =
     do { pre \<leftarrow> if msg = [] then Some [] else in_buffer (fake_prefix y (outputFormat ls) prio tag);
          suf \<leftarrow> if msg = [] then Some [] else in_buffer (suffix_text (outputFormat ls) tag);
          let n = numLines FORMAT_BRIEF msg;
          if n * 3 > 6 \<and> \<not> vec_malloc y then None
          else do { let vs = line_vecs pre suf n msg;
            let tot = int (length (concat vs));
            e1 \<leftarrow> open_out y e;
            let e2 = write_vecs ans vs tot e1;
            if stdoutFlag e2 then Some e2
            else if writeLen e2 + tot \<ge> 2 ^ 31 then None
            else Some (if writeLen e2 + tot > maxFileSize e2 then e2\<lparr>writeLen := writeLen e2 + tot, out_pos := 0\<rparr>
              else e2\<lparr>writeLen := writeLen e2 + tot\<rparr>) } }"

fun tag_prio :: "(string \<times> int) list \<Rightarrow> string \<Rightarrow> int \<Rightarrow> int" where
  "tag_prio [] tag glob = glob"
| "tag_prio ((t, p) # ts) tag glob = (if p = 0 then glob else if t = tag then p else tag_prio ts tag glob)"

text \<open>The result of the path that shows a message is 0, and the lock is not released on it.\<close>

definition logWritev :: "fake_sys \<Rightarrow> write_answer list \<Rightarrow> int \<Rightarrow> string list \<Rightarrow> fake_log \<Rightarrow> (int \<times> fake_log) option" where
  "logWritev y ans fd vs st =
     do { st1 \<leftarrow> lock y st;
          case fdToLogState fd st1 of
            None \<Rightarrow> Some (-1, unlock y st1)
          | Some ls \<Rightarrow>
              if isBinary ls then (if length vs < 3 then None else Some (int (length (concat (take 3 vs))), unlock y st1))
              else if length vs \<noteq> 3 then Some (-1, unlock y st1)
              else if vs ! 0 = [] then None
              else do { tag \<leftarrow> cstr_at (vs ! 1) 0; msg \<leftarrow> cstr_at (vs ! 2) 0;
                let prio = sint (prio_of_char (signed_char y) (hd (vs ! 0)));
                if prio \<ge> tag_prio (tagSet ls) tag (globalMinPriority ls)
                then do { e \<leftarrow> showLog y ans ls prio tag msg (logEnv st1); Some (0, st1\<lparr>logEnv := e\<rparr>) }
                else Some (0, st1) } }"

section \<open>The device\<close>

definition logClose :: "fake_sys \<Rightarrow> int \<Rightarrow> fake_log \<Rightarrow> (int \<times> fake_log) option" where
  "logClose y fd st = map_option (\<lambda>st1. (0, st1)) (deleteFakeFd y fd st)"

definition logOpen :: "fake_sys \<Rightarrow> string \<Rightarrow> fake_log \<Rightarrow> (int \<times> fake_log) option" where
  "logOpen y pathName st =
     do { st1 \<leftarrow> lock y st;
          case createLogState st1 of
            None \<Rightarrow> Some (-1, unlock y st1)
          | Some (i, ls) \<Rightarrow> map_option (\<lambda>ls1. (fakeFd ls1, unlock y (st1\<lparr>openLogTable := (openLogTable st1)[i := Some ls1]\<rparr>)))
              (configureInitialState y pathName ls) }"

definition setRedirects :: "fake_sys \<Rightarrow> fake_log \<Rightarrow> fake_log" where
  "setRedirects y st = st\<lparr>redirected := (if env_var y ''ANDROID_WRAPSIM'' = Some ''1'' then ToDevice else ToFake)\<rparr>"

text \<open>\<open>dev\<close> is what the system call returns when the calls go to a device; \<open>Unset\<close> is a null pointer.\<close>

definition fakeLogOpen :: "fake_sys \<Rightarrow> int \<Rightarrow> string \<Rightarrow> fake_log \<Rightarrow> (int \<times> fake_log) option" where
  "fakeLogOpen y dev pathName st =
     (let st1 = (if redirected st = Unset then setRedirects y st else st) in
      if redirected st1 = ToDevice then Some (dev, st1) else logOpen y pathName st1)"

definition fakeLogClose :: "fake_sys \<Rightarrow> int \<Rightarrow> int \<Rightarrow> fake_log \<Rightarrow> (int \<times> fake_log) option" where
  "fakeLogClose y dev fd st =
     (case redirected st of Unset \<Rightarrow> None | ToDevice \<Rightarrow> Some (dev, st) | ToFake \<Rightarrow> logClose y fd st)"

definition fakeLogWritev :: "fake_sys \<Rightarrow> write_answer list \<Rightarrow> int \<Rightarrow> int \<Rightarrow> string list \<Rightarrow> fake_log \<Rightarrow> (int \<times> fake_log) option" where
  "fakeLogWritev y ans dev fd vs st =
     (case redirected st of Unset \<Rightarrow> None | ToDevice \<Rightarrow> Some (dev, st) | ToFake \<Rightarrow> logWritev y ans fd vs st)"

end
