(* ===== verification/FakeLogProps.thy ===== *)
theory FakeLogProps
  imports FakeLog
begin

text \<open>
  What \<open>liblog/fake_log_device.c\<close> does with the levels of \<open>ANDROID_LOG_TAGS\<close>, with a sequence of messages, with a file that
  has reached its size, and with its lock.
\<close>

section \<open>Levels\<close>

text \<open>Rules \<open>tag:letter\<close> joined by spaces.\<close>

definition tag_rule_text :: "string \<times> char \<Rightarrow> string" where
  "tag_rule_text r = fst r @ '':'' @ [snd r]"

fun tags_text :: "(string \<times> char) list \<Rightarrow> string" where
  "tags_text [] = []"
| "tags_text [r] = tag_rule_text r"
| "tags_text (r # rs) = tag_rule_text r @ '' '' @ tags_text rs"

definition tag_rule_ok :: "string \<times> char \<Rightarrow> bool" where
  "tag_rule_ok r \<longleftrightarrow> fst r \<noteq> [] \<and> list_all (\<lambda>c. \<not> isspace c \<and> c \<noteq> CHR '':'') (fst r) \<and> length (fst r) \<le> 15 \<and> \<not> isdigit (snd r)"

text \<open>The letters of the levels, from verbose to silent, with their numbers in the Android log; another letter means the default, 1.\<close>

definition level_letters :: "(char \<times> int) list" where
  "level_letters = zip ''vdiwefs'' [2, 3, 4, 5, 6, 7, 8]"

definition letter_level :: "char \<Rightarrow> int" where
  "letter_level c = (case map_of level_letters c of Some l \<Rightarrow> l | None \<Rightarrow> 1)"

definition is_global :: "string \<times> char \<Rightarrow> bool" where "is_global r \<longleftrightarrow> fst r = ''*''"

definition tag_rules :: "(string \<times> char) list \<Rightarrow> (string \<times> int) list" where
  "tag_rules rs = map (\<lambda>r. (fst r, letter_level (snd r))) (filter (\<lambda>r. \<not> is_global r) rs)"

definition global_rule :: "(string \<times> char) list \<Rightarrow> int \<Rightarrow> int" where
  "global_rule rs d = (case filter is_global rs of [] \<Rightarrow> d | g # gs \<Rightarrow> letter_level (snd (last (g # gs))))"

lemma letter_prio_level: "letter_prio c = letter_level c"
  by (simp add: letter_prio_def letter_level_def level_letters_def)

lemma letter_level_pos: "letter_level c \<noteq> 0"
  by (simp add: letter_level_def level_letters_def)

lemma parse_space: "s1 \<noteq> [] \<Longrightarrow> parse_tags (CHR '' '' # s1) n ls = parse_tags s1 n ls"
proof -
  assume m: "s1 \<noteq> []"
  have "dropWhile isspace (CHR '' '' # s1) = dropWhile isspace s1" by (simp add: isspace_def cval_def)
  then show ?thesis using m by (simp only: parse_tags.simps[of "CHR '' '' # s1"] parse_tags.simps[of s1] list.simps if_False)
qed

definition rule_entry :: "string \<times> char \<Rightarrow> nat \<Rightarrow> fake_state \<Rightarrow> (nat \<times> fake_state) option" where
  "rule_entry r n ls = set_entry (if is_global r then [] else fst r) (letter_level (snd r)) n ls"

lemma parse_rule:
  assumes "tag_rule_ok r" "rest = [] \<or> isspace (hd rest)"
  shows "parse_tags (tag_rule_text r @ rest) n ls = (case rule_entry r n ls of None \<Rightarrow> None | Some (n1, ls1) \<Rightarrow> parse_tags rest n1 ls1)"
proof -
  obtain nm c where r: "r = (nm, c)" by (cases r)
  have nm: "nm \<noteq> []" "\<forall>x \<in> set nm. name_char x" "length nm < kMaxTagLen" "\<not> isdigit c"
    using assms(1) by (simp_all add: r tag_rule_ok_def list_all_iff name_char_def kMaxTagLen_def)
  have "dropWhile isspace (nm @ CHR '':'' # c # rest) = nm @ CHR '':'' # c # rest"
    using nm(1,2) by (cases nm) (simp_all add: name_char_def)
  moreover have "takeWhile name_char (nm @ CHR '':'' # c # rest) = nm"
    using nm(2) by (simp add: takeWhile_append name_char_def)
  moreover have "level_char c = letter_level c" using nm(4) by (simp add: level_char_def letter_prio_level)
  moreover have "take kMaxTagLen nm = nm" using nm(3) by simp
  ultimately show ?thesis using nm(1,3) assms(2)
    by (subst parse_tags.simps) (auto simp: r tag_rule_text_def rule_entry_def is_global_def Let_def split: option.split)
qed

lemma set_entries:
  assumes "tagSet ls = es @ replicate (k + 1) ([], 0)" "\<not> is_global r" "fst r \<noteq> []" "length es + k + 1 = kTagSetSize"
  shows "rule_entry r (length es) ls = Some (length es + 1, ls\<lparr>tagSet := (es @ [(fst r, letter_level (snd r))]) @ replicate k ([], 0)\<rparr>)"
proof -
  have "(es @ replicate (k + 1) ([], 0))[length es := x] = (es @ [x]) @ replicate k ([], 0)" for x :: "string \<times> int"
    by (simp add: list_update_append)
  then show ?thesis using assms by (simp add: rule_entry_def set_entry_def)
qed

lemma parse_rules:
  assumes "list_all tag_rule_ok rs" "tagSet ls = es @ replicate (kTagSetSize - length es) ([], 0)" "length es + length (tag_rules rs) \<le> kTagSetSize"
  shows "\<exists>ls'. parse_tags (tags_text rs) (length es) ls = Some (True, ls')
    \<and> tagSet ls' = (es @ tag_rules rs) @ replicate (kTagSetSize - length (es @ tag_rules rs)) ([], 0)
    \<and> globalMinPriority ls' = global_rule rs (globalMinPriority ls) \<and> isBinary ls' = isBinary ls"
  using assms
proof (induction rs arbitrary: es ls)
  case Nil
  then show ?case by (simp add: parse_tags.simps tag_rules_def global_rule_def)
next
  case (Cons r rs)
  have ok: "tag_rule_ok r" "fst r \<noteq> []" using Cons.prems(1) by (simp_all add: tag_rule_ok_def)
  define rest where "rest = (if rs = [] then [] else CHR '' '' # tags_text rs)"
  have tt: "tags_text (r # rs) = tag_rule_text r @ rest" by (cases rs) (simp_all add: rest_def)
  have ne: "tags_text rs \<noteq> []" if "rs \<noteq> []" using that by (cases rs rule: tags_text.cases) (simp_all add: tag_rule_text_def)
  have rest: "parse_tags rest n ls1 = parse_tags (tags_text rs) n ls1" for n ls1 using ne parse_space by (simp add: rest_def)
  have step: "parse_tags (tags_text (r # rs)) (length es) ls
      = (case rule_entry r (length es) ls of None \<Rightarrow> None | Some (n1, ls1) \<Rightarrow> parse_tags (tags_text rs) n1 ls1)"
    unfolding tt using parse_rule[OF ok(1), of rest] rest by (simp add: rest_def isspace_def cval_def split: option.split)
  show ?case
  proof (cases "is_global r")
    case True
    have "rule_entry r (length es) ls = Some (length es, ls\<lparr>globalMinPriority := letter_level (snd r)\<rparr>)"
      using True by (simp add: rule_entry_def set_entry_def)
    moreover have "tag_rules (r # rs) = tag_rules rs" "global_rule (r # rs) d = global_rule rs (letter_level (snd r))" for d
      using True by (auto simp: tag_rules_def global_rule_def split: list.split)
    ultimately show ?thesis using Cons.IH[of "ls\<lparr>globalMinPriority := letter_level (snd r)\<rparr>" es] Cons.prems step by simp
  next
    case False
    define e where "e = (fst r, letter_level (snd r))"
    have rules: "tag_rules (r # rs) = e # tag_rules rs" "global_rule (r # rs) d = global_rule rs d" for d
      using False by (simp_all add: tag_rules_def global_rule_def e_def)
    define k where "k = kTagSetSize - length es - 1"
    have k: "kTagSetSize - length es = k + 1" "length es + k + 1 = kTagSetSize" "kTagSetSize - length (es @ [e]) = k"
      using Cons.prems(3) by (simp_all add: rules k_def)
    have "rule_entry r (length es) ls = Some (length (es @ [e]), ls\<lparr>tagSet := (es @ [e]) @ replicate k ([], 0)\<rparr>)"
      using set_entries[OF _ False ok(2) k(2)] Cons.prems(2) by (simp add: k(1) e_def)
    then show ?thesis using Cons.IH[of "ls\<lparr>tagSet := (es @ [e]) @ replicate k ([], 0)\<rparr>" "es @ [e]"] Cons.prems(1,3) step k(3)
      by (simp add: rules)
  qed
qed

text \<open>The level of a tag: that of the first rule for it, else of the last rule for all tags, else information.\<close>

definition tag_level :: "(string \<times> char) list \<Rightarrow> string \<Rightarrow> int" where
  "tag_level rs tag = (case map_of (tag_rules rs) tag of Some p \<Rightarrow> p | None \<Rightarrow> global_rule rs 4)"

lemma tag_prio_rules: "list_all (\<lambda>e. snd e \<noteq> 0) es \<Longrightarrow> tag_prio (es @ replicate k ([], 0)) tag g = (case map_of es tag of Some p \<Rightarrow> p | None \<Rightarrow> g)"
proof (induction es)
  case Nil
  then show ?case by (cases k) simp_all
qed auto

text \<open>C38: A log that is opened takes from \<open>ANDROID_LOG_TAGS\<close>, rules \<open>tag:letter\<close> separated by single spaces, for each tag the level of its
  first rule, else of the last rule for \<open>*\<close>, else information (4): v, d, i, w, e, f, s mean 2 to 8, any other character that is no
  digit means 1. The log is binary when its path behind \<open>/dev/log/\<close> is \<open>events\<close>, and its format that of time stamps. Conditions: tags have 1 to 15
  characters, no white space and no colon; at most 16 rules are for a tag other than \<open>*\<close>; the path has at least 9 characters. Beyond these the
  code does not do this: a longer tag makes it ignore the rest of the variable, and more rules are written behind the array of 16.\<close>

theorem fake_log_takes_levels:
  assumes "env_var y ''ANDROID_LOG_TAGS'' = Some (tags_text rs)" "list_all tag_rule_ok rs" "length (tag_rules rs) \<le> 16" "9 \<le> length path"
  shows "\<exists>ls. configureInitialState y path zero_state = Some ls \<and> outputFormat ls = FORMAT_TIME \<and> isBinary ls = (drop 9 path = ''events'')
    \<and> (\<forall>tag. tag_prio (tagSet ls) tag (globalMinPriority ls) = tag_level rs tag)"
proof -
  define ls1 where "ls1 = zero_state\<lparr>debugName := path, isBinary := (drop 9 path = ''events''), globalMinPriority := 4\<rparr>"
  obtain ls2 where ls2: "parse_tags (tags_text rs) 0 ls1 = Some (True, ls2)" "tagSet ls2 = tag_rules rs @ replicate (kTagSetSize - length (tag_rules rs)) ([], 0)"
    "globalMinPriority ls2 = global_rule rs 4" "isBinary ls2 = isBinary ls1"
    using parse_rules[OF assms(2), of ls1 "[]"] assms(3) by (auto simp: ls1_def zero_state_def kTagSetSize_def)
  have "list_all (\<lambda>e. snd e \<noteq> 0) (tag_rules rs)" using letter_level_pos by (auto simp: tag_rules_def list_all_iff)
  then have "tag_prio (tagSet ls2) tag (globalMinPriority ls2) = tag_level rs tag" for tag
    by (simp add: ls2(2,3) tag_prio_rules tag_level_def)
  then show ?thesis using assms(1,4) ls2(1,4) by (simp add: configureInitialState_def ls1_def)
qed

definition demo_sys :: fake_sys where
  "demo_sys = \<lparr>env_var = (\<lambda>n. if n = ''ANDROID_LOG_TAGS'' then Some (tags_text [(''net'', CHR ''d''), (''*'', CHR ''e'')]) else None),
     logcat_conf = None, proc_status = None, open_fd = 5, old_file = [], time_text = ''2024-01-01 00:00:00'', millisec = 7, fake_pid = 42,
     vec_malloc = True, pthreads = False, signed_char = True\<rparr>"

lemma fake_log_takes_levels_witness:
  "\<exists>ls. configureInitialState demo_sys ''/dev/log/main'' zero_state = Some ls
    \<and> tag_prio (tagSet ls) ''net'' (globalMinPriority ls) = 3 \<and> tag_prio (tagSet ls) ''ui'' (globalMinPriority ls) = 6"
proof -
  let ?rs = "[(''net'', CHR ''d''), (''*'', CHR ''e'')]"
  have "list_all tag_rule_ok ?rs" "length (tag_rules ?rs) \<le> 16" by code_simp+
  moreover have "tag_level ?rs ''net'' = 3" "tag_level ?rs ''ui'' = 6" by code_simp+
  ultimately show ?thesis using fake_log_takes_levels[of demo_sys ?rs "''/dev/log/main''"] by (auto simp: demo_sys_def)
qed

section \<open>Writing\<close>

lemma concat_nonempty: "concat (filter (\<lambda>v. v \<noteq> []) vs) = concat vs"
  by (induction vs) auto

lemma concat_line_vecs: "length (log_lines p) \<le> n \<Longrightarrow> concat (line_vecs pre suf n p) = lines_text pre suf p"
proof (induction p arbitrary: n rule: log_lines.induct)
  case (1 p)
  show ?case
  proof (cases "p = []")
    case False
    define l where "l = takeWhile (\<lambda>c. c \<noteq> CHR 0x0A) p"
    have len: "length (log_lines p) = Suc (length (log_lines (drop (length l + 1) p)))"
      using False by (simp add: log_lines.simps[of p] l_def Let_def)
    then have "concat (line_vecs pre suf (n - 1) (drop (length l + 1) p)) = lines_text pre suf (drop (length l + 1) p)"
      using 1 False by (simp add: l_def)
    then show ?thesis using False len "1.prems" lines_text_step[OF False l_def, of pre suf] concat_nonempty[of "[pre, l, suf]"]
      by (subst line_vecs.simps) (simp add: Let_def l_def[symmetric] del: filter.simps)
  qed (simp add: line_vecs.simps)
qed

definition out_ready :: "fake_log_env \<Rightarrow> bool" where
  "out_ready e \<longleftrightarrow> initFlag e \<and> 0 \<le> outFd e \<and> \<not> stdoutFlag e \<and> out_pos e \<le> length (out_file e)"

lemma put_out_ready: "out_ready e \<Longrightarrow> out_ready (put_out v e)"
  by (auto simp: out_ready_def put_out_def put_at_def)

lemma put_out_join: "out_ready e \<Longrightarrow> put_out b (put_out a e) = put_out (a @ b) e"
  by (simp add: out_ready_def put_out_def put_at_join)

lemma fake_writev_all: "out_ready e \<Longrightarrow> fake_writev [] vs res e = (res + int (length (concat vs)), False, [], put_out (concat vs) e)"
proof (induction vs arbitrary: res e)
  case Nil
  then show ?case by (simp add: put_out_def put_at_def)
next
  case (Cons v vs)
  have "fake_writev [] (v # vs) res e = fake_writev [] vs (res + int (length v)) (put_out v e)" using Cons.prems by (simp add: out_ready_def)
  then show ?case using Cons.IH[OF put_out_ready[OF Cons.prems]] put_out_join[OF Cons.prems] by simp
qed

text \<open>The lines of a message in the format the code always chooses.\<close>

definition message_lines :: "fake_sys \<Rightarrow> int \<Rightarrow> string \<Rightarrow> string \<Rightarrow> string" where
  "message_lines y prio tag msg = lines_text (fake_prefix y FORMAT_TIME prio tag) [CHR 0x0A] msg"

definition wrote :: "string \<Rightarrow> fake_log_env \<Rightarrow> fake_log_env" where
  "wrote t e = (let e1 = (put_out t e)\<lparr>writeLen := writeLen e + int (length t)\<rparr> in
     if writeLen e1 > maxFileSize e1 then e1\<lparr>out_pos := 0\<rparr> else e1)"

lemma showLog_wrote:
  assumes "out_ready e" "outputFormat ls = FORMAT_TIME" "vec_malloc y" "length (fake_prefix y FORMAT_TIME prio tag) < 128"
    "writeLen e + int (length (message_lines y prio tag msg)) < 2 ^ 31"
  shows "showLog y [] ls prio tag msg e = Some (wrote (message_lines y prio tag msg) e)"
proof -
  define pre where "pre = (if msg = [] then [] else fake_prefix y FORMAT_TIME prio tag)"
  define suf where "suf = (if msg = [] then [] else [CHR 0x0A] :: string)"
  define vs where "vs = line_vecs pre suf (numLines FORMAT_BRIEF msg) msg"
  have "concat vs = lines_text pre suf msg" unfolding vs_def
    using numLines_lines[of FORMAT_BRIEF msg] by (intro concat_line_vecs) simp
  then have c: "concat vs = message_lines y prio tag msg" by (simp add: message_lines_def pre_def suf_def)
  have p: "(if msg = [] then Some [] else in_buffer (fake_prefix y (outputFormat ls) prio tag)) = Some pre"
    "(if msg = [] then Some [] else in_buffer (suffix_text (outputFormat ls) tag)) = Some suf"
    using assms(2,4) by (simp_all add: in_buffer_def pre_def suf_def suffix_text_def)
  have w: "write_vecs [] vs (int (length (concat vs))) e = put_out (concat vs) e"
    by (subst write_vecs.simps) (simp add: fake_writev_all[OF assms(1)] Let_def del: length_concat)
  have o: "open_out y e = Some e" using assms(1) by (simp add: open_out_def out_ready_def)
  have "stdoutFlag (put_out t e) = False" "writeLen (put_out t e) = writeLen e" "maxFileSize (put_out t e) = maxFileSize e" for t
    using assms(1) by (simp_all add: put_out_def out_ready_def)
  then show ?thesis using assms(3,5) p w o unfolding showLog_def vs_def[symmetric] c[symmetric]
    by (simp add: vs_def[symmetric] Let_def wrote_def del: length_concat)
qed

text \<open>Messages one after another, each with the answers of the system at its time.\<close>

type_synonym message = "fake_sys \<times> char \<times> string \<times> string"

fun log_all :: "int \<Rightarrow> message list \<Rightarrow> fake_log \<Rightarrow> fake_log option" where
  "log_all fd [] st = Some st"
| "log_all fd ((y, p, tag, msg) # ms) st =
     (case logWritev y [] fd [[p], tag @ [NUL], msg @ [NUL]] st of None \<Rightarrow> None | Some (r, st1) \<Rightarrow> log_all fd ms st1)"

definition message_prio :: "message \<Rightarrow> int" where
  "message_prio m = sint (prio_of_char (signed_char (fst m)) (fst (snd m)))"

definition message_ok :: "message \<Rightarrow> bool" where
  "message_ok m \<longleftrightarrow> (case m of (y, p, tag, msg) \<Rightarrow> \<not> pthreads y \<and> vec_malloc y \<and> NUL \<notin> set tag \<and> NUL \<notin> set msg
     \<and> length (fake_prefix y FORMAT_TIME (message_prio m) tag) < 128)"

text \<open>The text of a message in a log: nothing below the level of its tag.\<close>

definition shown :: "fake_state \<Rightarrow> message \<Rightarrow> string" where
  "shown ls m = (case m of (y, p, tag, msg) \<Rightarrow>
     if message_prio m \<ge> tag_prio (tagSet ls) tag (globalMinPriority ls) then message_lines y (message_prio m) tag msg else [])"

definition text_log :: "fake_log \<Rightarrow> int \<Rightarrow> fake_state \<Rightarrow> bool" where
  "text_log st fd ls \<longleftrightarrow> fdToLogState fd st = Some ls \<and> \<not> isBinary ls \<and> outputFormat ls = FORMAT_TIME \<and> out_ready (logEnv st)"

lemma fdToLogState_env [simp]: "fdToLogState fd (st\<lparr>logEnv := e\<rparr>) = fdToLogState fd st"
  by (simp add: fdToLogState_def)

lemma fdToLogState_held: "fdToLogState fd (st\<lparr>held := b\<rparr>) = fdToLogState fd st"
  by (simp add: fdToLogState_def)

lemma wrote_empty: "out_ready e \<Longrightarrow> writeLen e \<le> maxFileSize e \<Longrightarrow> wrote [] e = e"
  by (simp add: wrote_def put_out_def put_at_def Let_def)

lemma wrote_ready: "out_ready e \<Longrightarrow> out_ready (wrote t e)"
  using put_out_ready[of e t] by (auto simp: wrote_def out_ready_def Let_def)

lemma logWritev_shown:
  assumes "text_log st fd ls" "message_ok (y, p, tag, msg)" "writeLen (logEnv st) + int (length (shown ls (y, p, tag, msg))) < 2 ^ 31"
  shows "logWritev y [] fd [[p], tag @ [NUL], msg @ [NUL]] st
    = Some (0, if message_prio (y, p, tag, msg) \<ge> tag_prio (tagSet ls) tag (globalMinPriority ls)
        then st\<lparr>logEnv := wrote (shown ls (y, p, tag, msg)) (logEnv st)\<rparr> else st)"
proof -
  have m: "cstr_at (tag @ [NUL]) 0 = Some tag" "cstr_at (msg @ [NUL]) 0 = Some msg" "lock y st = Some st"
    using assms(2) by (simp_all add: cstr_at_def message_ok_def lock_def)
  have "showLog y [] ls (message_prio (y, p, tag, msg)) tag msg (logEnv st) = Some (wrote (shown ls (y, p, tag, msg)) (logEnv st))"
    if "message_prio (y, p, tag, msg) \<ge> tag_prio (tagSet ls) tag (globalMinPriority ls)"
    using assms that showLog_wrote[of "logEnv st" ls y "message_prio (y, p, tag, msg)" tag msg]
    by (simp add: shown_def text_log_def message_ok_def)
  then show ?thesis using m assms(1) by (simp add: logWritev_def text_log_def message_prio_def)
qed

text \<open>As long as the size of the file is not exceeded, messages are appended to it: those at or above the level of their tag, each
  line with the time and the tag in front of it and a newline behind it.\<close>

theorem fake_log_appends:
  assumes "text_log st fd ls" "list_all message_ok ms" "out_pos (logEnv st) = length (out_file (logEnv st))"
    "writeLen (logEnv st) + int (length (concat (map (shown ls) ms))) \<le> maxFileSize (logEnv st)" "maxFileSize (logEnv st) < 2 ^ 31"
  shows "\<exists>st'. log_all fd ms st = Some st' \<and> out_file (logEnv st') = out_file (logEnv st) @ concat (map (shown ls) ms)"
  using assms
proof (induction ms arbitrary: st)
  case (Cons m ms)
  obtain y p tag msg where m: "m = (y, p, tag, msg)" by (cases m) auto
  define t where "t = shown ls m"
  have le: "writeLen (logEnv st) + int (length t) \<le> maxFileSize (logEnv st)" using Cons.prems(4) by (simp add: t_def)
  define st1 where "st1 = (if message_prio m \<ge> tag_prio (tagSet ls) tag (globalMinPriority ls) then st\<lparr>logEnv := wrote t (logEnv st)\<rparr> else st)"
  have "logWritev y [] fd [[p], tag @ [NUL], msg @ [NUL]] st = Some (0, st1)"
    using logWritev_shown[OF Cons.prems(1), of y p tag msg] Cons.prems(2,5) le by (simp add: m t_def st1_def)
  then have step: "log_all fd (m # ms) st = log_all fd ms st1" by (simp add: m)
  have w: "wrote t (logEnv st) = (put_out t (logEnv st))\<lparr>writeLen := writeLen (logEnv st) + int (length t)\<rparr>"
    using le by (simp add: wrote_def Let_def put_out_def)
  have st1: "out_file (logEnv st1) = out_file (logEnv st) @ t \<and> out_pos (logEnv st1) = length (out_file (logEnv st1))
    \<and> writeLen (logEnv st1) = writeLen (logEnv st) + int (length t) \<and> maxFileSize (logEnv st1) = maxFileSize (logEnv st)"
    using Cons.prems(3) w by (auto simp: st1_def put_out_def put_at_def t_def shown_def m)
  have "text_log st1 fd ls"
    using Cons.prems(1) wrote_ready[of "logEnv st" t] by (simp add: st1_def text_log_def)
  then have "\<exists>st'. log_all fd ms st1 = Some st' \<and> out_file (logEnv st') = out_file (logEnv st1) @ concat (map (shown ls) ms)"
    using Cons.prems(2,4,5) st1 by (intro Cons.IH) (simp_all add: t_def)
  then show ?case using step st1 by (auto simp: t_def)
qed simp

definition demo_state :: fake_state where
  "demo_state = zero_state\<lparr>fakeFd := FAKE_FD_BASE, globalMinPriority := 4, outputFormat := FORMAT_TIME\<rparr>"

definition demo_log :: "int \<Rightarrow> fake_log" where
  "demo_log n = fake_start\<lparr>openLogTable := (replicate MAX_OPEN_LOGS None)[0 := Some demo_state],
     logEnv := (logEnv fake_start)\<lparr>initFlag := True, outFd := 5, writeLen := n\<rparr>\<rparr>"

definition demo_message :: message where
  "demo_message = (demo_sys, CHR 0x05, ''net'', ''link up'')"

lemma demo_message_ok: "message_ok demo_message" "message_prio demo_message = 5" "length (shown demo_state demo_message) < 100"
  "4 \<ge> tag_prio (tagSet demo_state) ''net'' (globalMinPriority demo_state)"
  by code_simp+

lemma demo_log_text: "text_log (demo_log n) FAKE_FD_BASE demo_state"
  by (simp add: text_log_def demo_log_def fdToLogState_def demo_state_def zero_state_def out_ready_def fake_start_def fake_sizes)

lemma fake_log_appends_witness:
  "\<exists>st'. log_all FAKE_FD_BASE [demo_message, demo_message] (demo_log 0) = Some st'
    \<and> out_file (logEnv st') = shown demo_state demo_message @ shown demo_state demo_message"
  using fake_log_appends[OF demo_log_text, of "[demo_message, demo_message]" 0] demo_message_ok(1,3)
  by (simp add: demo_log_def fake_start_def)

text \<open>When the size has once been exceeded, the count of written bytes is never reset: every message is written at the start of the
  file, over the one before, and what stands behind it stays.\<close>

theorem full_fake_log_overwrites_start:
  assumes "text_log st fd ls" "message_ok (y, p, tag, msg)" "out_pos (logEnv st) = 0" "maxFileSize (logEnv st) < writeLen (logEnv st)"
    "message_prio (y, p, tag, msg) \<ge> tag_prio (tagSet ls) tag (globalMinPriority ls)"
    "writeLen (logEnv st) + int (length (shown ls (y, p, tag, msg))) < 2 ^ 31"
  shows "\<exists>st'. logWritev y [] fd [[p], tag @ [NUL], msg @ [NUL]] st = Some (0, st')
    \<and> out_file (logEnv st') = shown ls (y, p, tag, msg) @ drop (length (shown ls (y, p, tag, msg))) (out_file (logEnv st))
    \<and> out_pos (logEnv st') = 0 \<and> maxFileSize (logEnv st') < writeLen (logEnv st')"
  using logWritev_shown[OF assms(1,2,6)] assms(3-5) by (simp add: wrote_def put_out_def put_at_def Let_def)

lemma full_fake_log_overwrites_start_witness:
  "\<exists>st'. logWritev demo_sys [] FAKE_FD_BASE [[CHR 0x05], ''net'' @ [NUL], ''link up'' @ [NUL]] (demo_log 1048577) = Some (0, st')
    \<and> out_pos (logEnv st') = 0 \<and> maxFileSize (logEnv st') < writeLen (logEnv st')"
  using full_fake_log_overwrites_start[OF demo_log_text, of demo_sys "CHR 0x05" "''net''" "''link up''" 1048577] demo_message_ok
  unfolding demo_message_def by (auto simp: demo_log_def fake_start_def)

section \<open>The lock\<close>

text \<open>In a build with \<open>HAVE_PTHREADS\<close> the lock is never released after a message to a text log, shown or not: every later call
  for a log waits for ever.\<close>

theorem fake_log_deadlocks:
  assumes "pthreads y" "fdToLogState fd st = Some ls" "\<not> isBinary ls" "length vs = 3" "logWritev y ans fd vs st = Some (r, st1)" "pthreads y'"
  shows "logWritev y' ans' fd' vs' st1 = None \<and> logOpen y' path st1 = None \<and> logClose y' fd' st1 = None"
proof -
  have "held st1" using assms(1-5) by (auto simp: logWritev_def lock_def fdToLogState_def Let_def split: if_splits bind_splits)
  then have "lock y' st1 = None" using assms(6) by (simp add: lock_def)
  then show ?thesis by (simp add: logWritev_def logOpen_def logClose_def deleteFakeFd_def)
qed

lemma fake_log_deadlocks_witness:
  "\<exists>st1. logWritev (demo_sys\<lparr>pthreads := True\<rparr>) [] FAKE_FD_BASE [[CHR 0x02], ''net'' @ [NUL], ''x'' @ [NUL]] (demo_log 0) = Some (0, st1)
    \<and> logOpen (demo_sys\<lparr>pthreads := True\<rparr>) ''/dev/log/main'' st1 = None"
proof -
  let ?y = "demo_sys\<lparr>pthreads := True\<rparr>" and ?vs = "[[CHR 0x02], ''net'' @ [NUL], ''x'' @ [NUL]]"
  have fd: "fdToLogState FAKE_FD_BASE (demo_log 0) = Some demo_state" "\<not> isBinary demo_state" using demo_log_text[of 0] by (simp_all add: text_log_def)
  have "\<not> held (demo_log 0)" by (simp add: demo_log_def fake_start_def)
  moreover have "sint (prio_of_char True (CHR 0x02)) = 2" "tag_prio (tagSet demo_state) ''net'' (globalMinPriority demo_state) = 4" by code_simp+
  ultimately have w: "logWritev ?y [] FAKE_FD_BASE ?vs (demo_log 0) = Some (0, (demo_log 0)\<lparr>held := True\<rparr>)"
    using fd by (simp add: logWritev_def lock_def fdToLogState_held cstr_at_def cstr_Cons demo_sys_def)
  then show ?thesis using fake_log_deadlocks[OF _ fd _ w, of ?y "[]" 0 "[]" "''/dev/log/main''"] by simp
qed

end
