(* ===== verification/Unicode.thy ===== *)
theory Unicode
  imports Prelude
begin

text \<open>
  \<open>libbinder/utils/Unicode.cpp\<close>: the conversions between UTF-8, UTF-16 and UTF-32 and the string
  functions on 16- and 32-bit characters. A source pointer is the list of the characters that
  may be read from it, longer than the length passed where memory follows; a destination is the
  list of what is written to it, from its start. \<^const>\<open>None\<close> is a read behind the memory, or a
  shift by 32 bits or more. Where the signedness of \<open>char\<close> matters it is an argument.
\<close>

section \<open>UTF-32\<close>

definition kByteMask :: u32 where "kByteMask = 0xBF"
definition kByteMark :: u32 where "kByteMark = 0x80"
definition kUnicodeSurrogateStart :: u32 where "kUnicodeSurrogateStart = 0xD800"
definition kUnicodeSurrogateEnd :: u32 where "kUnicodeSurrogateEnd = 0xDFFF"
definition kUnicodeMaxCodepoint :: u32 where "kUnicodeMaxCodepoint = 0x10FFFF"
definition kFirstByteMark :: "u32 list" where "kFirstByteMark = [0, 0, 0xC0, 0xE0, 0xF0]"

lemmas unicode_consts = kByteMask_def kByteMark_def kUnicodeSurrogateStart_def kUnicodeSurrogateEnd_def
  kUnicodeMaxCodepoint_def kFirstByteMark_def

definition utf32_codepoint_utf8_length :: "u32 \<Rightarrow> nat" where
  "utf32_codepoint_utf8_length srcChar =
     (if srcChar < 0x80 then 1
      else if srcChar < 0x800 then 2
      else if srcChar < 0x10000 then
        (if srcChar < kUnicodeSurrogateStart \<or> srcChar > kUnicodeSurrogateEnd then 3 else 0)
      else if srcChar \<le> kUnicodeMaxCodepoint then 4
      else 0)"

text \<open>\<open>utf32_codepoint_to_utf8\<close>: the cases of the switch fall through, from the last byte to the
  first; \<open>k\<close> is the case, \<open>out\<close> the bytes already written behind.\<close>

fun codepoint_bytes :: "nat \<Rightarrow> nat \<Rightarrow> u32 \<Rightarrow> u8 list \<Rightarrow> u8 list" where
  "codepoint_bytes bytes 0 c out = out"
| "codepoint_bytes bytes (Suc 0) c out = ucast (c OR kFirstByteMark ! bytes) # out"
| "codepoint_bytes bytes (Suc (Suc k)) c out =
     codepoint_bytes bytes (Suc k) (drop_bit 6 c) (ucast ((c OR kByteMark) AND kByteMask) # out)"

definition utf32_codepoint_to_utf8 :: "u32 \<Rightarrow> nat \<Rightarrow> u8 list" where
  "utf32_codepoint_to_utf8 c bytes = codepoint_bytes bytes bytes c []"

fun strlen32 :: "u32 list \<Rightarrow> nat option" where
  "strlen32 [] = None"
| "strlen32 (c # s) = (if c = 0 then Some 0 else map_option Suc (strlen32 s))"

fun strnlen32 :: "u32 list \<Rightarrow> nat \<Rightarrow> nat option" where
  "strnlen32 s 0 = Some 0"
| "strnlen32 [] (Suc n) = None"
| "strnlen32 (c # s) (Suc n) = (if c = 0 then Some 0 else map_option Suc (strnlen32 s n))"

text \<open>
  \<open>utf32_at_internal\<close>: the loop over the leading ones of the first byte reads one byte each; its
  result is the value, the mask, \<open>to_ignore_mask\<close> and \<open>num_to_read\<close>. \<open>ext\<close> extends a \<open>char\<close> to 32
  bits. The result is the code point and the number of bytes read.
\<close>

definition ext :: "bool \<Rightarrow> u8 \<Rightarrow> u32" where
  "ext sc b = (if sc then scast b else ucast b)"

fun at_loop :: "u8 list \<Rightarrow> u32 \<Rightarrow> u32 \<Rightarrow> u32 \<Rightarrow> u32 \<Rightarrow> nat \<Rightarrow> (u32 \<times> u32 \<times> u32 \<times> nat) option" where
  "at_loop [] first msk ignore utf32 n = (if first AND msk = 0 then Some (utf32, msk, ignore, n) else None)"
| "at_loop (b # cur) first msk ignore utf32 n =
     (if first AND msk = 0 then Some (utf32, msk, ignore, n)
      else at_loop cur first (drop_bit 1 msk) (ignore OR msk) (push_bit 6 utf32 + (ucast b AND 0x3F)) (n + 1))"

definition utf32_at_internal :: "bool \<Rightarrow> u8 list \<Rightarrow> (u32 \<times> nat) option" where
  "utf32_at_internal sc cur = (case cur of
       [] \<Rightarrow> None
     | first # cur1 \<Rightarrow>
         if first AND 0x80 = 0 then Some (ext sc first, 1)
         else (case at_loop cur1 (ext sc first) 0x40 0xFFFFFF80 (ext sc first) 1 of
             None \<Rightarrow> None
           | Some (utf32, msk, ignore, n) \<Rightarrow>
               if 6 * (n - 1) \<ge> 32 then None
               else Some (utf32 AND NOT (push_bit (6 * (n - 1)) (ignore OR msk)), n)))"

lemma at_loop_count: "at_loop cur first msk ignore utf32 n = Some (v, m, i, k) \<Longrightarrow> n \<le> k"
  by (induction cur first msk ignore utf32 n rule: at_loop.induct) (auto split: if_splits)

lemma utf32_at_internal_pos: "utf32_at_internal sc cur = Some (c, n) \<Longrightarrow> 0 < n"
  by (auto simp: utf32_at_internal_def dest: at_loop_count split: list.splits if_splits option.splits)

definition utf32_from_utf8_at :: "bool \<Rightarrow> u8 list \<Rightarrow> nat \<Rightarrow> nat \<Rightarrow> (int \<times> nat option) option" where
  "utf32_from_utf8_at sc src src_len index =
     (if index \<ge> src_len then Some (-1, None)
      else (case utf32_at_internal sc (drop index src) of
          None \<Rightarrow> None
        | Some (c, n) \<Rightarrow> Some (sint c, if sint c \<ge> 0 then Some (index + n) else None)))"

definition utf32_to_utf8_length :: "u32 list option \<Rightarrow> nat \<Rightarrow> int" where
  "utf32_to_utf8_length src src_len = (case src of
       None \<Rightarrow> -1
     | Some s \<Rightarrow> if src_len = 0 then -1 else int (sum_list (map utf32_codepoint_utf8_length (take src_len s))))"

fun utf32_to_utf8_loop :: "u32 list \<Rightarrow> u8 list" where
  "utf32_to_utf8_loop [] = []"
| "utf32_to_utf8_loop (c # cs) = utf32_codepoint_to_utf8 c (utf32_codepoint_utf8_length c) @ utf32_to_utf8_loop cs"

text \<open>The bytes written to \<open>dst\<close> (none when there is nothing to do, not even the NUL).\<close>

definition utf32_to_utf8 :: "u32 list option \<Rightarrow> nat \<Rightarrow> u8 list" where
  "utf32_to_utf8 src src_len = (case src of
       None \<Rightarrow> []
     | Some s \<Rightarrow> if src_len = 0 then [] else utf32_to_utf8_loop (take src_len s) @ [0])"

section \<open>UTF-16\<close>

fun strcmp16 :: "u16 list \<Rightarrow> u16 list \<Rightarrow> int option" where
  "strcmp16 (a # s1) (b # s2) =
     (let d = uint a - uint b in if d \<noteq> 0 \<or> a = 0 then Some d else strcmp16 s1 s2)"
| "strcmp16 _ _ = None"

text \<open>\<open>d\<close> is what the previous round left.\<close>

fun strncmp16_loop :: "int \<Rightarrow> u16 list \<Rightarrow> u16 list \<Rightarrow> nat \<Rightarrow> int option" where
  "strncmp16_loop d _ _ 0 = Some d"
| "strncmp16_loop _ (a # s1) (b # s2) (Suc n) =
     (let d = uint a - uint b in if d \<noteq> 0 \<or> a = 0 then Some d else strncmp16_loop d s1 s2 n)"
| "strncmp16_loop _ _ _ (Suc n) = None"

definition strncmp16 :: "u16 list \<Rightarrow> u16 list \<Rightarrow> nat \<Rightarrow> int option" where
  "strncmp16 s1 s2 n = strncmp16_loop 0 s1 s2 n"

fun strcpy16 :: "u16 list \<Rightarrow> u16 list option" where
  "strcpy16 [] = None"
| "strcpy16 (ch # p) = (if ch = 0 then Some [ch] else map_option ((#) ch) (strcpy16 p))"

fun strlen16 :: "u16 list \<Rightarrow> nat option" where
  "strlen16 [] = None"
| "strlen16 (c # s) = (if c = 0 then Some 0 else map_option Suc (strlen16 s))"

text \<open>In \<open>strncpy16\<close> the variable \<open>ch\<close>, through which every character goes, is a \<open>char\<close>; the units
  written include the final \<open>*q = 0\<close>.\<close>

definition through_char :: "bool \<Rightarrow> u16 \<Rightarrow> u16" where
  "through_char sc x = (if sc then scast (ucast x :: u8) else ucast (ucast x :: u8))"

fun strncpy16 :: "bool \<Rightarrow> u16 list \<Rightarrow> nat \<Rightarrow> u16 list option" where
  "strncpy16 sc _ 0 = Some [0]"
| "strncpy16 sc [] (Suc n) = None"
| "strncpy16 sc (x # p) (Suc n) =
     (let ch = through_char sc x in
      if ch = 0 then Some [ch, 0] else map_option ((#) ch) (strncpy16 sc p n))"

fun strnlen16 :: "u16 list \<Rightarrow> nat \<Rightarrow> nat option" where
  "strnlen16 s 0 = Some 0"
| "strnlen16 [] (Suc n) = None"
| "strnlen16 (c # s) (Suc n) = (if c = 0 then Some 0 else map_option Suc (strnlen16 s n))"

text \<open>\<open>strzcmp16\<close> over the strings of the given lengths; \<open>f\<close> is the byte order of the second string
  (\<open>ntohs\<close> in \<open>strzcmp16_h_n\<close>).\<close>

fun strzcmp_loop :: "(u16 \<Rightarrow> u16) \<Rightarrow> u16 list \<Rightarrow> u16 list \<Rightarrow> int + (u16 list \<times> u16 list)" where
  "strzcmp_loop f (a # s1) (b # s2) =
     (let d = uint a - uint (f b) in if d \<noteq> 0 then Inl d else strzcmp_loop f s1 s2)"
| "strzcmp_loop f s1 s2 = Inr (s1, s2)"

definition strzcmp :: "(u16 \<Rightarrow> u16) \<Rightarrow> u16 list \<Rightarrow> nat \<Rightarrow> u16 list \<Rightarrow> nat \<Rightarrow> int" where
  "strzcmp f s1 n1 s2 n2 = (case strzcmp_loop f (take n1 s1) (take n2 s2) of
       Inl d \<Rightarrow> d
     | Inr (r1, r2) \<Rightarrow> if n1 < n2 then 0 - uint (f (hd r2)) else if n1 > n2 then uint (hd r1) - 0 else 0)"

definition strzcmp16 :: "u16 list \<Rightarrow> nat \<Rightarrow> u16 list \<Rightarrow> nat \<Rightarrow> int" where
  "strzcmp16 = strzcmp (\<lambda>x. x)"

definition ntohs :: "u16 \<Rightarrow> u16" where
  "ntohs x = push_bit 8 x OR drop_bit 8 x"

definition strzcmp16_h_n :: "u16 list \<Rightarrow> nat \<Rightarrow> u16 list \<Rightarrow> nat \<Rightarrow> int" where
  "strzcmp16_h_n = strzcmp ntohs"

definition is_high :: "u16 \<Rightarrow> bool" where "is_high x \<longleftrightarrow> x AND 0xFC00 = 0xD800"
definition is_low :: "u16 \<Rightarrow> bool" where "is_low x \<longleftrightarrow> x AND 0xFC00 = 0xDC00"

definition of_pair :: "u16 \<Rightarrow> u16 \<Rightarrow> u32" where
  "of_pair h l = (push_bit 10 (ucast h - 0xD800) OR (ucast l - 0xDC00)) + 0x10000"

definition put_codepoint :: "u32 \<Rightarrow> u8 list" where
  "put_codepoint c = utf32_codepoint_to_utf8 c (utf32_codepoint_utf8_length c)"

fun utf16_to_utf8_loop :: "u16 list \<Rightarrow> u8 list" where
  "utf16_to_utf8_loop [] = []"
| "utf16_to_utf8_loop [x] = put_codepoint (ucast x)"
| "utf16_to_utf8_loop (x # y # s) =
     (if is_high x \<and> is_low y then put_codepoint (of_pair x y) @ utf16_to_utf8_loop s
      else put_codepoint (ucast x) @ utf16_to_utf8_loop (y # s))"

definition utf16_to_utf8 :: "u16 list option \<Rightarrow> nat \<Rightarrow> u8 list" where
  "utf16_to_utf8 src src_len = (case src of
       None \<Rightarrow> []
     | Some s \<Rightarrow> if src_len = 0 then [] else utf16_to_utf8_loop (take src_len s) @ [0])"

text \<open>In \<open>utf16_to_utf8_length\<close> the test of the second unit advances \<open>src\<close> (\<open>*++src\<close>) even when it
  fails: the first unit is then not counted, the second one is.\<close>

fun utf16_length_loop :: "u16 list \<Rightarrow> nat" where
  "utf16_length_loop [] = 0"
| "utf16_length_loop [x] = utf32_codepoint_utf8_length (ucast x)"
| "utf16_length_loop (x # y # s) =
     (if is_high x then
        (if is_low y then 4 + utf16_length_loop s
         else utf32_codepoint_utf8_length (ucast y) + utf16_length_loop s)
      else utf32_codepoint_utf8_length (ucast x) + utf16_length_loop (y # s))"

definition utf16_to_utf8_length :: "u16 list option \<Rightarrow> nat \<Rightarrow> int" where
  "utf16_to_utf8_length src src_len = (case src of
       None \<Rightarrow> -1
     | Some s \<Rightarrow> if src_len = 0 then -1 else int (utf16_length_loop (take src_len s)))"

section \<open>UTF-8\<close>

text \<open>The inner loop of \<open>utf8_length\<close>: \<open>Inl\<close> is the return of \<open>-1\<close>. It also ends after four bytes.\<close>

fun utf8_length_bytes :: "u8 list \<Rightarrow> u32 \<Rightarrow> u32 \<Rightarrow> u32 \<Rightarrow> u32 \<Rightarrow> nat
    \<Rightarrow> (unit + (u8 list \<times> u32 \<times> u32 \<times> u32 \<times> nat)) option" where
  "utf8_length_bytes cur first msk ignore utf32 n =
     (if \<not> (n < 5 \<and> first AND msk \<noteq> 0) then Some (Inr (cur, utf32, msk, ignore, n))
      else case cur of
        [] \<Rightarrow> None
      | b # cur1 \<Rightarrow>
          if b AND 0xC0 \<noteq> 0x80 then Some (Inl ())
          else utf8_length_bytes cur1 first (drop_bit 1 msk) (ignore OR msk) (push_bit 6 utf32 + (ucast b AND 0x3F)) (n + 1))"

declare utf8_length_bytes.simps [simp del]

lemma utf8_length_bytes_shorter:
  "utf8_length_bytes cur first msk ignore utf32 n = Some (Inr (cur1, r)) \<Longrightarrow> length cur1 \<le> length cur"
  by (induction cur first msk ignore utf32 n rule: utf8_length_bytes.induct)
    (subst (asm) (2) utf8_length_bytes.simps, force split: if_splits list.splits)

function utf8_length_loop :: "bool \<Rightarrow> u8 list \<Rightarrow> nat \<Rightarrow> int option" where
  "utf8_length_loop sc [] ret = None"
| "utf8_length_loop sc (first # cur) ret =
     (if first = 0 then Some (int ret)
      else if first AND 0x80 = 0 then utf8_length_loop sc cur (ret + 1)
      else if first AND 0x40 = 0 then Some (-1)
      else case utf8_length_bytes cur (ext sc first) 0x40 0x80 0 1 of
          None \<Rightarrow> None
        | Some (Inl _) \<Rightarrow> Some (-1)
        | Some (Inr (cur1, utf32, msk, ignore, n)) \<Rightarrow>
            if n = 5 then Some (-1)
            else if utf32 OR push_bit (6 * (n - 1)) (NOT (ignore OR msk) AND ext sc first) > kUnicodeMaxCodepoint then Some (-1)
            else utf8_length_loop sc cur1 (ret + n))"
  by pat_completeness auto
termination by (relation "measure (\<lambda>(_, cur, _). length cur)") (auto dest: utf8_length_bytes_shorter)

definition utf8_length :: "bool \<Rightarrow> u8 list \<Rightarrow> int option" where
  "utf8_length sc src = utf8_length_loop sc src 0"

definition utf8_codepoint_len :: "u8 \<Rightarrow> nat" where
  "utf8_codepoint_len ch = unat (drop_bit (unat (drop_bit 3 ch AND 0x1E)) (0xE5000000 :: u32) AND 3) + 1"

definition utf8_shift_and_mask :: "u32 \<Rightarrow> u8 \<Rightarrow> u32" where
  "utf8_shift_and_mask codePoint b = push_bit 6 codePoint OR ucast (0x3F AND b)"

text \<open>In \<open>utf8_to_utf32_length\<close> the skip is the number of leading ones; a mask that has become 0
  ends the loop.\<close>

fun leading_ones :: "u8 \<Rightarrow> u8 list \<Rightarrow> nat" where
  "leading_ones b [] = 0"
| "leading_ones b (msk # msks) = (if b AND msk \<noteq> 0 then Suc (leading_ones b msks) else 0)"

definition num_to_skip :: "u8 \<Rightarrow> nat" where
  "num_to_skip first = (if first AND 0x80 = 0 then 1 else 1 + leading_ones first [0x40, 0x20, 0x10, 8, 4, 2, 1])"

function utf32_count :: "u8 list \<Rightarrow> nat" where
  "utf32_count [] = 0"
| "utf32_count (b # s) = 1 + utf32_count (drop (num_to_skip b) (b # s))"
  by pat_completeness auto
termination by (relation "measure length") (auto simp: num_to_skip_def)

definition utf8_to_utf32_length :: "u8 list option \<Rightarrow> nat \<Rightarrow> nat" where
  "utf8_to_utf32_length src src_len = (case src of
       None \<Rightarrow> 0
     | Some s \<Rightarrow> if src_len = 0 then 0 else utf32_count (take src_len s))"

text \<open>The loops from here on have the number of bytes left before \<open>end\<close> and the memory from the
  current position on, which may go on behind \<open>end\<close>.\<close>

function utf8_to_utf32_loop :: "bool \<Rightarrow> nat \<Rightarrow> u8 list \<Rightarrow> u32 list option" where
  "utf8_to_utf32_loop sc left mem =
     (if left = 0 then Some []
      else case utf32_at_internal sc mem of
          None \<Rightarrow> None
        | Some (c, n) \<Rightarrow> map_option ((#) c) (utf8_to_utf32_loop sc (left - n) (drop n mem)))"
  by pat_completeness auto
termination by (relation "measure (\<lambda>(_, left, _). left)") (auto dest: utf32_at_internal_pos)

declare utf8_to_utf32_loop.simps [simp del]

definition utf8_to_utf32 :: "bool \<Rightarrow> u8 list option \<Rightarrow> nat \<Rightarrow> u32 list option" where
  "utf8_to_utf32 sc src src_len = (case src of
       None \<Rightarrow> Some []
     | Some s \<Rightarrow> if src_len = 0 then Some [] else map_option (\<lambda>cs. cs @ [0]) (utf8_to_utf32_loop sc src_len s))"

definition utf8_to_utf32_codepoint :: "u8 list \<Rightarrow> nat \<Rightarrow> u32 option" where
  "utf8_to_utf32_codepoint src n =
     (if length src < n then None
      else Some (if n = 1 then ucast (src ! 0)
        else if n = 2 then utf8_shift_and_mask (ucast (src ! 0 AND 0x1F)) (src ! 1)
        else if n = 3 then utf8_shift_and_mask (utf8_shift_and_mask (ucast (src ! 0 AND 0x0F)) (src ! 1)) (src ! 2)
        else if n = 4 then utf8_shift_and_mask (utf8_shift_and_mask (utf8_shift_and_mask (ucast (src ! 0 AND 0x07)) (src ! 1)) (src ! 2)) (src ! 3)
        else 0xFFFF))"

text \<open>One code point at the current position: its length and its value.\<close>

definition utf8_next :: "u8 list \<Rightarrow> (nat \<times> u32) option" where
  "utf8_next mem = (case mem of
       [] \<Rightarrow> None
     | b # _ \<Rightarrow> map_option (Pair (utf8_codepoint_len b)) (utf8_to_utf32_codepoint mem (utf8_codepoint_len b)))"

lemma utf8_codepoint_len_pos [simp]: "0 < utf8_codepoint_len b"
  by (simp add: utf8_codepoint_len_def)

lemma utf8_next_pos: "utf8_next mem = Some (n, c) \<Longrightarrow> 0 < n"
  by (auto simp: utf8_next_def split: list.splits)

function utf8_to_utf16_length_loop :: "nat \<Rightarrow> u8 list \<Rightarrow> nat \<Rightarrow> int option" where
  "utf8_to_utf16_length_loop left mem measured =
     (if left = 0 then Some (int measured)
      else case utf8_next mem of
          None \<Rightarrow> None
        | Some (n, c) \<Rightarrow>
            if n > left then Some (-1)
            else utf8_to_utf16_length_loop (left - n) (drop n mem) (measured + (if c > 0xFFFF then 2 else 1)))"
  by pat_completeness auto
termination by (relation "measure (\<lambda>(left, _, _). left)") (auto dest: utf8_next_pos)

declare utf8_to_utf16_length_loop.simps [simp del]

definition utf8_to_utf16_length :: "u8 list \<Rightarrow> nat \<Rightarrow> int option" where
  "utf8_to_utf16_length u8str u8len = utf8_to_utf16_length_loop u8len u8str 0"

definition utf16_units :: "u32 \<Rightarrow> u16 list" where
  "utf16_units c =
     (if c \<le> 0xFFFF then [ucast c]
      else let c1 = c - 0x10000 in [ucast (drop_bit 10 c1 + 0xD800), ucast ((c1 AND 0x3FF) + 0xDC00)])"

function utf8_to_utf16_loop :: "nat \<Rightarrow> u8 list \<Rightarrow> u16 list option" where
  "utf8_to_utf16_loop left mem =
     (if left = 0 then Some []
      else case utf8_next mem of
          None \<Rightarrow> None
        | Some (n, c) \<Rightarrow> map_option ((@) (utf16_units c)) (utf8_to_utf16_loop (left - n) (drop n mem)))"
  by pat_completeness auto
termination by (relation "measure (\<lambda>(left, _). left)") (auto dest: utf8_next_pos)

declare utf8_to_utf16_loop.simps [simp del]

definition utf8_to_utf16_no_null_terminator :: "u8 list \<Rightarrow> nat \<Rightarrow> u16 list option" where
  "utf8_to_utf16_no_null_terminator u8str u8len = utf8_to_utf16_loop u8len u8str"

definition utf8_to_utf16 :: "u8 list \<Rightarrow> nat \<Rightarrow> u16 list option" where
  "utf8_to_utf16 u8str u8len = map_option (\<lambda>u. u @ [0]) (utf8_to_utf16_no_null_terminator u8str u8len)"

text \<open>
  \<open>utf8_to_utf16_n\<close>: the units written and the number of units before the pointer returned, which
  differ when the first half of a pair was the last unit that fitted.
\<close>

function utf8_to_utf16_n_loop :: "nat \<Rightarrow> u8 list \<Rightarrow> nat \<Rightarrow> (u16 list \<times> nat) option" where
  "utf8_to_utf16_n_loop left mem room =
     (if left = 0 \<or> room = 0 then Some ([], 0)
      else case utf8_next mem of
          None \<Rightarrow> None
        | Some (n, c) \<Rightarrow>
            if c > 0xFFFF \<and> room = 1 then Some ([hd (utf16_units c)], 0)
            else map_option (\<lambda>(us, k). (utf16_units c @ us, length (utf16_units c) + k))
                   (utf8_to_utf16_n_loop (left - n) (drop n mem) (room - length (utf16_units c))))"
  by pat_completeness auto
termination by (relation "measure (\<lambda>(left, _, _). left)") (auto dest: utf8_next_pos)

declare utf8_to_utf16_n_loop.simps [simp del]

definition utf8_to_utf16_n :: "u8 list \<Rightarrow> nat \<Rightarrow> nat \<Rightarrow> (u16 list \<times> nat) option" where
  "utf8_to_utf16_n src srcLen dstLen = utf8_to_utf16_n_loop srcLen src dstLen"

end
