(* ===== verification/UnicodeProps.thy ===== *)
theory UnicodeProps
  imports Unicode
begin

text \<open>
  What the conversions of \<open>Unicode.cpp\<close> guarantee: UTF-8 is a faithful encoding of the code points,
  in UTF-32 and in UTF-16; the lengths the measuring functions return are those of what the
  converting functions write, and where this fails.
\<close>

section \<open>Words bit by bit\<close>

lemma u32_eqI:
  assumes "list_all (\<lambda>n. bit a n = bit b n) [0, 1, 2, 3, 4, 5, 6, 7, 8, 9, 10, 11, 12, 13, 14, 15, 16, 17, 18, 19, 20, 21,
    22, 23, 24, 25, 26, 27, 28, 29, 30, 31]"
  shows "a = (b :: u32)"
proof (rule bit_word_eqI)
  fix n assume "n < LENGTH(32)"
  then have "n \<in> set [0..<32]" by simp
  also have "[0..<32] = [0, 1, 2, 3, 4, 5, 6, 7, 8, 9, 10, 11, 12, 13, 14, 15, 16, 17, 18, 19, 20, 21,
    22, 23, 24, 25, 26, 27, 28, 29, 30, 31]" by (simp add: upt_rec)
  finally show "bit a n = bit b n" using assms unfolding list_all_iff by blast
qed

lemma high_bits_0:
  assumes "unat c < 2 ^ k" "k \<le> n"
  shows "\<not> bit (c :: u32) n"
proof -
  have "(2 :: nat) ^ k \<le> 2 ^ n" using assms(2) by simp
  then have "unat c div 2 ^ n = 0" using assms(1) by (intro div_less) linarith
  then have "\<not> bit (unat c) n" by (simp add: bit_iff_odd)
  then show ?thesis by (metis bit_unsigned_iff bit_imp_le_length impossible_bit not_less possible_bit_nat)
qed

lemma bits_of_less:
  "c < 0x80 \<Longrightarrow> \<forall>n \<in> {7, 8, 9, 10, 11, 12, 13, 14, 15, 16, 17, 18, 19, 20, 21, 22, 23, 24, 25, 26, 27, 28, 29, 30, 31}. \<not> bit (c :: u32) n"
  "c < 0x800 \<Longrightarrow> \<forall>n \<in> {11, 12, 13, 14, 15, 16, 17, 18, 19, 20, 21, 22, 23, 24, 25, 26, 27, 28, 29, 30, 31}. \<not> bit c n"
  "c < 0x10000 \<Longrightarrow> \<forall>n \<in> {16, 17, 18, 19, 20, 21, 22, 23, 24, 25, 26, 27, 28, 29, 30, 31}. \<not> bit c n"
  "c < 0x200000 \<Longrightarrow> \<forall>n \<in> {21, 22, 23, 24, 25, 26, 27, 28, 29, 30, 31}. \<not> bit c n"
  using high_bits_0[of c 7] high_bits_0[of c 11] high_bits_0[of c 16] high_bits_0[of c 21] by (auto simp: word_less_nat_alt)

lemma shift_add_low: "push_bit 6 a + (b AND 0x3F) = push_bit 6 a OR (b AND (0x3F :: u32))"
  by (rule disjunctive_add_eq_or) (rule u32_eqI, simp add: bit_simps)

lemma and_bit_tests:
  "a AND (0x80 :: 'a::len word) = 0 \<longleftrightarrow> \<not> bit a 7" "a AND (0x40 :: 'a::len word) = 0 \<longleftrightarrow> \<not> bit a 6"
  "a AND (0x20 :: 'a::len word) = 0 \<longleftrightarrow> \<not> bit a 5" "a AND (0x10 :: 'a::len word) = 0 \<longleftrightarrow> \<not> bit a 4"
  "a AND (8 :: 'a::len word) = 0 \<longleftrightarrow> \<not> bit a 3"
  using and_exp_eq_0_iff_not_bit[of a 7] and_exp_eq_0_iff_not_bit[of a 6] and_exp_eq_0_iff_not_bit[of a 5]
    and_exp_eq_0_iff_not_bit[of a 4] and_exp_eq_0_iff_not_bit[of a 3] by simp_all

section \<open>One code point\<close>

abbreviation scalar :: "u32 \<Rightarrow> bool" where
  "scalar c \<equiv> utf32_codepoint_utf8_length c \<noteq> 0"

lemma size_cases:
  "c < 0x80 \<Longrightarrow> utf32_codepoint_utf8_length c = 1"
  "\<not> c < 0x80 \<Longrightarrow> c < 0x800 \<Longrightarrow> utf32_codepoint_utf8_length c = 2"
  "\<not> c < 0x800 \<Longrightarrow> c < 0x10000 \<Longrightarrow> scalar c \<Longrightarrow> utf32_codepoint_utf8_length c = 3"
  "\<not> c < 0x10000 \<Longrightarrow> scalar c \<Longrightarrow> utf32_codepoint_utf8_length c = 4"
  by (simp_all add: utf32_codepoint_utf8_length_def word_less_nat_alt split: if_splits)

lemma codepoint_bytes_cases:
  "codepoint_bytes n 1 c out = ucast (c OR kFirstByteMark ! n) # out"
  "codepoint_bytes n 2 c out = codepoint_bytes n 1 (drop_bit 6 c) (ucast ((c OR kByteMark) AND kByteMask) # out)"
  "codepoint_bytes n 3 c out = codepoint_bytes n 2 (drop_bit 6 c) (ucast ((c OR kByteMark) AND kByteMask) # out)"
  "codepoint_bytes n 4 c out = codepoint_bytes n 3 (drop_bit 6 c) (ucast ((c OR kByteMark) AND kByteMask) # out)"
  by (simp_all add: eval_nat_numeral)

text \<open>The bytes of the four sizes.\<close>

lemma put_codepoint_cases:
  "c < 0x80 \<Longrightarrow> put_codepoint c = [ucast c]"
  "\<not> c < 0x80 \<Longrightarrow> c < 0x800 \<Longrightarrow> put_codepoint c = [ucast (drop_bit 6 c OR 0xC0), ucast ((c OR 0x80) AND 0xBF)]"
  "\<not> c < 0x800 \<Longrightarrow> c < 0x10000 \<Longrightarrow> scalar c \<Longrightarrow> put_codepoint c =
     [ucast (drop_bit 12 c OR 0xE0), ucast ((drop_bit 6 c OR 0x80) AND 0xBF), ucast ((c OR 0x80) AND 0xBF)]"
  "\<not> c < 0x10000 \<Longrightarrow> scalar c \<Longrightarrow> put_codepoint c =
     [ucast (drop_bit 18 c OR 0xF0), ucast ((drop_bit 12 c OR 0x80) AND 0xBF), ucast ((drop_bit 6 c OR 0x80) AND 0xBF),
      ucast ((c OR 0x80) AND 0xBF)]"
  by (simp_all add: put_codepoint_def utf32_codepoint_to_utf8_def size_cases codepoint_bytes_cases kByteMask_def kByteMark_def
      kFirstByteMark_def)

lemma scalar_cases [consumes 1, case_names one two three four]:
  assumes "scalar c"
  obtains "c < 0x80" | "\<not> c < 0x80" "c < 0x800" | "\<not> c < 0x800" "c < 0x10000" | "\<not> c < 0x10000" "c < 0x200000"
proof -
  have "c < 0x200000" using assms
    by (auto simp: utf32_codepoint_utf8_length_def unicode_consts word_less_nat_alt word_le_nat_alt split: if_splits)
  then show thesis using that by blast
qed


lemma at_loop_stop: "first AND msk = 0 \<Longrightarrow> at_loop cur first msk ignore utf32 n = Some (utf32, msk, ignore, n)"
  by (cases cur) simp_all

lemma at_loop_step: "first AND msk \<noteq> 0 \<Longrightarrow> at_loop (b # cur) first msk ignore utf32 n =
     at_loop cur first (drop_bit 1 msk) (ignore OR msk) (push_bit 6 utf32 OR (ucast b AND 0x3F)) (n + 1)"
  by (simp add: shift_add_low)

lemma bit_ext [simp]: "n < 8 \<Longrightarrow> bit (ext sc b) n = bit b n"
  by (cases "n = 7") (auto simp: ext_def bit_simps)

lemma at_internal_put:
  assumes "scalar c"
  shows "utf32_at_internal sc (put_codepoint c @ rest) = Some (c, utf32_codepoint_utf8_length c)"
  using assms
proof (cases rule: scalar_cases)
  case one
  note b = bits_of_less(1)[OF one]
  have "(ucast c :: u8) AND 0x80 = 0" using b by (simp add: and_bit_tests bit_simps)
  moreover have "ext sc (ucast c) = c" using b by (intro u32_eqI) (simp add: ext_def bit_simps)
  ultimately show ?thesis using one by (simp add: put_codepoint_cases utf32_at_internal_def size_cases)
next
  case two
  note b = bits_of_less(2)[OF two(2)]
  let ?f = "ucast (drop_bit 6 c OR 0xC0) :: u8" and ?s = "ucast ((c OR 0x80) AND 0xBF) :: u8"
  have f: "bit ?f 7" "bit ?f 6" "\<not> bit ?f 5" using b by (simp_all add: bit_simps)
  have "(push_bit 6 (ext sc ?f) OR (ucast ?s AND 0x3F)) AND NOT (push_bit 6 (0xFFFFFF80 OR 0x40 OR 0x20)) = c"
    using b by (intro u32_eqI) (simp add: bit_simps)
  then show ?thesis using two f
    by (simp add: put_codepoint_cases utf32_at_internal_def size_cases and_bit_tests at_loop_step at_loop_stop del: at_loop.simps)
next
  case three
  note b = bits_of_less(3)[OF three(2)]
  let ?f = "ucast (drop_bit 12 c OR 0xE0) :: u8" and ?s = "ucast ((drop_bit 6 c OR 0x80) AND 0xBF) :: u8"
    and ?t = "ucast ((c OR 0x80) AND 0xBF) :: u8"
  have f: "bit ?f 7" "bit ?f 6" "bit ?f 5" "\<not> bit ?f 4" using b by (simp_all add: bit_simps)
  have "(push_bit 6 (push_bit 6 (ext sc ?f) OR (ucast ?s AND 0x3F)) OR (ucast ?t AND 0x3F))
      AND NOT (push_bit 12 (0xFFFFFF80 OR 0x40 OR 0x20 OR 0x10)) = c"
    using b by (intro u32_eqI) (simp add: bit_simps)
  then show ?thesis using three f assms
    by (simp add: put_codepoint_cases utf32_at_internal_def size_cases and_bit_tests at_loop_step at_loop_stop del: at_loop.simps)
next
  case four
  note b = bits_of_less(4)[OF four(2)]
  let ?f = "ucast (drop_bit 18 c OR 0xF0) :: u8" and ?r = "ucast ((drop_bit 12 c OR 0x80) AND 0xBF) :: u8"
    and ?s = "ucast ((drop_bit 6 c OR 0x80) AND 0xBF) :: u8" and ?t = "ucast ((c OR 0x80) AND 0xBF) :: u8"
  have f: "bit ?f 7" "bit ?f 6" "bit ?f 5" "bit ?f 4" "\<not> bit ?f 3" using b by (simp_all add: bit_simps)
  have "(push_bit 6 (push_bit 6 (push_bit 6 (ext sc ?f) OR (ucast ?r AND 0x3F)) OR (ucast ?s AND 0x3F)) OR (ucast ?t AND 0x3F))
      AND NOT (push_bit 18 (0xFFFFFF80 OR 0x40 OR 0x20 OR 0x10 OR 8)) = c"
    using b by (intro u32_eqI) (simp add: bit_simps)
  then show ?thesis using four f assms
    by (simp add: put_codepoint_cases utf32_at_internal_def size_cases and_bit_tests at_loop_step at_loop_stop del: at_loop.simps)
qed

lemma u8_all: "list_all P (map word_of_nat [0..<256]) \<Longrightarrow> P (b :: u8)"
proof -
  assume a: "list_all P (map word_of_nat [0..<256])"
  have "unat b < 256" using unsigned_less[of b, where ?'a=nat] by simp
  then have "b \<in> set (map word_of_nat [0..<256])" by (auto intro!: image_eqI[of _ _ "unat b"])
  then show ?thesis using a unfolding list_all_iff by blast
qed

text \<open>\<open>utf8_codepoint_len\<close> counts the leading ones of a first byte, up to four; a byte that continues
  a sequence counts as one of its own.\<close>

lemma utf8_codepoint_len_bits: "utf8_codepoint_len b = (if \<not> bit b 7 \<or> \<not> bit b 6 then 1 else if \<not> bit b 5 then 2 else if \<not> bit b 4 then 3 else 4)"
  by (rule u8_all) code_simp

lemma utf8_next_put:
  assumes "scalar c"
  shows "utf8_next (put_codepoint c @ rest) = Some (utf32_codepoint_utf8_length c, c)"
  using assms
proof (cases rule: scalar_cases)
  case one
  note b = bits_of_less(1)[OF one]
  have "\<not> bit (ucast c :: u8) 7" using b by (simp add: bit_simps)
  moreover have "ucast (ucast c :: u8) = c" using b by (intro u32_eqI) (simp add: bit_simps)
  ultimately show ?thesis using one
    by (simp add: put_codepoint_cases utf8_next_def size_cases utf8_codepoint_len_bits utf8_to_utf32_codepoint_def)
next
  case two
  note b = bits_of_less(2)[OF two(2)]
  let ?f = "ucast (drop_bit 6 c OR 0xC0) :: u8" and ?s = "ucast ((c OR 0x80) AND 0xBF) :: u8"
  have f: "bit ?f 7" "bit ?f 6" "\<not> bit ?f 5" using b by (simp_all add: bit_simps)
  have "utf8_shift_and_mask (ucast (?f AND 0x1F)) ?s = c"
    unfolding utf8_shift_and_mask_def using b by (intro u32_eqI) (simp add: bit_simps)
  then show ?thesis using two f
    by (simp add: put_codepoint_cases utf8_next_def size_cases utf8_codepoint_len_bits utf8_to_utf32_codepoint_def)
next
  case three
  note b = bits_of_less(3)[OF three(2)]
  let ?f = "ucast (drop_bit 12 c OR 0xE0) :: u8" and ?s = "ucast ((drop_bit 6 c OR 0x80) AND 0xBF) :: u8"
    and ?t = "ucast ((c OR 0x80) AND 0xBF) :: u8"
  have f: "bit ?f 7" "bit ?f 6" "bit ?f 5" "\<not> bit ?f 4" using b by (simp_all add: bit_simps)
  have "utf8_shift_and_mask (utf8_shift_and_mask (ucast (?f AND 0x0F)) ?s) ?t = c"
    unfolding utf8_shift_and_mask_def using b by (intro u32_eqI) (simp add: bit_simps)
  then show ?thesis using three f assms
    by (simp add: put_codepoint_cases utf8_next_def size_cases utf8_codepoint_len_bits utf8_to_utf32_codepoint_def)
next
  case four
  note b = bits_of_less(4)[OF four(2)]
  let ?f = "ucast (drop_bit 18 c OR 0xF0) :: u8" and ?r = "ucast ((drop_bit 12 c OR 0x80) AND 0xBF) :: u8"
    and ?s = "ucast ((drop_bit 6 c OR 0x80) AND 0xBF) :: u8" and ?t = "ucast ((c OR 0x80) AND 0xBF) :: u8"
  have f: "bit ?f 7" "bit ?f 6" "bit ?f 5" "bit ?f 4" using b by (simp_all add: bit_simps)
  have "utf8_shift_and_mask (utf8_shift_and_mask (utf8_shift_and_mask (ucast (?f AND 0x07)) ?r) ?s) ?t = c"
    unfolding utf8_shift_and_mask_def using b by (intro u32_eqI) (simp add: bit_simps)
  then show ?thesis using four f assms
    by (simp add: put_codepoint_cases utf8_next_def size_cases utf8_codepoint_len_bits utf8_to_utf32_codepoint_def numeral_2_eq_2 numeral_3_eq_3)
qed

text \<open>The same for \<open>utf8_length\<close>, when \<open>char\<close> is unsigned, and the skip of \<open>utf8_to_utf32_length\<close>.\<close>

lemma length_put_codepoint: "length (put_codepoint c) = utf32_codepoint_utf8_length c"
proof -
  have "length (codepoint_bytes n k d out) = k + length out" for n k d out
    by (induction n k d out rule: codepoint_bytes.induct) auto
  then show ?thesis by (simp add: put_codepoint_def utf32_codepoint_to_utf8_def)
qed

lemma put_codepoint_ne: "scalar c \<Longrightarrow> put_codepoint c \<noteq> []"
  using length_put_codepoint[of c] by auto

text \<open>The first byte's bits, for each size.\<close>

lemma first_byte:
  assumes "scalar c"
  obtains b bs where "put_codepoint c = b # bs" "b = 0 \<longleftrightarrow> c = 0"
    "bit b 7 \<longleftrightarrow> 2 \<le> utf32_codepoint_utf8_length c" "2 \<le> utf32_codepoint_utf8_length c \<longrightarrow> bit b 6"
    "2 \<le> utf32_codepoint_utf8_length c \<longrightarrow> (bit b 5 \<longleftrightarrow> 3 \<le> utf32_codepoint_utf8_length c)"
    "3 \<le> utf32_codepoint_utf8_length c \<longrightarrow> (bit b 4 \<longleftrightarrow> 4 \<le> utf32_codepoint_utf8_length c)"
    "4 \<le> utf32_codepoint_utf8_length c \<longrightarrow> \<not> bit b 3"
  using assms
proof (cases rule: scalar_cases)
  case one
  note b = bits_of_less(1)[OF one]
  have "ucast (ucast c :: u8) = c" using b by (intro u32_eqI) (simp add: bit_simps)
  then have "(ucast c :: u8) = 0 \<longleftrightarrow> c = 0" by (metis unsigned_0)
  moreover have "\<not> bit (ucast c :: u8) 7" using b by (simp add: bit_simps)
  ultimately show thesis using that[of "ucast c" "[]"] one by (simp add: put_codepoint_cases size_cases)
next
  case two
  note b = bits_of_less(2)[OF two(2)]
  let ?f = "ucast (drop_bit 6 c OR 0xC0) :: u8"
  have f: "bit ?f 7" "bit ?f 6" "\<not> bit ?f 5" using b by (simp_all add: bit_simps)
  then have "?f \<noteq> 0" "c \<noteq> 0" using two(1) by (metis bit_0_eq bot_apply bot_bool_def, auto)
  then show thesis using that[of ?f] f two by (simp add: put_codepoint_cases size_cases)
next
  case three
  note b = bits_of_less(3)[OF three(2)]
  let ?f = "ucast (drop_bit 12 c OR 0xE0) :: u8"
  have f: "bit ?f 7" "bit ?f 6" "bit ?f 5" "\<not> bit ?f 4" using b by (simp_all add: bit_simps)
  then have "?f \<noteq> 0" "c \<noteq> 0" using three(1) by (metis bit_0_eq bot_apply bot_bool_def, auto)
  then show thesis using that[of ?f] f three assms by (simp add: put_codepoint_cases size_cases)
next
  case four
  note b = bits_of_less(4)[OF four(2)]
  let ?f = "ucast (drop_bit 18 c OR 0xF0) :: u8"
  have f: "bit ?f 7" "bit ?f 6" "bit ?f 5" "bit ?f 4" "\<not> bit ?f 3" using b by (simp_all add: bit_simps)
  then have "?f \<noteq> 0" "c \<noteq> 0" using four(1) by (metis bit_0_eq bot_apply bot_bool_def, auto)
  then show thesis using that[of ?f] f four assms by (simp add: put_codepoint_cases size_cases)
qed

lemma size_le_4: "utf32_codepoint_utf8_length c \<le> 4"
  by (simp add: utf32_codepoint_utf8_length_def)

lemma num_to_skip_put:
  assumes "scalar c"
  shows "\<exists>b bs. put_codepoint c = b # bs \<and> num_to_skip b = utf32_codepoint_utf8_length c"
proof -
  obtain b bs where b: "put_codepoint c = b # bs" "b = 0 \<longleftrightarrow> c = 0"
    "bit b 7 \<longleftrightarrow> 2 \<le> utf32_codepoint_utf8_length c" "2 \<le> utf32_codepoint_utf8_length c \<longrightarrow> bit b 6"
    "2 \<le> utf32_codepoint_utf8_length c \<longrightarrow> (bit b 5 \<longleftrightarrow> 3 \<le> utf32_codepoint_utf8_length c)"
    "3 \<le> utf32_codepoint_utf8_length c \<longrightarrow> (bit b 4 \<longleftrightarrow> 4 \<le> utf32_codepoint_utf8_length c)"
    "4 \<le> utf32_codepoint_utf8_length c \<longrightarrow> \<not> bit b 3"
    by (rule first_byte[OF assms])
  consider "utf32_codepoint_utf8_length c = 1" | "utf32_codepoint_utf8_length c = 2" | "utf32_codepoint_utf8_length c = 3"
    | "utf32_codepoint_utf8_length c = 4" using size_le_4[of c] assms by linarith
  then have "num_to_skip b = utf32_codepoint_utf8_length c"
    using b by cases (simp_all add: num_to_skip_def and_bit_tests)
  then show ?thesis using b(1) by blast
qed

section \<open>UTF-8 and UTF-32\<close>

definition utf8_of :: "u32 list \<Rightarrow> u8 list" where
  "utf8_of cs = concat (map put_codepoint cs)"

lemma utf8_of_simps [simp]: "utf8_of [] = []" "utf8_of (c # cs) = put_codepoint c @ utf8_of cs"
  by (simp_all add: utf8_of_def)

lemma utf32_to_utf8_loop_of: "utf32_to_utf8_loop cs = utf8_of cs"
  by (induction cs) (simp_all add: put_codepoint_def)

lemma length_utf8_of: "length (utf8_of cs) = sum_list (map utf32_codepoint_utf8_length cs)"
  by (induction cs) (simp_all add: length_put_codepoint)

lemma utf8_to_utf32_loop_of: "list_all scalar cs \<Longrightarrow> utf8_to_utf32_loop sc (length (utf8_of cs)) (utf8_of cs @ rest) = Some cs"
proof (induction cs)
  case Nil
  then show ?case by (simp add: utf8_to_utf32_loop.simps)
next
  case (Cons c cs)
  have "scalar c" using Cons.prems by simp
  then show ?case using Cons at_internal_put[of c sc "utf8_of cs @ rest"]
    by (subst utf8_to_utf32_loop.simps) (simp add: length_put_codepoint)
qed

lemma utf32_count_of: "list_all scalar cs \<Longrightarrow> utf32_count (utf8_of cs) = length cs"
proof (induction cs)
  case (Cons c cs)
  have "scalar c" using Cons.prems by simp
  then obtain b bs where b: "put_codepoint c = b # bs" "num_to_skip b = utf32_codepoint_utf8_length c"
    using num_to_skip_put by blast
  then have "drop (num_to_skip b) (b # bs @ utf8_of cs) = utf8_of cs"
    using length_put_codepoint[of c] by (metis append_Cons append_eq_conv_conj)
  then show ?case using Cons b by simp
qed simp

text \<open>UTF-8 is a faithful encoding of code points: what \<open>utf32_to_utf8\<close> writes for code points
  below 0x110000 that are no surrogates has exactly the length \<open>utf32_to_utf8_length\<close> measured,
  and \<open>utf8_to_utf32\<close> gives back the same code points, as many as \<open>utf8_to_utf32_length\<close> measures,
  whether \<open>char\<close> is signed or not and whatever follows the string in memory.\<close>

theorem utf8_utf32_roundtrip:
  assumes "cs \<noteq> []" "list_all scalar cs" "utf32_to_utf8 (Some cs) (length cs) = bytes @ [0]"
  shows "utf32_to_utf8_length (Some cs) (length cs) = int (length bytes)
    \<and> utf8_to_utf32_length (Some bytes) (length bytes) = length cs
    \<and> utf8_to_utf32 sc (Some (bytes @ rest)) (length bytes) = Some (cs @ [0])"
proof -
  have bytes: "bytes = utf8_of cs" using assms(1,3) by (simp add: utf32_to_utf8_def utf32_to_utf8_loop_of)
  moreover have "utf8_of cs \<noteq> []"
    using assms(1,2) put_codepoint_ne by (cases cs) auto
  ultimately show ?thesis using assms(1) utf8_to_utf32_loop_of[OF assms(2)] utf32_count_of[OF assms(2)]
    by (simp add: utf32_to_utf8_length_def utf8_to_utf32_length_def utf8_to_utf32_def flip: length_utf8_of)
qed

section \<open>UTF-8 and UTF-16\<close>

text \<open>The UTF-16 of a list of code points; a pair is read back.\<close>

definition utf16_of :: "u32 list \<Rightarrow> u16 list" where
  "utf16_of cs = concat (map utf16_units cs)"

lemma utf16_of_simps [simp]: "utf16_of [] = []" "utf16_of (c # cs) = utf16_units c @ utf16_of cs"
  by (simp_all add: utf16_of_def)

lemma u16_eqI:
  assumes "list_all (\<lambda>n. bit a n = bit b n) [0, 1, 2, 3, 4, 5, 6, 7, 8, 9, 10, 11, 12, 13, 14, 15]"
  shows "a = (b :: u16)"
proof (rule bit_word_eqI)
  fix n assume "n < LENGTH(16)"
  then have "n \<in> set [0..<16]" by simp
  also have "[0..<16] = [0, 1, 2, 3, 4, 5, 6, 7, 8, 9, 10, 11, 12, 13, 14, 15]" by (simp add: upt_rec)
  finally show "bit a n = bit b n" using assms unfolding list_all_iff by blast
qed

lemma unat_block: "unat (x AND 0xFC00 :: u16) = unat x div 1024 * 1024"
proof -
  have "x AND 0xFC00 = push_bit 10 (drop_bit 10 x)" by (rule u16_eqI) (simp add: bit_simps)
  then have "unat (x AND 0xFC00) = (unat x div 1024 * 1024) mod 65536"
    by (simp add: push_bit_eq_mult drop_bit_eq_div unat_word_ariths(2) unat_div)
  moreover have "unat x < 65536" using unsigned_less[of x, where ?'a = nat] by simp
  ultimately show ?thesis by (simp add: mod_less)
qed

lemma surrogate_ranges: "is_high x \<longleftrightarrow> 0xD800 \<le> unat x \<and> unat x < 0xDC00" "is_low x \<longleftrightarrow> 0xDC00 \<le> unat x \<and> unat x < 0xE000"
  by (auto simp: is_high_def is_low_def word_unat_eq_iff unat_block)

lemma u16_in_u32:
  assumes "unat (x :: u32) < 65536"
  shows "unat (ucast x :: u16) = unat x" "ucast (ucast x :: u16) = x"
  using assms by (simp_all add: word_unat_eq_iff unsigned_ucast_eq take_bit_eq_mod unat_mod)

lemma units_small:
  assumes "scalar c" "c \<le> 0xFFFF"
  shows "utf16_units c = [ucast c]" "ucast (ucast c :: u16) = c" "\<not> is_high (ucast c)" "\<not> is_low (ucast c)"
proof -
  have c: "unat c < 65536" "unat c < 0xD800 \<or> 0xDFFF < unat c"
    using assms by (auto simp: utf32_codepoint_utf8_length_def unicode_consts word_less_nat_alt word_le_nat_alt split: if_splits)
  then have u: "unat (ucast c :: u16) = unat c" by (simp add: u16_in_u32)
  then show "\<not> is_high (ucast c)" "\<not> is_low (ucast c)" using c(2) by (auto simp: surrogate_ranges)
  show "utf16_units c = [ucast c]" using assms(2) by (simp add: utf16_units_def)
  show "ucast (ucast c :: u16) = c" using c(1) by (simp add: u16_in_u32)
qed

lemma units_large:
  assumes "scalar c" "\<not> c \<le> 0xFFFF"
  obtains h l where "utf16_units c = [h, l]" "is_high h" "is_low l" "\<not> is_high l" "of_pair h l = c"
proof -
  let ?v = "c - 0x10000"
  have c: "unat c < 0x110000" "0x10000 \<le> unat c"
    using assms by (auto simp: utf32_codepoint_utf8_length_def unicode_consts word_less_nat_alt word_le_nat_alt split: if_splits)
  then have v: "unat ?v < 0x100000" by (simp add: unat_sub word_le_nat_alt)
  let ?h = "ucast (drop_bit 10 ?v + 0xD800) :: u16" and ?l = "ucast ((?v AND 0x3FF) + 0xDC00) :: u16"
  have d: "unat (drop_bit 10 ?v) = unat ?v div 1024" by (simp add: drop_bit_eq_div unat_div)
  have "?v AND 0x3FF = take_bit 10 ?v" by (simp add: take_bit_eq_mask mask_numeral)
  then have m: "unat (?v AND 0x3FF) = unat ?v mod 1024" by (simp add: unsigned_take_bit_eq take_bit_eq_mod unat_mod)
  have vb: "unat ?v div 1024 < 1024" using v by linarith
  have hsum: "unat (drop_bit 10 ?v + 0xD800) = unat ?v div 1024 + 0xD800"
    using vb by (simp add: unat_word_ariths(1) d)
  have lsum: "unat ((?v AND 0x3FF) + 0xDC00) = unat ?v mod 1024 + 0xDC00"
    using mod_less_divisor[of 1024 "unat ?v"] by (simp add: unat_word_ariths(1) m del: mod_less_divisor)
  have h: "unat ?h = unat ?v div 1024 + 0xD800" using vb by (simp add: u16_in_u32 hsum)
  have l: "unat ?l = unat ?v mod 1024 + 0xDC00"
    using mod_less_divisor[of 1024 "unat ?v"] by (simp add: u16_in_u32 lsum del: mod_less_divisor)
  have "ucast ?h - (0xD800 :: u32) = drop_bit 10 ?v" "ucast ?l - (0xDC00 :: u32) = ?v AND 0x3FF"
    using vb mod_less_divisor[of 1024 "unat ?v"] by (simp_all add: u16_in_u32 hsum lsum del: mod_less_divisor)
  moreover have "push_bit 10 (drop_bit 10 w) OR (w AND 0x3FF) = w" for w :: u32
    by (rule u32_eqI) (simp add: bit_simps)
  ultimately have "of_pair ?h ?l = c" by (simp only: of_pair_def) simp
  moreover have "is_high ?h" "is_low ?l" "\<not> is_high ?l"
    using vb mod_less_divisor[of 1024 "unat ?v"] by (simp_all add: surrogate_ranges h l)
  ultimately show thesis using that assms(2) by (simp add: utf16_units_def Let_def)
qed

text \<open>UTF-16 to UTF-8: the bytes written and the length measured.\<close>

lemma utf16_to_utf8_loop_of: "list_all scalar cs \<Longrightarrow> utf16_to_utf8_loop (utf16_of cs) = utf8_of cs"
proof (induction cs)
  case (Cons c cs)
  have sc: "scalar c" using Cons.prems by simp
  show ?case
  proof (cases "c \<le> 0xFFFF")
    case True
    note u = units_small[OF sc True]
    have "utf16_to_utf8_loop (ucast c # us) = put_codepoint c @ utf16_to_utf8_loop us" for us
      using u by (cases us) auto
    then show ?thesis using Cons u(1) by simp
  next
    case False
    then obtain h l where "utf16_units c = [h, l]" "is_high h" "is_low l" "of_pair h l = c"
      using units_large[OF sc] by metis
    then show ?thesis using Cons by simp
  qed
qed simp

lemma size_4: "scalar c \<Longrightarrow> \<not> c \<le> 0xFFFF \<Longrightarrow> utf32_codepoint_utf8_length c = 4"
  by (rule size_cases(4)) (auto simp: word_less_nat_alt word_le_nat_alt)

lemma utf16_length_loop_of: "list_all scalar cs \<Longrightarrow> utf16_length_loop (utf16_of cs) = length (utf8_of cs)"
proof (induction cs)
  case (Cons c cs)
  have sc: "scalar c" using Cons.prems by simp
  show ?case
  proof (cases "c \<le> 0xFFFF")
    case True
    note u = units_small[OF sc True]
    have "utf16_length_loop (ucast c # us) = utf32_codepoint_utf8_length c + utf16_length_loop us" for us
      using u by (cases us) auto
    then show ?thesis using Cons u(1) by (simp add: length_put_codepoint)
  next
    case False
    then obtain h l where "utf16_units c = [h, l]" "is_high h" "is_low l"
      using units_large[OF sc] by metis
    then show ?thesis using Cons size_4[OF sc False] by (simp add: length_put_codepoint)
  qed
qed simp

text \<open>UTF-8 to UTF-16.\<close>

lemma utf8_to_utf16_loop_of: "list_all scalar cs \<Longrightarrow> utf8_to_utf16_loop (length (utf8_of cs)) (utf8_of cs @ rest) = Some (utf16_of cs)"
proof (induction cs)
  case Nil
  then show ?case by (simp add: utf8_to_utf16_loop.simps)
next
  case (Cons c cs)
  have "scalar c" using Cons.prems by simp
  then show ?case using Cons utf8_next_put[of c "utf8_of cs @ rest"]
    by (subst utf8_to_utf16_loop.simps) (simp add: length_put_codepoint)
qed

text \<open>What \<open>utf8_to_utf16_length\<close> measures is what the conversion writes, for any bytes.\<close>

lemma length_utf16_units: "length (utf16_units c) = (if c > 0xFFFF then 2 else 1)"
  by (auto simp: utf16_units_def Let_def not_less)

lemma utf16_measure:
  "utf8_to_utf16_length_loop left mem k = Some n \<Longrightarrow> 0 \<le> n
   \<Longrightarrow> \<exists>us. utf8_to_utf16_loop left mem = Some us \<and> n = int (k + length us)"
proof (induction left mem k rule: utf8_to_utf16_length_loop.induct)
  case (1 left mem k)
  show ?case
  proof (cases "left = 0")
    case True
    then show ?thesis using "1.prems" by (simp add: utf8_to_utf16_length_loop.simps utf8_to_utf16_loop.simps)
  next
    case False
    then obtain m c where m: "utf8_next mem = Some (m, c)" "\<not> m > left"
      "utf8_to_utf16_length_loop (left - m) (drop m mem) (k + (if c > 0xFFFF then 2 else 1)) = Some n"
      using "1.prems" by (subst (asm) utf8_to_utf16_length_loop.simps) (auto split: option.splits if_splits)
    obtain us where "utf8_to_utf16_loop (left - m) (drop m mem) = Some us" "n = int (k + (if c > 0xFFFF then 2 else 1) + length us)"
      using "1.IH"[OF False m(1) refl m(2) m(3)] "1.prems"(2) by blast
    then show ?thesis using m(1) False
      by (subst utf8_to_utf16_loop.simps) (simp add: length_utf16_units)
  qed
qed

lemma utf16_measure_of: "list_all scalar cs
  \<Longrightarrow> utf8_to_utf16_length_loop (length (utf8_of cs)) (utf8_of cs @ rest) k = Some (int (k + length (utf16_of cs)))"
proof (induction cs arbitrary: k)
  case Nil
  then show ?case by (simp add: utf8_to_utf16_length_loop.simps)
next
  case (Cons c cs)
  have "scalar c" using Cons.prems by simp
  then show ?case using Cons utf8_next_put[of c "utf8_of cs @ rest"]
    by (subst utf8_to_utf16_length_loop.simps) (simp add: length_put_codepoint length_utf16_units)
qed

text \<open>C39: UTF-8 and UTF-16 encode the same code points: \<open>utf16_to_utf8\<close> of the UTF-16 of any code
  points below 0x110000 that are no surrogates has the length \<open>utf16_to_utf8_length\<close> measured, and
  \<open>utf8_to_utf16\<close> gives back the same units, as many as \<open>utf8_to_utf16_length\<close> measures.\<close>

theorem utf8_utf16_roundtrip:
  assumes "cs \<noteq> []" "list_all scalar cs" "utf16_to_utf8 (Some (utf16_of cs)) (length (utf16_of cs)) = bytes @ [0]"
  shows "utf16_to_utf8_length (Some (utf16_of cs)) (length (utf16_of cs)) = int (length bytes)
    \<and> utf8_to_utf16_length bytes (length bytes) = Some (int (length (utf16_of cs)))
    \<and> utf8_to_utf16 (bytes @ rest) (length bytes) = Some (utf16_of cs @ [0])"
proof -
  have ne: "utf16_of cs \<noteq> []" using assms(1) by (cases cs) (auto simp: utf16_units_def Let_def)
  then have bytes: "bytes = utf8_of cs" using assms(2,3) by (simp add: utf16_to_utf8_def utf16_to_utf8_loop_of)
  then show ?thesis
    using ne utf16_measure_of[OF assms(2), of "[]" 0] utf8_to_utf16_loop_of[OF assms(2)] utf16_length_loop_of[OF assms(2)]
    by (simp add: utf16_to_utf8_length_def utf8_to_utf16_length_def utf8_to_utf16_def utf8_to_utf16_no_null_terminator_def)
qed

text \<open>A buffer of the size \<open>utf8_to_utf16_length\<close> measures is filled exactly by
  \<open>utf8_to_utf16_no_null_terminator\<close>, for any bytes, valid or not: when the length is not -1 the
  conversion reads no byte the measuring did not read and writes exactly so many units.\<close>

theorem utf8_to_utf16_length_exact:
  assumes "utf8_to_utf16_length mem u8len = Some n" "0 \<le> n"
  shows "\<exists>us. utf8_to_utf16_no_null_terminator mem u8len = Some us \<and> int (length us) = n"
  using utf16_measure[of u8len mem 0 n] assms
  by (auto simp: utf8_to_utf16_length_def utf8_to_utf16_no_null_terminator_def)

section \<open>Where the lengths are wrong\<close>

text \<open>The length of UTF-16 is never more than what is written, and exactly that unless a high
  surrogate is followed by another.\<close>

fun double_high :: "u16 list \<Rightarrow> bool" where
  "double_high (x # y # s) \<longleftrightarrow> is_high x \<and> is_high y \<or> double_high (y # s)"
| "double_high _ \<longleftrightarrow> False"

lemma unat_in_u32 [simp]: "unat (ucast (x :: u16) :: u32) = unat x"
  using unsigned_less[of x, where ?'a = nat] by (simp add: unsigned_ucast_eq take_bit_eq_mod)

lemma size_surrogate: "is_high x \<or> is_low x \<Longrightarrow> utf32_codepoint_utf8_length (ucast x) = 0"
  by (auto simp: surrogate_ranges utf32_codepoint_utf8_length_def unicode_consts word_less_nat_alt word_le_nat_alt)

lemma unat_pair:
  assumes "unat (a :: u32) < 2 ^ 10" "unat b < 2 ^ 10"
  shows "unat ((push_bit 10 a OR b) + 0x10000) = unat a * 1024 + unat b + 0x10000"
proof -
  have "push_bit 10 a AND b = 0"
  proof (rule bit_word_eqI)
    fix n show "bit (push_bit 10 a AND b) n = bit 0 n"
      using high_bits_0[OF assms(2), of n] by (auto simp: bit_simps)
  qed
  then have "push_bit 10 a OR b = a * 1024 + b" by (simp add: push_bit_eq_mult flip: disjunctive_add_eq_or)
  then show ?thesis using assms by (simp add: unat_word_ariths(1,2))
qed

lemma size_pair:
  assumes "is_high h" "is_low l"
  shows "utf32_codepoint_utf8_length (of_pair h l) = 4"
proof -
  let ?a = "ucast h - (0xD800 :: u32)" and ?b = "ucast l - (0xDC00 :: u32)"
  have ab: "unat ?a < 2 ^ 10" "unat ?b < 2 ^ 10"
    using assms by (auto simp: surrogate_ranges unat_sub word_le_nat_alt)
  then have "unat (of_pair h l) = unat ?a * 1024 + unat ?b + 0x10000" by (simp only: of_pair_def unat_pair)
  then show ?thesis using ab
    by (auto simp: utf32_codepoint_utf8_length_def unicode_consts word_less_nat_alt word_le_nat_alt)
qed

lemma not_both [simp]: "is_high x \<Longrightarrow> \<not> is_low x"
  by (auto simp: surrogate_ranges)

lemma write_after_high: "is_high y \<Longrightarrow> length (utf16_to_utf8_loop s) \<le> length (utf16_to_utf8_loop (y # s))"
proof (cases s)
  case (Cons z t)
  assume y: "is_high y"
  have "length (utf16_to_utf8_loop (z # t)) = length (utf16_to_utf8_loop t)" if z: "is_low z"
    using z not_both[of z] by (cases t) (auto simp: length_put_codepoint size_surrogate)
  then show ?thesis using y Cons by (simp add: length_put_codepoint size_surrogate)
qed simp

lemma write_alone: "\<not> is_high y \<Longrightarrow> length (utf16_to_utf8_loop (y # s)) = utf32_codepoint_utf8_length (ucast y) + length (utf16_to_utf8_loop s)"
  by (cases s) (simp_all add: length_put_codepoint)

lemma utf16_length_loop_le: "utf16_length_loop s \<le> length (utf16_to_utf8_loop s)"
proof (induction s rule: utf16_length_loop.induct)
  case (3 x y s)
  show ?case
  proof (cases "is_high x \<and> \<not> is_low y")
    case True
    then have "utf16_length_loop s \<le> length (utf16_to_utf8_loop s)" using 3 by blast
    then show ?thesis using True write_after_high[of y s] write_alone[of y s] size_surrogate[of y]
      by (cases "is_high y") (simp_all add: length_put_codepoint)
  qed (use 3 in \<open>auto simp: length_put_codepoint size_pair\<close>)
qed (simp_all add: length_put_codepoint)

lemma double_high_tail: "\<not> double_high (x # s) \<Longrightarrow> \<not> double_high s"
  by (cases s) auto

lemma utf16_length_loop_eq: "\<not> double_high s \<Longrightarrow> utf16_length_loop s = length (utf16_to_utf8_loop s)"
proof (induction s rule: utf16_length_loop.induct)
  case (3 x y s)
  have tl: "\<not> double_high (y # s)" "\<not> double_high s" using "3.prems" double_high_tail by auto
  show ?case
  proof (cases "is_high x \<and> \<not> is_low y")
    case True
    then have "utf16_length_loop s = length (utf16_to_utf8_loop s)" using "3.IH" tl by blast
    then show ?thesis using True "3.prems" write_alone[of y s] by (simp add: length_put_codepoint size_surrogate)
  qed (use 3 tl in \<open>auto simp: length_put_codepoint size_pair\<close>)
qed (simp_all add: length_put_codepoint)

text \<open>C40: \<open>utf16_to_utf8_length\<close> never measures more than \<open>utf16_to_utf8\<close> writes before the NUL, and
  exactly so much unless a high surrogate follows another one; where it does, any number of
  bytes more is written: three units are measured as nothing and written as four bytes.\<close>

theorem utf16_to_utf8_length_bound:
  assumes "0 < n" "n \<le> length s" "utf16_to_utf8 (Some s) n = bytes @ [0]"
  shows "utf16_to_utf8_length (Some s) n \<le> int (length bytes)
    \<and> (\<not> double_high (take n s) \<longrightarrow> utf16_to_utf8_length (Some s) n = int (length bytes))
    \<and> (\<forall>k > 0. let evil = concat (replicate k [0xD800, 0xD800, 0xDC00]) in
         utf16_to_utf8_length (Some evil) (3 * k) = 0 \<and> length (utf16_to_utf8 (Some evil) (3 * k)) = 4 * k + 1)"
proof -
  let ?e = "\<lambda>k. concat (replicate k [0xD800, 0xD800, 0xDC00 :: u16])"
  have hl: "is_high 0xD800" "is_low 0xDC00" "\<not> is_low 0xD800" "\<not> is_high 0xDC00" by (simp_all add: is_high_def is_low_def)
  have "utf16_length_loop (?e k) = 0 \<and> length (utf16_to_utf8_loop (?e k)) = 4 * k \<and> length (?e k) = 3 * k" for k
  proof (induction k)
    case (Suc k)
    have "utf16_length_loop (0xDC00 # ?e k) = utf16_length_loop (?e k)"
      using hl size_surrogate[of "0xDC00"] by (cases "?e k") auto
    then show ?case using Suc hl size_surrogate[of "0xD800"] size_pair[OF hl(1,2)]
      by (simp add: length_put_codepoint)
  qed simp
  then have "utf16_to_utf8_length (Some (?e k)) (3 * k) = 0 \<and> length (utf16_to_utf8 (Some (?e k)) (3 * k)) = 4 * k + 1" if "k > 0" for k
    using that by (simp add: utf16_to_utf8_length_def utf16_to_utf8_def)
  then show ?thesis using assms utf16_length_loop_le[of "take n s"] utf16_length_loop_eq[of "take n s"]
    by (auto simp: utf16_to_utf8_length_def utf16_to_utf8_def Let_def)
qed

section \<open>\<open>utf8_length\<close>, and a bounded destination\<close>

lemma utf8_length_bytes_Inr:
  "utf8_length_bytes cur first msk ign u n = Some (Inr (cur1, v, m, i, k)) \<Longrightarrow> n \<le> 5
   \<Longrightarrow> (\<forall>j \<ge> 8. \<not> bit (ign OR msk) j)
   \<Longrightarrow> \<exists>bs. cur = bs @ cur1 \<and> k = n + length bs \<and> k \<le> 5 \<and> list_all (\<lambda>b. b AND 0xC0 = 0x80) bs
        \<and> (\<forall>j \<ge> 8. \<not> bit (i OR m) j) \<and> (n < 5 \<and> first AND msk \<noteq> 0 \<longrightarrow> bs \<noteq> [])"
proof (induction cur first msk ign u n rule: utf8_length_bytes.induct)
  case (1 cur first msk ign u n)
  show ?case
  proof (cases "n < 5 \<and> first AND msk \<noteq> 0")
    case True
    then obtain b c where b: "cur = b # c" "b AND 0xC0 = 0x80"
      "utf8_length_bytes c first (drop_bit 1 msk) (ign OR msk) (push_bit 6 u + (ucast b AND 0x3F)) (n + 1) = Some (Inr (cur1, v, m, i, k))"
      using "1.prems"(1) by (subst (asm) utf8_length_bytes.simps) (auto split: list.splits if_splits)
    have "\<forall>j \<ge> 8. \<not> bit ((ign OR msk) OR drop_bit 1 msk) j" using "1.prems"(3) by (simp add: bit_simps)
    then obtain bs where "c = bs @ cur1" "k = n + 1 + length bs" "k \<le> 5" "list_all (\<lambda>b. b AND 0xC0 = 0x80) bs"
      "\<forall>j \<ge> 8. \<not> bit (i OR m) j"
      using "1.IH"[of b c] True "1.prems"(2) b by auto
    then show ?thesis using b by (intro exI[of _ "b # bs"]) simp
  qed (use "1.prems" in \<open>auto simp: utf8_length_bytes.simps\<close>)
qed

lemma continuation_nonzero: "list_all (\<lambda>b :: u8. b AND 0xC0 = 0x80) bs \<Longrightarrow> 0 \<notin> set bs"
  by (auto simp: list_all_iff)

text \<open>With a signed \<open>char\<close> the first byte of a sequence is extended by ones, and the value is never
  a code point.\<close>

lemma signed_too_large:
  assumes "first AND 0x80 \<noteq> 0" "\<forall>j \<ge> 8. \<not> bit (g :: u32) j" "2 \<le> j" "j \<le> 4"
  shows "kUnicodeMaxCodepoint < v OR push_bit (6 * (j - 1)) (NOT g AND ext True first)"
proof -
  have "bit (ext True first) k" if "8 \<le> k" "k < 32" for k
    using assms(1) that by (simp add: ext_def bit_simps and_bit_tests)
  then have "bit (v OR push_bit q (NOT g AND ext True first)) 31" if "q \<le> 18" for q
    using assms(2) that by (auto simp: bit_simps)
  moreover have "6 * (j - 1) \<le> 18" using assms(4) by simp
  ultimately have "bit (v OR push_bit (6 * (j - 1)) (NOT g AND ext True first)) 31" by blast
  then have "\<not> unat (v OR push_bit (6 * (j - 1)) (NOT g AND ext True first)) < 2 ^ 31"
    using high_bits_0[of _ 31 31] by blast
  then show ?thesis by (simp add: kUnicodeMaxCodepoint_def word_less_nat_alt)
qed

definition utf8_counted :: "bool \<Rightarrow> u8 list \<Rightarrow> nat \<Rightarrow> int \<Rightarrow> bool" where
  "utf8_counted sc mem k n \<longleftrightarrow> (\<exists>s rest. mem = s @ 0 # rest \<and> 0 \<notin> set s \<and> n = int (k + length s)
     \<and> (sc \<longrightarrow> list_all (\<lambda>b. b AND 0x80 = 0) s))"

lemma utf8_counted_step:
  "utf8_counted sc mem (k + length bs) n \<Longrightarrow> 0 \<notin> set bs \<Longrightarrow> (sc \<longrightarrow> list_all (\<lambda>b. b AND 0x80 = 0) bs) \<Longrightarrow> utf8_counted sc (bs @ mem) k n"
proof -
  assume a: "utf8_counted sc mem (k + length bs) n" "0 \<notin> set bs" "sc \<longrightarrow> list_all (\<lambda>b. b AND 0x80 = 0) bs"
  then obtain s rest where "mem = s @ 0 # rest" "0 \<notin> set s" "n = int (k + length bs + length s)" "sc \<longrightarrow> list_all (\<lambda>b. b AND 0x80 = 0) s"
    by (auto simp: utf8_counted_def)
  then show ?thesis using a(2,3) unfolding utf8_counted_def by (intro exI[of _ "bs @ s"] exI[of _ rest]) auto
qed

lemma utf8_length_loop_counts:
  "utf8_length_loop sc mem k = Some n \<Longrightarrow> n \<noteq> -1 \<Longrightarrow> utf8_counted sc mem k n"
proof (induction sc mem k rule: utf8_length_loop.induct)
  case (2 sc first cur ret)
  consider "first = 0" | "first \<noteq> 0" "first AND 0x80 = 0" | "first \<noteq> 0" "first AND 0x80 \<noteq> 0" by blast
  then show ?case
  proof cases
    case 1
    then show ?thesis using "2.prems" by (auto simp: utf8_counted_def intro: exI[of _ "[]"])
  next
    case 2
    then have "utf8_counted sc cur (ret + 1) n" using "2.IH"(1) "2.prems" by simp
    then show ?thesis using utf8_counted_step[of sc cur ret "[first]" n] 2 by simp
  next
    case 3
    then obtain cur1 v m i j where b: "first AND 0x40 \<noteq> 0" "utf8_length_bytes cur (ext sc first) 0x40 0x80 0 1 = Some (Inr (cur1, v, m, i, j))"
      "j \<noteq> 5" "utf8_length_loop sc cur1 (ret + j) = Some n" "\<not> kUnicodeMaxCodepoint < v OR push_bit (6 * (j - 1)) (NOT (i OR m) AND ext sc first)"
      using "2.prems" by (auto split: if_splits option.splits sum.splits)
    have "\<not> bit (0x80 OR 0x40 :: u32) k" if "8 \<le> k" for k by (rule high_bits_0[of _ 8]) (use that in simp_all)
    moreover have "ext sc first AND 0x40 \<noteq> 0" using b(1) by (simp add: and_bit_tests)
    ultimately obtain bs where bs: "cur = bs @ cur1" "j = 1 + length bs" "j \<le> 5" "list_all (\<lambda>b. b AND 0xC0 = 0x80) bs"
      "\<forall>k \<ge> 8. \<not> bit (i OR m) k" "bs \<noteq> []"
      using utf8_length_bytes_Inr[OF b(2)] by auto
    have "\<not> sc" using signed_too_large[of first "i OR m" j v] 3(2) bs b(3,5) by (cases sc) (auto simp: Suc_le_eq)
    moreover have "utf8_counted sc cur1 (ret + j) n" using "2.IH"(2)[OF 3(1) 3(2) _ b(2)] b "2.prems"(2) by auto
    ultimately show ?thesis using utf8_counted_step[of sc cur1 ret "first # bs" n] bs 3 continuation_nonzero[OF bs(4)] by simp
  qed
qed simp

lemma lb_stop: "\<not> (n < 5 \<and> first AND msk \<noteq> 0) \<Longrightarrow> utf8_length_bytes cur first msk ign u n = Some (Inr (cur, u, msk, ign, n))"
  by (simp add: utf8_length_bytes.simps)

lemma lb_step: "n < 5 \<Longrightarrow> first AND msk \<noteq> 0 \<Longrightarrow> bit b 7 \<Longrightarrow> \<not> bit b 6 \<Longrightarrow> utf8_length_bytes (b # cur) first msk ign u n =
   utf8_length_bytes cur first (drop_bit 1 msk) (ign OR msk) (push_bit 6 u OR (ucast b AND 0x3F)) (n + 1)"
proof -
  assume a: "n < 5" "first AND msk \<noteq> 0" "bit b 7" "\<not> bit b 6"
  have "b AND 0xC0 = 0x80 \<longleftrightarrow> bit b 7 \<and> \<not> bit b 6" by (rule u8_all) code_simp
  then show ?thesis using a by (subst utf8_length_bytes.simps) (simp add: shift_add_low)
qed

lemma continuation_bits: "bit (ucast ((x OR 0x80) AND 0xBF :: u32) :: u8) 7" "\<not> bit (ucast ((x OR 0x80) AND 0xBF :: u32) :: u8) 6"
  by (simp_all add: bit_simps)

lemma plus_4: "n + 4 = Suc (Suc (Suc (Suc n)))"
  by simp

lemma utf8_length_put:
  assumes "scalar c" "c \<noteq> 0"
  shows "utf8_length_loop False (put_codepoint c @ rest) ret = utf8_length_loop False rest (ret + utf32_codepoint_utf8_length c)"
proof -
  have le: "\<not> kUnicodeMaxCodepoint < c"
    using assms(1) by (auto simp: utf32_codepoint_utf8_length_def unicode_consts word_less_nat_alt word_le_nat_alt split: if_splits)
  obtain b0 bs0 where b0: "put_codepoint c = b0 # bs0" "b0 \<noteq> 0" using first_byte[OF assms(1)] assms(2) by metis
  show ?thesis using assms(1)
  proof (cases rule: scalar_cases)
    case one
    note b = bits_of_less(1)[OF one]
    have "\<not> bit (ucast c :: u8) 7" using b by (simp add: bit_simps)
    then show ?thesis using one b0 by (simp add: put_codepoint_cases size_cases and_bit_tests)
  next
    case two
    note b = bits_of_less(2)[OF two(2)]
    let ?f = "ucast (drop_bit 6 c OR 0xC0) :: u8" and ?s = "ucast ((c OR 0x80) AND 0xBF) :: u8"
    have f: "bit ?f 7" "bit ?f 6" "\<not> bit ?f 5" using b by (simp_all add: bit_simps)
    have "(push_bit 6 0 OR (ucast ?s AND 0x3F)) OR push_bit 6 (NOT ((0x80 OR 0x40) OR 0x20) AND ext False ?f) = c"
      using b by (intro u32_eqI) (simp add: bit_simps ext_def)
    moreover have "?f \<noteq> 0" using f(1) by (metis bit_0_eq bot_apply bot_bool_def)
    ultimately show ?thesis using two f le
      by (simp add: put_codepoint_cases size_cases and_bit_tests lb_step lb_stop continuation_bits)
  next
    case three
    note b = bits_of_less(3)[OF three(2)]
    let ?f = "ucast (drop_bit 12 c OR 0xE0) :: u8" and ?s = "ucast ((drop_bit 6 c OR 0x80) AND 0xBF) :: u8"
      and ?t = "ucast ((c OR 0x80) AND 0xBF) :: u8"
    have f: "bit ?f 7" "bit ?f 6" "bit ?f 5" "\<not> bit ?f 4" using b by (simp_all add: bit_simps)
    have "(push_bit 6 (push_bit 6 0 OR (ucast ?s AND 0x3F)) OR (ucast ?t AND 0x3F))
       OR push_bit 12 (NOT (((0x80 OR 0x40) OR 0x20) OR 0x10) AND ext False ?f) = c"
      using b by (intro u32_eqI) (simp add: bit_simps ext_def)
    moreover have "?f \<noteq> 0" using f(1) by (metis bit_0_eq bot_apply bot_bool_def)
    ultimately show ?thesis using three f le assms(1)
      by (simp add: put_codepoint_cases size_cases and_bit_tests lb_step lb_stop continuation_bits numeral_3_eq_3)
  next
    case four
    note b = bits_of_less(4)[OF four(2)]
    let ?f = "ucast (drop_bit 18 c OR 0xF0) :: u8" and ?r = "ucast ((drop_bit 12 c OR 0x80) AND 0xBF) :: u8"
      and ?s = "ucast ((drop_bit 6 c OR 0x80) AND 0xBF) :: u8" and ?t = "ucast ((c OR 0x80) AND 0xBF) :: u8"
    have f: "bit ?f 7" "bit ?f 6" "bit ?f 5" "bit ?f 4" "\<not> bit ?f 3" using b by (simp_all add: bit_simps)
    have "(push_bit 6 (push_bit 6 (push_bit 6 0 OR (ucast ?r AND 0x3F)) OR (ucast ?s AND 0x3F)) OR (ucast ?t AND 0x3F))
       OR push_bit 18 (NOT ((((0x80 OR 0x40) OR 0x20) OR 0x10) OR 8) AND ext False ?f) = c"
      using b by (intro u32_eqI) (simp add: bit_simps ext_def)
    moreover have "?f \<noteq> 0" using f(1) by (metis bit_0_eq bot_apply bot_bool_def)
    ultimately show ?thesis using four f le assms(1)
      by (simp add: put_codepoint_cases size_cases and_bit_tests lb_step lb_stop continuation_bits plus_4)
  qed
qed

lemma utf8_length_loop_of: "list_all scalar cs \<Longrightarrow> 0 \<notin> set cs
  \<Longrightarrow> utf8_length_loop False (utf8_of cs @ 0 # rest) k = Some (int (k + length (utf8_of cs)))"
proof (induction cs arbitrary: k)
  case (Cons c cs)
  have "scalar c" "c \<noteq> 0" using Cons.prems by auto
  then show ?case using Cons utf8_length_put[of c "utf8_of cs @ 0 # rest" k] by (simp add: length_put_codepoint)
qed simp

text \<open>When \<open>utf8_length\<close> accepts a string, it returns its length in bytes. With an unsigned
  \<open>char\<close> it accepts the encoding of any code points that are no surrogates; with a signed one it
  accepts nothing but ASCII.\<close>

theorem utf8_length_accepts:
  assumes "list_all scalar cs" "0 \<notin> set cs"
  shows "utf8_length False (utf8_of cs @ 0 # rest) = Some (int (length (utf8_of cs)))
    \<and> (utf8_length sc mem = Some n \<longrightarrow> n \<noteq> -1 \<longrightarrow> utf8_counted sc mem 0 n)"
  using utf8_length_loop_of[OF assms, of rest 0] utf8_length_loop_counts[of sc mem 0 n] by (simp add: utf8_length_def)

text \<open>\<open>utf8_to_utf16_n\<close>: never more units than there is room, always a beginning of the whole
  conversion, and all of it when there is room for it.\<close>

lemma utf8_to_utf16_n_loop_prefix:
  "utf8_to_utf16_n_loop left mem room = Some (us, k) \<Longrightarrow> utf8_to_utf16_loop left mem = Some full
   \<Longrightarrow> length us \<le> room \<and> us = take (length us) full \<and> k \<le> length us \<and> (length full \<le> room \<longrightarrow> us = full \<and> k = length full)"
proof (induction left mem room arbitrary: us k full rule: utf8_to_utf16_n_loop.induct)
  case (1 left mem room)
  show ?case
  proof (cases "left = 0 \<or> room = 0")
    case True
    then show ?thesis using "1.prems" by (auto simp: utf8_to_utf16_n_loop.simps utf8_to_utf16_loop.simps)
  next
    case False
    then obtain m c full' where m: "utf8_next mem = Some (m, c)" "full = utf16_units c @ full'"
      "utf8_to_utf16_loop (left - m) (drop m mem) = Some full'"
      using "1.prems"(2) by (subst (asm) utf8_to_utf16_loop.simps) (auto split: option.splits if_splits)
    show ?thesis
    proof (cases "c > 0xFFFF \<and> room = 1")
      case True
      then have "us = [hd (utf16_units c)]" "k = 0"
        using "1.prems"(1) m(1) False by (auto simp: utf8_to_utf16_n_loop.simps)
      then show ?thesis using True m(2) length_utf16_units[of c] by (cases "utf16_units c") auto
    next
      case no: False
      then obtain us' k' where r: "utf8_to_utf16_n_loop (left - m) (drop m mem) (room - length (utf16_units c)) = Some (us', k')"
        "us = utf16_units c @ us'" "k = length (utf16_units c) + k'"
        using "1.prems"(1) m(1) False by (subst (asm) utf8_to_utf16_n_loop.simps) (auto split: option.splits if_splits)
      have "length (utf16_units c) \<le> room" using no False length_utf16_units[of c] by auto
      then show ?thesis using "1.IH"[OF False m(1) refl no r(1) m(3)] r m(2) by auto
    qed
  qed
qed

text \<open>\<open>utf8_to_utf16_n\<close> writes at most as many units as it is given room for, and they are the
  beginning of what \<open>utf8_to_utf16_no_null_terminator\<close> writes: all of it when there is room.\<close>

theorem utf8_to_utf16_n_bounded:
  assumes "utf8_to_utf16_n mem srcLen room = Some (us, k)" "utf8_to_utf16_no_null_terminator mem srcLen = Some full"
  shows "length us \<le> room \<and> us = take (length us) full \<and> k \<le> length us \<and> (length full \<le> room \<longrightarrow> us = full \<and> k = length full)"
  by (rule utf8_to_utf16_n_loop_prefix) (use assms in \<open>simp_all add: utf8_to_utf16_n_def utf8_to_utf16_no_null_terminator_def\<close>)

section \<open>Strings of 16-bit units\<close>

lemma strlen16_first: "0 \<notin> set s \<Longrightarrow> strlen16 (s @ 0 # rest) = Some (length s)"
  by (induction s) auto

lemma strcpy16_copies: "0 \<notin> set s \<Longrightarrow> strcpy16 (s @ 0 # rest) = Some (s @ [0])"
  by (induction s) auto

lemma uint_diff_0 [simp]: "uint (a :: u16) - uint b = 0 \<longleftrightarrow> a = b"
  by (auto simp: word_uint_eq_iff)

text \<open>\<open>strcmp16\<close> is 0 exactly for equal strings.\<close>

theorem strcmp16_equal:
  "0 \<notin> set s \<Longrightarrow> 0 \<notin> set t \<Longrightarrow> \<exists>d. strcmp16 (s @ 0 # r1) (t @ 0 # r2) = Some d \<and> (d = 0 \<longleftrightarrow> s = t)"
proof (induction s arbitrary: t)
  case Nil
  then show ?case by (cases t) (auto simp: Let_def word_uint_eq_iff)
next
  case (Cons a s)
  then show ?case by (cases t) (auto simp: Let_def word_uint_eq_iff)
qed

text \<open>\<open>strzcmp16\<close>, which is there to tell strings of different lengths apart, does not tell a string
  from the same string with NULs behind it.\<close>

lemma strzcmp_loop_Inr:
  "strzcmp_loop (\<lambda>x. x) s t = Inr (r1, r2) \<Longrightarrow> \<exists>p. s = p @ r1 \<and> t = p @ r2 \<and> (r1 = [] \<or> r2 = [])"
proof (induction s arbitrary: t)
  case (Cons a s)
  show ?case
  proof (cases t)
    case (Cons b t')
    then have "a = b" "strzcmp_loop (\<lambda>x. x) s t' = Inr (r1, r2)"
      using Cons.prems by (auto simp: Let_def word_uint_eq_iff split: if_splits)
    then obtain p where "s = p @ r1" "t' = p @ r2" "r1 = [] \<or> r2 = []" using Cons.IH by blast
    then show ?thesis using \<open>a = b\<close> Cons by (intro exI[of _ "a # p"]) simp
  qed (use Cons.prems in auto)
qed auto

lemma strzcmp_loop_Inl: "strzcmp_loop (\<lambda>x. x) s t = Inl d \<Longrightarrow> d \<noteq> 0"
proof (induction s arbitrary: t)
  case (Cons a s)
  then show ?case by (cases t) (auto simp: Let_def split: if_splits)
qed auto

lemma strzcmp_loop_same: "strzcmp_loop (\<lambda>x. x) s (s @ t) = Inr ([], t)"
  by (induction s) auto

theorem strzcmp16_zero:
  assumes "n1 \<le> length s1" "n2 \<le> length s2" "strzcmp16 s1 n1 s2 n2 = 0"
  shows "take n1 s1 = take n2 s2 \<or> n1 < n2 \<and> take n1 s1 = take n1 s2 \<and> s2 ! n1 = 0
    \<or> n2 < n1 \<and> take n2 s1 = take n2 s2 \<and> s1 ! n2 = 0"
proof -
  obtain r1 r2 where r: "strzcmp_loop (\<lambda>x. x) (take n1 s1) (take n2 s2) = Inr (r1, r2)"
    using assms(3) strzcmp_loop_Inl by (auto simp: strzcmp16_def strzcmp_def split: sum.splits)
  then obtain q where q: "take n1 s1 = q @ r1" "take n2 s2 = q @ r2" "r1 = [] \<or> r2 = []" using strzcmp_loop_Inr by blast
  have len: "n1 = length q + length r1" "n2 = length q + length r2"
    using arg_cong[OF q(1), of length] arg_cong[OF q(2), of length] assms(1,2) by simp_all
  have zero: "n1 < n2 \<Longrightarrow> hd r2 = 0" "n2 < n1 \<Longrightarrow> hd r1 = 0"
    using assms(3) r by (auto simp: strzcmp16_def strzcmp_def word_uint_eq_iff split: if_splits)
  have nth: "n1 < n2 \<Longrightarrow> s2 ! n1 = hd r2" "n2 < n1 \<Longrightarrow> s1 ! n2 = hd r1"
    using arg_cong[OF q(2), of "\<lambda>l. l ! n1"] arg_cong[OF q(1), of "\<lambda>l. l ! n2"] q(3) len
    by (auto simp: nth_append hd_conv_nth)
  have pre: "n1 < n2 \<Longrightarrow> take n1 s2 = q" "n2 < n1 \<Longrightarrow> take n2 s1 = q"
    using arg_cong[OF q(2), of "take n1"] arg_cong[OF q(1), of "take n2"] q(3) len by (auto simp: min_def)
  show ?thesis using q len zero nth pre by (cases n1 n2 rule: linorder_cases) auto
qed

theorem strzcmp16_ignores_nul: "strzcmp16 s (length s) (s @ 0 # t) (length s + 1 + length t) = 0"
  using strzcmp_loop_same[of s "0 # t"] by (simp add: strzcmp16_def strzcmp_def)

text \<open>\<open>strncpy16\<close> copies through a \<open>char\<close>: a unit that is not 0 but a multiple of 256 ends the copy,
  and the terminating 0 is written behind the \<open>n\<close> units when the source has no such unit.\<close>

lemma through_char_0: "through_char sc x = 0 \<longleftrightarrow> ucast x = (0 :: u8)"
proof -
  have bits: "bit (ucast y :: u16) n = bit y n" "bit (scast y :: u16) n = bit y n" if "n < 8" for n and y :: u8
    using that by (cases "n = 7"; auto simp: bit_simps min_def)+
  have "y = 0" if "(ucast y :: u16) = 0 \<or> (scast y :: u16) = 0" for y :: u8
    by (rule bit_word_eqI) (use that bits(1)[of _ y] bits(2)[of _ y] in auto)
  then have "(ucast y :: u16) = 0 \<longleftrightarrow> y = 0" "(scast y :: u16) = 0 \<longleftrightarrow> y = 0" for y :: u8 by auto
  then show ?thesis by (simp add: through_char_def)
qed

theorem strncpy16_truncates:
  "ucast x = (0 :: u8) \<Longrightarrow> strncpy16 sc (x # p) (Suc n) = Some [0, 0]"
  using through_char_0[of sc x] by (simp add: Let_def)

theorem strncpy16_writes_behind:
  "list_all (\<lambda>x. ucast x \<noteq> (0 :: u8)) (take n s) \<Longrightarrow> n \<le> length s \<Longrightarrow> \<exists>us. strncpy16 sc s n = Some us \<and> length us = n + 1 \<and> last us = 0"
proof (induction n arbitrary: s)
  case (Suc n)
  then obtain x p where s: "s = x # p" "ucast x \<noteq> (0 :: u8)" "list_all (\<lambda>x. ucast x \<noteq> (0 :: u8)) (take n p)" "n \<le> length p"
    by (cases s) auto
  then obtain us where "strncpy16 sc p n = Some us" "length us = n + 1" "last us = 0" using Suc.IH by blast
  then show ?case using s through_char_0[of sc x] by (auto simp: Let_def)
qed auto

section \<open>Concrete strings\<close>

text \<open>A dollar, a cent, a euro and a clef sign.\<close>

definition demo_points :: "u32 list" where "demo_points = [0x24, 0xA2, 0x20AC, 0x1D11E]"

lemma demo_points: "demo_points \<noteq> []" "list_all scalar demo_points"
  by (simp_all add: demo_points_def utf32_codepoint_utf8_length_def unicode_consts)

lemma utf8_utf16_roundtrip_witness:
  "\<exists>bytes. utf16_to_utf8 (Some (utf16_of demo_points)) (length (utf16_of demo_points)) = bytes @ [0]
    \<and> utf8_to_utf16 bytes (length bytes) = Some (utf16_of demo_points @ [0])"
proof -
  obtain bytes where b: "utf16_to_utf8 (Some (utf16_of demo_points)) (length (utf16_of demo_points)) = bytes @ [0]"
    by (auto simp: utf16_to_utf8_def demo_points_def utf16_units_def Let_def)
  show ?thesis using utf8_utf16_roundtrip[OF demo_points b, of "[]"] b by auto
qed

lemma utf8_to_utf16_length_exact_witness:
  "\<exists>us. utf8_to_utf16_no_null_terminator [0x41, 0x80, 0xC3, 0x41] 4 = Some us \<and> length us = 3"
proof -
  have "utf8_to_utf16_length [0x41, 0x80, 0xC3, 0x41] 4 = Some 3" by code_simp
  from utf8_to_utf16_length_exact[OF this] show ?thesis by auto
qed

lemma utf16_to_utf8_length_bound_witness:
  "utf16_to_utf8_length (Some [0x41, 0xD800]) 2 = 1 \<and> utf16_to_utf8 (Some [0x41, 0xD800]) 2 = [0x41, 0]"
proof -
  have w: "utf16_to_utf8 (Some [0x41, 0xD800]) 2 = [0x41] @ [0]" by code_simp
  have "utf16_to_utf8_length (Some [0x41, 0xD800]) 2 = int (length [0x41 :: u8])"
    using utf16_to_utf8_length_bound[OF _ _ w, THEN conjunct2, THEN conjunct1] by (simp add: is_high_def)
  then show ?thesis using w by simp
qed

end
