(* ===== verification/MemDealer.thy ===== *)
theory MemDealer
  imports Prelude
begin

text \<open>
  The allocator of \<open>libbinder/binder/MemoryDealer.cpp\<close>: a heap divided into chunks, each free or
  allocated, in a doubly linked list in the order of their addresses, here a list. Starts and
  sizes of chunks are counted in units of 32 bytes; the size is a field of 28 bits. The page size
  is an argument.
\<close>

record chunk =
  c_start :: nat
  c_size :: nat
  c_free :: bool

definition kMemoryAlign :: nat where "kMemoryAlign = 32"
definition NO_MEMORY :: int where "NO_MEMORY = -12"
definition NAME_NOT_FOUND :: int where "NAME_NOT_FOUND = -2"

abbreviation bits28 :: "nat \<Rightarrow> nat" where "bits28 n \<equiv> n mod 2 ^ 28"

definition chunk_t :: "nat \<Rightarrow> nat \<Rightarrow> chunk" where
  "chunk_t start sz = \<lparr>c_start = start, c_size = bits28 sz, c_free = True\<rparr>"

text \<open>The constructor: the size of the heap and its list. Page sizes are powers of two, so that
  masking is rounding to a multiple.\<close>

definition round_up :: "nat \<Rightarrow> u64 \<Rightarrow> u64" where
  "round_up pagesize n = (n + word_of_nat pagesize - 1) AND NOT (word_of_nat (pagesize - 1))"

definition round_down :: "nat \<Rightarrow> u64 \<Rightarrow> u64" where
  "round_down pagesize n = n AND NOT (word_of_nat (pagesize - 1))"

definition SimpleBestFitAllocator :: "nat \<Rightarrow> u64 \<Rightarrow> u64 \<times> chunk list" where
  "SimpleBestFitAllocator pagesize sz =
     (let mHeapSize = round_up pagesize sz
      in (mHeapSize, [chunk_t 0 (unat mHeapSize div kMemoryAlign)]))"

section \<open>Allocation\<close>

text \<open>The units to skip for a start at a page, when pages are asked for.\<close>

definition extra_for :: "nat \<Rightarrow> bool \<Rightarrow> chunk \<Rightarrow> nat" where
  "extra_for pagesize aligned c =
     (if aligned then (let m = pagesize div kMemoryAlign in (m - c_start c mod m) mod m) else 0)"

definition fits :: "nat \<Rightarrow> bool \<Rightarrow> nat \<Rightarrow> chunk \<Rightarrow> bool" where
  "fits pagesize aligned sz c \<longleftrightarrow> c_free c \<and> c_size c \<ge> sz + extra_for pagesize aligned c"

text \<open>The search: the index and size of the best chunk so far; it ends at a chunk that fits
  exactly.\<close>

fun find_best :: "nat \<Rightarrow> bool \<Rightarrow> nat \<Rightarrow> (nat \<times> nat) option \<Rightarrow> nat \<Rightarrow> chunk list \<Rightarrow> (nat \<times> nat) option" where
  "find_best pagesize aligned sz best i [] = best"
| "find_best pagesize aligned sz best i (c # cs) =
     (if fits pagesize aligned sz c then
        let best1 = (case best of
                       None \<Rightarrow> Some (i, c_size c)
                     | Some (_, s) \<Rightarrow> if c_size c < s then Some (i, c_size c) else best)
        in if c_size c = sz then best1 else find_best pagesize aligned sz best1 (i + 1) cs
      else find_best pagesize aligned sz best (i + 1) cs)"

text \<open>Taking \<open>size\<close> units of a chunk: the chunks that replace it, and the start of the new one.\<close>

definition split_chunk :: "nat \<Rightarrow> bool \<Rightarrow> nat \<Rightarrow> chunk \<Rightarrow> chunk list \<times> nat" where
  "split_chunk pagesize aligned sz c =
     (if c_size c > sz then
        let extra = extra_for pagesize aligned c;
            start = c_start c + extra;
            tail_free = int (c_size c) - (int sz + int extra)
        in ((if extra \<noteq> 0 then [chunk_t (c_start c) extra] else [])
            @ [\<lparr>c_start = start, c_size = bits28 sz, c_free = False\<rparr>]
            @ (if tail_free > 0 then [chunk_t (start + bits28 sz) (nat tail_free)] else []), start)
      else ([c\<lparr>c_size := bits28 sz, c_free := False\<rparr>], c_start c))"

definition alloc :: "nat \<Rightarrow> bool \<Rightarrow> u64 \<Rightarrow> chunk list \<Rightarrow> int \<times> chunk list" where
  "alloc pagesize aligned sz cs =
     (if sz = 0 then (0, cs)
      else
        let units = unat ((sz + word_of_nat kMemoryAlign - 1) div word_of_nat kMemoryAlign) in
        (case find_best pagesize aligned units None 0 cs of
           None \<Rightarrow> (NO_MEMORY, cs)
         | Some (i, _) \<Rightarrow>
             (case split_chunk pagesize aligned units (cs ! i) of
                (new, start) \<Rightarrow> (int (start * kMemoryAlign), take i cs @ new @ drop (i + 1) cs))))"

section \<open>Deallocation\<close>

text \<open>
  The loop that merges: the chunks before \<open>cur\<close> in reverse, \<open>cur\<close>, the chunks behind it, and
  whether the chunk \<open>freed\<close> is free.
\<close>

definition merge1 :: "bool \<Rightarrow> chunk list \<Rightarrow> chunk \<Rightarrow> bool \<times> chunk list" where
  "merge1 freed before cur = (case before of
       [] \<Rightarrow> (freed, [cur])
     | p # ps \<Rightarrow>
         if c_free p \<or> c_size cur = 0 then (c_free p, p\<lparr>c_size := bits28 (c_size p + c_size cur)\<rparr> # ps)
         else (freed, cur # before))"

fun merge_free :: "bool \<Rightarrow> chunk list \<Rightarrow> chunk \<Rightarrow> chunk list \<Rightarrow> bool \<times> chunk list" where
  "merge_free freed before cur [] = (case merge1 freed before cur of (f, b) \<Rightarrow> (f, rev b))"
| "merge_free freed before cur (n # rest) =
     (case merge1 freed before cur of (f, b) \<Rightarrow>
        if c_free n then merge_free f b n rest else (f, rev b @ n # rest))"

text \<open>
  \<open>dealloc\<close>: \<^const>\<open>None\<close> is the end of the process by \<open>LOG_FATAL_IF\<close>, in builds with these
  checks; \<open>Some None\<close> is \<open>NULL\<close>, no chunk found.
\<close>

fun dealloc_from :: "bool \<Rightarrow> nat \<Rightarrow> chunk list \<Rightarrow> chunk list \<Rightarrow> chunk list option option" where
  "dealloc_from checks start before [] = Some None"
| "dealloc_from checks start before (cur # rest) =
     (if c_start cur = start then
        if checks \<and> c_free cur then None
        else (case merge_free True before (cur\<lparr>c_free := True\<rparr>) rest of
                (freed, cs) \<Rightarrow> if checks \<and> \<not> freed then None else Some (Some cs))
      else dealloc_from checks start (cur # before) rest)"

definition deallocate :: "bool \<Rightarrow> nat \<Rightarrow> chunk list \<Rightarrow> (int \<times> chunk list) option" where
  "deallocate checks offset cs =
     (case dealloc_from checks (offset div kMemoryAlign) [] cs of
        None \<Rightarrow> None
      | Some None \<Rightarrow> Some (NAME_NOT_FOUND, cs)
      | Some (Some cs1) \<Rightarrow> Some (0, cs1))"

section \<open>The dealer\<close>

text \<open>\<open>MemoryDealer::allocate\<close>: the offset and size of the memory returned, or none.\<close>

definition dealer_allocate :: "nat \<Rightarrow> u64 \<Rightarrow> chunk list \<Rightarrow> (int \<times> u64) option \<times> chunk list" where
  "dealer_allocate pagesize sz cs =
     (case alloc pagesize False sz cs of
        (offset, cs1) \<Rightarrow> (if offset \<ge> 0 then Some (offset, sz) else None, cs1))"

text \<open>\<open>Allocation::~Allocation\<close>: the bytes whose pages are given back to the kernel, if any, and
  what the allocator does.\<close>

definition pages_given_back :: "nat \<Rightarrow> u64 \<Rightarrow> u64 \<Rightarrow> (u64 \<times> u64) option" where
  "pages_given_back pagesize freedOffset freedSize =
     (let start0 = round_down pagesize freedOffset;
          fin0 = round_up pagesize (freedOffset + freedSize);
          free_start = freedOffset;
          free_end = free_start + freedSize;
          start1 = (if start0 < free_start then free_start else start0);
          fin1 = (if fin0 > free_end then free_end else fin0);
          start = round_up pagesize start1;
          fin = round_down pagesize fin1
      in if start < fin then Some (start, fin) else None)"

definition allocation_end :: "bool \<Rightarrow> nat \<Rightarrow> u64 \<Rightarrow> u64 \<Rightarrow> chunk list \<Rightarrow> ((u64 \<times> u64) option \<times> chunk list) option" where
  "allocation_end checks pagesize freedOffset freedSize cs =
     (if freedSize \<noteq> 0 then
        map_option (\<lambda>(_, cs1). (pages_given_back pagesize freedOffset freedSize, cs1))
          (deallocate checks (unat freedOffset) cs)
      else Some (None, cs))"

end
