(* ===== verification/MemDealerProps.thy ===== *)
theory MemDealerProps
  imports MemDealer
begin

text \<open>
  What the allocator of \<open>MemoryDealer.cpp\<close> guarantees: the chunks tile the heap, no two free ones
  side by side; allocation takes a block of the asked size out of the smallest free chunk that
  has room, deallocation gives exactly the block back, and the list is determined by the blocks
  allocated.
\<close>

section \<open>The invariant\<close>

fun tiles :: "nat \<Rightarrow> chunk list \<Rightarrow> nat \<Rightarrow> bool" where
  "tiles s [] e \<longleftrightarrow> s = e"
| "tiles s (c # cs) e \<longleftrightarrow> c_start c = s \<and> 0 < c_size c \<and> tiles (s + c_size c) cs e"

fun apart :: "chunk list \<Rightarrow> bool" where
  "apart (c # d # cs) \<longleftrightarrow> \<not> (c_free c \<and> c_free d) \<and> apart (d # cs)"
| "apart _ \<longleftrightarrow> True"

text \<open>A heap of \<open>H\<close> units, fewer than the size field can count.\<close>

definition heap_ok :: "nat \<Rightarrow> chunk list \<Rightarrow> bool" where
  "heap_ok H cs \<longleftrightarrow> tiles 0 cs H \<and> apart cs \<and> H < 2 ^ 28"

text \<open>The blocks allocated: start and size.\<close>

definition blocks :: "chunk list \<Rightarrow> (nat \<times> nat) set" where
  "blocks cs = {(c_start c, c_size c) | c. c \<in> set cs \<and> \<not> c_free c}"

lemma blocks_simps [simp]:
  "blocks [] = {}"
  "blocks (c # cs) = (if c_free c then {} else {(c_start c, c_size c)}) \<union> blocks cs"
  "blocks (xs @ ys) = blocks xs \<union> blocks ys"
  by (auto simp: blocks_def)

lemma tiles_append: "tiles s (xs @ ys) e \<longleftrightarrow> (\<exists>m. tiles s xs m \<and> tiles m ys e)"
  by (induction xs arbitrary: s) auto

lemma apart_append: "apart (xs @ ys) \<longleftrightarrow> apart xs \<and> apart ys \<and> (xs \<noteq> [] \<and> ys \<noteq> [] \<longrightarrow> \<not> (c_free (last xs) \<and> c_free (hd ys)))"
  by (induction xs rule: apart.induct) (auto simp: neq_Nil_conv, (cases ys; simp)+)

lemma apart_Cons: "apart (c # cs) \<longleftrightarrow> apart cs \<and> (cs \<noteq> [] \<longrightarrow> \<not> (c_free c \<and> c_free (hd cs)))"
  by (cases cs) auto

lemma tiles_le: "tiles s cs e \<Longrightarrow> s \<le> e"
  by (induction cs arbitrary: s) fastforce+

lemma tiles_range: "tiles s cs e \<Longrightarrow> c \<in> set cs \<Longrightarrow> s \<le> c_start c \<and> c_start c + c_size c \<le> e \<and> 0 < c_size c"
proof (induction cs arbitrary: s)
  case (Cons d cs)
  then show ?case using tiles_le[of "s + c_size d" cs e] by fastforce
qed simp

lemma blocks_range: "tiles s cs e \<Longrightarrow> (a, n) \<in> blocks cs \<Longrightarrow> s \<le> a \<and> a + n \<le> e \<and> 0 < n"
  using tiles_range by (fastforce simp: blocks_def)

text \<open>The blocks determine the list.\<close>

lemma free_size_unique:
  assumes "tiles s (c # cs) e" "tiles s (d # ds) e" "apart (c # cs)" "c_free c" "c_free d" "blocks cs = blocks ds"
  shows "\<not> c_size c < c_size d"
proof
  assume lt: "c_size c < c_size d"
  have "s + c_size d \<le> e" using assms(2) tiles_le[of "s + c_size d" ds e] by simp
  then obtain x cs' where cs: "cs = x # cs'" using assms(1) lt by (cases cs) auto
  then have "\<not> c_free x" "c_start x = s + c_size c" using assms(1,3,4) by auto
  then have "(s + c_size c, c_size x) \<in> blocks ds" using assms(6) cs by auto
  then show False using blocks_range[of "s + c_size d" ds e] assms(2) lt by fastforce
qed

lemma blocks_determine_list:
  "tiles s cs e \<Longrightarrow> apart cs \<Longrightarrow> tiles s ds e \<Longrightarrow> apart ds \<Longrightarrow> blocks cs = blocks ds \<Longrightarrow> cs = ds"
proof (induction cs arbitrary: s ds)
  case Nil
  then show ?case using tiles_le by (cases ds) fastforce+
next
  case (Cons c cs)
  then obtain d ds' where ds: "ds = d # ds'" using tiles_le[of "s + c_size c" cs e] by (cases ds) auto
  have start: "c_start c = s" "c_start d = s" "0 < c_size c" "0 < c_size d" using Cons.prems ds by auto
  have later: "(s, n) \<notin> blocks cs" "(s, n) \<notin> blocks ds'" for n
    using blocks_range[of "s + c_size c" cs e s n] blocks_range[of "s + c_size d" ds' e s n] Cons.prems(1,3) ds start by fastforce+
  have "(s, n) \<in> blocks (c # cs) \<longleftrightarrow> \<not> c_free c \<and> n = c_size c" "(s, n) \<in> blocks (d # ds') \<longleftrightarrow> \<not> c_free d \<and> n = c_size d" for n
    using later start by auto
  then have free: "c_free c = c_free d" "\<not> c_free c \<Longrightarrow> c_size c = c_size d"
    using Cons.prems(5) unfolding ds by blast+
  then have tl: "blocks cs = blocks ds'"
    using Cons.prems(5) insert_ident[of "(s, c_size c)" "blocks cs" "blocks ds'"] later unfolding ds by (auto simp: start split: if_splits)
  have sz: "c_size c = c_size d"
  proof (cases "c_free c")
    case True
    then show ?thesis
      using free_size_unique[of s c cs e d ds'] free_size_unique[of s d ds' e c cs] Cons.prems ds free(1) tl by fastforce
  qed (use free in auto)
  then have "c = d" using start free by (cases c, cases d) simp
  moreover have "cs = ds'" using Cons.IH[of "s + c_size c" ds'] Cons.prems ds sz tl by (auto simp: apart_Cons)
  ultimately show ?case using ds by simp
qed

text \<open>With nothing allocated the whole heap is one free chunk.\<close>

lemma all_free: "heap_ok H cs \<Longrightarrow> blocks cs = {} \<Longrightarrow> cs = (if H = 0 then [] else [\<lparr>c_start = 0, c_size = H, c_free = True\<rparr>])"
  by (rule blocks_determine_list[of 0 _ H]) (auto simp: heap_ok_def)

section \<open>Allocation\<close>

lemma find_best_spec:
  "(\<forall>b s. best = Some (b, s) \<longrightarrow> sz \<le> s) \<Longrightarrow>
   (case find_best P al sz best i cs of
      None \<Rightarrow> best = None \<and> (\<forall>c\<in>set cs. \<not> fits P al sz c)
    | Some (k, s) \<Rightarrow> (best = Some (k, s) \<or> (\<exists>j < length cs. k = i + j \<and> fits P al sz (cs ! j) \<and> c_size (cs ! j) = s))
        \<and> (\<forall>c\<in>set cs. fits P al sz c \<longrightarrow> s \<le> c_size c) \<and> (\<forall>b t. best = Some (b, t) \<longrightarrow> s \<le> t))"
proof (induction cs arbitrary: best i)
  case Nil
  then show ?case by (auto split: option.splits)
next
  case (Cons c cs)
  have later: "(\<exists>j < length cs. k = i + 1 + j \<and> Q (cs ! j)) \<Longrightarrow> \<exists>j < length (c # cs). k = i + j \<and> Q ((c # cs) ! j)" for k Q
    by (metis Suc_eq_plus1 add.assoc add.commute length_Cons nat_add_left_cancel_less nth_Cons_Suc plus_1_eq_Suc)
  show ?case
  proof (cases "fits P al sz c")
    case False
    then show ?thesis using Cons.IH[of best "i + 1"] Cons.prems later by (fastforce split: option.splits prod.splits)
  next
    case True
    then have sz: "sz \<le> c_size c" by (simp add: fits_def)
    define best1 where "best1 = (case best of None \<Rightarrow> Some (i, c_size c) | Some (_, s) \<Rightarrow> if c_size c < s then Some (i, c_size c) else best)"
    obtain b1 s1 where b1: "best1 = Some (b1, s1)" "s1 \<le> c_size c" "sz \<le> s1" "\<forall>b t. best = Some (b, t) \<longrightarrow> s1 \<le> t"
      "best = Some (b1, s1) \<or> b1 = i \<and> s1 = c_size c"
    proof (cases best)
      case None
      then show thesis using that[of i "c_size c"] sz by (simp add: best1_def)
    next
      case (Some bt)
      then show thesis
        using that[of i "c_size c"] that[of "fst bt" "snd bt"] sz Cons.prems
        by (cases bt, cases "c_size c < snd bt") (simp_all add: best1_def)
    qed
    show ?thesis
    proof (cases "c_size c = sz")
      case True
      have "sz \<le> c_size d" if "fits P al sz d" for d using that by (simp add: fits_def)
      then show ?thesis using True b1 \<open>fits P al sz c\<close>
        by (auto simp: best1_def[symmetric] Let_def intro: order_trans)
    next
      case no: False
      have "find_best P al sz best i (c # cs) = find_best P al sz best1 (i + 1) cs"
        using no True by (simp add: best1_def Let_def)
      then show ?thesis using Cons.IH[of best1 "i + 1"] b1 later True by (fastforce split: option.splits prod.splits)
    qed
  qed
qed

text \<open>The units of a size in bytes, unless adding 31 wraps.\<close>

definition units_of :: "u64 \<Rightarrow> nat" where
  "units_of sz = (unat sz + 31) div 32"

lemma units_of_pos: "sz \<noteq> 0 \<Longrightarrow> 0 < units_of sz"
  by (simp add: units_of_def unat_gt_0 Suc_le_eq div_greater_zero_iff)

lemma alloc_units:
  assumes "unat sz + 31 < 2 ^ 64"
  shows "unat ((sz + word_of_nat kMemoryAlign - 1) div word_of_nat kMemoryAlign) = units_of sz"
proof -
  have k: "word_of_nat kMemoryAlign = (32 :: u64)" by (simp add: kMemoryAlign_def)
  have "unat (sz + 31) = unat sz + 31" using assms by (simp add: unat_word_ariths(1))
  moreover have "sz + 32 - 1 = sz + 31" by simp
  ultimately show ?thesis by (simp only: k unat_div units_of_def) simp
qed

text \<open>Splitting a free chunk: what replaces it tiles the same units.\<close>

lemma split_chunk_spec:
  assumes "tiles s [c] e" "fits P al sz c" "0 < sz" "e < 2 ^ 28"
  shows "\<exists>new start. split_chunk P al sz c = (new, start) \<and> start = s + extra_for P al c \<and> tiles s new e
    \<and> blocks new = {(start, sz)} \<and> apart new \<and> (c_free (hd new) \<longrightarrow> start \<noteq> s) \<and> new \<noteq> []"
proof -
  let ?x = "extra_for P al c"
  have c: "c_start c = s" "c_size c = e - s" "s < e" "c_free c" "sz + ?x \<le> e - s" using assms by (auto simp: fits_def)
  then have small: "bits28 sz = sz" "bits28 ?x = ?x" using assms(4) by simp_all
  show ?thesis
  proof (cases "c_size c > sz")
    case True
    have "bits28 (e - s - sz - ?x) = e - s - sz - ?x" using assms(4) by simp
    then show ?thesis using c small True assms(3)
      by (auto simp: split_chunk_def chunk_t_def Let_def nat_diff_distrib)
  next
    case False
    then have "?x = 0" "sz = e - s" using c by simp_all
    then show ?thesis using c small False assms(3) by (auto simp: split_chunk_def)
  qed
qed

lemma blocks_free [simp]: "c_free c \<Longrightarrow> blocks [c] = {}"
  by simp

text \<open>The parts of a heap around a chunk.\<close>

lemma heap_split:
  assumes "heap_ok H (xs @ c # ys)"
  obtains e where "tiles 0 xs (c_start c)" "tiles (c_start c) [c] e" "tiles e ys H" "apart xs" "apart ys" "e \<le> H" "H < 2 ^ 28"
    "xs \<noteq> [] \<Longrightarrow> \<not> (c_free (last xs) \<and> c_free c)" "ys \<noteq> [] \<Longrightarrow> \<not> (c_free c \<and> c_free (hd ys))"
proof -
  have t: "tiles 0 xs (c_start c)" "tiles (c_start c) [c] (c_start c + c_size c)" "tiles (c_start c + c_size c) ys H"
    using assms by (auto simp: heap_ok_def tiles_append)
  then show thesis using that[OF t] assms tiles_le[OF t(3)]
    by (auto simp: heap_ok_def apart_append apart_Cons)
qed

lemma heap_join:
  assumes "tiles 0 xs s" "tiles s new e" "tiles e ys H" "H < 2 ^ 28" "apart xs" "apart new" "apart ys" "new \<noteq> []"
    "xs \<noteq> [] \<Longrightarrow> \<not> (c_free (last xs) \<and> c_free (hd new))" "ys \<noteq> [] \<Longrightarrow> \<not> (c_free (last new) \<and> c_free (hd ys))"
  shows "heap_ok H (xs @ new @ ys)"
  using assms unfolding heap_ok_def by (auto simp: tiles_append apart_append)

text \<open>
  An allocation either finds no free chunk with room and changes nothing, or adds exactly one
  block of the units of its size, outside all others and inside the heap, taken from a smallest
  free chunk with room.
\<close>

lemma alloc_spec:
  assumes "heap_ok H cs" "sz \<noteq> 0" "unat sz + 31 < 2 ^ 64"
  shows "(\<forall>c\<in>set cs. \<not> fits P al (units_of sz) c) \<and> alloc P al sz cs = (NO_MEMORY, cs)
    \<or> (\<exists>c start cs'. c \<in> set cs \<and> fits P al (units_of sz) c \<and> (\<forall>d\<in>set cs. fits P al (units_of sz) d \<longrightarrow> c_size c \<le> c_size d)
         \<and> start = c_start c + extra_for P al c \<and> alloc P al sz cs = (int (start * 32), cs') \<and> heap_ok H cs'
         \<and> blocks cs' = blocks cs \<union> {(start, units_of sz)} \<and> start + units_of sz \<le> c_start c + c_size c)"
proof (cases "find_best P al (units_of sz) None 0 cs")
  case None
  then have "\<forall>c\<in>set cs. \<not> fits P al (units_of sz) c" using find_best_spec[where best = None and sz = "units_of sz" and P = P and al = al and i = 0 and cs = cs] by simp
  then show ?thesis using None assms(2,3) by (simp add: alloc_def alloc_units)
next
  case (Some r)
  obtain i s where r: "r = (i, s)" by (cases r)
  then have i: "i < length cs" "fits P al (units_of sz) (cs ! i)" "\<forall>d\<in>set cs. fits P al (units_of sz) d \<longrightarrow> c_size (cs ! i) \<le> c_size d"
    using find_best_spec[where best = None and sz = "units_of sz" and P = P and al = al and i = 0 and cs = cs] Some by auto
  let ?c = "cs ! i" and ?xs = "take i cs" and ?ys = "drop (Suc i) cs"
  have cs: "cs = ?xs @ ?c # ?ys" using i(1) by (rule id_take_nth_drop)
  obtain e where e: "tiles 0 ?xs (c_start ?c)" "tiles (c_start ?c) [?c] e" "tiles e ?ys H" "apart ?xs" "apart ?ys" "e \<le> H" "H < 2 ^ 28"
    "?xs \<noteq> [] \<Longrightarrow> \<not> (c_free (last ?xs) \<and> c_free ?c)" "?ys \<noteq> [] \<Longrightarrow> \<not> (c_free ?c \<and> c_free (hd ?ys))"
    using assms(1) heap_split[of H ?xs ?c ?ys] cs by metis
  have free: "c_free ?c" using i(2) by (simp add: fits_def)
  obtain new start where new: "split_chunk P al (units_of sz) ?c = (new, start)" "start = c_start ?c + extra_for P al ?c"
    "tiles (c_start ?c) new e" "blocks new = {(start, units_of sz)}" "apart new" "new \<noteq> []"
    using split_chunk_spec[OF e(2) i(2) units_of_pos[OF assms(2)]] e(6,7) by auto
  have "heap_ok H (?xs @ new @ ?ys)"
    by (rule heap_join[OF e(1) new(3) e(3,7,4) new(5) e(5) new(6)]) (use e(8,9) free in auto)
  moreover have "alloc P al sz cs = (int (start * 32), ?xs @ new @ ?ys)"
    unfolding alloc_def Let_def alloc_units[OF assms(3)] using Some r assms(2) new(1) by (simp add: kMemoryAlign_def)
  moreover have "blocks cs = blocks ?xs \<union> blocks ?ys" using arg_cong[OF cs, of blocks] free by simp
  moreover have "?c \<in> set cs" using i(1) by simp
  moreover have "start + units_of sz \<le> c_start ?c + c_size ?c" using i(2) new(2) by (simp add: fits_def)
  ultimately show ?thesis using i(2,3) new(2,4) by (intro disjI2 exI[of _ ?c] exI[of _ start] exI[of _ "?xs @ new @ ?ys"]) auto
qed

section \<open>Deallocation\<close>

text \<open>What the merging does: a free chunk before and a free chunk behind are joined with the freed
  one.\<close>

definition join_front :: "chunk list \<Rightarrow> chunk \<Rightarrow> chunk list" where
  "join_front xs c = (if xs \<noteq> [] \<and> c_free (last xs)
     then butlast xs @ [(last xs)\<lparr>c_size := c_size (last xs) + c_size c\<rparr>] else xs @ [c])"

definition join_back :: "chunk list \<Rightarrow> chunk list \<Rightarrow> chunk list" where
  "join_back xs ys = (if ys \<noteq> [] \<and> c_free (hd ys)
     then butlast xs @ [(last xs)\<lparr>c_size := c_size (last xs) + c_size (hd ys)\<rparr>] @ tl ys else xs @ ys)"

lemma merge1_front:
  assumes "0 < c_size c" "c_free c" "f" "tiles 0 (xs @ [c]) e" "e < 2 ^ 28"
  shows "merge1 f (rev xs) c = (True, rev (join_front xs c))"
proof (cases xs rule: rev_cases)
  case Nil
  then show ?thesis using assms by (simp add: merge1_def join_front_def)
next
  case (snoc zs p)
  have "c_size p + c_size c < 2 ^ 28" using assms(4,5) snoc by (auto simp: tiles_append)
  then show ?thesis using assms snoc by (auto simp: merge1_def join_front_def)
qed

lemma join_front_tiles:
  assumes "tiles 0 xs (c_start c)" "0 < c_size c" "c_free c" "apart xs"
  shows "tiles 0 (join_front xs c) (c_start c + c_size c) \<and> apart (join_front xs c) \<and> join_front xs c \<noteq> []
    \<and> c_free (last (join_front xs c)) \<and> blocks (join_front xs c) = blocks xs"
proof (cases xs rule: rev_cases)
  case (snoc zs p)
  then show ?thesis using assms
    by (cases "c_free p") (auto simp: join_front_def tiles_append apart_append)
qed (use assms in \<open>auto simp: join_front_def\<close>)

lemma join_back_tiles:
  assumes "tiles 0 xs m" "apart xs" "xs \<noteq> []" "c_free (last xs)" "tiles m ys H" "apart ys" "H < 2 ^ 28"
  shows "heap_ok H (join_back xs ys) \<and> blocks (join_back xs ys) = blocks xs \<union> blocks ys"
proof -
  obtain zs p where xs: "xs = zs @ [p]" using assms(3) by (cases xs rule: rev_cases) auto
  show ?thesis
  proof (cases ys)
    case Nil
    then show ?thesis using assms by (simp add: join_back_def heap_ok_def)
  next
    case (Cons n rest)
    then show ?thesis using assms xs
      by (cases "c_free n") (auto simp: join_back_def heap_ok_def tiles_append apart_append apart_Cons add.assoc[symmetric])
  qed
qed

lemma merge_free_joins:
  assumes "tiles 0 xs (c_start c)" "0 < c_size c" "c_free c" "apart xs" "tiles (c_start c + c_size c) ys H" "apart ys" "H < 2 ^ 28"
  shows "merge_free True (rev xs) c ys = (True, join_back (join_front xs c) ys)"
proof -
  let ?j = "join_front xs c"
  have e: "c_start c + c_size c \<le> H" using tiles_le[OF assms(5)] .
  have m1: "merge1 True (rev xs) c = (True, rev ?j)"
    using assms e by (intro merge1_front[where e = "c_start c + c_size c"]) (auto simp: tiles_append)
  have j: "?j \<noteq> []" "c_free (last ?j)" "tiles 0 ?j (c_start c + c_size c)" using join_front_tiles[OF assms(1-4)] by auto
  show ?thesis
  proof (cases ys)
    case Nil
    then show ?thesis using m1 by (simp add: join_back_def)
  next
    case (Cons n rest)
    obtain zs p where zs: "?j = zs @ [p]" using j(1) by (cases ?j rule: rev_cases) auto
    show ?thesis
    proof (cases "c_free n")
      case True
      have "c_size p + c_size n < 2 ^ 28" using j(3) assms(5,7) Cons zs tiles_le by (fastforce simp: tiles_append)
      then have "merge1 True (rev ?j) n = (True, rev (zs @ [p\<lparr>c_size := c_size p + c_size n\<rparr>]))"
        using j(2) zs by (simp add: merge1_def)
      moreover have "rest \<noteq> [] \<Longrightarrow> \<not> c_free (hd rest)" using assms(6) Cons True by (simp add: apart_Cons)
      ultimately show ?thesis using m1 Cons True zs
        by (cases rest) (auto simp: join_back_def)
    qed (use m1 Cons in \<open>simp add: join_back_def\<close>)
  qed
qed

lemma dealloc_from_finds:
  "tiles s (xs @ c # ys) e \<Longrightarrow> dealloc_from checks (c_start c) before (xs @ c # ys)
     = dealloc_from checks (c_start c) (rev xs @ before) (c # ys)"
proof (induction xs arbitrary: s before)
  case (Cons x xs)
  have "c_start x < c_start c" using Cons.prems tiles_range[of "s + c_size x" "xs @ c # ys" e c] by auto
  then show ?case using Cons.IH[of "s + c_size x" "x # before"] Cons.prems by simp
qed simp

text \<open>Deallocation of an allocated block takes exactly this block away, with and without the
  checks, and returns \<open>NO_ERROR\<close>.\<close>

lemma deallocate_spec:
  assumes "heap_ok H cs" "(start, n) \<in> blocks cs"
  shows "\<exists>cs'. deallocate checks (start * 32) cs = Some (0, cs') \<and> heap_ok H cs' \<and> blocks cs' = blocks cs - {(start, n)}"
proof -
  obtain c where c: "c \<in> set cs" "c_start c = start" "c_size c = n" "\<not> c_free c" using assms(2) by (auto simp: blocks_def)
  then obtain xs ys where cs: "cs = xs @ c # ys" by (meson split_list)
  obtain e where e: "tiles 0 xs (c_start c)" "tiles (c_start c) [c] e" "tiles e ys H" "apart xs" "apart ys" "e \<le> H" "H < 2 ^ 28"
    using assms(1) heap_split[of H xs c ys] cs by metis
  let ?c = "c\<lparr>c_free := True\<rparr>"
  have len: "e = c_start c + c_size c" "0 < c_size c" using e(2) by auto
  have m: "merge_free True (rev xs) ?c ys = (True, join_back (join_front xs ?c) ys)"
    by (rule merge_free_joins[where H = H]) (use e len in auto)
  have t: "tiles 0 cs H" using assms(1) by (simp add: heap_ok_def)
  have d: "deallocate checks (start * 32) cs = Some (0, join_back (join_front xs ?c) ys)"
    using dealloc_from_finds[of 0 xs c ys H checks "[]"] t cs c m by (simp add: deallocate_def kMemoryAlign_def)
  have j: "tiles 0 (join_front xs ?c) e" "apart (join_front xs ?c)" "join_front xs ?c \<noteq> []" "c_free (last (join_front xs ?c))"
    "blocks (join_front xs ?c) = blocks xs"
    using join_front_tiles[of xs ?c] e len by auto
  have b: "heap_ok H (join_back (join_front xs ?c) ys)" "blocks (join_back (join_front xs ?c) ys) = blocks xs \<union> blocks ys"
    using join_back_tiles[OF j(1-4) e(3,5,7)] j(5) by auto
  have "(start, k) \<notin> blocks xs" "(start, k) \<notin> blocks ys" for k
    using blocks_range[OF e(1), of start k] blocks_range[OF e(3), of start k] c(2) len by auto
  then have "blocks xs \<union> blocks ys = blocks cs - {(start, n)}" using cs c by auto
  then show ?thesis using d b by auto
qed

section \<open>The specification\<close>

text \<open>Allocated blocks do not overlap.\<close>

lemma blocks_disjoint:
  "tiles s cs e \<Longrightarrow> (a, n) \<in> blocks cs \<Longrightarrow> (b, k) \<in> blocks cs \<Longrightarrow> (a, n) = (b, k) \<or> a + n \<le> b \<or> b + k \<le> a"
proof (induction cs arbitrary: s)
  case (Cons c cs)
  have "\<And>x m. (x, m) \<in> blocks cs \<Longrightarrow> s + c_size c \<le> x" using blocks_range[of "s + c_size c" cs e] Cons.prems(1) by auto
  then show ?case using Cons by (auto split: if_splits)
qed simp

lemma free_chunk_disjoint:
  "tiles s cs e \<Longrightarrow> c \<in> set cs \<Longrightarrow> c_free c \<Longrightarrow> (b, k) \<in> blocks cs \<Longrightarrow> c_start c + c_size c \<le> b \<or> b + k \<le> c_start c"
proof (induction cs arbitrary: s)
  case (Cons d cs)
  have "\<And>x m. (x, m) \<in> blocks cs \<Longrightarrow> s + c_size d \<le> x" "\<And>x. x \<in> set cs \<Longrightarrow> s + c_size d \<le> c_start x"
    using blocks_range[of "s + c_size d" cs e] tiles_range[of "s + c_size d" cs e] Cons.prems(1) by auto
  then show ?case using Cons by (fastforce split: if_splits)
qed simp

text \<open>Units that no block touches lie in one free chunk.\<close>

lemma gap_in_free_chunk:
  "tiles s cs e \<Longrightarrow> apart cs \<Longrightarrow> s \<le> a \<Longrightarrow> a + n \<le> e \<Longrightarrow> 0 < n \<Longrightarrow> (\<forall>(b, k) \<in> blocks cs. a + n \<le> b \<or> b + k \<le> a)
   \<Longrightarrow> \<exists>c\<in>set cs. c_free c \<and> n \<le> c_size c"
proof (induction cs arbitrary: s)
  case (Cons c cs)
  have t: "c_start c = s" "0 < c_size c" "tiles (s + c_size c) cs e" using Cons.prems(1) by auto
  show ?case
  proof (cases "s + c_size c \<le> a")
    case True
    then show ?thesis using Cons.IH[OF t(3) _ True] Cons.prems by (auto simp: apart_Cons)
  next
    case False
    then have free: "c_free c" using Cons.prems(6,3,5) t by (auto split: if_splits)
    have "a + n \<le> s + c_size c"
    proof (rule ccontr)
      assume gt: "\<not> a + n \<le> s + c_size c"
      then obtain d ds where cs: "cs = d # ds" using t(3) Cons.prems(4) by (cases cs) auto
      then have "\<not> c_free d" "c_start d = s + c_size c" using t(3) free Cons.prems(2) by auto
      then show False using Cons.prems(6) cs gt False by auto
    qed
    then show ?thesis using free Cons.prems(3) by auto
  qed
qed simp

text \<open>
  What an allocation of \<open>n\<close> units may answer on a heap of \<open>H\<close> units with blocks \<open>B\<close>: the offset of
  a new block inside the heap that overlaps no other; or \<open>NO_MEMORY\<close>, when every \<open>n\<close> consecutive
  units of the heap meet a block.
\<close>

definition alloc_answers :: "nat \<Rightarrow> nat \<Rightarrow> (nat \<times> nat) set \<Rightarrow> int \<Rightarrow> (nat \<times> nat) set \<Rightarrow> bool" where
  "alloc_answers H n B r B' \<longleftrightarrow>
     (r = NO_MEMORY \<and> B' = B \<and> (\<forall>a. a + n \<le> H \<longrightarrow> (\<exists>(b, k) \<in> B. a < b + k \<and> b < a + n)))
     \<or> (\<exists>a. r = int (a * 32) \<and> a + n \<le> H \<and> (\<forall>(b, k) \<in> B. a + n \<le> b \<or> b + k \<le> a) \<and> B' = B \<union> {(a, n)})"

lemma alloc_refines:
  assumes "heap_ok H cs" "sz \<noteq> 0" "unat sz + 31 < 2 ^ 64" "alloc P False sz cs = (r, cs')"
  shows "heap_ok H cs' \<and> alloc_answers H (units_of sz) (blocks cs) r (blocks cs')"
proof -
  have t: "tiles 0 cs H" "apart cs" using assms(1) by (auto simp: heap_ok_def)
  have fit: "fits P False (units_of sz) c \<longleftrightarrow> c_free c \<and> units_of sz \<le> c_size c" for c by (simp add: fits_def extra_for_def)
  consider "\<forall>c\<in>set cs. \<not> fits P False (units_of sz) c" "r = NO_MEMORY" "cs' = cs"
    | c where "c \<in> set cs" "c_free c" "r = int (c_start c * 32)" "heap_ok H cs'"
        "blocks cs' = blocks cs \<union> {(c_start c, units_of sz)}" "units_of sz \<le> c_size c"
    using alloc_spec[OF assms(1-3), of P False] assms(4) by (auto simp: fit extra_for_def)
  then show ?thesis
  proof cases
    case 1
    have "\<exists>(b, k) \<in> blocks cs. a < b + k \<and> b < a + units_of sz" if "a + units_of sz \<le> H" for a
      using gap_in_free_chunk[OF t _ that units_of_pos[OF assms(2)]] 1(1) by (fastforce simp: fit)
    then show ?thesis using 1 assms(1) by (simp add: alloc_answers_def)
  next
    case 2
    have "\<forall>(b, k) \<in> blocks cs. c_start c + units_of sz \<le> b \<or> b + k \<le> c_start c"
      using free_chunk_disjoint[OF t(1) 2(1,2)] 2(6) by fastforce
    moreover have "c_start c + units_of sz \<le> H" using tiles_range[OF t(1) 2(1)] 2(6) by linarith
    ultimately show ?thesis using 2 by (auto simp: alloc_answers_def)
  qed
qed

text \<open>Freeing any offset: without the checks it takes away the block that starts there, if any.\<close>

lemma deallocate_refines:
  assumes "heap_ok H cs"
  shows "\<exists>r cs'. deallocate False offset cs = Some (r, cs') \<and> heap_ok H cs' \<and> blocks cs' = {(a, n) \<in> blocks cs. a \<noteq> offset div 32}
    \<and> ((\<exists>n. (offset div 32, n) \<in> blocks cs) \<longrightarrow> r = 0)"
proof (cases "\<exists>c\<in>set cs. c_start c = offset div 32")
  case False
  have "\<forall>c\<in>set xs. c_start c \<noteq> st \<Longrightarrow> dealloc_from False st before xs = Some None" for st xs before
    by (induction xs arbitrary: before) auto
  then have "deallocate False offset cs = Some (NAME_NOT_FOUND, cs)" using False by (simp add: deallocate_def kMemoryAlign_def)
  moreover have "(offset div 32, n) \<notin> blocks cs" for n using False by (auto simp: blocks_def)
  then have "blocks cs = {(a, n) \<in> blocks cs. a \<noteq> offset div 32}" by auto
  ultimately show ?thesis using assms False by (auto simp: blocks_def)
next
  case True
  then obtain c where c: "c \<in> set cs" "c_start c = offset div 32" by blast
  then obtain xs ys where cs: "cs = xs @ c # ys" by (meson split_list)
  have t: "tiles 0 cs H" using assms by (simp add: heap_ok_def)
  show ?thesis
  proof (cases "c_free c")
    case True
    have ap: "xs \<noteq> [] \<Longrightarrow> \<not> c_free (last xs)" "ys \<noteq> [] \<Longrightarrow> \<not> c_free (hd ys)" "0 < c_size c"
      using assms True cs by (auto simp: heap_ok_def apart_append apart_Cons tiles_append)
    have "merge1 True (rev xs) c = (True, c # rev xs)" using ap(1,3) by (cases xs rule: rev_cases) (auto simp: merge1_def)
    then have "merge_free True (rev xs) c ys = (True, cs)" using ap(2) cs by (cases ys) auto
    moreover have "c\<lparr>c_free := True\<rparr> = c" using True by simp
    ultimately have "deallocate False offset cs = Some (0, cs)"
      using dealloc_from_finds[of 0 xs c ys H False "[]"] t cs c by (simp add: deallocate_def kMemoryAlign_def)
    moreover have "(offset div 32, n) \<notin> blocks cs" for n
    proof
      assume "(offset div 32, n) \<in> blocks cs"
      then have "c_start c + c_size c \<le> offset div 32 \<or> offset div 32 + n \<le> c_start c" "0 < n"
        using free_chunk_disjoint[OF t c(1) True] blocks_range[OF t] by blast+
      then show False using c(2) ap(3) by linarith
    qed
    then have "blocks cs = {(a, n) \<in> blocks cs. a \<noteq> offset div 32}" by auto
    ultimately show ?thesis using assms by auto
  next
    case False
    then have b: "(offset div 32, c_size c) \<in> blocks cs" using c False by (auto simp: blocks_def intro!: exI[of _ c])
    have only: "n = c_size c" if "(offset div 32, n) \<in> blocks cs" for n
      using blocks_disjoint[OF t b that] blocks_range[OF t b] blocks_range[OF t that] by auto
    obtain cs' where "deallocate False (offset div 32 * 32) cs = Some (0, cs')" "heap_ok H cs'"
      "blocks cs' = blocks cs - {(offset div 32, c_size c)}" using deallocate_spec[OF assms b] by blast
    moreover have "blocks cs - {(offset div 32, c_size c)} = {(a, n) \<in> blocks cs. a \<noteq> offset div 32}" using only by auto
    ultimately show ?thesis by (auto simp: deallocate_def kMemoryAlign_def)
  qed
qed

text \<open>A dealer over its life: allocations and deallocations in any order, each of any offset.\<close>

datatype dealer_op = Allocate u64 | Deallocate nat

fun dealer_step :: "nat \<Rightarrow> dealer_op \<Rightarrow> chunk list \<Rightarrow> (int \<times> chunk list) option" where
  "dealer_step P (Allocate sz) cs = Some (alloc P False sz cs)"
| "dealer_step P (Deallocate offset) cs = deallocate False offset cs"

fun spec_step :: "nat \<Rightarrow> dealer_op \<Rightarrow> (nat \<times> nat) set \<Rightarrow> int \<Rightarrow> (nat \<times> nat) set \<Rightarrow> bool" where
  "spec_step H (Allocate sz) B r B' \<longleftrightarrow> alloc_answers H (units_of sz) B r B'"
| "spec_step H (Deallocate offset) B r B' \<longleftrightarrow> B' = {(a, n) \<in> B. a \<noteq> offset div 32} \<and> ((\<exists>n. (offset div 32, n) \<in> B) \<longrightarrow> r = 0)"

fun dealer_run :: "nat \<Rightarrow> dealer_op list \<Rightarrow> chunk list \<Rightarrow> (int list \<times> chunk list) option" where
  "dealer_run P [] cs = Some ([], cs)"
| "dealer_run P (x # xs) cs = (case dealer_step P x cs of
     None \<Rightarrow> None
   | Some (r, cs1) \<Rightarrow> map_option (\<lambda>(rs, cs2). (r # rs, cs2)) (dealer_run P xs cs1))"

fun spec_run :: "nat \<Rightarrow> dealer_op list \<Rightarrow> (nat \<times> nat) set \<Rightarrow> int list \<Rightarrow> (nat \<times> nat) set \<Rightarrow> bool" where
  "spec_run H [] B rs B' \<longleftrightarrow> rs = [] \<and> B' = B"
| "spec_run H (x # xs) B rs B' \<longleftrightarrow> (\<exists>r rs1 B1. rs = r # rs1 \<and> spec_step H x B r B1 \<and> spec_run H xs B1 rs1 B')"

definition op_ok :: "dealer_op \<Rightarrow> bool" where
  "op_ok x \<longleftrightarrow> (case x of Allocate sz \<Rightarrow> sz \<noteq> 0 \<and> unat sz + 31 < 2 ^ 64 | Deallocate _ \<Rightarrow> True)"

lemma dealer_run_refines:
  "heap_ok H cs \<Longrightarrow> list_all op_ok xs
   \<Longrightarrow> \<exists>rs cs'. dealer_run P xs cs = Some (rs, cs') \<and> heap_ok H cs' \<and> spec_run H xs (blocks cs) rs (blocks cs')"
proof (induction xs arbitrary: cs)
  case (Cons x xs)
  obtain r cs1 where s: "dealer_step P x cs = Some (r, cs1)" "heap_ok H cs1" "spec_step H x (blocks cs) r (blocks cs1)"
  proof (cases x)
    case (Allocate sz)
    obtain r cs1 where "alloc P False sz cs = (r, cs1)" by (cases "alloc P False sz cs")
    then show thesis using alloc_refines[of H cs sz P r cs1] Allocate Cons.prems that by (auto simp: op_ok_def)
  next
    case (Deallocate offset)
    then show thesis using deallocate_refines[OF Cons.prems(1), of offset] that by fastforce
  qed
  then obtain rs cs' where "dealer_run P xs cs1 = Some (rs, cs')" "heap_ok H cs'" "spec_run H xs (blocks cs1) rs (blocks cs')"
    using Cons.IH[OF s(2)] Cons.prems(2) by auto
  then show ?case using s by auto
qed auto

text \<open>The heap at the start.\<close>

lemma dealer_start:
  assumes "SimpleBestFitAllocator P sz = (hsize, cs)" "32 \<le> unat hsize" "unat hsize div 32 < 2 ^ 28"
  shows "heap_ok (unat hsize div 32) cs \<and> blocks cs = {}"
  using assms by (auto simp: SimpleBestFitAllocator_def Let_def chunk_t_def heap_ok_def kMemoryAlign_def Suc_le_eq div_greater_zero_iff)

text \<open>C13: The allocator of a heap below 8 GB does, for any sequence of allocations and deallocations
  (of any offsets, in builds without the fatal checks), what its specification allows: it starts with no
  blocks; an allocation returns the offset of a block of the size asked, rounded up to 32 bytes,
  inside the heap and apart from all others, and fails only when no gap is large enough; freeing removes
  exactly the block at the offset. When no block is left the heap is again one free chunk.\<close>

theorem allocator_refines_blocks:
  assumes "SimpleBestFitAllocator P sz = (hsize, cs)" "32 \<le> unat hsize" "unat hsize div 32 < 2 ^ 28" "list_all op_ok xs"
  shows "\<exists>rs cs'. dealer_run P xs cs = Some (rs, cs') \<and> spec_run (unat hsize div 32) xs {} rs (blocks cs')
    \<and> (blocks cs' = {} \<longrightarrow> cs' = cs)"
proof -
  let ?H = "unat hsize div 32"
  have start: "heap_ok ?H cs" "blocks cs = {}" using dealer_start[OF assms(1-3)] by auto
  obtain rs cs' where r: "dealer_run P xs cs = Some (rs, cs')" "heap_ok ?H cs'" "spec_run ?H xs {} rs (blocks cs')"
    using dealer_run_refines[OF start(1) assms(4), of P] start(2) by auto
  then show ?thesis using all_free[OF start] all_free[OF r(2)] by auto
qed

text \<open>C14: Allocating and freeing again restores the list of chunks, whatever chunk was split and
  how, with page alignment or without.\<close>

theorem alloc_dealloc_restores:
  assumes "heap_ok H cs" "sz \<noteq> 0" "unat sz + 31 < 2 ^ 64" "alloc P al sz cs = (offset, cs')" "0 \<le> offset"
  shows "deallocate checks (nat offset) cs' = Some (0, cs)"
proof -
  obtain c start where a: "c \<in> set cs" "fits P al (units_of sz) c" "start = c_start c + extra_for P al c"
    "offset = int (start * 32)" "heap_ok H cs'" "blocks cs' = blocks cs \<union> {(start, units_of sz)}" "start + units_of sz \<le> c_start c + c_size c"
    using alloc_spec[OF assms(1-3), of P al] assms(4,5) by (auto simp: NO_MEMORY_def)
  have free: "c_free c" using a(2) by (simp add: fits_def)
  have "(start, units_of sz) \<notin> blocks cs"
    using free_chunk_disjoint[OF _ a(1) free, of 0 H start "units_of sz"] assms(1) a(3,7) units_of_pos[OF assms(2)]
    by (auto simp: heap_ok_def)
  moreover obtain ds where d: "deallocate checks (start * 32) cs' = Some (0, ds)" "heap_ok H ds" "blocks ds = blocks cs' - {(start, units_of sz)}"
    using deallocate_spec[OF a(5), of start "units_of sz" checks] a(6) by auto
  ultimately have "blocks ds = blocks cs" using a(6) by auto
  then have "ds = cs" using d(2) assms(1) by (auto simp: heap_ok_def intro: blocks_determine_list)
  moreover have "nat offset = start * 32" using a(4) by (simp add: nat_mult_distrib)
  ultimately show ?thesis using d(1) by simp
qed

text \<open>The smallest free chunk that has room is taken.\<close>

theorem alloc_best_fit:
  assumes "heap_ok H cs" "sz \<noteq> 0" "unat sz + 31 < 2 ^ 64" "alloc P False sz cs = (offset, cs')" "0 \<le> offset"
  shows "\<exists>c\<in>set cs. c_free c \<and> offset = int (c_start c * 32) \<and> units_of sz \<le> c_size c
    \<and> (\<forall>d\<in>set cs. c_free d \<and> units_of sz \<le> c_size d \<longrightarrow> c_size c \<le> c_size d)"
  using alloc_spec[OF assms(1-3), of P False] assms(4,5) by (auto simp: NO_MEMORY_def fits_def extra_for_def)

section \<open>Sizes that wrap, and pages\<close>

text \<open>A size that is not rounded up without wrapping is granted whenever anything is free: a block
  of no units, for which the dealer returns memory of the size asked.\<close>

theorem huge_allocation_succeeds:
  assumes "2 ^ 64 \<le> unat sz + 31" "\<exists>c\<in>set cs. c_free c"
  shows "\<exists>offset cs'. alloc P False sz cs = (offset, cs') \<and> dealer_allocate P sz cs = (Some (offset, sz), cs')"
proof -
  have nz: "sz \<noteq> 0" using assms(1) by auto
  have k: "word_of_nat kMemoryAlign = (32 :: u64)" by (simp add: kMemoryAlign_def)
  have "unat (sz + 31) = (unat sz + 31) mod 2 ^ 64" by (simp add: unat_word_ariths(1))
  moreover obtain r where "unat sz + 31 = 2 ^ 64 + r" using assms(1) le_Suc_ex by blast
  moreover from this have "r < 32" using unsigned_less[of sz, where ?'a = nat] by simp
  ultimately have "unat (sz + 31) < 32" by simp
  moreover have "sz + 32 - 1 = sz + 31" by simp
  ultimately have u: "unat ((sz + word_of_nat kMemoryAlign - 1) div word_of_nat kMemoryAlign) = 0"
    by (simp only: k unat_div) simp
  obtain c where c: "c \<in> set cs" "fits P False 0 c" using assms(2) by (auto simp: fits_def extra_for_def)
  then obtain i s where f: "find_best P False 0 None 0 cs = Some (i, s)"
    using find_best_spec[where best = None and sz = 0 and P = P and al = False and i = 0 and cs = cs] by (fastforce split: option.splits)
  obtain new start where "split_chunk P False 0 (cs ! i) = (new, start)" by (cases "split_chunk P False 0 (cs ! i)")
  then have "alloc P False sz cs = (int (start * kMemoryAlign), take i cs @ new @ drop (i + 1) cs)"
    unfolding alloc_def Let_def u using f nz by simp
  then show ?thesis by (auto simp: dealer_allocate_def)
qed

lemma unat_round_down:
  assumes "k < 64"
  shows "unat (round_down (2 ^ k) n) = unat n div 2 ^ k * 2 ^ k"
proof -
  have "word_of_nat (2 ^ k - 1) = (mask k :: u64)" by (simp add: mask_eq_exp_minus_1 of_nat_diff)
  then have "round_down (2 ^ k) n = push_bit k (drop_bit k n)"
    by (simp add: round_down_def) (rule bit_word_eqI, auto simp: bit_simps)
  then have "unat (round_down (2 ^ k) n) = take_bit 64 (push_bit k (drop_bit k (unat n)))"
    using unsigned_less[of n, where ?'a = nat] by (simp add: unsigned_push_bit_eq unsigned_drop_bit_eq take_bit_nat_eq_self)
  then have "unat (round_down (2 ^ k) n) = take_bit 64 (unat n div 2 ^ k * 2 ^ k)"
    by (simp add: push_bit_eq_mult drop_bit_eq_div)
  moreover have "unat n < 2 ^ 64" using unsigned_less[of n, where ?'a = nat] by simp
  from le_less_trans[OF div_times_less_eq_dividend this] have "unat n div 2 ^ k * 2 ^ k < 2 ^ 64" .
  ultimately show ?thesis using take_bit_nat_eq_self[of "unat n div 2 ^ k * 2 ^ k" 64] by simp
qed

lemma unat_of_nat64: "m < 2 ^ 64 \<Longrightarrow> unat (word_of_nat m :: u64) = m"
  by (simp add: unat_of_nat take_bit_nat_eq_self)

lemma unat_round_up:
  assumes "k < 32" "unat n + 2 ^ 33 \<le> 2 ^ 64"
  shows "unat (round_up (2 ^ k) n) = (unat n + 2 ^ k - 1) div 2 ^ k * 2 ^ k" "unat n \<le> unat (round_up (2 ^ k) n)"
proof -
  have p: "(2 :: nat) ^ k < 2 ^ 32" by (rule power_strict_increasing) (use assms(1) in simp_all)
  have "unat (n + (word_of_nat (2 ^ k) - 1)) = unat n + (2 ^ k - 1)"
  proof -
    have "word_of_nat (2 ^ k) - 1 = (word_of_nat (2 ^ k - 1) :: u64)" by (simp add: of_nat_diff)
    moreover have "unat (word_of_nat (2 ^ k - 1) :: u64) = 2 ^ k - 1" by (rule unat_of_nat64) (use p in simp)
    ultimately show ?thesis using p assms(2) by (simp add: unat_word_ariths(1))
  qed
  then have "unat (n + word_of_nat (2 ^ k) - 1) = unat n + (2 ^ k - 1)" unfolding add_diff_eq .
  moreover have "round_up (2 ^ k) n = round_down (2 ^ k) (n + word_of_nat (2 ^ k) - 1)" by (simp add: round_up_def round_down_def)
  ultimately show eq: "unat (round_up (2 ^ k) n) = (unat n + 2 ^ k - 1) div 2 ^ k * 2 ^ k"
    using assms(1) by (simp add: unat_round_down del: of_nat_power)
  have "unat n + 2 ^ k - 1 = (unat n + 2 ^ k - 1) div 2 ^ k * 2 ^ k + (unat n + 2 ^ k - 1) mod 2 ^ k"
    by (rule div_mult_mod_eq[symmetric])
  moreover have "(unat n + 2 ^ k - 1) mod 2 ^ k < 2 ^ k" by simp
  ultimately show "unat n \<le> unat (round_up (2 ^ k) n)" unfolding eq by linarith
qed

text \<open>The pages an allocation gives back to the kernel when it ends lie inside its block.\<close>

theorem pages_given_back_inside:
  assumes "pages_given_back (2 ^ k) off sz = Some (s, e)" "k < 32" "unat off + unat sz + 2 ^ 33 \<le> 2 ^ 64"
  shows "unat off \<le> unat s \<and> unat s < unat e \<and> unat e \<le> unat off + unat sz \<and> 2 ^ k dvd unat s \<and> 2 ^ k dvd unat e"
proof -
  have sum: "unat (off + sz) = unat off + unat sz" using assms(3) by (simp add: unat_word_ariths(1))
  have k: "k < 64" using assms(2) by simp
  have "round_down (2 ^ k) off \<le> off" by (simp add: word_le_nat_alt unat_round_down[OF k] div_times_less_eq_dividend)
  moreover have up: "off + sz \<le> round_up (2 ^ k) (off + sz)"
    using unat_round_up(2)[OF assms(2), of "off + sz"] assms(3) by (simp add: word_le_nat_alt sum)
  ultimately have se: "s = round_up (2 ^ k) off" "e = round_down (2 ^ k) (off + sz)" "s < e"
    using assms(1) by (auto simp: pages_given_back_def Let_def not_less split: if_splits)
  show ?thesis
    using se(3) unat_round_up[OF assms(2), of off] assms(3)
    by (simp add: se(1,2) word_less_nat_alt unat_round_down[OF k] sum div_times_less_eq_dividend)
qed

section \<open>A concrete heap\<close>

text \<open>A heap of one page of 4096 bytes: 128 units.\<close>

lemma demo_heap: "SimpleBestFitAllocator 4096 4000 = (4096, [\<lparr>c_start = 0, c_size = 128, c_free = True\<rparr>])"
  by (simp add: SimpleBestFitAllocator_def round_up_def chunk_t_def kMemoryAlign_def)

lemma allocator_refines_blocks_witness:
  "\<exists>rs cs'. dealer_run 4096 [Allocate 100, Allocate 4096, Deallocate 0] [\<lparr>c_start = 0, c_size = 128, c_free = True\<rparr>] = Some (rs, cs')
    \<and> spec_run 128 [Allocate 100, Allocate 4096, Deallocate 0] {} rs (blocks cs')"
  using allocator_refines_blocks[OF demo_heap, of "[Allocate 100, Allocate 4096, Deallocate 0]"]
  by (simp add: op_ok_def del: dealer_run.simps spec_run.simps) blast

lemma alloc_dealloc_restores_witness:
  "\<exists>cs'. alloc 4096 True 100 [\<lparr>c_start = 0, c_size = 8, c_free = False\<rparr>, \<lparr>c_start = 8, c_size = 248, c_free = True\<rparr>] = (4096, cs')
    \<and> deallocate True 4096 cs' = Some (0, [\<lparr>c_start = 0, c_size = 8, c_free = False\<rparr>, \<lparr>c_start = 8, c_size = 248, c_free = True\<rparr>])"
proof -
  let ?cs = "[\<lparr>c_start = 0, c_size = 8, c_free = False\<rparr>, \<lparr>c_start = 8, c_size = 248, c_free = True\<rparr>]"
  have "heap_ok 256 ?cs" by (simp add: heap_ok_def)
  moreover obtain cs' where a: "alloc 4096 True 100 ?cs = (4096, cs')"
    by (auto simp: alloc_def Let_def fits_def extra_for_def kMemoryAlign_def split_chunk_def unat_div)
  ultimately show ?thesis using alloc_dealloc_restores[OF _ _ _ a] a by fastforce
qed

end
