(* ===== verification/Spec2Isabelle.thy ===== *)
theory Spec2Isabelle
  imports BootAvb BootRecovery EnvInit AutoShutdown SocketRun ServThread SocketV2Props AmlLogOut SvcServe LogBinary LogFormat WifiProps WpaProps FotaProps Battery FakeLogProps UnicodeProps MemDealerProps
begin

text \<open>
  Verification of the common library of the Amlogic vendor tree (\<open>vendor-aml-commonlib\<close>): the
  C components that keep a device's boot state, its U-Boot environment, its idle shutdown and
  the messages between its processes, and the tools that use them: logging, Wi-Fi, software
  update, battery.

  \<^bold>\<open>The parts and how they interact.\<close> The bootloader and Linux share two areas of flash. The
  \<open>misc\<close> partition holds the bootloader message (\<open>src/bootloader_message\<close>): commands to the
  recovery system, the URL of an update, the active slot. It is reached as a block device or
  through the MTD driver of a NAND flash. The environment partition holds the U-Boot
  environment (\<open>src/ubootenv\<close>), a checksummed list of \<open>key=value\<close> strings that several
  processes read and write through a shared memory object. Both use a CRC-32, computed by two
  different routines. Beside them are the daemon that switches an idle device off
  (\<open>src/utils/auto_shutdown.c\<close>) and two libraries for calls between processes: datagrams with
  typed arguments (\<open>src/aml_socketipc\<close>) and a TCP server that distributes messages to
  registered clients (\<open>src/aml_socketipc_v2\<close>).

  \<^bold>\<open>The theories.\<close>

  \<^item> \<open>Prelude\<close>, \<open>CText\<close>, \<open>Codec\<close>, \<open>Links\<close>: machine types, C strings in buffers and the functions
    of the C library on them; numbers as text; structures copied to and from bytes, with the
    interfaces \<open>struct_codec\<close> and \<open>struct_in_buffer\<close>; lists linked by pointers in a store.
  \<^item> \<open>Crc\<close>: \<open>crc32\<close> of \<open>ubootenv.c\<close> and the table-driven \<open>avb_crc32\<close> of \<open>avb_crc32.c\<close>, their
    equivalence, and that a change of one byte changes the checksum.
  \<^item> \<open>MiscDev\<close>, \<open>BootAvb\<close>: \<open>bootloader_avb.c\<close>, the A/B metadata of the misc partition; what
    choosing a slot and marking it successful store and what reading them back reports.
  \<^item> \<open>Nand\<close>: the block-wise access of \<open>bootloader_message.c\<close> to a NAND partition with bad blocks,
    over the operations of the MTD driver (interface \<open>mtd_driver\<close>).
  \<^item> \<open>BootMessage\<close>, \<open>BootRecovery\<close>: the rest of \<open>bootloader_message.c\<close> and \<open>urlmisc.c\<close>; the
    interface \<open>message_store\<close> of reading and writing the message, provided by both devices; the
    commands built on it, and the scan of \<open>/proc/mtd\<close>.
  \<^item> \<open>EnvKv\<close>, \<open>Ubootenv\<close>, \<open>EnvShare\<close>, \<open>EnvProps\<close>, \<open>EnvInit\<close>: \<open>ubootenv.c\<close> and \<open>uenv_test.c\<close>. The
    list of entries with its interface \<open>kv_store\<close> and the serialized form; the whole library
    over a record of the shared object, the device and the process; the invariant of the shared
    object and the refinement of a finite map by any interleaving of operations of several
    processes; restarts, damage, failures, retries.
  \<^item> \<open>AutoShutdown\<close>: the daemon's state machine over its events, when it shuts down and when not.
  \<^item> \<open>SocketIpc\<close>, \<open>SocketChan\<close>, \<open>SocketCall\<close>, \<open>SocketRun\<close>, \<open>ServThread\<close>: \<open>aml_socketipc.c\<close> and the handlers its
    header generates. The wire format, with the interface \<open>sipc_datatype\<close> each data type
    provides; channels, peers and functions in explicit stores; a call from its caller to its
    handler and back; the main loop with its levels; the serving thread and the closing thread with their mutex, as a step
    relation.
  \<^item> \<open>UtilList\<close>, \<open>SocketV2\<close>, \<open>SocketV2Props\<close>: \<open>util_list.c\<close> as a doubly linked list in a store that
    implements a queue (interface \<open>fifo\<close>); \<open>socket_util.c\<close>, \<open>socket_server.c\<close> and
    \<open>socket_client.c\<close> on it.
  \<^item> \<open>EventTags\<close>: \<open>src/liblog/event_tag_map.c\<close>, the names of event numbers: parsing the mapped
    file, sorting with a comparison function that is an order only on small numbers, and the
    binary search.
  \<^item> \<open>LogFilter\<close>, \<open>LogEntry\<close>, \<open>LogBinary\<close>, \<open>LogFormat\<close>: \<open>src/liblog/logprint.c\<close> and \<open>logd_write.c\<close>. Filter
    strings as a map from tags to levels; a message written to a log device and split again, whole or
    cut; binary events printed within their buffer, from the bytes written back to their text;
    lines formatted into a buffer that holds them, with their URLs hidden, and written.
  \<^item> \<open>FakeLog\<close>, \<open>FakeLogProps\<close>: \<open>src/liblog/fake_log_device.c\<close>, the log device of systems without one: the levels of its tags, the
    file its messages are appended to until its size is exceeded and overwritten at the start afterwards, and its lock.
  \<^item> \<open>WifiTable\<close>, \<open>WifiDriver\<close>, \<open>WifiProps\<close>: \<open>src/utils/multi_wifi_load_driver.c\<close>. The table of Wi-Fi chips and
    the texts made from it, which fit their buffers; finding the chip, loading and unloading its modules as a
    sequence of actions, its specification for every answer of the kernel, and what is in the kernel afterwards.
  \<^item> \<open>QSort\<close>, \<open>WpaScan\<close>, \<open>WpaNet\<close>, \<open>WpaProps\<close>: \<open>src/aml_wpa_wifi_util\<close>. The result of \<open>qsort\<close> for a comparison
    function that agrees with a key; the results of a scan parsed, sorted and reduced to one entry for each name; the
    manager of saved networks with its commands, events and watching thread, over an arbitrary \<open>wpa_supplicant\<close>,
    and for the removal of a network one that keeps its networks as documented.
  \<^item> \<open>DeviceProps\<close>, \<open>Fota\<close>, \<open>FotaProps\<close>: \<open>src/aml_deviceproperty\<close>, \<open>src/aml_utility\<close> and \<open>src/utils/fota_upgrade.c\<close>.
    A file of properties as a map, keys written and read back; the program that fetches a new version of the software, over the
    update library's answers, and starts the recovery system exactly for a package with the announced digest.
  \<^item> \<open>Battery\<close>: \<open>src/utils/battery_monitor.c\<close>, the reaction to the capacities in the uevents of a battery.
  \<^item> \<open>AmlLog\<close>, \<open>AmlLogOut\<close>: \<open>src/aml_log\<close>. Categories and their levels over a store of addresses,
    settings as text, with the C library's regular expressions as arguments; the refinement of a
    map from names to levels, registration, restarts. Messages, and the rotation of the log file
    over the buffers of the C library, as an inductive run; traces.
  \<^item> \<open>Unicode\<close>, \<open>UnicodeProps\<close>: \<open>src/libbinder/utils/Unicode.cpp\<close>, the conversions between UTF-8, UTF-16 and UTF-32:
    faithful on code points, their measured lengths exact, and the strings for which they are not.
  \<^item> \<open>MemDealer\<close>, \<open>MemDealerProps\<close>: \<open>src/libbinder/binder/MemoryDealer.cpp\<close>, the best-fit allocator of a shared
    memory heap: its chunks tile the heap, no two free ones side by side; what it grants and takes back refines a set
    of disjoint blocks, and the pages given back to the kernel lie inside the block freed.
  \<^item> \<open>BinderIo\<close>, \<open>SvcManager\<close>, \<open>SvcServe\<close>: \<open>src/libbinder/servicemgr\<close>. Messages in transaction buffers
    and their round trip; the service manager's list, handler, parser and loop over the driver's
    answers, with the interface \<open>registry\<close>; the references it holds, the answers it gives, and a
    service's way from one client's transaction to another's.

  \<^bold>\<open>How the code is represented.\<close> C structures are records, \<open>enum\<close>s and commands datatypes or
  named integers, 32-bit values words where they wrap. Linked lists that only one function
  walks are lists (the environment's entries); where freeing and aliasing matter they are
  stores of nodes. Undefined behaviour and calls that wait for ever are \<^const>\<open>None\<close>; errors the
  code reports are its return codes, and \<open>exit\<close> is a value of its own. What the system answers
  (devices, sockets, \<open>select\<close>, signals) is an argument of the operations.

  \<^bold>\<open>Loops.\<close> Loops over buffers and tables are recursive functions; the loops that follow links or
  erase blocks and might not end are partial functions into options, and the theorems that they
  return are proved from the invariant that makes them end. No operation uses fuel; the retries
  of \<open>ubootenv.c\<close> are counted as the code counts them.

  \<^bold>\<open>Not modelled.\<close> Concurrency is modelled where a property is about it (the shared environment,
  the serving thread); elsewhere the operations of a component run one at a time. The rest of
  the repository is not modelled: the vendored Android libraries (the rest of \<open>libbinder\<close>, \<open>libatrace\<close>,
  \<open>logcat\<close>, \<open>logwrapper\<close>) and C++ programs; the wrappers over D-Bus and ALSA, which are
  mostly calls of libraries outside the repository.

  \<^bold>\<open>What could follow.\<close> The remaining code of the repository's own is in small tools under \<open>utils\<close>
  whose content is the order of calls of ALSA, D-Bus, HID and sysfs: a model of them would be a trace of calls of
  functions that are not here. The Android libraries are vendored and have their own upstream.
\<close>

end
